(* ===== verification/Prelude.thy ===== *)
theory Prelude
  imports Main "HOL-Library.AList" "HOL-Library.Word" "HOL-Library.Multiset"
begin

text \<open>
  Shared vocabulary of the development: the machine types of
  \<^verbatim>\<open>core/types.hpp\<close>, models of the standard containers the sources use
  (\<^verbatim>\<open>std::map\<close> as an association list kept sorted by a strict order,
  \<^verbatim>\<open>std::unordered_map\<close> as an association list with distinct keys), and the
  generic lemmas on them that the component theories share.
\<close>

unbundle bit_operations_syntax

section \<open>Machine types\<close>

text \<open>
  Unsigned types keep their width: ids, sequence numbers and checksums are words and wrap.
  Signed 64-bit types are mathematical integers: overflow of a signed integer is undefined
  behaviour in C++, so the model is exact on every execution that has a defined result, and
  \<open>fits_i64\<close> states the range where a property depends on it.
\<close>

type_synonym u8 = "8 word"
type_synonym u16 = "16 word"
type_synonym u32 = "32 word"
type_synonym u64 = "64 word"

type_synonym timestamp_ns = int
type_synonym price_ticks = int
type_synonym quantity = int
type_synonym symbol_id = u32
type_synonym order_id = u64
type_synonym client_order_id = u64
type_synonym client_id = u32
type_synonym sequence_number = u64
type_synonym trade_id = u64

abbreviation kInvalidOrderId :: order_id where "kInvalidOrderId \<equiv> 0"
abbreviation kInvalidClientOrderId :: client_order_id where "kInvalidClientOrderId \<equiv> 0"
abbreviation kInvalidSymbolId :: symbol_id where "kInvalidSymbolId \<equiv> 0"

definition fits_i64 :: "int \<Rightarrow> bool" where
  "fits_i64 x \<longleftrightarrow> - (2 ^ 63) \<le> x \<and> x < 2 ^ 63"

definition abs_i64 :: "int \<Rightarrow> int" where
  "abs_i64 value = (if value < 0 then - value else value)"

lemma abs_i64_abs [simp]: "abs_i64 x = \<bar>x\<bar>"
  by (simp add: abs_i64_def)

text \<open>C++ integer division truncates towards zero.\<close>

definition c_quotient :: "int \<Rightarrow> int \<Rightarrow> int" where
  "c_quotient a b = (let m = abs a div abs b in if (a < 0) = (b < 0) then m else 0 - m)"

lemma c_quotient_nonneg: "0 \<le> a \<Longrightarrow> 0 < b \<Longrightarrow> c_quotient a b = a div b"
  unfolding c_quotient_def Let_def by simp

section \<open>Collections of facts\<close>

named_theorems book_defs \<open>definitions of the book's operations, unfolded together\<close>
named_theorems ladder_simps \<open>rewrite rules for the abstract ladder\<close>
named_theorems checksum_defs \<open>checksum layouts\<close>

section \<open>Lists and sums\<close>

lemma filter_id_conv': "(\<And>x. x \<in> set xs \<Longrightarrow> P x) \<Longrightarrow> filter P xs = xs"
  by (simp add: filter_id_conv)

lemma sum_list_filter_remove:
  fixes f :: "'a \<Rightarrow> int"
  assumes "distinct (map g xs)" and "x \<in> set xs"
  shows "sum_list (map f (filter (\<lambda>y. g y \<noteq> g x) xs)) = sum_list (map f xs) - f x"
  using assms
proof (induction xs)
  case (Cons y ys)
  show ?case
  proof (cases "y = x")
    case True
    with Cons.prems have "g x \<notin> g ` set ys" by simp
    then have "\<forall>z\<in>set ys. g z \<noteq> g x" by (metis imageI)
    then have "filter (\<lambda>y. g y \<noteq> g x) ys = ys" by (simp add: filter_id_conv)
    with True show ?thesis by simp
  next
    case False
    with Cons show ?thesis by auto
  qed
qed simp

lemma sum_list_map_update:
  fixes f :: "'a \<Rightarrow> int"
  assumes "distinct (map g xs)" and "x \<in> set xs"
  shows "sum_list (map (\<lambda>y. if g y = g x then f y - d else f y) xs) = sum_list (map f xs) - d"
  using assms
proof (induction xs)
  case (Cons y ys)
  show ?case
  proof (cases "y = x")
    case True
    with Cons.prems have "g x \<notin> g ` set ys" by simp
    then have "\<forall>z\<in>set ys. g z \<noteq> g x" by (metis imageI)
    then have "map (\<lambda>y. if g y = g x then f y - d else f y) ys = map f ys" by auto
    with True show ?thesis by (simp only: list.map sum_list.Cons) simp
  next
    case False
    with Cons show ?thesis by auto
  qed
qed simp

lemma distinct_map_eq: "distinct (map g xs) \<Longrightarrow> x \<in> set xs \<Longrightarrow> y \<in> set xs \<Longrightarrow> g x = g y \<Longrightarrow> x = y"
  by (auto simp: distinct_map dest: inj_onD)

lemma map_of_filter_key:
  "map_of (filter (\<lambda>(k, _). k \<noteq> a) xs) = (map_of xs)(a := None)"
  by (induction xs) auto

lemma find_Some_unique:
  assumes "distinct (map g xs)" and "x \<in> set xs"
  shows "find (\<lambda>y. g y = g x) xs = Some x"
  using assms by (induction xs) (auto simp: image_iff)

lemma find_None_key: "find (\<lambda>y. g y = k) xs = None \<longleftrightarrow> k \<notin> g ` set xs"
  by (auto simp: find_None_iff)

lemma find_SomeD: "find P xs = Some x \<Longrightarrow> x \<in> set xs \<and> P x"
  by (induction xs) (auto split: if_splits)

lemma nth_update: "xs[i := x] ! j = (if j = i \<and> i < length xs then x else xs ! j)"
  by (cases "i < length xs") (auto simp: nth_list_update list_update_beyond)

lemma option_eqI: "(\<And>v. a = Some v \<longleftrightarrow> b = Some v) \<Longrightarrow> a = b"
  by (metis not_Some_eq)

text \<open>Tables whose size is a power of two: masking is the remainder, and stepping visits every slot.\<close>

lemma and_pow2: "n = 2 ^ k \<Longrightarrow> (m::nat) AND (n - 1) = m mod n"
  by (metis mask_eq_exp_minus_1 take_bit_eq_mask take_bit_eq_mod)

lemma ring_surj:
  assumes "b < n" and "p < (n::nat)"
  shows "\<exists>j < n. (b + j) mod n = p"
proof (cases "b \<le> p")
  case True
  then show ?thesis using assms by (intro exI [of _ "p - b"]) auto
next
  case False
  then have "b + (p + n - b) = p + n" using assms(1) by simp
  then show ?thesis using False assms by (intro exI [of _ "p + n - b"]) auto
qed

text \<open>Running a sequence of operations, collecting their results.\<close>

fun run_with :: "('op \<Rightarrow> 's \<Rightarrow> 'r \<times> 's) \<Rightarrow> 'op list \<Rightarrow> 's \<Rightarrow> 'r list \<times> 's" where
  "run_with step [] s = ([], s)"
| "run_with step (x # xs) s =
     (let (r, s') = step x s; (rs, s'') = run_with step xs s' in (r # rs, s''))"

section \<open>Ordered maps\<close>

text \<open>
  \<^verbatim>\<open>std::map\<close> with comparator \<open>lt\<close>: an association list in iteration order.
  \<open>om_try_emplace\<close> is \<^verbatim>\<open>try_emplace\<close> (no effect when the key is present),
  \<open>om_modify\<close> is a write through the pointer to the mapped value, and \<open>om_erase\<close> is
  \<^verbatim>\<open>erase\<close>; \<^verbatim>\<open>find\<close> is \<open>map_of\<close>.
\<close>

fun om_try_emplace :: "('k \<Rightarrow> 'k \<Rightarrow> bool) \<Rightarrow> 'k \<Rightarrow> 'v \<Rightarrow> ('k \<times> 'v) list \<Rightarrow> ('k \<times> 'v) list" where
  "om_try_emplace lt k d [] = [(k, d)]"
| "om_try_emplace lt k d ((k', v) # m) =
     (if lt k' k then (k', v) # om_try_emplace lt k d m
      else if k = k' then (k', v) # m
      else (k, d) # (k', v) # m)"

fun om_modify :: "'k \<Rightarrow> ('v \<Rightarrow> 'v) \<Rightarrow> ('k \<times> 'v) list \<Rightarrow> ('k \<times> 'v) list" where
  "om_modify k f [] = []"
| "om_modify k f ((k', v) # m) =
     (if k = k' then (k', f v) # m else (k', v) # om_modify k f m)"

fun om_erase :: "'k \<Rightarrow> ('k \<times> 'v) list \<Rightarrow> ('k \<times> 'v) list" where
  "om_erase k [] = []"
| "om_erase k ((k', v) # m) = (if k = k' then m else (k', v) # om_erase k m)"

abbreviation map_vals :: "('v \<Rightarrow> 'w) \<Rightarrow> ('k \<times> 'v) list \<Rightarrow> ('k \<times> 'w) list" where
  "map_vals g \<equiv> map (map_prod id g)"

lemma map_fst_map_vals [simp]: "map fst (map_vals g m) = map fst m"
  by (induction m) auto

lemma map_of_map_vals: "map_of (map_vals g m) k = map_option g (map_of m k)"
  by (induction m) auto

lemma map_vals_try_emplace:
  "map_vals g (om_try_emplace lt k d m) = om_try_emplace lt k (g d) (map_vals g m)"
  by (induction m) auto

lemma map_vals_modify:
  assumes "\<And>v. map_of m k = Some v \<Longrightarrow> g (f v) = f' (g v)"
  shows "map_vals g (om_modify k f m) = om_modify k f' (map_vals g m)"
  using assms by (induction m) (auto split: if_splits)

lemma map_vals_erase: "map_vals g (om_erase k m) = om_erase k (map_vals g m)"
  by (induction m) auto

lemma map_fst_om_modify [simp]: "map fst (om_modify k f m) = map fst m"
  by (induction m) auto

lemma om_modify_id: "map_of m k = None \<Longrightarrow> om_modify k f m = m"
  by (induction m) (auto split: if_splits)

lemma map_of_om_modify:
  "map_of (om_modify k f m) = (case map_of m k of None \<Rightarrow> map_of m | Some v \<Rightarrow> (map_of m)(k \<mapsto> f v))"
  by (induction m) (auto split: option.splits if_splits)

lemma set_om_modify:
  "distinct (map fst m) \<Longrightarrow> (p, q) \<in> set (om_modify k f m) \<longleftrightarrow>
     (p \<noteq> k \<and> (p, q) \<in> set m) \<or> (p = k \<and> (\<exists>v. (k, v) \<in> set m \<and> q = f v))"
  by (induction m) force+

lemma om_erase_absent: "map_of m k = None \<Longrightarrow> om_erase k m = m"
  by (induction m) (auto split: if_splits)

lemma set_om_erase: "distinct (map fst m) \<Longrightarrow> set (om_erase k m) = {kv \<in> set m. fst kv \<noteq> k}"
  by (induction m) force+

lemma set_om_erase_subset: "set (om_erase k m) \<subseteq> set m"
  by (induction m) (auto split: if_splits)

lemma distinct_om_erase: "distinct (map fst m) \<Longrightarrow> distinct (map fst (om_erase k m))"
  using set_om_erase_subset by (induction m) (fastforce split: if_splits)+

lemma map_of_om_erase: "distinct (map fst m) \<Longrightarrow> map_of (om_erase k m) = (map_of m)(k := None)"
proof (induction m)
  case (Cons kv m)
  then show ?case
    by (cases kv) (auto simp: fun_eq_iff map_of_eq_None_iff)
qed simp

lemma om_modify_split:
  assumes "map_of m k = Some v"
  shows "\<exists>xs ys. m = xs @ (k, v) # ys \<and> k \<notin> fst ` set xs \<and> om_modify k f m = xs @ (k, f v) # ys"
  using assms
proof (induction m)
  case (Cons kv m)
  obtain k' v' where kv: "kv = (k', v')" by (cases kv)
  show ?case
  proof (cases "k = k'")
    case True
    with Cons.prems kv have "v' = v" by simp
    with True kv show ?thesis by (intro exI [of _ "[]"] exI [of _ m]) simp
  next
    case False
    with Cons kv obtain xs ys where "m = xs @ (k, v) # ys" "k \<notin> fst ` set xs"
        "om_modify k f m = xs @ (k, f v) # ys" by auto
    with False kv show ?thesis by (intro exI [of _ "(k', v') # xs"] exI [of _ ys]) simp
  qed
qed simp

lemma om_erase_split:
  "k \<notin> fst ` set xs \<Longrightarrow> om_erase k (xs @ (k, v) # ys) = xs @ ys"
  by (induction xs) auto

lemma om_modify_app:
  "k \<notin> fst ` set xs \<Longrightarrow> om_modify k f (xs @ (k, v) # ys) = xs @ (k, f v) # ys"
  by (induction xs) auto

lemma om_try_emplace_present_set:
  "set (om_try_emplace lt k d m) \<subseteq> insert (k, d) (set m)"
  by (induction m) (auto split: if_splits)

lemma keys_om_try_emplace:
  "fst ` set (om_try_emplace lt k d m) \<subseteq> insert k (fst ` set m)"
  using om_try_emplace_present_set [of lt k d m] by force

locale strict_order =
  fixes lt :: "'k \<Rightarrow> 'k \<Rightarrow> bool"
  assumes lt_irrefl: "\<not> lt a a"
    and lt_trans: "lt a b \<Longrightarrow> lt b c \<Longrightarrow> lt a c"
    and lt_total: "lt a b \<or> a = b \<or> lt b a"
begin

lemma sorted_distinct: "sorted_wrt lt ks \<Longrightarrow> distinct ks"
  by (induction ks) (auto simp: lt_irrefl)

lemma sorted_try_emplace:
  "sorted_wrt lt (map fst m) \<Longrightarrow> sorted_wrt lt (map fst (om_try_emplace lt k d m))"
proof (induction m)
  case (Cons kv m)
  obtain k' v where kv: "kv = (k', v)" by (cases kv)
  have keys: "z = k \<or> z \<in> fst ` set m" if "z \<in> fst ` set (om_try_emplace lt k d m)" for z
    using keys_om_try_emplace [of lt k d m] that by blast
  have tot: "lt k k'" if "\<not> lt k' k" "k \<noteq> k'" using that lt_total by blast
  show ?case
  proof (cases "lt k' k")
    case True
    with Cons kv have "\<forall>z \<in> fst ` set (om_try_emplace lt k d m). lt k' z"
      using keys by fastforce
    with True Cons kv show ?thesis by auto
  next
    case False
    with Cons.prems kv tot show ?thesis by (auto intro: lt_trans)
  qed
qed simp

lemma try_emplace_present:
  "sorted_wrt lt (map fst m) \<Longrightarrow> k \<in> fst ` set m \<Longrightarrow> om_try_emplace lt k d m = m"
proof (induction m)
  case (Cons kv m)
  obtain k' v where kv: "kv = (k', v)" by (cases kv)
  from Cons kv show ?case by (auto simp: lt_irrefl)
qed simp

lemma try_emplace_absent:
  "k \<notin> fst ` set m \<Longrightarrow>
   \<exists>xs ys. m = xs @ ys \<and> om_try_emplace lt k d m = xs @ (k, d) # ys"
proof (induction m)
  case Nil
  then show ?case by simp
next
  case (Cons kv m)
  obtain k' v where kv: "kv = (k', v)" by (cases kv)
  show ?case
  proof (cases "lt k' k")
    case True
    from Cons kv obtain xs ys where "m = xs @ ys" "om_try_emplace lt k d m = xs @ (k, d) # ys"
      by auto
    with True kv show ?thesis by (intro exI [of _ "(k', v) # xs"] exI [of _ ys]) simp
  next
    case False
    with Cons.prems kv have "om_try_emplace lt k d (kv # m) = [] @ (k, d) # (kv # m)" by auto
    then show ?thesis by (metis append_Nil)
  qed
qed

lemma map_of_try_emplace:
  assumes "sorted_wrt lt (map fst m)"
  shows "map_of (om_try_emplace lt k d m) x =
    (if x = k then Some (case map_of m k of None \<Rightarrow> d | Some v \<Rightarrow> v) else map_of m x)"
proof (cases "k \<in> fst ` set m")
  case True
  with assms have "om_try_emplace lt k d m = m" by (rule try_emplace_present)
  moreover from True obtain v where "map_of m k = Some v"
    by (metis map_of_eq_None_iff not_Some_eq)
  ultimately show ?thesis by simp
next
  case False
  then obtain xs ys where m: "m = xs @ ys" and e: "om_try_emplace lt k d m = xs @ (k, d) # ys"
    using try_emplace_absent [of k m d] by metis
  from False have none: "map_of m k = None" "map_of xs k = None"
    by (simp_all add: map_of_eq_None_iff m image_Un)
  show ?thesis
    unfolding e using none by (cases "x = k") (simp_all add: m map_add_def cong: option.case_cong)
qed

lemma sorted_erase:
  "sorted_wrt lt (map fst m) \<Longrightarrow> sorted_wrt lt (map fst (om_erase k m))"
  using set_om_erase_subset by (induction m) (fastforce split: if_splits)+

lemma sorted_key_unique:
  "sorted_wrt lt (map fst m) \<Longrightarrow> (k, v) \<in> set m \<Longrightarrow> map_of m k = Some v"
  by (simp add: sorted_distinct)

lemma sorted_hd_least:
  "sorted_wrt lt (map fst ((k, v) # m)) \<Longrightarrow> (k', v') \<in> set ((k, v) # m) \<Longrightarrow> k' = k \<or> lt k k'"
  by force

end

interpretation bid_order: strict_order "(\<lambda>a b. a > b) :: int \<Rightarrow> int \<Rightarrow> bool"
  by unfold_locales auto

interpretation ask_order: strict_order "(\<lambda>a b. a < b) :: int \<Rightarrow> int \<Rightarrow> bool"
  by unfold_locales auto

interpretation symbol_order: strict_order "(\<lambda>a b. a < b) :: u32 \<Rightarrow> u32 \<Rightarrow> bool"
  by unfold_locales auto

section \<open>Unordered maps\<close>

text \<open>
  \<^verbatim>\<open>std::unordered_map\<close>: an association list with distinct keys. Its order stands
  for the container's unspecified iteration order; \<^verbatim>\<open>emplace\<close> and
  \<^verbatim>\<open>operator[]\<close> assignment are \<open>AList.update\<close>, \<^verbatim>\<open>erase\<close> is
  \<open>AList.delete\<close>, \<^verbatim>\<open>find\<close> is \<open>map_of\<close>.
\<close>

lemma map_of_update [simp]: "map_of (AList.update k v m) = (map_of m)(k \<mapsto> v)"
  by (simp add: update_conv')

lemma map_of_delete [simp]: "map_of (AList.delete k m) = (map_of m)(k := None)"
  by (simp add: delete_conv')

lemma distinct_update_keys [simp]:
  "distinct (map fst m) \<Longrightarrow> distinct (map fst (AList.update k v m))"
  by (rule distinct_update)

lemma distinct_delete_keys [simp]:
  "distinct (map fst m) \<Longrightarrow> distinct (map fst (AList.delete k m))"
  by (rule distinct_delete)

end
