(* ===== verification/Core_Types.thy ===== *)
theory Core_Types
  imports Prelude
begin

text \<open>
  The value types of \<^verbatim>\<open>core/types.hpp\<close>, \<^verbatim>\<open>book/order.hpp\<close> and
  \<^verbatim>\<open>book/l2_view.hpp\<close>: the side of an order, the resting order with its
  validity test, and the aggregated (L2) view of a book.
\<close>

section \<open>Side\<close>

datatype side = NoSide | Buy | Sell

fun is_valid_side :: "side \<Rightarrow> bool" where
  "is_valid_side sd = (sd = Buy \<or> sd = Sell)"

fun opposite :: "side \<Rightarrow> side" where
  "opposite sd = (if sd = Buy then Sell else if sd = Sell then Buy else NoSide)"

fun side_to_string :: "side \<Rightarrow> string" where
  "side_to_string Buy = ''Buy''"
| "side_to_string Sell = ''Sell''"
| "side_to_string NoSide = ''None''"

text \<open>The underlying value of the enumeration, used by checksums and the binary log.\<close>

fun side_wire :: "side \<Rightarrow> u8" where
  "side_wire NoSide = 0"
| "side_wire Buy = 1"
| "side_wire Sell = 2"

lemma opposite_opposite [simp]: "is_valid_side sd \<Longrightarrow> opposite (opposite sd) = sd"
  by (cases sd) auto

lemma valid_opposite [simp]: "is_valid_side (opposite sd) = is_valid_side sd"
  by (cases sd) auto

lemma side_wire_inj [simp]: "side_wire a = side_wire b \<longleftrightarrow> a = b"
  by (cases a; cases b) auto

instantiation side :: linorder
begin

definition less_eq_side :: "side \<Rightarrow> side \<Rightarrow> bool" where
  "less_eq_side a b \<longleftrightarrow> side_wire a \<le> side_wire b"

definition less_side :: "side \<Rightarrow> side \<Rightarrow> bool" where
  "less_side a b \<longleftrightarrow> side_wire a < side_wire b"

instance
  by standard (auto simp: less_eq_side_def less_side_def less_le_not_le dest: order_antisym)

end

section \<open>Orders\<close>

record order =
  o_order_id :: order_id
  o_client_order_id :: client_order_id
  o_symbol_id :: symbol_id
  o_side :: side
  o_price_ticks :: price_ticks
  o_quantity :: quantity
  o_timestamp_ns :: timestamp_ns
  o_sequence_number :: sequence_number

definition is_valid_resting_order :: "order \<Rightarrow> bool" where
  "is_valid_resting_order o' \<longleftrightarrow>
     o_order_id o' \<noteq> kInvalidOrderId \<and> o_symbol_id o' \<noteq> kInvalidSymbolId \<and>
     is_valid_side (o_side o') \<and> 0 < o_price_ticks o' \<and> 0 < o_quantity o'"

section \<open>Aggregated view\<close>

record l2_level =
  l2_price_ticks :: price_ticks
  l2_quantity :: quantity

record l2_view =
  l2_symbol_id :: symbol_id
  l2_bids :: "l2_level list"
  l2_asks :: "l2_level list"

definition l2_clear :: "l2_view \<Rightarrow> l2_view" where
  "l2_clear v = \<lparr>l2_symbol_id = kInvalidSymbolId, l2_bids = [], l2_asks = []\<rparr>"

end
