(* ===== verification/Checksum.thy ===== *)
theory Checksum
  imports Core_Types
begin

text \<open>
  \<^verbatim>\<open>core/checksum.hpp\<close> and \<^verbatim>\<open>core/checksum.cpp\<close>: the 64-bit FNV-1a hash
  with which books, reports, events, diagnostics and audit trails are summarised. The multiply
  and the xor are on 64-bit words and wrap. An integer is fed least significant byte first;
  a signed integer is converted to its unsigned pattern first (\<open>word_of_int\<close>).
\<close>

definition kFnvOffsetBasis :: u64 where
  "kFnvOffsetBasis = 14695981039346656037"

definition kFnvPrime :: u64 where
  "kFnvPrime = 1099511628211"

definition fnv1a_append_byte :: "u64 \<Rightarrow> u8 \<Rightarrow> u64" where
  "fnv1a_append_byte seed byte = (seed XOR ucast byte) * kFnvPrime"

definition fnv1a_append :: "u64 \<Rightarrow> u8 list \<Rightarrow> u64" where
  "fnv1a_append seed bytes = foldl fnv1a_append_byte seed bytes"

text \<open>The bytes of an \<open>n\<close>-byte integer, least significant first.\<close>

definition le_bytes :: "nat \<Rightarrow> 'a::len word \<Rightarrow> u8 list" where
  "le_bytes n value = map (\<lambda>i. ucast (drop_bit (i * 8) value AND 255)) [0..<n]"

definition checksum_append_u8 :: "u64 \<Rightarrow> u8 \<Rightarrow> u64" where
  "checksum_append_u8 seed x = fnv1a_append seed (le_bytes 1 x)"

definition checksum_append_u32 :: "u64 \<Rightarrow> u32 \<Rightarrow> u64" where
  "checksum_append_u32 seed x = fnv1a_append seed (le_bytes 4 x)"

definition checksum_append_u64 :: "u64 \<Rightarrow> u64 \<Rightarrow> u64" where
  "checksum_append_u64 seed x = fnv1a_append seed (le_bytes 8 x)"

definition checksum_append_i64 :: "u64 \<Rightarrow> int \<Rightarrow> u64" where
  "checksum_append_i64 seed x = checksum_append_u64 seed (word_of_int x)"

definition checksum_append_size :: "u64 \<Rightarrow> nat \<Rightarrow> u64" where
  "checksum_append_size seed n = checksum_append_u64 seed (of_nat n)"

definition checksum_append_bool :: "u64 \<Rightarrow> bool \<Rightarrow> u64" where
  "checksum_append_bool seed b = checksum_append_u8 seed (if b then 1 else 0)"

definition checksum_append_side :: "u64 \<Rightarrow> side \<Rightarrow> u64" where
  "checksum_append_side seed sd = checksum_append_u8 seed (side_wire sd)"

text \<open>Characters of a \<^verbatim>\<open>std::string_view\<close> are read as unsigned bytes.\<close>

definition string_bytes :: "string \<Rightarrow> u8 list" where
  "string_bytes s = map (\<lambda>c. word_of_int (of_char c)) s"

definition checksum_append_string :: "u64 \<Rightarrow> string \<Rightarrow> u64" where
  "checksum_append_string seed s =
     fnv1a_append (checksum_append_size seed (length s)) (string_bytes s)"

lemmas [checksum_defs] =
  checksum_append_u8_def checksum_append_u32_def checksum_append_u64_def
  checksum_append_i64_def checksum_append_size_def checksum_append_bool_def
  checksum_append_side_def checksum_append_string_def

text \<open>
  Feeding a concatenation is feeding its parts in turn: this is what lets a streamed
  checksum agree with a checksum of the whole.
\<close>

lemma fnv1a_append_append:
  "fnv1a_append seed (xs @ ys) = fnv1a_append (fnv1a_append seed xs) ys"
  by (simp add: fnv1a_append_def)

lemma fnv1a_append_Nil [simp]: "fnv1a_append seed [] = seed"
  by (simp add: fnv1a_append_def)

lemma fnv1a_append_Cons [simp]:
  "fnv1a_append seed (b # bs) = fnv1a_append (fnv1a_append_byte seed b) bs"
  by (simp add: fnv1a_append_def)

lemma length_le_bytes [simp]: "length (le_bytes n x) = n"
  by (simp add: le_bytes_def)

text \<open>
  One step of the hash is a bijection of the seed: the prime is odd, so it has an inverse
  modulo \<open>2 ^ 64\<close>. Two trails that differ in the last byte only, or in the seed only, never
  collide there.
\<close>

definition kFnvPrimeInverse :: u64 where
  "kFnvPrimeInverse = 14886173955864302971"

lemma fnv_prime_inverse: "kFnvPrime * kFnvPrimeInverse = 1"
  by (simp add: kFnvPrime_def kFnvPrimeInverse_def)

lemma fnv_prime_cancel: "a * kFnvPrime = b * kFnvPrime \<longleftrightarrow> a = b"
proof
  assume "a * kFnvPrime = b * kFnvPrime"
  then have "a * (kFnvPrime * kFnvPrimeInverse) = b * (kFnvPrime * kFnvPrimeInverse)"
    by (simp only: mult.assoc [symmetric])
  then show "a = b" by (simp add: fnv_prime_inverse)
qed simp

lemma xor_word_cancel: "(a::u64) XOR c = b XOR c \<longleftrightarrow> a = b"
proof
  assume "a XOR c = b XOR c"
  then have "a XOR (c XOR c) = b XOR (c XOR c)" by (simp only: xor.assoc [symmetric])
  then show "a = b" by simp
qed simp

lemma ucast_u8_u64_inj: "(ucast (a::u8) :: u64) = ucast b \<longleftrightarrow> a = b"
proof
  assume eq: "(ucast a :: u64) = ucast b"
  have "(ucast (ucast x :: u64) :: u8) = x" for x :: u8
    by (simp add: ucast_up_ucast_id is_up)
  then show "a = b" using eq by metis
qed simp

lemma fnv1a_append_byte_seed_inj:
  "fnv1a_append_byte s b = fnv1a_append_byte s' b \<longleftrightarrow> s = s'"
  by (simp add: fnv1a_append_byte_def fnv_prime_cancel xor_word_cancel)

lemma fnv1a_append_byte_byte_inj:
  "fnv1a_append_byte s b = fnv1a_append_byte s b' \<longleftrightarrow> b = b'"
  unfolding fnv1a_append_byte_def fnv_prime_cancel xor.commute [of s] xor_word_cancel
  by (rule ucast_u8_u64_inj)

lemma fnv1a_append_seed_inj: "fnv1a_append s bs = fnv1a_append s' bs \<longleftrightarrow> s = s'"
  by (induction bs arbitrary: s s') (simp_all add: fnv1a_append_byte_seed_inj)

end
