(* ===== verification/Ladder.thy ===== *)
theory Ladder
  imports Checksum
begin

text \<open>
  The abstract L3 book: per side, the price levels best first, each with its orders in time
  priority. Both book implementations (\<^verbatim>\<open>OrderBook\<close> and
  \<^verbatim>\<open>PooledOrderBook\<close>) are shown to refine the operations of this theory; the
  interface they share is the locale \<open>l3_book\<close> at its end.
\<close>

section \<open>State\<close>

type_synonym levels = "(price_ticks \<times> order list) list"

record ladder =
  ld_symbol :: symbol_id
  ld_bids :: levels
  ld_asks :: levels

text \<open>\<open>better sd p p'\<close>: on side \<open>sd\<close> price \<open>p\<close> has priority over \<open>p'\<close>.\<close>

definition better :: "side \<Rightarrow> price_ticks \<Rightarrow> price_ticks \<Rightarrow> bool" where
  "better sd = (if sd = Buy then (\<lambda>a b. a > b) else (\<lambda>a b. a < b))"

interpretation side_order: strict_order "better sd" for sd
  by unfold_locales (auto simp: better_def)

definition ld_levels :: "side \<Rightarrow> ladder \<Rightarrow> levels" where
  "ld_levels sd L = (case sd of Buy \<Rightarrow> ld_bids L | Sell \<Rightarrow> ld_asks L | NoSide \<Rightarrow> [])"

definition ld_set_levels :: "side \<Rightarrow> levels \<Rightarrow> ladder \<Rightarrow> ladder" where
  "ld_set_levels sd ls L =
     (case sd of Buy \<Rightarrow> L\<lparr>ld_bids := ls\<rparr> | Sell \<Rightarrow> L\<lparr>ld_asks := ls\<rparr> | NoSide \<Rightarrow> L)"

definition flat :: "levels \<Rightarrow> order list" where
  "flat ls = concat (map snd ls)"

definition ld_orders :: "ladder \<Rightarrow> order list" where
  "ld_orders L = flat (ld_bids L) @ flat (ld_asks L)"

definition ld_find :: "order_id \<Rightarrow> ladder \<Rightarrow> order option" where
  "ld_find i L = find (\<lambda>x. o_order_id x = i) (ld_orders L)"

section \<open>Operations\<close>

definition ld_empty :: "symbol_id \<Rightarrow> ladder" where
  "ld_empty sy = \<lparr>ld_symbol = sy, ld_bids = [], ld_asks = []\<rparr>"

definition push_order :: "order \<Rightarrow> levels \<Rightarrow> levels" where
  "push_order x ls = om_modify (o_price_ticks x) (\<lambda>q. q @ [x])
     (om_try_emplace (better (o_side x)) (o_price_ticks x) [] ls)"

definition prune :: "price_ticks \<Rightarrow> levels \<Rightarrow> levels" where
  "prune p ls = (if map_of ls p = Some [] then om_erase p ls else ls)"

definition drop_order :: "order \<Rightarrow> levels \<Rightarrow> levels" where
  "drop_order x ls = prune (o_price_ticks x)
     (om_modify (o_price_ticks x) (filter (\<lambda>y. o_order_id y \<noteq> o_order_id x)) ls)"

definition shrink_order :: "quantity \<Rightarrow> order \<Rightarrow> levels \<Rightarrow> levels" where
  "shrink_order n x ls = om_modify (o_price_ticks x)
     (map (\<lambda>y. if o_order_id y = o_order_id x then y\<lparr>o_quantity := o_quantity y - n\<rparr> else y)) ls"

definition on_side :: "side \<Rightarrow> (levels \<Rightarrow> levels) \<Rightarrow> ladder \<Rightarrow> ladder" where
  "on_side sd f L = ld_set_levels sd (f (ld_levels sd L)) L"

definition spec_add :: "order \<Rightarrow> ladder \<Rightarrow> bool \<times> ladder" where
  "spec_add x L =
     (if is_valid_resting_order x \<and> o_symbol_id x = ld_symbol L \<and> ld_find (o_order_id x) L = None
      then (True, on_side (o_side x) (push_order x) L) else (False, L))"

definition spec_cancel :: "order_id \<Rightarrow> ladder \<Rightarrow> bool \<times> ladder" where
  "spec_cancel i L = (case ld_find i L of None \<Rightarrow> (False, L)
     | Some x \<Rightarrow> (True, on_side (o_side x) (drop_order x) L))"

definition spec_reduce :: "order_id \<Rightarrow> quantity \<Rightarrow> ladder \<Rightarrow> bool \<times> ladder" where
  "spec_reduce i n L =
     (if n \<le> 0 then (False, L) else case ld_find i L of None \<Rightarrow> (False, L)
      | Some x \<Rightarrow> if n \<ge> o_quantity x then spec_cancel i L
                 else (True, on_side (o_side x) (shrink_order n x) L))"

definition reprice :: "order \<Rightarrow> price_ticks \<Rightarrow> quantity \<Rightarrow> timestamp_ns \<Rightarrow> sequence_number \<Rightarrow> order" where
  "reprice x p n ts sq = x\<lparr>o_price_ticks := p, o_quantity := n,
     o_timestamp_ns := ts, o_sequence_number := sq\<rparr>"

definition spec_replace ::
  "order_id \<Rightarrow> price_ticks \<Rightarrow> quantity \<Rightarrow> timestamp_ns \<Rightarrow> sequence_number \<Rightarrow> ladder \<Rightarrow> bool \<times> ladder" where
  "spec_replace i p n ts sq L =
     (if p \<le> 0 \<or> n \<le> 0 then (False, L) else case ld_find i L of None \<Rightarrow> (False, L)
      | Some x \<Rightarrow> spec_add (reprice x p n ts sq) (snd (spec_cancel i L)))"

definition spec_clear :: "ladder \<Rightarrow> ladder" where
  "spec_clear L = L\<lparr>ld_bids := [], ld_asks := []\<rparr>"

section \<open>Observations\<close>

definition spec_best_order :: "side \<Rightarrow> ladder \<Rightarrow> order option" where
  "spec_best_order sd L = (case ld_levels sd L of [] \<Rightarrow> None | (p, q) # _ \<Rightarrow> Some (hd q))"

definition spec_best_price :: "side \<Rightarrow> ladder \<Rightarrow> price_ticks option" where
  "spec_best_price sd L = (case ld_levels sd L of [] \<Rightarrow> None | (p, q) # _ \<Rightarrow> Some p)"

definition queue_total :: "order list \<Rightarrow> quantity" where
  "queue_total q = sum_list (map o_quantity q)"

definition spec_total_quantity_at :: "side \<Rightarrow> price_ticks \<Rightarrow> ladder \<Rightarrow> quantity" where
  "spec_total_quantity_at sd p L =
     (case map_of (ld_levels sd L) p of None \<Rightarrow> 0 | Some q \<Rightarrow> queue_total q)"

definition l2_of_levels :: "nat \<Rightarrow> levels \<Rightarrow> l2_level list" where
  "l2_of_levels depth ls =
     map (\<lambda>(p, q). \<lparr>l2_price_ticks = p, l2_quantity = queue_total q\<rparr>) (take depth ls)"

definition spec_l2_view :: "nat \<Rightarrow> ladder \<Rightarrow> l2_view" where
  "spec_l2_view depth L = \<lparr>l2_symbol_id = ld_symbol L,
     l2_bids = l2_of_levels depth (ld_bids L), l2_asks = l2_of_levels depth (ld_asks L)\<rparr>"

definition checksum_order :: "u64 \<Rightarrow> order \<Rightarrow> u64" where
  "checksum_order seed x =
     (let seed = checksum_append_u64 seed (o_order_id x);
          seed = checksum_append_u64 seed (o_client_order_id x);
          seed = checksum_append_u32 seed (o_symbol_id x);
          seed = checksum_append_i64 seed (o_quantity x);
          seed = checksum_append_i64 seed (o_timestamp_ns x)
      in checksum_append_u64 seed (o_sequence_number x))"

definition spec_checksum_levels :: "u64 \<Rightarrow> side \<Rightarrow> levels \<Rightarrow> u64" where
  "spec_checksum_levels seed sd ls =
     foldl (\<lambda>seed (p, q). foldl checksum_order
          (checksum_append_size (checksum_append_i64 (checksum_append_i64 seed p) (queue_total q))
             (length q)) q)
       (checksum_append_size (checksum_append_side seed sd) (length ls)) ls"

definition spec_checksum :: "ladder \<Rightarrow> u64" where
  "spec_checksum L = spec_checksum_levels (spec_checksum_levels
     (checksum_append_u32 kFnvOffsetBasis (ld_symbol L)) Buy (ld_bids L)) Sell (ld_asks L)"

section \<open>Well-formedness\<close>

definition levels_ok :: "symbol_id \<Rightarrow> side \<Rightarrow> levels \<Rightarrow> bool" where
  "levels_ok sy sd ls \<longleftrightarrow> sorted_wrt (better sd) (map fst ls) \<and>
     (\<forall>(p, q) \<in> set ls. q \<noteq> [] \<and> (\<forall>x \<in> set q. is_valid_resting_order x \<and>
        o_side x = sd \<and> o_price_ticks x = p \<and> o_symbol_id x = sy))"

definition ladder_ok :: "ladder \<Rightarrow> bool" where
  "ladder_ok L \<longleftrightarrow> levels_ok (ld_symbol L) Buy (ld_bids L) \<and>
     levels_ok (ld_symbol L) Sell (ld_asks L) \<and> distinct (map o_order_id (ld_orders L))"

lemma ladder_ok_empty [simp]: "ladder_ok (ld_empty sy)"
  by (simp add: ladder_ok_def levels_ok_def ld_empty_def ld_orders_def flat_def)

lemma flat_simps [ladder_simps]:
  "flat [] = []" "flat ((p, q) # ls) = q @ flat ls" "flat (ls @ ls') = flat ls @ flat ls'"
  by (simp_all add: flat_def)

lemma in_flat: "x \<in> set (flat ls) \<longleftrightarrow> (\<exists>p q. (p, q) \<in> set ls \<and> x \<in> set q)"
  by (force simp: flat_def)

lemma levels_ok_simps [ladder_simps]:
  "levels_ok sy sd []"
  "levels_ok sy sd ((p, q) # ls) \<longleftrightarrow> (\<forall>p' \<in> fst ` set ls. better sd p p') \<and> q \<noteq> [] \<and>
     (\<forall>x \<in> set q. is_valid_resting_order x \<and> o_side x = sd \<and> o_price_ticks x = p \<and> o_symbol_id x = sy)
     \<and> levels_ok sy sd ls"
  by (auto simp: levels_ok_def)

lemma levels_ok_sorted: "levels_ok sy sd ls \<Longrightarrow> sorted_wrt (better sd) (map fst ls)"
  by (simp add: levels_ok_def)

lemma levels_ok_distinct: "levels_ok sy sd ls \<Longrightarrow> distinct (map fst ls)"
  using levels_ok_sorted side_order.sorted_distinct by blast

lemma levels_ok_flatD:
  assumes "levels_ok sy sd ls" and "x \<in> set (flat ls)"
  shows "is_valid_resting_order x \<and> o_side x = sd \<and> o_symbol_id x = sy \<and>
    (\<exists>q. map_of ls (o_price_ticks x) = Some q \<and> x \<in> set q)"
proof -
  from assms(2) obtain p q where pq: "(p, q) \<in> set ls" "x \<in> set q" by (auto simp: in_flat)
  with assms(1) have "is_valid_resting_order x \<and> o_side x = sd \<and> o_price_ticks x = p \<and> o_symbol_id x = sy"
    by (auto simp: levels_ok_def)
  with pq levels_ok_distinct [OF assms(1)] show ?thesis by auto
qed

lemma flat_modify:
  assumes "map_of ls p = Some q"
  shows "\<exists>as bs. flat ls = as @ q @ bs \<and> flat (om_modify p f ls) = as @ f q @ bs"
proof -
  from om_modify_split [OF assms, of f] obtain xs ys
    where "ls = xs @ (p, q) # ys" "om_modify p f ls = xs @ (p, f q) # ys" by blast
  then show ?thesis by (intro exI [of _ "flat xs"] exI [of _ "flat ys"]) (simp add: ladder_simps)
qed

lemma flat_modify_pointwise:
  assumes "distinct (map fst ls)" and "\<And>p' q. (p', q) \<in> set ls \<Longrightarrow> p' \<noteq> p \<Longrightarrow> g q = q"
    and "\<And>a b. g (a @ b) = g a @ g b" and "g [] = []"
  shows "flat (om_modify p g ls) = g (flat ls)"
  using assms(1,2)
proof (induction ls)
  case (Cons kv ls)
  obtain p' q where kv: "kv = (p', q)" by (cases kv)
  have rest: "g (flat ls) = flat ls" if "p = p'"
  proof -
    from that Cons.prems kv have "\<forall>(r, q) \<in> set ls. g q = q" by force
    then show ?thesis by (induction ls) (auto simp: ladder_simps assms(3,4))
  qed
  have "p \<noteq> p' \<Longrightarrow> g q = q" using Cons.prems(2) kv by auto
  moreover have "p \<noteq> p' \<Longrightarrow> flat (om_modify p g ls) = g (flat ls)"
    using Cons kv by auto
  ultimately show ?case using rest kv by (simp add: ladder_simps assms(3))
qed (simp add: ladder_simps assms(4))

lemma flat_prune [ladder_simps]: "flat (prune p ls) = flat ls"
proof -
  have "map_of ls p = Some [] \<Longrightarrow> flat (om_erase p ls) = flat ls"
    by (induction ls) (auto simp: ladder_simps split: if_splits)
  then show ?thesis by (simp add: prune_def)
qed

lemma other_levels_ids:
  assumes "levels_ok sy sd ls" and "distinct (map o_order_id (flat ls))" and "x \<in> set (flat ls)"
    and "(p', q) \<in> set ls" and "p' \<noteq> o_price_ticks x" and "y \<in> set q"
  shows "o_order_id y \<noteq> o_order_id x"
proof
  assume "o_order_id y = o_order_id x"
  moreover from assms(4,6) have "y \<in> set (flat ls)" by (auto simp: in_flat)
  ultimately have "y = x" using assms(2,3) by (metis distinct_map_eq)
  moreover from assms(1,4,6) have "o_price_ticks y = p'" by (auto simp: levels_ok_def)
  ultimately show False using assms(5) by simp
qed

text \<open>Dropping or shrinking an order of a side acts on the flat queue of that side pointwise.\<close>

lemma flat_drop_order:
  assumes "levels_ok sy sd ls" and "distinct (map o_order_id (flat ls))" and "x \<in> set (flat ls)"
  shows "flat (drop_order x ls) = filter (\<lambda>y. o_order_id y \<noteq> o_order_id x) (flat ls)"
  unfolding drop_order_def flat_prune
  by (rule flat_modify_pointwise)
    (auto simp: levels_ok_distinct [OF assms(1)] filter_id_conv dest: other_levels_ids [OF assms])

lemma flat_shrink_order:
  assumes "levels_ok sy sd ls" and "distinct (map o_order_id (flat ls))" and "x \<in> set (flat ls)"
  shows "flat (shrink_order n x ls) =
    map (\<lambda>y. if o_order_id y = o_order_id x then y\<lparr>o_quantity := o_quantity y - n\<rparr> else y) (flat ls)"
  unfolding shrink_order_def
  by (rule flat_modify_pointwise)
    (auto simp: levels_ok_distinct [OF assms(1)] intro!: map_idI dest: other_levels_ids [OF assms])

lemma mset_flat_push:
  assumes "sorted_wrt (better (o_side x)) (map fst ls)"
  shows "mset (flat (push_order x ls)) = add_mset x (mset (flat ls))"
proof (cases "map_of ls (o_price_ticks x)")
  case None
  then have "o_price_ticks x \<notin> fst ` set ls" by (simp add: map_of_eq_None_iff)
  then obtain as bs where ls: "ls = as @ bs"
    and e: "om_try_emplace (better (o_side x)) (o_price_ticks x) [] ls = as @ (o_price_ticks x, []) # bs"
    using side_order.try_emplace_absent [OF \<open>o_price_ticks x \<notin> fst ` set ls\<close>] by metis
  with \<open>o_price_ticks x \<notin> fst ` set ls\<close> have "o_price_ticks x \<notin> fst ` set as" by auto
  then show ?thesis unfolding push_order_def e by (simp add: om_modify_app ls ladder_simps)
next
  case (Some q)
  then have "o_price_ticks x \<in> fst ` set ls" by (metis map_of_eq_None_iff option.distinct(1))
  with assms have "push_order x ls = om_modify (o_price_ticks x) (\<lambda>q. q @ [x]) ls"
    by (simp add: push_order_def side_order.try_emplace_present)
  moreover obtain as bs where "flat ls = as @ q @ bs"
      "flat (om_modify (o_price_ticks x) (\<lambda>q. q @ [x]) ls) = as @ (q @ [x]) @ bs"
    using flat_modify [OF Some] by blast
  ultimately show ?thesis by simp
qed

lemma levels_ok_push:
  assumes "levels_ok sy (o_side x) ls" and "is_valid_resting_order x" and "o_symbol_id x = sy"
  shows "levels_ok sy (o_side x) (push_order x ls)"
proof -
  let ?e = "om_try_emplace (better (o_side x)) (o_price_ticks x) [] ls"
  have sorted: "sorted_wrt (better (o_side x)) (map fst ?e)"
    using assms(1) by (simp add: levels_ok_sorted side_order.sorted_try_emplace)
  have mem: "(p, q) \<in> set ?e \<Longrightarrow> (p, q) \<in> set ls \<or> (p = o_price_ticks x \<and> q = [])" for p q
    using om_try_emplace_present_set by fastforce
  then show ?thesis using mem sorted assms
    by (fastforce simp: levels_ok_def push_order_def
        set_om_modify [OF side_order.sorted_distinct [OF sorted]])
qed

lemma levels_ok_drop:
  assumes "levels_ok sy sd ls"
  shows "levels_ok sy sd (drop_order x ls)"
proof -
  let ?p = "o_price_ticks x" and ?f = "filter (\<lambda>y. o_order_id y \<noteq> o_order_id x)"
  have dist: "distinct (map fst ls)" using assms by (rule levels_ok_distinct)
  have dist': "distinct (map fst (om_modify ?p ?f ls))" using dist by simp
  have mem: "\<exists>q'. (p, q') \<in> set ls \<and> set q \<subseteq> set q'"
      and ne: "q \<noteq> []" if pq: "(p, q) \<in> set (drop_order x ls)" for p q
  proof -
    have pq': "(p, q) \<in> set (om_modify ?p ?f ls)"
      using pq set_om_erase_subset [of ?p "om_modify ?p ?f ls"]
      by (auto simp: drop_order_def prune_def split: if_splits)
    then show "\<exists>q'. (p, q') \<in> set ls \<and> set q \<subseteq> set q'"
      by (auto simp: set_om_modify [OF dist])
    show "q \<noteq> []"
    proof
      assume "q = []"
      with pq' dist' have m: "map_of (om_modify ?p ?f ls) p = Some []" by simp
      have "p = ?p" using pq' assms \<open>q = []\<close> by (auto simp: set_om_modify [OF dist] levels_ok_def)
      with m pq have "(p, q) \<in> set (om_erase ?p (om_modify ?p ?f ls))"
        by (simp add: drop_order_def prune_def)
      with \<open>p = ?p\<close> show False by (simp add: set_om_erase [OF dist'])
    qed
  qed
  have "sorted_wrt (better sd) (map fst (om_modify ?p ?f ls))"
    using levels_ok_sorted [OF assms] by simp
  then have "sorted_wrt (better sd) (map fst (om_erase ?p (om_modify ?p ?f ls)))"
    by (rule side_order.sorted_erase)
  then have "sorted_wrt (better sd) (map fst (drop_order x ls))"
    using levels_ok_sorted [OF assms] by (simp add: drop_order_def prune_def)
  then show ?thesis using mem ne assms unfolding levels_ok_def by fast
qed

lemma levels_ok_shrink:
  assumes "levels_ok sy sd ls" and "n < o_quantity x" and "distinct (map o_order_id (flat ls))"
    and "x \<in> set (flat ls)"
  shows "levels_ok sy sd (shrink_order n x ls)"
proof -
  have dist: "distinct (map fst ls)" using assms(1) by (rule levels_ok_distinct)
  have same: "y = x" if "(p, q) \<in> set ls" "y \<in> set q" "o_order_id y = o_order_id x" for p q y
    using that assms(3,4) by (metis distinct_map_eq in_flat)
  have valid: "is_valid_resting_order (x\<lparr>o_quantity := o_quantity x - n\<rparr>)"
    using levels_ok_flatD [OF assms(1,4)] assms(2) by (auto simp: is_valid_resting_order_def)
  show ?thesis
    using assms(1) valid same unfolding levels_ok_def shrink_order_def
    by (fastforce simp: set_om_modify [OF dist])
qed

section \<open>The operations keep the ladder well-formed\<close>

lemma ld_find_Some:
  "ladder_ok L \<Longrightarrow> ld_find i L = Some x \<longleftrightarrow> x \<in> set (ld_orders L) \<and> o_order_id x = i"
  using find_Some_unique [of o_order_id "ld_orders L" x]
  by (auto simp: ladder_ok_def ld_find_def dest: find_SomeD)

lemma ld_find_None: "ld_find i L = None \<longleftrightarrow> i \<notin> o_order_id ` set (ld_orders L)"
  by (simp add: ld_find_def find_None_key)

lemma ladder_ok_levels:
  "ladder_ok L \<Longrightarrow> is_valid_side sd \<Longrightarrow> levels_ok (ld_symbol L) sd (ld_levels sd L)"
  by (auto simp: ladder_ok_def ld_levels_def)

lemma ladder_order_side:
  assumes "ladder_ok L" and "x \<in> set (ld_orders L)"
  shows "is_valid_side (o_side x) \<and> x \<in> set (flat (ld_levels (o_side x) L)) \<and>
    is_valid_resting_order x \<and> o_symbol_id x = ld_symbol L"
  using assms levels_ok_flatD [of "ld_symbol L"]
  by (fastforce simp: ladder_ok_def ld_orders_def ld_levels_def is_valid_resting_order_def)

lemma ladder_distinct_side:
  "ladder_ok L \<Longrightarrow> distinct (map o_order_id (flat (ld_levels sd L)))"
  by (cases sd) (auto simp: ladder_ok_def ld_orders_def ld_levels_def flat_def)

lemma ld_symbol_on_side [ladder_simps]: "ld_symbol (on_side sd f L) = ld_symbol L"
  by (cases sd) (auto simp: on_side_def ld_set_levels_def)

lemma ld_levels_on_side [ladder_simps]:
  "ld_levels sd' (on_side sd f L) =
     (if sd = sd' \<and> is_valid_side sd then f (ld_levels sd L) else ld_levels sd' L)"
  by (cases sd; cases sd') (auto simp: on_side_def ld_set_levels_def ld_levels_def)

lemma ld_orders_levels: "ld_orders L = flat (ld_levels Buy L) @ flat (ld_levels Sell L)"
  by (simp add: ld_orders_def ld_levels_def)

lemma ladder_ok_by_levels:
  "ladder_ok L \<longleftrightarrow> (\<forall>sd. is_valid_side sd \<longrightarrow> levels_ok (ld_symbol L) sd (ld_levels sd L)) \<and>
     distinct (map o_order_id (ld_orders L))"
  by (auto simp: ladder_ok_def ld_levels_def)

lemma other_side_ids:
  assumes "ladder_ok L" and "x \<in> set (ld_orders L)"
    and "y \<in> set (flat (ld_levels (opposite (o_side x)) L))"
  shows "o_order_id y \<noteq> o_order_id x"
  using assms ladder_order_side [OF assms(1,2)]
  by (cases "o_side x") (fastforce simp: ladder_ok_def ld_orders_levels)+

lemma mset_orders_push:
  assumes "ladder_ok L" and "is_valid_side (o_side x)"
  shows "mset (ld_orders (on_side (o_side x) (push_order x) L)) = add_mset x (mset (ld_orders L))"
proof -
  have "sorted_wrt (better (o_side x)) (map fst (ld_levels (o_side x) L))"
    using ladder_ok_levels [OF assms] by (rule levels_ok_sorted)
  then have "mset (flat (push_order x (ld_levels (o_side x) L))) =
      add_mset x (mset (flat (ld_levels (o_side x) L)))" by (rule mset_flat_push)
  with assms(2) show ?thesis
    by (cases "o_side x") (auto simp: ld_orders_levels ladder_simps)
qed

lemma ld_orders_drop:
  assumes "ladder_ok L" and "x \<in> set (ld_orders L)"
  shows "ld_orders (on_side (o_side x) (drop_order x) L) =
    filter (\<lambda>y. o_order_id y \<noteq> o_order_id x) (ld_orders L)"
proof -
  let ?P = "\<lambda>y. o_order_id y \<noteq> o_order_id x"
  have x: "is_valid_side (o_side x)" "x \<in> set (flat (ld_levels (o_side x) L))"
    using ladder_order_side [OF assms] by auto
  have f: "flat (drop_order x (ld_levels (o_side x) L)) = filter ?P (flat (ld_levels (o_side x) L))"
    by (rule flat_drop_order [OF ladder_ok_levels [OF assms(1) x(1)] ladder_distinct_side [OF assms(1)] x(2)])
  have other: "filter ?P (flat (ld_levels (opposite (o_side x)) L)) = flat (ld_levels (opposite (o_side x)) L)"
    using other_side_ids [OF assms] by (simp add: filter_id_conv)
  show ?thesis using x f other
    by (cases "o_side x") (auto simp: ld_orders_levels ladder_simps)
qed

lemma ld_orders_shrink:
  assumes "ladder_ok L" and "x \<in> set (ld_orders L)"
  shows "ld_orders (on_side (o_side x) (shrink_order n x) L) =
    map (\<lambda>y. if o_order_id y = o_order_id x then y\<lparr>o_quantity := o_quantity y - n\<rparr> else y) (ld_orders L)"
proof -
  let ?f = "\<lambda>y. if o_order_id y = o_order_id x then y\<lparr>o_quantity := o_quantity y - n\<rparr> else y"
  have x: "is_valid_side (o_side x)" "x \<in> set (flat (ld_levels (o_side x) L))"
    using ladder_order_side [OF assms] by auto
  have f: "flat (shrink_order n x (ld_levels (o_side x) L)) = map ?f (flat (ld_levels (o_side x) L))"
    by (rule flat_shrink_order [OF ladder_ok_levels [OF assms(1) x(1)] ladder_distinct_side [OF assms(1)] x(2)])
  have other: "map ?f (flat (ld_levels (opposite (o_side x)) L)) = flat (ld_levels (opposite (o_side x)) L)"
    using other_side_ids [OF assms] by (auto intro!: map_idI)
  show ?thesis using x f other
    by (cases "o_side x") (auto simp: ld_orders_levels ladder_simps)
qed

lemma ladder_ok_push:
  assumes "ladder_ok L" and "is_valid_resting_order x" and "o_symbol_id x = ld_symbol L"
    and "ld_find (o_order_id x) L = None"
  shows "ladder_ok (on_side (o_side x) (push_order x) L)"
proof -
  have side: "is_valid_side (o_side x)" using assms(2) by (simp add: is_valid_resting_order_def)
  have "mset (map o_order_id (ld_orders (on_side (o_side x) (push_order x) L))) =
      add_mset (o_order_id x) (mset (map o_order_id (ld_orders L)))"
    by (simp add: mset_orders_push [OF assms(1) side])
  then have "distinct (map o_order_id (ld_orders (on_side (o_side x) (push_order x) L))) \<longleftrightarrow>
      distinct (o_order_id x # map o_order_id (ld_orders L))"
    by (metis mset.simps(2) mset_eq_imp_distinct_iff)
  moreover have "distinct (o_order_id x # map o_order_id (ld_orders L))"
    using assms(1,4) by (simp add: ladder_ok_def ld_find_None)
  moreover have "levels_ok (ld_symbol L) (o_side x) (push_order x (ld_levels (o_side x) L))"
    using levels_ok_push ladder_ok_levels assms side by simp
  ultimately show ?thesis
    using assms(1) side unfolding ladder_ok_by_levels by (auto simp: ladder_simps)
qed

lemma ladder_ok_drop:
  assumes "ladder_ok L" and "x \<in> set (ld_orders L)"
  shows "ladder_ok (on_side (o_side x) (drop_order x) L)"
  using assms(1) levels_ok_drop unfolding ladder_ok_by_levels
  by (auto simp: ladder_simps ld_orders_drop [OF assms] distinct_map_filter)

lemma ladder_ok_shrink:
  assumes "ladder_ok L" and "x \<in> set (ld_orders L)" and "n < o_quantity x"
  shows "ladder_ok (on_side (o_side x) (shrink_order n x) L)"
proof -
  have "map o_order_id (ld_orders (on_side (o_side x) (shrink_order n x) L)) =
      map o_order_id (ld_orders L)"
    by (simp add: ld_orders_shrink [OF assms(1,2)])
  moreover have "levels_ok (ld_symbol L) (o_side x) (shrink_order n x (ld_levels (o_side x) L))"
    using ladder_order_side [OF assms(1,2)]
    by (intro levels_ok_shrink ladder_ok_levels ladder_distinct_side assms) auto
  ultimately show ?thesis
    using assms(1) unfolding ladder_ok_by_levels by (auto simp: ladder_simps)
qed

lemma spec_add_ok: "ladder_ok L \<Longrightarrow> ladder_ok (snd (spec_add x L))"
  by (simp add: spec_add_def ladder_ok_push)

lemma spec_cancel_ok: "ladder_ok L \<Longrightarrow> ladder_ok (snd (spec_cancel i L))"
  by (auto simp: spec_cancel_def ld_find_Some ladder_ok_drop split: option.splits)

lemma spec_reduce_ok: "ladder_ok L \<Longrightarrow> ladder_ok (snd (spec_reduce i n L))"
  by (auto simp: spec_reduce_def ld_find_Some ladder_ok_shrink spec_cancel_ok split: option.splits)

lemma spec_replace_ok: "ladder_ok L \<Longrightarrow> ladder_ok (snd (spec_replace i p n ts sq L))"
  by (auto simp: spec_replace_def spec_add_ok spec_cancel_ok split: option.splits)

lemma spec_clear_ok: "ladder_ok (spec_clear L)"
  by (simp add: spec_clear_def ladder_ok_def levels_ok_def ld_orders_def flat_def)

section \<open>The interface of a book\<close>

text \<open>
  The mutating operations as data, so that a whole driver run is one argument. The result of
  \<^verbatim>\<open>clear\<close>, which returns nothing, is recorded as \<open>True\<close>.
\<close>

datatype book_op =
    Op_Add order
  | Op_Cancel order_id
  | Op_Reduce order_id quantity
  | Op_Replace order_id price_ticks quantity timestamp_ns sequence_number
  | Op_Clear

fun spec_step :: "book_op \<Rightarrow> ladder \<Rightarrow> bool \<times> ladder" where
  "spec_step (Op_Add x) L = spec_add x L"
| "spec_step (Op_Cancel i) L = spec_cancel i L"
| "spec_step (Op_Reduce i n) L = spec_reduce i n L"
| "spec_step (Op_Replace i p n ts sq) L = spec_replace i p n ts sq L"
| "spec_step Op_Clear L = (True, spec_clear L)"

lemma spec_step_ok: "ladder_ok L \<Longrightarrow> ladder_ok (snd (spec_step op L))"
  by (cases op) (simp_all add: spec_add_ok spec_cancel_ok spec_reduce_ok spec_replace_ok spec_clear_ok)

text \<open>
  \<open>kNoIndex\<close> is the sentinel \<^verbatim>\<open>static_cast<std::size_t>(-1)\<close>. A book may keep its
  orders in a vector of node slots; \<open>slots\<close> counts them, and every operation takes at most one
  more. \<open>kMaxSlots\<close> is a bound no vector of 64-byte nodes can reach in a 64-bit address space;
  below it no index computation of the books wraps or collides with the sentinel.
\<close>

definition kNoIndex :: nat where
  "kNoIndex = 2 ^ 64 - 1"

definition kMaxSlots :: nat where
  "kMaxSlots = 2 ^ 60"

locale l3_book =
  fixes step :: "book_op \<Rightarrow> 's \<Rightarrow> bool \<times> 's"
    and ladder_of :: "'s \<Rightarrow> ladder"
    and inv :: "'s \<Rightarrow> bool"
    and slots :: "'s \<Rightarrow> nat"
    and find_order :: "order_id \<Rightarrow> 's \<Rightarrow> order option"
    and best_order :: "side \<Rightarrow> 's \<Rightarrow> order option"
    and best_price :: "side \<Rightarrow> 's \<Rightarrow> price_ticks option"
    and total_quantity_at :: "side \<Rightarrow> price_ticks \<Rightarrow> 's \<Rightarrow> quantity"
    and view :: "nat \<Rightarrow> 's \<Rightarrow> l2_view"
    and check :: "'s \<Rightarrow> u64"
  assumes inv_ladder: "inv s \<Longrightarrow> ladder_ok (ladder_of s)"
    and step_refines: "inv s \<Longrightarrow> slots s + 1 < kMaxSlots \<Longrightarrow>
      inv (snd (step op s)) \<and> slots (snd (step op s)) \<le> slots s + 1 \<and>
      spec_step op (ladder_of s) = (fst (step op s), ladder_of (snd (step op s)))"
    and find_refines: "inv s \<Longrightarrow> find_order i s = ld_find i (ladder_of s)"
    and best_order_refines: "inv s \<Longrightarrow> best_order sd s = spec_best_order sd (ladder_of s)"
    and best_price_refines: "inv s \<Longrightarrow> best_price sd s = spec_best_price sd (ladder_of s)"
    and total_refines: "inv s \<Longrightarrow>
      total_quantity_at sd p s = spec_total_quantity_at sd p (ladder_of s)"
    and view_refines: "inv s \<Longrightarrow> view depth s = spec_l2_view depth (ladder_of s)"
    and check_refines: "inv s \<Longrightarrow> check s = spec_checksum (ladder_of s)"
begin

lemma run_refines:
  assumes "inv s" and "slots s + length ops < kMaxSlots"
  shows "inv (snd (run_with step ops s)) \<and>
    run_with spec_step ops (ladder_of s) =
      (fst (run_with step ops s), ladder_of (snd (run_with step ops s)))"
  using assms
proof (induction ops arbitrary: s)
  case (Cons op ops)
  obtain r s' where s': "step op s = (r, s')" by (cases "step op s")
  with Cons.prems step_refines [of s op] have "inv s'" "slots s' \<le> slots s + 1"
      "spec_step op (ladder_of s) = (r, ladder_of s')" by auto
  with Cons.IH [of s'] Cons.prems(2) s' show ?case
    by (auto simp: Let_def split: prod.splits)
qed simp

lemma best_order_priority:
  assumes "inv s" and "best_order sd s = Some x" and "y \<in> set (ld_orders (ladder_of s))"
    and "o_side y = sd"
  shows "o_price_ticks y = o_price_ticks x \<or> better sd (o_price_ticks x) (o_price_ticks y)"
proof -
  let ?L = "ladder_of s"
  have ok: "ladder_ok ?L" using assms(1) by (rule inv_ladder)
  have y: "is_valid_side sd" "y \<in> set (flat (ld_levels sd ?L))"
    using ladder_order_side [OF ok assms(3)] assms(4) by auto
  obtain p q ls where ls: "ld_levels sd ?L = (p, q) # ls" "x = hd q"
    using assms(1,2) by (auto simp: best_order_refines spec_best_order_def split: list.splits)
  have lok: "levels_ok (ld_symbol ?L) sd ((p, q) # ls)"
    using ladder_ok_levels [OF ok y(1)] ls by simp
  then have "o_price_ticks x = p" using ls(2) by (simp add: ladder_simps)
  moreover have "o_price_ticks y = p \<or> better sd p (o_price_ticks y)"
    using lok y(2) ls(1) levels_ok_flatD [OF lok] by (force simp: ladder_simps in_flat levels_ok_def)
  ultimately show ?thesis by simp
qed

end

end
