(* ===== verification/Order_Book.thy ===== *)
theory Order_Book
  imports Ladder
begin

text \<open>
  \<^verbatim>\<open>book/order_book.hpp\<close>, \<^verbatim>\<open>book/price_level.hpp\<close> and
  \<^verbatim>\<open>book/order_book.cpp\<close>: the node-based L3 book. Each side is a
  \<^verbatim>\<open>std::map\<close> from price to \<^verbatim>\<open>PriceLevel\<close>, whose orders are a
  \<^verbatim>\<open>std::list\<close>; an unordered index maps an order id to the list node that holds it.
  A list node is modelled with its address, so the index holds genuine references: an iterator is
  an address in the list of the level it was taken from, and \<open>deref\<close> reads through it.
\<close>

section \<open>State\<close>

type_synonym node = "nat \<times> order"

record price_level =
  pl_price_ticks :: price_ticks
  pl_total_quantity :: quantity
  pl_orders :: "node list"

record locator =
  loc_side :: side
  loc_price_ticks :: price_ticks
  loc_iterator :: nat

type_synonym price_levels = "(price_ticks \<times> price_level) list"

record order_book =
  ob_symbol_id :: symbol_id
  ob_bids :: price_levels
  ob_asks :: price_levels
  ob_order_index :: "(order_id \<times> locator) list"
  ob_next_node :: nat

definition empty_level :: price_level where
  "empty_level = \<lparr>pl_price_ticks = 0, pl_total_quantity = 0, pl_orders = []\<rparr>"

definition ob_new :: "symbol_id \<Rightarrow> order_book" where
  "ob_new sy = \<lparr>ob_symbol_id = sy, ob_bids = [], ob_asks = [], ob_order_index = [], ob_next_node = 0\<rparr>"

definition ob_empty :: "order_book \<Rightarrow> bool" where
  "ob_empty b \<longleftrightarrow> ob_order_index b = []"

definition ob_order_count :: "order_book \<Rightarrow> nat" where
  "ob_order_count b = length (ob_order_index b)"

definition ob_clear :: "order_book \<Rightarrow> order_book" where
  "ob_clear b = b\<lparr>ob_bids := [], ob_asks := [], ob_order_index := []\<rparr>"

section \<open>Levels and iterators\<close>

definition ob_levels :: "side \<Rightarrow> order_book \<Rightarrow> price_levels" where
  "ob_levels sd b = (case sd of Buy \<Rightarrow> ob_bids b | Sell \<Rightarrow> ob_asks b | NoSide \<Rightarrow> [])"

definition ob_on_side :: "side \<Rightarrow> (price_levels \<Rightarrow> price_levels) \<Rightarrow> order_book \<Rightarrow> order_book" where
  "ob_on_side sd f b = (case sd of
      Buy \<Rightarrow> b\<lparr>ob_bids := f (ob_bids b)\<rparr>
    | Sell \<Rightarrow> b\<lparr>ob_asks := f (ob_asks b)\<rparr>
    | NoSide \<Rightarrow> b)"

text \<open>
  \<^verbatim>\<open>mutable_level\<close> creates the level when it is missing and returns a pointer to it;
  the model returns the book with the level in place, \<open>None\<close> for the null pointer, and writes
  through the pointer with \<open>write_level\<close>.
\<close>

definition mutable_level :: "side \<Rightarrow> price_ticks \<Rightarrow> order_book \<Rightarrow> order_book option" where
  "mutable_level sd p b =
     (if sd = Buy then Some (ob_on_side Buy (om_try_emplace (better Buy) p empty_level) b)
      else if sd = Sell then Some (ob_on_side Sell (om_try_emplace (better Sell) p empty_level) b)
      else None)"

definition write_level :: "side \<Rightarrow> price_ticks \<Rightarrow> (price_level \<Rightarrow> price_level) \<Rightarrow> order_book \<Rightarrow> order_book" where
  "write_level sd p f b = ob_on_side sd (om_modify p f) b"

definition ob_level :: "side \<Rightarrow> price_ticks \<Rightarrow> order_book \<Rightarrow> price_level option" where
  "ob_level sd p b =
     (if sd = Buy then map_of (ob_bids b) p
      else if sd = Sell then map_of (ob_asks b) p
      else None)"

definition erase_level_if_empty :: "side \<Rightarrow> price_ticks \<Rightarrow> order_book \<Rightarrow> order_book" where
  "erase_level_if_empty sd p b = (case ob_level sd p b of
      Some lv \<Rightarrow> if pl_orders lv = [] then ob_on_side sd (om_erase p) b else b
    | None \<Rightarrow> b)"

definition deref :: "locator \<Rightarrow> order_book \<Rightarrow> order option" where
  "deref loc b = (case ob_level (loc_side loc) (loc_price_ticks loc) b of
      Some lv \<Rightarrow> map_of (pl_orders lv) (loc_iterator loc)
    | None \<Rightarrow> None)"

section \<open>Operations\<close>

definition ob_add_order :: "order \<Rightarrow> order_book \<Rightarrow> bool \<times> order_book" where
  "ob_add_order x b =
     (if \<not> is_valid_resting_order x \<or> o_symbol_id x \<noteq> ob_symbol_id b then (False, b)
      else if map_of (ob_order_index b) (o_order_id x) \<noteq> None then (False, b)
      else case mutable_level (o_side x) (o_price_ticks x) b of
        None \<Rightarrow> (False, b)
      | Some b1 \<Rightarrow>
          let it = ob_next_node b1;
              b2 = write_level (o_side x) (o_price_ticks x)
                     (\<lambda>lv. lv\<lparr>pl_price_ticks := o_price_ticks x,
                             pl_total_quantity := pl_total_quantity lv + o_quantity x,
                             pl_orders := pl_orders lv @ [(it, x)]\<rparr>) b1
          in (True, b2\<lparr>ob_order_index := AList.update (o_order_id x)
                         \<lparr>loc_side = o_side x, loc_price_ticks = o_price_ticks x, loc_iterator = it\<rparr>
                         (ob_order_index b2),
                       ob_next_node := Suc it\<rparr>))"

definition ob_cancel_order :: "order_id \<Rightarrow> order_book \<Rightarrow> bool \<times> order_book" where
  "ob_cancel_order i b = (case map_of (ob_order_index b) i of
      None \<Rightarrow> (False, b)
    | Some loc \<Rightarrow> (case mutable_level (loc_side loc) (loc_price_ticks loc) b of
        None \<Rightarrow> (False, b)
      | Some b1 \<Rightarrow>
          let n = o_quantity (the (deref loc b1));
              b2 = write_level (loc_side loc) (loc_price_ticks loc)
                     (\<lambda>lv. lv\<lparr>pl_total_quantity := pl_total_quantity lv - n,
                             pl_orders := filter (\<lambda>(a, _). a \<noteq> loc_iterator loc) (pl_orders lv)\<rparr>) b1;
              b3 = b2\<lparr>ob_order_index := AList.delete i (ob_order_index b2)\<rparr>
          in (True, erase_level_if_empty (loc_side loc) (loc_price_ticks loc) b3)))"

definition ob_reduce_order :: "order_id \<Rightarrow> quantity \<Rightarrow> order_book \<Rightarrow> bool \<times> order_book" where
  "ob_reduce_order i n b =
     (if n \<le> 0 then (False, b)
      else case map_of (ob_order_index b) i of
        None \<Rightarrow> (False, b)
      | Some loc \<Rightarrow> (case mutable_level (loc_side loc) (loc_price_ticks loc) b of
          None \<Rightarrow> (False, b)
        | Some b1 \<Rightarrow>
            if n \<ge> o_quantity (the (deref loc b1)) then ob_cancel_order i b1
            else (True, write_level (loc_side loc) (loc_price_ticks loc)
                   (\<lambda>lv. lv\<lparr>pl_orders := map (\<lambda>(a, x).
                              if a = loc_iterator loc then (a, x\<lparr>o_quantity := o_quantity x - n\<rparr>)
                              else (a, x)) (pl_orders lv),
                           pl_total_quantity := pl_total_quantity lv - n\<rparr>) b1)))"

definition ob_find_order :: "order_id \<Rightarrow> order_book \<Rightarrow> order option" where
  "ob_find_order i b = (case map_of (ob_order_index b) i of
      None \<Rightarrow> None
    | Some loc \<Rightarrow> Some (the (deref loc b)))"

definition ob_replace_order ::
  "order_id \<Rightarrow> price_ticks \<Rightarrow> quantity \<Rightarrow> timestamp_ns \<Rightarrow> sequence_number \<Rightarrow> order_book \<Rightarrow> bool \<times> order_book" where
  "ob_replace_order i p n ts sq b =
     (if p \<le> 0 \<or> n \<le> 0 then (False, b)
      else case ob_find_order i b of
        None \<Rightarrow> (False, b)
      | Some existing \<Rightarrow>
          let replacement = existing\<lparr>o_price_ticks := p, o_quantity := n,
                o_timestamp_ns := ts, o_sequence_number := sq\<rparr>;
              (cancelled, b1) = ob_cancel_order i b
          in if \<not> cancelled then (False, b1) else ob_add_order replacement b1)"

definition ob_best_order :: "side \<Rightarrow> order_book \<Rightarrow> order option" where
  "ob_best_order sd b = (case ob_levels sd b of
      [] \<Rightarrow> None
    | (_, lv) # _ \<Rightarrow> Some (snd (hd (pl_orders lv))))"

definition ob_best_bid :: "order_book \<Rightarrow> price_ticks option" where
  "ob_best_bid b = (case ob_bids b of [] \<Rightarrow> None | (p, _) # _ \<Rightarrow> Some p)"

definition ob_best_ask :: "order_book \<Rightarrow> price_ticks option" where
  "ob_best_ask b = (case ob_asks b of [] \<Rightarrow> None | (p, _) # _ \<Rightarrow> Some p)"

definition ob_total_quantity_at :: "side \<Rightarrow> price_ticks \<Rightarrow> order_book \<Rightarrow> quantity" where
  "ob_total_quantity_at sd p b =
     (case ob_level sd p b of None \<Rightarrow> 0 | Some lv \<Rightarrow> pl_total_quantity lv)"

text \<open>One side of the L2 view: the loop stops when the view holds \<open>depth\<close> levels.\<close>

fun fill_side :: "nat \<Rightarrow> l2_level list \<Rightarrow> price_levels \<Rightarrow> l2_level list" where
  "fill_side depth acc [] = acc"
| "fill_side depth acc ((p, lv) # ls) =
     (if length acc \<ge> depth then acc
      else fill_side depth (acc @ [\<lparr>l2_price_ticks = p, l2_quantity = pl_total_quantity lv\<rparr>]) ls)"

definition ob_l2_view :: "nat \<Rightarrow> order_book \<Rightarrow> l2_view" where
  "ob_l2_view depth b =
     (if depth = 0 then \<lparr>l2_symbol_id = ob_symbol_id b, l2_bids = [], l2_asks = []\<rparr>
      else \<lparr>l2_symbol_id = ob_symbol_id b,
            l2_bids = fill_side depth [] (ob_bids b), l2_asks = fill_side depth [] (ob_asks b)\<rparr>)"

fun checksum_price_levels :: "u64 \<Rightarrow> price_levels \<Rightarrow> u64" where
  "checksum_price_levels seed [] = seed"
| "checksum_price_levels seed ((p, lv) # ls) =
     (let seed = checksum_append_i64 seed p;
          seed = checksum_append_i64 seed (pl_total_quantity lv);
          seed = checksum_append_size seed (length (pl_orders lv));
          seed = foldl (\<lambda>seed (_, x). checksum_order seed x) seed (pl_orders lv)
      in checksum_price_levels seed ls)"

definition ob_checksum_levels :: "u64 \<Rightarrow> side \<Rightarrow> price_levels \<Rightarrow> u64" where
  "ob_checksum_levels seed sd ls =
     checksum_price_levels (checksum_append_size (checksum_append_side seed sd) (length ls)) ls"

definition ob_checksum :: "order_book \<Rightarrow> u64" where
  "ob_checksum b =
     (let seed = checksum_append_u32 kFnvOffsetBasis (ob_symbol_id b);
          seed = ob_checksum_levels seed Buy (ob_bids b)
      in ob_checksum_levels seed Sell (ob_asks b))"

fun ob_step :: "book_op \<Rightarrow> order_book \<Rightarrow> bool \<times> order_book" where
  "ob_step (Op_Add x) b = ob_add_order x b"
| "ob_step (Op_Cancel i) b = ob_cancel_order i b"
| "ob_step (Op_Reduce i n) b = ob_reduce_order i n b"
| "ob_step (Op_Replace i p n ts sq) b = ob_replace_order i p n ts sq b"
| "ob_step Op_Clear b = (True, ob_clear b)"

section \<open>Invariant and abstraction\<close>

definition level_queue :: "price_level \<Rightarrow> order list" where
  "level_queue lv = map snd (pl_orders lv)"

definition ob_ladder :: "order_book \<Rightarrow> ladder" where
  "ob_ladder b = \<lparr>ld_symbol = ob_symbol_id b,
     ld_bids = map_vals level_queue (ob_bids b), ld_asks = map_vals level_queue (ob_asks b)\<rparr>"

definition level_inv :: "nat \<Rightarrow> price_ticks \<Rightarrow> price_level \<Rightarrow> bool" where
  "level_inv nx p lv \<longleftrightarrow> pl_price_ticks lv = p \<and> pl_total_quantity lv = queue_total (level_queue lv) \<and>
     distinct (map fst (pl_orders lv)) \<and> (\<forall>a \<in> fst ` set (pl_orders lv). a < nx)"

definition ob_inv :: "order_book \<Rightarrow> bool" where
  "ob_inv b \<longleftrightarrow> ladder_ok (ob_ladder b) \<and>
     (\<forall>sd p lv. ob_level sd p b = Some lv \<longrightarrow> level_inv (ob_next_node b) p lv) \<and>
     distinct (map fst (ob_order_index b)) \<and>
     (\<forall>i loc. map_of (ob_order_index b) i = Some loc \<longleftrightarrow>
        (\<exists>x. deref loc b = Some x \<and> o_order_id x = i))"

lemma ob_level_levels: "ob_level sd p b = map_of (ob_levels sd b) p"
  by (cases sd) (auto simp: ob_level_def ob_levels_def)

lemma ladder_levels [ladder_simps]:
  "ld_levels sd (ob_ladder b) = map_vals level_queue (ob_levels sd b)"
  by (cases sd) (auto simp: ld_levels_def ob_levels_def ob_ladder_def)

lemma ladder_symbol [ladder_simps]: "ld_symbol (ob_ladder b) = ob_symbol_id b"
  by (simp add: ob_ladder_def)

lemma ob_levels_on_side [ladder_simps]:
  "ob_levels sd' (ob_on_side sd f b) =
     (if sd = sd' \<and> is_valid_side sd then f (ob_levels sd b) else ob_levels sd' b)"
  by (cases sd; cases sd') (auto simp: ob_levels_def ob_on_side_def)

lemma ob_on_side_fields [ladder_simps]:
  "ob_symbol_id (ob_on_side sd f b) = ob_symbol_id b"
  "ob_order_index (ob_on_side sd f b) = ob_order_index b"
  "ob_next_node (ob_on_side sd f b) = ob_next_node b"
  by (cases sd; simp add: ob_on_side_def)+

lemma ob_levels_index [ladder_simps]:
  "ob_levels sd (b\<lparr>ob_order_index := m\<rparr>) = ob_levels sd b"
  "ob_levels sd (b\<lparr>ob_next_node := n\<rparr>) = ob_levels sd b"
  by (cases sd; simp add: ob_levels_def)+

lemma ladder_eqI:
  assumes "ld_symbol L = ld_symbol L'" and "\<And>sd. is_valid_side sd \<Longrightarrow> ld_levels sd L = ld_levels sd L'"
  shows "L = L'"
  using assms(1) assms(2) [of Buy] assms(2) [of Sell]
  by (cases L; cases L') (simp add: ld_levels_def)

lemma ob_inv_sorted:
  assumes "ob_inv b" and "is_valid_side sd"
  shows "sorted_wrt (better sd) (map fst (ob_levels sd b))"
proof -
  have "levels_ok (ob_symbol_id b) sd (map_vals level_queue (ob_levels sd b))"
    using ladder_ok_levels [of "ob_ladder b" sd] assms by (simp add: ob_inv_def ladder_simps)
  then show ?thesis using levels_ok_sorted by fastforce
qed

end
