(* ===== verification/Order_Book_Correct.thy ===== *)
theory Order_Book_Correct
  imports Order_Book
begin

text \<open>
  The node-based book refines the ladder: every operation keeps \<open>ob_inv\<close> and commutes with the
  abstraction \<open>ob_ladder\<close>, every observation is the ladder's. The theory closes with the
  interpretation of the interface \<open>l3_book\<close>.
\<close>

section \<open>Reading through the index\<close>

lemma derefD:
  assumes "deref loc b = Some x"
  obtains lv where "ob_level (loc_side loc) (loc_price_ticks loc) b = Some lv"
    and "map_of (pl_orders lv) (loc_iterator loc) = Some x"
  using assms by (auto simp: deref_def split: option.splits)

lemma ob_level_side: "ob_level sd p b = Some lv \<Longrightarrow> is_valid_side sd"
  by (auto simp: ob_level_def split: if_splits)

lemma ob_inv_levels_ok:
  "ob_inv b \<Longrightarrow> is_valid_side sd \<Longrightarrow>
   levels_ok (ob_symbol_id b) sd (map_vals level_queue (ob_levels sd b))"
  using ladder_ok_levels [of "ob_ladder b" sd] by (simp add: ob_inv_def ladder_simps)

lemma ob_inv_level:
  "ob_inv b \<Longrightarrow> ob_level sd p b = Some lv \<Longrightarrow> level_inv (ob_next_node b) p lv"
  by (simp add: ob_inv_def)

lemma level_queue_member:
  assumes "ob_inv b" and "ob_level sd p b = Some lv" and "x \<in> set (level_queue lv)"
  shows "x \<in> set (ld_orders (ob_ladder b)) \<and> o_side x = sd \<and> o_price_ticks x = p"
proof -
  have sd: "is_valid_side sd" using assms(2) by (rule ob_level_side)
  have "map_of (map_vals level_queue (ob_levels sd b)) p = Some (level_queue lv)"
    using assms(2) by (simp add: ob_level_levels map_of_map_vals)
  then have mem: "(p, level_queue lv) \<in> set (map_vals level_queue (ob_levels sd b))"
    by (rule map_of_SomeD)
  then have "o_side x = sd" "o_price_ticks x = p"
    using ob_inv_levels_ok [OF assms(1) sd] assms(3) by (auto simp: levels_ok_def)
  moreover have "x \<in> set (flat (ld_levels sd (ob_ladder b)))"
    unfolding ladder_simps in_flat using mem assms(3) by blast
  ultimately show ?thesis using sd by (auto simp: ld_orders_levels)
qed

lemma deref_member:
  assumes "ob_inv b" and "deref loc b = Some x"
  shows "x \<in> set (ld_orders (ob_ladder b)) \<and> o_side x = loc_side loc \<and>
    o_price_ticks x = loc_price_ticks loc"
proof -
  from assms(2) obtain lv where lv: "ob_level (loc_side loc) (loc_price_ticks loc) b = Some lv"
      "map_of (pl_orders lv) (loc_iterator loc) = Some x" by (rule derefD)
  then have "x \<in> set (level_queue lv)" by (force simp: level_queue_def dest: map_of_SomeD)
  with assms(1) lv(1) show ?thesis using level_queue_member by blast
qed

lemma member_deref:
  assumes "ob_inv b" and "x \<in> set (ld_orders (ob_ladder b))"
  obtains loc where "deref loc b = Some x"
proof -
  have ok: "ladder_ok (ob_ladder b)" using assms(1) by (simp add: ob_inv_def)
  have sd: "is_valid_side (o_side x)"
    and mem: "x \<in> set (flat (map_vals level_queue (ob_levels (o_side x) b)))"
    using ladder_order_side [OF ok assms(2)] by (simp_all add: ladder_simps)
  from levels_ok_flatD [OF ob_inv_levels_ok [OF assms(1) sd] mem]
  obtain lv where lv: "ob_level (o_side x) (o_price_ticks x) b = Some lv" "x \<in> set (level_queue lv)"
    by (auto simp: map_of_map_vals ob_level_levels)
  then obtain a where "(a, x) \<in> set (pl_orders lv)" by (auto simp: level_queue_def)
  then have "map_of (pl_orders lv) a = Some x"
    using ob_inv_level [OF assms(1) lv(1)] by (simp add: level_inv_def)
  then have "deref \<lparr>loc_side = o_side x, loc_price_ticks = o_price_ticks x, loc_iterator = a\<rparr> b = Some x"
    by (simp add: deref_def lv(1))
  then show thesis by (rule that)
qed

lemma index_Some:
  assumes "ob_inv b" and "map_of (ob_order_index b) i = Some loc"
  obtains x where "deref loc b = Some x" and "o_order_id x = i" and "ld_find i (ob_ladder b) = Some x"
    and "o_side x = loc_side loc" and "o_price_ticks x = loc_price_ticks loc"
    and "x \<in> set (ld_orders (ob_ladder b))"
proof -
  from assms obtain x where x: "deref loc b = Some x" "o_order_id x = i" by (auto simp: ob_inv_def)
  from deref_member [OF assms(1) x(1)] have m: "x \<in> set (ld_orders (ob_ladder b))"
      "o_side x = loc_side loc" "o_price_ticks x = loc_price_ticks loc" by auto
  moreover have "ld_find i (ob_ladder b) = Some x"
    using m(1) x(2) assms(1) by (simp add: ld_find_Some ob_inv_def)
  ultimately show thesis using x that by blast
qed

lemma index_None:
  assumes "ob_inv b"
  shows "map_of (ob_order_index b) i = None \<longleftrightarrow> ld_find i (ob_ladder b) = None"
proof
  assume none: "map_of (ob_order_index b) i = None"
  show "ld_find i (ob_ladder b) = None"
  proof (rule ccontr)
    assume "ld_find i (ob_ladder b) \<noteq> None"
    then obtain x where "x \<in> set (ld_orders (ob_ladder b))" "o_order_id x = i"
      by (auto simp: ld_find_None)
    moreover from member_deref [OF assms this(1)] obtain loc where "deref loc b = Some x" .
    ultimately have "map_of (ob_order_index b) i = Some loc" using assms by (auto simp: ob_inv_def)
    with none show False by simp
  qed
next
  assume "ld_find i (ob_ladder b) = None"
  then show "map_of (ob_order_index b) i = None"
    using index_Some [OF assms, of i] by (cases "map_of (ob_order_index b) i") auto
qed

lemma ob_find_refines: "ob_inv b \<Longrightarrow> ob_find_order i b = ld_find i (ob_ladder b)"
  using index_None [of b i] by (auto simp: ob_find_order_def split: option.splits elim: index_Some)

lemma mutable_level_present:
  assumes "ob_inv b" and "ob_level sd p b = Some lv"
  shows "mutable_level sd p b = Some b"
proof -
  have sd: "is_valid_side sd" using assms(2) by (rule ob_level_side)
  have "p \<in> fst ` set (ob_levels sd b)"
    using assms(2) by (metis map_of_eq_None_iff ob_level_levels option.distinct(1))
  with ob_inv_sorted [OF assms(1) sd] have "om_try_emplace (better sd) p empty_level (ob_levels sd b) = ob_levels sd b"
    by (rule side_order.try_emplace_present)
  with sd show ?thesis by (cases sd) (auto simp: mutable_level_def ob_on_side_def ob_levels_def)
qed

section \<open>add\<close>

lemma mutable_level_valid:
  "is_valid_side sd \<Longrightarrow>
   mutable_level sd p b = Some (ob_on_side sd (om_try_emplace (better sd) p empty_level) b)"
  by (cases sd) (auto simp: mutable_level_def)

definition append_node :: "nat \<Rightarrow> order \<Rightarrow> price_level \<Rightarrow> price_level" where
  "append_node it x lv = lv\<lparr>pl_price_ticks := o_price_ticks x,
     pl_total_quantity := pl_total_quantity lv + o_quantity x, pl_orders := pl_orders lv @ [(it, x)]\<rparr>"

definition added :: "order \<Rightarrow> order_book \<Rightarrow> order_book" where
  "added x b = (ob_on_side (o_side x) (\<lambda>ls. om_modify (o_price_ticks x) (append_node (ob_next_node b) x)
       (om_try_emplace (better (o_side x)) (o_price_ticks x) empty_level ls)) b)
     \<lparr>ob_order_index := AList.update (o_order_id x) \<lparr>loc_side = o_side x,
         loc_price_ticks = o_price_ticks x, loc_iterator = ob_next_node b\<rparr> (ob_order_index b),
      ob_next_node := Suc (ob_next_node b)\<rparr>"

lemma added_fields [simp]:
  "ob_symbol_id (added x b) = ob_symbol_id b"
  "ob_next_node (added x b) = Suc (ob_next_node b)"
  "ob_order_index (added x b) = AList.update (o_order_id x) \<lparr>loc_side = o_side x,
     loc_price_ticks = o_price_ticks x, loc_iterator = ob_next_node b\<rparr> (ob_order_index b)"
  by (simp_all add: added_def ladder_simps)

lemma ob_add_order_cases:
  "ob_add_order x b =
     (if is_valid_resting_order x \<and> o_symbol_id x = ob_symbol_id b \<and>
         map_of (ob_order_index b) (o_order_id x) = None then (True, added x b) else (False, b))"
proof -
  have "mutable_level (o_side x) (o_price_ticks x) b =
      Some (ob_on_side (o_side x) (om_try_emplace (better (o_side x)) (o_price_ticks x) empty_level) b)"
    if "is_valid_resting_order x"
    using that by (intro mutable_level_valid) (simp add: is_valid_resting_order_def)
  then show ?thesis
    by (cases "o_side x") (auto simp: ob_add_order_def added_def write_level_def Let_def
        ladder_simps ob_on_side_def append_node_def [abs_def] is_valid_resting_order_def)
qed

lemma ob_level_added:
  assumes "ob_inv b" and "is_valid_side (o_side x)"
  shows "ob_level sd p (added x b) =
    (if sd = o_side x \<and> p = o_price_ticks x
     then Some (append_node (ob_next_node b) x
            (case ob_level sd p b of None \<Rightarrow> empty_level | Some lv \<Rightarrow> lv))
     else ob_level sd p b)"
proof -
  have "ob_levels sd (added x b) = (if sd = o_side x
      then om_modify (o_price_ticks x) (append_node (ob_next_node b) x)
        (om_try_emplace (better sd) (o_price_ticks x) empty_level (ob_levels sd b))
      else ob_levels sd b)"
    using assms(2) by (auto simp: added_def ladder_simps)
  then show ?thesis
    using ob_inv_sorted [OF assms]
    by (auto simp: ob_level_levels map_of_om_modify side_order.map_of_try_emplace fun_upd_def
        split: option.splits)
qed

lemma added_ladder:
  assumes "is_valid_side (o_side x)"
  shows "ob_ladder (added x b) = on_side (o_side x) (push_order x) (ob_ladder b)"
proof (rule ladder_eqI)
  show "ld_symbol (ob_ladder (added x b)) = ld_symbol (on_side (o_side x) (push_order x) (ob_ladder b))"
    by (simp add: ladder_simps added_def)
  fix sd
  assume "is_valid_side sd"
  have "map_vals level_queue (om_modify (o_price_ticks x) (append_node (ob_next_node b) x) ls) =
      om_modify (o_price_ticks x) (\<lambda>q. q @ [x]) (map_vals level_queue ls)" for ls
    by (rule map_vals_modify) (simp add: level_queue_def append_node_def)
  then show "ld_levels sd (ob_ladder (added x b)) =
      ld_levels sd (on_side (o_side x) (push_order x) (ob_ladder b))"
    using assms by (auto simp: ladder_simps added_def push_order_def map_vals_try_emplace
        level_queue_def empty_level_def)
qed

lemma deref_added:
  assumes "ob_inv b" and "is_valid_side (o_side x)"
  shows "deref loc (added x b) =
    (if loc = \<lparr>loc_side = o_side x, loc_price_ticks = o_price_ticks x, loc_iterator = ob_next_node b\<rparr>
     then Some x else deref loc b)"
proof -
  have fresh: "ob_level sd p b = Some lv \<Longrightarrow> map_of (pl_orders lv) (ob_next_node b) = None" for sd p lv
    using ob_inv_level [OF assms(1)] by (force simp: level_inv_def map_of_eq_None_iff)
  obtain s p a where loc: "loc = \<lparr>loc_side = s, loc_price_ticks = p, loc_iterator = a\<rparr>"
    by (cases loc)
  show ?thesis
    unfolding deref_def ob_level_added [OF assms] loc
    by (auto simp: append_node_def empty_level_def fresh map_add_def split: option.splits)
qed

lemma ob_inv_added:
  assumes inv: "ob_inv b" and x: "is_valid_resting_order x" "o_symbol_id x = ob_symbol_id b"
    and new: "map_of (ob_order_index b) (o_order_id x) = None"
  shows "ob_inv (added x b)"
proof -
  have side: "is_valid_side (o_side x)" using x by (simp add: is_valid_resting_order_def)
  let ?loc = "\<lparr>loc_side = o_side x, loc_price_ticks = o_price_ticks x, loc_iterator = ob_next_node b\<rparr>"
  have "ladder_ok (ob_ladder (added x b))"
    unfolding added_ladder [OF side]
    using inv x new by (intro ladder_ok_push) (auto simp: ob_inv_def ladder_simps index_None)
  moreover have "level_inv (ob_next_node (added x b)) p lv" if "ob_level sd p (added x b) = Some lv" for sd p lv
  proof -
    have old: "ob_level sd p b = Some lv' \<Longrightarrow> level_inv (ob_next_node b) p lv'" for lv'
      using inv by (rule ob_inv_level)
    show ?thesis
    proof (cases "sd = o_side x \<and> p = o_price_ticks x")
      case True
      with that ob_level_added [OF inv side]
      have lv: "lv = append_node (ob_next_node b) x
          (case ob_level sd p b of None \<Rightarrow> empty_level | Some lv \<Rightarrow> lv)" by auto
      show ?thesis
        unfolding lv using True old
        by (cases "ob_level sd p b")
          (force simp: level_inv_def append_node_def empty_level_def level_queue_def queue_total_def added_def)+
    next
      case False
      with that ob_level_added [OF inv side] have "ob_level sd p b = Some lv" by auto
      with old show ?thesis by (force simp: level_inv_def added_def)
    qed
  qed
  moreover have "distinct (map fst (ob_order_index (added x b)))"
    using inv by (simp add: ob_inv_def)
  moreover have "map_of (ob_order_index (added x b)) i = Some loc \<longleftrightarrow>
      (\<exists>y. deref loc (added x b) = Some y \<and> o_order_id y = i)" for i loc
  proof -
    have old: "map_of (ob_order_index b) i = Some loc \<longleftrightarrow> (\<exists>y. deref loc b = Some y \<and> o_order_id y = i)" for i loc
      using inv by (simp add: ob_inv_def)
    have "deref ?loc b = None"
      using ob_inv_level [OF inv] by (force simp: deref_def level_inv_def map_of_eq_None_iff split: option.splits)
    moreover have "o_order_id y \<noteq> o_order_id x" if "deref loc b = Some y" for y
      using old [of "o_order_id y" loc] that new by auto
    ultimately show ?thesis
      using old new by (auto simp: deref_added [OF inv side])
  qed
  ultimately show ?thesis by (simp add: ob_inv_def)
qed

lemma ob_add_refines:
  assumes "ob_inv b"
  shows "ob_inv (snd (ob_add_order x b)) \<and>
    spec_add x (ob_ladder b) = (fst (ob_add_order x b), ob_ladder (snd (ob_add_order x b)))"
  using assms ob_inv_added [OF assms, of x]
  by (auto simp: ob_add_order_cases spec_add_def ladder_simps index_None added_ladder
      is_valid_resting_order_def)

section \<open>cancel\<close>

definition detach_node :: "nat \<Rightarrow> quantity \<Rightarrow> price_level \<Rightarrow> price_level" where
  "detach_node it n lv = lv\<lparr>pl_total_quantity := pl_total_quantity lv - n,
     pl_orders := filter (\<lambda>(a, _). a \<noteq> it) (pl_orders lv)\<rparr>"

definition detached :: "locator \<Rightarrow> order \<Rightarrow> order_book \<Rightarrow> order_book" where
  "detached loc x b = (ob_on_side (loc_side loc) (om_modify (loc_price_ticks loc)
       (detach_node (loc_iterator loc) (o_quantity x))) b)
     \<lparr>ob_order_index := AList.delete (o_order_id x) (ob_order_index b)\<rparr>"

definition cancelled :: "locator \<Rightarrow> order \<Rightarrow> order_book \<Rightarrow> order_book" where
  "cancelled loc x b = erase_level_if_empty (loc_side loc) (loc_price_ticks loc) (detached loc x b)"

lemma node_id_iff:
  assumes "distinct (map fst ns)" and "distinct (map o_order_id (map snd ns))" and "(it, x) \<in> set ns"
    and "(a, y) \<in> set ns"
  shows "a = it \<longleftrightarrow> o_order_id y = o_order_id x"
proof -
  have "inj_on fst (set ns)" "inj_on (o_order_id \<circ> snd) (set ns)"
    using assms(1,2) by (simp_all add: distinct_map o_def)
  from inj_onD [OF this(1) _ assms(4,3)] inj_onD [OF this(2) _ assms(4,3)]
  show ?thesis by auto
qed

lemma detach_queue:
  assumes "distinct (map fst ns)" and "distinct (map o_order_id (map snd ns))" and "(it, x) \<in> set ns"
  shows "map snd (filter (\<lambda>(a, _). a \<noteq> it) ns) = filter (\<lambda>y. o_order_id y \<noteq> o_order_id x) (map snd ns)"
proof -
  have "a = it \<longleftrightarrow> o_order_id y = o_order_id x" if "(a, y) \<in> set ns" for a y
    using node_id_iff [OF assms that] .
  then have "filter (\<lambda>(a, _). a \<noteq> it) ns = filter (\<lambda>(a, y). o_order_id y \<noteq> o_order_id x) ns"
    by (auto intro: filter_cong)
  then show ?thesis by (simp add: filter_map o_def case_prod_unfold)
qed

lemma level_ids_distinct:
  assumes "ob_inv b" and "ob_level sd p b = Some lv"
  shows "distinct (map o_order_id (level_queue lv))"
proof -
  have "map_of (map_vals level_queue (ob_levels sd b)) p = Some (level_queue lv)"
    using assms(2) by (simp add: ob_level_levels map_of_map_vals)
  then obtain as bs where "flat (map_vals level_queue (ob_levels sd b)) = as @ level_queue lv @ bs"
    using flat_modify by blast
  moreover have "distinct (map o_order_id (flat (map_vals level_queue (ob_levels sd b))))"
    using ladder_distinct_side [of "ob_ladder b" sd] assms(1) by (simp add: ob_inv_def ladder_simps)
  ultimately show ?thesis by simp
qed

lemma detach_level:
  assumes "ob_inv b" and "ob_level (loc_side loc) (loc_price_ticks loc) b = Some lv"
    and "map_of (pl_orders lv) (loc_iterator loc) = Some x"
  shows "level_queue (detach_node (loc_iterator loc) (o_quantity x) lv) =
      filter (\<lambda>y. o_order_id y \<noteq> o_order_id x) (level_queue lv)"
    and "level_inv (ob_next_node b) (loc_price_ticks loc) (detach_node (loc_iterator loc) (o_quantity x) lv)"
proof -
  have inv: "level_inv (ob_next_node b) (loc_price_ticks loc) lv"
    using assms(1,2) by (rule ob_inv_level)
  have ids: "distinct (map o_order_id (level_queue lv))"
    using assms(1,2) by (rule level_ids_distinct)
  have mem: "(loc_iterator loc, x) \<in> set (pl_orders lv)" using assms(3) by (rule map_of_SomeD)
  show q: "level_queue (detach_node (loc_iterator loc) (o_quantity x) lv) =
      filter (\<lambda>y. o_order_id y \<noteq> o_order_id x) (level_queue lv)"
    using detach_queue [OF _ _ mem] inv ids
    by (simp add: detach_node_def level_queue_def level_inv_def)
  have "x \<in> set (level_queue lv)" using mem by (force simp: level_queue_def)
  from sum_list_filter_remove [OF ids this, of o_quantity]
  show "level_inv (ob_next_node b) (loc_price_ticks loc) (detach_node (loc_iterator loc) (o_quantity x) lv)"
    using inv q by (auto simp: level_inv_def queue_total_def detach_node_def distinct_map_filter)
qed

lemma ob_level_detached:
  assumes "ob_level (loc_side loc) (loc_price_ticks loc) b = Some lv"
  shows "ob_level sd p (detached loc x b) =
    (if sd = loc_side loc \<and> p = loc_price_ticks loc
     then Some (detach_node (loc_iterator loc) (o_quantity x) lv) else ob_level sd p b)"
  using assms ob_level_side [OF assms]
  by (auto simp: ob_level_levels detached_def ladder_simps map_of_om_modify split: option.splits)

lemma ob_levels_cancelled:
  assumes "ob_level (loc_side loc) (loc_price_ticks loc) b = Some lv"
  shows "ob_levels sd (cancelled loc x b) =
    (if sd = loc_side loc
     then (let ls = om_modify (loc_price_ticks loc) (detach_node (loc_iterator loc) (o_quantity x))
                      (ob_levels sd b)
           in if pl_orders (detach_node (loc_iterator loc) (o_quantity x) lv) = []
              then om_erase (loc_price_ticks loc) ls else ls)
     else ob_levels sd b)"
proof -
  have "ob_levels sd' (detached loc x b) = (if sd' = loc_side loc
      then om_modify (loc_price_ticks loc) (detach_node (loc_iterator loc) (o_quantity x)) (ob_levels sd' b)
      else ob_levels sd' b)" for sd'
    using ob_level_side [OF assms] by (auto simp: detached_def ladder_simps)
  then show ?thesis
    using ob_level_side [OF assms]
    by (simp add: cancelled_def erase_level_if_empty_def ob_level_detached [OF assms] ladder_simps Let_def)
qed

lemma cancelled_fields [simp]:
  "ob_symbol_id (cancelled loc x b) = ob_symbol_id b"
  "ob_next_node (cancelled loc x b) = ob_next_node b"
  "ob_order_index (cancelled loc x b) = AList.delete (o_order_id x) (ob_order_index b)"
  by (auto simp: cancelled_def erase_level_if_empty_def detached_def ladder_simps split: option.splits)

lemma ob_level_cancelled:
  assumes "ob_inv b" and "ob_level (loc_side loc) (loc_price_ticks loc) b = Some lv"
  shows "ob_level sd p (cancelled loc x b) =
    (if sd = loc_side loc \<and> p = loc_price_ticks loc
     then (let lv' = detach_node (loc_iterator loc) (o_quantity x) lv
           in if pl_orders lv' = [] then None else Some lv')
     else ob_level sd p b)"
proof -
  have "distinct (map fst (ob_levels (loc_side loc) b))"
    using ob_inv_sorted [OF assms(1) ob_level_side [OF assms(2)]] by (rule side_order.sorted_distinct)
  then show ?thesis
    using assms(2) unfolding ob_level_levels ob_levels_cancelled [OF assms(2)]
    by (auto simp: Let_def map_of_om_erase map_of_om_modify)
qed

lemma cancelled_ladder:
  assumes "ob_inv b" and "deref loc b = Some x"
  shows "ob_ladder (cancelled loc x b) = on_side (o_side x) (drop_order x) (ob_ladder b)"
proof (rule ladder_eqI)
  show "ld_symbol (ob_ladder (cancelled loc x b)) = ld_symbol (on_side (o_side x) (drop_order x) (ob_ladder b))"
    by (simp add: ladder_simps)
  fix sd
  assume "is_valid_side sd"
  from assms(2) obtain lv where lv: "ob_level (loc_side loc) (loc_price_ticks loc) b = Some lv"
      "map_of (pl_orders lv) (loc_iterator loc) = Some x" by (rule derefD)
  have x: "o_side x = loc_side loc" "o_price_ticks x = loc_price_ticks loc"
    using deref_member [OF assms] by auto
  let ?p = "loc_price_ticks loc" and ?d = "detach_node (loc_iterator loc) (o_quantity x)"
  let ?f = "filter (\<lambda>y. o_order_id y \<noteq> o_order_id x)"
  have vals: "map_vals level_queue (om_modify ?p ?d (ob_levels (loc_side loc) b)) =
      om_modify ?p ?f (map_vals level_queue (ob_levels (loc_side loc) b))"
    using detach_level(1) [OF assms(1) lv] lv(1) by (intro map_vals_modify) (simp add: ob_level_levels)
  have "map_of (om_modify ?p ?f (map_vals level_queue (ob_levels (loc_side loc) b))) ?p =
      Some (level_queue (?d lv))"
    using lv(1) detach_level(1) [OF assms(1) lv]
    by (simp add: map_of_om_modify map_of_map_vals ob_level_levels)
  then show "ld_levels sd (ob_ladder (cancelled loc x b)) =
      ld_levels sd (on_side (o_side x) (drop_order x) (ob_ladder b))"
    using vals ob_level_side [OF lv(1)] x
    by (auto simp: ladder_simps ob_levels_cancelled [OF lv(1)] Let_def drop_order_def prune_def
        map_vals_erase level_queue_def)
qed

lemma deref_cancelled:
  assumes "ob_inv b" and "deref loc b = Some x"
  shows "deref loc' (cancelled loc x b) = (if loc' = loc then None else deref loc' b)"
proof -
  from assms(2) obtain lv where lv: "ob_level (loc_side loc) (loc_price_ticks loc) b = Some lv"
      "map_of (pl_orders lv) (loc_iterator loc) = Some x" by (rule derefD)
  have eq: "loc' = loc \<longleftrightarrow> loc_side loc' = loc_side loc \<and> loc_price_ticks loc' = loc_price_ticks loc
      \<and> loc_iterator loc' = loc_iterator loc" by auto
  have "map_of (filter (\<lambda>(a, _). a \<noteq> loc_iterator loc) (pl_orders lv)) a =
      (if a = loc_iterator loc then None else map_of (pl_orders lv) a)" for a
    by (simp add: map_of_filter_key)
  moreover have "map_of (pl_orders lv) a = None" if "a \<noteq> loc_iterator loc"
      "filter (\<lambda>(a, _). a \<noteq> loc_iterator loc) (pl_orders lv) = []" for a
    using calculation [of a] that by simp
  ultimately show ?thesis
    unfolding deref_def ob_level_cancelled [OF assms(1) lv(1)] eq
    using lv(1) by (auto simp: Let_def detach_node_def split: option.splits)
qed

lemma ob_inv_cancelled:
  assumes inv: "ob_inv b" and x: "deref loc b = Some x"
  shows "ob_inv (cancelled loc x b)"
proof -
  from x obtain lv where lv: "ob_level (loc_side loc) (loc_price_ticks loc) b = Some lv"
      "map_of (pl_orders lv) (loc_iterator loc) = Some x" by (rule derefD)
  have mem: "x \<in> set (ld_orders (ob_ladder b))" using deref_member [OF inv x] by simp
  have old: "map_of (ob_order_index b) i = Some l \<longleftrightarrow> (\<exists>y. deref l b = Some y \<and> o_order_id y = i)" for i l
    using inv by (simp add: ob_inv_def)
  have "ladder_ok (ob_ladder (cancelled loc x b))"
    unfolding cancelled_ladder [OF inv x] using inv mem by (intro ladder_ok_drop) (simp_all add: ob_inv_def)
  moreover have "ob_level sd p (cancelled loc x b) = Some lv' \<Longrightarrow> level_inv (ob_next_node b) p lv'" for sd p lv'
    using detach_level(2) [OF inv lv] ob_inv_level [OF inv]
    by (auto simp: ob_level_cancelled [OF inv lv(1)] Let_def split: if_splits)
  moreover have "map_of (ob_order_index (cancelled loc x b)) i = Some l \<longleftrightarrow>
      (\<exists>y. deref l (cancelled loc x b) = Some y \<and> o_order_id y = i)" for i l
  proof -
    have loc: "map_of (ob_order_index b) (o_order_id x) = Some loc"
      using old [of "o_order_id x" loc] x by blast
    show ?thesis
    proof (cases "l = loc")
      case True
      then show ?thesis using old [of i loc] x by (auto simp: deref_cancelled [OF inv x])
    next
      case False
      with loc have "map_of (ob_order_index b) (o_order_id x) \<noteq> Some l" by simp
      then have "i = o_order_id x \<Longrightarrow> \<not> (\<exists>y. deref l b = Some y \<and> o_order_id y = i)"
        using old [of i l] by metis
      with False old [of i l] show ?thesis by (auto simp: deref_cancelled [OF inv x])
    qed
  qed
  ultimately show ?thesis using inv by (simp add: ob_inv_def)
qed

lemma ob_cancel_order_cases:
  assumes "ob_inv b"
  shows "ob_cancel_order i b = (case map_of (ob_order_index b) i of
      None \<Rightarrow> (False, b) | Some loc \<Rightarrow> (True, cancelled loc (the (deref loc b)) b))"
proof (cases "map_of (ob_order_index b) i")
  case (Some loc)
  then obtain x where x: "deref loc b = Some x" "o_order_id x = i" using index_Some [OF assms] by metis
  then obtain lv where "ob_level (loc_side loc) (loc_price_ticks loc) b = Some lv" by (auto elim: derefD)
  from mutable_level_present [OF assms this] Some x show ?thesis
    by (simp add: ob_cancel_order_def cancelled_def detached_def write_level_def Let_def
        detach_node_def [abs_def] ladder_simps)
qed (simp add: ob_cancel_order_def)

lemma ob_cancel_refines:
  assumes "ob_inv b"
  shows "ob_inv (snd (ob_cancel_order i b)) \<and>
    spec_cancel i (ob_ladder b) = (fst (ob_cancel_order i b), ob_ladder (snd (ob_cancel_order i b)))"
proof (cases "map_of (ob_order_index b) i")
  case None
  with assms index_None [OF assms, of i] show ?thesis
    by (simp add: ob_cancel_order_cases spec_cancel_def)
next
  case (Some loc)
  then obtain x where "deref loc b = Some x" "ld_find i (ob_ladder b) = Some x"
    using index_Some [OF assms] by metis
  with assms Some show ?thesis
    by (simp add: ob_cancel_order_cases spec_cancel_def ob_inv_cancelled cancelled_ladder)
qed

section \<open>reduce\<close>

definition reduce_node :: "nat \<Rightarrow> quantity \<Rightarrow> price_level \<Rightarrow> price_level" where
  "reduce_node it n lv = lv\<lparr>pl_orders := map (\<lambda>(a, x).
       if a = it then (a, x\<lparr>o_quantity := o_quantity x - n\<rparr>) else (a, x)) (pl_orders lv),
     pl_total_quantity := pl_total_quantity lv - n\<rparr>"

definition reduced :: "locator \<Rightarrow> quantity \<Rightarrow> order_book \<Rightarrow> order_book" where
  "reduced loc n b = write_level (loc_side loc) (loc_price_ticks loc) (reduce_node (loc_iterator loc) n) b"

lemma reduce_queue:
  assumes "distinct (map fst ns)" and "distinct (map o_order_id (map snd ns))" and "(it, x) \<in> set ns"
  shows "map snd (map (\<lambda>(a, y). if a = it then (a, y\<lparr>o_quantity := o_quantity y - n\<rparr>) else (a, y)) ns) =
    map (\<lambda>y. if o_order_id y = o_order_id x then y\<lparr>o_quantity := o_quantity y - n\<rparr> else y) (map snd ns)"
proof -
  have "a = it \<longleftrightarrow> o_order_id y = o_order_id x" if "(a, y) \<in> set ns" for a y
    using node_id_iff [OF assms that] .
  then show ?thesis by auto
qed

lemma reduce_level:
  assumes "ob_inv b" and "ob_level (loc_side loc) (loc_price_ticks loc) b = Some lv"
    and "map_of (pl_orders lv) (loc_iterator loc) = Some x"
  shows "level_queue (reduce_node (loc_iterator loc) n lv) =
      map (\<lambda>y. if o_order_id y = o_order_id x then y\<lparr>o_quantity := o_quantity y - n\<rparr> else y) (level_queue lv)"
    and "level_inv (ob_next_node b) (loc_price_ticks loc) (reduce_node (loc_iterator loc) n lv)"
proof -
  have inv: "level_inv (ob_next_node b) (loc_price_ticks loc) lv"
    using assms(1,2) by (rule ob_inv_level)
  have ids: "distinct (map o_order_id (level_queue lv))"
    using assms(1,2) by (rule level_ids_distinct)
  have mem: "(loc_iterator loc, x) \<in> set (pl_orders lv)" using assms(3) by (rule map_of_SomeD)
  show q: "level_queue (reduce_node (loc_iterator loc) n lv) =
      map (\<lambda>y. if o_order_id y = o_order_id x then y\<lparr>o_quantity := o_quantity y - n\<rparr> else y) (level_queue lv)"
    using reduce_queue [OF _ _ mem] inv ids
    by (simp add: reduce_node_def level_queue_def level_inv_def)
  have "x \<in> set (level_queue lv)" using mem by (force simp: level_queue_def)
  from sum_list_map_update [OF ids this, of o_quantity n]
  have tot: "queue_total (level_queue (reduce_node (loc_iterator loc) n lv)) = queue_total (level_queue lv) - n"
    unfolding q queue_total_def by (simp add: if_distrib o_def cong: if_cong)
  have "map fst (pl_orders (reduce_node (loc_iterator loc) n lv)) = map fst (pl_orders lv)"
    by (auto simp: reduce_node_def)
  then have keys: "map fst (pl_orders (reduce_node (loc_iterator loc) n lv)) = map fst (pl_orders lv)"
    "fst ` set (pl_orders (reduce_node (loc_iterator loc) n lv)) = fst ` set (pl_orders lv)"
    by (auto simp flip: set_map)
  show "level_inv (ob_next_node b) (loc_price_ticks loc) (reduce_node (loc_iterator loc) n lv)"
    using inv unfolding level_inv_def keys tot by (simp add: reduce_node_def)
qed

lemma ob_levels_reduced:
  assumes "ob_level (loc_side loc) (loc_price_ticks loc) b = Some lv"
  shows "ob_levels sd (reduced loc n b) = (if sd = loc_side loc
    then om_modify (loc_price_ticks loc) (reduce_node (loc_iterator loc) n) (ob_levels sd b)
    else ob_levels sd b)"
  using ob_level_side [OF assms] by (auto simp: reduced_def write_level_def ladder_simps)

lemma reduced_fields [simp]:
  "ob_symbol_id (reduced loc n b) = ob_symbol_id b"
  "ob_next_node (reduced loc n b) = ob_next_node b"
  "ob_order_index (reduced loc n b) = ob_order_index b"
  by (auto simp: reduced_def write_level_def ladder_simps)

lemma ob_level_reduced:
  assumes "ob_level (loc_side loc) (loc_price_ticks loc) b = Some lv"
  shows "ob_level sd p (reduced loc n b) = (if sd = loc_side loc \<and> p = loc_price_ticks loc
    then Some (reduce_node (loc_iterator loc) n lv) else ob_level sd p b)"
  using assms unfolding ob_level_levels ob_levels_reduced [OF assms]
  by (auto simp: map_of_om_modify)

lemma reduced_ladder:
  assumes "ob_inv b" and "deref loc b = Some x"
  shows "ob_ladder (reduced loc n b) = on_side (o_side x) (shrink_order n x) (ob_ladder b)"
proof (rule ladder_eqI)
  show "ld_symbol (ob_ladder (reduced loc n b)) = ld_symbol (on_side (o_side x) (shrink_order n x) (ob_ladder b))"
    by (simp add: ladder_simps)
  fix sd
  assume "is_valid_side sd"
  from assms(2) obtain lv where lv: "ob_level (loc_side loc) (loc_price_ticks loc) b = Some lv"
      "map_of (pl_orders lv) (loc_iterator loc) = Some x" by (rule derefD)
  have x: "o_side x = loc_side loc" "o_price_ticks x = loc_price_ticks loc"
    using deref_member [OF assms] by auto
  have "map_vals level_queue (om_modify (loc_price_ticks loc) (reduce_node (loc_iterator loc) n)
        (ob_levels (loc_side loc) b)) = om_modify (loc_price_ticks loc)
        (map (\<lambda>y. if o_order_id y = o_order_id x then y\<lparr>o_quantity := o_quantity y - n\<rparr> else y))
        (map_vals level_queue (ob_levels (loc_side loc) b))"
    using reduce_level(1) [OF assms(1) lv] lv(1) by (intro map_vals_modify) (simp add: ob_level_levels)
  then show "ld_levels sd (ob_ladder (reduced loc n b)) =
      ld_levels sd (on_side (o_side x) (shrink_order n x) (ob_ladder b))"
    using ob_level_side [OF lv(1)] x
    by (auto simp: ladder_simps ob_levels_reduced [OF lv(1)] shrink_order_def)
qed

lemma deref_reduced:
  assumes "deref loc b = Some x"
  shows "deref loc' (reduced loc n b) =
    (if loc' = loc then Some (x\<lparr>o_quantity := o_quantity x - n\<rparr>) else deref loc' b)"
proof -
  from assms obtain lv where lv: "ob_level (loc_side loc) (loc_price_ticks loc) b = Some lv"
      "map_of (pl_orders lv) (loc_iterator loc) = Some x" by (rule derefD)
  have eq: "loc' = loc \<longleftrightarrow> loc_side loc' = loc_side loc \<and> loc_price_ticks loc' = loc_price_ticks loc
      \<and> loc_iterator loc' = loc_iterator loc" by auto
  have upd: "map_of (map (\<lambda>(a, x). if a = it then (a, x\<lparr>o_quantity := o_quantity x - n\<rparr>) else (a, x)) ns) a =
      (if a = it then map_option (\<lambda>x. x\<lparr>o_quantity := o_quantity x - n\<rparr>) (map_of ns a) else map_of ns a)" for a it ns
    by (induction ns) auto
  then show ?thesis
    unfolding deref_def ob_level_reduced [OF lv(1)] eq reduce_node_def
    using lv by (auto simp: upd split: option.splits)
qed

lemma ob_inv_reduced:
  assumes inv: "ob_inv b" and x: "deref loc b = Some x" and n: "n < o_quantity x"
  shows "ob_inv (reduced loc n b)"
proof -
  from x obtain lv where lv: "ob_level (loc_side loc) (loc_price_ticks loc) b = Some lv"
      "map_of (pl_orders lv) (loc_iterator loc) = Some x" by (rule derefD)
  have "ladder_ok (ob_ladder (reduced loc n b))"
    unfolding reduced_ladder [OF inv x] using inv n deref_member [OF inv x]
    by (intro ladder_ok_shrink) (simp_all add: ob_inv_def)
  moreover have "ob_level sd p (reduced loc n b) = Some lv' \<Longrightarrow> level_inv (ob_next_node b) p lv'" for sd p lv'
    using reduce_level(2) [OF inv lv] ob_inv_level [OF inv]
    by (auto simp: ob_level_reduced [OF lv(1)] split: if_splits)
  moreover have "map_of (ob_order_index b) i = Some l \<longleftrightarrow>
      (\<exists>y. deref l (reduced loc n b) = Some y \<and> o_order_id y = i)" for i l
  proof -
    have "map_of (ob_order_index b) i = Some l \<longleftrightarrow> (\<exists>y. deref l b = Some y \<and> o_order_id y = i)"
      using inv by (simp add: ob_inv_def)
    with x show ?thesis by (auto simp: deref_reduced [OF x])
  qed
  ultimately show ?thesis using inv by (simp add: ob_inv_def)
qed

lemma ob_reduce_refines:
  assumes "ob_inv b"
  shows "ob_inv (snd (ob_reduce_order i n b)) \<and>
    spec_reduce i n (ob_ladder b) = (fst (ob_reduce_order i n b), ob_ladder (snd (ob_reduce_order i n b)))"
proof (cases "map_of (ob_order_index b) i")
  case None
  with assms index_None [OF assms, of i] show ?thesis
    by (simp add: ob_reduce_order_def spec_reduce_def)
next
  case (Some loc)
  then obtain x where x: "deref loc b = Some x" "ld_find i (ob_ladder b) = Some x"
    using index_Some [OF assms] by metis
  then obtain lv where "ob_level (loc_side loc) (loc_price_ticks loc) b = Some lv" by (auto elim: derefD)
  from mutable_level_present [OF assms this] Some x
  have "ob_reduce_order i n b = (if n \<le> 0 then (False, b) else if n \<ge> o_quantity x
      then ob_cancel_order i b else (True, reduced loc n b))"
    by (simp add: ob_reduce_order_def reduced_def reduce_node_def [abs_def])
  with x show ?thesis
    using ob_cancel_refines [OF assms] assms
    by (auto simp: spec_reduce_def ob_inv_reduced reduced_ladder)
qed

section \<open>replace and clear\<close>

lemma ob_replace_refines:
  assumes "ob_inv b"
  shows "ob_inv (snd (ob_replace_order i p n ts sq b)) \<and>
    spec_replace i p n ts sq (ob_ladder b) =
      (fst (ob_replace_order i p n ts sq b), ob_ladder (snd (ob_replace_order i p n ts sq b)))"
proof (cases "p \<le> 0 \<or> n \<le> 0 \<or> ld_find i (ob_ladder b) = None")
  case True
  with assms show ?thesis
    by (auto simp: ob_replace_order_def spec_replace_def ob_find_refines)
next
  case False
  then obtain x where x: "ld_find i (ob_ladder b) = Some x" by auto
  let ?b = "snd (ob_cancel_order i b)"
  have c: "ob_inv ?b" "spec_cancel i (ob_ladder b) = (True, ob_ladder ?b)" "fst (ob_cancel_order i b)"
    using ob_cancel_refines [OF assms, of i] x by (auto simp: spec_cancel_def)
  then have "ob_cancel_order i b = (True, ?b)" by (metis prod.collapse)
  then have "ob_replace_order i p n ts sq b = ob_add_order (reprice x p n ts sq) ?b"
    using False x unfolding ob_replace_order_def ob_find_refines [OF assms] reprice_def
    by (auto split: prod.splits)
  moreover have "spec_replace i p n ts sq (ob_ladder b) = spec_add (reprice x p n ts sq) (ob_ladder ?b)"
    using False x c(2) by (simp add: spec_replace_def)
  ultimately show ?thesis using ob_add_refines [OF c(1)] by simp
qed

lemma ob_inv_clear: "ob_inv b \<Longrightarrow> ob_inv (ob_clear b) \<and> ob_ladder (ob_clear b) = spec_clear (ob_ladder b)"
  by (auto simp: ob_inv_def ob_clear_def ob_ladder_def spec_clear_def ob_level_def deref_def
      ladder_ok_def levels_ok_def ld_orders_def flat_def split: option.splits if_splits)

lemma ob_inv_new: "ob_inv (ob_new sy)"
  by (auto simp: ob_inv_def ob_new_def ob_ladder_def ob_level_def deref_def
      ladder_ok_def levels_ok_def ld_orders_def flat_def split: option.splits if_splits)

lemma ob_ladder_new [simp]: "ob_ladder (ob_new sy) = ld_empty sy"
  by (simp add: ob_ladder_def ob_new_def ld_empty_def)

lemma ob_step_refines:
  assumes "ob_inv b"
  shows "ob_inv (snd (ob_step op b)) \<and>
    spec_step op (ob_ladder b) = (fst (ob_step op b), ob_ladder (snd (ob_step op b)))"
  using assms ob_inv_clear [OF assms]
  by (cases op) (simp_all add: ob_add_refines ob_cancel_refines ob_reduce_refines ob_replace_refines)

section \<open>Observations\<close>

lemma ob_levels_nonempty:
  assumes "ob_inv b" and "(p, lv) \<in> set (ob_levels sd b)"
  shows "level_queue lv \<noteq> [] \<and> pl_total_quantity lv = queue_total (level_queue lv)"
proof -
  have sd: "is_valid_side sd" using assms(2) by (cases sd) (auto simp: ob_levels_def)
  have "(p, level_queue lv) \<in> set (map_vals level_queue (ob_levels sd b))" using assms(2) by force
  then have "level_queue lv \<noteq> []"
    using ob_inv_levels_ok [OF assms(1) sd] by (auto simp: levels_ok_def)
  moreover have "ob_level sd p b = Some lv"
    unfolding ob_level_levels using ob_inv_sorted [OF assms(1) sd] assms(2)
    by (rule side_order.sorted_key_unique)
  ultimately show ?thesis using ob_inv_level [OF assms(1)] by (simp add: level_inv_def)
qed

lemma ob_best_order_refines:
  assumes "ob_inv b"
  shows "ob_best_order sd b = spec_best_order sd (ob_ladder b)"
proof (cases "ob_levels sd b")
  case (Cons kv ls)
  obtain p lv where kv: "kv = (p, lv)" by (cases kv)
  with ob_levels_nonempty [OF assms, of p lv sd] Cons have "level_queue lv \<noteq> []" by simp
  with Cons kv show ?thesis
    by (simp add: ob_best_order_def spec_best_order_def ladder_simps level_queue_def hd_map)
qed (simp add: ob_best_order_def spec_best_order_def ladder_simps)

definition ob_best_price :: "side \<Rightarrow> order_book \<Rightarrow> price_ticks option" where
  "ob_best_price sd b = (case sd of Buy \<Rightarrow> ob_best_bid b | Sell \<Rightarrow> ob_best_ask b | NoSide \<Rightarrow> None)"

lemma ob_best_price_refines: "ob_best_price sd b = spec_best_price sd (ob_ladder b)"
  by (cases sd) (auto simp: ob_best_price_def ob_best_bid_def ob_best_ask_def spec_best_price_def
      ladder_simps ob_levels_def split: list.splits)

lemma ob_total_refines:
  assumes "ob_inv b"
  shows "ob_total_quantity_at sd p b = spec_total_quantity_at sd p (ob_ladder b)"
  using ob_inv_level [OF assms]
  by (auto simp: ob_total_quantity_at_def spec_total_quantity_at_def ladder_simps map_of_map_vals
      ob_level_levels level_inv_def split: option.splits)

lemma fill_side_take:
  assumes "\<forall>lv \<in> snd ` set ls. pl_total_quantity lv = queue_total (level_queue lv)"
  shows "fill_side depth acc ls = acc @ l2_of_levels (depth - length acc) (map_vals level_queue ls)"
  using assms
proof (induction depth acc ls rule: fill_side.induct)
  case (2 depth acc p lv ls)
  show ?case
  proof (cases "depth \<le> length acc")
    case False
    then obtain k where "depth - length acc = Suc k" "depth - Suc (length acc) = k"
      by (metis Suc_diff_Suc not_le)
    with 2 False show ?thesis by (auto simp: l2_of_levels_def)
  qed (simp add: l2_of_levels_def)
qed (simp add: l2_of_levels_def)

lemma ob_totals:
  assumes "ob_inv b"
  shows "\<forall>lv \<in> snd ` set (ob_bids b). pl_total_quantity lv = queue_total (level_queue lv)"
    and "\<forall>lv \<in> snd ` set (ob_asks b). pl_total_quantity lv = queue_total (level_queue lv)"
  using ob_levels_nonempty [OF assms, of _ _ Buy] ob_levels_nonempty [OF assms, of _ _ Sell]
  by (auto simp: ob_levels_def)

lemma ob_view_refines:
  assumes "ob_inv b"
  shows "ob_l2_view depth b = spec_l2_view depth (ob_ladder b)"
proof -
  have "fill_side depth [] (ob_bids b) = l2_of_levels depth (map_vals level_queue (ob_bids b))"
    "fill_side depth [] (ob_asks b) = l2_of_levels depth (map_vals level_queue (ob_asks b))"
    using ob_totals [OF assms] by (simp_all add: fill_side_take)
  then show ?thesis
    by (cases "depth = 0") (simp_all add: ob_l2_view_def spec_l2_view_def ob_ladder_def l2_of_levels_def)
qed

lemma checksum_levels_refines:
  assumes "\<forall>lv \<in> snd ` set ls. pl_total_quantity lv = queue_total (level_queue lv)"
  shows "ob_checksum_levels seed sd ls = spec_checksum_levels seed sd (map_vals level_queue ls)"
proof -
  have q: "foldl (\<lambda>seed (_, x). checksum_order seed x) s ns = foldl checksum_order s (map snd ns)" for s ns
    by (induction ns arbitrary: s) auto
  have "checksum_price_levels s ls = foldl (\<lambda>seed (p, q). foldl checksum_order
      (checksum_append_size (checksum_append_i64 (checksum_append_i64 seed p) (queue_total q)) (length q)) q)
      s (map_vals level_queue ls)" for s
    using assms
  proof (induction s ls rule: checksum_price_levels.induct)
    case (2 seed p lv ls)
    then have "\<forall>lv \<in> snd ` set ls. pl_total_quantity lv = queue_total (level_queue lv)" by simp
    from 2(1) [OF refl refl refl refl this] 2(2) show ?case by (simp add: Let_def q level_queue_def)
  qed simp
  then show ?thesis by (simp add: ob_checksum_levels_def spec_checksum_levels_def)
qed

lemma ob_checksum_refines:
  assumes "ob_inv b"
  shows "ob_checksum b = spec_checksum (ob_ladder b)"
  using checksum_levels_refines [OF ob_totals(1) [OF assms]] checksum_levels_refines [OF ob_totals(2) [OF assms]]
  by (simp add: ob_checksum_def spec_checksum_def ob_ladder_def Let_def)

interpretation std: l3_book ob_step ob_ladder ob_inv "\<lambda>_. 0" ob_find_order ob_best_order
  ob_best_price ob_total_quantity_at ob_l2_view ob_checksum
  by unfold_locales
    (simp_all add: ob_step_refines ob_find_refines ob_best_order_refines ob_best_price_refines
      ob_total_refines ob_view_refines ob_checksum_refines, simp add: ob_inv_def)

end
