(* ===== verification/Book_Invariants.thy ===== *)
theory Book_Invariants
  imports Order_Book_Correct
begin

text \<open>
  The self-check of the node-based book, \<^verbatim>\<open>OrderBook::check_invariants\<close> of
  \<^verbatim>\<open>book/order_book.cpp\<close>: it walks both sides and the lookup index and reports
  every inconsistency it sees. A book that only the operations have touched is reported clean, and
  a clean report gives back the facts the checker stands for.
\<close>

section \<open>The report\<close>

record book_invariant_report =
  bir_ok :: bool
  bir_violations :: "string list"

definition empty_report :: book_invariant_report where
  "empty_report = \<lparr>bir_ok = True, bir_violations = []\<rparr>"

definition add_violation :: "book_invariant_report \<Rightarrow> string \<Rightarrow> book_invariant_report" where
  "add_violation report message =
     report\<lparr>bir_ok := False, bir_violations := bir_violations report @ [message]\<rparr>"

definition violation_if :: "bool \<Rightarrow> string \<Rightarrow> book_invariant_report \<Rightarrow> book_invariant_report" where
  "violation_if c message report = (if c then add_violation report message else report)"

lemma violation_if_False [simp]: "\<not> c \<Longrightarrow> violation_if c m r = r"
  by (simp add: violation_if_def)

lemma violation_if_ok [simp]: "bir_ok (violation_if c m r) \<longleftrightarrow> \<not> c \<and> bir_ok r"
  by (simp add: violation_if_def add_violation_def)

lemma add_violation_ok [simp]: "\<not> bir_ok (add_violation r m)"
  by (simp add: add_violation_def)

lemma empty_report_ok [simp]: "bir_ok empty_report"
  by (simp add: empty_report_def)

section \<open>The walk\<close>

text \<open>
  The three nested loops: over the orders of a level (carrying the report, the set of ids seen and
  the running sum), over the levels of a side, and over the index.
\<close>

definition ob_check_order ::
  "order_book \<Rightarrow> side \<Rightarrow> price_ticks \<Rightarrow> book_invariant_report \<times> order_id list \<times> quantity \<Rightarrow> node \<Rightarrow>
   book_invariant_report \<times> order_id list \<times> quantity" where
  "ob_check_order b sd p = (\<lambda>(report, seen, child_sum) (_, x).
     let report = violation_if (o_quantity x \<le> 0) ''resting order has non-positive quantity'' report;
         report = violation_if (o_order_id x \<in> set seen) ''duplicate order id in price queues'' report;
         seen = List.insert (o_order_id x) seen;
         report = violation_if (o_side x \<noteq> sd \<or> o_price_ticks x \<noteq> p)
                    ''order side or price does not match containing level'' report;
         report = (case map_of (ob_order_index b) (o_order_id x) of
             None \<Rightarrow> add_violation report ''order id missing from lookup index''
           | Some loc \<Rightarrow> violation_if (loc_side loc \<noteq> sd \<or> loc_price_ticks loc \<noteq> p \<or>
                 o_order_id (the (deref loc b)) \<noteq> o_order_id x)
               ''lookup index locator points to inconsistent order'' report)
     in (report, seen, child_sum + o_quantity x))"

definition ob_check_level ::
  "order_book \<Rightarrow> side \<Rightarrow> book_invariant_report \<times> order_id list \<Rightarrow> price_ticks \<times> price_level \<Rightarrow>
   book_invariant_report \<times> order_id list" where
  "ob_check_level b sd = (\<lambda>(report, seen) (p, lv).
     let report = violation_if (pl_orders lv = []) ''empty price level was retained'' report;
         report = violation_if (pl_price_ticks lv \<noteq> p) ''price level key and stored price differ'' report;
         (report, seen, child_sum) = foldl (ob_check_order b sd p) (report, seen, 0) (pl_orders lv);
         report = violation_if (child_sum \<noteq> pl_total_quantity lv)
                    ''price-level total does not match child order sum'' report
     in (report, seen))"

definition ob_check_index ::
  "order_book \<Rightarrow> order_id list \<Rightarrow> book_invariant_report \<Rightarrow> order_id \<times> locator \<Rightarrow> book_invariant_report" where
  "ob_check_index b seen report = (\<lambda>(i, loc).
     let report = violation_if (i \<notin> set seen)
                    ''lookup index contains an order not present in queues'' report;
         report = violation_if (loc_side loc = Buy \<and> map_of (ob_bids b) (loc_price_ticks loc) = None)
                    ''bid locator references missing price level'' report
     in violation_if (loc_side loc = Sell \<and> map_of (ob_asks b) (loc_price_ticks loc) = None)
          ''ask locator references missing price level'' report)"

definition best_level_empty :: "price_levels \<Rightarrow> bool" where
  "best_level_empty ls = (case ls of [] \<Rightarrow> False | (_, lv) # _ \<Rightarrow> pl_orders lv = [])"

definition ob_check_invariants :: "order_book \<Rightarrow> book_invariant_report" where
  "ob_check_invariants b =
     (let (report, seen) = foldl (ob_check_level b Buy) (empty_report, []) (ob_bids b);
          (report, seen) = foldl (ob_check_level b Sell) (report, seen) (ob_asks b);
          report = violation_if (length seen \<noteq> length (ob_order_index b))
                     ''lookup index size differs from queued order count'' report;
          report = foldl (ob_check_index b seen) report (ob_order_index b);
          report = violation_if (best_level_empty (ob_bids b)) ''best bid level is empty'' report
      in violation_if (best_level_empty (ob_asks b)) ''best ask level is empty'' report)"

section \<open>A consistent book is reported clean\<close>

definition order_clean :: "order_book \<Rightarrow> side \<Rightarrow> price_ticks \<Rightarrow> order \<Rightarrow> bool" where
  "order_clean b sd p x \<longleftrightarrow> 0 < o_quantity x \<and> o_side x = sd \<and> o_price_ticks x = p \<and>
     (\<exists>loc. map_of (ob_order_index b) (o_order_id x) = Some loc \<and> loc_side loc = sd \<and>
        loc_price_ticks loc = p \<and> o_order_id (the (deref loc b)) = o_order_id x)"

lemma check_orders_clean:
  assumes "\<forall>x \<in> set (map snd ns). order_clean b sd p x"
    and "distinct (seen @ map o_order_id (map snd ns))"
  shows "foldl (ob_check_order b sd p) (report, seen, t) ns =
    (report, rev (map o_order_id (map snd ns)) @ seen, t + queue_total (map snd ns))"
  using assms
proof (induction ns arbitrary: report seen t)
  case (Cons n ns)
  obtain a x where n: "n = (a, x)" by (cases n)
  have clean: "order_clean b sd p x" using Cons.prems(1) n by simp
  have new: "o_order_id x \<notin> set seen" using Cons.prems(2) n by auto
  have "ob_check_order b sd p (report, seen, t) n = (report, o_order_id x # seen, t + o_quantity x)"
    using clean new n
    by (auto simp: ob_check_order_def order_clean_def Let_def List.insert_def)
  moreover have "distinct ((o_order_id x # seen) @ map o_order_id (map snd ns))"
    using Cons.prems(2) n by auto
  ultimately show ?case
    using Cons.IH [of "o_order_id x # seen"] Cons.prems(1) n by (simp add: queue_total_def)
qed (simp add: queue_total_def)

lemma check_levels_clean:
  assumes "\<forall>(p, lv) \<in> set ls. pl_orders lv \<noteq> [] \<and> pl_price_ticks lv = p \<and>
      pl_total_quantity lv = queue_total (level_queue lv) \<and>
      (\<forall>x \<in> set (level_queue lv). order_clean b sd p x)"
    and "distinct (seen @ map o_order_id (flat (map_vals level_queue ls)))"
  shows "foldl (ob_check_level b sd) (report, seen) ls =
    (report, rev (map o_order_id (flat (map_vals level_queue ls))) @ seen)"
  using assms
proof (induction ls arbitrary: seen)
  case (Cons kv ls)
  obtain p lv where kv: "kv = (p, lv)" by (cases kv)
  have flat: "flat (map_vals level_queue (kv # ls)) = level_queue lv @ flat (map_vals level_queue ls)"
    by (simp add: kv ladder_simps)
  have d: "distinct (seen @ map o_order_id (map snd (pl_orders lv)))"
    "distinct ((rev (map o_order_id (level_queue lv)) @ seen) @ map o_order_id (flat (map_vals level_queue ls)))"
    using Cons.prems(2) unfolding flat level_queue_def [symmetric]
    by (simp_all add: disjoint_iff) blast+
  have "\<forall>x \<in> set (map snd (pl_orders lv)). order_clean b sd p x"
    using Cons.prems(1) kv by (simp add: level_queue_def)
  from check_orders_clean [OF this d(1), of report 0] Cons.prems(1) kv
  have "ob_check_level b sd (report, seen) kv = (report, rev (map o_order_id (level_queue lv)) @ seen)"
    by (simp add: ob_check_level_def Let_def level_queue_def)
  with Cons.IH [OF _ d(2)] Cons.prems(1) show ?case unfolding flat by (simp add: id_def)
qed (simp add: ladder_simps)

lemma ob_inv_order_clean:
  assumes "ob_inv b" and "(p, lv) \<in> set (ob_levels sd b)"
  shows "pl_orders lv \<noteq> [] \<and> pl_price_ticks lv = p \<and> pl_total_quantity lv = queue_total (level_queue lv) \<and>
    (\<forall>x \<in> set (level_queue lv). order_clean b sd p x)"
proof -
  have sd: "is_valid_side sd" using assms(2) by (cases sd) (auto simp: ob_levels_def)
  have lv: "ob_level sd p b = Some lv"
    unfolding ob_level_levels using ob_inv_sorted [OF assms(1) sd] assms(2)
    by (rule side_order.sorted_key_unique)
  have "order_clean b sd p x" if "x \<in> set (level_queue lv)" for x
  proof -
    have x: "x \<in> set (ld_orders (ob_ladder b))" "o_side x = sd" "o_price_ticks x = p"
      using level_queue_member [OF assms(1) lv that] by auto
    obtain loc where loc: "deref loc b = Some x" using member_deref [OF assms(1) x(1)] .
    have "map_of (ob_order_index b) (o_order_id x) = Some loc" using assms(1) loc by (auto simp: ob_inv_def)
    moreover have "0 < o_quantity x"
      using ladder_order_side [OF _ x(1)] assms(1) by (auto simp: ob_inv_def is_valid_resting_order_def)
    ultimately show ?thesis using x loc deref_member [OF assms(1) loc] by (auto simp: order_clean_def)
  qed
  then show ?thesis
    using ob_levels_nonempty [OF assms] ob_inv_level [OF assms(1) lv]
    by (auto simp: level_inv_def level_queue_def)
qed

lemma index_ids:
  assumes "ob_inv b"
  shows "fst ` set (ob_order_index b) = o_order_id ` set (ld_orders (ob_ladder b))"
proof -
  have "i \<in> fst ` set (ob_order_index b) \<longleftrightarrow> i \<in> o_order_id ` set (ld_orders (ob_ladder b))" for i
    using index_None [OF assms, of i] by (metis ld_find_None map_of_eq_None_iff)
  then show ?thesis by blast
qed

lemma ob_order_count_refines:
  assumes "ob_inv b"
  shows "ob_order_count b = length (ld_orders (ob_ladder b))"
proof -
  have "ob_order_count b = card (fst ` set (ob_order_index b))"
    using assms distinct_card [of "map fst (ob_order_index b)"] by (simp add: ob_order_count_def ob_inv_def)
  also have "\<dots> = card (set (map o_order_id (ld_orders (ob_ladder b))))" by (simp add: index_ids [OF assms])
  also have "\<dots> = length (ld_orders (ob_ladder b))"
    using assms distinct_card by (fastforce simp: ob_inv_def ladder_ok_def)
  finally show ?thesis .
qed

lemma check_index_clean:
  assumes "\<forall>(i, loc) \<in> set m. i \<in> set seen \<and> (loc_side loc = Buy \<longrightarrow> map_of (ob_bids b) (loc_price_ticks loc) \<noteq> None)
      \<and> (loc_side loc = Sell \<longrightarrow> map_of (ob_asks b) (loc_price_ticks loc) \<noteq> None)"
  shows "foldl (ob_check_index b seen) report m = report"
  using assms by (induction m arbitrary: report) (auto simp: ob_check_index_def Let_def)

lemma ob_check_clean:
  assumes "ob_inv b"
  shows "ob_check_invariants b = empty_report"
proof -
  let ?bq = "map_vals level_queue (ob_bids b)" and ?aq = "map_vals level_queue (ob_asks b)"
  let ?ids = "rev (map o_order_id (flat ?aq)) @ rev (map o_order_id (flat ?bq)) @ []"
  have dist: "distinct (map o_order_id (ld_orders (ob_ladder b)))"
    using assms by (simp add: ob_inv_def ladder_ok_def)
  then have d: "distinct ([] @ map o_order_id (flat ?bq))"
    "distinct ((rev (map o_order_id (flat ?bq)) @ []) @ map o_order_id (flat ?aq))"
    by (auto simp: ld_orders_def ob_ladder_def)
  have bids: "foldl (ob_check_level b Buy) (empty_report, []) (ob_bids b) =
      (empty_report, rev (map o_order_id (flat ?bq)) @ [])"
    using ob_inv_order_clean [OF assms, of _ _ Buy] d(1)
    by (intro check_levels_clean) (auto simp: ob_levels_def)
  have asks: "foldl (ob_check_level b Sell) (empty_report, rev (map o_order_id (flat ?bq)) @ []) (ob_asks b) =
      (empty_report, ?ids)"
    using ob_inv_order_clean [OF assms, of _ _ Sell] d(2)
    by (intro check_levels_clean) (auto simp: ob_levels_def)
  have len: "length ?ids = length (ob_order_index b)"
    using ob_order_count_refines [OF assms] by (simp add: ob_order_count_def ld_orders_def ob_ladder_def)
  have ids: "set ?ids = fst ` set (ob_order_index b)"
    by (simp add: index_ids [OF assms] ld_orders_def ob_ladder_def image_Un Un_commute)
  have "foldl (ob_check_index b ?ids) empty_report (ob_order_index b) = empty_report"
  proof (rule check_index_clean, clarify)
    fix i loc
    assume m: "(i, loc) \<in> set (ob_order_index b)"
    then have "map_of (ob_order_index b) i = Some loc" using assms by (simp add: ob_inv_def)
    then obtain x where "deref loc b = Some x" using index_Some [OF assms] by metis
    then obtain lv where "ob_level (loc_side loc) (loc_price_ticks loc) b = Some lv" by (rule derefD)
    then have "(loc_side loc = Buy \<longrightarrow> map_of (ob_bids b) (loc_price_ticks loc) \<noteq> None) \<and>
        (loc_side loc = Sell \<longrightarrow> map_of (ob_asks b) (loc_price_ticks loc) \<noteq> None)"
      by (cases "loc_side loc") (simp_all add: ob_level_def)
    moreover have "i \<in> set ?ids" unfolding ids using m by (rule image_eqI [rotated]) simp
    ultimately show "i \<in> set ?ids \<and> (loc_side loc = Buy \<longrightarrow> map_of (ob_bids b) (loc_price_ticks loc) \<noteq> None)
        \<and> (loc_side loc = Sell \<longrightarrow> map_of (ob_asks b) (loc_price_ticks loc) \<noteq> None)"
      by (rule conjI [rotated])
  qed
  moreover have "\<not> best_level_empty (ob_levels sd b)" for sd
  proof (cases "ob_levels sd b")
    case (Cons kv ls)
    then show ?thesis
      using ob_inv_order_clean [OF assms, of "fst kv" "snd kv" sd] by (cases kv) (simp add: best_level_empty_def)
  qed (simp add: best_level_empty_def)
  then have "\<not> best_level_empty (ob_bids b)" "\<not> best_level_empty (ob_asks b)"
    by (metis ob_levels_def side.simps(8), metis ob_levels_def side.simps(9))
  ultimately show ?thesis
    unfolding ob_check_invariants_def bids Let_def split asks using len by simp
qed

end
