(* ===== verification/Flat_Order_Index.thy ===== *)
theory Flat_Order_Index
  imports Book_Invariants
begin

text \<open>
  \<^verbatim>\<open>PooledOrderBook::FlatOrderIndex\<close> of \<^verbatim>\<open>book/pooled_order_book.cpp\<close>: the
  order-id index of the pooled book, an open-addressing hash table with linear probing and
  tombstones in one vector whose length is a power of two. Lookups are shown to be those of a
  partial map, insertion is shown to return (its probe loop and the loop of a rehash end), and an
  insertion or erasure is an update of that map.
\<close>



section \<open>Entries and hashing\<close>

datatype slot_state = Slot_Empty | Slot_Occupied | Slot_Deleted

record entry =
  en_order_id :: order_id
  en_node_index :: nat
  en_state :: slot_state

definition blank_entry :: entry where
  "blank_entry = \<lparr>en_order_id = kInvalidOrderId, en_node_index = kNoIndex, en_state = Slot_Empty\<rparr>"

definition occupied_entry :: "order_id \<Rightarrow> nat \<Rightarrow> entry" where
  "occupied_entry i v = \<lparr>en_order_id = i, en_node_index = v, en_state = Slot_Occupied\<rparr>"

record flat_index =
  fi_entries :: "entry list"
  fi_size :: nat

definition fi_new :: flat_index where
  "fi_new = \<lparr>fi_entries = [], fi_size = 0\<rparr>"

definition mix_order_id :: "order_id \<Rightarrow> u64" where
  "mix_order_id i =
     (let value = i;
          value = value XOR drop_bit 33 value;
          value = value * 0xff51afd7ed558ccd;
          value = value XOR drop_bit 33 value;
          value = value * 0xc4ceb9fe1a85ec53
      in value XOR drop_bit 33 value)"

definition fi_bucket :: "entry list \<Rightarrow> order_id \<Rightarrow> nat" where
  "fi_bucket es i = unat (mix_order_id i) AND (length es - 1)"

definition next_index :: "entry list \<Rightarrow> nat \<Rightarrow> nat" where
  "next_index es index = (index + 1) AND (length es - 1)"

section \<open>Operations\<close>

definition fi_clear :: "flat_index \<Rightarrow> flat_index" where
  "fi_clear ix = \<lparr>fi_entries = map (\<lambda>_. blank_entry) (fi_entries ix), fi_size = 0\<rparr>"

text \<open>
  The loop \<^verbatim>\<open>for (probes = 0; probes < entries_.size(); ++probes)\<close> that
  \<^verbatim>\<open>find\<close> and \<^verbatim>\<open>erase\<close> share: the first argument is the number of probes
  left, the result the slot that holds the id.
\<close>

fun fi_probe :: "entry list \<Rightarrow> order_id \<Rightarrow> nat \<Rightarrow> nat \<Rightarrow> nat option" where
  "fi_probe es i 0 index = None"
| "fi_probe es i (Suc left) index =
     (if en_state (es ! index) = Slot_Empty then None
      else if en_state (es ! index) = Slot_Occupied \<and> en_order_id (es ! index) = i then Some index
      else fi_probe es i left (next_index es index))"

definition fi_find :: "order_id \<Rightarrow> flat_index \<Rightarrow> nat option" where
  "fi_find i ix =
     (if fi_entries ix = [] \<or> i = kInvalidOrderId then None
      else case fi_probe (fi_entries ix) i (length (fi_entries ix)) (fi_bucket (fi_entries ix) i) of
        None \<Rightarrow> None
      | Some p \<Rightarrow> Some (en_node_index (fi_entries ix ! p)))"

definition fi_erase :: "order_id \<Rightarrow> flat_index \<Rightarrow> bool \<times> flat_index" where
  "fi_erase i ix =
     (if fi_entries ix = [] \<or> i = kInvalidOrderId then (False, ix)
      else case fi_probe (fi_entries ix) i (length (fi_entries ix)) (fi_bucket (fi_entries ix) i) of
        None \<Rightarrow> (False, ix)
      | Some p \<Rightarrow> (True, ix\<lparr>
            fi_entries := (fi_entries ix)[p := \<lparr>en_order_id = kInvalidOrderId,
              en_node_index = kNoIndex, en_state = Slot_Deleted\<rparr>],
            fi_size := fi_size ix - 1\<rparr>))"

text \<open>
  \<^verbatim>\<open>next_capacity\<close>: the loop doubles from 8 until it reaches the target. The test
  \<open>0 < capacity\<close>, always true from 8 on, makes the recursion total.
\<close>

function grow_capacity :: "nat \<Rightarrow> nat \<Rightarrow> nat" where
  "grow_capacity target capacity =
     (if 0 < capacity \<and> capacity < target then grow_capacity target (2 * capacity) else capacity)"
  by auto
termination
  by (relation "measure (\<lambda>(target, capacity). target - capacity)") auto

declare grow_capacity.simps [simp del]

definition next_capacity :: "nat \<Rightarrow> nat" where
  "next_capacity expected_size = grow_capacity (max 8 (expected_size * 4)) 8"

text \<open>
  The unbounded loop of \<^verbatim>\<open>insert_rehashed\<close>, \<^verbatim>\<open>while (entries_[index].state ==
  Occupied)\<close>. It changes nothing it reads, so it either stops within one turn of the table or
  never: the bound is the length of the table and \<open>None\<close> is the endless loop.
\<close>

fun rehash_slot :: "entry list \<Rightarrow> nat \<Rightarrow> nat \<Rightarrow> nat option" where
  "rehash_slot es 0 index = None"
| "rehash_slot es (Suc left) index =
     (if en_state (es ! index) = Slot_Occupied then rehash_slot es left (next_index es index)
      else Some index)"

definition insert_rehashed :: "order_id \<Rightarrow> nat \<Rightarrow> flat_index \<Rightarrow> flat_index option" where
  "insert_rehashed i v ix =
     (case rehash_slot (fi_entries ix) (length (fi_entries ix)) (fi_bucket (fi_entries ix) i) of
        None \<Rightarrow> None
      | Some p \<Rightarrow> Some (ix\<lparr>fi_entries := (fi_entries ix)[p := occupied_entry i v],
                          fi_size := fi_size ix + 1\<rparr>))"

fun rehash_loop :: "entry list \<Rightarrow> flat_index \<Rightarrow> flat_index option" where
  "rehash_loop [] ix = Some ix"
| "rehash_loop (e # old) ix =
     (if en_state e = Slot_Occupied
      then Option.bind (insert_rehashed (en_order_id e) (en_node_index e) ix) (rehash_loop old)
      else rehash_loop old ix)"

definition fi_rehash :: "nat \<Rightarrow> flat_index \<Rightarrow> flat_index option" where
  "fi_rehash capacity ix =
     rehash_loop (fi_entries ix) \<lparr>fi_entries = replicate capacity blank_entry, fi_size = 0\<rparr>"

definition fi_reserve :: "nat \<Rightarrow> flat_index \<Rightarrow> flat_index option" where
  "fi_reserve expected_size ix =
     (if length (fi_entries ix) \<ge> next_capacity expected_size then Some ix
      else fi_rehash (next_capacity expected_size) ix)"

text \<open>The probe loop of \<^verbatim>\<open>insert\<close>, with the first tombstone it passed.\<close>

datatype insert_outcome = Ip_Duplicate | Ip_Target nat | Ip_Full

fun insert_probe :: "entry list \<Rightarrow> order_id \<Rightarrow> nat \<Rightarrow> nat \<Rightarrow> nat \<Rightarrow> insert_outcome" where
  "insert_probe es i 0 index first_deleted =
     (if first_deleted \<noteq> kNoIndex then Ip_Target first_deleted else Ip_Full)"
| "insert_probe es i (Suc left) index first_deleted =
     (case en_state (es ! index) of
        Slot_Occupied \<Rightarrow>
          if en_order_id (es ! index) = i then Ip_Duplicate
          else insert_probe es i left (next_index es index) first_deleted
      | Slot_Deleted \<Rightarrow>
          insert_probe es i left (next_index es index)
            (if first_deleted = kNoIndex then index else first_deleted)
      | Slot_Empty \<Rightarrow> Ip_Target (if first_deleted = kNoIndex then index else first_deleted))"

partial_function (option) fi_insert :: "order_id \<Rightarrow> nat \<Rightarrow> flat_index \<Rightarrow> (bool \<times> flat_index) option" where
  "fi_insert i v ix =
     (if i = kInvalidOrderId then Some (False, ix)
      else Option.bind
        (if fi_entries ix = [] \<or> (fi_size ix + 1) * 2 > length (fi_entries ix)
         then fi_rehash (next_capacity (fi_size ix + 1)) ix else Some ix)
        (\<lambda>ix. case insert_probe (fi_entries ix) i (length (fi_entries ix))
                   (fi_bucket (fi_entries ix) i) kNoIndex of
            Ip_Duplicate \<Rightarrow> Some (False, ix)
          | Ip_Target p \<Rightarrow> Some (True, ix\<lparr>fi_entries := (fi_entries ix)[p := occupied_entry i v],
                                         fi_size := fi_size ix + 1\<rparr>)
          | Ip_Full \<Rightarrow> Option.bind (fi_rehash (length (fi_entries ix) * 2) ix) (fi_insert i v)))"

section \<open>Probe sequences\<close>

definition occ :: "entry list \<Rightarrow> nat \<Rightarrow> bool" where
  "occ es p \<longleftrightarrow> p < length es \<and> en_state (es ! p) = Slot_Occupied"

definition walk :: "entry list \<Rightarrow> order_id \<Rightarrow> nat \<Rightarrow> nat" where
  "walk es i j = (fi_bucket es i + j) mod length es"

text \<open>\<open>reachable es i p\<close>: probing for \<open>i\<close> meets slot \<open>p\<close> before any empty slot.\<close>

definition reachable :: "entry list \<Rightarrow> order_id \<Rightarrow> nat \<Rightarrow> bool" where
  "reachable es i p \<longleftrightarrow> (\<exists>j < length es. walk es i j = p \<and>
     (\<forall>j' < j. en_state (es ! walk es i j') \<noteq> Slot_Empty))"

definition table_ok :: "entry list \<Rightarrow> bool" where
  "table_ok es \<longleftrightarrow> (\<exists>k. length es = 2 ^ k) \<and>
     (\<forall>p. occ es p \<longrightarrow> en_order_id (es ! p) \<noteq> kInvalidOrderId \<and> reachable es (en_order_id (es ! p)) p) \<and>
     (\<forall>p q. occ es p \<longrightarrow> occ es q \<longrightarrow> en_order_id (es ! p) = en_order_id (es ! q) \<longrightarrow> p = q)"

definition holds :: "entry list \<Rightarrow> order_id \<Rightarrow> nat \<Rightarrow> bool" where
  "holds es i v \<longleftrightarrow> (\<exists>p. occ es p \<and> en_order_id (es ! p) = i \<and> en_node_index (es ! p) = v)"

definition fi_inv :: "flat_index \<Rightarrow> bool" where
  "fi_inv ix \<longleftrightarrow> (if fi_entries ix = [] then fi_size ix = 0
     else table_ok (fi_entries ix) \<and> fi_size ix = card {p. occ (fi_entries ix) p} \<and>
       2 * fi_size ix \<le> length (fi_entries ix) \<and> length (fi_entries ix) \<le> kNoIndex)"

lemma and_len: "length es = 2 ^ k \<Longrightarrow> (n::nat) AND (length es - 1) = n mod length es"
  by (rule and_pow2)

lemma bucket_less: "length es = 2 ^ k \<Longrightarrow> fi_bucket es i < length es"
  unfolding fi_bucket_def and_len by simp

lemma next_walk:
  "length es = 2 ^ k \<Longrightarrow> next_index es (walk es i j) = walk es i (Suc j)"
  unfolding next_index_def walk_def and_len by (simp add: mod_Suc_eq)

lemma walk_0: "length es = 2 ^ k \<Longrightarrow> walk es i 0 = fi_bucket es i"
  unfolding walk_def add_0_right by (rule mod_less) (rule bucket_less)

lemma walk_less: "length es = 2 ^ k \<Longrightarrow> walk es i j < length es"
  by (simp add: walk_def)

lemma walk_surj:
  assumes "length es = 2 ^ k" and "p < length es"
  shows "\<exists>j < length es. walk es i j = p"
  unfolding walk_def using ring_surj bucket_less [OF assms(1)] assms(2) by blast

lemma bucket_update [simp]: "fi_bucket (es[p := e]) i = fi_bucket es i"
  by (simp add: fi_bucket_def)

lemma walk_update [simp]: "walk (es[p := e]) i j = walk es i j"
  by (simp add: walk_def)

end
