(* ===== verification/Flat_Order_Index_Correct.thy ===== *)
theory Flat_Order_Index_Correct
  imports Flat_Order_Index
begin

text \<open>
  The open-addressing index is a partial map: what a probe finds, what an insertion and an erasure
  do to it, and that rehashing keeps it. \<open>fi_insert\<close> is shown to return.
\<close>

section \<open>Looking up\<close>

lemma probe_sound:
  assumes "length es = 2 ^ k" and "fi_probe es i left index = Some p" and "index < length es"
  shows "occ es p \<and> en_order_id (es ! p) = i"
  using assms
proof (induction left arbitrary: index)
  case (Suc left)
  have "next_index es index < length es"
    unfolding next_index_def and_len [OF Suc.prems(1)] using Suc.prems(1) by simp
  with Suc show ?case by (auto simp: occ_def split: if_splits)
qed simp

lemma probe_complete:
  assumes "length es = 2 ^ k" and "occ es p" and "en_order_id (es ! p) = i"
    and uniq: "\<And>q. occ es q \<Longrightarrow> en_order_id (es ! q) = i \<Longrightarrow> q = p"
    and "walk es i (s + j) = p" and "\<forall>j' < j. en_state (es ! walk es i (s + j')) \<noteq> Slot_Empty"
    and "j < left"
  shows "fi_probe es i left (walk es i s) = Some p"
  using assms(5-7)
proof (induction left arbitrary: s j)
  case (Suc left)
  let ?q = "walk es i s"
  have q: "?q < length es" using assms(1) by (rule walk_less)
  show ?case
  proof (cases j)
    case 0
    then show ?thesis using Suc.prems assms(2,3) by (simp add: occ_def)
  next
    case (Suc j')
    have ne: "en_state (es ! ?q) \<noteq> Slot_Empty" using Suc.prems(2) Suc by (metis add_0_right zero_less_Suc)
    show ?thesis
    proof (cases "en_state (es ! ?q) = Slot_Occupied \<and> en_order_id (es ! ?q) = i")
      case True
      then have "?q = p" using q uniq by (simp add: occ_def)
      with True show ?thesis by simp
    next
      case False
      have "fi_probe es i left (walk es i (Suc s)) = Some p"
        using Suc.prems Suc by (intro Suc.IH [of "Suc s" j']) auto
      with ne False show ?thesis using assms(1) by (auto simp: next_walk)
    qed
  qed
qed simp

lemma table_probe:
  assumes "table_ok es"
  shows "fi_probe es i (length es) (fi_bucket es i) = Some p \<longleftrightarrow> occ es p \<and> en_order_id (es ! p) = i"
proof -
  obtain k where k: "length es = 2 ^ k" using assms by (auto simp: table_ok_def)
  show ?thesis
  proof
    assume "fi_probe es i (length es) (fi_bucket es i) = Some p"
    then show "occ es p \<and> en_order_id (es ! p) = i" using probe_sound [OF k] bucket_less [OF k] by blast
  next
    assume p: "occ es p \<and> en_order_id (es ! p) = i"
    then have "reachable es i p" using assms by (auto simp: table_ok_def)
    then obtain j where j: "j < length es" "walk es i j = p"
        "\<forall>j' < j. en_state (es ! walk es i j') \<noteq> Slot_Empty" by (auto simp: reachable_def)
    have "fi_probe es i (length es) (walk es i 0) = Some p"
    proof (rule probe_complete [OF k, where j = j])
      fix q
      assume "occ es q" "en_order_id (es ! q) = i"
      with p show "q = p" using assms by (simp add: table_ok_def)
    qed (use p j in simp_all)
    then show "fi_probe es i (length es) (fi_bucket es i) = Some p" by (simp add: walk_0 [OF k])
  qed
qed

lemma table_probe_None:
  "table_ok es \<Longrightarrow> fi_probe es i (length es) (fi_bucket es i) = None \<longleftrightarrow>
   (\<nexists>p. occ es p \<and> en_order_id (es ! p) = i)"
  using table_probe [of es i] by (metis not_None_eq)

lemma fi_find_holds:
  assumes "fi_inv ix"
  shows "fi_find i ix = Some v \<longleftrightarrow> holds (fi_entries ix) i v"
proof (cases "fi_entries ix = []")
  case False
  with assms have t: "table_ok (fi_entries ix)" by (simp add: fi_inv_def)
  show ?thesis
  proof (cases "i = kInvalidOrderId")
    case True
    with t show ?thesis by (auto simp: fi_find_def holds_def table_ok_def)
  next
    case id: False
    show ?thesis
    proof (cases "fi_probe (fi_entries ix) i (length (fi_entries ix)) (fi_bucket (fi_entries ix) i)")
      case None
      with table_probe_None [OF t, of i] have "\<not> holds (fi_entries ix) i v" by (auto simp: holds_def)
      with None False id show ?thesis by (simp add: fi_find_def)
    next
      case (Some p)
      with table_probe [OF t, of i] have "occ (fi_entries ix) q \<and> en_order_id (fi_entries ix ! q) = i \<longleftrightarrow> q = p" for q
        by (metis option.inject)
      then have "holds (fi_entries ix) i v \<longleftrightarrow> en_node_index (fi_entries ix ! p) = v"
        unfolding holds_def by metis
      with Some False id show ?thesis by (simp add: fi_find_def)
    qed
  qed
qed (simp add: fi_find_def holds_def occ_def)

section \<open>Filling and freeing a slot\<close>

lemma occ_update:
  "p < length es \<Longrightarrow> occ (es[p := e]) q \<longleftrightarrow> (if q = p then en_state e = Slot_Occupied else occ es q)"
  by (auto simp: occ_def)

lemma reachable_update:
  assumes "reachable es i q" and "en_state e \<noteq> Slot_Empty"
  shows "reachable (es[p := e]) i q"
proof -
  have "en_state (es[p := e] ! r) \<noteq> Slot_Empty" if "en_state (es ! r) \<noteq> Slot_Empty" for r
    using that assms(2) by (cases "p < length es") (auto simp: nth_list_update list_update_beyond)
  with assms(1) show ?thesis by (auto simp: reachable_def)
qed

lemma table_place:
  assumes "table_ok es" and "p < length es" and "\<not> occ es p" and "reachable es i p"
    and "i \<noteq> kInvalidOrderId" and "\<nexists>v. holds es i v"
  shows "table_ok (es[p := occupied_entry i v])"
    and "{q. occ (es[p := occupied_entry i v]) q} = insert p {q. occ es q}"
    and "holds (es[p := occupied_entry i v]) i' v' \<longleftrightarrow> (if i' = i then v' = v else holds es i' v')"
proof -
  let ?es = "es[p := occupied_entry i v]"
  have occ: "occ ?es q \<longleftrightarrow> q = p \<or> occ es q" for q
    using assms(2) by (simp add: occ_update occupied_entry_def)
  have entry: "?es ! q = (if q = p then occupied_entry i v else es ! q)" for q
    using assms(2) by simp
  have new: "en_order_id (es ! q) \<noteq> i" if "occ es q" for q
    using assms(6) that by (auto simp: holds_def)
  show "{q. occ ?es q} = insert p {q. occ es q}" by (auto simp: occ)
  have "reachable ?es j q" if "reachable es j q" for j q
    using that by (rule reachable_update) (simp add: occupied_entry_def)
  then show "table_ok ?es"
    using assms new unfolding table_ok_def occ entry
    by (auto simp: occupied_entry_def)
  show "holds ?es i' v' \<longleftrightarrow> (if i' = i then v' = v else holds es i' v')"
  proof -
    have "p \<noteq> q" if "occ es q" for q using assms(3) that by auto
    then have "holds ?es i' v' \<longleftrightarrow> (i' = i \<and> v' = v) \<or> holds es i' v'"
      unfolding holds_def occ entry by (auto simp: occupied_entry_def) metis
    then show ?thesis using assms(6) by auto
  qed
qed

lemma card_occ_insert: "\<not> occ es p \<Longrightarrow> card (insert p {q. occ es q}) = Suc (card {q. occ es q})"
  by (simp add: occ_def)

section \<open>Rehashing\<close>

lemma rehash_slot_finds:
  assumes "length es = 2 ^ k" and "walk es i (s + j) = p" and "\<not> occ es p" and "j < left"
    and "\<forall>j' < s. occ es (walk es i j')" and "s + j < length es"
  shows "\<exists>q. rehash_slot es left (walk es i s) = Some q \<and> q < length es \<and> \<not> occ es q \<and> reachable es i q"
  using assms(2,4-6)
proof (induction left arbitrary: s j)
  case (Suc left)
  have q: "walk es i s < length es" using assms(1) by (rule walk_less)
  show ?case
  proof (cases "occ es (walk es i s)")
    case True
    with Suc.prems assms(3) have "j \<noteq> 0" by (cases j) auto
    then obtain j' where j: "j = Suc j'" by (cases j) auto
    have "\<exists>q. rehash_slot es left (walk es i (Suc s)) = Some q \<and> q < length es \<and> \<not> occ es q \<and> reachable es i q"
      using Suc.prems j True by (intro Suc.IH [of "Suc s" j']) (auto simp: less_Suc_eq)
    with True show ?thesis by (simp add: occ_def next_walk [OF assms(1)])
  next
    case False
    have "reachable es i (walk es i s)"
      unfolding reachable_def using Suc.prems by (intro exI [of _ s]) (auto simp: occ_def)
    with False q show ?thesis by (auto simp: occ_def)
  qed
qed simp

lemma insert_rehashed_ok:
  assumes "table_ok (fi_entries ix)" and "fi_size ix = card {p. occ (fi_entries ix) p}"
    and "fi_size ix < length (fi_entries ix)" and "i \<noteq> kInvalidOrderId" and "\<nexists>v. holds (fi_entries ix) i v"
  obtains ix' where "insert_rehashed i v ix = Some ix'" and "table_ok (fi_entries ix')"
    and "fi_size ix' = card {p. occ (fi_entries ix') p}" and "fi_size ix' = Suc (fi_size ix)"
    and "length (fi_entries ix') = length (fi_entries ix)"
    and "\<And>i' v'. holds (fi_entries ix') i' v' \<longleftrightarrow> (if i' = i then v' = v else holds (fi_entries ix) i' v')"
proof -
  let ?es = "fi_entries ix"
  obtain k where k: "length ?es = 2 ^ k" using assms(1) by (auto simp: table_ok_def)
  have "{p. occ ?es p} \<noteq> {..<length ?es}"
    using assms(2,3) by (metis card_lessThan less_irrefl)
  then obtain p where p: "p < length ?es" "\<not> occ ?es p" by (auto simp: occ_def)
  obtain j where j: "j < length ?es" "walk ?es i j = p" using walk_surj [OF k p(1)] by blast
  have "\<exists>q. rehash_slot ?es (length ?es) (walk ?es i 0) = Some q \<and> q < length ?es \<and> \<not> occ ?es q \<and> reachable ?es i q"
    using j p by (intro rehash_slot_finds [OF k, where j = j]) auto
  then obtain q where q: "rehash_slot ?es (length ?es) (fi_bucket ?es i) = Some q" "q < length ?es"
      "\<not> occ ?es q" "reachable ?es i q" by (auto simp: walk_0 [OF k])
  note place = table_place [OF assms(1) q(2-4) assms(4,5)]
  show thesis
    by (rule that [of "ix\<lparr>fi_entries := ?es[q := occupied_entry i v], fi_size := fi_size ix + 1\<rparr>"])
      (use q place in \<open>simp_all add: insert_rehashed_def card_occ_insert assms(2)\<close>)
qed

definition entry_ids :: "entry list \<Rightarrow> order_id list" where
  "entry_ids es = map en_order_id (filter (\<lambda>e. en_state e = Slot_Occupied) es)"

lemma rehash_loop_ok:
  assumes "table_ok (fi_entries ix)" and "fi_size ix = card {p. occ (fi_entries ix) p}"
    and "fi_size ix + length (entry_ids old) \<le> length (fi_entries ix) - 1"
    and "distinct (entry_ids old)" and "\<forall>i \<in> set (entry_ids old). i \<noteq> kInvalidOrderId \<and> (\<nexists>v. holds (fi_entries ix) i v)"
  shows "\<exists>ix'. rehash_loop old ix = Some ix' \<and> table_ok (fi_entries ix') \<and>
    fi_size ix' = card {p. occ (fi_entries ix') p} \<and> fi_size ix' = fi_size ix + length (entry_ids old) \<and>
    length (fi_entries ix') = length (fi_entries ix) \<and>
    (\<forall>i v. holds (fi_entries ix') i v \<longleftrightarrow> holds (fi_entries ix) i v \<or>
       (\<exists>e \<in> set old. en_state e = Slot_Occupied \<and> en_order_id e = i \<and> en_node_index e = v))"
  using assms
proof (induction old arbitrary: ix)
  case Nil
  then show ?case by (simp add: entry_ids_def)
next
  case (Cons e old)
  show ?case
  proof (cases "en_state e = Slot_Occupied")
    case False
    then have ids: "entry_ids (e # old) = entry_ids old" by (simp add: entry_ids_def)
    with Cons.IH [of ix] Cons.prems obtain ix' where "rehash_loop old ix = Some ix'"
      "table_ok (fi_entries ix') \<and> fi_size ix' = card {p. occ (fi_entries ix') p} \<and>
       fi_size ix' = fi_size ix + length (entry_ids old) \<and> length (fi_entries ix') = length (fi_entries ix) \<and>
       (\<forall>i v. holds (fi_entries ix') i v \<longleftrightarrow> holds (fi_entries ix) i v \<or>
         (\<exists>e \<in> set old. en_state e = Slot_Occupied \<and> en_order_id e = i \<and> en_node_index e = v))" by auto
    with False ids show ?thesis by auto
  next
    case True
    let ?i = "en_order_id e" and ?v = "en_node_index e"
    have ids: "entry_ids (e # old) = ?i # entry_ids old" using True by (simp add: entry_ids_def)
    have len: "length (fi_entries ix) > 0" using Cons.prems(1) by (auto simp: table_ok_def)
    have "fi_size ix < length (fi_entries ix)" "?i \<noteq> kInvalidOrderId" "\<nexists>v. holds (fi_entries ix) ?i v"
      using Cons.prems(3,5) ids len by auto
    from insert_rehashed_ok [OF Cons.prems(1,2) this, of ?v]
    obtain ix1 where ix1: "insert_rehashed ?i ?v ix = Some ix1" "table_ok (fi_entries ix1)"
      "fi_size ix1 = card {p. occ (fi_entries ix1) p}" "fi_size ix1 = Suc (fi_size ix)"
      "length (fi_entries ix1) = length (fi_entries ix)"
      "\<And>i' v'. holds (fi_entries ix1) i' v' \<longleftrightarrow> (if i' = ?i then v' = ?v else holds (fi_entries ix) i' v')"
      by blast
    have fresh: "\<forall>i \<in> set (entry_ids old). i \<noteq> kInvalidOrderId \<and> (\<nexists>v. holds (fi_entries ix1) i v)"
      using Cons.prems(4,5) ids ix1(6) by auto
    obtain ix' where ix': "rehash_loop old ix1 = Some ix'" "table_ok (fi_entries ix')"
      "fi_size ix' = card {p. occ (fi_entries ix') p}" "fi_size ix' = fi_size ix1 + length (entry_ids old)"
      "length (fi_entries ix') = length (fi_entries ix1)"
      "\<And>i v. holds (fi_entries ix') i v \<longleftrightarrow> holds (fi_entries ix1) i v \<or>
         (\<exists>e \<in> set old. en_state e = Slot_Occupied \<and> en_order_id e = i \<and> en_node_index e = v)"
      using Cons.IH [OF ix1(2,3) _ _ fresh] Cons.prems(3,4) ids ix1(4,5) by auto
    have "holds (fi_entries ix') i v \<longleftrightarrow> holds (fi_entries ix) i v \<or>
        (\<exists>e' \<in> set (e # old). en_state e' = Slot_Occupied \<and> en_order_id e' = i \<and> en_node_index e' = v)" for i v
      using ix'(6) [of i v] ix1(6) [of i v] True Cons.prems(5) ids by auto
    with True ix1 ix' ids show ?thesis by simp
  qed
qed

lemma table_blank:
  "table_ok (replicate (2 ^ k) blank_entry)" "\<not> occ (replicate n blank_entry) p"
  "\<not> holds (replicate n blank_entry) i v"
  by (auto simp: table_ok_def occ_def holds_def blank_entry_def)

lemma holds_entries:
  "holds es i v \<longleftrightarrow> (\<exists>e \<in> set es. en_state e = Slot_Occupied \<and> en_order_id e = i \<and> en_node_index e = v)"
  unfolding holds_def occ_def by (metis in_set_conv_nth)

lemma entry_ids_length: "length (entry_ids es) = card {p. occ es p}"
  by (simp add: entry_ids_def occ_def length_filter_conv_card)

lemma entry_ids_distinct:
  assumes "\<And>p q. occ es p \<Longrightarrow> occ es q \<Longrightarrow> en_order_id (es ! p) = en_order_id (es ! q) \<Longrightarrow> p = q"
  shows "distinct (entry_ids es)"
  using assms
proof (induction es)
  case (Cons e es)
  have "distinct (entry_ids es)"
    using Cons.prems [of "Suc _" "Suc _"] by (intro Cons.IH) (auto simp: occ_def)
  moreover have "en_order_id e \<notin> set (entry_ids es)" if "en_state e = Slot_Occupied"
  proof
    assume "en_order_id e \<in> set (entry_ids es)"
    then obtain q where "q < length es" "en_state (es ! q) = Slot_Occupied" "en_order_id (es ! q) = en_order_id e"
      by (auto simp: entry_ids_def in_set_conv_nth)
    with that have "0 = Suc q" by (intro Cons.prems) (auto simp: occ_def)
    then show False by simp
  qed
  ultimately show ?case by (simp add: entry_ids_def)
qed (simp add: entry_ids_def)

lemma fi_rehash_ok:
  assumes "fi_inv ix" and "fi_size ix < 2 ^ k"
  obtains ix' where "fi_rehash (2 ^ k) ix = Some ix'" and "table_ok (fi_entries ix')"
    and "fi_size ix' = card {p. occ (fi_entries ix') p}" and "fi_size ix' = fi_size ix"
    and "length (fi_entries ix') = 2 ^ k"
    and "\<And>i v. holds (fi_entries ix') i v \<longleftrightarrow> holds (fi_entries ix) i v"
proof -
  let ?es = "fi_entries ix" and ?new = "\<lparr>fi_entries = replicate (2 ^ k) blank_entry, fi_size = 0\<rparr>"
  have size: "length (entry_ids ?es) = fi_size ix"
    using assms(1) unfolding entry_ids_length by (cases "?es = []") (simp_all add: fi_inv_def occ_def [abs_def])
  have uniq: "occ ?es p \<Longrightarrow> occ ?es q \<Longrightarrow> en_order_id (?es ! p) = en_order_id (?es ! q) \<Longrightarrow> p = q" for p q
    using assms(1) by (cases "?es = []") (auto simp: fi_inv_def table_ok_def occ_def)
  have nonzero: "occ ?es p \<Longrightarrow> en_order_id (?es ! p) \<noteq> kInvalidOrderId" for p
    using assms(1) by (cases "?es = []") (auto simp: fi_inv_def table_ok_def occ_def)
  have ids: "\<forall>i \<in> set (entry_ids ?es). i \<noteq> kInvalidOrderId \<and> (\<nexists>v. holds (fi_entries ?new) i v)"
    using nonzero by (auto simp: entry_ids_def in_set_conv_nth occ_def table_blank)
  have dist: "distinct (entry_ids ?es)" by (rule entry_ids_distinct) (rule uniq)
  have "\<exists>ix'. rehash_loop ?es ?new = Some ix' \<and> table_ok (fi_entries ix') \<and>
    fi_size ix' = card {p. occ (fi_entries ix') p} \<and> fi_size ix' = fi_size ?new + length (entry_ids ?es) \<and>
    length (fi_entries ix') = length (fi_entries ?new) \<and>
    (\<forall>i v. holds (fi_entries ix') i v \<longleftrightarrow> holds (fi_entries ?new) i v \<or>
       (\<exists>e \<in> set ?es. en_state e = Slot_Occupied \<and> en_order_id e = i \<and> en_node_index e = v))"
    using assms(2) size ids dist by (intro rehash_loop_ok) (auto simp: table_blank)
  then show thesis
    using that size by (auto simp: fi_rehash_def holds_entries blank_entry_def)
qed

section \<open>Growth\<close>

lemma grow_capacity_power:
  "\<exists>k'. grow_capacity target (2 ^ k) = 2 ^ k'"
proof (induction "target - 2 ^ k" arbitrary: k rule: less_induct)
  case less
  show ?case
  proof (cases "2 ^ k < target")
    case True
    then have "target - 2 ^ Suc k < target - 2 ^ k" by (intro diff_less_mono2) auto
    with less [of "Suc k"] True show ?thesis by (subst grow_capacity.simps) auto
  qed (subst grow_capacity.simps, auto)
qed

lemma grow_capacity_ge: "0 < capacity \<Longrightarrow> target \<le> grow_capacity target capacity"
  by (induction target capacity rule: grow_capacity.induct) (subst grow_capacity.simps, auto)

lemma grow_capacity_le: "capacity < 2 * target \<Longrightarrow> grow_capacity target capacity < 2 * target"
  by (induction target capacity rule: grow_capacity.induct) (subst grow_capacity.simps, auto)

lemma next_capacity_power: "\<exists>k. next_capacity n = 2 ^ k"
  using grow_capacity_power [of _ 3] by (simp add: next_capacity_def)

lemma next_capacity_ge: "8 \<le> next_capacity n" "4 * n \<le> next_capacity n"
  using grow_capacity_ge [of 8 "max 8 (n * 4)"] by (auto simp: next_capacity_def)

lemma next_capacity_le: "next_capacity n < 2 * max 8 (4 * n)"
  unfolding next_capacity_def using grow_capacity_le [of 8 "max 8 (n * 4)"] by (simp add: mult.commute)

section \<open>Insertion and erasure\<close>

lemma insert_probe_result:
  assumes "length es = 2 ^ k" and "length es \<le> kNoIndex" and "s + left = length es"
    and "\<forall>j < s. en_state (es ! walk es i j) \<noteq> Slot_Empty \<and>
           (occ es (walk es i j) \<longrightarrow> en_order_id (es ! walk es i j) \<noteq> i)"
    and "fd = kNoIndex \<longrightarrow> (\<forall>j < s. occ es (walk es i j))"
    and "fd \<noteq> kNoIndex \<longrightarrow> (\<exists>j < s. walk es i j = fd) \<and> \<not> occ es fd"
  shows "case insert_probe es i left (walk es i s) fd of
      Ip_Duplicate \<Rightarrow> \<exists>v. holds es i v
    | Ip_Target p \<Rightarrow> p < length es \<and> \<not> occ es p \<and> reachable es i p \<and>
        (\<forall>q. occ es q \<longrightarrow> reachable es i q \<longrightarrow> en_order_id (es ! q) \<noteq> i)
    | Ip_Full \<Rightarrow> \<forall>p < length es. occ es p"
  using assms(3-6)
proof (induction left arbitrary: s fd)
  case 0
  show ?case
  proof (cases "fd = kNoIndex")
    case True
    with 0 have "\<forall>p < length es. occ es p" using walk_surj [OF assms(1)] by (metis add_0_right)
    with True show ?thesis by simp
  next
    case False
    with 0 obtain j where j: "j < length es" "walk es i j = fd" "\<not> occ es fd" by auto
    then have "reachable es i fd" unfolding reachable_def using 0 by auto
    moreover have "en_order_id (es ! q) \<noteq> i" if q: "occ es q" for q
    proof -
      obtain j where "j < length es" "walk es i j = q"
        using q walk_surj [OF assms(1), of q i] by (auto simp: occ_def)
      with 0(1,2) q show ?thesis by auto
    qed
    ultimately show ?thesis using False j walk_less [OF assms(1)] by auto
  qed
next
  case (Suc left)
  let ?p = "walk es i s"
  have p: "?p < length es" using assms(1) by (rule walk_less)
  then have sentinel: "?p \<noteq> kNoIndex" using assms(2) by simp
  have s: "s < length es" using Suc.prems(1) by simp
  note IH = Suc.IH [of "Suc s", unfolded next_walk [OF assms(1), symmetric]]
  show ?case
  proof (cases "en_state (es ! ?p)")
    case Slot_Occupied
    show ?thesis
    proof (cases "en_order_id (es ! ?p) = i")
      case True
      with Slot_Occupied p have "holds es i (en_node_index (es ! ?p))" by (auto simp: holds_def occ_def)
      with Slot_Occupied True show ?thesis by auto
    next
      case False
      have "occ es ?p" using Slot_Occupied p by (simp add: occ_def)
      with Slot_Occupied False Suc.prems
      have prems: "\<forall>j < Suc s. en_state (es ! walk es i j) \<noteq> Slot_Empty \<and>
           (occ es (walk es i j) \<longrightarrow> en_order_id (es ! walk es i j) \<noteq> i)"
        "fd = kNoIndex \<longrightarrow> (\<forall>j < Suc s. occ es (walk es i j))"
        "fd \<noteq> kNoIndex \<longrightarrow> (\<exists>j < Suc s. walk es i j = fd) \<and> \<not> occ es fd"
        by (simp_all add: less_Suc_eq) blast
      from IH [OF _ prems] Suc.prems(1) Slot_Occupied False show ?thesis by simp
    qed
  next
    case Slot_Deleted
    let ?fd = "if fd = kNoIndex then ?p else fd"
    have nocc: "\<not> occ es ?p" using Slot_Deleted by (simp add: occ_def)
    have fd: "?fd \<noteq> kNoIndex" using sentinel by simp
    have prems: "\<forall>j < Suc s. en_state (es ! walk es i j) \<noteq> Slot_Empty \<and>
         (occ es (walk es i j) \<longrightarrow> en_order_id (es ! walk es i j) \<noteq> i)"
      using Suc.prems(2) Slot_Deleted nocc by (simp add: less_Suc_eq_le le_less)
    have "(\<exists>j < Suc s. walk es i j = ?fd) \<and> \<not> occ es ?fd"
      using Suc.prems(4) nocc by (cases "fd = kNoIndex") (auto simp: less_Suc_eq)
    with IH [OF _ prems, of ?fd] fd Suc.prems(1) Slot_Deleted show ?thesis by simp
  next
    case Slot_Empty
    let ?t = "if fd = kNoIndex then ?p else fd"
    have "\<exists>j \<le> s. walk es i j = ?t"
    proof (cases "fd = kNoIndex")
      case True
      then show ?thesis by (intro exI [of _ s]) simp
    next
      case False
      with Suc.prems(4) obtain j where "j < s" "walk es i j = fd" by blast
      with False show ?thesis by (intro exI [of _ j]) simp
    qed
    then obtain j where j: "j \<le> s" "walk es i j = ?t" by blast
    then have before: "\<forall>j' < j. en_state (es ! walk es i j') \<noteq> Slot_Empty" using Suc.prems(2) by simp
    have "j < length es" using j(1) s by simp
    then have reach: "reachable es i ?t" unfolding reachable_def using j(2) before by blast
    have vacant: "\<not> occ es ?t" using Suc.prems(4) Slot_Empty by (simp add: occ_def)
    have len: "?t < length es" using j(2) walk_less [OF assms(1)] by metis
    have "en_order_id (es ! q) \<noteq> i" if q: "occ es q" "reachable es i q" for q
    proof -
      from q(2) obtain j where j: "walk es i j = q" "\<forall>j' < j. en_state (es ! walk es i j') \<noteq> Slot_Empty"
        by (auto simp: reachable_def)
      have "j \<noteq> s" using q(1) j(1) Slot_Empty by (auto simp: occ_def)
      moreover have "\<not> s < j" using j(2) Slot_Empty by blast
      ultimately have "j < s" by simp
      with Suc.prems(2) have "occ es (walk es i j) \<longrightarrow> en_order_id (es ! walk es i j) \<noteq> i" by simp
      with j(1) q(1) show ?thesis by simp
    qed
    with reach vacant len Slot_Empty show ?thesis by simp
  qed
qed

lemma kNoIndex_bound: "m < kMaxSlots \<Longrightarrow> next_capacity (m + 1) \<le> kNoIndex"
  using next_capacity_le [of "m + 1"] by (simp add: kMaxSlots_def kNoIndex_def max_def split: if_splits)

text \<open>The two branches before the probe loop: grow, or keep the table.\<close>

lemma fi_grow_ok:
  assumes "fi_inv ix" and "fi_size ix < kMaxSlots"
  obtains ix1 where "(if fi_entries ix = [] \<or> (fi_size ix + 1) * 2 > length (fi_entries ix)
      then fi_rehash (next_capacity (fi_size ix + 1)) ix else Some ix) = Some ix1"
    and "table_ok (fi_entries ix1)" and "fi_size ix1 = card {p. occ (fi_entries ix1) p}"
    and "fi_size ix1 = fi_size ix" and "2 * (fi_size ix + 1) \<le> length (fi_entries ix1)"
    and "length (fi_entries ix1) \<le> kNoIndex"
    and "\<And>i v. holds (fi_entries ix1) i v \<longleftrightarrow> holds (fi_entries ix) i v"
proof (cases "fi_entries ix = [] \<or> (fi_size ix + 1) * 2 > length (fi_entries ix)")
  case True
  obtain k where k: "next_capacity (fi_size ix + 1) = 2 ^ k" using next_capacity_power by blast
  have "4 * (fi_size ix + 1) \<le> 2 ^ k" using next_capacity_ge(2) [of "fi_size ix + 1"] by (simp only: k)
  moreover have "2 ^ k \<le> kNoIndex" using kNoIndex_bound [OF assms(2)] by (simp only: k)
  moreover obtain ix1 where "fi_rehash (2 ^ k) ix = Some ix1" "table_ok (fi_entries ix1)"
      "fi_size ix1 = card {p. occ (fi_entries ix1) p}" "fi_size ix1 = fi_size ix"
      "length (fi_entries ix1) = 2 ^ k" "\<And>i v. holds (fi_entries ix1) i v \<longleftrightarrow> holds (fi_entries ix) i v"
  proof -
    have "fi_size ix < 2 ^ k" by (rule order.strict_trans2 [OF _ calculation(1)]) simp
    from fi_rehash_ok [OF assms(1) this] show thesis using that by metis
  qed
  ultimately show thesis using True k by (intro that [of ix1]) auto
next
  case False
  with assms(1) show thesis by (intro that [of ix]) (auto simp: fi_inv_def)
qed

text \<open>Insertion returns, and it is an update of the partial map that fails on a key in use.\<close>

lemma fi_insert_ok:
  assumes "fi_inv ix" and "fi_size ix < kMaxSlots" and "i \<noteq> kInvalidOrderId"
  shows "\<exists>ix'. fi_insert i v ix = Some (fi_find i ix = None, ix') \<and> fi_inv ix' \<and>
    fi_size ix' = fi_size ix + (if fi_find i ix = None then 1 else 0) \<and>
    (\<forall>j. fi_find j ix' = (if fi_find i ix = None \<and> j = i then Some v else fi_find j ix))"
proof -
  obtain ix1 where ix1: "(if fi_entries ix = [] \<or> (fi_size ix + 1) * 2 > length (fi_entries ix)
      then fi_rehash (next_capacity (fi_size ix + 1)) ix else Some ix) = Some ix1"
    "table_ok (fi_entries ix1)" "fi_size ix1 = card {p. occ (fi_entries ix1) p}"
    "fi_size ix1 = fi_size ix" "2 * (fi_size ix + 1) \<le> length (fi_entries ix1)"
    "length (fi_entries ix1) \<le> kNoIndex"
    "\<And>i v. holds (fi_entries ix1) i v \<longleftrightarrow> holds (fi_entries ix) i v"
    using fi_grow_ok [OF assms(1,2)] by metis
  let ?es = "fi_entries ix1"
  obtain k where k: "length ?es = 2 ^ k" using ix1(2) by (auto simp: table_ok_def)
  have ne: "?es \<noteq> []" using ix1(5) by auto
  have inv1: "fi_inv ix1" using ix1 ne by (simp add: fi_inv_def)
  have find_eq: "fi_find j ix' = fi_find j ix''"
    if "fi_inv ix'" "fi_inv ix''" "\<And>v. holds (fi_entries ix') j v \<longleftrightarrow> holds (fi_entries ix'') j v" for j ix' ix''
    using fi_find_holds [OF that(1)] fi_find_holds [OF that(2)] that(3) by (metis not_Some_eq)
  have find1: "fi_find j ix1 = fi_find j ix" for j using find_eq [OF inv1 assms(1) ix1(7)] .
  have none: "fi_find i ix = None \<longleftrightarrow> (\<nexists>v. holds ?es i v)"
    using fi_find_holds [OF inv1, of i] find1 [of i] by (metis not_Some_eq)
  let ?r = "insert_probe ?es i (length ?es) (fi_bucket ?es i) kNoIndex"
  have probe: "case ?r of Ip_Duplicate \<Rightarrow> \<exists>v. holds ?es i v
    | Ip_Target p \<Rightarrow> p < length ?es \<and> \<not> occ ?es p \<and> reachable ?es i p \<and>
        (\<forall>q. occ ?es q \<longrightarrow> reachable ?es i q \<longrightarrow> en_order_id (?es ! q) \<noteq> i)
    | Ip_Full \<Rightarrow> \<forall>p < length ?es. occ ?es p"
    using insert_probe_result [OF k ix1(6), of 0 "length ?es" i kNoIndex] by (simp add: walk_0 [OF k])
  have unfold: "fi_insert i v ix = (case ?r of Ip_Duplicate \<Rightarrow> Some (False, ix1)
      | Ip_Target p \<Rightarrow> Some (True, ix1\<lparr>fi_entries := ?es[p := occupied_entry i v], fi_size := fi_size ix1 + 1\<rparr>)
      | Ip_Full \<Rightarrow> Option.bind (fi_rehash (length ?es * 2) ix1) (fi_insert i v))"
    by (subst fi_insert.simps) (simp only: ix1(1) assms(3) if_False Option.bind.bind_lunit)
  show ?thesis
  proof (cases ?r)
    case Ip_Duplicate
    with probe none have "fi_find i ix \<noteq> None" by simp
    with unfold Ip_Duplicate inv1 ix1(4) find1 show ?thesis by simp
  next
    case Ip_Full
    with probe have "{p. occ ?es p} = {..<length ?es}" by (auto simp: occ_def)
    with ix1(3-5) show ?thesis by simp
  next
    case (Ip_Target p)
    with probe have p: "p < length ?es" "\<not> occ ?es p" "reachable ?es i p"
      "\<nexists>v. holds ?es i v" using ix1(2) by (auto simp: holds_def table_ok_def)
    let ?ix = "ix1\<lparr>fi_entries := ?es[p := occupied_entry i v], fi_size := fi_size ix1 + 1\<rparr>"
    note place = table_place [OF ix1(2) p(1-3) assms(3) p(4), of v]
    have inv: "fi_inv ?ix"
      using place(1,2) p(2) ix1(3-6) ne by (simp add: fi_inv_def card_occ_insert)
    have "fi_find j ?ix = (if j = i then Some v else fi_find j ix)" for j
      using place(3) [of j] find_eq [OF inv inv1, of j] fi_find_holds [OF inv, of j] find1 by auto
    with inv none p(4) ix1(4) unfold Ip_Target show ?thesis by simp
  qed
qed

lemma fi_insert_invalid [simp]: "fi_insert 0 v ix = Some (False, ix)"
  by (subst fi_insert.simps) simp

lemma fi_erase_ok:
  assumes "fi_inv ix"
  shows "fst (fi_erase i ix) = (fi_find i ix \<noteq> None) \<and> fi_inv (snd (fi_erase i ix)) \<and>
    fi_size (snd (fi_erase i ix)) = fi_size ix - (if fi_find i ix = None then 0 else 1) \<and>
    (\<forall>j. fi_find j (snd (fi_erase i ix)) = (if j = i then None else fi_find j ix))"
proof (cases "fi_find i ix")
  case None
  then show ?thesis using assms by (auto simp: fi_find_def fi_erase_def split: if_splits option.splits)
next
  case (Some v)
  let ?es = "fi_entries ix"
  obtain p where ne: "?es \<noteq> []" and p: "fi_probe ?es i (length ?es) (fi_bucket ?es i) = Some p" and i: "i \<noteq> 0"
    using Some by (auto simp: fi_find_def split: if_splits option.splits)
  have t: "table_ok ?es" using assms ne by (simp add: fi_inv_def)
  have occp: "occ ?es p" "en_order_id (?es ! p) = i" using table_probe [OF t, of i p] p by auto
  let ?e = "\<lparr>en_order_id = kInvalidOrderId, en_node_index = kNoIndex, en_state = Slot_Deleted\<rparr>"
  let ?new = "?es[p := ?e]"
  have plen: "p < length ?es" using occp(1) by (simp add: occ_def)
  have occ: "occ ?new q \<longleftrightarrow> q \<noteq> p \<and> occ ?es q" for q using plen by (auto simp: occ_update)
  have entry: "?new ! q = (if q = p then ?e else ?es ! q)" for q using plen by simp
  have reach: "reachable ?new j q" if "reachable ?es j q" for j q
    using that by (rule reachable_update) simp
  have uniq: "en_order_id (?es ! q) \<noteq> i" if "occ ?es q" "q \<noteq> p" for q
    using t occp that by (auto simp: table_ok_def)
  have t': "table_ok ?new"
    using t reach unfolding table_ok_def occ entry by auto
  have "{q. occ ?new q} = {q. occ ?es q} - {p}" by (auto simp: occ)
  moreover have "finite {q. occ ?es q}" by (simp add: occ_def)
  ultimately have card: "card {q. occ ?new q} = card {q. occ ?es q} - 1" "card {q. occ ?es q} > 0"
    using occp(1) by (auto simp: card_gt_0_iff)
  have e: "fi_erase i ix = (True, ix\<lparr>fi_entries := ?new, fi_size := fi_size ix - 1\<rparr>)"
    using ne i p by (simp add: fi_erase_def)
  have inv: "fi_inv (ix\<lparr>fi_entries := ?new, fi_size := fi_size ix - 1\<rparr>)"
    using t' card assms ne by (auto simp: fi_inv_def)
  have "holds ?new j v \<longleftrightarrow> j \<noteq> i \<and> holds ?es j v" for j v
    using occp uniq unfolding holds_def occ entry by (auto split: if_splits) metis
  then have "fi_find j (snd (fi_erase i ix)) = (if j = i then None else fi_find j ix)" for j
    unfolding e snd_conv by (intro option_eqI) (simp add: fi_find_holds [OF inv, simplified] fi_find_holds [OF assms])
  with inv Some e show ?thesis by simp
qed

lemma fi_clear_ok:
  assumes "fi_inv ix"
  shows "fi_inv (fi_clear ix) \<and> fi_size (fi_clear ix) = 0 \<and> fi_find i (fi_clear ix) = None"
proof -
  have nocc: "\<not> occ (map (\<lambda>_. blank_entry) es) p" for es p by (simp add: occ_def blank_entry_def)
  then have empty: "Collect (occ (map (\<lambda>_. blank_entry) es)) = {}" for es by blast
  have inv: "fi_inv (fi_clear ix)"
    using assms nocc by (auto simp: fi_inv_def fi_clear_def table_ok_def empty)
  have "\<not> holds (fi_entries (fi_clear ix)) i v" for v by (simp add: holds_def fi_clear_def nocc)
  with inv show ?thesis using fi_find_holds [OF inv, of i] by (auto simp: fi_clear_def)
qed

lemma fi_new_ok [simp]: "fi_inv fi_new" "fi_find i fi_new = None" "fi_size fi_new = 0"
  by (simp_all add: fi_inv_def fi_new_def fi_find_def)

lemma fi_reserve_ok:
  assumes "fi_inv ix" and "n < kMaxSlots"
  shows "\<exists>ix'. fi_reserve n ix = Some ix' \<and> fi_inv ix' \<and> fi_size ix' = fi_size ix \<and>
    (\<forall>i. fi_find i ix' = fi_find i ix)"
proof (cases "length (fi_entries ix) \<ge> next_capacity n")
  case True
  with assms show ?thesis by (simp add: fi_reserve_def)
next
  case False
  obtain k where k: "next_capacity n = 2 ^ k" using next_capacity_power by blast
  have size: "2 * fi_size ix \<le> length (fi_entries ix)"
    using assms(1) by (cases "fi_entries ix = []") (auto simp: fi_inv_def)
  then have "fi_size ix < 2 ^ k" using False k next_capacity_ge(1) [of n] by linarith
  from fi_rehash_ok [OF assms(1) this] obtain ix' where ix': "fi_rehash (2 ^ k) ix = Some ix'"
    "table_ok (fi_entries ix')" "fi_size ix' = card {p. occ (fi_entries ix') p}" "fi_size ix' = fi_size ix"
    "length (fi_entries ix') = 2 ^ k" "\<And>i v. holds (fi_entries ix') i v \<longleftrightarrow> holds (fi_entries ix) i v"
    by metis
  have "2 ^ k \<le> kNoIndex" using next_capacity_le [of n] assms(2) k
    by (simp add: kMaxSlots_def kNoIndex_def max_def split: if_splits)
  with ix' size False k have inv: "fi_inv ix'" by (auto simp: fi_inv_def)
  have "fi_find i ix' = fi_find i ix" for i
    using fi_find_holds [OF inv, of i] fi_find_holds [OF assms(1), of i] ix'(6) by (metis not_Some_eq)
  with inv ix' k False show ?thesis by (auto simp: fi_reserve_def)
qed

end
