(* ===== verification/Pooled_Order_Book.thy ===== *)
theory Pooled_Order_Book
  imports Flat_Order_Index_Correct
begin

text \<open>
  \<^verbatim>\<open>book/pooled_order_book.hpp\<close> and \<^verbatim>\<open>book/pooled_order_book.cpp\<close>: the book
  that keeps its orders in one vector of nodes. The queue of a price level is a doubly linked list
  threaded through the node slots, freed slots form a singly linked free list in the same links,
  the levels of a side are a sorted vector, and the lookup index is the hash table of
  \<open>Flat_Order_Index\<close>. Links are slot numbers with \<open>kNoIndex\<close> for none, as in the code.
\<close>

section \<open>State\<close>

record level_node =
  ln_price_ticks :: price_ticks
  ln_total_quantity :: quantity
  ln_head :: nat
  ln_tail :: nat
  ln_order_count :: nat

record order_node =
  on_order :: order
  on_previous :: nat
  on_next :: nat
  on_active :: bool

record pooled_book =
  pb_symbol_id :: symbol_id
  pb_bids :: "level_node list"
  pb_asks :: "level_node list"
  pb_order_nodes :: "order_node list"
  pb_free_head :: nat
  pb_order_index :: flat_index

definition pb_new :: "symbol_id \<Rightarrow> pooled_book" where
  "pb_new sy = \<lparr>pb_symbol_id = sy, pb_bids = [], pb_asks = [], pb_order_nodes = [],
     pb_free_head = kNoIndex, pb_order_index = fi_new\<rparr>"

definition pb_empty :: "pooled_book \<Rightarrow> bool" where
  "pb_empty p \<longleftrightarrow> fi_size (pb_order_index p) = 0"

definition pb_order_count :: "pooled_book \<Rightarrow> nat" where
  "pb_order_count p = fi_size (pb_order_index p)"

definition pb_clear :: "pooled_book \<Rightarrow> pooled_book" where
  "pb_clear p = p\<lparr>pb_bids := [], pb_asks := [], pb_order_nodes := [], pb_free_head := kNoIndex,
     pb_order_index := fi_clear (pb_order_index p)\<rparr>"

definition pb_levels :: "side \<Rightarrow> pooled_book \<Rightarrow> level_node list" where
  "pb_levels sd p = (case sd of Buy \<Rightarrow> pb_bids p | Sell \<Rightarrow> pb_asks p | NoSide \<Rightarrow> [])"

definition pb_set_levels :: "side \<Rightarrow> level_node list \<Rightarrow> pooled_book \<Rightarrow> pooled_book" where
  "pb_set_levels sd ls p =
     (case sd of Buy \<Rightarrow> p\<lparr>pb_bids := ls\<rparr> | Sell \<Rightarrow> p\<lparr>pb_asks := ls\<rparr> | NoSide \<Rightarrow> p)"

section \<open>Node slots and queue links\<close>

definition fresh_node :: "order \<Rightarrow> order_node" where
  "fresh_node x = \<lparr>on_order = x, on_previous = kNoIndex, on_next = kNoIndex, on_active = True\<rparr>"

definition acquire_node :: "order \<Rightarrow> pooled_book \<Rightarrow> nat \<times> pooled_book" where
  "acquire_node x p =
     (if pb_free_head p \<noteq> kNoIndex
      then (let n = pb_free_head p in
        (n, p\<lparr>pb_free_head := on_next (pb_order_nodes p ! n),
              pb_order_nodes := (pb_order_nodes p)[n := fresh_node x]\<rparr>))
      else (length (pb_order_nodes p), p\<lparr>pb_order_nodes := pb_order_nodes p @ [fresh_node x]\<rparr>))"

definition release_node :: "nat \<Rightarrow> pooled_book \<Rightarrow> pooled_book" where
  "release_node n p = p\<lparr>
     pb_order_nodes := (pb_order_nodes p)[n := (pb_order_nodes p ! n)\<lparr>on_active := False,
       on_previous := kNoIndex, on_next := pb_free_head p\<rparr>],
     pb_free_head := n\<rparr>"

definition append_order :: "level_node \<Rightarrow> order_node list \<Rightarrow> nat \<Rightarrow> level_node \<times> order_node list" where
  "append_order level nodes n =
     (let nodes = nodes[n := (nodes ! n)\<lparr>on_previous := ln_tail level, on_next := kNoIndex\<rparr>];
          (level, nodes) =
            (if ln_tail level \<noteq> kNoIndex
             then (level, nodes[ln_tail level := (nodes ! ln_tail level)\<lparr>on_next := n\<rparr>])
             else (level\<lparr>ln_head := n\<rparr>, nodes))
      in (level\<lparr>ln_tail := n,
            ln_total_quantity := ln_total_quantity level + o_quantity (on_order (nodes ! n)),
            ln_order_count := ln_order_count level + 1\<rparr>, nodes))"

definition unlink_order :: "level_node \<Rightarrow> order_node list \<Rightarrow> nat \<Rightarrow> level_node \<times> order_node list" where
  "unlink_order level nodes n =
     (let (level, nodes) =
            (let previous = on_previous (nodes ! n) in
             if previous \<noteq> kNoIndex
             then (level, nodes[previous := (nodes ! previous)\<lparr>on_next := on_next (nodes ! n)\<rparr>])
             else (level\<lparr>ln_head := on_next (nodes ! n)\<rparr>, nodes));
          (level, nodes) =
            (let nxt = on_next (nodes ! n) in
             if nxt \<noteq> kNoIndex
             then (level, nodes[nxt := (nodes ! nxt)\<lparr>on_previous := on_previous (nodes ! n)\<rparr>])
             else (level\<lparr>ln_tail := on_previous (nodes ! n)\<rparr>, nodes))
      in (level\<lparr>ln_order_count := ln_order_count level - 1\<rparr>, nodes))"

section \<open>Level vectors\<close>

text \<open>\<^verbatim>\<open>std::find_if\<close>, as a position (the length of the vector for \<^verbatim>\<open>end\<close>).\<close>

definition find_index :: "('a \<Rightarrow> bool) \<Rightarrow> 'a list \<Rightarrow> nat" where
  "find_index P xs = length (takeWhile (\<lambda>x. \<not> P x) xs)"

definition new_level :: "price_ticks \<Rightarrow> level_node" where
  "new_level price = \<lparr>ln_price_ticks = price, ln_total_quantity = 0, ln_head = kNoIndex,
     ln_tail = kNoIndex, ln_order_count = 0\<rparr>"

text \<open>The pointer to a level is its position; insertion may shift the levels behind it.\<close>

definition mutable_bid_level :: "level_node list \<Rightarrow> price_ticks \<Rightarrow> level_node list \<times> nat" where
  "mutable_bid_level ls price =
     (let it = find_index (\<lambda>l. ln_price_ticks l \<le> price) ls
      in if it < length ls \<and> ln_price_ticks (ls ! it) = price then (ls, it)
         else (take it ls @ new_level price # drop it ls, it))"

definition mutable_ask_level :: "level_node list \<Rightarrow> price_ticks \<Rightarrow> level_node list \<times> nat" where
  "mutable_ask_level ls price =
     (let it = find_index (\<lambda>l. ln_price_ticks l \<ge> price) ls
      in if it < length ls \<and> ln_price_ticks (ls ! it) = price then (ls, it)
         else (take it ls @ new_level price # drop it ls, it))"

definition pb_mutable_level :: "side \<Rightarrow> price_ticks \<Rightarrow> pooled_book \<Rightarrow> (pooled_book \<times> nat) option" where
  "pb_mutable_level sd price p =
     (if sd = Buy then (let (ls, k) = mutable_bid_level (pb_bids p) price in Some (p\<lparr>pb_bids := ls\<rparr>, k))
      else if sd = Sell then (let (ls, k) = mutable_ask_level (pb_asks p) price in Some (p\<lparr>pb_asks := ls\<rparr>, k))
      else None)"

definition find_level :: "level_node list \<Rightarrow> price_ticks \<Rightarrow> level_node option" where
  "find_level ls price =
     (let it = find_index (\<lambda>l. ln_price_ticks l = price) ls
      in if it = length ls then None else Some (ls ! it))"

definition pb_level :: "side \<Rightarrow> price_ticks \<Rightarrow> pooled_book \<Rightarrow> level_node option" where
  "pb_level sd price p =
     (if sd = Buy then find_level (pb_bids p) price
      else if sd = Sell then find_level (pb_asks p) price
      else None)"

definition pb_erase_level_if_empty :: "side \<Rightarrow> price_ticks \<Rightarrow> pooled_book \<Rightarrow> pooled_book" where
  "pb_erase_level_if_empty sd price p =
     (if is_valid_side sd
      then (let ls = pb_levels sd p; it = find_index (\<lambda>l. ln_price_ticks l = price) ls
            in if it < length ls \<and> ln_order_count (ls ! it) = 0
               then pb_set_levels sd (take it ls @ drop (Suc it) ls) p else p)
      else p)"

text \<open>Running a queue routine on the level at position \<open>k\<close> of a side, in place.\<close>

definition pb_at_level ::
  "(level_node \<Rightarrow> order_node list \<Rightarrow> level_node \<times> order_node list) \<Rightarrow> side \<Rightarrow> nat \<Rightarrow> pooled_book \<Rightarrow> pooled_book" where
  "pb_at_level f sd k p =
     (let (level, nodes) = f (pb_levels sd p ! k) (pb_order_nodes p)
      in pb_set_levels sd ((pb_levels sd p)[k := level]) (p\<lparr>pb_order_nodes := nodes\<rparr>))"

section \<open>Operations\<close>

text \<open>\<open>None\<close> stands for an insertion into the index that does not return.\<close>

definition pb_add_order :: "order \<Rightarrow> pooled_book \<Rightarrow> (bool \<times> pooled_book) option" where
  "pb_add_order x p =
     (if \<not> is_valid_resting_order x \<or> o_symbol_id x \<noteq> pb_symbol_id p then Some (False, p)
      else if fi_find (o_order_id x) (pb_order_index p) \<noteq> None then Some (False, p)
      else case pb_mutable_level (o_side x) (o_price_ticks x) p of
        None \<Rightarrow> Some (False, p)
      | Some (p, k) \<Rightarrow>
          (let (n, p) = acquire_node x p;
               p = pb_at_level (\<lambda>level nodes. append_order level nodes n) (o_side x) k p
           in case fi_insert (o_order_id x) n (pb_order_index p) of
                None \<Rightarrow> None
              | Some (inserted, index) \<Rightarrow>
                  let p = p\<lparr>pb_order_index := index\<rparr>
                  in if inserted then Some (True, p)
                     else (let p = pb_at_level (\<lambda>level nodes. unlink_order level nodes n) (o_side x) k p;
                               p = release_node n p
                           in Some (False, pb_erase_level_if_empty (o_side x) (o_price_ticks x) p))))"

definition pb_cancel_order :: "order_id \<Rightarrow> pooled_book \<Rightarrow> bool \<times> pooled_book" where
  "pb_cancel_order i p = (case fi_find i (pb_order_index p) of
      None \<Rightarrow> (False, p)
    | Some n \<Rightarrow>
        (let x = on_order (pb_order_nodes p ! n)
         in case pb_mutable_level (o_side x) (o_price_ticks x) p of
              None \<Rightarrow> (False, p)
            | Some (p, k) \<Rightarrow>
                let p = pb_at_level (\<lambda>level nodes. unlink_order
                          (level\<lparr>ln_total_quantity := ln_total_quantity level - o_quantity x\<rparr>) nodes n)
                          (o_side x) k p;
                    p = p\<lparr>pb_order_index := snd (fi_erase i (pb_order_index p))\<rparr>;
                    p = release_node n p
                in (True, pb_erase_level_if_empty (o_side x) (o_price_ticks x) p)))"

definition pb_reduce_order :: "order_id \<Rightarrow> quantity \<Rightarrow> pooled_book \<Rightarrow> bool \<times> pooled_book" where
  "pb_reduce_order i q p =
     (if q \<le> 0 then (False, p)
      else case fi_find i (pb_order_index p) of
        None \<Rightarrow> (False, p)
      | Some n \<Rightarrow>
          (let x = on_order (pb_order_nodes p ! n)
           in if q \<ge> o_quantity x then pb_cancel_order i p
              else case pb_mutable_level (o_side x) (o_price_ticks x) p of
                None \<Rightarrow> (False, p)
              | Some (p, k) \<Rightarrow> (True, pb_at_level (\<lambda>level nodes.
                  (level\<lparr>ln_total_quantity := ln_total_quantity level - q\<rparr>,
                   nodes[n := (nodes ! n)\<lparr>on_order := (on_order (nodes ! n))
                     \<lparr>o_quantity := o_quantity (on_order (nodes ! n)) - q\<rparr>\<rparr>])) (o_side x) k p)))"

definition pb_find_order :: "order_id \<Rightarrow> pooled_book \<Rightarrow> order option" where
  "pb_find_order i p = (case fi_find i (pb_order_index p) of
      None \<Rightarrow> None
    | Some n \<Rightarrow> if on_active (pb_order_nodes p ! n) then Some (on_order (pb_order_nodes p ! n)) else None)"

definition pb_replace_order ::
  "order_id \<Rightarrow> price_ticks \<Rightarrow> quantity \<Rightarrow> timestamp_ns \<Rightarrow> sequence_number \<Rightarrow> pooled_book \<Rightarrow>
   (bool \<times> pooled_book) option" where
  "pb_replace_order i price q ts sq p =
     (if price \<le> 0 \<or> q \<le> 0 then Some (False, p)
      else case pb_find_order i p of
        None \<Rightarrow> Some (False, p)
      | Some existing \<Rightarrow>
          let replacement = existing\<lparr>o_price_ticks := price, o_quantity := q,
                o_timestamp_ns := ts, o_sequence_number := sq\<rparr>;
              (cancelled, p) = pb_cancel_order i p
          in if \<not> cancelled then Some (False, p) else pb_add_order replacement p)"

definition pb_best_order :: "side \<Rightarrow> pooled_book \<Rightarrow> order option" where
  "pb_best_order sd p = (case pb_levels sd p of
      [] \<Rightarrow> None
    | l # _ \<Rightarrow> Some (on_order (pb_order_nodes p ! ln_head l)))"

definition pb_best_bid :: "pooled_book \<Rightarrow> price_ticks option" where
  "pb_best_bid p = (case pb_bids p of [] \<Rightarrow> None | l # _ \<Rightarrow> Some (ln_price_ticks l))"

definition pb_best_ask :: "pooled_book \<Rightarrow> price_ticks option" where
  "pb_best_ask p = (case pb_asks p of [] \<Rightarrow> None | l # _ \<Rightarrow> Some (ln_price_ticks l))"

definition pb_total_quantity_at :: "side \<Rightarrow> price_ticks \<Rightarrow> pooled_book \<Rightarrow> quantity" where
  "pb_total_quantity_at sd price p =
     (case pb_level sd price p of None \<Rightarrow> 0 | Some l \<Rightarrow> ln_total_quantity l)"

fun pb_fill_side :: "nat \<Rightarrow> l2_level list \<Rightarrow> level_node list \<Rightarrow> l2_level list" where
  "pb_fill_side depth acc [] = acc"
| "pb_fill_side depth acc (l # ls) =
     (if length acc \<ge> depth then acc
      else pb_fill_side depth
             (acc @ [\<lparr>l2_price_ticks = ln_price_ticks l, l2_quantity = ln_total_quantity l\<rparr>]) ls)"

definition pb_l2_view :: "nat \<Rightarrow> pooled_book \<Rightarrow> l2_view" where
  "pb_l2_view depth p =
     (if depth = 0 then \<lparr>l2_symbol_id = pb_symbol_id p, l2_bids = [], l2_asks = []\<rparr>
      else \<lparr>l2_symbol_id = pb_symbol_id p,
            l2_bids = pb_fill_side depth [] (pb_bids p), l2_asks = pb_fill_side depth [] (pb_asks p)\<rparr>)"

text \<open>
  \<^verbatim>\<open>while (node_index != kNoIndex)\<close>: the loop over a queue. It reads links and never writes
  them, so it visits each slot at most once or never ends; the bound is the number of slots.
\<close>

fun checksum_queue :: "order_node list \<Rightarrow> nat \<Rightarrow> nat \<Rightarrow> u64 \<Rightarrow> u64 option" where
  "checksum_queue nodes 0 n seed = (if n = kNoIndex then Some seed else None)"
| "checksum_queue nodes (Suc left) n seed =
     (if n = kNoIndex then Some seed
      else checksum_queue nodes left (on_next (nodes ! n)) (checksum_order seed (on_order (nodes ! n))))"

fun checksum_level_nodes :: "order_node list \<Rightarrow> level_node list \<Rightarrow> u64 \<Rightarrow> u64 option" where
  "checksum_level_nodes nodes [] seed = Some seed"
| "checksum_level_nodes nodes (l # ls) seed =
     (let seed = checksum_append_i64 seed (ln_price_ticks l);
          seed = checksum_append_i64 seed (ln_total_quantity l);
          seed = checksum_append_size seed (ln_order_count l)
      in Option.bind (checksum_queue nodes (length nodes) (ln_head l) seed) (checksum_level_nodes nodes ls))"

definition pb_checksum_levels :: "order_node list \<Rightarrow> side \<Rightarrow> level_node list \<Rightarrow> u64 \<Rightarrow> u64 option" where
  "pb_checksum_levels nodes sd ls seed =
     checksum_level_nodes nodes ls (checksum_append_size (checksum_append_side seed sd) (length ls))"

definition pb_checksum :: "pooled_book \<Rightarrow> u64 option" where
  "pb_checksum p =
     Option.bind (pb_checksum_levels (pb_order_nodes p) Buy (pb_bids p)
         (checksum_append_u32 kFnvOffsetBasis (pb_symbol_id p)))
       (pb_checksum_levels (pb_order_nodes p) Sell (pb_asks p))"

definition pb_reserve_order_capacity :: "nat \<Rightarrow> pooled_book \<Rightarrow> pooled_book option" where
  "pb_reserve_order_capacity order_count p =
     (case fi_reserve order_count (pb_order_index p) of
        None \<Rightarrow> None | Some index \<Rightarrow> Some (p\<lparr>pb_order_index := index\<rparr>))"

text \<open>Drives the operations; an operation that would not return leaves the book alone.\<close>

fun pb_step :: "book_op \<Rightarrow> pooled_book \<Rightarrow> bool \<times> pooled_book" where
  "pb_step (Op_Add x) p = (case pb_add_order x p of None \<Rightarrow> (False, p) | Some r \<Rightarrow> r)"
| "pb_step (Op_Cancel i) p = pb_cancel_order i p"
| "pb_step (Op_Reduce i q) p = pb_reduce_order i q p"
| "pb_step (Op_Replace i price q ts sq) p =
     (case pb_replace_order i price q ts sq p of None \<Rightarrow> (False, p) | Some r \<Rightarrow> r)"
| "pb_step Op_Clear p = (True, pb_clear p)"

end
