(* ===== verification/Pooled_Links.thy ===== *)
theory Pooled_Links
  imports Pooled_Order_Book
begin

text \<open>
  The linked queues of the pooled book: what it means for a level node to represent a queue of
  slots, and what appending, unlinking and rewriting one slot do to it. The free list is the
  analogous singly linked chain.
\<close>

abbreviation slot_order :: "order_node list \<Rightarrow> nat \<Rightarrow> order" where
  "slot_order nodes n \<equiv> on_order (nodes ! n)"

section \<open>Segments\<close>

text \<open>
  \<open>seg nodes prev cur q e\<close>: following \<open>on_next\<close> from \<open>cur\<close> visits exactly the active slots
  \<open>q\<close> and then stands at \<open>e\<close>; the back links lead to \<open>prev\<close>.
\<close>

fun seg :: "order_node list \<Rightarrow> nat \<Rightarrow> nat \<Rightarrow> nat list \<Rightarrow> nat \<Rightarrow> bool" where
  "seg nodes prev cur [] e \<longleftrightarrow> cur = e"
| "seg nodes prev cur (i # q) e \<longleftrightarrow> cur = i \<and> i < length nodes \<and> on_active (nodes ! i) \<and>
     on_previous (nodes ! i) = prev \<and> seg nodes i (on_next (nodes ! i)) q e"

definition lastq :: "nat \<Rightarrow> nat list \<Rightarrow> nat" where
  "lastq prev q = (if q = [] then prev else last q)"

definition hdq :: "nat list \<Rightarrow> nat \<Rightarrow> nat" where
  "hdq q e = (if q = [] then e else hd q)"

lemma hdq_simps [simp]: "hdq [] e = e" "hdq (i # q) e = i"
  by (simp_all add: hdq_def)

lemma lastq_simps [simp]: "lastq p [] = p" "lastq p (q @ [i]) = i" "lastq p (i # q) = lastq i q"
  by (simp_all add: lastq_def)

lemma seg_hd: "seg nodes prev cur q e \<Longrightarrow> cur = hdq q e"
  by (cases q) auto

lemma seg_append:
  "seg nodes prev cur (as @ bs) e \<longleftrightarrow>
     seg nodes prev cur as (hdq bs e) \<and> seg nodes (lastq prev as) (hdq bs e) bs e"
proof (induction as arbitrary: prev cur)
  case Nil
  then show ?case by (cases bs) auto
qed auto

lemma seg_frame:
  "seg nodes prev cur q e \<Longrightarrow> (\<And>i. i \<in> set q \<Longrightarrow> i < length nodes' \<and> nodes' ! i = nodes ! i) \<Longrightarrow>
   seg nodes' prev cur q e"
  by (induction q arbitrary: prev cur) auto

lemma seg_members: "seg nodes prev cur q e \<Longrightarrow> i \<in> set q \<Longrightarrow> i < length nodes \<and> on_active (nodes ! i)"
  by (induction q arbitrary: prev cur) auto

lemma seg_frame_set:
  assumes "seg nodes prev cur q e" and "k \<notin> set q"
  shows "seg (nodes[k := x]) prev cur q e"
proof (rule seg_frame [OF assms(1)])
  fix i
  assume "i \<in> set q"
  moreover from this assms(2) have "k \<noteq> i" by auto
  ultimately show "i < length (nodes[k := x]) \<and> nodes[k := x] ! i = nodes ! i"
    using seg_members [OF assms(1)] by simp
qed

lemma seg_set_next:
  assumes "seg nodes prev cur q e" and "distinct q" and "q \<noteq> []"
  shows "seg (nodes[last q := (nodes ! last q)\<lparr>on_next := e'\<rparr>]) prev cur q e'"
proof -
  obtain as i where q: "q = as @ [i]" using assms(3) by (cases q rule: rev_cases) auto
  from assms(1,2) show ?thesis
    unfolding q seg_append by (auto intro: seg_frame_set)
qed

lemma seg_set_prev:
  assumes "seg nodes prev cur q e" and "distinct q" and "q \<noteq> []"
  shows "seg (nodes[hd q := (nodes ! hd q)\<lparr>on_previous := prev'\<rparr>]) prev' cur q e"
proof -
  obtain i as where q: "q = i # as" using assms(3) by (cases q) auto
  from assms(1,2) show ?thesis
    unfolding q by (auto intro: seg_frame_set)
qed

section \<open>The queue of a level\<close>

fun links :: "order_node list \<Rightarrow> nat \<Rightarrow> nat \<Rightarrow> nat list" where
  "links nodes 0 n = []"
| "links nodes (Suc left) n = n # links nodes left (on_next (nodes ! n))"

definition lv_q :: "order_node list \<Rightarrow> level_node \<Rightarrow> nat list" where
  "lv_q nodes l = links nodes (ln_order_count l) (ln_head l)"

definition lvl :: "order_node list \<Rightarrow> level_node \<Rightarrow> price_ticks \<times> order list" where
  "lvl nodes l = (ln_price_ticks l, map (slot_order nodes) (lv_q nodes l))"

definition lrep :: "order_node list \<Rightarrow> level_node \<Rightarrow> nat list \<Rightarrow> bool" where
  "lrep nodes l q \<longleftrightarrow> seg nodes kNoIndex (ln_head l) q kNoIndex \<and> ln_tail l = lastq kNoIndex q \<and>
     ln_order_count l = length q \<and> ln_total_quantity l = queue_total (map (slot_order nodes) q) \<and> distinct q"

lemma seg_links: "seg nodes prev cur q e \<Longrightarrow> links nodes (length q) cur = q"
  by (induction q arbitrary: prev cur) auto

lemma lrep_q: "lrep nodes l q \<Longrightarrow> lv_q nodes l = q"
  by (auto simp: lrep_def lv_q_def seg_links)

lemma lrep_members: "lrep nodes l q \<Longrightarrow> i \<in> set q \<Longrightarrow> i < length nodes \<and> on_active (nodes ! i)"
  using seg_members by (auto simp: lrep_def)

lemma lrep_frame:
  assumes "lrep nodes l q" and "\<And>i. i \<in> set q \<Longrightarrow> i < length nodes' \<and> nodes' ! i = nodes ! i"
  shows "lrep nodes' l q" and "lv_q nodes' l = lv_q nodes l" and "lvl nodes' l = lvl nodes l"
proof -
  have "map (slot_order nodes') q = map (slot_order nodes) q" using assms(2) by simp
  moreover have "seg nodes' kNoIndex (ln_head l) q kNoIndex"
    using assms seg_frame unfolding lrep_def by blast
  ultimately show r: "lrep nodes' l q" using assms(1) unfolding lrep_def by metis
  show "lv_q nodes' l = lv_q nodes l" using lrep_q [OF r] lrep_q [OF assms(1)] by simp
  then show "lvl nodes' l = lvl nodes l"
    using assms(2) lrep_q [OF r] by (simp add: lvl_def)
qed

lemma lrep_new: "lrep nodes (new_level price) []" "lvl nodes (new_level price) = (price, [])"
  by (simp_all add: lrep_def lvl_def lv_q_def new_level_def queue_total_def)

section \<open>Queue routines\<close>

text \<open>What the queue routines leave alone: orders, activity, and every slot outside \<open>C\<close>.\<close>

definition relinked :: "nat set \<Rightarrow> order_node list \<Rightarrow> order_node list \<Rightarrow> bool" where
  "relinked C nodes nodes' \<longleftrightarrow> length nodes' = length nodes \<and>
     (\<forall>i. on_order (nodes' ! i) = on_order (nodes ! i) \<and> on_active (nodes' ! i) = on_active (nodes ! i)) \<and>
     (\<forall>i. i \<notin> C \<longrightarrow> nodes' ! i = nodes ! i)"

lemma relinked_refl [simp]: "relinked C nodes nodes"
  by (simp add: relinked_def)

lemma relinked_set [intro]:
  assumes "relinked C nodes nodes'" and "i \<in> C" and "on_order e = on_order (nodes' ! i)"
    and "on_active e = on_active (nodes' ! i)"
  shows "relinked C nodes (nodes'[i := e])"
proof -
  have "nodes'[i := e] ! j = (if j = i \<and> i < length nodes' then e else nodes' ! j)" for j
    by (cases "i < length nodes'") (auto simp: nth_list_update list_update_beyond)
  then show ?thesis using assms by (simp add: relinked_def)
qed

lemma relinked_map: "relinked C nodes nodes' \<Longrightarrow> map (slot_order nodes') q = map (slot_order nodes) q"
  by (simp add: relinked_def)

lemma below_sentinel: "length nodes \<le> kMaxSlots \<Longrightarrow> i < length nodes \<Longrightarrow> i \<noteq> kNoIndex"
  by (simp add: kMaxSlots_def kNoIndex_def)

lemma append_order_rep:
  assumes "lrep nodes l q" and "length nodes \<le> kMaxSlots" and "n < length nodes"
    and "n \<notin> set q" and "on_active (nodes ! n)" and "append_order l nodes n = (l', nodes')"
  shows "lrep nodes' l' (q @ [n]) \<and> ln_price_ticks l' = ln_price_ticks l \<and>
    relinked (insert n (set q)) nodes nodes'"
proof -
  let ?n1 = "nodes[n := (nodes ! n)\<lparr>on_previous := ln_tail l, on_next := kNoIndex\<rparr>]"
  have s1: "seg ?n1 kNoIndex (ln_head l) q kNoIndex"
    using assms(1,4) unfolding lrep_def by (auto intro: seg_frame_set)
  have rel1: "relinked (insert n (set q)) nodes ?n1" by (rule relinked_set) auto
  show ?thesis
  proof (cases "q = []")
    case True
    with assms(1) have l: "ln_tail l = kNoIndex" "ln_order_count l = 0" "ln_total_quantity l = 0"
      by (simp_all add: lrep_def queue_total_def)
    then have eq: "nodes' = ?n1" "l' = l\<lparr>ln_head := n, ln_tail := n,
        ln_total_quantity := o_quantity (slot_order nodes n), ln_order_count := 1\<rparr>"
      using assms(3,6) by (simp_all add: append_order_def)
    show ?thesis using True assms(3,5) rel1 l unfolding eq
      by (simp add: lrep_def queue_total_def)
  next
    case False
    then have last: "last q \<in> set q" and tail: "ln_tail l = last q"
      using assms(1) by (auto simp: lrep_def lastq_def)
    have ne: "last q < length nodes" "last q \<noteq> kNoIndex" "last q \<noteq> n"
      using lrep_members [OF assms(1) last] assms(2,4) last by (auto dest: below_sentinel)
    let ?n2 = "?n1[last q := (?n1 ! last q)\<lparr>on_next := n\<rparr>]"
    have eq: "nodes' = ?n2" "l' = l\<lparr>ln_tail := n,
        ln_total_quantity := ln_total_quantity l + o_quantity (slot_order nodes n),
        ln_order_count := ln_order_count l + 1\<rparr>"
      using assms(3,6) ne tail by (auto simp: append_order_def Let_def)
    have rel: "relinked (insert n (set q)) nodes ?n2" using rel1 last by (intro relinked_set) auto
    have "seg ?n2 kNoIndex (ln_head l) q n"
      using s1 assms(1) False by (intro seg_set_next) (auto simp: lrep_def)
    moreover have "seg ?n2 (last q) n [n] kNoIndex" using assms(3,5) ne tail by simp
    ultimately have "seg ?n2 kNoIndex (ln_head l) (q @ [n]) kNoIndex"
      unfolding seg_append using False by (simp add: lastq_def)
    then show ?thesis
      using assms(1,4) rel relinked_map [OF rel] unfolding eq
      by (simp add: lrep_def queue_total_def) (simp add: relinked_def)
  qed
qed

lemma unlink_order_rep:
  assumes "lrep nodes l (as @ n # bs)" and "length nodes \<le> kMaxSlots"
    and "unlink_order (l\<lparr>ln_total_quantity := ln_total_quantity l - o_quantity (slot_order nodes n)\<rparr>) nodes n
      = (l', nodes')"
  shows "lrep nodes' l' (as @ bs) \<and> ln_price_ticks l' = ln_price_ticks l \<and>
    relinked (set (as @ bs)) nodes nodes'"
proof -
  have dist: "distinct (as @ n # bs)" using assms(1) by (simp add: lrep_def)
  have mem: "i < length nodes \<and> i \<noteq> kNoIndex" if "i \<in> set (as @ n # bs)" for i
    using lrep_members [OF assms(1) that] assms(2) below_sentinel by blast
  have as: "seg nodes kNoIndex (ln_head l) as n" and n: "n < length nodes" "on_active (nodes ! n)"
    "on_previous (nodes ! n) = lastq kNoIndex as"
    and bs: "seg nodes n (on_next (nodes ! n)) bs kNoIndex"
    using assms(1) by (simp_all add: lrep_def seg_append)
  have nxt: "on_next (nodes ! n) = hdq bs kNoIndex" using bs by (rule seg_hd)
  define n1 where "n1 = (if as = [] then nodes
    else nodes[last as := (nodes ! last as)\<lparr>on_next := hdq bs kNoIndex\<rparr>])"
  define n2 where "n2 = (if bs = [] then n1
    else n1[hd bs := (n1 ! hd bs)\<lparr>on_previous := lastq kNoIndex as\<rparr>])"
  have "last as \<noteq> n" if "as \<noteq> []" using dist last_in_set [OF that] by auto
  then have n1n: "n1 ! n = nodes ! n" by (simp add: n1_def)
  have rel1: "relinked (set (as @ bs)) nodes n1" unfolding n1_def by auto
  then have rel: "relinked (set (as @ bs)) nodes n2" unfolding n2_def by auto
  let ?l0 = "l\<lparr>ln_total_quantity := ln_total_quantity l - o_quantity (slot_order nodes n)\<rparr>"
  let ?l1 = "if as = [] then ?l0\<lparr>ln_head := hdq bs kNoIndex\<rparr> else ?l0"
  let ?l2 = "if bs = [] then ?l1\<lparr>ln_tail := lastq kNoIndex as\<rparr> else ?l1"
  have prev: "lastq kNoIndex as \<noteq> kNoIndex \<longleftrightarrow> as \<noteq> []" using mem [of "last as"] by (auto simp: lastq_def)
  have succ: "hdq bs kNoIndex \<noteq> kNoIndex \<longleftrightarrow> bs \<noteq> []" using mem [of "hd bs"] by (auto simp: hdq_def)
  have first: "(if on_previous (nodes ! n) \<noteq> kNoIndex
      then (?l0, nodes[on_previous (nodes ! n) := (nodes ! on_previous (nodes ! n))\<lparr>on_next := on_next (nodes ! n)\<rparr>])
      else (?l0\<lparr>ln_head := on_next (nodes ! n)\<rparr>, nodes)) = (?l1, n1)"
    unfolding n(3) nxt prev n1_def by (simp add: lastq_def)
  have second: "(if on_next (n1 ! n) \<noteq> kNoIndex
      then (?l1, n1[on_next (n1 ! n) := (n1 ! on_next (n1 ! n))\<lparr>on_previous := on_previous (n1 ! n)\<rparr>])
      else (?l1\<lparr>ln_tail := on_previous (n1 ! n)\<rparr>, n1)) = (?l2, n2)"
    unfolding n1n n(3) nxt succ n2_def by (simp add: hdq_def)
  have "(l', nodes') = (?l2\<lparr>ln_order_count := ln_order_count ?l2 - 1\<rparr>, n2)"
    unfolding assms(3) [symmetric] unlink_order_def Let_def first split second ..
  then have eq: "nodes' = n2" "ln_head l' = (if as = [] then hdq bs kNoIndex else ln_head l)"
    "ln_tail l' = (if bs = [] then lastq kNoIndex as else ln_tail l)"
    "ln_total_quantity l' = ln_total_quantity l - o_quantity (slot_order nodes n)"
    "ln_order_count l' = ln_order_count l - 1" "ln_price_ticks l' = ln_price_ticks l" by simp_all
  have as1: "seg n1 kNoIndex (if as = [] then hdq bs kNoIndex else ln_head l) as (hdq bs kNoIndex)"
  proof (cases "as = []")
    case False
    then show ?thesis using seg_set_next [OF as _ False] dist by (simp add: n1_def)
  qed simp
  have bs1: "seg n1 n (hdq bs kNoIndex) bs kNoIndex"
    using bs dist unfolding nxt n1_def by (auto intro!: seg_frame_set dest: last_in_set)
  have "seg n2 kNoIndex (if as = [] then hdq bs kNoIndex else ln_head l) as (hdq bs kNoIndex)"
    using as1 dist unfolding n2_def by (auto intro!: seg_frame_set dest: hd_in_set)
  moreover have "seg n2 (lastq kNoIndex as) (hdq bs kNoIndex) bs kNoIndex"
  proof (cases "bs = []")
    case False
    then show ?thesis using seg_set_prev [OF bs1 _ False] dist by (simp add: n2_def)
  qed simp
  ultimately have "seg n2 kNoIndex (if as = [] then hdq bs kNoIndex else ln_head l) (as @ bs) kNoIndex"
    unfolding seg_append ..
  moreover have "(if bs = [] then lastq kNoIndex as else ln_tail l) = lastq kNoIndex (as @ bs)"
    using assms(1) by (simp add: lrep_def lastq_def)
  moreover have "queue_total (map (slot_order n2) (as @ bs)) =
      ln_total_quantity l - o_quantity (slot_order nodes n)"
    using assms(1) unfolding relinked_map [OF rel] by (simp add: lrep_def queue_total_def)
  ultimately show ?thesis
    using assms(1) rel dist unfolding eq(1) by (simp add: lrep_def eq(2-))
qed

section \<open>The free list\<close>

fun free_chain :: "order_node list \<Rightarrow> nat \<Rightarrow> nat list \<Rightarrow> bool" where
  "free_chain nodes cur [] \<longleftrightarrow> cur = kNoIndex"
| "free_chain nodes cur (i # fl) \<longleftrightarrow> cur = i \<and> i < length nodes \<and> \<not> on_active (nodes ! i) \<and>
     free_chain nodes (on_next (nodes ! i)) fl"

lemma free_chain_frame:
  "free_chain nodes cur fl \<Longrightarrow> (\<And>i. i \<in> set fl \<Longrightarrow> i < length nodes' \<and> nodes' ! i = nodes ! i) \<Longrightarrow>
   free_chain nodes' cur fl"
  by (induction fl arbitrary: cur) auto

lemma free_chain_members: "free_chain nodes cur fl \<Longrightarrow> i \<in> set fl \<Longrightarrow> i < length nodes \<and> \<not> on_active (nodes ! i)"
  by (induction fl arbitrary: cur) auto

lemma free_chain_set: "free_chain nodes cur fl \<Longrightarrow> k \<notin> set fl \<Longrightarrow> free_chain (nodes[k := x]) cur fl"
  by (induction fl arbitrary: cur) auto

end
