(* ===== verification/Pooled_Shape.thy ===== *)
theory Pooled_Shape
  imports Pooled_Links
begin

text \<open>
  The shape of the pooled book: sorted level vectors whose queues partition the active slots by
  side and price, and a free list of inactive slots. Each private routine of
  \<^verbatim>\<open>PooledOrderBook\<close> is shown to keep the shape, with its effect on the levels as a
  list of priced queues (\<open>pb_view\<close>).
\<close>

section \<open>Shape\<close>

definition side_shape :: "order_node list \<Rightarrow> side \<Rightarrow> level_node list \<Rightarrow> bool" where
  "side_shape nodes sd ls \<longleftrightarrow> sorted_wrt (better sd) (map ln_price_ticks ls) \<and>
     (\<forall>l \<in> set ls. lrep nodes l (lv_q nodes l) \<and> (\<forall>n \<in> set (lv_q nodes l).
        o_side (slot_order nodes n) = sd \<and> o_price_ticks (slot_order nodes n) = ln_price_ticks l))"

definition pb_shape :: "pooled_book \<Rightarrow> bool" where
  "pb_shape p \<longleftrightarrow> length (pb_order_nodes p) \<le> kMaxSlots \<and>
     (\<forall>sd. side_shape (pb_order_nodes p) sd (pb_levels sd p)) \<and>
     (\<exists>fl. free_chain (pb_order_nodes p) (pb_free_head p) fl \<and> distinct fl)"

definition active :: "pooled_book \<Rightarrow> nat \<Rightarrow> bool" where
  "active p n \<longleftrightarrow> n < length (pb_order_nodes p) \<and> on_active (pb_order_nodes p ! n)"

definition placed :: "nat set \<Rightarrow> pooled_book \<Rightarrow> bool" where
  "placed X p \<longleftrightarrow> (\<forall>n. active p n \<longrightarrow> n \<notin> X \<longrightarrow>
     (\<exists>l \<in> set (pb_levels (o_side (slot_order (pb_order_nodes p) n)) p). n \<in> set (lv_q (pb_order_nodes p) l)))"

definition pb_view :: "side \<Rightarrow> pooled_book \<Rightarrow> levels" where
  "pb_view sd p = map (lvl (pb_order_nodes p)) (pb_levels sd p)"

definition pb_ladder :: "pooled_book \<Rightarrow> ladder" where
  "pb_ladder p = \<lparr>ld_symbol = pb_symbol_id p, ld_bids = pb_view Buy p, ld_asks = pb_view Sell p\<rparr>"

lemma pb_ladder_levels [ladder_simps]:
  "ld_levels sd (pb_ladder p) = pb_view sd p" "ld_symbol (pb_ladder p) = pb_symbol_id p"
  by (cases sd) (simp_all add: ld_levels_def pb_ladder_def pb_view_def pb_levels_def)

lemma pb_levels_set [simp]:
  "pb_levels sd' (pb_set_levels sd ls p) = (if sd = sd' \<and> is_valid_side sd then ls else pb_levels sd' p)"
  "pb_order_nodes (pb_set_levels sd ls p) = pb_order_nodes p"
  "pb_symbol_id (pb_set_levels sd ls p) = pb_symbol_id p"
  "pb_free_head (pb_set_levels sd ls p) = pb_free_head p"
  "pb_order_index (pb_set_levels sd ls p) = pb_order_index p"
  by (cases sd; cases sd'; simp add: pb_levels_def pb_set_levels_def)+

lemma pb_levels_fields [simp]:
  "pb_levels sd (p\<lparr>pb_order_nodes := ns\<rparr>) = pb_levels sd p"
  "pb_levels sd (p\<lparr>pb_free_head := n\<rparr>) = pb_levels sd p"
  "pb_levels sd (p\<lparr>pb_order_index := ix\<rparr>) = pb_levels sd p"
  by (cases sd; simp add: pb_levels_def)+

lemma view_keys [simp]: "map fst (map (lvl nodes) ls) = map ln_price_ticks ls"
  by (simp add: lvl_def o_def)

lemma side_shapeD:
  assumes "side_shape nodes sd ls" and "l \<in> set ls"
  shows "lrep nodes l (lv_q nodes l)"
    and "n \<in> set (lv_q nodes l) \<Longrightarrow> o_side (slot_order nodes n) = sd \<and>
      o_price_ticks (slot_order nodes n) = ln_price_ticks l \<and> n < length nodes \<and> on_active (nodes ! n)"
proof -
  show l: "lrep nodes l (lv_q nodes l)" using assms by (simp add: side_shape_def)
  show "o_side (slot_order nodes n) = sd \<and> o_price_ticks (slot_order nodes n) = ln_price_ticks l \<and>
      n < length nodes \<and> on_active (nodes ! n)" if "n \<in> set (lv_q nodes l)"
    using assms that lrep_members [OF l that] by (simp add: side_shape_def)
qed

lemma side_shape_distinct: "side_shape nodes sd ls \<Longrightarrow> distinct (map ln_price_ticks ls)"
  using side_order.sorted_distinct by (auto simp: side_shape_def)

lemma side_shape_unique:
  "side_shape nodes sd ls \<Longrightarrow> l \<in> set ls \<Longrightarrow> l' \<in> set ls \<Longrightarrow> ln_price_ticks l = ln_price_ticks l' \<Longrightarrow> l = l'"
  by (rule distinct_map_eq [OF side_shape_distinct])

lemma shape_side: "pb_shape p \<Longrightarrow> side_shape (pb_order_nodes p) sd (pb_levels sd p)"
  by (simp add: pb_shape_def)

lemma shared_slot:
  assumes "pb_shape p" and "l \<in> set (pb_levels sd p)" and "l' \<in> set (pb_levels sd' p)"
    and "n \<in> set (lv_q (pb_order_nodes p) l)" and "n \<in> set (lv_q (pb_order_nodes p) l')"
  shows "sd = sd' \<and> l = l'"
  using side_shapeD(2) [OF shape_side [OF assms(1)] assms(2,4)]
    side_shapeD(2) [OF shape_side [OF assms(1)] assms(3,5)]
    side_shape_unique [OF shape_side [OF assms(1)], of l sd l'] assms(2,3) by auto

lemma side_shape_frame:
  assumes "side_shape nodes sd ls"
    and "\<forall>l \<in> set ls. \<forall>n \<in> set (lv_q nodes l). n < length nodes' \<and> nodes' ! n = nodes ! n"
  shows "side_shape nodes' sd ls" and "map (lvl nodes') ls = map (lvl nodes) ls"
    and "l \<in> set ls \<Longrightarrow> lv_q nodes' l = lv_q nodes l"
proof -
  have fr: "lrep nodes' l (lv_q nodes l)" "lv_q nodes' l = lv_q nodes l" "lvl nodes' l = lvl nodes l"
    if "l \<in> set ls" for l
    using lrep_frame [OF side_shapeD(1) [OF assms(1) that]] assms(2) that by blast+
  show "map (lvl nodes') ls = map (lvl nodes) ls" using fr(3) by simp
  show "l \<in> set ls \<Longrightarrow> lv_q nodes' l = lv_q nodes l" by (rule fr(2))
  show "side_shape nodes' sd ls"
    using assms fr(1,2) by (simp add: side_shape_def)
qed

lemma placed_transfer:
  assumes "placed X p"
    and "\<And>i. active p' i \<Longrightarrow> i \<notin> Y \<Longrightarrow> active p i \<and> i \<notin> X \<and>
      slot_order (pb_order_nodes p') i = slot_order (pb_order_nodes p) i"
    and "\<And>sd l. l \<in> set (pb_levels sd p) \<Longrightarrow> l \<in> set (pb_levels sd p') \<and>
      lv_q (pb_order_nodes p') l = lv_q (pb_order_nodes p) l"
  shows "placed Y p'"
  unfolding placed_def
proof (intro allI impI)
  fix i
  assume i: "active p' i" "i \<notin> Y"
  with assms(1,2) obtain l where l: "l \<in> set (pb_levels (o_side (slot_order (pb_order_nodes p) i)) p)"
      "i \<in> set (lv_q (pb_order_nodes p) l)" by (auto simp: placed_def)
  with assms(2) [OF i] assms(3) [OF l(1)]
  show "\<exists>l \<in> set (pb_levels (o_side (slot_order (pb_order_nodes p') i)) p').
      i \<in> set (lv_q (pb_order_nodes p') l)" by (intro bexI [of _ l]) auto
qed

section \<open>Rewriting one level\<close>

text \<open>What every rewrite of the nodes of a level leaves alone.\<close>

definition stays :: "nat set \<Rightarrow> order_node list \<Rightarrow> order_node list \<Rightarrow> bool" where
  "stays C nodes nodes' \<longleftrightarrow> length nodes' = length nodes \<and>
     (\<forall>i. on_active (nodes' ! i) = on_active (nodes ! i) \<and>
        o_side (slot_order nodes' i) = o_side (slot_order nodes i) \<and>
        o_price_ticks (slot_order nodes' i) = o_price_ticks (slot_order nodes i)) \<and>
     (\<forall>i. i \<notin> C \<longrightarrow> nodes' ! i = nodes ! i)"

lemma relinked_stays: "relinked C nodes nodes' \<Longrightarrow> C \<subseteq> D \<Longrightarrow> stays D nodes nodes'"
  by (auto simp: relinked_def stays_def)

lemma at_level_shape:
  assumes shape: "pb_shape p" and sd: "is_valid_side sd" and k: "k < length (pb_levels sd p)"
    and f: "f (pb_levels sd p ! k) (pb_order_nodes p) = (l', nodes')"
    and rep: "lrep nodes' l' q'" and price: "ln_price_ticks l' = ln_price_ticks (pb_levels sd p ! k)"
    and st: "stays (insert n (set (lv_q (pb_order_nodes p) (pb_levels sd p ! k)))) (pb_order_nodes p) nodes'"
    and q': "set q' \<subseteq> insert n (set (lv_q (pb_order_nodes p) (pb_levels sd p ! k)))"
    and n: "on_active (pb_order_nodes p ! n)" "o_side (slot_order (pb_order_nodes p) n) = sd"
      "o_price_ticks (slot_order (pb_order_nodes p) n) = ln_price_ticks (pb_levels sd p ! k)"
    and only: "\<forall>sd'. \<forall>l2 \<in> set (pb_levels sd' p). n \<in> set (lv_q (pb_order_nodes p) l2) \<longrightarrow>
      n \<in> set (lv_q (pb_order_nodes p) (pb_levels sd p ! k))"
  shows "pb_shape (pb_at_level f sd k p)"
    and "pb_view sd (pb_at_level f sd k p) =
      (pb_view sd p)[k := (ln_price_ticks (pb_levels sd p ! k), map (slot_order nodes') q')]"
    and "sd' \<noteq> sd \<Longrightarrow> pb_view sd' (pb_at_level f sd k p) = pb_view sd' p"
    and "placed X p \<Longrightarrow> placed ((X \<union> insert n (set (lv_q (pb_order_nodes p) (pb_levels sd p ! k)))) - set q')
      (pb_at_level f sd k p)"
proof -
  let ?nodes = "pb_order_nodes p" and ?l = "pb_levels sd p ! k" and ?p = "pb_at_level f sd k p"
  let ?q = "lv_q ?nodes ?l" and ?C = "insert n (set (lv_q ?nodes ?l))"
  have l: "?l \<in> set (pb_levels sd p)" using k by simp
  have p': "pb_order_nodes ?p = nodes'" "pb_levels sd ?p = (pb_levels sd p)[k := l']"
    "\<And>sd'. sd' \<noteq> sd \<Longrightarrow> pb_levels sd' ?p = pb_levels sd' p" "pb_free_head ?p = pb_free_head p"
    using f sd by (simp_all add: pb_at_level_def)
  have frame: "i < length nodes' \<and> nodes' ! i = ?nodes ! i"
    if "l2 \<in> set (pb_levels sd2 p)" "sd2 \<noteq> sd \<or> l2 \<noteq> ?l" "i \<in> set (lv_q ?nodes l2)" for l2 sd2 i
  proof -
    have "i \<notin> ?C"
      using shared_slot [OF shape that(1) l that(3)] that only by auto
    moreover have "i < length ?nodes" using side_shapeD(2) [OF shape_side [OF shape] that(1,3)] by simp
    ultimately show ?thesis using st by (simp add: stays_def)
  qed
  have dist: "distinct (map ln_price_ticks (pb_levels sd p))"
    using shape_side [OF shape] by (rule side_shape_distinct)
  have other: "pb_levels sd p ! j \<noteq> ?l" if "j < length (pb_levels sd p)" "j \<noteq> k" for j
    using dist that k by (metis length_map nth_eq_iff_index_eq nth_map)
  have fr: "lrep nodes' l2 (lv_q ?nodes l2)" "lv_q nodes' l2 = lv_q ?nodes l2" "lvl nodes' l2 = lvl ?nodes l2"
    if "l2 \<in> set (pb_levels sd2 p)" "sd2 \<noteq> sd \<or> l2 \<noteq> ?l" for l2 sd2
    using lrep_frame [OF side_shapeD(1) [OF shape_side [OF shape] that(1)]] frame [OF that] by blast+
  have q'_eq: "lv_q nodes' l' = q'" using rep by (rule lrep_q)
  have orders: "o_side (slot_order nodes' i) = o_side (slot_order ?nodes i)"
    "o_price_ticks (slot_order nodes' i) = o_price_ticks (slot_order ?nodes i)" for i
    using st by (simp_all add: stays_def)
  have q'_order: "o_side (slot_order nodes' i) = sd \<and> o_price_ticks (slot_order nodes' i) = ln_price_ticks l'"
    if "i \<in> set q'" for i
    using that q' n side_shapeD(2) [OF shape_side [OF shape] l] unfolding orders price by auto
  have mem: "l2 = l' \<or> (l2 \<in> set (pb_levels sd p) \<and> l2 \<noteq> ?l)" if "l2 \<in> set ((pb_levels sd p)[k := l'])" for l2
  proof -
    from that obtain j where j: "j < length (pb_levels sd p)" "l2 = (pb_levels sd p)[k := l'] ! j"
      by (metis in_set_conv_nth length_list_update)
    then show ?thesis using other [of j] by (cases "j = k") auto
  qed
  have ok: "side_shape nodes' sd2 (pb_levels sd2 ?p)" for sd2
  proof (cases "sd2 = sd")
    case True
    have "map ln_price_ticks ((pb_levels sd p)[k := l']) = map ln_price_ticks (pb_levels sd p)"
      by (rule nth_equalityI) (use price k in \<open>auto simp: nth_list_update\<close>)
    then have "sorted_wrt (better sd) (map ln_price_ticks ((pb_levels sd p)[k := l']))"
      using shape_side [OF shape, of sd] by (simp add: side_shape_def)
    moreover have "lrep nodes' l2 (lv_q nodes' l2) \<and> (\<forall>i \<in> set (lv_q nodes' l2).
        o_side (slot_order nodes' i) = sd \<and> o_price_ticks (slot_order nodes' i) = ln_price_ticks l2)"
      if "l2 \<in> set ((pb_levels sd p)[k := l'])" for l2
      using mem [OF that] rep q'_eq q'_order fr [of l2 sd] side_shapeD(2) [OF shape_side [OF shape], of l2 sd]
      unfolding orders by auto
    ultimately show ?thesis using True p' by (simp add: side_shape_def)
  next
    case False
    then show ?thesis
      using side_shape_frame(1) [OF shape_side [OF shape], of sd2 nodes'] frame p' by simp
  qed
  obtain fl where fl: "free_chain ?nodes (pb_free_head p) fl" "distinct fl"
    using shape by (auto simp: pb_shape_def)
  have "free_chain nodes' (pb_free_head p) fl"
  proof (rule free_chain_frame [OF fl(1)])
    fix i
    assume "i \<in> set fl"
    with free_chain_members [OF fl(1)] have i: "i < length ?nodes" "\<not> on_active (?nodes ! i)" by auto
    then have "i \<notin> ?C" using n(1) side_shapeD(2) [OF shape_side [OF shape] l, of i] by auto
    with i st show "i < length nodes' \<and> nodes' ! i = ?nodes ! i" by (simp add: stays_def)
  qed
  with ok fl(2) shape st show "pb_shape ?p" unfolding pb_shape_def p'(1,4) stays_def by auto
  show "pb_view sd ?p = (pb_view sd p)[k := (ln_price_ticks ?l, map (slot_order nodes') q')]"
  proof (rule nth_equalityI)
    fix j
    assume "j < length (pb_view sd ?p)"
    then have j: "j < length (pb_levels sd p)" by (simp add: pb_view_def p')
    show "pb_view sd ?p ! j = (pb_view sd p)[k := (ln_price_ticks ?l, map (slot_order nodes') q')] ! j"
    proof (cases "j = k")
      case True
      then show ?thesis using k by (simp add: pb_view_def p' lvl_def q'_eq price)
    next
      case False
      with j other [OF j False] fr(3) [of "pb_levels sd p ! j" sd] show ?thesis by (simp add: pb_view_def p')
    qed
  qed (simp add: pb_view_def p')
  show "sd' \<noteq> sd \<Longrightarrow> pb_view sd' ?p = pb_view sd' p"
    using fr(3) [of _ sd'] by (simp add: pb_view_def p')
  assume pl: "placed X p"
  show "placed ((X \<union> ?C) - set q') ?p"
    unfolding placed_def
  proof (intro allI impI)
    fix m
    assume m: "active ?p m" "m \<notin> (X \<union> ?C) - set q'"
    let ?sd = "o_side (slot_order ?nodes m)"
    have act: "active p m" using m(1) st by (simp add: active_def p' stays_def)
    show "\<exists>l \<in> set (pb_levels (o_side (slot_order (pb_order_nodes ?p) m)) ?p).
        m \<in> set (lv_q (pb_order_nodes ?p) l)"
    proof (cases "m \<in> set q'")
      case True
      then have "o_side (slot_order nodes' m) = sd" "l' \<in> set ((pb_levels sd p)[k := l'])"
        using q'_order k by (auto simp: set_update_memI)
      with True q'_eq show ?thesis unfolding p' by (metis p'(2))
    next
      case False
      with m(2) have "m \<notin> X" "m \<notin> ?C" by auto
      with pl act obtain l2 where l2: "l2 \<in> set (pb_levels ?sd p)" "m \<in> set (lv_q ?nodes l2)"
        by (auto simp: placed_def)
      then have ne: "?sd \<noteq> sd \<or> l2 \<noteq> ?l" using \<open>m \<notin> ?C\<close> by auto
      have "l2 \<in> set (pb_levels ?sd ?p)"
      proof (cases "?sd = sd")
        case True
        with l2(1) ne obtain j where "j < length (pb_levels sd p)" "pb_levels sd p ! j = l2" "j \<noteq> k"
          by (auto simp: in_set_conv_nth)
        then have "(pb_levels sd p)[k := l'] ! j = l2" by simp
        with True \<open>j < length (pb_levels sd p)\<close> show ?thesis
          unfolding True p' by (metis length_list_update nth_mem)
      next
        case False
        then show ?thesis using l2(1) p'(3) by simp
      qed
      then show ?thesis using fr(2) [OF l2(1) ne] l2(2) unfolding p'(1) orders
        by (intro bexI [of _ l2]) simp_all
    qed
  qed
qed

section \<open>The level vectors\<close>

lemma find_index_bound: "find_index P xs \<le> length xs"
  by (simp add: find_index_def length_takeWhile_le)

lemma find_index_end: "find_index P xs = length xs \<longleftrightarrow> (\<forall>x \<in> set xs. \<not> P x)"
  by (induction xs) (auto simp: find_index_def)

lemma try_emplace_find:
  "om_try_emplace lt k d m = (let i = length (takeWhile (\<lambda>kv. lt (fst kv) k) m)
     in if i < length m \<and> fst (m ! i) = k then m else take i m @ (k, d) # drop i m)"
  by (induction m) (auto simp: Let_def split: prod.splits)

definition mutable_levels :: "side \<Rightarrow> level_node list \<Rightarrow> price_ticks \<Rightarrow> level_node list \<times> nat" where
  "mutable_levels sd ls price = (let it = find_index (\<lambda>l. \<not> better sd (ln_price_ticks l) price) ls
     in if it < length ls \<and> ln_price_ticks (ls ! it) = price then (ls, it)
        else (take it ls @ new_level price # drop it ls, it))"

lemma pb_mutable_level_eq:
  assumes "is_valid_side sd"
  shows "pb_mutable_level sd price p = (let (ls, k) = mutable_levels sd (pb_levels sd p) price
    in Some (pb_set_levels sd ls p, k))"
  using assms
  by (cases sd) (auto simp: pb_mutable_level_def mutable_levels_def mutable_bid_level_def mutable_ask_level_def
      better_def pb_levels_def pb_set_levels_def not_less Let_def)

lemma pb_mutable_level_returns:
  "is_valid_side sd \<Longrightarrow> \<exists>p' k. pb_mutable_level sd price p = Some (p', k)"
  by (cases "mutable_levels sd (pb_levels sd p) price") (simp add: pb_mutable_level_eq)

lemma mutable_levels_effect:
  assumes "mutable_levels sd ls price = (ls', k)"
  shows "map (lvl nodes) ls' = om_try_emplace (better sd) price [] (map (lvl nodes) ls)"
    and "k < length ls'" and "ln_price_ticks (ls' ! k) = price"
    and "set ls' \<subseteq> insert (new_level price) (set ls)" and "set ls \<subseteq> set ls'"
proof -
  let ?it = "find_index (\<lambda>l. \<not> better sd (ln_price_ticks l) price) ls"
  have it: "length (takeWhile (\<lambda>kv. better sd (fst kv) price) (map (lvl nodes) ls)) = ?it"
    by (simp add: find_index_def takeWhile_map o_def lvl_def)
  have res: "(ls', k) = (if ?it < length ls \<and> ln_price_ticks (ls ! ?it) = price then (ls, ?it)
      else (take ?it ls @ new_level price # drop ?it ls, ?it))"
    using assms by (simp add: mutable_levels_def Let_def)
  have bound: "?it \<le> length ls" by (rule find_index_bound)
  show "map (lvl nodes) ls' = om_try_emplace (better sd) price [] (map (lvl nodes) ls)"
    unfolding try_emplace_find it using res lrep_new(2) [of nodes price]
    by (auto simp: Let_def take_map drop_map lvl_def split: if_splits)
  show "k < length ls'" "ln_price_ticks (ls' ! k) = price"
    using res bound by (auto simp: nth_append new_level_def split: if_splits)
  have "set (take ?it ls) \<union> set (drop ?it ls) = set ls" by (metis append_take_drop_id set_append)
  then show "set ls' \<subseteq> insert (new_level price) (set ls)" "set ls \<subseteq> set ls'"
    using res by (auto split: if_splits)
qed

lemma mutable_level_shape:
  assumes "pb_shape p" and "is_valid_side sd" and "pb_mutable_level sd price p = Some (p', k)"
  shows "pb_shape p'" and "pb_view sd p' = om_try_emplace (better sd) price [] (pb_view sd p)"
    and "sd' \<noteq> sd \<Longrightarrow> pb_view sd' p' = pb_view sd' p" and "placed X p \<Longrightarrow> placed X p'"
    and "k < length (pb_levels sd p')" and "ln_price_ticks (pb_levels sd p' ! k) = price"
    and "active p' = active p" and "pb_order_nodes p' = pb_order_nodes p"
    and "pb_free_head p' = pb_free_head p" and "pb_order_index p' = pb_order_index p"
    and "pb_symbol_id p' = pb_symbol_id p"
proof -
  obtain ls' where m: "mutable_levels sd (pb_levels sd p) price = (ls', k)" and p': "p' = pb_set_levels sd ls' p"
    using assms(2,3) by (auto simp: pb_mutable_level_eq split: prod.splits)
  note e = mutable_levels_effect [OF m]
  show view: "pb_view sd p' = om_try_emplace (better sd) price [] (pb_view sd p)"
    using e(1) assms(2) by (simp add: pb_view_def p')
  show "sd' \<noteq> sd \<Longrightarrow> pb_view sd' p' = pb_view sd' p" by (simp add: pb_view_def p')
  show "k < length (pb_levels sd p')" "ln_price_ticks (pb_levels sd p' ! k) = price"
    using e(2,3) assms(2) by (simp_all add: p')
  show nodes: "pb_order_nodes p' = pb_order_nodes p" "pb_free_head p' = pb_free_head p"
    "pb_order_index p' = pb_order_index p" "pb_symbol_id p' = pb_symbol_id p" by (simp_all add: p')
  then show "active p' = active p" by (simp add: active_def fun_eq_iff)
  have "sorted_wrt (better sd) (map fst (pb_view sd p'))"
    unfolding view using shape_side [OF assms(1), of sd]
    by (intro side_order.sorted_try_emplace) (simp add: pb_view_def side_shape_def del: map_map)
  then have "side_shape (pb_order_nodes p) sd ls'"
    using shape_side [OF assms(1), of sd] e(4) lrep_new [of "pb_order_nodes p" price] assms(2)
    by (fastforce simp: side_shape_def pb_view_def p' lrep_q simp del: map_map)
  then have "side_shape (pb_order_nodes p') sd2 (pb_levels sd2 p')" for sd2
    using shape_side [OF assms(1), of sd2] assms(2) by (auto simp: p')
  then show "pb_shape p'" using assms(1) by (simp add: pb_shape_def nodes)
  have sub: "set (pb_levels sd2 p) \<subseteq> set (pb_levels sd2 p')" for sd2
    using e(5) by (auto simp: p')
  have act: "active p' = active p" by (simp add: active_def fun_eq_iff p')
  show "placed X p \<Longrightarrow> placed X p'"
    unfolding placed_def act nodes(1) using sub by blast
qed

lemma om_erase_find:
  "om_erase k m = (let i = length (takeWhile (\<lambda>kv. fst kv \<noteq> k) m) in take i m @ drop (Suc i) m)"
  by (induction m) (auto simp: Let_def split: prod.splits)

lemma erase_level_shape:
  assumes "pb_shape p" and "is_valid_side sd"
  shows "pb_shape (pb_erase_level_if_empty sd price p)"
    and "pb_view sd (pb_erase_level_if_empty sd price p) = prune price (pb_view sd p)"
    and "sd' \<noteq> sd \<Longrightarrow> pb_view sd' (pb_erase_level_if_empty sd price p) = pb_view sd' p"
    and "placed X p \<Longrightarrow> placed X (pb_erase_level_if_empty sd price p)"
    and "pb_order_nodes (pb_erase_level_if_empty sd price p) = pb_order_nodes p"
    and "pb_order_index (pb_erase_level_if_empty sd price p) = pb_order_index p"
    and "pb_symbol_id (pb_erase_level_if_empty sd price p) = pb_symbol_id p"
proof -
  let ?p = "pb_erase_level_if_empty sd price p" and ?ls = "pb_levels sd p" and ?nodes = "pb_order_nodes p"
  let ?it = "find_index (\<lambda>l. ln_price_ticks l = price) ?ls"
  let ?del = "?it < length ?ls \<and> ln_order_count (?ls ! ?it) = 0"
  have p': "?p = (if ?del then pb_set_levels sd (take ?it ?ls @ drop (Suc ?it) ?ls) p else p)"
    using assms(2) by (simp add: pb_erase_level_if_empty_def Let_def)
  have shape: "side_shape ?nodes sd ?ls" by (rule shape_side [OF assms(1)])
  have at: "ln_price_ticks (?ls ! ?it) = price" if "?it < length ?ls"
    using that nth_length_takeWhile [of "\<lambda>l. ln_price_ticks l \<noteq> price" ?ls] by (simp add: find_index_def)
  have empty: "ln_order_count l = 0 \<longleftrightarrow> snd (lvl ?nodes l) = []" if "l \<in> set ?ls" for l
    using side_shapeD(1) [OF shape that] by (simp add: lrep_def lvl_def)
  have dist: "distinct (map fst (pb_view sd p))"
    using side_shape_distinct [OF shape] by (simp add: pb_view_def del: map_map)
  have del: "map_of (pb_view sd p) price = Some [] \<longleftrightarrow> ?del"
  proof (cases "?it < length ?ls")
    case True
    then have mem: "?ls ! ?it \<in> set ?ls" by simp
    have "lvl ?nodes (?ls ! ?it) \<in> set (pb_view sd p)" using mem by (simp add: pb_view_def)
    then have "map_of (pb_view sd p) price = Some (snd (lvl ?nodes (?ls ! ?it)))"
      using dist at [OF True] by (simp add: lvl_def)
    with True empty [OF mem] show ?thesis by simp
  next
    case False
    then have "?it = length ?ls" by (metis find_index_bound le_neq_implies_less)
    then have "\<forall>l \<in> set ?ls. ln_price_ticks l \<noteq> price" unfolding find_index_end .
    then have "map_of (pb_view sd p) price = None"
      by (auto simp: map_of_eq_None_iff pb_view_def lvl_def)
    with False show ?thesis by simp
  qed
  show view: "pb_view sd ?p = prune price (pb_view sd p)"
  proof (cases ?del)
    case True
    have "length (takeWhile (\<lambda>kv. fst kv \<noteq> price) (map (lvl ?nodes) ?ls)) = ?it"
      by (simp add: find_index_def takeWhile_map o_def lvl_def)
    then have "om_erase price (pb_view sd p) = map (lvl ?nodes) (take ?it ?ls @ drop (Suc ?it) ?ls)"
      by (simp add: om_erase_find pb_view_def take_map drop_map Let_def)
    with True del assms(2) show ?thesis by (simp add: prune_def p' pb_view_def)
  next
    case False
    then have "?p = p" unfolding p' by (rule if_not_P)
    moreover have "map_of (pb_view sd p) price \<noteq> Some []" unfolding del by (rule False)
    ultimately show ?thesis by (simp only: prune_def if_False)
  qed
  show nodes: "pb_order_nodes ?p = ?nodes" "pb_order_index ?p = pb_order_index p" "pb_symbol_id ?p = pb_symbol_id p"
    by (simp_all add: p')
  show "sd' \<noteq> sd \<Longrightarrow> pb_view sd' ?p = pb_view sd' p" by (simp add: pb_view_def p')
  have sub: "set (take ?it ?ls @ drop (Suc ?it) ?ls) \<subseteq> set ?ls"
    using set_take_subset set_drop_subset by fastforce
  have "sorted_wrt (better sd) (map ln_price_ticks (pb_levels sd ?p))"
  proof -
    have "map fst (prune price (pb_view sd p)) = map ln_price_ticks (pb_levels sd ?p)"
      unfolding view [symmetric] by (simp add: pb_view_def del: map_map)
    moreover have "sorted_wrt (better sd) (map fst (pb_view sd p))"
      using shape by (simp add: pb_view_def side_shape_def del: map_map)
    ultimately show ?thesis by (metis prune_def side_order.sorted_erase)
  qed
  then have "side_shape ?nodes sd (pb_levels sd ?p)"
    using shape sub assms(2) by (auto simp: side_shape_def p' split: if_splits)
  then have "side_shape (pb_order_nodes ?p) sd2 (pb_levels sd2 ?p)" for sd2
    using shape_side [OF assms(1), of sd2] unfolding nodes by (cases "sd2 = sd") (auto simp: p')
  then show "pb_shape ?p" using assms(1) nodes(1) by (simp add: pb_shape_def) (simp add: p')
  have act: "active ?p = active p" by (simp add: active_def fun_eq_iff p')
  show "placed X ?p" if pl: "placed X p"
    unfolding placed_def act nodes(1)
  proof (intro allI impI)
    fix m
    assume "active p m" "m \<notin> X"
    with pl obtain l where l: "l \<in> set (pb_levels (o_side (slot_order ?nodes m)) p)" "m \<in> set (lv_q ?nodes l)"
      by (auto simp: placed_def)
    have "l \<in> set (pb_levels (o_side (slot_order ?nodes m)) ?p)"
    proof (cases "?del \<and> o_side (slot_order ?nodes m) = sd")
      case True
      have "l \<noteq> ?ls ! ?it" using True l(2) by (auto simp: lv_q_def)
      moreover have "?ls = take ?it ?ls @ ?ls ! ?it # drop (Suc ?it) ?ls" using True by (simp add: id_take_nth_drop)
      then have "set ?ls = set (take ?it ?ls @ ?ls ! ?it # drop (Suc ?it) ?ls)" by (rule arg_cong)
      moreover have "l \<in> set ?ls" using l(1) True by simp
      ultimately have "l \<in> set (take ?it ?ls @ drop (Suc ?it) ?ls)" by auto
      then show ?thesis using True assms(2) by (simp add: p')
    qed (use l(1) in \<open>auto simp: p'\<close>)
    with l(2) show "\<exists>l \<in> set (pb_levels (o_side (slot_order ?nodes m)) ?p). m \<in> set (lv_q ?nodes l)" by blast
  qed
qed

end
