(* ===== verification/Pooled_Order_Book_Correct.thy ===== *)
theory Pooled_Order_Book_Correct
  imports Pooled_Shape
begin

text \<open>
  The pooled book refines the ladder: with the shape of \<open>Pooled_Shape\<close> and the index as the map
  from ids to slots, every operation commutes with the abstraction \<open>pb_ladder\<close>. The theory
  interprets the interface \<open>l3_book\<close>, which is what makes the two books interchangeable.
\<close>

section \<open>Taking and giving back slots\<close>

lemma acquire_shape:
  assumes shape: "pb_shape p" and room: "length (pb_order_nodes p) < kMaxSlots"
    and acq: "acquire_node x p = (n, p')"
  shows "pb_shape p'" and "pb_view sd p' = pb_view sd p" and "pb_levels sd p' = pb_levels sd p"
    and "pb_order_nodes p' ! n = fresh_node x" and "active p' i \<longleftrightarrow> i = n \<or> active p i" and "\<not> active p n"
    and "active p i \<Longrightarrow> pb_order_nodes p' ! i = pb_order_nodes p ! i"
    and "pb_order_index p' = pb_order_index p" and "pb_symbol_id p' = pb_symbol_id p"
    and "length (pb_order_nodes p') \<le> length (pb_order_nodes p) + 1" and "n < length (pb_order_nodes p')"
    and "placed {} p \<Longrightarrow> placed {n} p'"
    and "l \<in> set (pb_levels sd p') \<Longrightarrow> n \<notin> set (lv_q (pb_order_nodes p') l)"
proof -
  let ?nodes = "pb_order_nodes p"
  obtain fl where fl: "free_chain ?nodes (pb_free_head p) fl" "distinct fl" using shape by (auto simp: pb_shape_def)
  have free: "\<not> active p n \<and> n \<le> length ?nodes \<and> n < length (pb_order_nodes p') \<and>
    pb_order_nodes p' ! n = fresh_node x \<and> length (pb_order_nodes p') \<le> length ?nodes + 1 \<and>
    length (pb_order_nodes p') \<le> kMaxSlots \<and>
    (\<forall>i < length ?nodes. i \<noteq> n \<longrightarrow> i < length (pb_order_nodes p') \<and> pb_order_nodes p' ! i = ?nodes ! i) \<and>
    (\<forall>i. i \<noteq> n \<longrightarrow> i < length (pb_order_nodes p') \<longrightarrow> i < length ?nodes) \<and>
    (\<exists>fl'. free_chain (pb_order_nodes p') (pb_free_head p') fl' \<and> distinct fl')"
  proof (cases fl)
    case Nil
    with fl acq have n: "n = length ?nodes" "p' = p\<lparr>pb_order_nodes := ?nodes @ [fresh_node x]\<rparr>"
      by (simp_all add: acquire_node_def)
    then show ?thesis using fl Nil room
      by (auto simp: active_def nth_append intro!: exI [of _ "[]"])
  next
    case (Cons i fl')
    with fl have i: "pb_free_head p = i" "i < length ?nodes" "\<not> on_active (?nodes ! i)"
      "free_chain ?nodes (on_next (?nodes ! i)) fl'" "i \<notin> set fl'" "distinct fl'" by auto
    moreover have "i \<noteq> kNoIndex" using i(2) room by (simp add: kMaxSlots_def kNoIndex_def)
    ultimately have p': "n = i" "p' = p\<lparr>pb_free_head := on_next (?nodes ! i), pb_order_nodes := ?nodes[i := fresh_node x]\<rparr>"
      using acq by (auto simp: acquire_node_def)
    have "free_chain (?nodes[i := fresh_node x]) (on_next (?nodes ! i)) fl'"
      using i(4,5) by (rule free_chain_set)
    with i p' room show ?thesis by (auto simp: active_def)
  qed
  then show n: "\<not> active p n" "pb_order_nodes p' ! n = fresh_node x" "n < length (pb_order_nodes p')"
    "length (pb_order_nodes p') \<le> length ?nodes + 1" by blast+
  show levels: "pb_levels sd p' = pb_levels sd p" for sd using acq by (auto simp: acquire_node_def Let_def split: if_splits)
  show fields: "pb_order_index p' = pb_order_index p" "pb_symbol_id p' = pb_symbol_id p"
    using acq by (auto simp: acquire_node_def Let_def split: if_splits)
  show same: "pb_order_nodes p' ! i = ?nodes ! i" if "active p i" for i
    using that free by (metis active_def)
  show act: "active p' i \<longleftrightarrow> i = n \<or> active p i" for i
    using free unfolding active_def by (metis fresh_node_def order_node.select_convs(4))
  have frame: "i < length (pb_order_nodes p') \<and> pb_order_nodes p' ! i = ?nodes ! i"
    if "l \<in> set (pb_levels sd p)" "i \<in> set (lv_q ?nodes l)" for l sd i
  proof -
    have "active p i" using side_shapeD(2) [OF shape_side [OF shape] that] by (simp add: active_def)
    then have "active p' i" "pb_order_nodes p' ! i = ?nodes ! i" using same act by blast+
    then show ?thesis by (simp add: active_def)
  qed
  then have "\<forall>l \<in> set (pb_levels sd p). \<forall>i \<in> set (lv_q ?nodes l).
      i < length (pb_order_nodes p') \<and> pb_order_nodes p' ! i = ?nodes ! i" for sd by blast
  note fr = side_shape_frame [OF shape_side [OF shape] this]
  show "pb_view sd p' = pb_view sd p" for sd using fr(2) by (simp add: pb_view_def levels)
  show "pb_shape p'" using fr(1) free by (simp add: pb_shape_def levels)
  show "placed {n} p'" if "placed {} p"
    by (rule placed_transfer [OF that]) (use act same fr(3) levels in \<open>auto\<close>)
  assume "l \<in> set (pb_levels sd p')"
  then show "n \<notin> set (lv_q (pb_order_nodes p') l)"
    using fr(3) [of l sd] n(1) side_shapeD(2) [OF shape_side [OF shape], of l sd n]
    by (auto simp: levels active_def)
qed

lemma release_shape:
  assumes shape: "pb_shape p" and act: "active p n"
    and out: "\<forall>sd. \<forall>l \<in> set (pb_levels sd p). n \<notin> set (lv_q (pb_order_nodes p) l)"
  shows "pb_shape (release_node n p)" and "pb_view sd (release_node n p) = pb_view sd p"
    and "active (release_node n p) i \<longleftrightarrow> i \<noteq> n \<and> active p i"
    and "slot_order (pb_order_nodes (release_node n p)) i = slot_order (pb_order_nodes p) i"
    and "placed {n} p \<Longrightarrow> placed {} (release_node n p)"
    and "pb_order_index (release_node n p) = pb_order_index p"
    and "pb_symbol_id (release_node n p) = pb_symbol_id p"
    and "length (pb_order_nodes (release_node n p)) = length (pb_order_nodes p)"
proof -
  let ?nodes = "pb_order_nodes p" and ?p = "release_node n p"
  let ?e = "(?nodes ! n)\<lparr>on_active := False, on_previous := kNoIndex, on_next := pb_free_head p\<rparr>"
  have nodes: "pb_order_nodes ?p = ?nodes[n := ?e]" by (simp add: release_node_def)
  have levels: "pb_levels sd ?p = pb_levels sd p" for sd by (simp add: release_node_def)
  have n: "n < length ?nodes" "on_active (?nodes ! n)" using act by (simp_all add: active_def)
  obtain fl where fl: "free_chain ?nodes (pb_free_head p) fl" "distinct fl" using shape by (auto simp: pb_shape_def)
  have notin: "n \<notin> set fl" using free_chain_members [OF fl(1)] n(2) by auto
  then have "free_chain (pb_order_nodes ?p) (pb_free_head p) fl"
    unfolding nodes by (rule free_chain_set [OF fl(1)])
  then have chain: "free_chain (pb_order_nodes ?p) (pb_free_head ?p) (n # fl)"
    using n by (simp add: nodes) (simp add: release_node_def)
  have frame: "i < length (pb_order_nodes ?p) \<and> pb_order_nodes ?p ! i = ?nodes ! i"
    if "l \<in> set (pb_levels sd p)" "i \<in> set (lv_q ?nodes l)" for l sd i
  proof -
    have "n \<noteq> i" using out that by auto
    then show ?thesis using side_shapeD(2) [OF shape_side [OF shape] that] by (simp add: nodes)
  qed
  then have "\<forall>l \<in> set (pb_levels sd p). \<forall>i \<in> set (lv_q ?nodes l).
      i < length (pb_order_nodes ?p) \<and> pb_order_nodes ?p ! i = ?nodes ! i" for sd by blast
  note fr = side_shape_frame [OF shape_side [OF shape] this]
  show "pb_view sd ?p = pb_view sd p" for sd using fr(2) by (simp add: pb_view_def levels)
  have "\<exists>fl. free_chain (pb_order_nodes ?p) (pb_free_head ?p) fl \<and> distinct fl"
    using chain fl(2) notin by (intro exI [of _ "n # fl"]) simp
  moreover have "length (pb_order_nodes ?p) \<le> kMaxSlots" using shape by (simp add: pb_shape_def nodes)
  ultimately show "pb_shape ?p" using fr(1) unfolding pb_shape_def levels by blast
  show a: "active ?p i \<longleftrightarrow> i \<noteq> n \<and> active p i" for i
    using n by (auto simp: active_def nodes nth_list_update)
  show o: "slot_order (pb_order_nodes ?p) i = slot_order ?nodes i" for i
    using n by (cases "i = n") (auto simp: nodes)
  show "pb_order_index ?p = pb_order_index p" "pb_symbol_id ?p = pb_symbol_id p"
    "length (pb_order_nodes ?p) = length ?nodes" by (simp_all add: release_node_def)
  show "placed {} ?p" if "placed {n} p"
    by (rule placed_transfer [OF that]) (use a o levels fr(3) in auto)
qed

section \<open>Invariant\<close>

definition pb_inv :: "pooled_book \<Rightarrow> bool" where
  "pb_inv p \<longleftrightarrow> pb_shape p \<and> placed {} p \<and> ladder_ok (pb_ladder p) \<and> fi_inv (pb_order_index p) \<and>
     (\<forall>i n. fi_find i (pb_order_index p) = Some n \<longleftrightarrow>
        active p n \<and> o_order_id (slot_order (pb_order_nodes p) n) = i) \<and>
     fi_size (pb_order_index p) = card {n. active p n}"

lemma view_order:
  assumes "pb_shape p" and "placed {} p" and "is_valid_side (o_side x)"
  shows "x \<in> set (flat (pb_view (o_side x) p)) \<longleftrightarrow> (\<exists>n. active p n \<and> slot_order (pb_order_nodes p) n = x)"
proof -
  let ?nodes = "pb_order_nodes p"
  have "x \<in> set (flat (pb_view (o_side x) p)) \<longleftrightarrow>
      (\<exists>l \<in> set (pb_levels (o_side x) p). \<exists>n \<in> set (lv_q ?nodes l). slot_order ?nodes n = x)"
    by (auto simp: flat_def pb_view_def lvl_def)
  also have "\<dots> \<longleftrightarrow> (\<exists>n. active p n \<and> slot_order ?nodes n = x)"
  proof
    assume "\<exists>l \<in> set (pb_levels (o_side x) p). \<exists>n \<in> set (lv_q ?nodes l). slot_order ?nodes n = x"
    then obtain l n where "l \<in> set (pb_levels (o_side x) p)" "n \<in> set (lv_q ?nodes l)" "slot_order ?nodes n = x" by blast
    with side_shapeD(2) [OF shape_side [OF assms(1)] this(1,2)]
    show "\<exists>n. active p n \<and> slot_order ?nodes n = x" by (auto simp: active_def)
  next
    assume "\<exists>n. active p n \<and> slot_order ?nodes n = x"
    then obtain n where n: "active p n" "slot_order ?nodes n = x" by blast
    with assms(2) obtain l where "l \<in> set (pb_levels (o_side x) p)" "n \<in> set (lv_q ?nodes l)"
      by (auto simp: placed_def)
    with n(2) show "\<exists>l \<in> set (pb_levels (o_side x) p). \<exists>n \<in> set (lv_q ?nodes l). slot_order ?nodes n = x"
      by blast
  qed
  finally show ?thesis .
qed

lemma active_side:
  assumes "pb_shape p" and "placed {} p" and "active p n"
  shows "is_valid_side (o_side (slot_order (pb_order_nodes p) n))"
  using assms(2,3) by (cases "o_side (slot_order (pb_order_nodes p) n)") (auto simp: placed_def pb_levels_def)

lemma ladder_orders:
  assumes "pb_inv p"
  shows "x \<in> set (ld_orders (pb_ladder p)) \<longleftrightarrow> (\<exists>n. active p n \<and> slot_order (pb_order_nodes p) n = x)"
proof -
  have inv: "pb_shape p" "placed {} p" "ladder_ok (pb_ladder p)" using assms by (simp_all add: pb_inv_def)
  show ?thesis
  proof
    assume x: "x \<in> set (ld_orders (pb_ladder p))"
    have "is_valid_side (o_side x)" "x \<in> set (flat (pb_view (o_side x) p))"
      using ladder_order_side [OF inv(3) x] by (simp_all add: ladder_simps)
    then show "\<exists>n. active p n \<and> slot_order (pb_order_nodes p) n = x"
      using view_order [OF inv(1,2)] by blast
  next
    assume "\<exists>n. active p n \<and> slot_order (pb_order_nodes p) n = x"
    moreover from this have "is_valid_side (o_side x)" using active_side [OF inv(1,2)] by auto
    ultimately have "x \<in> set (flat (ld_levels (o_side x) (pb_ladder p)))"
      using view_order [OF inv(1,2)] by (simp add: ladder_simps)
    then show "x \<in> set (ld_orders (pb_ladder p))"
      by (cases "o_side x") (auto simp: ld_orders_levels ld_levels_def [of NoSide] flat_def)
  qed
qed

lemma pb_find_refines:
  assumes "pb_inv p"
  shows "pb_find_order i p = ld_find i (pb_ladder p)"
proof (cases "fi_find i (pb_order_index p)")
  case (Some n)
  with assms have n: "active p n" "o_order_id (slot_order (pb_order_nodes p) n) = i" by (auto simp: pb_inv_def)
  then have "ld_find i (pb_ladder p) = Some (slot_order (pb_order_nodes p) n)"
    using assms ladder_orders [OF assms] by (auto simp: pb_inv_def ld_find_Some)
  with Some n show ?thesis by (simp add: pb_find_order_def active_def)
next
  case None
  have "i \<notin> o_order_id ` set (ld_orders (pb_ladder p))"
  proof
    assume "i \<in> o_order_id ` set (ld_orders (pb_ladder p))"
    then obtain n where "active p n" "o_order_id (slot_order (pb_order_nodes p) n) = i"
      using ladder_orders [OF assms] by auto
    with assms have "fi_find i (pb_order_index p) = Some n" by (simp add: pb_inv_def)
    with None show False by simp
  qed
  then have "ld_find i (pb_ladder p) = None" by (simp add: ld_find_None)
  with None show ?thesis by (simp add: pb_find_order_def)
qed

lemma index_slot:
  assumes "pb_inv p"
  shows "fi_find i (pb_order_index p) = Some n \<longleftrightarrow> active p n \<and> o_order_id (slot_order (pb_order_nodes p) n) = i"
  using assms by (simp add: pb_inv_def)

lemma index_free: "pb_inv p \<Longrightarrow> fi_find i (pb_order_index p) = None \<longleftrightarrow> ld_find i (pb_ladder p) = None"
  unfolding pb_find_refines [symmetric] using index_slot [of p i]
  by (cases "fi_find i (pb_order_index p)") (auto simp: pb_find_order_def active_def)

lemma pb_at_level_fields [simp]:
  "pb_symbol_id (pb_at_level f sd k p) = pb_symbol_id p"
  "pb_order_index (pb_at_level f sd k p) = pb_order_index p"
  by (simp_all add: pb_at_level_def split: prod.splits)

lemma pb_at_level_nodes:
  "f (pb_levels sd p ! k) (pb_order_nodes p) = (l', nodes') \<Longrightarrow> pb_order_nodes (pb_at_level f sd k p) = nodes'"
  by (simp add: pb_at_level_def)

lemma om_modify_nth:
  assumes "distinct (map fst m)" and "k < length m"
  shows "om_modify (fst (m ! k)) f m = m[k := (fst (m ! k), f (snd (m ! k)))]"
  using assms
proof (induction m arbitrary: k)
  case (Cons kv m)
  then show ?case
  proof (cases k)
    case (Suc j)
    with Cons.prems have "fst (m ! j) \<in> fst ` set m" by simp
    with Suc Cons show ?thesis by (cases kv) auto
  qed (cases kv, simp)
qed simp

lemma view_distinct: "pb_shape p \<Longrightarrow> distinct (map fst (pb_view sd p))"
  using side_shape_distinct [OF shape_side] by (simp add: pb_view_def del: map_map)

lemma view_modify:
  assumes "pb_shape p" and "k < length (pb_levels sd p)"
  shows "om_modify (ln_price_ticks (pb_levels sd p ! k)) f (pb_view sd p) = (pb_view sd p)[k :=
    (ln_price_ticks (pb_levels sd p ! k), f (map (slot_order (pb_order_nodes p)) (lv_q (pb_order_nodes p) (pb_levels sd p ! k))))]"
  using om_modify_nth [OF view_distinct [OF assms(1), of sd], of k f] assms(2) by (simp add: pb_view_def lvl_def)

lemma pb_ladder_on_side:
  assumes "pb_symbol_id p' = pb_symbol_id p" and "pb_view sd p' = f (pb_view sd p)"
    and "\<And>sd'. sd' \<noteq> sd \<Longrightarrow> pb_view sd' p' = pb_view sd' p" and "is_valid_side sd"
  shows "pb_ladder p' = on_side sd f (pb_ladder p)"
  using assms by (intro ladder_eqI) (auto simp: ladder_simps)

lemma active_card: "card {n. active p n} \<le> length (pb_order_nodes p)"
proof -
  have "{n. active p n} \<subseteq> {..<length (pb_order_nodes p)}" by (auto simp: active_def)
  then have "card {n. active p n} \<le> card {..<length (pb_order_nodes p)}" by (intro card_mono) auto
  then show ?thesis by simp
qed

lemma active_finite: "finite {n. active p n}"
  by (rule finite_subset [of _ "{..<length (pb_order_nodes p)}"]) (auto simp: active_def)

section \<open>add\<close>

lemma pb_add_ok:
  assumes inv: "pb_inv p" and room: "length (pb_order_nodes p) < kMaxSlots"
    and x: "is_valid_resting_order x" "o_symbol_id x = pb_symbol_id p"
    and new: "fi_find (o_order_id x) (pb_order_index p) = None"
  shows "\<exists>p'. pb_add_order x p = Some (True, p') \<and> pb_inv p' \<and>
    pb_ladder p' = on_side (o_side x) (push_order x) (pb_ladder p) \<and>
    length (pb_order_nodes p') \<le> length (pb_order_nodes p) + 1"
proof -
  let ?sd = "o_side x"
  have side: "is_valid_side ?sd" and id: "o_order_id x \<noteq> kInvalidOrderId"
    using x by (simp_all add: is_valid_resting_order_def)
  have shape: "pb_shape p" and pl: "placed {} p" and lok: "ladder_ok (pb_ladder p)"
    and ix: "fi_inv (pb_order_index p)" "fi_size (pb_order_index p) = card {n. active p n}"
    using inv by (simp_all add: pb_inv_def)
  obtain p1 k where m: "pb_mutable_level ?sd (o_price_ticks x) p = Some (p1, k)"
    using pb_mutable_level_returns [OF side] by blast
  note m1 = mutable_level_shape [OF shape side m]
  obtain n p2 where acq: "acquire_node x p1 = (n, p2)" by (cases "acquire_node x p1")
  have room1: "length (pb_order_nodes p1) < kMaxSlots" using room m1(8) by simp
  note a = acquire_shape [OF m1(1) room1 acq]
  let ?l = "pb_levels ?sd p2 ! k" and ?f = "\<lambda>level nodes. append_order level nodes n"
  let ?q = "lv_q (pb_order_nodes p2) ?l"
  have k: "k < length (pb_levels ?sd p2)" and price: "ln_price_ticks ?l = o_price_ticks x"
    using m1(5,6) a(3) by simp_all
  obtain l' nodes' where app: "append_order ?l (pb_order_nodes p2) n = (l', nodes')"
    by (cases "append_order ?l (pb_order_nodes p2) n")
  have l: "?l \<in> set (pb_levels ?sd p2)" using k by simp
  have notin: "n \<notin> set ?q" using a(13) [OF l] .
  have len2: "length (pb_order_nodes p2) \<le> kMaxSlots" using a(10) room1 by simp
  have act_n: "on_active (pb_order_nodes p2 ! n)" using a(4) by (simp add: fresh_node_def)
  from append_order_rep [OF side_shapeD(1) [OF shape_side [OF a(1)] l] len2 a(11) notin act_n app]
  have rep: "lrep nodes' l' (?q @ [n])" "ln_price_ticks l' = ln_price_ticks ?l"
    "relinked (insert n (set ?q)) (pb_order_nodes p2) nodes'" by simp_all
  have x_n: "slot_order (pb_order_nodes p2) n = x" using a(4) by (simp add: fresh_node_def)
  have orders: "slot_order nodes' i = slot_order (pb_order_nodes p2) i"
    "on_active (nodes' ! i) = on_active (pb_order_nodes p2 ! i)" "length nodes' = length (pb_order_nodes p2)" for i
    using rep(3) by (simp_all add: relinked_def)
  note lev = at_level_shape [OF a(1) side k, of ?f, OF app rep(1,2) relinked_stays [OF rep(3) order_refl] _ act_n]
  have prem: "set (?q @ [n]) \<subseteq> insert n (set ?q)" "o_side (slot_order (pb_order_nodes p2) n) = ?sd"
    "o_price_ticks (slot_order (pb_order_nodes p2) n) = ln_price_ticks ?l"
    using x_n price by auto
  have only: "\<forall>sd'. \<forall>l2 \<in> set (pb_levels sd' p2). n \<in> set (lv_q (pb_order_nodes p2) l2) \<longrightarrow> n \<in> set ?q"
    using a(13) by blast
  let ?p3 = "pb_at_level ?f ?sd k p2"
  have s3: "pb_shape ?p3" using lev(1) [OF prem only] .
  have view3: "pb_view ?sd ?p3 = (pb_view ?sd p2)[k := (ln_price_ticks ?l, map (slot_order nodes') (?q @ [n]))]"
    using lev(2) [OF prem only] .
  have other3: "sd' \<noteq> ?sd \<Longrightarrow> pb_view sd' ?p3 = pb_view sd' p2" for sd' using lev(3) [OF prem only] .
  have "placed (({n} \<union> insert n (set ?q)) - set (?q @ [n])) ?p3" using lev(4) [OF prem only a(12) [OF m1(4) [OF pl]]] .
  moreover have "({n} \<union> insert n (set ?q)) - set (?q @ [n]) = {}" by auto
  ultimately have pl3: "placed {} ?p3" by simp
  have nodes3: "pb_order_nodes ?p3 = nodes'" using app by (rule pb_at_level_nodes)
  have act3: "active ?p3 i \<longleftrightarrow> i = n \<or> active p i" for i
    using a(5) [of i] m1(7) by (simp add: active_def nodes3 orders)
  have "\<not> active p n" using a(6) m1(7) by simp
  have orders3: "slot_order (pb_order_nodes ?p3) i = (if i = n then x else slot_order (pb_order_nodes p) i)"
    if "active ?p3 i" for i
    using that a(7) [of i] act3 m1(7,8) x_n by (auto simp: nodes3 orders)
  have size: "fi_size (pb_order_index p) < kMaxSlots" using ix(2) active_card [of p] room by simp
  obtain index where ins: "fi_insert (o_order_id x) n (pb_order_index p) = Some (True, index)" "fi_inv index"
    "fi_size index = fi_size (pb_order_index p) + 1"
    "\<And>j. fi_find j index = (if j = o_order_id x then Some n else fi_find j (pb_order_index p))"
    using fi_insert_ok [OF ix(1) size id, of n] new by auto
  let ?p4 = "?p3\<lparr>pb_order_index := index\<rparr>"
  have p3ix: "pb_order_index ?p3 = pb_order_index p" "pb_symbol_id ?p3 = pb_symbol_id p"
    using a(8,9) m1(10,11) by simp_all
  have res: "pb_add_order x p = Some (True, ?p4)"
    using x new m acq ins(1) p3ix by (simp add: pb_add_order_def Let_def)
  have view2: "pb_view sd p2 = pb_view sd p1" for sd by (rule a(2))
  have push: "pb_view ?sd ?p4 = push_order x (pb_view ?sd p)"
  proof -
    have "pb_view ?sd ?p4 = pb_view ?sd ?p3" by (simp add: pb_view_def)
    also have "\<dots> = om_modify (o_price_ticks x) (\<lambda>q. q @ [x]) (pb_view ?sd p2)"
      unfolding view3 price [symmetric] view_modify [OF a(1) k] by (simp add: orders x_n)
    finally show ?thesis unfolding view2 m1(2) push_order_def .
  qed
  have ladder: "pb_ladder ?p4 = on_side ?sd (push_order x) (pb_ladder p)"
  proof (rule pb_ladder_on_side [where f = "push_order x" and sd = ?sd])
    show "pb_view ?sd ?p4 = push_order x (pb_view ?sd p)" "is_valid_side ?sd" by (rule push) (rule side)
    show "pb_symbol_id ?p4 = pb_symbol_id p" using p3ix by simp
    show "sd' \<noteq> ?sd \<Longrightarrow> pb_view sd' ?p4 = pb_view sd' p" for sd'
      using other3 [of sd'] view2 [of sd'] m1(3) [of sd'] by (simp add: pb_view_def)
  qed
  have "ladder_ok (pb_ladder ?p4)"
    unfolding ladder using lok x new index_free [OF inv] by (intro ladder_ok_push) (simp_all add: ladder_simps)
  moreover have "pb_shape ?p4" "placed {} ?p4" using s3 pl3 by (simp_all add: pb_shape_def placed_def active_def)
  moreover have act4: "active ?p4 i \<longleftrightarrow> i = n \<or> active p i" for i using act3 by (simp add: active_def)
  moreover have "fi_find i index = Some j \<longleftrightarrow> active ?p4 j \<and> o_order_id (slot_order (pb_order_nodes ?p4) j) = i" for i j
  proof -
    have old: "fi_find i (pb_order_index p) = Some j \<longleftrightarrow> active p j \<and> o_order_id (slot_order (pb_order_nodes p) j) = i"
      using inv by (simp add: pb_inv_def)
    have "active p j \<Longrightarrow> o_order_id (slot_order (pb_order_nodes p) j) \<noteq> o_order_id x"
      using new index_slot [OF inv, of "o_order_id x" j] by auto
    moreover have "active ?p4 j \<Longrightarrow> slot_order (pb_order_nodes ?p4) j = (if j = n then x else slot_order (pb_order_nodes p) j)"
      using orders3 [of j] act3 [of j] act4 [of j] by simp
    ultimately show ?thesis
      unfolding ins(4) act4 using old \<open>\<not> active p n\<close> act4 [of j] by (cases "j = n") auto
  qed
  moreover have "fi_size index = card {i. active ?p4 i}"
  proof -
    have "{i. active ?p4 i} = insert n {i. active p i}" using act4 by auto
    then show ?thesis using ins(3) ix(2) \<open>\<not> active p n\<close> active_finite [of p] by simp
  qed
  ultimately have "pb_inv ?p4" using ins(2) by (simp add: pb_inv_def)
  moreover have "length (pb_order_nodes ?p4) \<le> length (pb_order_nodes p) + 1"
    using a(10) m1(8) orders(3) by (simp add: nodes3)
  ultimately show ?thesis using res ladder by blast
qed

lemma pb_add_refines:
  assumes "pb_inv p" and "length (pb_order_nodes p) < kMaxSlots"
  shows "\<exists>r p'. pb_add_order x p = Some (r, p') \<and> pb_inv p' \<and> spec_add x (pb_ladder p) = (r, pb_ladder p') \<and>
    length (pb_order_nodes p') \<le> length (pb_order_nodes p) + 1"
proof (cases "is_valid_resting_order x \<and> o_symbol_id x = pb_symbol_id p \<and>
    fi_find (o_order_id x) (pb_order_index p) = None")
  case True
  with pb_add_ok [OF assms, of x] index_free [OF assms(1)] show ?thesis
    by (auto simp: spec_add_def ladder_simps)
next
  case False
  then have "pb_add_order x p = Some (False, p)" by (auto simp: pb_add_order_def)
  moreover have "spec_add x (pb_ladder p) = (False, pb_ladder p)"
    using False index_free [OF assms(1)] by (auto simp: spec_add_def ladder_simps)
  ultimately show ?thesis using assms(1) by auto
qed

section \<open>The level of a resting order\<close>

lemma own_level:
  assumes "pb_shape p" and "placed {} p" and "active p n" and "k < length (pb_levels sd p)"
    and "sd = o_side (slot_order (pb_order_nodes p) n)"
    and "ln_price_ticks (pb_levels sd p ! k) = o_price_ticks (slot_order (pb_order_nodes p) n)"
  shows "n \<in> set (lv_q (pb_order_nodes p) (pb_levels sd p ! k))"
proof -
  from assms(2,3,5) obtain l where l: "l \<in> set (pb_levels sd p)" "n \<in> set (lv_q (pb_order_nodes p) l)"
    by (auto simp: placed_def)
  have "ln_price_ticks l = ln_price_ticks (pb_levels sd p ! k)"
    using side_shapeD(2) [OF shape_side [OF assms(1)] l] assms(6) by simp
  then have "l = pb_levels sd p ! k" using side_shape_unique [OF shape_side [OF assms(1)]] l(1) assms(4) nth_mem by blast
  with l(2) show ?thesis by simp
qed

lemma level_ids:
  assumes "ladder_ok (pb_ladder p)" and "l \<in> set (pb_levels sd p)"
  shows "distinct (map o_order_id (map (slot_order (pb_order_nodes p)) (lv_q (pb_order_nodes p) l)))"
proof -
  have "distinct (map o_order_id (flat (pb_view sd p)))"
    using ladder_distinct_side [OF assms(1), of sd] by (simp add: ladder_simps)
  moreover obtain as bs where "pb_levels sd p = as @ l # bs" using assms(2) by (meson split_list)
  ultimately show ?thesis by (simp add: pb_view_def flat_def lvl_def)
qed

lemma filter_id_split:
  assumes "distinct (map f (as @ x # bs))"
  shows "filter (\<lambda>y. f y \<noteq> f x) (as @ x # bs) = as @ bs"
proof -
  have "\<forall>y \<in> set as \<union> set bs. f y \<noteq> f x" using assms by (fastforce simp: image_iff)
  then show ?thesis by (simp add: filter_id_conv)
qed

text \<open>The present level is found, so \<^verbatim>\<open>mutable_level\<close> inserts nothing.\<close>

lemma mutable_level_own:
  assumes inv: "pb_inv p" and act: "active p n" and m: "pb_mutable_level (o_side (slot_order (pb_order_nodes p) n))
      (o_price_ticks (slot_order (pb_order_nodes p) n)) p = Some (p1, k)"
  shows "pb_view sd p1 = pb_view sd p"
    and "n \<in> set (lv_q (pb_order_nodes p1) (pb_levels (o_side (slot_order (pb_order_nodes p) n)) p1 ! k))"
proof -
  let ?x = "slot_order (pb_order_nodes p) n"
  have s: "pb_shape p" "placed {} p" using inv by (simp_all add: pb_inv_def)
  have side: "is_valid_side (o_side ?x)" using active_side [OF s act] .
  note m1 = mutable_level_shape [OF s(1) side m]
  show "n \<in> set (lv_q (pb_order_nodes p1) (pb_levels (o_side ?x) p1 ! k))"
    using act m1(4) [OF s(2)] m1(5-8) by (intro own_level [OF m1(1)]) simp_all
  have "?x \<in> set (flat (pb_view (o_side ?x) p))" using view_order [OF s side] act by blast
  then obtain l j where l: "l \<in> set (pb_levels (o_side ?x) p)" "j \<in> set (lv_q (pb_order_nodes p) l)"
      "slot_order (pb_order_nodes p) j = ?x" by (auto simp: flat_def pb_view_def lvl_def)
  then have "o_price_ticks ?x = ln_price_ticks l" using side_shapeD(2) [OF shape_side [OF s(1)] l(1,2)] by simp
  with l(1) have "o_price_ticks ?x \<in> fst ` set (pb_view (o_side ?x) p)" by (force simp: pb_view_def lvl_def)
  moreover have "sorted_wrt (better (o_side ?x)) (map fst (pb_view (o_side ?x) p))"
    using shape_side [OF s(1)] by (simp add: pb_view_def side_shape_def del: map_map)
  ultimately have "pb_view (o_side ?x) p1 = pb_view (o_side ?x) p"
    unfolding m1(2) by (intro side_order.try_emplace_present)
  then show "pb_view sd p1 = pb_view sd p" using m1(3) by (cases "sd = o_side ?x") simp_all
qed

section \<open>cancel\<close>

lemma pb_cancel_ok:
  assumes inv: "pb_inv p" and found: "fi_find i (pb_order_index p) = Some n"
    and x: "x = slot_order (pb_order_nodes p) n"
  shows "fst (pb_cancel_order i p) \<and> pb_inv (snd (pb_cancel_order i p)) \<and>
    pb_ladder (snd (pb_cancel_order i p)) = on_side (o_side x) (drop_order x) (pb_ladder p) \<and>
    length (pb_order_nodes (snd (pb_cancel_order i p))) = length (pb_order_nodes p)"
proof -
  let ?sd = "o_side x" and ?price = "o_price_ticks x"
  have s: "pb_shape p" "placed {} p" and lok: "ladder_ok (pb_ladder p)" and ix: "fi_inv (pb_order_index p)"
    "fi_size (pb_order_index p) = card {n. active p n}" using inv by (simp_all add: pb_inv_def)
  have act: "active p n" and id: "o_order_id x = i" using found index_slot [OF inv] x by auto
  have side: "is_valid_side ?sd" using active_side [OF s act] x by simp
  obtain p1 k where m: "pb_mutable_level ?sd ?price p = Some (p1, k)" using pb_mutable_level_returns [OF side] by blast
  note m1 = mutable_level_shape [OF s(1) side m]
  note own = mutable_level_own [OF inv act m [unfolded x]]
  let ?l = "pb_levels ?sd p1 ! k" and ?nodes = "pb_order_nodes p"
  let ?q = "lv_q ?nodes ?l"
  let ?f = "\<lambda>level nodes. unlink_order (level\<lparr>ln_total_quantity := ln_total_quantity level - o_quantity x\<rparr>) nodes n"
  have l: "?l \<in> set (pb_levels ?sd p1)" using m1(5) by simp
  have rep0: "lrep ?nodes ?l ?q" using side_shapeD(1) [OF shape_side [OF m1(1)] l] m1(8) by simp
  have mem: "n \<in> set ?q" using own(2) m1(8) x by simp
  obtain as bs where q: "?q = as @ n # bs" using mem by (meson split_list)
  obtain l' nodes' where un: "?f ?l ?nodes = (l', nodes')" by (cases "?f ?l ?nodes")
  have len: "length ?nodes \<le> kMaxSlots" using s(1) by (simp add: pb_shape_def)
  have un': "unlink_order (?l\<lparr>ln_total_quantity := ln_total_quantity ?l - o_quantity (slot_order ?nodes n)\<rparr>) ?nodes n
      = (l', nodes')" using un x by simp
  from unlink_order_rep [OF rep0 [unfolded q] len un']
  have rep: "lrep nodes' l' (as @ bs)" "ln_price_ticks l' = ln_price_ticks ?l" "relinked (set (as @ bs)) ?nodes nodes'"
    by simp_all
  have orders: "slot_order nodes' i = slot_order ?nodes i"
    "on_active (nodes' ! i) = on_active (?nodes ! i)" "length nodes' = length ?nodes" for i
    using rep(3) by (simp_all add: relinked_def)
  have dist: "distinct (as @ n # bs)" using rep0 q by (simp add: lrep_def)
  have prem: "set (as @ bs) \<subseteq> insert n (set ?q)" "on_active (?nodes ! n)" "o_side (slot_order ?nodes n) = ?sd"
    "o_price_ticks (slot_order ?nodes n) = ln_price_ticks ?l" "set (as @ bs) \<subseteq> insert n (set ?q)"
    using q act x m1(6) by (auto simp: active_def)
  have only: "\<forall>sd'. \<forall>l2 \<in> set (pb_levels sd' p1). n \<in> set (lv_q ?nodes l2) \<longrightarrow> n \<in> set ?q" using mem by blast
  note lev = at_level_shape [of p1 ?sd k ?f, unfolded m1(8), OF m1(1) side m1(5) un rep(1,2)
      relinked_stays [OF rep(3) prem(5)] prem(1-4) only]
  let ?p2 = "pb_at_level ?f ?sd k p1"
  have pl2: "placed {n} ?p2"
  proof -
    have "({} \<union> insert n (set ?q)) - set (as @ bs) = {n}" using q dist by auto
    then show ?thesis using lev(4) [OF m1(4) [OF s(2)]] by simp
  qed
  have nodes2: "pb_order_nodes ?p2 = nodes'" using un m1(8) by (intro pb_at_level_nodes) simp
  have act2: "active ?p2 j \<longleftrightarrow> active p j" for j by (simp add: active_def nodes2 orders)
  have price: "ln_price_ticks ?l = ?price" by (rule m1(6))
  have map_filter: "map (slot_order nodes') (as @ bs) = filter (\<lambda>y. o_order_id y \<noteq> o_order_id x) (map (slot_order ?nodes) ?q)"
  proof -
    have "distinct (map o_order_id (map (slot_order ?nodes) ?q))"
    proof -
      have "ladder_ok (pb_ladder p1)"
        using lok own(1) m1(11) by (simp add: pb_ladder_def)
      from level_ids [OF this l] show ?thesis using m1(8) by simp
    qed
    then show ?thesis
      unfolding q using filter_id_split [of o_order_id "map (slot_order ?nodes) as" x "map (slot_order ?nodes) bs"] x
      by (simp add: orders)
  qed
  have view2: "pb_view ?sd ?p2 = om_modify ?price (filter (\<lambda>y. o_order_id y \<noteq> o_order_id x)) (pb_view ?sd p)"
    unfolding lev(2) map_filter own(1) [symmetric] price [symmetric] view_modify [OF m1(1,5)] m1(8) ..
  have out: "n \<notin> set (lv_q (pb_order_nodes ?p2) l2)" if "l2 \<in> set (pb_levels sd' ?p2)" for l2 sd'
  proof
    assume n: "n \<in> set (lv_q (pb_order_nodes ?p2) l2)"
    have lev_k: "pb_levels ?sd ?p2 = (pb_levels ?sd p1)[k := l']" using un m1(8) side by (simp add: pb_at_level_def)
    have facts: "o_side x = sd'" "?price = ln_price_ticks l2"
      using side_shapeD(2) [OF shape_side [OF lev(1)] that n] unfolding nodes2 orders x [symmetric] by simp_all
    moreover have "l' \<in> set (pb_levels ?sd ?p2)" unfolding lev_k using m1(5) by (rule set_update_memI)
    ultimately have "l2 = l'"
      using side_shape_unique [OF shape_side [OF lev(1), of ?sd], of l2 l'] that rep(2) price by simp
    with n rep(1) show False using dist by (auto simp: nodes2 lrep_q)
  qed
  let ?p3 = "?p2\<lparr>pb_order_index := snd (fi_erase i (pb_order_index p))\<rparr>"
  have s3: "pb_shape ?p3" "placed {n} ?p3" "\<And>j. active ?p3 j \<longleftrightarrow> active p j"
    "\<And>sd. pb_view sd ?p3 = pb_view sd ?p2"
    using lev(1) pl2 act2 by (simp_all add: pb_shape_def placed_def active_def pb_view_def)
  have act3: "active ?p3 n" using act s3(3) by simp
  have "\<forall>sd'. \<forall>l2 \<in> set (pb_levels sd' ?p3). n \<notin> set (lv_q (pb_order_nodes ?p3) l2)"
    using out by simp
  note rel = release_shape [OF s3(1) act3 this]
  let ?p4 = "release_node n ?p3"
  note er = erase_level_shape [OF rel(1) side, where price = ?price]
  let ?p5 = "pb_erase_level_if_empty ?sd ?price ?p4"
  have res: "pb_cancel_order i p = (True, ?p5)"
    using found x m m1(10) by (simp add: pb_cancel_order_def Let_def)
  have view5: "pb_view ?sd ?p5 = drop_order x (pb_view ?sd p)"
    using er(2) rel(2) s3(4) view2 by (simp add: drop_order_def)
  have ladder: "pb_ladder ?p5 = on_side ?sd (drop_order x) (pb_ladder p)"
  proof (rule pb_ladder_on_side [where f = "drop_order x" and sd = ?sd])
    show "pb_view ?sd ?p5 = drop_order x (pb_view ?sd p)" "is_valid_side ?sd" by (rule view5) (rule side)
    show "pb_symbol_id ?p5 = pb_symbol_id p" using er(7) rel(7) m1(11) by simp
    show "sd' \<noteq> ?sd \<Longrightarrow> pb_view sd' ?p5 = pb_view sd' p" for sd'
      using er(3) rel(2) s3(4) lev(3) own(1) by simp
  qed
  have xin: "x \<in> set (ld_orders (pb_ladder p))" using ladder_orders [OF inv] act x by blast
  have act5: "active ?p5 j \<longleftrightarrow> j \<noteq> n \<and> active p j" for j
    using rel(3) [of j] s3(3) [of j] er(5) by (simp add: active_def)
  have orders5: "slot_order (pb_order_nodes ?p5) j = slot_order ?nodes j" for j
    using er(5) rel(4) [of j] orders(1) [of j] nodes2 by simp
  have fi: "fi_inv (snd (fi_erase i (pb_order_index p)))"
    "\<And>j. fi_find j (snd (fi_erase i (pb_order_index p))) = (if j = i then None else fi_find j (pb_order_index p))"
    "fi_size (snd (fi_erase i (pb_order_index p))) = fi_size (pb_order_index p) - 1"
    using fi_erase_ok [OF ix(1), of i] found by simp_all
  have ix5: "pb_order_index ?p5 = snd (fi_erase i (pb_order_index p))" using er(6) rel(6) by simp
  have spec: "fi_find j (pb_order_index ?p5) = Some m \<longleftrightarrow> active ?p5 m \<and> o_order_id (slot_order (pb_order_nodes ?p5) m) = j" for j m
    unfolding ix5 fi(2) act5 orders5
    using index_slot [OF inv, of j m] index_slot [OF inv, of i m] found id by auto
  have size: "fi_size (pb_order_index ?p5) = card {j. active ?p5 j}"
  proof -
    have "{j. active ?p5 j} = {j. active p j} - {n}" using act5 by auto
    then show ?thesis unfolding ix5 fi(3) ix(2) using act active_finite [of p] by simp
  qed
  have "pb_inv ?p5"
    using er(1) er(4) [OF rel(5) [OF s3(2)]] ladder_ok_drop [OF lok xin] fi(1) spec size
    unfolding pb_inv_def ladder ix5 by simp
  moreover have "length (pb_order_nodes ?p5) = length ?nodes"
    using er(5) rel(8) nodes2 orders(3) by simp
  ultimately show ?thesis using res ladder by simp
qed

lemma pb_cancel_refines:
  assumes "pb_inv p"
  shows "pb_inv (snd (pb_cancel_order i p)) \<and>
    spec_cancel i (pb_ladder p) = (fst (pb_cancel_order i p), pb_ladder (snd (pb_cancel_order i p))) \<and>
    length (pb_order_nodes (snd (pb_cancel_order i p))) = length (pb_order_nodes p)"
proof (cases "fi_find i (pb_order_index p)")
  case None
  with assms index_free [OF assms, of i] show ?thesis by (simp add: pb_cancel_order_def spec_cancel_def)
next
  case (Some n)
  then have "ld_find i (pb_ladder p) = Some (slot_order (pb_order_nodes p) n)"
    using pb_find_refines [OF assms, of i] index_slot [OF assms, of i n]
    by (simp add: pb_find_order_def active_def)
  with pb_cancel_ok [OF assms Some refl] show ?thesis by (simp add: spec_cancel_def)
qed

section \<open>reduce\<close>

lemma seg_set_order:
  "seg nodes prev cur q e \<Longrightarrow> seg (nodes[n := (nodes ! n)\<lparr>on_order := y\<rparr>]) prev cur q e"
  by (induction q arbitrary: prev cur) (auto simp: nth_update)

lemma reduce_rep:
  assumes "lrep nodes l q" and "n \<in> set q"
  shows "lrep (nodes[n := (nodes ! n)\<lparr>on_order := (slot_order nodes n)\<lparr>o_quantity := o_quantity (slot_order nodes n) - d\<rparr>\<rparr>])
    (l\<lparr>ln_total_quantity := ln_total_quantity l - d\<rparr>) q" (is "lrep ?nodes' _ _")
proof -
  have n: "n < length nodes" using lrep_members [OF assms] by simp
  have dist: "distinct q" using assms(1) by (simp add: lrep_def)
  have "map o_quantity (map (slot_order ?nodes') q) =
      map (\<lambda>i. if i = n then o_quantity (slot_order nodes i) - d else o_quantity (slot_order nodes i)) q"
    using n by (auto simp: nth_list_update)
  then have "queue_total (map (slot_order ?nodes') q) =
      sum_list (map (\<lambda>i. if i = n then o_quantity (slot_order nodes i) - d else o_quantity (slot_order nodes i)) q)"
    unfolding queue_total_def by (rule arg_cong)
  also have "\<dots> = queue_total (map (slot_order nodes) q) - d"
    using sum_list_map_update [of id q n "\<lambda>i. o_quantity (slot_order nodes i)" d] dist assms(2)
    by (simp add: queue_total_def o_def)
  finally have "queue_total (map (slot_order ?nodes') q) = queue_total (map (slot_order nodes) q) - d" .
  with assms(1) show ?thesis by (simp add: lrep_def seg_set_order)
qed

lemma pb_reduce_ok:
  assumes inv: "pb_inv p" and found: "fi_find i (pb_order_index p) = Some n"
    and x: "x = slot_order (pb_order_nodes p) n" and d: "0 < d" "d < o_quantity x"
  shows "fst (pb_reduce_order i d p) \<and> pb_inv (snd (pb_reduce_order i d p)) \<and>
    pb_ladder (snd (pb_reduce_order i d p)) = on_side (o_side x) (shrink_order d x) (pb_ladder p) \<and>
    length (pb_order_nodes (snd (pb_reduce_order i d p))) = length (pb_order_nodes p)"
proof -
  let ?sd = "o_side x" and ?price = "o_price_ticks x"
  have s: "pb_shape p" "placed {} p" and lok: "ladder_ok (pb_ladder p)" and ix: "fi_inv (pb_order_index p)"
    "fi_size (pb_order_index p) = card {n. active p n}" using inv by (simp_all add: pb_inv_def)
  have act: "active p n" and id: "o_order_id x = i" using found index_slot [OF inv] x by auto
  have side: "is_valid_side ?sd" using active_side [OF s act] x by simp
  obtain p1 k where m: "pb_mutable_level ?sd ?price p = Some (p1, k)" using pb_mutable_level_returns [OF side] by blast
  note m1 = mutable_level_shape [OF s(1) side m]
  note own = mutable_level_own [OF inv act m [unfolded x]]
  let ?l = "pb_levels ?sd p1 ! k" and ?nodes = "pb_order_nodes p"
  let ?q = "lv_q ?nodes ?l"
  let ?f = "\<lambda>level nodes. (level\<lparr>ln_total_quantity := ln_total_quantity level - d\<rparr>,
     nodes[n := (nodes ! n)\<lparr>on_order := (on_order (nodes ! n))\<lparr>o_quantity := o_quantity (on_order (nodes ! n)) - d\<rparr>\<rparr>])"
  let ?nodes' = "?nodes[n := (?nodes ! n)\<lparr>on_order := x\<lparr>o_quantity := o_quantity x - d\<rparr>\<rparr>]"
  let ?l' = "?l\<lparr>ln_total_quantity := ln_total_quantity ?l - d\<rparr>"
  have l: "?l \<in> set (pb_levels ?sd p1)" using m1(5) by simp
  have rep0: "lrep ?nodes ?l ?q" using side_shapeD(1) [OF shape_side [OF m1(1)] l] m1(8) by simp
  have mem: "n \<in> set ?q" using own(2) m1(8) x by simp
  have f: "?f ?l ?nodes = (?l', ?nodes')" using x by simp
  have rep: "lrep ?nodes' ?l' ?q" using reduce_rep [OF rep0 mem, of d] x by simp
  have n: "n < length ?nodes" using act by (simp add: active_def)
  have orders: "slot_order ?nodes' j = (if j = n then x\<lparr>o_quantity := o_quantity x - d\<rparr> else slot_order ?nodes j)" for j
    using n by (simp add: nth_list_update)
  have st: "stays (insert n (set ?q)) ?nodes ?nodes'"
    using n x by (auto simp: stays_def nth_list_update)
  have prem: "set ?q \<subseteq> insert n (set ?q)" "on_active (?nodes ! n)" "o_side (slot_order ?nodes n) = ?sd"
    "o_price_ticks (slot_order ?nodes n) = ln_price_ticks ?l"
    using act x m1(6) by (auto simp: active_def)
  have only: "\<forall>sd'. \<forall>l2 \<in> set (pb_levels sd' p1). n \<in> set (lv_q ?nodes l2) \<longrightarrow> n \<in> set ?q" using mem by blast
  have price: "ln_price_ticks ?l' = ln_price_ticks ?l" by simp
  note lev = at_level_shape [of p1 ?sd k ?f, unfolded m1(8), OF m1(1) side m1(5) f rep price st prem only]
  let ?p2 = "pb_at_level ?f ?sd k p1"
  have nodes2: "pb_order_nodes ?p2 = ?nodes'" using f m1(8) by (intro pb_at_level_nodes) simp
  have res: "pb_reduce_order i d p = (True, ?p2)"
    using found x m d by (simp add: pb_reduce_order_def Let_def)
  have pl2: "placed {} ?p2"
    using lev(4) [OF m1(4) [OF s(2)]] mem by (simp add: insert_absorb)
  have act2: "active ?p2 j \<longleftrightarrow> active p j" for j
    unfolding active_def nodes2 using n by (auto simp: nth_list_update)
  have view2: "pb_view ?sd ?p2 = shrink_order d x (pb_view ?sd p)"
  proof -
    have ids: "distinct (map o_order_id (map (slot_order ?nodes) ?q))"
    proof -
      have "ladder_ok (pb_ladder p1)" using lok own(1) m1(11) by (simp add: pb_ladder_def)
      from level_ids [OF this l] show ?thesis using m1(8) by simp
    qed
    have key: "j = n \<longleftrightarrow> o_order_id (slot_order ?nodes j) = o_order_id x" if "j \<in> set ?q" for j
      using distinct_map_eq [of "\<lambda>j. o_order_id (slot_order ?nodes j)" ?q j n] ids that mem x by (auto simp: o_def)
    moreover have "slot_order ?nodes j = x" if "j \<in> set ?q" "o_order_id (slot_order ?nodes j) = o_order_id x" for j
      using key [OF that(1)] that(2) x by metis
    ultimately have mq: "map (slot_order ?nodes') ?q = map (\<lambda>y. if o_order_id y = o_order_id x
        then y\<lparr>o_quantity := o_quantity y - d\<rparr> else y) (map (slot_order ?nodes) ?q)"
      by (auto simp: orders x [symmetric])
    show ?thesis
      unfolding lev(2) mq shrink_order_def own(1) [symmetric] m1(6) [symmetric] view_modify [OF m1(1,5)] m1(8)
      by (rule refl)
  qed
  have ladder: "pb_ladder ?p2 = on_side ?sd (shrink_order d x) (pb_ladder p)"
  proof (rule pb_ladder_on_side [where f = "shrink_order d x" and sd = ?sd])
    show "pb_view ?sd ?p2 = shrink_order d x (pb_view ?sd p)" "is_valid_side ?sd" by (rule view2) (rule side)
    show "pb_symbol_id ?p2 = pb_symbol_id p" using m1(11) by simp
    show "sd' \<noteq> ?sd \<Longrightarrow> pb_view sd' ?p2 = pb_view sd' p" for sd' using lev(3) own(1) by simp
  qed
  have xin: "x \<in> set (ld_orders (pb_ladder p))" using ladder_orders [OF inv] act x by blast
  have ids2: "o_order_id (slot_order (pb_order_nodes ?p2) j) = o_order_id (slot_order ?nodes j)" for j
    unfolding nodes2 orders using x by simp
  have "pb_inv ?p2"
    using lev(1) pl2 ladder_ok_shrink [OF lok xin d(2)] inv m1(10) unfolding pb_inv_def ladder act2 ids2 by simp
  moreover have "length (pb_order_nodes ?p2) = length ?nodes" by (simp add: nodes2)
  ultimately show ?thesis using res ladder by simp
qed

lemma pb_reduce_refines:
  assumes "pb_inv p"
  shows "pb_inv (snd (pb_reduce_order i d p)) \<and>
    spec_reduce i d (pb_ladder p) = (fst (pb_reduce_order i d p), pb_ladder (snd (pb_reduce_order i d p))) \<and>
    length (pb_order_nodes (snd (pb_reduce_order i d p))) = length (pb_order_nodes p)"
proof (cases "fi_find i (pb_order_index p)")
  case None
  with assms index_free [OF assms, of i] show ?thesis by (simp add: pb_reduce_order_def spec_reduce_def)
next
  case (Some n)
  let ?x = "slot_order (pb_order_nodes p) n"
  have x: "ld_find i (pb_ladder p) = Some ?x"
    using Some pb_find_refines [OF assms, of i] index_slot [OF assms, of i n]
    by (simp add: pb_find_order_def active_def)
  show ?thesis
  proof (cases "0 < d \<and> d < o_quantity ?x")
    case True
    with pb_reduce_ok [OF assms Some refl] x show ?thesis by (simp add: spec_reduce_def)
  next
    case False
    then have "pb_reduce_order i d p = (if d \<le> 0 then (False, p) else pb_cancel_order i p)"
      using Some by (auto simp: pb_reduce_order_def)
    moreover have "spec_reduce i d (pb_ladder p) = (if d \<le> 0 then (False, pb_ladder p) else spec_cancel i (pb_ladder p))"
      using False x by (auto simp: spec_reduce_def)
    ultimately show ?thesis using pb_cancel_refines [OF assms, of i] assms by simp
  qed
qed

section \<open>replace and clear\<close>

lemma pb_replace_refines:
  assumes "pb_inv p" and "length (pb_order_nodes p) < kMaxSlots"
  shows "\<exists>r p'. pb_replace_order i price q ts sq p = Some (r, p') \<and> pb_inv p' \<and>
    spec_replace i price q ts sq (pb_ladder p) = (r, pb_ladder p') \<and>
    length (pb_order_nodes p') \<le> length (pb_order_nodes p) + 1"
proof (cases "price \<le> 0 \<or> q \<le> 0 \<or> ld_find i (pb_ladder p) = None")
  case True
  then have "pb_replace_order i price q ts sq p = Some (False, p)"
    using pb_find_refines [OF assms(1), of i] by (auto simp: pb_replace_order_def)
  moreover have "spec_replace i price q ts sq (pb_ladder p) = (False, pb_ladder p)"
    using True by (auto simp: spec_replace_def)
  ultimately show ?thesis using assms(1) by auto
next
  case False
  then obtain x where x: "ld_find i (pb_ladder p) = Some x" by auto
  let ?p = "snd (pb_cancel_order i p)"
  have c: "pb_inv ?p" "spec_cancel i (pb_ladder p) = (True, pb_ladder ?p)" "fst (pb_cancel_order i p)"
    "length (pb_order_nodes ?p) = length (pb_order_nodes p)"
    using pb_cancel_refines [OF assms(1), of i] x by (auto simp: spec_cancel_def)
  then have "pb_cancel_order i p = (True, ?p)" by (metis prod.collapse)
  then have "pb_replace_order i price q ts sq p = pb_add_order (reprice x price q ts sq) ?p"
    using False x unfolding pb_replace_order_def pb_find_refines [OF assms(1)] reprice_def
    by (auto split: prod.splits)
  moreover have "spec_replace i price q ts sq (pb_ladder p) = spec_add (reprice x price q ts sq) (pb_ladder ?p)"
    using False x c(2) by (simp add: spec_replace_def)
  ultimately show ?thesis using pb_add_refines [OF c(1), of "reprice x price q ts sq"] assms(2) c(4) by simp
qed

lemma pb_blank:
  assumes "pb_bids p = []" and "pb_asks p = []" and "pb_order_nodes p = []" and "pb_free_head p = kNoIndex"
    and "fi_inv (pb_order_index p)" and "fi_size (pb_order_index p) = 0"
    and "\<And>i. fi_find i (pb_order_index p) = None"
  shows "pb_inv p \<and> pb_ladder p = ld_empty (pb_symbol_id p)"
proof -
  have lev: "pb_levels sd p = []" for sd using assms(1,2) by (cases sd) (simp_all add: pb_levels_def)
  have l: "pb_ladder p = ld_empty (pb_symbol_id p)" by (simp add: pb_ladder_def pb_view_def lev ld_empty_def)
  have "free_chain (pb_order_nodes p) (pb_free_head p) []" using assms(4) by simp
  then have "pb_shape p" unfolding pb_shape_def lev using assms(3) by (auto simp: side_shape_def intro!: exI [of _ "[]"])
  with assms lev l show ?thesis by (simp add: pb_inv_def placed_def active_def)
qed

lemma pb_new_ok: "pb_inv (pb_new sy) \<and> pb_ladder (pb_new sy) = ld_empty sy"
  using pb_blank [of "pb_new sy"] by (simp add: pb_new_def)

lemma pb_clear_ok:
  assumes "pb_inv p"
  shows "pb_inv (pb_clear p) \<and> pb_ladder (pb_clear p) = spec_clear (pb_ladder p) \<and>
    pb_order_nodes (pb_clear p) = []"
proof -
  have "pb_inv (pb_clear p) \<and> pb_ladder (pb_clear p) = ld_empty (pb_symbol_id (pb_clear p))"
    using fi_clear_ok [of "pb_order_index p"] assms
    by (intro pb_blank) (simp_all add: pb_clear_def pb_inv_def)
  then show ?thesis by (simp add: pb_clear_def ld_empty_def spec_clear_def pb_ladder_def)
qed

lemma pb_step_refines:
  assumes "pb_inv p" and "length (pb_order_nodes p) + 1 < kMaxSlots"
  shows "pb_inv (snd (pb_step op p)) \<and> length (pb_order_nodes (snd (pb_step op p))) \<le> length (pb_order_nodes p) + 1 \<and>
    spec_step op (pb_ladder p) = (fst (pb_step op p), pb_ladder (snd (pb_step op p)))"
proof (cases op)
  case (Op_Add x)
  with pb_add_refines [OF assms(1), of x] assms(2) show ?thesis by auto
next
  case (Op_Replace i price q ts sq)
  with pb_replace_refines [OF assms(1), of i price q ts sq] assms(2) show ?thesis by auto
qed (use pb_cancel_refines [OF assms(1)] pb_reduce_refines [OF assms(1)] pb_clear_ok [OF assms(1)] in simp_all)

section \<open>Observations\<close>

lemma level_rep:
  assumes "pb_inv p" and "l \<in> set (pb_levels sd p)"
  shows "lrep (pb_order_nodes p) l (lv_q (pb_order_nodes p) l)" and "lv_q (pb_order_nodes p) l \<noteq> []"
proof -
  have s: "pb_shape p" using assms(1) by (simp add: pb_inv_def)
  show "lrep (pb_order_nodes p) l (lv_q (pb_order_nodes p) l)"
    using side_shapeD(1) [OF shape_side [OF s] assms(2)] .
  have sd: "is_valid_side sd" using assms(2) by (cases sd) (auto simp: pb_levels_def)
  have "lvl (pb_order_nodes p) l \<in> set (pb_view sd p)" using assms(2) by (simp add: pb_view_def)
  moreover have "levels_ok (pb_symbol_id p) sd (pb_view sd p)"
    using ladder_ok_levels [of "pb_ladder p" sd] assms(1) sd by (simp add: pb_inv_def ladder_simps)
  ultimately show "lv_q (pb_order_nodes p) l \<noteq> []" by (auto simp: levels_ok_def lvl_def)
qed

lemma level_total:
  assumes "pb_inv p" and "l \<in> set (pb_levels sd p)"
  shows "ln_total_quantity l = queue_total (snd (lvl (pb_order_nodes p) l))"
  using level_rep(1) [OF assms] by (simp add: lrep_def lvl_def)

lemma pb_best_order_refines:
  assumes "pb_inv p"
  shows "pb_best_order sd p = spec_best_order sd (pb_ladder p)"
proof (cases "pb_levels sd p")
  case (Cons l ls)
  then have "l \<in> set (pb_levels sd p)" by simp
  note r = level_rep [OF assms this]
  from r(1) have "seg (pb_order_nodes p) kNoIndex (ln_head l) (lv_q (pb_order_nodes p) l) kNoIndex"
    by (simp add: lrep_def)
  then have "ln_head l = hd (lv_q (pb_order_nodes p) l)" using seg_hd r(2) by (fastforce simp: hdq_def)
  with Cons r(2) show ?thesis
    by (simp add: pb_best_order_def spec_best_order_def ladder_simps pb_view_def lvl_def hd_map)
qed (simp add: pb_best_order_def spec_best_order_def ladder_simps pb_view_def)

definition pb_best_price :: "side \<Rightarrow> pooled_book \<Rightarrow> price_ticks option" where
  "pb_best_price sd p = (case sd of Buy \<Rightarrow> pb_best_bid p | Sell \<Rightarrow> pb_best_ask p | NoSide \<Rightarrow> None)"

lemma pb_best_price_refines: "pb_best_price sd p = spec_best_price sd (pb_ladder p)"
  by (cases sd) (auto simp: pb_best_price_def pb_best_bid_def pb_best_ask_def spec_best_price_def
      ladder_simps pb_view_def pb_levels_def lvl_def split: list.splits)

lemma find_level_find: "find_level ls price = find (\<lambda>l. ln_price_ticks l = price) ls"
  by (induction ls) (auto simp: find_level_def find_index_def)

lemma pb_total_refines:
  assumes "pb_inv p"
  shows "pb_total_quantity_at sd price p = spec_total_quantity_at sd price (pb_ladder p)"
proof -
  have lev: "pb_level sd price p = find (\<lambda>l. ln_price_ticks l = price) (pb_levels sd p)"
    by (cases sd) (simp_all add: pb_level_def find_level_find pb_levels_def)
  have "map_of (map (lvl nodes) ls) price = map_option (\<lambda>l. snd (lvl nodes l)) (find (\<lambda>l. ln_price_ticks l = price) ls)"
    for nodes ls by (induction ls) (auto simp: lvl_def)
  then have spec: "spec_total_quantity_at sd price (pb_ladder p) =
      (case find (\<lambda>l. ln_price_ticks l = price) (pb_levels sd p) of None \<Rightarrow> 0
       | Some l \<Rightarrow> queue_total (snd (lvl (pb_order_nodes p) l)))"
    by (simp add: spec_total_quantity_at_def ladder_simps pb_view_def split: option.split)
  show ?thesis unfolding spec pb_total_quantity_at_def lev
    using level_total [OF assms] by (auto split: option.splits dest: find_SomeD)
qed

lemma pb_fill_side_take:
  assumes "\<forall>l \<in> set ls. ln_total_quantity l = queue_total (snd (lvl nodes l))"
  shows "pb_fill_side depth acc ls = acc @ l2_of_levels (depth - length acc) (map (lvl nodes) ls)"
  using assms
proof (induction depth acc ls rule: pb_fill_side.induct)
  case (2 depth acc l ls)
  show ?case
  proof (cases "depth \<le> length acc")
    case False
    then obtain k where "depth - length acc = Suc k" "depth - Suc (length acc) = k"
      by (metis Suc_diff_Suc not_le)
    with 2 False show ?thesis by (auto simp: l2_of_levels_def lvl_def)
  qed (simp add: l2_of_levels_def)
qed (simp add: l2_of_levels_def)

lemma pb_view_refines:
  assumes "pb_inv p"
  shows "pb_l2_view depth p = spec_l2_view depth (pb_ladder p)"
proof -
  have "pb_fill_side depth [] (pb_levels sd p) = l2_of_levels depth (pb_view sd p)" for sd
    using level_total [OF assms, of _ sd]
    by (simp add: pb_fill_side_take [of "pb_levels sd p" "pb_order_nodes p"] pb_view_def)
  from this [of Buy] this [of Sell] show ?thesis
    by (cases "depth = 0")
      (simp_all add: pb_l2_view_def spec_l2_view_def pb_ladder_def pb_levels_def l2_of_levels_def)
qed

lemma checksum_queue_seg:
  assumes "seg nodes prev cur q kNoIndex" and "length q \<le> left" and "length nodes \<le> kMaxSlots"
  shows "checksum_queue nodes left cur seed = Some (foldl checksum_order seed (map (slot_order nodes) q))"
  using assms(1,2)
proof (induction q arbitrary: prev cur left seed)
  case Nil
  then show ?case by (cases left) simp_all
next
  case (Cons i q)
  then obtain left' where left: "left = Suc left'" by (cases left) auto
  have "i \<noteq> kNoIndex" using below_sentinel [OF assms(3)] Cons.prems(1) by simp
  with Cons left show ?case by auto
qed

lemma queue_bound:
  assumes "lrep nodes l q"
  shows "length q \<le> length nodes"
proof -
  have "set q \<subseteq> {..<length nodes}" using lrep_members [OF assms] by auto
  moreover have "distinct q" using assms by (simp add: lrep_def)
  ultimately show ?thesis using card_mono [of "{..<length nodes}" "set q"] distinct_card [of q] by simp
qed

lemma checksum_level_nodes_refines:
  assumes "\<forall>l \<in> set ls. lrep nodes l (lv_q nodes l)" and "length nodes \<le> kMaxSlots"
  shows "checksum_level_nodes nodes ls seed = Some (foldl (\<lambda>seed (p, q). foldl checksum_order
      (checksum_append_size (checksum_append_i64 (checksum_append_i64 seed p) (queue_total q)) (length q)) q)
      seed (map (lvl nodes) ls))"
  using assms(1)
proof (induction ls arbitrary: seed)
  case (Cons l ls)
  have r: "lrep nodes l (lv_q nodes l)" using Cons.prems by simp
  then have s: "seg nodes kNoIndex (ln_head l) (lv_q nodes l) kNoIndex" by (simp add: lrep_def)
  from checksum_queue_seg [OF s queue_bound [OF r] assms(2)] r Cons show ?case
    by (simp add: Let_def lvl_def lrep_def)
qed simp

lemma pb_checksum_refines:
  assumes "pb_inv p"
  shows "pb_checksum p = Some (spec_checksum (pb_ladder p))"
proof -
  have len: "length (pb_order_nodes p) \<le> kMaxSlots" using assms by (simp add: pb_inv_def pb_shape_def)
  have "pb_checksum_levels (pb_order_nodes p) sd (pb_levels sd p) seed =
      Some (spec_checksum_levels seed sd (pb_view sd p))" for sd seed
    using level_rep(1) [OF assms] len
    by (simp add: pb_checksum_levels_def spec_checksum_levels_def checksum_level_nodes_refines pb_view_def)
  from this [of Buy] this [of Sell] show ?thesis
    by (simp add: pb_checksum_def spec_checksum_def pb_ladder_def pb_levels_def)
qed

lemma pb_reserve_ok:
  assumes "pb_inv p" and "n < kMaxSlots"
  shows "\<exists>p'. pb_reserve_order_capacity n p = Some p' \<and> pb_inv p' \<and> pb_ladder p' = pb_ladder p"
proof -
  obtain ix where ix: "fi_reserve n (pb_order_index p) = Some ix" "fi_inv ix" "fi_size ix = fi_size (pb_order_index p)"
    "\<And>i. fi_find i ix = fi_find i (pb_order_index p)"
    using fi_reserve_ok [of "pb_order_index p" n] assms by (auto simp: pb_inv_def)
  let ?p = "p\<lparr>pb_order_index := ix\<rparr>"
  have l: "pb_ladder ?p = pb_ladder p" by (simp add: pb_ladder_def pb_view_def)
  have act: "active ?p = active p" by (simp add: active_def fun_eq_iff)
  have "pb_inv ?p" using assms(1) ix unfolding pb_inv_def l act
    by (simp add: pb_shape_def placed_def act)
  with ix(1) l show ?thesis by (simp add: pb_reserve_order_capacity_def)
qed

interpretation pool: l3_book pb_step pb_ladder pb_inv "\<lambda>p. length (pb_order_nodes p)" pb_find_order
  pb_best_order pb_best_price pb_total_quantity_at pb_l2_view "\<lambda>p. the (pb_checksum p)"
  by unfold_locales
    (simp add: pb_inv_def, rule pb_step_refines, assumption+, simp_all add: pb_find_refines
      pb_best_order_refines pb_best_price_refines pb_total_refines pb_view_refines pb_checksum_refines)

end
