(* ===== verification/Pooled_Invariants.thy ===== *)
theory Pooled_Invariants
  imports Pooled_Order_Book_Correct Book_Invariants
begin

text \<open>
  The self-check of the pooled book, \<^verbatim>\<open>PooledOrderBook::check_invariants\<close> of
  \<^verbatim>\<open>book/pooled_order_book.cpp\<close>: it follows the links of every queue, then scans the node pool. The
  loop over a queue ends only when it meets the end mark or a slot out of range, so it is a partial function;
  on a book that only the operations have touched it returns, and the report is clean.
\<close>

section \<open>The walk\<close>

record queue_walk =
  qw_report :: book_invariant_report
  qw_seen :: "order_id list"
  qw_sum :: quantity
  qw_count :: nat
  qw_previous :: nat

definition pb_check_node :: "pooled_book \<Rightarrow> side \<Rightarrow> price_ticks \<Rightarrow> nat \<Rightarrow> queue_walk \<Rightarrow> queue_walk" where
  "pb_check_node p sd price n w =
     (let node = pb_order_nodes p ! n; x = on_order node;
          report = violation_if (\<not> on_active node) ''price level references inactive order node'' (qw_report w);
          report = violation_if (on_previous node \<noteq> qw_previous w) ''order queue previous link is inconsistent'' report;
          report = violation_if (o_quantity x \<le> 0) ''resting order has non-positive quantity'' report;
          report = violation_if (o_order_id x \<in> set (qw_seen w)) ''duplicate order id in price queues'' report;
          report = violation_if (o_side x \<noteq> sd \<or> o_price_ticks x \<noteq> price)
                     ''order side or price does not match containing level'' report;
          report = (case fi_find (o_order_id x) (pb_order_index p) of
              None \<Rightarrow> add_violation report ''order id missing from lookup index''
            | Some slot \<Rightarrow> violation_if (slot \<noteq> n) ''lookup index locator points to inconsistent order'' report)
      in \<lparr>qw_report = report, qw_seen = List.insert (o_order_id x) (qw_seen w), qw_sum = qw_sum w + o_quantity x,
          qw_count = qw_count w + 1, qw_previous = n\<rparr>)"

partial_function (option) pb_check_queue ::
  "pooled_book \<Rightarrow> side \<Rightarrow> price_ticks \<Rightarrow> nat \<Rightarrow> queue_walk \<Rightarrow> queue_walk option" where
  "pb_check_queue p sd price n w =
     (if n = kNoIndex then Some w
      else if n \<ge> length (pb_order_nodes p)
      then Some (w\<lparr>qw_report := add_violation (qw_report w) ''price level references out-of-range order node''\<rparr>)
      else pb_check_queue p sd price (on_next (pb_order_nodes p ! n)) (pb_check_node p sd price n w))"

definition pb_check_level_head :: "side \<Rightarrow> price_ticks option \<Rightarrow> level_node \<Rightarrow> book_invariant_report \<Rightarrow> book_invariant_report" where
  "pb_check_level_head sd previous_price l report =
     (let report = violation_if (ln_order_count l = 0 \<or> ln_head l = kNoIndex \<or> ln_tail l = kNoIndex)
                     ''empty price level was retained'' report
      in case previous_price of None \<Rightarrow> report
         | Some previous \<Rightarrow>
             violation_if (sd = Sell \<and> previous \<ge> ln_price_ticks l) ''ask levels are not sorted best-first''
               (violation_if (sd = Buy \<and> previous \<le> ln_price_ticks l) ''bid levels are not sorted best-first'' report))"

definition pb_check_level_tail :: "level_node \<Rightarrow> queue_walk \<Rightarrow> book_invariant_report" where
  "pb_check_level_tail l w =
     (let report = violation_if (qw_previous w \<noteq> ln_tail l) ''order queue tail link is inconsistent'' (qw_report w);
          report = violation_if (qw_count w \<noteq> ln_order_count l)
                     ''price-level order count does not match linked orders'' report
      in violation_if (qw_sum w \<noteq> ln_total_quantity l) ''price-level total does not match child order sum'' report)"

fun pb_check_levels ::
  "pooled_book \<Rightarrow> side \<Rightarrow> price_ticks option \<Rightarrow> level_node list \<Rightarrow> book_invariant_report \<times> order_id list \<Rightarrow>
   (book_invariant_report \<times> order_id list) option" where
  "pb_check_levels p sd previous_price [] s = Some s"
| "pb_check_levels p sd previous_price (l # ls) (report, seen) =
     Option.bind (pb_check_queue p sd (ln_price_ticks l) (ln_head l)
         \<lparr>qw_report = pb_check_level_head sd previous_price l report, qw_seen = seen, qw_sum = 0, qw_count = 0,
          qw_previous = kNoIndex\<rparr>)
       (\<lambda>w. pb_check_levels p sd (Some (ln_price_ticks l)) ls (pb_check_level_tail l w, qw_seen w))"

definition pb_check_slot :: "pooled_book \<Rightarrow> order_id list \<Rightarrow> book_invariant_report \<Rightarrow> nat \<Rightarrow> book_invariant_report" where
  "pb_check_slot p seen report n =
     (let node = pb_order_nodes p ! n; i = o_order_id (on_order node) in
      if \<not> on_active node then report
      else violation_if (fi_find i (pb_order_index p) \<noteq> Some n) ''active order node is not present in lookup index''
             (violation_if (i \<notin> set seen) ''active order node is not present in queues'' report))"

definition pb_check_invariants :: "pooled_book \<Rightarrow> book_invariant_report option" where
  "pb_check_invariants p =
     Option.bind (pb_check_levels p Buy None (pb_bids p) (empty_report, []))
       (\<lambda>s. Option.bind (pb_check_levels p Sell None (pb_asks p) s)
          (\<lambda>(report, seen).
             let report = violation_if (length seen \<noteq> fi_size (pb_order_index p))
                            ''lookup index size differs from queued order count'' report
             in Some (foldl (pb_check_slot p seen) report [0..<length (pb_order_nodes p)])))"

section \<open>A consistent book is reported clean\<close>

lemmas [simp del] = pb_check_queue.simps

definition slot_clean :: "pooled_book \<Rightarrow> side \<Rightarrow> price_ticks \<Rightarrow> nat \<Rightarrow> bool" where
  "slot_clean p sd price n \<longleftrightarrow> (let x = slot_order (pb_order_nodes p) n in
     0 < o_quantity x \<and> o_side x = sd \<and> o_price_ticks x = price \<and> fi_find (o_order_id x) (pb_order_index p) = Some n)"

abbreviation slot_id :: "pooled_book \<Rightarrow> nat \<Rightarrow> order_id" where
  "slot_id p n \<equiv> o_order_id (slot_order (pb_order_nodes p) n)"

lemma check_queue_clean:
  assumes "seg (pb_order_nodes p) (qw_previous w) n q kNoIndex" and "length (pb_order_nodes p) \<le> kMaxSlots"
    and "\<forall>n \<in> set q. slot_clean p sd price n" and "distinct (qw_seen w @ map (slot_id p) q)"
  shows "pb_check_queue p sd price n w = Some \<lparr>qw_report = qw_report w, qw_seen = rev (map (slot_id p) q) @ qw_seen w,
      qw_sum = qw_sum w + queue_total (map (slot_order (pb_order_nodes p)) q), qw_count = qw_count w + length q,
      qw_previous = lastq (qw_previous w) q\<rparr>"
  using assms(1,3,4)
proof (induction q arbitrary: n w)
  case Nil
  then show ?case by (simp add: pb_check_queue.simps queue_total_def)
next
  case (Cons i q)
  have i: "n = i" "i < length (pb_order_nodes p)" "on_active (pb_order_nodes p ! i)" "on_previous (pb_order_nodes p ! i) = qw_previous w"
    and rest: "seg (pb_order_nodes p) i (on_next (pb_order_nodes p ! i)) q kNoIndex" using Cons.prems(1) by auto
  have "i \<noteq> kNoIndex" using below_sentinel [OF assms(2)] i(2) by simp
  let ?w = "\<lparr>qw_report = qw_report w, qw_seen = slot_id p i # qw_seen w,
      qw_sum = qw_sum w + o_quantity (slot_order (pb_order_nodes p) i), qw_count = qw_count w + 1, qw_previous = i\<rparr>"
  have "slot_clean p sd price i" "slot_id p i \<notin> set (qw_seen w)" using Cons.prems(2,3) by auto
  then have node: "pb_check_node p sd price i w = ?w"
    using i by (simp add: pb_check_node_def slot_clean_def Let_def List.insert_def)
  have "pb_check_queue p sd price n w = pb_check_queue p sd price (on_next (pb_order_nodes p ! i)) ?w"
    using i \<open>i \<noteq> kNoIndex\<close> by (subst pb_check_queue.simps) (simp add: node)
  also have "\<dots> = Some \<lparr>qw_report = qw_report ?w, qw_seen = rev (map (slot_id p) q) @ qw_seen ?w,
      qw_sum = qw_sum ?w + queue_total (map (slot_order (pb_order_nodes p)) q), qw_count = qw_count ?w + length q,
      qw_previous = lastq (qw_previous ?w) q\<rparr>"
    by (rule Cons.IH) (use rest Cons.prems(2,3) in auto)
  finally show ?case by (simp add: queue_total_def lastq_def)
qed

lemma check_levels_ok:
  assumes "\<forall>l \<in> set ls. lrep (pb_order_nodes p) l (lv_q (pb_order_nodes p) l) \<and> lv_q (pb_order_nodes p) l \<noteq> [] \<and>
      (\<forall>n \<in> set (lv_q (pb_order_nodes p) l). slot_clean p sd (ln_price_ticks l) n)"
    and "sorted_wrt (better sd) (map ln_price_ticks ls)" and "is_valid_side sd"
    and "\<forall>previous. previous_price = Some previous \<longrightarrow> (\<forall>l \<in> set ls. better sd previous (ln_price_ticks l))"
    and "distinct (seen @ map (slot_id p) (concat (map (lv_q (pb_order_nodes p)) ls)))"
    and len: "length (pb_order_nodes p) \<le> kMaxSlots"
  shows "pb_check_levels p sd previous_price ls (report, seen) =
    Some (report, rev (map (slot_id p) (concat (map (lv_q (pb_order_nodes p)) ls))) @ seen)"
  using assms(1-5)
proof (induction ls arbitrary: previous_price report seen)
  case Nil
  then show ?case by simp
next
  case (Cons l ls)
  let ?q = "lv_q (pb_order_nodes p) l"
  have l: "lrep (pb_order_nodes p) l ?q" "?q \<noteq> []" "\<forall>n \<in> set ?q. slot_clean p sd (ln_price_ticks l) n"
    using Cons.prems(1) by simp_all
  then have s: "seg (pb_order_nodes p) kNoIndex (ln_head l) ?q kNoIndex" "ln_tail l = lastq kNoIndex ?q"
    "ln_order_count l = length ?q" "ln_total_quantity l = queue_total (map (slot_order (pb_order_nodes p)) ?q)"
    by (simp_all add: lrep_def)
  have member: "n \<noteq> kNoIndex" if "n \<in> set ?q" for n
    using below_sentinel [OF len] lrep_members [OF l(1) that] by simp
  have ends: "ln_head l \<noteq> kNoIndex" "ln_tail l \<noteq> kNoIndex"
    using member l(2) seg_hd [OF s(1)] s(2) by (auto simp: hdq_def lastq_def)
  have head: "pb_check_level_head sd previous_price l report = report"
    using ends s(3) l(2) Cons.prems(3,4) by (cases sd; cases previous_price) (auto simp: pb_check_level_head_def Let_def better_def)
  let ?w = "\<lparr>qw_report = report, qw_seen = seen, qw_sum = 0, qw_count = 0, qw_previous = kNoIndex\<rparr>"
  have new: "distinct (qw_seen ?w @ map (slot_id p) ?q)" using Cons.prems(5) by auto
  have walk: "pb_check_queue p sd (ln_price_ticks l) (ln_head l) ?w = Some \<lparr>qw_report = report,
      qw_seen = rev (map (slot_id p) ?q) @ seen, qw_sum = ln_total_quantity l, qw_count = ln_order_count l, qw_previous = ln_tail l\<rparr>"
    using check_queue_clean [of p ?w "ln_head l" ?q sd "ln_price_ticks l"] s len l(3) new by simp
  have "pb_check_levels p sd (Some (ln_price_ticks l)) ls (report, rev (map (slot_id p) ?q) @ seen) =
      Some (report, rev (map (slot_id p) (concat (map (lv_q (pb_order_nodes p)) ls))) @ rev (map (slot_id p) ?q) @ seen)"
  proof (rule Cons.IH)
    have "distinct (seen @ map (slot_id p) ?q @ map (slot_id p) (concat (map (lv_q (pb_order_nodes p)) ls)))"
      using Cons.prems(5) unfolding list.map concat.simps map_append .
    then show "distinct ((rev (map (slot_id p) ?q) @ seen) @ map (slot_id p) (concat (map (lv_q (pb_order_nodes p)) ls)))"
      unfolding distinct_append set_append set_rev distinct_rev by blast
  qed (use Cons.prems(1-4) in auto)
  then show ?case by (simp add: head walk pb_check_level_tail_def Let_def)
qed

lemma check_slots_clean:
  assumes "\<And>n. n \<in> set ns \<Longrightarrow> on_active (pb_order_nodes p ! n) \<Longrightarrow> slot_id p n \<in> set seen \<and> fi_find (slot_id p n) (pb_order_index p) = Some n"
  shows "foldl (pb_check_slot p seen) report ns = report"
  using assms by (induction ns arbitrary: report) (simp_all add: pb_check_slot_def Let_def)

lemma slot_orders: "map (slot_order nodes) (concat (map (lv_q nodes) ls)) = flat (map (lvl nodes) ls)"
  by (induction ls) (simp_all add: lvl_def flat_def)

lemma pb_check_clean:
  assumes inv: "pb_inv p"
  shows "pb_check_invariants p = Some empty_report"
proof -
  let ?nodes = "pb_order_nodes p"
  let ?qs = "\<lambda>sd. concat (map (lv_q ?nodes) (pb_levels sd p))"
  let ?ids = "\<lambda>sd. map (slot_id p) (?qs sd)"
  have parts: "pb_shape p" "placed {} p" "ladder_ok (pb_ladder p)" using inv by (simp_all add: pb_inv_def)
  have len: "length ?nodes \<le> kMaxSlots" using parts(1) by (simp add: pb_shape_def)
  have ids: "?ids sd = map o_order_id (flat (pb_view sd p))" for sd
    unfolding pb_view_def slot_orders [symmetric] by simp
  have dist: "distinct (?ids Buy @ ?ids Sell)"
    using parts(3) unfolding ids by (simp add: ladder_ok_def ld_orders_def pb_ladder_def)
  have level: "lrep ?nodes l (lv_q ?nodes l) \<and> lv_q ?nodes l \<noteq> [] \<and> (\<forall>n \<in> set (lv_q ?nodes l). slot_clean p sd (ln_price_ticks l) n)"
    if "l \<in> set (pb_levels sd p)" for sd l
  proof -
    have "slot_clean p sd (ln_price_ticks l) n" if n: "n \<in> set (lv_q ?nodes l)" for n
    proof -
      note d = side_shapeD(2) [OF shape_side [OF parts(1)] \<open>l \<in> set (pb_levels sd p)\<close> n]
      then have "active p n" by (simp add: active_def)
      then have "slot_order ?nodes n \<in> set (ld_orders (pb_ladder p))" using ladder_orders [OF inv] by blast
      then have "0 < o_quantity (slot_order ?nodes n)"
        using ladder_order_side [OF parts(3)] by (auto simp: is_valid_resting_order_def)
      moreover have "fi_find (slot_id p n) (pb_order_index p) = Some n" using index_slot [OF inv] \<open>active p n\<close> by simp
      ultimately show ?thesis using d by (simp add: slot_clean_def Let_def)
    qed
    moreover have "lv_q ?nodes l \<noteq> []"
      using level_rep [OF inv] that by blast
    ultimately show ?thesis using side_shapeD(1) [OF shape_side [OF parts(1)] that] by blast
  qed
  have sorted: "sorted_wrt (better sd) (map ln_price_ticks (pb_levels sd p))" for sd
    using shape_side [OF parts(1), of sd] by (simp add: side_shape_def)
  have walk: "pb_check_levels p sd None (pb_levels sd p) (empty_report, seen) = Some (empty_report, rev (?ids sd) @ seen)"
    if "is_valid_side sd" "distinct (seen @ ?ids sd)" for sd seen
    using check_levels_ok [of "pb_levels sd p" p sd None seen empty_report] level sorted that len by simp
  let ?seen = "rev (?ids Sell) @ rev (?ids Buy) @ []"
  have all_seen: "slot_id p n \<in> set ?seen" if "active p n" for n
  proof -
    have "slot_order ?nodes n \<in> set (ld_orders (pb_ladder p))" using ladder_orders [OF inv] that by blast
    then have "slot_id p n \<in> set (map o_order_id (ld_orders (pb_ladder p)))" by simp
    then show ?thesis unfolding ids ld_orders_def pb_ladder_def by auto
  qed
  have size: "length ?seen = fi_size (pb_order_index p)"
  proof -
    have "set (?qs Buy @ ?qs Sell) = {n. active p n}"
    proof (intro equalityI subsetI)
      fix n
      assume "n \<in> set (?qs Buy @ ?qs Sell)"
      then obtain sd l where "l \<in> set (pb_levels sd p)" "n \<in> set (lv_q ?nodes l)" by auto
      then show "n \<in> {n. active p n}" using side_shapeD(2) [OF shape_side [OF parts(1)]] by (auto simp: active_def)
    next
      fix n
      assume "n \<in> {n. active p n}"
      then obtain l where "l \<in> set (pb_levels (o_side (slot_order ?nodes n)) p)" "n \<in> set (lv_q ?nodes l)"
        using parts(2) by (auto simp: placed_def)
      then show "n \<in> set (?qs Buy @ ?qs Sell)" by (cases "o_side (slot_order ?nodes n)") (auto simp: pb_levels_def)
    qed
    moreover have "distinct (?qs Buy @ ?qs Sell)" using dist unfolding map_append [symmetric] distinct_map by (rule conjunct1)
    ultimately have "length (?qs Buy @ ?qs Sell) = card {n. active p n}" by (metis distinct_card)
    then show ?thesis using inv by (simp add: pb_inv_def)
  qed
  have slots: "foldl (pb_check_slot p ?seen) empty_report [0..<length ?nodes] = empty_report"
    by (rule check_slots_clean) (use all_seen index_slot [OF inv] in \<open>auto simp: active_def\<close>)
  show ?thesis
    using walk [of Buy "[]"] walk [of Sell "rev (?ids Buy) @ []"] dist size slots
    by (simp add: pb_check_invariants_def pb_levels_def Let_def disjoint_iff)
qed

end
