(* ===== verification/Book_Properties.thy ===== *)
theory Book_Properties
  imports Pooled_Invariants
begin

text \<open>
  What the two order books and the flat order index promise, over whole runs of operations: both books
  are the same ladder observed through the same interface, their own invariant check stays clean,
  and the hash index is a map whose operations always return.
\<close>

section \<open>Runs of the two books\<close>

lemma ob_run:
  assumes "length ops < kMaxSlots"
  shows "ob_inv (snd (run_with ob_step ops (ob_new sy)))"
    and "run_with spec_step ops (ld_empty sy) =
      (fst (run_with ob_step ops (ob_new sy)), ob_ladder (snd (run_with ob_step ops (ob_new sy))))"
  using std.run_refines [OF ob_inv_new [of sy], of ops] assms by simp_all

lemma pb_run:
  assumes "length ops < kMaxSlots"
  shows "pb_inv (snd (run_with pb_step ops (pb_new sy)))"
    and "run_with spec_step ops (ld_empty sy) =
      (fst (run_with pb_step ops (pb_new sy)), pb_ladder (snd (run_with pb_step ops (pb_new sy))))"
  using pool.run_refines [of "pb_new sy" ops] pb_new_ok [of sy] assms by (simp_all add: pb_new_def)

section \<open>Runs of the index\<close>

datatype index_op =
    Ix_Insert order_id nat
  | Ix_Erase order_id

fun fi_run :: "index_op list \<Rightarrow> flat_index \<Rightarrow> (bool list \<times> flat_index) option" where
  "fi_run [] ix = Some ([], ix)"
| "fi_run (Ix_Insert i v # ops) ix =
     (case fi_insert i v ix of None \<Rightarrow> None
      | Some (ok, ix) \<Rightarrow> (case fi_run ops ix of None \<Rightarrow> None | Some (oks, ix) \<Rightarrow> Some (ok # oks, ix)))"
| "fi_run (Ix_Erase i # ops) ix =
     (let (ok, ix) = fi_erase i ix in (case fi_run ops ix of None \<Rightarrow> None | Some (oks, ix) \<Rightarrow> Some (ok # oks, ix)))"

fun map_run :: "index_op list \<Rightarrow> (order_id \<Rightarrow> nat option) \<Rightarrow> bool list \<times> (order_id \<Rightarrow> nat option)" where
  "map_run [] m = ([], m)"
| "map_run (Ix_Insert i v # ops) m =
     (let (oks, m') = map_run ops (if m i = None then m(i := Some v) else m) in ((m i = None) # oks, m'))"
| "map_run (Ix_Erase i # ops) m = (let (oks, m') = map_run ops (m(i := None)) in ((m i \<noteq> None) # oks, m'))"

lemma fi_run_refines:
  assumes "fi_inv ix" and "fi_size ix + length ops < kMaxSlots" and "\<forall>i v. Ix_Insert i v \<in> set ops \<longrightarrow> i \<noteq> kInvalidOrderId"
    and "m = (\<lambda>i. fi_find i ix)"
  shows "\<exists>ix'. fi_run ops ix = Some (fst (map_run ops m), ix') \<and> fi_inv ix' \<and> (\<forall>i. fi_find i ix' = snd (map_run ops m) i)"
  using assms
proof (induction ops arbitrary: ix m)
  case Nil
  then show ?case by simp
next
  case (Cons op ops)
  show ?case
  proof (cases op)
    case (Ix_Insert i v)
    obtain ix1 where 1: "fi_insert i v ix = Some (fi_find i ix = None, ix1)" "fi_inv ix1"
      "fi_size ix1 = fi_size ix + (if fi_find i ix = None then 1 else 0)"
      "\<forall>j. fi_find j ix1 = (if fi_find i ix = None \<and> j = i then Some v else fi_find j ix)"
      using fi_insert_ok [of ix i v] Cons.prems Ix_Insert by auto
    have m: "(if m i = None then m(i := Some v) else m) = (\<lambda>j. fi_find j ix1)"
      using 1(4) Cons.prems(4) by auto
    have "fi_size ix1 + length ops < kMaxSlots" using 1(3) Cons.prems(2) by (auto split: if_splits)
    moreover have "\<forall>i v. Ix_Insert i v \<in> set ops \<longrightarrow> i \<noteq> kInvalidOrderId" using Cons.prems(3) by simp
    ultimately obtain ix2 where "fi_run ops ix1 = Some (fst (map_run ops (\<lambda>j. fi_find j ix1)), ix2)" "fi_inv ix2"
      "\<forall>i. fi_find i ix2 = snd (map_run ops (\<lambda>j. fi_find j ix1)) i"
      using Cons.IH [OF 1(2) _ _ refl] by blast
    with 1(1) m Cons.prems(4) show ?thesis by (auto simp: Ix_Insert Let_def split: prod.splits)
  next
    case (Ix_Erase i)
    note e = fi_erase_ok [OF Cons.prems(1), of i]
    obtain ok ix1 where p: "fi_erase i ix = (ok, ix1)" by (cases "fi_erase i ix")
    have m: "m(i := None) = (\<lambda>j. fi_find j ix1)" using e p Cons.prems(4) by auto
    have "fi_size ix1 + length ops < kMaxSlots" using e p Cons.prems(2) by auto
    moreover have "\<forall>i v. Ix_Insert i v \<in> set ops \<longrightarrow> i \<noteq> kInvalidOrderId" using Cons.prems(3) by simp
    moreover have "fi_inv ix1" using e p by simp
    ultimately obtain ix2 where "fi_run ops ix1 = Some (fst (map_run ops (\<lambda>j. fi_find j ix1)), ix2)" "fi_inv ix2"
      "\<forall>i. fi_find i ix2 = snd (map_run ops (\<lambda>j. fi_find j ix1)) i"
      using Cons.IH [OF _ _ _ refl] by blast
    with e p m Cons.prems(4) show ?thesis by (auto simp: Ix_Erase Let_def split: prod.splits)
  qed
qed

section \<open>Properties\<close>

text \<open>C3: the map-based book and the pooled book are indistinguishable: the same operations on two new
  books give the same results, and afterwards every query, the depth view and the checksum agree.\<close>

theorem books_agree:
  assumes "length ops < kMaxSlots"
  shows "let (rs, b) = run_with ob_step ops (ob_new sy); (rs', p) = run_with pb_step ops (pb_new sy) in
    rs = rs' \<and> (\<forall>i. ob_find_order i b = pb_find_order i p) \<and>
    (\<forall>sd. ob_best_order sd b = pb_best_order sd p \<and> ob_best_price sd b = pb_best_price sd p) \<and>
    (\<forall>sd px. ob_total_quantity_at sd px b = pb_total_quantity_at sd px p) \<and>
    (\<forall>d. ob_l2_view d b = pb_l2_view d p) \<and> pb_checksum p = Some (ob_checksum b)"
proof -
  obtain rs b where b: "run_with ob_step ops (ob_new sy) = (rs, b)" by (cases "run_with ob_step ops (ob_new sy)")
  obtain rs' p where p: "run_with pb_step ops (pb_new sy) = (rs', p)" by (cases "run_with pb_step ops (pb_new sy)")
  have inv: "ob_inv b" "pb_inv p" using ob_run(1) [OF assms] pb_run(1) [OF assms] b p by (metis snd_conv)+
  have eq: "rs = rs'" "ob_ladder b = pb_ladder p"
    using ob_run(2) [OF assms, of sy] pb_run(2) [OF assms, of sy] b p by simp_all
  show ?thesis
    using inv eq by (simp add: b p std.find_refines pool.find_refines std.best_order_refines pool.best_order_refines
        std.best_price_refines pool.best_price_refines std.total_refines pool.total_refines
        std.view_refines pool.view_refines pb_checksum_refines std.check_refines)
qed

definition demo_book_ops :: "book_op list" where
  "demo_book_ops = [Op_Add \<lparr>o_order_id = 1, o_client_order_id = 1, o_symbol_id = 1, o_side = Buy, o_price_ticks = 10,
       o_quantity = 5, o_timestamp_ns = 0, o_sequence_number = 1\<rparr>, Op_Reduce 1 2, Op_Replace 1 11 4 9 2, Op_Cancel 1]"

lemma demo_book_ops_short: "length demo_book_ops < kMaxSlots"
  by (simp add: demo_book_ops_def kMaxSlots_def)

lemma books_agree_witness:
  "pb_checksum (snd (run_with pb_step demo_book_ops (pb_new 1))) = Some (ob_checksum (snd (run_with ob_step demo_book_ops (ob_new 1))))"
  using books_agree [OF demo_book_ops_short, of 1] by (simp add: Let_def case_prod_beta)

text \<open>C6: the map-based book implements the abstract ladder: a run of operations returns what the
  ladder returns, and the book it leaves abstracts to the ladder's.\<close>

theorem order_book_refines_ladder:
  assumes "length ops < kMaxSlots"
  shows "run_with spec_step ops (ld_empty sy) =
    (let (rs, b) = run_with ob_step ops (ob_new sy) in (rs, ob_ladder b))"
  using ob_run(2) [OF assms, of sy] by (simp add: case_prod_beta)

lemma order_book_refines_ladder_witness:
  "fst (run_with spec_step demo_book_ops (ld_empty 1)) = fst (run_with ob_step demo_book_ops (ob_new 1))"
  using order_book_refines_ladder [OF demo_book_ops_short, of 1] by (simp add: case_prod_beta)

text \<open>C12: after any run of operations the consistency check of either book returns and reports no violation.\<close>

theorem book_check_stays_clean:
  assumes "length ops < kMaxSlots"
  shows "ob_check_invariants (snd (run_with ob_step ops (ob_new sy))) = empty_report \<and>
    pb_check_invariants (snd (run_with pb_step ops (pb_new sy))) = Some empty_report"
  using ob_check_clean [OF ob_run(1) [OF assms]] pb_check_clean [OF pb_run(1) [OF assms]] by blast

lemma book_check_stays_clean_witness:
  "pb_check_invariants (snd (run_with pb_step demo_book_ops (pb_new 1))) = Some empty_report"
  using book_check_stays_clean [OF demo_book_ops_short] by blast

text \<open>C5: the flat order index is a map: every run of inserts and erases returns, with the results of the
  same run on a map, and afterwards each lookup finds what the map holds.\<close>

theorem flat_index_is_a_map:
  assumes "length ops < kMaxSlots" and "\<forall>i v. Ix_Insert i v \<in> set ops \<longrightarrow> i \<noteq> kInvalidOrderId"
  shows "\<exists>ix. fi_run ops fi_new = Some (fst (map_run ops (\<lambda>_. None)), ix) \<and>
    (\<forall>i. fi_find i ix = snd (map_run ops (\<lambda>_. None)) i)"
proof -
  have "fi_inv fi_new" "fi_size fi_new = 0" "(\<lambda>_. None) = (\<lambda>i. fi_find i fi_new)"
    by (simp_all add: fi_new_def fi_inv_def fi_find_def)
  then show ?thesis using fi_run_refines [of fi_new ops "\<lambda>_. None"] assms by auto
qed

lemma flat_index_is_a_map_witness:
  "\<exists>ix. fi_run [Ix_Insert 5 7, Ix_Insert 5 8, Ix_Erase 5, Ix_Erase 5] fi_new = Some ([True, False, True, False], ix) \<and>
     fi_find 5 ix = None"
  using flat_index_is_a_map [of "[Ix_Insert 5 7, Ix_Insert 5 8, Ix_Erase 5, Ix_Erase 5]"]
  by (auto simp: kMaxSlots_def simp del: fi_run.simps)

end
