(* ===== verification/Execution_Report.thy ===== *)
theory Execution_Report
  imports Book_Invariants
begin

text \<open>
  \<^verbatim>\<open>matching/execution_report.hpp\<close>, \<^verbatim>\<open>matching/execution_report.cpp\<close> and
  \<^verbatim>\<open>matching/order_state.hpp\<close>: the report a matching engine or a risk gateway answers
  with, its enumerations with their names and wire values, and the state the engine keeps per
  order. The two enumerations a client fills in, \<open>order_type\<close> and \<open>time_in_force\<close>, have a
  constructor for the values of their underlying type the code names no enumerator for; the
  engine tests for them.
\<close>

section \<open>Enumerations\<close>

datatype order_type = Ot_Limit | Ot_Market | Ot_Other u8
datatype time_in_force = Tif_Gtc | Tif_Ioc | Tif_Fok | Tif_Other u8
datatype order_status = Os_New | Os_PartiallyFilled | Os_Filled | Os_Canceled | Os_Replaced | Os_Rejected
datatype exec_type = Et_New | Et_Trade | Et_Canceled | Et_Replaced | Et_Rejected

datatype reject_reason =
    Rr_None | Rr_InvalidQuantity | Rr_InvalidPrice | Rr_DuplicateClientOrderId | Rr_UnknownOrder
  | Rr_KillSwitch | Rr_MaxOrderQuantity | Rr_MaxNotional | Rr_MaxPosition | Rr_MaxGrossExposure
  | Rr_PriceBand | Rr_StaleMarketData | Rr_Unsupported | Rr_InternalError | Rr_MaxOpenOrderQuantity
  | Rr_MessageRateLimit | Rr_SelfTradePrevention | Rr_Disconnected | Rr_MaxPortfolioGrossExposure
  | Rr_MaxPortfolioNetExposure | Rr_MaxSymbolConcentration | Rr_MaxPortfolioLoss
  | Rr_PostOnlyWouldCross | Rr_FokNotFillable

fun order_type_to_string :: "order_type \<Rightarrow> string" where
  "order_type_to_string Ot_Limit = ''Limit''"
| "order_type_to_string Ot_Market = ''Market''"
| "order_type_to_string (Ot_Other _) = ''Unknown''"

fun time_in_force_to_string :: "time_in_force \<Rightarrow> string" where
  "time_in_force_to_string Tif_Gtc = ''Gtc''"
| "time_in_force_to_string Tif_Ioc = ''Ioc''"
| "time_in_force_to_string Tif_Fok = ''Fok''"
| "time_in_force_to_string (Tif_Other _) = ''Unknown''"

fun order_status_to_string :: "order_status \<Rightarrow> string" where
  "order_status_to_string Os_New = ''New''"
| "order_status_to_string Os_PartiallyFilled = ''PartiallyFilled''"
| "order_status_to_string Os_Filled = ''Filled''"
| "order_status_to_string Os_Canceled = ''Canceled''"
| "order_status_to_string Os_Replaced = ''Replaced''"
| "order_status_to_string Os_Rejected = ''Rejected''"

fun exec_type_to_string :: "exec_type \<Rightarrow> string" where
  "exec_type_to_string Et_New = ''New''"
| "exec_type_to_string Et_Trade = ''Trade''"
| "exec_type_to_string Et_Canceled = ''Canceled''"
| "exec_type_to_string Et_Replaced = ''Replaced''"
| "exec_type_to_string Et_Rejected = ''Rejected''"

fun reject_reason_to_string :: "reject_reason \<Rightarrow> string" where
  "reject_reason_to_string Rr_None = ''None''"
| "reject_reason_to_string Rr_InvalidQuantity = ''InvalidQuantity''"
| "reject_reason_to_string Rr_InvalidPrice = ''InvalidPrice''"
| "reject_reason_to_string Rr_DuplicateClientOrderId = ''DuplicateClientOrderId''"
| "reject_reason_to_string Rr_UnknownOrder = ''UnknownOrder''"
| "reject_reason_to_string Rr_KillSwitch = ''KillSwitch''"
| "reject_reason_to_string Rr_MaxOrderQuantity = ''MaxOrderQuantity''"
| "reject_reason_to_string Rr_MaxNotional = ''MaxNotional''"
| "reject_reason_to_string Rr_MaxPosition = ''MaxPosition''"
| "reject_reason_to_string Rr_MaxGrossExposure = ''MaxGrossExposure''"
| "reject_reason_to_string Rr_PriceBand = ''PriceBand''"
| "reject_reason_to_string Rr_StaleMarketData = ''StaleMarketData''"
| "reject_reason_to_string Rr_Unsupported = ''Unsupported''"
| "reject_reason_to_string Rr_InternalError = ''InternalError''"
| "reject_reason_to_string Rr_MaxOpenOrderQuantity = ''MaxOpenOrderQuantity''"
| "reject_reason_to_string Rr_MessageRateLimit = ''MessageRateLimit''"
| "reject_reason_to_string Rr_SelfTradePrevention = ''SelfTradePrevention''"
| "reject_reason_to_string Rr_Disconnected = ''Disconnected''"
| "reject_reason_to_string Rr_MaxPortfolioGrossExposure = ''MaxPortfolioGrossExposure''"
| "reject_reason_to_string Rr_MaxPortfolioNetExposure = ''MaxPortfolioNetExposure''"
| "reject_reason_to_string Rr_MaxSymbolConcentration = ''MaxSymbolConcentration''"
| "reject_reason_to_string Rr_MaxPortfolioLoss = ''MaxPortfolioLoss''"
| "reject_reason_to_string Rr_PostOnlyWouldCross = ''PostOnlyWouldCross''"
| "reject_reason_to_string Rr_FokNotFillable = ''FokNotFillable''"

fun order_status_wire :: "order_status \<Rightarrow> u8" where
  "order_status_wire Os_New = 1"
| "order_status_wire Os_PartiallyFilled = 2"
| "order_status_wire Os_Filled = 3"
| "order_status_wire Os_Canceled = 4"
| "order_status_wire Os_Replaced = 5"
| "order_status_wire Os_Rejected = 6"

fun exec_type_wire :: "exec_type \<Rightarrow> u8" where
  "exec_type_wire Et_New = 1"
| "exec_type_wire Et_Trade = 2"
| "exec_type_wire Et_Canceled = 3"
| "exec_type_wire Et_Replaced = 4"
| "exec_type_wire Et_Rejected = 5"

fun reject_reason_wire :: "reject_reason \<Rightarrow> u8" where
  "reject_reason_wire Rr_None = 0"
| "reject_reason_wire Rr_InvalidQuantity = 1"
| "reject_reason_wire Rr_InvalidPrice = 2"
| "reject_reason_wire Rr_DuplicateClientOrderId = 3"
| "reject_reason_wire Rr_UnknownOrder = 4"
| "reject_reason_wire Rr_KillSwitch = 5"
| "reject_reason_wire Rr_MaxOrderQuantity = 6"
| "reject_reason_wire Rr_MaxNotional = 7"
| "reject_reason_wire Rr_MaxPosition = 8"
| "reject_reason_wire Rr_MaxGrossExposure = 9"
| "reject_reason_wire Rr_PriceBand = 10"
| "reject_reason_wire Rr_StaleMarketData = 11"
| "reject_reason_wire Rr_Unsupported = 12"
| "reject_reason_wire Rr_InternalError = 13"
| "reject_reason_wire Rr_MaxOpenOrderQuantity = 14"
| "reject_reason_wire Rr_MessageRateLimit = 15"
| "reject_reason_wire Rr_SelfTradePrevention = 16"
| "reject_reason_wire Rr_Disconnected = 17"
| "reject_reason_wire Rr_MaxPortfolioGrossExposure = 18"
| "reject_reason_wire Rr_MaxPortfolioNetExposure = 19"
| "reject_reason_wire Rr_MaxSymbolConcentration = 20"
| "reject_reason_wire Rr_MaxPortfolioLoss = 21"
| "reject_reason_wire Rr_PostOnlyWouldCross = 22"
| "reject_reason_wire Rr_FokNotFillable = 23"

section \<open>Reports\<close>

record execution_report =
  er_client_order_id :: client_order_id
  er_exchange_order_id :: order_id
  er_symbol_id :: symbol_id
  er_side :: side
  er_order_status :: order_status
  er_exec_type :: exec_type
  er_filled_quantity :: quantity
  er_remaining_quantity :: quantity
  er_last_fill_quantity :: quantity
  er_last_fill_price_ticks :: price_ticks
  er_average_price_ticks :: price_ticks
  er_resting_price_ticks :: price_ticks
  er_timestamp_ns :: timestamp_ns
  er_reject_reason :: reject_reason

definition append_to_checksum :: "u64 \<Rightarrow> execution_report \<Rightarrow> u64" where
  "append_to_checksum seed r =
     (let seed = checksum_append_u64 seed (er_client_order_id r);
          seed = checksum_append_u64 seed (er_exchange_order_id r);
          seed = checksum_append_u32 seed (er_symbol_id r);
          seed = checksum_append_side seed (er_side r);
          seed = checksum_append_u8 seed (order_status_wire (er_order_status r));
          seed = checksum_append_u8 seed (exec_type_wire (er_exec_type r));
          seed = checksum_append_i64 seed (er_filled_quantity r);
          seed = checksum_append_i64 seed (er_remaining_quantity r);
          seed = checksum_append_i64 seed (er_last_fill_quantity r);
          seed = checksum_append_i64 seed (er_last_fill_price_ticks r);
          seed = checksum_append_i64 seed (er_average_price_ticks r);
          seed = checksum_append_i64 seed (er_resting_price_ticks r);
          seed = checksum_append_i64 seed (er_timestamp_ns r)
      in checksum_append_u8 seed (reject_reason_wire (er_reject_reason r)))"

definition checksum_execution_reports :: "execution_report list \<Rightarrow> u64" where
  "checksum_execution_reports reports = foldl append_to_checksum kFnvOffsetBasis reports"

section \<open>Order state\<close>

record order_state =
  os_client_order_id :: client_order_id
  os_exchange_order_id :: order_id
  os_symbol_id :: symbol_id
  os_side :: side
  os_order_type :: order_type
  os_limit_price_ticks :: price_ticks
  os_original_quantity :: quantity
  os_filled_quantity :: quantity
  os_filled_notional_ticks :: int
  os_client_id :: client_id
  os_status :: order_status
  os_timestamp_ns :: timestamp_ns

definition remaining_quantity :: "order_state \<Rightarrow> quantity" where
  "remaining_quantity st =
     (let remaining = os_original_quantity st - os_filled_quantity st
      in if remaining > 0 then remaining else 0)"

definition average_price_ticks :: "order_state \<Rightarrow> price_ticks" where
  "average_price_ticks st =
     (if os_filled_quantity st \<le> 0 then 0
      else c_quotient (os_filled_notional_ticks st) (os_filled_quantity st))"

lemma order_status_wire_inj [simp]: "order_status_wire a = order_status_wire b \<longleftrightarrow> a = b"
  by (cases a; cases b) auto

lemma exec_type_wire_inj [simp]: "exec_type_wire a = exec_type_wire b \<longleftrightarrow> a = b"
  by (cases a; cases b) auto

end
