(* ===== verification/Matching_Engine.thy ===== *)
theory Matching_Engine
  imports Execution_Report
begin

text \<open>
  \<^verbatim>\<open>matching/matching_engine.hpp\<close> and \<^verbatim>\<open>matching/matching_engine.cpp\<close>: the
  single-symbol price-time matching engine. Order states live in a map and the code holds
  references into it across calls; the model passes the order id and reads and writes the map,
  so that the aliasing of the incoming and the resting state is the code's. Handlers return their
  reports and the engine; the running report checksum is part of the engine.
\<close>

section \<open>Requests and state\<close>

record new_order_request =
  nr_client_order_id :: client_order_id
  nr_symbol_id :: symbol_id
  nr_side :: side
  nr_order_type :: order_type
  nr_price_ticks :: price_ticks
  nr_quantity :: quantity
  nr_timestamp_ns :: timestamp_ns
  nr_client_id :: client_id
  nr_time_in_force :: time_in_force
  nr_post_only :: bool

record cancel_order_request =
  cr_client_order_id :: client_order_id
  cr_exchange_order_id :: order_id
  cr_timestamp_ns :: timestamp_ns

record replace_order_request =
  rr_client_order_id :: client_order_id
  rr_exchange_order_id :: order_id
  rr_new_price_ticks :: price_ticks
  rr_new_quantity :: quantity
  rr_timestamp_ns :: timestamp_ns

record matching_engine =
  me_symbol_id :: symbol_id
  me_book :: order_book
  me_next_exchange_order_id :: order_id
  me_states :: "(order_id \<times> order_state) list"
  me_client_to_exchange :: "(client_order_id \<times> order_id) list"
  me_seen_client_order_ids :: "client_order_id list"
  me_reports_checksum :: u64

definition me_new :: "symbol_id \<Rightarrow> matching_engine" where
  "me_new sy = \<lparr>me_symbol_id = sy, me_book = ob_new sy, me_next_exchange_order_id = 1,
     me_states = [], me_client_to_exchange = [], me_seen_client_order_ids = [],
     me_reports_checksum = kFnvOffsetBasis\<rparr>"

type_synonym me_result = "execution_report list \<times> matching_engine"

text \<open>\<^verbatim>\<open>states_.at(id)\<close> and writes through the reference it returns.\<close>

definition state_at :: "order_id \<Rightarrow> matching_engine \<Rightarrow> order_state" where
  "state_at i e = the (map_of (me_states e) i)"

definition modify_state :: "order_id \<Rightarrow> (order_state \<Rightarrow> order_state) \<Rightarrow> matching_engine \<Rightarrow> matching_engine" where
  "modify_state i f e = e\<lparr>me_states := map (\<lambda>(k, st). if k = i then (k, f st) else (k, st)) (me_states e)\<rparr>"

text \<open>\<^verbatim>\<open>emplace\<close> leaves a present key alone.\<close>

definition emplace :: "'k \<Rightarrow> 'v \<Rightarrow> ('k \<times> 'v) list \<Rightarrow> ('k \<times> 'v) list" where
  "emplace k v m = (if map_of m k = None then AList.update k v m else m)"

section \<open>Reports\<close>

definition make_report :: "order_state \<Rightarrow> exec_type \<Rightarrow> quantity \<Rightarrow> price_ticks \<Rightarrow> timestamp_ns \<Rightarrow> reject_reason \<Rightarrow> execution_report" where
  "make_report st et qty price ts reason =
     (let remaining = (if os_status st = Os_Canceled \<or> os_status st = Os_Filled \<or> os_status st = Os_Rejected
                       then 0 else remaining_quantity st);
          resting_price = (if remaining > 0 \<and> os_order_type st = Ot_Limit then os_limit_price_ticks st else 0)
      in \<lparr>er_client_order_id = os_client_order_id st, er_exchange_order_id = os_exchange_order_id st,
          er_symbol_id = os_symbol_id st, er_side = os_side st, er_order_status = os_status st,
          er_exec_type = et, er_filled_quantity = os_filled_quantity st,
          er_remaining_quantity = remaining, er_last_fill_quantity = qty,
          er_last_fill_price_ticks = price, er_average_price_ticks = average_price_ticks st,
          er_resting_price_ticks = resting_price, er_timestamp_ns = ts, er_reject_reason = reason\<rparr>)"

definition make_reject :: "client_order_id \<Rightarrow> symbol_id \<Rightarrow> side \<Rightarrow> timestamp_ns \<Rightarrow> reject_reason \<Rightarrow> execution_report" where
  "make_reject cid sy sd ts reason =
     \<lparr>er_client_order_id = cid, er_exchange_order_id = kInvalidOrderId, er_symbol_id = sy, er_side = sd,
      er_order_status = Os_Rejected, er_exec_type = Et_Rejected, er_filled_quantity = 0,
      er_remaining_quantity = 0, er_last_fill_quantity = 0, er_last_fill_price_ticks = 0,
      er_average_price_ticks = 0, er_resting_price_ticks = 0, er_timestamp_ns = ts,
      er_reject_reason = reason\<rparr>"

definition record_report :: "execution_report \<Rightarrow> me_result \<Rightarrow> me_result" where
  "record_report r = (\<lambda>(reports, e).
     (reports @ [r], e\<lparr>me_reports_checksum := append_to_checksum (me_reports_checksum e) r\<rparr>))"

definition reserve_client_order_id :: "client_order_id \<Rightarrow> matching_engine \<Rightarrow> bool \<times> matching_engine" where
  "reserve_client_order_id cid e =
     (if cid = kInvalidClientOrderId then (False, e)
      else (cid \<notin> set (me_seen_client_order_ids e),
            e\<lparr>me_seen_client_order_ids := List.insert cid (me_seen_client_order_ids e)\<rparr>))"

section \<open>Tests against the book\<close>

definition crosses :: "side \<Rightarrow> order_type \<Rightarrow> price_ticks \<Rightarrow> matching_engine \<Rightarrow> bool" where
  "crosses sd ot limit e =
     (if sd = Buy then (case ob_best_ask (me_book e) of
          None \<Rightarrow> False | Some best \<Rightarrow> ot = Ot_Market \<or> limit \<ge> best)
      else if sd = Sell then (case ob_best_bid (me_book e) of
          None \<Rightarrow> False | Some best \<Rightarrow> ot = Ot_Market \<or> limit \<le> best)
      else False)"

fun fill_levels :: "new_order_request \<Rightarrow> quantity \<Rightarrow> l2_level list \<Rightarrow> bool" where
  "fill_levels r required [] = False"
| "fill_levels r required (lv # ls) =
     (if \<not> (nr_order_type r = Ot_Market \<or> (nr_side r = Buy \<and> l2_price_ticks lv \<le> nr_price_ticks r) \<or>
             (nr_side r = Sell \<and> l2_price_ticks lv \<ge> nr_price_ticks r)) then False
      else if l2_quantity lv \<ge> required then True
      else fill_levels r (required - l2_quantity lv) ls)"

definition can_fully_fill :: "new_order_request \<Rightarrow> matching_engine \<Rightarrow> bool" where
  "can_fully_fill r e =
     (let view = ob_l2_view (ob_order_count (me_book e)) (me_book e)
      in fill_levels r (nr_quantity r) (if nr_side r = Buy then l2_asks view else l2_bids view))"

definition would_self_trade :: "side \<Rightarrow> order_type \<Rightarrow> price_ticks \<Rightarrow> client_id \<Rightarrow> order_id \<Rightarrow> matching_engine \<Rightarrow> bool" where
  "would_self_trade sd ot limit cl excluded e =
     (if cl = 0 then False
      else list_ex (\<lambda>(i, st).
        \<not> (i = excluded \<or> os_client_id st \<noteq> cl \<or> os_side st \<noteq> opposite sd \<or> ob_find_order i (me_book e) = None) \<and>
        (ot = Ot_Market \<or> (sd = Buy \<and> limit \<ge> os_limit_price_ticks st) \<or>
         (sd = Sell \<and> limit \<le> os_limit_price_ticks st))) (me_states e))"

section \<open>Matching\<close>

definition apply_fill :: "quantity \<Rightarrow> price_ticks \<Rightarrow> order_state \<Rightarrow> order_state" where
  "apply_fill qty price st =
     (let st = st\<lparr>os_filled_quantity := os_filled_quantity st + qty,
                  os_filled_notional_ticks := os_filled_notional_ticks st + qty * price\<rparr>
      in st\<lparr>os_status := (if remaining_quantity st = 0 then Os_Filled else Os_PartiallyFilled)\<rparr>)"

definition set_status :: "order_status \<Rightarrow> order_state \<Rightarrow> order_state" where
  "set_status s st = st\<lparr>os_status := s\<rparr>"

text \<open>\<open>reject_internal\<close>: the code's \<^verbatim>\<open>status = Rejected\<close> and \<^verbatim>\<open>InternalError\<close> report.\<close>

definition reject_internal :: "order_id \<Rightarrow> timestamp_ns \<Rightarrow> me_result \<Rightarrow> me_result" where
  "reject_internal i ts = (\<lambda>(reports, e).
     let e = modify_state i (set_status Os_Rejected) e
     in record_report (make_report (state_at i e) Et_Rejected 0 0 ts Rr_InternalError) (reports, e))"

lemma reduce_success_positive: "fst (ob_reduce_order i n b) \<Longrightarrow> 0 < n"
  by (rule ccontr) (simp add: ob_reduce_order_def)

text \<open>
  The loop returns the quantity left over. An iteration goes on only when the book could be reduced
  by the fill, which is then positive: the remaining quantity decreases.
\<close>

function match_against_book :: "order_id \<Rightarrow> quantity \<Rightarrow> timestamp_ns \<Rightarrow> me_result \<Rightarrow> quantity \<times> me_result" where
  "match_against_book i remaining ts (reports, e) =
     (let incoming = state_at i e in
      if remaining > 0 \<and> crosses (os_side incoming) (os_order_type incoming) (os_limit_price_ticks incoming) e
      then (case ob_best_order (opposite (os_side incoming)) (me_book e) of
          None \<Rightarrow> (remaining, (reports, e))
        | Some resting \<Rightarrow>
            let resting_id = o_order_id resting; price = o_price_ticks resting;
                fill = min remaining (o_quantity resting)
            in if map_of (me_states e) resting_id = None
               then (remaining, reject_internal i ts (reports, e))
               else let e = modify_state resting_id (apply_fill fill price) e;
                        e = modify_state i (apply_fill fill price) e;
                        res = record_report (make_report (state_at resting_id e) Et_Trade fill price ts Rr_None) (reports, e);
                        (reports, e) = record_report (make_report (state_at i e) Et_Trade fill price ts Rr_None) res;
                        reduced = ob_reduce_order resting_id fill (me_book e);
                        e = e\<lparr>me_book := snd reduced\<rparr>
                    in if \<not> fst reduced then (remaining - fill, reject_internal i ts (reports, e))
                       else match_against_book i (remaining - fill) ts (reports, e))
      else (remaining, (reports, e)))"
  by pat_completeness auto
termination
  by (relation "measure (\<lambda>(i, remaining, ts, res). nat remaining)")
    (auto dest: reduce_success_positive)

declare match_against_book.simps [simp del]

definition rest_limit_order :: "order_state \<Rightarrow> quantity \<Rightarrow> timestamp_ns \<Rightarrow> matching_engine \<Rightarrow> bool \<times> matching_engine" where
  "rest_limit_order st remaining ts e =
     (let x = \<lparr>o_order_id = os_exchange_order_id st, o_client_order_id = os_client_order_id st,
               o_symbol_id = os_symbol_id st, o_side = os_side st, o_price_ticks = os_limit_price_ticks st,
               o_quantity = remaining, o_timestamp_ns = ts, o_sequence_number = os_exchange_order_id st\<rparr>;
          (ok, b) = ob_add_order x (me_book e)
      in (ok, e\<lparr>me_book := b\<rparr>))"

section \<open>Handlers\<close>

definition me_reject :: "client_order_id \<Rightarrow> symbol_id \<Rightarrow> side \<Rightarrow> timestamp_ns \<Rightarrow> reject_reason \<Rightarrow> matching_engine \<Rightarrow> me_result" where
  "me_reject cid sy sd ts reason e = record_report (make_reject cid sy sd ts reason) ([], e)"

definition initial_state :: "new_order_request \<Rightarrow> order_id \<Rightarrow> order_state" where
  "initial_state r i = \<lparr>os_client_order_id = nr_client_order_id r, os_exchange_order_id = i,
     os_symbol_id = nr_symbol_id r, os_side = nr_side r, os_order_type = nr_order_type r,
     os_limit_price_ticks = nr_price_ticks r, os_original_quantity = nr_quantity r,
     os_filled_quantity = 0, os_filled_notional_ticks = 0, os_client_id = nr_client_id r,
     os_status = Os_New, os_timestamp_ns = nr_timestamp_ns r\<rparr>"

text \<open>The second half of \<^verbatim>\<open>submit_order\<close>, after the last check.\<close>

definition accept_order :: "new_order_request \<Rightarrow> matching_engine \<Rightarrow> me_result" where
  "accept_order r e =
     (let i = me_next_exchange_order_id e; ts = nr_timestamp_ns r;
          e = e\<lparr>me_next_exchange_order_id := i + 1, me_states := emplace i (initial_state r i) (me_states e),
                me_client_to_exchange := emplace (nr_client_order_id r) i (me_client_to_exchange e)\<rparr>;
          res = record_report (make_report (state_at i e) Et_New 0 0 ts Rr_None) ([], e);
          (remaining, (reports, e)) = match_against_book i (nr_quantity r) ts res
      in if remaining > 0 \<and> nr_order_type r = Ot_Limit \<and> nr_time_in_force r = Tif_Gtc
         then (let e = (if os_filled_quantity (state_at i e) > 0
                        then modify_state i (set_status Os_PartiallyFilled) e else e);
                   (ok, e) = rest_limit_order (state_at i e) remaining ts e
               in if ok then (reports, e) else reject_internal i ts (reports, e))
         else if remaining > 0
         then (let e = modify_state i (set_status Os_Canceled) e
               in record_report (make_report (state_at i e) Et_Canceled 0 0 ts Rr_None) (reports, e))
         else (reports, e))"

definition me_submit_order :: "new_order_request \<Rightarrow> matching_engine \<Rightarrow> me_result" where
  "me_submit_order r e =
     (let reject = me_reject (nr_client_order_id r) (nr_symbol_id r) (nr_side r) (nr_timestamp_ns r) in
      if nr_symbol_id r \<noteq> me_symbol_id e \<or> \<not> is_valid_side (nr_side r) then reject Rr_Unsupported e
      else if nr_order_type r \<noteq> Ot_Limit \<and> nr_order_type r \<noteq> Ot_Market then reject Rr_Unsupported e
      else if nr_quantity r \<le> 0 then reject Rr_InvalidQuantity e
      else if nr_order_type r = Ot_Limit \<and> nr_price_ticks r \<le> 0 then reject Rr_InvalidPrice e
      else if nr_time_in_force r \<noteq> Tif_Gtc \<and> nr_time_in_force r \<noteq> Tif_Ioc \<and> nr_time_in_force r \<noteq> Tif_Fok
      then reject Rr_Unsupported e
      else if nr_post_only r \<and> (nr_order_type r \<noteq> Ot_Limit \<or> nr_time_in_force r \<noteq> Tif_Gtc)
      then reject Rr_Unsupported e
      else let (fresh, e) = reserve_client_order_id (nr_client_order_id r) e in
      if \<not> fresh then reject Rr_DuplicateClientOrderId e
      else if nr_post_only r \<and> crosses (nr_side r) (nr_order_type r) (nr_price_ticks r) e
      then reject Rr_PostOnlyWouldCross e
      else if \<not> nr_post_only r \<and>
        would_self_trade (nr_side r) (nr_order_type r) (nr_price_ticks r) (nr_client_id r) kInvalidOrderId e
      then reject Rr_SelfTradePrevention e
      else if nr_time_in_force r = Tif_Fok \<and> \<not> can_fully_fill r e then reject Rr_FokNotFillable e
      else accept_order r e)"

definition me_cancel_order :: "cancel_order_request \<Rightarrow> matching_engine \<Rightarrow> me_result" where
  "me_cancel_order r e =
     (let reject = me_reject (cr_client_order_id r) (me_symbol_id e) NoSide (cr_timestamp_ns r);
          i = cr_exchange_order_id r; ts = cr_timestamp_ns r;
          (fresh, e) = reserve_client_order_id (cr_client_order_id r) e in
      if \<not> fresh then reject Rr_DuplicateClientOrderId e
      else if map_of (me_states e) i = None \<or> ob_find_order i (me_book e) = None then reject Rr_UnknownOrder e
      else let (ok, b) = ob_cancel_order i (me_book e); e = e\<lparr>me_book := b\<rparr> in
      if \<not> ok then reject_internal i ts ([], e)
      else let e = modify_state i (set_status Os_Canceled) e
           in record_report (make_report (state_at i e) Et_Canceled 0 0 ts Rr_None) ([], e))"

definition me_replace_order :: "replace_order_request \<Rightarrow> matching_engine \<Rightarrow> me_result" where
  "me_replace_order r e =
     (let reject = me_reject (rr_client_order_id r) (me_symbol_id e);
          i = rr_exchange_order_id r; ts = rr_timestamp_ns r in
      if rr_new_quantity r \<le> 0 then reject NoSide ts Rr_InvalidQuantity e
      else if rr_new_price_ticks r \<le> 0 then reject NoSide ts Rr_InvalidPrice e
      else let (fresh, e) = reserve_client_order_id (rr_client_order_id r) e in
      if \<not> fresh then reject NoSide ts Rr_DuplicateClientOrderId e
      else if map_of (me_states e) i = None \<or> ob_find_order i (me_book e) = None
      then reject NoSide ts Rr_UnknownOrder e
      else let st = state_at i e in
      if would_self_trade (os_side st) (os_order_type st) (rr_new_price_ticks r) (os_client_id st)
           (os_exchange_order_id st) e
      then reject (os_side st) ts Rr_SelfTradePrevention e
      else let (ok, b) = ob_cancel_order i (me_book e); e = e\<lparr>me_book := b\<rparr> in
      if \<not> ok then reject_internal i ts ([], e)
      else let e = modify_state i (\<lambda>st. st\<lparr>os_limit_price_ticks := rr_new_price_ticks r,
                     os_original_quantity := os_filled_quantity st + rr_new_quantity r,
                     os_status := Os_Replaced, os_timestamp_ns := ts\<rparr>) e;
               res = record_report (make_report (state_at i e) Et_Replaced 0 0 ts Rr_None) ([], e);
               (remaining, (reports, e)) = match_against_book i (rr_new_quantity r) ts res
           in if remaining > 0
              then (let e = (if os_filled_quantity (state_at i e) > 0 \<and> os_status (state_at i e) \<noteq> Os_Replaced
                             then modify_state i (set_status Os_PartiallyFilled) e else e);
                        (ok, e) = rest_limit_order (state_at i e) remaining ts e
                    in if ok then (reports, e) else reject_internal i ts (reports, e))
              else (reports, e))"

text \<open>A request of any kind, so that a driver run is one list.\<close>

datatype me_request =
    Me_Submit new_order_request
  | Me_Cancel cancel_order_request
  | Me_Replace replace_order_request

fun me_step :: "me_request \<Rightarrow> matching_engine \<Rightarrow> me_result" where
  "me_step (Me_Submit r) e = me_submit_order r e"
| "me_step (Me_Cancel r) e = me_cancel_order r e"
| "me_step (Me_Replace r) e = me_replace_order r e"

end
