(* ===== verification/Matching_Engine_Correct.thy ===== *)
theory Matching_Engine_Correct
  imports Matching_Engine
begin

text \<open>
  The matching engine keeps its book, its order states and its id counter consistent, never
  crosses the book, and never reaches the branches that answer \<^verbatim>\<open>InternalError\<close>. The
  matching loop is described by its outcome: what is filled is the smaller of what is asked and
  what is executable, in pairs of trade reports.
\<close>

declare opposite.simps [simp del]

lemma opposite_side [simp]: "opposite Buy = Sell" "opposite Sell = Buy" "opposite NoSide = NoSide"
  by (simp_all add: opposite.simps)

section \<open>Invariant\<close>

abbreviation me_ladder :: "matching_engine \<Rightarrow> ladder" where
  "me_ladder e \<equiv> ob_ladder (me_book e)"

abbreviation me_orders :: "matching_engine \<Rightarrow> order list" where
  "me_orders e \<equiv> ld_orders (me_ladder e)"

definition state_matches :: "order_state \<Rightarrow> order \<Rightarrow> bool" where
  "state_matches st x \<longleftrightarrow> os_client_order_id st = o_client_order_id x \<and> os_side st = o_side x \<and>
     os_order_type st = Ot_Limit \<and> os_limit_price_ticks st = o_price_ticks x \<and>
     os_original_quantity st - os_filled_quantity st = o_quantity x"

definition state_ok :: "matching_engine \<Rightarrow> order_id \<Rightarrow> order_state \<Rightarrow> bool" where
  "state_ok e i st \<longleftrightarrow> os_exchange_order_id st = i \<and> i \<noteq> kInvalidOrderId \<and> i < me_next_exchange_order_id e \<and>
     0 \<le> os_filled_quantity st \<and> os_filled_quantity st \<le> os_original_quantity st \<and>
     is_valid_side (os_side st) \<and> os_symbol_id st = me_symbol_id e \<and>
     (os_order_type st = Ot_Market \<or> os_order_type st = Ot_Limit \<and> 0 < os_limit_price_ticks st) \<and>
     os_client_order_id st \<in> set (me_seen_client_order_ids e)"

definition uncrossed :: "order list \<Rightarrow> bool" where
  "uncrossed xs \<longleftrightarrow> (\<forall>x \<in> set xs. \<forall>y \<in> set xs. o_side x = Buy \<longrightarrow> o_side y = Sell \<longrightarrow>
     o_price_ticks x < o_price_ticks y)"

definition engine_ok :: "matching_engine \<Rightarrow> bool" where
  "engine_ok e \<longleftrightarrow> ob_inv (me_book e) \<and> ob_symbol_id (me_book e) = me_symbol_id e \<and>
     me_symbol_id e \<noteq> kInvalidSymbolId \<and> me_next_exchange_order_id e \<noteq> 0 \<and>
     distinct (map fst (me_states e)) \<and>
     (\<forall>i st. map_of (me_states e) i = Some st \<longrightarrow> state_ok e i st) \<and>
     (\<forall>x \<in> set (me_orders e). \<exists>st. map_of (me_states e) (o_order_id x) = Some st \<and> state_matches st x)"

definition me_inv :: "matching_engine \<Rightarrow> bool" where
  "me_inv e \<longleftrightarrow> engine_ok e \<and> uncrossed (me_orders e)"

definition executable :: "side \<Rightarrow> order_type \<Rightarrow> price_ticks \<Rightarrow> price_ticks \<Rightarrow> bool" where
  "executable sd ot limit p \<longleftrightarrow> ot = Ot_Market \<or> (sd = Buy \<and> p \<le> limit) \<or> (sd = Sell \<and> p \<ge> limit)"

text \<open>The quantity resting on the other side at prices an order may trade at.\<close>

definition available :: "side \<Rightarrow> order_type \<Rightarrow> price_ticks \<Rightarrow> order list \<Rightarrow> quantity" where
  "available sd ot limit xs = sum_list (map (\<lambda>x. if o_side x = opposite sd \<and> executable sd ot limit (o_price_ticks x)
     then o_quantity x else 0) xs)"

section \<open>Bookkeeping\<close>

lemma map_of_modify_state:
  "map_of (me_states (modify_state i f e)) j =
     (if j = i then map_option f (map_of (me_states e) j) else map_of (me_states e) j)"
proof -
  have "map_of (map (\<lambda>(k, st). if k = i then (k, f st) else (k, st)) m) j =
      (if j = i then map_option f (map_of m j) else map_of m j)" for m :: "(order_id \<times> order_state) list"
    by (induction m) auto
  then show ?thesis by (simp add: modify_state_def)
qed

lemma modify_state_keys [simp]: "map fst (me_states (modify_state i f e)) = map fst (me_states e)"
  by (auto simp: modify_state_def)

lemma modify_state_fields [simp]:
  "me_book (modify_state i f e) = me_book e" "me_symbol_id (modify_state i f e) = me_symbol_id e"
  "me_next_exchange_order_id (modify_state i f e) = me_next_exchange_order_id e"
  "me_seen_client_order_ids (modify_state i f e) = me_seen_client_order_ids e"
  "me_client_to_exchange (modify_state i f e) = me_client_to_exchange e"
  "me_reports_checksum (modify_state i f e) = me_reports_checksum e"
  by (simp_all add: modify_state_def)

lemma apply_fill_fields [simp]:
  "os_client_order_id (apply_fill q p st) = os_client_order_id st"
  "os_exchange_order_id (apply_fill q p st) = os_exchange_order_id st"
  "os_symbol_id (apply_fill q p st) = os_symbol_id st" "os_side (apply_fill q p st) = os_side st"
  "os_order_type (apply_fill q p st) = os_order_type st"
  "os_limit_price_ticks (apply_fill q p st) = os_limit_price_ticks st"
  "os_original_quantity (apply_fill q p st) = os_original_quantity st"
  "os_filled_quantity (apply_fill q p st) = os_filled_quantity st + q"
  "os_client_id (apply_fill q p st) = os_client_id st"
  by (simp_all add: apply_fill_def Let_def)

lemma report_fields [simp]:
  "er_exchange_order_id (make_report st et q p ts rr) = os_exchange_order_id st"
  "er_exec_type (make_report st et q p ts rr) = et" "er_last_fill_quantity (make_report st et q p ts rr) = q"
  "er_last_fill_price_ticks (make_report st et q p ts rr) = p"
  "er_reject_reason (make_report st et q p ts rr) = rr" "er_side (make_report st et q p ts rr) = os_side st"
  "er_filled_quantity (make_report st et q p ts rr) = os_filled_quantity st"
  "er_client_order_id (make_report st et q p ts rr) = os_client_order_id st"
  "er_order_status (make_report st et q p ts rr) = os_status st"
  by (simp_all add: make_report_def Let_def)

text \<open>The parts of \<open>engine_ok\<close>, so that proofs need not unfold it.\<close>

lemma engine_okD:
  assumes "engine_ok e"
  shows "ob_inv (me_book e)" and "ob_symbol_id (me_book e) = me_symbol_id e"
    and "me_symbol_id e \<noteq> kInvalidSymbolId" and "me_next_exchange_order_id e \<noteq> 0"
    and "distinct (map fst (me_states e))" and "map_of (me_states e) i = Some st \<Longrightarrow> state_ok e i st"
    and "x \<in> set (me_orders e) \<Longrightarrow> \<exists>st. map_of (me_states e) (o_order_id x) = Some st \<and> state_matches st x"
  using assms unfolding engine_ok_def by blast+

lemma engine_okI:
  assumes "ob_inv (me_book e)" and "ob_symbol_id (me_book e) = me_symbol_id e"
    and "me_symbol_id e \<noteq> kInvalidSymbolId" and "me_next_exchange_order_id e \<noteq> 0"
    and "distinct (map fst (me_states e))" and "\<And>i st. map_of (me_states e) i = Some st \<Longrightarrow> state_ok e i st"
    and "\<And>x. x \<in> set (me_orders e) \<Longrightarrow> \<exists>st. map_of (me_states e) (o_order_id x) = Some st \<and> state_matches st x"
  shows "engine_ok e"
  using assms unfolding engine_ok_def by blast

section \<open>Crossing\<close>

lemma best_order_facts:
  assumes "ob_inv b" and "ob_best_order sd b = Some x"
  shows "x \<in> set (ld_orders (ob_ladder b))" and "o_side x = sd" and "is_valid_side sd" and "0 < o_quantity x"
    and "spec_best_price sd (ob_ladder b) = Some (o_price_ticks x)"
proof -
  let ?L = "ob_ladder b"
  have ok: "ladder_ok ?L" using assms(1) by (simp add: ob_inv_def)
  obtain p q ls where ls: "ld_levels sd ?L = (p, q) # ls" "x = hd q"
    using assms by (auto simp: ob_best_order_refines spec_best_order_def split: list.splits)
  then show sd: "is_valid_side sd" by (cases sd) (auto simp: ld_levels_def)
  have lok: "levels_ok (ld_symbol ?L) sd ((p, q) # ls)" using ladder_ok_levels [OF ok sd] ls(1) by simp
  then have q: "x \<in> set q" "is_valid_resting_order x \<and> o_side x = sd \<and> o_price_ticks x = p"
    using ls(2) by (auto simp: ladder_simps)
  have "x \<in> set (flat (ld_levels sd ?L))" using ls(1) q(1) by (simp add: ladder_simps)
  then show "x \<in> set (ld_orders ?L)" using sd by (auto simp: ld_orders_levels)
  show "o_side x = sd" "0 < o_quantity x" "spec_best_price sd ?L = Some (o_price_ticks x)"
    using q(2) ls(1) by (auto simp: is_valid_resting_order_def spec_best_price_def)
qed

lemma no_best_order:
  assumes "ob_inv b" and "ob_best_order sd b = None"
  shows "x \<in> set (ld_orders (ob_ladder b)) \<Longrightarrow> o_side x \<noteq> sd"
proof
  assume x: "x \<in> set (ld_orders (ob_ladder b))" "o_side x = sd"
  have ok: "ladder_ok (ob_ladder b)" using assms(1) by (simp add: ob_inv_def)
  have "ld_levels sd (ob_ladder b) = []"
    using assms by (auto simp: ob_best_order_refines spec_best_order_def split: list.splits)
  with ladder_order_side [OF ok x(1)] x(2) show False by (simp add: flat_def)
qed

lemma best_order_iff_price:
  "ob_inv b \<Longrightarrow> ob_best_order sd b = None \<longleftrightarrow> spec_best_price sd (ob_ladder b) = None"
  by (auto simp: ob_best_order_refines spec_best_order_def spec_best_price_def split: list.splits)

lemma crosses_best:
  assumes "ob_inv (me_book e)" and "is_valid_side sd"
  shows "crosses sd ot limit e \<longleftrightarrow>
    (\<exists>x. ob_best_order (opposite sd) (me_book e) = Some x \<and> executable sd ot limit (o_price_ticks x))"
proof -
  have price: "(case sd of Buy \<Rightarrow> ob_best_ask (me_book e) | Sell \<Rightarrow> ob_best_bid (me_book e) | NoSide \<Rightarrow> None) =
      spec_best_price (opposite sd) (me_ladder e)"
    using ob_best_price_refines [of "opposite sd" "me_book e"] by (cases sd) (simp_all add: ob_best_price_def spec_best_price_def ld_levels_def)
  show ?thesis
  proof (cases "ob_best_order (opposite sd) (me_book e)")
    case None
    then have "spec_best_price (opposite sd) (me_ladder e) = None" using best_order_iff_price [OF assms(1)] by simp
    with None price assms(2) show ?thesis by (cases sd) (auto simp: crosses_def)
  next
    case (Some x)
    with best_order_facts(5) [OF assms(1) Some] price assms(2) show ?thesis
      by (cases sd) (auto simp: crosses_def executable_def)
  qed
qed

text \<open>When the best price does not cross, no order of that side is executable.\<close>

lemma not_crosses:
  assumes "ob_inv (me_book e)" and "is_valid_side sd" and "\<not> crosses sd ot limit e"
    and "x \<in> set (me_orders e)" and "o_side x = opposite sd"
  shows "\<not> executable sd ot limit (o_price_ticks x)"
proof (cases "ob_best_order (opposite sd) (me_book e)")
  case None
  with no_best_order [OF assms(1) None assms(4)] assms(5) show ?thesis by simp
next
  case (Some y)
  with assms(3) crosses_best [OF assms(1,2)] have "\<not> executable sd ot limit (o_price_ticks y)" by simp
  moreover have "o_price_ticks x = o_price_ticks y \<or> better (opposite sd) (o_price_ticks y) (o_price_ticks x)"
    using std.best_order_priority [OF assms(1) Some assms(4,5)] .
  ultimately show ?thesis using assms(2) by (cases sd) (auto simp: executable_def better_def)
qed

section \<open>One fill of the book\<close>

lemma reduce_orders:
  assumes "ob_inv b" and "x \<in> set (ld_orders (ob_ladder b))" and "0 < n" and "n \<le> o_quantity x"
  shows "fst (ob_reduce_order (o_order_id x) n b)" and "ob_inv (snd (ob_reduce_order (o_order_id x) n b))"
    and "ob_symbol_id (snd (ob_reduce_order (o_order_id x) n b)) = ob_symbol_id b"
    and "ld_orders (ob_ladder (snd (ob_reduce_order (o_order_id x) n b))) =
      (if n = o_quantity x then filter (\<lambda>y. o_order_id y \<noteq> o_order_id x) (ld_orders (ob_ladder b))
       else map (\<lambda>y. if o_order_id y = o_order_id x then y\<lparr>o_quantity := o_quantity y - n\<rparr> else y)
         (ld_orders (ob_ladder b)))"
proof -
  let ?L = "ob_ladder b" and ?r = "ob_reduce_order (o_order_id x) n b"
  have ok: "ladder_ok ?L" using assms(1) by (simp add: ob_inv_def)
  have find: "ld_find (o_order_id x) ?L = Some x" using assms(2) by (simp add: ld_find_Some [OF ok])
  have spec: "spec_reduce (o_order_id x) n ?L = (True, on_side (o_side x)
      (if n = o_quantity x then drop_order x else shrink_order n x) ?L)"
    using assms(3,4) find by (auto simp: spec_reduce_def spec_cancel_def)
  have ref: "ob_inv (snd ?r) \<and> spec_reduce (o_order_id x) n ?L = (fst ?r, ob_ladder (snd ?r))"
    using assms(1) by (rule ob_reduce_refines)
  with spec have res: "fst ?r" "ob_ladder (snd ?r) = on_side (o_side x)
      (if n = o_quantity x then drop_order x else shrink_order n x) ?L" by simp_all
  show "fst ?r" "ob_inv (snd ?r)" using res(1) ref by blast+
  show "ob_symbol_id (snd ?r) = ob_symbol_id b"
    using arg_cong [OF res(2), of ld_symbol] by (simp add: ladder_simps)
  show "ld_orders (ob_ladder (snd ?r)) =
      (if n = o_quantity x then filter (\<lambda>y. o_order_id y \<noteq> o_order_id x) (ld_orders ?L)
       else map (\<lambda>y. if o_order_id y = o_order_id x then y\<lparr>o_quantity := o_quantity y - n\<rparr> else y) (ld_orders ?L))"
    unfolding res(2) using ld_orders_drop [OF ok assms(2)] ld_orders_shrink [OF ok assms(2)] by simp
qed

lemma reduce_order_members:
  assumes "ob_inv b" and "x \<in> set (ld_orders (ob_ladder b))" and "0 < n" and "n \<le> o_quantity x"
    and "y \<in> set (ld_orders (ob_ladder (snd (ob_reduce_order (o_order_id x) n b))))"
  shows "y \<in> set (ld_orders (ob_ladder b)) \<and> o_order_id y \<noteq> o_order_id x \<or>
    y = x\<lparr>o_quantity := o_quantity x - n\<rparr> \<and> n < o_quantity x"
proof -
  have d: "distinct (map o_order_id (ld_orders (ob_ladder b)))" using assms(1) by (simp add: ob_inv_def ladder_ok_def)
  have "z = x" if "z \<in> set (ld_orders (ob_ladder b))" "o_order_id z = o_order_id x" for z
    using distinct_map_eq [OF d that(1) assms(2) that(2)] .
  with assms(4,5) show ?thesis unfolding reduce_orders(4) [OF assms(1-4)]
    by (cases "n = o_quantity x") (auto split: if_splits)
qed

lemma reduce_available:
  assumes "ob_inv b" and "x \<in> set (ld_orders (ob_ladder b))" and "0 < n" and "n \<le> o_quantity x"
    and "o_side x = opposite sd" and "executable sd ot limit (o_price_ticks x)"
  shows "available sd ot limit (ld_orders (ob_ladder (snd (ob_reduce_order (o_order_id x) n b)))) =
    available sd ot limit (ld_orders (ob_ladder b)) - n"
proof -
  let ?f = "\<lambda>y. if o_side y = opposite sd \<and> executable sd ot limit (o_price_ticks y) then o_quantity y else 0"
  let ?xs = "ld_orders (ob_ladder b)"
  have d: "distinct (map o_order_id ?xs)" using assms(1) by (simp add: ob_inv_def ladder_ok_def)
  have fx: "?f x = o_quantity x" using assms(5,6) by simp
  show ?thesis
  proof (cases "n = o_quantity x")
    case True
    then show ?thesis
      unfolding available_def reduce_orders(4) [OF assms(1-4)]
      using sum_list_filter_remove [OF d assms(2), of ?f] fx by simp
  next
    case False
    have same: "y = x" if "y \<in> set ?xs" "o_order_id y = o_order_id x" for y
      using distinct_map_eq [OF d that(1) assms(2) that(2)] .
    have "map ?f (map (\<lambda>y. if o_order_id y = o_order_id x then y\<lparr>o_quantity := o_quantity y - n\<rparr> else y) ?xs) =
        map (\<lambda>y. if o_order_id y = o_order_id x then ?f y - n else ?f y) ?xs"
      unfolding map_map
    proof (rule map_cong [OF refl])
      fix y
      assume "y \<in> set ?xs"
      then show "(?f \<circ> (\<lambda>y. if o_order_id y = o_order_id x then y\<lparr>o_quantity := o_quantity y - n\<rparr> else y)) y =
          (if o_order_id y = o_order_id x then ?f y - n else ?f y)"
        using same [of y] assms(5,6) by (cases "o_order_id y = o_order_id x") simp_all
    qed
    then show ?thesis
      unfolding available_def reduce_orders(4) [OF assms(1-4)]
      using False sum_list_map_update [OF d assms(2), of ?f n] by (simp only: if_False)
  qed
qed

lemma resting_quantity_positive: "ob_inv b \<Longrightarrow> x \<in> set (ld_orders (ob_ladder b)) \<Longrightarrow> 0 < o_quantity x"
  using ladder_order_side [of "ob_ladder b" x] by (simp add: ob_inv_def is_valid_resting_order_def)

lemma available_nonneg: "ob_inv b \<Longrightarrow> 0 \<le> available sd ot limit (ld_orders (ob_ladder b))"
  unfolding available_def using resting_quantity_positive [of b] by (intro sum_list_nonneg) (force split: if_splits)

lemma available_none:
  assumes "ob_inv (me_book e)" and "is_valid_side sd" and "\<not> crosses sd ot limit e"
  shows "available sd ot limit (me_orders e) = 0"
proof -
  have "map (\<lambda>x. if o_side x = opposite sd \<and> executable sd ot limit (o_price_ticks x) then o_quantity x else 0)
      (me_orders e) = map (\<lambda>_. 0) (me_orders e)"
    using not_crosses [OF assms] by (intro map_cong) auto
  then show ?thesis unfolding available_def by (simp only:) simp
qed

section \<open>The matching loop\<close>

text \<open>While order \<open>i\<close> is matched it is not in the book and \<open>remaining\<close> is what it still asks for.\<close>

definition match_inv :: "order_id \<Rightarrow> quantity \<Rightarrow> matching_engine \<Rightarrow> bool" where
  "match_inv i remaining e \<longleftrightarrow> engine_ok e \<and> (\<forall>x \<in> set (me_orders e). o_order_id x \<noteq> i) \<and>
     (\<exists>inc. map_of (me_states e) i = Some inc \<and> os_original_quantity inc - os_filled_quantity inc = remaining)"

text \<open>The two reports of a fill, resting order first.\<close>

definition fill_reports :: "order_state \<Rightarrow> order_state \<Rightarrow> quantity \<Rightarrow> price_ticks \<Rightarrow> timestamp_ns \<Rightarrow> execution_report list" where
  "fill_reports rst inc qty price ts =
     [make_report (apply_fill qty price rst) Et_Trade qty price ts Rr_None,
      make_report (apply_fill qty price inc) Et_Trade qty price ts Rr_None]"

definition after_fill :: "order_id \<Rightarrow> order \<Rightarrow> quantity \<Rightarrow> timestamp_ns \<Rightarrow> matching_engine \<Rightarrow> matching_engine" where
  "after_fill i x qty ts e =
     (let rst = state_at (o_order_id x) e; inc = state_at i e; price = o_price_ticks x
      in (modify_state i (apply_fill qty price) (modify_state (o_order_id x) (apply_fill qty price) e))
         \<lparr>me_reports_checksum := foldl append_to_checksum (me_reports_checksum e) (fill_reports rst inc qty price ts),
          me_book := snd (ob_reduce_order (o_order_id x) qty (me_book e))\<rparr>)"

lemma match_invD:
  assumes "match_inv i remaining e"
  shows "engine_ok e" and "ob_inv (me_book e)" and "x \<in> set (me_orders e) \<Longrightarrow> o_order_id x \<noteq> i"
    and "\<exists>inc. map_of (me_states e) i = Some inc \<and> os_original_quantity inc - os_filled_quantity inc = remaining"
  using assms unfolding match_inv_def by (auto dest: engine_okD(1))

lemma match_inv_crossing:
  assumes "match_inv i remaining e" and "crosses (os_side (state_at i e)) ot limit e"
  obtains x where "ob_best_order (opposite (os_side (state_at i e))) (me_book e) = Some x"
    and "x \<in> set (me_orders e)" and "o_side x = opposite (os_side (state_at i e))" and "0 < o_quantity x"
    and "executable (os_side (state_at i e)) ot limit (o_price_ticks x)"
    and "o_order_id x \<noteq> i" and "\<exists>rst. map_of (me_states e) (o_order_id x) = Some rst \<and> state_matches rst x"
proof -
  obtain inc where inc: "map_of (me_states e) i = Some inc" using assms(1) by (auto simp: match_inv_def)
  note ok = match_invD(1) [OF assms(1)] and b = match_invD(2) [OF assms(1)]
  have "is_valid_side (os_side (state_at i e))"
    using engine_okD(6) [OF ok inc] inc by (simp add: state_at_def state_ok_def)
  then obtain x where x: "ob_best_order (opposite (os_side (state_at i e))) (me_book e) = Some x"
      "executable (os_side (state_at i e)) ot limit (o_price_ticks x)"
    using assms(2) crosses_best [OF b] by blast
  note f = best_order_facts [OF b x(1)]
  show thesis
    using that [OF x(1) f(1,2,4) x(2) match_invD(3) [OF assms(1) f(1)] engine_okD(7) [OF ok f(1)]] .
qed

lemma state_ok_apply_fill:
  "state_ok e j st \<Longrightarrow> 0 < n \<Longrightarrow> n \<le> os_original_quantity st - os_filled_quantity st \<Longrightarrow>
   state_ok e j (apply_fill n p st)"
  by (simp add: state_ok_def)

lemma match_inv_after_fill:
  assumes inv: "match_inv i remaining e" and x: "x \<in> set (me_orders e)"
    and n: "0 < n" "n \<le> o_quantity x" "n \<le> remaining"
  shows "match_inv i (remaining - n) (after_fill i x n ts e)"
proof -
  let ?e = "after_fill i x n ts e"
  note ok = match_invD(1) [OF inv] and b = match_invD(2) [OF inv]
  have xi: "o_order_id x \<noteq> i" using inv x by (simp add: match_inv_def)
  obtain inc where inc: "map_of (me_states e) i = Some inc" "os_original_quantity inc - os_filled_quantity inc = remaining"
    using inv by (auto simp: match_inv_def)
  obtain rst where rst: "map_of (me_states e) (o_order_id x) = Some rst" "state_matches rst x"
    using engine_okD(7) [OF ok x] by blast
  note red = reduce_orders [OF b x n(1,2)]
  note mem = reduce_order_members [OF b x n(1,2)]
  have states: "map_of (me_states ?e) j = (if j = i then Some (apply_fill n (o_price_ticks x) inc)
      else if j = o_order_id x then Some (apply_fill n (o_price_ticks x) rst) else map_of (me_states e) j)" for j
    using inc(1) rst(1) xi by (simp add: after_fill_def Let_def map_of_modify_state)
  have book: "me_book ?e = snd (ob_reduce_order (o_order_id x) n (me_book e))" by (simp add: after_fill_def Let_def)
  have fields: "me_symbol_id ?e = me_symbol_id e" "me_next_exchange_order_id ?e = me_next_exchange_order_id e"
    "me_seen_client_order_ids ?e = me_seen_client_order_ids e"
    by (simp_all add: after_fill_def Let_def)
  have "state_ok ?e j st" if "map_of (me_states ?e) j = Some st" for j st
  proof -
    have iok: "state_ok e i inc" and rok: "state_ok e (o_order_id x) rst"
      using engine_okD(6) [OF ok] inc(1) rst(1) by blast+
    have "n \<le> os_original_quantity rst - os_filled_quantity rst" using rst(2) n(2) by (simp add: state_matches_def)
    then have "state_ok e i (apply_fill n (o_price_ticks x) inc)"
      "state_ok e (o_order_id x) (apply_fill n (o_price_ticks x) rst)"
      using state_ok_apply_fill [OF iok] state_ok_apply_fill [OF rok] inc(2) n(1,3) by simp_all
    moreover have "state_ok ?e j st = state_ok e j st" by (simp add: state_ok_def fields)
    ultimately show ?thesis
      using that engine_okD(6) [OF ok, of j st] unfolding states by (cases "j = i"; cases "j = o_order_id x") auto
  qed
  moreover have "distinct (map fst (me_states ?e))" using engine_okD(5) [OF ok] by (simp add: after_fill_def Let_def)
  moreover have "\<exists>st. map_of (me_states ?e) (o_order_id y) = Some st \<and> state_matches st y"
    if y: "y \<in> set (me_orders ?e)" for y
  proof (cases "y \<in> set (me_orders e) \<and> o_order_id y \<noteq> o_order_id x")
    case True
    moreover from True inv have "o_order_id y \<noteq> i" by (simp add: match_inv_def)
    ultimately show ?thesis using engine_okD(7) [OF ok, of y] by (simp add: states)
  next
    case False
    with mem y book have "y = x\<lparr>o_quantity := o_quantity x - n\<rparr>" by fastforce
    with rst(2) xi show ?thesis by (simp add: states state_matches_def)
  qed
  ultimately have "engine_ok ?e" using engine_okD(2-4) [OF ok] red(2,3) by (intro engine_okI) (simp_all add: fields book)
  moreover have "o_order_id y \<noteq> i" if "y \<in> set (me_orders ?e)" for y
    using mem [of y] that book inv x by (auto simp: match_inv_def)
  ultimately show ?thesis using inc(2) by (auto simp: match_inv_def states)
qed

text \<open>One turn of the loop.\<close>

lemma match_step:
  assumes inv: "match_inv i remaining e" and pos: "0 < remaining"
    and best: "ob_best_order (opposite (os_side (state_at i e))) (me_book e) = Some x"
    and cr: "crosses (os_side (state_at i e)) (os_order_type (state_at i e)) (os_limit_price_ticks (state_at i e)) e"
    and n: "n = min remaining (o_quantity x)"
  shows "match_against_book i remaining ts (reports, e) =
    match_against_book i (remaining - n) ts
      (reports @ fill_reports (state_at (o_order_id x) e) (state_at i e) n (o_price_ticks x) ts, after_fill i x n ts e)"
proof -
  obtain y where y: "ob_best_order (opposite (os_side (state_at i e))) (me_book e) = Some y"
    "y \<in> set (me_orders e)" "0 < o_quantity y" "o_order_id y \<noteq> i"
    "\<exists>rst. map_of (me_states e) (o_order_id y) = Some rst \<and> state_matches rst y"
    using match_inv_crossing [OF inv cr] by blast
  have yx: "y = x" using y(1) best by simp
  obtain inc where inc: "map_of (me_states e) i = Some inc" using inv by (auto simp: match_inv_def)
  obtain rst where rst: "map_of (me_states e) (o_order_id x) = Some rst" using y(5) yx by blast
  note b = match_invD(2) [OF inv]
  have "0 < n" "n \<le> o_quantity x" using n pos y(3) yx by auto
  then have red: "fst (ob_reduce_order (o_order_id x) n (me_book e))"
    using reduce_orders(1) [OF b] y(2) yx by blast
  show ?thesis
    using y(4) yx inc rst red cr pos best
    by (subst match_against_book.simps)
      (simp add: Let_def n [symmetric] record_report_def state_at_def map_of_modify_state
        after_fill_def fill_reports_def)
qed

lemma match_stop:
  assumes "\<not> (0 < remaining \<and> crosses (os_side (state_at i e)) (os_order_type (state_at i e)) (os_limit_price_ticks (state_at i e)) e)"
  shows "match_against_book i remaining ts (reports, e) = (remaining, (reports, e))"
  by (subst match_against_book.simps) (simp only: Let_def assms if_False)

text \<open>
  Induction over the loop: a property of a run follows from the property at the end and its
  transport across one fill.
\<close>

lemma match_induct:
  assumes inv: "match_inv i remaining e"
    and stop: "\<And>remaining e. match_inv i remaining e \<Longrightarrow>
      \<not> (0 < remaining \<and> crosses (os_side (state_at i e)) (os_order_type (state_at i e)) (os_limit_price_ticks (state_at i e)) e) \<Longrightarrow>
      P remaining e remaining [] e"
    and step: "\<And>remaining e x n reports remaining' e'.
      match_inv i remaining e \<Longrightarrow> x \<in> set (me_orders e) \<Longrightarrow>
      ob_best_order (opposite (os_side (state_at i e))) (me_book e) = Some x \<Longrightarrow>
      o_side x = opposite (os_side (state_at i e)) \<Longrightarrow>
      executable (os_side (state_at i e)) (os_order_type (state_at i e)) (os_limit_price_ticks (state_at i e)) (o_price_ticks x) \<Longrightarrow>
      n = min remaining (o_quantity x) \<Longrightarrow> 0 < n \<Longrightarrow>
      match_inv i (remaining - n) (after_fill i x n ts e) \<Longrightarrow>
      P (remaining - n) (after_fill i x n ts e) remaining' reports e' \<Longrightarrow>
      P remaining e remaining' (fill_reports (state_at (o_order_id x) e) (state_at i e) n (o_price_ticks x) ts @ reports) e'"
  shows "\<exists>remaining' new e'. (\<forall>reports. match_against_book i remaining ts (reports, e) = (remaining', (reports @ new, e'))) \<and>
    P remaining e remaining' new e'"
  using inv
proof (induction "nat remaining" arbitrary: remaining e rule: less_induct)
  case less
  let ?c = "crosses (os_side (state_at i e)) (os_order_type (state_at i e)) (os_limit_price_ticks (state_at i e)) e"
  show ?case
  proof (cases "0 < remaining \<and> ?c")
    case False
    with stop [OF less.prems] match_stop [of remaining i e ts] show ?thesis by (metis append_Nil2)
  next
    case True
    then have pos: "0 < remaining" and cr: ?c by auto
    obtain x where x: "ob_best_order (opposite (os_side (state_at i e))) (me_book e) = Some x"
      "x \<in> set (me_orders e)" "o_side x = opposite (os_side (state_at i e))" "0 < o_quantity x"
      "executable (os_side (state_at i e)) (os_order_type (state_at i e)) (os_limit_price_ticks (state_at i e)) (o_price_ticks x)"
      using match_inv_crossing [OF less.prems cr] by blast
    let ?n = "min remaining (o_quantity x)"
    have n: "0 < ?n" "?n \<le> o_quantity x" "?n \<le> remaining" using pos x(4) by auto
    have inv': "match_inv i (remaining - ?n) (after_fill i x ?n ts e)"
      by (rule match_inv_after_fill [OF less.prems x(2) n])
    have "nat (remaining - ?n) < nat remaining" using n(1) pos by linarith
    from less.hyps [OF this inv'] obtain remaining' new e' where
      r: "\<And>reports. match_against_book i (remaining - ?n) ts (reports, after_fill i x ?n ts e) = (remaining', (reports @ new, e'))"
      and P: "P (remaining - ?n) (after_fill i x ?n ts e) remaining' new e'" by blast
    have "match_against_book i remaining ts (reports, e) = (remaining',
        (reports @ fill_reports (state_at (o_order_id x) e) (state_at i e) ?n (o_price_ticks x) ts @ new, e'))" for reports
      unfolding match_step [OF less.prems pos x(1) cr refl] r by simp
    with step [OF less.prems x(2,1,3,5) refl n(1) inv' P] show ?thesis by blast
  qed
qed

section \<open>What a run of the loop does\<close>

definition filled_in :: "(execution_report \<Rightarrow> bool) \<Rightarrow> execution_report list \<Rightarrow> quantity" where
  "filled_in P reports = sum_list (map er_last_fill_quantity (filter P reports))"

lemma filled_in_append [simp]: "filled_in P (xs @ ys) = filled_in P xs + filled_in P ys"
  by (simp add: filled_in_def)

lemma filled_in_Nil [simp]: "filled_in P [] = 0"
  by (simp add: filled_in_def)

lemma filled_in_Cons [simp]:
  "filled_in P (r # rs) = (if P r then er_last_fill_quantity r else 0) + filled_in P rs"
  by (simp add: filled_in_def)

text \<open>The parts of a state a fill never touches.\<close>

definition same_order :: "order_state \<Rightarrow> order_state \<Rightarrow> bool" where
  "same_order st st' \<longleftrightarrow> os_side st' = os_side st \<and> os_order_type st' = os_order_type st \<and>
     os_limit_price_ticks st' = os_limit_price_ticks st \<and> os_client_order_id st' = os_client_order_id st \<and>
     os_original_quantity st' = os_original_quantity st \<and> os_symbol_id st' = os_symbol_id st \<and>
     os_exchange_order_id st' = os_exchange_order_id st \<and> os_client_id st' = os_client_id st"

lemma same_order_refl [simp]: "same_order st st"
  by (simp add: same_order_def)

lemma same_order_apply_fill [simp]: "same_order st (apply_fill n p st)"
  by (simp add: same_order_def)

lemma same_order_trans: "same_order a b \<Longrightarrow> same_order b c \<Longrightarrow> same_order a c"
  by (simp add: same_order_def)

definition trade_of :: "order_id \<Rightarrow> order_state \<Rightarrow> execution_report \<Rightarrow> bool" where
  "trade_of i inc r \<longleftrightarrow> er_exec_type r = Et_Trade \<and> er_reject_reason r = Rr_None \<and>
     0 < er_last_fill_quantity r \<and>
     executable (os_side inc) (os_order_type inc) (os_limit_price_ticks inc) (er_last_fill_price_ticks r) \<and>
     er_side r = (if er_exchange_order_id r = i then os_side inc else opposite (os_side inc))"

definition match_outcome ::
  "order_id \<Rightarrow> quantity \<Rightarrow> matching_engine \<Rightarrow> quantity \<Rightarrow> execution_report list \<Rightarrow> matching_engine \<Rightarrow> bool" where
  "match_outcome i remaining e remaining' new e' \<longleftrightarrow> match_inv i remaining' e' \<and>
     (let inc = state_at i e; sd = os_side inc; ot = os_order_type inc; limit = os_limit_price_ticks inc in
      remaining' = remaining - min remaining (available sd ot limit (me_orders e)) \<and>
      (remaining' \<le> 0 \<or> \<not> crosses sd ot limit e') \<and>
      (\<forall>y \<in> set (me_orders e'). \<exists>x \<in> set (me_orders e).
         o_order_id x = o_order_id y \<and> o_side x = o_side y \<and> o_price_ticks x = o_price_ticks y) \<and>
      same_order inc (state_at i e') \<and>
      os_filled_quantity (state_at i e') = os_filled_quantity inc + (remaining - remaining') \<and>
      (\<forall>r \<in> set new. trade_of i inc r) \<and>
      filled_in (\<lambda>r. er_exchange_order_id r = i) new = remaining - remaining' \<and>
      filled_in (\<lambda>r. er_exchange_order_id r \<noteq> i) new = remaining - remaining' \<and>
      (\<forall>r \<in> set new. er_exchange_order_id r \<noteq> i \<longrightarrow> (\<exists>x \<in> set (me_orders e). o_side x = opposite sd \<and>
         o_order_id x = er_exchange_order_id r \<and> o_price_ticks x = er_last_fill_price_ticks r)) \<and>
      sorted_wrt (\<lambda>r r'. \<not> better (opposite sd) (er_last_fill_price_ticks r') (er_last_fill_price_ticks r))
        (filter (\<lambda>r. er_exchange_order_id r \<noteq> i) new)) \<and>
     me_symbol_id e' = me_symbol_id e \<and> me_next_exchange_order_id e' = me_next_exchange_order_id e \<and>
     me_seen_client_order_ids e' = me_seen_client_order_ids e \<and>
     me_reports_checksum e' = foldl append_to_checksum (me_reports_checksum e) new"

lemma after_fill_state:
  assumes "match_inv i remaining e" and "o_order_id x \<noteq> i"
  shows "state_at i (after_fill i x n ts e) = apply_fill n (o_price_ticks x) (state_at i e)"
proof -
  obtain inc where "map_of (me_states e) i = Some inc" using match_invD(4) [OF assms(1)] by blast
  with assms(2) show ?thesis by (simp add: state_at_def after_fill_def Let_def map_of_modify_state)
qed

lemma match_outcome_stop:
  assumes inv: "match_inv i remaining e"
    and stop: "\<not> (0 < remaining \<and> crosses (os_side (state_at i e)) (os_order_type (state_at i e)) (os_limit_price_ticks (state_at i e)) e)"
  shows "match_outcome i remaining e remaining [] e"
proof -
  let ?inc = "state_at i e"
  let ?av = "available (os_side ?inc) (os_order_type ?inc) (os_limit_price_ticks ?inc) (me_orders e)"
  obtain inc where inc: "map_of (me_states e) i = Some inc" "os_original_quantity inc - os_filled_quantity inc = remaining"
    using match_invD(4) [OF inv] by blast
  have st: "state_ok e i inc" using engine_okD(6) [OF match_invD(1) [OF inv] inc(1)] .
  then have "0 \<le> remaining" using inc(2) by (simp add: state_ok_def)
  moreover have "0 \<le> ?av" using available_nonneg [OF match_invD(2) [OF inv]] .
  moreover have "?av = 0" if "0 < remaining"
    using available_none [OF match_invD(2) [OF inv]] st inc(1) stop that by (simp add: state_ok_def state_at_def)
  ultimately have "min remaining ?av = 0" by linarith
  then show ?thesis using inv stop unfolding match_outcome_def Let_def by auto
qed

lemma match_outcome_step:
  assumes inv: "match_inv i remaining e" and x: "x \<in> set (me_orders e)"
    and best: "ob_best_order (opposite (os_side (state_at i e))) (me_book e) = Some x"
    and side: "o_side x = opposite (os_side (state_at i e))"
    and ex: "executable (os_side (state_at i e)) (os_order_type (state_at i e)) (os_limit_price_ticks (state_at i e)) (o_price_ticks x)"
    and n: "n = min remaining (o_quantity x)" "0 < n"
    and rest: "match_outcome i (remaining - n) (after_fill i x n ts e) remaining' reports e'"
  shows "match_outcome i remaining e remaining'
    (fill_reports (state_at (o_order_id x) e) (state_at i e) n (o_price_ticks x) ts @ reports) e'"
proof -
  let ?e = "after_fill i x n ts e" and ?inc = "state_at i e"
  have b: "ob_inv (me_book e)" using match_invD(2) [OF inv] .
  have xi: "o_order_id x \<noteq> i" using match_invD(3) [OF inv x] .
  have nn: "n \<le> o_quantity x" "n \<le> remaining" using n(1) by auto
  have state: "state_at i ?e = apply_fill n (o_price_ticks x) ?inc" using after_fill_state [OF inv xi] .
  have book: "me_book ?e = snd (ob_reduce_order (o_order_id x) n (me_book e))" by (simp add: after_fill_def Let_def)
  obtain inc where inc: "map_of (me_states e) i = Some inc" using match_invD(4) [OF inv] by blast
  obtain rst where rst: "map_of (me_states e) (o_order_id x) = Some rst" "state_matches rst x"
    using engine_okD(7) [OF match_invD(1) [OF inv] x] by blast
  have ids: "os_exchange_order_id ?inc = i" "os_exchange_order_id (state_at (o_order_id x) e) = o_order_id x"
    "os_side (state_at (o_order_id x) e) = o_side x"
    using engine_okD(6) [OF match_invD(1) [OF inv]] inc rst by (simp_all add: state_at_def state_ok_def state_matches_def)
  let ?av = "available (os_side ?inc) (os_order_type ?inc) (os_limit_price_ticks ?inc)"
  have av: "?av (me_orders ?e) = ?av (me_orders e) - n"
    unfolding book using reduce_available [OF b x n(2) nn(1) side ex] .
  have old: "\<exists>z \<in> set (me_orders e). o_order_id z = o_order_id y \<and> o_side z = o_side y \<and> o_price_ticks z = o_price_ticks y"
    if y: "y \<in> set (me_orders ?e)" for y
    using reduce_order_members [OF b x n(2) nn(1), of y] y x unfolding book by auto
  have trans: "\<exists>z \<in> set (me_orders e). o_order_id z = o_order_id y \<and> o_side z = o_side y \<and> o_price_ticks z = o_price_ticks y"
    if y: "y \<in> set (me_orders e')" for y
  proof -
    obtain u where u: "u \<in> set (me_orders ?e)" "o_order_id u = o_order_id y" "o_side u = o_side y"
      "o_price_ticks u = o_price_ticks y" using rest y unfolding match_outcome_def Let_def by blast
    from old [OF u(1)] u show ?thesis by simp
  qed
  have fields: "me_symbol_id ?e = me_symbol_id e" "me_next_exchange_order_id ?e = me_next_exchange_order_id e"
    "me_seen_client_order_ids ?e = me_seen_client_order_ids e"
    "me_reports_checksum ?e = foldl append_to_checksum (me_reports_checksum e)
       (fill_reports (state_at (o_order_id x) e) ?inc n (o_price_ticks x) ts)"
    by (simp_all add: after_fill_def Let_def)
  define fr where "fr = fill_reports (state_at (o_order_id x) e) ?inc n (o_price_ticks x) ts"
  have trades: "\<forall>r \<in> set fr. trade_of i ?inc r"
    unfolding fr_def fill_reports_def using n(2) ex ids xi side
    by (simp add: trade_of_def)
  have sums: "filled_in (\<lambda>r. er_exchange_order_id r = i) fr = n"
    "filled_in (\<lambda>r. er_exchange_order_id r \<noteq> i) fr = n"
    unfolding fr_def fill_reports_def using ids xi by simp_all
  note rr = rest [unfolded match_outcome_def Let_def state fields(1-3) apply_fill_fields]
  have r: "match_inv i remaining' e'" "remaining' = (remaining - n) - min (remaining - n) (?av (me_orders ?e))"
    "remaining' \<le> 0 \<or> \<not> crosses (os_side ?inc) (os_order_type ?inc) (os_limit_price_ticks ?inc) e'"
    "same_order (apply_fill n (o_price_ticks x) ?inc) (state_at i e')"
    "os_filled_quantity (state_at i e') = os_filled_quantity ?inc + n + (remaining - n - remaining')"
    "\<forall>r \<in> set reports. trade_of i (apply_fill n (o_price_ticks x) ?inc) r"
    "filled_in (\<lambda>r. er_exchange_order_id r = i) reports = remaining - n - remaining'"
    "filled_in (\<lambda>r. er_exchange_order_id r \<noteq> i) reports = remaining - n - remaining'"
    "me_symbol_id e' = me_symbol_id e" "me_next_exchange_order_id e' = me_next_exchange_order_id e"
    "me_seen_client_order_ids e' = me_seen_client_order_ids e"
    "me_reports_checksum e' = foldl append_to_checksum (me_reports_checksum ?e) reports"
    "\<forall>r \<in> set reports. er_exchange_order_id r \<noteq> i \<longrightarrow> (\<exists>x \<in> set (me_orders ?e). o_side x = opposite (os_side ?inc) \<and>
         o_order_id x = er_exchange_order_id r \<and> o_price_ticks x = er_last_fill_price_ticks r)"
    "sorted_wrt (\<lambda>r r'. \<not> better (opposite (os_side ?inc)) (er_last_fill_price_ticks r') (er_last_fill_price_ticks r))
        (filter (\<lambda>r. er_exchange_order_id r \<noteq> i) reports)"
    using rr by - (elim conjE, assumption)+
  note who_rest = r(13) and sorted_rest = r(14)
  have later: "\<exists>z \<in> set (me_orders e). o_side z = opposite (os_side ?inc) \<and>
      o_order_id z = er_exchange_order_id r \<and> o_price_ticks z = er_last_fill_price_ticks r"
    if r: "r \<in> set reports" "er_exchange_order_id r \<noteq> i" for r
  proof -
    obtain u where u: "u \<in> set (me_orders ?e)" "o_side u = opposite (os_side ?inc)"
      "o_order_id u = er_exchange_order_id r" "o_price_ticks u = er_last_fill_price_ticks r"
      using who_rest r by blast
    from old [OF u(1)] u(2-4) show ?thesis by auto
  qed
  have worse: "\<not> better (opposite (os_side ?inc)) (er_last_fill_price_ticks r) (o_price_ticks x)"
    if r: "r \<in> set reports" "er_exchange_order_id r \<noteq> i" for r
  proof -
    obtain z where z: "z \<in> set (me_orders e)" "o_side z = opposite (os_side ?inc)" "o_price_ticks z = er_last_fill_price_ticks r"
      using later [OF r] by blast
    from std.best_order_priority [OF b best z(1,2)] z(3) show ?thesis by (auto simp: better_def split: if_splits)
  qed
  have who: "\<forall>r \<in> set (fr @ reports). er_exchange_order_id r \<noteq> i \<longrightarrow> (\<exists>x \<in> set (me_orders e). o_side x = opposite (os_side ?inc) \<and>
         o_order_id x = er_exchange_order_id r \<and> o_price_ticks x = er_last_fill_price_ticks r)"
  proof (intro ballI impI)
    fix r
    assume r: "r \<in> set (fr @ reports)" "er_exchange_order_id r \<noteq> i"
    show "\<exists>x \<in> set (me_orders e). o_side x = opposite (os_side ?inc) \<and>
         o_order_id x = er_exchange_order_id r \<and> o_price_ticks x = er_last_fill_price_ticks r"
    proof (cases "r \<in> set reports")
      case True
      then show ?thesis using later r(2) by blast
    next
      case False
      then have "r \<in> set fr" using r(1) by simp
      then have "er_exchange_order_id r = o_order_id x" "er_last_fill_price_ticks r = o_price_ticks x"
        using ids r(2) by (auto simp: fr_def fill_reports_def)
      then show ?thesis using x side by (intro bexI [of _ x]) auto
    qed
  qed
  have "filter (\<lambda>r. er_exchange_order_id r \<noteq> i) (fr @ reports) =
      make_report (apply_fill n (o_price_ticks x) (state_at (o_order_id x) e)) Et_Trade n (o_price_ticks x) ts Rr_None #
      filter (\<lambda>r. er_exchange_order_id r \<noteq> i) reports"
    unfolding fr_def fill_reports_def using ids xi by simp
  then have priority: "sorted_wrt (\<lambda>r r'. \<not> better (opposite (os_side ?inc)) (er_last_fill_price_ticks r') (er_last_fill_price_ticks r))
        (filter (\<lambda>r. er_exchange_order_id r \<noteq> i) (fr @ reports))"
    using sorted_rest worse by simp
  have "remaining' = remaining - min remaining (?av (me_orders e))" using r(2) av by linarith
  moreover have "same_order ?inc (state_at i e')" using same_order_trans [OF same_order_apply_fill r(4)] .
  moreover have "\<forall>r \<in> set reports. trade_of i ?inc r" using r(6) by (simp add: trade_of_def)
  ultimately show ?thesis
    unfolding match_outcome_def Let_def fr_def [symmetric]
    using r(1,3,5,7-12) trans trades sums fields(4) who priority by (simp add: ball_Un fr_def)
qed

lemma match_runs:
  assumes "match_inv i remaining e"
  shows "\<exists>remaining' new e'. (\<forall>reports. match_against_book i remaining ts (reports, e) = (remaining', (reports @ new, e'))) \<and>
    match_outcome i remaining e remaining' new e'"
proof (rule match_induct [OF assms, where P = "match_outcome i"])
  fix remaining e
  assume "match_inv i remaining e"
    "\<not> (0 < remaining \<and> crosses (os_side (state_at i e)) (os_order_type (state_at i e)) (os_limit_price_ticks (state_at i e)) e)"
  then show "match_outcome i remaining e remaining [] e" by (rule match_outcome_stop)
next
  fix remaining e x n reports remaining' e'
  assume "match_inv i remaining e" "x \<in> set (me_orders e)"
    "ob_best_order (opposite (os_side (state_at i e))) (me_book e) = Some x" "o_side x = opposite (os_side (state_at i e))"
    "executable (os_side (state_at i e)) (os_order_type (state_at i e)) (os_limit_price_ticks (state_at i e)) (o_price_ticks x)"
    "n = min remaining (o_quantity x)" "0 < n" "match_outcome i (remaining - n) (after_fill i x n ts e) remaining' reports e'"
  then show "match_outcome i remaining e remaining'
      (fill_reports (state_at (o_order_id x) e) (state_at i e) n (o_price_ticks x) ts @ reports) e'"
    by (rule match_outcome_step)
qed

end
