(* ===== verification/Matching_Handlers_Correct.thy ===== *)
theory Matching_Handlers_Correct
  imports Matching_Engine_Correct
begin

text \<open>
  The request handlers of the matching engine: resting what is left, accepting an order, and the
  reports and invariant of every branch of submit, cancel and replace.
\<close>

section \<open>Resting, accepting and the handlers\<close>

lemma checksum_irrelevant [simp]:
  "engine_ok (e\<lparr>me_reports_checksum := c\<rparr>) = engine_ok e"
  "match_inv i remaining (e\<lparr>me_reports_checksum := c\<rparr>) = match_inv i remaining e"
  "state_at i (e\<lparr>me_reports_checksum := c\<rparr>) = state_at i e"
  "me_inv (e\<lparr>me_reports_checksum := c\<rparr>) = me_inv e"
  "crosses sd ot limit (e\<lparr>me_reports_checksum := c\<rparr>) = crosses sd ot limit e"
  by (simp_all add: engine_ok_def match_inv_def state_at_def me_inv_def state_ok_def crosses_def)

lemma state_ok_status [simp]:
  "state_ok e j (set_status s st) = state_ok e j st" "state_ok (modify_state i f e) j st = state_ok e j st"
  by (simp_all add: state_ok_def set_status_def)

lemma match_inv_status:
  assumes "match_inv i remaining e"
  shows "match_inv i remaining (modify_state i (set_status s) e)"
proof -
  let ?e = "modify_state i (set_status s) e"
  obtain inc where inc: "map_of (me_states e) i = Some inc" "os_original_quantity inc - os_filled_quantity inc = remaining"
    using match_invD(4) [OF assms] by blast
  note ok = match_invD(1) [OF assms]
  have "engine_ok ?e"
  proof (rule engine_okI)
    fix j st
    assume "map_of (me_states ?e) j = Some st"
    then obtain st' where "map_of (me_states e) j = Some st'" "st = st' \<or> st = set_status s st'"
      by (auto simp: map_of_modify_state split: if_splits)
    with engine_okD(6) [OF ok, of j st'] show "state_ok ?e j st" by auto
  next
    fix x
    assume "x \<in> set (me_orders ?e)"
    with engine_okD(7) [OF ok, of x] show "\<exists>st. map_of (me_states ?e) (o_order_id x) = Some st \<and> state_matches st x"
      by (auto simp: map_of_modify_state state_matches_def set_status_def)
  qed (use engine_okD(1-5) [OF ok] in simp_all)
  then show ?thesis using match_invD(3) [OF assms] inc by (auto simp: match_inv_def map_of_modify_state set_status_def)
qed

lemma state_at_status:
  "match_inv i remaining e \<Longrightarrow> state_at i (modify_state i (set_status s) e) = set_status s (state_at i e)"
  using match_invD(4) by (fastforce simp: state_at_def map_of_modify_state)

lemma rest_ok:
  assumes inv: "match_inv i remaining e" and pos: "0 < remaining" and lim: "os_order_type (state_at i e) = Ot_Limit"
  obtains x e' where "rest_limit_order (state_at i e) remaining ts e = (True, e')" and "engine_ok e'"
    and "e' = e\<lparr>me_book := me_book e'\<rparr>" and "mset (me_orders e') = add_mset x (mset (me_orders e))"
    and "o_order_id x = i" and "o_side x = os_side (state_at i e)"
    and "o_price_ticks x = os_limit_price_ticks (state_at i e)" and "o_quantity x = remaining"
proof -
  note ok = match_invD(1) [OF inv] and b = match_invD(2) [OF inv]
  obtain inc where inc: "map_of (me_states e) i = Some inc" "os_original_quantity inc - os_filled_quantity inc = remaining"
    using match_invD(4) [OF inv] by blast
  have st: "state_ok e i inc" using engine_okD(6) [OF ok inc(1)] .
  have at: "state_at i e = inc" using inc(1) by (simp add: state_at_def)
  let ?x = "\<lparr>o_order_id = os_exchange_order_id inc, o_client_order_id = os_client_order_id inc,
     o_symbol_id = os_symbol_id inc, o_side = os_side inc, o_price_ticks = os_limit_price_ticks inc,
     o_quantity = remaining, o_timestamp_ns = ts, o_sequence_number = os_exchange_order_id inc\<rparr>"
  have valid: "is_valid_resting_order ?x" "o_symbol_id ?x = ob_symbol_id (me_book e)"
    using st pos lim at engine_okD(2,3) [OF ok] by (auto simp: state_ok_def is_valid_resting_order_def)
  have none: "ld_find i (me_ladder e) = None" using match_invD(3) [OF inv] by (auto simp: ld_find_None)
  have lok: "ladder_ok (me_ladder e)" using b by (simp add: ob_inv_def)
  let ?r = "ob_add_order ?x (me_book e)"
  have ref: "ob_inv (snd ?r)" "spec_add ?x (me_ladder e) = (fst ?r, ob_ladder (snd ?r))"
    using ob_add_refines [OF b] by auto
  have spec: "spec_add ?x (me_ladder e) = (True, on_side (o_side ?x) (push_order ?x) (me_ladder e))"
    using valid none st by (auto simp: spec_add_def ladder_simps state_ok_def)
  then have r: "fst ?r" "ob_ladder (snd ?r) = on_side (o_side ?x) (push_order ?x) (me_ladder e)" using ref(2) by simp_all
  let ?e = "e\<lparr>me_book := snd ?r\<rparr>"
  have ms: "mset (me_orders ?e) = add_mset ?x (mset (me_orders e))"
    using mset_orders_push [OF lok, of ?x] st r(2) by (simp add: state_ok_def)
  then have set: "set (me_orders ?e) = insert ?x (set (me_orders e))" by (metis set_mset_add_mset_insert set_mset_mset)
  have "engine_ok ?e"
  proof (rule engine_okI)
    show "ob_inv (me_book ?e)" using ref(1) by simp
    show "ob_symbol_id (me_book ?e) = me_symbol_id ?e"
      using arg_cong [OF r(2), of ld_symbol] engine_okD(2) [OF ok] by (simp add: ladder_simps)
    show "map_of (me_states ?e) j = Some st' \<Longrightarrow> state_ok ?e j st'" for j st'
      using engine_okD(6) [OF ok, of j st'] by (simp add: state_ok_def)
    fix y
    assume "y \<in> set (me_orders ?e)"
    then have "y = ?x \<or> y \<in> set (me_orders e)" using set by blast
    then show "\<exists>st. map_of (me_states ?e) (o_order_id y) = Some st \<and> state_matches st y"
      using engine_okD(7) [OF ok, of y] inc st lim at by (auto simp: state_ok_def state_matches_def)
  qed (use engine_okD(3-5) [OF ok] in simp_all)
  moreover have "rest_limit_order (state_at i e) remaining ts e = (True, ?e)"
    using r(1) at by (auto simp: rest_limit_order_def Let_def split: prod.splits)
  ultimately show thesis using ms at st by (intro that [of ?e ?x]) (auto simp: state_ok_def)
qed

lemma uncrossed_rest:
  assumes "uncrossed (me_orders e)" and "ob_inv (me_book e)" and "is_valid_side (o_side x)"
    and "\<not> crosses (o_side x) Ot_Limit (o_price_ticks x) e" and "mset ys = add_mset x (mset (me_orders e))"
  shows "uncrossed ys"
proof -
  have set: "set ys = insert x (set (me_orders e))" using assms(5) by (metis set_mset_add_mset_insert set_mset_mset)
  have "\<not> executable (o_side x) Ot_Limit (o_price_ticks x) (o_price_ticks y)"
    if "y \<in> set (me_orders e)" "o_side y = opposite (o_side x)" for y
    using not_crosses [OF assms(2-4) that] .
  then show ?thesis using assms(1,3) unfolding uncrossed_def set by (fastforce simp: executable_def)
qed

lemma uncrossed_match:
  assumes "uncrossed (me_orders e)" and "match_outcome i remaining e remaining' new e'"
  shows "uncrossed (me_orders e')"
proof -
  have old: "\<exists>x \<in> set (me_orders e). o_order_id x = o_order_id y \<and> o_side x = o_side y \<and> o_price_ticks x = o_price_ticks y"
    if "y \<in> set (me_orders e')" for y using assms(2) that unfolding match_outcome_def Let_def by blast
  show ?thesis
    unfolding uncrossed_def
  proof (intro ballI impI)
    fix x y
    assume xy: "x \<in> set (me_orders e')" "y \<in> set (me_orders e')" "o_side x = Buy" "o_side y = Sell"
    obtain x' y' where "x' \<in> set (me_orders e)" "o_side x' = o_side x" "o_price_ticks x' = o_price_ticks x"
      "y' \<in> set (me_orders e)" "o_side y' = o_side y" "o_price_ticks y' = o_price_ticks y"
      using old [OF xy(1)] old [OF xy(2)] by blast
    with assms(1) xy(3,4) show "o_price_ticks x < o_price_ticks y" unfolding uncrossed_def by force
  qed
qed

text \<open>The engine just before matching starts: the new id is fresh and nothing rests under it.\<close>

definition admitted :: "new_order_request \<Rightarrow> matching_engine \<Rightarrow> matching_engine" where
  "admitted r e = (let i = me_next_exchange_order_id e in
     e\<lparr>me_next_exchange_order_id := i + 1, me_states := emplace i (initial_state r i) (me_states e),
       me_client_to_exchange := emplace (nr_client_order_id r) i (me_client_to_exchange e)\<rparr>)"

definition acceptable :: "new_order_request \<Rightarrow> matching_engine \<Rightarrow> bool" where
  "acceptable r e \<longleftrightarrow> nr_symbol_id r = me_symbol_id e \<and> is_valid_side (nr_side r) \<and> 0 < nr_quantity r \<and>
     (nr_order_type r = Ot_Market \<or> nr_order_type r = Ot_Limit \<and> 0 < nr_price_ticks r) \<and>
     nr_client_order_id r \<in> set (me_seen_client_order_ids e) \<and> me_next_exchange_order_id e + 1 \<noteq> 0"

lemma word_succ_less: "(i::u64) + 1 \<noteq> 0 \<Longrightarrow> i < i + 1"
  by unat_arith

lemma engine_fresh:
  assumes "engine_ok e"
  shows "map_of (me_states e) (me_next_exchange_order_id e) = None"
    and "x \<in> set (me_orders e) \<Longrightarrow> o_order_id x \<noteq> me_next_exchange_order_id e"
proof -
  show none: "map_of (me_states e) (me_next_exchange_order_id e) = None"
    using engine_okD(6) [OF assms, of "me_next_exchange_order_id e"]
    by (cases "map_of (me_states e) (me_next_exchange_order_id e)") (auto simp: state_ok_def)
  show "x \<in> set (me_orders e) \<Longrightarrow> o_order_id x \<noteq> me_next_exchange_order_id e"
    using engine_okD(7) [OF assms, of x] none by auto
qed

lemma admitted_ok:
  assumes ok: "engine_ok e" and acc: "acceptable r e" and i: "i = me_next_exchange_order_id e"
  shows "match_inv i (nr_quantity r) (admitted r e)" and "state_at i (admitted r e) = initial_state r i"
    and "me_book (admitted r e) = me_book e" and "me_symbol_id (admitted r e) = me_symbol_id e"
    and "me_seen_client_order_ids (admitted r e) = me_seen_client_order_ids e"
    and "me_reports_checksum (admitted r e) = me_reports_checksum e"
    and "me_next_exchange_order_id (admitted r e) = i + 1"
proof -
  let ?e = "admitted r e"
  show f: "me_book ?e = me_book e" "me_symbol_id ?e = me_symbol_id e"
    "me_seen_client_order_ids ?e = me_seen_client_order_ids e"
    "me_reports_checksum ?e = me_reports_checksum e" "me_next_exchange_order_id ?e = i + 1"
    by (simp_all add: admitted_def Let_def i)
  have states: "map_of (me_states ?e) j = (if j = i then Some (initial_state r i) else map_of (me_states e) j)" for j
    using engine_fresh(1) [OF ok] by (simp add: admitted_def Let_def i emplace_def)
  then show "state_at i ?e = initial_state r i" by (simp add: state_at_def)
  have less: "i < i + 1" using acc i by (intro word_succ_less) (simp add: acceptable_def)
  have "engine_ok ?e"
  proof (rule engine_okI)
    show "distinct (map fst (me_states ?e))" using engine_okD(5) [OF ok] by (simp add: admitted_def Let_def emplace_def)
    show "me_next_exchange_order_id ?e \<noteq> 0" using acc i by (simp add: f acceptable_def)
    fix j st
    assume "map_of (me_states ?e) j = Some st"
    then show "state_ok ?e j st"
      using engine_okD(6) [OF ok, of j st] engine_okD(4) [OF ok] acc i less
      by (auto simp: states state_ok_def f acceptable_def initial_state_def split: if_splits)
  next
    fix x
    assume "x \<in> set (me_orders ?e)"
    then show "\<exists>st. map_of (me_states ?e) (o_order_id x) = Some st \<and> state_matches st x"
      using engine_okD(7) [OF ok, of x] engine_fresh(2) [OF ok, of x] by (simp add: states f i)
  qed (use engine_okD(1-3) [OF ok] in \<open>simp_all add: f\<close>)
  then show "match_inv i (nr_quantity r) ?e"
    using engine_fresh(2) [OF ok] by (auto simp: match_inv_def states f i initial_state_def)
qed

text \<open>
  What is left of a limit order after matching can rest: the book takes it, stays uncrossed, and the
  engine stays consistent. Both handlers may set a status first.
\<close>

lemma match_outcomeD:
  assumes "match_outcome i q e0 remaining new e1"
  shows "match_inv i remaining e1" and "same_order (state_at i e0) (state_at i e1)"
    and "0 < remaining \<Longrightarrow> \<not> crosses (os_side (state_at i e0)) (os_order_type (state_at i e0)) (os_limit_price_ticks (state_at i e0)) e1"
    and "remaining = q - min q (available (os_side (state_at i e0)) (os_order_type (state_at i e0))
           (os_limit_price_ticks (state_at i e0)) (me_orders e0))"
    and "me_symbol_id e1 = me_symbol_id e0" and "me_next_exchange_order_id e1 = me_next_exchange_order_id e0"
    and "me_seen_client_order_ids e1 = me_seen_client_order_ids e0"
    and "me_reports_checksum e1 = foldl append_to_checksum (me_reports_checksum e0) new"
    and "os_filled_quantity (state_at i e1) = os_filled_quantity (state_at i e0) + (q - remaining)"
    and "rep \<in> set new \<Longrightarrow> trade_of i (state_at i e0) rep"
    and "filled_in (\<lambda>r. er_exchange_order_id r = i) new = q - remaining"
    and "filled_in (\<lambda>r. er_exchange_order_id r \<noteq> i) new = q - remaining"
    and "y \<in> set (me_orders e1) \<Longrightarrow> \<exists>x \<in> set (me_orders e0).
           o_order_id x = o_order_id y \<and> o_side x = o_side y \<and> o_price_ticks x = o_price_ticks y"
    and "rep \<in> set new \<Longrightarrow> er_exchange_order_id rep \<noteq> i \<Longrightarrow> \<exists>x \<in> set (me_orders e0). o_side x = opposite (os_side (state_at i e0)) \<and>
           o_order_id x = er_exchange_order_id rep \<and> o_price_ticks x = er_last_fill_price_ticks rep"
    and "sorted_wrt (\<lambda>r r'. \<not> better (opposite (os_side (state_at i e0))) (er_last_fill_price_ticks r') (er_last_fill_price_ticks r))
           (filter (\<lambda>r. er_exchange_order_id r \<noteq> i) new)"
  using assms unfolding match_outcome_def Let_def by auto

lemma rest_settles:
  assumes out: "match_outcome i q e0 remaining new e1" and unc: "uncrossed (me_orders e0)"
    and pos: "0 < remaining" and lim: "os_order_type (state_at i e0) = Ot_Limit"
    and e2: "e2 = (if c then modify_state i (set_status s) e1 else e1)"
  obtains x e' where "rest_limit_order (state_at i e2) remaining ts e2 = (True, e')" and "me_inv e'"
    and "e' = e2\<lparr>me_book := me_book e'\<rparr>" and "mset (me_orders e') = add_mset x (mset (me_orders e1))"
    and "o_order_id x = i" and "o_side x = os_side (state_at i e0)"
    and "o_price_ticks x = os_limit_price_ticks (state_at i e0)" and "o_quantity x = remaining"
proof -
  note inv1 = match_outcomeD(1) [OF out] and same = match_outcomeD(2) [OF out]
  have inv2: "match_inv i remaining e2" using inv1 match_inv_status [OF inv1] e2 by simp
  have book: "me_book e2 = me_book e1" using e2 by simp
  have at: "os_order_type (state_at i e2) = Ot_Limit" "os_side (state_at i e2) = os_side (state_at i e0)"
    "os_limit_price_ticks (state_at i e2) = os_limit_price_ticks (state_at i e0)"
    using state_at_status [OF inv1, of s] e2 same lim by (auto simp: same_order_def set_status_def)
  obtain x e' where r: "rest_limit_order (state_at i e2) remaining ts e2 = (True, e')" "engine_ok e'"
      "e' = e2\<lparr>me_book := me_book e'\<rparr>" "mset (me_orders e') = add_mset x (mset (me_orders e2))"
      "o_order_id x = i" "o_side x = os_side (state_at i e2)"
      "o_price_ticks x = os_limit_price_ticks (state_at i e2)" "o_quantity x = remaining"
    by (rule rest_ok [OF inv2 pos at(1), where ts = ts]) blast
  have unc1: "uncrossed (me_orders e1)" by (rule uncrossed_match [OF unc out])
  have side: "is_valid_side (o_side x)"
    using ladder_order_side [of "me_ladder e'" x] engine_okD(1) [OF r(2)] r(4)
    by (metis is_valid_resting_order_def ob_inv_def set_mset_add_mset_insert set_mset_mset insertI1)
  have "\<not> crosses (o_side x) Ot_Limit (o_price_ticks x) e1"
    using match_outcomeD(3) [OF out pos] lim r(6,7) at by simp
  then have "uncrossed (me_orders e')"
    using uncrossed_rest [OF unc1 match_invD(2) [OF inv1] side] r(4) book by simp
  then show thesis using r at book by (intro that [of e' x]) (simp_all add: me_inv_def)
qed

text \<open>An acceptance is what follows a run of the loop from the engine that has the new order and its report.\<close>

lemma accept_shape:
  assumes ok: "engine_ok e" and acc: "acceptable r e" and i: "i = me_next_exchange_order_id e"
    and rep: "rep = make_report (initial_state r i) Et_New 0 0 (nr_timestamp_ns r) Rr_None"
    and e0: "e0 = (admitted r e)\<lparr>me_reports_checksum := append_to_checksum (me_reports_checksum e) rep\<rparr>"
    and run: "match_against_book i (nr_quantity r) (nr_timestamp_ns r) ([rep], e0) = (remaining, ([rep] @ new, e1))"
  shows "accept_order r e = (if remaining > 0 \<and> nr_order_type r = Ot_Limit \<and> nr_time_in_force r = Tif_Gtc
       then (let e = (if os_filled_quantity (state_at i e1) > 0 then modify_state i (set_status Os_PartiallyFilled) e1 else e1);
                 (ok, e) = rest_limit_order (state_at i e) remaining (nr_timestamp_ns r) e
             in if ok then (rep # new, e) else reject_internal i (nr_timestamp_ns r) (rep # new, e))
       else if remaining > 0
       then (let e = modify_state i (set_status Os_Canceled) e1
             in record_report (make_report (state_at i e) Et_Canceled 0 0 (nr_timestamp_ns r) Rr_None) (rep # new, e))
       else (rep # new, e1))"
proof -
  have "record_report (make_report (state_at i (admitted r e)) Et_New 0 0 (nr_timestamp_ns r) Rr_None) ([], admitted r e) = ([rep], e0)"
    using admitted_ok(2,6) [OF ok acc i] by (simp add: record_report_def rep e0)
  then show ?thesis using run unfolding accept_order_def admitted_def i Let_def by simp
qed

lemma accept_outcome:
  assumes inv: "me_inv e" and acc: "acceptable r e" and i: "i = me_next_exchange_order_id e"
    and rep: "rep = make_report (initial_state r i) Et_New 0 0 (nr_timestamp_ns r) Rr_None"
    and e0: "e0 = (admitted r e)\<lparr>me_reports_checksum := append_to_checksum (me_reports_checksum e) rep\<rparr>"
  shows "\<exists>remaining new tail e1 e'. accept_order r e = (rep # new @ tail, e') \<and>
    match_outcome i (nr_quantity r) e0 remaining new e1 \<and> me_inv e' \<and>
    me_reports_checksum e' = foldl append_to_checksum (me_reports_checksum e) (rep # new @ tail) \<and>
    me_symbol_id e' = me_symbol_id e \<and> me_next_exchange_order_id e' = i + 1 \<and>
    me_seen_client_order_ids e' = me_seen_client_order_ids e \<and>
    (if 0 < remaining \<and> nr_order_type r = Ot_Limit \<and> nr_time_in_force r = Tif_Gtc
     then tail = [] \<and> (\<exists>x. mset (me_orders e') = add_mset x (mset (me_orders e1)) \<and> o_order_id x = i \<and>
       o_side x = nr_side r \<and> o_price_ticks x = nr_price_ticks r \<and> o_quantity x = remaining)
     else me_orders e' = me_orders e1 \<and>
       tail = (if 0 < remaining then [make_report (set_status Os_Canceled (state_at i e1)) Et_Canceled 0 0
                 (nr_timestamp_ns r) Rr_None] else []))"
proof -
  have ok: "engine_ok e" and unc: "uncrossed (me_orders e)" using inv by (simp_all add: me_inv_def)
  note ad = admitted_ok [OF ok acc i]
  have inv0: "match_inv i (nr_quantity r) e0" using ad(1) by (simp add: e0)
  have st0: "state_at i e0 = initial_state r i" using ad(2) by (simp add: e0)
  have unc0: "uncrossed (me_orders e0)" using unc ad(3) by (simp add: e0)
  have e0f: "me_symbol_id e0 = me_symbol_id e" "me_seen_client_order_ids e0 = me_seen_client_order_ids e"
    "me_next_exchange_order_id e0 = i + 1" "me_reports_checksum e0 = append_to_checksum (me_reports_checksum e) rep"
    using ad(4,5,7) by (simp_all add: e0)
  obtain remaining new e1 where
    run: "match_against_book i (nr_quantity r) (nr_timestamp_ns r) ([rep], e0) = (remaining, ([rep] @ new, e1))"
    and out: "match_outcome i (nr_quantity r) e0 remaining new e1"
    using match_runs [OF inv0, of "nr_timestamp_ns r"] by blast
  note accept = accept_shape [OF ok acc i rep e0 run]
  note inv1 = match_outcomeD(1) [OF out]
  have unc1: "uncrossed (me_orders e1)" by (rule uncrossed_match [OF unc0 out])
  have e1f: "me_symbol_id e1 = me_symbol_id e" "me_seen_client_order_ids e1 = me_seen_client_order_ids e"
    "me_next_exchange_order_id e1 = i + 1"
    "me_reports_checksum e1 = foldl append_to_checksum (me_reports_checksum e) (rep # new)"
    using match_outcomeD(5-8) [OF out] e0f by simp_all
  show ?thesis
  proof (cases "0 < remaining \<and> nr_order_type r = Ot_Limit \<and> nr_time_in_force r = Tif_Gtc")
    case True
    let ?e2 = "if os_filled_quantity (state_at i e1) > 0 then modify_state i (set_status Os_PartiallyFilled) e1 else e1"
    have lim: "os_order_type (state_at i e0) = Ot_Limit" using True st0 by (simp add: initial_state_def)
    have pos: "0 < remaining" using True by simp
    obtain x e' where r: "rest_limit_order (state_at i ?e2) remaining (nr_timestamp_ns r) ?e2 = (True, e')" "me_inv e'"
        "e' = ?e2\<lparr>me_book := me_book e'\<rparr>" "mset (me_orders e') = add_mset x (mset (me_orders e1))"
        "o_order_id x = i" "o_side x = os_side (state_at i e0)"
        "o_price_ticks x = os_limit_price_ticks (state_at i e0)" "o_quantity x = remaining"
      by (rule rest_settles [OF out unc0 pos lim refl, where ts = "nr_timestamp_ns r"
            and s = Os_PartiallyFilled and c = "os_filled_quantity (state_at i e1) > 0"]) blast
    have x: "o_side x = nr_side r" "o_price_ticks x = nr_price_ticks r" using r(6,7) st0 by (simp_all add: initial_state_def)
    have "accept_order r e = (rep # new, e')" unfolding accept Let_def r(1) using True by simp
    moreover have "me_symbol_id e' = me_symbol_id e1" "me_seen_client_order_ids e' = me_seen_client_order_ids e1"
      "me_next_exchange_order_id e' = me_next_exchange_order_id e1" "me_reports_checksum e' = me_reports_checksum e1"
      by (subst r(3); simp)+
    moreover have "\<exists>x. mset (me_orders e') = add_mset x (mset (me_orders e1)) \<and> o_order_id x = i \<and>
       o_side x = nr_side r \<and> o_price_ticks x = nr_price_ticks r \<and> o_quantity x = remaining"
      using r(4,5,8) x by blast
    ultimately show ?thesis using True r(2) out e1f
      by - (rule exI [of _ remaining], rule exI [of _ new], rule exI [of _ "[]"], rule exI [of _ e1],
        rule exI [of _ e'], simp)
  next
    case False
    let ?e2 = "modify_state i (set_status Os_Canceled) e1"
    let ?can = "make_report (set_status Os_Canceled (state_at i e1)) Et_Canceled 0 0 (nr_timestamp_ns r) Rr_None"
    show ?thesis
    proof (cases "0 < remaining")
      case pos: True
      have "accept_order r e = (rep # new @ [?can], ?e2\<lparr>me_reports_checksum := append_to_checksum (me_reports_checksum e1) ?can\<rparr>)"
        unfolding accept if_not_P [OF False] if_P [OF pos] Let_def state_at_status [OF inv1] by (simp add: record_report_def)
      moreover have "me_inv ?e2" using match_invD(1) [OF match_inv_status [OF inv1]] unc1 by (simp add: me_inv_def)
      ultimately show ?thesis using pos False out e1f
        by - (rule exI [of _ remaining], rule exI [of _ new], rule exI [of _ "[?can]"], rule exI [of _ e1],
          rule exI [of _ "?e2\<lparr>me_reports_checksum := append_to_checksum (me_reports_checksum e1) ?can\<rparr>"], auto)
    next
      case nopos: False
      have "accept_order r e = (rep # new @ [], e1)" using accept nopos by simp
      moreover have "me_inv e1" using match_invD(1) [OF inv1] unc1 by (simp add: me_inv_def)
      ultimately show ?thesis using nopos out e1f by - (rule exI [of _ remaining], rule exI [of _ new], rule exI [of _ "[]"], rule exI [of _ e1],
          rule exI [of _ e1], simp)
    qed
  qed
qed

section \<open>The contract of a handler\<close>

text \<open>
  What every handler promises: the invariant, a checksum that is the fold of exactly the reports
  returned, no internal error, and at most one id consumed.
\<close>

definition handled :: "matching_engine \<Rightarrow> me_result \<Rightarrow> bool" where
  "handled e res \<longleftrightarrow> me_inv (snd res) \<and>
     me_reports_checksum (snd res) = foldl append_to_checksum (me_reports_checksum e) (fst res) \<and>
     (\<forall>rep \<in> set (fst res). er_reject_reason rep \<noteq> Rr_InternalError) \<and>
     me_symbol_id (snd res) = me_symbol_id e \<and>
     unat (me_next_exchange_order_id (snd res)) \<le> unat (me_next_exchange_order_id e) + 1"

lemma reserve_inv:
  "me_inv e \<Longrightarrow> me_inv (snd (reserve_client_order_id cid e))"
  by (auto simp: reserve_client_order_id_def me_inv_def engine_ok_def state_ok_def)

lemma reserve_fields [simp]:
  "me_book (snd (reserve_client_order_id cid e)) = me_book e"
  "me_states (snd (reserve_client_order_id cid e)) = me_states e"
  "me_symbol_id (snd (reserve_client_order_id cid e)) = me_symbol_id e"
  "me_next_exchange_order_id (snd (reserve_client_order_id cid e)) = me_next_exchange_order_id e"
  "me_reports_checksum (snd (reserve_client_order_id cid e)) = me_reports_checksum e"
  "crosses sd ot limit (snd (reserve_client_order_id cid e)) = crosses sd ot limit e"
  "would_self_trade sd ot limit cl x (snd (reserve_client_order_id cid e)) = would_self_trade sd ot limit cl x e"
  "can_fully_fill r (snd (reserve_client_order_id cid e)) = can_fully_fill r e"
  by (simp_all add: reserve_client_order_id_def crosses_def would_self_trade_def can_fully_fill_def)

lemma reserve_fst:
  "fst (reserve_client_order_id cid e) \<longleftrightarrow> cid \<noteq> kInvalidClientOrderId \<and> cid \<notin> set (me_seen_client_order_ids e)"
  by (simp add: reserve_client_order_id_def)

lemma reserve_seen:
  "fst (reserve_client_order_id cid e) \<Longrightarrow>
   set (me_seen_client_order_ids (snd (reserve_client_order_id cid e))) = insert cid (set (me_seen_client_order_ids e))"
  by (simp add: reserve_client_order_id_def split: if_splits)

lemma handled_reject:
  "me_inv e \<Longrightarrow> reason \<noteq> Rr_InternalError \<Longrightarrow> handled e (me_reject cid sy sd ts reason e)"
  by (simp add: handled_def me_reject_def record_report_def make_reject_def)

lemma handled_reject_reserved:
  "me_inv e \<Longrightarrow> reason \<noteq> Rr_InternalError \<Longrightarrow>
   handled e (me_reject cid sy sd ts reason (snd (reserve_client_order_id c e)))"
  by (simp add: handled_def me_reject_def record_report_def make_reject_def reserve_inv)

text \<open>The checks of \<^verbatim>\<open>submit_order\<close>, as one condition.\<close>

definition submit_passes :: "new_order_request \<Rightarrow> matching_engine \<Rightarrow> bool" where
  "submit_passes r e \<longleftrightarrow> nr_symbol_id r = me_symbol_id e \<and> is_valid_side (nr_side r) \<and>
     (nr_order_type r = Ot_Market \<or> nr_order_type r = Ot_Limit \<and> 0 < nr_price_ticks r) \<and>
     0 < nr_quantity r \<and> nr_time_in_force r \<in> {Tif_Gtc, Tif_Ioc, Tif_Fok} \<and>
     nr_client_order_id r \<noteq> kInvalidClientOrderId \<and> nr_client_order_id r \<notin> set (me_seen_client_order_ids e) \<and>
     (nr_post_only r \<longrightarrow> nr_order_type r = Ot_Limit \<and> nr_time_in_force r = Tif_Gtc \<and>
        \<not> crosses (nr_side r) (nr_order_type r) (nr_price_ticks r) e) \<and>
     (\<not> nr_post_only r \<longrightarrow>
        \<not> would_self_trade (nr_side r) (nr_order_type r) (nr_price_ticks r) (nr_client_id r) kInvalidOrderId e) \<and>
     (nr_time_in_force r = Tif_Fok \<longrightarrow> can_fully_fill r e)"

text \<open>The first reason that applies, in the order of the code.\<close>

definition submit_verdict :: "new_order_request \<Rightarrow> matching_engine \<Rightarrow> reject_reason option" where
  "submit_verdict r e =
     (if nr_symbol_id r \<noteq> me_symbol_id e \<or> \<not> is_valid_side (nr_side r) then Some Rr_Unsupported
      else if nr_order_type r \<noteq> Ot_Limit \<and> nr_order_type r \<noteq> Ot_Market then Some Rr_Unsupported
      else if nr_quantity r \<le> 0 then Some Rr_InvalidQuantity
      else if nr_order_type r = Ot_Limit \<and> nr_price_ticks r \<le> 0 then Some Rr_InvalidPrice
      else if nr_time_in_force r \<noteq> Tif_Gtc \<and> nr_time_in_force r \<noteq> Tif_Ioc \<and> nr_time_in_force r \<noteq> Tif_Fok
      then Some Rr_Unsupported
      else if nr_post_only r \<and> (nr_order_type r \<noteq> Ot_Limit \<or> nr_time_in_force r \<noteq> Tif_Gtc)
      then Some Rr_Unsupported
      else if nr_client_order_id r = kInvalidClientOrderId \<or> nr_client_order_id r \<in> set (me_seen_client_order_ids e)
      then Some Rr_DuplicateClientOrderId
      else if nr_post_only r \<and> crosses (nr_side r) (nr_order_type r) (nr_price_ticks r) e
      then Some Rr_PostOnlyWouldCross
      else if \<not> nr_post_only r \<and>
        would_self_trade (nr_side r) (nr_order_type r) (nr_price_ticks r) (nr_client_id r) kInvalidOrderId e
      then Some Rr_SelfTradePrevention
      else if nr_time_in_force r = Tif_Fok \<and> \<not> can_fully_fill r e then Some Rr_FokNotFillable
      else None)"

lemma verdict_chain:
  "(if c1 then Some r1 else if c2 then Some r2 else if c3 then Some r3 else if c4 then Some r4 else if c5 then Some r5
    else if c6 then Some r6 else if c7 then Some r7 else if c8 then Some r8 else if c9 then Some r9
    else if c10 then Some r10 else None) = None \<longleftrightarrow>
   \<not> c1 \<and> \<not> c2 \<and> \<not> c3 \<and> \<not> c4 \<and> \<not> c5 \<and> \<not> c6 \<and> \<not> c7 \<and> \<not> c8 \<and> \<not> c9 \<and> \<not> c10"
  by simp

lemma submit_verdict_None: "submit_verdict r e = None \<longleftrightarrow> submit_passes r e"
  unfolding submit_verdict_def verdict_chain submit_passes_def
  by (cases "nr_post_only r"; cases "nr_order_type r = Ot_Limit"; cases "nr_time_in_force r = Tif_Gtc";
      simp only: not_le de_Morgan_conj de_Morgan_disj not_not simp_thms insert_iff empty_iff order_type.distinct) blast+

lemma reject_chain:
  "\<exists>x. (x = a \<or> x = b) \<and>
    (if c1 then f r1 a else if c2 then f r2 a else if c3 then f r3 a else if c4 then f r4 a else if c5 then f r5 a
     else if c6 then f r6 a else if c7 then f r7 b else if c8 then f r8 b else if c9 then f r9 b
     else if c10 then f r10 b else z) =
    (if c1 then f r1 x else if c2 then f r2 x else if c3 then f r3 x else if c4 then f r4 x else if c5 then f r5 x
     else if c6 then f r6 x else if c7 then f r7 x else if c8 then f r8 x else if c9 then f r9 x
     else if c10 then f r10 x else z)"
  by (rule exI [of _ "if c1 \<or> c2 \<or> c3 \<or> c4 \<or> c5 \<or> c6 then a else b"]) simp

lemma submit_by_verdict:
  "\<exists>e'. (e' = e \<or> e' = snd (reserve_client_order_id (nr_client_order_id r) e)) \<and>
     me_submit_order r e = (case submit_verdict r e of
       None \<Rightarrow> accept_order r (snd (reserve_client_order_id (nr_client_order_id r) e))
     | Some reason \<Rightarrow> me_reject (nr_client_order_id r) (nr_symbol_id r) (nr_side r) (nr_timestamp_ns r) reason e')"
proof -
  let ?p = "reserve_client_order_id (nr_client_order_id r) e"
  obtain f e1 where p: "?p = (f, e1)" by (cases ?p)
  have c: "crosses sd ot limit e1 = crosses sd ot limit e" "can_fully_fill r e1 = can_fully_fill r e"
    "would_self_trade sd ot limit cl x e1 = would_self_trade sd ot limit cl x e" for sd ot limit cl x
    using reserve_fields(6-8) [where cid = "nr_client_order_id r" and e = e] p by simp_all
  have f: "\<not> f \<longleftrightarrow> nr_client_order_id r = kInvalidClientOrderId \<or> nr_client_order_id r \<in> set (me_seen_client_order_ids e)"
    using reserve_fst [of "nr_client_order_id r" e] p by simp
  show ?thesis
    unfolding me_submit_order_def submit_verdict_def Let_def p prod.case snd_conv c f
    by (simp only: if_distrib [where f = "\<lambda>v. case v of None \<Rightarrow> _ | Some reason \<Rightarrow> _ reason"] option.case) (rule reject_chain)
qed

lemma submit_verdict_internal: "submit_verdict r e \<noteq> Some Rr_InternalError"
  unfolding submit_verdict_def
  by (simp only: if_distrib [where f = "\<lambda>v. v \<noteq> Some Rr_InternalError"] option.inject option.distinct
      reject_reason.distinct simp_thms if_cancel)

lemma submit_passing:
  "submit_passes r e \<Longrightarrow> me_submit_order r e = accept_order r (snd (reserve_client_order_id (nr_client_order_id r) e))"
  using submit_by_verdict [of e r] by (auto simp: submit_verdict_None [symmetric])

text \<open>The engine handed to the accepting half, and the admission conditions it relies on.\<close>

lemma passing_acceptable:
  assumes "me_inv e" and "submit_passes r e" and "me_next_exchange_order_id e + 1 \<noteq> 0"
  shows "acceptable r (snd (reserve_client_order_id (nr_client_order_id r) e))"
proof -
  have "fst (reserve_client_order_id (nr_client_order_id r) e)" using assms(2) by (simp add: reserve_fst submit_passes_def)
  then show ?thesis using assms(2,3) reserve_seen by (auto simp: acceptable_def submit_passes_def)
qed

lemma initial_fields [simp]:
  "os_side (initial_state r i) = nr_side r" "os_order_type (initial_state r i) = nr_order_type r"
  "os_limit_price_ticks (initial_state r i) = nr_price_ticks r" "os_filled_quantity (initial_state r i) = 0"
  "os_exchange_order_id (initial_state r i) = i" "os_client_order_id (initial_state r i) = nr_client_order_id r"
  "os_status (initial_state r i) = Os_New"
  by (simp_all add: initial_state_def)

lemma set_status_fields [simp]:
  "os_exchange_order_id (set_status s st) = os_exchange_order_id st" "os_side (set_status s st) = os_side st"
  "os_filled_quantity (set_status s st) = os_filled_quantity st" "os_status (set_status s st) = s"
  by (simp_all add: set_status_def)

text \<open>
  Everything a submission does once its checks have passed: the reports in order, the filled and the
  remaining quantity, what rests and what the book keeps.
\<close>

lemma submit_outcome:
  assumes inv: "me_inv e" and pass: "submit_passes r e" and nxt: "me_next_exchange_order_id e + 1 \<noteq> 0"
  defines "i \<equiv> me_next_exchange_order_id e"
    and "av \<equiv> available (nr_side r) (nr_order_type r) (nr_price_ticks r) (me_orders e)"
  obtains new tail e' where "me_submit_order r e =
      (make_report (initial_state r i) Et_New 0 0 (nr_timestamp_ns r) Rr_None # new @ tail, e')"
    and "handled e (me_submit_order r e)"
    and "\<forall>rep \<in> set new. trade_of i (initial_state r i) rep"
    and "filled_in (\<lambda>r. er_exchange_order_id r = i) new = min (nr_quantity r) av"
    and "filled_in (\<lambda>r. er_exchange_order_id r \<noteq> i) new = min (nr_quantity r) av"
    and "tail = [] \<or> (\<exists>rep. tail = [rep] \<and> er_exec_type rep = Et_Canceled \<and> er_exchange_order_id rep = i \<and>
      er_last_fill_quantity rep = 0 \<and> er_filled_quantity rep = min (nr_quantity r) av)"
    and "if av < nr_quantity r \<and> nr_order_type r = Ot_Limit \<and> nr_time_in_force r = Tif_Gtc
      then tail = [] \<and> (\<exists>x \<in> set (me_orders e'). o_order_id x = i \<and> o_side x = nr_side r \<and>
        o_price_ticks x = nr_price_ticks r \<and> o_quantity x = nr_quantity r - av)
      else \<forall>x \<in> set (me_orders e'). o_order_id x \<noteq> i"
    and "\<forall>rep \<in> set new. er_exchange_order_id rep \<noteq> i \<longrightarrow> (\<exists>x \<in> set (me_orders e). o_side x = opposite (nr_side r) \<and>
      o_order_id x = er_exchange_order_id rep \<and> o_price_ticks x = er_last_fill_price_ticks rep)"
    and "sorted_wrt (\<lambda>rep rep'. \<not> better (opposite (nr_side r)) (er_last_fill_price_ticks rep') (er_last_fill_price_ticks rep))
      (filter (\<lambda>rep. er_exchange_order_id rep \<noteq> i) new)"
    and "me_seen_client_order_ids e' = me_seen_client_order_ids (snd (reserve_client_order_id (nr_client_order_id r) e))"
    and "me_next_exchange_order_id e' = i + 1"
proof -
  let ?e = "snd (reserve_client_order_id (nr_client_order_id r) e)"
  let ?rep = "make_report (initial_state r i) Et_New 0 0 (nr_timestamp_ns r) Rr_None"
  let ?start = "(admitted r ?e)\<lparr>me_reports_checksum := append_to_checksum (me_reports_checksum ?e) ?rep\<rparr>"
  have inv': "me_inv ?e" by (rule reserve_inv [OF inv])
  have acc: "acceptable r ?e" by (rule passing_acceptable [OF inv pass nxt])
  have i: "i = me_next_exchange_order_id ?e" by (simp add: i_def)
  obtain remaining new tail e1 e' where acpt: "accept_order r ?e = (?rep # new @ tail, e')"
    and out: "match_outcome i (nr_quantity r) ?start remaining new e1" and e': "me_inv e'"
      "me_reports_checksum e' = foldl append_to_checksum (me_reports_checksum ?e) (?rep # new @ tail)"
      "me_symbol_id e' = me_symbol_id ?e" "me_next_exchange_order_id e' = i + 1"
      "me_seen_client_order_ids e' = me_seen_client_order_ids ?e"
    and rest: "if 0 < remaining \<and> nr_order_type r = Ot_Limit \<and> nr_time_in_force r = Tif_Gtc
     then tail = [] \<and> (\<exists>x. mset (me_orders e') = add_mset x (mset (me_orders e1)) \<and> o_order_id x = i \<and>
       o_side x = nr_side r \<and> o_price_ticks x = nr_price_ticks r \<and> o_quantity x = remaining)
     else me_orders e' = me_orders e1 \<and>
       tail = (if 0 < remaining then [make_report (set_status Os_Canceled (state_at i e1)) Et_Canceled 0 0
                 (nr_timestamp_ns r) Rr_None] else [])"
    using accept_outcome [OF inv' acc i refl refl] by blast
  note ad = admitted_ok [OF _ acc i]
  have eok: "engine_ok ?e" using inv' by (simp add: me_inv_def)
  have st0: "state_at i ?start = initial_state r i" using ad(2) [OF eok] by simp
  have rem: "remaining = nr_quantity r - min (nr_quantity r) av"
    using match_outcomeD(4) [OF out] st0 ad(3) [OF eok] by (simp add: av_def)
  have sub: "me_submit_order r e = (?rep # new @ tail, e')" using submit_passing [OF pass] acpt by simp
  have trades: "\<forall>rep \<in> set new. trade_of i (initial_state r i) rep" using match_outcomeD(10) [OF out] st0 by simp
  have fill: "os_filled_quantity (state_at i e1) = nr_quantity r - remaining"
    using match_outcomeD(9) [OF out] st0 by simp
  have id1: "os_exchange_order_id (state_at i e1) = i" using match_outcomeD(2) [OF out] st0 by (simp add: same_order_def)
  have tail: "tail = [] \<or> (\<exists>rep. tail = [rep] \<and> er_exec_type rep = Et_Canceled \<and> er_exchange_order_id rep = i \<and>
      er_last_fill_quantity rep = 0 \<and> er_filled_quantity rep = min (nr_quantity r) av \<and> er_reject_reason rep = Rr_None)"
    using rest fill id1 rem by (auto split: if_splits)
  have "unat (i + 1) \<le> unat i + 1" by unat_arith
  then have hd: "handled e (me_submit_order r e)"
    unfolding handled_def sub using e' trades tail by (auto simp: i_def trade_of_def)
  have "if av < nr_quantity r \<and> nr_order_type r = Ot_Limit \<and> nr_time_in_force r = Tif_Gtc
      then tail = [] \<and> (\<exists>x \<in> set (me_orders e'). o_order_id x = i \<and> o_side x = nr_side r \<and>
        o_price_ticks x = nr_price_ticks r \<and> o_quantity x = nr_quantity r - av)
      else \<forall>x \<in> set (me_orders e'). o_order_id x \<noteq> i"
  proof (cases "av < nr_quantity r \<and> nr_order_type r = Ot_Limit \<and> nr_time_in_force r = Tif_Gtc")
    case True
    then have "0 < remaining" "remaining = nr_quantity r - av" using rem by auto
    with rest True obtain x where x: "tail = []" "mset (me_orders e') = add_mset x (mset (me_orders e1))" "o_order_id x = i"
      "o_side x = nr_side r" "o_price_ticks x = nr_price_ticks r" "o_quantity x = nr_quantity r - av" by auto
    have "x \<in> set (me_orders e')" using x(2) by (metis set_mset_add_mset_insert set_mset_mset insertI1)
    with True x show ?thesis by auto
  next
    case False
    then have "\<not> (0 < remaining \<and> nr_order_type r = Ot_Limit \<and> nr_time_in_force r = Tif_Gtc)" using rem by auto
    then have "me_orders e' = me_orders e1" using rest by (simp only: if_False)
    then show ?thesis using False match_invD(3) [OF match_outcomeD(1) [OF out]] by auto
  qed
  moreover have "filled_in (\<lambda>r. er_exchange_order_id r = i) new = min (nr_quantity r) av"
    "filled_in (\<lambda>r. er_exchange_order_id r \<noteq> i) new = min (nr_quantity r) av"
    using match_outcomeD(11,12) [OF out] rem by simp_all
  moreover have "tail = [] \<or> (\<exists>rep. tail = [rep] \<and> er_exec_type rep = Et_Canceled \<and> er_exchange_order_id rep = i \<and>
      er_last_fill_quantity rep = 0 \<and> er_filled_quantity rep = min (nr_quantity r) av)"
    using tail by blast
  moreover have "\<forall>rep \<in> set new. er_exchange_order_id rep \<noteq> i \<longrightarrow> (\<exists>x \<in> set (me_orders e). o_side x = opposite (nr_side r) \<and>
      o_order_id x = er_exchange_order_id rep \<and> o_price_ticks x = er_last_fill_price_ticks rep)"
    "sorted_wrt (\<lambda>rep rep'. \<not> better (opposite (nr_side r)) (er_last_fill_price_ticks rep') (er_last_fill_price_ticks rep))
      (filter (\<lambda>rep. er_exchange_order_id rep \<noteq> i) new)"
    using match_outcomeD(14,15) [OF out] st0 ad(3) [OF eok] by simp_all
  ultimately show thesis using that sub hd trades e'(4,5) by blast
qed

lemma submit_rejected:
  assumes "\<not> submit_passes r e"
  obtains reason e' where "submit_verdict r e = Some reason" and "reason \<noteq> Rr_InternalError"
    and "me_submit_order r e = me_reject (nr_client_order_id r) (nr_symbol_id r) (nr_side r) (nr_timestamp_ns r) reason e'"
    and "e' = e \<or> e' = snd (reserve_client_order_id (nr_client_order_id r) e)"
proof -
  from assms obtain reason where "submit_verdict r e = Some reason" by (auto simp: submit_verdict_None [symmetric])
  with that [of reason] submit_verdict_internal [of r e] submit_by_verdict [of e r] show thesis by auto
qed

lemma submit_handled:
  assumes "me_inv e" and "me_next_exchange_order_id e + 1 \<noteq> 0"
  shows "handled e (me_submit_order r e)"
proof (cases "submit_passes r e")
  case True
  show ?thesis by (rule submit_outcome [OF assms(1) True assms(2)])
next
  case False
  then obtain reason e' where "reason \<noteq> Rr_InternalError" "e' = e \<or> e' = snd (reserve_client_order_id (nr_client_order_id r) e)"
    "me_submit_order r e = me_reject (nr_client_order_id r) (nr_symbol_id r) (nr_side r) (nr_timestamp_ns r) reason e'"
    by (rule submit_rejected)
  with handled_reject [OF assms(1)] handled_reject_reserved [OF assms(1)] show ?thesis by auto
qed

section \<open>The fill-or-kill test\<close>

lemma available_append [simp]: "available sd ot limit (xs @ ys) = available sd ot limit xs + available sd ot limit ys"
  by (simp add: available_def)

lemma available_queue:
  assumes "\<forall>x \<in> set q. o_side x = opposite sd \<and> o_price_ticks x = p"
  shows "available sd ot limit q = (if executable sd ot limit p then queue_total q else 0)"
  using assms by (induction q) (auto simp: available_def queue_total_def)

lemma available_zero:
  "(\<And>x. x \<in> set xs \<Longrightarrow> o_side x = opposite sd \<Longrightarrow> \<not> executable sd ot limit (o_price_ticks x)) \<Longrightarrow>
   available sd ot limit xs = 0"
  by (induction xs) (auto simp: available_def)

lemma available_level_nonneg: "levels_ok sy sd' ls \<Longrightarrow> 0 \<le> available sd ot limit (flat ls)"
  unfolding available_def
  using levels_ok_flatD [of sy sd' ls] by (intro sum_list_nonneg) (fastforce simp: is_valid_resting_order_def)

lemma fill_levels_available:
  assumes "levels_ok sy (opposite (nr_side r)) ls" and "is_valid_side (nr_side r)" and "0 < required" and "length ls \<le> n"
  shows "fill_levels r required (l2_of_levels n ls) \<longleftrightarrow>
    required \<le> available (nr_side r) (nr_order_type r) (nr_price_ticks r) (flat ls)"
  using assms
proof (induction ls arbitrary: required n)
  case Nil
  then show ?case by (simp add: l2_of_levels_def available_def flat_def)
next
  case (Cons l ls)
  obtain p q where l: "l = (p, q)" by (cases l)
  let ?ex = "executable (nr_side r) (nr_order_type r) (nr_price_ticks r)"
  let ?av = "available (nr_side r) (nr_order_type r) (nr_price_ticks r)"
  have ok: "levels_ok sy (opposite (nr_side r)) ls" and q: "\<forall>x \<in> set q. o_side x = opposite (nr_side r) \<and> o_price_ticks x = p"
    and below: "\<forall>p' \<in> fst ` set ls. better (opposite (nr_side r)) p p'"
    using Cons.prems(1) l by (auto simp: levels_ok_def)
  obtain m where n: "n = Suc m" "length ls \<le> m" using Cons.prems(4) by (cases n) auto
  have l2: "l2_of_levels n (l # ls) = \<lparr>l2_price_ticks = p, l2_quantity = queue_total q\<rparr> # l2_of_levels m ls"
    by (simp add: l2_of_levels_def n l)
  have test: "(nr_order_type r = Ot_Market \<or> (nr_side r = Buy \<and> p \<le> nr_price_ticks r) \<or>
      (nr_side r = Sell \<and> p \<ge> nr_price_ticks r)) = ?ex p"
    by (auto simp: executable_def)
  have split: "?av (flat (l # ls)) = (if ?ex p then queue_total q else 0) + ?av (flat ls)"
    using available_queue [OF q] by (simp add: l flat_def)
  have tl: "0 \<le> ?av (flat ls)" using available_level_nonneg [OF ok] .
  show ?case
  proof (cases "?ex p")
    case False
    have "?av (flat ls) = 0"
    proof (rule available_zero)
      fix x
      assume "x \<in> set (flat ls)"
      then obtain p' q' where x: "(p', q') \<in> set ls" "x \<in> set q'" by (auto simp: in_flat)
      then have "o_price_ticks x = p'" "better (opposite (nr_side r)) p p'" using ok below by (force simp: levels_ok_def)+
      then show "\<not> ?ex (o_price_ticks x)" using False Cons.prems(2)
        by (cases "nr_side r") (auto simp: executable_def better_def)
    qed
    with False Cons.prems(3) split test show ?thesis by (simp add: l2)
  next
    case True
    show ?thesis
    proof (cases "required \<le> queue_total q")
      case True
      with \<open>?ex p\<close> split tl test show ?thesis by (simp add: l2)
    next
      case False
      then have "fill_levels r (required - queue_total q) (l2_of_levels m ls) \<longleftrightarrow> required - queue_total q \<le> ?av (flat ls)"
        using Cons.IH [OF ok Cons.prems(2), of "required - queue_total q" m] n by simp
      with False \<open>?ex p\<close> split test show ?thesis by (auto simp: l2)
    qed
  qed
qed

lemma levels_le_orders: "levels_ok sy sd ls \<Longrightarrow> length ls \<le> length (flat ls)"
proof (induction ls)
  case (Cons l ls)
  then show ?case by (cases l; cases "snd l") (auto simp: levels_ok_def flat_def)
qed simp

lemma can_fully_fill_available:
  assumes "ob_inv (me_book e)" and "is_valid_side (nr_side r)" and "0 < nr_quantity r"
  shows "can_fully_fill r e \<longleftrightarrow>
    nr_quantity r \<le> available (nr_side r) (nr_order_type r) (nr_price_ticks r) (me_orders e)"
proof -
  let ?av = "available (nr_side r) (nr_order_type r) (nr_price_ticks r)" and ?L = "me_ladder e"
  have ok: "ladder_ok ?L" using assms(1) by (simp add: ob_inv_def)
  then have lv: "levels_ok (ld_symbol ?L) Buy (ld_bids ?L)" "levels_ok (ld_symbol ?L) Sell (ld_asks ?L)"
    by (simp_all add: ladder_ok_def)
  have cnt: "ob_order_count (me_book e) = length (flat (ld_bids ?L)) + length (flat (ld_asks ?L))"
    using ob_order_count_refines [OF assms(1)] by (simp add: ld_orders_def)
  have zero: "nr_side r = Buy \<Longrightarrow> ?av (flat (ld_bids ?L)) = 0" "nr_side r = Sell \<Longrightarrow> ?av (flat (ld_asks ?L)) = 0"
    using levels_ok_flatD [OF lv(1)] levels_ok_flatD [OF lv(2)] by (auto intro!: available_zero)
  have view: "ob_l2_view n (me_book e) = spec_l2_view n ?L" for n using std.view_refines [OF assms(1)] .
  show ?thesis
  proof (cases "nr_side r = Buy")
    case True
    then show ?thesis
      using fill_levels_available [of "ld_symbol ?L" r "ld_asks ?L" "nr_quantity r" "ob_order_count (me_book e)"]
        lv(2) assms(3) cnt levels_le_orders [OF lv(2)] zero(1)
      by (simp add: can_fully_fill_def Let_def view spec_l2_view_def ld_orders_def)
  next
    case False
    then have "nr_side r = Sell" using assms(2) by auto
    then show ?thesis
      using fill_levels_available [of "ld_symbol ?L" r "ld_bids ?L" "nr_quantity r" "ob_order_count (me_book e)"]
        lv(1) assms(3) cnt levels_le_orders [OF lv(1)] zero(2)
      by (simp add: can_fully_fill_def Let_def view spec_l2_view_def ld_orders_def)
  qed
qed

section \<open>Cancel and replace\<close>

lemma find_refines: "ob_inv b \<Longrightarrow> ob_find_order i b = ld_find i (ob_ladder b)"
  by (rule std.find_refines)

lemma withdraw_ok:
  assumes inv: "me_inv e" and find: "ob_find_order i (me_book e) \<noteq> None"
  defines "e' \<equiv> e\<lparr>me_book := snd (ob_cancel_order i (me_book e))\<rparr>"
  shows "fst (ob_cancel_order i (me_book e))" and "me_inv e'"
    and "me_orders e' = filter (\<lambda>x. o_order_id x \<noteq> i) (me_orders e)"
    and "\<exists>st x. map_of (me_states e) i = Some st \<and> x \<in> set (me_orders e) \<and> o_order_id x = i \<and>
      o_side x = os_side st \<and> state_matches st x"
proof -
  have ok: "engine_ok e" using inv by (simp add: me_inv_def)
  have b: "ob_inv (me_book e)" using engine_okD(1) [OF ok] .
  have lok: "ladder_ok (me_ladder e)" using b by (simp add: ob_inv_def)
  obtain x where f: "ld_find i (me_ladder e) = Some x" using find find_refines [OF b] by auto
  then have x: "x \<in> set (me_orders e)" "o_order_id x = i" by (simp_all add: ld_find_Some [OF lok])
  have ref: "ob_inv (snd (ob_cancel_order i (me_book e)))"
    "spec_cancel i (me_ladder e) = (fst (ob_cancel_order i (me_book e)), ob_ladder (snd (ob_cancel_order i (me_book e))))"
    using ob_cancel_refines [OF b] by blast+
  have r: "fst (ob_cancel_order i (me_book e))" "ob_ladder (snd (ob_cancel_order i (me_book e))) = on_side (o_side x) (drop_order x) (me_ladder e)"
    using ref(2) f by (simp_all add: spec_cancel_def)
  show "fst (ob_cancel_order i (me_book e))" by (rule r(1))
  show ords: "me_orders e' = filter (\<lambda>x. o_order_id x \<noteq> i) (me_orders e)"
    using ld_orders_drop [OF lok x(1)] r(2) x(2) by (simp add: e'_def)
  have sym: "ob_symbol_id (me_book e') = ob_symbol_id (me_book e)"
    using arg_cong [OF r(2), of ld_symbol] by (simp add: ladder_simps e'_def)
  have "engine_ok e'"
  proof (rule engine_okI)
    fix j st
    assume "map_of (me_states e') j = Some st"
    with engine_okD(6) [OF ok, of j st] show "state_ok e' j st" by (simp add: e'_def state_ok_def)
  next
    fix y
    assume "y \<in> set (me_orders e')"
    with engine_okD(7) [OF ok, of y] ords show "\<exists>st. map_of (me_states e') (o_order_id y) = Some st \<and> state_matches st y"
      by (simp add: e'_def)
  next
    show "ob_symbol_id (me_book e') = me_symbol_id e'" using sym engine_okD(2) [OF ok] by (simp add: e'_def)
  qed (use engine_okD(3-5) [OF ok] ref(1) in \<open>simp_all add: e'_def\<close>)
  moreover have "uncrossed (me_orders e')" using inv ords by (simp add: me_inv_def uncrossed_def)
  ultimately show "me_inv e'" by (simp add: me_inv_def)
  show "\<exists>st x. map_of (me_states e) i = Some st \<and> x \<in> set (me_orders e) \<and> o_order_id x = i \<and>
      o_side x = os_side st \<and> state_matches st x"
    using engine_okD(7) [OF ok x(1)] x by (auto simp: state_matches_def)
qed

text \<open>A change of an order's state while nothing rests under its id.\<close>

lemma modify_state_inv:
  assumes inv: "me_inv e" and none: "\<forall>x \<in> set (me_orders e). o_order_id x \<noteq> i"
    and st: "map_of (me_states e) i = Some st" and f: "state_ok e i (f st)"
  shows "match_inv i (os_original_quantity (f st) - os_filled_quantity (f st)) (modify_state i f e)"
    and "me_inv (modify_state i f e)"
proof -
  let ?e = "modify_state i f e"
  have ok: "engine_ok e" using inv by (simp add: me_inv_def)
  have "engine_ok ?e"
  proof (rule engine_okI)
    fix j st'
    assume "map_of (me_states ?e) j = Some st'"
    with engine_okD(6) [OF ok, of j st'] f st show "state_ok ?e j st'"
      by (auto simp: map_of_modify_state split: if_splits)
  next
    fix x
    assume "x \<in> set (me_orders ?e)"
    with engine_okD(7) [OF ok, of x] none show "\<exists>st. map_of (me_states ?e) (o_order_id x) = Some st \<and> state_matches st x"
      by (auto simp: map_of_modify_state)
  qed (use engine_okD(1-5) [OF ok] in simp_all)
  then show "match_inv i (os_original_quantity (f st) - os_filled_quantity (f st)) ?e" "me_inv ?e"
    using none st inv by (auto simp: match_inv_def me_inv_def map_of_modify_state)
qed

lemma cancel_handled:
  assumes inv: "me_inv e"
  shows "handled e (me_cancel_order r e)"
proof -
  let ?p = "reserve_client_order_id (cr_client_order_id r) e" and ?i = "cr_exchange_order_id r"
  obtain f e1 where p: "?p = (f, e1)" by (cases ?p)
  have inv1: "me_inv e1" using reserve_inv [OF inv, of "cr_client_order_id r"] p by simp
  have same: "me_states e1 = me_states e" "me_book e1 = me_book e" "me_reports_checksum e1 = me_reports_checksum e"
    "me_symbol_id e1 = me_symbol_id e" "me_next_exchange_order_id e1 = me_next_exchange_order_id e"
    using reserve_fields [where cid = "cr_client_order_id r" and e = e] p by simp_all
  have rej: "handled e (me_reject (cr_client_order_id r) (me_symbol_id e) NoSide (cr_timestamp_ns r) reason e1)"
    if "reason \<noteq> Rr_InternalError" for reason
    using handled_reject_reserved [OF inv that, where c = "cr_client_order_id r"] p by simp
  show ?thesis
  proof (cases "f \<and> map_of (me_states e1) ?i \<noteq> None \<and> ob_find_order ?i (me_book e1) \<noteq> None")
    case False
    then show ?thesis unfolding me_cancel_order_def Let_def p prod.case using rej by auto
  next
    case True
    let ?e2 = "e1\<lparr>me_book := snd (ob_cancel_order ?i (me_book e1))\<rparr>"
    let ?e3 = "modify_state ?i (set_status Os_Canceled) ?e2"
    have find: "ob_find_order ?i (me_book e1) \<noteq> None" using True by blast
    note w = withdraw_ok [OF inv1 find]
    obtain st where st: "map_of (me_states e1) ?i = Some st" using w(4) by blast
    have st2: "map_of (me_states ?e2) ?i = Some st" using st by simp
    have sok: "state_ok ?e2 ?i (set_status Os_Canceled st)"
      using engine_okD(6) [of ?e2 ?i st] w(2) st2 by (simp add: me_inv_def)
    have none: "\<forall>x \<in> set (me_orders ?e2). o_order_id x \<noteq> ?i" using w(3) by simp
    have inv3: "me_inv ?e3" using modify_state_inv(2) [where f = "set_status Os_Canceled", OF w(2) none st2 sok] .
    obtain b where b: "ob_cancel_order ?i (me_book e1) = (True, b)"
      using w(1) by (cases "ob_cancel_order ?i (me_book e1)") simp
    have "me_cancel_order r e = record_report (make_report (state_at ?i ?e3) Et_Canceled 0 0 (cr_timestamp_ns r) Rr_None) ([], ?e3)"
      unfolding me_cancel_order_def Let_def p prod.case b snd_conv using True by auto
    then show ?thesis using inv3 same by (simp add: handled_def record_report_def)
  qed
qed

definition replace_passes :: "replace_order_request \<Rightarrow> matching_engine \<Rightarrow> bool" where
  "replace_passes r e \<longleftrightarrow> 0 < rr_new_quantity r \<and> 0 < rr_new_price_ticks r \<and>
     rr_client_order_id r \<noteq> kInvalidClientOrderId \<and> rr_client_order_id r \<notin> set (me_seen_client_order_ids e) \<and>
     map_of (me_states e) (rr_exchange_order_id r) \<noteq> None \<and> ob_find_order (rr_exchange_order_id r) (me_book e) \<noteq> None \<and>
     (let st = state_at (rr_exchange_order_id r) e in
      \<not> would_self_trade (os_side st) (os_order_type st) (rr_new_price_ticks r) (os_client_id st) (os_exchange_order_id st) e)"

definition replaced_state :: "replace_order_request \<Rightarrow> order_state \<Rightarrow> order_state" where
  "replaced_state r st = st\<lparr>os_limit_price_ticks := rr_new_price_ticks r,
     os_original_quantity := os_filled_quantity st + rr_new_quantity r,
     os_status := Os_Replaced, os_timestamp_ns := rr_timestamp_ns r\<rparr>"

lemma replaced_fields [simp]:
  "os_side (replaced_state r st) = os_side st" "os_order_type (replaced_state r st) = os_order_type st"
  "os_limit_price_ticks (replaced_state r st) = rr_new_price_ticks r"
  "os_exchange_order_id (replaced_state r st) = os_exchange_order_id st"
  "os_filled_quantity (replaced_state r st) = os_filled_quantity st"
  "os_original_quantity (replaced_state r st) = os_filled_quantity st + rr_new_quantity r"
  "os_client_order_id (replaced_state r st) = os_client_order_id st" "os_symbol_id (replaced_state r st) = os_symbol_id st"
  by (simp_all add: replaced_state_def)

lemma if_all: "(c \<Longrightarrow> P A) \<Longrightarrow> (\<not> c \<Longrightarrow> P B) \<Longrightarrow> P (if c then A else B)"
  by simp

lemma replace_rejects:
  assumes "\<not> replace_passes r e"
  obtains sd reason e' where "reason \<noteq> Rr_InternalError"
    and "me_replace_order r e = me_reject (rr_client_order_id r) (me_symbol_id e) sd (rr_timestamp_ns r) reason e'"
    and "e' = e \<or> e' = snd (reserve_client_order_id (rr_client_order_id r) e)"
proof -
  let ?p = "reserve_client_order_id (rr_client_order_id r) e" and ?i = "rr_exchange_order_id r"
  obtain f e1 where p: "?p = (f, e1)" by (cases ?p)
  let ?P = "\<lambda>res. \<exists>sd reason e'. reason \<noteq> Rr_InternalError \<and> (e' = e \<or> e' = e1) \<and>
    res = me_reject (rr_client_order_id r) (me_symbol_id e) sd (rr_timestamp_ns r) reason e'"
  have same: "me_states e1 = me_states e" "me_book e1 = me_book e" "me_symbol_id e1 = me_symbol_id e"
    "would_self_trade sd ot limit cl x e1 = would_self_trade sd ot limit cl x e" for sd ot limit cl x
    using reserve_fields [where cid = "rr_client_order_id r" and e = e] p by simp_all
  have at: "state_at j e1 = state_at j e" for j using same by (simp add: state_at_def)
  have f: "f \<longleftrightarrow> rr_client_order_id r \<noteq> kInvalidClientOrderId \<and> rr_client_order_id r \<notin> set (me_seen_client_order_ids e)"
    using reserve_fst [of "rr_client_order_id r" e] p by simp
  have rej: "?P (me_reject (rr_client_order_id r) (me_symbol_id e) sd (rr_timestamp_ns r) reason e1)"
    "?P (me_reject (rr_client_order_id r) (me_symbol_id e) sd (rr_timestamp_ns r) reason e)"
    if "reason \<noteq> Rr_InternalError" for reason sd
    using that by blast+
  have "?P (me_replace_order r e)"
    unfolding me_replace_order_def Let_def p prod.case same at f
    by ((rule if_all [where P = ?P], (rule rej, simp))+,
      use assms in \<open>simp add: replace_passes_def Let_def not_le [symmetric]\<close>)
  then show thesis using that p by auto
qed

lemma replace_failing:
  assumes "me_inv e" and "\<not> replace_passes r e"
  shows "handled e (me_replace_order r e) \<and> (\<exists>rep e'. me_replace_order r e = ([rep], e') \<and> er_exec_type rep = Et_Rejected \<and>
    me_book e' = me_book e \<and> set (me_seen_client_order_ids e) \<subseteq> set (me_seen_client_order_ids e'))"
proof -
  obtain sd reason e1 where r: "reason \<noteq> Rr_InternalError"
    "me_replace_order r e = me_reject (rr_client_order_id r) (me_symbol_id e) sd (rr_timestamp_ns r) reason e1"
    "e1 = e \<or> e1 = snd (reserve_client_order_id (rr_client_order_id r) e)"
    by (rule replace_rejects [OF assms(2)])
  have "set (me_seen_client_order_ids e) \<subseteq> set (me_seen_client_order_ids e1)" "me_book e1 = me_book e"
    using r(3) by (auto simp: reserve_client_order_id_def split: if_splits)
  then show ?thesis
    using r(3) handled_reject [OF assms(1) r(1)] handled_reject_reserved [OF assms(1) r(1)] unfolding r(2)
    by (auto simp: me_reject_def record_report_def make_reject_def)
qed

text \<open>
  A replacement that passes: the order leaves the book and what follows is a run of the loop from the engine
  that holds its new state.
\<close>

lemma replace_entry:
  assumes inv: "me_inv e" and pass: "replace_passes r e"
  defines "i \<equiv> rr_exchange_order_id r" and "st \<equiv> state_at (rr_exchange_order_id r) e"
  defines "rep \<equiv> make_report (replaced_state r st) Et_Replaced 0 0 (rr_timestamp_ns r) Rr_None"
  obtains e4 where "match_inv i (rr_new_quantity r) e4" and "uncrossed (me_orders e4)" and "me_inv e4"
    and "state_at i e4 = replaced_state r st" and "map_of (me_states e) i = Some st"
    and "map_of (me_states e4) = (map_of (me_states e))(i \<mapsto> replaced_state r st)"
    and "os_order_type st = Ot_Limit" and "is_valid_side (os_side st)" and "os_exchange_order_id st = i"
    and "\<exists>x \<in> set (me_orders e). o_order_id x = i \<and> o_side x = os_side st"
    and "me_orders e4 = filter (\<lambda>x. o_order_id x \<noteq> i) (me_orders e)"
    and "me_symbol_id e4 = me_symbol_id e" and "me_next_exchange_order_id e4 = me_next_exchange_order_id e"
    and "me_reports_checksum e4 = append_to_checksum (me_reports_checksum e) rep"
    and "me_seen_client_order_ids e4 = me_seen_client_order_ids (snd (reserve_client_order_id (rr_client_order_id r) e))"
    and "\<forall>remaining new e5. match_against_book i (rr_new_quantity r) (rr_timestamp_ns r) ([rep], e4) = (remaining, ([rep] @ new, e5)) \<longrightarrow>
      me_replace_order r e = (if remaining > 0
        then (let e = (if os_filled_quantity (state_at i e5) > 0 \<and> os_status (state_at i e5) \<noteq> Os_Replaced
                       then modify_state i (set_status Os_PartiallyFilled) e5 else e5);
                  (ok, e) = rest_limit_order (state_at i e) remaining (rr_timestamp_ns r) e
              in if ok then (rep # new, e) else reject_internal i (rr_timestamp_ns r) (rep # new, e))
        else (rep # new, e5))"
proof -
  let ?p = "reserve_client_order_id (rr_client_order_id r) e" and ?ts = "rr_timestamp_ns r"
  obtain f e1 where p: "?p = (f, e1)" by (cases ?p)
  have f: "f" using reserve_fst [of "rr_client_order_id r" e] p pass by (simp add: replace_passes_def)
  have inv1: "me_inv e1" using reserve_inv [OF inv, of "rr_client_order_id r"] p by simp
  have same: "me_states e1 = me_states e" "me_book e1 = me_book e" "me_symbol_id e1 = me_symbol_id e"
    "me_next_exchange_order_id e1 = me_next_exchange_order_id e" "me_reports_checksum e1 = me_reports_checksum e"
    "would_self_trade sd ot limit cl x e1 = would_self_trade sd ot limit cl x e" for sd ot limit cl x
    using reserve_fields [where cid = "rr_client_order_id r" and e = e] p by simp_all
  have at: "state_at j e1 = state_at j e" for j using same by (simp add: state_at_def)
  have find: "ob_find_order i (me_book e1) \<noteq> None" using pass same by (simp add: replace_passes_def i_def)
  note w = withdraw_ok [OF inv1 find]
  let ?e2 = "e1\<lparr>me_book := snd (ob_cancel_order i (me_book e1))\<rparr>"
  let ?e3 = "modify_state i (replaced_state r) ?e2"
  let ?e4 = "?e3\<lparr>me_reports_checksum := append_to_checksum (me_reports_checksum e) rep\<rparr>"
  obtain x where x: "map_of (me_states e1) i = Some st" "x \<in> set (me_orders e1)" "o_order_id x = i"
      "o_side x = os_side st" "state_matches st x"
    using w(4) same by (auto simp: st_def state_at_def i_def)
  have st2: "map_of (me_states ?e2) i = Some st" using x(1) by simp
  have stok: "state_ok ?e2 i st" using engine_okD(6) [of ?e2 i st] w(2) st2 by (simp add: me_inv_def)
  then have sok: "state_ok ?e2 i (replaced_state r st)"
    using pass x(5) by (auto simp: state_ok_def replace_passes_def state_matches_def)
  have none: "\<forall>x \<in> set (me_orders ?e2). o_order_id x \<noteq> i" using w(3) by simp
  have inv3: "match_inv i (rr_new_quantity r) ?e3" "me_inv ?e3"
    using modify_state_inv [where f = "replaced_state r", OF w(2) none st2 sok] by simp_all
  have inv4: "match_inv i (rr_new_quantity r) ?e4" "uncrossed (me_orders ?e4)" "me_inv ?e4"
    using inv3 by (simp_all add: me_inv_def)
  have st4: "state_at i ?e4 = replaced_state r st" using st2 by (simp add: state_at_def map_of_modify_state)
  have ords: "me_orders ?e4 = filter (\<lambda>x. o_order_id x \<noteq> i) (me_orders e)" using w(3) same by simp
  have states: "map_of (me_states ?e4) = (map_of (me_states e))(i \<mapsto> replaced_state r st)"
    using x(1) same by (auto simp: map_of_modify_state fun_eq_iff)
  obtain b where b: "ob_cancel_order i (me_book e1) = (True, b)" "snd (ob_cancel_order i (me_book e1)) = b"
    using w(1) by (cases "ob_cancel_order i (me_book e1)") simp
  have mod: "modify_state i (\<lambda>st. st\<lparr>os_limit_price_ticks := rr_new_price_ticks r,
      os_original_quantity := os_filled_quantity st + rr_new_quantity r, os_status := Os_Replaced, os_timestamp_ns := ?ts\<rparr>)
      (e1\<lparr>me_book := b\<rparr>) = ?e3"
    by (simp add: b(2) replaced_state_def [abs_def])
  have rec: "record_report (make_report (state_at i ?e3) Et_Replaced 0 0 ?ts Rr_None) ([], ?e3) = ([rep], ?e4)"
    using st4 same by (simp add: record_report_def state_at_def rep_def)
  have shape: "me_replace_order r e = (if remaining > 0
     then (let e = (if os_filled_quantity (state_at i e5) > 0 \<and> os_status (state_at i e5) \<noteq> Os_Replaced
                    then modify_state i (set_status Os_PartiallyFilled) e5 else e5);
               (ok, e) = rest_limit_order (state_at i e) remaining ?ts e
           in if ok then (rep # new, e) else reject_internal i ?ts (rep # new, e))
     else (rep # new, e5))"
    if run: "match_against_book i (rr_new_quantity r) ?ts ([rep], ?e4) = (remaining, ([rep] @ new, e5))" for remaining new e5
  proof -
    have "\<not> rr_new_quantity r \<le> 0" "\<not> rr_new_price_ticks r \<le> 0" "\<not> (\<not> f)"
      "\<not> (map_of (me_states e1) i = None \<or> ob_find_order i (me_book e1) = None)"
      "\<not> would_self_trade (os_side st) (os_order_type st) (rr_new_price_ticks r) (os_client_id st) (os_exchange_order_id st) e1"
      using pass f x(1) find unfolding replace_passes_def Let_def same i_def st_def by auto
    note c = this [unfolded i_def st_def]
    note rw = b(1) mod rec run
    show ?thesis
      unfolding me_replace_order_def Let_def p prod.case at if_not_P [OF c(1)] if_not_P [OF c(2)] if_not_P [OF c(3)]
        if_not_P [OF c(4)] if_not_P [OF c(5)] rw [unfolded b(2), unfolded i_def]
      unfolding i_def append_Cons append_Nil if_True not_True_eq_False if_False by (rule refl)
  qed
  show thesis
    by (rule that [OF inv4 st4 _ states _ _ _ _ ords])
      (use x stok same p shape in \<open>auto simp: state_ok_def state_matches_def\<close>)
qed

text \<open>A replacement that passes: the order leaves the book, trades at its new price, and rests again.\<close>

lemma replace_outcome:
  assumes inv: "me_inv e" and pass: "replace_passes r e"
  defines "i \<equiv> rr_exchange_order_id r" and "st \<equiv> state_at (rr_exchange_order_id r) e"
  defines "av \<equiv> available (os_side st) Ot_Limit (rr_new_price_ticks r) (me_orders e)"
  obtains new e' where "me_replace_order r e = (make_report (replaced_state r st) Et_Replaced 0 0 (rr_timestamp_ns r) Rr_None # new, e')"
    and "handled e (me_replace_order r e)"
    and "\<forall>rep \<in> set new. trade_of i (replaced_state r st) rep"
    and "filled_in (\<lambda>rep. er_exchange_order_id rep = i) new = min (rr_new_quantity r) av"
    and "filled_in (\<lambda>rep. er_exchange_order_id rep \<noteq> i) new = min (rr_new_quantity r) av"
    and "if av < rr_new_quantity r
      then \<exists>x \<in> set (me_orders e'). o_order_id x = i \<and> o_side x = os_side st \<and>
        o_price_ticks x = rr_new_price_ticks r \<and> o_quantity x = rr_new_quantity r - av
      else \<forall>x \<in> set (me_orders e'). o_order_id x \<noteq> i"
    and "me_seen_client_order_ids e' = me_seen_client_order_ids (snd (reserve_client_order_id (rr_client_order_id r) e))"
    and "\<forall>rep \<in> set new. er_exchange_order_id rep \<noteq> i \<longrightarrow> (\<exists>x \<in> set (me_orders e). o_side x = opposite (os_side st) \<and>
      o_order_id x = er_exchange_order_id rep \<and> executable (os_side st) Ot_Limit (rr_new_price_ticks r) (o_price_ticks x))"
    and "is_valid_side (os_side st)" and "os_order_type st = Ot_Limit" and "os_exchange_order_id st = i"
proof -
  let ?ts = "rr_timestamp_ns r" and ?rep = "make_report (replaced_state r st) Et_Replaced 0 0 (rr_timestamp_ns r) Rr_None"
  obtain e4 where inv4: "match_inv i (rr_new_quantity r) e4" and unc4: "uncrossed (me_orders e4)"
    and st4: "state_at i e4 = replaced_state r st" and ot: "os_order_type st = Ot_Limit" and side: "is_valid_side (os_side st)"
    and own_id: "os_exchange_order_id st = i" and ex: "\<exists>x \<in> set (me_orders e). o_order_id x = i \<and> o_side x = os_side st"
    and ords: "me_orders e4 = filter (\<lambda>x. o_order_id x \<noteq> i) (me_orders e)"
    and same: "me_symbol_id e4 = me_symbol_id e" "me_next_exchange_order_id e4 = me_next_exchange_order_id e"
      "me_reports_checksum e4 = append_to_checksum (me_reports_checksum e) ?rep"
      "me_seen_client_order_ids e4 = me_seen_client_order_ids (snd (reserve_client_order_id (rr_client_order_id r) e))"
    and shape: "\<forall>remaining new e5. match_against_book i (rr_new_quantity r) ?ts ([?rep], e4) = (remaining, ([?rep] @ new, e5)) \<longrightarrow>
      me_replace_order r e = (if remaining > 0
        then (let e = (if os_filled_quantity (state_at i e5) > 0 \<and> os_status (state_at i e5) \<noteq> Os_Replaced
                       then modify_state i (set_status Os_PartiallyFilled) e5 else e5);
                  (ok, e) = rest_limit_order (state_at i e) remaining ?ts e
              in if ok then (?rep # new, e) else reject_internal i ?ts (?rep # new, e))
        else (?rep # new, e5))"
    by (rule replace_entry [OF inv pass, folded i_def st_def], rule that, assumption+)
  obtain remaining new e5 where
    run: "match_against_book i (rr_new_quantity r) ?ts ([?rep], e4) = (remaining, ([?rep] @ new, e5))"
    and out: "match_outcome i (rr_new_quantity r) e4 remaining new e5"
    using match_runs [OF inv4, of ?ts] by blast
  note shape = shape [rule_format, OF run]
  have "av = available (os_side st) Ot_Limit (rr_new_price_ticks r) (me_orders e4)"
  proof -
    have d: "distinct (map o_order_id (me_orders e))"
      using inv by (simp add: me_inv_def engine_ok_def ob_inv_def ladder_ok_def)
    obtain x where x: "x \<in> set (me_orders e)" "o_order_id x = i" "o_side x = os_side st" using ex by blast
    let ?f = "\<lambda>y. if o_side y = opposite (os_side st) \<and> executable (os_side st) Ot_Limit (rr_new_price_ticks r) (o_price_ticks y)
      then o_quantity y else 0"
    have "?f x = 0" using x(3) side by auto
    then show ?thesis unfolding av_def available_def
      using sum_list_filter_remove [OF d x(1), of ?f] ords x(2) by simp
  qed
  then have rem: "remaining = rr_new_quantity r - min (rr_new_quantity r) av"
    using match_outcomeD(4) [OF out] st4 ot by simp
  let ?c = "os_filled_quantity (state_at i e5) > 0 \<and> os_status (state_at i e5) \<noteq> Os_Replaced"
  note inv5 = match_outcomeD(1) [OF out] and same5 = match_outcomeD(2) [OF out]
  have trades: "\<forall>rep \<in> set new. trade_of i (replaced_state r st) rep" using match_outcomeD(10) [OF out] st4 by simp
  have who: "\<forall>rep \<in> set new. er_exchange_order_id rep \<noteq> i \<longrightarrow> (\<exists>x \<in> set (me_orders e). o_side x = opposite (os_side st) \<and>
      o_order_id x = er_exchange_order_id rep \<and> executable (os_side st) Ot_Limit (rr_new_price_ticks r) (o_price_ticks x))"
  proof (intro ballI impI)
    fix rep assume rep: "rep \<in> set new" "er_exchange_order_id rep \<noteq> i"
    obtain x where "x \<in> set (me_orders e4)" "o_side x = opposite (os_side st)" "o_order_id x = er_exchange_order_id rep"
      "o_price_ticks x = er_last_fill_price_ticks rep" using match_outcomeD(14) [OF out rep] st4 by auto
    then show "\<exists>x \<in> set (me_orders e). o_side x = opposite (os_side st) \<and> o_order_id x = er_exchange_order_id rep \<and>
        executable (os_side st) Ot_Limit (rr_new_price_ticks r) (o_price_ticks x)"
      using trades [rule_format, OF rep(1)] ords ot by (auto simp: trade_of_def)
  qed
  have fills: "filled_in (\<lambda>rep. er_exchange_order_id rep = i) new = min (rr_new_quantity r) av"
    "filled_in (\<lambda>rep. er_exchange_order_id rep \<noteq> i) new = min (rr_new_quantity r) av"
    using match_outcomeD(11,12) [OF out] rem by simp_all
  have e5: "me_symbol_id e5 = me_symbol_id e" "me_next_exchange_order_id e5 = me_next_exchange_order_id e"
    "me_reports_checksum e5 = foldl append_to_checksum (me_reports_checksum e) (?rep # new)"
    using match_outcomeD(5,6,8) [OF out] same by simp_all
  have seen5: "me_seen_client_order_ids e5 = me_seen_client_order_ids e4" using match_outcomeD(7) [OF out] by simp
  have clean: "\<forall>rep \<in> set (?rep # new). er_reject_reason rep \<noteq> Rr_InternalError" using trades by (simp add: trade_of_def)
  show thesis
  proof (cases "0 < remaining")
    case True
    let ?e6 = "if ?c then modify_state i (set_status Os_PartiallyFilled) e5 else e5"
    have lim: "os_order_type (state_at i e4) = Ot_Limit" using st4 ot by simp
    obtain z e' where z: "rest_limit_order (state_at i ?e6) remaining ?ts ?e6 = (True, e')" "me_inv e'"
        "e' = ?e6\<lparr>me_book := me_book e'\<rparr>" "mset (me_orders e') = add_mset z (mset (me_orders e5))"
        "o_order_id z = i" "o_side z = os_side (state_at i e4)"
        "o_price_ticks z = os_limit_price_ticks (state_at i e4)" "o_quantity z = remaining"
      by (rule rest_settles [OF out unc4 True lim refl, where ts = ?ts and s = Os_PartiallyFilled and c = ?c]) blast
    have sub: "me_replace_order r e = (?rep # new, e')" unfolding shape Let_def z(1) using True by simp
    have frame: "me_symbol_id e' = me_symbol_id e5" "me_next_exchange_order_id e' = me_next_exchange_order_id e5"
      "me_reports_checksum e' = me_reports_checksum e5" "me_seen_client_order_ids e' = me_seen_client_order_ids e5"
      by (subst z(3); simp)+
    then have hd: "handled e (me_replace_order r e)"
      unfolding handled_def sub fst_conv snd_conv using z(2) e5 clean by simp
    have "z \<in> set (me_orders e')" using z(4) by (metis set_mset_add_mset_insert set_mset_mset insertI1)
    moreover have "av < rr_new_quantity r" "remaining = rr_new_quantity r - av" using rem True by auto
    ultimately have "if av < rr_new_quantity r
      then \<exists>x \<in> set (me_orders e'). o_order_id x = i \<and> o_side x = os_side st \<and>
        o_price_ticks x = rr_new_price_ticks r \<and> o_quantity x = rr_new_quantity r - av
      else \<forall>x \<in> set (me_orders e'). o_order_id x \<noteq> i"
      using z(5-8) st4 by (intro if_all [where P = "\<lambda>x. x"]) (auto intro!: bexI [of _ z])
    then show thesis using that [OF sub hd trades fills _ _ who side ot own_id] frame(4) seen5 same(4) by simp
  next
    case False
    have sub: "me_replace_order r e = (?rep # new, e5)" unfolding shape using False by simp
    have inv5': "me_inv e5" using match_invD(1) [OF inv5] uncrossed_match [OF unc4 out] by (simp add: me_inv_def)
    have hd: "handled e (me_replace_order r e)"
      unfolding handled_def sub fst_conv snd_conv using inv5' e5 clean by simp
    have "\<not> av < rr_new_quantity r" using rem False by auto
    then have "if av < rr_new_quantity r
      then \<exists>x \<in> set (me_orders e5). o_order_id x = i \<and> o_side x = os_side st \<and>
        o_price_ticks x = rr_new_price_ticks r \<and> o_quantity x = rr_new_quantity r - av
      else \<forall>x \<in> set (me_orders e5). o_order_id x \<noteq> i"
      using match_invD(3) [OF inv5] by simp
    then show thesis using that [OF sub hd trades fills _ _ who side ot own_id] seen5 same(4) by simp
  qed
qed

lemma replace_handled:
  assumes "me_inv e"
  shows "handled e (me_replace_order r e)"
proof (cases "replace_passes r e")
  case True
  show ?thesis by (rule replace_outcome [OF assms True])
next
  case False
  then show ?thesis using replace_failing [OF assms] by blast
qed

section \<open>Runs of an engine\<close>

lemma word_succ_nonzero: "unat (i :: u64) + 1 < 2 ^ 64 \<Longrightarrow> i + 1 \<noteq> 0"
proof
  assume "unat i + 1 < 2 ^ 64" "i + 1 = 0"
  moreover from \<open>i + 1 = 0\<close> have "i = - 1" by (simp add: eq_neg_iff_add_eq_0)
  then have "unat i = 2 ^ 64 - 1" by (simp add: unsigned_minus_1_eq_mask mask_eq_exp_minus_1)
  ultimately show False by simp
qed

lemma step_handled:
  assumes "me_inv e" and "me_next_exchange_order_id e + 1 \<noteq> 0"
  shows "handled e (me_step q e)"
  using submit_handled [OF assms] cancel_handled [OF assms(1)] replace_handled [OF assms(1)] by (cases q) simp_all

lemma me_inv_new: "sy \<noteq> kInvalidSymbolId \<Longrightarrow> me_inv (me_new sy)"
  using ob_inv_new [of sy] ob_ladder_new [of sy]
  by (simp add: me_inv_def engine_ok_def me_new_def uncrossed_def ld_orders_def ld_empty_def flat_def
      del: ob_inv_new ob_ladder_new) (simp add: ob_new_def)

text \<open>A run of requests that does not use up the id space keeps the contract.\<close>

lemma run_handled:
  assumes "me_inv e" and "unat (me_next_exchange_order_id e) + length qs < 2 ^ 64"
  shows "me_inv (snd (run_with me_step qs e)) \<and>
    me_reports_checksum (snd (run_with me_step qs e)) =
      foldl append_to_checksum (me_reports_checksum e) (concat (fst (run_with me_step qs e))) \<and>
    (\<forall>rep \<in> set (concat (fst (run_with me_step qs e))). er_reject_reason rep \<noteq> Rr_InternalError)"
  using assms
proof (induction qs arbitrary: e)
  case Nil
  then show ?case by simp
next
  case (Cons q qs)
  obtain reports e' where s: "me_step q e = (reports, e')" by (cases "me_step q e")
  have "unat (me_next_exchange_order_id e) + 1 < 2 ^ 64" using Cons.prems(2) by simp
  then have "me_next_exchange_order_id e + 1 \<noteq> 0" by (rule word_succ_nonzero)
  from step_handled [OF Cons.prems(1) this, of q] have h: "me_inv e'"
    "me_reports_checksum e' = foldl append_to_checksum (me_reports_checksum e) reports"
    "\<forall>rep \<in> set reports. er_reject_reason rep \<noteq> Rr_InternalError"
    "unat (me_next_exchange_order_id e') \<le> unat (me_next_exchange_order_id e) + 1"
    by (simp_all add: handled_def s)
  have "unat (me_next_exchange_order_id e') + length qs < 2 ^ 64" using h(4) Cons.prems(2) by simp
  from Cons.IH [OF h(1) this] h(2,3) show ?case by (auto simp: s split: prod.splits)
qed

end
