(* ===== verification/Matching_Properties.thy ===== *)
theory Matching_Properties
  imports Matching_Handlers_Correct Book_Invariants
begin

text \<open>
  What the matching engine promises, stated on its handlers: safety of whole runs, conservation of
  quantity, price priority, and the meaning of fill-or-kill, immediate-or-cancel, post-only,
  self-trade prevention, duplicate ids, cancel and replace.
\<close>

section \<open>Lemmas on handlers\<close>

lemma reserve_grows:
  "set (me_seen_client_order_ids e) \<subseteq> set (me_seen_client_order_ids (snd (reserve_client_order_id c e)))"
  by (auto simp: reserve_client_order_id_def)

lemma rejected_reports:
  assumes "\<not> submit_passes r e"
  obtains rep e' where "me_submit_order r e = ([rep], e')" and "er_exec_type rep = Et_Rejected"
    and "er_client_order_id rep = nr_client_order_id r" and "submit_verdict r e = Some (er_reject_reason rep)"
    and "me_book e' = me_book e" and "me_states e' = me_states e"
    and "set (me_seen_client_order_ids e) \<subseteq> set (me_seen_client_order_ids e')"
    and "me_next_exchange_order_id e' = me_next_exchange_order_id e"
proof -
  obtain reason e1 where v: "submit_verdict r e = Some reason"
    and m: "me_submit_order r e = me_reject (nr_client_order_id r) (nr_symbol_id r) (nr_side r) (nr_timestamp_ns r) reason e1"
    and e1: "e1 = e \<or> e1 = snd (reserve_client_order_id (nr_client_order_id r) e)"
    using submit_rejected [OF assms] by metis
  let ?rep = "make_reject (nr_client_order_id r) (nr_symbol_id r) (nr_side r) (nr_timestamp_ns r) reason"
  have "me_book e1 = me_book e" "me_states e1 = me_states e" "me_next_exchange_order_id e1 = me_next_exchange_order_id e"
    "set (me_seen_client_order_ids e) \<subseteq> set (me_seen_client_order_ids e1)"
    using e1 reserve_grows [of e "nr_client_order_id r"] by auto
  then show thesis
    using v m by (intro that [of ?rep "e1\<lparr>me_reports_checksum := append_to_checksum (me_reports_checksum e1) ?rep\<rparr>"])
      (simp_all add: me_reject_def record_report_def make_reject_def)
qed

lemma trade_sum_nonneg: "\<forall>rep \<in> set xs. 0 \<le> er_last_fill_quantity rep \<Longrightarrow> 0 \<le> filled_in P xs"
  by (induction xs) (auto simp: filled_in_def)

lemma cancel_outcome:
  assumes inv: "me_inv e"
  shows "if cr_client_order_id r \<noteq> kInvalidClientOrderId \<and> cr_client_order_id r \<notin> set (me_seen_client_order_ids e) \<and>
      cr_exchange_order_id r \<in> o_order_id ` set (me_orders e)
    then \<exists>rep e'. me_cancel_order r e = ([rep], e') \<and> er_exec_type rep = Et_Canceled \<and>
      er_exchange_order_id rep = cr_exchange_order_id r \<and> er_remaining_quantity rep = 0 \<and>
      me_orders e' = filter (\<lambda>x. o_order_id x \<noteq> cr_exchange_order_id r) (me_orders e)
    else \<exists>rep e'. me_cancel_order r e = ([rep], e') \<and> er_exec_type rep = Et_Rejected \<and>
      er_reject_reason rep \<in> {Rr_DuplicateClientOrderId, Rr_UnknownOrder} \<and> me_book e' = me_book e"
proof -
  let ?p = "reserve_client_order_id (cr_client_order_id r) e" and ?i = "cr_exchange_order_id r"
  obtain f e1 where p: "?p = (f, e1)" by (cases ?p)
  have f: "f \<longleftrightarrow> cr_client_order_id r \<noteq> kInvalidClientOrderId \<and> cr_client_order_id r \<notin> set (me_seen_client_order_ids e)"
    using reserve_fst [of "cr_client_order_id r" e] p by simp
  have inv1: "me_inv e1" using reserve_inv [OF inv, of "cr_client_order_id r"] p by simp
  have same: "me_states e1 = me_states e" "me_book e1 = me_book e"
    using reserve_fields(1,2) [where cid = "cr_client_order_id r" and e = e] p by simp_all
  have b: "ob_inv (me_book e)" using inv by (simp add: me_inv_def engine_ok_def)
  then have lok: "ladder_ok (me_ladder e)" by (simp add: ob_inv_def)
  have find: "ob_find_order ?i (me_book e) \<noteq> None \<longleftrightarrow> ?i \<in> o_order_id ` set (me_orders e)"
    unfolding find_refines [OF b] by (force simp: ld_find_None image_iff)
  show ?thesis
  proof (cases "f \<and> ?i \<in> o_order_id ` set (me_orders e)")
    case False
    then have "\<exists>reason \<in> {Rr_DuplicateClientOrderId, Rr_UnknownOrder}.
        me_cancel_order r e = me_reject (cr_client_order_id r) (me_symbol_id e) NoSide (cr_timestamp_ns r) reason e1"
      unfolding me_cancel_order_def Let_def p prod.case same using find by auto
    with False f same show ?thesis by (auto simp: me_reject_def record_report_def make_reject_def)
  next
    case True
    let ?e2 = "e1\<lparr>me_book := snd (ob_cancel_order ?i (me_book e1))\<rparr>"
    let ?e3 = "modify_state ?i (set_status Os_Canceled) ?e2"
    have fd: "ob_find_order ?i (me_book e1) \<noteq> None" using True find same by simp
    note w = withdraw_ok [OF inv1 fd]
    obtain st where st: "map_of (me_states e1) ?i = Some st" using w(4) by blast
    have ok: "state_ok e1 ?i st" using inv1 st by (simp add: me_inv_def engine_ok_def)
    have at: "state_at ?i ?e3 = set_status Os_Canceled st" using st by (simp add: state_at_def map_of_modify_state)
    obtain b where c: "ob_cancel_order ?i (me_book e1) = (True, b)"
      using w(1) by (cases "ob_cancel_order ?i (me_book e1)") simp
    have "me_cancel_order r e = record_report (make_report (state_at ?i ?e3) Et_Canceled 0 0 (cr_timestamp_ns r) Rr_None) ([], ?e3)"
      unfolding me_cancel_order_def Let_def p prod.case c snd_conv using True st fd by auto
    then show ?thesis
      using True f w(3) ok unfolding at by (simp add: record_report_def state_ok_def same make_report_def Let_def)
  qed
qed

text \<open>Client ids of the orders accepted in a list of reports.\<close>

definition accepted_ids :: "execution_report list \<Rightarrow> client_order_id list" where
  "accepted_ids reports = map er_client_order_id (filter (\<lambda>rep. er_exec_type rep = Et_New) reports)"

lemma accepted_ids_append [simp]: "accepted_ids (xs @ ys) = accepted_ids xs @ accepted_ids ys"
  by (simp add: accepted_ids_def)

lemma accepted_ids_trades: "\<forall>rep \<in> set xs. er_exec_type rep \<noteq> Et_New \<Longrightarrow> accepted_ids xs = []"
  by (auto simp: accepted_ids_def filter_empty_conv)

lemma seen_after_step:
  assumes inv: "me_inv e" and nxt: "me_next_exchange_order_id e + 1 \<noteq> 0"
  shows "set (me_seen_client_order_ids e) \<subseteq> set (me_seen_client_order_ids (snd (me_step q e)))"
    and "distinct (accepted_ids (fst (me_step q e)))"
    and "set (accepted_ids (fst (me_step q e))) \<subseteq>
      set (me_seen_client_order_ids (snd (me_step q e))) - set (me_seen_client_order_ids e)"
proof -
  let ?G = "\<lambda>res. set (me_seen_client_order_ids e) \<subseteq> set (me_seen_client_order_ids (snd res)) \<and>
    distinct (accepted_ids (fst res)) \<and>
    set (accepted_ids (fst res)) \<subseteq> set (me_seen_client_order_ids (snd res)) - set (me_seen_client_order_ids e)"
  note sub = reserve_grows [of e]
  have "?G (me_step q e)"
  proof (cases q)
    case (Me_Submit r)
    show ?thesis
    proof (cases "submit_passes r e")
      case True
      let ?i = "me_next_exchange_order_id e"
      obtain new tail e' where o: "me_submit_order r e =
          (make_report (initial_state r ?i) Et_New 0 0 (nr_timestamp_ns r) Rr_None # new @ tail, e')"
        "\<forall>rep \<in> set new. trade_of ?i (initial_state r ?i) rep"
        "tail = [] \<or> (\<exists>rep. tail = [rep] \<and> er_exec_type rep = Et_Canceled \<and> er_exchange_order_id rep = ?i \<and>
          er_last_fill_quantity rep = 0 \<and> er_filled_quantity rep = min (nr_quantity r)
            (available (nr_side r) (nr_order_type r) (nr_price_ticks r) (me_orders e)))"
        "me_seen_client_order_ids e' = me_seen_client_order_ids (snd (reserve_client_order_id (nr_client_order_id r) e))"
        by (rule submit_outcome [OF inv True nxt]) blast
      have "accepted_ids (new @ tail) = []" using o(2,3) by (intro accepted_ids_trades) (auto simp: trade_of_def)
      moreover have "nr_client_order_id r \<notin> set (me_seen_client_order_ids e)" "fst (reserve_client_order_id (nr_client_order_id r) e)"
        using True by (auto simp: submit_passes_def reserve_fst)
      ultimately show ?thesis using o(1,4) sub [of "nr_client_order_id r"] reserve_seen [of "nr_client_order_id r" e]
        by (simp add: Me_Submit accepted_ids_def)
    next
      case False
      show ?thesis by (rule rejected_reports [OF False]) (auto simp: Me_Submit accepted_ids_def)
    qed
  next
    case (Me_Cancel r)
    obtain rep e' where c: "me_cancel_order r e = ([rep], e')" "er_exec_type rep \<noteq> Et_New"
      using cancel_outcome [OF inv, of r] by (auto split: if_splits)
    have "set (me_seen_client_order_ids e) \<subseteq> set (me_seen_client_order_ids (snd (me_cancel_order r e)))"
      using sub [of "cr_client_order_id r"]
      by (auto simp: me_cancel_order_def Let_def me_reject_def record_report_def reject_internal_def split: prod.splits)
    then show ?thesis using c by (simp add: Me_Cancel accepted_ids_def)
  next
    case (Me_Replace r)
    show ?thesis
    proof (cases "replace_passes r e")
      case True
      show ?thesis
        by (rule replace_outcome [OF inv True])
          (use sub [of "rr_client_order_id r"] in \<open>auto simp: Me_Replace accepted_ids_def trade_of_def filter_empty_conv\<close>)
    next
      case False
      then obtain rep e' where c: "me_replace_order r e = ([rep], e')" "er_exec_type rep = Et_Rejected"
        "set (me_seen_client_order_ids e) \<subseteq> set (me_seen_client_order_ids e')"
        using replace_failing [OF inv] by blast
      then show ?thesis using c by (simp add: Me_Replace accepted_ids_def)
    qed
  qed
  then show "set (me_seen_client_order_ids e) \<subseteq> set (me_seen_client_order_ids (snd (me_step q e)))"
    "distinct (accepted_ids (fst (me_step q e)))"
    "set (accepted_ids (fst (me_step q e))) \<subseteq>
      set (me_seen_client_order_ids (snd (me_step q e))) - set (me_seen_client_order_ids e)"
    by blast+
qed

section \<open>Prices and owners of resting orders\<close>

lemma best_price_order:
  assumes "ob_inv b" and "ob_best_price sd b = Some p"
  obtains x where "x \<in> set (ld_orders (ob_ladder b))" and "o_side x = sd" and "o_price_ticks x = p" and "0 < p"
proof -
  have spec: "spec_best_price sd (ob_ladder b) = Some p" using assms(2) by (simp add: ob_best_price_refines)
  then obtain x where x: "ob_best_order sd b = Some x"
    using best_order_iff_price [OF assms(1), of sd] by (cases "ob_best_order sd b") auto
  note facts = best_order_facts [OF assms(1) x]
  have "is_valid_resting_order x" using ladder_order_side [of "ob_ladder b" x] facts(1) assms(1) by (simp add: ob_inv_def)
  then show ?thesis using that [of x] facts spec by (simp add: is_valid_resting_order_def)
qed

lemma best_prices_apart:
  assumes "me_inv e" and "ob_best_bid (me_book e) = Some p" and "ob_best_ask (me_book e) = Some q"
  shows "0 < p" and "p < q"
proof -
  have b: "ob_inv (me_book e)" and u: "uncrossed (me_orders e)" using assms(1) engine_okD(1) by (auto simp: me_inv_def)
  have "ob_best_price Buy (me_book e) = Some p" "ob_best_price Sell (me_book e) = Some q" using assms by (simp_all add: ob_best_price_def)
  from best_price_order [OF b this(1)] best_price_order [OF b this(2)] u show "0 < p" "p < q"
    unfolding uncrossed_def by metis+
qed

lemma engine_order_id:
  assumes "engine_ok e" and "x \<in> set (me_orders e)"
  shows "o_order_id x \<noteq> kInvalidOrderId"
  using engine_okD(7) [OF assms] engine_okD(6) [OF assms(1)] by (auto simp: state_ok_def)

text \<open>When the self-trade test finds nothing, no executable order belongs to the client.\<close>

lemma self_trade_free:
  assumes "me_inv e" and "\<not> would_self_trade sd ot limit cl excluded e" and "is_valid_side sd"
    and "x \<in> set (me_orders e)" and "o_side x = opposite sd" and "executable sd ot limit (o_price_ticks x)"
    and "o_order_id x \<noteq> excluded" and "cl \<noteq> 0"
  shows "os_client_id (state_at (o_order_id x) e) \<noteq> cl"
proof
  assume own: "os_client_id (state_at (o_order_id x) e) = cl"
  have ok: "engine_ok e" using assms(1) by (simp add: me_inv_def)
  have b: "ob_inv (me_book e)" "ladder_ok (me_ladder e)" using engine_okD(1) [OF ok] by (simp_all add: ob_inv_def)
  obtain st where st: "map_of (me_states e) (o_order_id x) = Some st" "state_matches st x"
    using engine_okD(7) [OF ok assms(4)] by blast
  have "ob_find_order (o_order_id x) (me_book e) \<noteq> None"
    using find_refines [OF b(1)] assms(4) by (auto simp: ld_find_None)
  moreover have "(o_order_id x, st) \<in> set (me_states e)" using st(1) by (rule map_of_SomeD)
  ultimately have "would_self_trade sd ot limit cl excluded e"
    using own st assms(5-8) unfolding would_self_trade_def list_ex_iff
    by (intro if_all [where P = "\<lambda>x. x"] bexI [of _ "(o_order_id x, st)"])
      (auto simp: state_at_def state_matches_def executable_def)
  with assms(2) show False ..
qed

section \<open>A small market used by the witnesses\<close>

definition demo_order :: "client_order_id \<Rightarrow> side \<Rightarrow> price_ticks \<Rightarrow> quantity \<Rightarrow> time_in_force \<Rightarrow> new_order_request" where
  "demo_order c sd p n tif = \<lparr>nr_client_order_id = c, nr_symbol_id = 1, nr_side = sd, nr_order_type = Ot_Limit,
     nr_price_ticks = p, nr_quantity = n, nr_timestamp_ns = 0, nr_client_id = 7, nr_time_in_force = tif,
     nr_post_only = False\<rparr>"

definition demo_engine :: matching_engine where
  "demo_engine = snd (me_submit_order ((demo_order 1 Sell 100 5 Tif_Gtc)\<lparr>nr_client_id := 8\<rparr>) (me_new 1))"

lemma demo_next: "me_next_exchange_order_id demo_engine + 1 \<noteq> 0"
  by code_simp

lemma demo_inv: "me_inv demo_engine"
proof -
  have "(me_next_exchange_order_id (me_new 1) + 1 :: u64) \<noteq> 0" by (simp add: me_new_def)
  with submit_handled [OF me_inv_new [of 1] this] show ?thesis by (simp add: demo_engine_def handled_def)
qed

lemma demo_passes: "submit_passes (demo_order 2 Buy 101 8 Tif_Gtc) demo_engine"
  by code_simp

lemma new_next: "me_next_exchange_order_id (me_new sy) = 1"
  by (simp add: me_new_def)

lemmas run_from_new = run_handled [OF me_inv_new, unfolded new_next]

lemma filled_in_single: "filled_in P (rep # xs) = filled_in P xs" if "er_last_fill_quantity rep = 0"
  using that by simp

text \<open>What a submission that passes its checks reports, without the intermediate lists.\<close>

lemma submit_reports:
  assumes inv: "me_inv e" and pass: "submit_passes r e" and nxt: "me_next_exchange_order_id e + 1 \<noteq> 0"
  defines "i \<equiv> me_next_exchange_order_id e"
    and "av \<equiv> available (nr_side r) (nr_order_type r) (nr_price_ticks r) (me_orders e)"
    and "reports \<equiv> fst (me_submit_order r e)" and "e' \<equiv> snd (me_submit_order r e)"
  shows "filled_in (\<lambda>rep. er_exchange_order_id rep = i) reports = min (nr_quantity r) av"
    and "filled_in (\<lambda>rep. er_exchange_order_id rep \<noteq> i) reports = min (nr_quantity r) av"
    and "if av < nr_quantity r \<and> nr_order_type r = Ot_Limit \<and> nr_time_in_force r = Tif_Gtc
      then \<exists>x \<in> set (me_orders e'). o_order_id x = i \<and> o_side x = nr_side r \<and>
        o_price_ticks x = nr_price_ticks r \<and> o_quantity x = nr_quantity r - av
      else \<forall>x \<in> set (me_orders e'). o_order_id x \<noteq> i"
    and "\<forall>rep \<in> set reports. er_exchange_order_id rep \<noteq> i \<longrightarrow> (\<exists>x \<in> set (me_orders e). o_side x = opposite (nr_side r) \<and>
      o_order_id x = er_exchange_order_id rep \<and> o_price_ticks x = er_last_fill_price_ticks rep) \<and>
      executable (nr_side r) (nr_order_type r) (nr_price_ticks r) (er_last_fill_price_ticks rep) \<and> 0 < er_last_fill_quantity rep"
    and "sorted_wrt (\<lambda>rep rep'. \<not> better (opposite (nr_side r)) (er_last_fill_price_ticks rep') (er_last_fill_price_ticks rep))
      (filter (\<lambda>rep. er_exchange_order_id rep \<noteq> i) reports)"
    and "\<exists>rep rest. reports = rep # rest \<and> er_exec_type rep = Et_New"
    and "\<forall>rep \<in> set reports. er_exec_type rep = Et_Trade \<longrightarrow> 0 < av"
proof -
  let ?new = "make_report (initial_state r i) Et_New 0 0 (nr_timestamp_ns r) Rr_None"
  obtain new tail e2 where o: "me_submit_order r e = (?new # new @ tail, e2)"
    "\<forall>rep \<in> set new. trade_of i (initial_state r i) rep"
    "filled_in (\<lambda>r. er_exchange_order_id r = i) new = min (nr_quantity r) av"
    "filled_in (\<lambda>r. er_exchange_order_id r \<noteq> i) new = min (nr_quantity r) av"
    "tail = [] \<or> (\<exists>rep. tail = [rep] \<and> er_exec_type rep = Et_Canceled \<and> er_exchange_order_id rep = i \<and>
      er_last_fill_quantity rep = 0 \<and> er_filled_quantity rep = min (nr_quantity r) av)"
    "if av < nr_quantity r \<and> nr_order_type r = Ot_Limit \<and> nr_time_in_force r = Tif_Gtc
      then tail = [] \<and> (\<exists>x \<in> set (me_orders e2). o_order_id x = i \<and> o_side x = nr_side r \<and>
        o_price_ticks x = nr_price_ticks r \<and> o_quantity x = nr_quantity r - av)
      else \<forall>x \<in> set (me_orders e2). o_order_id x \<noteq> i"
    "\<forall>rep \<in> set new. er_exchange_order_id rep \<noteq> i \<longrightarrow> (\<exists>x \<in> set (me_orders e). o_side x = opposite (nr_side r) \<and>
      o_order_id x = er_exchange_order_id rep \<and> o_price_ticks x = er_last_fill_price_ticks rep)"
    "sorted_wrt (\<lambda>rep rep'. \<not> better (opposite (nr_side r)) (er_last_fill_price_ticks rep') (er_last_fill_price_ticks rep))
      (filter (\<lambda>rep. er_exchange_order_id rep \<noteq> i) new)"
    unfolding i_def av_def by (rule submit_outcome [OF inv pass nxt]) blast
  have reports: "reports = ?new # new @ tail" "e' = e2" using o(1) by (simp_all add: reports_def e'_def)
  have tail: "filled_in P tail = 0" "filter (\<lambda>rep. er_exchange_order_id rep \<noteq> i) tail = []"
    "\<forall>rep \<in> set tail. er_exchange_order_id rep = i \<and> er_exec_type rep \<noteq> Et_Trade" for P
    using o(5) by auto
  show "filled_in (\<lambda>rep. er_exchange_order_id rep = i) reports = min (nr_quantity r) av"
    "filled_in (\<lambda>rep. er_exchange_order_id rep \<noteq> i) reports = min (nr_quantity r) av"
    using o(3,4) tail(1) by (simp_all add: reports)
  show "if av < nr_quantity r \<and> nr_order_type r = Ot_Limit \<and> nr_time_in_force r = Tif_Gtc
      then \<exists>x \<in> set (me_orders e'). o_order_id x = i \<and> o_side x = nr_side r \<and>
        o_price_ticks x = nr_price_ticks r \<and> o_quantity x = nr_quantity r - av
      else \<forall>x \<in> set (me_orders e'). o_order_id x \<noteq> i"
    using o(6) unfolding reports by (simp only: split: if_splits) blast+
  show "\<forall>rep \<in> set reports. er_exchange_order_id rep \<noteq> i \<longrightarrow> (\<exists>x \<in> set (me_orders e). o_side x = opposite (nr_side r) \<and>
      o_order_id x = er_exchange_order_id rep \<and> o_price_ticks x = er_last_fill_price_ticks rep) \<and>
      executable (nr_side r) (nr_order_type r) (nr_price_ticks r) (er_last_fill_price_ticks rep) \<and> 0 < er_last_fill_quantity rep"
    using o(2,7) tail(3) unfolding reports by (auto simp: trade_of_def)
  show "sorted_wrt (\<lambda>rep rep'. \<not> better (opposite (nr_side r)) (er_last_fill_price_ticks rep') (er_last_fill_price_ticks rep))
      (filter (\<lambda>rep. er_exchange_order_id rep \<noteq> i) reports)"
    using o(8) tail(2) unfolding reports by simp
  show "\<exists>rep rest. reports = rep # rest \<and> er_exec_type rep = Et_New" unfolding reports by simp
  have "new = []" if "av \<le> 0"
  proof (rule ccontr)
    assume "new \<noteq> []"
    then obtain rep reps where n: "new = rep # reps" by (cases new) auto
    have pos: "\<forall>rep \<in> set new. 0 < er_last_fill_quantity rep" using o(2) by (simp add: trade_of_def)
    then have "0 \<le> filled_in P reps" for P using n by (intro trade_sum_nonneg) (auto intro: less_imp_le)
    then have "0 < filled_in (\<lambda>r. er_exchange_order_id r = i) new + filled_in (\<lambda>r. er_exchange_order_id r \<noteq> i) new"
      using pos n by (simp add: add_pos_nonneg add_nonneg_pos)
    with o(3,4) that show False by simp
  qed
  then show "\<forall>rep \<in> set reports. er_exec_type rep = Et_Trade \<longrightarrow> 0 < av"
    using tail(3) unfolding reports by force
qed

section \<open>Properties\<close>

text \<open>C1: whatever requests an engine for a valid symbol receives, its book stays uncrossed, the book's own
  invariant check finds nothing wrong, no request is answered by an internal error, and the running
  checksum is the fold of exactly the reports returned.\<close>

theorem engine_run_safe:
  assumes "sy \<noteq> kInvalidSymbolId" and "length qs < 2 ^ 64 - 1"
  shows "let (rs, e) = run_with me_step qs (me_new sy) in
    uncrossed (me_orders e) \<and> ob_check_invariants (me_book e) = empty_report \<and>
    (\<forall>rep \<in> set (concat rs). er_reject_reason rep \<noteq> Rr_InternalError) \<and>
    me_reports_checksum e = foldl append_to_checksum kFnvOffsetBasis (concat rs)"
proof -
  obtain rs e where r: "run_with me_step qs (me_new sy) = (rs, e)" by (cases "run_with me_step qs (me_new sy)")
  have "unat (1 :: u64) + length qs < 2 ^ 64" using assms(2) by simp
  from run_from_new [OF assms(1) this] r have "me_inv e"
    "me_reports_checksum e = foldl append_to_checksum kFnvOffsetBasis (concat rs)"
    "\<forall>rep \<in> set (concat rs). er_reject_reason rep \<noteq> Rr_InternalError"
    by (simp_all add: me_new_def)
  then show ?thesis using r by (simp add: me_inv_def engine_ok_def ob_check_clean)
qed

lemma engine_run_safe_witness:
  "let (rs, e) = run_with me_step [Me_Submit (demo_order 1 Sell 100 5 Tif_Gtc), Me_Cancel \<lparr>cr_client_order_id = 2,
      cr_exchange_order_id = 1, cr_timestamp_ns = 3\<rparr>] (me_new 1) in
    ob_check_invariants (me_book e) = empty_report \<and> Rr_InternalError \<notin> er_reject_reason ` set (concat rs) \<and>
    me_reports_checksum e = foldl append_to_checksum kFnvOffsetBasis (concat rs)"
  using engine_run_safe [of 1 "[Me_Submit (demo_order 1 Sell 100 5 Tif_Gtc), Me_Cancel \<lparr>cr_client_order_id = 2,
      cr_exchange_order_id = 1, cr_timestamp_ns = 3\<rparr>]"]
  by (simp add: Let_def case_prod_beta image_iff del: run_with.simps) (metis)

text \<open>C2: a submission that passes its checks trades exactly the smaller of its quantity and what rests
  on the other side at executable prices; both sides of the trades add up to that amount, and what is
  left of a good-till-cancel limit order rests at its price, while nothing of another order rests.\<close>

theorem submit_conserves_quantity:
  assumes "me_inv e" and "submit_passes r e" and "me_next_exchange_order_id e + 1 \<noteq> 0"
  shows "let i = me_next_exchange_order_id e; (reports, e') = me_submit_order r e;
      av = available (nr_side r) (nr_order_type r) (nr_price_ticks r) (me_orders e) in
    filled_in (\<lambda>rep. er_exchange_order_id rep = i) reports = min (nr_quantity r) av \<and>
    filled_in (\<lambda>rep. er_exchange_order_id rep \<noteq> i) reports = min (nr_quantity r) av \<and>
    (if av < nr_quantity r \<and> nr_order_type r = Ot_Limit \<and> nr_time_in_force r = Tif_Gtc
     then \<exists>x \<in> set (me_orders e'). o_order_id x = i \<and> o_side x = nr_side r \<and>
       o_price_ticks x = nr_price_ticks r \<and> o_quantity x = nr_quantity r - av
     else \<forall>x \<in> set (me_orders e'). o_order_id x \<noteq> i)"
  using submit_reports(1-3) [OF assms] by (simp add: Let_def case_prod_beta)

lemma submit_conserves_quantity_witness:
  "filled_in (\<lambda>rep. er_exchange_order_id rep \<noteq> 2) (fst (me_submit_order (demo_order 2 Buy 101 8 Tif_Gtc) demo_engine)) = 5"
proof -
  have "me_next_exchange_order_id demo_engine = 2"
    "available (nr_side (demo_order 2 Buy 101 8 Tif_Gtc)) (nr_order_type (demo_order 2 Buy 101 8 Tif_Gtc))
      (nr_price_ticks (demo_order 2 Buy 101 8 Tif_Gtc)) (me_orders demo_engine) = 5"
    by code_simp+
  moreover have "nr_quantity (demo_order 2 Buy 101 8 Tif_Gtc) = 8" by (simp add: demo_order_def)
  ultimately show ?thesis
    using submit_conserves_quantity [OF demo_inv demo_passes demo_next] by (simp add: Let_def case_prod_beta)
qed

text \<open>C4: matching is price-ordered: each fill of a resting order happens at that order's own price,
  which the incoming order accepts, and no later fill is at a better price than an earlier one.\<close>

theorem submit_price_priority:
  assumes "me_inv e" and "submit_passes r e" and "me_next_exchange_order_id e + 1 \<noteq> 0"
  shows "let fills = filter (\<lambda>rep. er_exchange_order_id rep \<noteq> me_next_exchange_order_id e) (fst (me_submit_order r e)) in
    (\<forall>rep \<in> set fills. \<exists>x \<in> set (me_orders e). o_order_id x = er_exchange_order_id rep \<and>
       o_side x = opposite (nr_side r) \<and> o_price_ticks x = er_last_fill_price_ticks rep \<and>
       executable (nr_side r) (nr_order_type r) (nr_price_ticks r) (o_price_ticks x)) \<and>
    sorted_wrt (\<lambda>rep rep'. \<not> better (opposite (nr_side r)) (er_last_fill_price_ticks rep') (er_last_fill_price_ticks rep)) fills"
  using submit_reports(4,5) [OF assms] by (fastforce simp: Let_def)

lemma submit_price_priority_witness:
  "sorted_wrt (\<lambda>rep rep'. \<not> better Sell (er_last_fill_price_ticks rep') (er_last_fill_price_ticks rep))
     (filter (\<lambda>rep. er_exchange_order_id rep \<noteq> me_next_exchange_order_id demo_engine)
       (fst (me_submit_order (demo_order 2 Buy 101 8 Tif_Gtc) demo_engine)))"
  using submit_price_priority [OF demo_inv demo_passes demo_next] by (simp add: Let_def demo_order_def)

text \<open>C7: a fill-or-kill order is all or nothing: it is answered by one rejection that leaves the book
  alone, or it is filled completely and nothing of it rests.\<close>

theorem fok_all_or_nothing:
  assumes "me_inv e" and "me_next_exchange_order_id e + 1 \<noteq> 0" and "nr_time_in_force r = Tif_Fok"
  shows "let i = me_next_exchange_order_id e; (reports, e') = me_submit_order r e in
    (\<exists>rep. reports = [rep] \<and> er_exec_type rep = Et_Rejected) \<and> me_book e' = me_book e \<or>
    filled_in (\<lambda>rep. er_exchange_order_id rep = i) reports = nr_quantity r \<and> (\<forall>x \<in> set (me_orders e'). o_order_id x \<noteq> i)"
proof (cases "submit_passes r e")
  case False
  obtain rep e' where "me_submit_order r e = ([rep], e')" "er_exec_type rep = Et_Rejected" "me_book e' = me_book e"
    by (rule rejected_reports [OF False]) blast
  then show ?thesis by simp
next
  case True
  have b: "ob_inv (me_book e)" using assms(1) by (simp add: me_inv_def engine_ok_def)
  have "is_valid_side (nr_side r)" "0 < nr_quantity r" "can_fully_fill r e"
    using True assms(3) unfolding submit_passes_def by blast+
  then have "nr_quantity r \<le> available (nr_side r) (nr_order_type r) (nr_price_ticks r) (me_orders e)"
    using can_fully_fill_available [OF b] by blast
  then show ?thesis using submit_reports(1,3) [OF assms(1) True assms(2)] by (simp add: Let_def case_prod_beta)
qed

lemma fok_all_or_nothing_witness:
  "map er_exec_type (fst (me_submit_order (demo_order 2 Buy 101 8 Tif_Fok) demo_engine)) = [Et_Rejected] \<or>
   filled_in (\<lambda>rep. er_exchange_order_id rep = me_next_exchange_order_id demo_engine)
     (fst (me_submit_order (demo_order 2 Buy 101 8 Tif_Fok) demo_engine)) = 8"
  using fok_all_or_nothing [OF demo_inv demo_next, of "demo_order 2 Buy 101 8 Tif_Fok"]
  by (auto simp: demo_order_def Let_def case_prod_beta)

text \<open>An immediate-or-cancel order and a market order never rest, whatever is filled.\<close>

lemma ioc_and_market_never_rest:
  assumes "me_inv e" and "me_next_exchange_order_id e + 1 \<noteq> 0"
    and "nr_time_in_force r = Tif_Ioc \<or> nr_order_type r = Ot_Market"
  shows "\<forall>x \<in> set (me_orders (snd (me_submit_order r e))). o_order_id x \<noteq> me_next_exchange_order_id e"
proof (cases "submit_passes r e")
  case False
  obtain rep e' where "me_submit_order r e = ([rep], e')" "me_book e' = me_book e"
    by (rule rejected_reports [OF False]) blast
  moreover have "engine_ok e" using assms(1) by (simp add: me_inv_def)
  ultimately show ?thesis using engine_fresh(2) by simp
next
  case True
  then show ?thesis using submit_reports(3) [OF assms(1) True assms(2)] assms(3) by auto
qed

text \<open>A post-only order never trades: its submission produces no trade report.\<close>

lemma post_only_never_trades:
  assumes "me_inv e" and "me_next_exchange_order_id e + 1 \<noteq> 0" and "nr_post_only r"
  shows "\<forall>rep \<in> set (fst (me_submit_order r e)). er_exec_type rep \<noteq> Et_Trade"
proof (cases "submit_passes r e")
  case False
  obtain rep e' where "me_submit_order r e = ([rep], e')" "er_exec_type rep = Et_Rejected"
    by (rule rejected_reports [OF False]) blast
  then show ?thesis by simp
next
  case True
  have "ob_inv (me_book e)" using assms(1) by (simp add: me_inv_def engine_ok_def)
  then have "available (nr_side r) (nr_order_type r) (nr_price_ticks r) (me_orders e) = 0"
    using True assms(3) by (intro available_none) (auto simp: submit_passes_def)
  then show ?thesis using submit_reports(7) [OF assms(1) True assms(2)] by auto
qed

text \<open>C10: the instructions of an order are respected: a post-only order never trades on entry, and an
  immediate-or-cancel order and a market order never rest.\<close>

theorem entry_instructions_respected:
  assumes "me_inv e" and "me_next_exchange_order_id e + 1 \<noteq> 0"
  shows "(nr_post_only r \<longrightarrow> (\<forall>rep \<in> set (fst (me_submit_order r e)). er_exec_type rep \<noteq> Et_Trade)) \<and>
    (nr_time_in_force r = Tif_Ioc \<or> nr_order_type r = Ot_Market \<longrightarrow>
      (\<forall>x \<in> set (me_orders (snd (me_submit_order r e))). o_order_id x \<noteq> me_next_exchange_order_id e))"
  using post_only_never_trades [OF assms] ioc_and_market_never_rest [OF assms] by blast

lemma entry_instructions_respected_witness:
  "Et_Trade \<notin> er_exec_type ` set (fst (me_submit_order ((demo_order 2 Buy 99 8 Tif_Gtc)\<lparr>nr_post_only := True\<rparr>) demo_engine)) \<and>
   me_next_exchange_order_id demo_engine \<notin>
     o_order_id ` set (me_orders (snd (me_submit_order (demo_order 2 Buy 101 8 Tif_Ioc) demo_engine)))"
  using entry_instructions_respected [OF demo_inv demo_next, of "(demo_order 2 Buy 99 8 Tif_Gtc)\<lparr>nr_post_only := True\<rparr>"]
    entry_instructions_respected [OF demo_inv demo_next, of "demo_order 2 Buy 101 8 Tif_Ioc"]
  by (auto simp: demo_order_def)

text \<open>A submission never fills a resting order of its own client.\<close>

lemma submit_no_self_trade:
  assumes "me_inv e" and "me_next_exchange_order_id e + 1 \<noteq> 0" and "nr_client_id r \<noteq> 0"
  shows "\<forall>rep \<in> set (fst (me_submit_order r e)).
    er_exec_type rep = Et_Trade \<longrightarrow> er_exchange_order_id rep \<noteq> me_next_exchange_order_id e \<longrightarrow>
    os_client_id (state_at (er_exchange_order_id rep) e) \<noteq> nr_client_id r"
proof (cases "submit_passes r e")
  case False
  obtain rep e' where "me_submit_order r e = ([rep], e')" "er_exec_type rep = Et_Rejected"
    by (rule rejected_reports [OF False]) blast
  then show ?thesis by simp
next
  case pass: True
  show ?thesis
  proof (cases "nr_post_only r")
    case True
    have "ob_inv (me_book e)" using assms(1) by (simp add: me_inv_def engine_ok_def)
    then have "available (nr_side r) (nr_order_type r) (nr_price_ticks r) (me_orders e) = 0"
      using pass True by (intro available_none) (auto simp: submit_passes_def)
    then show ?thesis using submit_reports(7) [OF assms(1) pass assms(2)] by auto
  next
    case False
    have ok: "engine_ok e" using assms(1) by (simp add: me_inv_def)
    have b: "ob_inv (me_book e)" and lok: "ladder_ok (me_ladder e)" using engine_okD(1) [OF ok] by (simp_all add: ob_inv_def)
    have free: "\<not> would_self_trade (nr_side r) (nr_order_type r) (nr_price_ticks r) (nr_client_id r) kInvalidOrderId e"
      using pass False by (simp add: submit_passes_def)
    have side: "is_valid_side (nr_side r)" using pass by (simp add: submit_passes_def)
    have "os_client_id (state_at (o_order_id x) e) \<noteq> nr_client_id r"
      if x: "x \<in> set (me_orders e)" "o_side x = opposite (nr_side r)"
        "executable (nr_side r) (nr_order_type r) (nr_price_ticks r) (o_price_ticks x)" for x
      using self_trade_free [OF assms(1) free side x] engine_order_id [OF ok x(1)] assms(3) by blast
    then show ?thesis using submit_reports(4) [OF assms(1) pass assms(2)] by metis
  qed
qed

text \<open>Nor does a replace, which matches the replaced order at its new price.\<close>

lemma replace_no_self_trade:
  assumes inv: "me_inv e" and client: "os_client_id (state_at (rr_exchange_order_id q) e) \<noteq> 0"
  shows "\<forall>rep \<in> set (fst (me_replace_order q e)).
    er_exec_type rep = Et_Trade \<longrightarrow> er_exchange_order_id rep \<noteq> rr_exchange_order_id q \<longrightarrow>
    os_client_id (state_at (er_exchange_order_id rep) e) \<noteq> os_client_id (state_at (rr_exchange_order_id q) e)"
proof (cases "replace_passes q e")
  case False
  then show ?thesis by (rule replace_rejects) (simp add: me_reject_def record_report_def make_reject_def)
next
  case True
  let ?i = "rr_exchange_order_id q" and ?st = "state_at (rr_exchange_order_id q) e"
  obtain new e' where run: "me_replace_order q e = (make_report (replaced_state q ?st) Et_Replaced 0 0 (rr_timestamp_ns q) Rr_None # new, e')"
    and who: "\<forall>rep \<in> set new. er_exchange_order_id rep \<noteq> ?i \<longrightarrow> (\<exists>x \<in> set (me_orders e). o_side x = opposite (os_side ?st) \<and>
      o_order_id x = er_exchange_order_id rep \<and> executable (os_side ?st) Ot_Limit (rr_new_price_ticks q) (o_price_ticks x))"
    and kind: "is_valid_side (os_side ?st)" "os_order_type ?st = Ot_Limit" "os_exchange_order_id ?st = ?i"
    by (rule replace_outcome [OF inv True])
  have "\<not> would_self_trade (os_side ?st) Ot_Limit (rr_new_price_ticks q) (os_client_id ?st) ?i e"
    using True kind by (simp add: replace_passes_def Let_def)
  from self_trade_free [OF inv this kind(1)] who client
  have "os_client_id (state_at (er_exchange_order_id rep) e) \<noteq> os_client_id ?st"
    if "rep \<in> set new" "er_exchange_order_id rep \<noteq> ?i" for rep using that by metis
  then show ?thesis by (simp add: run)
qed

text \<open>C8: self-trade prevention: whatever an order fills, on submission or when it is replaced, belongs to another
  client, for every client that identifies itself: the client id zero, which the code takes for an unknown client, is
  not compared. The client of a replaced order is the one that submitted it.\<close>

theorem no_self_trade:
  assumes "me_inv e" and "me_next_exchange_order_id e + 1 \<noteq> 0"
  shows "(nr_client_id r \<noteq> 0 \<longrightarrow> (\<forall>rep \<in> set (fst (me_submit_order r e)).
      er_exec_type rep = Et_Trade \<longrightarrow> er_exchange_order_id rep \<noteq> me_next_exchange_order_id e \<longrightarrow>
      os_client_id (state_at (er_exchange_order_id rep) e) \<noteq> nr_client_id r)) \<and>
    (os_client_id (state_at (rr_exchange_order_id q) e) \<noteq> 0 \<longrightarrow> (\<forall>rep \<in> set (fst (me_replace_order q e)).
      er_exec_type rep = Et_Trade \<longrightarrow> er_exchange_order_id rep \<noteq> rr_exchange_order_id q \<longrightarrow>
      os_client_id (state_at (er_exchange_order_id rep) e) \<noteq> os_client_id (state_at (rr_exchange_order_id q) e)))"
  using submit_no_self_trade [OF assms] replace_no_self_trade [OF assms(1)] by blast

definition demo_bid_engine :: matching_engine where
  "demo_bid_engine = snd (me_submit_order (demo_order 2 Buy 90 5 Tif_Gtc) demo_engine)"

definition demo_reprice :: replace_order_request where
  "demo_reprice = \<lparr>rr_client_order_id = 9, rr_exchange_order_id = 2, rr_new_price_ticks = 100, rr_new_quantity = 3, rr_timestamp_ns = 0\<rparr>"

lemma no_self_trade_witness:
  "os_client_id (state_at (er_exchange_order_id (fst (me_submit_order (demo_order 4 Buy 101 8 Tif_Gtc) demo_bid_engine) ! 1))
     demo_bid_engine) \<noteq> 7 \<and>
   os_client_id (state_at (er_exchange_order_id (fst (me_replace_order demo_reprice demo_bid_engine) ! 1)) demo_bid_engine) \<noteq> 7"
proof -
  let ?submit = "fst (me_submit_order (demo_order 4 Buy 101 8 Tif_Gtc) demo_bid_engine)"
    and ?replace = "fst (me_replace_order demo_reprice demo_bid_engine)"
  have inv: "me_inv demo_bid_engine"
    using submit_handled [OF demo_inv demo_next] by (simp add: demo_bid_engine_def handled_def)
  have nxt: "me_next_exchange_order_id demo_bid_engine + 1 \<noteq> 0" by code_simp
  have s: "1 < length ?submit" "er_exec_type (?submit ! 1) = Et_Trade" "er_exchange_order_id (?submit ! 1) \<noteq> me_next_exchange_order_id demo_bid_engine"
    by code_simp+
  have r: "1 < length ?replace" "er_exec_type (?replace ! 1) = Et_Trade" "er_exchange_order_id (?replace ! 1) \<noteq> rr_exchange_order_id demo_reprice"
    "os_client_id (state_at (rr_exchange_order_id demo_reprice) demo_bid_engine) = 7" by code_simp+
  have c: "nr_client_id (demo_order 4 Buy 101 8 Tif_Gtc) = 7" "(7 :: client_id) \<noteq> 0" by (simp_all add: demo_order_def)
  note free = no_self_trade [OF inv nxt, of "demo_order 4 Buy 101 8 Tif_Gtc" demo_reprice, unfolded c(1) r(4)]
  show ?thesis
    by (intro conjI free [THEN conjunct1, rule_format, OF c(2) nth_mem [OF s(1)] s(2,3)]
      free [THEN conjunct2, rule_format, OF c(2) nth_mem [OF r(1)] r(2,3)])
qed

text \<open>C9: over a whole run each client order id is accepted at most once, however requests are mixed.\<close>

lemma run_accepted_ids:
  assumes "me_inv e" and "unat (me_next_exchange_order_id e) + length qs < 2 ^ 64"
  shows "distinct (accepted_ids (concat (fst (run_with me_step qs e)))) \<and>
    set (accepted_ids (concat (fst (run_with me_step qs e)))) \<inter> set (me_seen_client_order_ids e) = {}"
  using assms
proof (induction qs arbitrary: e)
  case Nil
  then show ?case by (simp add: accepted_ids_def)
next
  case (Cons q qs)
  obtain reports e' where s: "me_step q e = (reports, e')" by (cases "me_step q e")
  have "unat (me_next_exchange_order_id e) + 1 < 2 ^ 64" using Cons.prems(2) by simp
  then have nxt: "me_next_exchange_order_id e + 1 \<noteq> 0" by (rule word_succ_nonzero)
  from step_handled [OF Cons.prems(1) nxt, of q] have h: "me_inv e'"
    "unat (me_next_exchange_order_id e') \<le> unat (me_next_exchange_order_id e) + 1"
    by (simp_all add: handled_def s)
  have "unat (me_next_exchange_order_id e') + length qs < 2 ^ 64" using h(2) Cons.prems(2) by simp
  from Cons.IH [OF h(1) this] seen_after_step [OF Cons.prems(1) nxt, of q]
  show ?case by (auto simp: s split: prod.splits)
qed

theorem client_ids_accepted_once:
  assumes "sy \<noteq> kInvalidSymbolId" and "length qs < 2 ^ 64 - 1"
  shows "distinct (accepted_ids (concat (fst (run_with me_step qs (me_new sy)))))"
  using run_accepted_ids [OF me_inv_new [OF assms(1)], of qs] assms(2) by (simp add: new_next)

lemma client_ids_accepted_once_witness:
  "distinct (accepted_ids (concat (fst (run_with me_step
     [Me_Submit (demo_order 1 Sell 100 5 Tif_Gtc), Me_Submit (demo_order 1 Sell 100 5 Tif_Gtc)] (me_new 1)))))"
  by (rule client_ids_accepted_once) simp_all

text \<open>Cancel removes exactly the named order and answers with one cancel report; a used or
  invalid client id or an order that does not rest is answered by one rejection, and the book is
  unchanged.\<close>

theorem cancel_removes_exactly_one:
  assumes "me_inv e"
  shows "let (reports, e') = me_cancel_order r e in
    if cr_client_order_id r \<noteq> kInvalidClientOrderId \<and> cr_client_order_id r \<notin> set (me_seen_client_order_ids e) \<and>
      cr_exchange_order_id r \<in> o_order_id ` set (me_orders e)
    then map er_exec_type reports = [Et_Canceled] \<and> map er_exchange_order_id reports = [cr_exchange_order_id r] \<and>
      me_orders e' = filter (\<lambda>x. o_order_id x \<noteq> cr_exchange_order_id r) (me_orders e)
    else map er_exec_type reports = [Et_Rejected] \<and>
      set (map er_reject_reason reports) \<subseteq> {Rr_DuplicateClientOrderId, Rr_UnknownOrder} \<and> me_book e' = me_book e"
  using cancel_outcome [OF assms, of r] by (auto simp: Let_def)

lemma cancel_removes_exactly_one_witness:
  "me_orders (snd (me_cancel_order \<lparr>cr_client_order_id = 9, cr_exchange_order_id = 1, cr_timestamp_ns = 0\<rparr> demo_engine)) = []"
proof -
  have c: "(9 :: u64) \<notin> set (me_seen_client_order_ids demo_engine)" "(1 :: u64) \<in> o_order_id ` set (me_orders demo_engine)"
    "filter (\<lambda>x. o_order_id x \<noteq> 1) (me_orders demo_engine) = []"
    by code_simp+
  show ?thesis
    using cancel_removes_exactly_one [OF demo_inv, of "\<lparr>cr_client_order_id = 9, cr_exchange_order_id = 1, cr_timestamp_ns = 0\<rparr>"] c
    by (auto simp: Let_def case_prod_beta)
qed

text \<open>C11: a replacement that passes its checks re-enters the order at its new price: it trades exactly
  the smaller of its new quantity and what is executable there, and the rest, if any, rests under the
  same id at the new price.\<close>

theorem replace_conserves_quantity:
  assumes "me_inv e" and "replace_passes r e"
  shows "let i = rr_exchange_order_id r; st = state_at i e; (reports, e') = me_replace_order r e;
      av = available (os_side st) Ot_Limit (rr_new_price_ticks r) (me_orders e) in
    filled_in (\<lambda>rep. er_exchange_order_id rep = i) reports = min (rr_new_quantity r) av \<and>
    filled_in (\<lambda>rep. er_exchange_order_id rep \<noteq> i) reports = min (rr_new_quantity r) av \<and>
    (if av < rr_new_quantity r
     then \<exists>x \<in> set (me_orders e'). o_order_id x = i \<and> o_side x = os_side st \<and>
        o_price_ticks x = rr_new_price_ticks r \<and> o_quantity x = rr_new_quantity r - av
     else \<forall>x \<in> set (me_orders e'). o_order_id x \<noteq> i)"
  by (rule replace_outcome [OF assms]) (simp add: Let_def)

lemma replace_conserves_quantity_witness:
  "filled_in (\<lambda>rep. er_exchange_order_id rep = 1) (fst (me_replace_order \<lparr>rr_client_order_id = 9, rr_exchange_order_id = 1,
     rr_new_price_ticks = 102, rr_new_quantity = 3, rr_timestamp_ns = 0\<rparr> demo_engine)) = 0"
proof -
  let ?r = "\<lparr>rr_client_order_id = 9, rr_exchange_order_id = 1, rr_new_price_ticks = 102, rr_new_quantity = 3, rr_timestamp_ns = 0\<rparr>"
  have "replace_passes ?r demo_engine" by code_simp
  moreover have "available (os_side (state_at 1 demo_engine)) Ot_Limit 102 (me_orders demo_engine) = 0" by code_simp
  ultimately show ?thesis
    using replace_conserves_quantity [OF demo_inv, of ?r] by (simp add: Let_def case_prod_beta)
qed

end
