(* ===== verification/Market_Event.thy ===== *)
theory Market_Event
  imports Checksum
begin

text \<open>
  \<^verbatim>\<open>market_data/event.hpp\<close> and \<^verbatim>\<open>market_data/event.cpp\<close>: the market data
  event, the spelling of its enumerations and its CSV form. A string is a list of characters; an
  integer is printed in decimal as \<^verbatim>\<open>operator<<\<close> does and read as
  \<^verbatim>\<open>std::from_chars\<close> does: digits only, a minus sign for signed types alone, out of range
  refused. A failed parse is the error string the code stores through its \<^verbatim>\<open>error\<close> pointer.
\<close>

section \<open>Events\<close>

datatype market_event_type =
  Ev_Add | Ev_Cancel | Ev_Replace | Ev_Execute | Ev_Trade | Ev_Snapshot | Ev_Heartbeat

fun event_type_wire :: "market_event_type \<Rightarrow> u8" where
  "event_type_wire Ev_Add = 1"
| "event_type_wire Ev_Cancel = 2"
| "event_type_wire Ev_Replace = 3"
| "event_type_wire Ev_Execute = 4"
| "event_type_wire Ev_Trade = 5"
| "event_type_wire Ev_Snapshot = 6"
| "event_type_wire Ev_Heartbeat = 7"

definition kSnapshotBeginFlag :: u32 where
  "kSnapshotBeginFlag = 1"

definition kSnapshotEndFlag :: u32 where
  "kSnapshotEndFlag = 2"

record market_data_event =
  ev_timestamp_ns :: timestamp_ns
  ev_sequence_number :: sequence_number
  ev_symbol_id :: symbol_id
  ev_event_type :: market_event_type
  ev_side :: side
  ev_price_ticks :: price_ticks
  ev_quantity :: quantity
  ev_order_id :: order_id
  ev_trade_id :: trade_id
  ev_flags :: u32

definition event_checksum :: "u64 \<Rightarrow> market_data_event \<Rightarrow> u64" where
  "event_checksum seed e =
     (let seed = checksum_append_i64 seed (ev_timestamp_ns e);
          seed = checksum_append_u64 seed (ev_sequence_number e);
          seed = checksum_append_u32 seed (ev_symbol_id e);
          seed = checksum_append_u8 seed (event_type_wire (ev_event_type e));
          seed = checksum_append_side seed (ev_side e);
          seed = checksum_append_i64 seed (ev_price_ticks e);
          seed = checksum_append_i64 seed (ev_quantity e);
          seed = checksum_append_u64 seed (ev_order_id e);
          seed = checksum_append_u64 seed (ev_trade_id e)
      in checksum_append_u32 seed (ev_flags e))"

text \<open>The range of the signed fields.\<close>

definition event_fits :: "market_data_event \<Rightarrow> bool" where
  "event_fits e \<longleftrightarrow> fits_i64 (ev_timestamp_ns e) \<and> fits_i64 (ev_price_ticks e) \<and> fits_i64 (ev_quantity e)"

section \<open>Decimal numbers\<close>

definition digit_char :: "nat \<Rightarrow> char" where
  "digit_char d = char_of (48 + d)"

definition is_digit :: "char \<Rightarrow> bool" where
  "is_digit c \<longleftrightarrow> 48 \<le> (of_char c :: nat) \<and> (of_char c :: nat) \<le> 57"

fun decimal :: "nat \<Rightarrow> string" where
  "decimal n = (if n < 10 then [digit_char n] else decimal (n div 10) @ [digit_char (n mod 10)])"

declare decimal.simps [simp del]

definition decimal_int :: "int \<Rightarrow> string" where
  "decimal_int x = (if x < 0 then CHR ''-'' # decimal (nat (- x)) else decimal (nat x))"

definition decimal_word :: "'a::len word \<Rightarrow> string" where
  "decimal_word w = decimal (unat w)"

definition digits_value :: "string \<Rightarrow> nat" where
  "digits_value s = foldl (\<lambda>v c. v * 10 + (of_char c - 48)) 0 s"

definition parse_digits :: "string \<Rightarrow> nat option" where
  "parse_digits s = (if s \<noteq> [] \<and> list_all is_digit s then Some (digits_value s) else None)"

text \<open>\<^verbatim>\<open>parse_integral<T>\<close> for a signed 64-bit and for an unsigned type.\<close>

definition parse_i64 :: "string \<Rightarrow> int option" where
  "parse_i64 s = (case s of
       c # ds \<Rightarrow> if c = CHR ''-'' then (case parse_digits ds of None \<Rightarrow> None
           | Some n \<Rightarrow> if fits_i64 (- int n) then Some (- int n) else None)
         else (case parse_digits s of None \<Rightarrow> None
           | Some n \<Rightarrow> if fits_i64 (int n) then Some (int n) else None)
     | [] \<Rightarrow> None)"

definition parse_word :: "string \<Rightarrow> 'a::len word option" where
  "parse_word s = (case parse_digits s of None \<Rightarrow> None
     | Some n \<Rightarrow> if n < 2 ^ LENGTH('a) then Some (of_nat n) else None)"

section \<open>Text\<close>

definition is_space :: "char \<Rightarrow> bool" where
  "is_space c \<longleftrightarrow> c = CHR '' '' \<or> c = CHR 0x09 \<or> c = CHR 0x0D \<or> c = CHR 0x0A"

definition trim_copy :: "string \<Rightarrow> string" where
  "trim_copy s = rev (dropWhile is_space (rev (dropWhile is_space s)))"

fun split_comma :: "string \<Rightarrow> string list" where
  "split_comma [] = [[]]"
| "split_comma (c # cs) = (if c = CHR '','' then [] # split_comma cs
     else (case split_comma cs of [] \<Rightarrow> [[c]] | f # fs \<Rightarrow> (c # f) # fs))"

definition split_csv :: "string \<Rightarrow> string list" where
  "split_csv line = map trim_copy (split_comma line)"

section \<open>Spelling\<close>

fun event_type_to_string :: "market_event_type \<Rightarrow> string" where
  "event_type_to_string Ev_Add = ''Add''"
| "event_type_to_string Ev_Cancel = ''Cancel''"
| "event_type_to_string Ev_Replace = ''Replace''"
| "event_type_to_string Ev_Execute = ''Execute''"
| "event_type_to_string Ev_Trade = ''Trade''"
| "event_type_to_string Ev_Snapshot = ''Snapshot''"
| "event_type_to_string Ev_Heartbeat = ''Heartbeat''"

definition parse_market_event_type :: "string \<Rightarrow> market_event_type option" where
  "parse_market_event_type s =
     (let token = trim_copy s in
      if token = ''Add'' \<or> token = ''A'' then Some Ev_Add
      else if token = ''Cancel'' \<or> token = ''C'' then Some Ev_Cancel
      else if token = ''Replace'' \<or> token = ''R'' then Some Ev_Replace
      else if token = ''Execute'' \<or> token = ''E'' then Some Ev_Execute
      else if token = ''Trade'' \<or> token = ''T'' then Some Ev_Trade
      else if token = ''Snapshot'' \<or> token = ''S'' then Some Ev_Snapshot
      else if token = ''Heartbeat'' \<or> token = ''H'' then Some Ev_Heartbeat
      else None)"

definition parse_side :: "string \<Rightarrow> side option" where
  "parse_side s =
     (let token = trim_copy s in
      if token = ''Buy'' \<or> token = ''B'' then Some Buy
      else if token = ''Sell'' \<or> token = ''S'' then Some Sell
      else if token = ''None'' \<or> token = ''N'' \<or> token = [] then Some NoSide
      else None)"

section \<open>CSV\<close>

definition kCsvSchemaMigrationHint :: string where
  "kCsvSchemaMigrationHint = ''See data/schema/event_log_schema_v1.json for the schema and its compatibility contract.''"

definition csv_parse_error :: "string \<Rightarrow> string \<Rightarrow> string" where
  "csv_parse_error field detail =
     ''failed to parse CSV '' @ detail @ '' field '' @ field @ ''. '' @ kCsvSchemaMigrationHint"

definition csv_drift_error :: "nat \<Rightarrow> string" where
  "csv_drift_error n =
     ''CSV column drift: expected 10 fields in v1 order '' @
     ''(timestamp_ns,sequence_number,symbol_id,event_type,side,price_ticks,quantity,'' @
     ''order_id,trade_id,flags), got '' @ decimal n @ ''. '' @ kCsvSchemaMigrationHint"

text \<open>One \<^verbatim>\<open>if (!field) return nullopt\<close>: a missing value is the error, a present one goes on.\<close>

definition require :: "'e \<Rightarrow> 'a option \<Rightarrow> ('a \<Rightarrow> 'e + 'b) \<Rightarrow> 'e + 'b" where
  "require err v f = (case v of None \<Rightarrow> Inl err | Some x \<Rightarrow> f x)"

lemma require_Some [simp]: "require err (Some x) f = f x"
  by (simp add: require_def)

lemma require_Inr: "require err v f = Inr y \<longleftrightarrow> (\<exists>x. v = Some x \<and> f x = Inr y)"
  by (simp add: require_def split: option.splits)

definition parse_market_data_event_csv :: "string \<Rightarrow> string + market_data_event" where
  "parse_market_data_event_csv line =
     (let fields = split_csv line in
      if length fields \<noteq> 10 then Inl (csv_drift_error (length fields))
      else require (csv_parse_error ''timestamp_ns'' ''numeric'') (parse_i64 (fields ! 0)) (\<lambda>timestamp.
        require (csv_parse_error ''sequence_number'' ''numeric'') (parse_word (fields ! 1)) (\<lambda>sequence.
        require (csv_parse_error ''symbol_id'' ''numeric'') (parse_word (fields ! 2)) (\<lambda>symbol.
        require (csv_parse_error ''event_type'' ''event_type spelling'') (parse_market_event_type (fields ! 3)) (\<lambda>event_type.
        require (csv_parse_error ''side'' ''side spelling'') (parse_side (fields ! 4)) (\<lambda>sd.
        require (csv_parse_error ''price_ticks'' ''numeric'') (parse_i64 (fields ! 5)) (\<lambda>price.
        require (csv_parse_error ''quantity'' ''numeric'') (parse_i64 (fields ! 6)) (\<lambda>qty.
        require (csv_parse_error ''order_id'' ''numeric'') (parse_word (fields ! 7)) (\<lambda>oid.
        require (csv_parse_error ''trade_id'' ''numeric'') (parse_word (fields ! 8)) (\<lambda>tid.
        require (csv_parse_error ''flags'' ''numeric'') (parse_word (fields ! 9)) (\<lambda>flags.
        Inr \<lparr>ev_timestamp_ns = timestamp, ev_sequence_number = sequence, ev_symbol_id = symbol,
          ev_event_type = event_type, ev_side = sd, ev_price_ticks = price, ev_quantity = qty,
          ev_order_id = oid, ev_trade_id = tid, ev_flags = flags\<rparr>)))))))))))"

definition csv_fields :: "market_data_event \<Rightarrow> string list" where
  "csv_fields e = [decimal_int (ev_timestamp_ns e), decimal_word (ev_sequence_number e), decimal_word (ev_symbol_id e),
     event_type_to_string (ev_event_type e), side_to_string (ev_side e), decimal_int (ev_price_ticks e),
     decimal_int (ev_quantity e), decimal_word (ev_order_id e), decimal_word (ev_trade_id e), decimal_word (ev_flags e)]"

fun join_comma :: "string list \<Rightarrow> string" where
  "join_comma [] = []"
| "join_comma [f] = f"
| "join_comma (f # fs) = f @ CHR '','' # join_comma fs"

definition market_data_event_to_csv :: "market_data_event \<Rightarrow> string" where
  "market_data_event_to_csv e = join_comma (csv_fields e)"

section \<open>Round trip of the CSV form\<close>

lemma of_char_digit: "d < 10 \<Longrightarrow> (of_char (digit_char d) :: nat) = 48 + d"
  by (simp add: digit_char_def)

lemma is_digit_digit [simp]: "d < 10 \<Longrightarrow> is_digit (digit_char d)"
  by (simp add: is_digit_def of_char_digit)

lemma decimal_digits: "list_all is_digit (decimal n) \<and> decimal n \<noteq> []"
proof (induction n rule: decimal.induct)
  case (1 n)
  then show ?case by (cases "n < 10") (simp_all add: decimal.simps [of n])
qed

lemma digits_value_snoc: "digits_value (s @ [c]) = digits_value s * 10 + (of_char c - 48)"
  by (simp add: digits_value_def)

lemma digits_value_decimal: "digits_value (decimal n) = n"
proof (induction n rule: decimal.induct)
  case (1 n)
  show ?case
  proof (cases "n < 10")
    case True
    then show ?thesis by (subst decimal.simps) (simp add: digits_value_def of_char_digit)
  next
    case False
    then show ?thesis using 1 by (subst decimal.simps) (simp add: digits_value_snoc of_char_digit)
  qed
qed

lemma parse_digits_decimal [simp]: "parse_digits (decimal n) = Some n"
  using decimal_digits [of n] by (simp add: parse_digits_def digits_value_decimal)

lemma digit_not_minus: "is_digit c \<Longrightarrow> c \<noteq> CHR ''-''"
  by (auto simp: is_digit_def)

lemma parse_word_decimal [simp]: "parse_word (decimal_word (w :: 'a::len word)) = Some w"
  by (simp add: parse_word_def decimal_word_def)

lemma parse_i64_decimal [simp]: "fits_i64 x \<Longrightarrow> parse_i64 (decimal_int x) = Some x"
proof (cases "x < 0")
  case True
  assume "fits_i64 x"
  with True show ?thesis by (simp add: parse_i64_def decimal_int_def)
next
  case False
  assume "fits_i64 x"
  moreover obtain c cs where c: "decimal (nat x) = c # cs" "c \<noteq> CHR ''-''"
    using decimal_digits [of "nat x"] by (cases "decimal (nat x)") (auto dest: digit_not_minus)
  moreover have "parse_digits (c # cs) = Some (nat x)" using parse_digits_decimal [of "nat x"] c(1) by simp
  ultimately show ?thesis using False by (simp add: parse_i64_def decimal_int_def)
qed

text \<open>The characters a field can hold: none is a comma or white space.\<close>

definition field_char :: "char \<Rightarrow> bool" where
  "field_char c \<longleftrightarrow> is_digit c \<or> c = CHR ''-'' \<or> c \<in> set ''AddCancelReplaceExecuteTradeSnapshotHeartbeatBuySellNone''"

lemma field_char_plain: "field_char c \<Longrightarrow> c \<noteq> CHR '','' \<and> \<not> is_space c"
  by (auto simp: field_char_def is_digit_def is_space_def)

lemma csv_fields_chars: "f \<in> set (csv_fields e) \<Longrightarrow> list_all field_char f \<and> f \<noteq> []"
proof -
  have d: "list_all field_char (decimal n) \<and> decimal n \<noteq> []" for n
    using decimal_digits [of n] by (auto simp: list_all_iff field_char_def)
  then have i: "list_all field_char (decimal_int x) \<and> decimal_int x \<noteq> []" for x
    by (auto simp: decimal_int_def field_char_def)
  have t: "list_all field_char (event_type_to_string ty) \<and> event_type_to_string ty \<noteq> []" for ty
    by (cases ty) (simp_all add: field_char_def)
  have s: "list_all field_char (side_to_string sd) \<and> side_to_string sd \<noteq> []" for sd
    by (cases sd) (simp_all add: field_char_def)
  assume "f \<in> set (csv_fields e)"
  then show ?thesis using d i t s by (auto simp: csv_fields_def decimal_word_def)
qed

lemma split_comma_single: "CHR '','' \<notin> set f \<Longrightarrow> split_comma f = [f]"
  by (induction f) auto

lemma split_comma_append: "CHR '','' \<notin> set f \<Longrightarrow> split_comma (f @ CHR '','' # s) = f # split_comma s"
  by (induction f) auto

lemma split_join: "fs \<noteq> [] \<Longrightarrow> \<forall>f \<in> set fs. CHR '','' \<notin> set f \<Longrightarrow> split_comma (join_comma fs) = fs"
  by (induction fs rule: join_comma.induct) (simp_all add: split_comma_single split_comma_append)

lemma trim_plain: "f \<noteq> [] \<Longrightarrow> list_all (\<lambda>c. \<not> is_space c) f \<Longrightarrow> trim_copy f = f"
proof -
  assume f: "f \<noteq> []" "list_all (\<lambda>c. \<not> is_space c) f"
  have "dropWhile is_space f = f" "dropWhile is_space (rev f) = rev f"
    using f by (simp_all add: dropWhile_eq_self_iff list_all_iff last_in_set hd_rev)
  then show ?thesis by (simp add: trim_copy_def)
qed

lemma split_csv_event: "split_csv (market_data_event_to_csv e) = csv_fields e"
proof -
  have "\<forall>f \<in> set (csv_fields e). CHR '','' \<notin> set f"
    using csv_fields_chars field_char_plain by (fastforce simp: list_all_iff)
  then have "split_comma (join_comma (csv_fields e)) = csv_fields e" by (intro split_join) (simp_all add: csv_fields_def)
  moreover have "map trim_copy (csv_fields e) = csv_fields e"
    using csv_fields_chars field_char_plain by (intro map_idI trim_plain) (auto simp: list_all_iff)
  ultimately show ?thesis by (simp add: split_csv_def market_data_event_to_csv_def)
qed

lemma parse_event_type_string [simp]: "parse_market_event_type (event_type_to_string ty) = Some ty"
  by (cases ty) (simp_all add: parse_market_event_type_def Let_def trim_copy_def is_space_def)

lemma parse_side_string [simp]: "parse_side (side_to_string sd) = Some sd"
  by (cases sd) (simp_all add: parse_side_def Let_def trim_copy_def is_space_def)

lemma csv_round_trip_ok:
  assumes "event_fits e"
  shows "parse_market_data_event_csv (market_data_event_to_csv e) = Inr e"
  using assms unfolding parse_market_data_event_csv_def split_csv_event Let_def
  by (simp add: csv_fields_def event_fits_def)

end
