(* ===== verification/Event_Log.thy ===== *)
theory Event_Log
  imports Market_Event
begin

text \<open>
  \<^verbatim>\<open>market_data/event_log.hpp\<close> and \<^verbatim>\<open>market_data/event_log.cpp\<close>: reading and
  writing event logs, in CSV and in the fixed-width binary format (a 16-byte header, 58-byte
  little-endian records). The file system is a parameter: a file to read is its bytes, or
  nothing when it cannot be opened; writing takes the outcome of the I/O. An empty error string is
  success, as in the code.
\<close>

section \<open>Formats and results\<close>

datatype event_log_format = Fmt_Auto | Fmt_Csv | Fmt_Binary

definition kMarketDataCsvHeader :: string where
  "kMarketDataCsvHeader = ''timestamp_ns,sequence_number,symbol_id,event_type,side,price_ticks,quantity,order_id,trade_id,flags''"

definition kBinaryEventLogMagic :: string where
  "kBinaryEventLogMagic = ''ASTITCH1''"

definition kBinaryEventLogVersion :: u16 where
  "kBinaryEventLogVersion = 1"

definition kBinaryEventLogHeaderSize :: u16 where
  "kBinaryEventLogHeaderSize = 16"

definition kBinaryEventRecordSize :: u16 where
  "kBinaryEventRecordSize = 58"

record event_log_read_result =
  lr_events :: "market_data_event list"
  lr_detected_format :: event_log_format
  lr_event_checksum :: u64
  lr_error :: string

record event_log_write_result =
  lw_events_written :: nat
  lw_event_checksum :: u64
  lw_error :: string

definition read_started :: "event_log_format \<Rightarrow> event_log_read_result" where
  "read_started fmt = \<lparr>lr_events = [], lr_detected_format = fmt, lr_event_checksum = kFnvOffsetBasis, lr_error = []\<rparr>"

definition read_failed :: "event_log_format \<Rightarrow> string \<Rightarrow> event_log_read_result" where
  "read_failed fmt err = (read_started fmt)\<lparr>lr_error := err\<rparr>"

definition schema_error :: "string \<Rightarrow> string \<Rightarrow> string" where
  "schema_error category detail = category @ '': '' @ detail @ ''. '' @ kCsvSchemaMigrationHint"

fun format_to_string :: "event_log_format \<Rightarrow> string" where
  "format_to_string Fmt_Auto = ''auto''"
| "format_to_string Fmt_Csv = ''csv''"
| "format_to_string Fmt_Binary = ''binary''"

definition lower_char :: "char \<Rightarrow> char" where
  "lower_char c = (if 65 \<le> (of_char c :: nat) \<and> (of_char c :: nat) \<le> 90 then char_of ((of_char c :: nat) + 32) else c)"

definition lower_copy :: "string \<Rightarrow> string" where
  "lower_copy s = map lower_char s"

definition parse_event_log_format :: "string \<Rightarrow> event_log_format option" where
  "parse_event_log_format s =
     (let token = lower_copy s in
      if token = ''auto'' then Some Fmt_Auto
      else if token = ''csv'' then Some Fmt_Csv
      else if token = ''binary'' \<or> token = ''bin'' \<or> token = ''itch'' then Some Fmt_Binary
      else None)"

text \<open>\<^verbatim>\<open>std::filesystem::path::extension\<close>: the file name from its last dot on.\<close>

definition path_extension :: "string \<Rightarrow> string" where
  "path_extension path =
     (let name = rev (takeWhile (\<lambda>c. c \<noteq> CHR ''/'') (rev path));
          stem = rev (drop 1 (dropWhile (\<lambda>c. c \<noteq> CHR ''.'') (rev name)))
      in if name = ''.'' \<or> name = ''..'' \<or> CHR ''.'' \<notin> set name \<or> stem = [] then []
         else drop (length stem) name)"

definition choose_event_log_format_for_path :: "string \<Rightarrow> event_log_format" where
  "choose_event_log_format_for_path path =
     (let extension = lower_copy (path_extension path) in
      if extension = ''.bin'' \<or> extension = ''.itch'' \<or> extension = ''.ablog'' then Fmt_Binary else Fmt_Csv)"

definition checksum_events :: "market_data_event list \<Rightarrow> u64" where
  "checksum_events events = foldl event_checksum kFnvOffsetBasis events"

section \<open>CSV logs\<close>

definition contains_text :: "string \<Rightarrow> string \<Rightarrow> bool" where
  "contains_text s p = list_ex (\<lambda>i. take (length p) (drop i s) = p) [0..<Suc (length s)]"

definition csv_columns :: "string list" where
  "csv_columns = [''timestamp_ns'', ''sequence_number'', ''symbol_id'', ''event_type'', ''side'',
     ''price_ticks'', ''quantity'', ''order_id'', ''trade_id'', ''flags'']"

definition looks_like_csv_header :: "string \<Rightarrow> bool" where
  "looks_like_csv_header line = (length (filter (contains_text line) csv_columns) \<ge> 2)"

text \<open>Whether a line is skipped, and the error it may carry even so.\<close>

definition is_ignored_csv_line :: "string \<Rightarrow> bool \<times> string" where
  "is_ignored_csv_line line =
     (let trimmed = trim_copy line in
      if trimmed = [] \<or> hd trimmed = CHR ''#'' then (True, [])
      else if trimmed = kMarketDataCsvHeader then (True, [])
      else if looks_like_csv_header trimmed
      then (True, schema_error ''CSV column drift''
         (''expected v1 header \"'' @ kMarketDataCsvHeader @ ''\", got \"'' @ trimmed @ ''\"''))
      else (False, []))"

text \<open>\<^verbatim>\<open>std::getline\<close> until the end of the stream.\<close>

fun text_lines :: "string \<Rightarrow> string list" where
  "text_lines [] = []"
| "text_lines (c # cs) = (if c = CHR 0x0A then [] # text_lines cs
     else (case text_lines cs of [] \<Rightarrow> [[c]] | l # ls \<Rightarrow> (c # l) # ls))"

definition bytes_text :: "u8 list \<Rightarrow> string" where
  "bytes_text bs = map (\<lambda>b. char_of (unat b)) bs"

fun read_csv_lines :: "nat \<Rightarrow> string list \<Rightarrow> event_log_read_result \<Rightarrow> event_log_read_result" where
  "read_csv_lines n [] result = result"
| "read_csv_lines n (line # rest) result =
     (let n = n + 1; (ignored, header_error) = is_ignored_csv_line line in
      if ignored then (if header_error \<noteq> []
          then read_failed Fmt_Csv (''line '' @ decimal n @ '': '' @ header_error)
          else read_csv_lines n rest result)
      else (case parse_market_data_event_csv line of
          Inl err \<Rightarrow> read_failed Fmt_Csv (''line '' @ decimal n @ '': '' @ err)
        | Inr e \<Rightarrow> read_csv_lines n rest (result\<lparr>lr_event_checksum := event_checksum (lr_event_checksum result) e,
            lr_events := lr_events result @ [e]\<rparr>)))"

definition read_csv_event_log :: "string \<Rightarrow> u8 list option \<Rightarrow> event_log_read_result" where
  "read_csv_event_log path file = (case file of
       None \<Rightarrow> read_failed Fmt_Csv (''unable to open CSV event log: '' @ path)
     | Some bytes \<Rightarrow> read_csv_lines 0 (text_lines (bytes_text bytes)) (read_started Fmt_Csv))"

section \<open>Binary logs\<close>

definition append_little_endian :: "nat \<Rightarrow> u8 list \<Rightarrow> 'a::len word \<Rightarrow> u8 list" where
  "append_little_endian n output value = output @ le_bytes n value"

definition read_little_endian :: "nat \<Rightarrow> u8 list \<Rightarrow> nat \<Rightarrow> 'a::len word" where
  "read_little_endian n bytes offset =
     foldl (\<lambda>value i. value OR push_bit (i * 8) (ucast (bytes ! (offset + i)))) 0 [0..<n]"

definition read_header_u16 :: "u8 list \<Rightarrow> nat \<Rightarrow> u16" where
  "read_header_u16 bytes offset = ucast (bytes ! offset) OR push_bit 8 (ucast (bytes ! (offset + 1)))"

definition event_type_from_wire :: "u8 \<Rightarrow> market_event_type option" where
  "event_type_from_wire v =
     (if v = 1 then Some Ev_Add else if v = 2 then Some Ev_Cancel else if v = 3 then Some Ev_Replace
      else if v = 4 then Some Ev_Execute else if v = 5 then Some Ev_Trade else if v = 6 then Some Ev_Snapshot
      else if v = 7 then Some Ev_Heartbeat else None)"

definition side_from_wire :: "u8 \<Rightarrow> side option" where
  "side_from_wire v = (if v = 0 then Some NoSide else if v = 1 then Some Buy else if v = 2 then Some Sell else None)"

definition encode_header :: "u8 list" where
  "encode_header =
     (let bytes = string_bytes kBinaryEventLogMagic;
          bytes = append_little_endian 2 bytes kBinaryEventLogVersion;
          bytes = append_little_endian 2 bytes kBinaryEventLogHeaderSize;
          bytes = append_little_endian 2 bytes kBinaryEventRecordSize
      in append_little_endian 2 bytes (0 :: u16))"

definition encode_record :: "market_data_event \<Rightarrow> u8 list" where
  "encode_record e =
     (let bytes = append_little_endian 8 [] (word_of_int (ev_timestamp_ns e) :: u64);
          bytes = append_little_endian 8 bytes (ev_sequence_number e);
          bytes = append_little_endian 4 bytes (ev_symbol_id e);
          bytes = append_little_endian 1 bytes (event_type_wire (ev_event_type e));
          bytes = append_little_endian 1 bytes (side_wire (ev_side e));
          bytes = append_little_endian 4 bytes (ev_flags e);
          bytes = append_little_endian 8 bytes (word_of_int (ev_price_ticks e) :: u64);
          bytes = append_little_endian 8 bytes (word_of_int (ev_quantity e) :: u64);
          bytes = append_little_endian 8 bytes (ev_order_id e)
      in append_little_endian 8 bytes (ev_trade_id e))"

text \<open>A signed field is read as its 64-bit pattern and converted (two's complement).\<close>

definition read_i64 :: "u8 list \<Rightarrow> nat \<Rightarrow> int" where
  "read_i64 bytes offset = sint (read_little_endian 8 bytes offset :: u64)"

definition decode_record :: "u8 list \<Rightarrow> nat \<Rightarrow> string + market_data_event" where
  "decode_record bytes record_index =
     require (schema_error ''enum drift'' (''record '' @ decimal record_index @ '': invalid MarketEventType wire value '' @
         decimal_word (bytes ! 20))) (event_type_from_wire (bytes ! 20)) (\<lambda>event_type.
     require (schema_error ''enum drift'' (''record '' @ decimal record_index @ '': invalid Side wire value '' @
         decimal_word (bytes ! 21))) (side_from_wire (bytes ! 21)) (\<lambda>sd.
     Inr \<lparr>ev_timestamp_ns = read_i64 bytes 0, ev_sequence_number = read_little_endian 8 bytes 8,
        ev_symbol_id = read_little_endian 4 bytes 16, ev_event_type = event_type, ev_side = sd,
        ev_price_ticks = read_i64 bytes 26, ev_quantity = read_i64 bytes 34,
        ev_order_id = read_little_endian 8 bytes 42, ev_trade_id = read_little_endian 8 bytes 50,
        ev_flags = read_little_endian 4 bytes 22\<rparr>))"

text \<open>The record loop: \<^verbatim>\<open>read\<close> takes as many bytes as there are, up to a record.\<close>

function read_records :: "nat \<Rightarrow> u8 list \<Rightarrow> event_log_read_result \<Rightarrow> event_log_read_result" where
  "read_records record_index input result =
     (let rec = take 58 input in
      if rec = [] then result
      else if length rec \<noteq> 58
      then read_failed Fmt_Binary (schema_error ''malformed binary event log''
             (''truncated binary event record at index '' @ decimal record_index))
      else (case decode_record rec record_index of
          Inl err \<Rightarrow> read_failed Fmt_Binary err
        | Inr e \<Rightarrow> read_records (record_index + 1) (drop 58 input)
            (result\<lparr>lr_event_checksum := event_checksum (lr_event_checksum result) e,
               lr_events := lr_events result @ [e]\<rparr>)))"
  by pat_completeness auto
termination
  by (relation "measure (\<lambda>(n, input, r). length input)") (auto simp: take_eq_Nil2)

declare read_records.simps [simp del]

definition read_binary_event_log :: "string \<Rightarrow> u8 list option \<Rightarrow> event_log_read_result" where
  "read_binary_event_log path file = (case file of
       None \<Rightarrow> read_failed Fmt_Binary (''unable to open binary event log: '' @ path)
     | Some input \<Rightarrow>
        let header = take 16 input in
        if length header \<noteq> 16
        then read_failed Fmt_Binary (schema_error ''malformed binary event log'' ''truncated binary event-log header'')
        else if bytes_text (take (length kBinaryEventLogMagic) header) \<noteq> kBinaryEventLogMagic
        then read_failed Fmt_Binary (schema_error ''binary header drift''
               (''invalid binary event-log magic, expected \"'' @ kBinaryEventLogMagic @ ''\"''))
        else if read_header_u16 header 8 \<noteq> kBinaryEventLogVersion
        then read_failed Fmt_Binary (schema_error ''binary schema version drift''
               (''unsupported binary event-log version '' @ decimal_word (read_header_u16 header 8) @
                '', expected '' @ decimal_word kBinaryEventLogVersion))
        else if read_header_u16 header 10 \<noteq> kBinaryEventLogHeaderSize
        then read_failed Fmt_Binary (schema_error ''binary layout drift''
               (''unsupported binary event-log header size '' @ decimal_word (read_header_u16 header 10) @
                '', expected '' @ decimal_word kBinaryEventLogHeaderSize))
        else if read_header_u16 header 12 \<noteq> kBinaryEventRecordSize
        then read_failed Fmt_Binary (schema_error ''binary layout drift''
               (''unsupported binary event record size '' @ decimal_word (read_header_u16 header 12) @
                '', expected '' @ decimal_word kBinaryEventRecordSize))
        else if read_header_u16 header 14 \<noteq> 0
        then read_failed Fmt_Binary (schema_error ''binary header drift''
               (''reserved header field must be zero in schema v1, got '' @ decimal_word (read_header_u16 header 14)))
        else read_records 0 (drop 16 input) (read_started Fmt_Binary))"

section \<open>Writing\<close>

text \<open>What the stream did: all written, never opened, or failed with some bytes on disk.\<close>

datatype io_outcome = Io_Ok | Io_No_Open | Io_Failed "u8 list"

fun written_file :: "io_outcome \<Rightarrow> u8 list \<Rightarrow> u8 list option" where
  "written_file Io_Ok bytes = Some bytes"
| "written_file Io_No_Open bytes = None"
| "written_file (Io_Failed partial) bytes = Some partial"

definition csv_file :: "market_data_event list \<Rightarrow> string" where
  "csv_file events = kMarketDataCsvHeader @ [CHR 0x0A] @
     concat (map (\<lambda>e. market_data_event_to_csv e @ [CHR 0x0A]) events)"

definition write_csv_event_log ::
  "io_outcome \<Rightarrow> string \<Rightarrow> market_data_event list \<Rightarrow> u8 list option \<times> event_log_write_result" where
  "write_csv_event_log io path events =
     (if io = Io_No_Open
      then (None, \<lparr>lw_events_written = 0, lw_event_checksum = kFnvOffsetBasis,
                   lw_error = ''unable to write CSV event log: '' @ path\<rparr>)
      else (written_file io (string_bytes (csv_file events)),
            \<lparr>lw_events_written = length events, lw_event_checksum = foldl event_checksum kFnvOffsetBasis events,
             lw_error = []\<rparr>))"

definition write_binary_event_log ::
  "io_outcome \<Rightarrow> string \<Rightarrow> market_data_event list \<Rightarrow> u8 list option \<times> event_log_write_result" where
  "write_binary_event_log io path events =
     (if io = Io_No_Open
      then (None, \<lparr>lw_events_written = 0, lw_event_checksum = kFnvOffsetBasis,
                   lw_error = ''unable to write binary event log: '' @ path\<rparr>)
      else (written_file io (encode_header @ concat (map encode_record events)),
            if io = Io_Ok
            then \<lparr>lw_events_written = length events, lw_event_checksum = foldl event_checksum kFnvOffsetBasis events,
                  lw_error = []\<rparr>
            else \<lparr>lw_events_written = 0, lw_event_checksum = kFnvOffsetBasis,
                  lw_error = ''failed while writing binary event log: '' @ path\<rparr>))"

section \<open>Entry points\<close>

definition detect_event_log_format :: "string \<Rightarrow> u8 list option \<Rightarrow> string + event_log_format" where
  "detect_event_log_format path file = (case file of
       None \<Rightarrow> Inl (''unable to open event log: '' @ path)
     | Some input \<Rightarrow> Inr (if bytes_text (take (length kBinaryEventLogMagic) input) = kBinaryEventLogMagic
         then Fmt_Binary else Fmt_Csv))"

definition read_event_log :: "string \<Rightarrow> u8 list option \<Rightarrow> event_log_format \<Rightarrow> event_log_read_result" where
  "read_event_log path file fmt =
     (case (if fmt = Fmt_Auto then detect_event_log_format path file else Inr fmt) of
        Inl err \<Rightarrow> \<lparr>lr_events = [], lr_detected_format = Fmt_Auto, lr_event_checksum = 0, lr_error = err\<rparr>
      | Inr effective \<Rightarrow> if effective = Fmt_Binary then read_binary_event_log path file else read_csv_event_log path file)"

definition write_event_log ::
  "io_outcome \<Rightarrow> string \<Rightarrow> market_data_event list \<Rightarrow> event_log_format \<Rightarrow> u8 list option \<times> event_log_write_result" where
  "write_event_log io path events fmt =
     (let effective = (if fmt = Fmt_Auto then choose_event_log_format_for_path path else fmt)
      in if effective = Fmt_Binary then write_binary_event_log io path events else write_csv_event_log io path events)"

end
