(* ===== verification/Event_Log_Correct.thy ===== *)
theory Event_Log_Correct
  imports Event_Log
begin

text \<open>
  Round trips of the event log: a record, a binary file and a CSV file read back as what was
  written, with the same checksum; and whatever bytes are read, the result is either the events with
  their checksum or an error and nothing else.
\<close>

section \<open>Little-endian fields\<close>

lemma nth_le_bytes: "i < n \<Longrightarrow> le_bytes n v ! i = ucast (drop_bit (i * 8) v AND 255)"
  by (simp add: le_bytes_def)

lemma bit_fold_or:
  "bit (foldl (\<lambda>value i. value OR f i) (a :: 'a::len word) is) k \<longleftrightarrow> bit a k \<or> (\<exists>i \<in> set is. bit (f i) k)"
  by (induction "is" arbitrary: a) (auto simp: bit_or_iff)

lemma bit_le_byte:
  "bit (ucast (drop_bit (i * 8) v AND 255) :: u8) j \<longleftrightarrow> j < 8 \<and> bit (v :: 'a::len word) (i * 8 + j)"
proof -
  have "bit (255 :: 'a word) j \<longleftrightarrow> j < 8 \<and> j < LENGTH('a)"
    using bit_mask_iff [of 8 j, where 'a = "'a word"] by (simp add: mask_eq_exp_minus_1 conj_commute)
  moreover have "bit v (i * 8 + j) \<Longrightarrow> j < LENGTH('a)" using bit_imp_le_length [of v "i * 8 + j"] by simp
  ultimately show ?thesis unfolding bit_ucast_iff bit_and_iff bit_drop_bit_eq by (auto simp: ac_simps)
qed

lemma bit_nth_le_bytes:
  "i < n \<Longrightarrow> bit (le_bytes n v ! i) j \<longleftrightarrow> j < 8 \<and> bit (v :: 'a::len word) (i * 8 + j)"
  unfolding nth_le_bytes by (rule bit_le_byte)

text \<open>Reading looks only at its own bytes.\<close>

lemma read_slice:
  "k + n \<le> length bytes \<Longrightarrow> read_little_endian n bytes k = read_little_endian n (take n (drop k bytes)) 0"
  unfolding read_little_endian_def by (intro foldl_cong) auto

lemma read_le_bytes:
  assumes "n * 8 = LENGTH('a)"
  shows "read_little_endian n (le_bytes n (v :: 'a::len word)) 0 = v"
proof (rule bit_word_eqI)
  fix k
  assume k: "k < LENGTH('a)"
  have "bit (read_little_endian n (le_bytes n v) 0 :: 'a word) k \<longleftrightarrow>
      (\<exists>i < n. bit (push_bit (i * 8) (ucast (le_bytes n v ! i) :: 'a word)) k)"
    unfolding read_little_endian_def bit_fold_or by auto
  also have "\<dots> \<longleftrightarrow> (\<exists>i < n. i * 8 \<le> k \<and> k - i * 8 < 8 \<and> bit v k)"
    using k by (intro ex_cong) (auto simp: bit_push_bit_iff bit_ucast_iff bit_nth_le_bytes)
  also have "\<dots> \<longleftrightarrow> bit v k"
  proof
    assume v: "bit v k"
    have "k div 8 < n" "k div 8 * 8 \<le> k" "k - k div 8 * 8 < 8" using k assms by linarith+
    with v show "\<exists>i < n. i * 8 \<le> k \<and> k - i * 8 < 8 \<and> bit v k" by blast
  qed auto
  finally show "bit (read_little_endian n (le_bytes n v) 0 :: 'a word) k \<longleftrightarrow> bit v k" .
qed

lemma sint_of_i64: "fits_i64 x \<Longrightarrow> sint (word_of_int x :: u64) = x"
  by (simp add: fits_i64_def signed_of_int signed_take_bit_int_eq_self)

lemma le_bytes_1: "le_bytes 1 (v :: u8) = [v]"
proof -
  have "(255 :: u8) = - 1" by simp
  then have "v AND 255 = v" by (simp only: and.right_neutral)
  then show ?thesis by (simp add: le_bytes_def)
qed

lemma event_type_wire_inverse [simp]: "event_type_from_wire (event_type_wire ty) = Some ty"
  by (cases ty) (simp_all add: event_type_from_wire_def)

lemma side_wire_inverse [simp]: "side_from_wire (side_wire sd) = Some sd"
  by (cases sd) (simp_all add: side_from_wire_def)

section \<open>A record\<close>

lemma encode_record_parts:
  "encode_record e = le_bytes 8 (word_of_int (ev_timestamp_ns e) :: u64) @ le_bytes 8 (ev_sequence_number e) @
     le_bytes 4 (ev_symbol_id e) @ [event_type_wire (ev_event_type e)] @ [side_wire (ev_side e)] @ le_bytes 4 (ev_flags e) @
     le_bytes 8 (word_of_int (ev_price_ticks e) :: u64) @ le_bytes 8 (word_of_int (ev_quantity e) :: u64) @
     le_bytes 8 (ev_order_id e) @ le_bytes 8 (ev_trade_id e)"
  by (simp add: encode_record_def append_little_endian_def Let_def le_bytes_1 [simplified])

lemma length_encode_record [simp]: "length (encode_record e) = 58"
  by (simp add: encode_record_parts)

lemma encode_record_fields:
  "read_little_endian 8 (encode_record e) 0 = (word_of_int (ev_timestamp_ns e) :: u64)"
  "read_little_endian 8 (encode_record e) 8 = ev_sequence_number e"
  "read_little_endian 4 (encode_record e) 16 = ev_symbol_id e"
  "read_little_endian 4 (encode_record e) 22 = ev_flags e"
  "read_little_endian 8 (encode_record e) 26 = (word_of_int (ev_price_ticks e) :: u64)"
  "read_little_endian 8 (encode_record e) 34 = (word_of_int (ev_quantity e) :: u64)"
  "read_little_endian 8 (encode_record e) 42 = ev_order_id e"
  "read_little_endian 8 (encode_record e) 50 = ev_trade_id e"
  by (subst read_slice; simp add: encode_record_parts read_le_bytes)+

text \<open>Both directions at once: every 58-byte record that decodes is the encoding of its event.\<close>

lemma decode_encode_record: "event_fits e \<Longrightarrow> decode_record (encode_record e) k = Inr e"
proof -
  assume fits: "event_fits e"
  have wire: "encode_record e ! 20 = event_type_wire (ev_event_type e)" "encode_record e ! 21 = side_wire (ev_side e)"
    by (simp_all add: encode_record_parts nth_append)
  show ?thesis
    using fits unfolding decode_record_def wire read_i64_def encode_record_fields event_type_wire_inverse
      side_wire_inverse require_Some
    by (simp add: event_fits_def sint_of_i64)
qed

section \<open>A binary file\<close>

lemma read_records_round_trip:
  assumes "\<forall>e \<in> set es. event_fits e"
  shows "read_records n (concat (map encode_record es)) result =
    result\<lparr>lr_event_checksum := foldl event_checksum (lr_event_checksum result) es, lr_events := lr_events result @ es\<rparr>"
  using assms
proof (induction es arbitrary: n result)
  case Nil
  then show ?case by (simp add: read_records.simps)
next
  case (Cons e es)
  let ?in = "encode_record e @ concat (map encode_record es)"
  have ne: "encode_record e \<noteq> []" by (metis length_encode_record list.size(3) zero_neq_numeral)
  have "take 58 ?in = encode_record e" "drop 58 ?in = concat (map encode_record es)" by simp_all
  then show ?case
    using Cons ne decode_encode_record [of e n]
    by (subst read_records.simps) (simp add: Let_def)
qed

lemma int_of_char: "int (of_char c) = of_char c"
  by (cases c) (simp add: of_char_Char)

lemma string_bytes_text [simp]: "bytes_text (string_bytes s) = s"
proof -
  have "char_of (unat (word_of_int (of_char c) :: u8)) = c" for c
  proof -
    have "(of_char c :: int) mod 256 = of_char c" by simp
    then have "0 \<le> (of_char c :: int)" "(of_char c :: int) < 256" using pos_mod_bound [of 256 "of_char c"] pos_mod_sign [of 256 "of_char c :: int"] by simp_all
    then have "int (unat (word_of_int (of_char c) :: u8)) = of_char c"
      by (simp add: unsigned_of_int take_bit_int_eq_self int_of_char)
    then show ?thesis by (metis char_of_char char_of_nat)
  qed
  then show ?thesis by (simp add: bytes_text_def string_bytes_def comp_def)
qed

lemma header_reads:
  "length encode_header = 16" "bytes_text (take (length kBinaryEventLogMagic) encode_header) = kBinaryEventLogMagic"
  "read_header_u16 encode_header 8 = kBinaryEventLogVersion" "read_header_u16 encode_header 10 = kBinaryEventLogHeaderSize"
  "read_header_u16 encode_header 12 = kBinaryEventRecordSize" "read_header_u16 encode_header 14 = 0"
  by code_simp+

lemma read_binary_round_trip:
  assumes "\<forall>e \<in> set es. event_fits e"
  shows "read_binary_event_log path (Some (encode_header @ concat (map encode_record es))) =
    \<lparr>lr_events = es, lr_detected_format = Fmt_Binary, lr_event_checksum = checksum_events es, lr_error = []\<rparr>"
  by (simp add: read_binary_event_log_def Let_def header_reads read_records_round_trip [OF assms] read_started_def
      checksum_events_def)

section \<open>Every read is consistent\<close>

definition read_consistent :: "event_log_read_result \<Rightarrow> bool" where
  "read_consistent r \<longleftrightarrow> lr_event_checksum r = checksum_events (lr_events r) \<and> (lr_error r = [] \<or> lr_events r = [])"

lemma read_failed_consistent [simp]: "read_consistent (read_failed fmt err)"
  by (simp add: read_consistent_def read_failed_def read_started_def checksum_events_def)

lemma read_started_consistent [simp]: "read_consistent (read_started fmt)" "lr_error (read_started fmt) = []"
  by (simp_all add: read_consistent_def read_started_def checksum_events_def)

lemma consistent_append:
  "read_consistent r \<Longrightarrow> lr_error r = [] \<Longrightarrow>
   read_consistent (r\<lparr>lr_event_checksum := event_checksum (lr_event_checksum r) e, lr_events := lr_events r @ [e]\<rparr>)"
  by (simp add: read_consistent_def checksum_events_def)

lemma read_records_consistent:
  "read_consistent result \<Longrightarrow> lr_error result = [] \<Longrightarrow> read_consistent (read_records n input result)"
proof (induction n input result rule: read_records.induct)
  case (1 n input result)
  show ?case
  proof (cases "take 58 input = [] \<or> length (take 58 input) \<noteq> 58")
    case True
    then show ?thesis using 1 by (subst read_records.simps) (auto simp: Let_def)
  next
    case False
    show ?thesis
    proof (cases "decode_record (take 58 input) n")
      case (Inl err)
      then show ?thesis using False by (subst read_records.simps) (simp add: Let_def)
    next
      case (Inr e)
      then show ?thesis
        using False 1 consistent_append [OF 1(2,3), of e]
        by (subst read_records.simps) (simp add: Let_def)
    qed
  qed
qed

lemma read_csv_lines_consistent:
  "read_consistent result \<Longrightarrow> lr_error result = [] \<Longrightarrow> read_consistent (read_csv_lines n ls result)"
proof (induction n ls result rule: read_csv_lines.induct)
  case (2 n line rest result)
  obtain ignored err where i: "is_ignored_csv_line line = (ignored, err)" by (cases "is_ignored_csv_line line")
  show ?case
  proof (cases ignored)
    case True
    then show ?thesis using "2.IH"(1) [OF refl i [symmetric] refl] 2(3,4) i by (simp add: Let_def)
  next
    case False
    show ?thesis
    proof (cases "parse_market_data_event_csv line")
      case (Inl e)
      then show ?thesis using False i by (simp add: Let_def)
    next
      case (Inr e)
      then show ?thesis
        using "2.IH"(2) [OF refl i [symmetric] refl False Inr] consistent_append [OF 2(3,4), of e] 2(4) False i
        by (simp add: Let_def)
    qed
  qed
qed simp

lemma read_event_log_consistent: "read_consistent (read_event_log path (Some bytes) fmt)"
  by (simp add: read_event_log_def detect_event_log_format_def read_binary_event_log_def read_csv_event_log_def
      Let_def read_records_consistent read_csv_lines_consistent)

section \<open>A CSV file\<close>

lemma contains_text_chars: "contains_text s p \<Longrightarrow> set p \<subseteq> set s"
  by (auto simp: contains_text_def list_ex_iff dest!: in_set_takeD in_set_dropD) (metis in_set_takeD in_set_dropD)

lemma event_csv_chars: "c \<in> set (market_data_event_to_csv e) \<Longrightarrow> field_char c \<or> c = CHR '',''"
proof -
  have join: "\<forall>c \<in> set (join_comma fs). c = CHR '','' \<or> (\<exists>f \<in> set fs. c \<in> set f)" for fs
    by (induction fs rule: join_comma.induct) auto
  assume "c \<in> set (market_data_event_to_csv e)"
  then show ?thesis using join [of "csv_fields e"] csv_fields_chars
    by (fastforce simp: market_data_event_to_csv_def list_all_iff)
qed

lemma event_csv_not_newline: "CHR 0x0A \<notin> set (market_data_event_to_csv e)"
  using event_csv_chars field_char_plain by (fastforce simp: is_space_def)

lemma header_column_chars: "p \<in> set csv_columns \<Longrightarrow> \<exists>c \<in> set p. \<not> field_char c \<and> c \<noteq> CHR '',''"
  by (auto simp: csv_columns_def field_char_def is_digit_def)

lemma event_csv_not_header: "\<not> looks_like_csv_header (market_data_event_to_csv e)"
proof -
  have "filter (contains_text (market_data_event_to_csv e)) csv_columns = []"
    unfolding filter_empty_conv
  proof (intro ballI notI)
    fix p
    assume "p \<in> set csv_columns" "contains_text (market_data_event_to_csv e) p"
    then show False using header_column_chars contains_text_chars event_csv_chars by blast
  qed
  then show ?thesis by (simp add: looks_like_csv_header_def)
qed

lemma event_csv_not_ignored: "is_ignored_csv_line (market_data_event_to_csv e) = (False, [])"
proof -
  let ?l = "market_data_event_to_csv e"
  have plain: "list_all (\<lambda>c. \<not> is_space c) ?l"
    using event_csv_chars [of _ e] field_char_plain by (auto simp: list_all_iff is_space_def)
  have ne: "?l \<noteq> []" using split_csv_event [of e] by (auto simp: split_csv_def csv_fields_def)
  have "trim_copy ?l = ?l" by (rule trim_plain [OF ne plain])
  moreover have "hd ?l \<noteq> CHR ''#''"
    using event_csv_chars [of "hd ?l" e] ne by (auto simp: field_char_def is_digit_def)
  moreover have "?l \<noteq> kMarketDataCsvHeader"
  proof
    assume "?l = kMarketDataCsvHeader"
    then have "CHR ''_'' \<in> set ?l" by (simp add: kMarketDataCsvHeader_def)
    with event_csv_chars show False by (fastforce simp: field_char_def is_digit_def)
  qed
  ultimately show ?thesis using ne event_csv_not_header [of e] by (simp add: is_ignored_csv_line_def)
qed

lemma header_ignored: "is_ignored_csv_line kMarketDataCsvHeader = (True, [])"
  by code_simp

lemma text_lines_append: "CHR 0x0A \<notin> set l \<Longrightarrow> text_lines (l @ CHR 0x0A # s) = l # text_lines s"
  by (induction l) auto

lemma text_lines_csv: "text_lines (csv_file es) = kMarketDataCsvHeader # map market_data_event_to_csv es"
proof -
  have "text_lines (concat (map (\<lambda>e. market_data_event_to_csv e @ [CHR 0x0A]) es)) = map market_data_event_to_csv es"
    using event_csv_not_newline by (induction es) (simp_all add: text_lines_append)
  moreover have "CHR 0x0A \<notin> set kMarketDataCsvHeader" by (simp add: kMarketDataCsvHeader_def)
  ultimately show ?thesis by (simp add: csv_file_def text_lines_append)
qed

lemma read_csv_lines_events:
  assumes "\<forall>e \<in> set es. event_fits e"
  shows "read_csv_lines n (map market_data_event_to_csv es) result =
    result\<lparr>lr_event_checksum := foldl event_checksum (lr_event_checksum result) es, lr_events := lr_events result @ es\<rparr>"
  using assms
  by (induction es arbitrary: n result) (simp_all add: Let_def event_csv_not_ignored csv_round_trip_ok)

lemma read_csv_round_trip:
  assumes "\<forall>e \<in> set es. event_fits e"
  shows "read_csv_event_log path (Some (string_bytes (csv_file es))) =
    \<lparr>lr_events = es, lr_detected_format = Fmt_Csv, lr_event_checksum = checksum_events es, lr_error = []\<rparr>"
  by (simp add: read_csv_event_log_def text_lines_csv Let_def header_ignored read_csv_lines_events [OF assms]
      read_started_def checksum_events_def)

section \<open>Choosing the format\<close>

lemma detect_binary:
  "detect_event_log_format path (Some (encode_header @ bs)) = Inr Fmt_Binary"
  using header_reads(1,2) by (simp add: detect_event_log_format_def kBinaryEventLogMagic_def)

lemma detect_csv: "detect_event_log_format path (Some (string_bytes (csv_file es))) = Inr Fmt_Csv"
proof -
  have "bytes_text (take 8 (string_bytes (csv_file es))) = take 8 (bytes_text (string_bytes (csv_file es)))"
    by (simp add: bytes_text_def take_map)
  also have "\<dots> = ''timestam''" by (simp add: csv_file_def kMarketDataCsvHeader_def)
  finally have "bytes_text (take (length kBinaryEventLogMagic) (string_bytes (csv_file es))) = ''timestam''"
    by (simp add: kBinaryEventLogMagic_def eval_nat_numeral)
  then show ?thesis by (simp add: detect_event_log_format_def) (simp add: kBinaryEventLogMagic_def)
qed

section \<open>Properties\<close>

text \<open>C13: a log written without an I/O error is read back as exactly the events written, with the
  same checksum, in either format and also when the reader detects the format itself.\<close>

theorem event_log_round_trip:
  assumes "\<forall>e \<in> set es. event_fits e" and "write_event_log Io_Ok path es fmt = (file, w)"
    and "fmt' = Fmt_Auto \<or> fmt' = (if fmt = Fmt_Auto then choose_event_log_format_for_path path else fmt)"
  shows "lr_events (read_event_log path' file fmt') = es \<and> lr_error (read_event_log path' file fmt') = [] \<and>
    lr_event_checksum (read_event_log path' file fmt') = lw_event_checksum w \<and>
    lw_events_written w = length es \<and> lw_error w = []"
proof (cases "(if fmt = Fmt_Auto then choose_event_log_format_for_path path else fmt) = Fmt_Binary")
  case True
  with assms(2) have w: "file = Some (encode_header @ concat (map encode_record es))"
    "w = \<lparr>lw_events_written = length es, lw_event_checksum = checksum_events es, lw_error = []\<rparr>"
    by (auto simp: write_event_log_def write_binary_event_log_def checksum_events_def)
  have "read_event_log path' file fmt' = read_binary_event_log path' file"
    using assms(3) True w(1) detect_binary by (auto simp: read_event_log_def)
  then show ?thesis using read_binary_round_trip [OF assms(1)] w by simp
next
  case False
  with assms(2) have w: "file = Some (string_bytes (csv_file es))"
    "w = \<lparr>lw_events_written = length es, lw_event_checksum = checksum_events es, lw_error = []\<rparr>"
    by (auto simp: write_event_log_def write_csv_event_log_def checksum_events_def)
  have "read_event_log path' file fmt' = read_csv_event_log path' file"
    using assms(3) False w(1) detect_csv by (auto simp: read_event_log_def)
  then show ?thesis using read_csv_round_trip [OF assms(1)] w by simp
qed

lemma event_log_round_trip_witness:
  "lr_events (read_event_log ''f'' (fst (write_event_log Io_Ok ''f.bin'' [\<lparr>ev_timestamp_ns = 5, ev_sequence_number = 1,
     ev_symbol_id = 1, ev_event_type = Ev_Add, ev_side = Buy, ev_price_ticks = 10, ev_quantity = 3, ev_order_id = 9,
     ev_trade_id = 0, ev_flags = 0\<rparr>] Fmt_Auto)) Fmt_Auto) = [\<lparr>ev_timestamp_ns = 5, ev_sequence_number = 1,
     ev_symbol_id = 1, ev_event_type = Ev_Add, ev_side = Buy, ev_price_ticks = 10, ev_quantity = 3, ev_order_id = 9,
     ev_trade_id = 0, ev_flags = 0\<rparr>]"
proof -
  let ?es = "[\<lparr>ev_timestamp_ns = 5, ev_sequence_number = 1,
     ev_symbol_id = 1, ev_event_type = Ev_Add, ev_side = Buy, ev_price_ticks = 10, ev_quantity = 3, ev_order_id = 9,
     ev_trade_id = 0, ev_flags = 0\<rparr>]"
  have "\<forall>e \<in> set ?es. event_fits e" by (simp add: event_fits_def fits_i64_def)
  moreover obtain fl w where f: "write_event_log Io_Ok ''f.bin'' ?es Fmt_Auto = (fl, w)"
    by (cases "write_event_log Io_Ok ''f.bin'' ?es Fmt_Auto")
  ultimately show ?thesis using event_log_round_trip [of ?es "''f.bin''" Fmt_Auto fl w Fmt_Auto "''f''"] by simp
qed

text \<open>C14: whatever bytes a log holds, reading it yields either events with exactly their checksum, or
  an error with no events and the empty checksum: nothing of a corrupt log leaks through.\<close>

theorem corrupt_log_yields_nothing:
  "let r = read_event_log path (Some bytes) fmt in
    lr_event_checksum r = checksum_events (lr_events r) \<and> (lr_error r = [] \<or> lr_events r = [])"
  using read_event_log_consistent [of path bytes fmt] by (simp add: Let_def read_consistent_def)

text \<open>Parsing the CSV line printed for an event gives the event back.\<close>

lemma csv_line_round_trip:
  assumes "event_fits e"
  shows "parse_market_data_event_csv (market_data_event_to_csv e) = Inr e"
  by (rule csv_round_trip_ok [OF assms])

lemma csv_line_round_trip_witness:
  "parse_market_data_event_csv (market_data_event_to_csv \<lparr>ev_timestamp_ns = - 5, ev_sequence_number = 1,
     ev_symbol_id = 1, ev_event_type = Ev_Trade, ev_side = NoSide, ev_price_ticks = 10, ev_quantity = 3, ev_order_id = 9,
     ev_trade_id = 4, ev_flags = 2\<rparr>) = Inr \<lparr>ev_timestamp_ns = - 5, ev_sequence_number = 1,
     ev_symbol_id = 1, ev_event_type = Ev_Trade, ev_side = NoSide, ev_price_ticks = 10, ev_quantity = 3, ev_order_id = 9,
     ev_trade_id = 4, ev_flags = 2\<rparr>"
  by (rule csv_line_round_trip) (simp add: event_fits_def fits_i64_def)

end
