(* ===== verification/Replay.thy ===== *)
theory Replay
  imports Event_Log Book_Invariants
begin

text \<open>
  \<^verbatim>\<open>market_data/replay.hpp\<close>, \<^verbatim>\<open>market_data/replay.cpp\<close> and
  \<^verbatim>\<open>market_data/multi_symbol_book.hpp\<close>: replaying a market data stream into an order book
  with validation and diagnostics, one event at a time or a whole log, and the set of books that
  applies an interleaved stream of several symbols without validation. The functions that write through
  a \<^verbatim>\<open>ReplayResult&\<close> return the result; those that change the book return the book.
\<close>

section \<open>Diagnostics, configuration and results\<close>

datatype replay_severity = Sev_Info | Sev_Warning | Sev_Error

datatype replay_validation_mode = Mode_Full | Mode_Light | Mode_Other u8

fun severity_wire :: "replay_severity \<Rightarrow> u8" where
  "severity_wire Sev_Info = 1"
| "severity_wire Sev_Warning = 2"
| "severity_wire Sev_Error = 3"

fun severity_to_string :: "replay_severity \<Rightarrow> string" where
  "severity_to_string Sev_Info = ''info''"
| "severity_to_string Sev_Warning = ''warning''"
| "severity_to_string Sev_Error = ''error''"

fun validation_mode_to_string :: "replay_validation_mode \<Rightarrow> string" where
  "validation_mode_to_string Mode_Full = ''full''"
| "validation_mode_to_string Mode_Light = ''light''"
| "validation_mode_to_string (Mode_Other _) = ''unknown''"

record replay_diagnostic =
  rd_event_index :: nat
  rd_sequence_number :: sequence_number
  rd_symbol_id :: symbol_id
  rd_severity :: replay_severity
  rd_reason :: string

record replay_config =
  rc_validate_sequence_numbers :: bool
  rc_validate_timestamps :: bool
  rc_validate_book_state :: bool
  rc_validation_mode :: replay_validation_mode
  rc_max_speed :: bool

record replay_result =
  rp_events_processed :: nat
  rp_sequence_valid :: bool
  rp_event_log_checksum :: u64
  rp_final_book_checksum :: u64
  rp_execution_report_checksum :: u64
  rp_diagnostics_checksum :: u64
  rp_diagnostic_error_count :: nat
  rp_diagnostic_warning_count :: nat
  rp_diagnostics :: "replay_diagnostic list"
  rp_error :: string

record replay_stream_state =
  ss_expected_sequence :: sequence_number
  ss_last_timestamp :: timestamp_ns
  ss_has_last_timestamp :: bool
  ss_event_index :: nat
  ss_halted :: bool

definition default_config :: replay_config where
  "default_config = \<lparr>rc_validate_sequence_numbers = True, rc_validate_timestamps = True, rc_validate_book_state = True,
     rc_validation_mode = Mode_Full, rc_max_speed = True\<rparr>"

definition blank_result :: replay_result where
  "blank_result = \<lparr>rp_events_processed = 0, rp_sequence_valid = True, rp_event_log_checksum = 0, rp_final_book_checksum = 0,
     rp_execution_report_checksum = 0, rp_diagnostics_checksum = 0, rp_diagnostic_error_count = 0,
     rp_diagnostic_warning_count = 0, rp_diagnostics = [], rp_error = []\<rparr>"

definition blank_stream :: replay_stream_state where
  "blank_stream = \<lparr>ss_expected_sequence = 0, ss_last_timestamp = 0, ss_has_last_timestamp = False, ss_event_index = 0,
     ss_halted = False\<rparr>"

definition diagnostic_checksum :: "u64 \<Rightarrow> replay_diagnostic \<Rightarrow> u64" where
  "diagnostic_checksum seed d =
     (let seed = checksum_append_size seed (rd_event_index d);
          seed = checksum_append_u64 seed (rd_sequence_number d);
          seed = checksum_append_u32 seed (rd_symbol_id d);
          seed = checksum_append_u8 seed (severity_wire (rd_severity d))
      in checksum_append_string seed (rd_reason d))"

definition checksum_diagnostics :: "replay_diagnostic list \<Rightarrow> u64" where
  "checksum_diagnostics ds = foldl diagnostic_checksum kFnvOffsetBasis ds"

definition add_diagnostic :: "replay_result \<Rightarrow> nat \<Rightarrow> market_data_event \<Rightarrow> replay_severity \<Rightarrow> string \<Rightarrow> replay_result" where
  "add_diagnostic result index e severity reason =
     (let d = \<lparr>rd_event_index = index, rd_sequence_number = ev_sequence_number e, rd_symbol_id = ev_symbol_id e,
               rd_severity = severity, rd_reason = reason\<rparr>
      in result\<lparr>rp_diagnostics_checksum := diagnostic_checksum (rp_diagnostics_checksum result) d,
           rp_diagnostic_error_count := rp_diagnostic_error_count result + (if severity = Sev_Error then 1 else 0),
           rp_diagnostic_warning_count := rp_diagnostic_warning_count result + (if severity = Sev_Warning then 1 else 0),
           rp_diagnostics := rp_diagnostics result @ [d]\<rparr>)"

text \<open>An error diagnostic whose reason also becomes the result's error.\<close>

definition fail_with :: "replay_result \<Rightarrow> nat \<Rightarrow> market_data_event \<Rightarrow> string \<Rightarrow> replay_result" where
  "fail_with result index e reason =
     (let result = add_diagnostic result index e Sev_Error reason
      in result\<lparr>rp_error := rd_reason (last (rp_diagnostics result))\<rparr>)"

section \<open>Validation\<close>

definition is_price_required :: "market_event_type \<Rightarrow> bool" where
  "is_price_required ty \<longleftrightarrow> ty = Ev_Add \<or> ty = Ev_Replace \<or> ty = Ev_Trade"

definition is_quantity_required :: "market_event_type \<Rightarrow> bool" where
  "is_quantity_required ty \<longleftrightarrow> ty = Ev_Add \<or> ty = Ev_Replace \<or> ty = Ev_Execute \<or> ty = Ev_Trade"

definition is_order_id_required :: "market_event_type \<Rightarrow> bool" where
  "is_order_id_required ty \<longleftrightarrow> ty = Ev_Add \<or> ty = Ev_Cancel \<or> ty = Ev_Replace \<or> ty = Ev_Execute"

text \<open>The reason the first failing check gives, in the order of the code.\<close>

definition snapshot_failure :: "market_data_event \<Rightarrow> string option" where
  "snapshot_failure e =
     (if \<not> is_valid_side (ev_side e) then Some ''invalid snapshot side''
      else if ev_price_ticks e \<le> 0 then Some ''invalid snapshot price''
      else if ev_quantity e \<le> 0 then Some ''invalid snapshot quantity'' else None)"

definition resting_failure :: "order_book \<Rightarrow> market_data_event \<Rightarrow> string option" where
  "resting_failure b e = (case ob_find_order (ev_order_id e) b of
       None \<Rightarrow> Some (if ev_event_type e = Ev_Cancel then ''unknown cancel order id''
         else if ev_event_type e = Ev_Replace then ''unknown replace order id'' else ''unknown execute order id'')
     | Some x \<Rightarrow> if (ev_event_type e = Ev_Cancel \<or> ev_event_type e = Ev_Execute) \<and> ev_quantity e > o_quantity x
         then Some ''invalid quantity exceeds resting order quantity'' else None)"

definition validation_failure :: "order_book \<Rightarrow> market_data_event \<Rightarrow> string option" where
  "validation_failure b e =
     (let ty = ev_event_type e in
      if ev_symbol_id e = kInvalidSymbolId then Some ''invalid symbol id''
      else if ev_symbol_id e \<noteq> ob_symbol_id b then Some ''event symbol does not match replay book symbol''
      else if is_order_id_required ty \<and> ev_order_id e = kInvalidOrderId then Some ''invalid order id''
      else if (ty = Ev_Add \<or> ty = Ev_Replace) \<and> \<not> is_valid_side (ev_side e) then Some ''invalid side''
      else if is_price_required ty \<and> ev_price_ticks e \<le> 0 then Some ''invalid price''
      else if \<not> is_price_required ty \<and> ev_price_ticks e < 0 then Some ''invalid negative price''
      else if is_quantity_required ty \<and> ev_quantity e \<le> 0 then Some ''invalid quantity''
      else if \<not> is_quantity_required ty \<and> ev_quantity e < 0 then Some ''invalid negative quantity''
      else if ty = Ev_Add \<and> ob_find_order (ev_order_id e) b \<noteq> None then Some ''duplicate order id''
      else if ty = Ev_Snapshot \<and> ev_order_id e \<noteq> kInvalidOrderId \<and> snapshot_failure e \<noteq> None then snapshot_failure e
      else if ty = Ev_Cancel \<or> ty = Ev_Replace \<or> ty = Ev_Execute then resting_failure b e
      else None)"

definition validate_event_before_apply ::
  "order_book \<Rightarrow> market_data_event \<Rightarrow> nat \<Rightarrow> replay_result \<Rightarrow> bool \<times> replay_result" where
  "validate_event_before_apply b e index result = (case validation_failure b e of
       None \<Rightarrow> (True, result) | Some reason \<Rightarrow> (False, add_diagnostic result index e Sev_Error reason))"

definition validate_top_of_book ::
  "order_book \<Rightarrow> market_data_event \<Rightarrow> nat \<Rightarrow> replay_result \<Rightarrow> bool \<times> replay_result" where
  "validate_top_of_book b e index result = (case (ob_best_bid b, ob_best_ask b) of
       (Some bid, Some ask) \<Rightarrow> if bid \<ge> ask
         then (False, fail_with result index e (''crossed book state: best bid '' @ decimal_int bid @
                 '' >= best ask '' @ decimal_int ask))
         else (True, result)
     | _ \<Rightarrow> (True, result))"

definition validate_full_book ::
  "order_book \<Rightarrow> market_data_event \<Rightarrow> nat \<Rightarrow> replay_result \<Rightarrow> string \<Rightarrow> bool \<times> replay_result" where
  "validate_full_book b e index result prefix =
     (let report = ob_check_invariants b in
      if \<not> bir_ok report
      then (False, fail_with result index e (prefix @ (if bir_violations report = [] then ''book invariant violation''
              else ''book invariant violation: '' @ hd (bir_violations report))))
      else validate_top_of_book b e index result)"

definition validate_book_after_apply ::
  "replay_config \<Rightarrow> order_book \<Rightarrow> market_data_event \<Rightarrow> nat \<Rightarrow> replay_result \<Rightarrow> bool \<times> replay_result" where
  "validate_book_after_apply cfg b e index result =
     (if \<not> rc_validate_book_state cfg then (True, result)
      else if rc_validation_mode cfg = Mode_Light then validate_top_of_book b e index result
      else if rc_validation_mode cfg \<noteq> Mode_Full
      then (False, fail_with result index e ''unsupported replay validation mode'')
      else validate_full_book b e index result [])"

section \<open>Applying an event\<close>

definition event_order :: "market_data_event \<Rightarrow> order" where
  "event_order e = \<lparr>o_order_id = ev_order_id e, o_client_order_id = kInvalidClientOrderId, o_symbol_id = ev_symbol_id e,
     o_side = ev_side e, o_price_ticks = ev_price_ticks e, o_quantity = ev_quantity e,
     o_timestamp_ns = ev_timestamp_ns e, o_sequence_number = ev_sequence_number e\<rparr>"

definition update_activity_checksum :: "market_data_event \<Rightarrow> replay_result \<Rightarrow> replay_result" where
  "update_activity_checksum e result =
     result\<lparr>rp_execution_report_checksum := event_checksum (rp_execution_report_checksum result) e\<rparr>"

definition snapshot_book :: "market_data_event \<Rightarrow> order_book \<Rightarrow> order_book" where
  "snapshot_book e b = (if ev_flags e AND kSnapshotBeginFlag \<noteq> 0 then ob_clear b else b)"

text \<open>The switch of \<^verbatim>\<open>apply_event\<close>: the reason of a failure, the book, the result.\<close>

definition apply_switch :: "market_data_event \<Rightarrow> order_book \<Rightarrow> replay_result \<Rightarrow> string option \<times> order_book \<times> replay_result" where
  "apply_switch e b result = (case ev_event_type e of
       Ev_Add \<Rightarrow> let (ok, b) = ob_add_order (event_order e) b in (if ok then None else Some ''failed to apply Add event'', b, result)
     | Ev_Cancel \<Rightarrow> if ev_quantity e > 0
         then (let (ok, b) = ob_reduce_order (ev_order_id e) (ev_quantity e) b
               in (if ok then None else Some ''failed to apply partial Cancel event'', b, result))
         else (let (ok, b) = ob_cancel_order (ev_order_id e) b
               in (if ok then None else Some ''failed to apply Cancel event'', b, result))
     | Ev_Replace \<Rightarrow> let (ok, b) = ob_replace_order (ev_order_id e) (ev_price_ticks e) (ev_quantity e)
           (ev_timestamp_ns e) (ev_sequence_number e) b
         in (if ok then None else Some ''failed to apply Replace event'', b, result)
     | Ev_Execute \<Rightarrow> let (ok, b) = ob_reduce_order (ev_order_id e) (ev_quantity e) b
         in (if ok then None else Some ''failed to apply Execute event'', b,
             if ok then update_activity_checksum e result else result)
     | Ev_Trade \<Rightarrow> (None, b, update_activity_checksum e result)
     | Ev_Snapshot \<Rightarrow> let b = snapshot_book e b in
         if ev_order_id e \<noteq> kInvalidOrderId
         then (let (ok, b) = ob_add_order (event_order e) b
               in (if ok then None else Some ''failed to apply Snapshot event'', b, result))
         else (None, b, result)
     | Ev_Heartbeat \<Rightarrow> (None, b, result))"

definition apply_event ::
  "replay_config \<Rightarrow> market_data_event \<Rightarrow> nat \<Rightarrow> order_book \<times> replay_result \<Rightarrow> bool \<times> order_book \<times> replay_result" where
  "apply_event cfg e index = (\<lambda>(b, result).
     case apply_switch e b result of
       (Some reason, b, result) \<Rightarrow> (False, b, fail_with result index e reason)
     | (None, b, result) \<Rightarrow>
         let (ok, result) = validate_book_after_apply cfg b e index result in (ok, b, result))"

section \<open>The stream\<close>

type_synonym stream = "order_book \<times> replay_stream_state \<times> replay_result"

definition begin_stream :: "replay_result \<Rightarrow> replay_result" where
  "begin_stream result = result\<lparr>rp_execution_report_checksum := kFnvOffsetBasis, rp_diagnostics_checksum := kFnvOffsetBasis\<rparr>"

definition blank_event :: market_data_event where
  "blank_event = \<lparr>ev_timestamp_ns = 0, ev_sequence_number = 0, ev_symbol_id = kInvalidSymbolId, ev_event_type = Ev_Heartbeat,
     ev_side = NoSide, ev_price_ticks = 0, ev_quantity = 0, ev_order_id = kInvalidOrderId, ev_trade_id = 0, ev_flags = 0\<rparr>"

definition finalize_stream :: "replay_config \<Rightarrow> order_book \<Rightarrow> replay_result \<Rightarrow> replay_result" where
  "finalize_stream cfg b result =
     (let result = (if rc_validate_book_state cfg \<and> rc_validation_mode cfg = Mode_Light \<and> rp_sequence_valid result
            then (let (ok, result) = validate_full_book b (blank_event\<lparr>ev_symbol_id := ob_symbol_id b\<rparr>)
                        (rp_events_processed result) result ''final ''
                  in if ok then result else result\<lparr>rp_sequence_valid := False\<rparr>)
            else result)
      in result\<lparr>rp_final_book_checksum := ob_checksum b\<rparr>)"

text \<open>A halt: the reason becomes a diagnostic and the error, and the stream stops.\<close>

definition halt_stream :: "market_data_event \<Rightarrow> string \<Rightarrow> stream \<Rightarrow> bool \<times> stream" where
  "halt_stream e reason = (\<lambda>(b, state, result).
     (False, (b, state\<lparr>ss_halted := True\<rparr>,
        (fail_with result (ss_event_index state) e reason)\<lparr>rp_sequence_valid := False\<rparr>)))"

definition check_sequence :: "replay_config \<Rightarrow> market_data_event \<Rightarrow> replay_stream_state \<Rightarrow> string option \<times> replay_stream_state" where
  "check_sequence cfg e state =
     (if rc_validate_sequence_numbers cfg
      then (let state = (if ss_expected_sequence state = 0 then state\<lparr>ss_expected_sequence := ev_sequence_number e\<rparr> else state)
            in if ev_sequence_number e \<noteq> ss_expected_sequence state
               then (Some (''sequence gap: expected '' @ decimal_word (ss_expected_sequence state) @
                       '', received '' @ decimal_word (ev_sequence_number e)), state)
               else (None, state\<lparr>ss_expected_sequence := ss_expected_sequence state + 1\<rparr>))
      else (None, state))"

definition check_timestamp :: "replay_config \<Rightarrow> market_data_event \<Rightarrow> replay_stream_state \<Rightarrow> string option \<times> replay_stream_state" where
  "check_timestamp cfg e state =
     (if rc_validate_timestamps cfg
      then (if ss_has_last_timestamp state \<and> ev_timestamp_ns e < ss_last_timestamp state
            then (Some (''timestamp reversal: previous '' @ decimal_int (ss_last_timestamp state) @
                    '', received '' @ decimal_int (ev_timestamp_ns e)), state)
            else (None, state\<lparr>ss_last_timestamp := ev_timestamp_ns e, ss_has_last_timestamp := True\<rparr>))
      else (None, state))"

definition replay_step :: "replay_config \<Rightarrow> market_data_event \<Rightarrow> stream \<Rightarrow> bool \<times> stream" where
  "replay_step cfg e = (\<lambda>(b, state, result).
     let index = ss_event_index state; (gap, state) = check_sequence cfg e state in
     case gap of Some reason \<Rightarrow> halt_stream e reason (b, state, result) | None \<Rightarrow>
     let (reversal, state) = check_timestamp cfg e state in
     case reversal of Some reason \<Rightarrow> halt_stream e reason (b, state, result) | None \<Rightarrow>
     let (valid, result) = validate_event_before_apply b e index result in
     if \<not> valid
     then (False, (b, state\<lparr>ss_halted := True\<rparr>,
             result\<lparr>rp_sequence_valid := False, rp_error := rd_reason (last (rp_diagnostics result))\<rparr>))
     else let (ok, b, result) = apply_event cfg e index (b, result) in
     if \<not> ok then (False, (b, state\<lparr>ss_halted := True\<rparr>, result\<lparr>rp_sequence_valid := False\<rparr>))
     else (True, (b, state\<lparr>ss_event_index := ss_event_index state + 1\<rparr>,
             result\<lparr>rp_events_processed := rp_events_processed result + 1\<rparr>)))"

fun replay_loop :: "replay_config \<Rightarrow> market_data_event list \<Rightarrow> stream \<Rightarrow> stream" where
  "replay_loop cfg [] s = s"
| "replay_loop cfg (e # es) s = (let (ok, s) = replay_step cfg e s in if ok then replay_loop cfg es s else s)"

definition replay_events :: "replay_config \<Rightarrow> market_data_event list \<Rightarrow> order_book \<Rightarrow> order_book \<times> replay_result" where
  "replay_events cfg es b =
     (let result = (begin_stream blank_result)\<lparr>rp_event_log_checksum := checksum_events es\<rparr>;
          (b, state, result) = replay_loop cfg es (b, blank_stream, result)
      in (b, finalize_stream cfg b result))"

definition replay_file ::
  "replay_config \<Rightarrow> string \<Rightarrow> u8 list option \<Rightarrow> event_log_format \<Rightarrow> order_book \<Rightarrow> order_book \<times> replay_result" where
  "replay_file cfg path file fmt b =
     (let log = read_event_log path file fmt in
      if lr_error log \<noteq> []
      then (b, blank_result\<lparr>rp_execution_report_checksum := kFnvOffsetBasis, rp_diagnostics_checksum := kFnvOffsetBasis,
                 rp_event_log_checksum := kFnvOffsetBasis, rp_sequence_valid := False, rp_error := lr_error log\<rparr>)
      else let (b, result) = replay_events cfg (lr_events log) b
           in (b, result\<lparr>rp_event_log_checksum := lr_event_checksum log\<rparr>))"

section \<open>Books of several symbols\<close>

type_synonym book_set = "(symbol_id \<times> order_book) list"

definition book_for :: "symbol_id \<Rightarrow> book_set \<Rightarrow> book_set" where
  "book_for sy books = om_try_emplace (<) sy (ob_new sy) books"

definition apply_book :: "market_data_event \<Rightarrow> order_book \<Rightarrow> bool \<times> order_book" where
  "apply_book e b = (case ev_event_type e of
       Ev_Add \<Rightarrow> ob_add_order (event_order e) b
     | Ev_Cancel \<Rightarrow> if ev_quantity e > 0 then ob_reduce_order (ev_order_id e) (ev_quantity e) b
         else ob_cancel_order (ev_order_id e) b
     | Ev_Replace \<Rightarrow> ob_replace_order (ev_order_id e) (ev_price_ticks e) (ev_quantity e)
         (ev_timestamp_ns e) (ev_sequence_number e) b
     | Ev_Execute \<Rightarrow> ob_reduce_order (ev_order_id e) (ev_quantity e) b
     | Ev_Snapshot \<Rightarrow> let b = snapshot_book e b
         in if ev_order_id e \<noteq> kInvalidOrderId then ob_add_order (event_order e) b else (True, b)
     | Ev_Trade \<Rightarrow> (True, b)
     | Ev_Heartbeat \<Rightarrow> (True, b))"

definition bs_apply :: "market_data_event \<Rightarrow> book_set \<Rightarrow> bool \<times> book_set" where
  "bs_apply e books =
     (if ev_symbol_id e = kInvalidSymbolId then (False, books)
      else let books = book_for (ev_symbol_id e) books;
               (ok, b) = apply_book e (the (map_of books (ev_symbol_id e)))
           in (ok, om_modify (ev_symbol_id e) (\<lambda>_. b) books))"

fun bs_apply_all :: "market_data_event list \<Rightarrow> book_set \<Rightarrow> nat \<times> book_set" where
  "bs_apply_all [] books = (0, books)"
| "bs_apply_all (e # es) books =
     (let (ok, books) = bs_apply e books; (applied, books) = bs_apply_all es books
      in (if ok then applied + 1 else applied, books))"

definition bs_combined_checksum :: "book_set \<Rightarrow> u64" where
  "bs_combined_checksum books =
     foldl (\<lambda>seed (sy, b). checksum_append_u64 (checksum_append_u32 seed sy) (ob_checksum b))
       (checksum_append_size kFnvOffsetBasis (length books)) books"

end
