(* ===== verification/Replay_Correct.thy ===== *)
theory Replay_Correct
  imports Replay
begin

text \<open>
  Replay keeps the book consistent whatever stream it is fed, its result accounts for exactly the
  diagnostics it lists, most failures the code tests for after validation cannot happen, and a stream
  that replays without a diagnostic leaves the book that the multi-symbol set builds.
\<close>

section \<open>Events as book operations\<close>

lemma spec_step_symbol: "ld_symbol (snd (spec_step op L)) = ld_symbol L"
proof -
  have cancel: "ld_symbol (snd (spec_cancel i L)) = ld_symbol L" for i L
    by (simp add: spec_cancel_def ladder_simps split: option.splits)
  have add: "ld_symbol (snd (spec_add x L)) = ld_symbol L" for x L by (simp add: spec_add_def ladder_simps)
  show ?thesis
    using cancel add
    by (cases op) (auto simp: spec_reduce_def spec_replace_def spec_clear_def ladder_simps split: option.splits)
qed

lemma ob_step_keeps:
  assumes "ob_inv b"
  shows "ob_inv (snd (ob_step op b))" and "ob_symbol_id (snd (ob_step op b)) = ob_symbol_id b"
proof -
  have r: "ob_inv (snd (ob_step op b))" "spec_step op (ob_ladder b) = (fst (ob_step op b), ob_ladder (snd (ob_step op b)))"
    using ob_step_refines [OF assms] by blast+
  show "ob_inv (snd (ob_step op b))" by (rule r(1))
  show "ob_symbol_id (snd (ob_step op b)) = ob_symbol_id b"
    using spec_step_symbol [of op "ob_ladder b"] r(2) by (simp add: ob_ladder_def)
qed

lemmas ob_ops_keep = ob_step_keeps [where op = "Op_Add x" for x, simplified]
  ob_step_keeps [where op = "Op_Cancel i" for i, simplified] ob_step_keeps [where op = "Op_Reduce i n" for i n, simplified]
  ob_step_keeps [where op = "Op_Replace i p n ts sq" for i p n ts sq, simplified] ob_step_keeps [where op = Op_Clear, simplified]

lemma snapshot_keeps:
  "ob_inv b \<Longrightarrow> ob_inv (snapshot_book e b)" "ob_inv b \<Longrightarrow> ob_symbol_id (snapshot_book e b) = ob_symbol_id b"
  by (simp_all add: snapshot_book_def ob_ops_keep)

lemma apply_book_keeps:
  assumes "ob_inv b"
  shows "ob_inv (snd (apply_book e b))" and "ob_symbol_id (snd (apply_book e b)) = ob_symbol_id b"
  using assms by (cases "ev_event_type e"; simp add: apply_book_def ob_ops_keep snapshot_keeps Let_def)+

lemma find_cancelled:
  assumes "ladder_ok L"
  shows "ld_find i (snd (spec_cancel i L)) = None"
proof (cases "ld_find i L")
  case None
  then show ?thesis by (simp add: spec_cancel_def)
next
  case (Some x)
  then have x: "x \<in> set (ld_orders L)" "o_order_id x = i" by (simp_all add: ld_find_Some [OF assms])
  show ?thesis using ld_orders_drop [OF assms x(1)] x(2) by (auto simp: spec_cancel_def Some ld_find_None)
qed

lemma validated_applies:
  assumes inv: "ob_inv b" and valid: "validation_failure b e = None" and snap: "ev_event_type e \<noteq> Ev_Snapshot"
  shows "fst (apply_book e b)"
proof -
  let ?L = "ob_ladder b"
  have ok: "ladder_ok ?L" using inv by (simp add: ob_inv_def)
  have sy: "ev_symbol_id e \<noteq> kInvalidSymbolId" "ev_symbol_id e = ld_symbol ?L"
    using valid by (auto simp: validation_failure_def ob_ladder_def Let_def split: if_splits)
  have find: "ob_find_order i b = ld_find i ?L" for i using std.find_refines [OF inv] .
  have step: "fst (ob_step op b) = fst (spec_step op ?L)" for op using ob_step_refines [OF inv, of op] by simp
  show ?thesis
  proof (cases "ev_event_type e")
    case Ev_Add
    then have v: "ev_order_id e \<noteq> kInvalidOrderId" "is_valid_side (ev_side e)" "0 < ev_price_ticks e" "0 < ev_quantity e"
      "ld_find (ev_order_id e) ?L = None"
      using valid find by (auto simp: validation_failure_def is_order_id_required_def is_price_required_def
          is_quantity_required_def Let_def split: if_splits)
    then have "fst (spec_add (event_order e) ?L)"
      using sy by (simp add: spec_add_def is_valid_resting_order_def event_order_def)
    then show ?thesis using step [of "Op_Add (event_order e)"] by (simp add: apply_book_def Ev_Add)
  next
    case Ev_Cancel
    then obtain x where x: "ld_find (ev_order_id e) ?L = Some x"
      using valid find by (auto simp: validation_failure_def resting_failure_def is_order_id_required_def is_price_required_def
          is_quantity_required_def Let_def split: if_splits option.splits)
    then have "fst (spec_cancel (ev_order_id e) ?L)" "0 < ev_quantity e \<longrightarrow> fst (spec_reduce (ev_order_id e) (ev_quantity e) ?L)"
      by (simp_all add: spec_cancel_def spec_reduce_def)
    then show ?thesis using step [of "Op_Cancel (ev_order_id e)"] step [of "Op_Reduce (ev_order_id e) (ev_quantity e)"]
      by (simp add: apply_book_def Ev_Cancel)
  next
    case Ev_Replace
    then obtain x where x: "ld_find (ev_order_id e) ?L = Some x" and pos: "0 < ev_price_ticks e" "0 < ev_quantity e"
      using valid find by (auto simp: validation_failure_def resting_failure_def is_order_id_required_def is_price_required_def
          is_quantity_required_def Let_def split: if_splits option.splits)
    have xv: "is_valid_resting_order x" "o_symbol_id x = ld_symbol ?L" "o_order_id x = ev_order_id e"
      using ladder_order_side [OF ok, of x] x by (simp_all add: ld_find_Some [OF ok])
    have "fst (spec_replace (ev_order_id e) (ev_price_ticks e) (ev_quantity e) (ev_timestamp_ns e) (ev_sequence_number e) ?L)"
      using x pos xv find_cancelled [OF ok, of "ev_order_id e"] spec_step_symbol [of "Op_Cancel (ev_order_id e)" ?L]
      by (simp add: spec_replace_def spec_add_def reprice_def is_valid_resting_order_def)
    then show ?thesis
      using step [of "Op_Replace (ev_order_id e) (ev_price_ticks e) (ev_quantity e) (ev_timestamp_ns e) (ev_sequence_number e)"]
      by (simp add: apply_book_def Ev_Replace)
  next
    case Ev_Execute
    then obtain x where x: "ld_find (ev_order_id e) ?L = Some x" and pos: "0 < ev_quantity e"
      using valid find by (auto simp: validation_failure_def resting_failure_def is_order_id_required_def is_price_required_def
          is_quantity_required_def Let_def split: if_splits option.splits)
    then have "fst (spec_reduce (ev_order_id e) (ev_quantity e) ?L)"
      by (simp add: spec_cancel_def spec_reduce_def)
    then show ?thesis using step [of "Op_Reduce (ev_order_id e) (ev_quantity e)"] by (simp add: apply_book_def Ev_Execute)
  qed (use snap in \<open>simp_all add: apply_book_def\<close>)
qed

lemma apply_switch_book:
  "\<exists>reason result'. apply_switch e b result = (if fst (apply_book e b) then None else Some reason, snd (apply_book e b), result') \<and>
     (\<exists>c. result' = result\<lparr>rp_execution_report_checksum := c\<rparr>) \<and>
     (ev_event_type e = Ev_Snapshot \<longrightarrow> reason = ''failed to apply Snapshot event'')"
proof -
  have same: "\<exists>c. result = result\<lparr>rp_execution_report_checksum := c\<rparr>" by (rule exI [of _ "rp_execution_report_checksum result"]) simp
  show ?thesis
    using same by (cases "ev_event_type e") (auto simp: apply_switch_def apply_book_def update_activity_checksum_def Let_def split: prod.splits)
qed

section \<open>Results\<close>

text \<open>Reasons the code can construct but that no stream produces.\<close>

definition unreachable_reason :: "string \<Rightarrow> bool" where
  "unreachable_reason s \<longleftrightarrow> s \<in> {''failed to apply Add event'', ''failed to apply partial Cancel event'',
     ''failed to apply Cancel event'', ''failed to apply Replace event'', ''failed to apply Execute event''} \<or>
     take 14 s = ''book invariant'' \<or> take 20 s = ''final book invariant''"

definition result_ok :: "replay_result \<Rightarrow> bool" where
  "result_ok r \<longleftrightarrow> rp_diagnostics_checksum r = checksum_diagnostics (rp_diagnostics r) \<and>
     rp_diagnostic_error_count r = length (rp_diagnostics r) \<and> rp_diagnostic_warning_count r = 0 \<and>
     (\<forall>d \<in> set (rp_diagnostics r). rd_severity d = Sev_Error \<and> \<not> unreachable_reason (rd_reason d)) \<and>
     (rp_sequence_valid r \<longleftrightarrow> rp_diagnostics r = []) \<and> length (rp_diagnostics r) \<le> 1 \<and>
     rp_error r = (if rp_diagnostics r = [] then [] else rd_reason (last (rp_diagnostics r)))"

definition running :: "replay_result \<Rightarrow> bool" where
  "running r \<longleftrightarrow> result_ok r \<and> rp_diagnostics r = []"

lemma running_checksum [simp]: "running (r\<lparr>rp_execution_report_checksum := c\<rparr>) = running r"
  by (simp add: running_def result_ok_def)

lemma running_progress [simp]: "running (r\<lparr>rp_events_processed := n\<rparr>) = running r"
  by (simp add: running_def result_ok_def)

lemma fail_with_ok:
  assumes "running r" and "\<not> unreachable_reason reason"
  shows "result_ok ((fail_with r index e reason)\<lparr>rp_sequence_valid := False\<rparr>)"
    and "rp_diagnostics (fail_with r index e reason) \<noteq> []"
  using assms by (simp_all add: running_def result_ok_def fail_with_def add_diagnostic_def Let_def checksum_diagnostics_def)

text \<open>Every failure the stream can meet.\<close>

lemma head_reachable: "hd s \<notin> {CHR ''f'', CHR ''b''} \<Longrightarrow> s \<noteq> [] \<Longrightarrow> \<not> unreachable_reason s"
  by (cases s) (auto simp: unreachable_reason_def)

lemma gap_reachable: "fst (check_sequence cfg e state) = Some reason \<Longrightarrow> \<not> unreachable_reason reason"
  by (rule head_reachable) (auto simp: check_sequence_def Let_def split: if_splits)

lemma reversal_reachable: "fst (check_timestamp cfg e state) = Some reason \<Longrightarrow> \<not> unreachable_reason reason"
  by (rule head_reachable) (auto simp: check_timestamp_def split: if_splits)

lemma validation_reachable: "validation_failure b e = Some reason \<Longrightarrow> \<not> unreachable_reason reason"
  by (rule head_reachable)
    (auto simp: validation_failure_def snapshot_failure_def resting_failure_def Let_def split: if_splits option.splits)

lemma validate_top_ok:
  assumes "running r"
  shows "case validate_top_of_book b e index r of (ok, r') \<Rightarrow>
    if ok then r' = r else result_ok (r'\<lparr>rp_sequence_valid := False\<rparr>) \<and> rp_diagnostics r' \<noteq> []"
proof -
  have reach: "\<not> unreachable_reason (''crossed book state: best bid '' @ s)" for s by (rule head_reachable) simp_all
  show ?thesis using fail_with_ok [OF assms reach] by (auto simp: validate_top_of_book_def split: option.splits)
qed

lemma validate_full_ok:
  assumes "running r" and "ob_inv b"
  shows "validate_full_book b e index r prefix = validate_top_of_book b e index r"
  using ob_check_clean [OF assms(2)] by (simp add: validate_full_book_def empty_report_def)

lemma validate_after_ok:
  assumes "running r" and "ob_inv b"
  shows "case validate_book_after_apply cfg b e index r of (ok, r') \<Rightarrow>
    if ok then r' = r else result_ok (r'\<lparr>rp_sequence_valid := False\<rparr>) \<and> rp_diagnostics r' \<noteq> []"
proof -
  have reach: "\<not> unreachable_reason ''unsupported replay validation mode''" by (rule head_reachable) simp_all
  show ?thesis
    using validate_top_ok [OF assms(1), of b e index] fail_with_ok [OF assms(1) reach]
    by (simp add: validate_book_after_apply_def validate_full_ok [OF assms])
qed

text \<open>One event applied after it has been validated.\<close>

lemma apply_event_ok:
  assumes r: "running r" and b: "ob_inv b" and valid: "validation_failure b e = None"
  shows "case apply_event cfg e index (b, r) of (ok, b', r') \<Rightarrow> ob_inv b' \<and> ob_symbol_id b' = ob_symbol_id b \<and>
    b' = snd (apply_book e b) \<and>
    (if ok then running r' \<and> fst (apply_book e b) \<and> (\<exists>c. r' = r\<lparr>rp_execution_report_checksum := c\<rparr>)
     else result_ok (r'\<lparr>rp_sequence_valid := False\<rparr>) \<and> rp_diagnostics r' \<noteq> [])"
proof -
  obtain reason r1 c where s: "apply_switch e b r = (if fst (apply_book e b) then None else Some reason, snd (apply_book e b), r1)"
    "r1 = r\<lparr>rp_execution_report_checksum := c\<rparr>" "ev_event_type e = Ev_Snapshot \<longrightarrow> reason = ''failed to apply Snapshot event''"
    using apply_switch_book [of e b r] by blast
  have run: "running r1" using s(2) r by simp
  note keep = apply_book_keeps [OF b, of e]
  show ?thesis
  proof (cases "fst (apply_book e b)")
    case True
    then show ?thesis
      using validate_after_ok [OF run keep(1), of cfg e index] s run keep
      by (auto simp: apply_event_def split: prod.splits)
  next
    case False
    then have "reason = ''failed to apply Snapshot event''" using validated_applies [OF b valid] s(3) by blast
    then have "\<not> unreachable_reason reason" by (simp add: unreachable_reason_def)
    from fail_with_ok [OF run this] show ?thesis using s(1) False keep by (simp add: apply_event_def)
  qed
qed

section \<open>Steps and runs\<close>

definition stream_ok :: "symbol_id \<Rightarrow> stream \<Rightarrow> bool" where
  "stream_ok sy = (\<lambda>(b, state, r). ob_inv b \<and> ob_symbol_id b = sy \<and> result_ok r)"

definition stream_running :: "stream \<Rightarrow> bool" where
  "stream_running = (\<lambda>(b, state, r). running r)"

text \<open>What a successful step does to each part.\<close>

definition step_done :: "replay_config \<Rightarrow> market_data_event \<Rightarrow> symbol_id \<Rightarrow> stream \<Rightarrow> stream \<Rightarrow> bool" where
  "step_done cfg e sy = (\<lambda>(b, st, r) (b', st', r').
     ob_inv b' \<and> ob_symbol_id b' = sy \<and> running r' \<and> apply_book e b = (True, b') \<and>
     ev_symbol_id e = sy \<and> sy \<noteq> kInvalidSymbolId \<and> rp_events_processed r' = rp_events_processed r + 1 \<and>
     rp_event_log_checksum r' = rp_event_log_checksum r \<and>
     (let (gap, st1) = check_sequence cfg e st; (reversal, st2) = check_timestamp cfg e st1
      in gap = None \<and> reversal = None \<and> st' = st2\<lparr>ss_event_index := ss_event_index st2 + 1\<rparr>))"

definition step_failed :: "symbol_id \<Rightarrow> stream \<Rightarrow> stream \<Rightarrow> bool" where
  "step_failed sy = (\<lambda>(b, st, r) (b', st', r').
     ob_inv b' \<and> ob_symbol_id b' = sy \<and> result_ok r' \<and> rp_diagnostics r' \<noteq> [] \<and>
     rp_event_log_checksum r' = rp_event_log_checksum r)"

lemma fail_with_log [simp]: "rp_event_log_checksum (fail_with r i e s) = rp_event_log_checksum r"
  by (simp add: fail_with_def add_diagnostic_def Let_def)

lemma validate_after_log:
  "rp_event_log_checksum (snd (validate_book_after_apply cfg b e i r)) = rp_event_log_checksum r"
  by (auto simp: validate_book_after_apply_def validate_full_book_def validate_top_of_book_def Let_def split: option.splits)

lemma apply_event_log: "rp_event_log_checksum (snd (snd (apply_event cfg e i (b, r)))) = rp_event_log_checksum r"
proof -
  obtain v b1 r1 where s: "apply_switch e b r = (v, b1, r1)" by (cases "apply_switch e b r") auto
  have "rp_event_log_checksum r1 = rp_event_log_checksum r" using apply_switch_book [of e b r] s by auto
  then show ?thesis using validate_after_log [of cfg b1 e i r1]
    by (auto simp: apply_event_def s split: option.splits prod.splits)
qed

lemma replay_step_cases:
  assumes "ob_inv b" and "ob_symbol_id b = sy" and r: "running r"
  shows "(\<exists>s'. replay_step cfg e (b, st, r) = (True, s') \<and> step_done cfg e sy (b, st, r) s') \<or>
    (\<exists>s'. replay_step cfg e (b, st, r) = (False, s') \<and> step_failed sy (b, st, r) s')"
proof -
  obtain gap st1 where g: "check_sequence cfg e st = (gap, st1)" by (cases "check_sequence cfg e st")
  obtain rev st2 where t: "check_timestamp cfg e st1 = (rev, st2)" by (cases "check_timestamp cfg e st1")
  show ?thesis
  proof (cases gap)
    case (Some reason)
    then have "\<not> unreachable_reason reason" using gap_reachable [of cfg e st] g by simp
    from fail_with_ok [OF r this] show ?thesis
      using assms(1,2) by (simp add: replay_step_def Let_def g Some halt_stream_def step_failed_def)
  next
    case gap: None
    show ?thesis
    proof (cases rev)
      case (Some reason)
      then have "\<not> unreachable_reason reason" using reversal_reachable [of cfg e st1] t by simp
      from fail_with_ok [OF r this] show ?thesis
        using assms(1,2) by (simp add: replay_step_def Let_def g gap t Some halt_stream_def step_failed_def)
    next
      case rev: None
      show ?thesis
      proof (cases "validation_failure b e")
        case (Some reason)
        let ?r = "fail_with r (ss_event_index st) e reason"
        have ok: "result_ok (?r\<lparr>rp_sequence_valid := False\<rparr>)" "rp_diagnostics ?r \<noteq> []"
          using fail_with_ok [OF r validation_reachable [OF Some]] by simp_all
        have "replay_step cfg e (b, st, r) = (False, (b, st2\<lparr>ss_halted := True\<rparr>, ?r\<lparr>rp_sequence_valid := False\<rparr>))"
          by (simp add: replay_step_def Let_def g gap t rev validate_event_before_apply_def Some fail_with_def)
        then show ?thesis using ok assms(1,2) by (simp add: step_failed_def)
      next
        case valid: None
        obtain ok b' r' where a: "apply_event cfg e (ss_event_index st) (b, r) = (ok, b', r')"
          by (cases "apply_event cfg e (ss_event_index st) (b, r)") auto
        have log: "rp_event_log_checksum r' = rp_event_log_checksum r"
          using apply_event_log [of cfg e "ss_event_index st" b r] a by simp
        have sy: "ev_symbol_id e = sy" "sy \<noteq> kInvalidSymbolId"
          using valid assms(2) by (auto simp: validation_failure_def Let_def split: if_splits)
        have step: "replay_step cfg e (b, st, r) = (if ok
            then (True, (b', st2\<lparr>ss_event_index := ss_event_index st2 + 1\<rparr>, r'\<lparr>rp_events_processed := rp_events_processed r' + 1\<rparr>))
            else (False, (b', st2\<lparr>ss_halted := True\<rparr>, r'\<lparr>rp_sequence_valid := False\<rparr>)))"
          by (simp add: replay_step_def Let_def g gap t rev validate_event_before_apply_def valid a)
        have f: "ob_inv b' \<and> ob_symbol_id b' = ob_symbol_id b \<and> b' = snd (apply_book e b) \<and>
          (if ok then running r' \<and> fst (apply_book e b) \<and> (\<exists>c. r' = r\<lparr>rp_execution_report_checksum := c\<rparr>)
           else result_ok (r'\<lparr>rp_sequence_valid := False\<rparr>) \<and> rp_diagnostics r' \<noteq> [])"
          using apply_event_ok [OF r assms(1) valid, of cfg "ss_event_index st"] unfolding a prod.case .
        have inv: "ob_inv b'" "ob_symbol_id b' = sy"
          using conjunct1 [OF f] conjunct1 [OF conjunct2 [OF f]] assms(2) by simp_all
        show ?thesis
        proof (cases ok)
          case True
          have ap: "apply_book e b = (True, b')" and n: "rp_events_processed r' = rp_events_processed r" and ru: "running r'"
            using f True by (auto simp: prod_eq_iff)
          show ?thesis using step inv ap n ru sy log True by (simp add: step_done_def g gap t rev)
        next
          case False
          have "result_ok (r'\<lparr>rp_sequence_valid := False\<rparr>)" "rp_diagnostics r' \<noteq> []" using f False by simp_all
          then show ?thesis using step inv log False by (simp add: step_failed_def)
        qed
      qed
    qed
  qed
qed

text \<open>A run: it stops at the first failure, or every event was applied.\<close>

inductive replay_run :: "replay_config \<Rightarrow> symbol_id \<Rightarrow> market_data_event list \<Rightarrow> stream \<Rightarrow> stream \<Rightarrow> bool"
  for cfg sy where
  Run_Done: "replay_run cfg sy [] s s"
| Run_Fail: "step_failed sy s s' \<Longrightarrow> replay_run cfg sy (e # es) s s'"
| Run_Step: "step_done cfg e sy s s' \<Longrightarrow> replay_run cfg sy es s' s'' \<Longrightarrow> replay_run cfg sy (e # es) s s''"

lemma replay_loop_runs:
  assumes "ob_inv b" and "ob_symbol_id b = sy" and "running r"
  shows "replay_run cfg sy es (b, st, r) (replay_loop cfg es (b, st, r))"
  using assms
proof (induction es arbitrary: b st r)
  case Nil
  show ?case by (simp add: Run_Done)
next
  case (Cons e es)
  consider (good) s' where "replay_step cfg e (b, st, r) = (True, s')" "step_done cfg e sy (b, st, r) s'"
    | (bad) s' where "replay_step cfg e (b, st, r) = (False, s')" "step_failed sy (b, st, r) s'"
    using replay_step_cases [OF Cons.prems, of cfg e st] by blast
  then show ?case
  proof cases
    case good
    obtain b' st' r' where s': "s' = (b', st', r')" by (cases s') auto
    have "ob_inv b'" "ob_symbol_id b' = sy" "running r'" using good(2) s' by (simp_all add: step_done_def)
    from Cons.IH [OF this, of st'] show ?thesis using good s' Run_Step [OF good(2)] by simp
  next
    case bad
    then show ?thesis using Run_Fail by simp
  qed
qed

lemma replay_run_ok:
  assumes "replay_run cfg sy es s s'"
  shows "(case s of (b, st, r) \<Rightarrow> ob_inv b \<and> ob_symbol_id b = sy \<and> running r) \<longrightarrow>
    (case s' of (b', st', r') \<Rightarrow> ob_inv b' \<and> ob_symbol_id b' = sy \<and> result_ok r' \<and>
       rp_event_log_checksum r' = rp_event_log_checksum (snd (snd s)))"
  using assms
  by induction (auto simp: step_failed_def step_done_def running_def split: prod.splits)

text \<open>A run that ends without a diagnostic applied every event, in order.\<close>

fun apply_many :: "market_data_event list \<Rightarrow> order_book \<Rightarrow> order_book option" where
  "apply_many [] b = Some b"
| "apply_many (e # es) b = (let (ok, b) = apply_book e b in if ok then apply_many es b else None)"

definition follows :: "market_data_event \<Rightarrow> market_data_event \<Rightarrow> bool" where
  "follows e e' \<longleftrightarrow> ev_sequence_number e + 1 = 0 \<or> ev_sequence_number e' = ev_sequence_number e + 1"

lemma replay_run_complete:
  assumes "replay_run cfg sy es s s'" and "rp_diagnostics (snd (snd s')) = []"
  shows "apply_many es (fst s) = Some (fst s')" and "\<forall>e \<in> set es. ev_symbol_id e = sy \<and> sy \<noteq> kInvalidSymbolId"
    and "rp_events_processed (snd (snd s')) = rp_events_processed (snd (snd s)) + length es"
  using assms by induction (auto simp: step_done_def step_failed_def Let_def split: prod.splits)

lemma replay_run_sequenced:
  assumes "replay_run cfg sy es s s'" and "rp_diagnostics (snd (snd s')) = []" and "rc_validate_sequence_numbers cfg"
  shows "successively follows es \<and>
    (es \<noteq> [] \<longrightarrow> ss_expected_sequence (fst (snd s)) = 0 \<or> ev_sequence_number (hd es) = ss_expected_sequence (fst (snd s)))"
  using assms
proof induction
  case (Run_Step e s s' es s'')
  obtain b st r where s: "s = (b, st, r)" by (cases s) auto
  obtain b' st' r' where s': "s' = (b', st', r')" by (cases s') auto
  have "fst (check_sequence cfg e st) = None" "ss_expected_sequence st' = ss_expected_sequence (snd (check_sequence cfg e st))"
    using Run_Step.hyps(1) s s'
    by (auto simp: step_done_def Let_def check_timestamp_def split: prod.splits if_splits)
  then have "ss_expected_sequence st = 0 \<or> ev_sequence_number e = ss_expected_sequence st"
    "ss_expected_sequence st' = ev_sequence_number e + 1"
    using Run_Step.prems(2) by (auto simp: check_sequence_def Let_def split: if_splits)
  with Run_Step.IH [OF Run_Step.prems] s s' show ?case by (cases es) (auto simp: follows_def)
qed (auto simp: step_failed_def split: prod.splits)

lemma replay_run_timed:
  assumes "replay_run cfg sy es s s'" and "rp_diagnostics (snd (snd s')) = []" and "rc_validate_timestamps cfg"
  shows "sorted (map ev_timestamp_ns es) \<and>
    (es \<noteq> [] \<longrightarrow> ss_has_last_timestamp (fst (snd s)) \<longrightarrow> ss_last_timestamp (fst (snd s)) \<le> ev_timestamp_ns (hd es))"
  using assms
proof induction
  case (Run_Step e s s' es s'')
  obtain b st r where s: "s = (b, st, r)" by (cases s) auto
  obtain b' st' r' where s': "s' = (b', st', r')" by (cases s') auto
  obtain gap st1 where g: "check_sequence cfg e st = (gap, st1)" by (cases "check_sequence cfg e st")
  have same: "ss_has_last_timestamp st1 = ss_has_last_timestamp st" "ss_last_timestamp st1 = ss_last_timestamp st"
    using g by (auto simp: check_sequence_def Let_def split: if_splits)
  have "fst (check_timestamp cfg e st1) = None" "st' = (snd (check_timestamp cfg e st1))\<lparr>ss_event_index := ss_event_index (snd (check_timestamp cfg e st1)) + 1\<rparr>"
    using Run_Step.hyps(1) s s' g by (auto simp: step_done_def Let_def split: prod.splits)
  then have "ss_has_last_timestamp st \<longrightarrow> ss_last_timestamp st \<le> ev_timestamp_ns e"
    "ss_has_last_timestamp st'" "ss_last_timestamp st' = ev_timestamp_ns e"
    using Run_Step.prems(2) same by (auto simp: check_timestamp_def split: if_splits)
  with Run_Step.IH [OF Run_Step.prems] s s' show ?case by (cases es) auto
qed (auto simp: step_failed_def split: prod.splits)

section \<open>Whole logs\<close>

lemma running_begin: "running ((begin_stream blank_result)\<lparr>rp_event_log_checksum := c\<rparr>)"
  by (simp add: running_def result_ok_def begin_stream_def blank_result_def checksum_diagnostics_def)

lemma finalize_ok:
  assumes "ob_inv b" and "result_ok r"
  shows "result_ok (finalize_stream cfg b r)" and "rp_final_book_checksum (finalize_stream cfg b r) = ob_checksum b"
    and "rp_diagnostics (finalize_stream cfg b r) = [] \<Longrightarrow> rp_diagnostics r = []"
    and "rp_events_processed (finalize_stream cfg b r) = rp_events_processed r"
    and "rp_event_log_checksum (finalize_stream cfg b r) = rp_event_log_checksum r"
proof -
  have final: "result_ok (r'\<lparr>rp_final_book_checksum := c\<rparr>) = result_ok r'" for r' c by (simp add: result_ok_def)
  have keep: "rp_events_processed (fail_with r i e s) = rp_events_processed r" for i e s
    by (simp add: fail_with_def add_diagnostic_def Let_def)
  show "rp_final_book_checksum (finalize_stream cfg b r) = ob_checksum b" by (simp add: finalize_stream_def)
  have "result_ok (finalize_stream cfg b r) \<and> (rp_diagnostics (finalize_stream cfg b r) = [] \<longrightarrow> rp_diagnostics r = []) \<and>
    rp_events_processed (finalize_stream cfg b r) = rp_events_processed r \<and>
    rp_event_log_checksum (finalize_stream cfg b r) = rp_event_log_checksum r"
  proof (cases "rc_validate_book_state cfg \<and> rc_validation_mode cfg = Mode_Light \<and> rp_sequence_valid r")
    case False
    then show ?thesis using assms(2) by (auto simp: finalize_stream_def Let_def final)
  next
    case True
    then have run: "running r" using assms(2) by (simp add: running_def result_ok_def)
    let ?e = "blank_event\<lparr>ev_symbol_id := ob_symbol_id b\<rparr>"
    obtain ok r' where v: "validate_top_of_book b ?e (rp_events_processed r) r = (ok, r')"
      by (cases "validate_top_of_book b ?e (rp_events_processed r) r")
    have p: "rp_events_processed r' = rp_events_processed r" "rp_event_log_checksum r' = rp_event_log_checksum r"
      using v keep by (auto simp: validate_top_of_book_def split: option.splits if_splits)
    have t: "if ok then r' = r else result_ok (r'\<lparr>rp_sequence_valid := False\<rparr>) \<and> rp_diagnostics r' \<noteq> []"
      using validate_top_ok [OF run, of b ?e "rp_events_processed r"] unfolding v prod.case .
    then show ?thesis
      using True assms(2) p by (cases ok) (simp_all add: finalize_stream_def validate_full_ok [OF run assms(1)] v final Let_def)
  qed
  then show "result_ok (finalize_stream cfg b r)" "rp_diagnostics (finalize_stream cfg b r) = [] \<Longrightarrow> rp_diagnostics r = []"
    "rp_events_processed (finalize_stream cfg b r) = rp_events_processed r"
    "rp_event_log_checksum (finalize_stream cfg b r) = rp_event_log_checksum r" by simp_all
qed

lemma replay_events_runs:
  assumes "replay_events cfg es (ob_new sy) = (b, r)"
  obtains st r0 where "replay_run cfg sy es (ob_new sy, blank_stream, (begin_stream blank_result)\<lparr>rp_event_log_checksum := checksum_events es\<rparr>) (b, st, r0)"
    and "ob_inv b" and "result_ok r0" and "r = finalize_stream cfg b r0" and "rp_event_log_checksum r0 = checksum_events es"
proof -
  let ?s = "(ob_new sy, blank_stream, (begin_stream blank_result)\<lparr>rp_event_log_checksum := checksum_events es\<rparr>)"
  have start: "ob_inv (ob_new sy)" "ob_symbol_id (ob_new sy) = sy" using ob_inv_new by (simp_all add: ob_new_def)
  obtain b1 st r0 where l: "replay_loop cfg es ?s = (b1, st, r0)" by (cases "replay_loop cfg es ?s") auto
  have run: "replay_run cfg sy es ?s (b1, st, r0)" using replay_loop_runs [OF start running_begin [of "checksum_events es"], of cfg es blank_stream] l by simp
  have "b = b1" "r = finalize_stream cfg b r0" using assms l by (auto simp: replay_events_def Let_def)
  then show thesis using that run replay_run_ok [OF run] start running_begin [of "checksum_events es"] by simp
qed

section \<open>The multi-symbol set\<close>

lemma book_set_single:
  assumes "apply_many es b = Some b'" and "\<forall>e \<in> set es. ev_symbol_id e = sy \<and> sy \<noteq> kInvalidSymbolId"
  shows "bs_apply_all es [(sy, b)] = (length es, [(sy, b')])"
  using assms
proof (induction es arbitrary: b)
  case Nil
  then show ?case by simp
next
  case (Cons e es)
  obtain b1 where a: "apply_book e b = (True, b1)" "apply_many es b1 = Some b'"
    using Cons.prems(1) by (auto simp: Let_def split: prod.splits if_splits)
  have "bs_apply e [(sy, b)] = (True, [(sy, b1)])"
    using Cons.prems(2) a(1) by (simp add: bs_apply_def book_for_def Let_def)
  then show ?case using Cons.IH [OF a(2)] Cons.prems(2) by simp
qed

lemma book_set_from_empty:
  assumes "es \<noteq> []" and "apply_many es (ob_new sy) = Some b'" and "\<forall>e \<in> set es. ev_symbol_id e = sy \<and> sy \<noteq> kInvalidSymbolId"
  shows "bs_apply_all es [] = (length es, [(sy, b')])"
proof -
  obtain e es' where es: "es = e # es'" using assms(1) by (cases es) auto
  have "bs_apply e [] = bs_apply e [(sy, ob_new sy)]" using assms(3) es by (simp add: bs_apply_def book_for_def Let_def)
  then have "bs_apply_all es [] = bs_apply_all es [(sy, ob_new sy)]" by (simp add: es)
  then show ?thesis using book_set_single [OF assms(2,3)] by simp
qed

section \<open>Properties\<close>

text \<open>C15: replaying any stream, under any configuration, leaves a book its own check accepts, and a result
  that accounts for its diagnostics: at most one, an error, counted and checksummed exactly, present if and only
  if the stream is not valid, and never one of the reasons that would mean a corrupt book.\<close>

theorem replay_result_sound:
  "let (b, r) = replay_events cfg es (ob_new sy) in
    ob_check_invariants b = empty_report \<and> rp_final_book_checksum r = ob_checksum b \<and>
    rp_event_log_checksum r = checksum_events es \<and>
    rp_diagnostics_checksum r = checksum_diagnostics (rp_diagnostics r) \<and>
    rp_diagnostic_error_count r = length (rp_diagnostics r) \<and> length (rp_diagnostics r) \<le> 1 \<and>
    rp_sequence_valid r = (rp_diagnostics r = []) \<and>
    filter (\<lambda>d. unreachable_reason (rd_reason d)) (rp_diagnostics r) = []"
proof -
  obtain b r where r: "replay_events cfg es (ob_new sy) = (b, r)" by (cases "replay_events cfg es (ob_new sy)")
  obtain st r0 where o: "ob_inv b" "result_ok r0" "r = finalize_stream cfg b r0" "rp_event_log_checksum r0 = checksum_events es"
    by (rule replay_events_runs [OF r]) blast
  have "result_ok r" "rp_final_book_checksum r = ob_checksum b" "rp_event_log_checksum r = checksum_events es"
    using finalize_ok [OF o(1,2), of cfg] o(3,4) by simp_all
  then show ?thesis using ob_check_clean [OF o(1)] by (simp add: r result_ok_def filter_empty_conv)
qed

lemma follows_number: "follows e e' \<Longrightarrow> unat (ev_sequence_number e) < 2 ^ 64 - 1 \<Longrightarrow>
  unat (ev_sequence_number e') = unat (ev_sequence_number e) + 1"
  by (auto simp: follows_def unat_word_ariths unsigned_0 dest: arg_cong [where f = unat])

lemma consecutive_numbers: "(\<forall>k. Suc k < n \<longrightarrow> f (Suc k) = f k + (1 :: nat)) \<Longrightarrow> k < n \<Longrightarrow> f k = f 0 + k"
  by (induction k) auto

text \<open>C16: a valid result means what it says: every event was processed and belongs to the symbol of the book. With
  sequence validation on, every event whose number is not the greatest of the 64-bit range is followed by the next
  number; so, unless an event before the last carries that greatest number, the k-th event is numbered k above the
  first, which may be any. (After the greatest number the code expects number 0, which it takes for no expectation.)
  With timestamp validation on, the timestamps never go back.\<close>

theorem valid_replay_is_ordered:
  assumes "replay_events cfg es (ob_new sy) = (b, r)" and "rp_sequence_valid r"
  shows "rp_events_processed r = length es \<and> (\<forall>e \<in> set es. ev_symbol_id e = sy) \<and>
    (rc_validate_sequence_numbers cfg \<longrightarrow> (\<forall>k. Suc k < length es \<longrightarrow> unat (ev_sequence_number (es ! k)) < 2 ^ 64 - 1 \<longrightarrow>
       unat (ev_sequence_number (es ! Suc k)) = unat (ev_sequence_number (es ! k)) + 1)) \<and>
    (rc_validate_sequence_numbers cfg \<longrightarrow> (\<forall>k. Suc k < length es \<longrightarrow> unat (ev_sequence_number (es ! k)) < 2 ^ 64 - 1) \<longrightarrow>
       (\<forall>k < length es. unat (ev_sequence_number (es ! k)) = unat (ev_sequence_number (es ! 0)) + k)) \<and>
    (rc_validate_timestamps cfg \<longrightarrow> sorted (map ev_timestamp_ns es))"
proof -
  obtain st r0 where o: "replay_run cfg sy es (ob_new sy, blank_stream, (begin_stream blank_result)\<lparr>rp_event_log_checksum := checksum_events es\<rparr>) (b, st, r0)"
    "ob_inv b" "result_ok r0" "r = finalize_stream cfg b r0"
    by (rule replay_events_runs [OF assms(1)]) blast
  have "result_ok r" using finalize_ok(1) [OF o(2,3)] o(4) by simp
  then have "rp_diagnostics r = []" using assms(2) by (simp add: result_ok_def)
  then have d: "rp_diagnostics (snd (snd (b, st, r0))) = []" using finalize_ok(3) [OF o(2,3)] o(4) by simp
  have "rp_events_processed r0 = length es"
    using replay_run_complete(3) [OF o(1) d] by (simp add: begin_stream_def blank_result_def)
  then have count: "rp_events_processed r = length es" using finalize_ok(4) [OF o(2,3)] o(4) by simp
  have sym: "\<forall>e \<in> set es. ev_symbol_id e = sy" using replay_run_complete(2) [OF o(1) d] by blast
  have pairs: "\<forall>k. Suc k < length es \<longrightarrow> unat (ev_sequence_number (es ! k)) < 2 ^ 64 - 1 \<longrightarrow>
      unat (ev_sequence_number (es ! Suc k)) = unat (ev_sequence_number (es ! k)) + 1"
    if "rc_validate_sequence_numbers cfg"
    using replay_run_sequenced [OF o(1) d that] follows_number by (auto simp: successively_conv_nth)
  then have "\<forall>k < length es. unat (ev_sequence_number (es ! k)) = unat (ev_sequence_number (es ! 0)) + k"
    if "rc_validate_sequence_numbers cfg" "\<forall>k. Suc k < length es \<longrightarrow> unat (ev_sequence_number (es ! k)) < 2 ^ 64 - 1"
    using that consecutive_numbers [of "length es" "\<lambda>k. unat (ev_sequence_number (es ! k))"] by blast
  with count sym pairs show ?thesis using replay_run_timed [OF o(1) d] by blast
qed

definition demo_event :: "u64 \<Rightarrow> int \<Rightarrow> market_event_type \<Rightarrow> market_data_event" where
  "demo_event sq ts ty = blank_event\<lparr>ev_sequence_number := sq, ev_timestamp_ns := ts, ev_symbol_id := 1, ev_event_type := ty,
     ev_side := Buy, ev_price_ticks := 10, ev_quantity := 5, ev_order_id := 3\<rparr>"

definition demo_stream :: "market_data_event list" where
  "demo_stream = [demo_event 1 5 Ev_Add, demo_event 2 6 Ev_Execute]"

lemma demo_valid: "rp_sequence_valid (snd (replay_events default_config demo_stream (ob_new 1)))"
  by code_simp

lemma valid_replay_is_ordered_witness:
  "unat (ev_sequence_number (demo_stream ! 1)) = unat (ev_sequence_number (demo_stream ! 0)) + 1 \<and>
   sorted (map ev_timestamp_ns demo_stream)"
proof -
  obtain b r where r: "replay_events default_config demo_stream (ob_new 1) = (b, r)"
    by (cases "replay_events default_config demo_stream (ob_new 1)")
  have "unat (ev_sequence_number (demo_stream ! 0)) < 2 ^ 64 - 1" by (simp add: demo_stream_def demo_event_def)
  then show ?thesis using valid_replay_is_ordered [OF r] demo_valid r
    by (auto simp: default_config_def demo_stream_def)
qed

text \<open>What the exception means: after the greatest number, any number replays as valid.\<close>

lemma any_number_after_greatest:
  "rp_sequence_valid (snd (replay_events default_config [demo_event (- 1) 5 Ev_Add, demo_event 7 6 Ev_Execute] (ob_new 1)))"
  by code_simp

text \<open>A stream that replays without a diagnostic leaves exactly the book that the multi-symbol
  set builds from it, which applies every event.\<close>

theorem replay_agrees_with_book_set:
  assumes "replay_events cfg es (ob_new sy) = (b, r)" and "rp_sequence_valid r" and "es \<noteq> []"
  shows "bs_apply_all es [] = (length es, [(sy, b)]) \<and> rp_final_book_checksum r = ob_checksum b"
proof -
  obtain st r0 where o: "replay_run cfg sy es (ob_new sy, blank_stream, (begin_stream blank_result)\<lparr>rp_event_log_checksum := checksum_events es\<rparr>) (b, st, r0)"
    "ob_inv b" "result_ok r0" "r = finalize_stream cfg b r0"
    by (rule replay_events_runs [OF assms(1)]) blast
  have "result_ok r" using finalize_ok(1) [OF o(2,3)] o(4) by simp
  then have "rp_diagnostics r = []" using assms(2) by (simp add: result_ok_def)
  then have d: "rp_diagnostics (snd (snd (b, st, r0))) = []" using finalize_ok(3) [OF o(2,3)] o(4) by simp
  have a: "apply_many es (ob_new sy) = Some b" and sy: "\<forall>e \<in> set es. ev_symbol_id e = sy \<and> sy \<noteq> kInvalidSymbolId"
    using replay_run_complete(1,2) [OF o(1) d] by simp_all
  show ?thesis using book_set_from_empty [OF assms(3) a sy] finalize_ok(2) [OF o(2,3)] o(4) by simp
qed

lemma replay_agrees_with_book_set_witness: "fst (bs_apply_all demo_stream []) = 2"
proof -
  obtain b r where r: "replay_events default_config demo_stream (ob_new 1) = (b, r)"
    by (cases "replay_events default_config demo_stream (ob_new 1)")
  show ?thesis using replay_agrees_with_book_set [OF r] demo_valid r by (simp add: demo_stream_def)
qed

end
