(* ===== verification/Client_Order_Id_Set.thy ===== *)
theory Client_Order_Id_Set
  imports Matching_Engine Flat_Order_Index_Correct
begin

text \<open>
  \<^verbatim>\<open>RiskGateway::ClientOrderIdSet\<close> of \<^verbatim>\<open>risk/risk_gateway.hpp\<close> and
  \<^verbatim>\<open>risk/risk_gateway.cpp\<close>: the client order ids the gateway has accepted, in an
  open-addressing table whose empty slots hold the invalid id 0, with a flag for id 0 itself. The loops
  of the code have no bound; here they get as many steps as there are buckets, and \<open>None\<close> is a loop
  that does not end. The interface the gateway relies on is the locale \<open>id_set\<close>, interpreted on
  this table at the end.
\<close>

section \<open>The table\<close>

record client_order_id_set =
  cs_buckets :: "client_order_id list"
  cs_size :: nat
  cs_contains_zero :: bool

definition cs_new :: client_order_id_set where
  "cs_new = \<lparr>cs_buckets = [], cs_size = 0, cs_contains_zero = False\<rparr>"

definition bucket_count_for :: "nat \<Rightarrow> nat" where
  "bucket_count_for expected_size = grow_capacity (if expected_size < 8 then 16 else expected_size * 2) 16"

definition bucket_index :: "client_order_id list \<Rightarrow> client_order_id \<Rightarrow> nat" where
  "bucket_index buckets i =
     (let value = i;
          value = value XOR drop_bit 33 value;
          value = value * 0xff51afd7ed558ccd;
          value = value XOR drop_bit 33 value;
          value = value * 0xc4ceb9fe1a85ec53;
          value = value XOR drop_bit 33 value
      in unat value AND (length buckets - 1))"

text \<open>The loops of \<^verbatim>\<open>contains\<close> and \<^verbatim>\<open>insert\<close> stop at the id or at an empty slot; the
  one of \<^verbatim>\<open>rehash\<close> stops at an empty slot, which is the same search for the id 0.\<close>

fun cs_probe :: "client_order_id list \<Rightarrow> client_order_id \<Rightarrow> nat \<Rightarrow> nat \<Rightarrow> nat option" where
  "cs_probe buckets i 0 index = None"
| "cs_probe buckets i (Suc left) index =
     (if buckets ! index = i \<or> buckets ! index = kInvalidClientOrderId then Some index
      else cs_probe buckets i left ((index + 1) AND (length buckets - 1)))"

definition cs_contains :: "client_order_id \<Rightarrow> client_order_id_set \<Rightarrow> bool option" where
  "cs_contains i s =
     (if i = kInvalidClientOrderId then Some (cs_contains_zero s)
      else if cs_buckets s = [] then Some False
      else case cs_probe (cs_buckets s) i (length (cs_buckets s)) (bucket_index (cs_buckets s) i) of
          None \<Rightarrow> None | Some p \<Rightarrow> Some (cs_buckets s ! p = i))"

fun cs_rehash_loop :: "client_order_id list \<Rightarrow> client_order_id_set \<Rightarrow> client_order_id_set option" where
  "cs_rehash_loop [] s = Some s"
| "cs_rehash_loop (i # previous) s =
     (if i = kInvalidClientOrderId then cs_rehash_loop previous s
      else case cs_probe (cs_buckets s) kInvalidClientOrderId (length (cs_buckets s)) (bucket_index (cs_buckets s) i) of
          None \<Rightarrow> None
        | Some p \<Rightarrow> cs_rehash_loop previous (s\<lparr>cs_buckets := (cs_buckets s)[p := i], cs_size := cs_size s + 1\<rparr>))"

definition cs_rehash :: "nat \<Rightarrow> client_order_id_set \<Rightarrow> client_order_id_set option" where
  "cs_rehash bucket_count s = cs_rehash_loop (cs_buckets s)
     (s\<lparr>cs_buckets := replicate bucket_count kInvalidClientOrderId, cs_size := (if cs_contains_zero s then 1 else 0)\<rparr>)"

definition cs_reserve :: "nat \<Rightarrow> client_order_id_set \<Rightarrow> client_order_id_set option" where
  "cs_reserve expected_size s =
     (if bucket_count_for expected_size > length (cs_buckets s) then cs_rehash (bucket_count_for expected_size) s else Some s)"

definition cs_insert :: "client_order_id \<Rightarrow> client_order_id_set \<Rightarrow> client_order_id_set option" where
  "cs_insert i s =
     (if i = kInvalidClientOrderId
      then Some (if \<not> cs_contains_zero s then s\<lparr>cs_contains_zero := True, cs_size := cs_size s + 1\<rparr> else s)
      else Option.bind (if cs_buckets s = [] \<or> (cs_size s + 1) * 2 \<ge> length (cs_buckets s)
                        then cs_rehash (bucket_count_for (cs_size s + 1)) s else Some s)
        (\<lambda>s. case cs_probe (cs_buckets s) i (length (cs_buckets s)) (bucket_index (cs_buckets s) i) of
            None \<Rightarrow> None
          | Some p \<Rightarrow> Some (if cs_buckets s ! p = i then s
                            else s\<lparr>cs_buckets := (cs_buckets s)[p := i], cs_size := cs_size s + 1\<rparr>)))"

section \<open>Probe sequences\<close>

definition cs_walk :: "client_order_id list \<Rightarrow> client_order_id \<Rightarrow> nat \<Rightarrow> nat" where
  "cs_walk bs i j = (bucket_index bs i + j) mod length bs"

lemma index_less: "length bs = 2 ^ k \<Longrightarrow> bucket_index bs i < length bs"
  unfolding bucket_index_def Let_def and_pow2 by simp

lemma cs_walk_0: "length bs = 2 ^ k \<Longrightarrow> cs_walk bs i 0 = bucket_index bs i"
  unfolding cs_walk_def add_0_right by (rule mod_less) (rule index_less)

lemma cs_walk_less: "length bs = 2 ^ k \<Longrightarrow> cs_walk bs i j < length bs"
  by (simp add: cs_walk_def)

lemma cs_walk_next: "length bs = 2 ^ k \<Longrightarrow> (cs_walk bs i j + 1) AND (length bs - 1) = cs_walk bs i (Suc j)"
  unfolding and_pow2 cs_walk_def by (simp add: mod_Suc_eq)

lemma cs_walk_surj: "length bs = 2 ^ k \<Longrightarrow> p < length bs \<Longrightarrow> \<exists>j < length bs. cs_walk bs i j = p"
  unfolding cs_walk_def using ring_surj index_less by blast

lemma index_update [simp]: "bucket_index (bs[p := x]) i = bucket_index bs i"
  by (simp add: bucket_index_def)

lemma cs_walk_update [simp]: "cs_walk (bs[p := x]) i j = cs_walk bs i j"
  by (simp add: cs_walk_def)

text \<open>A probe from the \<open>s\<close>-th slot of the sequence of \<open>k\<close> stops at the first slot it is looking for.\<close>

lemma cs_probe_first:
  assumes "length bs = 2 ^ n" and "bs ! cs_walk bs k (s + j) \<in> {i, 0}"
    and "\<forall>j' < j. bs ! cs_walk bs k (s + j') \<notin> {i, 0}" and "j < left"
  shows "cs_probe bs i left (cs_walk bs k s) = Some (cs_walk bs k (s + j))"
  using assms(2-4)
proof (induction left arbitrary: s j)
  case (Suc left)
  show ?case
  proof (cases j)
    case 0
    then show ?thesis using Suc.prems by auto
  next
    case (Suc j')
    have "bs ! cs_walk bs k s \<notin> {i, 0}" using Suc.prems(2) Suc by (metis add_0_right zero_less_Suc)
    moreover have "cs_probe bs i left (cs_walk bs k (Suc s)) = Some (cs_walk bs k (Suc s + j'))"
      using Suc.prems Suc by (intro Suc.IH) auto
    ultimately show ?thesis using Suc cs_walk_next [OF assms(1), of k s] by simp
  qed
qed simp

definition nonzero :: "client_order_id list \<Rightarrow> nat set" where
  "nonzero bs = {p. p < length bs \<and> bs ! p \<noteq> 0}"

definition cs_reach :: "client_order_id list \<Rightarrow> client_order_id \<Rightarrow> nat \<Rightarrow> bool" where
  "cs_reach bs i p \<longleftrightarrow> (\<exists>j < length bs. cs_walk bs i j = p \<and> (\<forall>j' < j. bs ! cs_walk bs i j' \<noteq> 0))"

definition id_table :: "client_order_id list \<Rightarrow> bool" where
  "id_table bs \<longleftrightarrow> (\<exists>k. length bs = 2 ^ k) \<and> card (nonzero bs) < length bs \<and>
     (\<forall>p \<in> nonzero bs. cs_reach bs (bs ! p) p) \<and> inj_on ((!) bs) (nonzero bs)"

lemma finite_nonzero [simp]: "finite (nonzero bs)"
  by (simp add: nonzero_def)

text \<open>In a table with room, a search for \<open>i\<close> along the sequence of \<open>k\<close> stops.\<close>

lemma probe_stops:
  assumes "length bs = 2 ^ n" and "card (nonzero bs) < length bs"
  obtains p where "cs_probe bs i (length bs) (bucket_index bs k) = Some p" and "p < length bs"
    and "bs ! p = i \<or> bs ! p = 0" and "cs_reach bs k p"
    and "\<forall>q. cs_reach bs k q \<longrightarrow> bs ! q = i \<longrightarrow> bs ! p = i"
proof -
  let ?P = "\<lambda>j. bs ! cs_walk bs k j \<in> {i, 0}"
  have "nonzero bs \<noteq> {..<length bs}" using assms(2) by (metis card_lessThan less_irrefl)
  then obtain z where "z < length bs" "bs ! z = 0" by (auto simp: nonzero_def)
  then obtain j0 where j0: "j0 < length bs" "?P j0" using cs_walk_surj [OF assms(1)] by force
  define j where "j = (LEAST j. ?P j)"
  have j: "?P j" "\<forall>j' < j. \<not> ?P j'" "j \<le> j0" unfolding j_def
    using j0(2) by (rule LeastI, metis not_less_Least, rule Least_le)
  have len: "j < length bs" using j(3) j0(1) by simp
  have "cs_probe bs i (length bs) (cs_walk bs k 0) = Some (cs_walk bs k j)"
    using cs_probe_first [OF assms(1), of k 0 j i] j len by simp
  moreover have "cs_reach bs k (cs_walk bs k j)" unfolding cs_reach_def using j len by (intro exI [of _ j]) auto
  moreover have key: "bs ! cs_walk bs k j = i" if q: "cs_reach bs k q" "bs ! q = i" for q
  proof -
    obtain m where m: "cs_walk bs k m = q" "\<forall>j' < m. bs ! cs_walk bs k j' \<noteq> 0" using q(1) by (auto simp: cs_reach_def)
    then have "j \<le> m" unfolding j_def using q(2) by (intro Least_le) simp
    then have "j < m \<or> j = m" by auto
    then show ?thesis using j(1) m q(2) by auto
  qed
  moreover have "bs ! cs_walk bs k j = i \<or> bs ! cs_walk bs k j = 0" using j(1) by simp
  ultimately show thesis using that cs_walk_less [OF assms(1)] cs_walk_0 [OF assms(1)] by metis
qed

lemma nonzero_update: "p < length bs \<Longrightarrow> i \<noteq> 0 \<Longrightarrow> nonzero (bs[p := i]) = insert p (nonzero bs)"
  by (auto simp: nonzero_def nth_list_update)

lemma reach_update: "cs_reach bs k q \<Longrightarrow> i \<noteq> 0 \<Longrightarrow> cs_reach (bs[p := i]) k q"
  by (auto simp: cs_reach_def nth_list_update cs_walk_def) (metis nth_list_update_eq nth_list_update_neq nth_update)

text \<open>Filling the slot a search ended in.\<close>

lemma table_fill:
  assumes "id_table bs" and "p < length bs" and "bs ! p = 0" and "cs_reach bs i p" and "i \<noteq> 0" and "i \<notin> set bs"
    and "Suc (card (nonzero bs)) < length bs"
  shows "id_table (bs[p := i])" and "card (nonzero (bs[p := i])) = Suc (card (nonzero bs))"
    and "set (bs[p := i]) - {0} = insert i (set bs - {0})"
proof -
  have n: "nonzero (bs[p := i]) = insert p (nonzero bs)" using assms(2,5) by (rule nonzero_update)
  have p: "p \<notin> nonzero bs" using assms(3) by (simp add: nonzero_def)
  show c: "card (nonzero (bs[p := i])) = Suc (card (nonzero bs))" using p by (simp add: n)
  have other: "q \<noteq> p" "bs ! q \<noteq> i" "q < length bs" if "q \<in> nonzero bs" for q
    using that p assms(6) by (auto simp: nonzero_def)
  have "\<forall>q \<in> insert p (nonzero bs). cs_reach (bs[p := i]) (bs[p := i] ! q) q"
    using assms(1,2,4,5) other reach_update by (auto simp: id_table_def nth_list_update)
  moreover have "inj_on ((!) (bs[p := i])) (insert p (nonzero bs))"
    using assms(1,2) other by (auto simp: id_table_def inj_on_def nth_list_update)
  ultimately show "id_table (bs[p := i])" using assms(1,7) c by (simp add: id_table_def n)
  show "set (bs[p := i]) - {0} = insert i (set bs - {0})"
  proof -
    have "set (bs[p := i]) = insert i (set (take p bs) \<union> set (drop (Suc p) bs))"
      using assms(2) by (simp add: upd_conv_take_nth_drop)
    moreover have "set bs = insert 0 (set (take p bs) \<union> set (drop (Suc p) bs))"
      using assms(2,3) by (metis id_take_nth_drop list.set(2) set_append Un_insert_right)
    ultimately show ?thesis using assms(5) by auto
  qed
qed

section \<open>The operations on a well-formed set\<close>

definition cs_members :: "client_order_id_set \<Rightarrow> client_order_id set" where
  "cs_members s = (set (cs_buckets s) - {0}) \<union> (if cs_contains_zero s then {0} else {})"

definition cs_inv :: "client_order_id_set \<Rightarrow> bool" where
  "cs_inv s \<longleftrightarrow> cs_size s = card (nonzero (cs_buckets s)) + (if cs_contains_zero s then 1 else 0) \<and>
     (cs_buckets s \<noteq> [] \<longrightarrow> id_table (cs_buckets s)) \<and> 2 * card (nonzero (cs_buckets s)) \<le> length (cs_buckets s)"

lemma table_contains:
  assumes "id_table bs"
  obtains p where "cs_probe bs i (length bs) (bucket_index bs i) = Some p" and "p < length bs"
    and "bs ! p = i \<or> bs ! p = 0" and "cs_reach bs i p" and "i \<noteq> 0 \<Longrightarrow> bs ! p = i \<longleftrightarrow> i \<in> set bs"
proof -
  obtain k where k: "length bs = 2 ^ k" "card (nonzero bs) < length bs" using assms by (auto simp: id_table_def)
  obtain p where p: "cs_probe bs i (length bs) (bucket_index bs i) = Some p" "p < length bs"
    "bs ! p = i \<or> bs ! p = 0" "cs_reach bs i p" "\<forall>q. cs_reach bs i q \<longrightarrow> bs ! q = i \<longrightarrow> bs ! p = i"
    by (rule probe_stops [OF k, of i i]) blast
  have "bs ! p = i" if i: "i \<noteq> 0" "i \<in> set bs"
  proof -
    obtain q where "q < length bs" "bs ! q = i" using i(2) by (auto simp: in_set_conv_nth)
    then show ?thesis using assms i(1) p(5) by (auto simp: id_table_def nonzero_def)
  qed
  then show thesis using that p nth_mem [OF p(2)] by metis
qed

lemma cs_contains_ok: "cs_inv s \<Longrightarrow> cs_contains i s = Some (i \<in> cs_members s)"
proof -
  assume s: "cs_inv s"
  consider "i = 0" | "i \<noteq> 0" "cs_buckets s = []" | "i \<noteq> 0" "cs_buckets s \<noteq> []" by blast
  then show ?thesis
  proof cases
    case 3
    then have t: "id_table (cs_buckets s)" using s by (simp add: cs_inv_def)
    obtain p where "cs_probe (cs_buckets s) i (length (cs_buckets s)) (bucket_index (cs_buckets s) i) = Some p"
      "cs_buckets s ! p = i \<longleftrightarrow> i \<in> set (cs_buckets s)" by (rule table_contains [OF t, of i]) (use 3(1) in blast)
    then show ?thesis using 3 by (simp add: cs_contains_def cs_members_def)
  qed (simp_all add: cs_contains_def cs_members_def)
qed

lemma filter_nonzero:
  assumes "inj_on ((!) bs) (nonzero bs)"
  shows "length (filter (\<lambda>i. i \<noteq> 0) bs) = card (nonzero bs)" and "distinct (filter (\<lambda>i. i \<noteq> 0) bs)"
proof -
  show len: "length (filter (\<lambda>i. i \<noteq> 0) bs) = card (nonzero bs)" by (simp add: nonzero_def length_filter_conv_card)
  have "set (filter (\<lambda>i. i \<noteq> 0) bs) = (!) bs ` nonzero bs" by (auto simp: nonzero_def in_set_conv_nth)
  then show "distinct (filter (\<lambda>i. i \<noteq> 0) bs)" using len card_image [OF assms] by (intro card_distinct) simp
qed

lemma rehash_loop_fills:
  assumes "id_table (cs_buckets s)" and "distinct (filter (\<lambda>i. i \<noteq> 0) previous)"
    and "set (filter (\<lambda>i. i \<noteq> 0) previous) \<inter> set (cs_buckets s) = {}"
    and "card (nonzero (cs_buckets s)) + length (filter (\<lambda>i. i \<noteq> 0) previous) < length (cs_buckets s)"
  shows "\<exists>s'. cs_rehash_loop previous s = Some s' \<and> id_table (cs_buckets s') \<and> length (cs_buckets s') = length (cs_buckets s) \<and>
    card (nonzero (cs_buckets s')) = card (nonzero (cs_buckets s)) + length (filter (\<lambda>i. i \<noteq> 0) previous) \<and>
    cs_size s' = cs_size s + length (filter (\<lambda>i. i \<noteq> 0) previous) \<and> cs_contains_zero s' = cs_contains_zero s \<and>
    set (cs_buckets s') - {0} = (set (cs_buckets s) \<union> set previous) - {0}"
  using assms
proof (induction previous arbitrary: s)
  case (Cons i previous)
  show ?case
  proof (cases "i = 0")
    case True
    then show ?thesis using Cons by auto
  next
    case False
    let ?bs = "cs_buckets s"
    obtain n where n: "length ?bs = 2 ^ n" "card (nonzero ?bs) < length ?bs" using Cons.prems(1) by (auto simp: id_table_def)
    obtain p where p: "cs_probe ?bs 0 (length ?bs) (bucket_index ?bs i) = Some p" "p < length ?bs" "?bs ! p = 0" "cs_reach ?bs i p"
      by (rule probe_stops [OF n, of 0 i]) blast
    let ?s = "s\<lparr>cs_buckets := ?bs[p := i], cs_size := cs_size s + 1\<rparr>"
    have new: "i \<notin> set ?bs" using Cons.prems(3) False by auto
    have room: "Suc (card (nonzero ?bs)) < length ?bs" using Cons.prems(4) False by simp
    note fill = table_fill [OF Cons.prems(1) p(2-4) False new room]
    have "\<exists>s'. cs_rehash_loop previous ?s = Some s' \<and> id_table (cs_buckets s') \<and> length (cs_buckets s') = length (cs_buckets ?s) \<and>
      card (nonzero (cs_buckets s')) = card (nonzero (cs_buckets ?s)) + length (filter (\<lambda>i. i \<noteq> 0) previous) \<and>
      cs_size s' = cs_size ?s + length (filter (\<lambda>i. i \<noteq> 0) previous) \<and> cs_contains_zero s' = cs_contains_zero ?s \<and>
      set (cs_buckets s') - {0} = (set (cs_buckets ?s) \<union> set previous) - {0}"
    proof (rule Cons.IH)
      show "id_table (cs_buckets ?s)" using fill(1) by simp
      show "distinct (filter (\<lambda>i. i \<noteq> 0) previous)" using Cons.prems(2) False by simp
      have "set (filter (\<lambda>i. i \<noteq> 0) previous) \<inter> (set ?bs - {0}) = {}" "i \<notin> set previous" using Cons.prems(2,3) False by auto
      then have "set (filter (\<lambda>i. i \<noteq> 0) previous) \<inter> (set (?bs[p := i]) - {0}) = {}" using fill(3) by auto
      then show "set (filter (\<lambda>i. i \<noteq> 0) previous) \<inter> set (cs_buckets ?s) = {}" by auto
      show "card (nonzero (cs_buckets ?s)) + length (filter (\<lambda>i. i \<noteq> 0) previous) < length (cs_buckets ?s)"
        using Cons.prems(4) False fill(2) by simp
    qed
    then obtain s' where s': "cs_rehash_loop previous ?s = Some s'" "id_table (cs_buckets s')" "length (cs_buckets s') = length ?bs"
      "card (nonzero (cs_buckets s')) = Suc (card (nonzero ?bs)) + length (filter (\<lambda>i. i \<noteq> 0) previous)"
      "cs_size s' = Suc (cs_size s) + length (filter (\<lambda>i. i \<noteq> 0) previous)" "cs_contains_zero s' = cs_contains_zero s"
      "set (cs_buckets s') - {0} = (set (?bs[p := i]) - {0}) \<union> (set previous - {0})" using fill(2) by auto
    have "set (cs_buckets s') - {0} = (set ?bs \<union> set (i # previous)) - {0}" unfolding s'(7) fill(3) using False by auto
    then show ?thesis using False p(1) s'(1-6) by (intro exI [of _ s']) simp
  qed
qed simp

lemma empty_table: "nonzero (replicate n 0) = {}" "id_table (replicate (2 ^ k) 0)"
proof -
  show n: "nonzero (replicate n 0) = {}" for n by (auto simp: nonzero_def)
  show "id_table (replicate (2 ^ k) 0)" unfolding id_table_def n by auto
qed

lemma cs_rehash_ok:
  assumes "cs_inv s" and "card (nonzero (cs_buckets s)) < 2 ^ k"
  obtains s' where "cs_rehash (2 ^ k) s = Some s'" and "id_table (cs_buckets s')" and "length (cs_buckets s') = 2 ^ k"
    and "card (nonzero (cs_buckets s')) = card (nonzero (cs_buckets s))" and "cs_size s' = cs_size s"
    and "cs_contains_zero s' = cs_contains_zero s" and "cs_members s' = cs_members s"
proof -
  let ?bs = "cs_buckets s"
  let ?s = "s\<lparr>cs_buckets := replicate (2 ^ k) 0, cs_size := (if cs_contains_zero s then 1 else 0)\<rparr>"
  have inj: "inj_on ((!) ?bs) (nonzero ?bs)" using assms(1) by (cases "?bs = []") (auto simp: cs_inv_def id_table_def nonzero_def)
  have "\<exists>s'. cs_rehash_loop ?bs ?s = Some s' \<and> id_table (cs_buckets s') \<and> length (cs_buckets s') = length (cs_buckets ?s) \<and>
    card (nonzero (cs_buckets s')) = card (nonzero (cs_buckets ?s)) + length (filter (\<lambda>i. i \<noteq> 0) ?bs) \<and>
    cs_size s' = cs_size ?s + length (filter (\<lambda>i. i \<noteq> 0) ?bs) \<and> cs_contains_zero s' = cs_contains_zero ?s \<and>
    set (cs_buckets s') - {0} = (set (cs_buckets ?s) \<union> set ?bs) - {0}"
    using filter_nonzero [OF inj] assms(2) empty_table by (intro rehash_loop_fills) auto
  then obtain s' where s': "cs_rehash_loop ?bs ?s = Some s'" "id_table (cs_buckets s')" "length (cs_buckets s') = 2 ^ k"
    "card (nonzero (cs_buckets s')) = card (nonzero ?bs)" "cs_size s' = cs_size ?s + card (nonzero ?bs)"
    "cs_contains_zero s' = cs_contains_zero s" "set (cs_buckets s') - {0} = set ?bs - {0}"
    using filter_nonzero(1) [OF inj] empty_table(1) by auto
  show thesis
    by (rule that [of s']) (use s' assms(1) in \<open>auto simp: cs_rehash_def cs_inv_def cs_members_def\<close>)
qed

lemma bucket_count_power: "\<exists>k. bucket_count_for n = 2 ^ k"
  using grow_capacity_power [of _ 4] by (simp add: bucket_count_for_def)

lemma bucket_count_ge: "2 * n \<le> bucket_count_for n" "16 \<le> bucket_count_for n"
  using grow_capacity_ge [of 16 "if n < 8 then 16 else n * 2"] by (auto simp: bucket_count_for_def split: if_splits)

text \<open>Growing, which \<^verbatim>\<open>insert\<close> and \<^verbatim>\<open>reserve\<close> do, keeps the set and makes room.\<close>

lemma cs_grow_ok:
  assumes "cs_inv s" and "card (nonzero (cs_buckets s)) \<le> n"
  obtains s' where "cs_rehash (bucket_count_for n) s = Some s'" and "cs_inv s'" and "cs_members s' = cs_members s"
    and "cs_buckets s' \<noteq> []" and "length (cs_buckets s') = bucket_count_for n" and "cs_size s' = cs_size s"
proof -
  obtain k where k: "bucket_count_for n = 2 ^ k" using bucket_count_power by blast
  have "card (nonzero (cs_buckets s)) < 2 ^ k" using assms(2) bucket_count_ge [of n] k by linarith
  then obtain s' where s': "cs_rehash (2 ^ k) s = Some s'" "id_table (cs_buckets s')" "length (cs_buckets s') = 2 ^ k"
    "card (nonzero (cs_buckets s')) = card (nonzero (cs_buckets s))" "cs_size s' = cs_size s"
    "cs_contains_zero s' = cs_contains_zero s" "cs_members s' = cs_members s" by (rule cs_rehash_ok [OF assms(1)])
  have "2 * card (nonzero (cs_buckets s)) \<le> 2 ^ k" using assms(2) bucket_count_ge(1) [of n] k by linarith
  then have "cs_inv s'" using assms(1) s' by (simp add: cs_inv_def)
  moreover have "cs_buckets s' \<noteq> []" using s'(3) by auto
  ultimately show thesis using that s' k by metis
qed

lemma cs_insert_room:
  assumes "cs_inv s" and "cs_buckets s \<noteq> []" and "2 * (card (nonzero (cs_buckets s)) + 1) \<le> length (cs_buckets s)" and "i \<noteq> 0"
  obtains p where "cs_probe (cs_buckets s) i (length (cs_buckets s)) (bucket_index (cs_buckets s) i) = Some p"
    and "cs_buckets s ! p = i \<longrightarrow> i \<in> cs_members s"
    and "cs_buckets s ! p \<noteq> i \<longrightarrow> cs_inv (s\<lparr>cs_buckets := (cs_buckets s)[p := i], cs_size := cs_size s + 1\<rparr>) \<and>
      cs_members (s\<lparr>cs_buckets := (cs_buckets s)[p := i], cs_size := cs_size s + 1\<rparr>) = insert i (cs_members s)"
proof -
  let ?bs = "cs_buckets s"
  have t: "id_table ?bs" using assms(1,2) by (simp add: cs_inv_def)
  obtain p where p: "cs_probe ?bs i (length ?bs) (bucket_index ?bs i) = Some p" "p < length ?bs" "?bs ! p = i \<or> ?bs ! p = 0"
    "cs_reach ?bs i p" "?bs ! p = i \<longleftrightarrow> i \<in> set ?bs" by (rule table_contains [OF t, of i]) (use assms(4) in blast)
  have "cs_inv (s\<lparr>cs_buckets := ?bs[p := i], cs_size := cs_size s + 1\<rparr>) \<and>
      cs_members (s\<lparr>cs_buckets := ?bs[p := i], cs_size := cs_size s + 1\<rparr>) = insert i (cs_members s)" if new: "?bs ! p \<noteq> i"
  proof -
    have z: "?bs ! p = 0" "i \<notin> set ?bs" "Suc (card (nonzero ?bs)) < length ?bs" using p(3,5) new assms(3) by auto
    note fill = table_fill [OF t p(2) z(1) p(4) assms(4) z(2,3)]
    show ?thesis using assms(1,3) fill by (simp add: cs_inv_def cs_members_def)
  qed
  then show thesis using that p assms(4) by (auto simp: cs_members_def)
qed

lemma cs_insert_ok:
  assumes "cs_inv s"
  obtains s' where "cs_insert i s = Some s'" and "cs_inv s'" and "cs_members s' = insert i (cs_members s)"
proof (cases "i = 0")
  case True
  show thesis
    by (rule that [of "if \<not> cs_contains_zero s then s\<lparr>cs_contains_zero := True, cs_size := cs_size s + 1\<rparr> else s"])
      (use True assms in \<open>auto simp: cs_insert_def cs_inv_def cs_members_def\<close>)
next
  case False
  have size: "card (nonzero (cs_buckets s)) \<le> cs_size s" using assms by (simp add: cs_inv_def)
  define grown where "grown = (if cs_buckets s = [] \<or> (cs_size s + 1) * 2 \<ge> length (cs_buckets s)
    then cs_rehash (bucket_count_for (cs_size s + 1)) s else Some s)"
  obtain s1 where s1: "grown = Some s1" "cs_inv s1" "cs_members s1 = cs_members s" "cs_buckets s1 \<noteq> []"
    "2 * (card (nonzero (cs_buckets s1)) + 1) \<le> length (cs_buckets s1)"
  proof (cases "cs_buckets s = [] \<or> (cs_size s + 1) * 2 \<ge> length (cs_buckets s)")
    case True
    have "card (nonzero (cs_buckets s)) \<le> cs_size s + 1" using size by simp
    from cs_grow_ok [OF assms this]
    obtain s1 where g: "cs_rehash (bucket_count_for (cs_size s + 1)) s = Some s1" "cs_inv s1" "cs_members s1 = cs_members s"
      "cs_buckets s1 \<noteq> []" "length (cs_buckets s1) = bucket_count_for (cs_size s + 1)" "cs_size s1 = cs_size s" by blast
    have "card (nonzero (cs_buckets s1)) \<le> cs_size s" using g(2,6) by (simp add: cs_inv_def)
    then have "2 * (card (nonzero (cs_buckets s1)) + 1) \<le> length (cs_buckets s1)"
      using bucket_count_ge(1) [of "cs_size s + 1"] g(5) by simp
    then show ?thesis using that g True by (simp add: grown_def)
  next
    case False
    then show ?thesis using that [of s] assms size by (simp add: grown_def)
  qed
  obtain p where p: "cs_probe (cs_buckets s1) i (length (cs_buckets s1)) (bucket_index (cs_buckets s1) i) = Some p"
    "cs_buckets s1 ! p = i \<longrightarrow> i \<in> cs_members s1"
    "cs_buckets s1 ! p \<noteq> i \<longrightarrow> cs_inv (s1\<lparr>cs_buckets := (cs_buckets s1)[p := i], cs_size := cs_size s1 + 1\<rparr>) \<and>
      cs_members (s1\<lparr>cs_buckets := (cs_buckets s1)[p := i], cs_size := cs_size s1 + 1\<rparr>) = insert i (cs_members s1)"
    by (rule cs_insert_room [OF s1(2,4,5) False]) blast
  let ?s = "if cs_buckets s1 ! p = i then s1 else s1\<lparr>cs_buckets := (cs_buckets s1)[p := i], cs_size := cs_size s1 + 1\<rparr>"
  have "cs_insert i s = Some ?s" using False s1(1) p(1) by (simp add: cs_insert_def grown_def)
  moreover have "cs_inv ?s" "cs_members ?s = insert i (cs_members s)" using p(2,3) s1(2,3) by auto
  ultimately show thesis by (rule that)
qed

lemma cs_reserve_ok:
  assumes "cs_inv s"
  obtains s' where "cs_reserve n s = Some s'" and "cs_inv s'" and "cs_members s' = cs_members s"
proof (cases "bucket_count_for n > length (cs_buckets s)")
  case True
  have "2 * card (nonzero (cs_buckets s)) \<le> length (cs_buckets s)" using assms by (simp add: cs_inv_def)
  obtain k where k: "bucket_count_for n = 2 ^ k" using bucket_count_power by blast
  have "card (nonzero (cs_buckets s)) < 2 ^ k" using \<open>2 * _ \<le> _\<close> True k by linarith
  then obtain s' where "cs_rehash (2 ^ k) s = Some s'" "id_table (cs_buckets s')" "length (cs_buckets s') = 2 ^ k"
    "card (nonzero (cs_buckets s')) = card (nonzero (cs_buckets s))" "cs_size s' = cs_size s"
    "cs_contains_zero s' = cs_contains_zero s" "cs_members s' = cs_members s" by (rule cs_rehash_ok [OF assms])
  moreover have "2 * card (nonzero (cs_buckets s)) \<le> 2 ^ k" using \<open>2 * _ \<le> _\<close> True k by linarith
  ultimately show thesis using that [of s'] assms True k by (simp add: cs_reserve_def cs_inv_def)
next
  case False
  then show thesis using that [of s] assms by (simp add: cs_reserve_def)
qed

lemma cs_inv_new: "cs_inv cs_new" "cs_members cs_new = {}"
  by (simp_all add: cs_inv_def cs_new_def nonzero_def cs_members_def)

section \<open>The interface\<close>

text \<open>What the gateway needs of its id set: a well-formed set answers, and grows by what is inserted.\<close>

locale id_set =
  fixes empty :: 's and contains :: "client_order_id \<Rightarrow> 's \<Rightarrow> bool option"
    and insert_id :: "client_order_id \<Rightarrow> 's \<Rightarrow> 's option"
    and good :: "'s \<Rightarrow> bool" and members :: "'s \<Rightarrow> client_order_id set"
  assumes empty_good: "good empty" and empty_members: "members empty = {}"
    and contains_answers: "good s \<Longrightarrow> contains i s = Some (i \<in> members s)"
    and insert_grows: "good s \<Longrightarrow> \<exists>s'. insert_id i s = Some s' \<and> good s' \<and> members s' = insert i (members s)"
begin

lemma insert_Some: "good s \<Longrightarrow> insert_id i s = Some s' \<Longrightarrow> good s' \<and> members s' = insert i (members s)"
  using insert_grows [of s i] by auto

lemma insert_all:
  "good s \<Longrightarrow> \<exists>s'. foldl (\<lambda>t i. Option.bind t (insert_id i)) (Some s) is = Some s' \<and> good s' \<and> members s' = set is \<union> members s"
proof (induction "is" arbitrary: s)
  case (Cons i "is")
  obtain s1 where s1: "insert_id i s = Some s1" "good s1" "members s1 = insert i (members s)"
    using insert_grows [OF Cons.prems] by blast
  then show ?case using Cons.IH [OF s1(2)] by simp
qed simp

lemma contains_all:
  "\<exists>s. foldl (\<lambda>t i. Option.bind t (insert_id i)) (Some empty) is = Some s \<and> contains i s = Some (i \<in> set is)"
  using insert_all [OF empty_good, of "is"] contains_answers by (auto simp: empty_members)

end

interpretation ids: id_set cs_new cs_contains cs_insert cs_inv cs_members
proof
  fix s i
  assume s: "cs_inv s"
  then show "cs_contains i s = Some (i \<in> cs_members s)" by (rule cs_contains_ok)
  show "\<exists>s'. cs_insert i s = Some s' \<and> cs_inv s' \<and> cs_members s' = insert i (cs_members s)"
    by (rule cs_insert_ok [OF s, of i]) blast
qed (simp_all add: cs_inv_new)

text \<open>The open-addressing table is a set: inserting any ids, in any order and with repetitions, ends, and a
  lookup then ends and finds exactly the inserted ids.\<close>

theorem client_order_id_set_is_a_set:
  "\<exists>s. foldl (\<lambda>t i. Option.bind t (cs_insert i)) (Some cs_new) is = Some s \<and> cs_contains i s = Some (i \<in> set is)"
  by (rule ids.contains_all)

end
