(* ===== verification/Risk_Audit.thy ===== *)
theory Risk_Audit
  imports Event_Log Execution_Report
begin

text \<open>
  \<^verbatim>\<open>risk/risk_audit.hpp\<close> and \<^verbatim>\<open>risk/risk_audit.cpp\<close>: the entry recorded for a
  pre-trade decision, the in-memory trail with its running checksum, the text and JSON lines of an audit
  log, and the verification of log files. A file is its characters, \<open>None\<close> when it cannot be opened.
\<close>

section \<open>Entries and results\<close>

record risk_audit_entry =
  ra_timestamp_ns :: timestamp_ns
  ra_client_order_id :: client_order_id
  ra_symbol_id :: symbol_id
  ra_side :: side
  ra_accepted :: bool
  ra_reject_reason :: reject_reason
  ra_check_name :: string
  ra_limit_value :: int
  ra_observed_value :: int

datatype risk_audit_log_format = Alf_Text | Alf_Jsonl

record risk_audit_verification_result =
  av_valid :: bool
  av_files_checked :: nat
  av_entries_checked :: nat
  av_final_checksum :: u64
  av_error :: string

fun audit_format_to_string :: "risk_audit_log_format \<Rightarrow> string" where
  "audit_format_to_string Alf_Text = ''text''"
| "audit_format_to_string Alf_Jsonl = ''jsonl''"

definition audit_checksum :: "u64 \<Rightarrow> risk_audit_entry \<Rightarrow> u64" where
  "audit_checksum seed e =
     (let seed = checksum_append_i64 seed (ra_timestamp_ns e);
          seed = checksum_append_u64 seed (ra_client_order_id e);
          seed = checksum_append_u32 seed (ra_symbol_id e);
          seed = checksum_append_side seed (ra_side e);
          seed = checksum_append_bool seed (ra_accepted e);
          seed = checksum_append_u8 seed (reject_reason_wire (ra_reject_reason e));
          seed = checksum_append_string seed (ra_check_name e);
          seed = checksum_append_i64 seed (ra_limit_value e)
      in checksum_append_i64 seed (ra_observed_value e))"

definition checksum_risk_audit :: "risk_audit_entry list \<Rightarrow> u64" where
  "checksum_risk_audit entries = foldl audit_checksum kFnvOffsetBasis entries"

section \<open>The trail\<close>

record risk_audit_trail =
  at_entries :: "risk_audit_entry list"
  at_checksum :: u64
  at_accepted_count :: nat

definition trail_new :: risk_audit_trail where
  "trail_new = \<lparr>at_entries = [], at_checksum = kFnvOffsetBasis, at_accepted_count = 0\<rparr>"

definition trail_record :: "risk_audit_entry \<Rightarrow> risk_audit_trail \<Rightarrow> risk_audit_trail" where
  "trail_record e t =
     t\<lparr>at_checksum := audit_checksum (at_checksum t) e,
       at_accepted_count := (if ra_accepted e then at_accepted_count t + 1 else at_accepted_count t),
       at_entries := at_entries t @ [e]\<rparr>"

definition trail_clear :: "risk_audit_trail \<Rightarrow> risk_audit_trail" where
  "trail_clear t = t\<lparr>at_entries := [], at_checksum := kFnvOffsetBasis, at_accepted_count := 0\<rparr>"

definition trail_rejected_count :: "risk_audit_trail \<Rightarrow> nat" where
  "trail_rejected_count t = length (at_entries t) - at_accepted_count t"

section \<open>Writing\<close>

definition json_escape :: "char \<Rightarrow> string" where
  "json_escape ch =
     (if ch = CHR 0x5C then [CHR 0x5C, CHR 0x5C]
      else if ch = CHR 0x22 then [CHR 0x5C, CHR 0x22]
      else if ch = CHR 0x0A then [CHR 0x5C, CHR ''n'']
      else if ch = CHR 0x0D then [CHR 0x5C, CHR ''r'']
      else if ch = CHR 0x09 then [CHR 0x5C, CHR ''t''] else [ch])"

definition json_string :: "string \<Rightarrow> string" where
  "json_string value = CHR 0x22 # concat (map json_escape value) @ [CHR 0x22]"

definition bool_text :: "bool \<Rightarrow> string" where
  "bool_text b = (if b then ''true'' else ''false'')"

definition json_key :: "string \<Rightarrow> string" where
  "json_key k = CHR 0x22 # k @ [CHR 0x22, CHR '':'']"

definition format_risk_audit_log_entry :: "risk_audit_entry \<Rightarrow> u64 \<Rightarrow> risk_audit_log_format \<Rightarrow> string" where
  "format_risk_audit_log_entry e trail_checksum fmt =
     (if fmt = Alf_Text
      then ''timestamp_ns='' @ decimal_int (ra_timestamp_ns e) @
           '' client_order_id='' @ decimal_word (ra_client_order_id e) @ '' symbol_id='' @ decimal_word (ra_symbol_id e) @
           '' side='' @ side_to_string (ra_side e) @ '' accepted='' @ bool_text (ra_accepted e) @
           '' reject_reason='' @ reject_reason_to_string (ra_reject_reason e) @
           '' check_name='' @ ra_check_name e @ '' limit_value='' @ decimal_int (ra_limit_value e) @
           '' observed_value='' @ decimal_int (ra_observed_value e) @
           '' checksum='' @ decimal_word trail_checksum @ [CHR 0x0A]
      else ''{'' @ json_key ''timestamp_ns'' @ decimal_int (ra_timestamp_ns e) @
           '','' @ json_key ''client_order_id'' @ decimal_word (ra_client_order_id e) @
           '','' @ json_key ''symbol_id'' @ decimal_word (ra_symbol_id e) @
           '','' @ json_key ''side'' @ json_string (side_to_string (ra_side e)) @
           '','' @ json_key ''accepted'' @ bool_text (ra_accepted e) @
           '','' @ json_key ''reject_reason'' @ json_string (reject_reason_to_string (ra_reject_reason e)) @
           '','' @ json_key ''check_name'' @ json_string (ra_check_name e) @
           '','' @ json_key ''limit_value'' @ decimal_int (ra_limit_value e) @
           '','' @ json_key ''observed_value'' @ decimal_int (ra_observed_value e) @
           '','' @ json_key ''checksum'' @ decimal_word trail_checksum @ ''}'' @ [CHR 0x0A])"

section \<open>Reading\<close>

text \<open>The text behind the first occurrence of a needle, which is what \<^verbatim>\<open>find\<close> plus the needle's size give.\<close>

fun text_after :: "string \<Rightarrow> string \<Rightarrow> string option" where
  "text_after needle [] = (if needle = [] then Some [] else None)"
| "text_after needle (c # cs) =
     (if take (length needle) (c # cs) = needle then Some (drop (length needle) (c # cs)) else text_after needle cs)"

text \<open>The scan for the closing quote, with the flag \<^verbatim>\<open>escaped\<close>.\<close>

fun quoted_value :: "bool \<Rightarrow> string \<Rightarrow> string option" where
  "quoted_value escaped [] = None"
| "quoted_value escaped (ch # cs) =
     (if \<not> escaped \<and> ch = CHR 0x22 then Some []
      else map_option ((#) ch) (quoted_value (\<not> escaped \<and> ch = CHR 0x5C) cs))"

definition json_value_for :: "string \<Rightarrow> string \<Rightarrow> string option" where
  "json_value_for line key = (case text_after (json_key key) line of
       None \<Rightarrow> None
     | Some [] \<Rightarrow> None
     | Some (c # cs) \<Rightarrow> if c = CHR 0x22 then quoted_value False cs
         else Some (takeWhile (\<lambda>ch. ch \<noteq> CHR '','' \<and> ch \<noteq> CHR ''}'') (c # cs)))"

function text_value_for :: "string \<Rightarrow> string \<Rightarrow> string option" where
  "text_value_for line key =
     (if line = [] then None
      else let token = takeWhile (\<lambda>ch. ch \<noteq> CHR '' '') line; rest = dropWhile (\<lambda>ch. ch \<noteq> CHR '' '') line;
               needle = key @ ''=''
           in if take (length needle) token = needle then Some (drop (length needle) token)
              else if rest = [] then None else text_value_for (tl rest) key)"
  by pat_completeness auto
termination
proof (relation "measure (\<lambda>(line, key). length line)", goal_cases)
  case (2 line key token rest needle)
  then have "length rest \<le> length line" "rest \<noteq> []" by (simp_all add: length_dropWhile_le)
  then show ?case by (cases rest) auto
qed simp

declare text_value_for.simps [simp del]

definition parse_side_token :: "string \<Rightarrow> side option" where
  "parse_side_token value =
     (if value = ''Buy'' then Some Buy else if value = ''Sell'' then Some Sell
      else if value = ''None'' then Some NoSide else None)"

definition parse_reject_reason_token :: "string \<Rightarrow> reject_reason option" where
  "parse_reject_reason_token value = map_of
     [(''None'', Rr_None), (''InvalidQuantity'', Rr_InvalidQuantity), (''InvalidPrice'', Rr_InvalidPrice),
      (''DuplicateClientOrderId'', Rr_DuplicateClientOrderId), (''UnknownOrder'', Rr_UnknownOrder),
      (''KillSwitch'', Rr_KillSwitch), (''MaxOrderQuantity'', Rr_MaxOrderQuantity), (''MaxNotional'', Rr_MaxNotional),
      (''MaxPosition'', Rr_MaxPosition), (''MaxGrossExposure'', Rr_MaxGrossExposure), (''PriceBand'', Rr_PriceBand),
      (''StaleMarketData'', Rr_StaleMarketData), (''Unsupported'', Rr_Unsupported), (''InternalError'', Rr_InternalError),
      (''MaxOpenOrderQuantity'', Rr_MaxOpenOrderQuantity), (''MessageRateLimit'', Rr_MessageRateLimit),
      (''SelfTradePrevention'', Rr_SelfTradePrevention), (''Disconnected'', Rr_Disconnected),
      (''MaxPortfolioGrossExposure'', Rr_MaxPortfolioGrossExposure),
      (''MaxPortfolioNetExposure'', Rr_MaxPortfolioNetExposure),
      (''MaxSymbolConcentration'', Rr_MaxSymbolConcentration), (''MaxPortfolioLoss'', Rr_MaxPortfolioLoss)] value"

definition parse_bool_token :: "string \<Rightarrow> bool" where
  "parse_bool_token value \<longleftrightarrow> value = ''true''"

definition audit_value_for :: "risk_audit_log_format \<Rightarrow> string \<Rightarrow> string \<Rightarrow> string option" where
  "audit_value_for fmt line key = (if fmt = Alf_Jsonl then json_value_for line key else text_value_for line key)"

text \<open>\<^verbatim>\<open>assign_integral\<close> for a signed and for an unsigned field.\<close>

definition assign_i64 :: "string option \<Rightarrow> int option" where
  "assign_i64 token = Option.bind token parse_i64"

definition assign_word :: "string option \<Rightarrow> 'a::len word option" where
  "assign_word token = Option.bind token parse_word"

definition parse_audit_entry_line :: "string \<Rightarrow> risk_audit_log_format \<Rightarrow> (risk_audit_entry \<times> u64) option" where
  "parse_audit_entry_line line fmt =
     (let value_for = audit_value_for fmt line in
      Option.bind (assign_i64 (value_for ''timestamp_ns'')) (\<lambda>ts.
      Option.bind (assign_word (value_for ''client_order_id'')) (\<lambda>cid.
      Option.bind (assign_word (value_for ''symbol_id'')) (\<lambda>sy.
      Option.bind (assign_i64 (value_for ''limit_value'')) (\<lambda>limit.
      Option.bind (assign_i64 (value_for ''observed_value'')) (\<lambda>observed.
      Option.bind (assign_word (value_for ''checksum'')) (\<lambda>logged.
      Option.bind (Option.bind (value_for ''side'') parse_side_token) (\<lambda>sd.
      Option.bind (Option.bind (value_for ''reject_reason'') parse_reject_reason_token) (\<lambda>reason.
      Option.bind (value_for ''accepted'') (\<lambda>accepted.
      Option.bind (value_for ''check_name'') (\<lambda>name.
      Some (\<lparr>ra_timestamp_ns = ts, ra_client_order_id = cid, ra_symbol_id = sy, ra_side = sd,
              ra_accepted = parse_bool_token accepted, ra_reject_reason = reason, ra_check_name = name,
              ra_limit_value = limit, ra_observed_value = observed\<rparr>, logged))))))))))))"

section \<open>Verification of log files\<close>

definition verification_started :: risk_audit_verification_result where
  "verification_started = \<lparr>av_valid = True, av_files_checked = 0, av_entries_checked = 0,
     av_final_checksum = kFnvOffsetBasis, av_error = []\<rparr>"

text \<open>The inner loop: \<open>Inl\<close> is an early return, \<open>Inr\<close> goes on with the next file.\<close>

fun verify_lines :: "string \<Rightarrow> risk_audit_log_format \<Rightarrow> nat \<Rightarrow> string list \<Rightarrow> u64 \<times> risk_audit_verification_result
    \<Rightarrow> risk_audit_verification_result + u64 \<times> risk_audit_verification_result" where
  "verify_lines path fmt line_number [] s = Inr s"
| "verify_lines path fmt line_number (line # rest) (checksum, result) =
     (let line_number = line_number + 1 in
      if line = [] then verify_lines path fmt line_number rest (checksum, result)
      else case parse_audit_entry_line line fmt of
          None \<Rightarrow> Inl (result\<lparr>av_valid := False,
            av_error := path @ '':'' @ decimal line_number @ '': malformed audit entry''\<rparr>)
        | Some (entry, logged) \<Rightarrow>
            let checksum = audit_checksum checksum entry;
                result = result\<lparr>av_entries_checked := av_entries_checked result + 1\<rparr>
            in if checksum \<noteq> logged
               then Inl (result\<lparr>av_valid := False, av_final_checksum := checksum,
                 av_error := path @ '':'' @ decimal line_number @ '': checksum mismatch, expected '' @
                   decimal_word checksum @ '', received '' @ decimal_word logged\<rparr>)
               else verify_lines path fmt line_number rest (checksum, result))"

fun verify_files :: "risk_audit_log_format \<Rightarrow> (string \<times> string option) list \<Rightarrow> u64 \<times> risk_audit_verification_result
    \<Rightarrow> risk_audit_verification_result" where
  "verify_files fmt [] (checksum, result) = result\<lparr>av_final_checksum := checksum\<rparr>"
| "verify_files fmt ((path, contents) # files) (checksum, result) = (case contents of
       None \<Rightarrow> result\<lparr>av_valid := False, av_error := ''unable to open audit log: '' @ path\<rparr>
     | Some s \<Rightarrow> (case verify_lines path fmt 0 (text_lines s)
           (checksum, result\<lparr>av_files_checked := av_files_checked result + 1\<rparr>) of
         Inl failed \<Rightarrow> failed
       | Inr state \<Rightarrow> verify_files fmt files state))"

definition verify_risk_audit_logs :: "(string \<times> string option) list \<Rightarrow> risk_audit_log_format \<Rightarrow> risk_audit_verification_result" where
  "verify_risk_audit_logs files fmt = verify_files fmt files (kFnvOffsetBasis, verification_started)"

end
