(* ===== verification/Risk_Gateway.thy ===== *)
theory Risk_Gateway
  imports Client_Order_Id_Set Risk_Audit
begin

text \<open>
  \<^verbatim>\<open>risk/limits.hpp\<close>, \<^verbatim>\<open>risk/kill_switch.hpp\<close>, \<^verbatim>\<open>risk/risk_gateway.hpp\<close>
  and \<^verbatim>\<open>risk/risk_gateway.cpp\<close>: the pre-trade risk gateway. Its unordered maps are association
  lists with distinct keys, the two price maps of a client's working book are ordered association lists.
  The audit log writes to files; the record \<open>audit_log\<close> carries their contents and, as its environment,
  which paths can be opened.
\<close>

section \<open>Limits\<close>

datatype rate_limit_mode = Rl_FixedWindow | Rl_SlidingWindow
datatype disconnect_order_policy = Dp_RejectNewOrders | Dp_AllowNewOrders

fun rate_limit_mode_to_string :: "rate_limit_mode \<Rightarrow> string" where
  "rate_limit_mode_to_string Rl_FixedWindow = ''fixed-window''"
| "rate_limit_mode_to_string Rl_SlidingWindow = ''sliding-window''"

fun disconnect_policy_to_string :: "disconnect_order_policy \<Rightarrow> string" where
  "disconnect_policy_to_string Dp_RejectNewOrders = ''reject-new-orders''"
| "disconnect_policy_to_string Dp_AllowNewOrders = ''allow-new-orders''"

record risk_limits =
  rl_max_order_quantity :: quantity
  rl_max_notional_ticks :: int
  rl_max_position_per_symbol :: quantity
  rl_max_gross_exposure_ticks :: int
  rl_price_band_ticks :: price_ticks
  rl_stale_after_ns :: timestamp_ns
  rl_max_open_order_quantity :: quantity
  rl_max_messages_per_window :: u32
  rl_rate_window_ns :: timestamp_ns
  rl_enable_self_trade_prevention :: bool
  rl_rate_limit_mode :: rate_limit_mode
  rl_cancel_on_disconnect :: bool
  rl_disconnect_order_policy :: disconnect_order_policy

definition default_limits :: risk_limits where
  "default_limits = \<lparr>rl_max_order_quantity = 1000, rl_max_notional_ticks = 1000000, rl_max_position_per_symbol = 10000,
     rl_max_gross_exposure_ticks = 10000000, rl_price_band_ticks = 100, rl_stale_after_ns = 1000000000,
     rl_max_open_order_quantity = 0, rl_max_messages_per_window = 0, rl_rate_window_ns = 0,
     rl_enable_self_trade_prevention = False, rl_rate_limit_mode = Rl_FixedWindow, rl_cancel_on_disconnect = False,
     rl_disconnect_order_policy = Dp_RejectNewOrders\<rparr>"

section \<open>State\<close>

record risk_result =
  rk_accepted :: bool
  rk_reject_reason :: reject_reason

record market_state =
  ms_reference_price_ticks :: price_ticks
  ms_last_timestamp_ns :: timestamp_ns

record working_order =
  wo_client_id :: client_id
  wo_symbol_id :: symbol_id
  wo_side :: side
  wo_price_ticks :: price_ticks
  wo_quantity :: quantity
  wo_exchange_order_id :: order_id

record client_working_book =
  cb_buy_qty_by_price :: "(price_ticks \<times> quantity) list"
  cb_sell_qty_by_price :: "(price_ticks \<times> quantity) list"

record rate_state =
  rs_window_start_ns :: timestamp_ns
  rs_count :: u32
  rs_active :: bool
  rs_sliding_timestamps :: "timestamp_ns list"

definition blank_rate_state :: rate_state where
  "blank_rate_state = \<lparr>rs_window_start_ns = 0, rs_count = 0, rs_active = False, rs_sliding_timestamps = []\<rparr>"

record audit_log =
  al_is_open :: bool
  al_path :: string
  al_base_path :: string
  al_paths :: "string list"
  al_format :: risk_audit_log_format
  al_record_count :: nat
  al_bytes :: nat
  al_index :: nat
  al_max_records_per_file :: nat
  al_max_bytes_per_file :: nat
  al_files :: "(string \<times> string) list"
  al_openable :: "string \<Rightarrow> bool"

record risk_gateway =
  rg_limits :: risk_limits
  rg_kill_switch :: bool
  rg_accepted_client_order_ids :: client_order_id_set
  rg_market_state :: "(symbol_id \<times> market_state) list"
  rg_positions :: "(symbol_id \<times> quantity) list"
  rg_working_quantity :: "(symbol_id \<times> quantity) list"
  rg_working_orders :: "(client_order_id \<times> working_order) list"
  rg_exchange_to_client_order_ids :: "(order_id \<times> client_order_id) list"
  rg_client_books :: "(u64 \<times> client_working_book) list"
  rg_rate_states :: "(client_id \<times> rate_state) list"
  rg_audit :: risk_audit_trail
  rg_audit_log :: audit_log
  rg_disconnect_count :: nat
  rg_disconnect_cancel_count :: nat
  rg_record_audit :: bool
  rg_connected :: bool

definition rg_new :: "risk_limits \<Rightarrow> (string \<times> string) list \<Rightarrow> (string \<Rightarrow> bool) \<Rightarrow> risk_gateway" where
  "rg_new limits files openable = \<lparr>rg_limits = limits, rg_kill_switch = False, rg_accepted_client_order_ids = cs_new,
     rg_market_state = [], rg_positions = [], rg_working_quantity = [], rg_working_orders = [],
     rg_exchange_to_client_order_ids = [], rg_client_books = [], rg_rate_states = [], rg_audit = trail_new,
     rg_audit_log = \<lparr>al_is_open = False, al_path = [], al_base_path = [], al_paths = [], al_format = Alf_Jsonl,
       al_record_count = 0, al_bytes = 0, al_index = 0, al_max_records_per_file = 0, al_max_bytes_per_file = 0,
       al_files = files, al_openable = openable\<rparr>,
     rg_disconnect_count = 0, rg_disconnect_cancel_count = 0, rg_record_audit = False, rg_connected = True\<rparr>"

text \<open>The set's answers; that they are never the endless loop is \<open>id_set\<close>'s business.\<close>

definition id_accepted :: "client_order_id \<Rightarrow> risk_gateway \<Rightarrow> bool" where
  "id_accepted i g \<longleftrightarrow> cs_contains i (rg_accepted_client_order_ids g) = Some True"

definition accept_id :: "client_order_id \<Rightarrow> risk_gateway \<Rightarrow> risk_gateway" where
  "accept_id i g = g\<lparr>rg_accepted_client_order_ids := (case cs_insert i (rg_accepted_client_order_ids g) of
       Some s \<Rightarrow> s | None \<Rightarrow> rg_accepted_client_order_ids g)\<rparr>"

section \<open>The audit log\<close>

text \<open>The parts of a POSIX path that \<^verbatim>\<open>std::filesystem::path\<close> gives.\<close>

definition path_file_name :: "string \<Rightarrow> string" where
  "path_file_name p = rev (takeWhile (\<lambda>c. c \<noteq> CHR ''/'') (rev p))"

definition path_parent :: "string \<Rightarrow> string" where
  "path_parent p =
     (let dir = take (length p - length (path_file_name p)) p;
          trimmed = rev (dropWhile (\<lambda>c. c = CHR ''/'') (rev dir))
      in if trimmed = [] then dir else trimmed)"

definition path_suffix :: "string \<Rightarrow> string" where
  "path_suffix p =
     (let name = path_file_name p; after_dot = takeWhile (\<lambda>c. c \<noteq> CHR ''.'') (rev name)
      in if name = ''.'' \<or> name = ''..'' \<or> length after_dot + 1 \<ge> length name then []
         else CHR ''.'' # rev after_dot)"

definition path_stem :: "string \<Rightarrow> string" where
  "path_stem p = take (length (path_file_name p) - length (path_suffix p)) (path_file_name p)"

definition path_join :: "string \<Rightarrow> string \<Rightarrow> string" where
  "path_join parent name = (if parent = [] then name
     else if last parent = CHR ''/'' then parent @ name else parent @ CHR ''/'' # name)"

definition rotated_audit_log_path :: "nat \<Rightarrow> audit_log \<Rightarrow> string" where
  "rotated_audit_log_path index log =
     (if index = 0 then al_base_path log
      else path_join (path_parent (al_base_path log))
        (path_stem (al_base_path log) @ ''.'' @ decimal index @ path_suffix (al_base_path log)))"

definition file_text :: "string \<Rightarrow> audit_log \<Rightarrow> string" where
  "file_text path log = (case map_of (al_files log) path of None \<Rightarrow> [] | Some s \<Rightarrow> s)"

text \<open>\<^verbatim>\<open>ofstream::open\<close> for appending, and a write to the open stream.\<close>

definition log_open :: "string \<Rightarrow> audit_log \<Rightarrow> audit_log" where
  "log_open path log = (if al_openable log path
     then log\<lparr>al_is_open := True, al_path := path, al_files := AList.update path (file_text path log) (al_files log)\<rparr>
     else log\<lparr>al_is_open := False\<rparr>)"

definition log_write :: "string \<Rightarrow> audit_log \<Rightarrow> audit_log" where
  "log_write s log = (if al_is_open log
     then log\<lparr>al_files := AList.update (al_path log) (file_text (al_path log) log @ s) (al_files log)\<rparr> else log)"

definition rotate_audit_log :: "audit_log \<Rightarrow> audit_log" where
  "rotate_audit_log log =
     (let log = log\<lparr>al_is_open := False, al_index := al_index log + 1\<rparr>;
          next_path = rotated_audit_log_path (al_index log) log;
          log = log_open next_path log
      in log\<lparr>al_paths := al_paths log @ [next_path], al_record_count := 0, al_bytes := 0\<rparr>)"

definition append_audit_log_entry :: "risk_audit_entry \<Rightarrow> u64 \<Rightarrow> audit_log \<Rightarrow> audit_log" where
  "append_audit_log_entry entry checksum log =
     (let line = format_risk_audit_log_entry entry checksum (al_format log);
          rotate_by_record = al_max_records_per_file log > 0 \<and> al_record_count log \<ge> al_max_records_per_file log;
          rotate_by_size = al_max_bytes_per_file log > 0 \<and> al_bytes log > 0 \<and>
            al_bytes log + length line > al_max_bytes_per_file log;
          log = (if rotate_by_record \<or> rotate_by_size then rotate_audit_log log else log);
          log = log_write line log
      in log\<lparr>al_record_count := al_record_count log + 1, al_bytes := al_bytes log + length line\<rparr>)"

definition record_audit_entry :: "risk_audit_entry \<Rightarrow> risk_gateway \<Rightarrow> risk_gateway" where
  "record_audit_entry entry g =
     (let g = g\<lparr>rg_audit := trail_record entry (rg_audit g)\<rparr>
      in if al_is_open (rg_audit_log g)
         then g\<lparr>rg_audit_log := append_audit_log_entry (last (at_entries (rg_audit g))) (at_checksum (rg_audit g)) (rg_audit_log g)\<rparr>
         else g)"

definition close_audit_log :: "risk_gateway \<Rightarrow> risk_gateway" where
  "close_audit_log g = g\<lparr>rg_audit_log := (rg_audit_log g)\<lparr>al_is_open := False\<rparr>\<rparr>"

definition open_rotating_audit_log :: "string \<Rightarrow> risk_audit_log_format \<Rightarrow> nat \<Rightarrow> nat \<Rightarrow> risk_gateway \<Rightarrow> bool \<times> risk_gateway" where
  "open_rotating_audit_log path fmt max_records max_bytes g =
     (let g = close_audit_log g;
          log = (rg_audit_log g)\<lparr>al_format := fmt, al_base_path := path, al_paths := [], al_index := 0, al_record_count := 0,
            al_bytes := 0, al_max_records_per_file := max_records, al_max_bytes_per_file := max_bytes\<rparr>;
          log = log_open path log
      in if \<not> al_is_open log then (False, g\<lparr>rg_audit_log := log\<rparr>)
         else (True, g\<lparr>rg_audit_log := log\<lparr>al_paths := al_paths log @ [path], al_bytes := length (file_text path log)\<rparr>,
                       rg_record_audit := True\<rparr>))"

definition open_audit_log :: "string \<Rightarrow> risk_audit_log_format \<Rightarrow> risk_gateway \<Rightarrow> bool \<times> risk_gateway" where
  "open_audit_log path fmt g = open_rotating_audit_log path fmt 0 0 g"

section \<open>Working orders\<close>

definition rg_position :: "symbol_id \<Rightarrow> risk_gateway \<Rightarrow> quantity" where
  "rg_position sy g = (case map_of (rg_positions g) sy of None \<Rightarrow> 0 | Some q \<Rightarrow> q)"

definition working_quantity :: "symbol_id \<Rightarrow> risk_gateway \<Rightarrow> quantity" where
  "working_quantity sy g = (case map_of (rg_working_quantity g) sy of None \<Rightarrow> 0 | Some q \<Rightarrow> q)"

definition tracks_working_orders :: "risk_gateway \<Rightarrow> bool" where
  "tracks_working_orders g \<longleftrightarrow> rl_max_open_order_quantity (rg_limits g) > 0 \<or> rl_enable_self_trade_prevention (rg_limits g)"

definition client_symbol_key :: "client_id \<Rightarrow> symbol_id \<Rightarrow> u64" where
  "client_symbol_key cl sy = push_bit 32 (ucast cl) OR ucast sy"

text \<open>\<^verbatim>\<open>map[price] += quantity\<close>, and the subtraction that erases a price with nothing left.\<close>

definition add_at_price :: "(price_ticks \<Rightarrow> price_ticks \<Rightarrow> bool) \<Rightarrow> price_ticks \<Rightarrow> quantity \<Rightarrow> (price_ticks \<times> quantity) list \<Rightarrow> (price_ticks \<times> quantity) list" where
  "add_at_price lt price qty m = om_modify price (\<lambda>q. q + qty) (om_try_emplace lt price 0 m)"

definition take_at_price :: "price_ticks \<Rightarrow> quantity \<Rightarrow> (price_ticks \<times> quantity) list \<Rightarrow> (price_ticks \<times> quantity) list" where
  "take_at_price price qty m = (case map_of m price of
       None \<Rightarrow> m
     | Some q \<Rightarrow> if q - qty \<le> 0 then om_erase price m else om_modify price (\<lambda>q. q - qty) m)"

definition client_book :: "u64 \<Rightarrow> risk_gateway \<Rightarrow> client_working_book" where
  "client_book key g = (case map_of (rg_client_books g) key of
       None \<Rightarrow> \<lparr>cb_buy_qty_by_price = [], cb_sell_qty_by_price = []\<rparr> | Some b \<Rightarrow> b)"

definition add_working_order_quantity :: "working_order \<Rightarrow> quantity \<Rightarrow> risk_gateway \<Rightarrow> risk_gateway" where
  "add_working_order_quantity wo add_quantity g =
     (if add_quantity \<le> 0 then g
      else let g = g\<lparr>rg_working_quantity := AList.update (wo_symbol_id wo)
                       (working_quantity (wo_symbol_id wo) g + add_quantity) (rg_working_quantity g)\<rparr>
      in if rl_enable_self_trade_prevention (rg_limits g)
         then let key = client_symbol_key (wo_client_id wo) (wo_symbol_id wo); book = client_book key g;
                  book = (if wo_side wo = Buy
                    then book\<lparr>cb_buy_qty_by_price := add_at_price (>) (wo_price_ticks wo) add_quantity (cb_buy_qty_by_price book)\<rparr>
                    else if wo_side wo = Sell
                    then book\<lparr>cb_sell_qty_by_price := add_at_price (<) (wo_price_ticks wo) add_quantity (cb_sell_qty_by_price book)\<rparr>
                    else book)
              in g\<lparr>rg_client_books := AList.update key book (rg_client_books g)\<rparr>
         else g)"

text \<open>The two halves of \<open>release_working_order_quantity\<close>: the symbol's total and the client's book.\<close>

definition release_symbol_quantity :: "symbol_id \<Rightarrow> quantity \<Rightarrow> risk_gateway \<Rightarrow> risk_gateway" where
  "release_symbol_quantity sy qty g = (case map_of (rg_working_quantity g) sy of
       None \<Rightarrow> g
     | Some q \<Rightarrow> g\<lparr>rg_working_quantity := (if q - qty \<le> 0 then AList.delete sy (rg_working_quantity g)
                    else AList.update sy (q - qty) (rg_working_quantity g))\<rparr>)"

definition release_book_quantity :: "working_order \<Rightarrow> quantity \<Rightarrow> risk_gateway \<Rightarrow> risk_gateway" where
  "release_book_quantity wo qty g =
     (let key = client_symbol_key (wo_client_id wo) (wo_symbol_id wo) in
      case map_of (rg_client_books g) key of
        None \<Rightarrow> g
      | Some book \<Rightarrow>
          let book = (if wo_side wo = Buy
                then book\<lparr>cb_buy_qty_by_price := take_at_price (wo_price_ticks wo) qty (cb_buy_qty_by_price book)\<rparr>
                else if wo_side wo = Sell
                then book\<lparr>cb_sell_qty_by_price := take_at_price (wo_price_ticks wo) qty (cb_sell_qty_by_price book)\<rparr>
                else book)
          in g\<lparr>rg_client_books := (if cb_buy_qty_by_price book = [] \<and> cb_sell_qty_by_price book = []
                 then AList.delete key (rg_client_books g) else AList.update key book (rg_client_books g))\<rparr>)"

definition release_working_order_quantity :: "working_order \<Rightarrow> quantity \<Rightarrow> risk_gateway \<Rightarrow> risk_gateway" where
  "release_working_order_quantity wo release_quantity g =
     (if release_quantity \<le> 0 \<or> wo_quantity wo \<le> 0 then g
      else let qty = min release_quantity (wo_quantity wo)
           in release_book_quantity wo qty (release_symbol_quantity (wo_symbol_id wo) qty g))"

definition register_working_order :: "new_order_request \<Rightarrow> risk_gateway \<Rightarrow> risk_gateway" where
  "register_working_order r g =
     (if nr_order_type r \<noteq> Ot_Limit \<or> nr_time_in_force r \<noteq> Tif_Gtc then g
      else let wo = \<lparr>wo_client_id = nr_client_id r, wo_symbol_id = nr_symbol_id r, wo_side = nr_side r,
                     wo_price_ticks = nr_price_ticks r, wo_quantity = nr_quantity r, wo_exchange_order_id = kInvalidOrderId\<rparr>
           in add_working_order_quantity wo (wo_quantity wo)
                (g\<lparr>rg_working_orders := AList.update (nr_client_order_id r) wo (rg_working_orders g)\<rparr>))"

definition release_order :: "client_order_id \<Rightarrow> risk_gateway \<Rightarrow> risk_gateway" where
  "release_order cid g = (case map_of (rg_working_orders g) cid of
       None \<Rightarrow> g
     | Some wo \<Rightarrow>
         let g = release_working_order_quantity wo (wo_quantity wo) g;
             g = (if wo_exchange_order_id wo \<noteq> kInvalidOrderId
                  then g\<lparr>rg_exchange_to_client_order_ids := AList.delete (wo_exchange_order_id wo) (rg_exchange_to_client_order_ids g)\<rparr>
                  else g)
         in g\<lparr>rg_working_orders := AList.delete cid (rg_working_orders g)\<rparr>)"

text \<open>\<^verbatim>\<open>find_working_order_by_exchange\<close>: the client order id that leads to the order.\<close>

definition find_working_order_by_exchange :: "order_id \<Rightarrow> risk_gateway \<Rightarrow> client_order_id option" where
  "find_working_order_by_exchange i g =
     (if i = kInvalidOrderId then None
      else case map_of (rg_exchange_to_client_order_ids g) i of
          None \<Rightarrow> None
        | Some cid \<Rightarrow> if map_of (rg_working_orders g) cid = None then None else Some cid)"

definition bind_exchange_order_id :: "client_order_id \<Rightarrow> order_id \<Rightarrow> risk_gateway \<Rightarrow> risk_gateway" where
  "bind_exchange_order_id cid i g =
     (let wo = the (map_of (rg_working_orders g) cid) in
      if i = kInvalidOrderId \<or> wo_exchange_order_id wo = i then g
      else let g = (if wo_exchange_order_id wo \<noteq> kInvalidOrderId
                    then g\<lparr>rg_exchange_to_client_order_ids := AList.delete (wo_exchange_order_id wo) (rg_exchange_to_client_order_ids g)\<rparr>
                    else g)
           in g\<lparr>rg_working_orders := AList.update cid (wo\<lparr>wo_exchange_order_id := i\<rparr>) (rg_working_orders g),
                rg_exchange_to_client_order_ids := AList.update i cid (rg_exchange_to_client_order_ids g)\<rparr>)"

text \<open>Giving a working order a new price and quantity, as reports and replaces do.\<close>

definition change_working_order :: "client_order_id \<Rightarrow> price_ticks \<Rightarrow> quantity \<Rightarrow> risk_gateway \<Rightarrow> risk_gateway" where
  "change_working_order cid price qty g =
     (let previous = the (map_of (rg_working_orders g) cid);
          g = release_working_order_quantity previous (wo_quantity previous) g;
          wo = previous\<lparr>wo_price_ticks := price, wo_quantity := qty\<rparr>;
          g = g\<lparr>rg_working_orders := AList.update cid wo (rg_working_orders g)\<rparr>
      in add_working_order_quantity wo (wo_quantity wo) g)"

definition upsert_working_order_from_report :: "execution_report \<Rightarrow> risk_gateway \<Rightarrow> risk_gateway" where
  "upsert_working_order_from_report report g =
     (let key = (if map_of (rg_working_orders g) (er_client_order_id report) \<noteq> None then Some (er_client_order_id report)
                 else find_working_order_by_exchange (er_exchange_order_id report) g)
      in case key of None \<Rightarrow> g
      | Some cid \<Rightarrow>
          if er_exec_type report = Et_Rejected \<or> er_order_status report = Os_Rejected \<or> er_order_status report = Os_Canceled \<or>
             er_order_status report = Os_Filled \<or> er_remaining_quantity report \<le> 0
          then release_order (er_client_order_id report) g
          else let g = bind_exchange_order_id cid (er_exchange_order_id report) g;
                   wo = the (map_of (rg_working_orders g) cid);
                   new_price = (if er_resting_price_ticks report > 0 then er_resting_price_ticks report else wo_price_ticks wo);
                   new_quantity = er_remaining_quantity report
               in if \<not> (wo_quantity wo \<noteq> new_quantity \<or> wo_price_ticks wo \<noteq> new_price) then g
                  else change_working_order cid new_price new_quantity g)"

definition on_execution_report :: "execution_report \<Rightarrow> risk_gateway \<Rightarrow> risk_gateway" where
  "on_execution_report report g =
     (if er_client_order_id report = kInvalidClientOrderId then g else upsert_working_order_from_report report g)"

definition on_execution_reports :: "execution_report list \<Rightarrow> risk_gateway \<Rightarrow> risk_gateway" where
  "on_execution_reports reports g = fold on_execution_report reports g"

definition cancel_all_working_orders :: "timestamp_ns \<Rightarrow> reject_reason \<Rightarrow> string \<Rightarrow> risk_gateway \<Rightarrow> risk_gateway" where
  "cancel_all_working_orders ts reason check_name g =
     (let g = (if rg_record_audit g
           then fold (\<lambda>(cid, wo) g.
               let g = record_audit_entry \<lparr>ra_timestamp_ns = ts, ra_client_order_id = cid, ra_symbol_id = wo_symbol_id wo,
                     ra_side = wo_side wo, ra_accepted = False, ra_reject_reason = reason, ra_check_name = check_name,
                     ra_limit_value = 0, ra_observed_value = wo_quantity wo\<rparr> g
               in if reason = Rr_Disconnected then g\<lparr>rg_disconnect_cancel_count := rg_disconnect_cancel_count g + 1\<rparr> else g)
             (rg_working_orders g) g
           else if reason = Rr_Disconnected
           then g\<lparr>rg_disconnect_cancel_count := rg_disconnect_cancel_count g + length (rg_working_orders g)\<rparr> else g)
      in g\<lparr>rg_working_quantity := [], rg_working_orders := [], rg_exchange_to_client_order_ids := [], rg_client_books := []\<rparr>)"

section \<open>Switches and inputs\<close>

definition enable_kill_switch :: "timestamp_ns \<Rightarrow> risk_gateway \<Rightarrow> risk_gateway" where
  "enable_kill_switch ts g = cancel_all_working_orders ts Rr_KillSwitch ''kill_switch_cancel'' (g\<lparr>rg_kill_switch := True\<rparr>)"

definition disable_kill_switch :: "risk_gateway \<Rightarrow> risk_gateway" where
  "disable_kill_switch g = g\<lparr>rg_kill_switch := False\<rparr>"

definition on_disconnect :: "timestamp_ns \<Rightarrow> risk_gateway \<Rightarrow> risk_gateway" where
  "on_disconnect ts g =
     (if \<not> rg_connected g then g
      else let g = g\<lparr>rg_connected := False, rg_disconnect_count := rg_disconnect_count g + 1\<rparr>
           in if rl_cancel_on_disconnect (rg_limits g)
              then cancel_all_working_orders ts Rr_Disconnected ''disconnect_cancel'' g else g)"

definition on_reconnect :: "risk_gateway \<Rightarrow> risk_gateway" where
  "on_reconnect g = g\<lparr>rg_connected := True\<rparr>"

definition on_market_data :: "symbol_id \<Rightarrow> price_ticks \<Rightarrow> timestamp_ns \<Rightarrow> risk_gateway \<Rightarrow> risk_gateway" where
  "on_market_data sy price ts g = g\<lparr>rg_market_state := AList.update sy
     \<lparr>ms_reference_price_ticks = price, ms_last_timestamp_ns = ts\<rparr> (rg_market_state g)\<rparr>"

definition set_position :: "symbol_id \<Rightarrow> quantity \<Rightarrow> risk_gateway \<Rightarrow> risk_gateway" where
  "set_position sy q g = g\<lparr>rg_positions := AList.update sy q (rg_positions g)\<rparr>"

text \<open>Reserving capacity shows in the id table only.\<close>

definition reserve_hot_path_capacity :: "nat \<Rightarrow> risk_gateway \<Rightarrow> risk_gateway" where
  "reserve_hot_path_capacity n g = g\<lparr>rg_accepted_client_order_ids :=
     (case cs_reserve n (rg_accepted_client_order_ids g) of Some s \<Rightarrow> s | None \<Rightarrow> rg_accepted_client_order_ids g)\<rparr>"

definition set_limits :: "risk_limits \<Rightarrow> risk_gateway \<Rightarrow> risk_gateway" where
  "set_limits limits g = g\<lparr>rg_limits := limits\<rparr>"

definition set_audit_enabled :: "bool \<Rightarrow> risk_gateway \<Rightarrow> risk_gateway" where
  "set_audit_enabled b g = g\<lparr>rg_record_audit := b\<rparr>"

definition clear_audit :: "risk_gateway \<Rightarrow> risk_gateway" where
  "clear_audit g = g\<lparr>rg_audit := trail_clear (rg_audit g)\<rparr>"

record risk_exposure_snapshot =
  es_positions :: "(symbol_id \<times> quantity) list"
  es_working_quantity :: "(symbol_id \<times> quantity) list"
  es_working_order_count :: nat
  es_kill_switch_enabled :: bool
  es_connected :: bool
  es_disconnect_count :: nat
  es_disconnect_cancel_count :: nat
  es_rate_limit_mode :: rate_limit_mode
  es_disconnect_order_policy :: disconnect_order_policy
  es_audit_entry_count :: nat
  es_audit_checksum :: u64

definition exposure_snapshot :: "risk_gateway \<Rightarrow> risk_exposure_snapshot" where
  "exposure_snapshot g = \<lparr>es_positions = rg_positions g, es_working_quantity = rg_working_quantity g,
     es_working_order_count = length (rg_working_orders g), es_kill_switch_enabled = rg_kill_switch g,
     es_connected = rg_connected g, es_disconnect_count = rg_disconnect_count g,
     es_disconnect_cancel_count = rg_disconnect_cancel_count g, es_rate_limit_mode = rl_rate_limit_mode (rg_limits g),
     es_disconnect_order_policy = rl_disconnect_order_policy (rg_limits g),
     es_audit_entry_count = length (at_entries (rg_audit g)), es_audit_checksum = at_checksum (rg_audit g)\<rparr>"

end
