(* ===== verification/Risk_Checks.thy ===== *)
theory Risk_Checks
  imports Risk_Gateway
begin

text \<open>
  The decisions of \<^verbatim>\<open>risk/risk_gateway.cpp\<close>: message rates, self-trade prevention, notional and
  exposure, \<^verbatim>\<open>check_new_order\<close> and \<^verbatim>\<open>check_replace_order\<close>. The tests between the rate
  limit and the acceptance only read the gateway; they are a function that gives the first failing test with
  its reason, limit and observed value.
\<close>

type_synonym verdict = "(string \<times> reject_reason \<times> int \<times> int) option"

section \<open>Decisions\<close>

definition decide_entry :: "timestamp_ns \<Rightarrow> client_order_id \<Rightarrow> symbol_id \<Rightarrow> side \<Rightarrow> string \<Rightarrow> bool \<Rightarrow> reject_reason \<Rightarrow> int \<Rightarrow> int
    \<Rightarrow> risk_gateway \<Rightarrow> risk_result \<times> risk_gateway" where
  "decide_entry now cid sy sd check_name accepted reason limit_value observed_value g =
     (\<lparr>rk_accepted = accepted, rk_reject_reason = reason\<rparr>,
      if rg_record_audit g
      then record_audit_entry \<lparr>ra_timestamp_ns = now, ra_client_order_id = cid, ra_symbol_id = sy, ra_side = sd,
             ra_accepted = accepted, ra_reject_reason = reason, ra_check_name = check_name,
             ra_limit_value = limit_value, ra_observed_value = observed_value\<rparr> g
      else g)"

definition decide_request :: "new_order_request \<Rightarrow> timestamp_ns \<Rightarrow> string \<Rightarrow> bool \<Rightarrow> reject_reason \<Rightarrow> int \<Rightarrow> int
    \<Rightarrow> risk_gateway \<Rightarrow> risk_result \<times> risk_gateway" where
  "decide_request r now check_name accepted reason limit_value observed_value g =
     decide_entry now (nr_client_order_id r) (nr_symbol_id r) (nr_side r) check_name accepted reason limit_value observed_value g"

section \<open>The tests\<close>

text \<open>\<^verbatim>\<open>rate_limit_allows\<close>: the answer, the observed value, the gateway.\<close>

definition rate_limit_allows :: "new_order_request \<Rightarrow> timestamp_ns \<Rightarrow> risk_gateway \<Rightarrow> bool \<times> int \<times> risk_gateway" where
  "rate_limit_allows r now g =
     (let l = rg_limits g in
      if rl_max_messages_per_window l = 0 \<or> rl_rate_window_ns l \<le> 0 then (True, 0, g)
      else let st = (case map_of (rg_rate_states g) (nr_client_id r) of None \<Rightarrow> blank_rate_state | Some st \<Rightarrow> st) in
      if rl_rate_limit_mode l = Rl_SlidingWindow
      then let timestamps = dropWhile (\<lambda>t. now - t \<ge> rl_rate_window_ns l) (rs_sliding_timestamps st) @ [now];
               st = st\<lparr>rs_sliding_timestamps := timestamps\<rparr>
           in (length timestamps \<le> unat (rl_max_messages_per_window l), int (length timestamps),
               g\<lparr>rg_rate_states := AList.update (nr_client_id r) st (rg_rate_states g)\<rparr>)
      else let st = (if \<not> rs_active st \<or> now - rs_window_start_ns st \<ge> rl_rate_window_ns l
                     then st\<lparr>rs_window_start_ns := now, rs_count := 0, rs_active := True\<rparr> else st);
               st = st\<lparr>rs_count := rs_count st + 1\<rparr>
           in (rs_count st \<le> rl_max_messages_per_window l, int (unat (rs_count st)),
               g\<lparr>rg_rate_states := AList.update (nr_client_id r) st (rg_rate_states g)\<rparr>))"

definition self_trade_check_allows :: "new_order_request \<Rightarrow> risk_gateway \<Rightarrow> bool \<times> price_ticks" where
  "self_trade_check_allows r g =
     (if \<not> rl_enable_self_trade_prevention (rg_limits g) then (True, 0)
      else if nr_post_only r then (True, 0)
      else case map_of (rg_client_books g) (client_symbol_key (nr_client_id r) (nr_symbol_id r)) of
        None \<Rightarrow> (True, 0)
      | Some book \<Rightarrow>
          let is_market = (nr_order_type r = Ot_Market) in
          if nr_side r = Buy \<and> cb_sell_qty_by_price book \<noteq> []
          then let opposing = fst (hd (cb_sell_qty_by_price book)) in (\<not> is_market \<and> nr_price_ticks r < opposing, opposing)
          else if nr_side r = Sell \<and> cb_buy_qty_by_price book \<noteq> []
          then let opposing = fst (hd (cb_buy_qty_by_price book)) in (\<not> is_market \<and> nr_price_ticks r > opposing, opposing)
          else (True, 0))"

definition notional_for :: "new_order_request \<Rightarrow> risk_gateway \<Rightarrow> int" where
  "notional_for r g =
     (let price = (if nr_order_type r = Ot_Market
          then (case map_of (rg_market_state g) (nr_symbol_id r) of None \<Rightarrow> 0 | Some m \<Rightarrow> ms_reference_price_ticks m)
          else nr_price_ticks r)
      in abs_i64 (price * nr_quantity r))"

definition gross_exposure_with :: "new_order_request \<Rightarrow> risk_gateway \<Rightarrow> int" where
  "gross_exposure_with r g =
     foldl (\<lambda>gross (sy, signed_position). case map_of (rg_market_state g) sy of
         None \<Rightarrow> gross | Some m \<Rightarrow> gross + abs_i64 signed_position * ms_reference_price_ticks m)
       (notional_for r g) (rg_positions g)"

section \<open>New orders\<close>

definition new_order_verdict :: "new_order_request \<Rightarrow> timestamp_ns \<Rightarrow> risk_gateway \<Rightarrow> verdict" where
  "new_order_verdict r now g =
     (let l = rg_limits g; q = nr_quantity r; sy = nr_symbol_id r; market = map_of (rg_market_state g) sy;
          age_ns = now - ms_last_timestamp_ns (the market);
          distance = abs_i64 (nr_price_ticks r - ms_reference_price_ticks (the market));
          notional = notional_for r g; (allowed, opposing_price) = self_trade_check_allows r g;
          projected_working = working_quantity sy g + q;
          projected_position = rg_position sy g + (if nr_side r = Buy then q else - q);
          gross_exposure = gross_exposure_with r g
      in if q \<le> 0 then Some (''invalid_quantity'', Rr_InvalidQuantity, 0, q)
      else if nr_order_type r = Ot_Limit \<and> nr_price_ticks r \<le> 0 then Some (''invalid_price'', Rr_InvalidPrice, 0, nr_price_ticks r)
      else if id_accepted (nr_client_order_id r) g
      then Some (''duplicate_client_order_id'', Rr_DuplicateClientOrderId, 0, sint (nr_client_order_id r))
      else if q > rl_max_order_quantity l then Some (''max_order_quantity'', Rr_MaxOrderQuantity, rl_max_order_quantity l, q)
      else if market = None then Some (''stale_market_data'', Rr_StaleMarketData, rl_stale_after_ns l, 0)
      else if rl_stale_after_ns l > 0 \<and> age_ns > rl_stale_after_ns l
      then Some (''stale_market_data'', Rr_StaleMarketData, rl_stale_after_ns l, age_ns)
      else if nr_order_type r = Ot_Limit \<and> distance > rl_price_band_ticks l
      then Some (''price_band'', Rr_PriceBand, rl_price_band_ticks l, distance)
      else if notional > rl_max_notional_ticks l then Some (''max_notional'', Rr_MaxNotional, rl_max_notional_ticks l, notional)
      else if \<not> allowed then Some (''self_trade_prevention'', Rr_SelfTradePrevention, nr_price_ticks r, opposing_price)
      else if rl_max_open_order_quantity l > 0 \<and> nr_order_type r = Ot_Limit \<and> nr_time_in_force r = Tif_Gtc \<and>
        projected_working > rl_max_open_order_quantity l
      then Some (''max_open_order_quantity'', Rr_MaxOpenOrderQuantity, rl_max_open_order_quantity l, projected_working)
      else if abs_i64 projected_position > rl_max_position_per_symbol l
      then Some (''max_position'', Rr_MaxPosition, rl_max_position_per_symbol l, abs_i64 projected_position)
      else if gross_exposure > rl_max_gross_exposure_ticks l
      then Some (''max_gross_exposure'', Rr_MaxGrossExposure, rl_max_gross_exposure_ticks l, gross_exposure)
      else None)"

definition check_new_order :: "new_order_request \<Rightarrow> timestamp_ns \<Rightarrow> risk_gateway \<Rightarrow> risk_result \<times> risk_gateway" where
  "check_new_order r now g =
     (if rg_kill_switch g then decide_request r now ''kill_switch'' False Rr_KillSwitch 0 0 g
      else if \<not> rg_connected g \<and> rl_disconnect_order_policy (rg_limits g) = Dp_RejectNewOrders
      then decide_request r now ''disconnected'' False Rr_Disconnected 0 0 g
      else let (allowed, observed_rate, g) = rate_limit_allows r now g in
      if \<not> allowed
      then decide_request r now (if rl_rate_limit_mode (rg_limits g) = Rl_SlidingWindow then ''message_rate_limit_sliding''
             else ''message_rate_limit'') False Rr_MessageRateLimit
             (int (unat (rl_max_messages_per_window (rg_limits g)))) observed_rate g
      else case new_order_verdict r now g of
        Some (check_name, reason, limit_value, observed_value) \<Rightarrow>
          decide_request r now check_name False reason limit_value observed_value g
      | None \<Rightarrow>
          let notional = notional_for r g; g = accept_id (nr_client_order_id r) g;
              g = (if tracks_working_orders g then register_working_order r g else g)
          in decide_request r now ''accepted'' True Rr_None (rl_max_notional_ticks (rg_limits g)) notional g)"

section \<open>Replaces\<close>

definition replacement_request :: "replace_order_request \<Rightarrow> working_order \<Rightarrow> new_order_request" where
  "replacement_request r existing = \<lparr>nr_client_order_id = rr_client_order_id r, nr_symbol_id = wo_symbol_id existing,
     nr_side = wo_side existing, nr_order_type = Ot_Limit, nr_price_ticks = rr_new_price_ticks r,
     nr_quantity = rr_new_quantity r, nr_timestamp_ns = rr_timestamp_ns r, nr_client_id = wo_client_id existing,
     nr_time_in_force = Tif_Gtc, nr_post_only = False\<rparr>"

text \<open>The tests before the order is known.\<close>

definition replace_entry_verdict :: "replace_order_request \<Rightarrow> risk_gateway \<Rightarrow> verdict" where
  "replace_entry_verdict r g =
     (if rg_kill_switch g then Some (''kill_switch'', Rr_KillSwitch, 0, 0)
      else if \<not> rg_connected g \<and> rl_disconnect_order_policy (rg_limits g) = Dp_RejectNewOrders
      then Some (''disconnected'', Rr_Disconnected, 0, 0)
      else if rr_new_quantity r \<le> 0 then Some (''replace_invalid_quantity'', Rr_InvalidQuantity, 0, rr_new_quantity r)
      else if rr_new_price_ticks r \<le> 0 then Some (''replace_invalid_price'', Rr_InvalidPrice, 0, rr_new_price_ticks r)
      else if id_accepted (rr_client_order_id r) g
      then Some (''replace_duplicate_client_order_id'', Rr_DuplicateClientOrderId, 0, sint (rr_client_order_id r))
      else case map_of (rg_exchange_to_client_order_ids g) (rr_exchange_order_id r) of
        None \<Rightarrow> Some (''unknown_replace_order_id'', Rr_UnknownOrder, 0, sint (rr_exchange_order_id r))
      | Some cid \<Rightarrow> if map_of (rg_working_orders g) cid = None
          then Some (''unknown_replace_order_id'', Rr_UnknownOrder, 0, sint (rr_exchange_order_id r)) else None)"

definition replace_verdict :: "replace_order_request \<Rightarrow> working_order \<Rightarrow> timestamp_ns \<Rightarrow> risk_gateway \<Rightarrow> verdict" where
  "replace_verdict r existing now g =
     (let l = rg_limits g; replacement = replacement_request r existing; q = rr_new_quantity r; sy = wo_symbol_id existing;
          market = map_of (rg_market_state g) sy; age_ns = now - ms_last_timestamp_ns (the market);
          distance = abs_i64 (rr_new_price_ticks r - ms_reference_price_ticks (the market));
          notional = notional_for replacement g; (allowed, opposing_price) = self_trade_check_allows replacement g;
          projected_working = working_quantity sy g - wo_quantity existing + q;
          projected_position = rg_position sy g + (if wo_side existing = Buy then q else - q);
          gross_exposure = gross_exposure_with replacement g
      in if q > rl_max_order_quantity l then Some (''replace_max_order_quantity'', Rr_MaxOrderQuantity, rl_max_order_quantity l, q)
      else if market = None then Some (''replace_stale_market_data'', Rr_StaleMarketData, rl_stale_after_ns l, 0)
      else if rl_stale_after_ns l > 0 \<and> age_ns > rl_stale_after_ns l
      then Some (''replace_stale_market_data'', Rr_StaleMarketData, rl_stale_after_ns l, age_ns)
      else if distance > rl_price_band_ticks l then Some (''replace_price_band'', Rr_PriceBand, rl_price_band_ticks l, distance)
      else if notional > rl_max_notional_ticks l
      then Some (''replace_max_notional'', Rr_MaxNotional, rl_max_notional_ticks l, notional)
      else if \<not> allowed
      then Some (''replace_self_trade_prevention'', Rr_SelfTradePrevention, rr_new_price_ticks r, opposing_price)
      else if rl_max_open_order_quantity l > 0 \<and> projected_working > rl_max_open_order_quantity l
      then Some (''replace_max_open_order_quantity'', Rr_MaxOpenOrderQuantity, rl_max_open_order_quantity l, projected_working)
      else if abs_i64 projected_position > rl_max_position_per_symbol l
      then Some (''replace_max_position'', Rr_MaxPosition, rl_max_position_per_symbol l, abs_i64 projected_position)
      else if gross_exposure > rl_max_gross_exposure_ticks l
      then Some (''replace_max_gross_exposure'', Rr_MaxGrossExposure, rl_max_gross_exposure_ticks l, gross_exposure)
      else None)"

definition check_replace_order :: "replace_order_request \<Rightarrow> timestamp_ns \<Rightarrow> risk_gateway \<Rightarrow> risk_result \<times> risk_gateway" where
  "check_replace_order r now g = (case replace_entry_verdict r g of
       Some (check_name, reason, limit_value, observed_value) \<Rightarrow>
         decide_entry now (rr_client_order_id r) kInvalidSymbolId NoSide check_name False reason limit_value observed_value g
     | None \<Rightarrow>
         let cid = the (map_of (rg_exchange_to_client_order_ids g) (rr_exchange_order_id r));
             existing = the (map_of (rg_working_orders g) cid); replacement = replacement_request r existing;
             (allowed, observed_rate, g) = rate_limit_allows replacement now g in
         if \<not> allowed
         then decide_request replacement now (if rl_rate_limit_mode (rg_limits g) = Rl_SlidingWindow
                then ''replace_message_rate_limit_sliding'' else ''replace_message_rate_limit'') False Rr_MessageRateLimit
                (int (unat (rl_max_messages_per_window (rg_limits g)))) observed_rate g
         else case replace_verdict r existing now g of
           Some (check_name, reason, limit_value, observed_value) \<Rightarrow>
             decide_request replacement now check_name False reason limit_value observed_value g
         | None \<Rightarrow>
             let notional = notional_for replacement g;
                 g = change_working_order cid (rr_new_price_ticks r) (rr_new_quantity r) g;
                 g = accept_id (rr_client_order_id r) g
             in decide_request replacement now ''replace_accepted'' True Rr_None (rl_max_notional_ticks (rg_limits g)) notional g)"

section \<open>Operation sequences\<close>

datatype rg_op =
    Rg_Check_New new_order_request timestamp_ns
  | Rg_Check_Replace replace_order_request timestamp_ns
  | Rg_Report execution_report
  | Rg_Release client_order_id
  | Rg_Enable_Kill_Switch timestamp_ns
  | Rg_Disable_Kill_Switch
  | Rg_Disconnect timestamp_ns
  | Rg_Reconnect
  | Rg_Market_Data symbol_id price_ticks timestamp_ns
  | Rg_Set_Position symbol_id quantity
  | Rg_Reserve nat
  | Rg_Set_Limits risk_limits
  | Rg_Set_Audit bool
  | Rg_Clear_Audit
  | Rg_Open_Log string risk_audit_log_format nat nat
  | Rg_Close_Log

text \<open>The answer of a check, \<open>None\<close> for the other operations.\<close>

fun rg_step :: "rg_op \<Rightarrow> risk_gateway \<Rightarrow> risk_result option \<times> risk_gateway" where
  "rg_step (Rg_Check_New r now) g = map_prod Some id (check_new_order r now g)"
| "rg_step (Rg_Check_Replace r now) g = map_prod Some id (check_replace_order r now g)"
| "rg_step (Rg_Report report) g = (None, on_execution_report report g)"
| "rg_step (Rg_Release cid) g = (None, release_order cid g)"
| "rg_step (Rg_Enable_Kill_Switch ts) g = (None, enable_kill_switch ts g)"
| "rg_step Rg_Disable_Kill_Switch g = (None, disable_kill_switch g)"
| "rg_step (Rg_Disconnect ts) g = (None, on_disconnect ts g)"
| "rg_step Rg_Reconnect g = (None, on_reconnect g)"
| "rg_step (Rg_Market_Data sy price ts) g = (None, on_market_data sy price ts g)"
| "rg_step (Rg_Set_Position sy q) g = (None, set_position sy q g)"
| "rg_step (Rg_Reserve n) g = (None, reserve_hot_path_capacity n g)"
| "rg_step (Rg_Set_Limits l) g = (None, set_limits l g)"
| "rg_step (Rg_Set_Audit b) g = (None, set_audit_enabled b g)"
| "rg_step Rg_Clear_Audit g = (None, clear_audit g)"
| "rg_step (Rg_Open_Log path fmt n m) g = (None, snd (open_rotating_audit_log path fmt n m g))"
| "rg_step Rg_Close_Log g = (None, close_audit_log g)"

end
