(* ===== verification/Risk_Exposure.thy ===== *)
theory Risk_Exposure
  imports Risk_Checks
begin

text \<open>
  The exposure the gateway keeps is exact: the working quantity of a symbol, and the quantity per price in a
  client's book, are the sums over the working orders. The lemmas follow the two primitive updates, releasing an
  order's quantity and adding it, then every operation of the gateway.
\<close>

section \<open>Sums over working orders\<close>

type_synonym working = "(client_order_id \<times> working_order) list"

definition wsum :: "(working_order \<Rightarrow> bool) \<Rightarrow> working \<Rightarrow> quantity" where
  "wsum P ws = sum_list (map (\<lambda>(_, wo). if P wo then wo_quantity wo else 0) ws)"

definition weight :: "(working_order \<Rightarrow> bool) \<Rightarrow> working_order option \<Rightarrow> quantity" where
  "weight P x = (case x of None \<Rightarrow> 0 | Some wo \<Rightarrow> if P wo then wo_quantity wo else 0)"

lemma wsum_simps [simp]:
  "wsum P [] = 0" "wsum P ((c, wo) # ws) = (if P wo then wo_quantity wo else 0) + wsum P ws"
  by (simp_all add: wsum_def)

lemma wsum_update:
  "distinct (map fst ws) \<Longrightarrow> wsum P (AList.update c wo ws) = wsum P ws - weight P (map_of ws c) + weight P (Some wo)"
  by (induction ws) (auto simp: weight_def)

lemma wsum_delete:
  "distinct (map fst ws) \<Longrightarrow> wsum P (AList.delete c ws) = wsum P ws - weight P (map_of ws c)"
proof (induction ws)
  case (Cons x ws)
  obtain c' wo where x: "x = (c', wo)" by (cases x)
  have "AList.delete c ws = ws" if "c = c'"
    using Cons.prems that x by (force simp: AList.delete_eq filter_id_conv)
  with Cons x show ?case by (auto simp: weight_def)
qed (simp add: weight_def)

lemma wsum_change: "distinct (map fst ws) \<Longrightarrow> wsum P (AList.update c wo (AList.delete c ws)) = wsum P (AList.update c wo ws)"
  by (simp add: wsum_update wsum_delete) (simp add: weight_def)

definition all_positive :: "working \<Rightarrow> bool" where
  "all_positive ws \<longleftrightarrow> (\<forall>(c, wo) \<in> set ws. 0 < wo_quantity wo)"

lemma wsum_nonneg: "all_positive ws \<Longrightarrow> 0 \<le> wsum P ws"
  unfolding wsum_def all_positive_def by (rule sum_list_nonneg) auto

lemma wsum_member: "all_positive ws \<Longrightarrow> map_of ws c = Some wo \<Longrightarrow> P wo \<Longrightarrow> wo_quantity wo \<le> wsum P ws"
proof (induction ws)
  case (Cons x ws)
  obtain c' wo' where x: "x = (c', wo')" by (cases x)
  have pos: "all_positive ws" "0 < wo_quantity wo'" using Cons.prems(1) x by (simp_all add: all_positive_def)
  show ?case
  proof (cases "c = c'")
    case True
    then show ?thesis using Cons.prems(2,3) wsum_nonneg [OF pos(1), of P] x by simp
  next
    case False
    then have "wo_quantity wo \<le> wsum P ws" using Cons pos x by simp
    then show ?thesis using pos(2) x by simp
  qed
qed simp

lemma weight_le: "all_positive ws \<Longrightarrow> weight P (map_of ws c) \<le> wsum P ws"
  using wsum_nonneg [of ws P] wsum_member [of ws c _ P] by (auto simp: weight_def split: option.splits)

lemma positive_update: "all_positive ws \<Longrightarrow> 0 < wo_quantity wo \<Longrightarrow> all_positive (AList.update c wo ws)"
  by (induction ws) (auto simp: all_positive_def)

lemma positive_delete: "all_positive ws \<Longrightarrow> all_positive (AList.delete c ws)"
  by (auto simp: all_positive_def AList.delete_eq)

section \<open>Symbol totals\<close>

abbreviation of_symbol :: "symbol_id \<Rightarrow> working_order \<Rightarrow> bool" where
  "of_symbol sy wo \<equiv> wo_symbol_id wo = sy"

definition totals_match :: "(symbol_id \<times> quantity) list \<Rightarrow> working \<Rightarrow> bool" where
  "totals_match wq ws \<longleftrightarrow> distinct (map fst wq) \<and>
     (\<forall>sy. map_of wq sy = (if wsum (of_symbol sy) ws = 0 then None else Some (wsum (of_symbol sy) ws)))"

lemma totals_release:
  assumes "totals_match (rg_working_quantity g) ws" and "distinct (map fst ws)" and "all_positive ws" and "map_of ws c = Some wo"
  shows "totals_match (rg_working_quantity (release_symbol_quantity (wo_symbol_id wo) (wo_quantity wo) g)) (AList.delete c ws)"
proof -
  let ?s = "wsum (of_symbol (wo_symbol_id wo)) ws" and ?sy = "wo_symbol_id wo"
  have le: "wo_quantity wo \<le> ?s" using wsum_member [OF assms(3,4)] by simp
  have pos: "0 < wo_quantity wo" using assms(3) map_of_SomeD [OF assms(4)] by (auto simp: all_positive_def)
  have q: "map_of (rg_working_quantity g) ?sy = Some ?s" using assms(1) le pos by (simp add: totals_match_def)
  have sums: "wsum (of_symbol sy) (AList.delete c ws) = (if sy = ?sy then ?s - wo_quantity wo else wsum (of_symbol sy) ws)" for sy
    by (simp add: wsum_delete [OF assms(2)] assms(4) weight_def)
  show ?thesis using assms(1) le unfolding totals_match_def sums release_symbol_quantity_def q by auto
qed

lemma totals_add:
  assumes "totals_match wq ws" and "distinct (map fst ws)" and "all_positive ws" and "map_of ws c = None" and "0 < wo_quantity wo"
  shows "totals_match (AList.update (wo_symbol_id wo) ((case map_of wq (wo_symbol_id wo) of None \<Rightarrow> 0 | Some q \<Rightarrow> q) + wo_quantity wo) wq)
    (AList.update c wo ws)"
proof -
  have sums: "wsum (of_symbol sy) (AList.update c wo ws) =
      wsum (of_symbol sy) ws + (if sy = wo_symbol_id wo then wo_quantity wo else 0)" for sy
    by (simp add: wsum_update [OF assms(2)] assms(4) weight_def)
  have nn: "0 \<le> wsum (of_symbol (wo_symbol_id wo)) ws" by (rule wsum_nonneg [OF assms(3)])
  have now: "(case map_of wq (wo_symbol_id wo) of None \<Rightarrow> 0 | Some q \<Rightarrow> q) = wsum (of_symbol (wo_symbol_id wo)) ws"
    using assms(1) by (simp add: totals_match_def)
  show ?thesis using assms(1,5) nn unfolding totals_match_def sums now by auto
qed

section \<open>Client books\<close>

lemma client_symbol_key_parts:
  "ucast (drop_bit 32 (client_symbol_key cl sy)) = cl" "ucast (client_symbol_key cl sy) = sy"
  by (rule bit_word_eqI; auto simp: client_symbol_key_def bit_simps dest: bit_imp_le_length)+

lemma client_symbol_key_inj [simp]: "client_symbol_key cl sy = client_symbol_key cl' sy' \<longleftrightarrow> cl = cl' \<and> sy = sy'"
  using client_symbol_key_parts by metis

definition book_side :: "side \<Rightarrow> client_working_book \<Rightarrow> (price_ticks \<times> quantity) list" where
  "book_side sd b = (if sd = Buy then cb_buy_qty_by_price b else if sd = Sell then cb_sell_qty_by_price b else [])"

definition qty_at :: "price_ticks \<Rightarrow> (price_ticks \<times> quantity) list \<Rightarrow> quantity" where
  "qty_at p m = (case map_of m p of None \<Rightarrow> 0 | Some q \<Rightarrow> q)"

text \<open>What the two updates of a price map do to the quantity at each price.\<close>

context strict_order
begin

definition tiers :: "('k \<times> quantity) list \<Rightarrow> bool" where
  "tiers m \<longleftrightarrow> sorted_wrt lt (map fst m) \<and> (\<forall>(p, q) \<in> set m. 0 < q)"

lemma tiers_map_of: "tiers m \<Longrightarrow> map_of m p = Some q \<longleftrightarrow> (p, q) \<in> set m"
  using sorted_distinct by (auto simp: tiers_def)

lemma tiers_modify:
  assumes "sorted_wrt lt (map fst m)" and "\<forall>(p', q) \<in> set m. p' \<noteq> p \<longrightarrow> 0 < q" and "\<And>q. map_of m p = Some q \<Longrightarrow> 0 < f q"
  shows "tiers (om_modify p f m)"
  using assms map_of_is_SomeI [OF sorted_distinct [OF assms(1)]]
  by (auto simp: tiers_def set_om_modify [OF sorted_distinct [OF assms(1)]])

lemma tiers_erase: "tiers m \<Longrightarrow> tiers (om_erase p m)"
  using sorted_erase [of m p] set_om_erase_subset [of p m] by (fastforce simp: tiers_def)

end

definition ladder_sorted :: "side \<Rightarrow> (price_ticks \<times> quantity) list \<Rightarrow> bool" where
  "ladder_sorted sd m \<longleftrightarrow> (if sd = Buy then bid_order.tiers m else ask_order.tiers m)"

definition book_qty :: "(u64 \<times> client_working_book) list \<Rightarrow> client_id \<Rightarrow> symbol_id \<Rightarrow> side \<Rightarrow> price_ticks \<Rightarrow> quantity" where
  "book_qty books cl sy sd p = (case map_of books (client_symbol_key cl sy) of None \<Rightarrow> 0 | Some b \<Rightarrow> qty_at p (book_side sd b))"

definition at_price :: "client_id \<Rightarrow> symbol_id \<Rightarrow> side \<Rightarrow> price_ticks \<Rightarrow> working_order \<Rightarrow> bool" where
  "at_price cl sy sd p wo \<longleftrightarrow> wo_client_id wo = cl \<and> wo_symbol_id wo = sy \<and> wo_side wo = sd \<and> wo_price_ticks wo = p"

lemma ladder_distinct: "ladder_sorted sd m \<Longrightarrow> distinct (map fst m)"
  using bid_order.sorted_distinct ask_order.sorted_distinct
  by (auto simp: ladder_sorted_def bid_order.tiers_def ask_order.tiers_def split: if_splits)

lemma ladder_positive: "ladder_sorted sd m \<Longrightarrow> map_of m p = Some q \<Longrightarrow> 0 < q"
  by (auto simp: ladder_sorted_def bid_order.tiers_map_of ask_order.tiers_map_of split: if_splits)
    (auto simp: bid_order.tiers_def ask_order.tiers_def)

lemma take_at_price_ok:
  assumes "ladder_sorted sd m" and "0 < qty" and "qty \<le> qty_at price m"
  shows "ladder_sorted sd (take_at_price price qty m)"
    and "qty_at p (take_at_price price qty m) = qty_at p m - (if p = price then qty else 0)"
proof -
  have d: "distinct (map fst m)" by (rule ladder_distinct [OF assms(1)])
  show "qty_at p (take_at_price price qty m) = qty_at p m - (if p = price then qty else 0)"
    using assms(2,3) by (auto simp: take_at_price_def qty_at_def map_of_om_erase [OF d] map_of_om_modify split: option.splits)
  show "ladder_sorted sd (take_at_price price qty m)"
    using assms(1) unfolding take_at_price_def ladder_sorted_def
    by (auto simp: bid_order.tiers_erase ask_order.tiers_erase d split: option.splits
        intro!: bid_order.tiers_modify ask_order.tiers_modify)
      (auto simp: bid_order.tiers_def ask_order.tiers_def)
qed

lemma add_at_price_ok:
  assumes "ladder_sorted sd m" and "0 < qty" and "lt = (if sd = Buy then (>) else (<))"
  shows "ladder_sorted sd (add_at_price lt price qty m)"
    and "qty_at p (add_at_price lt price qty m) = qty_at p m + (if p = price then qty else 0)"
proof -
  have e: "map_of (om_try_emplace lt price 0 m) x = (if x = price then Some (qty_at price m) else map_of m x)" for x
    using assms(1,3) by (auto simp: qty_at_def ladder_sorted_def bid_order.tiers_def ask_order.tiers_def
        bid_order.map_of_try_emplace ask_order.map_of_try_emplace split: if_splits)
  have sorted: "sorted_wrt lt (map fst (om_try_emplace lt price 0 m))"
    using assms(1,3) by (auto simp: ladder_sorted_def bid_order.tiers_def ask_order.tiers_def
        intro: bid_order.sorted_try_emplace ask_order.sorted_try_emplace split: if_splits)
  have d: "distinct (map fst (om_try_emplace lt price 0 m))"
    using sorted assms(3) bid_order.sorted_distinct ask_order.sorted_distinct by (auto split: if_splits)
  have mem: "0 < q" if "(x, q) \<in> set (om_try_emplace lt price 0 m)" "x \<noteq> price" for x q
    using that ladder_positive [OF assms(1), of x q] e [of x] map_of_is_SomeI [OF d that(1)] by simp
  have at: "0 < q + qty" if "map_of (om_try_emplace lt price 0 m) price = Some q" for q
    using e [of price] that ladder_positive [OF assms(1), of price] assms(2)
    by (fastforce simp: qty_at_def split: option.splits)
  show "qty_at p (add_at_price lt price qty m) = qty_at p m + (if p = price then qty else 0)"
    by (simp add: add_at_price_def qty_at_def map_of_om_modify e)
  show "ladder_sorted sd (add_at_price lt price qty m)"
    using sorted mem at assms(3) unfolding add_at_price_def ladder_sorted_def
    by (auto intro!: bid_order.tiers_modify ask_order.tiers_modify)
qed

text \<open>The book of one client and symbol, and what releasing and adding an order does to all of them.\<close>

definition book_release :: "working_order \<Rightarrow> quantity \<Rightarrow> client_working_book \<Rightarrow> client_working_book" where
  "book_release wo qty book = (if wo_side wo = Buy
     then book\<lparr>cb_buy_qty_by_price := take_at_price (wo_price_ticks wo) qty (cb_buy_qty_by_price book)\<rparr>
     else if wo_side wo = Sell
     then book\<lparr>cb_sell_qty_by_price := take_at_price (wo_price_ticks wo) qty (cb_sell_qty_by_price book)\<rparr> else book)"

definition book_add :: "working_order \<Rightarrow> quantity \<Rightarrow> client_working_book \<Rightarrow> client_working_book" where
  "book_add wo qty book = (if wo_side wo = Buy
     then book\<lparr>cb_buy_qty_by_price := add_at_price (>) (wo_price_ticks wo) qty (cb_buy_qty_by_price book)\<rparr>
     else if wo_side wo = Sell
     then book\<lparr>cb_sell_qty_by_price := add_at_price (<) (wo_price_ticks wo) qty (cb_sell_qty_by_price book)\<rparr> else book)"

definition book_sorted :: "client_working_book \<Rightarrow> bool" where
  "book_sorted b \<longleftrightarrow> ladder_sorted Buy (cb_buy_qty_by_price b) \<and> ladder_sorted Sell (cb_sell_qty_by_price b)"

definition books_match :: "(u64 \<times> client_working_book) list \<Rightarrow> working \<Rightarrow> bool" where
  "books_match books ws \<longleftrightarrow> distinct (map fst books) \<and>
     (\<forall>k b. map_of books k = Some b \<longrightarrow> book_sorted b) \<and>
     (\<forall>cl sy sd p. is_valid_side sd \<longrightarrow> book_qty books cl sy sd p = wsum (at_price cl sy sd p) ws)"

lemma book_release_ok:
  assumes "book_sorted b" and "0 < qty" and "is_valid_side (wo_side wo) \<longrightarrow> qty \<le> qty_at (wo_price_ticks wo) (book_side (wo_side wo) b)"
  shows "book_sorted (book_release wo qty b)"
    and "is_valid_side sd \<Longrightarrow> qty_at p (book_side sd (book_release wo qty b)) =
      qty_at p (book_side sd b) - (if sd = wo_side wo \<and> p = wo_price_ticks wo then qty else 0)"
  using assms take_at_price_ok [where sd = Buy and m = "cb_buy_qty_by_price b" and qty = qty and price = "wo_price_ticks wo"]
    take_at_price_ok [where sd = Sell and m = "cb_sell_qty_by_price b" and qty = qty and price = "wo_price_ticks wo"]
  by (auto simp: book_release_def book_sorted_def book_side_def)

lemma book_add_ok:
  assumes "book_sorted b" and "0 < qty"
  shows "book_sorted (book_add wo qty b)"
    and "is_valid_side sd \<Longrightarrow> qty_at p (book_side sd (book_add wo qty b)) =
      qty_at p (book_side sd b) + (if sd = wo_side wo \<and> p = wo_price_ticks wo then qty else 0)"
  using assms add_at_price_ok [where sd = Buy and m = "cb_buy_qty_by_price b" and qty = qty and lt = "(>)" and price = "wo_price_ticks wo"]
    add_at_price_ok [where sd = Sell and m = "cb_sell_qty_by_price b" and qty = qty and lt = "(<)" and price = "wo_price_ticks wo"]
  by (auto simp: book_add_def book_sorted_def book_side_def)

lemma book_qty_update:
  "book_qty (AList.update (client_symbol_key cl' sy') b books) cl sy sd p =
     (if cl = cl' \<and> sy = sy' then qty_at p (book_side sd b) else book_qty books cl sy sd p)"
  "book_qty (AList.delete (client_symbol_key cl' sy') books) cl sy sd p =
     (if cl = cl' \<and> sy = sy' then 0 else book_qty books cl sy sd p)"
  by (auto simp: book_qty_def)

lemma books_match_sorted: "books_match books ws \<Longrightarrow> map_of books k = Some b \<Longrightarrow> book_sorted b"
  by (auto simp: books_match_def)

lemma books_release:
  assumes "books_match (rg_client_books g) ws" and "distinct (map fst ws)" and "all_positive ws" and "map_of ws c = Some wo"
  shows "books_match (rg_client_books (release_book_quantity wo (wo_quantity wo) g)) (AList.delete c ws)"
proof -
  let ?q = "wo_quantity wo" and ?books = "rg_client_books g" and ?cl = "wo_client_id wo" and ?sy = "wo_symbol_id wo"
  have pos: "0 < ?q" using assms(3) map_of_SomeD [OF assms(4)] by (auto simp: all_positive_def)
  have sums: "wsum (at_price cl sy sd p) (AList.delete c ws) = wsum (at_price cl sy sd p) ws - (if at_price cl sy sd p wo then ?q else 0)" for cl sy sd p
    by (simp add: wsum_delete [OF assms(2)] assms(4) weight_def)
  have le: "?q \<le> book_qty ?books ?cl ?sy (wo_side wo) (wo_price_ticks wo)" if "is_valid_side (wo_side wo)"
    using assms(1) that wsum_member [OF assms(3,4), of "at_price ?cl ?sy (wo_side wo) (wo_price_ticks wo)"]
    by (auto simp: books_match_def at_price_def)
  show ?thesis
  proof (cases "map_of ?books (client_symbol_key ?cl ?sy)")
    case None
    then have "\<not> is_valid_side (wo_side wo)" using le pos by (auto simp: book_qty_def)
    then have "books_match ?books (AList.delete c ws)" using assms(1) unfolding books_match_def sums by (auto simp: at_price_def)
    then show ?thesis using None by (simp add: release_book_quantity_def Let_def)
  next
    case (Some book)
    let ?b = "book_release wo ?q book"
    have b: "book_sorted book" by (rule books_match_sorted [OF assms(1) Some])
    have le': "is_valid_side (wo_side wo) \<longrightarrow> ?q \<le> qty_at (wo_price_ticks wo) (book_side (wo_side wo) book)"
      using le Some by (simp add: book_qty_def)
    note r = book_release_ok [OF b pos le']
    define books where "books = (if cb_buy_qty_by_price ?b = [] \<and> cb_sell_qty_by_price ?b = []
       then AList.delete (client_symbol_key ?cl ?sy) ?books else AList.update (client_symbol_key ?cl ?sy) ?b ?books)"
    have qty: "book_qty books cl sy sd p = (if cl = ?cl \<and> sy = ?sy then qty_at p (book_side sd ?b) else book_qty ?books cl sy sd p)" for cl sy sd p
      by (simp add: books_def book_qty_update) (simp add: book_side_def qty_at_def)
    have old: "qty_at p (book_side sd book) = book_qty ?books ?cl ?sy sd p" for sd p using Some by (simp add: book_qty_def)
    have "book_qty books cl sy sd p = wsum (at_price cl sy sd p) (AList.delete c ws)" if "is_valid_side sd" for cl sy sd p
    proof -
      have "book_qty ?books cl sy sd p = wsum (at_price cl sy sd p) ws" using assms(1) that by (simp only: books_match_def)
      then show ?thesis unfolding qty sums r(2) [OF that] old by (simp add: at_price_def) blast
    qed
    moreover have "map_of books k = Some b \<Longrightarrow> book_sorted b" for k b
      using r(1) books_match_sorted [OF assms(1)] unfolding books_def by (auto split: if_splits)
    moreover have "distinct (map fst books)" using assms(1) by (simp add: books_def books_match_def)
    ultimately have "books_match books (AList.delete c ws)" by (auto simp: books_match_def)
    moreover have "rg_client_books (release_book_quantity wo ?q g) = books"
      unfolding release_book_quantity_def Let_def books_def book_release_def Some by simp
    ultimately show ?thesis by simp
  qed
qed

lemma books_add:
  assumes "books_match books ws" and "distinct (map fst ws)" and "map_of ws c = None" and "0 < wo_quantity wo"
    and "key = client_symbol_key (wo_client_id wo) (wo_symbol_id wo)"
    and "book = (case map_of books key of None \<Rightarrow> \<lparr>cb_buy_qty_by_price = [], cb_sell_qty_by_price = []\<rparr> | Some b \<Rightarrow> b)"
  shows "books_match (AList.update key (book_add wo (wo_quantity wo) book) books) (AList.update c wo ws)"
proof -
  let ?q = "wo_quantity wo" and ?cl = "wo_client_id wo" and ?sy = "wo_symbol_id wo"
  let ?b = "book_add wo ?q book"
  have sums: "wsum (at_price cl sy sd p) (AList.update c wo ws) = wsum (at_price cl sy sd p) ws + (if at_price cl sy sd p wo then ?q else 0)" for cl sy sd p
    by (simp add: wsum_update [OF assms(2)] assms(3) weight_def)
  have b: "book_sorted book" using assms(1,6)
    by (auto simp: books_match_def book_sorted_def ladder_sorted_def bid_order.tiers_def ask_order.tiers_def split: option.splits)
  note r = book_add_ok [OF b assms(4)]
  have old: "qty_at p (book_side sd book) = book_qty books ?cl ?sy sd p" for sd p
    using assms(5,6) by (auto simp: book_qty_def book_side_def qty_at_def split: option.splits)
  have "book_qty (AList.update key ?b books) cl sy sd p = wsum (at_price cl sy sd p) (AList.update c wo ws)" if "is_valid_side sd" for cl sy sd p
  proof -
    have "book_qty books cl sy sd p = wsum (at_price cl sy sd p) ws" using assms(1) that by (simp only: books_match_def)
    then show ?thesis unfolding assms(5) book_qty_update sums r(2) [OF that] old by (simp add: at_price_def) blast
  qed
  moreover have "map_of (AList.update key ?b books) k = Some b \<Longrightarrow> book_sorted b" for k b
    using r(1) books_match_sorted [OF assms(1)] by (auto split: if_splits)
  ultimately show ?thesis using assms(1) by (auto simp: books_match_def)
qed

section \<open>The two primitive updates of the gateway\<close>

text \<open>The symbol totals are exact whatever happens to the limits. The client books are kept only while self-trade
  prevention is on, so they are exact (\<open>strict\<close>) as long as it is not switched.\<close>

definition exposure_of :: "bool \<Rightarrow> risk_gateway \<Rightarrow> working \<Rightarrow> bool" where
  "exposure_of strict g ws \<longleftrightarrow> totals_match (rg_working_quantity g) ws \<and> (strict \<longrightarrow>
     (if rl_enable_self_trade_prevention (rg_limits g) then books_match (rg_client_books g) ws else rg_client_books g = []))"

definition working_ok :: "working \<Rightarrow> bool" where
  "working_ok ws \<longleftrightarrow> distinct (map fst ws) \<and> all_positive ws"

lemma working_ok_simps:
  "working_ok []" "working_ok ws \<Longrightarrow> working_ok (AList.delete c ws)"
  "working_ok ws \<Longrightarrow> 0 < wo_quantity wo \<Longrightarrow> working_ok (AList.update c wo ws)"
  by (simp_all add: working_ok_def positive_update positive_delete) (simp add: all_positive_def)

lemma working_positive: "working_ok ws \<Longrightarrow> map_of ws c = Some wo \<Longrightarrow> 0 < wo_quantity wo"
  by (auto simp: working_ok_def all_positive_def dest: map_of_SomeD)

lemma release_frame:
  obtains wq books where "release_working_order_quantity wo q g = g\<lparr>rg_working_quantity := wq, rg_client_books := books\<rparr>"
proof -
  have "\<exists>wq. release_symbol_quantity sy q g = g\<lparr>rg_working_quantity := wq\<rparr>" for sy q
    unfolding release_symbol_quantity_def by (cases "map_of (rg_working_quantity g) sy") (auto intro: exI [of _ "rg_working_quantity g"])
  moreover have "\<exists>books. release_book_quantity wo q g = g\<lparr>rg_client_books := books\<rparr>" for q and g :: risk_gateway
    unfolding release_book_quantity_def Let_def
    by (cases "map_of (rg_client_books g) (client_symbol_key (wo_client_id wo) (wo_symbol_id wo))") (auto intro: exI [of _ "rg_client_books g"])
  ultimately show thesis using that unfolding release_working_order_quantity_def Let_def
    by (cases "q \<le> 0 \<or> wo_quantity wo \<le> 0") (metis risk_gateway.surjective risk_gateway.update_convs(6,9))+
qed

lemma release_exposure:
  assumes "exposure_of strict g ws" and "working_ok ws" and "map_of ws c = Some wo"
  shows "exposure_of strict (release_working_order_quantity wo (wo_quantity wo) g) (AList.delete c ws)"
proof -
  let ?g = "release_symbol_quantity (wo_symbol_id wo) (wo_quantity wo) g"
  have ws: "distinct (map fst ws)" "all_positive ws" using assms(2) by (simp_all add: working_ok_def)
  have pos: "0 < wo_quantity wo" by (rule working_positive [OF assms(2,3)])
  have frame: "rg_client_books ?g = rg_client_books g" "rg_limits ?g = rg_limits g"
    by (simp_all add: release_symbol_quantity_def split: option.splits)
  have frame': "rg_working_quantity (release_book_quantity wo q h) = rg_working_quantity h"
    "rg_limits (release_book_quantity wo q h) = rg_limits h" for q h
    by (simp_all add: release_book_quantity_def Let_def split: option.splits)
  have t: "totals_match (rg_working_quantity ?g) (AList.delete c ws)"
    using assms(1) by (intro totals_release ws assms(3)) (simp add: exposure_of_def)
  show ?thesis
  proof (cases "strict \<and> rl_enable_self_trade_prevention (rg_limits g)")
    case True
    then have "books_match (rg_client_books (release_book_quantity wo (wo_quantity wo) ?g)) (AList.delete c ws)"
      using assms(1) frame by (intro books_release ws assms(3)) (simp add: exposure_of_def)
    then show ?thesis using True t pos frame frame' by (simp add: exposure_of_def release_working_order_quantity_def Let_def)
  next
    case False
    then have "strict \<longrightarrow> rg_client_books (release_book_quantity wo (wo_quantity wo) ?g) = []"
      using assms(1) frame by (auto simp: exposure_of_def release_book_quantity_def)
    then show ?thesis using False t pos frame frame' by (auto simp add: exposure_of_def release_working_order_quantity_def Let_def)
  qed
qed

lemma add_frame:
  obtains wq books where "add_working_order_quantity wo q g = g\<lparr>rg_working_quantity := wq, rg_client_books := books\<rparr>"
proof (cases "q \<le> 0")
  case True
  then show thesis using that [where wq = "rg_working_quantity g" and books = "rg_client_books g"] by (simp add: add_working_order_quantity_def)
next
  case False
  show thesis
  proof (cases "rl_enable_self_trade_prevention (rg_limits g)")
    case True
    then show thesis using that False by (simp add: add_working_order_quantity_def Let_def)
  next
    case off: False
    then show thesis using that [where books = "rg_client_books g"] False by (simp add: add_working_order_quantity_def Let_def)
  qed
qed

lemma add_exposure:
  assumes "exposure_of strict g ws" and "working_ok ws" and "map_of ws c = None" and "0 < wo_quantity wo"
  shows "exposure_of strict (add_working_order_quantity wo (wo_quantity wo) g) (AList.update c wo ws)"
proof -
  have ws: "distinct (map fst ws)" "all_positive ws" using assms(2) by (simp_all add: working_ok_def)
  have t: "totals_match (AList.update (wo_symbol_id wo) (working_quantity (wo_symbol_id wo) g + wo_quantity wo) (rg_working_quantity g))
      (AList.update c wo ws)"
    unfolding working_quantity_def using assms(1) by (intro totals_add ws assms(3,4)) (simp add: exposure_of_def)
  show ?thesis
  proof (cases "rl_enable_self_trade_prevention (rg_limits g)")
    case True
    then have "strict \<longrightarrow> books_match (rg_client_books g) ws" using assms(1) by (simp add: exposure_of_def)
    then show ?thesis using True t assms(4) books_add [OF _ ws(1) assms(3,4) refl refl, of "rg_client_books g"]
      by (auto simp: exposure_of_def add_working_order_quantity_def Let_def client_book_def book_add_def)
  next
    case False
    then show ?thesis using assms(1,4) t by (simp add: exposure_of_def add_working_order_quantity_def Let_def)
  qed
qed

end
