(* ===== verification/Risk_Gateway_Correct.thy ===== *)
theory Risk_Gateway_Correct
  imports Risk_Exposure
begin

text \<open>
  The invariant of the gateway and that every operation keeps it; what an accepted and a rejected request
  change; and the outcome of a check, from which the properties of the gateway follow.
\<close>

section \<open>The invariant\<close>

definition exchange_links :: "(order_id \<times> client_order_id) list \<Rightarrow> working \<Rightarrow> bool" where
  "exchange_links e2c ws \<longleftrightarrow> (\<forall>x c. map_of e2c x = Some c \<longrightarrow> x \<noteq> 0 \<and> (\<exists>wo. map_of ws c = Some wo \<and> wo_exchange_order_id wo = x))"

definition rg_inv_if :: "bool \<Rightarrow> risk_gateway \<Rightarrow> bool" where
  "rg_inv_if strict g \<longleftrightarrow> working_ok (rg_working_orders g) \<and> exposure_of strict g (rg_working_orders g) \<and>
     exchange_links (rg_exchange_to_client_order_ids g) (rg_working_orders g) \<and>
     cs_inv (rg_accepted_client_order_ids g) \<and>
     fst ` set (rg_working_orders g) \<subseteq> cs_members (rg_accepted_client_order_ids g)"

abbreviation rg_inv :: "risk_gateway \<Rightarrow> bool" where
  "rg_inv \<equiv> rg_inv_if True"

lemma rg_inv_new: "rg_inv_if strict (rg_new limits files openable)"
  by (simp add: rg_inv_if_def rg_new_def working_ok_simps exposure_of_def totals_match_def books_match_def book_qty_def
      exchange_links_def cs_inv_new)

text \<open>What recording a decision and counting a message may change.\<close>

definition core :: "risk_gateway \<Rightarrow> _" where
  "core g = ((rg_limits g, rg_kill_switch g, rg_accepted_client_order_ids g, rg_market_state g, rg_positions g),
     (rg_working_quantity g, rg_working_orders g, rg_exchange_to_client_order_ids g, rg_client_books g),
     rg_connected g, rg_record_audit g, rg_disconnect_count g)"

definition same_exposure :: "risk_gateway \<Rightarrow> risk_gateway \<Rightarrow> bool" where
  "same_exposure g g' \<longleftrightarrow> core g' = core g"

lemma same_exposure_refl [simp]: "same_exposure g g"
  by (simp add: same_exposure_def)

lemma same_exposure_trans [trans]: "same_exposure g g1 \<Longrightarrow> same_exposure g1 g2 \<Longrightarrow> same_exposure g g2"
  by (simp add: same_exposure_def)

lemma same_exposure_fields:
  assumes "same_exposure g g'"
  shows "rg_limits g' = rg_limits g" "rg_kill_switch g' = rg_kill_switch g"
    "rg_accepted_client_order_ids g' = rg_accepted_client_order_ids g" "rg_market_state g' = rg_market_state g"
    "rg_positions g' = rg_positions g" "rg_working_quantity g' = rg_working_quantity g"
    "rg_working_orders g' = rg_working_orders g" "rg_exchange_to_client_order_ids g' = rg_exchange_to_client_order_ids g"
    "rg_client_books g' = rg_client_books g" "rg_connected g' = rg_connected g" "rg_record_audit g' = rg_record_audit g"
  using assms by (auto simp: same_exposure_def core_def)

lemma same_exposure_inv: "same_exposure g g' \<Longrightarrow> rg_inv_if strict g' = rg_inv_if strict g"
  by (simp add: rg_inv_if_def exposure_of_def same_exposure_fields)

lemma record_same: "same_exposure g (record_audit_entry e g)"
  by (simp add: same_exposure_def record_audit_entry_def core_def Let_def)

lemma decide_same: "same_exposure g (snd (decide_entry now cid sy sd name ok reason lim obs g))"
  by (simp add: decide_entry_def record_same)

lemma decide_request_same: "same_exposure g (snd (decide_request r now name ok reason lim obs g))"
  unfolding decide_request_def by (rule decide_same)

lemma decide_result [simp]:
  "fst (decide_entry now cid sy sd name ok reason lim obs g) = \<lparr>rk_accepted = ok, rk_reject_reason = reason\<rparr>"
  "fst (decide_request r now name ok reason lim obs g) = \<lparr>rk_accepted = ok, rk_reject_reason = reason\<rparr>"
  by (simp_all add: decide_request_def decide_entry_def)

lemma rate_same: "same_exposure g (snd (snd (rate_limit_allows r now g)))"
  by (simp add: rate_limit_allows_def Let_def same_exposure_def core_def)

section \<open>Accepted ids\<close>

lemma id_accepted_members: "cs_inv (rg_accepted_client_order_ids g) \<Longrightarrow> id_accepted i g \<longleftrightarrow> i \<in> cs_members (rg_accepted_client_order_ids g)"
  by (simp add: id_accepted_def ids.contains_answers)

lemma accept_id_fields:
  assumes "cs_inv (rg_accepted_client_order_ids g)"
  obtains s where "accept_id i g = g\<lparr>rg_accepted_client_order_ids := s\<rparr>" and "cs_inv s"
    and "cs_members s = insert i (cs_members (rg_accepted_client_order_ids g))"
  using ids.insert_grows [OF assms, of i] that by (auto simp: accept_id_def)

lemma accept_id_inv: "rg_inv_if strict g \<Longrightarrow> rg_inv_if strict (accept_id i g)"
proof -
  assume g: "rg_inv_if strict g"
  then have "cs_inv (rg_accepted_client_order_ids g)" by (simp add: rg_inv_if_def)
  then obtain s where "accept_id i g = g\<lparr>rg_accepted_client_order_ids := s\<rparr>" "cs_inv s"
    "cs_members s = insert i (cs_members (rg_accepted_client_order_ids g))" by (rule accept_id_fields)
  with g show ?thesis by (auto simp: rg_inv_if_def exposure_of_def)
qed

section \<open>Working orders\<close>

lemma exposure_of_cong:
  assumes "\<And>sy. wsum (of_symbol sy) ws = wsum (of_symbol sy) ws'" and "\<And>cl sy sd p. wsum (at_price cl sy sd p) ws = wsum (at_price cl sy sd p) ws'"
  shows "exposure_of strict g ws = exposure_of strict g ws'"
  by (simp add: exposure_of_def totals_match_def books_match_def assms)

lemma release_order_ok:
  assumes "rg_inv_if strict g"
  shows "rg_inv_if strict (release_order c g)" and "rg_working_orders (release_order c g) = AList.delete c (rg_working_orders g)"
    and "rg_limits (release_order c g) = rg_limits g"
    and "rg_accepted_client_order_ids (release_order c g) = rg_accepted_client_order_ids g"
    and "rg_kill_switch (release_order c g) = rg_kill_switch g"
proof -
  let ?ws = "rg_working_orders g"
  have goal: "rg_inv_if strict (release_order c g) \<and> rg_working_orders (release_order c g) = AList.delete c ?ws \<and>
    rg_limits (release_order c g) = rg_limits g \<and>
    rg_accepted_client_order_ids (release_order c g) = rg_accepted_client_order_ids g \<and>
    rg_kill_switch (release_order c g) = rg_kill_switch g"
  proof (cases "map_of ?ws c")
    case None
    then have "AList.delete c ?ws = ?ws" by (force simp: AList.delete_eq filter_id_conv map_of_eq_None_iff)
    then show ?thesis using None assms by (simp add: release_order_def)
  next
    case (Some wo)
    have ok: "working_ok ?ws" "exposure_of strict g ?ws" using assms by (simp_all add: rg_inv_if_def)
    have e: "exposure_of strict (release_working_order_quantity wo (wo_quantity wo) g) (AList.delete c ?ws)"
      by (rule release_exposure [OF ok(2,1) Some])
    obtain wq books where f: "release_working_order_quantity wo (wo_quantity wo) g = g\<lparr>rg_working_quantity := wq, rg_client_books := books\<rparr>"
      by (rule release_frame)
    let ?e2c = "if wo_exchange_order_id wo \<noteq> 0 then AList.delete (wo_exchange_order_id wo) (rg_exchange_to_client_order_ids g)
      else rg_exchange_to_client_order_ids g"
    have r: "release_order c g = g\<lparr>rg_working_quantity := wq, rg_client_books := books,
        rg_exchange_to_client_order_ids := ?e2c, rg_working_orders := AList.delete c ?ws\<rparr>"
      by (simp add: release_order_def Some Let_def f)
    have "exchange_links ?e2c (AList.delete c ?ws)"
      using assms Some unfolding rg_inv_if_def exchange_links_def by (auto split: if_splits) (metis option.inject)+
    moreover have "fst ` set (AList.delete c ?ws) \<subseteq> fst ` set ?ws" by (auto simp: AList.delete_eq)
    ultimately show ?thesis using assms e working_ok_simps(2) [OF ok(1)] unfolding r f
      by (auto simp: rg_inv_if_def exposure_of_def)
  qed
  then show "rg_inv_if strict (release_order c g)" "rg_working_orders (release_order c g) = AList.delete c ?ws"
    "rg_limits (release_order c g) = rg_limits g"
    "rg_accepted_client_order_ids (release_order c g) = rg_accepted_client_order_ids g"
    "rg_kill_switch (release_order c g) = rg_kill_switch g" by simp_all
qed

lemma links_update:
  assumes "exchange_links e2c ws" and "\<And>wo. map_of ws c = Some wo \<Longrightarrow> wo_exchange_order_id wo' = wo_exchange_order_id wo"
  shows "exchange_links e2c (AList.update c wo' ws)"
  unfolding exchange_links_def
proof (intro allI impI)
  fix x c'
  assume "map_of e2c x = Some c'"
  then obtain wo where "x \<noteq> 0" "map_of ws c' = Some wo" "wo_exchange_order_id wo = x"
    using assms(1) by (auto simp: exchange_links_def)
  then show "x \<noteq> 0 \<and> (\<exists>wo. map_of (AList.update c wo' ws) c' = Some wo \<and> wo_exchange_order_id wo = x)"
    using assms(2) by (cases "c' = c") auto
qed

lemma change_working_order_ok:
  assumes "rg_inv_if strict g" and "map_of (rg_working_orders g) c = Some wo" and "0 < q"
  obtains wq books where "change_working_order c p q g = g\<lparr>rg_working_quantity := wq, rg_client_books := books,
      rg_working_orders := AList.update c (wo\<lparr>wo_price_ticks := p, wo_quantity := q\<rparr>) (rg_working_orders g)\<rparr>"
    and "rg_inv_if strict (change_working_order c p q g)"
proof -
  let ?ws = "rg_working_orders g" and ?wo = "wo\<lparr>wo_price_ticks := p, wo_quantity := q\<rparr>"
  have ok: "working_ok ?ws" "exposure_of strict g ?ws" using assms(1) by (simp_all add: rg_inv_if_def)
  obtain wq1 b1 where f1: "release_working_order_quantity wo (wo_quantity wo) g = g\<lparr>rg_working_quantity := wq1, rg_client_books := b1\<rparr>"
    by (rule release_frame)
  let ?h = "g\<lparr>rg_working_quantity := wq1, rg_client_books := b1, rg_working_orders := AList.update c ?wo ?ws\<rparr>"
  obtain wq books where f3: "add_working_order_quantity ?wo q ?h = ?h\<lparr>rg_working_quantity := wq, rg_client_books := books\<rparr>"
    by (rule add_frame)
  have c: "change_working_order c p q g = add_working_order_quantity ?wo q ?h"
    by (simp add: change_working_order_def Let_def assms(2) f1)
  have h: "?h\<lparr>rg_working_quantity := wq, rg_client_books := books\<rparr> =
      g\<lparr>rg_working_quantity := wq, rg_client_books := books, rg_working_orders := AList.update c ?wo ?ws\<rparr>" by simp
  have r: "change_working_order c p q g = g\<lparr>rg_working_quantity := wq, rg_client_books := books, rg_working_orders := AList.update c ?wo ?ws\<rparr>"
    unfolding c f3 by (rule h)
  have "exposure_of strict ?h (AList.delete c ?ws)"
    using release_exposure [OF ok(2,1) assms(2)] unfolding f1 by (simp add: exposure_of_def split: if_splits)
  then have "exposure_of strict (add_working_order_quantity ?wo (wo_quantity ?wo) ?h) (AList.update c ?wo (AList.delete c ?ws))"
    using working_ok_simps(2) [OF ok(1)] assms(3) by (intro add_exposure) simp_all
  moreover have "exposure_of strict h (AList.update c ?wo (AList.delete c ?ws)) = exposure_of strict h (AList.update c ?wo ?ws)" for h
    using ok(1) by (intro exposure_of_cong) (simp_all add: wsum_change working_ok_def)
  ultimately have e: "exposure_of strict (change_working_order c p q g) (AList.update c ?wo ?ws)" unfolding c by simp
  have "exchange_links (rg_exchange_to_client_order_ids g) (AList.update c ?wo ?ws)"
    using assms(1,2) by (intro links_update) (simp_all add: rg_inv_if_def)
  moreover have "fst ` set (AList.update c ?wo ?ws) = fst ` set ?ws"
    using map_of_SomeD [OF assms(2)] by (force simp: dom_update)
  ultimately have "rg_inv_if strict (change_working_order c p q g)"
    using assms(1,3) e working_ok_simps(3) [OF ok(1), of ?wo c] unfolding r by (simp add: rg_inv_if_def)
  with that r show thesis by blast
qed

lemma bind_ok:
  assumes "rg_inv_if strict g" and "map_of (rg_working_orders g) c = Some wo"
  shows "rg_inv_if strict (bind_exchange_order_id c i g)"
    and "\<exists>x. map_of (rg_working_orders (bind_exchange_order_id c i g)) c = Some (wo\<lparr>wo_exchange_order_id := x\<rparr>)"
    and "rg_limits (bind_exchange_order_id c i g) = rg_limits g"
    and "rg_accepted_client_order_ids (bind_exchange_order_id c i g) = rg_accepted_client_order_ids g"
    and "rg_kill_switch (bind_exchange_order_id c i g) = rg_kill_switch g"
proof -
  let ?ws = "rg_working_orders g" and ?e2c = "rg_exchange_to_client_order_ids g"
  have goal: "rg_inv_if strict (bind_exchange_order_id c i g) \<and>
    (\<exists>x. map_of (rg_working_orders (bind_exchange_order_id c i g)) c = Some (wo\<lparr>wo_exchange_order_id := x\<rparr>)) \<and>
    rg_limits (bind_exchange_order_id c i g) = rg_limits g \<and>
    rg_accepted_client_order_ids (bind_exchange_order_id c i g) = rg_accepted_client_order_ids g \<and>
    rg_kill_switch (bind_exchange_order_id c i g) = rg_kill_switch g"
  proof (cases "i = 0 \<or> wo_exchange_order_id wo = i")
    case True
    then have "bind_exchange_order_id c i g = g" by (simp add: bind_exchange_order_id_def Let_def assms(2))
    then show ?thesis using assms by (auto intro!: exI [of _ "wo_exchange_order_id wo"])
  next
    case False
    let ?wo = "wo\<lparr>wo_exchange_order_id := i\<rparr>"
    define e2c where "e2c = AList.update i c (if wo_exchange_order_id wo \<noteq> 0 then AList.delete (wo_exchange_order_id wo) ?e2c else ?e2c)"
    have b: "bind_exchange_order_id c i g = g\<lparr>rg_working_orders := AList.update c ?wo ?ws, rg_exchange_to_client_order_ids := e2c\<rparr>"
      using False by (simp add: bind_exchange_order_id_def Let_def assms(2) e2c_def)
    have ok: "working_ok ?ws" "exposure_of strict g ?ws" using assms(1) by (simp_all add: rg_inv_if_def)
    have pos: "0 < wo_quantity ?wo" using working_positive [OF ok(1) assms(2)] by simp
    have "exposure_of strict g (AList.update c ?wo ?ws) = exposure_of strict g ?ws"
      using ok(1) by (intro exposure_of_cong) (simp_all add: wsum_update working_ok_def assms(2) weight_def at_price_def)
    then have e: "exposure_of strict g (AList.update c ?wo ?ws)" using ok(2) by simp
    have "exchange_links e2c (AList.update c ?wo ?ws)"
      using assms False unfolding rg_inv_if_def exchange_links_def e2c_def by (auto split: if_splits) (metis option.inject)+
    moreover have "fst ` set (AList.update c ?wo ?ws) = fst ` set ?ws"
      using map_of_SomeD [OF assms(2)] by (force simp: dom_update)
    ultimately show ?thesis using assms(1) e working_ok_simps(3) [OF ok(1) pos, of c] unfolding b
      by (auto simp: rg_inv_if_def exposure_of_def)
  qed
  then show "rg_inv_if strict (bind_exchange_order_id c i g)"
    "\<exists>x. map_of (rg_working_orders (bind_exchange_order_id c i g)) c = Some (wo\<lparr>wo_exchange_order_id := x\<rparr>)"
    "rg_limits (bind_exchange_order_id c i g) = rg_limits g"
    "rg_accepted_client_order_ids (bind_exchange_order_id c i g) = rg_accepted_client_order_ids g"
    "rg_kill_switch (bind_exchange_order_id c i g) = rg_kill_switch g" by simp_all
qed

lemma register_ok:
  assumes "rg_inv_if strict g" and "nr_client_order_id r \<in> cs_members (rg_accepted_client_order_ids g)"
    and "map_of (rg_working_orders g) (nr_client_order_id r) = None" and "0 < nr_quantity r"
  obtains wq books where "register_working_order r g = (if nr_order_type r = Ot_Limit \<and> nr_time_in_force r = Tif_Gtc
      then g\<lparr>rg_working_quantity := wq, rg_client_books := books, rg_working_orders := AList.update (nr_client_order_id r)
        \<lparr>wo_client_id = nr_client_id r, wo_symbol_id = nr_symbol_id r, wo_side = nr_side r, wo_price_ticks = nr_price_ticks r,
         wo_quantity = nr_quantity r, wo_exchange_order_id = 0\<rparr> (rg_working_orders g)\<rparr> else g)"
    and "rg_inv_if strict (register_working_order r g)"
proof (cases "nr_order_type r = Ot_Limit \<and> nr_time_in_force r = Tif_Gtc")
  case False
  then have "register_working_order r g = g" by (auto simp: register_working_order_def)
  then show thesis using that False assms(1) by simp
next
  case True
  let ?c = "nr_client_order_id r" and ?ws = "rg_working_orders g"
  let ?wo = "\<lparr>wo_client_id = nr_client_id r, wo_symbol_id = nr_symbol_id r, wo_side = nr_side r, wo_price_ticks = nr_price_ticks r,
    wo_quantity = nr_quantity r, wo_exchange_order_id = 0\<rparr>"
  let ?h = "g\<lparr>rg_working_orders := AList.update ?c ?wo ?ws\<rparr>"
  have ok: "working_ok ?ws" "exposure_of strict g ?ws" using assms(1) by (simp_all add: rg_inv_if_def)
  obtain wq books where f: "add_working_order_quantity ?wo (nr_quantity r) ?h = ?h\<lparr>rg_working_quantity := wq, rg_client_books := books\<rparr>"
    by (rule add_frame)
  have r: "register_working_order r g = add_working_order_quantity ?wo (nr_quantity r) ?h"
    using True by (simp add: register_working_order_def Let_def)
  have "exposure_of strict ?h ?ws" using ok(2) by (simp add: exposure_of_def)
  then have "exposure_of strict (add_working_order_quantity ?wo (wo_quantity ?wo) ?h) (AList.update ?c ?wo ?ws)"
    using ok(1) assms(3,4) by (intro add_exposure) simp_all
  then have e: "exposure_of strict (register_working_order r g) (AList.update ?c ?wo ?ws)" unfolding r by simp
  have h: "?h\<lparr>rg_working_quantity := wq, rg_client_books := books\<rparr> =
    g\<lparr>rg_working_quantity := wq, rg_client_books := books, rg_working_orders := AList.update ?c ?wo ?ws\<rparr>" by simp
  have eq: "register_working_order r g = g\<lparr>rg_working_quantity := wq, rg_client_books := books, rg_working_orders := AList.update ?c ?wo ?ws\<rparr>"
    unfolding r f by (rule h)
  have "exchange_links (rg_exchange_to_client_order_ids g) (AList.update ?c ?wo ?ws)"
    using assms(1,3) by (intro links_update) (simp_all add: rg_inv_if_def)
  then have "rg_inv_if strict (register_working_order r g)"
    using assms(1,2) e working_ok_simps(3) [OF ok(1), of ?wo ?c] assms(4) unfolding eq by (auto simp: rg_inv_if_def dom_update)
  then show thesis using that True eq by simp
qed

section \<open>The checks\<close>

lemmas gateway_reads = working_quantity_def rg_position_def notional_for_def gross_exposure_with_def self_trade_check_allows_def id_accepted_def

lemma reads_same:
  assumes "same_exposure g g'"
  shows "working_quantity sy g' = working_quantity sy g" "rg_position sy g' = rg_position sy g" "notional_for r g' = notional_for r g"
    "gross_exposure_with r g' = gross_exposure_with r g" "self_trade_check_allows r g' = self_trade_check_allows r g"
    "id_accepted i g' = id_accepted i g" "tracks_working_orders g' = tracks_working_orders g"
  by (simp_all only: gateway_reads tracks_working_orders_def same_exposure_fields [OF assms])

lemma verdict_same:
  assumes "same_exposure g g'"
  shows "new_order_verdict r now g' = new_order_verdict r now g" and "replace_verdict rr wo now g' = replace_verdict rr wo now g"
  unfolding new_order_verdict_def replace_verdict_def reads_same [OF assms] same_exposure_fields [OF assms] by (rule refl)+

text \<open>An accepted verdict passed every test.\<close>

lemma verdict_None:
  assumes "new_order_verdict r now g = None"
  shows "0 < nr_quantity r" and "\<not> id_accepted (nr_client_order_id r) g" and "nr_order_type r = Ot_Limit \<Longrightarrow> 0 < nr_price_ticks r"
  using assms by (auto simp: new_order_verdict_def Let_def split: if_splits prod.splits)

definition accepted_state :: "new_order_request \<Rightarrow> risk_gateway \<Rightarrow> risk_gateway" where
  "accepted_state r g = (let g = accept_id (nr_client_order_id r) g in if tracks_working_orders g then register_working_order r g else g)"

definition admits :: "new_order_request \<Rightarrow> timestamp_ns \<Rightarrow> risk_gateway \<Rightarrow> bool" where
  "admits r now g \<longleftrightarrow> \<not> rg_kill_switch g \<and> (rg_connected g \<or> rl_disconnect_order_policy (rg_limits g) = Dp_AllowNewOrders) \<and>
     fst (rate_limit_allows r now g) \<and> new_order_verdict r now g = None"

lemma check_new_outcome:
  obtains (rejected) reason g' where "\<not> admits r now g" and "check_new_order r now g = (\<lparr>rk_accepted = False, rk_reject_reason = reason\<rparr>, g')"
      and "same_exposure g g'"
  | (accepted) g1 g' where "admits r now g" and "check_new_order r now g = (\<lparr>rk_accepted = True, rk_reject_reason = Rr_None\<rparr>, g')"
      and "same_exposure g g1" and "same_exposure (accepted_state r g1) g'"
proof -
  let ?out = "check_new_order r now g"
  obtain ok v g1 where rate: "rate_limit_allows r now g = (ok, v, g1)" by (cases "rate_limit_allows r now g") auto
  have s1: "same_exposure g g1" using rate_same [of g r now] rate by simp
  have pol: "rl_disconnect_order_policy (rg_limits g) \<noteq> Dp_AllowNewOrders \<longleftrightarrow> rl_disconnect_order_policy (rg_limits g) = Dp_RejectNewOrders"
    by (cases "rl_disconnect_order_policy (rg_limits g)") simp_all
  have rej: thesis if "\<not> admits r now g" and "?out = decide_request r now name False reason lim obs h" and "same_exposure g h" for name reason lim obs h
  proof (rule rejected [OF that(1)])
    show "?out = (\<lparr>rk_accepted = False, rk_reject_reason = reason\<rparr>, snd ?out)"
      by (rule prod_eqI) (simp_all add: that(2))
    show "same_exposure g (snd ?out)" unfolding that(2) using that(3) decide_request_same by (rule same_exposure_trans)
  qed
  consider "rg_kill_switch g" | "\<not> rg_kill_switch g" "\<not> rg_connected g" "rl_disconnect_order_policy (rg_limits g) = Dp_RejectNewOrders"
    | "\<not> rg_kill_switch g" "rg_connected g \<or> rl_disconnect_order_policy (rg_limits g) \<noteq> Dp_RejectNewOrders" "\<not> ok"
    | "\<not> rg_kill_switch g" "rg_connected g \<or> rl_disconnect_order_policy (rg_limits g) \<noteq> Dp_RejectNewOrders" ok by blast
  then show thesis
  proof cases
    case 1
    then show thesis by (intro rej [of "''kill_switch''" Rr_KillSwitch 0 0 g]) (simp_all add: admits_def check_new_order_def)
  next
    case 2
    then show thesis by (intro rej [of "''disconnected''" Rr_Disconnected 0 0 g]) (simp_all add: admits_def check_new_order_def)
  next
    case 3
    let ?name = "if rl_rate_limit_mode (rg_limits g1) = Rl_SlidingWindow then ''message_rate_limit_sliding'' else ''message_rate_limit''"
    have "?out = decide_request r now ?name False Rr_MessageRateLimit (int (unat (rl_max_messages_per_window (rg_limits g1)))) v g1"
      unfolding check_new_order_def using 3 by (simp only: rate Let_def prod.case simp_thms if_True if_False) auto
    moreover have "\<not> admits r now g" using 3 by (simp add: admits_def rate)
    ultimately show thesis using rej s1 by blast
  next
    case 4
    show thesis
    proof (cases "new_order_verdict r now g")
      case (Some verdict)
      obtain name reason lim obs where v: "verdict = (name, reason, lim, obs)" by (cases verdict)
      have "?out = decide_request r now name False reason lim obs g1"
        using 4 Some v verdict_same(1) [OF s1, of r now] by (auto simp: check_new_order_def rate)
      then show thesis using Some by (intro rej [OF _ _ s1]) (simp_all add: admits_def)
    next
      case None
      have out: "?out = decide_request r now ''accepted'' True Rr_None (rl_max_notional_ticks (rg_limits (accepted_state r g1)))
          (notional_for r g1) (accepted_state r g1)"
        using 4 None verdict_same(1) [OF s1, of r now] by (auto simp: check_new_order_def rate accepted_state_def Let_def)
      have adm: "admits r now g" using 4 None pol by (auto simp: admits_def rate)
      show thesis
      proof (rule accepted [OF adm _ s1])
        show "?out = (\<lparr>rk_accepted = True, rk_reject_reason = Rr_None\<rparr>, snd ?out)"
          by (rule prod_eqI) (simp_all add: out)
        show "same_exposure (accepted_state r g1) (snd ?out)" unfolding out by (rule decide_request_same)
      qed
    qed
  qed
qed

lemma accepted_state_ok:
  assumes "rg_inv_if strict g" and "new_order_verdict r now g = None"
  shows "rg_inv_if strict (accepted_state r g)"
    and "cs_members (rg_accepted_client_order_ids (accepted_state r g)) = insert (nr_client_order_id r) (cs_members (rg_accepted_client_order_ids g))"
    and "rg_working_orders (accepted_state r g) =
      (if tracks_working_orders g \<and> nr_order_type r = Ot_Limit \<and> nr_time_in_force r = Tif_Gtc
       then AList.update (nr_client_order_id r) \<lparr>wo_client_id = nr_client_id r, wo_symbol_id = nr_symbol_id r, wo_side = nr_side r,
         wo_price_ticks = nr_price_ticks r, wo_quantity = nr_quantity r, wo_exchange_order_id = 0\<rparr> (rg_working_orders g)
       else rg_working_orders g)"
    and "rg_limits (accepted_state r g) = rg_limits g" and "rg_kill_switch (accepted_state r g) = rg_kill_switch g"
    and "map_of (rg_working_orders g) (nr_client_order_id r) = None"
proof -
  let ?c = "nr_client_order_id r"
  have cs: "cs_inv (rg_accepted_client_order_ids g)" using assms(1) by (simp add: rg_inv_if_def)
  note v = verdict_None [OF assms(2)]
  have new: "?c \<notin> cs_members (rg_accepted_client_order_ids g)" using v(2) id_accepted_members [OF cs] by simp
  then show none: "map_of (rg_working_orders g) ?c = None" using assms(1) by (auto simp: rg_inv_if_def map_of_eq_None_iff)
  obtain s where s: "accept_id ?c g = g\<lparr>rg_accepted_client_order_ids := s\<rparr>" "cs_inv s"
    "cs_members s = insert ?c (cs_members (rg_accepted_client_order_ids g))" by (rule accept_id_fields [OF cs])
  let ?g = "accept_id ?c g"
  have g1: "rg_inv_if strict ?g" by (rule accept_id_inv [OF assms(1)])
  have g: "?c \<in> cs_members (rg_accepted_client_order_ids ?g)" "map_of (rg_working_orders ?g) ?c = None"
    using s none by simp_all
  have t: "tracks_working_orders ?g = tracks_working_orders g" by (simp add: s tracks_working_orders_def)
  obtain wq books where r: "register_working_order r ?g = (if nr_order_type r = Ot_Limit \<and> nr_time_in_force r = Tif_Gtc
      then ?g\<lparr>rg_working_quantity := wq, rg_client_books := books, rg_working_orders := AList.update ?c
        \<lparr>wo_client_id = nr_client_id r, wo_symbol_id = nr_symbol_id r, wo_side = nr_side r, wo_price_ticks = nr_price_ticks r,
         wo_quantity = nr_quantity r, wo_exchange_order_id = 0\<rparr> (rg_working_orders ?g)\<rparr> else ?g)"
    "rg_inv_if strict (register_working_order r ?g)" by (rule register_ok [OF g1 g v(1)])
  note reg = r(1)
  show "rg_inv_if strict (accepted_state r g)" using g1 r(2) unfolding accepted_state_def Let_def by simp
  show "cs_members (rg_accepted_client_order_ids (accepted_state r g)) = insert ?c (cs_members (rg_accepted_client_order_ids g))"
    "rg_limits (accepted_state r g) = rg_limits g" "rg_kill_switch (accepted_state r g) = rg_kill_switch g"
    unfolding accepted_state_def Let_def reg by (simp_all add: s)
  show "rg_working_orders (accepted_state r g) =
      (if tracks_working_orders g \<and> nr_order_type r = Ot_Limit \<and> nr_time_in_force r = Tif_Gtc
       then AList.update ?c \<lparr>wo_client_id = nr_client_id r, wo_symbol_id = nr_symbol_id r, wo_side = nr_side r,
         wo_price_ticks = nr_price_ticks r, wo_quantity = nr_quantity r, wo_exchange_order_id = 0\<rparr> (rg_working_orders g)
       else rg_working_orders g)"
    unfolding accepted_state_def Let_def t reg by (simp add: s)
qed

lemma replace_entry_None:
  assumes "replace_entry_verdict r g = None" and "rg_inv_if strict g"
  obtains cid wo where "map_of (rg_exchange_to_client_order_ids g) (rr_exchange_order_id r) = Some cid"
    and "map_of (rg_working_orders g) cid = Some wo" and "wo_exchange_order_id wo = rr_exchange_order_id r"
    and "0 < rr_new_quantity r" and "0 < rr_new_price_ticks r" and "\<not> id_accepted (rr_client_order_id r) g" and "\<not> rg_kill_switch g"
proof -
  obtain cid where c: "map_of (rg_exchange_to_client_order_ids g) (rr_exchange_order_id r) = Some cid"
    using assms(1) by (cases "map_of (rg_exchange_to_client_order_ids g) (rr_exchange_order_id r)")
      (simp_all add: replace_entry_verdict_def split: if_splits)
  obtain wo where "map_of (rg_working_orders g) cid = Some wo" "wo_exchange_order_id wo = rr_exchange_order_id r"
    using assms(2) c unfolding rg_inv_if_def exchange_links_def by blast
  then show thesis using that c assms(1) by (simp add: replace_entry_verdict_def split: if_splits)
qed

text \<open>In a well-formed gateway a known exchange id always leads to its order: the second unknown-order branch is dead.\<close>

lemma check_replace_outcome:
  assumes "rg_inv_if strict g"
  obtains (rejected) reason g' where "check_replace_order r now g = (\<lparr>rk_accepted = False, rk_reject_reason = reason\<rparr>, g')"
      and "same_exposure g g'" and "rg_kill_switch g \<Longrightarrow> reason = Rr_KillSwitch"
  | (accepted) cid wo g1 g' where "check_replace_order r now g = (\<lparr>rk_accepted = True, rk_reject_reason = Rr_None\<rparr>, g')"
      and "map_of (rg_exchange_to_client_order_ids g) (rr_exchange_order_id r) = Some cid"
      and "map_of (rg_working_orders g) cid = Some wo" and "wo_exchange_order_id wo = rr_exchange_order_id r"
      and "replace_entry_verdict r g = None" and "replace_verdict r wo now g = None"
      and "same_exposure g g1" and "same_exposure (accept_id (rr_client_order_id r) (change_working_order cid (rr_new_price_ticks r) (rr_new_quantity r) g1)) g'"
proof -
  let ?out = "check_replace_order r now g"
  have rej: thesis if "fst ?out = \<lparr>rk_accepted = False, rk_reject_reason = reason\<rparr>" and "same_exposure g (snd ?out)"
    and "rg_kill_switch g \<Longrightarrow> reason = Rr_KillSwitch" for reason
    by (rule rejected [OF _ that(2,3)]) (simp_all add: prod_eq_iff that(1))
  show thesis
  proof (cases "replace_entry_verdict r g")
    case (Some v)
    obtain name reason lim obs where v: "v = (name, reason, lim, obs)" by (cases v)
    have out: "?out = decide_entry now (rr_client_order_id r) kInvalidSymbolId NoSide name False reason lim obs g"
      using Some v by (simp add: check_replace_order_def)
    have "rg_kill_switch g \<Longrightarrow> reason = Rr_KillSwitch" using Some v by (simp add: replace_entry_verdict_def)
    then show thesis by (intro rej [of reason]) (simp_all add: out decide_same)
  next
    case None
    obtain cid wo where o: "map_of (rg_exchange_to_client_order_ids g) (rr_exchange_order_id r) = Some cid"
      "map_of (rg_working_orders g) cid = Some wo" "wo_exchange_order_id wo = rr_exchange_order_id r" "\<not> rg_kill_switch g"
      by (rule replace_entry_None [OF None assms]) blast
    obtain ok obs g1 where rate: "rate_limit_allows (replacement_request r wo) now g = (ok, obs, g1)"
      by (cases "rate_limit_allows (replacement_request r wo) now g") auto
    have s1: "same_exposure g g1" using rate_same [of g "replacement_request r wo" now] rate by simp
    have out: "?out = (if \<not> ok
         then decide_request (replacement_request r wo) now (if rl_rate_limit_mode (rg_limits g1) = Rl_SlidingWindow
                then ''replace_message_rate_limit_sliding'' else ''replace_message_rate_limit'') False Rr_MessageRateLimit
                (int (unat (rl_max_messages_per_window (rg_limits g1)))) obs g1
         else case replace_verdict r wo now g1 of
           Some (check_name, reason, limit_value, observed_value) \<Rightarrow>
             decide_request (replacement_request r wo) now check_name False reason limit_value observed_value g1
         | None \<Rightarrow>
             let notional = notional_for (replacement_request r wo) g1;
                 g = change_working_order cid (rr_new_price_ticks r) (rr_new_quantity r) g1;
                 g = accept_id (rr_client_order_id r) g
             in decide_request (replacement_request r wo) now ''replace_accepted'' True Rr_None (rl_max_notional_ticks (rg_limits g)) notional g)"
      unfolding check_replace_order_def None option.case o(1,2) option.sel Let_def rate prod.case by (rule refl)
    show thesis
    proof (cases ok)
      case False
      have "same_exposure g (snd ?out)" unfolding out using False s1 decide_request_same same_exposure_trans by simp
      then show thesis using False o(4) by (intro rej [of Rr_MessageRateLimit]) (simp_all add: out)
    next
      case True
      show thesis
      proof (cases "replace_verdict r wo now g1")
        case (Some v)
        obtain name reason lim obs' where v: "v = (name, reason, lim, obs')" by (cases v)
        have out2: "?out = decide_request (replacement_request r wo) now name False reason lim obs' g1"
          unfolding out using True Some v by simp
        have "same_exposure g (snd ?out)" unfolding out2 using s1 decide_request_same by (rule same_exposure_trans)
        then show thesis using o(4) by (intro rej [of reason]) (simp_all add: out2)
      next
        case none: None
        let ?g = "accept_id (rr_client_order_id r) (change_working_order cid (rr_new_price_ticks r) (rr_new_quantity r) g1)"
        have out2: "?out = decide_request (replacement_request r wo) now ''replace_accepted'' True Rr_None
            (rl_max_notional_ticks (rg_limits ?g)) (notional_for (replacement_request r wo) g1) ?g"
          unfolding out Let_def using True none by simp
        have "replace_verdict r wo now g = None" using none verdict_same(2) [OF s1] by simp
        moreover have "?out = (\<lparr>rk_accepted = True, rk_reject_reason = Rr_None\<rparr>, snd ?out)" by (simp add: prod_eq_iff out2)
        moreover have "same_exposure ?g (snd ?out)" unfolding out2 by (rule decide_request_same)
        ultimately show thesis by (intro accepted [of "snd ?out" cid wo g1] o(1-3) None s1)
      qed
    qed
  qed
qed

section \<open>Every operation keeps the invariant\<close>

lemma cancel_all_form:
  obtains h where "core h = core g"
    and "cancel_all_working_orders ts reason name g = h\<lparr>rg_working_quantity := [], rg_working_orders := [],
      rg_exchange_to_client_order_ids := [], rg_client_books := []\<rparr>"
proof -
  let ?f = "\<lambda>(cid, wo) g.
      let g = record_audit_entry \<lparr>ra_timestamp_ns = ts, ra_client_order_id = cid, ra_symbol_id = wo_symbol_id wo,
            ra_side = wo_side wo, ra_accepted = False, ra_reject_reason = reason, ra_check_name = name,
            ra_limit_value = 0, ra_observed_value = wo_quantity wo\<rparr> g
      in if reason = Rr_Disconnected then g\<lparr>rg_disconnect_cancel_count := rg_disconnect_cancel_count g + 1\<rparr> else g"
  have step: "core (?f x g) = core g" for x g
    using record_same [of g] by (cases x) (simp add: same_exposure_def core_def Let_def)
  have fold: "core (fold ?f ws g) = core g" for ws g
    by (induction ws arbitrary: g) (simp_all only: fold_simps comp_apply step)
  define h where "h = (if rg_record_audit g then fold ?f (rg_working_orders g) g
           else if reason = Rr_Disconnected
           then g\<lparr>rg_disconnect_cancel_count := rg_disconnect_cancel_count g + length (rg_working_orders g)\<rparr> else g)"
  show thesis
  proof (rule that)
    show "core h = core g" unfolding h_def using fold [of "rg_working_orders g" g] by (simp add: core_def)
    show "cancel_all_working_orders ts reason name g = h\<lparr>rg_working_quantity := [], rg_working_orders := [],
      rg_exchange_to_client_order_ids := [], rg_client_books := []\<rparr>"
      unfolding cancel_all_working_orders_def Let_def h_def by (rule refl)
  qed
qed

lemma cancel_all_kill: "rg_kill_switch (cancel_all_working_orders ts reason name g) = rg_kill_switch g"
  by (rule cancel_all_form [of g ts reason name]) (simp add: core_def)

lemma cancel_all_ok:
  assumes "rg_inv_if strict g"
  shows "rg_inv_if strict (cancel_all_working_orders ts reason name g)" and "rg_working_orders (cancel_all_working_orders ts reason name g) = []"
    and "rg_limits (cancel_all_working_orders ts reason name g) = rg_limits g"
    and "rg_accepted_client_order_ids (cancel_all_working_orders ts reason name g) = rg_accepted_client_order_ids g"
proof -
  obtain h where "core h = core g" and c: "cancel_all_working_orders ts reason name g = h\<lparr>rg_working_quantity := [], rg_working_orders := [],
      rg_exchange_to_client_order_ids := [], rg_client_books := []\<rparr>" by (rule cancel_all_form)
  then have h: "rg_limits h = rg_limits g" "rg_accepted_client_order_ids h = rg_accepted_client_order_ids g"
    by (simp_all add: core_def)
  show "rg_inv_if strict (cancel_all_working_orders ts reason name g)" using assms unfolding c
    by (simp add: rg_inv_if_def h working_ok_simps exposure_of_def totals_match_def books_match_def book_qty_def exchange_links_def)
  show "rg_working_orders (cancel_all_working_orders ts reason name g) = []"
    "rg_limits (cancel_all_working_orders ts reason name g) = rg_limits g"
    "rg_accepted_client_order_ids (cancel_all_working_orders ts reason name g) = rg_accepted_client_order_ids g"
    unfolding c by (simp_all add: h)
qed

lemma find_by_exchange_present: "find_working_order_by_exchange x g = Some c \<Longrightarrow> map_of (rg_working_orders g) c \<noteq> None"
  by (auto simp: find_working_order_by_exchange_def split: if_splits option.splits)

lemma report_ok:
  assumes "rg_inv_if strict g"
  shows "rg_inv_if strict (on_execution_report rep g)" and "rg_limits (on_execution_report rep g) = rg_limits g"
    and "rg_accepted_client_order_ids (on_execution_report rep g) = rg_accepted_client_order_ids g"
    and "rg_kill_switch (on_execution_report rep g) = rg_kill_switch g"
proof -
  let ?g = "on_execution_report rep g"
  let ?key = "if map_of (rg_working_orders g) (er_client_order_id rep) \<noteq> None then Some (er_client_order_id rep)
    else find_working_order_by_exchange (er_exchange_order_id rep) g"
  let ?done = "er_exec_type rep = Et_Rejected \<or> er_order_status rep = Os_Rejected \<or> er_order_status rep = Os_Canceled \<or>
    er_order_status rep = Os_Filled \<or> er_remaining_quantity rep \<le> 0"
  have goal: "rg_inv_if strict ?g \<and> rg_limits ?g = rg_limits g \<and> rg_accepted_client_order_ids ?g = rg_accepted_client_order_ids g \<and>
    rg_kill_switch ?g = rg_kill_switch g"
  proof (cases "er_client_order_id rep = 0 \<or> ?key = None")
    case True
    then have "?g = g" by (auto simp: on_execution_report_def upsert_working_order_from_report_def Let_def)
    then show ?thesis using assms by simp
  next
    case False
    then obtain cid where key: "?key = Some cid" and c0: "er_client_order_id rep \<noteq> 0" by auto
    obtain wo where wo: "map_of (rg_working_orders g) cid = Some wo"
      using key find_by_exchange_present by (auto split: if_splits)
    show ?thesis
    proof (cases ?done)
      case True
      have "?g = release_order (er_client_order_id rep) g"
        unfolding on_execution_report_def if_not_P [OF c0] upsert_working_order_from_report_def Let_def key option.case
          if_P [OF True] by (intro refl)
      then show ?thesis using release_order_ok [OF assms] by simp
    next
      case False
      let ?h = "bind_exchange_order_id cid (er_exchange_order_id rep) g"
      note b = bind_ok [OF assms wo, of "er_exchange_order_id rep"]
      obtain wo' where wo': "map_of (rg_working_orders ?h) cid = Some wo'" using b(2) by blast
      define p q where "p = (if er_resting_price_ticks rep > 0 then er_resting_price_ticks rep else wo_price_ticks wo')"
        and "q = er_remaining_quantity rep"
      have g: "?g = (if \<not> (wo_quantity wo' \<noteq> q \<or> wo_price_ticks wo' \<noteq> p) then ?h else change_working_order cid p q ?h)"
        unfolding on_execution_report_def if_not_P [OF c0] upsert_working_order_from_report_def Let_def key option.case
          if_not_P [OF False] wo' option.sel p_def q_def by (rule refl)
      have q: "0 < q" using False by (simp add: q_def)
      obtain wq books where c: "change_working_order cid p q ?h = ?h\<lparr>rg_working_quantity := wq, rg_client_books := books,
          rg_working_orders := AList.update cid (wo'\<lparr>wo_price_ticks := p, wo_quantity := q\<rparr>) (rg_working_orders ?h)\<rparr>"
        and inv: "rg_inv_if strict (change_working_order cid p q ?h)"
        by (rule change_working_order_ok [OF b(1) wo' q])
      have "rg_limits (change_working_order cid p q ?h) = rg_limits ?h" "rg_kill_switch (change_working_order cid p q ?h) = rg_kill_switch ?h"
        "rg_accepted_client_order_ids (change_working_order cid p q ?h) = rg_accepted_client_order_ids ?h"
        unfolding c by simp_all
      then show ?thesis using b(1,3-5) inv unfolding g by presburger
    qed
  qed
  then show "rg_inv_if strict ?g" "rg_limits ?g = rg_limits g" "rg_accepted_client_order_ids ?g = rg_accepted_client_order_ids g"
    "rg_kill_switch ?g = rg_kill_switch g" by simp_all
qed

text \<open>What a step keeps: the invariant, and the limits unless it sets them.\<close>

definition keeps :: "bool \<Rightarrow> risk_gateway \<Rightarrow> risk_gateway \<Rightarrow> bool" where
  "keeps strict g g' \<longleftrightarrow> rg_inv_if strict g' \<and> rg_limits g' = rg_limits g \<and>
     cs_members (rg_accepted_client_order_ids g) \<subseteq> cs_members (rg_accepted_client_order_ids g')"

lemma keeps_same: "rg_inv_if strict g \<Longrightarrow> same_exposure g g' \<Longrightarrow> keeps strict g g'"
  by (simp add: keeps_def same_exposure_inv same_exposure_fields)

lemma new_order_keeps:
  assumes "rg_inv_if strict g"
  shows "keeps strict g (snd (check_new_order r now g))"
proof (cases r now g rule: check_new_outcome)
  case (rejected reason g')
  then show ?thesis using assms keeps_same by simp
next
  case (accepted g1 g')
  have g1: "rg_inv_if strict g1" "new_order_verdict r now g1 = None"
    using accepted(1,3) assms same_exposure_inv verdict_same(1) by (auto simp: admits_def)
  then show ?thesis
    using accepted_state_ok(1,2,4) [OF g1] accepted(2) same_exposure_inv [OF accepted(4)] same_exposure_fields [OF accepted(4)]
      same_exposure_fields [OF accepted(3)] by (auto simp: keeps_def)
qed

lemma replace_changed:
  assumes "rg_inv_if strict g" and "map_of (rg_working_orders g) cid = Some wo" and "0 < q" and "same_exposure g g1"
    and "same_exposure (accept_id i (change_working_order cid p q g1)) g'"
  shows "rg_inv_if strict g'" and "rg_limits g' = rg_limits g" and "rg_kill_switch g' = rg_kill_switch g"
    and "cs_members (rg_accepted_client_order_ids g') = insert i (cs_members (rg_accepted_client_order_ids g))"
    and "rg_working_orders g' = AList.update cid (wo\<lparr>wo_price_ticks := p, wo_quantity := q\<rparr>) (rg_working_orders g)"
proof -
  have g1: "rg_inv_if strict g1" "map_of (rg_working_orders g1) cid = Some wo"
    using assms(1,2) same_exposure_inv [OF assms(4)] same_exposure_fields(7) [OF assms(4)] by simp_all
  let ?g = "change_working_order cid p q g1"
  obtain wq books where c: "?g = g1\<lparr>rg_working_quantity := wq, rg_client_books := books,
      rg_working_orders := AList.update cid (wo\<lparr>wo_price_ticks := p, wo_quantity := q\<rparr>) (rg_working_orders g1)\<rparr>"
    and inv: "rg_inv_if strict ?g" by (rule change_working_order_ok [OF g1 assms(3)])
  have cs: "cs_inv (rg_accepted_client_order_ids ?g)" using inv by (simp add: rg_inv_if_def)
  obtain s where s: "accept_id i ?g = ?g\<lparr>rg_accepted_client_order_ids := s\<rparr>"
    "cs_members s = insert i (cs_members (rg_accepted_client_order_ids ?g))" by (rule accept_id_fields [OF cs, of i])
  show "rg_inv_if strict g'" using accept_id_inv [OF inv] same_exposure_inv [OF assms(5)] by simp
  show "rg_limits g' = rg_limits g" "rg_kill_switch g' = rg_kill_switch g"
    "cs_members (rg_accepted_client_order_ids g') = insert i (cs_members (rg_accepted_client_order_ids g))"
    "rg_working_orders g' = AList.update cid (wo\<lparr>wo_price_ticks := p, wo_quantity := q\<rparr>) (rg_working_orders g)"
    unfolding same_exposure_fields [OF assms(5)] s(1) using s(2) same_exposure_fields [OF assms(4)] by (simp_all add: c)
qed

lemma replace_keeps:
  assumes "rg_inv_if strict g"
  shows "keeps strict g (snd (check_replace_order r now g))"
proof (cases rule: check_replace_outcome [OF assms, of r now])
  case (1 reason g')
  then show ?thesis using assms keeps_same by simp
next
  case (2 cid wo g1 g')
  have q: "0 < rr_new_quantity r" by (rule replace_entry_None [OF 2(5) assms])
  show ?thesis using replace_changed [OF assms 2(3) q 2(7,8)] 2(1) by (auto simp: keeps_def)
qed

lemma reserve_ok:
  assumes "cs_inv s"
  shows "\<exists>s'. cs_reserve n s = Some s' \<and> cs_inv s' \<and> cs_members s' = cs_members s"
  by (rule cs_reserve_ok [OF assms, of n]) blast

lemma step_keeps:
  assumes "rg_inv_if strict g" and "\<And>l. op = Rg_Set_Limits l \<Longrightarrow> False"
  shows "keeps strict g (snd (rg_step op g))"
proof (cases op)
  case (Rg_Check_New r now)
  then show ?thesis using new_order_keeps [OF assms(1)] by simp
next
  case (Rg_Check_Replace r now)
  then show ?thesis using replace_keeps [OF assms(1)] by simp
next
  case (Rg_Report rep)
  then show ?thesis using report_ok [OF assms(1)] by (simp add: keeps_def)
next
  case (Rg_Release c)
  then show ?thesis using release_order_ok [OF assms(1)] by (simp add: keeps_def)
next
  case (Rg_Enable_Kill_Switch ts)
  have "rg_inv_if strict (g\<lparr>rg_kill_switch := True\<rparr>)" using assms(1) by (simp add: rg_inv_if_def exposure_of_def)
  then show ?thesis using Rg_Enable_Kill_Switch cancel_all_ok by (simp add: keeps_def enable_kill_switch_def)
next
  case (Rg_Disconnect ts)
  have "rg_inv_if strict (g\<lparr>rg_connected := False, rg_disconnect_count := rg_disconnect_count g + 1\<rparr>)"
    using assms(1) by (simp add: rg_inv_if_def exposure_of_def)
  then show ?thesis using Rg_Disconnect assms(1) cancel_all_ok by (simp add: keeps_def on_disconnect_def Let_def)
next
  case (Rg_Reserve n)
  have cs: "cs_inv (rg_accepted_client_order_ids g)" using assms(1) by (simp add: rg_inv_if_def)
  obtain s where "cs_reserve n (rg_accepted_client_order_ids g) = Some s" "cs_inv s"
    "cs_members s = cs_members (rg_accepted_client_order_ids g)"
    using reserve_ok [OF cs, of n] by blast
  then show ?thesis using Rg_Reserve assms(1) by (simp add: keeps_def rg_inv_if_def exposure_of_def reserve_hot_path_capacity_def)
next
  case (Rg_Set_Limits l)
  then show ?thesis using assms(2) by blast
qed (use assms(1) in \<open>simp_all add: keeps_def rg_inv_if_def exposure_of_def disable_kill_switch_def on_reconnect_def on_market_data_def
  set_position_def set_audit_enabled_def clear_audit_def open_rotating_audit_log_def close_audit_log_def Let_def\<close>)

lemma set_limits_inv:
  "rg_inv g \<Longrightarrow> rl_enable_self_trade_prevention l = rl_enable_self_trade_prevention (rg_limits g) \<Longrightarrow> rg_inv (set_limits l g)"
  by (simp add: rg_inv_if_def exposure_of_def set_limits_def)

lemma set_limits_any: "rg_inv_if False g \<Longrightarrow> rg_inv_if False (set_limits l g)"
  by (simp add: rg_inv_if_def exposure_of_def set_limits_def)

text \<open>Whatever a run does to the limits, the totals and the links stay exact.\<close>

lemma step_any: "rg_inv_if False g \<Longrightarrow> rg_inv_if False (snd (rg_step op g))"
  using step_keeps [of False g op] set_limits_any by (cases "\<exists>l. op = Rg_Set_Limits l") (auto simp: keeps_def)

lemma run_any: "rg_inv_if False g \<Longrightarrow> rg_inv_if False (snd (run_with rg_step ops g))"
  by (induction ops arbitrary: g) (simp_all add: split_beta step_any)

text \<open>A run whose limits never switch self-trade prevention.\<close>

definition same_prevention :: "bool \<Rightarrow> rg_op \<Rightarrow> bool" where
  "same_prevention b op = (case op of Rg_Set_Limits l \<Rightarrow> rl_enable_self_trade_prevention l = b | _ \<Rightarrow> True)"

lemma step_inv:
  assumes "rg_inv g" and "same_prevention (rl_enable_self_trade_prevention (rg_limits g)) op"
  shows "rg_inv (snd (rg_step op g))"
    and "rl_enable_self_trade_prevention (rg_limits (snd (rg_step op g))) = rl_enable_self_trade_prevention (rg_limits g)"
    and "cs_members (rg_accepted_client_order_ids g) \<subseteq> cs_members (rg_accepted_client_order_ids (snd (rg_step op g)))"
proof -
  have "rg_inv (snd (rg_step op g)) \<and>
    rl_enable_self_trade_prevention (rg_limits (snd (rg_step op g))) = rl_enable_self_trade_prevention (rg_limits g) \<and>
    cs_members (rg_accepted_client_order_ids g) \<subseteq> cs_members (rg_accepted_client_order_ids (snd (rg_step op g)))"
  proof (cases "\<exists>l. op = Rg_Set_Limits l")
    case True
    then show ?thesis using assms set_limits_inv by (auto simp: same_prevention_def set_limits_def)
  next
    case False
    then have "keeps True g (snd (rg_step op g))" by (intro step_keeps [OF assms(1)]) blast
    then show ?thesis by (simp add: keeps_def)
  qed
  then show "rg_inv (snd (rg_step op g))"
    "rl_enable_self_trade_prevention (rg_limits (snd (rg_step op g))) = rl_enable_self_trade_prevention (rg_limits g)"
    "cs_members (rg_accepted_client_order_ids g) \<subseteq> cs_members (rg_accepted_client_order_ids (snd (rg_step op g)))" by simp_all
qed

lemma run_inv:
  assumes "rg_inv g" and "list_all (same_prevention (rl_enable_self_trade_prevention (rg_limits g))) ops"
  shows "rg_inv (snd (run_with rg_step ops g)) \<and>
    rl_enable_self_trade_prevention (rg_limits (snd (run_with rg_step ops g))) = rl_enable_self_trade_prevention (rg_limits g)"
  using assms
proof (induction ops arbitrary: g)
  case (Cons op ops)
  have "same_prevention (rl_enable_self_trade_prevention (rg_limits g)) op" using Cons.prems(2) by simp
  note s = step_inv [OF Cons.prems(1) this]
  have "list_all (same_prevention (rl_enable_self_trade_prevention (rg_limits (snd (rg_step op g))))) ops" using Cons.prems(2) s(2) by simp
  then show ?case using Cons.IH [OF s(1)] s(2) by (simp add: split_beta)
qed simp

end
