(* ===== verification/Risk_Properties.thy ===== *)
theory Risk_Properties
  imports Risk_Gateway_Correct
begin

text \<open>
  What the risk gateway promises: exact exposure over any run, every limit respected by an accepted order,
  no self trade, the kill switch, single use of client order ids, and the sliding-window message rate.
\<close>

section \<open>A demonstration gateway\<close>

definition demo_limits :: risk_limits where
  "demo_limits = default_limits\<lparr>rl_max_open_order_quantity := 50, rl_enable_self_trade_prevention := True\<rparr>"

definition demo_request :: "client_order_id \<Rightarrow> side \<Rightarrow> price_ticks \<Rightarrow> quantity \<Rightarrow> new_order_request" where
  "demo_request i sd p q = \<lparr>nr_client_order_id = i, nr_symbol_id = 1, nr_side = sd, nr_order_type = Ot_Limit, nr_price_ticks = p,
     nr_quantity = q, nr_timestamp_ns = 10, nr_client_id = 4, nr_time_in_force = Tif_Gtc, nr_post_only = False\<rparr>"

definition demo_ops :: "rg_op list" where
  "demo_ops = [Rg_Market_Data 1 100 5, Rg_Check_New (demo_request 0 Buy 99 5) 10]"

definition demo_gateway :: risk_gateway where
  "demo_gateway = snd (run_with rg_step demo_ops (rg_new demo_limits [] (\<lambda>_. True)))"

lemma demo_gateway_inv: "rg_inv demo_gateway"
  using run_inv [OF rg_inv_new, where ops = demo_ops]
  by (simp add: demo_gateway_def demo_ops_def same_prevention_def)

lemmas gateway_defs = rg_new_def default_limits_def on_market_data_def check_new_order_def rate_limit_allows_def new_order_verdict_def
  id_accepted_def cs_contains_def cs_new_def self_trade_check_allows_def notional_for_def gross_exposure_with_def
  working_quantity_def rg_position_def accept_id_def cs_insert_def tracks_working_orders_def register_working_order_def
  add_working_order_quantity_def client_book_def add_at_price_def Let_def decide_request_def decide_entry_def abs_i64_def

lemma demo_state:
  "demo_gateway = (rg_new demo_limits [] (\<lambda>_. True))
     \<lparr>rg_market_state := [(1, \<lparr>ms_reference_price_ticks = 100, ms_last_timestamp_ns = 5\<rparr>)],
      rg_accepted_client_order_ids := \<lparr>cs_buckets = [], cs_size = 1, cs_contains_zero = True\<rparr>,
      rg_working_quantity := [(1, 5)],
      rg_working_orders := [(0, \<lparr>wo_client_id = 4, wo_symbol_id = 1, wo_side = Buy, wo_price_ticks = 99, wo_quantity = 5,
        wo_exchange_order_id = 0\<rparr>)],
      rg_client_books := [(client_symbol_key 4 1, \<lparr>cb_buy_qty_by_price = [(99, 5)], cb_sell_qty_by_price = []\<rparr>)]\<rparr>"
  by (simp add: demo_gateway_def demo_ops_def demo_request_def demo_limits_def gateway_defs)

lemma demo_admits: "admits (demo_request 8 Sell 101 3) 12 demo_gateway"
  by (simp add: demo_state admits_def demo_request_def demo_limits_def gateway_defs)

section \<open>Exposure\<close>



text \<open>Why the books need prevention to stay on: an order accepted while it is off is missing from them when
  \<^verbatim>\<open>set_limits\<close> switches it on, and a crossing order of the same client is then accepted.\<close>

definition switch_ops :: "rg_op list" where
  "switch_ops = [Rg_Market_Data 1 100 5, Rg_Check_New (demo_request 0 Buy 99 5) 10, Rg_Set_Limits demo_limits]"

lemma prevention_switched_on_misses_orders:
  "let g = snd (run_with rg_step switch_ops
      (rg_new (demo_limits\<lparr>rl_enable_self_trade_prevention := False\<rparr>) [] (\<lambda>_. True))) in
    rl_enable_self_trade_prevention (rg_limits g) \<and> rg_client_books g = [] \<and>
    map_of (rg_working_orders g) 0 = Some \<lparr>wo_client_id = 4, wo_symbol_id = 1, wo_side = Buy, wo_price_ticks = 99,
      wo_quantity = 5, wo_exchange_order_id = 0\<rparr> \<and>
    admits (demo_request 8 Sell 98 3) 12 g"
  by (simp add: switch_ops_def demo_request_def demo_limits_def set_limits_def admits_def gateway_defs)

text \<open>The message rate, as the code counts it for the client: in the sliding mode the timestamps that are still in the
  window and this one, in the fixed mode the messages since the window began and this one.\<close>

definition within_message_rate :: "new_order_request \<Rightarrow> timestamp_ns \<Rightarrow> risk_gateway \<Rightarrow> bool" where
  "within_message_rate r now g \<longleftrightarrow>
     (let l = rg_limits g; st = (case map_of (rg_rate_states g) (nr_client_id r) of None \<Rightarrow> blank_rate_state | Some st \<Rightarrow> st);
          expired = (\<lambda>t. now - t \<ge> rl_rate_window_ns l)
      in rl_max_messages_per_window l = 0 \<or> rl_rate_window_ns l \<le> 0 \<or>
         (if rl_rate_limit_mode l = Rl_SlidingWindow
          then length (dropWhile expired (rs_sliding_timestamps st)) + 1 \<le> unat (rl_max_messages_per_window l)
          else (if rs_active st \<and> \<not> expired (rs_window_start_ns st) then rs_count st else 0) + 1 \<le> rl_max_messages_per_window l))"

lemma rate_allows: "fst (rate_limit_allows r now g) \<longleftrightarrow> within_message_rate r now g"
  by (simp add: rate_limit_allows_def within_message_rate_def Let_def)

text \<open>C22: an accepted order passed every test of the gateway, as values of the state in which it was checked: the kill
  switch, the connection, the client's message rate, quantity and price, its unused client order id, the maximum
  quantity, the age of the market data, the price band, the notional, the self-trade test, the open order quantity, the
  position and the gross exposure.\<close>

theorem accepted_order_within_limits:
  assumes "rk_accepted (fst (check_new_order r now g))"
  shows "\<not> rg_kill_switch g \<and> (rg_connected g \<or> rl_disconnect_order_policy (rg_limits g) = Dp_AllowNewOrders) \<and>
    within_message_rate r now g \<and> \<not> id_accepted (nr_client_order_id r) g \<and> fst (self_trade_check_allows r g) \<and>
    0 < nr_quantity r \<and> nr_quantity r \<le> rl_max_order_quantity (rg_limits g) \<and>
    (\<exists>m. map_of (rg_market_state g) (nr_symbol_id r) = Some m \<and>
      (rl_stale_after_ns (rg_limits g) \<le> 0 \<or> now - ms_last_timestamp_ns m \<le> rl_stale_after_ns (rg_limits g)) \<and>
      (nr_order_type r = Ot_Limit \<longrightarrow> 0 < nr_price_ticks r \<and>
         \<bar>nr_price_ticks r - ms_reference_price_ticks m\<bar> \<le> rl_price_band_ticks (rg_limits g)) \<and>
      \<bar>(if nr_order_type r = Ot_Market then ms_reference_price_ticks m else nr_price_ticks r) * nr_quantity r\<bar>
        \<le> rl_max_notional_ticks (rg_limits g)) \<and>
    (rl_max_open_order_quantity (rg_limits g) \<le> 0 \<or> nr_order_type r \<noteq> Ot_Limit \<or> nr_time_in_force r \<noteq> Tif_Gtc \<or>
      working_quantity (nr_symbol_id r) g + nr_quantity r \<le> rl_max_open_order_quantity (rg_limits g)) \<and>
    \<bar>rg_position (nr_symbol_id r) g + (if nr_side r = Buy then nr_quantity r else - nr_quantity r)\<bar>
      \<le> rl_max_position_per_symbol (rg_limits g) \<and>
    gross_exposure_with r g \<le> rl_max_gross_exposure_ticks (rg_limits g)"
proof (cases r now g rule: check_new_outcome)
  case (rejected reason g')
  then show ?thesis using assms by simp
next
  case (accepted g1 g')
  then have v: "new_order_verdict r now g = None" and a: "\<not> rg_kill_switch g" "within_message_rate r now g"
    "rg_connected g \<or> rl_disconnect_order_policy (rg_limits g) = Dp_AllowNewOrders" by (simp_all add: admits_def rate_allows)
  obtain m where m: "map_of (rg_market_state g) (nr_symbol_id r) = Some m"
    using v by (cases "map_of (rg_market_state g) (nr_symbol_id r)") (simp_all add: new_order_verdict_def Let_def split: if_splits prod.splits)
  have n: "notional_for r g = \<bar>(if nr_order_type r = Ot_Market then ms_reference_price_ticks m else nr_price_ticks r) * nr_quantity r\<bar>"
    by (simp add: notional_for_def m abs_i64_def)
  show ?thesis using a v verdict_None [OF v]
    by (simp add: new_order_verdict_def Let_def m n not_less abs_i64_def split: if_splits prod.splits)
qed

lemma accepted_order_within_limits_witness:
  "working_quantity 1 demo_gateway + 3 \<le> rl_max_open_order_quantity (rg_limits demo_gateway)"
proof (cases "demo_request 8 Sell 101 3" "12::int" demo_gateway rule: check_new_outcome)
  case (rejected reason g')
  then show ?thesis using demo_admits by simp
next
  case (accepted g1 g')
  show ?thesis using accepted_order_within_limits [of "demo_request 8 Sell 101 3" 12 demo_gateway] accepted(2)
    by (simp add: demo_request_def) (simp add: demo_state demo_limits_def gateway_defs)
qed

section \<open>What a request changes\<close>

lemma inv_working_quantity: "rg_inv g \<Longrightarrow> working_quantity sy g = wsum (of_symbol sy) (rg_working_orders g)"
  by (simp add: rg_inv_if_def exposure_of_def totals_match_def working_quantity_def)

lemma new_effect:
  assumes "rg_inv g"
  shows "let (answer, g') = check_new_order r now g;
      tracked = (tracks_working_orders g \<and> nr_order_type r = Ot_Limit \<and> nr_time_in_force r = Tif_Gtc) in
    if rk_accepted answer
    then nr_client_order_id r \<notin> cs_members (rg_accepted_client_order_ids g) \<and>
      cs_members (rg_accepted_client_order_ids g') = insert (nr_client_order_id r) (cs_members (rg_accepted_client_order_ids g)) \<and>
      working_quantity sy g' = working_quantity sy g + (if tracked \<and> sy = nr_symbol_id r then nr_quantity r else 0) \<and>
      (\<forall>c. map_of (rg_working_orders g') c = (if tracked \<and> c = nr_client_order_id r
         then Some \<lparr>wo_client_id = nr_client_id r, wo_symbol_id = nr_symbol_id r, wo_side = nr_side r,
           wo_price_ticks = nr_price_ticks r, wo_quantity = nr_quantity r, wo_exchange_order_id = 0\<rparr>
         else map_of (rg_working_orders g) c))
    else rg_working_orders g' = rg_working_orders g \<and> rg_working_quantity g' = rg_working_quantity g \<and>
      rg_client_books g' = rg_client_books g \<and> rg_accepted_client_order_ids g' = rg_accepted_client_order_ids g"
proof (cases r now g rule: check_new_outcome)
  case (rejected reason g')
  then show ?thesis by (simp add: same_exposure_fields)
next
  case (accepted g1 g')
  note f1 = same_exposure_fields [OF accepted(3)] and f = same_exposure_fields [OF accepted(4)]
  have g1: "rg_inv g1" "new_order_verdict r now g1 = None"
    using accepted(1,3) assms same_exposure_inv verdict_same(1) by (auto simp: admits_def)
  note a = accepted_state_ok [OF g1]
  have new: "nr_client_order_id r \<notin> cs_members (rg_accepted_client_order_ids g1)"
    using verdict_None(2) [OF g1(2)] g1(1) by (simp add: id_accepted_members rg_inv_if_def)
  have inv: "rg_inv g'" using a(1) same_exposure_inv [OF accepted(4)] by simp
  have d: "distinct (map fst (rg_working_orders g1))" using g1(1) by (simp add: rg_inv_if_def working_ok_def)
  have t: "tracks_working_orders g1 = tracks_working_orders g" by (rule reads_same(7) [OF accepted(3)])
  show ?thesis using new a(2,6) unfolding accepted(2) Let_def prod.case inv_working_quantity [OF inv] inv_working_quantity [OF assms] f a(3) f1(7) [symmetric]
    by (auto simp: t f1 wsum_update [OF d [unfolded f1(7)]] weight_def)
qed

text \<open>A rejected new order leaves the orders, the exposure and the accepted ids as they were; an accepted one uses
  up its client order id, which was unused, and, when the gateway tracks working orders and the order can rest,
  raises the working quantity of its symbol by exactly its quantity and of no other symbol.\<close>

theorem new_order_effect:
  assumes "rg_inv g"
  shows "let (answer, g') = check_new_order r now g;
      tracked = (tracks_working_orders g \<and> nr_order_type r = Ot_Limit \<and> nr_time_in_force r = Tif_Gtc) in
    if rk_accepted answer
    then nr_client_order_id r \<notin> cs_members (rg_accepted_client_order_ids g) \<and>
      cs_members (rg_accepted_client_order_ids g') = insert (nr_client_order_id r) (cs_members (rg_accepted_client_order_ids g)) \<and>
      working_quantity sy g' = working_quantity sy g + (if tracked \<and> sy = nr_symbol_id r then nr_quantity r else 0) \<and>
      (\<forall>c. map_of (rg_working_orders g') c = (if tracked \<and> c = nr_client_order_id r
         then Some \<lparr>wo_client_id = nr_client_id r, wo_symbol_id = nr_symbol_id r, wo_side = nr_side r,
           wo_price_ticks = nr_price_ticks r, wo_quantity = nr_quantity r, wo_exchange_order_id = 0\<rparr>
         else map_of (rg_working_orders g) c))
    else rg_working_orders g' = rg_working_orders g \<and> rg_working_quantity g' = rg_working_quantity g \<and>
      rg_client_books g' = rg_client_books g \<and> rg_accepted_client_order_ids g' = rg_accepted_client_order_ids g"
  by (rule new_effect [OF assms])

lemma new_order_effect_witness: "working_quantity 1 (snd (check_new_order (demo_request 8 Sell 101 3) 12 demo_gateway)) = 8"
proof -
  obtain g' where g': "check_new_order (demo_request 8 Sell 101 3) 12 demo_gateway = (\<lparr>rk_accepted = True, rk_reject_reason = Rr_None\<rparr>, g')"
    using demo_admits by (cases "demo_request 8 Sell 101 3" "12::int" demo_gateway rule: check_new_outcome) auto
  show ?thesis using new_order_effect [OF demo_gateway_inv, of "demo_request 8 Sell 101 3" 12 1] g'
    by (simp add: demo_request_def Let_def) (simp add: demo_state demo_limits_def gateway_defs)
qed

text \<open>An accepted replace moves exactly the replaced order: its symbol's working quantity changes by the difference
  of the quantities, the order gets the new price and quantity and keeps the client order id it was accepted
  under, no other order changes; a rejected replace changes nothing.\<close>

theorem replace_effect:
  assumes "rg_inv g"
  shows "let (answer, g') = check_replace_order r now g in
    if rk_accepted answer
    then (\<exists>cid wo. map_of (rg_working_orders g) cid = Some wo \<and> wo_exchange_order_id wo = rr_exchange_order_id r \<and>
      rg_working_orders g' = AList.update cid (wo\<lparr>wo_price_ticks := rr_new_price_ticks r, wo_quantity := rr_new_quantity r\<rparr>)
        (rg_working_orders g) \<and>
      (\<forall>sy. working_quantity sy g' = working_quantity sy g +
        (if sy = wo_symbol_id wo then rr_new_quantity r - wo_quantity wo else 0)) \<and>
      rr_new_quantity r \<le> rl_max_order_quantity (rg_limits g) \<and>
      (rl_max_open_order_quantity (rg_limits g) > 0 \<longrightarrow>
        working_quantity (wo_symbol_id wo) g' \<le> rl_max_open_order_quantity (rg_limits g)))
    else rg_working_orders g' = rg_working_orders g \<and> rg_working_quantity g' = rg_working_quantity g"
proof (cases rule: check_replace_outcome [OF assms, of r now])
  case (1 reason g')
  then show ?thesis by (simp add: same_exposure_fields)
next
  case (2 cid wo g1 g')
  have q: "0 < rr_new_quantity r" by (rule replace_entry_None [OF 2(5) assms])
  note c = replace_changed [OF assms 2(3) q 2(7,8)]
  have d: "distinct (map fst (rg_working_orders g))" using assms by (simp add: rg_inv_if_def working_ok_def)
  have w: "working_quantity sy g' = working_quantity sy g + (if sy = wo_symbol_id wo then rr_new_quantity r - wo_quantity wo else 0)" for sy
    by (simp add: inv_working_quantity c(1) assms c(5) wsum_update [OF d] weight_def 2(3))
  have "rr_new_quantity r \<le> rl_max_order_quantity (rg_limits g)"
    "rl_max_open_order_quantity (rg_limits g) > 0 \<longrightarrow>
      working_quantity (wo_symbol_id wo) g - wo_quantity wo + rr_new_quantity r \<le> rl_max_open_order_quantity (rg_limits g)"
    using 2(6) by (auto simp: replace_verdict_def Let_def not_less split: if_splits prod.splits)
  then show ?thesis using 2(3,4) c(5) by (auto simp: 2(1) w intro!: exI [of _ cid] exI [of _ wo])
qed

text \<open>The demonstration order is acknowledged as exchange order 77 and then replaced.\<close>

definition demo_bound :: risk_gateway where
  "demo_bound = bind_exchange_order_id 0 77 demo_gateway"

definition demo_replace :: replace_order_request where
  "demo_replace = \<lparr>rr_client_order_id = 9, rr_exchange_order_id = 77, rr_new_price_ticks = 98, rr_new_quantity = 12,
     rr_timestamp_ns = 20\<rparr>"

lemma demo_bound_inv: "rg_inv demo_bound"
proof -
  have "map_of (rg_working_orders demo_gateway) 0 = Some \<lparr>wo_client_id = 4, wo_symbol_id = 1, wo_side = Buy,
    wo_price_ticks = 99, wo_quantity = 5, wo_exchange_order_id = 0\<rparr>" by (simp add: demo_state)
  then show ?thesis unfolding demo_bound_def by (rule bind_ok(1) [OF demo_gateway_inv])
qed

lemma demo_replace_accepted: "rk_accepted (fst (check_replace_order demo_replace 20 demo_bound))"
  by (simp add: demo_bound_def bind_exchange_order_id_def demo_state demo_replace_def check_replace_order_def replace_entry_verdict_def
      replace_verdict_def replacement_request_def demo_limits_def gateway_defs)

lemma replace_effect_witness: "working_quantity 1 (snd (check_replace_order demo_replace 20 demo_bound)) = 12"
proof -
  have w: "rg_working_orders demo_bound = [(0, \<lparr>wo_client_id = 4, wo_symbol_id = 1, wo_side = Buy, wo_price_ticks = 99,
      wo_quantity = 5, wo_exchange_order_id = 77\<rparr>)]" "working_quantity 1 demo_bound = 5"
    by (simp_all add: demo_bound_def bind_exchange_order_id_def demo_state working_quantity_def)
  show ?thesis using replace_effect [OF demo_bound_inv, of demo_replace 20] demo_replace_accepted
    by (auto simp: Let_def split_beta w demo_replace_def split: if_splits)
qed

section \<open>Self trades\<close>

text \<open>The head of a price map is its best price.\<close>

lemma ladder_head:
  assumes "ladder_sorted sd m" and "map_of m p = Some q" and "is_valid_side sd"
  shows "m \<noteq> []" and "if sd = Buy then p \<le> fst (hd m) else fst (hd m) \<le> p"
proof -
  have p: "p \<in> fst ` set m" using map_of_SomeD [OF assms(2)] by force
  then show "m \<noteq> []" by auto
  then obtain x xs where "m = x # xs" by (cases m) auto
  then show "if sd = Buy then p \<le> fst (hd m) else fst (hd m) \<le> p"
    using assms(1) p by (auto simp: ladder_sorted_def bid_order.tiers_def ask_order.tiers_def split: if_splits)
qed

lemma book_has_order:
  assumes "rg_inv g" and "rl_enable_self_trade_prevention (rg_limits g)" and "map_of (rg_working_orders g) c = Some wo"
    and "is_valid_side (wo_side wo)"
  obtains b q where "map_of (rg_client_books g) (client_symbol_key (wo_client_id wo) (wo_symbol_id wo)) = Some b"
    and "ladder_sorted (wo_side wo) (book_side (wo_side wo) b)" and "map_of (book_side (wo_side wo) b) (wo_price_ticks wo) = Some q"
proof -
  let ?P = "at_price (wo_client_id wo) (wo_symbol_id wo) (wo_side wo) (wo_price_ticks wo)"
  have bm: "books_match (rg_client_books g) (rg_working_orders g)" and ok: "working_ok (rg_working_orders g)"
    using assms(1,2) by (simp_all add: rg_inv_if_def exposure_of_def)
  have "wo_quantity wo \<le> wsum ?P (rg_working_orders g)"
    using ok by (intro wsum_member [OF _ assms(3)]) (simp_all add: working_ok_def at_price_def)
  then have "0 < wsum ?P (rg_working_orders g)" using working_positive [OF ok assms(3)] by simp
  then have "0 < book_qty (rg_client_books g) (wo_client_id wo) (wo_symbol_id wo) (wo_side wo) (wo_price_ticks wo)"
    using bm assms(4) by (auto simp: books_match_def)
  then obtain b q where b: "map_of (rg_client_books g) (client_symbol_key (wo_client_id wo) (wo_symbol_id wo)) = Some b"
    "map_of (book_side (wo_side wo) b) (wo_price_ticks wo) = Some q"
    by (auto simp: book_qty_def qty_at_def split: option.splits)
  have "ladder_sorted (wo_side wo) (book_side (wo_side wo) b)"
    using books_match_sorted [OF bm b(1)] assms(4) by (cases "wo_side wo") (simp_all add: book_sorted_def book_side_def)
  then show thesis using that b by blast
qed

text \<open>An order that the self-trade test lets pass does not cross the client's orders on the other side.\<close>

lemma allowed_does_not_cross:
  assumes "rg_inv g" and "rl_enable_self_trade_prevention (rg_limits g)" and "fst (self_trade_check_allows r g)"
    and "\<not> nr_post_only r" and "map_of (rg_working_orders g) c = Some wo" and "wo_client_id wo = nr_client_id r"
    and "wo_symbol_id wo = nr_symbol_id r" and "(nr_side r, wo_side wo) \<in> {(Buy, Sell), (Sell, Buy)}"
  shows "nr_order_type r \<noteq> Ot_Market \<and>
    (if nr_side r = Buy then nr_price_ticks r < wo_price_ticks wo else wo_price_ticks wo < nr_price_ticks r)"
proof -
  have valid: "is_valid_side (wo_side wo)" using assms(8) by auto
  obtain b q where b: "map_of (rg_client_books g) (client_symbol_key (wo_client_id wo) (wo_symbol_id wo)) = Some b"
    "ladder_sorted (wo_side wo) (book_side (wo_side wo) b)" "map_of (book_side (wo_side wo) b) (wo_price_ticks wo) = Some q"
    by (rule book_has_order [OF assms(1,2,5) valid])
  show ?thesis using ladder_head [OF b(2,3) valid] b(1) assms(2-4,6-8)
    by (auto simp: self_trade_check_allows_def book_side_def Let_def split: if_splits)
qed

text \<open>C21: in every gateway that a run reaches with self-trade prevention on from the start and never switched off, no
  accepted request can match a working order of the same client and symbol. An accepted new order that is not
  post-only is not a market order when the client has such an order on the other side, and its price does not
  cross it; the new price of an accepted replace does not cross any of them either. A post-only order is not tested by
  the gateway: the engine rejects it when it would cross any order.\<close>

theorem gateway_no_self_trade:
  assumes "rl_enable_self_trade_prevention limits" and "list_all (same_prevention True) ops"
  shows "let g = snd (run_with rg_step ops (rg_new limits files openable)) in
    (rk_accepted (fst (check_new_order r now g)) \<and> \<not> nr_post_only r \<longrightarrow>
      (\<forall>c wo. map_of (rg_working_orders g) c = Some wo \<and> wo_client_id wo = nr_client_id r \<and> wo_symbol_id wo = nr_symbol_id r \<and>
        (nr_side r, wo_side wo) \<in> {(Buy, Sell), (Sell, Buy)} \<longrightarrow> nr_order_type r \<noteq> Ot_Market \<and>
        (if nr_side r = Buy then nr_price_ticks r < wo_price_ticks wo else wo_price_ticks wo < nr_price_ticks r))) \<and>
    (rk_accepted (fst (check_replace_order q now g)) \<longrightarrow>
      (\<exists>cid old. map_of (rg_exchange_to_client_order_ids g) (rr_exchange_order_id q) = Some cid \<and>
        map_of (rg_working_orders g) cid = Some old \<and>
        (\<forall>c wo. map_of (rg_working_orders g) c = Some wo \<and> wo_client_id wo = wo_client_id old \<and>
          wo_symbol_id wo = wo_symbol_id old \<and> (wo_side old, wo_side wo) \<in> {(Buy, Sell), (Sell, Buy)} \<longrightarrow>
          (if wo_side old = Buy then rr_new_price_ticks q < wo_price_ticks wo else wo_price_ticks wo < rr_new_price_ticks q))))"
proof -
  let ?g = "snd (run_with rg_step ops (rg_new limits files openable))"
  have inv: "rg_inv ?g" and on: "rl_enable_self_trade_prevention (rg_limits ?g)"
    using run_inv [OF rg_inv_new [of True limits files openable], of ops] assms by (simp_all add: rg_new_def)
  note free = allowed_does_not_cross [OF inv on]
  have "fst (self_trade_check_allows r ?g)" if "rk_accepted (fst (check_new_order r now ?g))"
  proof -
    have "admits r now ?g" using that by (cases r now ?g rule: check_new_outcome) auto
    then show ?thesis by (auto simp: admits_def new_order_verdict_def Let_def split: if_splits prod.splits)
  qed
  note new = free [OF this]
  have replaced: "\<exists>cid old. map_of (rg_exchange_to_client_order_ids ?g) (rr_exchange_order_id q) = Some cid \<and>
      map_of (rg_working_orders ?g) cid = Some old \<and> fst (self_trade_check_allows (replacement_request q old) ?g)"
    if "rk_accepted (fst (check_replace_order q now ?g))"
  proof (cases rule: check_replace_outcome [OF inv, of q now])
    case (1 reason g')
    then show ?thesis using that by simp
  next
    case (2 cid wo g1 g')
    have "fst (self_trade_check_allows (replacement_request q wo) ?g)"
      using 2(6) by (auto simp: replace_verdict_def Let_def split: if_splits prod.splits)
    then show ?thesis using 2(2,3) by blast
  qed
  have crosses: "(if wo_side old = Buy then rr_new_price_ticks q < wo_price_ticks wo else wo_price_ticks wo < rr_new_price_ticks q)"
    if "fst (self_trade_check_allows (replacement_request q old) ?g)" "map_of (rg_working_orders ?g) c = Some wo"
      "wo_client_id wo = wo_client_id old" "wo_symbol_id wo = wo_symbol_id old" "(wo_side old, wo_side wo) \<in> {(Buy, Sell), (Sell, Buy)}" for old c wo
    using free [OF that(1) _ that(2)] that(3-5) by (auto simp: replacement_request_def)
  show ?thesis unfolding Let_def
  proof (intro conjI impI, elim conjE)
    assume "rk_accepted (fst (check_new_order r now ?g))" and "\<not> nr_post_only r"
    from new [OF this] show "\<forall>c wo. map_of (rg_working_orders ?g) c = Some wo \<and> wo_client_id wo = nr_client_id r \<and>
        wo_symbol_id wo = nr_symbol_id r \<and> (nr_side r, wo_side wo) \<in> {(Buy, Sell), (Sell, Buy)} \<longrightarrow> nr_order_type r \<noteq> Ot_Market \<and>
        (if nr_side r = Buy then nr_price_ticks r < wo_price_ticks wo else wo_price_ticks wo < nr_price_ticks r)"
      by (intro allI impI; elim conjE)
  next
    assume "rk_accepted (fst (check_replace_order q now ?g))"
    from replaced [OF this] obtain cid old where old: "map_of (rg_exchange_to_client_order_ids ?g) (rr_exchange_order_id q) = Some cid"
      "map_of (rg_working_orders ?g) cid = Some old" "fst (self_trade_check_allows (replacement_request q old) ?g)" by blast
    show "\<exists>cid old. map_of (rg_exchange_to_client_order_ids ?g) (rr_exchange_order_id q) = Some cid \<and>
        map_of (rg_working_orders ?g) cid = Some old \<and>
        (\<forall>c wo. map_of (rg_working_orders ?g) c = Some wo \<and> wo_client_id wo = wo_client_id old \<and>
          wo_symbol_id wo = wo_symbol_id old \<and> (wo_side old, wo_side wo) \<in> {(Buy, Sell), (Sell, Buy)} \<longrightarrow>
          (if wo_side old = Buy then rr_new_price_ticks q < wo_price_ticks wo else wo_price_ticks wo < rr_new_price_ticks q))"
      by (rule exI [of _ cid], rule exI [of _ old]) (intro conjI old(1,2) allI impI; elim conjE; rule crosses [OF old(3)])
  qed
qed

definition demo_order :: working_order where
  "demo_order = \<lparr>wo_client_id = 4, wo_symbol_id = 1, wo_side = Buy, wo_price_ticks = 99, wo_quantity = 5, wo_exchange_order_id = 0\<rparr>"

lemma gateway_no_self_trade_witness: "wo_price_ticks demo_order < nr_price_ticks (demo_request 8 Sell 101 3)"
proof -
  let ?r = "demo_request 8 Sell 101 3"
  have acc: "rk_accepted (fst (check_new_order ?r 12 demo_gateway))"
    using demo_admits by (cases ?r "12::int" demo_gateway rule: check_new_outcome) auto
  have d: "rl_enable_self_trade_prevention demo_limits" "list_all (same_prevention True) demo_ops" "\<not> nr_post_only ?r"
    "map_of (rg_working_orders demo_gateway) 0 = Some demo_order" "wo_client_id demo_order = nr_client_id ?r"
    "wo_symbol_id demo_order = nr_symbol_id ?r" "(nr_side ?r, wo_side demo_order) \<in> {(Buy, Sell), (Sell, Buy)}"
    by (simp_all add: demo_request_def demo_state demo_limits_def rg_new_def demo_order_def demo_ops_def same_prevention_def)
  have "nr_side ?r = Sell" by (simp add: demo_request_def)
  then show ?thesis
    using gateway_no_self_trade [OF d(1,2), of "[]" "\<lambda>_. True" ?r 12, folded demo_gateway_def] acc d(3-7) by (simp add: Let_def)
qed

section \<open>The kill switch\<close>

definition killed :: "risk_gateway \<Rightarrow> bool" where
  "killed g \<longleftrightarrow> rg_kill_switch g \<and> rg_working_orders g = [] \<and> rg_working_quantity g = [] \<and>
     rg_exchange_to_client_order_ids g = [] \<and> rg_client_books g = []"

lemma cancel_all_killed: "rg_kill_switch (cancel_all_working_orders ts reason name g) \<Longrightarrow> killed (cancel_all_working_orders ts reason name g)"
  by (simp add: killed_def cancel_all_working_orders_def Let_def)

lemma killed_same: "killed g \<Longrightarrow> same_exposure g g' \<Longrightarrow> killed g'"
  by (simp add: killed_def same_exposure_fields)

lemma killed_step:
  assumes "killed g" and "op \<noteq> Rg_Disable_Kill_Switch"
  shows "killed (snd (rg_step op g))" and "fst (rg_step op g) \<in> {None, Some \<lparr>rk_accepted = False, rk_reject_reason = Rr_KillSwitch\<rparr>}"
proof -
  have "killed (snd (rg_step op g)) \<and> fst (rg_step op g) \<in> {None, Some \<lparr>rk_accepted = False, rk_reject_reason = Rr_KillSwitch\<rparr>}"
  proof (cases op)
    case (Rg_Check_New r now)
    have "check_new_order r now g = decide_request r now ''kill_switch'' False Rr_KillSwitch 0 0 g"
      using assms(1) by (simp add: check_new_order_def killed_def)
    then show ?thesis using killed_same [OF assms(1) decide_request_same] by (simp add: Rg_Check_New)
  next
    case (Rg_Check_Replace r now)
    have "check_replace_order r now g = decide_entry now (rr_client_order_id r) kInvalidSymbolId NoSide ''kill_switch'' False Rr_KillSwitch 0 0 g"
      using assms(1) by (simp add: check_replace_order_def replace_entry_verdict_def killed_def)
    then show ?thesis using killed_same [OF assms(1) decide_same] by (simp add: Rg_Check_Replace)
  next
    case (Rg_Report rep)
    then show ?thesis using assms(1)
      by (simp add: on_execution_report_def upsert_working_order_from_report_def find_working_order_by_exchange_def killed_def Let_def)
  next
    case (Rg_Enable_Kill_Switch ts)
    then show ?thesis using cancel_all_killed [of ts Rr_KillSwitch "''kill_switch_cancel''" "g\<lparr>rg_kill_switch := True\<rparr>"]
        cancel_all_kill [of ts Rr_KillSwitch "''kill_switch_cancel''" "g\<lparr>rg_kill_switch := True\<rparr>"]
      by (simp add: enable_kill_switch_def)
  next
    case (Rg_Disconnect ts)
    let ?h = "g\<lparr>rg_connected := False, rg_disconnect_count := rg_disconnect_count g + 1\<rparr>"
    have "killed (cancel_all_working_orders ts Rr_Disconnected ''disconnect_cancel'' ?h)"
      using assms(1) by (intro cancel_all_killed) (simp add: cancel_all_kill killed_def)
    moreover have "killed ?h" using assms(1) by (simp add: killed_def)
    ultimately show ?thesis using assms(1) by (simp add: Rg_Disconnect on_disconnect_def Let_def)
  qed (use assms in \<open>simp_all add: killed_def release_order_def on_reconnect_def on_market_data_def set_position_def
     reserve_hot_path_capacity_def set_limits_def set_audit_enabled_def clear_audit_def open_rotating_audit_log_def
     close_audit_log_def Let_def\<close>)
  then show "killed (snd (rg_step op g))" "fst (rg_step op g) \<in> {None, Some \<lparr>rk_accepted = False, rk_reject_reason = Rr_KillSwitch\<rparr>}"
    by simp_all
qed

lemma killed_run:
  assumes "killed g" and "Rg_Disable_Kill_Switch \<notin> set ops"
  shows "killed (snd (run_with rg_step ops g)) \<and>
    set (fst (run_with rg_step ops g)) \<subseteq> {None, Some \<lparr>rk_accepted = False, rk_reject_reason = Rr_KillSwitch\<rparr>}"
  using assms
proof (induction ops arbitrary: g)
  case (Cons op ops)
  have op: "op \<noteq> Rg_Disable_Kill_Switch" "Rg_Disable_Kill_Switch \<notin> set ops" using Cons.prems(2) by auto
  note s = killed_step [OF Cons.prems(1) op(1)]
  show ?case using Cons.IH [OF s(1) op(2)] s(2) by (simp add: split_beta)
qed simp

text \<open>From the moment the kill switch is enabled until it is disabled, whatever the sequence of requests, reports and other
  calls, every check is answered with a kill-switch rejection, no order is working and no exposure is counted.\<close>

theorem kill_switch_blocks:
  assumes "Rg_Disable_Kill_Switch \<notin> set ops"
  shows "let (answers, g') = run_with rg_step ops (enable_kill_switch ts g) in
    set answers \<subseteq> {None, Some \<lparr>rk_accepted = False, rk_reject_reason = Rr_KillSwitch\<rparr>} \<and>
    rg_working_orders g' = [] \<and> working_quantity sy g' = 0 \<and> rg_kill_switch g'"
proof -
  have "killed (enable_kill_switch ts g)" unfolding enable_kill_switch_def
    by (intro cancel_all_killed) (simp add: cancel_all_kill)
  from killed_run [OF this assms] show ?thesis
    by (simp add: split_beta killed_def working_quantity_def)
qed

lemma kill_switch_blocks_witness:
  "set (fst (run_with rg_step demo_ops (enable_kill_switch 50 demo_gateway))) \<subseteq>
     {None, Some \<lparr>rk_accepted = False, rk_reject_reason = Rr_KillSwitch\<rparr>}"
proof -
  have "Rg_Disable_Kill_Switch \<notin> set demo_ops" by (simp add: demo_ops_def)
  from kill_switch_blocks [OF this, of 50 demo_gateway] show ?thesis by (simp add: split_beta)
qed

section \<open>Client order ids\<close>

fun accepted_ids :: "rg_op list \<Rightarrow> risk_result option list \<Rightarrow> client_order_id list" where
  "accepted_ids (Rg_Check_New r now # ops) (Some a # as) = (if rk_accepted a then [nr_client_order_id r] else []) @ accepted_ids ops as"
| "accepted_ids (Rg_Check_Replace r now # ops) (Some a # as) = (if rk_accepted a then [rr_client_order_id r] else []) @ accepted_ids ops as"
| "accepted_ids (op # ops) (a # as) = accepted_ids ops as"
| "accepted_ids _ _ = []"


definition fresh_ids :: "risk_gateway \<Rightarrow> client_order_id list \<Rightarrow> bool" where
  "fresh_ids g ids \<longleftrightarrow> distinct ids \<and> set ids \<inter> cs_members (rg_accepted_client_order_ids g) = {}"

text \<open>What one operation accepts was not accepted before and is afterwards.\<close>

lemma step_accepts:
  assumes "rg_inv g"
  shows "fst (rg_step op g) = None \<and> accepted_ids (op # ops) (None # as) = accepted_ids ops as \<or>
    (\<exists>a ids. fst (rg_step op g) = Some a \<and> (\<forall>as. accepted_ids (op # ops) (Some a # as) = ids @ accepted_ids ops as) \<and>
      fresh_ids g ids \<and> set ids \<subseteq> cs_members (rg_accepted_client_order_ids (snd (rg_step op g))))"
proof (cases op)
  case (Rg_Check_New r now)
  show ?thesis
  proof (cases "rk_accepted (fst (check_new_order r now g))")
    case True
    then show ?thesis using new_effect [OF assms, where r = r and now = now and sy = 0] by (auto simp: Rg_Check_New fresh_ids_def Let_def split_beta)
  qed (simp add: Rg_Check_New fresh_ids_def)
next
  case (Rg_Check_Replace r now)
  show ?thesis
  proof (cases rule: check_replace_outcome [OF assms, of r now])
    case (1 reason g')
    then show ?thesis by (simp add: Rg_Check_Replace fresh_ids_def)
  next
    case (2 cid wo g1 g')
    have q: "0 < rr_new_quantity r" by (rule replace_entry_None [OF 2(5) assms])
    have "\<not> id_accepted (rr_client_order_id r) g" by (rule replace_entry_None [OF 2(5) assms])
    then have "rr_client_order_id r \<notin> cs_members (rg_accepted_client_order_ids g)"
      using assms by (simp add: id_accepted_members rg_inv_if_def)
    then show ?thesis using replace_changed(4) [OF assms 2(3) q 2(7,8)] by (simp add: Rg_Check_Replace 2(1) fresh_ids_def)
  qed
qed simp_all

lemma run_accepts:
  assumes "rg_inv g" and "list_all (same_prevention (rl_enable_self_trade_prevention (rg_limits g))) ops"
  shows "fresh_ids g (accepted_ids ops (fst (run_with rg_step ops g)))"
  using assms
proof (induction ops arbitrary: g)
  case Nil
  then show ?case by (simp add: fresh_ids_def)
next
  case (Cons op ops)
  have sp: "same_prevention (rl_enable_self_trade_prevention (rg_limits g)) op" using Cons.prems(2) by simp
  let ?g = "snd (rg_step op g)" and ?as = "fst (run_with rg_step ops (snd (rg_step op g)))"
  note s = step_inv [OF Cons.prems(1) sp]
  have ih: "fresh_ids ?g (accepted_ids ops ?as)" using Cons.IH [OF s(1)] Cons.prems(2) s(2) by simp
  have run: "fst (run_with rg_step (op # ops) g) = fst (rg_step op g) # ?as" by (simp add: split_beta)
  from step_accepts [OF Cons.prems(1), of op ops ?as]
  consider "fst (rg_step op g) = None" "accepted_ids (op # ops) (None # ?as) = accepted_ids ops ?as"
    | a ids where "fst (rg_step op g) = Some a" "accepted_ids (op # ops) (Some a # ?as) = ids @ accepted_ids ops ?as"
      "fresh_ids g ids" "set ids \<subseteq> cs_members (rg_accepted_client_order_ids ?g)" by (elim disjE conjE exE) simp_all
  then show ?case
  proof cases
    case 1
    then show ?thesis using ih s(3) unfolding run fresh_ids_def by auto
  next
    case (2 a ids)
    then show ?thesis using ih s(3) unfolding run 2(1) 2(2) by (auto simp: fresh_ids_def)
  qed
qed

text \<open>Over any run from a new gateway no client order id is accepted twice, by new orders and replaces together.\<close>

theorem client_order_ids_accepted_once:
  assumes "list_all (same_prevention (rl_enable_self_trade_prevention limits)) ops"
  shows "distinct (accepted_ids ops (fst (run_with rg_step ops (rg_new limits files openable))))"
proof -
  have "rg_limits (rg_new limits files openable) = limits" by (simp add: rg_new_def)
  with run_accepts [OF rg_inv_new, where ops = ops] assms show ?thesis by (simp add: fresh_ids_def)
qed

lemma client_order_ids_accepted_once_witness:
  "distinct (accepted_ids (demo_ops @ demo_ops) (fst (run_with rg_step (demo_ops @ demo_ops) (rg_new demo_limits [] (\<lambda>_. True)))))"
proof -
  have "list_all (same_prevention (rl_enable_self_trade_prevention demo_limits)) (demo_ops @ demo_ops)"
    by (simp add: demo_ops_def same_prevention_def)
  then show ?thesis by (rule client_order_ids_accepted_once)
qed

end
