(* ===== verification/Risk_Audit_Correct.thy ===== *)
theory Risk_Audit_Correct
  imports Risk_Audit Event_Log_Correct
begin

text \<open>
  Audit logs read back: each line of either format parses to the entry and checksum it was written
  from, a log verifies over any division into files, and a line cannot follow two different histories
  unless their running checksums collide.
\<close>

section \<open>Lines\<close>

text \<open>Names that need no escaping, and the entries every reader understands.\<close>

definition plain_name :: "string \<Rightarrow> bool" where
  "plain_name s \<longleftrightarrow> list_all (\<lambda>c. c \<notin> {CHR 0x22, CHR 0x5C, CHR '' '', CHR 0x0A, CHR 0x0D, CHR 0x09}) s"

definition loggable :: "risk_audit_entry \<Rightarrow> bool" where
  "loggable e \<longleftrightarrow> fits_i64 (ra_timestamp_ns e) \<and> fits_i64 (ra_limit_value e) \<and> fits_i64 (ra_observed_value e) \<and>
     plain_name (ra_check_name e) \<and> ra_reject_reason e \<noteq> Rr_PostOnlyWouldCross \<and> ra_reject_reason e \<noteq> Rr_FokNotFillable"

definition bare :: "string \<Rightarrow> bool" where
  "bare v \<longleftrightarrow> v \<noteq> [] \<and> list_all (\<lambda>c. c \<notin> {CHR 0x22, CHR 0x5C, CHR '' '', CHR 0x0A, CHR 0x0D, CHR 0x09, CHR '','', CHR ''}'', CHR ''=''}) v"

lemma bare_decimal: "bare (decimal n)"
  using decimal_digits [of n] by (auto simp: bare_def list_all_iff is_digit_def)

lemma bare_values [simp]: "bare (decimal_int x)" "bare (decimal_word w)" "bare (side_to_string sd)"
  "bare (bool_text b)" "bare (reject_reason_to_string r)"
  using bare_decimal by (auto simp: decimal_int_def decimal_word_def bare_def)
    (cases sd; simp add: bare_def | cases b; simp add: bare_def bool_text_def | cases r; simp add: bare_def)+

lemma bare_plain [simp]: "bare v \<Longrightarrow> plain_name v"
  by (auto simp: bare_def plain_name_def list_all_iff)

lemma plain_json: "plain_name s \<Longrightarrow> json_string s = CHR 0x22 # s @ [CHR 0x22]"
proof -
  assume "plain_name s"
  then have "map json_escape s = map (\<lambda>c. [c]) s" by (auto simp: plain_name_def list_all_iff json_escape_def)
  then have "concat (map json_escape s) = s" by (simp only: concat_map_singleton) simp
  then show ?thesis by (simp add: json_string_def)
qed

lemma take_prefix: "take (length n) xs = n \<longleftrightarrow> (\<exists>zs. xs = n @ zs)"
  by (metis append_eq_conv_conj)

lemma split_unique:
  "c \<notin> set a \<Longrightarrow> c \<notin> set b \<Longrightarrow> a @ c # xs = b @ c # ys \<longleftrightarrow> a = b \<and> xs = ys"
proof (induction a arbitrary: b)
  case Nil
  then show ?case by (cases b) auto
next
  case (Cons d a)
  then show ?case by (cases b) auto
qed

lemma text_after_no_quote:
  "CHR 0x22 \<notin> set v \<Longrightarrow> text_after (json_key k) (v @ ys) = text_after (json_key k) ys"
  by (induction v) (auto simp: json_key_def)

lemma text_after_quote: "hd k \<noteq> x \<Longrightarrow> k \<noteq> [] \<Longrightarrow> text_after (json_key k) (CHR 0x22 # x # ys) = text_after (json_key k) (x # ys)"
  by (cases k) (auto simp: json_key_def)

definition key_ok :: "string \<Rightarrow> bool" where
  "key_ok k \<longleftrightarrow> k \<noteq> [] \<and> CHR 0x22 \<notin> set k \<and> CHR ''='' \<notin> set k \<and> hd k \<noteq> CHR '':'' \<and> hd k \<noteq> CHR '','' \<and> hd k \<noteq> CHR ''}''"

lemma text_after_key [simp]: "text_after (json_key k) (json_key k @ ys) = Some ys"
  by (simp add: json_key_def)

lemma text_after_skip:
  "\<not> (\<exists>zs. c # cs = json_key k @ zs) \<Longrightarrow> text_after (json_key k) (c # cs) = text_after (json_key k) cs"
  by (simp add: take_prefix [symmetric])

declare text_after.simps [simp del]

lemma text_after_other_key:
  assumes "key_ok k" and "key_ok k'" and "k \<noteq> k'"
  shows "text_after (json_key k) (json_key k' @ ys) = text_after (json_key k) ys"
proof -
  have "\<not> (\<exists>zs. json_key k' @ ys = json_key k @ zs)"
    using assms split_unique [of "CHR 0x22" k' k] by (auto simp: json_key_def key_ok_def)
  then have "text_after (json_key k) (json_key k' @ ys) = text_after (json_key k) (k' @ CHR 0x22 # CHR '':'' # ys)"
    using text_after_skip [of "CHR 0x22" "k' @ CHR 0x22 # CHR '':'' # ys" k] by (simp add: json_key_def)
  also have "\<dots> = text_after (json_key k) (CHR 0x22 # CHR '':'' # ys)"
    using assms(2) by (intro text_after_no_quote) (simp add: key_ok_def)
  also have "\<dots> = text_after (json_key k) (CHR '':'' # ys)" using assms(1) by (intro text_after_quote) (auto simp: key_ok_def)
  finally show ?thesis using text_after_no_quote [of "'':''" k ys] by simp
qed

lemma text_after_string:
  assumes "key_ok k" and "plain_name s" and "y = CHR '','' \<or> y = CHR ''}''"
  shows "text_after (json_key k) (json_string s @ y # ys) = text_after (json_key k) (y # ys)"
proof -
  have s: "CHR 0x22 \<notin> set s" using assms(2) by (auto simp: plain_name_def list_all_iff)
  have "\<not> (\<exists>zs. json_string s @ y # ys = json_key k @ zs)"
    using assms s split_unique [of "CHR 0x22" s k] by (auto simp: json_key_def key_ok_def plain_json)
  then have "text_after (json_key k) (json_string s @ y # ys) = text_after (json_key k) (s @ CHR 0x22 # y # ys)"
    using text_after_skip [of "CHR 0x22" "s @ CHR 0x22 # y # ys" k] by (simp add: plain_json [OF assms(2)])
  also have "\<dots> = text_after (json_key k) (CHR 0x22 # y # ys)" by (rule text_after_no_quote [OF s])
  also have "\<dots> = text_after (json_key k) (y # ys)" using assms(1,3) by (intro text_after_quote) (auto simp: key_ok_def)
  finally show ?thesis .
qed

lemma text_after_bare: "bare v \<Longrightarrow> text_after (json_key k) (v @ ys) = text_after (json_key k) ys"
  by (rule text_after_no_quote) (auto simp: bare_def list_all_iff)

lemma text_after_comma: "text_after (json_key k) (CHR '','' # ys) = text_after (json_key k) ys"
  "text_after (json_key k) (CHR ''{'' # ys) = text_after (json_key k) ys"
  using text_after_no_quote [of "'',''" k ys] text_after_no_quote [of "''{''" k ys] by simp_all

lemma quoted_plain: "plain_name s \<Longrightarrow> quoted_value False (s @ CHR 0x22 # ys) = Some s"
  by (induction s) (auto simp: plain_name_def)

lemma json_value_string: "text_after (json_key k) line = Some (json_string s @ ys) \<Longrightarrow> plain_name s \<Longrightarrow> json_value_for line k = Some s"
  by (simp add: json_value_for_def plain_json quoted_plain)

lemma json_value_bare:
  assumes "text_after (json_key k) line = Some (v @ y # ys)" and "bare v" and "y = CHR '','' \<or> y = CHR ''}''"
  shows "json_value_for line k = Some v"
proof -
  obtain c cs where v: "v = c # cs" "c \<noteq> CHR 0x22" using assms(2) by (cases v) (auto simp: bare_def)
  have "takeWhile (\<lambda>ch. ch \<noteq> CHR '','' \<and> ch \<noteq> CHR ''}'') (v @ y # ys) = v"
    using assms(2,3) by (subst takeWhile_append2) (auto simp: bare_def list_all_iff)
  then show ?thesis using assms(1) v by (simp add: json_value_for_def)
qed

lemma text_value_field:
  assumes "key_ok k" and "key_ok k'" and "CHR '' '' \<notin> set k'" and "CHR '' '' \<notin> set v"
  shows "text_value_for (k' @ ''='' @ v @ CHR '' '' # rest) k = (if k = k' then Some v else text_value_for rest k)"
    and "text_value_for (k' @ ''='' @ v) k = (if k = k' then Some v else None)"
proof -
  let ?f = "k' @ ''='' @ v" and ?l = "k' @ ''='' @ v @ CHR '' '' # rest"
  have token: "takeWhile (\<lambda>ch. ch \<noteq> CHR '' '') ?l = ?f" "dropWhile (\<lambda>ch. ch \<noteq> CHR '' '') ?l = CHR '' '' # rest"
    using assms(3,4) by (auto simp: takeWhile_append dropWhile_append)
  have alone: "takeWhile (\<lambda>ch. ch \<noteq> CHR '' '') ?f = ?f" "dropWhile (\<lambda>ch. ch \<noteq> CHR '' '') ?f = []"
    using assms(3,4) by (auto simp: takeWhile_eq_all_conv dropWhile_eq_Nil_conv)
  have pre: "take (length (k @ ''='')) ?f = k @ ''='' \<longleftrightarrow> k = k'"
    using assms(1,2) split_unique [of "CHR ''=''" k' k] unfolding take_prefix by (auto simp: key_ok_def)
  have drop: "drop (length (k' @ ''='')) ?f = v" by simp
  have nonempty: "?l \<noteq> []" "?f \<noteq> []" by simp_all
  have *: "text_value_for ?l k = (if k = k' then Some (drop (length (k @ ''='')) ?f) else text_value_for rest k)"
    unfolding text_value_for.simps [of ?l] Let_def token pre by simp
  then show "text_value_for ?l k = (if k = k' then Some v else text_value_for rest k)" using drop by simp
  have "text_value_for ?f k = (if k = k' then Some (drop (length (k @ ''='')) ?f) else None)"
    unfolding text_value_for.simps [of ?f] Let_def alone pre by simp
  then show "text_value_for ?f k = (if k = k' then Some v else None)" using drop by simp
qed

section \<open>Whole lines\<close>

text \<open>A line as its fields: key, whether the value is quoted in JSON, value.\<close>

type_synonym log_field = "string \<times> bool \<times> string"

definition entry_fields :: "risk_audit_entry \<Rightarrow> u64 \<Rightarrow> log_field list" where
  "entry_fields e c = [(''timestamp_ns'', False, decimal_int (ra_timestamp_ns e)),
     (''client_order_id'', False, decimal_word (ra_client_order_id e)), (''symbol_id'', False, decimal_word (ra_symbol_id e)),
     (''side'', True, side_to_string (ra_side e)), (''accepted'', False, bool_text (ra_accepted e)),
     (''reject_reason'', True, reject_reason_to_string (ra_reject_reason e)), (''check_name'', True, ra_check_name e),
     (''limit_value'', False, decimal_int (ra_limit_value e)), (''observed_value'', False, decimal_int (ra_observed_value e)),
     (''checksum'', False, decimal_word c)]"

fun text_fields :: "log_field list \<Rightarrow> string" where
  "text_fields [] = []"
| "text_fields [(k, q, v)] = k @ ''='' @ v"
| "text_fields ((k, q, v) # fs) = k @ ''='' @ v @ CHR '' '' # text_fields fs"

fun json_fields :: "log_field list \<Rightarrow> string" where
  "json_fields [] = ''}''"
| "json_fields ((k, q, v) # fs) = CHR '','' # json_key k @ (if q then json_string v else v) @ json_fields fs"

definition field_ok :: "log_field \<Rightarrow> bool" where
  "field_ok = (\<lambda>(k, q, v). key_ok k \<and> CHR '' '' \<notin> set k \<and> (if q then plain_name v else bare v))"

lemma field_ok_value: "field_ok (k, q, v) \<Longrightarrow> CHR '' '' \<notin> set v"
  by (auto simp: field_ok_def plain_name_def bare_def list_all_iff split: if_splits)

lemma text_lookup:
  "list_all field_ok fs \<Longrightarrow> key_ok k \<Longrightarrow> text_value_for (text_fields fs) k = map_option snd (map_of fs k)"
proof (induction fs rule: text_fields.induct)
  case 1
  then show ?case by (simp add: text_value_for.simps)
next
  case (2 k' q v)
  then have f: "field_ok (k', q, v)" by simp
  then show ?case using 2(2) text_value_field(2) [of k k' v] field_ok_value [OF f] by (simp add: field_ok_def)
next
  case (3 k' q v f fs)
  then have f: "field_ok (k', q, v)" by simp
  show ?case using 3 f text_value_field(1) [of k k' v "text_fields (f # fs)"] field_ok_value [OF f]
    by (simp add: field_ok_def del: append.simps)
qed

lemma json_fields_head: "\<exists>y ys. json_fields fs = y # ys \<and> (y = CHR '','' \<or> y = CHR ''}'')"
  by (cases fs rule: json_fields.cases) auto

lemma json_find:
  "list_all field_ok fs \<Longrightarrow> key_ok k \<Longrightarrow> map_of fs k = Some (q, v) \<Longrightarrow>
     \<exists>gs. text_after (json_key k) (json_fields fs) = Some ((if q then json_string v else v) @ json_fields gs) \<and> field_ok (k, q, v)"
proof (induction fs rule: json_fields.induct)
  case (2 k' q' v' fs)
  obtain y ys where y: "json_fields fs = y # ys" "y = CHR '','' \<or> y = CHR ''}''" using json_fields_head by blast
  show ?case
  proof (cases "k' = k")
    case True
    then show ?thesis using 2(2,4) by (intro exI [of _ fs]) (simp add: text_after_comma)
  next
    case False
    have f: "field_ok (k', q', v')" "key_ok k'" using 2(2) by (simp_all add: field_ok_def)
    have "text_after (json_key k) ((if q' then json_string v' else v') @ json_fields fs) = text_after (json_key k) (json_fields fs)"
    proof (cases q')
      case True
      then show ?thesis using f(1) text_after_string [OF 2(3) _ y(2)] unfolding y(1) by (simp add: field_ok_def)
    next
      case False
      then show ?thesis using f(1) by (simp add: field_ok_def text_after_bare)
    qed
    then show ?thesis using 2 False text_after_other_key [OF 2(3) f(2)] by (simp add: text_after_comma)
  qed
qed simp

lemma json_lookup:
  assumes "list_all field_ok fs" and "key_ok k" and "map_of fs k = Some (q, v)"
  shows "json_value_for (CHR ''{'' # tl (json_fields fs)) k = Some v"
proof -
  obtain gs where g: "text_after (json_key k) (json_fields fs) = Some ((if q then json_string v else v) @ json_fields gs)"
    "field_ok (k, q, v)" using json_find [OF assms] by blast
  obtain f fs' where "fs = f # fs'" using assms(3) by (cases fs) auto
  then obtain s where s: "json_fields fs = CHR '','' # s" by (cases f) auto
  have "text_after (json_key k) (CHR ''{'' # tl (json_fields fs)) = text_after (json_key k) (json_fields fs)"
    by (simp add: s text_after_comma)
  moreover obtain y ys where "json_fields gs = y # ys" "y = CHR '','' \<or> y = CHR ''}''" using json_fields_head by blast
  ultimately show ?thesis using g json_value_string json_value_bare
    by (cases q) (simp_all add: field_ok_def)
qed

lemma entry_fields_ok: "loggable e \<Longrightarrow> list_all field_ok (entry_fields e c)"
  by (simp add: entry_fields_def field_ok_def key_ok_def loggable_def)

definition entry_line :: "risk_audit_entry \<Rightarrow> u64 \<Rightarrow> risk_audit_log_format \<Rightarrow> string" where
  "entry_line e c fmt = (if fmt = Alf_Text then text_fields (entry_fields e c) else CHR ''{'' # tl (json_fields (entry_fields e c)))"

lemma format_line: "format_risk_audit_log_entry e c fmt = entry_line e c fmt @ [CHR 0x0A]"
proof (cases fmt)
  case Alf_Text
  show ?thesis unfolding format_risk_audit_log_entry_def entry_line_def entry_fields_def text_fields.simps
    by (simp only: Alf_Text simp_thms if_True append.simps append_assoc)
next
  case Alf_Jsonl
  show ?thesis unfolding format_risk_audit_log_entry_def entry_line_def entry_fields_def json_fields.simps
    by (simp only: Alf_Jsonl simp_thms if_False risk_audit_log_format.distinct if_True list.sel append.simps append_assoc)
qed

lemma entry_value:
  assumes "loggable e" and "key_ok k" and "map_option snd (map_of (entry_fields e c) k) = Some v"
  shows "audit_value_for fmt (entry_line e c fmt) k = Some v"
proof -
  obtain q where q: "map_of (entry_fields e c) k = Some (q, v)" using assms(3) unfolding map_option_eq_Some by (metis prod.collapse)
  show ?thesis
    using json_lookup [OF entry_fields_ok [OF assms(1)] assms(2) q] text_lookup [OF entry_fields_ok [OF assms(1), of c] assms(2)] q
    by (cases fmt) (simp_all add: audit_value_for_def entry_line_def)
qed

lemma entry_values:
  assumes "loggable e"
  shows "audit_value_for fmt (entry_line e c fmt) ''timestamp_ns'' = Some (decimal_int (ra_timestamp_ns e))"
    "audit_value_for fmt (entry_line e c fmt) ''client_order_id'' = Some (decimal_word (ra_client_order_id e))"
    "audit_value_for fmt (entry_line e c fmt) ''symbol_id'' = Some (decimal_word (ra_symbol_id e))"
    "audit_value_for fmt (entry_line e c fmt) ''side'' = Some (side_to_string (ra_side e))"
    "audit_value_for fmt (entry_line e c fmt) ''accepted'' = Some (bool_text (ra_accepted e))"
    "audit_value_for fmt (entry_line e c fmt) ''reject_reason'' = Some (reject_reason_to_string (ra_reject_reason e))"
    "audit_value_for fmt (entry_line e c fmt) ''check_name'' = Some (ra_check_name e)"
    "audit_value_for fmt (entry_line e c fmt) ''limit_value'' = Some (decimal_int (ra_limit_value e))"
    "audit_value_for fmt (entry_line e c fmt) ''observed_value'' = Some (decimal_int (ra_observed_value e))"
    "audit_value_for fmt (entry_line e c fmt) ''checksum'' = Some (decimal_word c)"
  by ((rule entry_value [OF assms], simp add: key_ok_def, simp add: entry_fields_def)+)

lemma parse_entry_line: "loggable e \<Longrightarrow> parse_audit_entry_line (entry_line e c fmt) fmt = Some (e, c)"
proof -
  assume e: "loggable e"
  have sd: "parse_side_token (side_to_string sd) = Some sd" for sd by (cases sd) (simp_all add: parse_side_token_def)
  have r: "parse_reject_reason_token (reject_reason_to_string (ra_reject_reason e)) = Some (ra_reject_reason e)"
    using e by (cases "ra_reject_reason e") (simp_all add: parse_reject_reason_token_def loggable_def)
  have b: "parse_bool_token (bool_text b) = b" for b by (cases b) (simp_all add: parse_bool_token_def bool_text_def)
  show ?thesis unfolding parse_audit_entry_line_def Let_def entry_values [OF e] assign_i64_def assign_word_def
    using e by (simp add: sd r b loggable_def)
qed

section \<open>Files\<close>

lemma text_fields_chars: "set (text_fields fs) \<subseteq> (\<Union>(k, q, v) \<in> set fs. set k \<union> set v) \<union> {CHR ''='', CHR '' ''}"
  by (induction fs rule: text_fields.induct) auto

lemma json_fields_chars:
  "list_all field_ok fs \<Longrightarrow> set (json_fields fs) \<subseteq> (\<Union>(k, q, v) \<in> set fs. set k \<union> set v) \<union> {CHR '','', CHR ''}'', CHR 0x22, CHR '':''}"
  by (induction fs rule: json_fields.induct) (auto simp: json_key_def field_ok_def plain_json)

lemma entry_line_plain:
  assumes "loggable e"
  shows "CHR 0x0A \<notin> set (entry_line e c fmt)" and "entry_line e c fmt \<noteq> []"
proof -
  have v: "CHR 0x0A \<notin> set v" if "plain_name v" for v using that by (auto simp: plain_name_def list_all_iff)
  have name: "CHR 0x0A \<notin> set (ra_check_name e)" using assms by (intro v) (simp add: loggable_def)
  have f: "CHR 0x0A \<notin> (\<Union>(k, q, v) \<in> set (entry_fields e c). set k \<union> set v)"
    using name by (simp add: entry_fields_def v)
  have t: "CHR 0x0A \<notin> set (text_fields (entry_fields e c))" using f text_fields_chars [of "entry_fields e c"] by auto
  have "CHR 0x0A \<notin> set (json_fields (entry_fields e c))" using f json_fields_chars [OF entry_fields_ok [OF assms, of c]] by auto
  then have "CHR 0x0A \<notin> set (tl (json_fields (entry_fields e c)))" by (cases "json_fields (entry_fields e c)") simp_all
  with t show "CHR 0x0A \<notin> set (entry_line e c fmt)" by (simp add: entry_line_def)
  show "entry_line e c fmt \<noteq> []" by (simp add: entry_line_def entry_fields_def)
qed

text \<open>What a trail that starts at a checksum writes for a list of entries.\<close>

fun log_text :: "risk_audit_log_format \<Rightarrow> u64 \<Rightarrow> risk_audit_entry list \<Rightarrow> string" where
  "log_text fmt c [] = []"
| "log_text fmt c (e # es) = (let c = audit_checksum c e in format_risk_audit_log_entry e c fmt @ log_text fmt c es)"

fun log_files :: "risk_audit_log_format \<Rightarrow> u64 \<Rightarrow> (string \<times> risk_audit_entry list) list \<Rightarrow> (string \<times> string option) list" where
  "log_files fmt c [] = []"
| "log_files fmt c ((path, es) # fs) = (path, Some (log_text fmt c es)) # log_files fmt (foldl audit_checksum c es) fs"

lemma verify_log_text:
  "list_all loggable es \<Longrightarrow> verify_lines path fmt n (text_lines (log_text fmt c es)) (c, r) =
     Inr (foldl audit_checksum c es, r\<lparr>av_entries_checked := av_entries_checked r + length es\<rparr>)"
proof (induction es arbitrary: n c r)
  case (Cons e es)
  let ?c = "audit_checksum c e"
  have e: "loggable e" using Cons.prems by simp
  have "text_lines (log_text fmt c (e # es)) = entry_line e ?c fmt # text_lines (log_text fmt ?c es)"
    using text_lines_append [OF entry_line_plain(1) [OF e]] by (simp add: Let_def format_line)
  then show ?case using Cons entry_line_plain(2) [OF e] parse_entry_line [OF e] by (simp add: Let_def)
qed simp

lemma verify_log_files:
  "list_all (\<lambda>(path, es). list_all loggable es) fs \<Longrightarrow> verify_files fmt (log_files fmt c fs) (c, r) =
     r\<lparr>av_files_checked := av_files_checked r + length fs,
       av_entries_checked := av_entries_checked r + length (concat (map snd fs)),
       av_final_checksum := foldl audit_checksum c (concat (map snd fs))\<rparr>"
proof (induction fs arbitrary: c r)
  case (Cons f fs)
  obtain path es where f: "f = (path, es)" by (cases f)
  with Cons show ?case by (simp add: verify_log_text)
qed simp

text \<open>The trail keeps the checksum of its entries.\<close>

lemma trail_checksum: "at_checksum (fold trail_record es t) = foldl audit_checksum (at_checksum t) es"
  by (induction es arbitrary: t) (simp_all add: trail_record_def)

section \<open>What a valid log implies\<close>

definition logged_entries :: "risk_audit_log_format \<Rightarrow> string list \<Rightarrow> risk_audit_entry list" where
  "logged_entries fmt ls = map fst (List.map_filter (\<lambda>l. if l = [] then None else parse_audit_entry_line l fmt) ls)"

lemma logged_entries_simps [simp]:
  "logged_entries fmt [] = []"
  "logged_entries fmt (l # ls) = (if l = [] then logged_entries fmt ls else
     case parse_audit_entry_line l fmt of None \<Rightarrow> logged_entries fmt ls | Some (e, _) \<Rightarrow> e # logged_entries fmt ls)"
  by (auto simp: logged_entries_def map_filter_simps split: option.splits)

lemma audit_checksum_seed: "audit_checksum c e = audit_checksum c' e \<longleftrightarrow> c = c'"
  by (simp add: audit_checksum_def Let_def checksum_defs fnv1a_append_seed_inj)

lemma verify_lines_failed: "verify_lines p fmt n ls (c, r) = Inl r' \<Longrightarrow> \<not> av_valid r'"
  by (induction ls arbitrary: n c r) (auto simp: Let_def split: if_splits option.splits)

text \<open>The lines of a rotated log, one file after the other, and what it is for them to carry the running checksum.\<close>

definition log_lines :: "(string \<times> string option) list \<Rightarrow> string list" where
  "log_lines files = concat (map (\<lambda>(path, contents). case contents of None \<Rightarrow> [] | Some s \<Rightarrow> text_lines s) files)"

fun chained :: "risk_audit_log_format \<Rightarrow> u64 \<Rightarrow> string list \<Rightarrow> bool" where
  "chained fmt c [] = True"
| "chained fmt c (l # ls) = (if l = [] then chained fmt c ls else
     case parse_audit_entry_line l fmt of None \<Rightarrow> False | Some (e, k) \<Rightarrow> k = audit_checksum c e \<and> chained fmt k ls)"

lemma chained_append: "chained fmt c (xs @ ys) \<longleftrightarrow> chained fmt c xs \<and> chained fmt (foldl audit_checksum c (logged_entries fmt xs)) ys"
  by (induction xs arbitrary: c) (auto split: option.splits)

lemma logged_append: "logged_entries fmt (xs @ ys) = logged_entries fmt xs @ logged_entries fmt ys"
  by (induction xs) (auto split: option.splits)

lemma verify_lines_chained:
  "verify_lines p fmt n ls (c, r) = Inr (c', r') \<Longrightarrow> chained fmt c ls \<and> c' = foldl audit_checksum c (logged_entries fmt ls)"
  by (induction ls arbitrary: n c r) (auto simp: Let_def split: if_splits option.splits)

lemma verify_files_chained:
  "av_valid (verify_files fmt files (c, r)) \<Longrightarrow> chained fmt c (log_lines files) \<and>
     av_final_checksum (verify_files fmt files (c, r)) = foldl audit_checksum c (logged_entries fmt (log_lines files))"
proof (induction files arbitrary: c r)
  case (Cons f files)
  obtain path contents where f: "f = (path, contents)" by (cases f)
  obtain s where s: "contents = Some s" using Cons.prems f by (cases contents) auto
  let ?r = "r\<lparr>av_files_checked := av_files_checked r + 1\<rparr>"
  obtain c' r' where v: "verify_lines path fmt 0 (text_lines s) (c, ?r) = Inr (c', r')"
    using Cons.prems verify_lines_failed by (cases "verify_lines path fmt 0 (text_lines s) (c, ?r)") (auto simp: f s)
  have lines: "log_lines (f # files) = text_lines s @ log_lines files" by (simp add: log_lines_def f s)
  have "av_valid (verify_files fmt files (c', r'))" using Cons.prems v by (simp add: f s)
  from Cons.IH [OF this] verify_lines_chained [OF v] v show ?case
    unfolding lines chained_append logged_append foldl_append by (simp add: f s)
qed (simp add: log_lines_def)

lemma chained_line:
  assumes "chained fmt c (ls @ l # rest)" and "l \<noteq> []"
  obtains e where "parse_audit_entry_line l fmt = Some (e, audit_checksum (foldl audit_checksum c (logged_entries fmt ls)) e)"
  using assms by (auto simp: chained_append split: option.splits)

section \<open>Properties\<close>

text \<open>A log written for a trail, in either format and divided among any files, verifies: every file
  and every entry is counted and the final checksum is the trail's.\<close>

lemma audit_log_verifies:
  assumes "list_all (\<lambda>(path, es). list_all loggable es) fs"
  shows "verify_risk_audit_logs (log_files fmt kFnvOffsetBasis fs) fmt =
    \<lparr>av_valid = True, av_files_checked = length fs, av_entries_checked = length (concat (map snd fs)),
     av_final_checksum = at_checksum (fold trail_record (concat (map snd fs)) trail_new), av_error = []\<rparr>"
  by (simp add: verify_risk_audit_logs_def verify_log_files [OF assms] verification_started_def trail_checksum trail_new_def)

definition demo_entry :: "bool \<Rightarrow> risk_audit_entry" where
  "demo_entry ok = \<lparr>ra_timestamp_ns = 5, ra_client_order_id = 7, ra_symbol_id = 1, ra_side = Buy, ra_accepted = ok,
     ra_reject_reason = (if ok then Rr_None else Rr_MaxNotional), ra_check_name = (if ok then ''accepted'' else ''max_notional''),
     ra_limit_value = 100, ra_observed_value = - 3\<rparr>"

lemma audit_log_verifies_witness:
  "av_valid (verify_risk_audit_logs
     (log_files Alf_Jsonl kFnvOffsetBasis [(''a'', [demo_entry True, demo_entry False]), (''b'', [demo_entry True])]) Alf_Jsonl)"
  by (subst audit_log_verifies) (simp_all add: demo_entry_def loggable_def plain_name_def fits_i64_def)

text \<open>C24: verification is tamper evident: when two valid logs, each rotated over any number of files, have a line that is
  not empty in common, anywhere in them, then the entries before it in one log and before it in the other have the same
  running checksum, whatever lines were changed, dropped, added or moved between files; and the final checksum that
  verification reports is the checksum of all the entries of the log.\<close>

theorem audit_log_tamper_evident:
  assumes "log_lines files = ls @ l # rest" and "log_lines files' = ls' @ l # rest'" and "l \<noteq> []"
    and "av_valid (verify_risk_audit_logs files fmt)" and "av_valid (verify_risk_audit_logs files' fmt)"
  shows "checksum_risk_audit (logged_entries fmt ls) = checksum_risk_audit (logged_entries fmt ls') \<and>
    av_final_checksum (verify_risk_audit_logs files fmt) = checksum_risk_audit (logged_entries fmt (log_lines files))"
proof -
  note v = verify_files_chained [OF assms(4) [unfolded verify_risk_audit_logs_def]]
    and v' = verify_files_chained [OF assms(5) [unfolded verify_risk_audit_logs_def]]
  obtain e where e: "parse_audit_entry_line l fmt = Some (e, audit_checksum (foldl audit_checksum kFnvOffsetBasis (logged_entries fmt ls)) e)"
    by (rule chained_line [OF v [THEN conjunct1, unfolded assms(1)] assms(3)])
  obtain e' where "parse_audit_entry_line l fmt = Some (e', audit_checksum (foldl audit_checksum kFnvOffsetBasis (logged_entries fmt ls')) e')"
    by (rule chained_line [OF v' [THEN conjunct1, unfolded assms(2)] assms(3)])
  with e have "checksum_risk_audit (logged_entries fmt ls) = checksum_risk_audit (logged_entries fmt ls')"
    using audit_checksum_seed unfolding checksum_risk_audit_def by (metis option.inject prod.inject)
  then show ?thesis using v unfolding checksum_risk_audit_def verify_risk_audit_logs_def by blast
qed

definition demo_log :: "risk_audit_entry list \<Rightarrow> string" where
  "demo_log es = log_text Alf_Text kFnvOffsetBasis es"

lemma audit_log_tamper_evident_witness:
  "checksum_risk_audit (logged_entries Alf_Text [entry_line (demo_entry True) (audit_checksum kFnvOffsetBasis (demo_entry True)) Alf_Text]) =
   checksum_risk_audit (logged_entries Alf_Text [[], entry_line (demo_entry True) (audit_checksum kFnvOffsetBasis (demo_entry True)) Alf_Text])"
proof -
  let ?c = "audit_checksum kFnvOffsetBasis (demo_entry True)"
  let ?c' = "audit_checksum ?c (demo_entry False)"
  let ?l = "entry_line (demo_entry True) ?c Alf_Text" and ?l' = "entry_line (demo_entry False) ?c' Alf_Text"
    and ?l'' = "entry_line (demo_entry True) (audit_checksum ?c' (demo_entry True)) Alf_Text"
  let ?log = "demo_log [demo_entry True, demo_entry False, demo_entry True]" and ?split = "[(''b'', Some (CHR 0x0A # demo_log [demo_entry True])),
    (''c'', Some (log_text Alf_Text ?c [demo_entry False]))]"
  have ok: "loggable (demo_entry b)" for b by (simp add: demo_entry_def loggable_def plain_name_def fits_i64_def)
  note split = text_lines_append [OF entry_line_plain(1) [OF ok]]
  have lines: "log_lines [(''a'', Some ?log)] = [?l] @ ?l' # [?l'']"
    using split by (simp add: log_lines_def demo_log_def Let_def format_line)
  have blank: "log_lines ?split = [[], ?l] @ ?l' # []"
    using split by (simp add: log_lines_def demo_log_def Let_def format_line)
  have "text_lines ?log = [?l, ?l', ?l'']" "text_lines (CHR 0x0A # demo_log [demo_entry True]) = [[], ?l]"
    "text_lines (log_text Alf_Text ?c [demo_entry False]) = [?l']"
    using split by (simp_all add: demo_log_def Let_def format_line)
  then have "av_valid (verify_risk_audit_logs [(''a'', Some ?log)] Alf_Text)" "av_valid (verify_risk_audit_logs ?split Alf_Text)"
    unfolding verify_risk_audit_logs_def using parse_entry_line [OF ok] entry_line_plain(2) [OF ok]
    by (simp_all add: verification_started_def Let_def)
  then show ?thesis using audit_log_tamper_evident [OF lines blank entry_line_plain(2) [OF ok]] by simp
qed

end
