(* ===== verification/Risk_Audit_Log.thy ===== *)
theory Risk_Audit_Log
  imports Risk_Properties Risk_Audit_Correct
begin

text \<open>
  The audit log the gateway writes while it runs: whatever the sequence of checks, reports and switches and
  wherever the log rotates, the files it leaves verify against the trail kept in memory. Three parts: the paths of
  rotated files are distinct, an entry appended to the log extends it as \<open>log_files\<close> says, and no other
  operation of the gateway touches the trail or the log.
\<close>

section \<open>Paths\<close>

lemma decimal_inj: "inj decimal"
  by (rule inj_on_inverseI) (rule digits_value_decimal)

lemma path_name_parts: "path_stem p @ path_suffix p = path_file_name p"
proof -
  let ?n = "path_file_name p" and ?P = "\<lambda>c. c \<noteq> CHR ''.''"
  let ?a = "takeWhile ?P (rev ?n)" and ?z = "dropWhile ?P (rev ?n)"
  have "rev (?a @ ?z) = ?n" by (simp only: takeWhile_dropWhile_id rev_rev_ident)
  then have n: "?n = rev ?z @ rev ?a" by (simp only: rev_append)
  show ?thesis
  proof (cases "path_suffix p = []")
    case True
    then show ?thesis by (simp add: path_stem_def)
  next
    case False
    then have s: "path_suffix p = CHR ''.'' # rev ?a" and short: "length ?a + 1 < length ?n"
      by (simp_all add: path_suffix_def Let_def split: if_splits)
    have "length ?z \<noteq> 0" using arg_cong [OF n, of length] short by (simp only: length_append length_rev)
    then have "?z \<noteq> []" by (simp only: length_0_conv not_False_eq_True)
    then obtain ws where "?z = CHR ''.'' # ws" using hd_dropWhile [of ?P "rev ?n"] by (cases ?z) auto
    then have "?n = rev ws @ path_suffix p" using n s by simp
    then show ?thesis by (simp add: path_stem_def)
  qed
qed

lemma file_name_no_slash: "CHR ''/'' \<notin> set (path_file_name p)"
  by (auto simp: path_file_name_def dest: set_takeWhileD)

lemma file_name_join: "CHR ''/'' \<notin> set name \<Longrightarrow> path_file_name (path_join parent name) = name"
proof -
  assume n: "CHR ''/'' \<notin> set name"
  then have t: "takeWhile (\<lambda>c. c \<noteq> CHR ''/'') (rev name @ zs) = rev name @ takeWhile (\<lambda>c. c \<noteq> CHR ''/'') zs" for zs
    by (subst takeWhile_append2) auto
  show ?thesis
  proof (cases parent rule: rev_cases)
    case Nil
    then show ?thesis using t [of "[]"] by (simp only: path_join_def path_file_name_def takeWhile.simps append_Nil2 if_True rev_rev_ident simp_thms)
  next
    case (snoc xs x)
    then show ?thesis using t by (auto simp: path_join_def path_file_name_def)
  qed
qed

lemma rotated_file_name:
  "path_file_name (rotated_audit_log_path i log) = (if i = 0 then path_file_name (al_base_path log)
     else path_stem (al_base_path log) @ ''.'' @ decimal i @ path_suffix (al_base_path log))"
proof (cases "i = 0")
  case False
  have "set (path_stem (al_base_path log)) \<union> set (path_suffix (al_base_path log)) \<subseteq> set (path_file_name (al_base_path log))"
    by (metis path_name_parts set_append subset_refl)
  then have "CHR ''/'' \<notin> set (path_stem (al_base_path log) @ ''.'' @ decimal i @ path_suffix (al_base_path log))"
    using file_name_no_slash [of "al_base_path log"] decimal_digits [of i] by (auto simp: list_all_iff is_digit_def)
  then show ?thesis using False by (simp add: rotated_audit_log_path_def file_name_join)
qed (simp add: rotated_audit_log_path_def)

lemma rotated_inj: "rotated_audit_log_path i log = rotated_audit_log_path j log \<longleftrightarrow> i = j"
proof
  let ?st = "path_stem (al_base_path log)" and ?su = "path_suffix (al_base_path log)"
  assume "rotated_audit_log_path i log = rotated_audit_log_path j log"
  then have e: "path_file_name (rotated_audit_log_path i log) = path_file_name (rotated_audit_log_path j log)" by simp
  have "length (?st @ ''.'' @ decimal k @ ?su) > length (path_file_name (al_base_path log))" for k
    by (simp flip: path_name_parts)
  then have "(i = 0) = (j = 0)" using e unfolding rotated_file_name by (metis less_irrefl)
  then show "i = j" using e by (auto simp: rotated_file_name inj_eq [OF decimal_inj] split: if_splits)
qed simp

section \<open>Appending an entry\<close>

lemma log_text_snoc: "log_text fmt c (es @ [e]) = log_text fmt c es @ format_risk_audit_log_entry e (foldl audit_checksum c (es @ [e])) fmt"
  by (induction es arbitrary: c) (simp_all add: Let_def)

lemma log_files_append:
  "log_files fmt c (fs @ gs) = log_files fmt c fs @ log_files fmt (foldl audit_checksum c (concat (map snd fs))) gs"
  by (induction fmt c fs rule: log_files.induct) (simp_all add: foldl_append)

lemma log_files_paths: "map fst (log_files fmt c fs) = map fst fs"
  by (induction fmt c fs rule: log_files.induct) simp_all

definition log_contents :: "audit_log \<Rightarrow> (string \<times> string option) list" where
  "log_contents log = map (\<lambda>p. (p, map_of (al_files log) p)) (al_paths log)"

text \<open>The entries of each file, in the order of the files.\<close>

definition log_holds :: "risk_audit_log_format \<Rightarrow> (string \<times> risk_audit_entry list) list \<Rightarrow> audit_log \<Rightarrow> bool" where
  "log_holds fmt fs log \<longleftrightarrow> al_is_open log \<and> al_format log = fmt \<and> (\<forall>p. al_openable log p) \<and>
     al_paths log = map (\<lambda>i. rotated_audit_log_path i log) [0..<Suc (al_index log)] \<and>
     al_path log = rotated_audit_log_path (al_index log) log \<and>
     (\<forall>i > al_index log. map_of (al_files log) (rotated_audit_log_path i log) = None) \<and>
     map fst fs = al_paths log \<and> log_contents log = log_files fmt kFnvOffsetBasis fs"

lemma log_paths_distinct: "log_holds fmt fs log \<Longrightarrow> distinct (al_paths log)"
  by (simp add: log_holds_def distinct_map inj_on_def rotated_inj del: upt_Suc)

lemma rotated_cong: "al_base_path log' = al_base_path log \<Longrightarrow> rotated_audit_log_path i log' = rotated_audit_log_path i log"
  by (simp add: rotated_audit_log_path_def)

lemma rotate_holds:
  assumes "log_holds fmt fs log"
  shows "log_holds fmt (fs @ [(rotated_audit_log_path (Suc (al_index log)) log, [])]) (rotate_audit_log log)"
proof -
  let ?p = "rotated_audit_log_path (Suc (al_index log)) log"
  have none: "map_of (al_files log) ?p = None" using assms by (simp add: log_holds_def)
  have r: "rotate_audit_log log = log\<lparr>al_is_open := True, al_index := Suc (al_index log), al_path := ?p,
      al_files := AList.update ?p [] (al_files log), al_paths := al_paths log @ [?p], al_record_count := 0, al_bytes := 0\<rparr>"
    using assms none by (simp add: rotate_audit_log_def Let_def log_open_def log_holds_def file_text_def rotated_audit_log_path_def)
  have p: "rotated_audit_log_path i (rotate_audit_log log) = rotated_audit_log_path i log" for i
    by (rule rotated_cong) (simp add: r)
  have "q \<noteq> ?p" if "q \<in> set (al_paths log)" for q using that assms by (auto simp: log_holds_def rotated_inj)
  then have "log_contents (rotate_audit_log log) = log_contents log @ [(?p, Some [])]"
    by (auto simp: log_contents_def r)
  moreover have "log_contents log = log_files fmt kFnvOffsetBasis fs" using assms by (simp add: log_holds_def)
  ultimately have c: "log_contents (rotate_audit_log log) = log_files fmt kFnvOffsetBasis (fs @ [(?p, [])])"
    by (simp add: log_files_append)
  show ?thesis unfolding log_holds_def p c using assms by (auto simp: log_holds_def r rotated_inj)
qed

lemma write_holds:
  assumes "log_holds fmt (fs @ [(p, es)]) log"
  shows "log_holds fmt (fs @ [(p, es @ [e])])
    (log_write (format_risk_audit_log_entry e (foldl audit_checksum kFnvOffsetBasis (concat (map snd fs) @ es @ [e])) fmt) log)"
proof -
  let ?k = "foldl audit_checksum kFnvOffsetBasis (concat (map snd fs))"
  let ?line = "format_risk_audit_log_entry e (foldl audit_checksum ?k (es @ [e])) fmt"
  have h: "al_is_open log" "al_paths log = map fst fs @ [p]" "al_path log = p"
    "log_contents log = log_files fmt kFnvOffsetBasis fs @ [(p, Some (log_text fmt ?k es))]"
    using assms by (auto simp: log_holds_def log_files_append)
  define h' where "h' = log_write ?line log"
  have old: "map_of (al_files log) p = Some (log_text fmt ?k es)" using h(2,4) by (simp add: log_contents_def)
  have w: "h' = log\<lparr>al_files := AList.update p (log_text fmt ?k (es @ [e])) (al_files log)\<rparr>"
    by (simp add: h'_def log_write_def h(1,3) file_text_def old log_text_snoc)
  have d: "p \<notin> fst ` set fs" using log_paths_distinct [OF assms] h(2) by simp
  have fs: "map (\<lambda>p. (p, map_of (al_files log) p)) (map fst fs) = log_files fmt kFnvOffsetBasis fs"
    using h(2,4) by (simp add: log_contents_def)
  have "map (\<lambda>q. (q, map_of (al_files h') q)) (map fst fs) = log_files fmt kFnvOffsetBasis fs"
    unfolding fs [symmetric] using d by (intro map_cong) (auto simp: w)
  then have c: "log_contents h' = log_files fmt kFnvOffsetBasis (fs @ [(p, es @ [e])])"
    by (simp add: log_contents_def log_files_append w h(2))
  have rp: "rotated_audit_log_path i h' = rotated_audit_log_path i log" for i by (rule rotated_cong) (simp add: w)
  have "log_holds fmt (fs @ [(p, es @ [e])]) h'"
    unfolding log_holds_def c rp using assms h(3) by (auto simp: log_holds_def w rotated_inj)
  then show ?thesis by (simp add: h'_def foldl_append)
qed

text \<open>The trail and the log of a gateway agree.\<close>

definition audit_agrees :: "risk_audit_log_format \<Rightarrow> risk_gateway \<Rightarrow> bool" where
  "audit_agrees fmt g \<longleftrightarrow> (\<exists>fs. log_holds fmt fs (rg_audit_log g) \<and> fs \<noteq> [] \<and> concat (map snd fs) = at_entries (rg_audit g)) \<and>
     at_checksum (rg_audit g) = foldl audit_checksum kFnvOffsetBasis (at_entries (rg_audit g))"

lemma log_holds_counters: "log_holds fmt fs (log\<lparr>al_record_count := n, al_bytes := m\<rparr>) = log_holds fmt fs log"
proof -
  have "rotated_audit_log_path i (log\<lparr>al_record_count := n, al_bytes := m\<rparr>) = rotated_audit_log_path i log" for i
    by (rule rotated_cong) simp
  then show ?thesis by (simp add: log_holds_def log_contents_def del: upt_Suc)
qed

lemma append_holds:
  assumes "log_holds fmt fs log" and "fs \<noteq> []" and "k = foldl audit_checksum kFnvOffsetBasis (concat (map snd fs) @ [e])"
  obtains fs' where "log_holds fmt fs' (append_audit_log_entry e k log)" and "fs' \<noteq> []" and "concat (map snd fs') = concat (map snd fs) @ [e]"
proof -
  let ?line = "format_risk_audit_log_entry e k fmt"
  have fmt: "al_format log = fmt" using assms(1) by (simp add: log_holds_def)
  let ?rotate = "(al_max_records_per_file log > 0 \<and> al_record_count log \<ge> al_max_records_per_file log) \<or>
    (al_max_bytes_per_file log > 0 \<and> al_bytes log > 0 \<and> al_bytes log + length ?line > al_max_bytes_per_file log)"
  define log1 where "log1 = (if ?rotate then rotate_audit_log log else log)"
  define fs1 where "fs1 = (if ?rotate then fs @ [(rotated_audit_log_path (Suc (al_index log)) log, [])] else fs)"
  have a: "append_audit_log_entry e k log = (log_write ?line log1)
      \<lparr>al_record_count := al_record_count (log_write ?line log1) + 1, al_bytes := al_bytes (log_write ?line log1) + length ?line\<rparr>"
    unfolding append_audit_log_entry_def Let_def fmt log1_def by (rule refl)
  have h1: "log_holds fmt fs1 log1" "fs1 \<noteq> []" "concat (map snd fs1) = concat (map snd fs)"
    using assms(1,2) rotate_holds [OF assms(1)] by (auto simp: log1_def fs1_def)
  then obtain gs p es where fs1: "fs1 = gs @ [(p, es)]" by (cases fs1 rule: rev_cases) auto
  have "k = foldl audit_checksum kFnvOffsetBasis (concat (map snd gs) @ es @ [e])" using assms(3) by (simp add: fs1 flip: h1(3))
  with write_holds [OF h1(1) [unfolded fs1], of e] have "log_holds fmt (gs @ [(p, es @ [e])]) (log_write ?line log1)" by simp
  then show thesis using h1(3) fs1 by (intro that [of "gs @ [(p, es @ [e])]"]) (simp_all add: a log_holds_counters)
qed

lemma record_agrees: "audit_agrees fmt g \<Longrightarrow> audit_agrees fmt (record_audit_entry e g)"
proof -
  assume g: "audit_agrees fmt g"
  then obtain fs where fs: "log_holds fmt fs (rg_audit_log g)" "fs \<noteq> []" "concat (map snd fs) = at_entries (rg_audit g)"
    by (auto simp: audit_agrees_def)
  have k: "at_checksum (rg_audit g) = foldl audit_checksum kFnvOffsetBasis (at_entries (rg_audit g))" using g by (simp add: audit_agrees_def)
  let ?k = "audit_checksum (at_checksum (rg_audit g)) e"
  have "?k = foldl audit_checksum kFnvOffsetBasis (concat (map snd fs) @ [e])" by (simp add: fs(3) k)
  then obtain fs' where "log_holds fmt fs' (append_audit_log_entry e ?k (rg_audit_log g))" "fs' \<noteq> []" "concat (map snd fs') = concat (map snd fs) @ [e]"
    by (rule append_holds [OF fs(1,2)])
  moreover have "al_is_open (rg_audit_log g)" using fs(1) by (simp add: log_holds_def)
  ultimately show ?thesis using fs(3) k by (auto simp: audit_agrees_def record_audit_entry_def trail_record_def Let_def)
qed

section \<open>The operations of the gateway\<close>

definition same_log :: "risk_gateway \<Rightarrow> risk_gateway \<Rightarrow> bool" where
  "same_log g g' \<longleftrightarrow> rg_audit g' = rg_audit g \<and> rg_audit_log g' = rg_audit_log g"

lemma same_log_agrees: "same_log g g' \<Longrightarrow> audit_agrees fmt g' = audit_agrees fmt g"
  by (simp add: same_log_def audit_agrees_def)

lemma release_quantity_log: "same_log g (release_working_order_quantity wo q g)"
  by (rule release_frame [of wo q g]) (simp add: same_log_def)

lemma add_quantity_log: "same_log g (add_working_order_quantity wo q g)"
  by (rule add_frame [of wo q g]) (simp add: same_log_def)

lemma change_log: "same_log g (change_working_order c p q g)"
  using release_quantity_log add_quantity_log by (simp add: change_working_order_def Let_def same_log_def)

lemma release_log: "same_log g (release_order c g)"
  using release_quantity_log by (auto simp: release_order_def Let_def same_log_def split: option.splits)

lemma register_log: "same_log g (register_working_order r g)"
  using add_quantity_log by (simp add: register_working_order_def Let_def same_log_def)

lemma bind_log: "same_log g (bind_exchange_order_id c i g)"
  by (simp add: bind_exchange_order_id_def Let_def same_log_def)

lemma accept_log: "same_log g (accept_id i g)"
  by (simp add: accept_id_def same_log_def)

lemma rate_log: "same_log g (snd (snd (rate_limit_allows r now g)))"
  by (simp add: rate_limit_allows_def Let_def same_log_def)

lemma report_log: "same_log g (on_execution_report rep g)"
  using bind_log release_log change_log
  by (auto simp: on_execution_report_def upsert_working_order_from_report_def Let_def same_log_def split: option.splits)

lemma decide_agrees:
  "audit_agrees fmt g \<Longrightarrow> audit_agrees fmt (snd (decide_entry now c sy sd name ok reason lim obs g))"
  "audit_agrees fmt g \<Longrightarrow> audit_agrees fmt (snd (decide_request r now name ok reason lim obs g))"
  by (simp_all add: decide_request_def decide_entry_def record_agrees)

lemma new_order_agrees: "audit_agrees fmt g \<Longrightarrow> audit_agrees fmt (snd (check_new_order r now g))"
proof -
  assume g: "audit_agrees fmt g"
  obtain ok v g1 where rate: "rate_limit_allows r now g = (ok, v, g1)" by (cases "rate_limit_allows r now g") auto
  have g1: "audit_agrees fmt g1" using g same_log_agrees [OF rate_log, of fmt r now g] rate by simp
  have g2: "audit_agrees fmt (accept_id i g1)" for i using same_log_agrees [OF accept_log] g1 by simp
  have g3: "audit_agrees fmt (register_working_order r (accept_id i g1))" for i using same_log_agrees [OF register_log] g2 by simp
  show ?thesis unfolding check_new_order_def Let_def rate prod.case
    using decide_agrees(2) [OF g] decide_agrees(2) [OF g1] decide_agrees(2) [OF g2] decide_agrees(2) [OF g3]
    by (auto split: option.split)
qed

lemma replace_agrees: "audit_agrees fmt g \<Longrightarrow> audit_agrees fmt (snd (check_replace_order r now g))"
proof (cases "replace_entry_verdict r g")
  case (Some v)
  assume "audit_agrees fmt g"
  then show ?thesis using Some decide_agrees(1) by (cases v) (simp add: check_replace_order_def)
next
  case None
  assume g: "audit_agrees fmt g"
  let ?cid = "the (map_of (rg_exchange_to_client_order_ids g) (rr_exchange_order_id r))"
  let ?q = "replacement_request r (the (map_of (rg_working_orders g) ?cid))"
  obtain ok v g1 where rate: "rate_limit_allows ?q now g = (ok, v, g1)" by (cases "rate_limit_allows ?q now g") auto
  have g1: "audit_agrees fmt g1" using g same_log_agrees [OF rate_log, of fmt ?q now g] rate by simp
  have "same_log h (accept_id i (change_working_order c p q h))" for i c p q h
    using change_log accept_log by (simp add: same_log_def)
  then have g2: "audit_agrees fmt (accept_id i (change_working_order c p q g1))" for i c p q
    using same_log_agrees g1 by blast
  show ?thesis unfolding check_replace_order_def Let_def None option.case rate prod.case
    using decide_agrees(2) [OF g1] decide_agrees(2) [OF g2] by (auto split: option.split)
qed

lemma cancel_all_agrees: "audit_agrees fmt g \<Longrightarrow> audit_agrees fmt (cancel_all_working_orders ts reason name g)"
proof -
  assume g: "audit_agrees fmt g"
  let ?e = "\<lambda>cid wo. \<lparr>ra_timestamp_ns = ts, ra_client_order_id = cid, ra_symbol_id = wo_symbol_id wo,
            ra_side = wo_side wo, ra_accepted = False, ra_reject_reason = reason, ra_check_name = name,
            ra_limit_value = 0, ra_observed_value = wo_quantity wo\<rparr>"
  let ?f = "\<lambda>(cid, wo) g.
      let g = record_audit_entry (?e cid wo) g
      in if reason = Rr_Disconnected then g\<lparr>rg_disconnect_cancel_count := rg_disconnect_cancel_count g + 1\<rparr> else g"
  have count: "audit_agrees fmt (h\<lparr>rg_disconnect_cancel_count := n\<rparr>) = audit_agrees fmt h" for h n
    by (simp add: audit_agrees_def)
  have step: "audit_agrees fmt h \<Longrightarrow> audit_agrees fmt (?f x h)" for x h
    using record_agrees [of fmt h] by (cases x) (simp add: Let_def count)
  have fold: "audit_agrees fmt h \<Longrightarrow> audit_agrees fmt (fold ?f ws h)" for ws h
  proof (induction ws arbitrary: h)
    case (Cons x ws)
    show ?case unfolding fold_simps comp_apply by (rule Cons.IH [OF step [OF Cons.prems]])
  qed (simp only: fold_simps id_apply)
  have clear: "audit_agrees fmt (h\<lparr>rg_working_quantity := [], rg_working_orders := [], rg_exchange_to_client_order_ids := [],
      rg_client_books := []\<rparr>) = audit_agrees fmt h" for h by (simp add: audit_agrees_def)
  have cases3: "audit_agrees fmt x \<Longrightarrow> audit_agrees fmt y \<Longrightarrow> audit_agrees fmt z \<Longrightarrow>
    audit_agrees fmt (if a then x else if b then y else z)" for a b x y z by simp
  show ?thesis unfolding cancel_all_working_orders_def Let_def clear
    by (rule cases3) (rule fold [OF g, unfolded Let_def], simp add: count g, rule g)
qed

definition log_op :: "rg_op \<Rightarrow> bool" where
  "log_op op = (case op of Rg_Clear_Audit \<Rightarrow> True | Rg_Open_Log _ _ _ _ \<Rightarrow> True | Rg_Close_Log \<Rightarrow> True | _ \<Rightarrow> False)"

lemma step_agrees: "audit_agrees fmt g \<Longrightarrow> \<not> log_op op \<Longrightarrow> audit_agrees fmt (snd (rg_step op g))"
proof (cases op)
  case (Rg_Enable_Kill_Switch ts)
  assume "audit_agrees fmt g"
  then have "audit_agrees fmt (g\<lparr>rg_kill_switch := True\<rparr>)" by (simp add: audit_agrees_def)
  then show ?thesis by (simp add: Rg_Enable_Kill_Switch enable_kill_switch_def cancel_all_agrees)
next
  case (Rg_Disconnect ts)
  assume g: "audit_agrees fmt g"
  then have "audit_agrees fmt (g\<lparr>rg_connected := False, rg_disconnect_count := rg_disconnect_count g + 1\<rparr>)"
    by (simp add: audit_agrees_def)
  then show ?thesis using g cancel_all_agrees by (simp add: Rg_Disconnect on_disconnect_def Let_def)
next
  case (Rg_Report rep)
  assume "audit_agrees fmt g"
  then show ?thesis using same_log_agrees [OF report_log] by (simp add: Rg_Report)
next
  case (Rg_Release c)
  assume "audit_agrees fmt g"
  then show ?thesis using same_log_agrees [OF release_log] by (simp add: Rg_Release)
next
  case (Rg_Check_New r now)
  assume "audit_agrees fmt g"
  then show ?thesis using new_order_agrees by (simp add: Rg_Check_New)
next
  case (Rg_Check_Replace r now)
  assume "audit_agrees fmt g"
  then show ?thesis using replace_agrees by (simp add: Rg_Check_Replace)
qed (simp_all add: log_op_def audit_agrees_def disable_kill_switch_def on_reconnect_def
  on_market_data_def set_position_def reserve_hot_path_capacity_def set_limits_def set_audit_enabled_def)

lemma run_agrees: "audit_agrees fmt g \<Longrightarrow> list_all (\<lambda>op. \<not> log_op op) ops \<Longrightarrow> audit_agrees fmt (snd (run_with rg_step ops g))"
  by (induction ops arbitrary: g) (simp_all add: split_beta step_agrees)

lemma open_agrees:
  assumes "\<And>p. openable p" and "\<And>i. map_of files (rotated_audit_log_path i (rg_audit_log (snd (open_rotating_audit_log path fmt n m
      (rg_new limits files openable))))) = None"
  shows "audit_agrees fmt (snd (open_rotating_audit_log path fmt n m (rg_new limits files openable)))"
proof -
  define g where "g = snd (open_rotating_audit_log path fmt n m (rg_new limits files openable))"
  define log where "log = rg_audit_log g"
  have p: "rotated_audit_log_path 0 log = path"
    by (simp add: rotated_audit_log_path_def log_def g_def open_rotating_audit_log_def close_audit_log_def rg_new_def log_open_def assms(1) Let_def)
  have none: "map_of files (rotated_audit_log_path i log) = None" for i using assms(2) by (simp add: log_def g_def)
  then have f: "map_of files path = None" using p by metis
  have l: "al_is_open log" "al_format log = fmt" "al_openable log = openable" "al_paths log = [path]" "al_path log = path"
    "al_index log = 0" "al_files log = AList.update path [] files" "rg_audit g = trail_new"
    by (simp_all add: log_def g_def open_rotating_audit_log_def close_audit_log_def rg_new_def log_open_def assms(1) Let_def file_text_def f)
  have "rotated_audit_log_path i log = path \<longleftrightarrow> i = 0" for i using rotated_inj [of i log 0] p by simp
  then have "log_holds fmt [(path, [])] log"
    using assms(1) none by (simp add: log_holds_def log_contents_def l p)
  then show ?thesis unfolding audit_agrees_def g_def [symmetric] log_def [symmetric] l by (auto simp: trail_new_def intro!: exI [of _ "[(path, [])]"])
qed

text \<open>C20: a gateway that opens a rotating audit log on fresh files and then runs any operations that do not clear,
  reopen or close it leaves files that verify, whatever the rotation limits: every file is read, every entry of
  the trail is found, and the final checksum is the trail's.\<close>

theorem gateway_audit_log_verifies:
  assumes "\<And>p. openable p"
    and "g0 = snd (open_rotating_audit_log path fmt n m (rg_new limits files openable))"
    and "\<And>i. map_of files (rotated_audit_log_path i (rg_audit_log g0)) = None"
    and "list_all (\<lambda>op. \<not> log_op op) ops" and "g = snd (run_with rg_step ops g0)" and "list_all loggable (at_entries (rg_audit g))"
  shows "verify_risk_audit_logs (log_contents (rg_audit_log g)) fmt =
    \<lparr>av_valid = True, av_files_checked = length (al_paths (rg_audit_log g)), av_entries_checked = length (at_entries (rg_audit g)),
     av_final_checksum = at_checksum (rg_audit g), av_error = []\<rparr>"
proof -
  have "audit_agrees fmt g0" unfolding assms(2) by (rule open_agrees [OF assms(1) assms(3) [unfolded assms(2)]])
  then have a: "audit_agrees fmt g" unfolding assms(5) using assms(4) by (rule run_agrees)
  then obtain fs where fs: "log_holds fmt fs (rg_audit_log g)" "concat (map snd fs) = at_entries (rg_audit g)"
    by (auto simp: audit_agrees_def)
  have "list_all (\<lambda>(path, es). list_all loggable es) fs"
    using assms(6) unfolding fs(2) [symmetric] by (auto simp: list_all_iff)
  then have v: "verify_risk_audit_logs (log_files fmt kFnvOffsetBasis fs) fmt =
    \<lparr>av_valid = True, av_files_checked = length fs, av_entries_checked = length (concat (map snd fs)),
     av_final_checksum = at_checksum (rg_audit g), av_error = []\<rparr>"
    using a unfolding fs(2) [symmetric]
    by (simp add: verify_risk_audit_logs_def verify_log_files verification_started_def audit_agrees_def fs(2))
  have "length fs = length (al_paths (rg_audit_log g))" using fs(1) by (metis length_map log_holds_def)
  then show ?thesis using v fs by (simp add: log_holds_def)
qed

definition demo_started :: risk_gateway where
  "demo_started = snd (open_rotating_audit_log ''logs/audit.jsonl'' Alf_Jsonl 1 0 (rg_new demo_limits [] (\<lambda>_. True)))"

definition demo_log_ops :: "rg_op list" where
  "demo_log_ops = [Rg_Check_New (demo_request 1 Buy 99 5) 10, Rg_Check_New (demo_request 2 Buy 99 5) 12]"

definition demo_idle :: "risk_gateway \<Rightarrow> bool" where
  "demo_idle g \<longleftrightarrow> rg_record_audit g \<and> rg_market_state g = [] \<and> rg_limits g = demo_limits \<and> rg_connected g \<and> \<not> rg_kill_switch g \<and>
     rg_accepted_client_order_ids g = cs_new \<and> list_all loggable (at_entries (rg_audit g))"

lemma demo_started_idle: "demo_idle demo_started"
  by (simp add: demo_idle_def demo_started_def open_rotating_audit_log_def close_audit_log_def rg_new_def log_open_def trail_new_def Let_def)

lemma demo_check_idle:
  assumes "demo_idle g" and "fits_i64 now"
  shows "demo_idle (snd (check_new_order (demo_request c sd 99 5) now g))"
proof -
  have g: "rg_record_audit g" "rg_market_state g = []" "rg_limits g = demo_limits" "rg_connected g" "\<not> rg_kill_switch g"
    "rg_accepted_client_order_ids g = cs_new" "list_all loggable (at_entries (rg_audit g))"
    using assms(1) by (simp_all add: demo_idle_def)
  have l: "rl_max_messages_per_window demo_limits = 0" "rl_max_order_quantity demo_limits = 1000"
    "rl_stale_after_ns demo_limits = 1000000000" by (simp_all add: demo_limits_def default_limits_def)
  have "new_order_verdict (demo_request c sd 99 5) now g = Some (''stale_market_data'', Rr_StaleMarketData, 1000000000, 0)"
    by (simp add: new_order_verdict_def Let_def g l demo_request_def id_accepted_def cs_contains_def cs_new_def split: prod.split)
  then have c: "check_new_order (demo_request c sd 99 5) now g =
    decide_request (demo_request c sd 99 5) now ''stale_market_data'' False Rr_StaleMarketData 1000000000 0 g"
    by (simp add: check_new_order_def rate_limit_allows_def g l Let_def)
  have s: "same_exposure g (snd (check_new_order (demo_request c sd 99 5) now g))" unfolding c by (rule decide_request_same)
  have "list_all loggable (at_entries (rg_audit (snd (check_new_order (demo_request c sd 99 5) now g))))"
    using assms(2) g(7) unfolding c
    by (simp add: decide_request_def decide_entry_def g record_audit_entry_def trail_record_def Let_def loggable_def plain_name_def fits_i64_def)
  then show ?thesis using g unfolding demo_idle_def same_exposure_fields [OF s] by simp
qed

lemma gateway_audit_log_verifies_witness:
  "av_valid (verify_risk_audit_logs (log_contents (rg_audit_log (snd (run_with rg_step demo_log_ops demo_started)))) Alf_Jsonl)"
proof -
  let ?final = "snd (run_with rg_step demo_log_ops demo_started)"
  have "demo_idle ?final" unfolding demo_log_ops_def
    by (simp add: split_beta) (intro demo_check_idle demo_started_idle; simp add: fits_i64_def)
  then have "list_all loggable (at_entries (rg_audit ?final))" by (simp add: demo_idle_def)
  moreover have "list_all (\<lambda>op. \<not> log_op op) demo_log_ops" by (simp add: demo_log_ops_def log_op_def)
  ultimately have "verify_risk_audit_logs (log_contents (rg_audit_log ?final)) Alf_Jsonl =
    \<lparr>av_valid = True, av_files_checked = length (al_paths (rg_audit_log ?final)), av_entries_checked = length (at_entries (rg_audit ?final)),
     av_final_checksum = at_checksum (rg_audit ?final), av_error = []\<rparr>"
    by (intro gateway_audit_log_verifies [OF _ demo_started_def _ _ refl]) simp_all
  then show ?thesis by simp
qed

end
