(* ===== verification/Risk_Rate.thy ===== *)
theory Risk_Rate
  imports Risk_Properties
begin

text \<open>
  The sliding-window message rate of \<^verbatim>\<open>rate_limit_allows\<close>: the deque of a client's timestamps, from
  which expired entries leave at the front only, counts the client's messages in the window, whatever the
  messages of the other clients.
\<close>

lemma dropWhile_sorted_filter:
  assumes "sorted ts" and "\<And>s t. s \<le> t \<Longrightarrow> \<not> P s \<Longrightarrow> \<not> P t"
  shows "dropWhile P ts = filter (\<lambda>t. \<not> P t) ts"
  using assms(1)
proof (induction ts)
  case (Cons t ts)
  show ?case
  proof (cases "P t")
    case False
    then have "filter (\<lambda>t. \<not> P t) ts = ts" using Cons.prems assms(2) by (auto simp: filter_id_conv)
    then show ?thesis using False by simp
  qed (use Cons in simp)
qed simp

definition sliding_limits :: "risk_limits \<Rightarrow> bool" where
  "sliding_limits l \<longleftrightarrow> rl_rate_limit_mode l = Rl_SlidingWindow \<and> rl_max_messages_per_window l \<noteq> 0 \<and> 0 < rl_rate_window_ns l"

text \<open>A message is a request with its time; the gateway after a list of messages.\<close>

definition after_messages :: "(new_order_request \<times> timestamp_ns) list \<Rightarrow> risk_gateway \<Rightarrow> risk_gateway" where
  "after_messages ms g = fold (\<lambda>(r, t) g. snd (snd (rate_limit_allows r t g))) ms g"

text \<open>The times of a client's messages, and those that are less than the window old.\<close>

definition client_times :: "client_id \<Rightarrow> (new_order_request \<times> timestamp_ns) list \<Rightarrow> timestamp_ns list" where
  "client_times cl ms = map snd (filter (\<lambda>(r, _). nr_client_id r = cl) ms)"

definition in_window :: "timestamp_ns \<Rightarrow> timestamp_ns \<Rightarrow> timestamp_ns list \<Rightarrow> timestamp_ns list" where
  "in_window w now ts = filter (\<lambda>t. now - t < w) ts"

definition window_times :: "client_id \<Rightarrow> risk_gateway \<Rightarrow> timestamp_ns list" where
  "window_times cl g = (case map_of (rg_rate_states g) cl of None \<Rightarrow> [] | Some st \<Rightarrow> rs_sliding_timestamps st)"

definition rate_ok :: "timestamp_ns \<Rightarrow> client_id \<Rightarrow> (new_order_request \<times> timestamp_ns) list \<Rightarrow> risk_gateway \<Rightarrow> bool" where
  "rate_ok w cl ms g \<longleftrightarrow> sorted (window_times cl g) \<and> set (window_times cl g) \<subseteq> set (client_times cl ms) \<and>
     (\<forall>now. (\<forall>(r, t) \<in> set ms. t \<le> now) \<longrightarrow> in_window w now (window_times cl g) = in_window w now (client_times cl ms))"

lemma rate_allows_sliding:
  assumes "sliding_limits (rg_limits g)"
  shows "window_times cl (snd (snd (rate_limit_allows r now g))) = (if cl = nr_client_id r
      then dropWhile (\<lambda>t. now - t \<ge> rl_rate_window_ns (rg_limits g)) (window_times cl g) @ [now] else window_times cl g)"
    and "fst (rate_limit_allows r now g) \<longleftrightarrow>
      length (dropWhile (\<lambda>t. now - t \<ge> rl_rate_window_ns (rg_limits g)) (window_times (nr_client_id r) g) @ [now])
        \<le> unat (rl_max_messages_per_window (rg_limits g))"
    and "rg_limits (snd (snd (rate_limit_allows r now g))) = rg_limits g"
  using assms by (auto simp: rate_limit_allows_def sliding_limits_def window_times_def blank_rate_state_def Let_def split: option.splits)

lemma dropWhile_window: "sorted ts \<Longrightarrow> dropWhile (\<lambda>t. now - t \<ge> w) ts = in_window w now ts" for now w :: int
  unfolding in_window_def by (subst dropWhile_sorted_filter) (auto simp: not_le)

lemma rate_ok_step:
  assumes "rate_ok w cl ms g" and "sliding_limits (rg_limits g)" and "rl_rate_window_ns (rg_limits g) = w"
    and "\<forall>(r', t) \<in> set ms. t \<le> now"
  shows "rate_ok w cl (ms @ [(r, now)]) (snd (snd (rate_limit_allows r now g)))"
proof (cases "cl = nr_client_id r")
  case False
  then show ?thesis using assms(1) by (simp add: rate_ok_def rate_allows_sliding(1) [OF assms(2)] client_times_def)
next
  case True
  let ?d = "window_times cl g" and ?ts = "client_times cl ms"
  have d: "sorted ?d" "set ?d \<subseteq> set ?ts" using assms(1) by (simp_all add: rate_ok_def)
  have d': "window_times cl (snd (snd (rate_limit_allows r now g))) = in_window w now ?d @ [now]"
    unfolding rate_allows_sliding(1) [OF assms(2)] assms(3) dropWhile_window [OF d(1)] using True by simp
  have ts: "client_times cl (ms @ [(r, now)]) = ?ts @ [now]" using True by (simp add: client_times_def)
  have "t \<le> now" if "t \<in> set ?ts" for t using that assms(4) by (auto simp: client_times_def)
  then have "sorted (in_window w now ?d @ [now])" using d by (auto simp: sorted_append in_window_def sorted_wrt_filter)
  moreover have "in_window w later (in_window w now ?d @ [now]) = in_window w later (?ts @ [now])"
    if later: "\<forall>(r', t) \<in> set (ms @ [(r, now)]). t \<le> later" for later
  proof -
    have l: "now \<le> later" "\<forall>(r', t) \<in> set ms. t \<le> later" using later by auto
    have "in_window w later (in_window w now ?d) = in_window w later ?d"
      using l(1) by (auto simp: in_window_def intro!: filter_cong)
    also have "\<dots> = in_window w later ?ts" using assms(1) l(2) by (simp add: rate_ok_def)
    finally show ?thesis by (simp add: in_window_def)
  qed
  ultimately show ?thesis using d(2) unfolding rate_ok_def d' ts by (auto simp: in_window_def)
qed

lemma rate_ok_messages:
  assumes "rate_ok w cl before g" and "sliding_limits (rg_limits g)" and "rl_rate_window_ns (rg_limits g) = w"
    and "sorted (map snd (before @ ms))"
  shows "rate_ok w cl (before @ ms) (after_messages ms g)" and "rg_limits (after_messages ms g) = rg_limits g"
proof -
  have "rate_ok w cl (before @ ms) (after_messages ms g) \<and> rg_limits (after_messages ms g) = rg_limits g"
    using assms
  proof (induction ms arbitrary: before g)
    case (Cons m ms)
    obtain r t where m: "m = (r, t)" by (cases m)
    have t: "\<forall>(r', s) \<in> set before. s \<le> t" using Cons.prems(4) m by (force simp: sorted_append)
    let ?g = "snd (snd (rate_limit_allows r t g))"
    have l: "rg_limits ?g = rg_limits g" by (rule rate_allows_sliding(3) [OF Cons.prems(2)])
    show ?case using Cons.IH [OF rate_ok_step [OF Cons.prems(1-3) t, of r]] Cons.prems(2-4) l
      by (simp add: m after_messages_def)
  qed (simp add: after_messages_def)
  then show "rate_ok w cl (before @ ms) (after_messages ms g)" "rg_limits (after_messages ms g) = rg_limits g" by simp_all
qed

text \<open>C23: with a sliding window, after any time-ordered messages of any clients, a message passes the rate limit
  exactly when the client's messages in the window that ends with it, itself included, are at most the limit.\<close>

theorem sliding_window_counts:
  assumes "sliding_limits (rg_limits g)" and "window_times (nr_client_id r) g = []" and "sorted (map snd ms @ [now])"
  shows "fst (rate_limit_allows r now (after_messages ms g)) \<longleftrightarrow>
    length (in_window (rl_rate_window_ns (rg_limits g)) now (client_times (nr_client_id r) ms)) + 1
      \<le> unat (rl_max_messages_per_window (rg_limits g))"
proof -
  let ?w = "rl_rate_window_ns (rg_limits g)" and ?cl = "nr_client_id r"
  have "rate_ok ?w ?cl [] g" using assms(2) by (simp add: rate_ok_def client_times_def in_window_def)
  then have ok: "rate_ok ?w ?cl ms (after_messages ms g)" and l: "rg_limits (after_messages ms g) = rg_limits g"
    using rate_ok_messages [of ?w ?cl "[]" g ms] assms(1,3) by (simp_all add: sorted_append)
  have now: "\<forall>(r', t) \<in> set ms. t \<le> now" using assms(3) by (force simp: sorted_append)
  have "in_window ?w now (window_times ?cl (after_messages ms g)) = in_window ?w now (client_times ?cl ms)"
    using ok now by (simp add: rate_ok_def)
  moreover have "sorted (window_times ?cl (after_messages ms g))" using ok by (simp add: rate_ok_def)
  ultimately show ?thesis using assms(1) rate_allows_sliding(2) [of "after_messages ms g" r now]
    by (simp add: l dropWhile_window)
qed

definition demo_rate :: risk_gateway where
  "demo_rate = rg_new (default_limits\<lparr>rl_rate_limit_mode := Rl_SlidingWindow, rl_max_messages_per_window := 2,
     rl_rate_window_ns := 10\<rparr>) [] (\<lambda>_. True)"

lemma sliding_window_counts_witness:
  "\<not> fst (rate_limit_allows (demo_request 3 Buy 99 1) 19 (after_messages
     [(demo_request 1 Buy 99 1, 5), (demo_request 2 Buy 99 1, 10), (demo_request 2 Buy 99 1, 12)] demo_rate))"
  by (subst sliding_window_counts) (simp_all add: demo_rate_def rg_new_def sliding_limits_def window_times_def default_limits_def
      in_window_def client_times_def demo_request_def)

end
