(* ===== verification/Spsc_Ring_Buffer.thy ===== *)
theory Spsc_Ring_Buffer
  imports Prelude
begin

text \<open>
  \<^verbatim>\<open>concurrency/spsc_ring_buffer.hpp\<close>: the bounded single-producer single-consumer ring with one
  reserved slot. A push is a load of the head, a write of the slot at the tail and a publication of the tail; a pop
  is a load of the tail, a read of the slot at the head and a publication of the head. The accesses are
  definitions of their own, so that a concurrent client can interleave them. What the ring promises, a bounded
  first-in first-out queue, is the locale \<open>bounded_fifo\<close>, interpreted on the ring.
\<close>

section \<open>The ring\<close>

record 'a ring =
  rb_slots :: "'a list"
  rb_capacity :: nat
  rb_head :: nat
  rb_tail :: nat

definition rb_new :: "'a \<Rightarrow> nat \<Rightarrow> 'a ring" where
  "rb_new blank capacity = \<lparr>rb_slots = replicate (capacity + 1) blank, rb_capacity = capacity, rb_head = 0, rb_tail = 0\<rparr>"

definition rb_increment :: "nat \<Rightarrow> 'a ring \<Rightarrow> nat" where
  "rb_increment index r = (index + 1) mod length (rb_slots r)"

definition rb_full :: "'a ring \<Rightarrow> bool" where
  "rb_full r \<longleftrightarrow> rb_increment (rb_tail r) r = rb_head r"

definition rb_write :: "'a \<Rightarrow> 'a ring \<Rightarrow> 'a ring" where
  "rb_write item r = r\<lparr>rb_slots := (rb_slots r)[rb_tail r := item]\<rparr>"

definition rb_publish_tail :: "'a ring \<Rightarrow> 'a ring" where
  "rb_publish_tail r = r\<lparr>rb_tail := rb_increment (rb_tail r) r\<rparr>"

definition rb_try_push :: "'a \<Rightarrow> 'a ring \<Rightarrow> bool \<times> 'a ring" where
  "rb_try_push item r = (if rb_full r then (False, r) else (True, rb_publish_tail (rb_write item r)))"

definition rb_empty_approx :: "'a ring \<Rightarrow> bool" where
  "rb_empty_approx r \<longleftrightarrow> rb_head r = rb_tail r"

definition rb_read :: "'a ring \<Rightarrow> 'a" where
  "rb_read r = rb_slots r ! rb_head r"

definition rb_publish_head :: "'a ring \<Rightarrow> 'a ring" where
  "rb_publish_head r = r\<lparr>rb_head := rb_increment (rb_head r) r\<rparr>"

definition rb_try_pop :: "'a ring \<Rightarrow> 'a option \<times> 'a ring" where
  "rb_try_pop r = (if rb_empty_approx r then (None, r) else (Some (rb_read r), rb_publish_head r))"

definition rb_size_approx :: "'a ring \<Rightarrow> nat" where
  "rb_size_approx r = (rb_tail r + length (rb_slots r) - rb_head r) mod length (rb_slots r)"

section \<open>Its contents\<close>

definition rb_ok :: "'a ring \<Rightarrow> bool" where
  "rb_ok r \<longleftrightarrow> length (rb_slots r) = rb_capacity r + 1 \<and> rb_head r < length (rb_slots r) \<and> rb_tail r < length (rb_slots r)"

definition rb_contents :: "'a ring \<Rightarrow> 'a list" where
  "rb_contents r = map (\<lambda>i. rb_slots r ! ((rb_head r + i) mod length (rb_slots r))) [0..<rb_size_approx r]"

lemma rb_new_ok [simp]: "rb_ok (rb_new blank n)" "rb_contents (rb_new blank n) = []" "rb_capacity (rb_new blank n) = n"
  by (simp_all add: rb_ok_def rb_new_def rb_contents_def rb_size_approx_def)

lemma length_contents: "length (rb_contents r) = rb_size_approx r"
  by (simp add: rb_contents_def)

text \<open>The size is the distance from the head to the tail round the ring.\<close>

lemma size_tail:
  assumes "rb_ok r"
  shows "(rb_head r + rb_size_approx r) mod length (rb_slots r) = rb_tail r" and "rb_size_approx r < length (rb_slots r)"
proof -
  let ?n = "length (rb_slots r)"
  have h: "rb_head r < ?n" "rb_tail r < ?n" using assms by (simp_all add: rb_ok_def)
  then have "0 < ?n" by linarith
  have "(rb_head r + (rb_tail r + ?n - rb_head r) mod ?n) mod ?n = (rb_head r + (rb_tail r + ?n - rb_head r)) mod ?n"
    by (rule mod_add_right_eq)
  also have "\<dots> = (rb_tail r + ?n) mod ?n" using h by simp
  finally show "(rb_head r + rb_size_approx r) mod ?n = rb_tail r" using h by (simp add: rb_size_approx_def)
  show "rb_size_approx r < ?n" using \<open>0 < ?n\<close> by (simp add: rb_size_approx_def)
qed

lemma mod_ring: "h < n \<Longrightarrow> i < n \<Longrightarrow> (h + i) mod n = (if h + i < n then h + i else h + i - n)" for h :: nat
  by (simp add: mod_if)

lemma mod_ring_inj: "(h + i) mod n = (h + j) mod n \<Longrightarrow> h < n \<Longrightarrow> i < n \<Longrightarrow> j < n \<Longrightarrow> i = j" for h :: nat
  by (simp add: mod_ring split: if_splits)

lemma size_unique:
  assumes "rb_ok r" and "s < length (rb_slots r)" and "(rb_head r + s) mod length (rb_slots r) = rb_tail r"
  shows "rb_size_approx r = s"
  using mod_ring_inj [of "rb_head r" "rb_size_approx r" "length (rb_slots r)" s] size_tail [OF assms(1)] assms
  by (simp add: rb_ok_def)

lemma size_capacity: "rb_ok r \<Longrightarrow> rb_size_approx r \<le> rb_capacity r"
  using size_tail(2) [of r] by (simp add: rb_ok_def)

lemma empty_iff: "rb_ok r \<Longrightarrow> rb_empty_approx r \<longleftrightarrow> rb_contents r = []"
  using size_unique [of r 0] size_tail [of r] by (auto simp: rb_empty_approx_def rb_ok_def length_contents simp flip: length_0_conv)

lemma full_iff: "rb_ok r \<Longrightarrow> rb_full r \<longleftrightarrow> length (rb_contents r) = rb_capacity r"
proof -
  assume r: "rb_ok r"
  let ?n = "length (rb_slots r)" and ?s = "rb_size_approx r"
  have n: "?n = rb_capacity r + 1" "rb_head r < ?n" using r by (simp_all add: rb_ok_def)
  have "rb_full r \<longleftrightarrow> (rb_head r + ?s + 1) mod ?n = rb_head r"
    using mod_Suc_eq [of "rb_head r + ?s" ?n] by (simp add: rb_full_def rb_increment_def size_tail(1) [OF r])
  also have "\<dots> \<longleftrightarrow> ?s + 1 = ?n"
  proof (cases "?s + 1 < ?n")
    case True
    then show ?thesis using mod_ring [of "rb_head r" ?n "?s + 1"] n(2) by (auto split: if_splits)
  next
    case False
    then have "?s + 1 = ?n" using size_tail(2) [OF r] by simp
    then have "rb_head r + ?s + 1 = rb_head r + ?n" by linarith
    then have "(rb_head r + ?s + 1) mod ?n = rb_head r" using n(2) by (simp only: mod_add_self2 mod_less)
    with \<open>?s + 1 = ?n\<close> show ?thesis by simp
  qed
  finally show ?thesis by (simp add: n(1) length_contents)
qed

text \<open>What the three stores do to the contents.\<close>

lemma write_contents:
  assumes "rb_ok r"
  shows "rb_ok (rb_write x r)" and "rb_contents (rb_write x r) = rb_contents r" and "rb_full (rb_write x r) = rb_full r"
    and "rb_capacity (rb_write x r) = rb_capacity r" and "rb_slots (rb_write x r) ! rb_tail (rb_write x r) = x"
proof -
  let ?n = "length (rb_slots r)"
  have s: "rb_size_approx (rb_write x r) = rb_size_approx r" by (simp add: rb_size_approx_def rb_write_def)
  have "rb_tail r \<noteq> (rb_head r + i) mod ?n" if "i < rb_size_approx r" for i
    using that mod_ring_inj [of "rb_head r" i ?n "rb_size_approx r"] size_tail [OF assms] assms by (auto simp: rb_ok_def)
  then have "map (\<lambda>i. (rb_slots r)[rb_tail r := x] ! ((rb_head r + i) mod ?n)) [0..<rb_size_approx r] = rb_contents r"
    unfolding rb_contents_def by (intro map_cong) auto
  then show "rb_contents (rb_write x r) = rb_contents r" unfolding rb_contents_def s by (simp add: rb_write_def)
qed (use assms in \<open>simp_all add: rb_ok_def rb_write_def rb_full_def rb_increment_def\<close>)

lemma publish_tail_contents:
  assumes "rb_ok r" and "\<not> rb_full r"
  shows "rb_ok (rb_publish_tail r)" and "rb_contents (rb_publish_tail r) = rb_contents r @ [rb_slots r ! rb_tail r]"
    and "rb_capacity (rb_publish_tail r) = rb_capacity r"
proof -
  let ?n = "length (rb_slots r)" and ?s = "rb_size_approx r"
  show ok: "rb_ok (rb_publish_tail r)" using assms(1) by (auto simp: rb_ok_def rb_publish_tail_def rb_increment_def)
  have "?s + 1 < ?n" using assms full_iff [OF assms(1)] size_tail(2) [OF assms(1)]
    by (simp add: length_contents rb_ok_def)
  moreover have "(rb_head r + (?s + 1)) mod ?n = rb_tail (rb_publish_tail r)"
    using mod_Suc_eq [of "rb_head r + ?s" ?n] by (simp add: rb_publish_tail_def rb_increment_def size_tail(1) [OF assms(1)])
  ultimately have "rb_size_approx (rb_publish_tail r) = ?s + 1"
    by (intro size_unique [OF ok]) (simp_all add: rb_publish_tail_def)
  then show "rb_contents (rb_publish_tail r) = rb_contents r @ [rb_slots r ! rb_tail r]"
    by (simp add: rb_contents_def size_tail(1) [OF assms(1), symmetric]) (simp add: rb_publish_tail_def size_tail(1) [OF assms(1)])
qed (simp add: rb_publish_tail_def)

lemma publish_head_contents:
  assumes "rb_ok r" and "\<not> rb_empty_approx r"
  shows "rb_ok (rb_publish_head r)" and "rb_contents r = rb_read r # rb_contents (rb_publish_head r)"
    and "rb_capacity (rb_publish_head r) = rb_capacity r"
proof -
  let ?n = "length (rb_slots r)" and ?h = "rb_publish_head r"
  show ok: "rb_ok ?h" using assms(1) by (auto simp: rb_ok_def rb_publish_head_def rb_increment_def)
  obtain s where s: "rb_size_approx r = Suc s"
    using assms empty_iff [OF assms(1)] by (cases "rb_size_approx r") (simp_all add: length_contents flip: length_0_conv)
  have step: "(rb_head ?h + i) mod ?n = (rb_head r + Suc i) mod ?n" for i
    by (simp add: rb_publish_head_def rb_increment_def mod_add_left_eq)
  have same: "rb_slots ?h = rb_slots r" "rb_tail ?h = rb_tail r" by (simp_all add: rb_publish_head_def)
  have "(rb_head ?h + s) mod ?n = rb_tail ?h" using size_tail(1) [OF assms(1)] by (simp only: step same s)
  then have "rb_size_approx ?h = s" using size_tail(2) [OF assms(1)] by (intro size_unique [OF ok]) (simp_all add: same s)
  then have "rb_contents ?h = map (\<lambda>i. rb_slots r ! ((rb_head r + Suc i) mod ?n)) [0..<s]"
    by (simp only: rb_contents_def same step)
  moreover have "rb_contents r = rb_read r # map (\<lambda>i. rb_slots r ! ((rb_head r + Suc i) mod ?n)) [0..<s]"
    using assms(1) unfolding rb_contents_def s by (simp only: upt_conv_Cons zero_less_Suc map_Suc_upt [symmetric] list.map map_map comp_def)
      (simp add: rb_read_def rb_ok_def)
  ultimately show "rb_contents r = rb_read r # rb_contents ?h" by simp
qed (simp add: rb_publish_head_def)

text \<open>While the queue holds something, the slot being read is not the slot being written.\<close>

lemma read_after_write: "rb_ok r \<Longrightarrow> \<not> rb_empty_approx r \<Longrightarrow> rb_read (rb_write x r) = rb_read r"
  by (simp add: rb_read_def rb_write_def rb_empty_approx_def)

section \<open>The queue it implements\<close>

text \<open>A run of pushes (\<open>Some\<close>) and pops (\<open>None\<close>) gives the answer to each operation: whether the item was
  taken, or the item that came out. The bounded queue of lists answers as the documentation says.\<close>

fun fifo_run ::
    "('q \<Rightarrow> 'a \<Rightarrow> bool \<times> 'q) \<Rightarrow> ('q \<Rightarrow> 'a option \<times> 'q) \<Rightarrow> 'a option list \<Rightarrow> 'q \<Rightarrow> (bool + 'a option) list \<times> 'q" where
  "fifo_run push pop [] q = ([], q)"
| "fifo_run push pop (Some x # ops) q =
     (let (ok, q) = push q x; (answers, q) = fifo_run push pop ops q in (Inl ok # answers, q))"
| "fifo_run push pop (None # ops) q =
     (let (y, q) = pop q; (answers, q) = fifo_run push pop ops q in (Inr y # answers, q))"

definition queue_push :: "nat \<Rightarrow> 'a list \<Rightarrow> 'a \<Rightarrow> bool \<times> 'a list" where
  "queue_push n q x = (if length q < n then (True, q @ [x]) else (False, q))"

fun queue_pop :: "'a list \<Rightarrow> 'a option \<times> 'a list" where
  "queue_pop [] = (None, [])"
| "queue_pop (y # ys) = (Some y, ys)"

locale bounded_fifo =
  fixes good :: "'q \<Rightarrow> bool" and items :: "'q \<Rightarrow> 'a list" and size_limit :: "'q \<Rightarrow> nat"
    and push :: "'q \<Rightarrow> 'a \<Rightarrow> bool \<times> 'q" and pop :: "'q \<Rightarrow> 'a option \<times> 'q"
  assumes push_law: "good q \<Longrightarrow> good (snd (push q x)) \<and> size_limit (snd (push q x)) = size_limit q \<and>
      (if length (items q) = size_limit q then push q x = (False, q) else fst (push q x) \<and> items (snd (push q x)) = items q @ [x])"
    and pop_law: "good q \<Longrightarrow> good (snd (pop q)) \<and> size_limit (snd (pop q)) = size_limit q \<and>
      (case items q of [] \<Rightarrow> pop q = (None, q) | y # ys \<Rightarrow> fst (pop q) = Some y \<and> items (snd (pop q)) = ys)"
    and bound_law: "good q \<Longrightarrow> length (items q) \<le> size_limit q"
begin

lemma push_refines:
  "good q \<Longrightarrow> push q x = (ok, q') \<Longrightarrow> good q' \<and> size_limit q' = size_limit q \<and> queue_push (size_limit q) (items q) x = (ok, items q')"
  using push_law [of q x] bound_law [of q] by (cases "length (items q) = size_limit q") (auto simp: queue_push_def)

lemma pop_refines:
  "good q \<Longrightarrow> pop q = (y, q') \<Longrightarrow> good q' \<and> size_limit q' = size_limit q \<and> queue_pop (items q) = (y, items q')"
  using pop_law [of q] by (cases "items q") auto

lemma run_refines:
  assumes "good q" and "fifo_run push pop ops q = (answers, q')"
  shows "good q' \<and> size_limit q' = size_limit q \<and> fifo_run (queue_push (size_limit q)) queue_pop ops (items q) = (answers, items q')"
  using assms
proof (induction ops arbitrary: q answers)
  case (Cons op ops)
  show ?case
  proof (cases op)
    case (Some x)
    obtain ok q1 where p: "push q x = (ok, q1)" by (cases "push q x")
    obtain rest q2 where r: "fifo_run push pop ops q1 = (rest, q2)" by (cases "fifo_run push pop ops q1")
    note law = push_refines [OF Cons.prems(1) p]
    have out: "q' = q2" "answers = Inl ok # rest" using Cons.prems(2) by (simp_all add: Some p r)
    from law out(1) Cons.IH [of q1 rest] r show ?thesis unfolding Some out(2) by simp
  next
    case None
    obtain y q1 where p: "pop q = (y, q1)" by (cases "pop q")
    obtain rest q2 where r: "fifo_run push pop ops q1 = (rest, q2)" by (cases "fifo_run push pop ops q1")
    note law = pop_refines [OF Cons.prems(1) p]
    have out: "q' = q2" "answers = Inr y # rest" using Cons.prems(2) by (simp_all add: None p r)
    from law out(1) Cons.IH [of q1 rest] r show ?thesis unfolding None out(2) by simp
  qed
qed simp

end

interpretation ring: bounded_fifo rb_ok rb_contents rb_capacity "\<lambda>r x. rb_try_push x r" rb_try_pop
proof
  fix q :: "'a ring" and x
  assume q: "rb_ok q"
  note w = write_contents [OF q, of x]
  show "rb_ok (snd (rb_try_push x q)) \<and> rb_capacity (snd (rb_try_push x q)) = rb_capacity q \<and>
    (if length (rb_contents q) = rb_capacity q then rb_try_push x q = (False, q)
     else fst (rb_try_push x q) \<and> rb_contents (snd (rb_try_push x q)) = rb_contents q @ [x])"
  proof (cases "rb_full q")
    case True
    then show ?thesis using q full_iff [OF q] by (simp add: rb_try_push_def)
  next
    case False
    then have "\<not> rb_full (rb_write x q)" using w(3) by simp
    note p = publish_tail_contents [OF w(1) this]
    have "length (rb_contents q) \<noteq> rb_capacity q" using False full_iff [OF q] by simp
    then show ?thesis using False p(1) by (simp add: rb_try_push_def p(2,3) w(2,4,5))
  qed
  show "length (rb_contents q) \<le> rb_capacity q" using size_capacity [OF q] by (simp add: length_contents)
next
  fix q :: "'a ring"
  assume q: "rb_ok q"
  show "rb_ok (snd (rb_try_pop q)) \<and> rb_capacity (snd (rb_try_pop q)) = rb_capacity q \<and>
    (case rb_contents q of [] \<Rightarrow> rb_try_pop q = (None, q) | y # ys \<Rightarrow> fst (rb_try_pop q) = Some y \<and> rb_contents (snd (rb_try_pop q)) = ys)"
  proof (cases "rb_empty_approx q")
    case True
    then have "rb_contents q = []" using empty_iff [OF q] by simp
    then show ?thesis using True q by (simp add: rb_try_pop_def)
  next
    case False
    note h = publish_head_contents [OF q False]
    show ?thesis unfolding h(2) using False h(1,3) by (simp add: rb_try_pop_def)
  qed
qed

text \<open>C29: the ring of capacity \<open>n\<close> is the bounded first-in first-out queue: whatever the sequence of pushes and pops on a
  new ring, every push and every pop gives the answer of a list queue of at most \<open>n\<close> items, so that a push fails exactly
  when \<open>n\<close> items are held, a pop fails exactly when none is and otherwise takes the oldest. The ring's contents are that
  list, and \<open>size_approx\<close> and \<open>empty_approx\<close>, read between operations, are its length and its emptiness.\<close>

theorem ring_is_a_bounded_fifo:
  "let (answers, r) = fifo_run (\<lambda>r x. rb_try_push x r) rb_try_pop ops (rb_new blank n);
       (expected, q) = fifo_run (queue_push n) queue_pop ops [] in
     answers = expected \<and> rb_contents r = q \<and> rb_size_approx r = length q \<and> rb_empty_approx r = (q = []) \<and> length q \<le> n"
proof -
  obtain answers r where run: "fifo_run (\<lambda>r x. rb_try_push x r) rb_try_pop ops (rb_new blank n) = (answers, r)"
    by (cases "fifo_run (\<lambda>r x. rb_try_push x r) rb_try_pop ops (rb_new blank n)")
  have r: "rb_ok r" "rb_capacity r = n" "fifo_run (queue_push n) queue_pop ops [] = (answers, rb_contents r)"
    using ring.run_refines [OF rb_new_ok(1) run] by simp_all
  then show ?thesis using size_capacity [OF r(1)] empty_iff [OF r(1)] by (simp add: run length_contents)
qed

end
