(* ===== verification/Spsc_Replay.thy ===== *)
theory Spsc_Replay
  imports Replay Spsc_Ring_Buffer
begin

text \<open>
  \<^verbatim>\<open>market_data/spsc_replay.hpp\<close> and \<^verbatim>\<open>market_data/spsc_replay.cpp\<close>: replay
  through a bounded queue between two threads. Each thread is a program counter and a step function that makes one
  access to shared memory, in the order of the code; a schedule is the list of the threads that step. Accesses
  interleave one at a time: the release stores of head and tail, paired with the acquire loads, order the plain slot
  accesses, and every other shared variable is written by one thread. The clock readings, and the throughput
  computed from them, are left out of the statistics.
\<close>

section \<open>Configuration and results\<close>

datatype backpressure_policy = Bp_Block | Bp_Drop_Newest_On_Full

record spsc_config =
  sc_queue_capacity :: nat
  sc_backpressure :: backpressure_policy
  sc_replay :: replay_config

record spsc_stats =
  st_produced_events :: nat
  st_consumed_events :: nat
  st_queue_capacity :: nat
  st_max_queue_depth :: nat
  st_backpressure_count :: nat
  st_dropped_events :: nat
  st_end_of_stream_seen :: bool
  st_end_of_stream_markers_produced :: nat
  st_end_of_stream_markers_consumed :: nat
  st_drop_policy_enabled :: bool

record queue_item =
  qi_event :: market_data_event
  qi_end_of_stream :: bool

section \<open>Threads\<close>

text \<open>The three accesses of a push: the load of the head, the write of the slot, the store of the tail.\<close>

datatype push_stage = Ps_Try | Ps_Write | Ps_Publish

datatype producer_pc =
    Pp_Ready
  | Pp_Gate
  | Pp_Next
  | Pp_Push bool push_stage
  | Pp_Retry
  | Pp_Count
  | Pp_Eos push_stage
  | Pp_Eos_Retry
  | Pp_Eos_Count
  | Pp_Done

datatype consumer_pc =
    Cp_Ready
  | Cp_Gate
  | Cp_Try
  | Cp_Read
  | Cp_Publish
  | Cp_Handle
  | Cp_Fatal
  | Cp_Stop
  | Cp_Done

record pipeline =
  pl_queue :: "queue_item ring"
  pl_start :: bool
  pl_ready_threads :: nat
  pl_consumer_active :: bool
  pl_produced :: nat
  pl_backpressure :: nat
  pl_dropped :: nat
  pl_max_depth :: nat
  pl_eos_produced :: nat
  pl_producer :: producer_pc
  pl_events :: "market_data_event list"
  pl_consumer :: consumer_pc
  pl_item :: queue_item
  pl_stream :: stream
  pl_consumed :: nat
  pl_end_of_stream_seen :: bool
  pl_markers_consumed :: nat

definition blank_item :: queue_item where
  "blank_item = \<lparr>qi_event = blank_event, qi_end_of_stream = False\<rparr>"

definition event_item :: "market_data_event \<Rightarrow> queue_item" where
  "event_item e = \<lparr>qi_event = e, qi_end_of_stream = False\<rparr>"

definition eos_item :: queue_item where
  "eos_item = blank_item\<lparr>qi_end_of_stream := True\<rparr>"

definition update_max_depth :: "pipeline \<Rightarrow> pipeline" where
  "update_max_depth s = s\<lparr>pl_max_depth := max (pl_max_depth s) (rb_size_approx (pl_queue s))\<rparr>"

text \<open>The body of the producer thread. \<open>Pp_Push retry\<close> pushes the current event, the first of \<open>pl_events\<close>;
  \<open>retry\<close> tells the first attempt from those of the blocking loop.\<close>

definition producer_step :: "spsc_config \<Rightarrow> pipeline \<Rightarrow> pipeline" where
  "producer_step cfg s = (case pl_producer s of
       Pp_Ready \<Rightarrow> s\<lparr>pl_ready_threads := pl_ready_threads s + 1, pl_producer := Pp_Gate\<rparr>
     | Pp_Gate \<Rightarrow> if pl_start s then s\<lparr>pl_producer := Pp_Next\<rparr> else s
     | Pp_Next \<Rightarrow> (case pl_events s of
           [] \<Rightarrow> s\<lparr>pl_producer := Pp_Eos Ps_Try\<rparr>
         | e # es \<Rightarrow> if \<not> pl_consumer_active s then s\<lparr>pl_producer := Pp_Done\<rparr>
                     else s\<lparr>pl_producer := Pp_Push False Ps_Try\<rparr>)
     | Pp_Push retry Ps_Try \<Rightarrow>
         if \<not> rb_full (pl_queue s) then s\<lparr>pl_producer := Pp_Push retry Ps_Write\<rparr>
         else if retry then s\<lparr>pl_producer := Pp_Retry\<rparr>
         else let s = s\<lparr>pl_backpressure := pl_backpressure s + 1\<rparr>
              in if sc_backpressure cfg = Bp_Drop_Newest_On_Full
                 then s\<lparr>pl_dropped := pl_dropped s + 1, pl_events := tl (pl_events s), pl_producer := Pp_Next\<rparr>
                 else s\<lparr>pl_producer := Pp_Retry\<rparr>
     | Pp_Push retry Ps_Write \<Rightarrow>
         s\<lparr>pl_queue := rb_write (event_item (hd (pl_events s))) (pl_queue s), pl_producer := Pp_Push retry Ps_Publish\<rparr>
     | Pp_Push retry Ps_Publish \<Rightarrow> s\<lparr>pl_queue := rb_publish_tail (pl_queue s), pl_producer := Pp_Count\<rparr>
     | Pp_Retry \<Rightarrow> if \<not> pl_consumer_active s then s\<lparr>pl_producer := Pp_Done\<rparr> else s\<lparr>pl_producer := Pp_Push True Ps_Try\<rparr>
     | Pp_Count \<Rightarrow> (update_max_depth s)\<lparr>pl_produced := pl_produced s + 1, pl_events := tl (pl_events s), pl_producer := Pp_Next\<rparr>
     | Pp_Eos Ps_Try \<Rightarrow>
         if \<not> rb_full (pl_queue s) then s\<lparr>pl_producer := Pp_Eos Ps_Write\<rparr> else s\<lparr>pl_producer := Pp_Eos_Retry\<rparr>
     | Pp_Eos Ps_Write \<Rightarrow> s\<lparr>pl_queue := rb_write eos_item (pl_queue s), pl_producer := Pp_Eos Ps_Publish\<rparr>
     | Pp_Eos Ps_Publish \<Rightarrow> s\<lparr>pl_queue := rb_publish_tail (pl_queue s), pl_producer := Pp_Eos_Count\<rparr>
     | Pp_Eos_Retry \<Rightarrow> if \<not> pl_consumer_active s then s\<lparr>pl_producer := Pp_Done\<rparr> else s\<lparr>pl_producer := Pp_Eos Ps_Try\<rparr>
     | Pp_Eos_Count \<Rightarrow> (update_max_depth s)\<lparr>pl_eos_produced := 1, pl_producer := Pp_Done\<rparr>
     | Pp_Done \<Rightarrow> s)"

definition consumer_step :: "spsc_config \<Rightarrow> pipeline \<Rightarrow> pipeline" where
  "consumer_step cfg s = (case pl_consumer s of
       Cp_Ready \<Rightarrow> s\<lparr>pl_ready_threads := pl_ready_threads s + 1, pl_consumer := Cp_Gate\<rparr>
     | Cp_Gate \<Rightarrow> if pl_start s then s\<lparr>pl_consumer := Cp_Try\<rparr> else s
     | Cp_Try \<Rightarrow> if rb_empty_approx (pl_queue s) then s else s\<lparr>pl_consumer := Cp_Read\<rparr>
     | Cp_Read \<Rightarrow> s\<lparr>pl_item := rb_read (pl_queue s), pl_consumer := Cp_Publish\<rparr>
     | Cp_Publish \<Rightarrow> s\<lparr>pl_queue := rb_publish_head (pl_queue s), pl_consumer := Cp_Handle\<rparr>
     | Cp_Handle \<Rightarrow>
         if qi_end_of_stream (pl_item s)
         then s\<lparr>pl_end_of_stream_seen := True, pl_markers_consumed := 1, pl_consumer := Cp_Stop\<rparr>
         else let (ok, stream) = replay_step (sc_replay cfg) (qi_event (pl_item s)) (pl_stream s)
              in s\<lparr>pl_consumed := pl_consumed s + 1, pl_stream := stream, pl_consumer := (if ok then Cp_Try else Cp_Fatal)\<rparr>
     | Cp_Fatal \<Rightarrow> s\<lparr>pl_consumer_active := False, pl_consumer := Cp_Stop\<rparr>
     | Cp_Stop \<Rightarrow> s\<lparr>pl_consumer_active := False, pl_consumer := Cp_Done\<rparr>
     | Cp_Done \<Rightarrow> s)"

text \<open>The main thread of the steady-state harness opens the gate when both threads are ready.\<close>

definition main_step :: "pipeline \<Rightarrow> pipeline" where
  "main_step s = (if pl_ready_threads s < 2 then s else s\<lparr>pl_start := True\<rparr>)"

datatype thread = Producer | Consumer | Main_Thread

fun thread_step :: "spsc_config \<Rightarrow> thread \<Rightarrow> pipeline \<Rightarrow> pipeline" where
  "thread_step cfg Producer s = producer_step cfg s"
| "thread_step cfg Consumer s = consumer_step cfg s"
| "thread_step cfg Main_Thread s = main_step s"

section \<open>Runs\<close>

definition stream_begin :: "market_data_event list \<Rightarrow> order_book \<Rightarrow> stream" where
  "stream_begin events b = (b, blank_stream, (begin_stream blank_result)\<lparr>rp_event_log_checksum := checksum_events events\<rparr>)"

text \<open>The state in which the threads start: behind the gate in the steady-state harness.\<close>

definition pipeline_begin :: "bool \<Rightarrow> spsc_config \<Rightarrow> market_data_event list \<Rightarrow> order_book \<Rightarrow> pipeline" where
  "pipeline_begin steady cfg events b =
     \<lparr>pl_queue = rb_new blank_item (sc_queue_capacity cfg), pl_start = False, pl_ready_threads = 0, pl_consumer_active = True,
      pl_produced = 0, pl_backpressure = 0, pl_dropped = 0, pl_max_depth = 0, pl_eos_produced = 0,
      pl_producer = (if steady then Pp_Ready else Pp_Next), pl_events = events,
      pl_consumer = (if steady then Cp_Ready else Cp_Try), pl_item = blank_item, pl_stream = stream_begin events b,
      pl_consumed = 0, pl_end_of_stream_seen = False, pl_markers_consumed = 0\<rparr>"

definition run_schedule :: "spsc_config \<Rightarrow> thread list \<Rightarrow> pipeline \<Rightarrow> pipeline" where
  "run_schedule cfg schedule s = fold (thread_step cfg) schedule s"

definition pipeline_done :: "pipeline \<Rightarrow> bool" where
  "pipeline_done s \<longleftrightarrow> pl_producer s = Pp_Done \<and> pl_consumer s = Cp_Done"

definition pipeline_result :: "spsc_config \<Rightarrow> pipeline \<Rightarrow> order_book \<times> replay_result \<times> spsc_stats" where
  "pipeline_result cfg s = (let (b, state, result) = pl_stream s in
     (b, finalize_stream (sc_replay cfg) b result,
      \<lparr>st_produced_events = pl_produced s, st_consumed_events = pl_consumed s, st_queue_capacity = sc_queue_capacity cfg,
       st_max_queue_depth = pl_max_depth s, st_backpressure_count = pl_backpressure s, st_dropped_events = pl_dropped s,
       st_end_of_stream_seen = pl_end_of_stream_seen s, st_end_of_stream_markers_produced = pl_eos_produced s,
       st_end_of_stream_markers_consumed = pl_markers_consumed s,
       st_drop_policy_enabled = (sc_backpressure cfg = Bp_Drop_Newest_On_Full)\<rparr>))"

text \<open>A queue without capacity is refused before any thread starts.\<close>

definition refused_result :: "spsc_config \<Rightarrow> market_data_event list \<Rightarrow> order_book \<Rightarrow> order_book \<times> replay_result \<times> spsc_stats" where
  "refused_result cfg events b = (let (b, state, result) = stream_begin events b in
     (b, finalize_stream (sc_replay cfg) b (result\<lparr>rp_sequence_valid := False, rp_error := ''spsc queue capacity must be at least 1''\<rparr>),
      \<lparr>st_produced_events = 0, st_consumed_events = 0, st_queue_capacity = sc_queue_capacity cfg, st_max_queue_depth = 0,
       st_backpressure_count = 0, st_dropped_events = 0, st_end_of_stream_seen = False, st_end_of_stream_markers_produced = 0,
       st_end_of_stream_markers_consumed = 0, st_drop_policy_enabled = (sc_backpressure cfg = Bp_Drop_Newest_On_Full)\<rparr>))"

text \<open>\<^verbatim>\<open>run_spsc_replay\<close> and \<^verbatim>\<open>run_spsc_replay_steady_state\<close> under a schedule; \<open>None\<close> while the threads
  are still to be joined.\<close>

definition run_spsc :: "bool \<Rightarrow> spsc_config \<Rightarrow> thread list \<Rightarrow> market_data_event list \<Rightarrow> order_book
    \<Rightarrow> (order_book \<times> replay_result \<times> spsc_stats) option" where
  "run_spsc steady cfg schedule events b =
     (if sc_queue_capacity cfg = 0 then Some (refused_result cfg events b)
      else let s = run_schedule cfg schedule (pipeline_begin steady cfg events b)
           in if pipeline_done s then Some (pipeline_result cfg s) else None)"

definition run_spsc_replay :: "spsc_config \<Rightarrow> thread list \<Rightarrow> market_data_event list \<Rightarrow> order_book
    \<Rightarrow> (order_book \<times> replay_result \<times> spsc_stats) option" where
  "run_spsc_replay = run_spsc False"

definition run_spsc_replay_steady_state :: "spsc_config \<Rightarrow> thread list \<Rightarrow> market_data_event list \<Rightarrow> order_book
    \<Rightarrow> (order_book \<times> replay_result \<times> spsc_stats) option" where
  "run_spsc_replay_steady_state = run_spsc True"

end
