(* ===== verification/Spsc_Replay_Correct.thy ===== *)
theory Spsc_Replay_Correct
  imports Spsc_Replay "HOL-Library.Sublist"
begin

text \<open>
  The two threads of the replay pipeline: an invariant relates the events taken by the consumer, the queue, the
  events the producer has sent and those it still has, under every interleaving. At the end the result is that of
  the single-threaded replay, and from every state the threads can finish.
\<close>

section \<open>Replaying a prefix\<close>

fun replay_all :: "replay_config \<Rightarrow> market_data_event list \<Rightarrow> stream \<Rightarrow> bool \<times> stream" where
  "replay_all rc [] st = (True, st)"
| "replay_all rc (e # es) st = (let (ok, st) = replay_step rc e st in if ok then replay_all rc es st else (False, st))"

lemma replay_all_snoc:
  "fst (replay_all rc es st) \<Longrightarrow> replay_all rc (es @ [e]) st = replay_step rc e (snd (replay_all rc es st))"
  by (induction es arbitrary: st) (auto simp: Let_def split: prod.splits if_splits)

lemma replay_all_loop: "snd (replay_all rc es st) = replay_loop rc es st"
  by (induction es arbitrary: st) (auto simp: Let_def split: prod.splits)

lemma replay_all_halted: "\<not> fst (replay_all rc es st) \<Longrightarrow> replay_loop rc (es @ rest) st = snd (replay_all rc es st)"
  by (induction es arbitrary: st) (auto simp: Let_def split: prod.splits if_splits)

section \<open>The invariant\<close>

fun is_pushing :: "producer_pc \<Rightarrow> bool" where
  "is_pushing (Pp_Push retry stage) = True"
| "is_pushing Pp_Retry = True"
| "is_pushing Pp_Count = True"
| "is_pushing _ = False"

fun is_ending :: "producer_pc \<Rightarrow> bool" where
  "is_ending (Pp_Eos stage) = True"
| "is_ending Pp_Eos_Retry = True"
| "is_ending Pp_Eos_Count = True"
| "is_ending _ = False"

fun stage_of :: "producer_pc \<Rightarrow> push_stage option" where
  "stage_of (Pp_Push retry stage) = Some stage"
| "stage_of (Pp_Eos stage) = Some stage"
| "stage_of _ = None"

definition push_item :: "pipeline \<Rightarrow> queue_item" where
  "push_item s = (if is_pushing (pl_producer s) then event_item (hd (pl_events s)) else eos_item)"

definition eos_pushed :: "pipeline \<Rightarrow> bool" where
  "eos_pushed s \<longleftrightarrow> pl_producer s = Pp_Eos_Count \<or> pl_eos_produced s = 1"

definition pending :: "pipeline \<Rightarrow> market_data_event list" where
  "pending s = (if pl_producer s = Pp_Count then tl (pl_events s) else pl_events s)"

definition queue_ok :: "spsc_config \<Rightarrow> pipeline \<Rightarrow> bool" where
  "queue_ok cfg s \<longleftrightarrow> rb_ok (pl_queue s) \<and> rb_capacity (pl_queue s) = sc_queue_capacity cfg \<and> pl_max_depth s \<le> sc_queue_capacity cfg \<and>
     (stage_of (pl_producer s) \<in> {Some Ps_Write, Some Ps_Publish} \<longrightarrow> \<not> rb_full (pl_queue s)) \<and>
     (stage_of (pl_producer s) = Some Ps_Publish \<longrightarrow> rb_slots (pl_queue s) ! rb_tail (pl_queue s) = push_item s) \<and>
     (pl_consumer s \<in> {Cp_Read, Cp_Publish} \<longrightarrow> \<not> rb_empty_approx (pl_queue s)) \<and>
     (pl_consumer s = Cp_Publish \<longrightarrow> pl_item s = rb_read (pl_queue s))"

definition producer_ok :: "spsc_config \<Rightarrow> market_data_event list \<Rightarrow> market_data_event list \<Rightarrow> market_data_event list \<Rightarrow> pipeline \<Rightarrow> bool" where
  "producer_ok cfg es sent past s \<longleftrightarrow> past @ pending s = es \<and> subseq sent past \<and> length sent + pl_dropped s = length past \<and>
     (sc_backpressure cfg = Bp_Block \<longrightarrow> pl_dropped s = 0) \<and>
     pl_produced s + (if pl_producer s = Pp_Count then 1 else 0) = length sent \<and>
     (is_pushing (pl_producer s) \<longrightarrow> pl_events s \<noteq> []) \<and> (is_ending (pl_producer s) \<or> pl_eos_produced s \<noteq> 0 \<longrightarrow> pl_events s = []) \<and>
     pl_eos_produced s \<le> 1 \<and> (pl_eos_produced s \<noteq> 0 \<longrightarrow> pl_producer s = Pp_Done) \<and>
     (pl_producer s = Pp_Done \<longrightarrow> pl_eos_produced s = 1 \<or> \<not> pl_consumer_active s)"

definition has_halted :: "pipeline \<Rightarrow> bool" where
  "has_halted s \<longleftrightarrow> pl_consumer s = Cp_Fatal \<or> (pl_consumer s \<in> {Cp_Stop, Cp_Done} \<and> \<not> pl_end_of_stream_seen s)"

definition consumer_ok :: "spsc_config \<Rightarrow> market_data_event list \<Rightarrow> order_book \<Rightarrow> market_data_event list \<Rightarrow> pipeline \<Rightarrow> bool" where
  "consumer_ok cfg es b taken s \<longleftrightarrow> replay_all (sc_replay cfg) taken (stream_begin es b) = (\<not> has_halted s, pl_stream s) \<and>
     pl_consumed s = length taken \<and> pl_markers_consumed s = (if pl_end_of_stream_seen s then 1 else 0) \<and>
     (pl_end_of_stream_seen s \<or> \<not> pl_consumer_active s \<longrightarrow> pl_consumer s \<in> {Cp_Stop, Cp_Done}) \<and>
     (pl_consumer s = Cp_Done \<longrightarrow> \<not> pl_consumer_active s)"

definition data_ok :: "market_data_event list \<Rightarrow> market_data_event list \<Rightarrow> pipeline \<Rightarrow> bool" where
  "data_ok taken sent s \<longleftrightarrow>
     map event_item taken @ (if pl_end_of_stream_seen s then [eos_item] else []) @
       (if pl_consumer s = Cp_Handle then [pl_item s] else []) @ rb_contents (pl_queue s) =
     map event_item sent @ (if eos_pushed s then [eos_item] else [])"

definition flow :: "spsc_config \<Rightarrow> market_data_event list \<Rightarrow> order_book \<Rightarrow> market_data_event list \<Rightarrow> market_data_event list
    \<Rightarrow> market_data_event list \<Rightarrow> pipeline \<Rightarrow> bool" where
  "flow cfg es b taken sent past s \<longleftrightarrow>
     queue_ok cfg s \<and> producer_ok cfg es sent past s \<and> consumer_ok cfg es b taken s \<and> data_ok taken sent s"

lemmas flow_defs = flow_def queue_ok_def producer_ok_def consumer_ok_def data_ok_def has_halted_def pending_def eos_pushed_def
  push_item_def

lemma flow_begin: "flow cfg es b [] [] [] (pipeline_begin steady cfg es b)"
  by (simp add: flow_defs pipeline_begin_def)

text \<open>Each thread leaves alone what the other one owns.\<close>

lemma producer_keeps_consumer: "consumer_ok cfg es b taken s \<Longrightarrow> consumer_ok cfg es b taken (producer_step cfg s)"
  by (auto simp: consumer_ok_def has_halted_def producer_step_def update_max_depth_def Let_def
      split: producer_pc.split push_stage.split list.split)

lemma consumer_frame:
  "pl_producer (consumer_step cfg s) = pl_producer s" "pl_events (consumer_step cfg s) = pl_events s"
  "pl_produced (consumer_step cfg s) = pl_produced s" "pl_dropped (consumer_step cfg s) = pl_dropped s"
  "pl_eos_produced (consumer_step cfg s) = pl_eos_produced s"
  "\<not> pl_consumer_active s \<Longrightarrow> \<not> pl_consumer_active (consumer_step cfg s)"
  by (simp_all add: consumer_step_def split: consumer_pc.split prod.split)

lemma consumer_keeps_producer: "producer_ok cfg es sent past s \<Longrightarrow> producer_ok cfg es sent past (consumer_step cfg s)"
  unfolding producer_ok_def pending_def consumer_frame using consumer_frame(6) by blast

lemma main_fields:
  "queue_ok cfg (main_step s) = queue_ok cfg s" "producer_ok cfg es sent past (main_step s) = producer_ok cfg es sent past s"
  "consumer_ok cfg es b taken (main_step s) = consumer_ok cfg es b taken s" "data_ok taken sent (main_step s) = data_ok taken sent s"
  by (simp_all add: main_step_def queue_ok_def push_item_def producer_ok_def pending_def consumer_ok_def has_halted_def data_ok_def eos_pushed_def)

section \<open>The consumer\<close>

lemma consumer_queue: "queue_ok cfg s \<Longrightarrow> queue_ok cfg (consumer_step cfg s)"
proof (cases "pl_consumer s")
  case Cp_Publish
  assume q: "queue_ok cfg s"
  then have "rb_ok (pl_queue s)" "\<not> rb_empty_approx (pl_queue s)" using Cp_Publish by (simp_all add: queue_ok_def)
  note h = publish_head_contents [OF this]
  have "\<not> rb_full (rb_publish_head (pl_queue s))"
    using full_iff [OF h(1)] h(2,3) length_contents [of "pl_queue s"] size_capacity [OF \<open>rb_ok (pl_queue s)\<close>] by simp
  then show ?thesis using q h(1,3) by (simp add: queue_ok_def consumer_step_def Cp_Publish push_item_def) (simp add: rb_publish_head_def)
next
  case Cp_Handle
  assume "queue_ok cfg s"
  then show ?thesis using Cp_Handle
    by (cases "replay_step (sc_replay cfg) (qi_event (pl_item s)) (pl_stream s)") (simp add: queue_ok_def consumer_step_def push_item_def)
qed (simp_all add: queue_ok_def consumer_step_def push_item_def)

lemma handled_item:
  assumes "data_ok taken sent s" and "pl_consumer s = Cp_Handle"
  shows "pl_item s = (if qi_end_of_stream (pl_item s) then eos_item else event_item (qi_event (pl_item s)))"
proof -
  have "pl_item s \<in> set (map event_item taken @ (if pl_end_of_stream_seen s then [eos_item] else []) @
       (if pl_consumer s = Cp_Handle then [pl_item s] else []) @ rb_contents (pl_queue s))" using assms(2) by simp
  also have "\<dots> = set (map event_item sent @ (if eos_pushed s then [eos_item] else []))"
    using assms(1) by (simp only: data_ok_def)
  finally show ?thesis by (auto simp: event_item_def eos_item_def split: if_splits)
qed

lemma flow_consumer:
  assumes "flow cfg es b taken sent past s"
  shows "\<exists>taken'. flow cfg es b taken' sent past (consumer_step cfg s)"
proof -
  have ok: "queue_ok cfg s" "consumer_ok cfg es b taken s" "data_ok taken sent s" using assms by (simp_all add: flow_def)
  have "\<exists>taken'. consumer_ok cfg es b taken' (consumer_step cfg s) \<and> data_ok taken' sent (consumer_step cfg s)"
  proof (cases "pl_consumer s")
    case Cp_Publish
    then have "rb_contents (pl_queue s) = rb_read (pl_queue s) # rb_contents (rb_publish_head (pl_queue s))" "pl_item s = rb_read (pl_queue s)"
      using ok(1) publish_head_contents(2) by (auto simp: queue_ok_def)
    then have "data_ok taken sent (consumer_step cfg s)"
      using ok(3) by (simp add: data_ok_def consumer_step_def Cp_Publish eos_pushed_def)
    moreover have "consumer_ok cfg es b taken (consumer_step cfg s)"
      using ok(2) by (simp add: consumer_ok_def consumer_step_def Cp_Publish has_halted_def)
    ultimately show ?thesis by blast
  next
    case Cp_Handle
    note item = handled_item [OF ok(3) Cp_Handle]
    have running: "\<not> has_halted s" "\<not> pl_end_of_stream_seen s" "pl_consumer_active s"
      using ok(2) by (auto simp: consumer_ok_def has_halted_def Cp_Handle)
    show ?thesis
    proof (cases "qi_end_of_stream (pl_item s)")
      case True
      then have "pl_item s = eos_item" using item by simp
      then have "data_ok taken sent (consumer_step cfg s)"
        using ok(3) running True by (simp add: data_ok_def consumer_step_def Cp_Handle eos_pushed_def)
      moreover have "consumer_ok cfg es b taken (consumer_step cfg s)"
        using ok(2) running True by (simp add: consumer_ok_def consumer_step_def Cp_Handle has_halted_def)
      ultimately show ?thesis by blast
    next
      case False
      obtain ok' st where step: "replay_step (sc_replay cfg) (qi_event (pl_item s)) (pl_stream s) = (ok', st)"
        by (cases "replay_step (sc_replay cfg) (qi_event (pl_item s)) (pl_stream s)")
      let ?taken = "taken @ [qi_event (pl_item s)]"
      have "event_item (qi_event (pl_item s)) = pl_item s" using item False by simp
      then have "data_ok ?taken sent (consumer_step cfg s)"
        using ok(3) running False step by (simp add: data_ok_def consumer_step_def Cp_Handle eos_pushed_def)
      moreover have "replay_all (sc_replay cfg) ?taken (stream_begin es b) = (ok', st)"
        using replay_all_snoc [of "sc_replay cfg" taken "stream_begin es b" "qi_event (pl_item s)"] ok(2) running(1) step
        by (simp add: consumer_ok_def)
      then have "consumer_ok cfg es b ?taken (consumer_step cfg s)"
        using ok(2) running False step by (simp add: consumer_ok_def consumer_step_def Cp_Handle has_halted_def)
      ultimately show ?thesis by blast
    qed
  qed (use ok in \<open>auto simp: consumer_ok_def has_halted_def data_ok_def consumer_step_def eos_pushed_def intro!: exI [of _ taken]\<close>)
  then show ?thesis using assms consumer_queue consumer_keeps_producer unfolding flow_def by blast
qed

section \<open>The producer\<close>

lemma queue_write:
  assumes "queue_ok cfg s" and "stage_of (pl_producer s) = Some Ps_Write" and "x = push_item s"
    and "stage_of pc = Some Ps_Publish" and "is_pushing pc = is_pushing (pl_producer s)"
  shows "queue_ok cfg (s\<lparr>pl_queue := rb_write x (pl_queue s), pl_producer := pc\<rparr>)"
proof -
  have q: "rb_ok (pl_queue s)" using assms(1) by (simp add: queue_ok_def)
  note w = write_contents [OF q, of x]
  have e: "rb_empty_approx (rb_write x (pl_queue s)) = rb_empty_approx (pl_queue s)" by (simp add: rb_empty_approx_def rb_write_def)
  have p: "push_item (s\<lparr>pl_queue := rb_write x (pl_queue s), pl_producer := pc\<rparr>) = push_item s" by (simp add: push_item_def assms(5))
  have "\<not> rb_empty_approx (pl_queue s) \<Longrightarrow> rb_read (rb_write x (pl_queue s)) = rb_read (pl_queue s)" by (rule read_after_write [OF q])
  then show ?thesis using assms(1,2,4) w(1) unfolding queue_ok_def p assms(3) by (simp add: w [unfolded assms(3)] e [unfolded assms(3)] p [unfolded assms(3)])
qed

lemma queue_publish:
  assumes "queue_ok cfg s" and "stage_of (pl_producer s) = Some Ps_Publish" and "stage_of pc = None"
  shows "queue_ok cfg (s\<lparr>pl_queue := rb_publish_tail (pl_queue s), pl_producer := pc\<rparr>)"
    and "rb_contents (rb_publish_tail (pl_queue s)) = rb_contents (pl_queue s) @ [push_item s]"
proof -
  have q: "rb_ok (pl_queue s)" "\<not> rb_full (pl_queue s)" "rb_slots (pl_queue s) ! rb_tail (pl_queue s) = push_item s"
    using assms(1,2) by (simp_all add: queue_ok_def)
  note t = publish_tail_contents [OF q(1,2)]
  show "rb_contents (rb_publish_tail (pl_queue s)) = rb_contents (pl_queue s) @ [push_item s]" using t(2) q(3) by simp
  have "\<not> rb_empty_approx (rb_publish_tail (pl_queue s))" unfolding empty_iff [OF t(1)] t(2) by simp
  moreover have "rb_read (rb_publish_tail (pl_queue s)) = rb_read (pl_queue s)" by (simp add: rb_read_def rb_publish_tail_def)
  ultimately show "queue_ok cfg (s\<lparr>pl_queue := rb_publish_tail (pl_queue s), pl_producer := pc\<rparr>)"
    using assms(1,3) t(1,3) by (simp add: queue_ok_def)
qed

lemma queue_move:
  assumes "queue_ok cfg s" and "pl_queue s' = pl_queue s" and "pl_consumer s' = pl_consumer s" and "pl_item s' = pl_item s"
    and "pl_max_depth s' = pl_max_depth s \<or> pl_max_depth s' = max (pl_max_depth s) (rb_size_approx (pl_queue s))"
    and "stage_of (pl_producer s') \<in> {None, Some Ps_Try} \<or> stage_of (pl_producer s') = Some Ps_Write \<and> \<not> rb_full (pl_queue s)"
  shows "queue_ok cfg s'"
proof -
  have "rb_size_approx (pl_queue s) \<le> sc_queue_capacity cfg" using assms(1) size_capacity [of "pl_queue s"] by (simp add: queue_ok_def)
  then have "pl_max_depth s' \<le> sc_queue_capacity cfg" using assms(1,5) by (elim disjE) (simp_all add: queue_ok_def)
  moreover have "stage_of (pl_producer s') \<in> {Some Ps_Write, Some Ps_Publish} \<longrightarrow> \<not> rb_full (pl_queue s)"
    "stage_of (pl_producer s') \<noteq> Some Ps_Publish" using assms(6) by auto
  ultimately show ?thesis using assms(1) unfolding queue_ok_def assms(2-4) by blast
qed

lemma producer_queue:
  assumes q: "queue_ok cfg s"
  shows "queue_ok cfg (producer_step cfg s)"
proof (cases "pl_producer s")
  case (Pp_Push retry stage)
  show ?thesis
  proof (cases stage)
    case Ps_Try
    show ?thesis by (rule queue_move [OF q]) (simp_all add: producer_step_def Pp_Push Ps_Try Let_def)
  next
    case Ps_Write
    then show ?thesis using queue_write [OF q, of "event_item (hd (pl_events s))" "Pp_Push retry Ps_Publish"]
      by (simp add: producer_step_def Pp_Push push_item_def)
  next
    case Ps_Publish
    then show ?thesis using queue_publish(1) [OF q, of Pp_Count] by (simp add: producer_step_def Pp_Push)
  qed
next
  case (Pp_Eos stage)
  show ?thesis
  proof (cases stage)
    case Ps_Try
    show ?thesis by (rule queue_move [OF q]) (simp_all add: producer_step_def Pp_Eos Ps_Try Let_def)
  next
    case Ps_Write
    then show ?thesis using queue_write [OF q, of eos_item "Pp_Eos Ps_Publish"]
      by (simp add: producer_step_def Pp_Eos push_item_def)
  next
    case Ps_Publish
    then show ?thesis using queue_publish(1) [OF q, of Pp_Eos_Count] by (simp add: producer_step_def Pp_Eos)
  qed
qed (rule queue_move [OF q]; simp add: producer_step_def update_max_depth_def split: list.split)+

lemma data_move:
  assumes "data_ok taken sent s" and "rb_contents (pl_queue s') = rb_contents (pl_queue s)" and "eos_pushed s' = eos_pushed s"
    and "pl_end_of_stream_seen s' = pl_end_of_stream_seen s" and "pl_consumer s' = pl_consumer s" and "pl_item s' = pl_item s"
  shows "data_ok taken sent s'"
  using assms by (simp only: data_ok_def)

lemma data_publish:
  assumes "data_ok taken sent s" and "rb_contents (pl_queue s') = rb_contents (pl_queue s) @ [x]"
    and "map event_item sent' @ (if eos_pushed s' then [eos_item] else []) = map event_item sent @ (if eos_pushed s then [eos_item] else []) @ [x]"
    and "pl_end_of_stream_seen s' = pl_end_of_stream_seen s" and "pl_consumer s' = pl_consumer s" and "pl_item s' = pl_item s"
  shows "data_ok taken sent' s'"
  using arg_cong [OF assms(1) [unfolded data_ok_def], of "\<lambda>l. l @ [x]"] by (simp only: data_ok_def assms(2-6) append_assoc)

lemma flow_producer:
  assumes "flow cfg es b taken sent past s"
  shows "\<exists>sent' past'. flow cfg es b taken sent' past' (producer_step cfg s)"
proof -
  have ok: "queue_ok cfg s" "producer_ok cfg es sent past s" "data_ok taken sent s" using assms by (simp_all add: flow_def)
  have "\<exists>sent' past'. producer_ok cfg es sent' past' (producer_step cfg s) \<and> data_ok taken sent' (producer_step cfg s)"
  proof (cases "pl_producer s")
    case (Pp_Push retry stage)
    obtain e rest where e: "pl_events s = e # rest" using ok(2) by (cases "pl_events s") (simp_all add: producer_ok_def Pp_Push)
    have eos: "pl_eos_produced s = 0" using ok(2) by (auto simp: producer_ok_def Pp_Push)
    have past: "past @ e # rest = es" using ok(2) by (simp add: producer_ok_def pending_def Pp_Push e)
    show ?thesis
    proof (cases stage)
      case Ps_Try
      show ?thesis
      proof (cases "rb_full (pl_queue s) \<and> \<not> retry \<and> sc_backpressure cfg = Bp_Drop_Newest_On_Full")
        case True
        moreover have "subseq sent (past @ [e])" using ok(2) by (intro list_emb_prefix) (simp add: producer_ok_def)
        ultimately have "producer_ok cfg es sent (past @ [e]) (producer_step cfg s)"
          using ok(2) past by (simp add: producer_ok_def pending_def producer_step_def Pp_Push Ps_Try e eos Let_def)
        moreover have "data_ok taken sent (producer_step cfg s)"
          using True by (intro data_move [OF ok(3)]) (simp_all add: eos_pushed_def producer_step_def Pp_Push Ps_Try Let_def)
        ultimately show ?thesis by blast
      next
        case False
        then have "producer_ok cfg es sent past (producer_step cfg s)"
          using ok(2) past by (auto simp: producer_ok_def pending_def producer_step_def Pp_Push Ps_Try e eos Let_def)
        moreover have "data_ok taken sent (producer_step cfg s)"
          using False by (intro data_move [OF ok(3)]) (simp_all add: eos_pushed_def producer_step_def Pp_Push Ps_Try Let_def)
        ultimately show ?thesis by blast
      qed
    next
      case Ps_Write
      have "producer_ok cfg es sent past (producer_step cfg s)"
        using ok(2) past by (auto simp: producer_ok_def pending_def producer_step_def Pp_Push Ps_Write e eos)
      moreover have "data_ok taken sent (producer_step cfg s)"
        using ok(1) write_contents(2) [of "pl_queue s"]
        by (intro data_move [OF ok(3)]) (simp_all add: eos_pushed_def producer_step_def Pp_Push Ps_Write queue_ok_def)
      ultimately show ?thesis by blast
    next
      case Ps_Publish
      have c: "rb_contents (rb_publish_tail (pl_queue s)) = rb_contents (pl_queue s) @ [event_item e]"
        using queue_publish(2) [OF ok(1), of Pp_Count] by (simp add: Pp_Push Ps_Publish push_item_def e)
      have "producer_ok cfg es (sent @ [e]) (past @ [e]) (producer_step cfg s)"
        using ok(2) past by (auto simp: producer_ok_def pending_def producer_step_def Pp_Push Ps_Publish e eos list_emb_append_mono)
      moreover have "data_ok taken (sent @ [e]) (producer_step cfg s)"
        by (rule data_publish [OF ok(3), of _ "event_item e"]) (simp_all add: eos_pushed_def producer_step_def Pp_Push Ps_Publish eos c)
      ultimately show ?thesis by blast
    qed
  next
    case (Pp_Eos stage)
    have e: "pl_events s = []" "pl_eos_produced s = 0" using ok(2) by (auto simp: producer_ok_def Pp_Eos)
    have "producer_ok cfg es sent past (producer_step cfg s)"
      using ok(2) by (cases stage) (auto simp: producer_ok_def pending_def producer_step_def Pp_Eos e)
    moreover have "data_ok taken sent (producer_step cfg s)"
    proof (cases stage)
      case Ps_Publish
      have "rb_contents (rb_publish_tail (pl_queue s)) = rb_contents (pl_queue s) @ [eos_item]"
        using queue_publish(2) [OF ok(1), of Pp_Eos_Count] by (simp add: Pp_Eos Ps_Publish push_item_def)
      then show ?thesis
        by (intro data_publish [OF ok(3), of _ eos_item]) (simp_all add: eos_pushed_def producer_step_def Pp_Eos Ps_Publish e)
    next
      case Ps_Write
      then show ?thesis using ok(1) write_contents(2) [of "pl_queue s"]
        by (intro data_move [OF ok(3)]) (simp_all add: eos_pushed_def producer_step_def Pp_Eos queue_ok_def)
    qed (rule data_move [OF ok(3)]; simp add: eos_pushed_def producer_step_def Pp_Eos e)
    ultimately show ?thesis by blast
  next
    case Pp_Count
    then have "producer_ok cfg es sent past (producer_step cfg s)"
      using ok(2) by (auto simp: producer_ok_def pending_def producer_step_def update_max_depth_def)
    moreover have "data_ok taken sent (producer_step cfg s)"
      by (rule data_move [OF ok(3)]) (use ok(2) Pp_Count in \<open>simp_all add: eos_pushed_def producer_step_def update_max_depth_def producer_ok_def\<close>)
    ultimately have "producer_ok cfg es sent past (producer_step cfg s)" "data_ok taken sent (producer_step cfg s)" by simp_all
    then show ?thesis by blast
  next
    case Pp_Eos_Count
    then have "producer_ok cfg es sent past (producer_step cfg s)"
      using ok(2) by (auto simp: producer_ok_def pending_def producer_step_def update_max_depth_def)
    moreover have "data_ok taken sent (producer_step cfg s)"
      by (rule data_move [OF ok(3)]) (use ok(2) Pp_Eos_Count in \<open>simp_all add: eos_pushed_def producer_step_def update_max_depth_def producer_ok_def\<close>)
    ultimately have "producer_ok cfg es sent past (producer_step cfg s)" "data_ok taken sent (producer_step cfg s)" by simp_all
    then show ?thesis by blast
  qed (intro exI [of _ sent] exI [of _ past] conjI data_move [OF ok(3)]; use ok(2) in \<open>auto simp: producer_ok_def pending_def eos_pushed_def producer_step_def split: list.split\<close>)+
  then show ?thesis using assms producer_queue producer_keeps_consumer unfolding flow_def by blast
qed

section \<open>Every schedule\<close>

lemma run_schedule_append: "run_schedule cfg (ts @ us) s = run_schedule cfg us (run_schedule cfg ts s)"
  by (simp add: run_schedule_def)

lemma flow_step: "flow cfg es b taken sent past s \<Longrightarrow> \<exists>taken sent past. flow cfg es b taken sent past (thread_step cfg t s)"
  using flow_producer [of cfg es b taken sent past s] flow_consumer [of cfg es b taken sent past s]
  by (cases t) (auto simp: flow_def main_fields)

lemma flow_run: "flow cfg es b taken sent past s \<Longrightarrow> \<exists>taken sent past. flow cfg es b taken sent past (run_schedule cfg ts s)"
proof (induction ts arbitrary: taken sent past s)
  case (Cons t ts)
  obtain taken' sent' past' where "flow cfg es b taken' sent' past' (thread_step cfg t s)" using flow_step [OF Cons.prems] by blast
  from Cons.IH [OF this] show ?case by (simp add: run_schedule_def)
qed (auto simp: run_schedule_def)

lemma item_distinct [simp]: "event_item e \<noteq> eos_item" "eos_item \<noteq> event_item e" "event_item e = event_item e' \<longleftrightarrow> e = e'"
  by (auto simp: event_item_def eos_item_def blank_item_def)

text \<open>The marker is the last item, so a consumer that has seen it has taken everything.\<close>

lemma marker_last:
  assumes "map event_item xs @ eos_item # zs = map event_item ys @ ws" and "set ws \<subseteq> {eos_item}" and "length ws \<le> 1"
  shows "xs = ys \<and> zs = []"
  using assms
proof (induction xs arbitrary: ys)
  case Nil
  then show ?case by (cases ys; cases ws) auto
next
  case (Cons x xs)
  show ?case
  proof (cases ys)
    case Nil
    then show ?thesis using Cons.prems by (cases ws) auto
  next
    case (Cons y ys')
    then show ?thesis using Cons.prems Cons.IH [of ys'] by auto
  qed
qed

lemma taken_prefix:
  assumes "map event_item xs @ zs = map event_item ys @ ws" and "set ws \<subseteq> {eos_item}"
  shows "\<exists>rest. ys = xs @ rest"
  using assms
proof (induction xs arbitrary: ys)
  case (Cons x xs)
  show ?case
  proof (cases ys)
    case Nil
    then show ?thesis using Cons.prems by (cases ws) auto
  next
    case (Cons y ys')
    then show ?thesis using Cons.prems Cons.IH [of ys'] by auto
  qed
qed simp

definition replay_part :: "spsc_config \<Rightarrow> market_data_event list \<Rightarrow> market_data_event list \<Rightarrow> order_book \<Rightarrow> order_book \<times> replay_result" where
  "replay_part cfg part es b = (let (b, state, result) = replay_loop (sc_replay cfg) part (stream_begin es b) in (b, finalize_stream (sc_replay cfg) b result))"

lemma replay_part_all: "replay_part cfg es es b = replay_events (sc_replay cfg) es b"
  by (simp add: replay_part_def replay_events_def stream_begin_def Let_def)

lemma run_ends:
  assumes "run_spsc steady cfg schedule es b = Some (b', result, stats)" and "0 < sc_queue_capacity cfg"
  obtains s taken sent past where "flow cfg es b taken sent past s" and "pl_producer s = Pp_Done" and "pl_consumer s = Cp_Done"
    and "pipeline_result cfg s = (b', result, stats)"
proof -
  let ?s = "run_schedule cfg schedule (pipeline_begin steady cfg es b)"
  have "pipeline_done ?s" "pipeline_result cfg ?s = (b', result, stats)"
    using assms by (auto simp: run_spsc_def Let_def split: if_splits)
  then show thesis using that flow_run [OF flow_begin] unfolding pipeline_done_def by blast
qed

lemma run_outcome:
  assumes "run_spsc steady cfg schedule es b = Some (b', result, stats)" and "0 < sc_queue_capacity cfg"
  obtains taken sent past where "subseq sent past" and "\<exists>rest. es = past @ rest" and "\<exists>rest. sent = taken @ rest"
    and "(b', result) = replay_part cfg taken es b" and "st_consumed_events stats = length taken"
    and "st_produced_events stats = length sent" and "length sent + st_dropped_events stats = length past"
    and "st_max_queue_depth stats \<le> sc_queue_capacity cfg" and "sc_backpressure cfg = Bp_Block \<Longrightarrow> st_dropped_events stats = 0"
    and "st_end_of_stream_seen stats \<Longrightarrow> taken = sent \<and> past = es \<and> st_end_of_stream_markers_produced stats = 1 \<and>
      st_end_of_stream_markers_consumed stats = 1"
    and "\<not> st_end_of_stream_seen stats \<Longrightarrow> \<not> fst (replay_all (sc_replay cfg) taken (stream_begin es b))"
proof -
  obtain s taken sent past where s: "flow cfg es b taken sent past s" "pl_producer s = Pp_Done" "pl_consumer s = Cp_Done"
    "pipeline_result cfg s = (b', result, stats)" by (rule run_ends [OF assms])
  have ok: "queue_ok cfg s" "producer_ok cfg es sent past s" "consumer_ok cfg es b taken s" "data_ok taken sent s"
    using s(1) by (simp_all add: flow_def)
  obtain b1 st1 r1 where st: "pl_stream s = (b1, st1, r1)" by (cases "pl_stream s")
  have stats: "b' = b1" "result = finalize_stream (sc_replay cfg) b1 r1" "st_consumed_events stats = pl_consumed s"
    "st_produced_events stats = pl_produced s" "st_dropped_events stats = pl_dropped s" "st_max_queue_depth stats = pl_max_depth s"
    "st_end_of_stream_seen stats = pl_end_of_stream_seen s" "st_end_of_stream_markers_produced stats = pl_eos_produced s"
    "st_end_of_stream_markers_consumed stats = pl_markers_consumed s"
    using s(4) by (auto simp: pipeline_result_def st)
  have "snd (replay_all (sc_replay cfg) taken (stream_begin es b)) = (b1, st1, r1)" using ok(3) st by (simp add: consumer_ok_def)
  then have part: "(b', result) = replay_part cfg taken es b"
    by (simp add: replay_part_def stats flip: replay_all_loop)
  let ?ws = "if eos_pushed s then [eos_item] else []"
  have d: "map event_item taken @ ((if pl_end_of_stream_seen s then [eos_item] else []) @ rb_contents (pl_queue s)) = map event_item sent @ ?ws"
    using ok(4) s(3) by (simp add: data_ok_def)
  have prefix: "\<exists>rest. sent = taken @ rest" using taken_prefix [OF d] by (cases "eos_pushed s") simp_all
  have seen: "taken = sent \<and> past = es \<and> pl_eos_produced s = 1" if "pl_end_of_stream_seen s"
  proof -
    have e: "map event_item taken @ eos_item # rb_contents (pl_queue s) = map event_item sent @ ?ws" using d that by simp
    have m: "taken = sent \<and> rb_contents (pl_queue s) = []" using marker_last [OF e] by (cases "eos_pushed s") simp_all
    then have "eos_pushed s" using e by (cases "eos_pushed s") simp_all
    then have "pl_eos_produced s = 1" by (simp add: eos_pushed_def s(2))
    then show ?thesis using m ok(2) by (auto simp: producer_ok_def pending_def s(2))
  qed
  have halted: "\<not> fst (replay_all (sc_replay cfg) taken (stream_begin es b))" if "\<not> pl_end_of_stream_seen s"
    using ok(3) that by (simp add: consumer_ok_def has_halted_def s(3))
  show thesis
    by (rule that [of sent past taken]) (use ok part prefix seen halted s(2) in \<open>auto simp: stats producer_ok_def consumer_ok_def queue_ok_def pending_def\<close>)
qed

section \<open>The threads can always finish\<close>

text \<open>Behind the gate the ready count is the number of threads that have passed their first step.\<close>

definition gate_ok :: "pipeline \<Rightarrow> bool" where
  "gate_ok s \<longleftrightarrow> (pl_producer s \<in> {Pp_Ready, Pp_Gate} \<or> pl_consumer s \<in> {Cp_Ready, Cp_Gate} \<longrightarrow> pl_start s \<or>
     pl_ready_threads s = (if pl_producer s = Pp_Ready then 0 else 1) + (if pl_consumer s = Cp_Ready then 0 else 1))"

lemma gate_begin: "gate_ok (pipeline_begin steady cfg es b)"
  by (simp add: gate_ok_def pipeline_begin_def)

fun producer_weight :: "producer_pc \<Rightarrow> nat" where
  "producer_weight Pp_Ready = 8"
| "producer_weight Pp_Gate = 7"
| "producer_weight Pp_Next = 6"
| "producer_weight (Pp_Push retry Ps_Try) = 4"
| "producer_weight (Pp_Push retry Ps_Write) = 3"
| "producer_weight (Pp_Push retry Ps_Publish) = 2"
| "producer_weight Pp_Retry = 5"
| "producer_weight Pp_Count = 1"
| "producer_weight (Pp_Eos Ps_Try) = 4"
| "producer_weight (Pp_Eos Ps_Write) = 3"
| "producer_weight (Pp_Eos Ps_Publish) = 2"
| "producer_weight Pp_Eos_Retry = 5"
| "producer_weight Pp_Eos_Count = 1"
| "producer_weight Pp_Done = 0"

definition producer_work :: "pipeline \<Rightarrow> nat" where
  "producer_work s = (if pl_producer s = Pp_Done then 0 else 8 * length (pl_events s) + producer_weight (pl_producer s))"

definition consumer_work :: "nat \<Rightarrow> pipeline \<Rightarrow> nat" where
  "consumer_work n s = (case pl_consumer s of
       Cp_Done \<Rightarrow> 0 | Cp_Stop \<Rightarrow> 1 | Cp_Fatal \<Rightarrow> 2
     | Cp_Handle \<Rightarrow> 5 * (n - pl_consumed s) + 3 | Cp_Publish \<Rightarrow> 5 * (n - pl_consumed s) + 4 | Cp_Read \<Rightarrow> 5 * (n - pl_consumed s) + 5
     | Cp_Try \<Rightarrow> 5 * (n - pl_consumed s) + 6 | Cp_Gate \<Rightarrow> 5 * (n - pl_consumed s) + 7 | Cp_Ready \<Rightarrow> 5 * (n - pl_consumed s) + 8)"

definition work_left :: "nat \<Rightarrow> pipeline \<Rightarrow> nat" where
  "work_left n s = producer_work s + consumer_work n s + (if pl_start s then 0 else 1)"

lemma producer_progress:
  assumes "pl_producer s \<noteq> Pp_Done" and "pl_producer s = Pp_Gate \<Longrightarrow> pl_start s" and "\<not> rb_full (pl_queue s)"
    and "is_pushing (pl_producer s) \<longrightarrow> pl_events s \<noteq> []"
  shows "producer_work (producer_step cfg s) < producer_work s"
proof (cases "pl_producer s")
  case (Pp_Push retry stage)
  then show ?thesis using assms by (cases stage) (simp_all add: producer_step_def producer_work_def)
next
  case (Pp_Eos stage)
  then show ?thesis using assms by (cases stage) (simp_all add: producer_step_def producer_work_def)
next
  case Pp_Count
  then show ?thesis using assms by (cases "pl_events s") (simp_all add: producer_step_def producer_work_def update_max_depth_def)
qed (use assms in \<open>simp_all add: producer_step_def producer_work_def update_max_depth_def split: list.split\<close>)

lemma consumer_progress:
  assumes "pl_consumer s \<noteq> Cp_Done" and "pl_consumer s = Cp_Gate \<Longrightarrow> pl_start s" and "pl_consumer s = Cp_Try \<Longrightarrow> \<not> rb_empty_approx (pl_queue s)"
    and "pl_consumer s = Cp_Handle \<Longrightarrow> pl_consumed s < n"
  shows "consumer_work n (consumer_step cfg s) < consumer_work n s"
proof (cases "pl_consumer s")
  case Cp_Handle
  obtain ok st where step: "replay_step (sc_replay cfg) (qi_event (pl_item s)) (pl_stream s) = (ok, st)"
    by (cases "replay_step (sc_replay cfg) (qi_event (pl_item s)) (pl_stream s)")
  have "5 * (n - (pl_consumed s + 1)) + 6 < 5 * (n - pl_consumed s) + 3" using assms(4) [OF Cp_Handle] by linarith
  then show ?thesis using Cp_Handle by (simp add: consumer_step_def consumer_work_def step)
qed (use assms in \<open>simp_all add: consumer_step_def consumer_work_def\<close>)

lemma producer_frame:
  "pl_start (producer_step cfg s) = pl_start s" "pl_consumer (producer_step cfg s) = pl_consumer s"
  "pl_consumed (producer_step cfg s) = pl_consumed s"
  by (simp_all add: producer_step_def update_max_depth_def Let_def split: producer_pc.split push_stage.split list.split)

lemma consumer_start: "pl_start (consumer_step cfg s) = pl_start s"
  by (simp add: consumer_step_def split: consumer_pc.split prod.split)

lemma work_step:
  "producer_work (producer_step cfg s) < producer_work s \<Longrightarrow> work_left n (producer_step cfg s) < work_left n s"
  "consumer_work n (consumer_step cfg s) < consumer_work n s \<Longrightarrow> work_left n (consumer_step cfg s) < work_left n s"
proof -
  have "consumer_work n (producer_step cfg s) = consumer_work n s" unfolding consumer_work_def producer_frame by (rule refl)
  then show "producer_work (producer_step cfg s) < producer_work s \<Longrightarrow> work_left n (producer_step cfg s) < work_left n s"
    by (simp add: work_left_def producer_frame)
  have "producer_work (consumer_step cfg s) = producer_work s" unfolding producer_work_def consumer_frame by (rule refl)
  then show "consumer_work n (consumer_step cfg s) < consumer_work n s \<Longrightarrow> work_left n (consumer_step cfg s) < work_left n s"
    by (simp add: work_left_def consumer_start)
qed

lemma producer_gate:
  "pl_ready_threads (producer_step cfg s) = pl_ready_threads s + (if pl_producer s = Pp_Ready then 1 else 0) \<and>
   pl_producer (producer_step cfg s) \<noteq> Pp_Ready \<and>
   (pl_producer (producer_step cfg s) = Pp_Gate \<longrightarrow> pl_producer s \<in> {Pp_Ready, Pp_Gate})"
proof (cases "pl_producer s")
  case (Pp_Push retry stage)
  then show ?thesis by (cases stage) (simp_all add: producer_step_def Let_def)
next
  case (Pp_Eos stage)
  then show ?thesis by (cases stage) (simp_all add: producer_step_def)
qed (simp_all add: producer_step_def update_max_depth_def split: list.split)

lemma consumer_gate:
  "pl_ready_threads (consumer_step cfg s) = pl_ready_threads s + (if pl_consumer s = Cp_Ready then 1 else 0) \<and>
   pl_consumer (consumer_step cfg s) \<noteq> Cp_Ready \<and>
   (pl_consumer (consumer_step cfg s) = Cp_Gate \<longrightarrow> pl_consumer s \<in> {Cp_Ready, Cp_Gate})"
  by (cases "pl_consumer s") (simp_all add: consumer_step_def split: prod.split)

lemma gate_step: "gate_ok s \<Longrightarrow> gate_ok (thread_step cfg t s)"
proof (cases t)
  case Producer
  assume "gate_ok s"
  then show ?thesis using producer_gate [of cfg s] unfolding Producer thread_step.simps gate_ok_def producer_frame by auto
next
  case Consumer
  assume "gate_ok s"
  then show ?thesis using consumer_gate [of cfg s] unfolding Consumer thread_step.simps gate_ok_def consumer_frame consumer_start by auto
qed (auto simp: gate_ok_def main_step_def split: if_splits)

text \<open>A step, at most two, that leaves less work: the consumer moves while it has an item; a producer that finds
  the queue full while the consumer has stopped gives up at its next look at \<open>consumer_active\<close>.\<close>

lemma handled_bound:
  assumes "flow cfg es b taken sent past s" and "pl_consumer s = Cp_Handle"
  shows "pl_consumed s < length es + 1"
proof -
  have d: "data_ok taken sent s" using assms(1) by (simp add: flow_def)
  have "length taken + 1 \<le> length sent + 1"
    using arg_cong [OF d [unfolded data_ok_def], of length] assms(2) by (simp split: if_splits)
  moreover have "length sent \<le> length past" "past @ pending s = es" "pl_consumed s = length taken"
    using assms(1) by (auto simp: flow_def producer_ok_def consumer_ok_def dest: list_emb_length)
  ultimately show ?thesis by auto
qed

lemma idle_consumer_means_running_producer:
  assumes "flow cfg es b taken sent past s" and "pl_consumer s = Cp_Try" and "rb_empty_approx (pl_queue s)"
  shows "pl_producer s \<noteq> Pp_Done"
proof
  assume d: "pl_producer s = Pp_Done"
  have ok: "queue_ok cfg s" "producer_ok cfg es sent past s" "consumer_ok cfg es b taken s" "data_ok taken sent s"
    using assms(1) by (simp_all add: flow_def)
  have "pl_consumer_active s" "\<not> pl_end_of_stream_seen s" using ok(3) assms(2) by (auto simp: consumer_ok_def)
  then have "eos_pushed s" using ok(2) d by (simp add: producer_ok_def eos_pushed_def)
  then have "map event_item taken = map event_item sent @ [eos_item]"
    using ok(1,4) assms(2,3) empty_iff [of "pl_queue s"] \<open>\<not> pl_end_of_stream_seen s\<close> by (simp add: data_ok_def queue_ok_def)
  then have "eos_item \<in> event_item ` set taken" by (metis in_set_conv_decomp set_map)
  then show False by auto
qed

lemma stopped_producer_progress:
  assumes "flow cfg es b taken sent past s" and "pl_consumer s = Cp_Done" and "pl_producer s \<noteq> Pp_Done"
    and "pl_producer s = Pp_Gate \<Longrightarrow> pl_start s"
  shows "\<exists>ts. work_left n (run_schedule cfg ts s) < work_left n s"
proof -
  have ok: "producer_ok cfg es sent past s" "\<not> pl_consumer_active s" using assms(1,2) by (auto simp: flow_def consumer_ok_def)
  let ?one = "run_schedule cfg [Producer] s" and ?two = "run_schedule cfg [Producer, Producer] s"
  have one: "?one = producer_step cfg s" "?two = producer_step cfg (producer_step cfg s)" by (simp_all add: run_schedule_def)
  show ?thesis
  proof (cases "rb_full (pl_queue s) \<and> (stage_of (pl_producer s) = Some Ps_Try)")
    case False
    have "\<not> rb_full (pl_queue s) \<or> stage_of (pl_producer s) \<noteq> Some Ps_Try" using False by blast
    then have "producer_work (producer_step cfg s) < producer_work s"
    proof
      assume "\<not> rb_full (pl_queue s)"
      then show ?thesis using assms(3,4) ok(1) by (intro producer_progress) (auto simp: producer_ok_def)
    next
      assume no_try: "stage_of (pl_producer s) \<noteq> Some Ps_Try"
      have "producer_step cfg s = producer_step cfg s" by (rule refl)
      show ?thesis
      proof (cases "pl_producer s")
        case (Pp_Push retry stage)
        then show ?thesis using no_try by (cases stage) (simp_all add: producer_step_def producer_work_def)
      next
        case (Pp_Eos stage)
        then show ?thesis using no_try by (cases stage) (simp_all add: producer_step_def producer_work_def)
      next
        case Pp_Count
        then show ?thesis using ok(1)
          by (cases "pl_events s") (simp_all add: producer_step_def producer_work_def update_max_depth_def producer_ok_def)
      qed (use assms(3,4) in \<open>simp_all add: producer_step_def producer_work_def update_max_depth_def split: list.split\<close>)
    qed
    then show ?thesis using work_step(1) one(1) by metis
  next
    case True
    have "producer_work ?two < producer_work s"
    proof (cases "pl_producer s")
      case (Pp_Push retry stage)
      then obtain e rest where e: "pl_events s = e # rest" using ok(1) by (cases "pl_events s") (simp_all add: producer_ok_def)
      show ?thesis using True Pp_Push ok(2) unfolding one
        by (cases "retry \<or> sc_backpressure cfg = Bp_Block"; cases "sc_backpressure cfg"; cases rest)
          (auto simp: producer_step_def producer_work_def e Let_def)
    next
      case (Pp_Eos stage)
      then show ?thesis using True ok(2) unfolding one by (simp add: producer_step_def producer_work_def)
    qed (use True in simp_all)
    moreover have "consumer_work n ?two = consumer_work n s" "pl_start ?two = pl_start s"
      unfolding one consumer_work_def producer_frame by (rule refl)+
    ultimately have "work_left n ?two < work_left n s" by (simp add: work_left_def)
    then show ?thesis by blast
  qed
qed

lemma gate_progress:
  assumes "gate_ok s" and "\<not> pl_start s" and "pl_producer s = Pp_Gate \<or> pl_consumer s = Cp_Gate"
  shows "\<exists>ts. work_left n (run_schedule cfg ts s) < work_left n s"
proof -
  consider "pl_producer s = Pp_Ready" | "pl_consumer s = Cp_Ready" | "pl_producer s \<noteq> Pp_Ready" "pl_consumer s \<noteq> Cp_Ready" by blast
  then show ?thesis
  proof cases
    case 1
    then have "producer_work (producer_step cfg s) < producer_work s" by (simp add: producer_step_def producer_work_def)
    then have "work_left n (run_schedule cfg [Producer] s) < work_left n s" using work_step(1) by (simp add: run_schedule_def)
    then show ?thesis by blast
  next
    case 2
    then have "consumer_work n (consumer_step cfg s) < consumer_work n s" by (simp add: consumer_step_def consumer_work_def)
    then have "work_left n (run_schedule cfg [Consumer] s) < work_left n s" using work_step(2) by (simp add: run_schedule_def)
    then show ?thesis by blast
  next
    case 3
    then have "pl_ready_threads s = 2" using assms by (auto simp: gate_ok_def)
    have "consumer_work n (s\<lparr>pl_start := True\<rparr>) = consumer_work n s" "producer_work (s\<lparr>pl_start := True\<rparr>) = producer_work s"
      by (cases "pl_consumer s"; simp add: consumer_work_def) (simp add: producer_work_def)
    then have "work_left n (run_schedule cfg [Main_Thread] s) < work_left n s" using assms(2) \<open>pl_ready_threads s = 2\<close>
      by (simp add: run_schedule_def main_step_def work_left_def)
    then show ?thesis by blast
  qed
qed

lemma can_progress:
  assumes "flow cfg es b taken sent past s" and "gate_ok s" and "0 < sc_queue_capacity cfg" and "\<not> pipeline_done s"
  shows "\<exists>ts. work_left (length es + 1) (run_schedule cfg ts s) < work_left (length es + 1) s"
proof (cases "\<not> pl_start s \<and> (pl_producer s = Pp_Gate \<or> pl_consumer s = Cp_Gate)")
  case True
  then show ?thesis using gate_progress [OF assms(2)] by blast
next
  case gate: False
  have q: "queue_ok cfg s" using assms(1) by (simp add: flow_def)
  show ?thesis
  proof (cases "pl_consumer s = Cp_Done")
    case True
    then show ?thesis using assms(4) gate by (intro stopped_producer_progress [OF assms(1)]) (auto simp: pipeline_done_def)
  next
    case running: False
    show ?thesis
    proof (cases "pl_consumer s = Cp_Try \<and> rb_empty_approx (pl_queue s)")
      case True
      then have "\<not> rb_full (pl_queue s)" using q assms(3) empty_iff [of "pl_queue s"] full_iff [of "pl_queue s"] by (simp add: queue_ok_def)
      moreover have "pl_producer s \<noteq> Pp_Done" using idle_consumer_means_running_producer [OF assms(1)] True by blast
      ultimately have "producer_work (producer_step cfg s) < producer_work s"
        using assms(1) gate by (intro producer_progress) (auto simp: flow_def producer_ok_def)
      then have "work_left (length es + 1) (run_schedule cfg [Producer] s) < work_left (length es + 1) s"
        using work_step(1) by (simp add: run_schedule_def)
      then show ?thesis by blast
    next
      case False
      then have "consumer_work (length es + 1) (consumer_step cfg s) < consumer_work (length es + 1) s"
        using running gate handled_bound [OF assms(1)] by (intro consumer_progress) auto
      then have "work_left (length es + 1) (run_schedule cfg [Consumer] s) < work_left (length es + 1) s"
        using work_step(2) by (simp add: run_schedule_def)
      then show ?thesis by blast
    qed
  qed
qed

lemma gate_run: "gate_ok s \<Longrightarrow> gate_ok (run_schedule cfg ts s)"
  by (induction ts arbitrary: s) (simp_all add: run_schedule_def gate_step)

lemma can_finish:
  assumes "flow cfg es b taken sent past s" and "gate_ok s" and "0 < sc_queue_capacity cfg"
  shows "\<exists>ts. pipeline_done (run_schedule cfg ts s)"
  using assms
proof (induction "work_left (length es + 1) s" arbitrary: taken sent past s rule: less_induct)
  case less
  show ?case
  proof (cases "pipeline_done s")
    case True
    then have "pipeline_done (run_schedule cfg [] s)" by (simp add: run_schedule_def)
    then show ?thesis by blast
  next
    case False
    obtain ts where ts: "work_left (length es + 1) (run_schedule cfg ts s) < work_left (length es + 1) s"
      using can_progress [OF less.prems(1,2,3) False] by blast
    obtain taken' sent' past' where f: "flow cfg es b taken' sent' past' (run_schedule cfg ts s)" using flow_run [OF less.prems(1)] by blast
    obtain us where "pipeline_done (run_schedule cfg us (run_schedule cfg ts s))"
      using less.hyps [OF ts f gate_run [OF less.prems(2)] less.prems(3)] by blast
    then have "pipeline_done (run_schedule cfg (ts @ us) s)" by (simp add: run_schedule_append)
    then show ?thesis by blast
  qed
qed

end
