(* ===== verification/Spsc_Properties.thy ===== *)
theory Spsc_Properties
  imports Spsc_Replay_Correct Replay_Correct
begin

text \<open>
  What the concurrent replay promises under every schedule: the single-threaded result when nothing may be dropped,
  exact accounts when something may, no slot touched by both threads at once, and no state it cannot leave.
\<close>

lemma subseq_same_length: "subseq xs ys \<Longrightarrow> length xs = length ys \<Longrightarrow> xs = ys"
  by (metis subseq_same_length)

lemma replay_part_halted:
  assumes "\<not> fst (replay_all (sc_replay cfg) taken (stream_begin es b))"
  shows "replay_part cfg (taken @ rest) es b = replay_part cfg taken es b"
  using replay_all_halted [OF assms, of rest] by (simp add: replay_part_def replay_all_loop)

lemma schedule_exists:
  assumes "0 < sc_queue_capacity cfg"
  shows "\<exists>rest. run_spsc steady cfg (schedule @ rest) es b \<noteq> None"
proof -
  let ?s = "run_schedule cfg schedule (pipeline_begin steady cfg es b)"
  obtain taken sent past where "flow cfg es b taken sent past ?s" using flow_run [OF flow_begin] by blast
  then obtain rest where "pipeline_done (run_schedule cfg rest ?s)" using can_finish [OF _ gate_run [OF gate_begin] assms] by blast
  then have "run_spsc steady cfg (schedule @ rest) es b \<noteq> None" using assms by (simp add: run_spsc_def run_schedule_append)
  then show ?thesis by blast
qed

text \<open>A pipeline with one place in its queue, and its threads taking turns.\<close>

definition demo_pipeline :: "backpressure_policy \<Rightarrow> spsc_config" where
  "demo_pipeline p = \<lparr>sc_queue_capacity = 1, sc_backpressure = p, sc_replay = default_config\<rparr>"

definition in_turns :: "thread list" where
  "in_turns = concat (replicate 18 [Producer, Consumer])"

lemma demo_run: "run_spsc False (demo_pipeline p) in_turns demo_stream (ob_new 1) \<noteq> None"
  by (cases p; code_simp)

section \<open>Properties\<close>

text \<open>C25: a blocking pipeline that has run to its end, under any interleaving of its threads, leaves the book and
  returns the result that the single-threaded replay of the same events leaves and returns.\<close>

theorem spsc_replay_equals_single_thread:
  assumes "sc_backpressure cfg = Bp_Block" and "0 < sc_queue_capacity cfg"
    and "run_spsc steady cfg schedule es b = Some (b', result, stats)"
  shows "(b', result) = replay_events (sc_replay cfg) es b"
proof -
  obtain taken sent past where r: "subseq sent past" "\<exists>rest. es = past @ rest" "\<exists>rest. sent = taken @ rest"
    "(b', result) = replay_part cfg taken es b" "length sent + st_dropped_events stats = length past"
    "st_dropped_events stats = 0" "st_end_of_stream_seen stats \<Longrightarrow> taken = sent \<and> past = es"
    "\<not> st_end_of_stream_seen stats \<Longrightarrow> \<not> fst (replay_all (sc_replay cfg) taken (stream_begin es b))"
    using run_outcome [OF assms(3,2)] assms(1) by metis
  have "sent = past" using subseq_same_length r(1,5,6) by simp
  then obtain rest where "es = taken @ rest" using r(2,3) by auto
  then have "replay_part cfg es es b = replay_part cfg taken es b"
    using r(7) \<open>sent = past\<close> replay_part_halted [OF r(8), of rest] by (cases "st_end_of_stream_seen stats") simp_all
  then show ?thesis using r(4) by (simp add: replay_part_all)
qed

lemma spsc_replay_equals_single_thread_witness:
  "\<exists>stats. run_spsc False (demo_pipeline Bp_Block) in_turns demo_stream (ob_new 1) =
     Some (fst (replay_events default_config demo_stream (ob_new 1)), snd (replay_events default_config demo_stream (ob_new 1)), stats)"
proof -
  obtain b r stats where run: "run_spsc False (demo_pipeline Bp_Block) in_turns demo_stream (ob_new 1) = Some (b, r, stats)"
    using demo_run by (metis not_None_eq prod_cases3)
  show ?thesis using spsc_replay_equals_single_thread [OF _ _ run] run
    by (cases "replay_events default_config demo_stream (ob_new 1)") (simp add: demo_pipeline_def)
qed


text \<open>C28: whatever the interleaving and the policy, the events replayed are a subsequence of the input, the consumer
  has taken no more events than were produced, the queue was never deeper than its capacity, and once the end of
  the stream has been seen every input event was either produced and consumed or counted as dropped.\<close>

theorem spsc_accounting:
  assumes "0 < sc_queue_capacity cfg" and "run_spsc steady cfg schedule es b = Some (b', result, stats)"
  shows "\<exists>taken. subseq taken es \<and> (b', result) = replay_part cfg taken es b \<and> st_consumed_events stats = length taken \<and>
      st_consumed_events stats \<le> st_produced_events stats \<and> st_produced_events stats + st_dropped_events stats \<le> length es \<and>
      st_max_queue_depth stats \<le> sc_queue_capacity cfg \<and>
      (st_end_of_stream_seen stats \<longrightarrow> st_produced_events stats = st_consumed_events stats \<and>
        st_produced_events stats + st_dropped_events stats = length es \<and>
        st_end_of_stream_markers_produced stats = 1 \<and> st_end_of_stream_markers_consumed stats = 1)"
proof (rule run_outcome [OF assms(2,1)])
  fix taken sent past
  assume r: "subseq sent past" "\<exists>rest. es = past @ rest" "\<exists>rest. sent = taken @ rest"
    "(b', result) = replay_part cfg taken es b" "st_consumed_events stats = length taken"
    "st_produced_events stats = length sent" "length sent + st_dropped_events stats = length past"
    "st_max_queue_depth stats \<le> sc_queue_capacity cfg"
    "st_end_of_stream_seen stats \<Longrightarrow> taken = sent \<and> past = es \<and> st_end_of_stream_markers_produced stats = 1 \<and>
      st_end_of_stream_markers_consumed stats = 1"
  have "subseq past es" "subseq taken sent" using r(2,3) by auto
  then have "subseq taken es" using r(1) subseq_order.trans by blast
  moreover have "length taken \<le> length sent" "length past \<le> length es" using r(2,3) by auto
  ultimately show ?thesis using r(4-9) by (intro exI [of _ taken]) auto
qed

lemma spsc_accounting_witness:
  "\<exists>b r stats. run_spsc False (demo_pipeline Bp_Drop_Newest_On_Full) in_turns demo_stream (ob_new 1) = Some (b, r, stats) \<and>
     st_consumed_events stats \<le> st_produced_events stats \<and> st_max_queue_depth stats \<le> 1"
proof -
  obtain b r stats where run: "run_spsc False (demo_pipeline Bp_Drop_Newest_On_Full) in_turns demo_stream (ob_new 1) = Some (b, r, stats)"
    using demo_run by (metis not_None_eq prod_cases3)
  show ?thesis using spsc_accounting [OF _ run] run by (auto simp: demo_pipeline_def)
qed


text \<open>C27: in no reachable state, under any schedule, does the producer write the slot that the consumer reads.\<close>

theorem spsc_slots_race_free:
  assumes "s = run_schedule cfg schedule (pipeline_begin steady cfg es b)"
  shows "\<not> (stage_of (pl_producer s) = Some Ps_Write \<and> pl_consumer s = Cp_Read \<and> rb_tail (pl_queue s) = rb_head (pl_queue s))"
proof -
  obtain taken sent past where "flow cfg es b taken sent past s" unfolding assms using flow_run [OF flow_begin] by blast
  then have "queue_ok cfg s" by (simp add: flow_def)
  then show ?thesis by (auto simp: queue_ok_def rb_empty_approx_def)
qed

lemma spsc_slots_race_free_witness:
  "\<exists>s. s = run_schedule (demo_pipeline Bp_Block) [Producer, Producer, Producer, Producer, Consumer]
       (pipeline_begin False (demo_pipeline Bp_Block) demo_stream (ob_new 1)) \<and>
     \<not> (stage_of (pl_producer s) = Some Ps_Write \<and> pl_consumer s = Cp_Read \<and> rb_tail (pl_queue s) = rb_head (pl_queue s))"
  using spsc_slots_race_free [OF refl] by blast


text \<open>C26: from every reachable state some schedule joins both threads: the pipeline has no deadlock, also when the
  consumer stops on a bad event while the producer waits for a full queue.\<close>

theorem spsc_can_always_finish:
  assumes "0 < sc_queue_capacity cfg"
  shows "\<exists>rest. run_spsc steady cfg (schedule @ rest) es b \<noteq> None"
  by (rule schedule_exists [OF assms])

lemma spsc_can_always_finish_witness:
  "\<exists>rest. run_spsc True (demo_pipeline Bp_Block) ([Producer, Producer, Main_Thread] @ rest) demo_stream (ob_new 1) \<noteq> None"
  by (rule spsc_can_always_finish) (simp add: demo_pipeline_def)

end
