(* ===== verification/Portfolio_Risk.thy ===== *)
theory Portfolio_Risk
  imports Risk_Audit
begin

text \<open>
  \<^verbatim>\<open>risk/portfolio_risk.hpp\<close> and \<^verbatim>\<open>risk/portfolio_risk.cpp\<close>: positions with average
  cost and realised profit, marks, the portfolio limits, and the check of a prospective order. The
  \<^verbatim>\<open>std::map\<close> of positions is an association list in the order of its keys; 64-bit amounts are integers.
\<close>

section \<open>Limits, results and state\<close>

record portfolio_limits =
  po_max_gross_exposure_ticks :: int
  po_max_net_exposure_ticks :: int
  po_max_symbol_concentration_bps :: int
  po_max_loss_ticks :: int

definition no_portfolio_limits :: portfolio_limits where
  "no_portfolio_limits = \<lparr>po_max_gross_exposure_ticks = 0, po_max_net_exposure_ticks = 0,
     po_max_symbol_concentration_bps = 0, po_max_loss_ticks = 0\<rparr>"

datatype portfolio_breach = Pb_None | Pb_GrossExposure | Pb_NetExposure | Pb_Concentration | Pb_Loss

fun breach_to_string :: "portfolio_breach \<Rightarrow> string" where
  "breach_to_string Pb_None = ''none''"
| "breach_to_string Pb_GrossExposure = ''gross_exposure''"
| "breach_to_string Pb_NetExposure = ''net_exposure''"
| "breach_to_string Pb_Concentration = ''concentration''"
| "breach_to_string Pb_Loss = ''loss''"

fun portfolio_check_name :: "portfolio_breach \<Rightarrow> string" where
  "portfolio_check_name Pb_None = ''portfolio_accepted''"
| "portfolio_check_name Pb_GrossExposure = ''portfolio_gross_exposure''"
| "portfolio_check_name Pb_NetExposure = ''portfolio_net_exposure''"
| "portfolio_check_name Pb_Concentration = ''portfolio_concentration''"
| "portfolio_check_name Pb_Loss = ''portfolio_loss''"

fun reject_reason_for :: "portfolio_breach \<Rightarrow> reject_reason" where
  "reject_reason_for Pb_GrossExposure = Rr_MaxPortfolioGrossExposure"
| "reject_reason_for Pb_NetExposure = Rr_MaxPortfolioNetExposure"
| "reject_reason_for Pb_Concentration = Rr_MaxSymbolConcentration"
| "reject_reason_for Pb_Loss = Rr_MaxPortfolioLoss"
| "reject_reason_for Pb_None = Rr_None"

record portfolio_check_result =
  pr_accepted :: bool
  pr_breach :: portfolio_breach
  pr_symbol_id :: symbol_id
  pr_limit_value :: int
  pr_observed_value :: int

record symbol_position =
  sp_quantity :: quantity
  sp_average_cost :: price_ticks
  sp_mark :: price_ticks
  sp_has_mark :: bool

definition blank_position :: symbol_position where
  "blank_position = \<lparr>sp_quantity = 0, sp_average_cost = 0, sp_mark = 0, sp_has_mark = False\<rparr>"

type_synonym positions = "(symbol_id \<times> symbol_position) list"

record portfolio_monitor =
  pm_limits :: portfolio_limits
  pm_positions :: positions
  pm_realised_pnl :: int
  pm_audit :: risk_audit_trail
  pm_record_audit :: bool

definition pm_new :: "portfolio_limits \<Rightarrow> portfolio_monitor" where
  "pm_new limits = \<lparr>pm_limits = limits, pm_positions = [], pm_realised_pnl = 0, pm_audit = trail_new, pm_record_audit = False\<rparr>"

definition pm_set_limits :: "portfolio_limits \<Rightarrow> portfolio_monitor \<Rightarrow> portfolio_monitor" where
  "pm_set_limits limits m = m\<lparr>pm_limits := limits\<rparr>"

definition pm_set_audit_enabled :: "bool \<Rightarrow> portfolio_monitor \<Rightarrow> portfolio_monitor" where
  "pm_set_audit_enabled enabled m = m\<lparr>pm_record_audit := enabled\<rparr>"

definition pm_clear_audit :: "portfolio_monitor \<Rightarrow> portfolio_monitor" where
  "pm_clear_audit m = m\<lparr>pm_audit := trail_clear (pm_audit m)\<rparr>"

definition pm_active :: "portfolio_monitor \<Rightarrow> bool" where
  "pm_active m \<longleftrightarrow> po_max_gross_exposure_ticks (pm_limits m) > 0 \<or> po_max_net_exposure_ticks (pm_limits m) > 0 \<or>
     po_max_symbol_concentration_bps (pm_limits m) > 0 \<or> po_max_loss_ticks (pm_limits m) > 0"

section \<open>Positions\<close>

text \<open>\<^verbatim>\<open>positions_[symbol_id]\<close> creates the position when there is none.\<close>

definition position_slot :: "symbol_id \<Rightarrow> positions \<Rightarrow> positions" where
  "position_slot sy ps = om_try_emplace (<) sy blank_position ps"

definition mark_of :: "symbol_position \<Rightarrow> price_ticks" where
  "mark_of p = (if sp_has_mark p then sp_mark p else sp_average_cost p)"

definition pm_set_mark :: "symbol_id \<Rightarrow> price_ticks \<Rightarrow> portfolio_monitor \<Rightarrow> portfolio_monitor" where
  "pm_set_mark sy mark m =
     m\<lparr>pm_positions := om_modify sy (\<lambda>p. p\<lparr>sp_mark := mark, sp_has_mark := True\<rparr>) (position_slot sy (pm_positions m))\<rparr>"

definition pm_set_position :: "symbol_id \<Rightarrow> quantity \<Rightarrow> price_ticks \<Rightarrow> portfolio_monitor \<Rightarrow> portfolio_monitor" where
  "pm_set_position sy signed_quantity cost m =
     m\<lparr>pm_positions := om_modify sy (\<lambda>p. p\<lparr>sp_quantity := signed_quantity, sp_average_cost := cost\<rparr>) (position_slot sy (pm_positions m))\<rparr>"

text \<open>The fill of one position: the position after it and the profit it realises.\<close>

definition apply_fill_to :: "side \<Rightarrow> quantity \<Rightarrow> price_ticks \<Rightarrow> symbol_position \<Rightarrow> int \<Rightarrow> symbol_position \<times> int" where
  "apply_fill_to sd q price p realised =
     (if q \<le> 0 \<or> \<not> is_valid_side sd then (p, realised)
      else let signed_qty = (if sd = Buy then q else - q); current = sp_quantity p in
        if (current \<ge> 0 \<and> signed_qty > 0) \<or> (current \<le> 0 \<and> signed_qty < 0)
        then let new_qty = current + signed_qty;
                 total_cost = sp_average_cost p * abs_i64 current + price * q
             in (p\<lparr>sp_average_cost := (if new_qty = 0 then 0 else c_quotient total_cost (abs_i64 new_qty)),
                   sp_quantity := new_qty\<rparr>, realised)
        else let closing_qty = min q (abs_i64 current);
                 realised = (if current > 0 then realised + (price - sp_average_cost p) * closing_qty
                             else realised + (sp_average_cost p - price) * closing_qty);
                 new_signed = current + signed_qty;
                 p = p\<lparr>sp_quantity := new_signed\<rparr>
             in (if new_signed = 0 then p\<lparr>sp_average_cost := 0\<rparr>
                 else if (current > 0 \<and> new_signed < 0) \<or> (current < 0 \<and> new_signed > 0) then p\<lparr>sp_average_cost := price\<rparr>
                 else p, realised))"

definition fill_positions :: "symbol_id \<Rightarrow> side \<Rightarrow> quantity \<Rightarrow> price_ticks \<Rightarrow> positions \<Rightarrow> int \<Rightarrow> positions \<times> int" where
  "fill_positions sy sd q price ps realised =
     (let ps = position_slot sy ps;
          (p, realised) = apply_fill_to sd q price (the (map_of ps sy)) realised
      in (om_modify sy (\<lambda>_. p) ps, realised))"

definition pm_apply_fill :: "symbol_id \<Rightarrow> side \<Rightarrow> quantity \<Rightarrow> price_ticks \<Rightarrow> portfolio_monitor \<Rightarrow> portfolio_monitor" where
  "pm_apply_fill sy sd q price m =
     (let (ps, realised) = fill_positions sy sd q price (pm_positions m) (pm_realised_pnl m)
      in m\<lparr>pm_positions := ps, pm_realised_pnl := realised\<rparr>)"

definition pm_position :: "symbol_id \<Rightarrow> portfolio_monitor \<Rightarrow> quantity" where
  "pm_position sy m = (case map_of (pm_positions m) sy of None \<Rightarrow> 0 | Some p \<Rightarrow> sp_quantity p)"

section \<open>Exposure and profit\<close>

definition gross_exposure_ticks :: "portfolio_monitor \<Rightarrow> int" where
  "gross_exposure_ticks m = fold (\<lambda>(sy, p) gross. gross + abs_i64 (sp_quantity p) * mark_of p) (pm_positions m) 0"

definition net_exposure_ticks :: "portfolio_monitor \<Rightarrow> int" where
  "net_exposure_ticks m = abs_i64 (fold (\<lambda>(sy, p) net. net + sp_quantity p * mark_of p) (pm_positions m) 0)"

definition unrealised_pnl_ticks :: "portfolio_monitor \<Rightarrow> int" where
  "unrealised_pnl_ticks m = fold (\<lambda>(sy, p) pnl. pnl + (mark_of p - sp_average_cost p) * sp_quantity p) (pm_positions m) 0"

definition total_pnl_ticks :: "portfolio_monitor \<Rightarrow> int" where
  "total_pnl_ticks m = pm_realised_pnl m + unrealised_pnl_ticks m"

section \<open>Evaluation\<close>

definition concentration_bps :: "int \<Rightarrow> symbol_position \<Rightarrow> int" where
  "concentration_bps gross p = c_quotient (abs_i64 (sp_quantity p) * mark_of p * 10000) gross"

definition worst_concentration :: "int \<Rightarrow> positions \<Rightarrow> symbol_id \<times> int" where
  "worst_concentration gross ps =
     fold (\<lambda>(sy, p) (worst_symbol, worst_bps). let bps = concentration_bps gross p in
       if bps > worst_bps then (sy, bps) else (worst_symbol, worst_bps)) ps (kInvalidSymbolId, 0)"

definition pm_evaluate :: "portfolio_limits \<Rightarrow> positions \<Rightarrow> int \<Rightarrow> portfolio_check_result" where
  "pm_evaluate limits ps realised =
     (let (gross, net, unrealised) = fold (\<lambda>(sy, p) (gross, net, unrealised).
            let mark = mark_of p in
            (gross + abs_i64 (sp_quantity p) * mark, net + sp_quantity p * mark,
             unrealised + (mark - sp_average_cost p) * sp_quantity p)) ps (0, 0, 0);
          net = abs_i64 net; total_pnl = realised + unrealised;
          (worst_symbol, worst_bps) = worst_concentration gross ps in
      if po_max_gross_exposure_ticks limits > 0 \<and> gross > po_max_gross_exposure_ticks limits
      then \<lparr>pr_accepted = False, pr_breach = Pb_GrossExposure, pr_symbol_id = kInvalidSymbolId,
            pr_limit_value = po_max_gross_exposure_ticks limits, pr_observed_value = gross\<rparr>
      else if po_max_net_exposure_ticks limits > 0 \<and> net > po_max_net_exposure_ticks limits
      then \<lparr>pr_accepted = False, pr_breach = Pb_NetExposure, pr_symbol_id = kInvalidSymbolId,
            pr_limit_value = po_max_net_exposure_ticks limits, pr_observed_value = net\<rparr>
      else if po_max_symbol_concentration_bps limits > 0 \<and> gross > 0 \<and> worst_bps > po_max_symbol_concentration_bps limits
      then \<lparr>pr_accepted = False, pr_breach = Pb_Concentration, pr_symbol_id = worst_symbol,
            pr_limit_value = po_max_symbol_concentration_bps limits, pr_observed_value = worst_bps\<rparr>
      else if po_max_loss_ticks limits > 0 \<and> total_pnl \<le> - po_max_loss_ticks limits
      then \<lparr>pr_accepted = False, pr_breach = Pb_Loss, pr_symbol_id = kInvalidSymbolId,
            pr_limit_value = po_max_loss_ticks limits, pr_observed_value = - total_pnl\<rparr>
      else \<lparr>pr_accepted = True, pr_breach = Pb_None, pr_symbol_id = kInvalidSymbolId, pr_limit_value = 0, pr_observed_value = 0\<rparr>)"

definition evaluate_order :: "symbol_id \<Rightarrow> side \<Rightarrow> quantity \<Rightarrow> price_ticks \<Rightarrow> portfolio_monitor \<Rightarrow> portfolio_check_result" where
  "evaluate_order sy sd q price m =
     (let (hypothetical, realised) = fill_positions sy sd q price (pm_positions m) (pm_realised_pnl m)
      in pm_evaluate (pm_limits m) hypothetical realised)"

definition evaluate_state :: "portfolio_monitor \<Rightarrow> portfolio_check_result" where
  "evaluate_state m = pm_evaluate (pm_limits m) (pm_positions m) (pm_realised_pnl m)"

definition pm_check_order :: "symbol_id \<Rightarrow> side \<Rightarrow> quantity \<Rightarrow> price_ticks \<Rightarrow> timestamp_ns \<Rightarrow> portfolio_monitor
    \<Rightarrow> portfolio_check_result \<times> portfolio_monitor" where
  "pm_check_order sy sd q price now m =
     (let result = evaluate_order sy sd q price m in
      (result, if pm_record_audit m
               then m\<lparr>pm_audit := trail_record \<lparr>ra_timestamp_ns = now, ra_client_order_id = kInvalidClientOrderId,
                      ra_symbol_id = sy, ra_side = sd, ra_accepted = pr_accepted result,
                      ra_reject_reason = reject_reason_for (pr_breach result),
                      ra_check_name = portfolio_check_name (pr_breach result), ra_limit_value = pr_limit_value result,
                      ra_observed_value = pr_observed_value result\<rparr> (pm_audit m)\<rparr>
               else m))"

section \<open>Snapshot\<close>

record portfolio_snapshot =
  pn_gross_exposure_ticks :: int
  pn_net_exposure_ticks :: int
  pn_realised_pnl_ticks :: int
  pn_unrealised_pnl_ticks :: int
  pn_total_pnl_ticks :: int
  pn_max_concentration_symbol :: symbol_id
  pn_max_concentration_bps :: int
  pn_symbol_count :: nat
  pn_checksum :: u64

definition position_checksum :: "u64 \<Rightarrow> symbol_id \<times> symbol_position \<Rightarrow> u64" where
  "position_checksum seed sp = (case sp of (sy, p) \<Rightarrow>
     let seed = checksum_append_u32 seed sy;
         seed = checksum_append_i64 seed (sp_quantity p);
         seed = checksum_append_i64 seed (sp_average_cost p);
         seed = checksum_append_i64 seed (sp_mark p)
     in checksum_append_bool seed (sp_has_mark p))"

definition portfolio_checksum :: "portfolio_monitor \<Rightarrow> u64" where
  "portfolio_checksum m =
     (let seed = checksum_append_i64 kFnvOffsetBasis (po_max_gross_exposure_ticks (pm_limits m));
          seed = checksum_append_i64 seed (po_max_net_exposure_ticks (pm_limits m));
          seed = checksum_append_i64 seed (po_max_symbol_concentration_bps (pm_limits m));
          seed = checksum_append_i64 seed (po_max_loss_ticks (pm_limits m));
          seed = checksum_append_i64 seed (pm_realised_pnl m);
          seed = checksum_append_u64 seed (of_nat (length (pm_positions m)))
      in foldl position_checksum seed (pm_positions m))"

definition portfolio_snapshot_of :: "portfolio_monitor \<Rightarrow> portfolio_snapshot" where
  "portfolio_snapshot_of m =
     (let gross = gross_exposure_ticks m;
          (worst_symbol, worst_bps) = (if gross > 0 then worst_concentration gross (pm_positions m) else (kInvalidSymbolId, 0))
      in \<lparr>pn_gross_exposure_ticks = gross, pn_net_exposure_ticks = net_exposure_ticks m,
          pn_realised_pnl_ticks = pm_realised_pnl m, pn_unrealised_pnl_ticks = unrealised_pnl_ticks m,
          pn_total_pnl_ticks = pm_realised_pnl m + unrealised_pnl_ticks m,
          pn_max_concentration_symbol = worst_symbol, pn_max_concentration_bps = worst_bps,
          pn_symbol_count = length (pm_positions m), pn_checksum = portfolio_checksum m\<rparr>)"

end
