(* ===== verification/Portfolio_Risk_Correct.thy ===== *)
theory Portfolio_Risk_Correct
  imports Portfolio_Risk
begin

text \<open>
  The portfolio monitor against the cash of its fills: its total profit is cash plus market value up to the rounding
  of the average costs, and a check of an order is the truth about the state the order's fill would leave.
\<close>

section \<open>Sums over the positions\<close>

definition psum :: "(symbol_position \<Rightarrow> int) \<Rightarrow> positions \<Rightarrow> int" where
  "psum f ps = sum_list (map (\<lambda>(sy, p). f p) ps)"

lemma psum_simps [simp]: "psum f [] = 0" "psum f ((sy, p) # ps) = f p + psum f ps" "psum f (ps @ qs) = psum f ps + psum f qs"
  by (simp_all add: psum_def)

lemma psum_diff: "psum (\<lambda>p. f p - g p) ps = psum f ps - psum g ps"
  by (induction ps) auto

lemma fold_psum: "fold (\<lambda>(sy, p) a. a + f p) ps a = a + psum f ps"
  by (induction ps arbitrary: a) auto

lemma fold_psum3:
  "fold (\<lambda>(sy, p) (a, b, c). (a + f p, b + g p, c + h p)) ps (a, b, c) = (a + psum f ps, b + psum g ps, c + psum h ps)"
  by (induction ps arbitrary: a b c) auto

definition positions_ok :: "positions \<Rightarrow> bool" where
  "positions_ok ps \<longleftrightarrow> sorted_wrt (<) (map fst ps)"

definition position_at :: "symbol_id \<Rightarrow> positions \<Rightarrow> symbol_position" where
  "position_at sy ps = (case map_of ps sy of None \<Rightarrow> blank_position | Some p \<Rightarrow> p)"

lemma position_slot_facts:
  assumes "positions_ok ps"
  shows "positions_ok (position_slot sy ps)" and "map_of (position_slot sy ps) sy = Some (position_at sy ps)"
    and "map_of (position_slot sy ps) x = (if x = sy then Some (position_at sy ps) else map_of ps x)"
    and "f blank_position = 0 \<Longrightarrow> psum f (position_slot sy ps) = psum f ps"
proof -
  have s: "sorted_wrt (<) (map fst ps)" using assms by (simp add: positions_ok_def)
  show "positions_ok (position_slot sy ps)" unfolding positions_ok_def position_slot_def by (rule symbol_order.sorted_try_emplace [OF s])
  show "map_of (position_slot sy ps) sy = Some (position_at sy ps)"
    "map_of (position_slot sy ps) x = (if x = sy then Some (position_at sy ps) else map_of ps x)"
    by (simp_all add: position_slot_def symbol_order.map_of_try_emplace [OF s] position_at_def)
  show "psum f (position_slot sy ps) = psum f ps" if "f blank_position = 0"
  proof (cases "sy \<in> fst ` set ps")
    case True
    then show ?thesis using symbol_order.try_emplace_present [OF s] by (simp add: position_slot_def)
  next
    case False
    then obtain xs ys where "ps = xs @ ys" "position_slot sy ps = xs @ (sy, blank_position) # ys"
      unfolding position_slot_def using symbol_order.try_emplace_absent by metis
    then show ?thesis using that by simp
  qed
qed

lemma psum_modify:
  assumes "map_of ps sy = Some p"
  shows "psum f (om_modify sy g ps) = psum f ps - f p + f (g p)"
proof -
  obtain xs ys where "ps = xs @ (sy, p) # ys" "om_modify sy g ps = xs @ (sy, g p) # ys"
    using om_modify_split [OF assms] by blast
  then show ?thesis by simp
qed

lemma write_position:
  assumes "positions_ok ps"
  shows "positions_ok (om_modify sy g (position_slot sy ps))"
    and "position_at x (om_modify sy g (position_slot sy ps)) = (if x = sy then g (position_at sy ps) else position_at x ps)"
    and "f blank_position = 0 \<Longrightarrow>
      psum f (om_modify sy g (position_slot sy ps)) = psum f ps - f (position_at sy ps) + f (g (position_at sy ps))"
  using position_slot_facts [OF assms, where sy = sy] by (simp_all add: positions_ok_def psum_modify)
    (simp add: position_at_def map_of_om_modify)

section \<open>One fill\<close>

lemma c_quotient_rest: "0 < b \<Longrightarrow> \<bar>a - c_quotient a b * b\<bar> \<le> b - 1"
proof -
  assume b: "0 < b"
  have m: "\<bar>a\<bar> div b * b = \<bar>a\<bar> - \<bar>a\<bar> mod b" by (simp add: minus_mod_eq_div_mult)
  have r: "0 \<le> \<bar>a\<bar> mod b" "\<bar>a\<bar> mod b < b" using b by simp_all
  show ?thesis
  proof (cases "a < 0")
    case True
    then have "c_quotient a b * b = - (\<bar>a\<bar> div b * b)" using b by (simp add: c_quotient_def)
    then show ?thesis using m r True by simp
  next
    case False
    then have "c_quotient a b * b = \<bar>a\<bar> div b * b" using b by (simp add: c_quotient_def)
    then show ?thesis using m r False by simp
  qed
qed

definition signed_fill :: "side \<Rightarrow> quantity \<Rightarrow> quantity" where
  "signed_fill sd q = (if q \<le> 0 \<or> \<not> is_valid_side sd then 0 else if sd = Buy then q else - q)"

definition cost_basis :: "symbol_position \<Rightarrow> int" where
  "cost_basis p = sp_average_cost p * sp_quantity p"

lemma fill_quantity: "sp_quantity (fst (apply_fill_to sd q price p r)) = sp_quantity p + signed_fill sd q"
  by (auto simp: apply_fill_to_def signed_fill_def Let_def)

lemma fill_marks: "sp_mark (fst (apply_fill_to sd q price p r)) = sp_mark p" "sp_has_mark (fst (apply_fill_to sd q price p r)) = sp_has_mark p"
  by (auto simp: apply_fill_to_def Let_def)

text \<open>Extending a position rounds its average cost; every other fill is exact.\<close>

lemma fill_basis:
  assumes "apply_fill_to sd q price p r = (p', r')"
  shows "\<bar>(r' - cost_basis p') - (r - cost_basis p) + signed_fill sd q * price\<bar> \<le> max 0 (\<bar>sp_quantity p'\<bar> - 1)"
proof (cases "q \<le> 0 \<or> \<not> is_valid_side sd")
  case True
  then show ?thesis using assms by (auto simp: apply_fill_to_def signed_fill_def)
next
  case valid: False
  let ?c = "sp_quantity p" and ?a = "sp_average_cost p" and ?s = "if sd = Buy then q else - q"
  have s: "signed_fill sd q = ?s" using valid by (auto simp: signed_fill_def)
  have q: "0 < q" using valid by simp
  show ?thesis
  proof (cases "(?c \<ge> 0 \<and> ?s > 0) \<or> (?c \<le> 0 \<and> ?s < 0)")
    case True
    let ?t = "?a * \<bar>?c\<bar> + price * q"
    have n: "\<bar>?c + ?s\<bar> = \<bar>?c\<bar> + q" "0 < \<bar>?c + ?s\<bar>" using True q by auto
    obtain x where x: "x = c_quotient ?t \<bar>?c + ?s\<bar>" by blast
    have p': "p' = p\<lparr>sp_average_cost := x, sp_quantity := ?c + ?s\<rparr>" "r' = r"
      using assms valid True n(2) by (auto simp: apply_fill_to_def Let_def x)
    have rest: "\<bar>?t - x * \<bar>?c + ?s\<bar>\<bar> \<le> \<bar>?c + ?s\<bar> - 1" unfolding x by (rule c_quotient_rest [OF n(2)])
    have sides: "sd = Buy \<and> 0 \<le> ?c \<or> sd \<noteq> Buy \<and> ?c \<le> 0" using True q by (auto split: if_splits)
    show ?thesis
    proof (cases "sd = Buy")
      case True
      then show ?thesis using rest sides q unfolding s p' by (simp add: cost_basis_def algebra_simps)
    next
      case False
      then have n: "\<bar>?c + ?s\<bar> = q - ?c" "\<bar>?c\<bar> = - ?c" using sides q by auto
      have "(r' - cost_basis p') - (r - cost_basis p) + signed_fill sd q * price = - (?t - x * (q - ?c))"
        unfolding s p' using False n(2) by (simp add: cost_basis_def algebra_simps)
      then show ?thesis using rest False unfolding p' n by simp
    qed
  next
    case False
    have "(r' - cost_basis p') - (r - cost_basis p) + ?s * price = 0"
    proof (cases "?c = - ?s")
      case True
      then show ?thesis using assms valid q
        by (cases "sd = Buy") (auto simp: apply_fill_to_def Let_def cost_basis_def algebra_simps)
    next
      case left: False
      then show ?thesis using assms valid False q
        by (cases "?c > 0") (auto simp: apply_fill_to_def Let_def cost_basis_def min_def algebra_simps split: if_splits)
    qed
    then show ?thesis by (simp add: s)
  qed
qed

section \<open>Runs of the monitor\<close>

datatype portfolio_op =
    Po_Fill symbol_id side quantity price_ticks
  | Po_Mark symbol_id price_ticks
  | Po_Check symbol_id side quantity price_ticks timestamp_ns
  | Po_Limits portfolio_limits
  | Po_Audit bool
  | Po_Clear_Audit

fun portfolio_step :: "portfolio_op \<Rightarrow> portfolio_monitor \<Rightarrow> portfolio_monitor" where
  "portfolio_step (Po_Fill sy sd q price) m = pm_apply_fill sy sd q price m"
| "portfolio_step (Po_Mark sy mark) m = pm_set_mark sy mark m"
| "portfolio_step (Po_Check sy sd q price now) m = snd (pm_check_order sy sd q price now m)"
| "portfolio_step (Po_Limits limits) m = pm_set_limits limits m"
| "portfolio_step (Po_Audit enabled) m = pm_set_audit_enabled enabled m"
| "portfolio_step Po_Clear_Audit m = pm_clear_audit m"

text \<open>What an operation pays into the account, and what it adds to the position of a symbol.\<close>

fun cash_of :: "portfolio_op \<Rightarrow> int" where
  "cash_of (Po_Fill sy sd q price) = - (signed_fill sd q * price)"
| "cash_of _ = 0"

fun traded_in :: "symbol_id \<Rightarrow> portfolio_op \<Rightarrow> quantity" where
  "traded_in x (Po_Fill sy sd q price) = (if x = sy then signed_fill sd q else 0)"
| "traded_in x _ = 0"

text \<open>Each fill may round by less than one tick per unit of the position it leaves.\<close>

fun rounding_of :: "portfolio_op \<Rightarrow> portfolio_monitor \<Rightarrow> int" where
  "rounding_of (Po_Fill sy sd q price) m = max 0 (\<bar>pm_position sy (pm_apply_fill sy sd q price m)\<bar> - 1)"
| "rounding_of _ m = 0"

fun rounding_bound :: "portfolio_op list \<Rightarrow> portfolio_monitor \<Rightarrow> int" where
  "rounding_bound [] m = 0"
| "rounding_bound (x # xs) m = rounding_of x m + rounding_bound xs (portfolio_step x m)"

definition market_value :: "portfolio_monitor \<Rightarrow> int" where
  "market_value m = psum (\<lambda>p. sp_quantity p * mark_of p) (pm_positions m)"

definition basis :: "portfolio_monitor \<Rightarrow> int" where
  "basis m = pm_realised_pnl m - psum cost_basis (pm_positions m)"

lemma pm_position_at: "pm_position sy m = sp_quantity (position_at sy (pm_positions m))"
  by (simp add: pm_position_def position_at_def blank_position_def split: option.split)

lemma fill_positions_form:
  assumes "positions_ok ps"
  shows "fill_positions sy sd q price ps r =
    (om_modify sy (\<lambda>_. fst (apply_fill_to sd q price (position_at sy ps) r)) (position_slot sy ps),
     snd (apply_fill_to sd q price (position_at sy ps) r))"
  by (simp add: fill_positions_def Let_def position_slot_facts(2) [OF assms] case_prod_unfold)

lemma fill_step:
  assumes "positions_ok (pm_positions m)" and m': "m' = pm_apply_fill sy sd q price m"
  shows "positions_ok (pm_positions m')" and "pm_position x m' = pm_position x m + (if x = sy then signed_fill sd q else 0)"
    and "\<bar>basis m' - basis m + signed_fill sd q * price\<bar> \<le> max 0 (\<bar>pm_position sy m'\<bar> - 1)"
proof -
  let ?p = "position_at sy (pm_positions m)"
  obtain p' r' where f: "apply_fill_to sd q price ?p (pm_realised_pnl m) = (p', r')"
    by (cases "apply_fill_to sd q price ?p (pm_realised_pnl m)")
  have ps: "pm_positions m' = om_modify sy (\<lambda>_. p') (position_slot sy (pm_positions m))" and r: "pm_realised_pnl m' = r'"
    by (simp_all add: m' pm_apply_fill_def fill_positions_form [OF assms(1)] f)
  show "positions_ok (pm_positions m')" unfolding ps by (rule write_position(1) [OF assms(1)])
  have q: "sp_quantity p' = sp_quantity ?p + signed_fill sd q" using fill_quantity [of sd q price ?p "pm_realised_pnl m"] f by simp
  show "pm_position x m' = pm_position x m + (if x = sy then signed_fill sd q else 0)"
    unfolding pm_position_at ps write_position(2) [OF assms(1)] by (simp add: q)
  have "psum cost_basis (pm_positions m') = psum cost_basis (pm_positions m) - cost_basis ?p + cost_basis p'"
    unfolding ps by (rule write_position(3) [OF assms(1)]) (simp add: cost_basis_def blank_position_def)
  then have "basis m' - basis m = (r' - cost_basis p') - (pm_realised_pnl m - cost_basis ?p)" by (simp add: basis_def r)
  moreover have "pm_position sy m' = sp_quantity p'" unfolding pm_position_at ps write_position(2) [OF assms(1)] by simp
  ultimately show "\<bar>basis m' - basis m + signed_fill sd q * price\<bar> \<le> max 0 (\<bar>pm_position sy m'\<bar> - 1)"
    using fill_basis [OF f] by simp
qed

lemma mark_step:
  assumes "positions_ok (pm_positions m)"
  shows "positions_ok (pm_positions (pm_set_mark sy mark m))" and "pm_position x (pm_set_mark sy mark m) = pm_position x m"
    and "basis (pm_set_mark sy mark m) = basis m"
proof -
  note w = write_position [OF assms, where sy = sy and g = "\<lambda>p. p\<lparr>sp_mark := mark, sp_has_mark := True\<rparr>"]
  show "positions_ok (pm_positions (pm_set_mark sy mark m))" using w(1) by (simp add: pm_set_mark_def)
  show "pm_position x (pm_set_mark sy mark m) = pm_position x m" by (simp add: pm_position_at pm_set_mark_def w(2))
  have "psum cost_basis (pm_positions (pm_set_mark sy mark m)) = psum cost_basis (pm_positions m)"
    using w(3) [where f = cost_basis] by (simp add: pm_set_mark_def cost_basis_def blank_position_def)
  then show "basis (pm_set_mark sy mark m) = basis m" by (simp add: basis_def pm_set_mark_def)
qed

lemma step_accounts:
  assumes "positions_ok (pm_positions m)"
  shows "positions_ok (pm_positions (portfolio_step x m))" and "pm_position sy (portfolio_step x m) = pm_position sy m + traded_in sy x"
    and "\<bar>basis (portfolio_step x m) - basis m - cash_of x\<bar> \<le> rounding_of x m"
  using fill_step [OF assms refl] mark_step [OF assms] assms
  by (cases x; simp add: pm_check_order_def pm_set_limits_def pm_set_audit_enabled_def pm_clear_audit_def pm_position_def basis_def Let_def)+

lemma run_accounts:
  assumes "positions_ok (pm_positions m)"
  shows "pm_position sy (fold portfolio_step xs m) = pm_position sy m + sum_list (map (traded_in sy) xs) \<and>
    \<bar>basis (fold portfolio_step xs m) - basis m - sum_list (map cash_of xs)\<bar> \<le> rounding_bound xs m"
  using assms
proof (induction xs arbitrary: m)
  case (Cons x xs)
  note s = step_accounts [OF Cons.prems, where x = x]
  show ?case using Cons.IH [OF s(1)] s(2) [where sy = sy] s(3) by (simp add: abs_le_iff)
qed simp

lemma total_pnl_basis: "total_pnl_ticks m = basis m + market_value m"
proof -
  have "unrealised_pnl_ticks m = psum (\<lambda>p. (mark_of p - sp_average_cost p) * sp_quantity p) (pm_positions m)"
    unfolding unrealised_pnl_ticks_def fold_psum by simp
  also have "\<dots> = market_value m - psum cost_basis (pm_positions m)"
    unfolding market_value_def by (simp add: cost_basis_def algebra_simps flip: psum_diff)
  finally show ?thesis by (simp add: total_pnl_ticks_def basis_def)
qed

text \<open>C30: after any sequence of fills, marks and checks on a new monitor, each position is the sum of the signed fills
  of its symbol, and the total profit is the cash the fills paid plus the market value of the positions, up to less
  than one tick for each unit held after a fill: the rounding of the average cost.\<close>

theorem portfolio_profit_is_cash_plus_value:
  "let m = fold portfolio_step ops (pm_new limits) in
     pm_position sy m = sum_list (map (traded_in sy) ops) \<and>
     \<bar>total_pnl_ticks m - (sum_list (map cash_of ops) + market_value m)\<bar> \<le> rounding_bound ops (pm_new limits)"
proof -
  have "positions_ok (pm_positions (pm_new limits))" by (simp add: pm_new_def positions_ok_def)
  from run_accounts [OF this, of sy ops] show ?thesis
    by (simp add: Let_def total_pnl_basis) (simp add: pm_new_def pm_position_def basis_def)
qed

section \<open>The check of an order\<close>

text \<open>The limits, read from the accessors of a state.\<close>

definition within_portfolio_limits :: "portfolio_monitor \<Rightarrow> bool" where
  "within_portfolio_limits m \<longleftrightarrow>
     (po_max_gross_exposure_ticks (pm_limits m) > 0 \<longrightarrow> gross_exposure_ticks m \<le> po_max_gross_exposure_ticks (pm_limits m)) \<and>
     (po_max_net_exposure_ticks (pm_limits m) > 0 \<longrightarrow> net_exposure_ticks m \<le> po_max_net_exposure_ticks (pm_limits m)) \<and>
     (po_max_symbol_concentration_bps (pm_limits m) > 0 \<and> gross_exposure_ticks m > 0 \<longrightarrow>
       (\<forall>(sy, p) \<in> set (pm_positions m). concentration_bps (gross_exposure_ticks m) p \<le> po_max_symbol_concentration_bps (pm_limits m))) \<and>
     (po_max_loss_ticks (pm_limits m) > 0 \<longrightarrow> - total_pnl_ticks m < po_max_loss_ticks (pm_limits m))"

lemma worst_concentration_bound:
  "snd (fold (\<lambda>(sy, p) (worst_symbol, worst_bps). let bps = concentration_bps gross p in
       if bps > worst_bps then (sy, bps) else (worst_symbol, worst_bps)) ps (s, w)) \<le> lim \<longleftrightarrow>
    w \<le> lim \<and> (\<forall>(sy, p) \<in> set ps. concentration_bps gross p \<le> lim)"
proof (induction ps arbitrary: s w)
  case (Cons x ps)
  then show ?case by (cases x) (cases "concentration_bps gross (snd x) > w"; auto simp: Let_def)
qed simp

lemma worst_concentration_iff:
  "0 \<le> lim \<Longrightarrow> snd (worst_concentration gross ps) \<le> lim \<longleftrightarrow> (\<forall>(sy, p) \<in> set ps. concentration_bps gross p \<le> lim)"
  unfolding worst_concentration_def worst_concentration_bound by simp

lemma evaluate_sums:
  "fold (\<lambda>(sy, p) (gross, net, unrealised). let mark = mark_of p in
      (gross + abs_i64 (sp_quantity p) * mark, net + sp_quantity p * mark, unrealised + (mark - sp_average_cost p) * sp_quantity p))
    (pm_positions m) (0, 0, 0) =
   (gross_exposure_ticks m, psum (\<lambda>p. sp_quantity p * mark_of p) (pm_positions m), unrealised_pnl_ticks m)"
  unfolding Let_def fold_psum3 by (simp add: gross_exposure_ticks_def unrealised_pnl_ticks_def fold_psum)

lemma net_psum: "net_exposure_ticks m = \<bar>psum (\<lambda>p. sp_quantity p * mark_of p) (pm_positions m)\<bar>"
  unfolding net_exposure_ticks_def fold_psum by simp

lemma evaluate_state_accepts: "pr_accepted (evaluate_state m) \<longleftrightarrow> within_portfolio_limits m"
proof -
  obtain s w where w: "worst_concentration (gross_exposure_ticks m) (pm_positions m) = (s, w)"
    by (cases "worst_concentration (gross_exposure_ticks m) (pm_positions m)")
  have conc: "w \<le> po_max_symbol_concentration_bps (pm_limits m) \<longleftrightarrow>
      (\<forall>(sy, p) \<in> set (pm_positions m). concentration_bps (gross_exposure_ticks m) p \<le> po_max_symbol_concentration_bps (pm_limits m))"
    if "0 < po_max_symbol_concentration_bps (pm_limits m)"
    using worst_concentration_iff [of "po_max_symbol_concentration_bps (pm_limits m)" "gross_exposure_ticks m" "pm_positions m"] that w
    by simp
  have e: "evaluate_state m = pm_evaluate (pm_limits m) (pm_positions m) (pm_realised_pnl m)" by (simp add: evaluate_state_def)
  show ?thesis unfolding e pm_evaluate_def evaluate_sums within_portfolio_limits_def net_psum total_pnl_ticks_def
    using conc by (auto simp: Let_def w not_le not_less split: if_splits)
qed

lemma evaluate_state_limit:
  "\<not> pr_accepted (evaluate_state m) \<Longrightarrow> 0 < pr_limit_value (evaluate_state m) \<and>
     pr_limit_value (evaluate_state m) \<le> pr_observed_value (evaluate_state m)"
  unfolding evaluate_state_def pm_evaluate_def by (auto simp: Let_def split: if_splits prod.splits)

text \<open>C31: a check accepts an order exactly when the state that its fill would leave is within every enabled limit, as
  that state's own accessors report it; a rejection names a limit and an observed value at or above it; and the
  check itself changes nothing but the audit trail.\<close>

theorem portfolio_check_foretells_fill:
  "let (result, m') = pm_check_order sy sd q price now m; after = pm_apply_fill sy sd q price m in
     (pr_accepted result \<longleftrightarrow> within_portfolio_limits after) \<and>
     (\<not> pr_accepted result \<longrightarrow> 0 < pr_limit_value result \<and> pr_limit_value result \<le> pr_observed_value result) \<and>
     m' = m\<lparr>pm_audit := pm_audit m'\<rparr>"
proof -
  have "evaluate_order sy sd q price m = evaluate_state (pm_apply_fill sy sd q price m)"
    by (simp add: evaluate_order_def evaluate_state_def pm_apply_fill_def case_prod_unfold Let_def)
  then show ?thesis using evaluate_state_accepts evaluate_state_limit [of "pm_apply_fill sy sd q price m"]
    by (simp add: pm_check_order_def Let_def)
qed

definition demo_portfolio :: portfolio_monitor where
  "demo_portfolio = pm_apply_fill 7 Buy 10 9 (pm_new (no_portfolio_limits\<lparr>po_max_gross_exposure_ticks := 150\<rparr>))"

lemma demo_portfolio_rejects: "\<not> pr_accepted (fst (pm_check_order 1 Sell 30 5 0 demo_portfolio))"
  by code_simp

lemma portfolio_check_foretells_fill_witness:
  "pr_limit_value (fst (pm_check_order 1 Sell 30 5 0 demo_portfolio)) \<le> pr_observed_value (fst (pm_check_order 1 Sell 30 5 0 demo_portfolio)) \<and>
   \<not> within_portfolio_limits (pm_apply_fill 1 Sell 30 5 demo_portfolio)"
  using portfolio_check_foretells_fill [of 1 Sell 30 5 0 demo_portfolio] demo_portfolio_rejects by (simp add: Let_def case_prod_unfold)

end
