(* ===== verification/Broker_Session.thy ===== *)
theory Broker_Session
  imports Risk_Gateway
begin

text \<open>
  \<^verbatim>\<open>session/broker_session.hpp\<close> and \<^verbatim>\<open>session/broker_session.cpp\<close>: the lifecycle of a
  simulated broker session and of its orders, with the event log and its checksum. An attached gateway is part of
  the state; the session is the only one to touch it here, so its calls are made where the code makes them.
\<close>

section \<open>Events and state\<close>

datatype session_connection_state = Sc_Disconnected | Sc_Connected

datatype broker_order_state = Bo_Accepted | Bo_PendingCancel | Bo_Canceled | Bo_Filled

datatype broker_event_type =
    Be_Connect | Be_Disconnect | Be_Reconnect | Be_OrderAccepted | Be_CancelRequested | Be_CancelAcknowledged
  | Be_CancelRejected | Be_OrderFilled

fun connection_to_string :: "session_connection_state \<Rightarrow> string" where
  "connection_to_string Sc_Disconnected = ''disconnected''"
| "connection_to_string Sc_Connected = ''connected''"

fun broker_order_state_to_string :: "broker_order_state \<Rightarrow> string" where
  "broker_order_state_to_string Bo_Accepted = ''accepted''"
| "broker_order_state_to_string Bo_PendingCancel = ''pending_cancel''"
| "broker_order_state_to_string Bo_Canceled = ''canceled''"
| "broker_order_state_to_string Bo_Filled = ''filled''"

fun broker_event_type_to_string :: "broker_event_type \<Rightarrow> string" where
  "broker_event_type_to_string Be_Connect = ''connect''"
| "broker_event_type_to_string Be_Disconnect = ''disconnect''"
| "broker_event_type_to_string Be_Reconnect = ''reconnect''"
| "broker_event_type_to_string Be_OrderAccepted = ''order_accepted''"
| "broker_event_type_to_string Be_CancelRequested = ''cancel_requested''"
| "broker_event_type_to_string Be_CancelAcknowledged = ''cancel_acknowledged''"
| "broker_event_type_to_string Be_CancelRejected = ''cancel_rejected''"
| "broker_event_type_to_string Be_OrderFilled = ''order_filled''"

fun broker_event_wire :: "broker_event_type \<Rightarrow> u8" where
  "broker_event_wire Be_Connect = 1"
| "broker_event_wire Be_Disconnect = 2"
| "broker_event_wire Be_Reconnect = 3"
| "broker_event_wire Be_OrderAccepted = 4"
| "broker_event_wire Be_CancelRequested = 5"
| "broker_event_wire Be_CancelAcknowledged = 6"
| "broker_event_wire Be_CancelRejected = 7"
| "broker_event_wire Be_OrderFilled = 8"

record broker_session_event =
  be_timestamp_ns :: timestamp_ns
  be_type :: broker_event_type
  be_exchange_order_id :: order_id
  be_client_order_id :: client_order_id
  be_symbol_id :: symbol_id
  be_side :: side
  be_quantity :: quantity

definition session_event_checksum :: "u64 \<Rightarrow> broker_session_event \<Rightarrow> u64" where
  "session_event_checksum seed e =
     (let seed = checksum_append_i64 seed (be_timestamp_ns e);
          seed = checksum_append_u8 seed (broker_event_wire (be_type e));
          seed = checksum_append_u64 seed (be_exchange_order_id e);
          seed = checksum_append_u64 seed (be_client_order_id e);
          seed = checksum_append_u32 seed (be_symbol_id e);
          seed = checksum_append_side seed (be_side e)
      in checksum_append_i64 seed (be_quantity e))"

definition checksum_broker_session_events :: "broker_session_event list \<Rightarrow> u64" where
  "checksum_broker_session_events events = foldl session_event_checksum kFnvOffsetBasis events"

record order_record =
  or_client_order_id :: client_order_id
  or_symbol_id :: symbol_id
  or_side :: side
  or_quantity :: quantity
  or_state :: broker_order_state

record broker_session =
  bk_gateway :: "risk_gateway option"
  bk_cancel_on_disconnect :: bool
  bk_state :: session_connection_state
  bk_connect_count :: nat
  bk_disconnect_count :: nat
  bk_reconnect_count :: nat
  bk_filled_order_count :: nat
  bk_canceled_order_count :: nat
  bk_cancel_reject_count :: nat
  bk_orders :: "(order_id \<times> order_record) list"
  bk_events :: "broker_session_event list"
  bk_event_checksum :: u64

definition bk_new :: "bool \<Rightarrow> broker_session" where
  "bk_new cancel_on_disconnect = \<lparr>bk_gateway = None, bk_cancel_on_disconnect = cancel_on_disconnect, bk_state = Sc_Disconnected,
     bk_connect_count = 0, bk_disconnect_count = 0, bk_reconnect_count = 0, bk_filled_order_count = 0,
     bk_canceled_order_count = 0, bk_cancel_reject_count = 0, bk_orders = [], bk_events = [], bk_event_checksum = kFnvOffsetBasis\<rparr>"

definition attach_risk_gateway :: "risk_gateway option \<Rightarrow> broker_session \<Rightarrow> broker_session" where
  "attach_risk_gateway g s = s\<lparr>bk_gateway := g\<rparr>"

definition set_cancel_on_disconnect :: "bool \<Rightarrow> broker_session \<Rightarrow> broker_session" where
  "set_cancel_on_disconnect enabled s = s\<lparr>bk_cancel_on_disconnect := enabled\<rparr>"

definition record_event :: "broker_session_event \<Rightarrow> broker_session \<Rightarrow> broker_session" where
  "record_event e s = s\<lparr>bk_event_checksum := session_event_checksum (bk_event_checksum s) e, bk_events := bk_events s @ [e]\<rparr>"

definition session_event :: "timestamp_ns \<Rightarrow> broker_event_type \<Rightarrow> broker_session_event" where
  "session_event ts ty = \<lparr>be_timestamp_ns = ts, be_type = ty, be_exchange_order_id = kInvalidOrderId,
     be_client_order_id = kInvalidClientOrderId, be_symbol_id = kInvalidSymbolId, be_side = NoSide, be_quantity = 0\<rparr>"

definition broker_order_event :: "timestamp_ns \<Rightarrow> broker_event_type \<Rightarrow> order_id \<Rightarrow> order_record \<Rightarrow> broker_session_event" where
  "broker_order_event ts ty i r = \<lparr>be_timestamp_ns = ts, be_type = ty, be_exchange_order_id = i,
     be_client_order_id = or_client_order_id r, be_symbol_id = or_symbol_id r, be_side = or_side r, be_quantity = or_quantity r\<rparr>"

definition is_live :: "order_record \<Rightarrow> bool" where
  "is_live r \<longleftrightarrow> or_state r = Bo_Accepted \<or> or_state r = Bo_PendingCancel"

definition set_order_state :: "order_id \<Rightarrow> broker_order_state \<Rightarrow> broker_session \<Rightarrow> broker_session" where
  "set_order_state i st s = s\<lparr>bk_orders := om_modify i (\<lambda>r. r\<lparr>or_state := st\<rparr>) (bk_orders s)\<rparr>"

section \<open>The connection\<close>

definition bk_connect :: "timestamp_ns \<Rightarrow> broker_session \<Rightarrow> broker_session" where
  "bk_connect ts s = (if bk_state s = Sc_Connected then s
     else record_event (session_event ts Be_Connect) (s\<lparr>bk_state := Sc_Connected, bk_connect_count := bk_connect_count s + 1\<rparr>))"

text \<open>The loop over the ids of the live orders, sorted.\<close>

definition live_ids :: "broker_session \<Rightarrow> order_id list" where
  "live_ids s = sort (map fst (filter (\<lambda>(i, r). is_live r) (bk_orders s)))"

definition request_live_cancel :: "timestamp_ns \<Rightarrow> order_id \<Rightarrow> broker_session \<Rightarrow> broker_session" where
  "request_live_cancel ts i s =
     (let r = the (map_of (bk_orders s) i) in
      if or_state r = Bo_PendingCancel then s
      else record_event (broker_order_event ts Be_CancelRequested i r) (set_order_state i Bo_PendingCancel s))"

definition bk_disconnect :: "timestamp_ns \<Rightarrow> broker_session \<Rightarrow> broker_session" where
  "bk_disconnect ts s = (if bk_state s = Sc_Disconnected then s
     else let s = record_event (session_event ts Be_Disconnect)
                    (s\<lparr>bk_state := Sc_Disconnected, bk_disconnect_count := bk_disconnect_count s + 1\<rparr>);
              s = (if bk_cancel_on_disconnect s then fold (request_live_cancel ts) (live_ids s) s else s)
          in s\<lparr>bk_gateway := map_option (on_disconnect ts) (bk_gateway s)\<rparr>)"

definition bk_reconnect :: "timestamp_ns \<Rightarrow> broker_session \<Rightarrow> broker_session" where
  "bk_reconnect ts s = (if bk_state s = Sc_Connected then s
     else let s = record_event (session_event ts Be_Reconnect)
                    (s\<lparr>bk_state := Sc_Connected, bk_reconnect_count := bk_reconnect_count s + 1\<rparr>)
          in s\<lparr>bk_gateway := map_option on_reconnect (bk_gateway s)\<rparr>)"

section \<open>The orders\<close>

definition on_order_accepted :: "order_id \<Rightarrow> client_order_id \<Rightarrow> symbol_id \<Rightarrow> side \<Rightarrow> quantity \<Rightarrow> timestamp_ns \<Rightarrow> broker_session
    \<Rightarrow> bool \<times> broker_session" where
  "on_order_accepted i cid sy sd q ts s =
     (if bk_state s \<noteq> Sc_Connected \<or> i = kInvalidOrderId then (False, s)
      else if map_of (bk_orders s) i \<noteq> None then (False, s)
      else let r = \<lparr>or_client_order_id = cid, or_symbol_id = sy, or_side = sd, or_quantity = q, or_state = Bo_Accepted\<rparr>
           in (True, record_event (broker_order_event ts Be_OrderAccepted i r) (s\<lparr>bk_orders := AList.update i r (bk_orders s)\<rparr>)))"

definition request_cancel :: "order_id \<Rightarrow> timestamp_ns \<Rightarrow> broker_session \<Rightarrow> bool \<times> broker_session" where
  "request_cancel i ts s = (case map_of (bk_orders s) i of None \<Rightarrow> (False, s)
     | Some r \<Rightarrow> if or_state r \<noteq> Bo_Accepted then (False, s)
         else (True, record_event (broker_order_event ts Be_CancelRequested i r) (set_order_state i Bo_PendingCancel s)))"

definition acknowledge_cancel :: "order_id \<Rightarrow> timestamp_ns \<Rightarrow> broker_session \<Rightarrow> bool \<times> broker_session" where
  "acknowledge_cancel i ts s = (case map_of (bk_orders s) i of None \<Rightarrow> (False, s)
     | Some r \<Rightarrow> if or_state r \<noteq> Bo_PendingCancel then (False, s)
         else let s = (set_order_state i Bo_Canceled s)\<lparr>bk_canceled_order_count := bk_canceled_order_count s + 1\<rparr>
              in (True, record_event (broker_order_event ts Be_CancelAcknowledged i r) s))"

definition reject_cancel :: "order_id \<Rightarrow> timestamp_ns \<Rightarrow> broker_session \<Rightarrow> bool \<times> broker_session" where
  "reject_cancel i ts s = (case map_of (bk_orders s) i of None \<Rightarrow> (False, s)
     | Some r \<Rightarrow> if or_state r \<noteq> Bo_PendingCancel then (False, s)
         else let s = (set_order_state i Bo_Accepted s)\<lparr>bk_cancel_reject_count := bk_cancel_reject_count s + 1\<rparr>
              in (True, record_event (broker_order_event ts Be_CancelRejected i r) s))"

definition on_order_filled :: "order_id \<Rightarrow> timestamp_ns \<Rightarrow> broker_session \<Rightarrow> bool \<times> broker_session" where
  "on_order_filled i ts s = (case map_of (bk_orders s) i of None \<Rightarrow> (False, s)
     | Some r \<Rightarrow> if or_state r \<noteq> Bo_Accepted \<and> or_state r \<noteq> Bo_PendingCancel then (False, s)
         else let s = (set_order_state i Bo_Filled s)\<lparr>bk_filled_order_count := bk_filled_order_count s + 1\<rparr>
              in (True, record_event (broker_order_event ts Be_OrderFilled i r) s))"

section \<open>Accessors\<close>

definition pending_cancel_count :: "broker_session \<Rightarrow> nat" where
  "pending_cancel_count s = length (filter (\<lambda>(i, r). or_state r = Bo_PendingCancel) (bk_orders s))"

definition live_order_count :: "broker_session \<Rightarrow> nat" where
  "live_order_count s = length (filter (\<lambda>(i, r). is_live r) (bk_orders s))"

definition has_order :: "order_id \<Rightarrow> broker_session \<Rightarrow> bool" where
  "has_order i s \<longleftrightarrow> map_of (bk_orders s) i \<noteq> None"

definition order_state_of :: "order_id \<Rightarrow> broker_session \<Rightarrow> broker_order_state" where
  "order_state_of i s = (case map_of (bk_orders s) i of None \<Rightarrow> Bo_Canceled | Some r \<Rightarrow> or_state r)"

record broker_session_snapshot =
  bn_connection_state :: session_connection_state
  bn_connect_count :: nat
  bn_disconnect_count :: nat
  bn_reconnect_count :: nat
  bn_live_order_count :: nat
  bn_pending_cancel_count :: nat
  bn_filled_order_count :: nat
  bn_canceled_order_count :: nat
  bn_cancel_reject_count :: nat
  bn_event_count :: nat
  bn_event_checksum :: u64

definition session_snapshot :: "broker_session \<Rightarrow> broker_session_snapshot" where
  "session_snapshot s = \<lparr>bn_connection_state = bk_state s, bn_connect_count = bk_connect_count s,
     bn_disconnect_count = bk_disconnect_count s, bn_reconnect_count = bk_reconnect_count s,
     bn_live_order_count = live_order_count s, bn_pending_cancel_count = pending_cancel_count s,
     bn_filled_order_count = bk_filled_order_count s, bn_canceled_order_count = bk_canceled_order_count s,
     bn_cancel_reject_count = bk_cancel_reject_count s, bn_event_count = length (bk_events s), bn_event_checksum = bk_event_checksum s\<rparr>"

end
