(* ===== verification/Broker_Session_Correct.thy ===== *)
theory Broker_Session_Correct
  imports Broker_Session
begin

text \<open>
  The broker session against an abstract lifecycle: a partial function on event logs that knows which transitions
  are legal. Every run of the session leaves a legal log, and the lifecycle of that log is the session's state.
\<close>

section \<open>The abstract lifecycle\<close>

record lifecycle =
  lc_connected :: bool
  lc_connects :: nat
  lc_disconnects :: nat
  lc_reconnects :: nat
  lc_rejected_cancels :: nat
  lc_orders :: "order_id \<Rightarrow> order_record option"

definition lifecycle_new :: lifecycle where
  "lifecycle_new = \<lparr>lc_connected = False, lc_connects = 0, lc_disconnects = 0, lc_reconnects = 0, lc_rejected_cancels = 0,
     lc_orders = Map.empty\<rparr>"

fun next_order_state :: "broker_event_type \<Rightarrow> broker_order_state \<Rightarrow> broker_order_state option" where
  "next_order_state Be_CancelRequested Bo_Accepted = Some Bo_PendingCancel"
| "next_order_state Be_CancelAcknowledged Bo_PendingCancel = Some Bo_Canceled"
| "next_order_state Be_CancelRejected Bo_PendingCancel = Some Bo_Accepted"
| "next_order_state Be_OrderFilled Bo_Accepted = Some Bo_Filled"
| "next_order_state Be_OrderFilled Bo_PendingCancel = Some Bo_Filled"
| "next_order_state _ _ = None"

definition record_of_event :: "broker_session_event \<Rightarrow> broker_order_state \<Rightarrow> order_record" where
  "record_of_event e st = \<lparr>or_client_order_id = be_client_order_id e, or_symbol_id = be_symbol_id e, or_side = be_side e,
     or_quantity = be_quantity e, or_state = st\<rparr>"

definition lifecycle_order_step :: "broker_session_event \<Rightarrow> lifecycle \<Rightarrow> lifecycle option" where
  "lifecycle_order_step e l = (case lc_orders l (be_exchange_order_id e) of
       None \<Rightarrow> None
     | Some r \<Rightarrow> if r \<noteq> record_of_event e (or_state r) then None
         else map_option (\<lambda>st. l\<lparr>lc_orders := (lc_orders l)(be_exchange_order_id e \<mapsto> record_of_event e st),
             lc_rejected_cancels := lc_rejected_cancels l + (if be_type e = Be_CancelRejected then 1 else 0)\<rparr>)
           (next_order_state (be_type e) (or_state r)))"

definition lifecycle_step :: "broker_session_event \<Rightarrow> lifecycle \<Rightarrow> lifecycle option" where
  "lifecycle_step e l = (case be_type e of
       Be_Connect \<Rightarrow> if lc_connected l then None else Some (l\<lparr>lc_connected := True, lc_connects := lc_connects l + 1\<rparr>)
     | Be_Reconnect \<Rightarrow> if lc_connected l then None else Some (l\<lparr>lc_connected := True, lc_reconnects := lc_reconnects l + 1\<rparr>)
     | Be_Disconnect \<Rightarrow> if lc_connected l then Some (l\<lparr>lc_connected := False, lc_disconnects := lc_disconnects l + 1\<rparr>) else None
     | Be_OrderAccepted \<Rightarrow>
         if lc_connected l \<and> be_exchange_order_id e \<noteq> kInvalidOrderId \<and> lc_orders l (be_exchange_order_id e) = None
         then Some (l\<lparr>lc_orders := (lc_orders l)(be_exchange_order_id e \<mapsto> record_of_event e Bo_Accepted)\<rparr>) else None
     | _ \<Rightarrow> lifecycle_order_step e l)"

fun lifecycle_run :: "broker_session_event list \<Rightarrow> lifecycle \<Rightarrow> lifecycle option" where
  "lifecycle_run [] l = Some l"
| "lifecycle_run (e # es) l = Option.bind (lifecycle_step e l) (lifecycle_run es)"

lemma lifecycle_run_snoc: "lifecycle_run (es @ [e]) l = Option.bind (lifecycle_run es l) (lifecycle_step e)"
  by (induction es arbitrary: l) (auto split: bind_splits)

definition lifecycle_of :: "broker_session \<Rightarrow> lifecycle" where
  "lifecycle_of s = \<lparr>lc_connected = (bk_state s = Sc_Connected), lc_connects = bk_connect_count s, lc_disconnects = bk_disconnect_count s,
     lc_reconnects = bk_reconnect_count s, lc_rejected_cancels = bk_cancel_reject_count s, lc_orders = map_of (bk_orders s)\<rparr>"

section \<open>The invariant\<close>

definition state_count :: "broker_order_state \<Rightarrow> broker_session \<Rightarrow> nat" where
  "state_count st s = length (filter (\<lambda>(i, r). or_state r = st) (bk_orders s))"

definition logged :: "broker_session \<Rightarrow> bool" where
  "logged s \<longleftrightarrow> lifecycle_run (bk_events s) lifecycle_new = Some (lifecycle_of s) \<and>
     bk_event_checksum s = checksum_broker_session_events (bk_events s)"

definition tallied :: "broker_session \<Rightarrow> bool" where
  "tallied s \<longleftrightarrow> distinct (map fst (bk_orders s)) \<and> bk_filled_order_count s = state_count Bo_Filled s \<and>
     bk_canceled_order_count s = state_count Bo_Canceled s \<and>
     bk_connect_count s + bk_reconnect_count s = bk_disconnect_count s + (if bk_state s = Sc_Connected then 1 else 0)"

lemma session_begin: "logged (bk_new c)" "tallied (bk_new c)"
  by (simp_all add: logged_def tallied_def bk_new_def lifecycle_of_def lifecycle_new_def checksum_broker_session_events_def state_count_def)

lemma logged_step:
  assumes "logged s" and "lifecycle_step e (lifecycle_of s) = Some (lifecycle_of t)"
    and "bk_events t = bk_events s" and "bk_event_checksum t = bk_event_checksum s"
  shows "logged (record_event e t)"
proof -
  have "lifecycle_of (record_event e t) = lifecycle_of t" by (simp add: lifecycle_of_def record_event_def)
  then show ?thesis using assms
    by (simp add: logged_def lifecycle_run_snoc checksum_broker_session_events_def) (simp add: record_event_def lifecycle_run_snoc)
qed

lemma tallied_record [simp]: "tallied (record_event e s) = tallied s"
  by (simp add: tallied_def record_event_def state_count_def)

lemma tallied_gateway [simp]: "tallied (s\<lparr>bk_gateway := g\<rparr>) = tallied s" "logged (s\<lparr>bk_gateway := g\<rparr>) = logged s"
  by (simp_all add: tallied_def logged_def state_count_def lifecycle_of_def)

lemma state_count_set:
  assumes "map_of (bk_orders s) i = Some r"
  shows "state_count st (set_order_state i new s) + (if or_state r = st then 1 else 0) = state_count st s + (if new = st then 1 else 0)"
proof -
  obtain xs ys where "bk_orders s = xs @ (i, r) # ys" "om_modify i (\<lambda>r. r\<lparr>or_state := new\<rparr>) (bk_orders s) = xs @ (i, r\<lparr>or_state := new\<rparr>) # ys"
    using om_modify_split [OF assms] by blast
  then show ?thesis by (simp add: state_count_def set_order_state_def)
qed

text \<open>One transition of one order, with the counter that goes with it.\<close>

definition bump :: "broker_event_type \<Rightarrow> broker_session \<Rightarrow> broker_session" where
  "bump ty s = s\<lparr>bk_filled_order_count := bk_filled_order_count s + (if ty = Be_OrderFilled then 1 else 0),
     bk_canceled_order_count := bk_canceled_order_count s + (if ty = Be_CancelAcknowledged then 1 else 0),
     bk_cancel_reject_count := bk_cancel_reject_count s + (if ty = Be_CancelRejected then 1 else 0)\<rparr>"

lemma next_order_state_table:
  "next_order_state ty st = Some new \<longleftrightarrow>
     (ty = Be_CancelRequested \<and> st = Bo_Accepted \<and> new = Bo_PendingCancel) \<or>
     (ty = Be_CancelAcknowledged \<and> st = Bo_PendingCancel \<and> new = Bo_Canceled) \<or>
     (ty = Be_CancelRejected \<and> st = Bo_PendingCancel \<and> new = Bo_Accepted) \<or>
     (ty = Be_OrderFilled \<and> (st = Bo_Accepted \<or> st = Bo_PendingCancel) \<and> new = Bo_Filled)"
  by (cases ty; cases st) auto

lemma record_of_order_event: "record_of_event (broker_order_event ts ty i r) st = r\<lparr>or_state := st\<rparr>"
  by (simp add: record_of_event_def broker_order_event_def)

lemma event_fields: "be_type (broker_order_event ts ty i r) = ty" "be_exchange_order_id (broker_order_event ts ty i r) = i"
  by (simp_all add: broker_order_event_def)

lemma order_transition:
  assumes "logged s" "tallied s" and r: "map_of (bk_orders s) i = Some r" and st: "next_order_state ty (or_state r) = Some new"
    and t: "t = record_event (broker_order_event ts ty i r) (bump ty (set_order_state i new s))"
  shows "logged t \<and> tallied t"
proof
  have m: "map_of (bk_orders (bump ty (set_order_state i new s))) = (map_of (bk_orders s))(i \<mapsto> r\<lparr>or_state := new\<rparr>)"
    by (simp add: bump_def set_order_state_def map_of_om_modify r)
  have "ty \<notin> {Be_Connect, Be_Disconnect, Be_Reconnect, Be_OrderAccepted}" using st by (auto simp: next_order_state_table)
  then have "lifecycle_step (broker_order_event ts ty i r) (lifecycle_of s) = lifecycle_order_step (broker_order_event ts ty i r) (lifecycle_of s)"
    by (cases ty) (simp_all add: lifecycle_step_def broker_order_event_def)
  also have "\<dots> = Some ((lifecycle_of s)\<lparr>lc_orders := (map_of (bk_orders s))(i \<mapsto> r\<lparr>or_state := new\<rparr>),
      lc_rejected_cancels := bk_cancel_reject_count s + (if ty = Be_CancelRejected then 1 else 0)\<rparr>)"
    unfolding lifecycle_order_step_def event_fields record_of_order_event by (simp add: lifecycle_of_def r st)
  also have "\<dots> = Some (lifecycle_of (bump ty (set_order_state i new s)))"
    by (simp add: lifecycle_of_def m) (simp add: bump_def set_order_state_def)
  finally have "lifecycle_step (broker_order_event ts ty i r) (lifecycle_of s) = Some (lifecycle_of (bump ty (set_order_state i new s)))" .
  then show "logged t" unfolding t by (rule logged_step [OF assms(1)]) (simp_all add: bump_def set_order_state_def)
  have c: "state_count x (bump ty (set_order_state i new s)) = state_count x (set_order_state i new s)" for x
    by (simp add: state_count_def bump_def)
  show "tallied t" unfolding t tallied_record unfolding tallied_def c
    using assms(2) state_count_set [OF r, of Bo_Filled new] state_count_set [OF r, of Bo_Canceled new] st
    by (auto simp: tallied_def next_order_state_table) (simp_all add: bump_def set_order_state_def)
qed

section \<open>Runs\<close>

datatype session_op =
    Ss_Connect timestamp_ns
  | Ss_Disconnect timestamp_ns
  | Ss_Reconnect timestamp_ns
  | Ss_Accepted order_id client_order_id symbol_id side quantity timestamp_ns
  | Ss_Request order_id timestamp_ns
  | Ss_Acknowledge order_id timestamp_ns
  | Ss_Reject order_id timestamp_ns
  | Ss_Filled order_id timestamp_ns
  | Ss_Attach "risk_gateway option"
  | Ss_Policy bool

fun session_step :: "session_op \<Rightarrow> broker_session \<Rightarrow> broker_session" where
  "session_step (Ss_Connect ts) s = bk_connect ts s"
| "session_step (Ss_Disconnect ts) s = bk_disconnect ts s"
| "session_step (Ss_Reconnect ts) s = bk_reconnect ts s"
| "session_step (Ss_Accepted i cid sy sd q ts) s = snd (on_order_accepted i cid sy sd q ts s)"
| "session_step (Ss_Request i ts) s = snd (request_cancel i ts s)"
| "session_step (Ss_Acknowledge i ts) s = snd (acknowledge_cancel i ts s)"
| "session_step (Ss_Reject i ts) s = snd (reject_cancel i ts s)"
| "session_step (Ss_Filled i ts) s = snd (on_order_filled i ts s)"
| "session_step (Ss_Attach g) s = attach_risk_gateway g s"
| "session_step (Ss_Policy enabled) s = set_cancel_on_disconnect enabled s"

definition session_ok :: "broker_session \<Rightarrow> bool" where
  "session_ok s \<longleftrightarrow> logged s \<and> tallied s"

lemma transition_ok:
  assumes "session_ok s" and "map_of (bk_orders s) i = Some r" and "next_order_state ty (or_state r) = Some new"
  shows "session_ok (record_event (broker_order_event ts ty i r) (bump ty (set_order_state i new s)))"
  using order_transition [OF _ _ assms(2,3) refl] assms(1) by (simp add: session_ok_def)

lemma connection_event:
  assumes "session_ok s" and "lifecycle_step (session_event ts ty) (lifecycle_of s) = Some (lifecycle_of t)" and "tallied t"
    and "bk_events t = bk_events s" "bk_event_checksum t = bk_event_checksum s"
  shows "session_ok (record_event (session_event ts ty) t)"
  using assms logged_step [of s "session_event ts ty" t] by (simp add: session_ok_def)

lemma connect_ok: "session_ok s \<Longrightarrow> session_ok (bk_connect ts s)"
proof (cases "bk_state s = Sc_Connected")
  case False
  assume ok: "session_ok s"
  have "session_ok (record_event (session_event ts Be_Connect) (s\<lparr>bk_state := Sc_Connected, bk_connect_count := bk_connect_count s + 1\<rparr>))"
    by (rule connection_event [OF ok]) (use ok False in \<open>simp_all add: session_ok_def lifecycle_step_def lifecycle_of_def session_event_def tallied_def state_count_def\<close>)
  then show ?thesis using False by (simp add: bk_connect_def)
qed (simp add: bk_connect_def)

lemma reconnect_ok: "session_ok s \<Longrightarrow> session_ok (bk_reconnect ts s)"
proof (cases "bk_state s = Sc_Connected")
  case False
  assume ok: "session_ok s"
  have "session_ok (record_event (session_event ts Be_Reconnect) (s\<lparr>bk_state := Sc_Connected, bk_reconnect_count := bk_reconnect_count s + 1\<rparr>))"
    by (rule connection_event [OF ok]) (use ok False in \<open>simp_all add: session_ok_def lifecycle_step_def lifecycle_of_def session_event_def tallied_def state_count_def\<close>)
  then show ?thesis using False by (simp add: bk_reconnect_def Let_def session_ok_def)
qed (simp add: bk_reconnect_def)

text \<open>The cancel requests of a disconnect: each finds its order live.\<close>

lemma bump_request [simp]: "bump Be_CancelRequested s = s"
  by (simp add: bump_def)

definition live_in :: "broker_session \<Rightarrow> order_id \<Rightarrow> bool" where
  "live_in s i \<longleftrightarrow> (\<exists>r. map_of (bk_orders s) i = Some r \<and> is_live r)"

lemma request_live_ok:
  assumes "session_ok s" and "live_in s i"
  shows "session_ok (request_live_cancel ts i s)" and "live_in s j \<Longrightarrow> live_in (request_live_cancel ts i s) j"
    and "order_state_of i (request_live_cancel ts i s) = Bo_PendingCancel"
    and "order_state_of j s = Bo_PendingCancel \<Longrightarrow> order_state_of j (request_live_cancel ts i s) = Bo_PendingCancel"
proof -
  obtain r where r: "map_of (bk_orders s) i = Some r" "is_live r" using assms(2) by (auto simp: live_in_def)
  have c: "request_live_cancel ts i s = (if or_state r = Bo_PendingCancel then s
      else record_event (broker_order_event ts Be_CancelRequested i r) (set_order_state i Bo_PendingCancel s))"
    by (simp add: request_live_cancel_def r(1))
  have m: "map_of (bk_orders (record_event e (set_order_state i Bo_PendingCancel s))) = (map_of (bk_orders s))(i \<mapsto> r\<lparr>or_state := Bo_PendingCancel\<rparr>)" for e
    by (simp add: record_event_def set_order_state_def map_of_om_modify r(1))
  show "session_ok (request_live_cancel ts i s)"
    using transition_ok [OF assms(1) r(1), of Be_CancelRequested Bo_PendingCancel ts] assms(1) r(2)
    by (auto simp: c is_live_def)
  show "live_in s j \<Longrightarrow> live_in (request_live_cancel ts i s) j" by (auto simp: c live_in_def m is_live_def)
  show "order_state_of i (request_live_cancel ts i s) = Bo_PendingCancel"
    by (simp add: c order_state_of_def m r(1))
  show "order_state_of j s = Bo_PendingCancel \<Longrightarrow> order_state_of j (request_live_cancel ts i s) = Bo_PendingCancel"
    by (simp add: c order_state_of_def m)
qed

lemma request_all_ok:
  assumes "session_ok s" and "\<forall>i \<in> set is. live_in s i"
  shows "session_ok (fold (request_live_cancel ts) is s) \<and>
    (\<forall>i. i \<in> set is \<or> order_state_of i s = Bo_PendingCancel \<longrightarrow> order_state_of i (fold (request_live_cancel ts) is s) = Bo_PendingCancel)"
  using assms
proof (induction "is" arbitrary: s)
  case (Cons i "is")
  have i: "live_in s i" using Cons.prems(2) by simp
  note q = request_live_ok [OF Cons.prems(1) i, where ts = ts]
  have "\<forall>j \<in> set is. live_in (request_live_cancel ts i s) j" using Cons.prems(2) q(2) by simp
  from Cons.IH [OF q(1) this] show ?case using q(3,4) by auto
qed simp

lemma live_ids_live: "tallied s \<Longrightarrow> i \<in> set (live_ids s) \<longleftrightarrow> live_in s i"
  by (force simp: live_ids_def live_in_def tallied_def)

lemma disconnect_ok:
  assumes "session_ok s"
  shows "session_ok (bk_disconnect ts s)"
    and "bk_state s = Sc_Connected \<Longrightarrow> bk_cancel_on_disconnect s \<Longrightarrow> live_in s i \<Longrightarrow> order_state_of i (bk_disconnect ts s) = Bo_PendingCancel"
proof -
  let ?d = "record_event (session_event ts Be_Disconnect) (s\<lparr>bk_state := Sc_Disconnected, bk_disconnect_count := bk_disconnect_count s + 1\<rparr>)"
  have d: "session_ok ?d" if "bk_state s = Sc_Connected"
    by (rule connection_event [OF assms])
      (use assms that in \<open>simp_all add: session_ok_def lifecycle_step_def lifecycle_of_def session_event_def tallied_def state_count_def\<close>)
  have orders: "bk_orders (record_event e x) = bk_orders x" "bk_cancel_on_disconnect (record_event e x) = bk_cancel_on_disconnect x" for e x
    by (simp_all add: record_event_def)
  have run: "session_ok (fold (request_live_cancel ts) (live_ids ?d) ?d) \<and>
      (\<forall>i. i \<in> set (live_ids ?d) \<or> order_state_of i ?d = Bo_PendingCancel \<longrightarrow>
        order_state_of i (fold (request_live_cancel ts) (live_ids ?d) ?d) = Bo_PendingCancel)" if "bk_state s = Sc_Connected"
    using request_all_ok [OF d [OF that]] live_ids_live d [OF that] by (simp add: session_ok_def)
  have form: "bk_disconnect ts s = (let t = if bk_cancel_on_disconnect s then fold (request_live_cancel ts) (live_ids ?d) ?d else ?d
      in t\<lparr>bk_gateway := map_option (on_disconnect ts) (bk_gateway t)\<rparr>)" if "bk_state s = Sc_Connected"
    using that by (simp add: bk_disconnect_def orders(2) Let_def)
  show "session_ok (bk_disconnect ts s)"
  proof (cases "bk_state s = Sc_Connected")
    case True
    then show ?thesis unfolding form [OF True] using run [OF True] d [OF True] by (simp add: Let_def session_ok_def)
  next
    case False
    then show ?thesis using assms by (cases "bk_state s") (simp_all add: bk_disconnect_def)
  qed
  show "order_state_of i (bk_disconnect ts s) = Bo_PendingCancel"
    if "bk_state s = Sc_Connected" "bk_cancel_on_disconnect s" "live_in s i"
  proof -
    have "i \<in> set (live_ids ?d)" using live_ids_live [of ?d] d [OF that(1)] that(3) by (simp add: session_ok_def live_in_def orders)
    then show ?thesis unfolding form [OF that(1)] using run [OF that(1)] that(2) by (simp add: Let_def order_state_of_def)
  qed
qed

lemma update_append_absent: "map_of m k = None \<Longrightarrow> AList.update k v m = m @ [(k, v)]"
  by (induction m) (auto split: if_splits)

lemma accepted_ok:
  assumes "session_ok s"
  shows "session_ok (snd (on_order_accepted i cid sy sd q ts s))"
proof (cases "bk_state s \<noteq> Sc_Connected \<or> i = kInvalidOrderId \<or> map_of (bk_orders s) i \<noteq> None")
  case True
  then show ?thesis using assms by (auto simp: on_order_accepted_def)
next
  case False
  then have new: "bk_state s = Sc_Connected" "i \<noteq> kInvalidOrderId" "map_of (bk_orders s) i = None" by auto
  let ?r = "\<lparr>or_client_order_id = cid, or_symbol_id = sy, or_side = sd, or_quantity = q, or_state = Bo_Accepted\<rparr>"
  let ?e = "broker_order_event ts Be_OrderAccepted i ?r" and ?t = "s\<lparr>bk_orders := AList.update i ?r (bk_orders s)\<rparr>"
  have ok: "logged s" "tallied s" using assms by (simp_all add: session_ok_def)
  have "lifecycle_step ?e (lifecycle_of s) = Some (lifecycle_of ?t)"
    using new by (simp add: lifecycle_step_def lifecycle_of_def broker_order_event_def record_of_event_def)
  then have "logged (record_event ?e ?t)" by (rule logged_step [OF ok(1)]) simp_all
  moreover have "AList.update i ?r (bk_orders s) = bk_orders s @ [(i, ?r)]" using new(3) by (simp add: update_append_absent)
  then have "state_count st ?t = state_count st s + (if st = Bo_Accepted then 1 else 0)" for st by (simp add: state_count_def)
  then have "tallied ?t" using ok(2) by (simp add: tallied_def)
  then have "tallied (record_event ?e ?t)" by simp
  ultimately show ?thesis using new by (simp add: on_order_accepted_def session_ok_def Let_def)
qed

lemma order_steps_ok:
  assumes "session_ok s"
  shows "session_ok (snd (request_cancel i ts s))" and "session_ok (snd (acknowledge_cancel i ts s))"
    and "session_ok (snd (reject_cancel i ts s))" and "session_ok (snd (on_order_filled i ts s))"
proof -
  have t: "session_ok (record_event (broker_order_event ts ty i r) (bump ty (set_order_state i new s)))"
    if "map_of (bk_orders s) i = Some r" "next_order_state ty (or_state r) = Some new" for ty r new
    by (rule transition_ok [OF assms that])
  have b: "bump Be_CancelAcknowledged x = x\<lparr>bk_canceled_order_count := bk_canceled_order_count x + 1\<rparr>"
    "bump Be_CancelRejected x = x\<lparr>bk_cancel_reject_count := bk_cancel_reject_count x + 1\<rparr>"
    "bump Be_OrderFilled x = x\<lparr>bk_filled_order_count := bk_filled_order_count x + 1\<rparr>" for x
    by (simp_all add: bump_def)
  have c: "bk_canceled_order_count (set_order_state i st s) = bk_canceled_order_count s"
    "bk_cancel_reject_count (set_order_state i st s) = bk_cancel_reject_count s"
    "bk_filled_order_count (set_order_state i st s) = bk_filled_order_count s" for st by (simp_all add: set_order_state_def)
  show "session_ok (snd (request_cancel i ts s))"
    using assms t [of _ Be_CancelRequested Bo_PendingCancel] by (auto simp: request_cancel_def split: option.split)
  show "session_ok (snd (acknowledge_cancel i ts s))"
    using assms t [of _ Be_CancelAcknowledged Bo_Canceled] by (auto simp: acknowledge_cancel_def Let_def b c split: option.split)
  show "session_ok (snd (reject_cancel i ts s))"
    using assms t [of _ Be_CancelRejected Bo_Accepted] by (auto simp: reject_cancel_def Let_def b c split: option.split)
  show "session_ok (snd (on_order_filled i ts s))"
    using assms t [of _ Be_OrderFilled Bo_Filled] by (auto simp: on_order_filled_def Let_def b c next_order_state_table split: option.split)
qed

lemma session_step_ok: "session_ok s \<Longrightarrow> session_ok (session_step x s)"
proof (cases x)
  case (Ss_Attach g)
  then show "session_ok s \<Longrightarrow> ?thesis" by (simp add: session_ok_def attach_risk_gateway_def)
next
  case (Ss_Policy enabled)
  then show "session_ok s \<Longrightarrow> ?thesis"
    by (simp add: session_ok_def set_cancel_on_disconnect_def logged_def tallied_def lifecycle_of_def state_count_def)
qed (simp_all add: connect_ok disconnect_ok(1) reconnect_ok accepted_ok order_steps_ok)

lemma session_run_ok: "session_ok (fold session_step ops (bk_new c))"
proof -
  have "session_ok s \<Longrightarrow> session_ok (fold session_step ops s)" for s by (induction ops arbitrary: s) (simp_all add: session_step_ok)
  then show ?thesis using session_begin by (simp add: session_ok_def)
qed

lemma card_map_of_dom: "distinct (map fst m) \<Longrightarrow> card (dom (map_of m)) = length m"
  by (metis distinct_card dom_map_of_conv_image_fst length_map list.set_map)

lemma filter_states: "length xs = length (filter (\<lambda>(i, r). is_live r) xs) + length (filter (\<lambda>(i, r). or_state r = Bo_Filled) xs) +
    length (filter (\<lambda>(i, r). or_state r = Bo_Canceled) xs)"
proof (induction xs)
  case (Cons x xs)
  obtain i r where "x = (i, r)" by (cases x)
  then show ?case using Cons by (cases "or_state r") (simp_all add: is_live_def)
qed simp

text \<open>C32: whatever is asked of a session, its event log is a legal lifecycle, in which every order goes through the states
  of the table only, and the session's connection, counters and orders are those the log leads to; the checksum is
  that of the log, and the snapshot's counts of live, filled and cancelled orders add up to the orders accepted.\<close>

theorem session_state_is_its_log:
  "let s = fold session_step ops (bk_new c); n = session_snapshot s in
     lifecycle_run (bk_events s) lifecycle_new = Some (lifecycle_of s) \<and>
     bn_event_checksum n = checksum_broker_session_events (bk_events s) \<and>
     bn_connect_count n + bn_reconnect_count n = bn_disconnect_count n + (if bn_connection_state n = Sc_Connected then 1 else 0) \<and>
     bn_live_order_count n + bn_filled_order_count n + bn_canceled_order_count n = card (dom (lc_orders (lifecycle_of s)))"
proof -
  let ?s = "fold session_step ops (bk_new c)"
  have ok: "logged ?s" "tallied ?s" using session_run_ok [of ops c] by (simp_all add: session_ok_def)
  have "card (dom (map_of (bk_orders ?s))) = length (bk_orders ?s)"
    using ok(2) by (metis card_map_of_dom tallied_def)
  also have "\<dots> = live_order_count ?s + bk_filled_order_count ?s + bk_canceled_order_count ?s"
    using filter_states [of "bk_orders ?s"] ok(2) by (simp add: tallied_def live_order_count_def state_count_def)
  finally show ?thesis using ok by (simp add: session_snapshot_def logged_def tallied_def lifecycle_of_def Let_def)
qed

end
