(* ===== verification/Hmac_Sha256.thy ===== *)
theory Hmac_Sha256
  imports Checksum
begin

text \<open>
  \<^verbatim>\<open>core/hmac_sha256.hpp\<close> and \<^verbatim>\<open>core/hmac_sha256.cpp\<close>: the incremental
  SHA-256 context, HMAC-SHA256 and the hexadecimal form of a digest. The two loops of the context whose end depends
  on the buffer length are partial functions; that they return is proved with their result.
\<close>

section \<open>The compression function\<close>

text \<open>The 64 round constants and the eight words of the initial state; the source writes them in hexadecimal.\<close>

definition kRoundConstants :: "u32 list" where
  "kRoundConstants = [
     1116352408, 1899447441, 3049323471, 3921009573, 961987163, 1508970993, 2453635748,
     2870763221, 3624381080, 310598401, 607225278, 1426881987, 1925078388, 2162078206,
     2614888103, 3248222580, 3835390401, 4022224774, 264347078, 604807628, 770255983,
     1249150122, 1555081692, 1996064986, 2554220882, 2821834349, 2952996808, 3210313671,
     3336571891, 3584528711, 113926993, 338241895, 666307205, 773529912, 1294757372,
     1396182291, 1695183700, 1986661051, 2177026350, 2456956037, 2730485921, 2820302411,
     3259730800, 3345764771, 3516065817, 3600352804, 4094571909, 275423344, 430227734,
     506948616, 659060556, 883997877, 958139571, 1322822218, 1537002063, 1747873779,
     1955562222, 2024104815, 2227730452, 2361852424, 2428436474, 2756734187, 3204031479,
     3329325298]"

definition kInitialState :: "u32 list" where
  "kInitialState = [1779033703, 3144134277, 1013904242, 2773480762, 1359893119, 2600822924, 528734635, 1541459225]"

definition rotr :: "u32 \<Rightarrow> nat \<Rightarrow> u32" where
  "rotr v bits = drop_bit bits v OR push_bit (32 - bits) v"

text \<open>The array of 64 message words: sixteen from the block, the others from earlier ones.\<close>

definition block_word :: "u8 list \<Rightarrow> nat \<Rightarrow> u32" where
  "block_word block i =
     push_bit 24 (ucast (block ! (i * 4))) OR push_bit 16 (ucast (block ! (i * 4 + 1))) OR
     push_bit 8 (ucast (block ! (i * 4 + 2))) OR ucast (block ! (i * 4 + 3))"

definition extend_word :: "nat \<Rightarrow> u32 list \<Rightarrow> u32 list" where
  "extend_word i ws =
     (let s0 = rotr (ws ! (i - 15)) 7 XOR rotr (ws ! (i - 15)) 18 XOR drop_bit 3 (ws ! (i - 15));
          s1 = rotr (ws ! (i - 2)) 17 XOR rotr (ws ! (i - 2)) 19 XOR drop_bit 10 (ws ! (i - 2))
      in ws[i := ws ! (i - 16) + s0 + ws ! (i - 7) + s1])"

definition message_words :: "u8 list \<Rightarrow> u32 list" where
  "message_words block =
     fold extend_word [16..<64] (fold (\<lambda>i ws. ws[i := block_word block i]) [0..<16] (replicate 64 0))"

type_synonym registers = "u32 \<times> u32 \<times> u32 \<times> u32 \<times> u32 \<times> u32 \<times> u32 \<times> u32"

definition sha_round :: "u32 list \<Rightarrow> nat \<Rightarrow> registers \<Rightarrow> registers" where
  "sha_round ws i r = (case r of (a, b, c, d, e, f, g, h) \<Rightarrow>
     let big_s1 = rotr e 6 XOR rotr e 11 XOR rotr e 25;
         ch = (e AND f) XOR (NOT e AND g);
         temp1 = h + big_s1 + ch + kRoundConstants ! i + ws ! i;
         big_s0 = rotr a 2 XOR rotr a 13 XOR rotr a 22;
         maj = (a AND b) XOR (a AND c) XOR (b AND c);
         temp2 = big_s0 + maj
     in (temp1 + temp2, a, b, c, d + temp1, e, f, g))"

definition process_block :: "u8 list \<Rightarrow> u32 list \<Rightarrow> u32 list" where
  "process_block block st =
     (let ws = message_words block;
          (a, b, c, d, e, f, g, h) =
            fold (sha_round ws) [0..<64] (st ! 0, st ! 1, st ! 2, st ! 3, st ! 4, st ! 5, st ! 6, st ! 7)
      in [st ! 0 + a, st ! 1 + b, st ! 2 + c, st ! 3 + d, st ! 4 + e, st ! 5 + f, st ! 6 + g, st ! 7 + h])"

section \<open>The incremental context\<close>

record sha256_context =
  sh_state :: "u32 list"
  sh_buffer :: "u8 list"
  sh_buffer_length :: nat
  sh_total_length :: u64

definition sha_new :: sha256_context where
  "sha_new = \<lparr>sh_state = kInitialState, sh_buffer = replicate 64 0, sh_buffer_length = 0, sh_total_length = 0\<rparr>"

text \<open>The copy of \<open>xs\<close> to the buffer from position \<open>n\<close> on.\<close>

definition copy_at :: "nat \<Rightarrow> u8 list \<Rightarrow> u8 list \<Rightarrow> u8 list" where
  "copy_at n xs buffer = take n buffer @ xs @ drop (n + length xs) buffer"

partial_function (option) update_loop :: "u8 list \<Rightarrow> sha256_context \<Rightarrow> sha256_context option" where
  "update_loop data c =
     (if data = [] then Some c
      else let n = min (64 - sh_buffer_length c) (length data);
               c = c\<lparr>sh_buffer := copy_at (sh_buffer_length c) (take n data) (sh_buffer c),
                     sh_buffer_length := sh_buffer_length c + n\<rparr>;
               c = (if sh_buffer_length c = 64
                    then c\<lparr>sh_state := process_block (sh_buffer c) (sh_state c), sh_buffer_length := 0\<rparr> else c)
           in update_loop (drop n data) c)"

definition sha_update :: "u8 list \<Rightarrow> sha256_context \<Rightarrow> sha256_context option" where
  "sha_update data c = update_loop data (c\<lparr>sh_total_length := sh_total_length c + of_nat (length data)\<rparr>)"

partial_function (option) pad_loop :: "sha256_context \<Rightarrow> sha256_context option" where
  "pad_loop c = (if sh_buffer_length c = 56 then Some c else Option.bind (sha_update [0] c) pad_loop)"

definition length_bytes :: "u64 \<Rightarrow> u8 list" where
  "length_bytes bit_length = map (\<lambda>i. ucast (drop_bit (56 - 8 * i) bit_length AND 0xff)) [0..<8]"

definition digest_bytes :: "u32 list \<Rightarrow> u8 list" where
  "digest_bytes st = concat (map (\<lambda>i. [ucast (drop_bit 24 (st ! i) AND 0xff), ucast (drop_bit 16 (st ! i) AND 0xff),
     ucast (drop_bit 8 (st ! i) AND 0xff), ucast (st ! i AND 0xff)]) [0..<8])"

definition sha_finish :: "sha256_context \<Rightarrow> u8 list option" where
  "sha_finish c =
     (let bit_length = sh_total_length c * 8 in
      Option.bind (sha_update [0x80] c) (\<lambda>c. Option.bind (pad_loop c) (\<lambda>c.
        map_option (\<lambda>c. digest_bytes (sh_state c)) (sha_update (length_bytes bit_length) c))))"

definition sha256 :: "u8 list \<Rightarrow> u8 list option" where
  "sha256 data = Option.bind (sha_update data sha_new) sha_finish"

section \<open>HMAC\<close>

definition block_key :: "u8 list \<Rightarrow> u8 list option" where
  "block_key key =
     (if length key > 64 then map_option (\<lambda>hashed. copy_at 0 hashed (replicate 64 0)) (sha256 key)
      else if key \<noteq> [] then Some (copy_at 0 key (replicate 64 0))
      else Some (replicate 64 0))"

definition hmac_sha256 :: "u8 list \<Rightarrow> u8 list \<Rightarrow> u8 list option" where
  "hmac_sha256 key message =
     Option.bind (block_key key) (\<lambda>block_key.
       let inner_pad = map (\<lambda>b. b XOR 0x36) block_key; outer_pad = map (\<lambda>b. b XOR 0x5c) block_key in
       Option.bind (sha_update inner_pad sha_new) (\<lambda>inner. Option.bind (sha_update message inner) (\<lambda>inner.
       Option.bind (sha_finish inner) (\<lambda>inner_digest.
       Option.bind (sha_update outer_pad sha_new) (\<lambda>outer. Option.bind (sha_update inner_digest outer) sha_finish)))))"

definition hex_digits :: string where
  "hex_digits = ''0123456789abcdef''"

definition to_hex :: "u8 list \<Rightarrow> string" where
  "to_hex bytes = concat (map (\<lambda>b. [hex_digits ! unat (drop_bit 4 b AND 0x0f), hex_digits ! unat (b AND 0x0f)]) bytes)"

definition hmac_sha256_hex :: "u8 list \<Rightarrow> string \<Rightarrow> string option" where
  "hmac_sha256_hex key message = map_option to_hex (hmac_sha256 key (string_bytes message))"

end
