(* ===== verification/Audit_Manifest.thy ===== *)
theory Audit_Manifest
  imports Risk_Gateway Hmac_Sha256
begin

text \<open>
  \<^verbatim>\<open>risk/audit_manifest.hpp\<close> and \<^verbatim>\<open>risk/audit_manifest.cpp\<close>: the manifest over
  a set of audit log files, its JSON lines, its signature, and its verification against the files. A file system says
  for a path whether it exists and, if it can be opened, what it holds; the environment is a lookup function.
\<close>

section \<open>Data\<close>

definition kAuditManifestSchemaVersion :: u32 where
  "kAuditManifestSchemaVersion = 1"

definition kAuditManifestSignatureAlgorithm :: string where
  "kAuditManifestSignatureAlgorithm = ''HMAC-SHA256''"

record manifest_file_entry =
  mf_file_name :: string
  mf_record_count :: u64
  mf_byte_size :: u64
  mf_content_checksum :: u64
  mf_audit_chain_checksum :: u64

record manifest_signature =
  ms_algorithm :: string
  ms_key_id :: string
  ms_value_hex :: string

record audit_manifest =
  am_schema_version :: u32
  am_creator :: string
  am_created_at :: string
  am_format :: risk_audit_log_format
  am_files :: "manifest_file_entry list"
  am_chain_checksum :: u64
  am_signature :: "manifest_signature option"

definition blank_manifest :: audit_manifest where
  "blank_manifest = \<lparr>am_schema_version = kAuditManifestSchemaVersion, am_creator = ''asterion'', am_created_at = [],
     am_format = Alf_Jsonl, am_files = [], am_chain_checksum = 0, am_signature = None\<rparr>"

record manifest_generate_options =
  mg_format :: risk_audit_log_format
  mg_creator :: string
  mg_created_at :: string
  mg_signing_key :: "u8 list"
  mg_signing_key_id :: string

datatype manifest_issue_type =
    Mi_None | Mi_MissingFile | Mi_SizeMismatch | Mi_RecordCountMismatch | Mi_ContentChecksumMismatch | Mi_AuditChainMismatch
  | Mi_ManifestChainMismatch | Mi_SignatureMismatch | Mi_SignatureMissing | Mi_KeyMissing

fun issue_type_to_string :: "manifest_issue_type \<Rightarrow> string" where
  "issue_type_to_string Mi_None = ''none''"
| "issue_type_to_string Mi_MissingFile = ''missing_file''"
| "issue_type_to_string Mi_SizeMismatch = ''size_mismatch''"
| "issue_type_to_string Mi_RecordCountMismatch = ''record_count_mismatch''"
| "issue_type_to_string Mi_ContentChecksumMismatch = ''content_checksum_mismatch''"
| "issue_type_to_string Mi_AuditChainMismatch = ''audit_chain_mismatch''"
| "issue_type_to_string Mi_ManifestChainMismatch = ''manifest_chain_mismatch''"
| "issue_type_to_string Mi_SignatureMismatch = ''signature_mismatch''"
| "issue_type_to_string Mi_SignatureMissing = ''signature_missing''"
| "issue_type_to_string Mi_KeyMissing = ''key_missing''"

record manifest_issue =
  mi_type :: manifest_issue_type
  mi_file_name :: string
  mi_detail :: string

record manifest_verification =
  mv_valid :: bool
  mv_files_checked :: nat
  mv_entries_checked :: nat
  mv_computed_chain_checksum :: u64
  mv_signature_present :: bool
  mv_signature_valid :: bool
  mv_issues :: "manifest_issue list"

section \<open>Files\<close>

text \<open>\<open>None\<close>: no such file. \<open>Some None\<close>: there, but it cannot be opened.\<close>

type_synonym file_system = "string \<Rightarrow> string option option"

definition fs_exists :: "file_system \<Rightarrow> string \<Rightarrow> bool" where
  "fs_exists fs path \<longleftrightarrow> fs path \<noteq> None"

definition fs_open :: "file_system \<Rightarrow> string \<Rightarrow> string option" where
  "fs_open fs path = Option.bind (fs path) id"

text \<open>The pieces between the newlines, one more than there are newlines.\<close>

fun segments :: "string \<Rightarrow> string list" where
  "segments [] = [[]]"
| "segments (c # cs) = (if c = CHR 0x0A then [] # segments cs else (c # hd (segments cs)) # tl (segments cs))"

definition drop_cr :: "string \<Rightarrow> string" where
  "drop_cr line = (if line \<noteq> [] \<and> last line = CHR 0x0D then butlast line else line)"

record file_scan =
  fc_record_count :: u64
  fc_byte_size :: u64
  fc_content_checksum :: u64

definition is_blank_line :: "string \<Rightarrow> bool" where
  "is_blank_line line = list_all (\<lambda>ch. ch = CHR '' '' \<or> ch = CHR 0x09) line"

definition scan_contents :: "string \<Rightarrow> file_scan" where
  "scan_contents contents =
     \<lparr>fc_record_count = of_nat (length (filter (\<lambda>line. \<not> is_blank_line (drop_cr line)) (segments contents))),
      fc_byte_size = of_nat (length contents),
      fc_content_checksum = fnv1a_append kFnvOffsetBasis (string_bytes contents)\<rparr>"

text \<open>\<open>Inl\<close> is the error of a scan that failed.\<close>

definition scan_file :: "file_system \<Rightarrow> string \<Rightarrow> string + file_scan" where
  "scan_file fs path = (case fs_open fs path of
       None \<Rightarrow> Inl (''unable to open '' @ path)
     | Some contents \<Rightarrow> Inr (scan_contents contents))"

definition audit_logs_at :: "file_system \<Rightarrow> string list \<Rightarrow> (string \<times> string option) list" where
  "audit_logs_at fs paths = map (\<lambda>path. (path, fs_open fs path)) paths"

definition audit_chain_through :: "file_system \<Rightarrow> string list \<Rightarrow> nat \<Rightarrow> risk_audit_log_format \<Rightarrow> risk_audit_verification_result" where
  "audit_chain_through fs paths n fmt = verify_risk_audit_logs (audit_logs_at fs (take n paths)) fmt"

definition read_signing_key_file :: "file_system \<Rightarrow> string \<Rightarrow> u8 list option" where
  "read_signing_key_file fs path = map_option string_bytes (fs_open fs path)"

definition signing_key_from_env :: "(string \<Rightarrow> string option) \<Rightarrow> string option \<Rightarrow> u8 list option" where
  "signing_key_from_env getenv env_var = Option.bind env_var (\<lambda>name. map_option string_bytes (getenv name))"

section \<open>Checksum, payload and signature\<close>

definition audit_format_wire :: "risk_audit_log_format \<Rightarrow> u8" where
  "audit_format_wire fmt = (case fmt of Alf_Text \<Rightarrow> 1 | Alf_Jsonl \<Rightarrow> 2)"

definition file_entry_checksum :: "u64 \<Rightarrow> manifest_file_entry \<Rightarrow> u64" where
  "file_entry_checksum seed f =
     (let seed = checksum_append_string seed (mf_file_name f);
          seed = checksum_append_u64 seed (mf_record_count f);
          seed = checksum_append_u64 seed (mf_byte_size f);
          seed = checksum_append_u64 seed (mf_content_checksum f)
      in checksum_append_u64 seed (mf_audit_chain_checksum f))"

definition compute_audit_manifest_chain_checksum :: "u32 \<Rightarrow> risk_audit_log_format \<Rightarrow> manifest_file_entry list \<Rightarrow> u64" where
  "compute_audit_manifest_chain_checksum schema_version fmt files =
     (let seed = checksum_append_u32 kFnvOffsetBasis schema_version;
          seed = checksum_append_u8 seed (audit_format_wire fmt);
          seed = checksum_append_u64 seed (of_nat (length files))
      in foldl file_entry_checksum seed files)"

definition payload_line :: "manifest_file_entry \<Rightarrow> string" where
  "payload_line f = ''file='' @ mf_file_name f @ '','' @ decimal_word (mf_record_count f) @ '','' @ decimal_word (mf_byte_size f) @
     '','' @ decimal_word (mf_content_checksum f) @ '','' @ decimal_word (mf_audit_chain_checksum f) @ [CHR 0x0A]"

definition canonical_audit_manifest_payload :: "audit_manifest \<Rightarrow> string" where
  "canonical_audit_manifest_payload m =
     ''asterion-audit-manifest'' @ [CHR 0x0A] @
     ''schema_version='' @ decimal_word (am_schema_version m) @ [CHR 0x0A] @
     ''format='' @ audit_format_to_string (am_format m) @ [CHR 0x0A] @
     ''creator='' @ am_creator m @ [CHR 0x0A] @
     ''chain_checksum='' @ decimal_word (am_chain_checksum m) @ [CHR 0x0A] @ concat (map payload_line (am_files m))"

definition manifest_hmac :: "u8 list \<Rightarrow> audit_manifest \<Rightarrow> string" where
  "manifest_hmac key m = the (hmac_sha256_hex key (canonical_audit_manifest_payload m))"

section \<open>Generation\<close>

text \<open>The loop over the files, \<open>index\<close> of them done: \<open>Inl\<close> is the error of an early return.\<close>

fun generate_entries :: "file_system \<Rightarrow> risk_audit_log_format \<Rightarrow> string list \<Rightarrow> nat \<Rightarrow> string list \<Rightarrow> string + manifest_file_entry list" where
  "generate_entries fs fmt paths index [] = Inr []"
| "generate_entries fs fmt paths index (path # rest) = (case scan_file fs path of
       Inl failure \<Rightarrow> Inl failure
     | Inr scan \<Rightarrow>
         let chain = audit_chain_through fs paths (index + 1) fmt in
         if \<not> av_valid chain then Inl (''unable to verify audit chain through '' @ path @ '': '' @ av_error chain)
         else map_sum id ((#) \<lparr>mf_file_name = path_file_name path, mf_record_count = fc_record_count scan,
             mf_byte_size = fc_byte_size scan, mf_content_checksum = fc_content_checksum scan,
             mf_audit_chain_checksum = av_final_checksum chain\<rparr>)
           (generate_entries fs fmt paths (index + 1) rest))"

definition unsigned_manifest :: "manifest_generate_options \<Rightarrow> manifest_file_entry list \<Rightarrow> audit_manifest" where
  "unsigned_manifest opts files =
     (let m = blank_manifest\<lparr>am_creator := mg_creator opts, am_created_at := mg_created_at opts,
            am_format := mg_format opts, am_files := files\<rparr>
      in m\<lparr>am_chain_checksum := compute_audit_manifest_chain_checksum (am_schema_version m) (am_format m) (am_files m)\<rparr>)"

definition sign_manifest :: "u8 list \<Rightarrow> string \<Rightarrow> audit_manifest \<Rightarrow> audit_manifest" where
  "sign_manifest key key_id m = (if key \<noteq> []
     then m\<lparr>am_signature := Some \<lparr>ms_algorithm = kAuditManifestSignatureAlgorithm, ms_key_id = key_id, ms_value_hex = manifest_hmac key m\<rparr>\<rparr>
     else m)"

definition generate_audit_manifest :: "file_system \<Rightarrow> string list \<Rightarrow> manifest_generate_options \<Rightarrow> string + audit_manifest" where
  "generate_audit_manifest fs paths opts = (case generate_entries fs (mg_format opts) paths 0 paths of
       Inl failure \<Rightarrow> Inl failure
     | Inr files \<Rightarrow> Inr (sign_manifest (mg_signing_key opts) (mg_signing_key_id opts) (unsigned_manifest opts files)))"

section \<open>Writing and reading\<close>

definition signature_fields :: "manifest_signature option \<Rightarrow> string" where
  "signature_fields sig = (case sig of None \<Rightarrow> []
     | Some s \<Rightarrow> '','' @ json_key ''signature_algorithm'' @ json_string (ms_algorithm s) @
         '','' @ json_key ''signature_key_id'' @ json_string (ms_key_id s) @
         '','' @ json_key ''signature'' @ json_string (ms_value_hex s))"

definition header_line :: "audit_manifest \<Rightarrow> string" where
  "header_line m = ''{'' @ json_key ''record'' @ json_string ''manifest'' @
     '','' @ json_key ''schema_version'' @ decimal_word (am_schema_version m) @
     '','' @ json_key ''format'' @ json_string (audit_format_to_string (am_format m)) @
     '','' @ json_key ''creator'' @ json_string (am_creator m) @
     '','' @ json_key ''created_at'' @ json_string (am_created_at m) @
     '','' @ json_key ''chain_checksum'' @ decimal_word (am_chain_checksum m) @
     signature_fields (am_signature m) @ ''}'' @ [CHR 0x0A]"

definition file_line :: "manifest_file_entry \<Rightarrow> string" where
  "file_line f = ''{'' @ json_key ''record'' @ json_string ''file'' @
     '','' @ json_key ''file_name'' @ json_string (mf_file_name f) @
     '','' @ json_key ''record_count'' @ decimal_word (mf_record_count f) @
     '','' @ json_key ''byte_size'' @ decimal_word (mf_byte_size f) @
     '','' @ json_key ''content_checksum'' @ decimal_word (mf_content_checksum f) @
     '','' @ json_key ''audit_chain_checksum'' @ decimal_word (mf_audit_chain_checksum f) @ ''}'' @ [CHR 0x0A]"

definition serialize_audit_manifest :: "audit_manifest \<Rightarrow> string" where
  "serialize_audit_manifest m = header_line m @ concat (map file_line (am_files m))"

definition json_raw_value :: "string \<Rightarrow> string \<Rightarrow> string option" where
  "json_raw_value line key = (case text_after (json_key key) line of
       None \<Rightarrow> None
     | Some [] \<Rightarrow> None
     | Some (c # cs) \<Rightarrow> if c = CHR 0x22 then quoted_value False cs
         else Some (takeWhile (\<lambda>ch. ch \<noteq> CHR '','' \<and> ch \<noteq> CHR ''}'') (c # cs)))"

fun json_unescape :: "string \<Rightarrow> string" where
  "json_unescape [] = []"
| "json_unescape [c] = [c]"
| "json_unescape (c # d # cs) =
     (if c = CHR 0x5C
      then (if d = CHR ''n'' then CHR 0x0A else if d = CHR ''r'' then CHR 0x0D else if d = CHR ''t'' then CHR 0x09 else d)
        # json_unescape cs
      else c # json_unescape (d # cs))"

definition parse_format_token :: "string \<Rightarrow> risk_audit_log_format option" where
  "parse_format_token value = (if value = ''jsonl'' then Some Alf_Jsonl else if value = ''text'' then Some Alf_Text else None)"

definition parse_signature :: "string \<Rightarrow> manifest_signature option" where
  "parse_signature line = map_option (\<lambda>value.
       \<lparr>ms_algorithm = (case json_raw_value line ''signature_algorithm'' of None \<Rightarrow> [] | Some v \<Rightarrow> json_unescape v),
        ms_key_id = (case json_raw_value line ''signature_key_id'' of None \<Rightarrow> [] | Some v \<Rightarrow> json_unescape v),
        ms_value_hex = json_unescape value\<rparr>) (json_raw_value line ''signature'')"

text \<open>The two kinds of line; \<open>Inl\<close> is the message of the failure, without the line number.\<close>

definition parse_header_line :: "string \<Rightarrow> audit_manifest \<Rightarrow> string + audit_manifest" where
  "parse_header_line line m =
     (case (assign_word (json_raw_value line ''schema_version''), assign_word (json_raw_value line ''chain_checksum'')) of
        (Some version, Some chain) \<Rightarrow>
          (case Option.bind (json_raw_value line ''format'') parse_format_token of
             None \<Rightarrow> Inl ''invalid format''
           | Some fmt \<Rightarrow> Inr (m\<lparr>am_schema_version := version, am_chain_checksum := chain, am_format := fmt,
               am_creator := (case json_raw_value line ''creator'' of None \<Rightarrow> am_creator m | Some v \<Rightarrow> json_unescape v),
               am_created_at := (case json_raw_value line ''created_at'' of None \<Rightarrow> am_created_at m | Some v \<Rightarrow> json_unescape v),
               am_signature := (case parse_signature line of None \<Rightarrow> am_signature m | Some s \<Rightarrow> Some s)\<rparr>))
      | _ \<Rightarrow> Inl ''malformed manifest header'')"

definition parse_file_line :: "string \<Rightarrow> manifest_file_entry option" where
  "parse_file_line line =
     Option.bind (json_raw_value line ''file_name'') (\<lambda>name.
     Option.bind (assign_word (json_raw_value line ''record_count'')) (\<lambda>records.
     Option.bind (assign_word (json_raw_value line ''byte_size'')) (\<lambda>size.
     Option.bind (assign_word (json_raw_value line ''content_checksum'')) (\<lambda>content.
     Option.bind (assign_word (json_raw_value line ''audit_chain_checksum'')) (\<lambda>chain.
     Some \<lparr>mf_file_name = json_unescape name, mf_record_count = records, mf_byte_size = size, mf_content_checksum = content,
       mf_audit_chain_checksum = chain\<rparr>)))))"

definition at_line :: "nat \<Rightarrow> string \<Rightarrow> string" where
  "at_line n message = ''line '' @ decimal n @ '': '' @ message"

fun parse_manifest_lines :: "string list \<Rightarrow> nat \<Rightarrow> bool \<Rightarrow> audit_manifest \<Rightarrow> string + audit_manifest" where
  "parse_manifest_lines [] line_number header_seen m = (if header_seen then Inr m else Inl ''missing manifest header'')"
| "parse_manifest_lines (line # rest) line_number header_seen m =
     (let line = drop_cr line in
      if line = [] then parse_manifest_lines rest line_number header_seen m
      else let line_number = line_number + 1 in
        case json_raw_value line ''record'' of
          None \<Rightarrow> Inl (at_line line_number ''missing record field'')
        | Some kind \<Rightarrow>
            if kind = ''manifest''
            then if header_seen then Inl (at_line line_number ''duplicate manifest header'')
                 else (case parse_header_line line m of
                     Inl message \<Rightarrow> Inl (at_line line_number message)
                   | Inr m \<Rightarrow> parse_manifest_lines rest line_number True m)
            else if kind = ''file''
            then if \<not> header_seen then Inl (at_line line_number ''file entry before manifest header'')
                 else (case parse_file_line line of
                     None \<Rightarrow> Inl (at_line line_number ''malformed file entry'')
                   | Some f \<Rightarrow> parse_manifest_lines rest line_number header_seen (m\<lparr>am_files := am_files m @ [f]\<rparr>))
            else Inl (at_line line_number ''unknown record type''))"

definition parse_audit_manifest :: "string \<Rightarrow> string + audit_manifest" where
  "parse_audit_manifest contents = parse_manifest_lines (segments contents) 0 False blank_manifest"

text \<open>Writing fails when the stream cannot be opened; what could be opened is replaced.\<close>

definition write_audit_manifest :: "bool \<Rightarrow> string \<Rightarrow> audit_manifest \<Rightarrow> file_system \<Rightarrow> bool \<times> file_system" where
  "write_audit_manifest opens path m fs =
     (if opens then (True, fs(path := Some (Some (serialize_audit_manifest m)))) else (False, fs))"

definition read_audit_manifest :: "file_system \<Rightarrow> string \<Rightarrow> string + audit_manifest" where
  "read_audit_manifest fs path = (case fs_open fs path of
       None \<Rightarrow> Inl (''unable to open manifest: '' @ path)
     | Some contents \<Rightarrow> parse_audit_manifest contents)"

section \<open>Verification\<close>

text \<open>\<^verbatim>\<open>base / file_name\<close>, where an absolute name replaces the base.\<close>

definition manifest_path :: "string \<Rightarrow> string \<Rightarrow> string" where
  "manifest_path base name = (if base = [] \<or> (name \<noteq> [] \<and> hd name = CHR ''/'') then name else path_join base name)"

definition add_issue :: "manifest_issue_type \<Rightarrow> string \<Rightarrow> string \<Rightarrow> manifest_verification \<Rightarrow> manifest_verification" where
  "add_issue ty name detail v = v\<lparr>mv_valid := False,
     mv_issues := mv_issues v @ [\<lparr>mi_type = ty, mi_file_name = name, mi_detail = detail\<rparr>]\<rparr>"

definition check_scan :: "manifest_file_entry \<Rightarrow> file_scan \<Rightarrow> manifest_verification \<Rightarrow> bool \<times> manifest_verification" where
  "check_scan f scan v =
     (let (ok, v) = (if fc_byte_size scan \<noteq> mf_byte_size f
            then (False, add_issue Mi_SizeMismatch (mf_file_name f) (''byte size mismatch: expected '' @ decimal_word (mf_byte_size f) @
              '', found '' @ decimal_word (fc_byte_size scan)) v) else (True, v));
          (ok, v) = (if fc_content_checksum scan \<noteq> mf_content_checksum f
            then (False, add_issue Mi_ContentChecksumMismatch (mf_file_name f) ''content checksum mismatch'' v) else (ok, v))
      in if fc_record_count scan \<noteq> mf_record_count f
         then (False, add_issue Mi_RecordCountMismatch (mf_file_name f) (''record count mismatch: expected '' @
           decimal_word (mf_record_count f) @ '', found '' @ decimal_word (fc_record_count scan)) v) else (ok, v))"

text \<open>One file of the manifest: the state is \<open>all_present\<close>, \<open>present_paths\<close> and the verification.\<close>

definition check_file :: "file_system \<Rightarrow> string \<Rightarrow> manifest_file_entry \<Rightarrow> bool \<times> string list \<times> manifest_verification
    \<Rightarrow> bool \<times> string list \<times> manifest_verification" where
  "check_file fs base f st = (case st of (all_present, present_paths, v) \<Rightarrow>
     let path = manifest_path base (mf_file_name f);
         v = v\<lparr>mv_files_checked := mv_files_checked v + 1\<rparr> in
     if \<not> fs_exists fs path then (False, present_paths, add_issue Mi_MissingFile (mf_file_name f) ''file not found'' v)
     else (case scan_file fs path of
         Inl failure \<Rightarrow> (False, present_paths, add_issue Mi_MissingFile (mf_file_name f) failure v)
       | Inr scan \<Rightarrow> let (file_ok, v) = check_scan f scan v
                     in (all_present \<and> file_ok, present_paths @ [path], v)))"

definition check_chain :: "file_system \<Rightarrow> audit_manifest \<Rightarrow> string list \<Rightarrow> manifest_verification \<Rightarrow> manifest_verification" where
  "check_chain fs m present_paths v =
     (let chain = verify_risk_audit_logs (audit_logs_at fs present_paths) (am_format m);
          v = v\<lparr>mv_entries_checked := av_entries_checked chain\<rparr>;
          wanted = mf_audit_chain_checksum (last (am_files m))
      in if av_final_checksum chain \<noteq> wanted
         then add_issue Mi_AuditChainMismatch [] (''audit chain checksum mismatch: expected '' @ decimal_word wanted @ '', recomputed '' @
           decimal_word (av_final_checksum chain)) v
         else v)"

definition check_signature :: "u8 list \<Rightarrow> audit_manifest \<Rightarrow> manifest_verification \<Rightarrow> manifest_verification" where
  "check_signature key m v = (case am_signature m of
       Some s \<Rightarrow>
         let v = v\<lparr>mv_signature_present := True\<rparr> in
         if ms_algorithm s \<noteq> kAuditManifestSignatureAlgorithm
         then add_issue Mi_SignatureMismatch [] (''unsupported signature algorithm: '' @ ms_algorithm s) v
         else if key = [] then add_issue Mi_KeyMissing [] ''signed manifest but no key provided'' v
         else if manifest_hmac key m = ms_value_hex s then v\<lparr>mv_signature_valid := True\<rparr>
         else add_issue Mi_SignatureMismatch [] ''HMAC-SHA256 signature mismatch'' v
     | None \<Rightarrow> if key \<noteq> [] then add_issue Mi_SignatureMissing [] ''key provided but manifest is unsigned (possible signature stripping)'' v
         else v)"

definition verify_audit_manifest :: "file_system \<Rightarrow> string \<Rightarrow> u8 list \<Rightarrow> audit_manifest \<Rightarrow> manifest_verification" where
  "verify_audit_manifest fs base key m =
     (let recomputed = compute_audit_manifest_chain_checksum (am_schema_version m) (am_format m) (am_files m);
          v = \<lparr>mv_valid = True, mv_files_checked = 0, mv_entries_checked = 0, mv_computed_chain_checksum = recomputed,
               mv_signature_present = False, mv_signature_valid = False, mv_issues = []\<rparr>;
          v = (if recomputed \<noteq> am_chain_checksum m
               then add_issue Mi_ManifestChainMismatch [] (''manifest chain checksum mismatch: expected '' @ decimal_word recomputed @
                 '', recorded '' @ decimal_word (am_chain_checksum m)) v else v);
          (all_present, present_paths, v) = fold (check_file fs base) (am_files m) (True, [], v);
          v = (if all_present \<and> am_files m \<noteq> [] then check_chain fs m present_paths v else v)
      in check_signature key m v)"

end
