(* ===== verification/Hmac_Sha256_Correct.thy ===== *)
theory Hmac_Sha256_Correct
  imports Hmac_Sha256 Complex_Main
begin

text \<open>
  SHA-256 as in FIPS 180-4 and HMAC as in RFC 2104, stated on whole messages, and the proof that the incremental
  context of the code returns and computes them however the message is cut into updates. The standard's side takes
  nothing from the code's: its constants are the fractional parts of roots of primes, its message words are read
  from the bytes as numbers, and its rotations are the library's.
\<close>

section \<open>The standards\<close>

text \<open>Sections 4.2.2 and 5.3.3: the first 32 bits of the fractional parts of the cube roots of the first 64 primes
  and of the square roots of the first 8. The whole part of a root times \<open>2 ^ 32\<close> vanishes in a 32-bit word.\<close>

definition first_primes :: "nat list" where
  "first_primes = filter (\<lambda>n. \<forall>d. d dvd n \<longrightarrow> d = 1 \<or> d = n) [2..<312]"

definition root_bits :: "nat \<Rightarrow> nat \<Rightarrow> u32" where
  "root_bits n p = word_of_int \<lfloor>2 ^ 32 * root n (real p)\<rfloor>"

definition fips_K :: "u32 list" where
  "fips_K = map (root_bits 3) first_primes"

definition fips_H0 :: "u32 list" where
  "fips_H0 = map (root_bits 2) (take 8 first_primes)"

definition fips_ch :: "u32 \<Rightarrow> u32 \<Rightarrow> u32 \<Rightarrow> u32" where
  "fips_ch x y z = (x AND y) XOR (NOT x AND z)"

definition fips_maj :: "u32 \<Rightarrow> u32 \<Rightarrow> u32 \<Rightarrow> u32" where
  "fips_maj x y z = (x AND y) XOR (x AND z) XOR (y AND z)"

definition fips_Sigma0 :: "u32 \<Rightarrow> u32" where
  "fips_Sigma0 x = word_rotr 2 x XOR word_rotr 13 x XOR word_rotr 22 x"

definition fips_Sigma1 :: "u32 \<Rightarrow> u32" where
  "fips_Sigma1 x = word_rotr 6 x XOR word_rotr 11 x XOR word_rotr 25 x"

definition fips_sigma0 :: "u32 \<Rightarrow> u32" where
  "fips_sigma0 x = word_rotr 7 x XOR word_rotr 18 x XOR drop_bit 3 x"

definition fips_sigma1 :: "u32 \<Rightarrow> u32" where
  "fips_sigma1 x = word_rotr 17 x XOR word_rotr 19 x XOR drop_bit 10 x"

text \<open>The message schedule, by recursion on the index of the word: the first sixteen words are the block's bytes,
  four at a time, as numbers in base 256 with the leftmost digit first.\<close>

definition base256 :: "u8 list \<Rightarrow> nat" where
  "base256 bs = foldl (\<lambda>n b. 256 * n + unat b) 0 bs"

fun fips_schedule :: "u8 list \<Rightarrow> nat \<Rightarrow> u32" where
  "fips_schedule block t =
     (if t < 16 then of_nat (base256 (take 4 (drop (4 * t) block)))
      else fips_sigma1 (fips_schedule block (t - 2)) + fips_schedule block (t - 7) +
        fips_sigma0 (fips_schedule block (t - 15)) + fips_schedule block (t - 16))"

declare fips_schedule.simps [simp del]

definition fips_round :: "(nat \<Rightarrow> u32) \<Rightarrow> nat \<Rightarrow> registers \<Rightarrow> registers" where
  "fips_round W t r = (case r of (a, b, c, d, e, f, g, h) \<Rightarrow>
     let T1 = h + fips_Sigma1 e + fips_ch e f g + fips_K ! t + W t;
         T2 = fips_Sigma0 a + fips_maj a b c
     in (T1 + T2, a, b, c, d + T1, e, f, g))"

definition fips_compress :: "u8 list \<Rightarrow> u32 list \<Rightarrow> u32 list" where
  "fips_compress block H =
     (let (a, b, c, d, e, f, g, h) =
        fold (fips_round (fips_schedule block)) [0..<64] (H ! 0, H ! 1, H ! 2, H ! 3, H ! 4, H ! 5, H ! 6, H ! 7)
      in [H ! 0 + a, H ! 1 + b, H ! 2 + c, H ! 3 + d, H ! 4 + e, H ! 5 + f, H ! 6 + g, H ! 7 + h])"

definition be_bytes :: "nat \<Rightarrow> 'a::len word \<Rightarrow> u8 list" where
  "be_bytes n w = map (\<lambda>i. ucast (drop_bit (8 * (n - 1 - i)) w)) [0..<n]"

text \<open>A one bit, zeros up to 56 modulo 64, and the length in bits as eight bytes.\<close>

definition fips_pad :: "u8 list \<Rightarrow> u8 list" where
  "fips_pad m = m @ [0x80] @ replicate ((119 - length m mod 64) mod 64) 0 @ be_bytes 8 (of_nat (8 * length m) :: u64)"

function blocks_of :: "u8 list \<Rightarrow> u8 list list" where
  "blocks_of m = (if length m < 64 then [] else take 64 m # blocks_of (drop 64 m))"
  by pat_completeness auto

termination
  by (relation "measure length") auto

declare blocks_of.simps [simp del]

definition fips_sha256 :: "u8 list \<Rightarrow> u8 list" where
  "fips_sha256 m = concat (map (be_bytes 4) (fold fips_compress (blocks_of (fips_pad m)) fips_H0))"

definition rfc2104_hmac :: "u8 list \<Rightarrow> u8 list \<Rightarrow> u8 list" where
  "rfc2104_hmac key message =
     (let key = (if length key > 64 then fips_sha256 key else key);
          key = key @ replicate (64 - length key) 0
      in fips_sha256 (map (\<lambda>b. b XOR 0x5c) key @ fips_sha256 (map (\<lambda>b. b XOR 0x36) key @ message)))"

section \<open>The constants\<close>

text \<open>Below 18 squared, a number with a divisor has a small one.\<close>

lemma small_divisor:
  assumes "2 \<le> n" and "n < 324"
  shows "(\<forall>d. d dvd n \<longrightarrow> d = 1 \<or> d = n) \<longleftrightarrow> (\<forall>d \<in> set [2..<18]. n \<le> d \<or> n mod d \<noteq> 0)"
proof (intro iffI allI impI ballI)
  fix d assume all: "\<forall>d. d dvd n \<longrightarrow> d = 1 \<or> d = n" and d: "d \<in> set [2..<18]"
  have "d \<noteq> 1" using d by (simp only: set_upt atLeastLessThan_iff) linarith
  then have "n \<le> d" if "d dvd n" using spec [OF all, of d] that by simp
  then show "n \<le> d \<or> n mod d \<noteq> 0" using mod_0_imp_dvd [of n d] by blast
next
  fix d assume small: "\<forall>d \<in> set [2..<18]. n \<le> d \<or> n mod d \<noteq> 0" and dvd: "d dvd n"
  obtain e where n: "n = d * e" using dvd by (rule dvdE)
  show "d = 1 \<or> d = n"
  proof (rule ccontr)
    assume no: "\<not> (d = 1 \<or> d = n)"
    then have "d \<noteq> 0" "d \<noteq> 1" "e \<noteq> 0" "e \<noteq> 1" using n assms(1) by (auto intro: Nat.gr0I)
    then have two: "2 \<le> d" "2 \<le> e" by auto
    have "d < 18 \<or> e < 18"
    proof (rule ccontr)
      assume "\<not> (d < 18 \<or> e < 18)"
      then have "18 * 18 \<le> d * e" by (intro mult_le_mono) auto
      then show False using n assms(2) by simp
    qed
    then have "n \<le> d \<or> n \<le> e" using small two n by (simp only: set_upt Ball_def atLeastLessThan_iff) (metis mod_mult_self1_is_0 mod_mult_self2_is_0)
    moreover have "2 * d \<le> e * d" "2 * e \<le> d * e" using two by simp_all
    ultimately show False using n two by (simp add: mult.commute)
  qed
qed

lemma filter_stages: "filter (\<lambda>n. \<forall>d \<in> set ds. P d n) xs = fold (\<lambda>d. filter (P d)) ds xs"
  by (induction ds arbitrary: xs) (auto simp flip: filter_filter simp: conj_commute)

lemma upt_join: "k \<le> m \<Longrightarrow> m \<le> n \<Longrightarrow> [k..<m] @ [m..<n] = [k..<n]"
  by (metis le_Suc_ex upt_add_eq_append)

lemma first_primes_list:
  "first_primes = [
     2, 3, 5, 7, 11, 13, 17, 19, 23, 29, 31, 37, 41, 43, 47, 53, 59, 61, 67, 71, 73, 79, 83, 89, 97, 101, 103, 107,
     109, 113, 127, 131, 137, 139, 149, 151, 157, 163, 167, 173, 179, 181, 191, 193, 197, 199, 211, 223, 227, 229,
     233, 239, 241, 251, 257, 263, 269, 271, 277, 281, 283, 293, 307, 311]"
proof -
  have "first_primes = filter (\<lambda>n. \<forall>d \<in> set [2..<18]. n \<le> d \<or> n mod d \<noteq> 0) [2..<312]"
    unfolding first_primes_def by (intro filter_cong refl small_divisor) auto
  also have "[2..<312] = [2..<52] @ [52..<102] @ [102..<152] @ [152..<202] @ [202..<252] @ [252..<312]"
    by (simp add: upt_join)
  finally show ?thesis unfolding filter_append filter_stages by (simp add: upt_rec_numeral)
qed

lemma root_bits_eq:
  assumes "0 < n" and "k ^ n \<le> 2 ^ (32 * n) * p" and "2 ^ (32 * n) * p < (k + 1) ^ n"
  shows "root_bits n p = of_nat k"
proof -
  let ?r = "2 ^ 32 * root n (real p)"
  have r: "?r ^ n = 2 ^ (32 * n) * real p" using assms(1) by (simp add: power_mult_distrib power_mult real_root_pow_pos2)
  have pos: "0 \<le> ?r" using assms(1) by (simp add: real_root_ge_zero)
  have "real (k ^ n) \<le> real (2 ^ (32 * n) * p)" "real (2 ^ (32 * n) * p) < real ((k + 1) ^ n)"
    using assms(2,3) by (simp_all only: of_nat_le_iff of_nat_less_iff)
  then have "real k ^ n \<le> ?r ^ n" "?r ^ n < real (k + 1) ^ n" unfolding r by (simp_all only: of_nat_power of_nat_mult of_nat_numeral)
  then have "real k \<le> ?r" "?r < real (k + 1)"
    using power_mono_iff [of "real k" ?r n] power_less_imp_less_base [of ?r n "real (k + 1)"] assms(1) pos by simp_all
  then have "\<lfloor>?r\<rfloor> = int k" by (intro floor_unique) simp_all
  then show ?thesis by (simp add: root_bits_def)
qed

lemma root_bits_list:
  assumes "0 < n" and "list_all2 (\<lambda>p k. k ^ n \<le> 2 ^ (32 * n) * p \<and> 2 ^ (32 * n) * p < (k + 1) ^ n) ps ks"
  shows "map (root_bits n) ps = map of_nat ks"
  using assms(2) by (induction rule: list_all2_induct) (auto intro: root_bits_eq [OF assms(1)])

lemma round_constants: "fips_K = kRoundConstants"
proof -
  let ?ks = "[
     5411319704, 6194414737, 7344290767, 8215976869, 9551921755, 10098905585, 11043570340, 11460697813,
     12214315672, 13195500289, 13492127166, 14311783875, 14809980276, 15046980094, 15499789991, 16133124468,
     16720292289, 16907126662, 17444216262, 17784676812, 17950125167, 18429019306, 18734950876, 19175934170,
     19734090066, 20001703533, 20132865992, 20390182855, 20516441075, 20764397895, 21588763473, 21813078375,
     22141143685, 22248366392, 22769593852, 22871018771, 23170020180, 23461497531, 23651862830, 23931792517,
     24205322401, 24295138891, 24734567280, 24820601251, 24990902297, 25075189284, 25569408389, 26045227120,
     26200031510, 26276752392, 26428864332, 26653801653, 26727943347, 27092625994, 27306805839, 27517677555,
     27725365998, 27793908591, 27997534228, 28131656200, 28198240250, 28526537963, 28973835255, 29099129074] :: nat list"
  have "list_all2 (\<lambda>p k. k ^ 3 \<le> 2 ^ (32 * 3) * p \<and> 2 ^ (32 * 3) * p < (k + 1) ^ 3) first_primes ?ks"
    unfolding first_primes_list by simp
  then have "map (root_bits 3) first_primes = map of_nat ?ks" by (rule root_bits_list [rotated]) simp
  also have "\<dots> = kRoundConstants" by (simp add: kRoundConstants_def)
  finally show ?thesis by (simp add: fips_K_def)
qed

lemma initial_state: "fips_H0 = kInitialState"
proof -
  let ?ks = "[
     6074000999, 7439101573, 9603838834, 11363415354, 14244795007, 15485724812, 17708603819, 18721328409] :: nat list"
  have "list_all2 (\<lambda>p k. k ^ 2 \<le> 2 ^ (32 * 2) * p \<and> 2 ^ (32 * 2) * p < (k + 1) ^ 2) (take 8 first_primes) ?ks"
    unfolding first_primes_list by simp
  then have "map (root_bits 2) (take 8 first_primes) = map of_nat ?ks" by (rule root_bits_list [rotated]) simp
  also have "\<dots> = kInitialState" by (simp add: kInitialState_def)
  finally show ?thesis by (simp add: fips_H0_def)
qed

section \<open>The compression function\<close>

lemma rotr_word_rotr:
  assumes "0 < n" and "n < 32"
  shows "rotr v n = word_rotr n v"
proof (rule bit_word_eqI)
  fix i assume "i < LENGTH(32)"
  then have i: "i < 32" by simp
  have over: "\<not> bit v j" if "32 \<le> j" for j using that impossible_bit [of j v] by simp
  show "bit (rotr v n) i = bit (word_rotr n v) i"
  proof (cases "i + n < 32")
    case True
    then have "\<not> 32 - n \<le> i" by simp
    then show ?thesis using True assms i by (simp add: rotr_def bit_simps bit_word_rotr_iff add.commute)
  next
    case False
    then have "(i + n) mod 32 = i + n - 32" using assms i by (simp add: mod_if)
    moreover have "32 - n \<le> i" using False by simp
    ultimately show ?thesis using assms i False over [of "i + n"] by (simp add: rotr_def bit_simps bit_word_rotr_iff add.commute)
  qed
qed

lemma append_byte: "push_bit 8 w OR ucast (b :: u8) = 256 * w + (ucast b :: u32)"
proof -
  have "push_bit 8 w AND (ucast b :: u32) = 0" by (rule bit_word_eqI) (auto simp: bit_simps dest: bit_imp_le_length)
  then have "push_bit 8 w OR (ucast b :: u32) = push_bit 8 w + ucast b" by (rule disjunctive_add_eq_or [symmetric])
  then show ?thesis by (simp add: push_bit_eq_mult mult.commute)
qed

lemma block_word_base256:
  assumes "length block = 64" and "i < 16"
  shows "block_word block i = of_nat (base256 (take 4 (drop (4 * i) block)))"
proof -
  let ?b = "\<lambda>j. block ! (i * 4 + j)"
  have "take 4 (drop (4 * i) block) = [?b 0, ?b 1, ?b 2, ?b 3]"
    using assms by (auto simp: list_eq_iff_nth_eq less_Suc_eq numeral_eq_Suc mult.commute)
  moreover have "block_word block i =
    push_bit 8 (push_bit 8 (push_bit 8 (ucast (?b 0)) OR ucast (?b 1)) OR ucast (?b 2)) OR ucast (?b 3)"
    by (simp add: block_word_def push_bit_or or.assoc)
  ultimately show ?thesis by (simp add: append_byte base256_def)
qed

lemma length_extend [simp]: "length (extend_word i ws) = length ws"
  by (simp add: extend_word_def Let_def)

lemma first_words:
  "n \<le> 16 \<Longrightarrow> let ws = fold (\<lambda>i ws. ws[i := block_word block i]) [0..<n] (replicate 64 0) in
     length ws = 64 \<and> (\<forall>i < n. ws ! i = block_word block i)"
  by (induction n) (auto simp: Let_def nth_list_update less_Suc_eq)

lemma extend_words:
  assumes "length ws = 64" and "\<And>i. i < 16 \<Longrightarrow> ws ! i = fips_schedule block i" and "16 \<le> n" and "n \<le> 64"
  shows "length (fold extend_word [16..<n] ws) = 64 \<and> (\<forall>i < n. fold extend_word [16..<n] ws ! i = fips_schedule block i)"
  using assms(3,4)
proof (induction n rule: dec_induct)
  case base
  then show ?case using assms(1,2) by simp
next
  case (step n)
  let ?v = "fold extend_word [16..<n] ws"
  have v: "length ?v = 64" "\<And>i. i < n \<Longrightarrow> ?v ! i = fips_schedule block i" using step by simp_all
  have "extend_word n ?v = ?v[n := fips_schedule block n]"
    using step.hyps v fips_schedule.simps [of block n]
    by (simp add: extend_word_def Let_def fips_sigma0_def fips_sigma1_def rotr_word_rotr algebra_simps)
  then show ?case using step.prems step.hyps v by (auto simp: nth_list_update less_Suc_eq)
qed

lemma message_schedule:
  assumes "length block = 64" and "i < 64"
  shows "message_words block ! i = fips_schedule block i"
proof -
  let ?ws = "fold (\<lambda>i ws. ws[i := block_word block i]) [0..<16] (replicate 64 0)"
  have "length ?ws = 64" "\<And>i. i < 16 \<Longrightarrow> ?ws ! i = fips_schedule block i"
    using first_words [of 16 block] by (simp_all add: Let_def fips_schedule.simps block_word_base256 [OF assms(1)])
  from extend_words [OF this, of 64] show ?thesis
    using assms(2) unfolding message_words_def by simp
qed

lemma process_block_fips:
  assumes "length block = 64"
  shows "process_block block st = fips_compress block st"
proof -
  have "sha_round (message_words block) i r = fips_round (fips_schedule block) i r" if "i < 64" for i r
    using that message_schedule [OF assms that]
    by (cases r) (simp add: sha_round_def fips_round_def Let_def round_constants fips_Sigma0_def fips_Sigma1_def fips_ch_def fips_maj_def rotr_word_rotr)
  then have "fold (sha_round (message_words block)) [0..<64] r = fold (fips_round (fips_schedule block)) [0..<64] r" for r
    by (intro fold_cong) auto
  then show ?thesis by (simp add: process_block_def fips_compress_def Let_def)
qed

section \<open>The context\<close>

text \<open>Absorbing a message: the state after its whole blocks and the bytes left over.\<close>

function absorb :: "u32 list \<Rightarrow> u8 list \<Rightarrow> u32 list \<times> u8 list" where
  "absorb st m = (if length m < 64 then (st, m) else absorb (process_block (take 64 m) st) (drop 64 m))"
  by pat_completeness auto

termination
  by (relation "measure (\<lambda>(st, m). length m)") auto

declare absorb.simps [simp del]

lemma absorb_short: "length m < 64 \<Longrightarrow> absorb st m = (st, m)"
  by (simp add: absorb.simps)

lemma absorb_block: "length b = 64 \<Longrightarrow> absorb st (b @ d) = absorb (process_block b st) d"
  by (simp add: absorb.simps [of st "b @ d"])

lemma absorb_append: "absorb st m = (st', r) \<Longrightarrow> absorb st (m @ d) = absorb st' (r @ d)"
proof (induction st m rule: absorb.induct)
  case (1 st m)
  show ?case
  proof (cases "length m < 64")
    case True
    then show ?thesis using "1.prems" by (simp add: absorb_short)
  next
    case False
    then have "absorb (process_block (take 64 m) st) (drop 64 m) = (st', r)" using "1.prems" by (simp add: absorb.simps)
    from "1.IH" [OF False this] show ?thesis using False absorb.simps [of st "m @ d"] by simp
  qed
qed

lemma absorb_rest: "absorb st m = (st', r) \<Longrightarrow> length r = length m mod 64"
proof (induction st m rule: absorb.induct)
  case (1 st m)
  show ?case
  proof (cases "length m < 64")
    case True
    then show ?thesis using "1.prems" by (simp add: absorb_short)
  next
    case False
    then have "absorb (process_block (take 64 m) st) (drop 64 m) = (st', r)" using "1.prems" by (simp add: absorb.simps)
    from "1.IH" [OF False this] show ?thesis using False by (simp add: le_mod_geq)
  qed
qed

lemma absorb_blocks: "fst (absorb st m) = fold fips_compress (blocks_of m) st"
proof (induction st m rule: absorb.induct)
  case (1 st m)
  then show ?case by (cases "length m < 64") (simp_all add: absorb.simps [of st m] blocks_of.simps [of m] process_block_fips)
qed

definition buffered :: "sha256_context \<Rightarrow> u8 list" where
  "buffered c = take (sh_buffer_length c) (sh_buffer c)"

definition context_ok :: "sha256_context \<Rightarrow> bool" where
  "context_ok c \<longleftrightarrow> length (sh_buffer c) = 64 \<and> sh_buffer_length c < 64"

lemma buffered_length: "context_ok c \<Longrightarrow> length (buffered c) = sh_buffer_length c"
  by (simp add: buffered_def context_ok_def)

text \<open>The update loop returns, whatever the data, and its context has absorbed them.\<close>

lemma update_loop_ok:
  assumes "context_ok c"
  shows "\<exists>c'. update_loop data c = Some c' \<and> context_ok c' \<and> sh_total_length c' = sh_total_length c \<and>
    absorb (sh_state c) (buffered c @ data) = (sh_state c', buffered c')"
  using assms
proof (induction "length data" arbitrary: data c rule: less_induct)
  case less
  have ok: "length (sh_buffer c) = 64" "sh_buffer_length c < 64" using less.prems by (simp_all add: context_ok_def)
  show ?case
  proof (cases "data = []")
    case True
    then show ?thesis using less.prems buffered_length [OF less.prems] ok(2)
      by (subst update_loop.simps) (simp add: absorb_short)
  next
    case False
    let ?n = "min (64 - sh_buffer_length c) (length data)"
    let ?b = "copy_at (sh_buffer_length c) (take ?n data) (sh_buffer c)"
    let ?c1 = "c\<lparr>sh_buffer := ?b, sh_buffer_length := sh_buffer_length c + ?n\<rparr>"
    let ?c2 = "if sh_buffer_length ?c1 = 64 then ?c1\<lparr>sh_state := process_block (sh_buffer ?c1) (sh_state ?c1), sh_buffer_length := 0\<rparr> else ?c1"
    have n: "0 < ?n" "?n \<le> length data" "sh_buffer_length c + ?n \<le> 64" using False ok(2) by auto
    have step: "update_loop data c = update_loop (drop ?n data) ?c2"
      using False by (subst update_loop.simps) (simp add: Let_def)
    have b: "length ?b = 64" "take (sh_buffer_length c + ?n) ?b = buffered c @ take ?n data"
      using ok n by (auto simp: copy_at_def buffered_def min_def)
    have ok2: "context_ok ?c2" using b(1) n(3) by (auto simp: context_ok_def)
    have "length (drop ?n data) < length data" using n False by simp
    from less.hyps [OF this ok2] obtain c' where c': "update_loop (drop ?n data) ?c2 = Some c'" "context_ok c'"
      "sh_total_length c' = sh_total_length ?c2" "absorb (sh_state ?c2) (buffered ?c2 @ drop ?n data) = (sh_state c', buffered c')"
      by blast
    have "absorb (sh_state c) (buffered c @ data) = absorb (sh_state ?c2) (buffered ?c2 @ drop ?n data)"
    proof (cases "sh_buffer_length c + ?n = 64")
      case True
      have full: "?b = buffered c @ take ?n data" using b True by simp
      have "buffered c @ data = ?b @ drop ?n data" unfolding full by simp
      then have "absorb (sh_state c) (buffered c @ data) = absorb (process_block ?b (sh_state c)) (drop ?n data)"
        using absorb_block [OF b(1)] by (simp only:)
      then show ?thesis using True by (simp add: buffered_def)
    next
      case part: False
      then have "buffered ?c2 = buffered c @ take ?n data" "sh_state ?c2 = sh_state c" using b(2) by (simp_all add: buffered_def)
      then show ?thesis by simp
    qed
    moreover have "sh_total_length ?c2 = sh_total_length c" by simp
    ultimately show ?thesis using c' step by metis
  qed
qed

definition absorbed :: "sha256_context \<Rightarrow> u8 list \<Rightarrow> bool" where
  "absorbed c m \<longleftrightarrow> context_ok c \<and> sh_total_length c = of_nat (length m) \<and> absorb kInitialState m = (sh_state c, buffered c)"

lemma absorbed_new: "absorbed sha_new []"
  by (simp add: absorbed_def sha_new_def context_ok_def buffered_def absorb_short)

lemma update_ok:
  assumes "absorbed c m"
  obtains c' where "sha_update d c = Some c'" and "absorbed c' (m @ d)"
proof -
  let ?c = "c\<lparr>sh_total_length := sh_total_length c + of_nat (length d)\<rparr>"
  have "context_ok ?c" "buffered ?c = buffered c" using assms by (simp_all add: absorbed_def context_ok_def buffered_def)
  with update_loop_ok [of ?c d] obtain c' where "update_loop d ?c = Some c'" "context_ok c'"
    "sh_total_length c' = sh_total_length ?c" "absorb (sh_state c) (buffered c @ d) = (sh_state c', buffered c')" by auto
  moreover have "absorb kInitialState (m @ d) = absorb (sh_state c) (buffered c @ d)"
    using assms by (intro absorb_append) (simp add: absorbed_def)
  ultimately show thesis using assms by (intro that [of c']) (simp_all add: sha_update_def absorbed_def)
qed

lemma absorbed_length: "absorbed c m \<Longrightarrow> sh_buffer_length c = length m mod 64"
  using absorb_rest [of kInitialState m] buffered_length [of c] by (simp add: absorbed_def)

definition zeros_for :: "nat \<Rightarrow> nat" where
  "zeros_for x = (if x \<le> 56 then 56 - x else 120 - x)"

lemma zeros_next:
  assumes "zeros_for (n mod 64) = Suc k"
  shows "n mod 64 \<noteq> 56" and "zeros_for (Suc n mod 64) = k"
proof -
  have "n mod 64 < 64" by simp
  then show "n mod 64 \<noteq> 56" and "zeros_for (Suc n mod 64) = k"
    using assms by (auto simp: zeros_for_def mod_Suc split: if_splits)
qed

lemma zeros_done: "zeros_for (n mod 64) = 0 \<Longrightarrow> n mod 64 = 56"
  using mod_less_divisor [of 64 n] by (auto simp: zeros_for_def split: if_splits)

lemma zeros_fips: "zeros_for (Suc n mod 64) = (119 - n mod 64) mod 64"
proof -
  obtain x where x: "n mod 64 = x" "x < 64" by simp
  have s: "Suc n mod 64 = (if x = 63 then 0 else Suc x)" by (simp add: mod_Suc x(1))
  show ?thesis
  proof (cases "x \<le> 55")
    case True
    then have "119 - x = 55 - x + 64" by simp
    then have "(119 - x) mod 64 = 55 - x" by (simp only: mod_add_self2) (use True in simp)
    then show ?thesis unfolding s x(1) using True by (simp add: zeros_for_def)
  next
    case False
    then have "(119 - x) mod 64 = 119 - x" by simp
    then show ?thesis unfolding s x(1) using False x(2) by (simp add: zeros_for_def)
  qed
qed

lemma pad_ok:
  assumes "absorbed c m"
  shows "\<exists>c'. pad_loop c = Some c' \<and> absorbed c' (m @ replicate (zeros_for (length m mod 64)) 0)"
  using assms
proof (induction "zeros_for (length m mod 64)" arbitrary: c m)
  case 0
  have "sh_buffer_length c = 56" using zeros_done 0(1) absorbed_length [OF 0(2)] by simp
  then have "pad_loop c = Some c" by (subst pad_loop.simps) simp
  then show ?case using 0 by auto
next
  case (Suc k)
  have z: "zeros_for (length m mod 64) = Suc k" using Suc(2) by simp
  have next_len: "k = zeros_for (length (m @ [0]) mod 64)" using zeros_next(2) [OF z] by simp
  obtain c' where u: "sha_update [0] c = Some c'" "absorbed c' (m @ [0])" by (rule update_ok [OF Suc(3)])
  obtain c'' where c'': "pad_loop c' = Some c''" "absorbed c'' ((m @ [0]) @ replicate k 0)"
    using Suc(1) [OF next_len u(2)] next_len by auto
  have "sh_buffer_length c \<noteq> 56" using zeros_next(1) [OF z] absorbed_length [OF Suc(3)] by simp
  then have "pad_loop c = Some c''" using u(1) c''(1) by (subst pad_loop.simps) simp
  moreover have "m @ replicate (zeros_for (length m mod 64)) 0 = (m @ [0]) @ replicate k 0" by (simp add: z)
  ultimately show ?case using c''(2) by metis
qed

section \<open>Digests\<close>

lemma low_byte: "(ucast (w AND 0xff) :: u8) = ucast (w :: 'a::len word)"
proof -
  have m: "(0xff :: 'a word) = mask 8" by (simp add: mask_eq_exp_minus_1)
  show ?thesis unfolding m by (rule bit_word_eqI) (auto simp: bit_simps dest: bit_imp_le_length)
qed

lemma length_bytes_be: "length_bytes n = be_bytes 8 n"
  by (simp add: length_bytes_def be_bytes_def low_byte upt_conv_Cons)

lemma word_bytes_be:
  "[ucast (drop_bit 24 w AND 0xff), ucast (drop_bit 16 w AND 0xff), ucast (drop_bit 8 w AND 0xff), ucast (w AND 0xff)] = be_bytes 4 (w :: u32)"
  by (simp add: be_bytes_def low_byte upt_conv_Cons)

lemma digest_bytes_be:
  assumes "length st = 8"
  shows "digest_bytes st = concat (map (be_bytes 4) st)"
proof -
  have "map (be_bytes 4) (map ((!) st) [0..<length st]) = map (be_bytes 4) st" by (simp only: map_nth)
  then show ?thesis unfolding digest_bytes_def word_bytes_be assms by (simp only: map_map o_def)
qed

lemma compress_length: "length (fips_compress block st) = 8"
  by (simp add: fips_compress_def Let_def split: prod.split)

lemma fold_compress_length: "length st = 8 \<Longrightarrow> length (fold fips_compress bs st) = 8"
  by (induction bs arbitrary: st) (simp_all add: compress_length)

lemma finish_ok:
  assumes "absorbed c m"
  shows "sha_finish c = Some (fips_sha256 m)"
proof -
  obtain c1 where c1: "sha_update [0x80] c = Some c1" "absorbed c1 (m @ [0x80])" by (rule update_ok [OF assms])
  obtain c2 where c2: "pad_loop c1 = Some c2" "absorbed c2 ((m @ [0x80]) @ replicate (zeros_for (length (m @ [0x80 :: u8]) mod 64)) 0)"
    using pad_ok [OF c1(2)] by blast
  let ?n = "sh_total_length c * 8"
  obtain c3 where c3: "sha_update (length_bytes ?n) c2 = Some c3"
    "absorbed c3 (((m @ [0x80]) @ replicate (zeros_for (length (m @ [0x80 :: u8]) mod 64)) 0) @ length_bytes ?n)"
    by (rule update_ok [OF c2(2)])
  have "?n = of_nat (8 * length m)" using assms by (simp add: absorbed_def)
  then have "absorbed c3 (fips_pad m)" using c3(2) by (simp add: fips_pad_def length_bytes_be zeros_fips)
  then have "sh_state c3 = fold fips_compress (blocks_of (fips_pad m)) fips_H0"
    using absorb_blocks [of kInitialState "fips_pad m"] by (simp add: absorbed_def initial_state)
  moreover have "length fips_H0 = 8" by (simp add: initial_state kInitialState_def)
  ultimately have "digest_bytes (sh_state c3) = fips_sha256 m" using fold_compress_length by (simp add: digest_bytes_be fips_sha256_def)
  then show ?thesis by (simp add: sha_finish_def Let_def c1(1) c2(1) c3(1))
qed

lemma sha256_ok: "sha256 data = Some (fips_sha256 data)"
proof -
  obtain c where "sha_update data sha_new = Some c" "absorbed c ([] @ data)" by (rule update_ok [OF absorbed_new])
  then show ?thesis using finish_ok [of c data] by (simp add: sha256_def)
qed

lemma fips_length: "length (fips_sha256 m) = 32"
proof -
  let ?st = "fold fips_compress (blocks_of (fips_pad m)) fips_H0"
  have "length ?st = 8" by (rule fold_compress_length) (simp add: initial_state kInitialState_def)
  moreover have "length (concat (map (be_bytes 4) ws)) = 4 * length ws" for ws :: "u32 list"
    by (induction ws) (simp_all add: be_bytes_def)
  ultimately show ?thesis by (simp add: fips_sha256_def)
qed

lemma block_key_ok:
  "block_key key = Some (let key = (if length key > 64 then fips_sha256 key else key) in key @ replicate (64 - length key) 0)"
  by (auto simp: block_key_def sha256_ok copy_at_def fips_length)

text \<open>C35: the HMAC of the code returns for every key and message, and is that of RFC 2104 over the SHA-256 of FIPS 180-4:
  the message cut into the updates of an inner and an outer context hashes like the whole padded message.\<close>

theorem hmac_is_standard:
  "hmac_sha256 key message = Some (rfc2104_hmac key message) \<and> sha256 message = Some (fips_sha256 message)"
proof -
  let ?k = "let key = (if length key > 64 then fips_sha256 key else key) in key @ replicate (64 - length key) 0"
  let ?i = "map (\<lambda>b. b XOR 0x36) ?k" and ?o = "map (\<lambda>b. b XOR 0x5c) ?k"
  obtain i1 where i1: "sha_update ?i sha_new = Some i1" "absorbed i1 ([] @ ?i)" by (rule update_ok [OF absorbed_new])
  obtain i2 where i2: "sha_update message i1 = Some i2" "absorbed i2 (([] @ ?i) @ message)" by (rule update_ok [OF i1(2)])
  have fi: "sha_finish i2 = Some (fips_sha256 (?i @ message))" using finish_ok [OF i2(2)] by simp
  obtain o1 where o1: "sha_update ?o sha_new = Some o1" "absorbed o1 ([] @ ?o)" by (rule update_ok [OF absorbed_new])
  obtain o2 where o2: "sha_update (fips_sha256 (?i @ message)) o1 = Some o2" "absorbed o2 (([] @ ?o) @ fips_sha256 (?i @ message))"
    by (rule update_ok [OF o1(2)])
  have fo: "sha_finish o2 = Some (fips_sha256 (?o @ fips_sha256 (?i @ message)))" using finish_ok [OF o2(2)] by simp
  have "hmac_sha256 key message = Some (fips_sha256 (?o @ fips_sha256 (?i @ message)))"
    unfolding hmac_sha256_def block_key_ok using i1(1) i2(1) fi o1(1) o2(1) fo by (simp add: Let_def)
  then show ?thesis by (simp add: rfc2104_hmac_def Let_def sha256_ok)
qed

end
