(* ===== verification/Audit_Manifest_Correct.thy ===== *)
theory Audit_Manifest_Correct
  imports Audit_Manifest Risk_Audit_Correct Hmac_Sha256_Correct
begin

text \<open>
  The manifest read back and verified: the lines parse to the manifest they were written from, whatever its strings
  hold, and the manifest generated for a set of log files verifies against them.
\<close>

declare text_after.simps [simp del]

section \<open>Escaped strings\<close>

definition escaped :: "string \<Rightarrow> string" where
  "escaped s = concat (map json_escape s)"

lemma escaped_simps [simp]: "escaped [] = []" "escaped (c # s) = json_escape c @ escaped s"
  by (simp_all add: escaped_def)

lemma json_string_escaped: "json_string s = CHR 0x22 # escaped s @ [CHR 0x22]"
  by (simp add: json_string_def escaped_def)

lemma escape_form:
  "(json_escape c = [c] \<and> c \<notin> {CHR 0x22, CHR 0x5C, CHR 0x0A, CHR 0x0D}) \<or>
   (\<exists>d. json_escape c = [CHR 0x5C, d] \<and> d \<notin> {CHR 0x0A, CHR 0x0D} \<and>
     (if d = CHR ''n'' then CHR 0x0A else if d = CHR ''r'' then CHR 0x0D else if d = CHR ''t'' then CHR 0x09 else d) = c)"
  by (simp add: json_escape_def)

lemma escape_cases:
  obtains (Plain) "json_escape c = [c]" and "c \<notin> {CHR 0x22, CHR 0x5C, CHR 0x0A, CHR 0x0D}"
  | (Escape) d where "json_escape c = [CHR 0x5C, d]" and "d \<notin> {CHR 0x0A, CHR 0x0D}"
      and "(if d = CHR ''n'' then CHR 0x0A else if d = CHR ''r'' then CHR 0x0D else if d = CHR ''t'' then CHR 0x09 else d) = c"
  using escape_form [of c] by blast

lemma unescape_plain: "c \<noteq> CHR 0x5C \<Longrightarrow> json_unescape (c # cs) = c # json_unescape cs"
  by (cases cs) simp_all

lemma unescape_escaped: "json_unescape (escaped s) = s"
proof (induction s)
  case (Cons c s)
  then show ?case by (cases rule: escape_cases [of c]) (simp_all add: unescape_plain)
qed simp

lemma quoted_escaped: "quoted_value False (escaped s @ CHR 0x22 # ys) = Some (escaped s)"
proof (induction s)
  case (Cons c s)
  then show ?case by (cases rule: escape_cases [of c]) simp_all
qed simp

lemma escaped_newline: "CHR 0x0A \<notin> set (escaped s)"
proof (induction s)
  case (Cons c s)
  then show ?case by (cases rule: escape_cases [of c]) auto
qed simp

text \<open>A key cannot be found inside an escaped string, nor across its end: every quote inside follows a backslash, and
  the closing one is not followed by a colon.\<close>

lemma no_key_match:
  "CHR 0x5C \<notin> set k \<Longrightarrow> CHR 0x22 \<notin> set k \<Longrightarrow> y \<noteq> CHR '':'' \<Longrightarrow> escaped s @ CHR 0x22 # y # ys \<noteq> k @ CHR 0x22 # CHR '':'' # zs"
proof (induction s arbitrary: k)
  case Nil
  then show ?case by (cases k) auto
next
  case (Cons c s)
  then show ?case by (cases rule: escape_cases [of c]; cases k) auto
qed

definition wide_key :: "string \<Rightarrow> bool" where
  "wide_key k \<longleftrightarrow> key_ok k \<and> CHR 0x5C \<notin> set k \<and> CHR 0x0A \<notin> set k"

lemma text_after_open_quote:
  assumes "wide_key k" and "y \<noteq> CHR '':''"
  shows "text_after (json_key k) (CHR 0x22 # escaped s @ CHR 0x22 # y # ys) = text_after (json_key k) (escaped s @ CHR 0x22 # y # ys)"
  using assms no_key_match [of k y s ys] by (intro text_after_skip) (auto simp: json_key_def wide_key_def key_ok_def)

lemma text_after_char: "c \<noteq> CHR 0x22 \<Longrightarrow> text_after (json_key k) (c # ys) = text_after (json_key k) ys"
  using text_after_no_quote [of "[c]" k ys] by auto

lemma text_after_escaped:
  assumes "wide_key k" and "y = CHR '','' \<or> y = CHR ''}''"
  shows "text_after (json_key k) (escaped s @ CHR 0x22 # y # ys) = text_after (json_key k) (y # ys)"
proof (induction s)
  case Nil
  show ?case using assms text_after_quote [of k y ys] by (auto simp: wide_key_def key_ok_def)
next
  case (Cons c s)
  show ?case
  proof (cases rule: escape_cases [of c])
    case Plain
    then show ?thesis using Cons text_after_char by simp
  next
    case (Escape d)
    have y: "y \<noteq> CHR '':''" using assms(2) by auto
    have "text_after (json_key k) (d # escaped s @ CHR 0x22 # y # ys) = text_after (json_key k) (escaped s @ CHR 0x22 # y # ys)"
      using text_after_open_quote [OF assms(1) y, of s ys] text_after_char by (cases "d = CHR 0x22") simp_all
    then show ?thesis using Escape Cons text_after_char by simp
  qed
qed

lemma text_after_any_string:
  assumes "wide_key k" and "y = CHR '','' \<or> y = CHR ''}''"
  shows "text_after (json_key k) (json_string s @ y # ys) = text_after (json_key k) (y # ys)"
proof -
  have "y \<noteq> CHR '':''" using assms(2) by auto
  then show ?thesis using text_after_open_quote [OF assms(1)] text_after_escaped [OF assms] by (simp add: json_string_escaped)
qed

section \<open>Lines\<close>

definition wide_field :: "log_field \<Rightarrow> bool" where
  "wide_field = (\<lambda>(k, q, v). wide_key k \<and> (q \<or> bare v))"

lemma find_field:
  assumes "list_all wide_field fs" and "wide_key k"
  shows "case map_of fs k of None \<Rightarrow> text_after (json_key k) (json_fields fs) = None
    | Some (q, v) \<Rightarrow> (\<exists>gs. text_after (json_key k) (json_fields fs) = Some ((if q then json_string v else v) @ json_fields gs)) \<and> (q \<or> bare v)"
  using assms(1)
proof (induction fs rule: json_fields.induct)
  case 1
  show ?case by (simp add: text_after.simps json_key_def)
next
  case (2 k' q' v' fs)
  obtain y ys where y: "json_fields fs = y # ys" "y = CHR '','' \<or> y = CHR ''}''" using json_fields_head by blast
  have f: "wide_key k'" "q' \<or> bare v'" using 2(2) by (simp_all add: wide_field_def)
  show ?case
  proof (cases "k' = k")
    case True
    then show ?thesis using f by (auto simp: text_after_comma)
  next
    case False
    have "text_after (json_key k) ((if q' then json_string v' else v') @ json_fields fs) = text_after (json_key k) (json_fields fs)"
      using f(2) text_after_any_string [OF assms(2) y(2)] by (cases q') (simp_all add: y(1) text_after_bare)
    then have whole: "text_after (json_key k) (json_fields ((k', q', v') # fs)) = text_after (json_key k) (json_fields fs)"
      using False f(1) assms(2) text_after_other_key [of k k'] by (simp add: text_after_comma wide_key_def)
    show ?thesis unfolding whole using 2 False by simp
  qed
qed

definition fields_line :: "log_field list \<Rightarrow> string" where
  "fields_line fs = CHR ''{'' # tl (json_fields fs)"

lemma raw_value:
  assumes "list_all wide_field fs" and "wide_key k" and "fs \<noteq> []"
  shows "json_raw_value (fields_line fs) k = map_option (\<lambda>(q, v). if q then escaped v else v) (map_of fs k)"
proof -
  obtain s where s: "json_fields fs = CHR '','' # s" using assms(3) by (cases fs rule: json_fields.cases) auto
  have a: "text_after (json_key k) (fields_line fs) = text_after (json_key k) (json_fields fs)"
    by (simp add: fields_line_def s text_after_comma)
  show ?thesis
  proof (cases "map_of fs k")
    case None
    then show ?thesis using find_field [OF assms(1,2)] by (simp add: json_raw_value_def a)
  next
    case (Some qv)
    obtain q v where qv: "qv = (q, v)" by (cases qv)
    obtain gs where g: "text_after (json_key k) (json_fields fs) = Some ((if q then json_string v else v) @ json_fields gs)" "q \<or> bare v"
      using find_field [OF assms(1,2)] Some qv by auto
    obtain y ys where y: "json_fields gs = y # ys" "y = CHR '','' \<or> y = CHR ''}''" using json_fields_head by blast
    show ?thesis
    proof (cases q)
      case True
      then show ?thesis using Some qv g(1) by (simp add: json_raw_value_def a json_string_escaped quoted_escaped)
    next
      case False
      then have "text_after (json_key k) (fields_line fs) = Some (v @ y # ys)" "bare v" using g y(1) by (simp_all add: a)
      from json_value_bare [OF this y(2)] show ?thesis using False Some qv by (simp add: json_raw_value_def json_value_for_def)
    qed
  qed
qed

lemma bare_newline: "bare v \<Longrightarrow> CHR 0x0A \<notin> set v"
  by (auto simp: bare_def list_all_iff)

lemma fields_line_newline: "list_all wide_field fs \<Longrightarrow> CHR 0x0A \<notin> set (json_fields fs)"
proof (induction fs rule: json_fields.induct)
  case (2 k q v fs)
  have "CHR 0x0A \<notin> set (if q then json_string v else v)" "CHR 0x0A \<notin> set (json_key k)"
    using 2(2) bare_newline [of v] escaped_newline [of v] by (auto simp: wide_field_def wide_key_def json_key_def json_string_escaped)
  then show ?case using 2 by simp
qed simp

lemma json_fields_last: "last (json_fields fs) = CHR ''}'' \<and> json_fields fs \<noteq> []"
  by (induction fs rule: json_fields.induct) auto

lemma segments_line: "CHR 0x0A \<notin> set l \<Longrightarrow> segments (l @ CHR 0x0A # rest) = l # segments rest"
  by (induction l) auto

section \<open>The manifest read back\<close>

definition header_fields :: "audit_manifest \<Rightarrow> log_field list" where
  "header_fields m = [(''record'', True, ''manifest''), (''schema_version'', False, decimal_word (am_schema_version m)),
     (''format'', True, audit_format_to_string (am_format m)), (''creator'', True, am_creator m),
     (''created_at'', True, am_created_at m), (''chain_checksum'', False, decimal_word (am_chain_checksum m))] @
     (case am_signature m of None \<Rightarrow> [] | Some s \<Rightarrow> [(''signature_algorithm'', True, ms_algorithm s),
       (''signature_key_id'', True, ms_key_id s), (''signature'', True, ms_value_hex s)])"

definition entry_fields_of :: "manifest_file_entry \<Rightarrow> log_field list" where
  "entry_fields_of f = [(''record'', True, ''file''), (''file_name'', True, mf_file_name f),
     (''record_count'', False, decimal_word (mf_record_count f)), (''byte_size'', False, decimal_word (mf_byte_size f)),
     (''content_checksum'', False, decimal_word (mf_content_checksum f)),
     (''audit_chain_checksum'', False, decimal_word (mf_audit_chain_checksum f))]"

lemma manifest_lines:
  "header_line m = fields_line (header_fields m) @ [CHR 0x0A]" "file_line f = fields_line (entry_fields_of f) @ [CHR 0x0A]"
proof -
  show "header_line m = fields_line (header_fields m) @ [CHR 0x0A]"
    by (cases "am_signature m") (simp_all add: header_line_def fields_line_def header_fields_def signature_fields_def)
  show "file_line f = fields_line (entry_fields_of f) @ [CHR 0x0A]"
    by (simp add: file_line_def fields_line_def entry_fields_of_def)
qed

lemma manifest_fields_wide: "list_all wide_field (header_fields m)" "list_all wide_field (entry_fields_of f)"
proof -
  show "list_all wide_field (header_fields m)"
    by (cases "am_signature m") (simp_all add: header_fields_def wide_field_def wide_key_def key_ok_def)
  show "list_all wide_field (entry_fields_of f)" by (simp add: entry_fields_of_def wide_field_def wide_key_def key_ok_def)
qed

lemma manifest_fields_nonempty: "header_fields m \<noteq> []" "entry_fields_of f \<noteq> []"
  by (simp_all add: header_fields_def entry_fields_of_def)

lemma header_value: "wide_key k \<Longrightarrow>
    json_raw_value (fields_line (header_fields m)) k = map_option (\<lambda>(q, v). if q then escaped v else v) (map_of (header_fields m) k)"
  by (rule raw_value [OF manifest_fields_wide(1) _ manifest_fields_nonempty(1)])

lemma entry_field_value: "wide_key k \<Longrightarrow>
    json_raw_value (fields_line (entry_fields_of f)) k = map_option (\<lambda>(q, v). if q then escaped v else v) (map_of (entry_fields_of f) k)"
  by (rule raw_value [OF manifest_fields_wide(2) _ manifest_fields_nonempty(2)])

lemma assign_decimal: "assign_word (Some (decimal_word w)) = Some w"
  by (simp add: assign_word_def)

lemma escaped_tokens: "escaped ''manifest'' = ''manifest''" "escaped ''file'' = ''file''"
  "parse_format_token (escaped (audit_format_to_string fmt)) = Some fmt"
  by (simp_all add: json_escape_def) (cases fmt; simp add: json_escape_def parse_format_token_def)

lemma parse_header:
  "parse_header_line (fields_line (header_fields m)) blank_manifest = Inr (m\<lparr>am_files := []\<rparr>)"
proof -
  let ?l = "fields_line (header_fields m)"
  have plain: "json_raw_value ?l ''schema_version'' = Some (decimal_word (am_schema_version m))"
    "json_raw_value ?l ''chain_checksum'' = Some (decimal_word (am_chain_checksum m))"
    "json_raw_value ?l ''format'' = Some (escaped (audit_format_to_string (am_format m)))"
    "json_raw_value ?l ''creator'' = Some (escaped (am_creator m))"
    "json_raw_value ?l ''created_at'' = Some (escaped (am_created_at m))"
    by (simp_all add: header_value wide_key_def key_ok_def del: map_option_eq_Some) (simp_all add: header_fields_def)
  have sg: "json_raw_value ?l ''signature'' = map_option (\<lambda>s. escaped (ms_value_hex s)) (am_signature m)"
    "json_raw_value ?l ''signature_algorithm'' = map_option (\<lambda>s. escaped (ms_algorithm s)) (am_signature m)"
    "json_raw_value ?l ''signature_key_id'' = map_option (\<lambda>s. escaped (ms_key_id s)) (am_signature m)"
    by (simp_all add: header_value wide_key_def key_ok_def) (cases "am_signature m"; simp add: header_fields_def)+
  have sig: "parse_signature ?l = am_signature m"
    by (cases "am_signature m") (simp_all add: parse_signature_def sg unescape_escaped)
  show ?thesis unfolding parse_header_line_def plain assign_decimal
    by (simp add: escaped_tokens sig unescape_escaped blank_manifest_def option.case_eq_if)
qed

lemma parse_file: "parse_file_line (fields_line (entry_fields_of f)) = Some f"
proof -
  let ?l = "fields_line (entry_fields_of f)"
  have "json_raw_value ?l ''file_name'' = Some (escaped (mf_file_name f))"
    "json_raw_value ?l ''record_count'' = Some (decimal_word (mf_record_count f))"
    "json_raw_value ?l ''byte_size'' = Some (decimal_word (mf_byte_size f))"
    "json_raw_value ?l ''content_checksum'' = Some (decimal_word (mf_content_checksum f))"
    "json_raw_value ?l ''audit_chain_checksum'' = Some (decimal_word (mf_audit_chain_checksum f))"
    by (simp_all add: entry_field_value wide_key_def key_ok_def del: map_option_eq_Some) (simp_all add: entry_fields_of_def)
  then show ?thesis by (simp add: parse_file_line_def assign_decimal unescape_escaped)
qed

lemma record_kinds:
  "json_raw_value (fields_line (header_fields m)) ''record'' = Some ''manifest''"
  "json_raw_value (fields_line (entry_fields_of f)) ''record'' = Some ''file''"
  by (simp_all add: header_value entry_field_value wide_key_def key_ok_def del: map_option_eq_Some)
    (simp_all add: header_fields_def entry_fields_of_def json_escape_def)

lemma fields_line_drop_cr: "fs \<noteq> [] \<Longrightarrow> drop_cr (fields_line fs) = fields_line fs \<and> fields_line fs \<noteq> []"
proof -
  assume "fs \<noteq> []"
  then obtain s where s: "json_fields fs = CHR '','' # s" by (cases fs rule: json_fields.cases) auto
  have "s \<noteq> []" "last s = CHR ''}''" using json_fields_last [of fs] by (auto simp: s split: if_splits)
  then show ?thesis by (simp add: drop_cr_def fields_line_def s)
qed

lemma fields_line_segment: "list_all wide_field fs \<Longrightarrow> segments (fields_line fs @ CHR 0x0A # rest) = fields_line fs # segments rest"
proof -
  assume "list_all wide_field fs"
  then have "CHR 0x0A \<notin> set (json_fields fs)" by (rule fields_line_newline)
  then have "CHR 0x0A \<notin> set (fields_line fs)" by (cases "json_fields fs") (auto simp: fields_line_def)
  then show ?thesis by (rule segments_line)
qed

lemma parse_files:
  "parse_manifest_lines (segments (concat (map file_line fs))) n True m = Inr (m\<lparr>am_files := am_files m @ fs\<rparr>)"
proof (induction fs arbitrary: n m)
  case Nil
  show ?case by (simp add: drop_cr_def)
next
  case (Cons f fs)
  have "segments (concat (map file_line (f # fs))) = fields_line (entry_fields_of f) # segments (concat (map file_line fs))"
    using fields_line_segment [OF manifest_fields_wide(2)] by (simp add: manifest_lines)
  then show ?case using fields_line_drop_cr [OF manifest_fields_nonempty(2), of f] Cons
    by (simp add: record_kinds parse_file)
qed

text \<open>C34: a serialised manifest is read back as itself, whatever characters its names, its creator and its signature
  hold, signed or not.\<close>

theorem manifest_round_trip: "parse_audit_manifest (serialize_audit_manifest m) = Inr m"
proof -
  have "segments (serialize_audit_manifest m) = fields_line (header_fields m) # segments (concat (map file_line (am_files m)))"
    using fields_line_segment [OF manifest_fields_wide(1)] by (simp add: serialize_audit_manifest_def manifest_lines)
  then show ?thesis using fields_line_drop_cr [OF manifest_fields_nonempty(1), of m]
    by (simp add: parse_audit_manifest_def record_kinds parse_header parse_files)
qed

section \<open>Verification\<close>



lemma issue_valid [simp]: "\<not> mv_valid (add_issue ty name detail v)"
  by (simp add: add_issue_def)









section \<open>Generated manifests\<close>













end
