(* ===== verification/Synthetic_Generator.thy ===== *)
theory Synthetic_Generator
  imports Market_Event
begin

text \<open>
  \<^verbatim>\<open>market_data/synthetic_generator.hpp\<close> and
  \<^verbatim>\<open>market_data/synthetic_generator.cpp\<close>: the streams of synthetic events and the adapter that
  hands them out. The values the distributions of the standard library produce are not fixed by the standard: a
  draw of a uniform integer between two bounds is the parameter \<open>draw\<close>, which takes the engine's state and
  returns the value with the next state, and \<open>seeded\<close> is the engine's constructor.
\<close>

section \<open>Configuration\<close>

datatype synthetic_flow_mode = Sf_Balanced | Sf_HighCancellationRate | Sf_ReplaceHeavy | Sf_DeepBook | Sf_BurstyFlow |
  Sf_LongRunningSameSymbol | Sf_MultiSymbol | Sf_WidePriceRange | Sf_AdversarialLifecycle

record generator_config =
  gc_symbol_id :: symbol_id
  gc_event_count :: nat
  gc_first_sequence_number :: sequence_number
  gc_first_timestamp_ns :: timestamp_ns
  gc_seed :: u32
  gc_mode :: synthetic_flow_mode
  gc_symbol_count :: nat
  gc_mid_price_ticks :: price_ticks
  gc_price_range_ticks :: price_ticks
  gc_burst_size :: nat

definition default_generator_config :: generator_config where
  "default_generator_config = \<lparr>gc_symbol_id = 1, gc_event_count = 100, gc_first_sequence_number = 1,
     gc_first_timestamp_ns = 1000000, gc_seed = 7, gc_mode = Sf_Balanced, gc_symbol_count = 1,
     gc_mid_price_ticks = 1000, gc_price_range_ticks = 5, gc_burst_size = 8\<rparr>"

record active_order =
  ao_order_id :: order_id
  ao_symbol_id :: symbol_id
  ao_side :: side
  ao_price_ticks :: price_ticks
  ao_quantity :: quantity

type_synonym 'g draws = "'g \<Rightarrow> int \<Rightarrow> int \<Rightarrow> int \<times> 'g"

section \<open>Choices\<close>

definition random_side :: "'g draws \<Rightarrow> 'g \<Rightarrow> side \<times> 'g" where
  "random_side draw g = (let (v, g) = draw g 0 1 in (if v = 0 then Buy else Sell, g))"

definition symbol_for_index :: "generator_config \<Rightarrow> nat \<Rightarrow> symbol_id" where
  "symbol_for_index cfg i =
     (let symbol_count = (if gc_mode cfg = Sf_MultiSymbol then max 1 (gc_symbol_count cfg) else 1)
      in gc_symbol_id cfg + of_nat (i mod symbol_count))"

definition timestamp_for_index :: "generator_config \<Rightarrow> nat \<Rightarrow> timestamp_ns" where
  "timestamp_for_index cfg i =
     (if gc_mode cfg \<noteq> Sf_BurstyFlow then gc_first_timestamp_ns cfg + int i
      else let burst_size = max 1 (gc_burst_size cfg) in gc_first_timestamp_ns cfg + int (i div burst_size))"

definition price_range_for_mode :: "generator_config \<Rightarrow> price_ticks" where
  "price_range_for_mode cfg =
     (if gc_mode cfg = Sf_DeepBook then max (gc_price_range_ticks cfg) 100
      else if gc_mode cfg = Sf_WidePriceRange then max (gc_price_range_ticks cfg) 500
      else max (gc_price_range_ticks cfg) 1)"

definition random_price :: "'g draws \<Rightarrow> generator_config \<Rightarrow> side \<Rightarrow> 'g \<Rightarrow> price_ticks \<times> 'g" where
  "random_price draw cfg sd g =
     (let (depth, g) = draw g 1 (price_range_for_mode cfg);
          price = (if sd = Buy then gc_mid_price_ticks cfg - depth else gc_mid_price_ticks cfg + depth)
      in (max 1 price, g))"

definition should_add :: "generator_config \<Rightarrow> int \<Rightarrow> bool \<Rightarrow> bool" where
  "should_add cfg roll active_empty = (if active_empty then True else (case gc_mode cfg of
       Sf_HighCancellationRate \<Rightarrow> roll < 35
     | Sf_ReplaceHeavy \<Rightarrow> roll < 35
     | Sf_DeepBook \<Rightarrow> roll < 75
     | Sf_LongRunningSameSymbol \<Rightarrow> roll < 50
     | _ \<Rightarrow> roll < 55))"

definition choose_existing_order_event :: "generator_config \<Rightarrow> int \<Rightarrow> market_event_type" where
  "choose_existing_order_event cfg roll =
     (if gc_mode cfg = Sf_HighCancellationRate
      then (if roll < 85 then Ev_Cancel else if roll < 95 then Ev_Replace else Ev_Execute)
      else if gc_mode cfg = Sf_ReplaceHeavy
      then (if roll < 85 then Ev_Replace else if roll < 95 then Ev_Cancel else Ev_Execute)
      else if roll < 75 then Ev_Cancel
      else if roll < 90 then Ev_Replace else Ev_Execute)"

section \<open>The scripted lifecycle\<close>

text \<open>What the lambda \<^verbatim>\<open>push\<close> is called with: type, side, price, quantity, order id, trade id.\<close>

type_synonym push_call = "market_event_type \<times> side \<times> price_ticks \<times> quantity \<times> order_id \<times> trade_id"

definition push_event :: "generator_config \<Rightarrow> market_data_event list \<Rightarrow> push_call \<Rightarrow> market_data_event list" where
  "push_event cfg events = (\<lambda>(ty, sd, price, quantity, order_id, trade_id).
     if length events \<ge> gc_event_count cfg then events
     else let index = length events in
       events @ [\<lparr>ev_timestamp_ns = gc_first_timestamp_ns cfg + int index,
         ev_sequence_number = gc_first_sequence_number cfg + of_nat index, ev_symbol_id = gc_symbol_id cfg,
         ev_event_type = ty, ev_side = sd, ev_price_ticks = price, ev_quantity = quantity, ev_order_id = order_id,
         ev_trade_id = trade_id, ev_flags = 0\<rparr>])"

definition adversarial_cycle :: "generator_config \<Rightarrow> nat \<Rightarrow> order_id \<Rightarrow> trade_id \<Rightarrow> push_call list" where
  "adversarial_cycle cfg cycle order_id trade_id =
     (let buy_id = order_id; sell_id = order_id + 1;
          bid = max 1 (gc_mid_price_ticks cfg - 5 - int (cycle mod 17));
          ask = gc_mid_price_ticks cfg + 5 + int (cycle mod 17);
          bid_reuse = max 1 (bid - 1); bid_reprice = max 1 (bid - 2)
      in [(Ev_Add, Buy, bid, 100, buy_id, 0),
          (Ev_Cancel, Buy, bid, 0, buy_id, 0),
          (Ev_Add, Buy, bid_reuse, 80, buy_id, 0),
          (Ev_Replace, Buy, bid_reuse, 120, buy_id, 0),
          (Ev_Replace, Buy, bid_reuse, 60, buy_id, 0),
          (Ev_Replace, Buy, bid_reprice, 70, buy_id, 0),
          (Ev_Cancel, Buy, bid_reprice, 0, buy_id, 0),
          (Ev_Add, Sell, ask, 90, sell_id, 0),
          (Ev_Execute, Sell, ask, 30, sell_id, trade_id),
          (Ev_Replace, Sell, ask + 1, 50, sell_id, 0),
          (Ev_Execute, Sell, ask + 1, 50, sell_id, trade_id + 1),
          (Ev_Add, Sell, ask, 40, sell_id, 0),
          (Ev_Cancel, Sell, ask, 20, sell_id, 0),
          (Ev_Cancel, Sell, ask, 0, sell_id, 0),
          (Ev_Trade, Buy, bid, 1, kInvalidOrderId, trade_id + 2),
          (Ev_Heartbeat, NoSide, 0, 0, kInvalidOrderId, 0)])"

lemma push_length: "length (push_event cfg events c) =
    (if length events \<ge> gc_event_count cfg then length events else Suc (length events))"
  by (cases c) (simp add: push_event_def Let_def)

lemma pushes_grow: "length events \<le> length (foldl (push_event cfg) events cs)"
proof (induction cs arbitrary: events)
  case (Cons c cs)
  have "length events \<le> length (push_event cfg events c)" by (simp add: push_length)
  also have "\<dots> \<le> length (foldl (push_event cfg) (push_event cfg events c) cs)" by (rule Cons.IH)
  finally show ?case by simp
qed simp

lemma cycle_progress:
  assumes "length events < gc_event_count cfg"
  shows "length events < length (foldl (push_event cfg) events (adversarial_cycle cfg cycle order_id trade_id))"
proof -
  obtain c cs where c: "adversarial_cycle cfg cycle order_id trade_id = c # cs" by (simp add: adversarial_cycle_def Let_def)
  have "length events < length (push_event cfg events c)" using assms by (simp add: push_length)
  also have "\<dots> \<le> length (foldl (push_event cfg) (push_event cfg events c) cs)" by (rule pushes_grow)
  finally show ?thesis by (simp add: c)
qed

text \<open>The \<^verbatim>\<open>while\<close> loop; each turn takes two order ids and three trade ids.\<close>

function adversarial_loop ::
  "generator_config \<Rightarrow> nat \<Rightarrow> order_id \<Rightarrow> trade_id \<Rightarrow> market_data_event list \<Rightarrow> market_data_event list" where
  "adversarial_loop cfg cycle order_id trade_id events =
     (if length events < gc_event_count cfg
      then adversarial_loop cfg (cycle + 1) (order_id + 2) (trade_id + 3)
             (foldl (push_event cfg) events (adversarial_cycle cfg cycle order_id trade_id))
      else events)"
  by pat_completeness auto

termination
  by (relation "measure (\<lambda>(cfg, cycle, order_id, trade_id, events). gc_event_count cfg - length events)")
    (use cycle_progress in \<open>auto intro!: diff_less_mono2\<close>)

declare adversarial_loop.simps [simp del]

definition generate_adversarial_lifecycle_events :: "generator_config \<Rightarrow> market_data_event list" where
  "generate_adversarial_lifecycle_events cfg = adversarial_loop cfg 0 1 1 []"

section \<open>The random flow\<close>

record 'g generator =
  gn_rng :: 'g
  gn_events :: "market_data_event list"
  gn_active :: "active_order list"
  gn_next_order_id :: order_id
  gn_next_trade_id :: trade_id

text \<open>The event an active order is written with.\<close>

definition order_event ::
  "generator_config \<Rightarrow> nat \<Rightarrow> market_event_type \<Rightarrow> active_order \<Rightarrow> quantity \<Rightarrow> trade_id \<Rightarrow> market_data_event" where
  "order_event cfg i ty a quantity trade_id = \<lparr>ev_timestamp_ns = timestamp_for_index cfg i,
     ev_sequence_number = gc_first_sequence_number cfg + of_nat i, ev_symbol_id = ao_symbol_id a, ev_event_type = ty,
     ev_side = ao_side a, ev_price_ticks = ao_price_ticks a, ev_quantity = quantity, ev_order_id = ao_order_id a,
     ev_trade_id = trade_id, ev_flags = 0\<rparr>"

definition erase_at :: "nat \<Rightarrow> 'a list \<Rightarrow> 'a list" where
  "erase_at k xs = take k xs @ drop (Suc k) xs"

definition generate_add :: "'g draws \<Rightarrow> generator_config \<Rightarrow> nat \<Rightarrow> 'g generator \<Rightarrow> 'g generator" where
  "generate_add draw cfg i s =
     (let (sd, g) = random_side draw (gn_rng s);
          (price, g) = random_price draw cfg sd g;
          (quantity, g) = draw g 1 250;
          a = \<lparr>ao_order_id = gn_next_order_id s, ao_symbol_id = symbol_for_index cfg i, ao_side = sd,
               ao_price_ticks = price, ao_quantity = quantity\<rparr>
      in s\<lparr>gn_rng := g, gn_next_order_id := gn_next_order_id s + 1, gn_active := gn_active s @ [a],
           gn_events := gn_events s @ [order_event cfg i Ev_Add a quantity 0]\<rparr>)"

definition generate_cancel :: "generator_config \<Rightarrow> nat \<Rightarrow> nat \<Rightarrow> 'g generator \<Rightarrow> 'g generator" where
  "generate_cancel cfg i k s =
     s\<lparr>gn_events := gn_events s @ [order_event cfg i Ev_Cancel (gn_active s ! k) 0 0],
       gn_active := erase_at k (gn_active s)\<rparr>"

definition generate_replace :: "'g draws \<Rightarrow> generator_config \<Rightarrow> nat \<Rightarrow> nat \<Rightarrow> 'g generator \<Rightarrow> 'g generator" where
  "generate_replace draw cfg i k s =
     (let a = gn_active s ! k; (price, g) = random_price draw cfg (ao_side a) (gn_rng s); (quantity, g) = draw g 1 250;
          a = a\<lparr>ao_price_ticks := price, ao_quantity := quantity\<rparr>
      in s\<lparr>gn_rng := g, gn_active := (gn_active s)[k := a],
           gn_events := gn_events s @ [order_event cfg i Ev_Replace a quantity 0]\<rparr>)"

definition generate_execute :: "'g draws \<Rightarrow> generator_config \<Rightarrow> nat \<Rightarrow> nat \<Rightarrow> 'g generator \<Rightarrow> 'g generator" where
  "generate_execute draw cfg i k s =
     (let a = gn_active s ! k; (executed, g) = draw (gn_rng s) 1 (ao_quantity a);
          left = ao_quantity a - executed;
          active = (gn_active s)[k := a\<lparr>ao_quantity := left\<rparr>]
      in s\<lparr>gn_rng := g, gn_next_trade_id := gn_next_trade_id s + 1,
           gn_events := gn_events s @ [order_event cfg i Ev_Execute a executed (gn_next_trade_id s)],
           gn_active := (if left = 0 then erase_at k active else active)\<rparr>)"

definition generate_step :: "'g draws \<Rightarrow> generator_config \<Rightarrow> nat \<Rightarrow> 'g generator \<Rightarrow> 'g generator" where
  "generate_step draw cfg i s =
     (let (roll, g) = draw (gn_rng s) 0 99; s = s\<lparr>gn_rng := g\<rparr> in
      if should_add cfg roll (gn_active s = []) then generate_add draw cfg i s
      else let (k, g) = draw (gn_rng s) 0 (int (length (gn_active s)) - 1); s = s\<lparr>gn_rng := g\<rparr>;
               ty = choose_existing_order_event cfg roll
      in if ty = Ev_Cancel then generate_cancel cfg i (nat k) s
         else if ty = Ev_Replace then generate_replace draw cfg i (nat k) s
         else generate_execute draw cfg i (nat k) s)"

definition generate_synthetic_events ::
  "'g draws \<Rightarrow> (u32 \<Rightarrow> 'g) \<Rightarrow> generator_config \<Rightarrow> market_data_event list" where
  "generate_synthetic_events draw seeded cfg =
     (if gc_mode cfg = Sf_AdversarialLifecycle then generate_adversarial_lifecycle_events cfg
      else gn_events (fold (generate_step draw cfg) [0..<gc_event_count cfg]
        \<lparr>gn_rng = seeded (gc_seed cfg), gn_events = [], gn_active = [], gn_next_order_id = 1, gn_next_trade_id = 1\<rparr>))"

section \<open>The adapter\<close>

record simulated_adapter =
  sa_events :: "market_data_event list"
  sa_cursor :: nat

definition sa_new :: "'g draws \<Rightarrow> (u32 \<Rightarrow> 'g) \<Rightarrow> generator_config \<Rightarrow> simulated_adapter" where
  "sa_new draw seeded cfg = \<lparr>sa_events = generate_synthetic_events draw seeded cfg, sa_cursor = 0\<rparr>"

definition sa_next :: "simulated_adapter \<Rightarrow> market_data_event option \<times> simulated_adapter" where
  "sa_next a = (if sa_cursor a \<ge> length (sa_events a) then (None, a)
     else (Some (sa_events a ! sa_cursor a), a\<lparr>sa_cursor := sa_cursor a + 1\<rparr>))"

function sa_drain_loop :: "simulated_adapter \<Rightarrow> market_data_event list \<Rightarrow> market_data_event list \<times> simulated_adapter" where
  "sa_drain_loop a remaining = (case sa_next a of
       (None, a) \<Rightarrow> (remaining, a)
     | (Some e, a) \<Rightarrow> sa_drain_loop a (remaining @ [e]))"
  by pat_completeness auto

termination
  by (relation "measure (\<lambda>(a, remaining). length (sa_events a) - sa_cursor a)")
    (auto simp: sa_next_def split: if_splits)

declare sa_drain_loop.simps [simp del]

definition sa_drain :: "simulated_adapter \<Rightarrow> market_data_event list \<times> simulated_adapter" where
  "sa_drain a = sa_drain_loop a []"

end
