(* ===== verification/Replay_Aggregate.thy ===== *)
theory Replay_Aggregate
  imports Replay
begin

text \<open>
  \<^verbatim>\<open>market_data/replay_aggregate.hpp\<close> and \<^verbatim>\<open>market_data/replay_aggregate.cpp\<close>:
  the replay of a stream of several symbols, once by grouping the stream by symbol and running one
  replay engine for each group, once in a single pass over a shared set of books, and the report that
  compares the two. A \<^verbatim>\<open>std::map\<close> is an association list in key order; the
  functions that write through a \<^verbatim>\<open>SharedSymbolState&\<close> return the state. The predicates on event types
  that the file repeats from \<^verbatim>\<open>replay.cpp\<close> are those of the theory \<^verbatim>\<open>Replay\<close>.
\<close>

section \<open>Configuration and results\<close>

record aggregate_config =
  ac_replay_config :: replay_config
  ac_validate_per_symbol_sequences :: bool

record symbol_summary =
  sr_symbol_id :: symbol_id
  sr_event_count :: nat
  sr_first_sequence :: sequence_number
  sr_last_sequence :: sequence_number
  sr_first_timestamp :: timestamp_ns
  sr_last_timestamp :: timestamp_ns
  sr_sequence_valid :: bool
  sr_event_log_checksum :: u64
  sr_final_book_checksum :: u64
  sr_execution_report_checksum :: u64
  sr_diagnostics_checksum :: u64
  sr_diagnostic_count :: nat
  sr_diagnostic_error_count :: nat
  sr_diagnostic_warning_count :: nat
  sr_diagnostics :: "replay_diagnostic list"
  sr_error :: string

record aggregate_summary =
  as_total_events :: nat
  as_symbol_count :: nat
  as_combined_book_checksum :: u64
  as_aggregate_checksum :: u64
  as_symbols :: "symbol_summary list"
  as_error :: string

definition blank_summary :: symbol_summary where
  "blank_summary = \<lparr>sr_symbol_id = kInvalidSymbolId, sr_event_count = 0, sr_first_sequence = 0, sr_last_sequence = 0,
     sr_first_timestamp = 0, sr_last_timestamp = 0, sr_sequence_valid = True, sr_event_log_checksum = 0,
     sr_final_book_checksum = 0, sr_execution_report_checksum = 0, sr_diagnostics_checksum = 0, sr_diagnostic_count = 0,
     sr_diagnostic_error_count = 0, sr_diagnostic_warning_count = 0, sr_diagnostics = [], sr_error = []\<rparr>"

definition blank_aggregate :: aggregate_summary where
  "blank_aggregate = \<lparr>as_total_events = 0, as_symbol_count = 0, as_combined_book_checksum = 0, as_aggregate_checksum = 0,
     as_symbols = [], as_error = []\<rparr>"

definition append_summary_checksum :: "u64 \<Rightarrow> symbol_summary \<Rightarrow> u64" where
  "append_summary_checksum seed s =
     (let seed = checksum_append_u32 seed (sr_symbol_id s);
          seed = checksum_append_size seed (sr_event_count s);
          seed = checksum_append_u64 seed (sr_first_sequence s);
          seed = checksum_append_u64 seed (sr_last_sequence s);
          seed = checksum_append_i64 seed (sr_first_timestamp s);
          seed = checksum_append_i64 seed (sr_last_timestamp s);
          seed = checksum_append_u8 seed (if sr_sequence_valid s then 1 else 0);
          seed = checksum_append_u64 seed (sr_event_log_checksum s);
          seed = checksum_append_u64 seed (sr_final_book_checksum s);
          seed = checksum_append_u64 seed (sr_execution_report_checksum s);
          seed = checksum_append_u64 seed (sr_diagnostics_checksum s);
          seed = checksum_append_size seed (sr_diagnostic_count s);
          seed = checksum_append_size seed (sr_diagnostic_error_count s);
          seed = checksum_append_size seed (sr_diagnostic_warning_count s)
      in checksum_append_string seed (sr_error s))"

definition checksum_aggregate :: "aggregate_summary \<Rightarrow> u64" where
  "checksum_aggregate a =
     (let seed = checksum_append_size kFnvOffsetBasis (as_total_events a);
          seed = checksum_append_size seed (as_symbol_count a);
          seed = checksum_append_u64 seed (as_combined_book_checksum a);
          seed = foldl append_summary_checksum seed (as_symbols a)
      in checksum_append_string seed (as_error a))"

definition checksum_combined_books_from_summaries :: "symbol_summary list \<Rightarrow> u64" where
  "checksum_combined_books_from_summaries ss =
     foldl (\<lambda>seed s. checksum_append_u64 (checksum_append_u32 seed (sr_symbol_id s)) (sr_final_book_checksum s))
       (checksum_append_size kFnvOffsetBasis (length ss)) ss"

text \<open>A map's assignment \<^verbatim>\<open>m[k] = v\<close>.\<close>

definition om_put :: "'k::linorder \<Rightarrow> 'v \<Rightarrow> ('k \<times> 'v) list \<Rightarrow> ('k \<times> 'v) list" where
  "om_put k v m = om_modify k (\<lambda>_. v) (om_try_emplace (<) k v m)"

section \<open>The grouped replay\<close>

definition group_event :: "(symbol_id \<times> market_data_event list) list \<Rightarrow> market_data_event \<Rightarrow> (symbol_id \<times> market_data_event list) list" where
  "group_event m e = om_modify (ev_symbol_id e) (\<lambda>es. es @ [e]) (om_try_emplace (<) (ev_symbol_id e) [] m)"

definition group_events :: "market_data_event list \<Rightarrow> (symbol_id \<times> market_data_event list) list" where
  "group_events es = foldl group_event [] es"

definition symbol_replay_config :: "aggregate_config \<Rightarrow> replay_config" where
  "symbol_replay_config cfg =
     (if \<not> ac_validate_per_symbol_sequences cfg
      then (ac_replay_config cfg)\<lparr>rc_validate_sequence_numbers := False\<rparr> else ac_replay_config cfg)"

definition grouped_summary :: "aggregate_config \<Rightarrow> symbol_id \<times> market_data_event list \<Rightarrow> symbol_summary" where
  "grouped_summary cfg = (\<lambda>(sy, es).
     let (b, r) = replay_events (symbol_replay_config cfg) es (ob_new sy);
         s = blank_summary\<lparr>sr_symbol_id := sy, sr_event_count := length es\<rparr>;
         s = (if es \<noteq> [] then s\<lparr>sr_first_sequence := ev_sequence_number (hd es), sr_last_sequence := ev_sequence_number (last es),
                sr_first_timestamp := ev_timestamp_ns (hd es), sr_last_timestamp := ev_timestamp_ns (last es)\<rparr> else s)
     in s\<lparr>sr_sequence_valid := rp_sequence_valid r, sr_event_log_checksum := rp_event_log_checksum r,
          sr_final_book_checksum := rp_final_book_checksum r,
          sr_execution_report_checksum := rp_execution_report_checksum r,
          sr_diagnostics_checksum := rp_diagnostics_checksum r, sr_diagnostic_count := length (rp_diagnostics r),
          sr_diagnostic_error_count := rp_diagnostic_error_count r,
          sr_diagnostic_warning_count := rp_diagnostic_warning_count r, sr_diagnostics := rp_diagnostics r,
          sr_error := rp_error r\<rparr>)"

definition replay_by_symbol :: "aggregate_config \<Rightarrow> market_data_event list \<Rightarrow> aggregate_summary" where
  "replay_by_symbol cfg es =
     (let ss = map (grouped_summary cfg) (group_events es);
          a = blank_aggregate\<lparr>as_total_events := length es, as_symbols := ss, as_symbol_count := length ss,
                as_combined_book_checksum := checksum_combined_books_from_summaries ss\<rparr>
      in a\<lparr>as_aggregate_checksum := checksum_aggregate a\<rparr>)"

definition failed_aggregate :: "string \<Rightarrow> aggregate_summary" where
  "failed_aggregate reason =
     (let a = blank_aggregate\<lparr>as_error := reason\<rparr> in a\<lparr>as_aggregate_checksum := checksum_aggregate a\<rparr>)"

definition replay_file_by_symbol ::
  "aggregate_config \<Rightarrow> string \<Rightarrow> u8 list option \<Rightarrow> event_log_format \<Rightarrow> aggregate_summary" where
  "replay_file_by_symbol cfg path file fmt =
     (let log = read_event_log path file fmt in
      if lr_error log \<noteq> [] then failed_aggregate (lr_error log) else replay_by_symbol cfg (lr_events log))"

section \<open>Validation in the shared replay\<close>

record shared_state =
  sh_summary :: symbol_summary
  sh_expected_sequence :: sequence_number
  sh_last_timestamp :: timestamp_ns
  sh_has_last_timestamp :: bool
  sh_failed :: bool

definition blank_shared :: shared_state where
  "blank_shared = \<lparr>sh_summary = blank_summary, sh_expected_sequence = 0, sh_last_timestamp = 0,
     sh_has_last_timestamp = False, sh_failed = False\<rparr>"

fun apply_failure_reason :: "market_event_type \<Rightarrow> string" where
  "apply_failure_reason Ev_Add = ''failed to apply Add event''"
| "apply_failure_reason Ev_Cancel = ''failed to apply Cancel event''"
| "apply_failure_reason Ev_Replace = ''failed to apply Replace event''"
| "apply_failure_reason Ev_Execute = ''failed to apply Execute event''"
| "apply_failure_reason Ev_Snapshot = ''failed to apply Snapshot event''"
| "apply_failure_reason Ev_Trade = ''failed to apply Trade event''"
| "apply_failure_reason Ev_Heartbeat = ''failed to apply Heartbeat event''"

text \<open>The state's event count is at least one whenever a diagnostic is added.\<close>

definition add_shared_diagnostic :: "market_data_event \<Rightarrow> replay_severity \<Rightarrow> string \<Rightarrow> shared_state \<Rightarrow> shared_state" where
  "add_shared_diagnostic e severity reason st =
     (let s = sh_summary st;
          d = \<lparr>rd_event_index = sr_event_count s - 1, rd_sequence_number = ev_sequence_number e,
               rd_symbol_id = ev_symbol_id e, rd_severity = severity, rd_reason = reason\<rparr>
      in st\<lparr>sh_summary := s\<lparr>sr_diagnostics_checksum := diagnostic_checksum (sr_diagnostics_checksum s) d,
           sr_diagnostic_error_count := sr_diagnostic_error_count s + (if severity = Sev_Error then 1 else 0),
           sr_diagnostic_warning_count := sr_diagnostic_warning_count s + (if severity = Sev_Warning then 1 else 0),
           sr_diagnostics := sr_diagnostics s @ [d]\<rparr>\<rparr>)"

definition mark_shared_failure :: "shared_state \<Rightarrow> shared_state" where
  "mark_shared_failure st =
     (let s = (sh_summary st)\<lparr>sr_sequence_valid := False\<rparr>
      in st\<lparr>sh_summary := (if sr_diagnostics s \<noteq> [] then s\<lparr>sr_error := rd_reason (last (sr_diagnostics s))\<rparr> else s),
           sh_failed := True\<rparr>)"

definition shared_resting_failure :: "order_book option \<Rightarrow> market_data_event \<Rightarrow> string option" where
  "shared_resting_failure book e =
     (case (case book of None \<Rightarrow> None | Some b \<Rightarrow> ob_find_order (ev_order_id e) b) of
       None \<Rightarrow> Some (if ev_event_type e = Ev_Cancel then ''unknown cancel order id''
         else if ev_event_type e = Ev_Replace then ''unknown replace order id'' else ''unknown execute order id'')
     | Some x \<Rightarrow> if (ev_event_type e = Ev_Cancel \<or> ev_event_type e = Ev_Execute) \<and> ev_quantity e > o_quantity x
         then Some ''invalid quantity exceeds resting order quantity'' else None)"

definition shared_validation_failure :: "market_data_event \<Rightarrow> order_book option \<Rightarrow> string option" where
  "shared_validation_failure e book =
     (let ty = ev_event_type e in
      if ev_symbol_id e = kInvalidSymbolId then Some ''invalid symbol id''
      else if is_order_id_required ty \<and> ev_order_id e = kInvalidOrderId then Some ''invalid order id''
      else if (ty = Ev_Add \<or> ty = Ev_Replace) \<and> \<not> is_valid_side (ev_side e) then Some ''invalid side''
      else if is_price_required ty \<and> ev_price_ticks e \<le> 0 then Some ''invalid price''
      else if \<not> is_price_required ty \<and> ev_price_ticks e < 0 then Some ''invalid negative price''
      else if is_quantity_required ty \<and> ev_quantity e \<le> 0 then Some ''invalid quantity''
      else if \<not> is_quantity_required ty \<and> ev_quantity e < 0 then Some ''invalid negative quantity''
      else if ty = Ev_Add \<and> book \<noteq> None \<and> ob_find_order (ev_order_id e) (the book) \<noteq> None then Some ''duplicate order id''
      else if ty = Ev_Snapshot \<and> ev_order_id e \<noteq> kInvalidOrderId \<and> snapshot_failure e \<noteq> None then snapshot_failure e
      else if ty = Ev_Cancel \<or> ty = Ev_Replace \<or> ty = Ev_Execute then shared_resting_failure book e
      else None)"

definition validate_shared_event_before_apply ::
  "market_data_event \<Rightarrow> order_book option \<Rightarrow> shared_state \<Rightarrow> bool \<times> shared_state" where
  "validate_shared_event_before_apply e book st = (case shared_validation_failure e book of
       None \<Rightarrow> (True, st) | Some reason \<Rightarrow> (False, add_shared_diagnostic e Sev_Error reason st))"

definition validate_shared_top_of_book :: "market_data_event \<Rightarrow> order_book \<Rightarrow> shared_state \<Rightarrow> bool \<times> shared_state" where
  "validate_shared_top_of_book e b st = (case (ob_best_bid b, ob_best_ask b) of
       (Some bid, Some ask) \<Rightarrow> if bid \<ge> ask
         then (False, add_shared_diagnostic e Sev_Error (''crossed book state: best bid '' @ decimal_int bid @
                 '' >= best ask '' @ decimal_int ask) st)
         else (True, st)
     | _ \<Rightarrow> (True, st))"

definition validate_shared_full_book ::
  "market_data_event \<Rightarrow> order_book \<Rightarrow> string \<Rightarrow> shared_state \<Rightarrow> bool \<times> shared_state" where
  "validate_shared_full_book e b prefix st =
     (let report = ob_check_invariants b in
      if \<not> bir_ok report
      then (False, add_shared_diagnostic e Sev_Error (prefix @ (if bir_violations report = [] then ''book invariant violation''
              else ''book invariant violation: '' @ hd (bir_violations report))) st)
      else validate_shared_top_of_book e b st)"

definition validate_shared_book_after_apply ::
  "replay_config \<Rightarrow> market_data_event \<Rightarrow> order_book \<Rightarrow> shared_state \<Rightarrow> bool \<times> shared_state" where
  "validate_shared_book_after_apply cfg e b st =
     (if \<not> rc_validate_book_state cfg then (True, st)
      else if rc_validation_mode cfg = Mode_Light then validate_shared_top_of_book e b st
      else if rc_validation_mode cfg \<noteq> Mode_Full
      then (False, add_shared_diagnostic e Sev_Error ''unsupported replay validation mode'' st)
      else validate_shared_full_book e b [] st)"

section \<open>The shared replay\<close>

text \<open>What the pass records of an event before it looks at it: the first event of a symbol starts its summary.\<close>

definition record_market_event :: "market_data_event \<Rightarrow> symbol_summary \<Rightarrow> symbol_summary" where
  "record_market_event e s =
     (let s = (if sr_event_count s = 0
               then s\<lparr>sr_symbol_id := ev_symbol_id e, sr_first_sequence := ev_sequence_number e,
                      sr_first_timestamp := ev_timestamp_ns e, sr_event_log_checksum := kFnvOffsetBasis,
                      sr_diagnostics_checksum := kFnvOffsetBasis, sr_execution_report_checksum := kFnvOffsetBasis\<rparr>
               else s)
      in s\<lparr>sr_event_count := sr_event_count s + 1, sr_last_sequence := ev_sequence_number e,
           sr_last_timestamp := ev_timestamp_ns e, sr_event_log_checksum := event_checksum (sr_event_log_checksum s) e\<rparr>)"

text \<open>The two stream checks of the pass; \<open>False\<close> is the \<^verbatim>\<open>continue\<close> after a failure.\<close>

definition shared_check_sequence :: "bool \<Rightarrow> market_data_event \<Rightarrow> shared_state \<Rightarrow> bool \<times> shared_state" where
  "shared_check_sequence validate e st =
     (if validate
      then (let st = (if sh_expected_sequence st = 0 then st\<lparr>sh_expected_sequence := ev_sequence_number e\<rparr> else st)
            in if ev_sequence_number e \<noteq> sh_expected_sequence st
               then (False, mark_shared_failure (add_shared_diagnostic e Sev_Error
                       (''sequence gap: expected '' @ decimal_word (sh_expected_sequence st) @
                        '', received '' @ decimal_word (ev_sequence_number e)) st))
               else (True, st\<lparr>sh_expected_sequence := sh_expected_sequence st + 1\<rparr>))
      else (True, st))"

definition shared_check_timestamp :: "bool \<Rightarrow> market_data_event \<Rightarrow> shared_state \<Rightarrow> bool \<times> shared_state" where
  "shared_check_timestamp validate e st =
     (if validate
      then (if sh_has_last_timestamp st \<and> ev_timestamp_ns e < sh_last_timestamp st
            then (False, mark_shared_failure (add_shared_diagnostic e Sev_Error
                    (''timestamp reversal: previous '' @ decimal_int (sh_last_timestamp st) @
                     '', received '' @ decimal_int (ev_timestamp_ns e)) st))
            else (True, st\<lparr>sh_last_timestamp := ev_timestamp_ns e, sh_has_last_timestamp := True\<rparr>))
      else (True, st))"

definition shared_after_apply :: "replay_config \<Rightarrow> market_data_event \<Rightarrow> order_book option \<Rightarrow> shared_state \<Rightarrow> shared_state" where
  "shared_after_apply cfg e book st = (case book of
       None \<Rightarrow> mark_shared_failure st
     | Some b \<Rightarrow> let (ok, st) = validate_shared_book_after_apply cfg e b st in
         if \<not> ok then mark_shared_failure st
         else if ev_event_type e = Ev_Execute \<or> ev_event_type e = Ev_Trade
         then st\<lparr>sh_summary := (sh_summary st)\<lparr>sr_execution_report_checksum :=
                event_checksum (sr_execution_report_checksum (sh_summary st)) e\<rparr>\<rparr>
         else st)"

definition shared_apply :: "replay_config \<Rightarrow> market_data_event \<Rightarrow> book_set \<Rightarrow> shared_state \<Rightarrow> book_set \<times> shared_state" where
  "shared_apply cfg e books st =
     (let (valid, st) = validate_shared_event_before_apply e (map_of books (ev_symbol_id e)) st in
      if \<not> valid then (books, mark_shared_failure st)
      else let (ok, books) = bs_apply e books in
      if \<not> ok then (books, mark_shared_failure (add_shared_diagnostic e Sev_Error (apply_failure_reason (ev_event_type e)) st))
      else (books, shared_after_apply cfg e (map_of books (ev_symbol_id e)) st))"

definition shared_symbol_event ::
  "aggregate_config \<Rightarrow> market_data_event \<Rightarrow> book_set \<Rightarrow> shared_state \<Rightarrow> book_set \<times> shared_state" where
  "shared_symbol_event cfg e books st =
     (let rc = ac_replay_config cfg; st = st\<lparr>sh_summary := record_market_event e (sh_summary st)\<rparr> in
      if sh_failed st then (books, st)
      else let (ok, st) = shared_check_sequence
                 (ac_validate_per_symbol_sequences cfg \<and> rc_validate_sequence_numbers rc) e st in
      if \<not> ok then (books, st)
      else let (ok, st) = shared_check_timestamp (rc_validate_timestamps rc) e st in
      if \<not> ok then (books, st) else shared_apply rc e books st)"

definition shared_event ::
  "aggregate_config \<Rightarrow> market_data_event \<Rightarrow> book_set \<times> (symbol_id \<times> shared_state) list \<Rightarrow>
     book_set \<times> (symbol_id \<times> shared_state) list" where
  "shared_event cfg e = (\<lambda>(books, states).
     let sy = ev_symbol_id e; states = om_try_emplace (<) sy blank_shared states;
         (books, st) = shared_symbol_event cfg e books (the (map_of states sy))
     in (books, om_modify sy (\<lambda>_. st) states))"

definition shared_finish :: "replay_config \<Rightarrow> book_set \<Rightarrow> symbol_id \<times> shared_state \<Rightarrow> symbol_summary" where
  "shared_finish cfg books = (\<lambda>(sy, st).
     let s = (case map_of books sy of
         Some b \<Rightarrow>
           let st = (if \<not> sh_failed st \<and> rc_validate_book_state cfg \<and> rc_validation_mode cfg = Mode_Light
                 then (let (ok, st) = validate_shared_full_book (blank_event\<lparr>ev_symbol_id := sy\<rparr>) b ''final '' st
                       in if ok then st else mark_shared_failure st)
                 else st)
           in (sh_summary st)\<lparr>sr_final_book_checksum := ob_checksum b\<rparr>
       | None \<Rightarrow> (sh_summary st)\<lparr>sr_final_book_checksum := ob_checksum (ob_new sy)\<rparr>)
     in s\<lparr>sr_diagnostic_count := length (sr_diagnostics s)\<rparr>)"

definition replay_shared_by_symbol :: "aggregate_config \<Rightarrow> market_data_event list \<Rightarrow> aggregate_summary" where
  "replay_shared_by_symbol cfg es =
     (let (books, states) = fold (shared_event cfg) es ([], []);
          ss = map (shared_finish (ac_replay_config cfg) books) states;
          a = blank_aggregate\<lparr>as_total_events := length es, as_symbols := ss, as_symbol_count := length ss,
                as_combined_book_checksum := checksum_combined_books_from_summaries ss\<rparr>;
          a = (if length books = as_symbol_count a \<and> bs_combined_checksum books \<noteq> as_combined_book_checksum a
               then a\<lparr>as_error := ''shared replay combined checksum mismatch''\<rparr> else a)
      in a\<lparr>as_aggregate_checksum := checksum_aggregate a\<rparr>)"

definition replay_file_shared_by_symbol ::
  "aggregate_config \<Rightarrow> string \<Rightarrow> u8 list option \<Rightarrow> event_log_format \<Rightarrow> aggregate_summary" where
  "replay_file_shared_by_symbol cfg path file fmt =
     (let log = read_event_log path file fmt in
      if lr_error log \<noteq> [] then failed_aggregate (lr_error log) else replay_shared_by_symbol cfg (lr_events log))"

end
