(* ===== verification/Replay_Parity.thy ===== *)
theory Replay_Parity
  imports Replay_Aggregate
begin

text \<open>
  The second half of \<^verbatim>\<open>market_data/replay_aggregate.cpp\<close>: the parity report on the
  grouped and the shared replay of one stream, and the text that describes it. The text is the string
  the code writes to its \<^verbatim>\<open>std::ostringstream\<close>.
\<close>

section \<open>The report\<close>

record parity_entry =
  pe_symbol_id :: symbol_id
  pe_present_in_grouped :: bool
  pe_present_in_shared :: bool
  pe_event_log_checksum_match :: bool
  pe_final_book_checksum_match :: bool
  pe_execution_report_checksum_match :: bool
  pe_diagnostics_checksum_match :: bool
  pe_matched :: bool

record parity_report =
  pp_matched :: bool
  pp_symbol_count_grouped :: nat
  pp_symbol_count_shared :: nat
  pp_mismatch_count :: nat
  pp_combined_book_checksum_match :: bool
  pp_aggregate_checksum_match :: bool
  pp_grouped_combined_book_checksum :: u64
  pp_shared_combined_book_checksum :: u64
  pp_grouped_aggregate_checksum :: u64
  pp_shared_aggregate_checksum :: u64
  pp_symbols :: "parity_entry list"

definition blank_parity_entry :: parity_entry where
  "blank_parity_entry = \<lparr>pe_symbol_id = kInvalidSymbolId, pe_present_in_grouped = False, pe_present_in_shared = False,
     pe_event_log_checksum_match = False, pe_final_book_checksum_match = False,
     pe_execution_report_checksum_match = False, pe_diagnostics_checksum_match = False, pe_matched = False\<rparr>"

definition blank_parity_report :: parity_report where
  "blank_parity_report = \<lparr>pp_matched = False, pp_symbol_count_grouped = 0, pp_symbol_count_shared = 0, pp_mismatch_count = 0,
     pp_combined_book_checksum_match = False, pp_aggregate_checksum_match = False,
     pp_grouped_combined_book_checksum = 0, pp_shared_combined_book_checksum = 0, pp_grouped_aggregate_checksum = 0,
     pp_shared_aggregate_checksum = 0, pp_symbols = []\<rparr>"

text \<open>The maps from a symbol to its summary, and the symbols of either.\<close>

definition summaries_by_symbol :: "symbol_summary list \<Rightarrow> (symbol_id \<times> symbol_summary) list" where
  "summaries_by_symbol ss = foldl (\<lambda>m s. om_put (sr_symbol_id s) s m) [] ss"

definition all_symbols :: "(symbol_id \<times> 'a) list \<Rightarrow> (symbol_id \<times> 'b) list \<Rightarrow> symbol_id list" where
  "all_symbols g s =
     map fst (foldl (\<lambda>m item. om_put (fst item) True m) (foldl (\<lambda>m item. om_put (fst item) True m) [] g) s)"

definition parity_entry_of ::
  "(symbol_id \<times> symbol_summary) list \<Rightarrow> (symbol_id \<times> symbol_summary) list \<Rightarrow> symbol_id \<Rightarrow> parity_entry" where
  "parity_entry_of grouped shared sy =
     (let entry = blank_parity_entry\<lparr>pe_symbol_id := sy, pe_present_in_grouped := map_of grouped sy \<noteq> None,
            pe_present_in_shared := map_of shared sy \<noteq> None\<rparr>
      in case (map_of grouped sy, map_of shared sy) of
        (Some g, Some s) \<Rightarrow>
          let entry = entry\<lparr>
                pe_event_log_checksum_match := sr_event_log_checksum g = sr_event_log_checksum s,
                pe_final_book_checksum_match := sr_final_book_checksum g = sr_final_book_checksum s,
                pe_execution_report_checksum_match := sr_execution_report_checksum g = sr_execution_report_checksum s,
                pe_diagnostics_checksum_match := sr_diagnostics_checksum g = sr_diagnostics_checksum s\<rparr>
          in entry\<lparr>pe_matched := pe_event_log_checksum_match entry \<and> pe_final_book_checksum_match entry \<and>
                pe_execution_report_checksum_match entry \<and> pe_diagnostics_checksum_match entry\<rparr>
      | _ \<Rightarrow> entry)"

definition compare_replay_parity :: "aggregate_config \<Rightarrow> market_data_event list \<Rightarrow> parity_report" where
  "compare_replay_parity cfg es =
     (let grouped = replay_by_symbol cfg es;
          shared = replay_shared_by_symbol cfg es;
          g = summaries_by_symbol (as_symbols grouped);
          s = summaries_by_symbol (as_symbols shared);
          entries = map (parity_entry_of g s) (all_symbols g s);
          report = blank_parity_report\<lparr>
            pp_symbol_count_grouped := as_symbol_count grouped, pp_symbol_count_shared := as_symbol_count shared,
            pp_grouped_combined_book_checksum := as_combined_book_checksum grouped,
            pp_shared_combined_book_checksum := as_combined_book_checksum shared,
            pp_combined_book_checksum_match := as_combined_book_checksum grouped = as_combined_book_checksum shared,
            pp_grouped_aggregate_checksum := as_aggregate_checksum grouped,
            pp_shared_aggregate_checksum := as_aggregate_checksum shared,
            pp_aggregate_checksum_match := as_aggregate_checksum grouped = as_aggregate_checksum shared,
            pp_mismatch_count := length (filter (\<lambda>entry. \<not> pe_matched entry) entries),
            pp_symbols := entries\<rparr>
      in report\<lparr>pp_matched := pp_mismatch_count report = 0 \<and> pp_combined_book_checksum_match report \<and>
           pp_aggregate_checksum_match report \<and>
           pp_symbol_count_grouped report = pp_symbol_count_shared report\<rparr>)"

definition compare_replay_parity_file ::
  "aggregate_config \<Rightarrow> string \<Rightarrow> u8 list option \<Rightarrow> event_log_format \<Rightarrow> parity_report" where
  "compare_replay_parity_file cfg path file fmt =
     (let log = read_event_log path file fmt in
      if lr_error log \<noteq> [] then blank_parity_report else compare_replay_parity cfg (lr_events log))"

section \<open>The description\<close>

definition newline :: string where
  "newline = [CHR 0x0A]"

definition quoted :: "string \<Rightarrow> string" where
  "quoted s = [CHR 0x22] @ s @ [CHR 0x22]"

definition bit_text :: "bool \<Rightarrow> string" where
  "bit_text b = (if b then ''1'' else ''0'')"

definition grouped_symbol_l2 ::
  "aggregate_config \<Rightarrow> market_data_event list \<Rightarrow> symbol_id \<Rightarrow> nat \<Rightarrow> l2_view" where
  "grouped_symbol_l2 cfg es sy depth =
     ob_l2_view depth (fst (replay_events (symbol_replay_config cfg) (filter (\<lambda>e. ev_symbol_id e = sy) es) (ob_new sy)))"

definition l2_side_text :: "string \<Rightarrow> l2_level list \<Rightarrow> string" where
  "l2_side_text label ls =
     ''      '' @ label @ '':'' @ (if ls = [] then '' (empty)'' else []) @
     concat (map (\<lambda>lv. '' ['' @ decimal_int (l2_price_ticks lv) @ ''x'' @ decimal_int (l2_quantity lv) @ '']'') ls) @ newline"

definition diagnostic_text :: "replay_diagnostic \<Rightarrow> string" where
  "diagnostic_text d = ''event_index='' @ decimal (rd_event_index d) @ '' seq='' @ decimal_word (rd_sequence_number d) @
     '' severity='' @ severity_to_string (rd_severity d) @ '' reason='' @ quoted (rd_reason d) @ newline"

definition same_diagnostic :: "replay_diagnostic \<Rightarrow> replay_diagnostic \<Rightarrow> bool" where
  "same_diagnostic d d' \<longleftrightarrow> rd_event_index d = rd_event_index d' \<and> rd_sequence_number d = rd_sequence_number d' \<and>
     rd_severity d = rd_severity d' \<and> rd_reason d = rd_reason d'"

text \<open>The first position at which the lists differ; the lists are what is left from position \<open>i\<close> on.\<close>

fun first_difference_text :: "nat \<Rightarrow> replay_diagnostic list \<Rightarrow> replay_diagnostic list \<Rightarrow> string" where
  "first_difference_text i [] [] = []"
| "first_difference_text i (g # gs) (s # ss) =
     (if same_diagnostic g s then first_difference_text (i + 1) gs ss
      else ''      first differing diagnostic at index '' @ decimal i @ '':'' @ newline @
        ''        grouped: '' @ diagnostic_text g @ ''        shared:  '' @ diagnostic_text s)"
| "first_difference_text i (g # gs) [] =
     ''      first differing diagnostic at index '' @ decimal i @ '':'' @ newline @
     ''        grouped: '' @ diagnostic_text g @ ''        shared:  (none)'' @ newline"
| "first_difference_text i [] (s # ss) =
     ''      first differing diagnostic at index '' @ decimal i @ '':'' @ newline @
     ''        grouped: (none)'' @ newline @ ''        shared:  '' @ diagnostic_text s"

definition field_text :: "string \<Rightarrow> nat \<Rightarrow> nat \<Rightarrow> string" where
  "field_text name lhs rhs = (if lhs \<noteq> rhs
     then ''      '' @ name @ '': grouped='' @ decimal lhs @ '' shared='' @ decimal rhs @ newline else [])"

definition field_diffs_text :: "symbol_summary \<Rightarrow> symbol_summary \<Rightarrow> string" where
  "field_diffs_text g s =
     field_text ''event_count'' (sr_event_count g) (sr_event_count s) @
     field_text ''event_log_checksum'' (unat (sr_event_log_checksum g)) (unat (sr_event_log_checksum s)) @
     field_text ''final_book_checksum'' (unat (sr_final_book_checksum g)) (unat (sr_final_book_checksum s)) @
     field_text ''execution_report_checksum'' (unat (sr_execution_report_checksum g)) (unat (sr_execution_report_checksum s)) @
     field_text ''diagnostics_checksum'' (unat (sr_diagnostics_checksum g)) (unat (sr_diagnostics_checksum s)) @
     field_text ''diagnostic_error_count'' (sr_diagnostic_error_count g) (sr_diagnostic_error_count s) @
     field_text ''diagnostic_warning_count'' (sr_diagnostic_warning_count g) (sr_diagnostic_warning_count s) @
     (if sr_error g \<noteq> sr_error s
      then ''      error: grouped='' @ quoted (sr_error g) @ '' shared='' @ quoted (sr_error s) @ newline else [])"

text \<open>What the loop over the symbols writes for one of them, and whether it notes a mismatch.\<close>

definition symbol_text ::
  "aggregate_config \<Rightarrow> market_data_event list \<Rightarrow> (symbol_id \<times> symbol_summary) list \<Rightarrow>
     (symbol_id \<times> symbol_summary) list \<Rightarrow> symbol_id \<Rightarrow> bool \<times> string" where
  "symbol_text cfg es grouped shared sy = (case (map_of grouped sy, map_of shared sy) of
       (Some g, Some s) \<Rightarrow>
         if sr_event_log_checksum g = sr_event_log_checksum s \<and> sr_final_book_checksum g = sr_final_book_checksum s \<and>
            sr_execution_report_checksum g = sr_execution_report_checksum s \<and>
            sr_diagnostics_checksum g = sr_diagnostics_checksum s
         then (False, [])
         else (True, ''  symbol '' @ decimal_word sy @ '' MISMATCH:'' @ newline @ field_diffs_text g s @
           (if sr_diagnostics_checksum g \<noteq> sr_diagnostics_checksum s
            then first_difference_text 0 (sr_diagnostics g) (sr_diagnostics s) else []) @
           (if sr_final_book_checksum g \<noteq> sr_final_book_checksum s
            then (let view = grouped_symbol_l2 cfg es sy 5
                  in ''      grouped expected final L2 (top 5):'' @ newline @
                     l2_side_text ''bids'' (l2_bids view) @ l2_side_text ''asks'' (l2_asks view))
            else []))
     | (g, s) \<Rightarrow> (True, ''  symbol '' @ decimal_word sy @ '' present_in_grouped='' @ bit_text (g \<noteq> None) @
         '' present_in_shared='' @ bit_text (s \<noteq> None) @ newline))"

definition describe_replay_parity :: "aggregate_config \<Rightarrow> market_data_event list \<Rightarrow> string" where
  "describe_replay_parity cfg es =
     (let grouped = replay_by_symbol cfg es;
          shared = replay_shared_by_symbol cfg es;
          g = summaries_by_symbol (as_symbols grouped);
          s = summaries_by_symbol (as_symbols shared);
          combined_match = (as_combined_book_checksum grouped = as_combined_book_checksum shared);
          aggregate_match = (as_aggregate_checksum grouped = as_aggregate_checksum shared);
          out = ''grouped-vs-shared replay parity (events='' @ decimal (length es) @ '', grouped_symbols='' @
            decimal (as_symbol_count grouped) @ '', shared_symbols='' @ decimal (as_symbol_count shared) @ '')'' @ newline @
            (if \<not> combined_match then ''  combined_book_checksum MISMATCH grouped='' @
               decimal_word (as_combined_book_checksum grouped) @ '' shared='' @
               decimal_word (as_combined_book_checksum shared) @ newline else []) @
            (if \<not> aggregate_match then ''  aggregate_checksum MISMATCH grouped='' @
               decimal_word (as_aggregate_checksum grouped) @ '' shared='' @
               decimal_word (as_aggregate_checksum shared) @ newline else []);
          lines = map (symbol_text cfg es g s) (all_symbols g s);
          mismatch = (\<not> combined_match \<or> \<not> aggregate_match \<or> as_symbol_count grouped \<noteq> as_symbol_count shared \<or>
            list_ex fst lines)
      in if \<not> mismatch then ''replay parity matched'' else out @ concat (map snd lines))"

end
