(* ===== verification/Replay_Aggregate_Correct.thy ===== *)
theory Replay_Aggregate_Correct
  imports Replay_Parity Replay_Correct
begin

text \<open>
  The grouped and the shared replay give the same summary of every stream: symbol by symbol, the state
  of the single pass follows the replay engine of that symbol, and the final checks of either find
  nothing the other does not. The two paths differ in places that no stream reaches, and on one that
  only a configuration with an unknown validation mode reaches.
\<close>

section \<open>Ordered maps\<close>

interpretation key_order: strict_order "(<) :: 'k::linorder \<Rightarrow> 'k \<Rightarrow> bool"
  by unfold_locales auto

lemma map_of_put:
  "sorted_wrt (<) (map fst m) \<Longrightarrow> map_of (om_modify (k :: 'k::linorder) f (om_try_emplace (<) k d m)) x =
     (if x = k then Some (f (case map_of m k of None \<Rightarrow> d | Some v \<Rightarrow> v)) else map_of m x)"
  by (simp add: map_of_om_modify key_order.map_of_try_emplace split: option.splits)

lemma sorted_put:
  "sorted_wrt (<) (map fst m) \<Longrightarrow> sorted_wrt (<) (map fst (om_modify (k :: 'k::linorder) f (om_try_emplace (<) k d m)))"
  by (simp add: key_order.sorted_try_emplace)

lemma keys_put: "fst ` set (om_modify k f (om_try_emplace lt k d m)) = insert k (fst ` set m)"
proof -
  have "fst ` set (om_try_emplace lt k d m) = insert k (fst ` set m)"
    by (induction lt k d m rule: om_try_emplace.induct) (simp_all add: insert_commute)
  then show ?thesis by (metis list.set_map map_fst_om_modify)
qed

text \<open>Two maps with the same keys and related values stay so.\<close>

definition related :: "('k \<Rightarrow> 'v \<Rightarrow> 'w \<Rightarrow> bool) \<Rightarrow> ('k \<times> 'v) list \<Rightarrow> ('k \<times> 'w) list \<Rightarrow> bool" where
  "related P = list_all2 (\<lambda>(k, v) (k', w). k = k' \<and> P k v w)"

lemma related_simps [simp]:
  "related P [] m' = (m' = [])"
  "related P ((k, v) # m) m' = (\<exists>w r. m' = (k, w) # r \<and> P k v w \<and> related P m r)"
  by (auto simp: related_def list_all2_Cons1)

lemma related_mono:
  "related P m m' \<Longrightarrow> (\<And>k v w. k \<in> fst ` set m \<Longrightarrow> P k v w \<Longrightarrow> Q k v w) \<Longrightarrow> related Q m m'"
  by (induction m arbitrary: m') fastforce+

lemma related_keys: "related P m m' \<Longrightarrow> map fst m' = map fst m"
  by (induction m arbitrary: m') auto

lemma related_member: "related P m m' \<Longrightarrow> (k, w) \<in> set m' \<Longrightarrow> \<exists>v. (k, v) \<in> set m \<and> P k v w"
  by (induction m arbitrary: m') fastforce+

lemma related_map:
  "related P m m' \<Longrightarrow> (\<And>k v w. (k, v) \<in> set m \<Longrightarrow> (k, w) \<in> set m' \<Longrightarrow> P k v w \<Longrightarrow> f (k, v) = g (k, w)) \<Longrightarrow> map f m = map g m'"
  by (induction m arbitrary: m') auto

lemma related_put:
  assumes "related P m m'" and "sorted_wrt (<) (map fst m)"
    and "\<And>k' v w. k' \<noteq> k \<Longrightarrow> P k' v w \<Longrightarrow> Q k' v w"
    and "map_of m k = None \<Longrightarrow> map_of m' k = None \<Longrightarrow> Q k (f d) (f' d')"
    and "\<And>v w. map_of m k = Some v \<Longrightarrow> map_of m' k = Some w \<Longrightarrow> P k v w \<Longrightarrow> Q k (f v) (f' w)"
  shows "related Q (om_modify k f (om_try_emplace (<) k d m)) (om_modify k f' (om_try_emplace (<) (k :: 'k::linorder) d' m'))"
  using assms
proof (induction m arbitrary: m')
  case Nil
  then show ?case by simp
next
  case (Cons kv m)
  obtain k1 v where kv: "kv = (k1, v)" by (cases kv)
  obtain w r where m': "m' = (k1, w) # r" "P k1 v w" "related P m r" using Cons.prems(1) kv by auto
  have sorted: "sorted_wrt (<) (map fst m)" "\<forall>x \<in> fst ` set m. k1 < x" using Cons.prems(2) kv by auto
  consider "k1 < k" | "k1 = k" | "k < k1" by fastforce
  then show ?case
  proof cases
    case 1
    have look: "map_of (kv # m) k = map_of m k" "map_of m' k = map_of r k" using 1 kv m'(1) by (simp_all add: less_imp_neq [symmetric])
    have "related Q (om_modify k f (om_try_emplace (<) k d m)) (om_modify k f' (om_try_emplace (<) k d' r))"
      by (rule Cons.IH [OF m'(3) sorted(1) Cons.prems(3) Cons.prems(4,5) [unfolded look]])
    then show ?thesis using 1 less_imp_neq [OF 1] kv m' Cons.prems(3) [of k1 v w] by auto
  next
    case 2
    have "related Q m r" by (rule related_mono [OF m'(3)]) (use Cons.prems(3) sorted(2) 2 in auto)
    then show ?thesis using 2 kv m' Cons.prems(5) [of v w] by simp
  next
    case 3
    have keys: "k \<notin> fst ` set m" using sorted(2) 3 by fastforce
    have "map fst r = map fst m" by (rule related_keys [OF m'(3)])
    then have "k \<notin> fst ` set r" using keys by (metis list.set_map)
    then have "map_of (kv # m) k = None" "map_of m' k = None"
      using keys 3 kv m'(1) by (simp_all add: map_of_eq_None_iff)
    moreover have "related Q m r" by (rule related_mono [OF m'(3)]) (metis Cons.prems(3) keys)
    moreover have "k \<noteq> k1" "k1 \<noteq> k" "\<not> k1 < k" using 3 by auto
    ultimately show ?thesis using kv m' Cons.prems(4) Cons.prems(3) [of k1 v w] by simp
  qed
qed

section \<open>Grouping\<close>

lemma group_events_sorted: "sorted_wrt (<) (map fst (group_events es))"
  by (induction es rule: rev_induct) (simp_all add: group_events_def group_event_def key_order.sorted_try_emplace)

lemma group_events_lookup:
  "map_of (group_events es) sy =
     (let own = filter (\<lambda>e. ev_symbol_id e = sy) es in if own = [] then None else Some own)"
proof (induction es rule: rev_induct)
  case Nil
  then show ?case by (simp add: group_events_def)
next
  case (snoc e es)
  have step: "group_events (es @ [e]) = group_event (group_events es) e" by (simp add: group_events_def)
  show ?case
    unfolding step group_event_def map_of_put [OF group_events_sorted] using snoc.IH by (auto simp: Let_def)
qed

lemma group_events_member: "(sy, own) \<in> set (group_events es) \<Longrightarrow> own = filter (\<lambda>e. ev_symbol_id e = sy) es \<and> own \<noteq> []"
  using key_order.sorted_key_unique [OF group_events_sorted [of es]] group_events_lookup [of es sy]
  by (simp add: Let_def split: if_splits)

section \<open>Crossed books\<close>

definition book_uncrossed :: "order_book \<Rightarrow> bool" where
  "book_uncrossed b \<longleftrightarrow> (case (ob_best_bid b, ob_best_ask b) of (Some bid, Some ask) \<Rightarrow> bid < ask | _ \<Rightarrow> True)"

definition crossed_reason :: "order_book \<Rightarrow> string" where
  "crossed_reason b = ''crossed book state: best bid '' @ decimal_int (the (ob_best_bid b)) @
     '' >= best ask '' @ decimal_int (the (ob_best_ask b))"

lemma validate_top_uncrossed:
  "validate_top_of_book b e i r = (if book_uncrossed b then (True, r) else (False, fail_with r i e (crossed_reason b)))"
  by (auto simp: validate_top_of_book_def book_uncrossed_def crossed_reason_def split: option.splits)

lemma validate_shared_top_uncrossed:
  "validate_shared_top_of_book e b st =
     (if book_uncrossed b then (True, st) else (False, add_shared_diagnostic e Sev_Error (crossed_reason b) st))"
  by (auto simp: validate_shared_top_of_book_def book_uncrossed_def crossed_reason_def split: option.splits)

definition ladder_uncrossed :: "ladder \<Rightarrow> bool" where
  "ladder_uncrossed L \<longleftrightarrow> (\<forall>p \<in> fst ` set (ld_bids L). \<forall>p' \<in> fst ` set (ld_asks L). p < p')"

lemma uncrossed_ladder:
  assumes "ob_inv b"
  shows "book_uncrossed b = ladder_uncrossed (ob_ladder b)"
proof -
  let ?L = "ob_ladder b"
  have sorted: "sorted_wrt (better Buy) (map fst (ld_bids ?L))" "sorted_wrt (better Sell) (map fst (ld_asks ?L))"
    using assms by (auto simp: ob_inv_def ladder_ok_def levels_ok_def)
  have best: "ob_best_bid b = spec_best_price Buy ?L" "ob_best_ask b = spec_best_price Sell ?L"
    using ob_best_price_refines [of Buy b] ob_best_price_refines [of Sell b] by (simp_all add: ob_best_price_def)
  show ?thesis
    using sorted unfolding book_uncrossed_def best ladder_uncrossed_def spec_best_price_def ld_levels_def
    by (cases "ld_bids ?L"; cases "ld_asks ?L") (fastforce simp: better_def)+
qed

lemma keys_prune: "fst ` set (prune p ls) \<subseteq> fst ` set ls"
  using set_om_erase_subset [of p ls] by (auto simp: prune_def)

lemma keys_drop: "fst ` set (drop_order x ls) \<subseteq> fst ` set ls"
  using keys_prune unfolding drop_order_def by (metis list.set_map map_fst_om_modify)

lemma keys_shrink: "fst ` set (shrink_order n x ls) = fst ` set ls"
  unfolding shrink_order_def by (metis list.set_map map_fst_om_modify)

lemma on_side_uncrossed:
  assumes "ladder_uncrossed L" and "\<And>ls. fst ` set (f ls) \<subseteq> fst ` set ls"
  shows "ladder_uncrossed (on_side sd f L)"
  using assms unfolding ladder_uncrossed_def on_side_def ld_set_levels_def ld_levels_def
  by (cases sd) (simp_all add: Ball_def, meson subsetD, meson subsetD)

lemma reduce_uncrossed: "ladder_uncrossed L \<Longrightarrow> ladder_uncrossed (snd (spec_reduce i n L))"
  using on_side_uncrossed [OF _ keys_drop] on_side_uncrossed [OF _ equalityD1 [OF keys_shrink]]
  by (simp add: spec_reduce_def spec_cancel_def split: option.splits)

text \<open>An execution only takes quantity from the book, a trade does not touch it.\<close>

lemma activity_uncrossed:
  assumes "ob_inv b" and "book_uncrossed b" and "ev_event_type e = Ev_Execute \<or> ev_event_type e = Ev_Trade"
  shows "book_uncrossed (snd (apply_book e b))"
  using assms(3)
proof
  assume ex: "ev_event_type e = Ev_Execute"
  have "ob_ladder (snd (apply_book e b)) = snd (spec_reduce (ev_order_id e) (ev_quantity e) (ob_ladder b))"
    using ob_step_refines [OF assms(1), of "Op_Reduce (ev_order_id e) (ev_quantity e)"] ex by (simp add: apply_book_def)
  then show ?thesis
    using reduce_uncrossed assms(2) uncrossed_ladder [OF assms(1)] uncrossed_ladder [OF apply_book_keeps(1) [OF assms(1)]] by simp
qed (use assms(2) in \<open>simp add: apply_book_def\<close>)

section \<open>One symbol\<close>

text \<open>The part of a summary that comes from the replay result, and the part that only counts.\<close>

definition put_result :: "replay_result \<Rightarrow> symbol_summary \<Rightarrow> symbol_summary" where
  "put_result r s = s\<lparr>sr_sequence_valid := rp_sequence_valid r,
     sr_execution_report_checksum := rp_execution_report_checksum r,
     sr_diagnostics_checksum := rp_diagnostics_checksum r,
     sr_diagnostic_error_count := rp_diagnostic_error_count r,
     sr_diagnostic_warning_count := rp_diagnostic_warning_count r,
     sr_diagnostics := rp_diagnostics r, sr_error := rp_error r\<rparr>"

definition counted :: "symbol_id \<Rightarrow> market_data_event list \<Rightarrow> symbol_summary" where
  "counted sy own = blank_summary\<lparr>sr_symbol_id := sy, sr_event_count := length own,
     sr_first_sequence := ev_sequence_number (hd own), sr_last_sequence := ev_sequence_number (last own),
     sr_first_timestamp := ev_timestamp_ns (hd own), sr_last_timestamp := ev_timestamp_ns (last own),
     sr_event_log_checksum := checksum_events own\<rparr>"

lemma sh_eta: "sh_summary (st\<lparr>sh_summary := s\<rparr>) = s" by simp

lemma record_counted:
  assumes "ev_symbol_id e = sy" and "own = [] \<Longrightarrow> put_result r blank_summary = put_result (begin_stream blank_result) blank_summary"
  shows "record_market_event e (if own = [] then blank_summary else put_result r (counted sy own)) = put_result r (counted sy (own @ [e]))"
proof (cases "own = []")
  case True
  then have "put_result r (counted sy [e]) = put_result (begin_stream blank_result) (counted sy [e])"
    using assms(2) by (simp add: put_result_def blank_summary_def counted_def)
  then show ?thesis using True assms(1)
    by (simp add: record_market_event_def put_result_def counted_def blank_summary_def begin_stream_def blank_result_def
        checksum_events_def)
next
  case False
  then show ?thesis
    by (simp add: record_market_event_def put_result_def counted_def blank_summary_def checksum_events_def)
qed

text \<open>Both paths note a failure in the same way.\<close>

definition failed_as :: "replay_result \<Rightarrow> symbol_summary \<Rightarrow> shared_state \<Rightarrow> bool" where
  "failed_as r c st \<longleftrightarrow> sh_failed st \<and> sh_summary st = put_result (r\<lparr>rp_sequence_valid := False\<rparr>) c"

lemma shared_fails:
  assumes "sh_summary st = put_result r c" and "sr_event_count c = index + 1"
  shows "failed_as (fail_with r index e reason) c (mark_shared_failure (add_shared_diagnostic e Sev_Error reason st))"
  using assms
  by (simp add: failed_as_def mark_shared_failure_def add_shared_diagnostic_def fail_with_def add_diagnostic_def put_result_def Let_def)

text \<open>The state of the checks of a stream that has not failed.\<close>

definition same_checks :: "replay_stream_state \<Rightarrow> shared_state \<Rightarrow> bool" where
  "same_checks ss st \<longleftrightarrow> sh_expected_sequence st = ss_expected_sequence ss \<and>
     sh_last_timestamp st = ss_last_timestamp ss \<and> sh_has_last_timestamp st = ss_has_last_timestamp ss"

lemma shared_sequence:
  assumes "same_checks ss st" and "sh_summary st = put_result r c" and "sr_event_count c = index + 1"
    and "check_sequence rc e ss = (gap, ss')"
  shows "case shared_check_sequence (rc_validate_sequence_numbers rc) e st of (ok, st') \<Rightarrow>
    case gap of None \<Rightarrow> ok \<and> same_checks ss' st' \<and> sh_summary st' = sh_summary st \<and> sh_failed st' = sh_failed st \<and>
        ss_event_index ss' = ss_event_index ss
      | Some reason \<Rightarrow> \<not> ok \<and> failed_as (fail_with r index e reason) c st'"
  using assms shared_fails [of _ r c index]
  by (auto simp: shared_check_sequence_def check_sequence_def same_checks_def Let_def split: if_splits)

lemma shared_timestamp:
  assumes "same_checks ss st" and "sh_summary st = put_result r c" and "sr_event_count c = index + 1"
    and "check_timestamp rc e ss = (reversal, ss')"
  shows "case shared_check_timestamp (rc_validate_timestamps rc) e st of (ok, st') \<Rightarrow>
    case reversal of None \<Rightarrow> ok \<and> same_checks ss' st' \<and> sh_summary st' = sh_summary st \<and> sh_failed st' = sh_failed st \<and>
        ss_event_index ss' = ss_event_index ss
      | Some reason \<Rightarrow> \<not> ok \<and> failed_as (fail_with r index e reason) c st'"
  using assms shared_fails [of _ r c index]
  by (auto simp: shared_check_timestamp_def check_timestamp_def same_checks_def Let_def split: if_splits)

text \<open>The book the set has for a symbol, or will have.\<close>

definition book_or_new :: "symbol_id \<Rightarrow> order_book option \<Rightarrow> order_book" where
  "book_or_new sy book = (case book of None \<Rightarrow> ob_new sy | Some b \<Rightarrow> b)"

lemma find_new: "ob_find_order i (ob_new sy) = None"
  by (simp add: ob_find_order_def ob_new_def)

lemma shared_validation:
  assumes "ob_symbol_id (book_or_new sy book) = sy" and "ev_symbol_id e = sy"
  shows "shared_validation_failure e book = validation_failure (book_or_new sy book) e"
proof -
  have find: "(book \<noteq> None \<and> ob_find_order i (the book) \<noteq> None) = (ob_find_order i (book_or_new sy book) \<noteq> None)" for i
    by (cases book) (simp_all add: book_or_new_def find_new)
  have rest: "shared_resting_failure book e = resting_failure (book_or_new sy book) e"
    by (cases book) (simp_all add: shared_resting_failure_def resting_failure_def book_or_new_def find_new)
  have sym: "(ev_symbol_id e \<noteq> ob_symbol_id (book_or_new sy book)) = False" using assms by simp
  show ?thesis
    unfolding shared_validation_failure_def validation_failure_def find rest sym if_False ..
qed

lemma shared_book_apply:
  assumes "sorted_wrt (<) (map fst books)" and "ev_symbol_id e = sy" and "sy \<noteq> kInvalidSymbolId"
    and "bs_apply e books = (ok, books')"
  shows "(ok, map_of books' sy) = (fst (apply_book e (book_or_new sy (map_of books sy))),
      Some (snd (apply_book e (book_or_new sy (map_of books sy)))))"
    and "sy' \<noteq> sy \<Longrightarrow> map_of books' sy' = map_of books sy'"
    and "sorted_wrt (<) (map fst books')" and "fst ` set books' = insert sy (fst ` set books)"
proof -
  let ?b = "book_or_new sy (map_of books sy)"
  let ?books = "book_for sy books"
  have the: "the (map_of ?books sy) = ?b" using assms(1)
    by (simp add: book_for_def key_order.map_of_try_emplace book_or_new_def split: option.splits)
  have a: "ok = fst (apply_book e ?b)" "books' = om_modify sy (\<lambda>_. snd (apply_book e ?b)) ?books"
    using assms(2-4) by (auto simp: bs_apply_def Let_def the split: prod.splits)
  show "(ok, map_of books' sy) = (fst (apply_book e ?b), Some (snd (apply_book e ?b)))"
    "sy' \<noteq> sy \<Longrightarrow> map_of books' sy' = map_of books sy'"
    using a map_of_put [OF assms(1)] by (simp_all add: book_for_def)
  show "sorted_wrt (<) (map fst books')" "fst ` set books' = insert sy (fst ` set books)"
    using a assms(1) by (simp_all add: book_for_def key_order.sorted_try_emplace keys_put)
qed

section \<open>One event\<close>

definition mode_known :: "replay_config \<Rightarrow> bool" where
  "mode_known cfg = (case rc_validation_mode cfg of Mode_Other _ \<Rightarrow> \<not> rc_validate_book_state cfg | _ \<Rightarrow> True)"

definition with_activity :: "market_data_event \<Rightarrow> replay_result \<Rightarrow> replay_result" where
  "with_activity e r =
     (if ev_event_type e = Ev_Execute \<or> ev_event_type e = Ev_Trade then update_activity_checksum e r else r)"

lemma apply_switch_exact:
  "\<exists>reason. apply_switch e b r = (if fst (apply_book e b) then (None, snd (apply_book e b), with_activity e r)
      else (Some reason, snd (apply_book e b), r)) \<and> (ev_event_type e = Ev_Snapshot \<longrightarrow> reason = ''failed to apply Snapshot event'')"
  by (cases "ev_event_type e") (auto simp: apply_switch_def apply_book_def with_activity_def Let_def split: prod.splits)

lemma validate_after_exact:
  assumes "ob_inv b" and "mode_known rc"
  shows "validate_book_after_apply rc b e i r =
    (if rc_validate_book_state rc \<and> \<not> book_uncrossed b then (False, fail_with r i e (crossed_reason b)) else (True, r))"
  using assms ob_check_clean [OF assms(1)]
  by (cases "rc_validation_mode rc")
    (simp_all add: validate_book_after_apply_def validate_full_book_def empty_report_def validate_top_uncrossed mode_known_def)

lemma validate_shared_after_exact:
  assumes "ob_inv b" and "mode_known rc"
  shows "validate_shared_book_after_apply rc e b st =
    (if rc_validate_book_state rc \<and> \<not> book_uncrossed b then (False, add_shared_diagnostic e Sev_Error (crossed_reason b) st) else (True, st))"
  using assms ob_check_clean [OF assms(1)]
  by (cases "rc_validation_mode rc")
    (simp_all add: validate_shared_book_after_apply_def validate_shared_full_book_def empty_report_def
      validate_shared_top_uncrossed mode_known_def)

text \<open>Why an event that passed validation is refused, if it is, by either path.\<close>

definition refusal :: "replay_config \<Rightarrow> market_data_event \<Rightarrow> order_book \<Rightarrow> string option" where
  "refusal rc e b =
     (if \<not> fst (apply_book e b) then Some (apply_failure_reason (ev_event_type e))
      else if rc_validate_book_state rc \<and> \<not> book_uncrossed (snd (apply_book e b))
      then Some (crossed_reason (snd (apply_book e b))) else None)"

lemma apply_event_exact:
  assumes "ob_inv b" and "mode_known rc" and "validation_failure b e = None" and "rc_validate_book_state rc \<Longrightarrow> book_uncrossed b"
  shows "apply_event rc e i (b, r) = (case refusal rc e b of
      Some reason \<Rightarrow> (False, snd (apply_book e b), fail_with r i e reason)
    | None \<Rightarrow> (True, snd (apply_book e b), with_activity e r))"
proof -
  obtain reason where s: "apply_switch e b r = (if fst (apply_book e b) then (None, snd (apply_book e b), with_activity e r)
      else (Some reason, snd (apply_book e b), r))" "ev_event_type e = Ev_Snapshot \<longrightarrow> reason = ''failed to apply Snapshot event''"
    using apply_switch_exact by blast
  have snap: "\<not> fst (apply_book e b) \<Longrightarrow> reason = apply_failure_reason (ev_event_type e)"
    using validated_applies [OF assms(1,3)] s(2) by (cases "ev_event_type e = Ev_Snapshot") simp_all
  have quiet: "with_activity e r = r" if "rc_validate_book_state rc" "\<not> book_uncrossed (snd (apply_book e b))"
    using activity_uncrossed [OF assms(1) assms(4) [OF that(1)]] that(2) by (auto simp: with_activity_def)
  note validated = validate_after_exact [OF apply_book_keeps(1) [OF assms(1)] assms(2)]
  show ?thesis
  proof (cases "fst (apply_book e b)")
    case False
    then show ?thesis using snap by (simp add: apply_event_def s(1) refusal_def)
  next
    case True
    then show ?thesis using quiet by (auto simp: apply_event_def s(1) refusal_def validated)
  qed
qed

definition shared_activity :: "market_data_event \<Rightarrow> shared_state \<Rightarrow> shared_state" where
  "shared_activity e st = (if ev_event_type e = Ev_Execute \<or> ev_event_type e = Ev_Trade
     then st\<lparr>sh_summary := (sh_summary st)\<lparr>sr_execution_report_checksum :=
            event_checksum (sr_execution_report_checksum (sh_summary st)) e\<rparr>\<rparr> else st)"

lemma shared_activity_summary:
  assumes "sh_summary st = put_result r c"
  shows "sh_summary (shared_activity e st) = put_result (with_activity e r) c" and "sh_failed (shared_activity e st) = sh_failed st"
    and "same_checks ss (shared_activity e st) = same_checks ss st"
  using assms by (simp_all add: shared_activity_def with_activity_def update_activity_checksum_def put_result_def same_checks_def)

lemma shared_apply_exact:
  assumes books: "sorted_wrt (<) (map fst books)" and sy: "ev_symbol_id e = sy" and b: "book_or_new sy (map_of books sy) = b"
    and inv: "ob_inv b" "ob_symbol_id b = sy" and "mode_known rc" and applied: "shared_apply rc e books st = (books', st')"
  shows "case validation_failure b e of
      Some reason \<Rightarrow> books' = books \<and> st' = mark_shared_failure (add_shared_diagnostic e Sev_Error reason st)
    | None \<Rightarrow> map_of books' sy = Some (snd (apply_book e b)) \<and>
        st' = (case refusal rc e b of Some reason \<Rightarrow> mark_shared_failure (add_shared_diagnostic e Sev_Error reason st)
          | None \<Rightarrow> shared_activity e st)"
proof (cases "validation_failure b e")
  case (Some reason)
  then have "shared_validation_failure e (map_of books sy) = Some reason" using shared_validation [of sy "map_of books sy" e] sy b inv(2) by simp
  then show ?thesis using applied Some sy by (simp add: shared_apply_def validate_shared_event_before_apply_def)
next
  case None
  then have v: "shared_validation_failure e (map_of books sy) = None" using shared_validation [of sy "map_of books sy" e] sy b inv(2) by simp
  have "sy \<noteq> kInvalidSymbolId" using None sy by (auto simp: validation_failure_def Let_def split: if_splits)
  obtain ok books1 where a: "bs_apply e books = (ok, books1)" by (cases "bs_apply e books")
  have a': "ok = fst (apply_book e b)" "map_of books1 sy = Some (snd (apply_book e b))"
    using shared_book_apply(1) [OF books sy \<open>sy \<noteq> kInvalidSymbolId\<close> a] b by simp_all
  note validated = validate_shared_after_exact [OF apply_book_keeps(1) [OF inv(1)] assms(6)]
  show ?thesis using applied None v sy a'
    by (auto simp: shared_apply_def validate_shared_event_before_apply_def a shared_after_apply_def validated refusal_def
        shared_activity_def split: if_splits)
qed

section \<open>The run of one symbol\<close>

definition engine_run :: "aggregate_config \<Rightarrow> u64 \<Rightarrow> symbol_id \<Rightarrow> market_data_event list \<Rightarrow> stream" where
  "engine_run cfg log sy own = replay_loop (symbol_replay_config cfg) own
     (ob_new sy, blank_stream, (begin_stream blank_result)\<lparr>rp_event_log_checksum := log\<rparr>)"

definition tracks ::
  "aggregate_config \<Rightarrow> u64 \<Rightarrow> symbol_id \<Rightarrow> market_data_event list \<Rightarrow> order_book option \<Rightarrow> shared_state \<Rightarrow> bool" where
  "tracks cfg log sy own book st = (case engine_run cfg log sy own of (b, ss, r) \<Rightarrow>
     book_or_new sy book = b \<and>
     sh_summary st = (if own = [] then blank_summary else put_result r (counted sy own)) \<and>
     sh_failed st = (rp_diagnostics r \<noteq> []) \<and>
     (rp_diagnostics r = [] \<longrightarrow> same_checks ss st \<and> ss_event_index ss = length own \<and> (own \<noteq> [] \<longrightarrow> book \<noteq> None) \<and>
        (rc_validate_book_state (ac_replay_config cfg) \<longrightarrow> book_uncrossed b)))"

lemma engine_run_ok:
  assumes "engine_run cfg log sy own = (b, ss, r)"
  shows "ob_inv b" and "ob_symbol_id b = sy" and "result_ok r" and "rp_event_log_checksum r = log"
proof -
  have start: "ob_inv (ob_new sy)" "ob_symbol_id (ob_new sy) = sy" using ob_inv_new by (simp_all add: ob_new_def)
  have "ob_inv b \<and> ob_symbol_id b = sy \<and> result_ok r \<and> rp_event_log_checksum r = log"
    using replay_run_ok [OF replay_loop_runs [OF start running_begin [of log], of "symbol_replay_config cfg" own blank_stream]]
      start running_begin [of log] assms by (simp add: engine_run_def)
  then show "ob_inv b" "ob_symbol_id b = sy" "result_ok r" "rp_event_log_checksum r = log" by simp_all
qed

lemma replay_loop_snoc:
  assumes "ob_inv b" and "ob_symbol_id b = sy" and "running r"
  shows "replay_loop cfg (es @ [e]) (b, st, r) = (let s = replay_loop cfg es (b, st, r)
    in if rp_diagnostics (snd (snd s)) = [] then snd (replay_step cfg e s) else s)"
  using assms
proof (induction es arbitrary: b st r)
  case Nil
  then show ?case by (simp add: running_def split: prod.splits)
next
  case (Cons x es)
  consider (good) s where "replay_step cfg x (b, st, r) = (True, s)" "step_done cfg x sy (b, st, r) s"
    | (bad) s where "replay_step cfg x (b, st, r) = (False, s)" "step_failed sy (b, st, r) s"
    using replay_step_cases [OF Cons.prems, of cfg x st] by blast
  then show ?case
  proof cases
    case good
    obtain b' st' r' where s: "s = (b', st', r')" by (cases s) auto
    have "ob_inv b'" "ob_symbol_id b' = sy" "running r'" using good(2) s by (simp_all add: step_done_def)
    from Cons.IH [OF this, of st'] show ?thesis using good s by simp
  next
    case bad
    then show ?thesis by (auto simp: step_failed_def Let_def split: prod.splits)
  qed
qed

lemma engine_run_snoc:
  "engine_run cfg log sy (own @ [e]) = (let s = engine_run cfg log sy own
    in if rp_diagnostics (snd (snd s)) = [] then snd (replay_step (symbol_replay_config cfg) e s) else s)"
  unfolding engine_run_def
  by (rule replay_loop_snoc [OF ob_inv_new refl running_begin])

lemma symbol_config [simp]:
  "rc_validate_sequence_numbers (symbol_replay_config cfg) =
     (ac_validate_per_symbol_sequences cfg \<and> rc_validate_sequence_numbers (ac_replay_config cfg))"
  "rc_validate_timestamps (symbol_replay_config cfg) = rc_validate_timestamps (ac_replay_config cfg)"
  "rc_validate_book_state (symbol_replay_config cfg) = rc_validate_book_state (ac_replay_config cfg)"
  "rc_validation_mode (symbol_replay_config cfg) = rc_validation_mode (ac_replay_config cfg)"
  "refusal (symbol_replay_config cfg) = refusal (ac_replay_config cfg)"
  by (simp_all add: symbol_replay_config_def refusal_def fun_eq_iff)

lemma mode_known_symbol [simp]: "mode_known (symbol_replay_config cfg) = mode_known (ac_replay_config cfg)"
  by (simp add: mode_known_def split: replay_validation_mode.splits)

lemma fail_with_diagnostics [simp]: "rp_diagnostics (fail_with r i e s) \<noteq> []"
  by (simp add: fail_with_def add_diagnostic_def Let_def)

text \<open>The two ways a step ends.\<close>

lemma tracks_failed:
  assumes "engine_run cfg log sy (own @ [e]) = (b, ss, (fail_with r i e reason)\<lparr>rp_sequence_valid := False\<rparr>)"
    and "failed_as (fail_with r i e reason) (counted sy (own @ [e])) st" and "book_or_new sy book = b"
  shows "tracks cfg log sy (own @ [e]) book st"
  using assms by (simp add: tracks_def failed_as_def)

lemma tracks_done:
  assumes "engine_run cfg log sy (own @ [e]) = (b, ss\<lparr>ss_event_index := length own + 1\<rparr>, r)" and "rp_diagnostics r = []"
    and "sh_summary st = put_result r (counted sy (own @ [e]))" and "\<not> sh_failed st" and "same_checks ss st"
    and "rc_validate_book_state (ac_replay_config cfg) \<Longrightarrow> book_uncrossed b"
  shows "tracks cfg log sy (own @ [e]) (Some b) st"
  using assms by (simp add: tracks_def book_or_new_def same_checks_def)

lemma tracks_step:
  assumes t: "tracks cfg log sy own (map_of books sy) st" and books: "sorted_wrt (<) (map fst books)"
    and sy: "ev_symbol_id e = sy" and mode: "mode_known (ac_replay_config cfg)"
    and shared: "shared_symbol_event cfg e books st = (books', st')"
  shows "tracks cfg log sy (own @ [e]) (map_of books' sy) st'"
proof -
  let ?rc = "ac_replay_config cfg" and ?gc = "symbol_replay_config cfg" and ?c = "counted sy (own @ [e])"
  obtain b ss r where run: "engine_run cfg log sy own = (b, ss, r)" by (cases "engine_run cfg log sy own") auto
  note ok = engine_run_ok [OF run]
  define st0 where "st0 = st\<lparr>sh_summary := record_market_event e (sh_summary st)\<rparr>"
  have tr: "book_or_new sy (map_of books sy) = b" "sh_summary st = (if own = [] then blank_summary else put_result r (counted sy own))"
    "sh_failed st = (rp_diagnostics r \<noteq> [])"
    "rp_diagnostics r = [] \<Longrightarrow> same_checks ss st \<and> ss_event_index ss = length own \<and> (rc_validate_book_state ?rc \<longrightarrow> book_uncrossed b)"
    using t run by (simp_all add: tracks_def)
  have first: "own = [] \<Longrightarrow> put_result r blank_summary = put_result (begin_stream blank_result) blank_summary"
    using run by (auto simp: engine_run_def put_result_def)
  have sum0: "sh_summary st0 = put_result r ?c" using record_counted [OF sy first] tr(2) by (simp add: st0_def)
  have count: "sr_event_count ?c = length own + 1" by (simp add: counted_def)
  show ?thesis
  proof (cases "rp_diagnostics r = []")
    case False
    then have "own \<noteq> []" using run by (auto simp: engine_run_def begin_stream_def blank_result_def)
    moreover have "books' = books" "st' = st0" using shared False tr(3) by (simp_all add: shared_symbol_event_def st0_def Let_def)
    moreover have "engine_run cfg log sy (own @ [e]) = (b, ss, r)" using False by (simp add: engine_run_snoc run)
    ultimately show ?thesis using tr(1,3) sum0 False by (simp add: tracks_def st0_def)
  next
    case fine: True
    have checks: "same_checks ss st0" "ss_event_index ss = length own" "rc_validate_book_state ?rc \<Longrightarrow> book_uncrossed b" "\<not> sh_failed st0"
      using tr(3,4) fine by (simp_all add: same_checks_def st0_def)
    have next_run: "engine_run cfg log sy (own @ [e]) = snd (replay_step ?gc e (b, ss, r))" using fine by (simp add: engine_run_snoc run)
    obtain gap ss1 where g: "check_sequence ?gc e ss = (gap, ss1)" by (cases "check_sequence ?gc e ss")
    obtain ok1 st1 where g': "shared_check_sequence (rc_validate_sequence_numbers ?gc) e st0 = (ok1, st1)"
      by (cases "shared_check_sequence (rc_validate_sequence_numbers ?gc) e st0")
    note seq = shared_sequence [OF checks(1) sum0 count g, unfolded g' prod.case]
    show ?thesis
    proof (cases gap)
      case (Some reason)
      have "ss_event_index ss1 = length own" using g checks(2) by (auto simp: check_sequence_def Let_def split: if_splits)
      then show ?thesis
        using seq Some shared fine tr(1,3) g' checks(2)
        by (intro tracks_failed [of _ _ _ _ _ b "ss1\<lparr>ss_halted := True\<rparr>" r "length own" reason])
          (simp_all add: next_run replay_step_def g halt_stream_def shared_symbol_event_def st0_def Let_def)
    next
      case gap: None
      obtain rev ss2 where h: "check_timestamp ?gc e ss1 = (rev, ss2)" by (cases "check_timestamp ?gc e ss1")
      obtain ok2 st2 where h': "shared_check_timestamp (rc_validate_timestamps ?gc) e st1 = (ok2, st2)"
        by (cases "shared_check_timestamp (rc_validate_timestamps ?gc) e st1")
      have seq1: "ok1" "same_checks ss1 st1" "sh_summary st1 = put_result r ?c" "sh_failed st1 = sh_failed st0" "ss_event_index ss1 = length own"
        using seq gap sum0 checks(2) by simp_all
      note time = shared_timestamp [OF seq1(2,3) count h, unfolded h' prod.case]
      show ?thesis
      proof (cases rev)
        case (Some reason)
        have "ss_event_index ss2 = length own" using h seq1(5) by (auto simp: check_timestamp_def split: if_splits)
        then show ?thesis
          using time Some shared fine tr(1,3) g' h' seq1(1)
          by (intro tracks_failed [of _ _ _ _ _ b "ss2\<lparr>ss_halted := True\<rparr>" r "length own" reason])
            (simp_all add: next_run replay_step_def g gap h halt_stream_def shared_symbol_event_def st0_def Let_def)
      next
        case rev: None
        have st2: "ok2" "same_checks ss2 st2" "sh_summary st2 = put_result r ?c" "\<not> sh_failed st2" "ss_event_index ss2 = length own"
          using time rev seq1 checks(4) by simp_all
        have applied: "shared_apply ?rc e books st2 = (books', st')"
          using shared fine tr(3) g' h' seq1(1) st2(1) by (simp add: shared_symbol_event_def st0_def Let_def)
        note sa = shared_apply_exact [OF books sy tr(1) ok(1,2) mode applied]
        note step = next_run replay_step_def g gap h rev validate_event_before_apply_def checks(2)
        show ?thesis
        proof (cases "validation_failure b e")
          case (Some reason)
          have "engine_run cfg log sy (own @ [e]) =
              (b, ss2\<lparr>ss_halted := True\<rparr>, (fail_with r (length own) e reason)\<lparr>rp_sequence_valid := False\<rparr>)"
            by (simp add: step Some fail_with_def Let_def)
          moreover have "books' = books" "st' = mark_shared_failure (add_shared_diagnostic e Sev_Error reason st2)"
            using sa Some by simp_all
          ultimately show ?thesis using tracks_failed [OF _ shared_fails [OF st2(3) count]] tr(1) by simp
        next
          case valid: None
          let ?b = "snd (apply_book e b)"
          have mode': "mode_known ?gc" and book: "map_of books' sy = Some ?b" using mode sa valid by simp_all
          have ae: "apply_event ?gc e i (b, q) = (case refusal ?rc e b of Some reason \<Rightarrow> (False, ?b, fail_with q i e reason)
              | None \<Rightarrow> (True, ?b, with_activity e q))" for i q
            using apply_event_exact [OF ok(1) mode' valid] checks(3) by simp
          show ?thesis
          proof (cases "refusal ?rc e b")
            case (Some reason)
            have "engine_run cfg log sy (own @ [e]) =
                (?b, ss2\<lparr>ss_halted := True\<rparr>, (fail_with r (length own) e reason)\<lparr>rp_sequence_valid := False\<rparr>)"
              by (simp add: step valid ae Some Let_def)
            moreover have "st' = mark_shared_failure (add_shared_diagnostic e Sev_Error reason st2)" using sa valid Some by simp
            ultimately show ?thesis using tracks_failed [OF _ shared_fails [OF st2(3) count]] book by (simp add: book_or_new_def)
          next
            case None
            let ?r = "with_activity e r"
            have run': "engine_run cfg log sy (own @ [e]) = (?b, ss2\<lparr>ss_event_index := length own + 1\<rparr>,
                ?r\<lparr>rp_events_processed := rp_events_processed ?r + 1\<rparr>)"
              by (simp add: step valid ae None st2(5) Let_def)
            have st': "st' = shared_activity e st2" using sa valid None by simp
            note act = shared_activity_summary [OF st2(3), where e = e]
            have un': "rc_validate_book_state ?rc \<Longrightarrow> book_uncrossed ?b" using None by (auto simp: refusal_def split: if_splits)
            have "tracks cfg log sy (own @ [e]) (Some ?b) st'"
              by (rule tracks_done [OF run' _ _ _ _ un'])
                (use act st2 fine in \<open>simp_all add: st' put_result_def with_activity_def update_activity_checksum_def\<close>)
            then show ?thesis by (simp add: book)
          qed
        qed
      qed
    qed
  qed
qed

section \<open>The whole pass\<close>

lemma shared_symbol_event_books:
  assumes books: "sorted_wrt (<) (map fst books)" and shared: "shared_symbol_event cfg e books st = (books', st')"
  shows "sy \<noteq> ev_symbol_id e \<Longrightarrow> map_of books' sy = map_of books sy" and "sorted_wrt (<) (map fst books')"
    and "fst ` set books' \<subseteq> insert (ev_symbol_id e) (fst ` set books)"
proof -
  obtain ok books1 where a: "bs_apply e books = (ok, books1)" by (cases "bs_apply e books")
  have b: "books' = books \<or> books' = books1"
    using shared by (auto simp: shared_symbol_event_def shared_apply_def a Let_def split: if_splits prod.splits)
  have "ev_symbol_id e = kInvalidSymbolId \<Longrightarrow> books1 = books" using a by (simp add: bs_apply_def)
  then show "sy \<noteq> ev_symbol_id e \<Longrightarrow> map_of books' sy = map_of books sy" "sorted_wrt (<) (map fst books')"
    "fst ` set books' \<subseteq> insert (ev_symbol_id e) (fst ` set books)"
    using b books shared_book_apply(2-4) [OF books refl _ a] by (cases "ev_symbol_id e = kInvalidSymbolId"; auto)+
qed

lemma tracks_initial: "tracks cfg log sy [] None blank_shared"
  by (simp add: tracks_def engine_run_def book_or_new_def blank_shared_def begin_stream_def blank_result_def
      same_checks_def blank_stream_def book_uncrossed_def ob_best_bid_def ob_best_ask_def ob_new_def)

definition pass_ok ::
  "aggregate_config \<Rightarrow> (symbol_id \<Rightarrow> u64) \<Rightarrow> market_data_event list \<Rightarrow> book_set \<times> (symbol_id \<times> shared_state) list \<Rightarrow> bool" where
  "pass_ok cfg log es = (\<lambda>(books, states). sorted_wrt (<) (map fst books) \<and> fst ` set books \<subseteq> fst ` set states \<and>
     related (\<lambda>k own st. tracks cfg (log k) k own (map_of books k) st) (group_events es) states)"

lemma shared_pass:
  assumes mode: "mode_known (ac_replay_config cfg)"
  shows "pass_ok cfg log es (fold (shared_event cfg) es ([], []))"
proof (induction es rule: rev_induct)
  case Nil
  then show ?case by (simp add: pass_ok_def group_events_def)
next
  case (snoc e es)
  obtain books states where s: "fold (shared_event cfg) es ([], []) = (books, states)"
    by (cases "fold (shared_event cfg) es ([], [])")
  have ih: "sorted_wrt (<) (map fst books)" "fst ` set books \<subseteq> fst ` set states"
    "related (\<lambda>k own st. tracks cfg (log k) k own (map_of books k) st) (group_events es) states"
    using snoc.IH by (simp_all add: s pass_ok_def)
  let ?sy = "ev_symbol_id e"
  let ?st = "case map_of states ?sy of None \<Rightarrow> blank_shared | Some st \<Rightarrow> st"
  obtain books' st' where step: "shared_symbol_event cfg e books ?st = (books', st')"
    by (cases "shared_symbol_event cfg e books ?st")
  note kept = shared_symbol_event_books [OF ih(1) step]
  have states_sorted: "sorted_wrt (<) (map fst states)"
    unfolding related_keys [OF ih(3)] by (rule group_events_sorted)
  have event: "shared_event cfg e (books, states) = (books', om_modify ?sy (\<lambda>_. st') (om_try_emplace (<) ?sy blank_shared states))"
    using step by (simp add: shared_event_def Let_def key_order.map_of_try_emplace [OF states_sorted])
  have groups: "group_events (es @ [e]) = om_modify ?sy (\<lambda>es. es @ [e]) (om_try_emplace (<) ?sy [] (group_events es))"
    by (simp add: group_events_def group_event_def)
  have "related (\<lambda>k own st. tracks cfg (log k) k own (map_of books' k) st) (group_events (es @ [e]))
      (om_modify ?sy (\<lambda>_. st') (om_try_emplace (<) ?sy blank_shared states))"
    unfolding groups
  proof (rule related_put [OF ih(3) group_events_sorted])
    fix k own st
    assume "k \<noteq> ?sy" "tracks cfg (log k) k own (map_of books k) st"
    then show "tracks cfg (log k) k own (map_of books' k) st" using kept(1) by simp
  next
    assume none: "map_of (group_events es) ?sy = None" "map_of states ?sy = None"
    then have "map_of books ?sy = None" using ih(2) by (auto simp: map_of_eq_None_iff)
    then show "tracks cfg (log ?sy) ?sy ([] @ [e]) (map_of books' ?sy) st'"
      using tracks_step [OF _ ih(1) refl mode step, of "log ?sy" "[]"] tracks_initial none by simp
  next
    fix own st
    assume "map_of states ?sy = Some st" "tracks cfg (log ?sy) ?sy own (map_of books ?sy) st"
    then show "tracks cfg (log ?sy) ?sy (own @ [e]) (map_of books' ?sy) st'"
      using tracks_step [OF _ ih(1) refl mode step, of "log ?sy" own] by simp
  qed
  moreover have "fst ` set books' \<subseteq> fst ` set (om_modify ?sy (\<lambda>_. st') (om_try_emplace (<) ?sy blank_shared states))"
    using kept(3) ih(2) unfolding keys_put by blast
  ultimately show ?case using kept(2) by (simp add: s event pass_ok_def)
qed

lemma finish_exact:
  assumes t: "tracks cfg (checksum_events own) sy own (map_of books sy) st" and own: "own \<noteq> []" and mode: "mode_known (ac_replay_config cfg)"
  shows "shared_finish (ac_replay_config cfg) books (sy, st) = grouped_summary cfg (sy, own)"
proof -
  let ?rc = "ac_replay_config cfg" and ?gc = "symbol_replay_config cfg"
  obtain b ss r where run: "engine_run cfg (checksum_events own) sy own = (b, ss, r)"
    by (cases "engine_run cfg (checksum_events own) sy own") auto
  note ok = engine_run_ok [OF run]
  have tr: "book_or_new sy (map_of books sy) = b" "sh_summary st = put_result r (counted sy own)"
    "sh_failed st = (rp_diagnostics r \<noteq> [])" "rp_diagnostics r = [] \<Longrightarrow> map_of books sy = Some b"
    "rp_diagnostics r = [] \<Longrightarrow> rc_validate_book_state ?rc \<Longrightarrow> book_uncrossed b"
    using t run own by (auto simp: tracks_def book_or_new_def)
  have grouped: "replay_events ?gc own (ob_new sy) = (b, finalize_stream ?gc b r)"
    using run by (simp add: replay_events_def engine_run_def Let_def)
  have valid: "rp_sequence_valid r = (rp_diagnostics r = [])" using ok(3) by (simp add: result_ok_def)
  have clean: "ob_check_invariants b = empty_report" by (rule ob_check_clean [OF ok(1)])
  have final: "finalize_stream ?gc b r = r\<lparr>rp_final_book_checksum := ob_checksum b\<rparr>"
    using valid tr(5) by (auto simp: finalize_stream_def validate_full_book_def clean empty_report_def validate_top_uncrossed Let_def)
  have shared: "shared_finish ?rc books (sy, st) = (put_result r (counted sy own))\<lparr>sr_final_book_checksum := ob_checksum b,
      sr_diagnostic_count := length (rp_diagnostics r)\<rparr>"
  proof (cases "rp_diagnostics r = []")
    case True
    then show ?thesis using tr
      by (auto simp: shared_finish_def validate_shared_full_book_def clean empty_report_def validate_shared_top_uncrossed put_result_def)
  next
    case False
    then show ?thesis using tr by (cases "map_of books sy") (simp_all add: shared_finish_def book_or_new_def put_result_def)
  qed
  show ?thesis
    unfolding shared using own ok(4)
    by (simp add: grouped_summary_def grouped final put_result_def counted_def Let_def)
qed

lemma grouped_summary_symbol: "sr_symbol_id (grouped_summary cfg (sy, own)) = sy"
  by (simp add: grouped_summary_def Let_def split: prod.splits)

lemma combined_same:
  assumes "map fst books = map fst states" and "\<And>sy st. (sy, st) \<in> set states \<Longrightarrow>
      sr_symbol_id (f (sy, st)) = sy \<and> sr_final_book_checksum (f (sy, st)) = ob_checksum (the (map_of books sy))"
    and "distinct (map fst books)"
  shows "checksum_combined_books_from_summaries (map f states) = bs_combined_checksum books"
proof -
  let ?g = "\<lambda>seed (sy, c). checksum_append_u64 (checksum_append_u32 seed sy) c"
  have sums: "checksum_combined_books_from_summaries ss = foldl ?g (checksum_append_size kFnvOffsetBasis (length ss))
      (map (\<lambda>s. (sr_symbol_id s, sr_final_book_checksum s)) ss)" for ss
    by (simp add: checksum_combined_books_from_summaries_def foldl_map)
  have bks: "bs_combined_checksum bs = foldl ?g (checksum_append_size kFnvOffsetBasis (length bs)) (map (\<lambda>(sy, b). (sy, ob_checksum b)) bs)" for bs
    by (simp add: bs_combined_checksum_def foldl_map split_def)
  have len: "length states = length books" using assms(1) by (metis length_map)
  have "map (\<lambda>s. (sr_symbol_id s, sr_final_book_checksum s)) (map f states) = map (\<lambda>sy. (sy, ob_checksum (the (map_of books sy)))) (map fst states)"
    using assms(2) by auto
  also have "\<dots> = map (\<lambda>(sy, b). (sy, ob_checksum b)) books"
    unfolding assms(1) [symmetric] using assms(3) by (auto simp: map_of_is_SomeI)
  finally show ?thesis unfolding sums bks by (simp add: len)
qed

text \<open>The summaries are equal one by one, and the shared pass never reports a mismatch of its own.\<close>

lemma shared_equals_grouped:
  assumes mode: "mode_known (ac_replay_config cfg)"
  shows "replay_shared_by_symbol cfg es = replay_by_symbol cfg es"
proof -
  let ?rc = "ac_replay_config cfg"
  let ?log = "\<lambda>sy. checksum_events (filter (\<lambda>e. ev_symbol_id e = sy) es)"
  obtain books states where s: "fold (shared_event cfg) es ([], []) = (books, states)"
    by (cases "fold (shared_event cfg) es ([], [])")
  have pass: "sorted_wrt (<) (map fst books)" "fst ` set books \<subseteq> fst ` set states"
    "related (\<lambda>k own st. tracks cfg (?log k) k own (map_of books k) st) (group_events es) states"
    using shared_pass [OF mode, of ?log es] by (simp_all add: s pass_ok_def)
  have one: "grouped_summary cfg (sy, own) = shared_finish ?rc books (sy, st)"
    if "(sy, own) \<in> set (group_events es)" "tracks cfg (?log sy) sy own (map_of books sy) st" for sy own st
    using finish_exact [of cfg own sy books st] that(2) group_events_member [OF that(1)] mode by auto
  have sums: "map (grouped_summary cfg) (group_events es) = map (shared_finish ?rc books) states"
    by (rule related_map [OF pass(3)]) (use one in blast)
  have keys: "map fst states = map fst (group_events es)" by (rule related_keys [OF pass(3)])
  have sorted: "sorted_wrt (<) (map fst states)" unfolding keys by (rule group_events_sorted)
  have final: "sr_symbol_id (shared_finish ?rc books (sy, st)) = sy \<and>
      sr_final_book_checksum (shared_finish ?rc books (sy, st)) = ob_checksum (the (map_of books sy))"
    if "(sy, st) \<in> set states" "map fst books = map fst states" for sy st
  proof -
    note mem = that(1)
    have k: "sy \<in> fst ` set states" using mem by force
    then have "sy \<in> fst ` set books" using that(2) by (metis list.set_map)
    then obtain b where b: "map_of books sy = Some b" by (metis map_of_eq_None_iff not_Some_eq)
    obtain own where "grouped_summary cfg (sy, own) = shared_finish ?rc books (sy, st)"
      using related_member [OF pass(3) mem] one by blast
    then have "sr_symbol_id (shared_finish ?rc books (sy, st)) = sy"
      by (metis (no_types) grouped_summary_symbol)
    then show ?thesis by (simp add: shared_finish_def b)
  qed
  have "checksum_combined_books_from_summaries (map (shared_finish ?rc books) states) = bs_combined_checksum books"
    if "length books = length states"
  proof (rule combined_same)
    have "card (fst ` set books) = card (fst ` set states)"
      using that key_order.sorted_distinct [OF pass(1)] key_order.sorted_distinct [OF sorted]
      by (metis distinct_card length_map list.set_map)
    then have "fst ` set books = fst ` set states" using pass(2) by (simp add: card_subset_eq)
    then show same: "map fst books = map fst states"
      using pass(1) sorted by (metis list.set_map strict_sorted_equal)
    show "distinct (map fst books)" by (rule key_order.sorted_distinct [OF pass(1)])
    show "sr_symbol_id (shared_finish ?rc books (sy, st)) = sy \<and>
      sr_final_book_checksum (shared_finish ?rc books (sy, st)) = ob_checksum (the (map_of books sy))"
      if "(sy, st) \<in> set states" for sy st by (rule final [OF that same])
  qed
  then show ?thesis
    by (auto simp: replay_shared_by_symbol_def replay_by_symbol_def s sums Let_def)
qed

section \<open>The parity report\<close>

lemma keys_foldl_put:
  "fst ` set (foldl (\<lambda>m item. om_put (fst item) True m) m xs) = fst ` set m \<union> fst ` set xs"
  by (induction xs arbitrary: m) (auto simp: om_put_def keys_put)

lemma all_symbols_set: "set (all_symbols g s) = fst ` set g \<union> fst ` set s"
  by (simp add: all_symbols_def keys_foldl_put)

lemma parity_of_equal:
  assumes "replay_shared_by_symbol cfg es = replay_by_symbol cfg es"
  shows "pp_matched (compare_replay_parity cfg es)" and "describe_replay_parity cfg es = ''replay parity matched''"
proof -
  let ?m = "summaries_by_symbol (as_symbols (replay_by_symbol cfg es))"
  have look: "\<exists>s. map_of ?m sy = Some s" if "sy \<in> set (all_symbols ?m ?m)" for sy
    using that by (auto simp: all_symbols_set dest: weak_map_of_SomeI)
  have "pe_matched (parity_entry_of ?m ?m sy)" if "sy \<in> set (all_symbols ?m ?m)" for sy
    using look [OF that] by (auto simp: parity_entry_of_def Let_def)
  then have "filter (\<lambda>entry. \<not> pe_matched entry) (map (parity_entry_of ?m ?m) (all_symbols ?m ?m)) = []"
    by (simp add: filter_empty_conv)
  then show "pp_matched (compare_replay_parity cfg es)"
    by (simp add: compare_replay_parity_def assms Let_def del: filter_map)
  have "symbol_text cfg es ?m ?m sy = (False, [])" if "sy \<in> set (all_symbols ?m ?m)" for sy
    using look [OF that] by (auto simp: symbol_text_def)
  then have "\<not> list_ex fst (map (symbol_text cfg es ?m ?m) (all_symbols ?m ?m))"
    by (simp add: list_ex_iff)
  then show "describe_replay_parity cfg es = ''replay parity matched''"
    by (simp add: describe_replay_parity_def assms Let_def)
qed

section \<open>Properties\<close>

text \<open>C17: for every stream, of however many symbols and however broken, and under every configuration that names
  a validation mode, the single pass over shared books gives exactly the aggregate that grouping the stream and
  running one engine for each symbol gives: the same summaries with the same diagnostics and checksums. The parity
  report on any stream is therefore matched and its description says so.\<close>

theorem shared_replay_equals_grouped:
  assumes "rc_validation_mode (ac_replay_config cfg) = Mode_Full \<or> rc_validation_mode (ac_replay_config cfg) = Mode_Light \<or>
    \<not> rc_validate_book_state (ac_replay_config cfg)"
  shows "replay_shared_by_symbol cfg es = replay_by_symbol cfg es \<and>
    pp_matched (compare_replay_parity cfg es) \<and> describe_replay_parity cfg es = ''replay parity matched''"
proof -
  have "mode_known (ac_replay_config cfg)" using assms by (auto simp: mode_known_def split: replay_validation_mode.splits)
  then have same: "replay_shared_by_symbol cfg es = replay_by_symbol cfg es" by (rule shared_equals_grouped)
  show ?thesis using same parity_of_equal [OF same] by blast
qed

definition demo_mixed :: "market_data_event list" where
  "demo_mixed = [demo_event 1 5 Ev_Add, (demo_event 9 6 Ev_Add)\<lparr>ev_symbol_id := 2\<rparr>, demo_event 3 6 Ev_Execute]"

definition demo_aggregate_config :: aggregate_config where
  "demo_aggregate_config = \<lparr>ac_replay_config = default_config, ac_validate_per_symbol_sequences = True\<rparr>"

lemma shared_replay_equals_grouped_witness:
  "pp_matched (compare_replay_parity demo_aggregate_config demo_mixed)"
  using shared_replay_equals_grouped [of demo_aggregate_config demo_mixed]
  by (simp add: demo_aggregate_config_def default_config_def)

text \<open>With a mode that is no enumerator the two paths part: the engine counts a trade as executed before it
  refuses the mode, the shared pass only after.\<close>

definition unknown_mode_config :: aggregate_config where
  "unknown_mode_config = \<lparr>ac_replay_config = default_config\<lparr>rc_validation_mode := Mode_Other 7\<rparr>,
     ac_validate_per_symbol_sequences = False\<rparr>"

lemmas trade_run = unknown_mode_config_def default_config_def demo_event_def blank_event_def Let_def
  is_order_id_required_def is_price_required_def is_quantity_required_def begin_stream_def blank_result_def

lemma unknown_mode_grouped:
  "map sr_execution_report_checksum (as_symbols (replay_by_symbol unknown_mode_config [demo_event 1 5 Ev_Trade])) =
     [event_checksum kFnvOffsetBasis (demo_event 1 5 Ev_Trade)]"
  by (simp add: replay_by_symbol_def group_events_def group_event_def grouped_summary_def replay_events_def replay_step_def
      check_sequence_def check_timestamp_def validate_event_before_apply_def validation_failure_def apply_event_def
      apply_switch_def validate_book_after_apply_def finalize_stream_def update_activity_checksum_def symbol_replay_config_def
      blank_stream_def ob_new_def fail_with_def add_diagnostic_def trade_run)

lemma unknown_mode_shared:
  "map sr_execution_report_checksum (as_symbols (replay_shared_by_symbol unknown_mode_config [demo_event 1 5 Ev_Trade])) =
     [kFnvOffsetBasis]"
  by (simp add: replay_shared_by_symbol_def shared_event_def shared_symbol_event_def shared_check_sequence_def
      shared_check_timestamp_def shared_apply_def validate_shared_event_before_apply_def shared_validation_failure_def
      bs_apply_def book_for_def apply_book_def shared_after_apply_def validate_shared_book_after_apply_def shared_finish_def
      mark_shared_failure_def add_shared_diagnostic_def record_market_event_def blank_shared_def blank_summary_def trade_run)

lemma unknown_mode_breaks_parity:
  "replay_by_symbol unknown_mode_config [demo_event 1 5 Ev_Trade] \<noteq>
     replay_shared_by_symbol unknown_mode_config [demo_event 1 5 Ev_Trade]"
proof -
  have "event_checksum kFnvOffsetBasis (demo_event 1 5 Ev_Trade) \<noteq> kFnvOffsetBasis" by code_simp
  then show ?thesis using unknown_mode_grouped unknown_mode_shared by (metis list.inject)
qed

end
