(* ===== verification/Synthetic_Correct.thy ===== *)
theory Synthetic_Correct
  imports Synthetic_Generator Replay_Aggregate_Correct
begin

text \<open>
  Every stream the generator makes replays without a diagnostic, whatever the distributions draw. The
  argument has an abstract middle: a map from the id of a resting order to its side, price and quantity, and the
  events such a map accepts. The book follows the map, and the generator only writes accepted events.
\<close>

section \<open>What the resting orders accept\<close>

type_synonym resting = "order_id \<Rightarrow> (side \<times> price_ticks \<times> quantity) option"

definition resting_of :: "order_book \<Rightarrow> resting" where
  "resting_of b i = map_option (\<lambda>x. (o_side x, o_price_ticks x, o_quantity x)) (ob_find_order i b)"

text \<open>A price \<open>m\<close> parts the sides.\<close>

definition on_its_side :: "price_ticks \<Rightarrow> side \<Rightarrow> price_ticks \<Rightarrow> bool" where
  "on_its_side m sd p \<longleftrightarrow> 0 < p \<and> (sd = Buy \<and> p \<le> m \<or> sd = Sell \<and> m < p)"

definition take_quantity :: "order_id \<Rightarrow> quantity \<Rightarrow> resting \<Rightarrow> resting" where
  "take_quantity i n A = (case A i of None \<Rightarrow> A
     | Some (sd, p, q) \<Rightarrow> if n \<ge> q then A(i := None) else A(i := Some (sd, p, q - n)))"

definition accept :: "price_ticks \<Rightarrow> market_data_event \<Rightarrow> resting \<Rightarrow> resting option" where
  "accept m e A =
     (let i = ev_order_id e; sd = ev_side e; p = ev_price_ticks e; n = ev_quantity e in
      case ev_event_type e of
        Ev_Add \<Rightarrow> if i \<noteq> kInvalidOrderId \<and> A i = None \<and> on_its_side m sd p \<and> 0 < n then Some (A(i := Some (sd, p, n))) else None
      | Ev_Cancel \<Rightarrow> (case A i of None \<Rightarrow> None
          | Some (_, _, q) \<Rightarrow> if i \<noteq> kInvalidOrderId \<and> 0 \<le> p \<and> 0 \<le> n \<and> n \<le> q
              then Some (if n = 0 then A(i := None) else take_quantity i n A) else None)
      | Ev_Replace \<Rightarrow> (case A i of None \<Rightarrow> None
          | Some (sd', _, _) \<Rightarrow> if i \<noteq> kInvalidOrderId \<and> sd' = sd \<and> on_its_side m sd p \<and> 0 < n
              then Some (A(i := Some (sd, p, n))) else None)
      | Ev_Execute \<Rightarrow> (case A i of None \<Rightarrow> None
          | Some (_, _, q) \<Rightarrow> if i \<noteq> kInvalidOrderId \<and> 0 \<le> p \<and> 0 < n \<and> n \<le> q then Some (take_quantity i n A) else None)
      | Ev_Trade \<Rightarrow> if 0 < p \<and> 0 < n then Some A else None
      | Ev_Heartbeat \<Rightarrow> if 0 \<le> p \<and> 0 \<le> n then Some A else None
      | Ev_Snapshot \<Rightarrow> None)"

fun accept_all :: "price_ticks \<Rightarrow> market_data_event list \<Rightarrow> resting \<Rightarrow> resting option" where
  "accept_all m [] A = Some A"
| "accept_all m (e # es) A = (case accept m e A of None \<Rightarrow> None | Some A' \<Rightarrow> accept_all m es A')"

lemma accept_all_append:
  "accept_all m (es @ es') A = (case accept_all m es A of None \<Rightarrow> None | Some A' \<Rightarrow> accept_all m es' A')"
  by (induction es arbitrary: A) (auto split: option.splits)

definition parted :: "price_ticks \<Rightarrow> resting \<Rightarrow> bool" where
  "parted m A \<longleftrightarrow> (\<forall>i sd p q. A i = Some (sd, p, q) \<longrightarrow> on_its_side m sd p)"

lemma parted_update [intro]:
  "parted m A \<Longrightarrow> parted m (A(i := None))"
  "parted m A \<Longrightarrow> on_its_side m sd p \<Longrightarrow> parted m (A(i := Some (sd, p, q)))"
  by (simp_all add: parted_def)

lemma parted_take: "parted m A \<Longrightarrow> parted m (take_quantity i n A)"
  unfolding take_quantity_def by (auto simp: parted_def split: option.splits)

lemma accept_parted:
  assumes "accept m e A = Some A'" and p: "parted m A"
  shows "parted m A'"
proof -
  let ?i = "ev_order_id e"
  consider "A' = A" | "A' = A(?i := None)" | "A' = take_quantity ?i (ev_quantity e) A"
    | "on_its_side m (ev_side e) (ev_price_ticks e)" "A' = A(?i := Some (ev_side e, ev_price_ticks e, ev_quantity e))"
    using assms(1) by (auto simp: accept_def Let_def split: market_event_type.splits if_splits option.splits)
  then show ?thesis using p parted_take [OF p] by cases auto
qed

section \<open>The book follows\<close>

lemma find_filter_key: "find (\<lambda>x. f x = j) (filter (\<lambda>y. f y \<noteq> i) xs) = (if j = i then None else find (\<lambda>x. f x = j) xs)"
  by (induction xs) auto

lemma find_map_key: "(\<And>x. f (g x) = f x) \<Longrightarrow> find (\<lambda>x. f x = j) (map g xs) = map_option g (find (\<lambda>x. f x = j) xs)"
  by (induction xs) auto

lemma find_after_add:
  assumes "ladder_ok L" and "fst (spec_add x L)"
  shows "ld_find j (snd (spec_add x L)) = (if j = o_order_id x then Some x else ld_find j L)"
proof -
  let ?L = "snd (spec_add x L)"
  have ok: "ladder_ok ?L" using spec_add_ok [OF assms(1)] .
  have side: "is_valid_side (o_side x)" and L: "?L = on_side (o_side x) (push_order x) L"
    using assms(2) by (auto simp: spec_add_def is_valid_resting_order_def split: if_splits)
  have orders: "set (ld_orders ?L) = insert x (set (ld_orders L))"
    using arg_cong [OF mset_orders_push [OF assms(1) side], of set_mset] by (simp add: L)
  have "ld_find (o_order_id x) L = None" using assms(2) by (auto simp: spec_add_def split: if_splits)
  then have new: "o_order_id y \<noteq> o_order_id x" if "y \<in> set (ld_orders L)" for y using that unfolding ld_find_None by (metis image_eqI)
  show ?thesis
  proof (rule option_eqI)
    fix y
    show "ld_find j ?L = Some y \<longleftrightarrow> (if j = o_order_id x then Some x else ld_find j L) = Some y"
      using new by (auto simp: ld_find_Some [OF ok] ld_find_Some [OF assms(1)] orders)
  qed
qed

lemma find_after_cancel:
  assumes "ladder_ok L"
  shows "ld_find j (snd (spec_cancel i L)) = (if j = i then None else ld_find j L)"
proof (cases "ld_find i L")
  case None
  then show ?thesis by (simp add: spec_cancel_def)
next
  case (Some x)
  then have x: "x \<in> set (ld_orders L)" "o_order_id x = i" by (simp_all add: ld_find_Some [OF assms])
  have "ld_orders (snd (spec_cancel i L)) = filter (\<lambda>y. o_order_id y \<noteq> i) (ld_orders L)"
    using ld_orders_drop [OF assms x(1)] x(2) by (simp add: spec_cancel_def Some)
  then show ?thesis by (simp add: ld_find_def find_filter_key)
qed

lemma find_after_reduce:
  assumes "ladder_ok L" and "0 < n" and "ld_find i L = Some x"
  shows "ld_find j (snd (spec_reduce i n L)) = (if j = i then if n \<ge> o_quantity x then None
      else Some (x\<lparr>o_quantity := o_quantity x - n\<rparr>) else ld_find j L)"
proof (cases "n \<ge> o_quantity x")
  case True
  then show ?thesis using assms find_after_cancel [OF assms(1), of j i] by (simp add: spec_reduce_def)
next
  case False
  have x: "x \<in> set (ld_orders L)" "o_order_id x = i" using assms(3) by (simp_all add: ld_find_Some [OF assms(1)])
  let ?g = "\<lambda>y. if o_order_id y = i then y\<lparr>o_quantity := o_quantity y - n\<rparr> else y"
  have "ld_orders (snd (spec_reduce i n L)) = map ?g (ld_orders L)"
    using False assms(2,3) ld_orders_shrink [OF assms(1) x(1), of n] x(2) by (simp add: spec_reduce_def)
  then have found: "ld_find j (snd (spec_reduce i n L)) = map_option ?g (ld_find j L)"
    by (simp add: ld_find_def find_map_key)
  show ?thesis
  proof (cases "j = i")
    case True
    then show ?thesis using found assms(3) False x(2) by simp
  next
    case other: False
    have "o_order_id y = j" if "ld_find j L = Some y" for y using that by (simp add: ld_find_Some [OF assms(1)])
    then show ?thesis using found other by (cases "ld_find j L") auto
  qed
qed

lemma find_after_replace:
  assumes "ladder_ok L" and "fst (spec_replace i p n ts sq L)" and "ld_find i L = Some x"
  shows "ld_find j (snd (spec_replace i p n ts sq L)) = (if j = i then Some (reprice x p n ts sq) else ld_find j L)"
proof -
  have id: "o_order_id (reprice x p n ts sq) = i" using assms(3) by (simp add: reprice_def ld_find_Some [OF assms(1)])
  have r: "spec_replace i p n ts sq L = spec_add (reprice x p n ts sq) (snd (spec_cancel i L))"
    using assms(2,3) by (auto simp: spec_replace_def split: if_splits)
  have "fst (spec_add (reprice x p n ts sq) (snd (spec_cancel i L)))" using assms(2) unfolding r .
  from find_after_add [OF spec_cancel_ok [OF assms(1)] this] show ?thesis
    unfolding r id by (simp add: find_after_cancel [OF assms(1)])
qed

lemma resting_ladder: "ob_inv b \<Longrightarrow> resting_of b i = map_option (\<lambda>x. (o_side x, o_price_ticks x, o_quantity x)) (ld_find i (ob_ladder b))"
  by (simp add: resting_of_def ob_find_refines)

lemma resting_new: "resting_of (ob_new sy) = Map.empty"
  by (simp add: resting_of_def find_new fun_eq_iff)

lemma parted_uncrossed:
  assumes "ob_inv b" and "parted m (resting_of b)"
  shows "book_uncrossed b"
proof -
  let ?L = "ob_ladder b"
  have ok: "ladder_ok ?L" using assms(1) by (simp add: ob_inv_def)
  have side: "on_its_side m sd p" if sd: "is_valid_side sd" and p: "p \<in> fst ` set (ld_levels sd ?L)" for sd p
  proof -
    obtain q where q: "(p, q) \<in> set (ld_levels sd ?L)" using p by auto
    with ladder_ok_levels [OF ok sd] obtain x where x: "x \<in> set q" "o_side x = sd" "o_price_ticks x = p"
      by (force simp: levels_ok_def neq_Nil_conv)
    have "x \<in> set (flat (ld_levels sd ?L))" using q x(1) by (auto simp: in_flat)
    then have "x \<in> set (ld_orders ?L)" using sd by (cases sd) (auto simp: ld_orders_levels)
    then have "ld_find (o_order_id x) ?L = Some x" by (simp add: ld_find_Some [OF ok])
    then show ?thesis using assms(2) x(2,3) by (force simp: parted_def resting_ladder [OF assms(1)])
  qed
  show ?thesis
    unfolding uncrossed_ladder [OF assms(1)] ladder_uncrossed_def
    using side [of Buy] side [of Sell] by (fastforce simp: on_its_side_def ld_levels_def)
qed

lemma accepted_is_valid:
  assumes "ob_inv b" and "ev_symbol_id e = ob_symbol_id b" and "ob_symbol_id b \<noteq> kInvalidSymbolId"
    and "accept m e (resting_of b) = Some A"
  shows "validation_failure b e = None" and "ev_event_type e \<noteq> Ev_Snapshot"
  using assms(2-4)
  by (auto simp: accept_def resting_of_def on_its_side_def validation_failure_def resting_failure_def is_order_id_required_def
      is_price_required_def is_quantity_required_def Let_def split: market_event_type.splits if_splits option.splits prod.splits)

lemma accepted_follows:
  assumes inv: "ob_inv b" and "ev_symbol_id e = ob_symbol_id b" and "ob_symbol_id b \<noteq> kInvalidSymbolId"
    and acc: "accept m e (resting_of b) = Some A"
  shows "fst (apply_book e b)" and "resting_of (snd (apply_book e b)) = A"
proof -
  let ?L = "ob_ladder b" and ?b = "snd (apply_book e b)" and ?i = "ev_order_id e"
  note valid = accepted_is_valid [OF assms]
  show applied: "fst (apply_book e b)" by (rule validated_applies [OF inv valid])
  have ok: "ladder_ok ?L" using inv by (simp add: ob_inv_def)
  have inv': "ob_inv ?b" by (rule apply_book_keeps(1) [OF inv])
  have step: "spec_step op ?L = (fst (ob_step op b), ob_ladder (snd (ob_step op b)))" for op
    using ob_step_refines [OF inv, of op] by simp
  let ?v = "\<lambda>x. (o_side x, o_price_ticks x, o_quantity x)"
  show "resting_of ?b = A"
  proof (cases "ev_event_type e")
    case Ev_Add
    have s: "fst (spec_add (event_order e) ?L)" "ob_ladder ?b = snd (spec_add (event_order e) ?L)"
      using step [of "Op_Add (event_order e)"] applied by (simp_all add: apply_book_def Ev_Add)
    have "A = (resting_of b)(?i := Some (ev_side e, ev_price_ticks e, ev_quantity e))"
      using acc by (auto simp: accept_def Ev_Add Let_def split: if_splits)
    then show ?thesis using find_after_add [OF ok s(1)]
      by (simp add: fun_eq_iff resting_ladder [OF inv'] resting_ladder [OF inv] s(2) event_order_def)
  next
    case Ev_Replace
    obtain x where x: "ld_find ?i ?L = Some x" "o_side x = ev_side e"
      and A: "A = (resting_of b)(?i := Some (ev_side e, ev_price_ticks e, ev_quantity e))"
      using acc by (auto simp: accept_def Ev_Replace Let_def resting_ladder [OF inv] split: if_splits option.splits prod.splits)
    let ?r = "spec_replace ?i (ev_price_ticks e) (ev_quantity e) (ev_timestamp_ns e) (ev_sequence_number e) ?L"
    have s: "fst ?r" "ob_ladder ?b = snd ?r"
      using step [of "Op_Replace ?i (ev_price_ticks e) (ev_quantity e) (ev_timestamp_ns e) (ev_sequence_number e)"] applied
      by (simp_all add: apply_book_def Ev_Replace)
    show ?thesis using find_after_replace [OF ok s(1) x(1)] x(2)
      by (simp add: A fun_eq_iff resting_ladder [OF inv'] resting_ladder [OF inv] s(2) reprice_def)
  next
    case Ev_Cancel
    obtain x where x: "ld_find ?i ?L = Some x" and n: "0 \<le> ev_quantity e"
      and A: "A = (if ev_quantity e = 0 then (resting_of b)(?i := None) else take_quantity ?i (ev_quantity e) (resting_of b))"
      using acc by (auto simp: accept_def Ev_Cancel Let_def resting_ladder [OF inv] split: if_splits option.splits prod.splits)
    have s: "ob_ladder ?b = (if ev_quantity e > 0 then snd (spec_reduce ?i (ev_quantity e) ?L) else snd (spec_cancel ?i ?L))"
      using step [of "Op_Reduce ?i (ev_quantity e)"] step [of "Op_Cancel ?i"] by (simp add: apply_book_def Ev_Cancel)
    show ?thesis using find_after_reduce [OF ok _ x] find_after_cancel [OF ok, of _ ?i] x n
      by (simp add: A fun_eq_iff resting_ladder [OF inv'] resting_ladder [OF inv] s take_quantity_def)
  next
    case Ev_Execute
    obtain x where x: "ld_find ?i ?L = Some x" and n: "0 < ev_quantity e" and A: "A = take_quantity ?i (ev_quantity e) (resting_of b)"
      using acc by (auto simp: accept_def Ev_Execute Let_def resting_ladder [OF inv] split: if_splits option.splits prod.splits)
    have s: "ob_ladder ?b = snd (spec_reduce ?i (ev_quantity e) ?L)"
      using step [of "Op_Reduce ?i (ev_quantity e)"] by (simp add: apply_book_def Ev_Execute)
    show ?thesis using find_after_reduce [OF ok n x] x
      by (simp add: A fun_eq_iff resting_ladder [OF inv'] resting_ladder [OF inv] s take_quantity_def)
  qed (use acc in \<open>auto simp: accept_def apply_book_def Let_def split: if_splits\<close>)
qed

section \<open>Accepted streams replay\<close>

lemma finds_no_gap:
  assumes "rc_validate_sequence_numbers rc \<longrightarrow> ss_expected_sequence st = 0 \<or> ss_expected_sequence st = ev_sequence_number e"
  shows "fst (check_sequence rc e st) = None"
    and "rc_validate_sequence_numbers rc \<Longrightarrow> ss_expected_sequence (snd (check_sequence rc e st)) = ev_sequence_number e + 1"
    and "ss_has_last_timestamp (snd (check_sequence rc e st)) = ss_has_last_timestamp st"
    and "ss_last_timestamp (snd (check_sequence rc e st)) = ss_last_timestamp st"
  using assms by (auto simp: check_sequence_def Let_def)

lemma finds_no_reversal:
  assumes "rc_validate_timestamps rc \<longrightarrow> ss_has_last_timestamp st \<longrightarrow> ss_last_timestamp st \<le> ev_timestamp_ns e"
  shows "fst (check_timestamp rc e st) = None"
    and "ss_expected_sequence (snd (check_timestamp rc e st)) = ss_expected_sequence st"
    and "rc_validate_timestamps rc \<Longrightarrow> ss_last_timestamp (snd (check_timestamp rc e st)) = ev_timestamp_ns e"
  using assms by (auto simp: check_timestamp_def)

text \<open>What the stream checks ask of a stream from a given state on.\<close>

definition in_order :: "replay_config \<Rightarrow> replay_stream_state \<Rightarrow> market_data_event list \<Rightarrow> bool" where
  "in_order rc st es \<longleftrightarrow>
     (rc_validate_sequence_numbers rc \<longrightarrow> successively (\<lambda>e e'. ev_sequence_number e' = ev_sequence_number e + 1) es \<and>
        (es \<noteq> [] \<longrightarrow> ss_expected_sequence st = 0 \<or> ss_expected_sequence st = ev_sequence_number (hd es))) \<and>
     (rc_validate_timestamps rc \<longrightarrow> sorted (map ev_timestamp_ns es) \<and>
        (es \<noteq> [] \<longrightarrow> ss_has_last_timestamp st \<longrightarrow> ss_last_timestamp st \<le> ev_timestamp_ns (hd es)))"

lemma accepted_step:
  assumes inv: "ob_inv b" "ob_symbol_id b = ev_symbol_id e" "ev_symbol_id e \<noteq> kInvalidSymbolId" and run: "running r"
    and acc: "accept m e (resting_of b) = Some A" and parted: "parted m (resting_of b)" and mode: "mode_known rc"
    and order: "in_order rc st (e # es)"
  shows "\<exists>b' st' r'. replay_step rc e (b, st, r) = (True, b', st', r') \<and> ob_inv b' \<and> ob_symbol_id b' = ev_symbol_id e \<and>
    running r' \<and> resting_of b' = A \<and> in_order rc st' es"
proof -
  have seq: "rc_validate_sequence_numbers rc \<longrightarrow> ss_expected_sequence st = 0 \<or> ss_expected_sequence st = ev_sequence_number e"
    using order by (simp add: in_order_def)
  note gap = finds_no_gap [OF seq]
  have "rc_validate_timestamps rc \<longrightarrow> ss_has_last_timestamp (snd (check_sequence rc e st)) \<longrightarrow>
      ss_last_timestamp (snd (check_sequence rc e st)) \<le> ev_timestamp_ns e"
    using order gap(3,4) by (simp add: in_order_def)
  note rev = finds_no_reversal [OF this]
  have sym: "ev_symbol_id e = ob_symbol_id b" "ob_symbol_id b \<noteq> kInvalidSymbolId" using inv by simp_all
  note valid = accepted_is_valid [OF inv(1) sym acc]
  note follows = accepted_follows [OF inv(1) sym acc]
  let ?b = "snd (apply_book e b)"
  have "parted m (resting_of ?b)" using accept_parted [OF acc parted] follows(2) by simp
  then have "book_uncrossed ?b" using parted_uncrossed [OF apply_book_keeps(1) [OF inv(1)]] by blast
  then have "refusal rc e b = None" using follows(1) by (simp add: refusal_def)
  then have applied: "apply_event rc e i (b, r) = (True, ?b, with_activity e r)" for i
    using apply_event_exact [OF inv(1) mode valid(1)] parted_uncrossed [OF inv(1) parted] by simp
  obtain st1 where st1: "check_sequence rc e st = (None, st1)" using gap(1) by (cases "check_sequence rc e st") auto
  obtain st2 where st2: "check_timestamp rc e st1 = (None, st2)" using rev(1) st1 by (cases "check_timestamp rc e st1") auto
  let ?st' = "st2\<lparr>ss_event_index := ss_event_index st2 + 1\<rparr>"
  let ?r' = "(with_activity e r)\<lparr>rp_events_processed := rp_events_processed (with_activity e r) + 1\<rparr>"
  have step: "replay_step rc e (b, st, r) = (True, ?b, ?st', ?r')"
    by (simp add: replay_step_def Let_def st1 st2 validate_event_before_apply_def valid(1) applied)
  have "running ?r'" using run by (simp add: with_activity_def update_activity_checksum_def)
  moreover have "in_order rc ?st' es"
    using order gap(2) rev(2,3) by (cases es) (auto simp: in_order_def st1 st2)
  ultimately show ?thesis using step apply_book_keeps [OF inv(1), of e] inv(2) follows(2)
    by (intro exI [of _ ?b] exI [of _ ?st'] exI [of _ ?r']) simp
qed

lemma accepted_loop:
  assumes "ob_inv b" "ob_symbol_id b = sy" "sy \<noteq> kInvalidSymbolId" "running r" "parted m (resting_of b)" "mode_known rc"
    and "\<forall>e \<in> set es. ev_symbol_id e = sy" and "accept_all m es (resting_of b) = Some A" and "in_order rc st es"
  shows "case replay_loop rc es (b, st, r) of (b', st', r') \<Rightarrow> ob_inv b' \<and> running r' \<and> book_uncrossed b'"
  using assms
proof (induction es arbitrary: b st r)
  case Nil
  then show ?case using parted_uncrossed by simp
next
  case (Cons e es)
  obtain A' where A': "accept m e (resting_of b) = Some A'" "accept_all m es A' = Some A"
    using Cons.prems(8) by (auto split: option.splits)
  have e: "ob_symbol_id b = ev_symbol_id e" "ev_symbol_id e \<noteq> kInvalidSymbolId" using Cons.prems(2,3,7) by simp_all
  obtain b' st' r' where step: "replay_step rc e (b, st, r) = (True, b', st', r')" "ob_inv b'" "ob_symbol_id b' = ev_symbol_id e"
    "running r'" "resting_of b' = A'" "in_order rc st' es"
    using accepted_step [OF Cons.prems(1) e Cons.prems(4) A'(1) Cons.prems(5,6,9)] by blast
  have "parted m (resting_of b')" using accept_parted [OF A'(1) Cons.prems(5)] step(5) by simp
  then show ?case
    using Cons.IH [OF step(2) _ Cons.prems(3) step(4) _ Cons.prems(6), of st'] Cons.prems(2,7) e step A'(2) by simp
qed

lemma accepted_stream_replays:
  assumes "accept_all m es Map.empty = Some A" and "\<forall>e \<in> set es. ev_symbol_id e = sy" and "sy \<noteq> kInvalidSymbolId"
    and "mode_known rc" and "in_order rc blank_stream es"
  shows "rp_diagnostics (snd (replay_events rc es (ob_new sy))) = []"
proof -
  let ?r = "(begin_stream blank_result)\<lparr>rp_event_log_checksum := checksum_events es\<rparr>"
  obtain b st r where l: "replay_loop rc es (ob_new sy, blank_stream, ?r) = (b, st, r)"
    by (cases "replay_loop rc es (ob_new sy, blank_stream, ?r)") auto
  have start: "ob_inv (ob_new sy)" "ob_symbol_id (ob_new sy) = sy" "parted m (resting_of (ob_new sy))"
    using ob_inv_new by (simp_all add: ob_new_def resting_new [unfolded ob_new_def] parted_def)
  have fin: "ob_inv b" "running r" "book_uncrossed b"
    using accepted_loop [OF start(1,2) assms(3) running_begin start(3) assms(4,2) _ assms(5), of A "checksum_events es"] assms(1)
    by (simp_all add: resting_new l)
  have "rp_diagnostics (finalize_stream rc b r) = rp_diagnostics r"
    using fin ob_check_clean [OF fin(1)]
    by (simp add: finalize_stream_def validate_full_book_def empty_report_def validate_top_uncrossed Let_def)
  then show ?thesis using fin(2) by (simp add: replay_events_def l Let_def running_def)
qed

section \<open>The positions of a generated stream\<close>

definition generated_at :: "generator_config \<Rightarrow> market_data_event list \<Rightarrow> bool" where
  "generated_at cfg es \<longleftrightarrow> (\<forall>i < length es.
     ev_sequence_number (es ! i) = gc_first_sequence_number cfg + of_nat i \<and>
     ev_timestamp_ns (es ! i) = timestamp_for_index cfg i)"

lemma generated_at_snoc:
  "generated_at cfg es \<Longrightarrow> ev_sequence_number e = gc_first_sequence_number cfg + of_nat (length es) \<Longrightarrow>
    ev_timestamp_ns e = timestamp_for_index cfg (length es) \<Longrightarrow> generated_at cfg (es @ [e])"
  by (auto simp: generated_at_def nth_append less_Suc_eq)

lemma timestamps_monotone: "i \<le> j \<Longrightarrow> timestamp_for_index cfg i \<le> timestamp_for_index cfg j"
  by (simp add: timestamp_for_index_def Let_def div_le_mono)

lemma generated_sorted:
  assumes "generated_at cfg es"
  shows "sorted (map ev_timestamp_ns (filter P es))"
proof -
  have "map ev_timestamp_ns es = map (timestamp_for_index cfg) [0..<length es]"
    using assms by (auto simp: generated_at_def intro!: nth_equalityI)
  moreover have "sorted (map (timestamp_for_index cfg) [0..<n])" for n
    by (simp add: sorted_iff_nth_mono timestamps_monotone)
  ultimately have "sorted (map ev_timestamp_ns es)" by simp
  then show ?thesis by (rule sorted_filter)
qed

lemma generated_in_order:
  assumes g: "generated_at cfg es" and "rc_validate_sequence_numbers rc \<longrightarrow> filter P es = es"
  shows "in_order rc blank_stream (filter P es)"
proof -
  have "successively (\<lambda>e e'. ev_sequence_number e' = ev_sequence_number e + 1) es"
    using g by (simp add: successively_conv_nth generated_at_def add.assoc)
  then show ?thesis using assms(2) generated_sorted [OF g, of P] by (auto simp: in_order_def blank_stream_def)
qed

section \<open>The scripted lifecycle is accepted\<close>

definition call_event :: "generator_config \<Rightarrow> nat \<Rightarrow> push_call \<Rightarrow> market_data_event" where
  "call_event cfg index c = (case c of (ty, sd, price, quantity, order_id, trade_id) \<Rightarrow>
     \<lparr>ev_timestamp_ns = gc_first_timestamp_ns cfg + int index,
       ev_sequence_number = gc_first_sequence_number cfg + of_nat index, ev_symbol_id = gc_symbol_id cfg,
       ev_event_type = ty, ev_side = sd, ev_price_ticks = price, ev_quantity = quantity, ev_order_id = order_id,
       ev_trade_id = trade_id, ev_flags = 0\<rparr>)"

lemma push_call: "push_event cfg events c =
    (if length events \<ge> gc_event_count cfg then events else events @ [call_event cfg (length events) c])"
  by (cases c) (simp add: push_event_def call_event_def Let_def)

lemma accept_call: "accept m (call_event cfg index c) A = accept m (call_event cfg 0 c) A"
  by (cases c) (simp add: accept_def call_event_def Let_def)

definition scripted :: "generator_config \<Rightarrow> market_data_event list \<Rightarrow> bool" where
  "scripted cfg es \<longleftrightarrow> length es \<le> gc_event_count cfg \<and> generated_at cfg es \<and> (\<forall>e \<in> set es. ev_symbol_id e = gc_symbol_id cfg)"

lemma scripted_push:
  assumes "scripted cfg es" and "gc_mode cfg = Sf_AdversarialLifecycle"
  shows "scripted cfg (push_event cfg es c)"
  using assms by (auto simp: scripted_def push_call call_event_def timestamp_for_index_def split: prod.splits
      intro!: generated_at_snoc)

lemma pushes_accepted:
  assumes "accept_all m es Map.empty = Some A" and "accept_all m (map (call_event cfg 0) cs) A = Some A'"
    and "scripted cfg es" and "gc_mode cfg = Sf_AdversarialLifecycle"
  shows "scripted cfg (foldl (push_event cfg) es cs) \<and> (\<exists>A''. accept_all m (foldl (push_event cfg) es cs) Map.empty = Some A'' \<and>
    (length (foldl (push_event cfg) es cs) < gc_event_count cfg \<longrightarrow> A'' = A'))"
  using assms(1-3)
proof (induction cs arbitrary: es A)
  case Nil
  then show ?case by simp
next
  case (Cons c cs)
  note scr = scripted_push [OF Cons.prems(3) assms(4), of c]
  show ?case
  proof (cases "length es \<ge> gc_event_count cfg")
    case True
    have full: "foldl (push_event cfg) es cs = es" for cs
      by (induction cs) (simp_all add: push_call True)
    show ?thesis using Cons.prems(1,3) True by (simp only: full) auto
  next
    case False
    obtain B where B: "accept m (call_event cfg 0 c) A = Some B" "accept_all m (map (call_event cfg 0) cs) B = Some A'"
      using Cons.prems(2) by (auto split: option.splits)
    have "accept_all m (push_event cfg es c) Map.empty = Some B"
      using False Cons.prems(1) B(1) by (simp add: push_call accept_all_append accept_call [of m cfg "length es"])
    from Cons.IH [OF this B(2) scr] show ?thesis by simp
  qed
qed

lemma cycle_accepted:
  assumes "1 \<le> gc_mid_price_ticks cfg" and "order_id \<noteq> 0" and "order_id + 1 \<noteq> 0"
  shows "accept_all (gc_mid_price_ticks cfg) (map (call_event cfg 0) (adversarial_cycle cfg cycle order_id trade_id)) Map.empty =
    Some Map.empty"
proof -
  let ?m = "gc_mid_price_ticks cfg"
  have prices: "on_its_side ?m Buy (max 1 (?m - 5 - int k))" "on_its_side ?m Buy (max 1 (max 1 (?m - 5 - int k) - 1))"
    "on_its_side ?m Buy (max 1 (max 1 (?m - 5 - int k) - 2))" "on_its_side ?m Sell (?m + 5 + int k)" "on_its_side ?m Sell (?m + 5 + int k + 1)"
    for k using assms(1) by (auto simp: on_its_side_def)
  have pos: "0 < max (1 :: int) x" "0 \<le> max (1 :: int) x" for x by auto
  show ?thesis
    using assms(2,3) prices [of "cycle mod 17"] assms(1)
    by (simp add: pos adversarial_cycle_def call_event_def accept_def take_quantity_def Let_def)
qed

lemma small_id: "0 < n \<Longrightarrow> n < 2 ^ 64 \<Longrightarrow> (of_nat n :: u64) \<noteq> 0"
  by (auto simp: word_of_nat_eq_0_iff dest: nat_dvd_not_less)

lemma pushes_length: "length es \<le> gc_event_count cfg \<Longrightarrow>
    length (foldl (push_event cfg) es cs) = min (gc_event_count cfg) (length es + length cs)"
  by (induction cs arbitrary: es) (auto simp: push_length)

lemma cycle_length: "length (adversarial_cycle cfg cycle order_id trade_id) = 16"
  by (simp add: adversarial_cycle_def Let_def)

lemma adversarial_accepted:
  assumes "1 \<le> gc_mid_price_ticks cfg" and "gc_mode cfg = Sf_AdversarialLifecycle" and "gc_event_count cfg < 2 ^ 64"
    and "accept_all (gc_mid_price_ticks cfg) es Map.empty = Some A" and "length es < gc_event_count cfg \<longrightarrow> A = Map.empty"
    and "scripted cfg es" and "order_id = of_nat (2 * k + 1)" and "length es < gc_event_count cfg \<longrightarrow> 16 * k \<le> length es"
  shows "let es' = adversarial_loop cfg cycle order_id trade_id es in scripted cfg es' \<and> length es' = gc_event_count cfg \<and>
    (\<exists>A'. accept_all (gc_mid_price_ticks cfg) es' Map.empty = Some A')"
  using assms
proof (induction cfg cycle order_id trade_id es arbitrary: k A rule: adversarial_loop.induct)
  case (1 cfg cycle order_id trade_id es)
  let ?m = "gc_mid_price_ticks cfg" and ?cs = "adversarial_cycle cfg cycle order_id trade_id"
  let ?es = "foldl (push_event cfg) es ?cs"
  show ?case
  proof (cases "length es < gc_event_count cfg")
    case False
    moreover have "length es \<le> gc_event_count cfg" using "1.prems"(6) by (simp add: scripted_def)
    ultimately show ?thesis using "1.prems"(4,6) by (subst adversarial_loop.simps) simp
  next
    case True
    have small: "16 * k < 2 ^ 64" using True "1.prems"(3,8) by linarith
    have "order_id \<noteq> 0" unfolding "1.prems"(7) by (rule small_id) (use small in auto)
    moreover have "order_id + 1 = of_nat (2 * k + 2)" using "1.prems"(7) by simp
    moreover have "(of_nat (2 * k + 2) :: u64) \<noteq> 0" by (rule small_id) (use small in auto)
    ultimately have cycle: "accept_all ?m (map (call_event cfg 0) ?cs) Map.empty = Some Map.empty"
      using cycle_accepted [OF "1.prems"(1)] by metis
    have "accept_all ?m es Map.empty = Some Map.empty" using True "1.prems"(4,5) by simp
    note pushed = pushes_accepted [OF this cycle "1.prems"(6,2)]
    obtain A'' where A'': "accept_all ?m ?es Map.empty = Some A''" "length ?es < gc_event_count cfg \<longrightarrow> A'' = Map.empty"
      using pushed by blast
    have len: "length ?es = min (gc_event_count cfg) (length es + 16)"
      using pushes_length [of es cfg ?cs] True by (simp add: cycle_length)
    have next_id: "order_id + 2 = of_nat (2 * (k + 1) + 1)" using "1.prems"(7) by simp
    have "length ?es < gc_event_count cfg \<longrightarrow> 16 * (k + 1) \<le> length ?es" using len True "1.prems"(8) by auto
    from "1.IH" [OF True "1.prems"(1-3) A'' conjunct1 [OF pushed] next_id this] show ?thesis
      by (subst adversarial_loop.simps) (simp add: True)
  qed
qed

lemma adversarial_stream:
  assumes "1 \<le> gc_mid_price_ticks cfg" and "gc_mode cfg = Sf_AdversarialLifecycle" and "gc_event_count cfg < 2 ^ 64"
    and "es = generate_adversarial_lifecycle_events cfg"
  shows "generated_at cfg es \<and> length es = gc_event_count cfg \<and> (\<forall>e \<in> set es. ev_symbol_id e = gc_symbol_id cfg) \<and>
    (\<exists>A. accept_all (gc_mid_price_ticks cfg) es Map.empty = Some A)"
  using adversarial_accepted [OF assms(1-3), of "[]" Map.empty 1 0 0 1] assms(4)
  by (simp add: scripted_def generated_at_def generate_adversarial_lifecycle_events_def Let_def)

section \<open>The random flow is accepted\<close>

text \<open>What the standard promises of a uniform integer distribution.\<close>

definition draws_ok :: "'g draws \<Rightarrow> bool" where
  "draws_ok draw \<longleftrightarrow> (\<forall>g lo hi. lo \<le> hi \<longrightarrow> lo \<le> fst (draw g lo hi) \<and> fst (draw g lo hi) \<le> hi)"

lemma draw_range: "draws_ok draw \<Longrightarrow> draw g lo hi = (v, g') \<Longrightarrow> lo \<le> hi \<Longrightarrow> lo \<le> v \<and> v \<le> hi"
  unfolding draws_ok_def by (metis fst_conv)

definition active_value :: "symbol_id \<Rightarrow> active_order \<Rightarrow> (side \<times> price_ticks \<times> quantity) option" where
  "active_value sy a = (if ao_symbol_id a = sy then Some (ao_side a, ao_price_ticks a, ao_quantity a) else None)"

definition active_map :: "symbol_id \<Rightarrow> active_order list \<Rightarrow> resting" where
  "active_map sy act i = Option.bind (find (\<lambda>a. ao_order_id a = i) act) (active_value sy)"

lemma find_split:
  "find P (xs @ ys) = (case find P xs of None \<Rightarrow> find P ys | Some x \<Rightarrow> Some x)"
  by (induction xs) auto

lemma find_absent: "i \<notin> ao_order_id ` set act \<Longrightarrow> find (\<lambda>a. ao_order_id a = i) act = None"
  by (induction act) auto

lemma active_map_absent: "i \<notin> ao_order_id ` set act \<Longrightarrow> active_map sy act i = None"
  by (simp add: active_map_def find_absent)

lemma active_map_insert:
  assumes "ao_order_id a \<notin> ao_order_id ` set (xs @ ys)"
  shows "active_map sy (xs @ a # ys) = (active_map sy (xs @ ys))(ao_order_id a := active_value sy a)"
proof
  fix i
  have "find (\<lambda>b. ao_order_id b = ao_order_id a) xs = None" using assms by (intro find_absent) auto
  then show "active_map sy (xs @ a # ys) i = ((active_map sy (xs @ ys))(ao_order_id a := active_value sy a)) i"
    by (cases "find (\<lambda>b. ao_order_id b = i) xs") (auto simp: active_map_def find_split)
qed

definition active_ok :: "generator_config \<Rightarrow> order_id \<Rightarrow> active_order \<Rightarrow> bool" where
  "active_ok cfg limit a \<longleftrightarrow> ao_order_id a \<noteq> 0 \<and> unat (ao_order_id a) < unat limit \<and>
     on_its_side (gc_mid_price_ticks cfg) (ao_side a) (ao_price_ticks a) \<and> 0 < ao_quantity a \<and>
     ao_symbol_id a \<in> range (symbol_for_index cfg)"

definition gen_inv :: "generator_config \<Rightarrow> nat \<Rightarrow> 'g generator \<Rightarrow> bool" where
  "gen_inv cfg i s \<longleftrightarrow> length (gn_events s) = i \<and> generated_at cfg (gn_events s) \<and>
     (\<forall>e \<in> set (gn_events s). ev_symbol_id e \<in> range (symbol_for_index cfg)) \<and>
     (\<forall>sy. accept_all (gc_mid_price_ticks cfg) (filter (\<lambda>e. ev_symbol_id e = sy) (gn_events s)) Map.empty =
        Some (active_map sy (gn_active s))) \<and>
     distinct (map ao_order_id (gn_active s)) \<and> (\<forall>a \<in> set (gn_active s). active_ok cfg (gn_next_order_id s) a) \<and>
     0 < unat (gn_next_order_id s) \<and> unat (gn_next_order_id s) \<le> i + 1"

lemma gen_inv_write:
  assumes inv: "gen_inv cfg i s" and sym: "ao_symbol_id a \<in> range (symbol_for_index cfg)"
    and s': "gn_events s' = gn_events s @ [order_event cfg i ty a n t]"
    and acc: "accept (gc_mid_price_ticks cfg) (order_event cfg i ty a n t) (active_map (ao_symbol_id a) (gn_active s)) =
      Some (active_map (ao_symbol_id a) (gn_active s'))"
    and other: "\<And>sy. sy \<noteq> ao_symbol_id a \<Longrightarrow> active_map sy (gn_active s') = active_map sy (gn_active s)"
    and "distinct (map ao_order_id (gn_active s'))" "\<forall>a \<in> set (gn_active s'). active_ok cfg (gn_next_order_id s') a"
    and "0 < unat (gn_next_order_id s')" "unat (gn_next_order_id s') \<le> i + 2"
  shows "gen_inv cfg (Suc i) s'"
proof -
  have "generated_at cfg (gn_events s')" unfolding s'
    using inv by (intro generated_at_snoc) (auto simp: gen_inv_def order_event_def)
  moreover have "accept_all (gc_mid_price_ticks cfg) (filter (\<lambda>e. ev_symbol_id e = sy) (gn_events s')) Map.empty =
      Some (active_map sy (gn_active s'))" for sy
    using inv acc other [of sy]
    by (cases "sy = ao_symbol_id a") (simp_all add: gen_inv_def s' accept_all_append order_event_def)
  ultimately show ?thesis using assms by (simp add: gen_inv_def order_event_def)
qed

lemma random_price_side:
  assumes "draws_ok draw" and "random_price draw cfg sd g = (price, g')" and "is_valid_side sd" and "1 \<le> gc_mid_price_ticks cfg"
  shows "on_its_side (gc_mid_price_ticks cfg) sd price"
proof -
  obtain depth g'' where d: "draw g 1 (price_range_for_mode cfg) = (depth, g'')" by (cases "draw g 1 (price_range_for_mode cfg)")
  have "1 \<le> price_range_for_mode cfg" by (auto simp: price_range_for_mode_def)
  then have "1 \<le> depth" using draw_range [OF assms(1) d] by simp
  then show ?thesis using assms(2-4) d by (cases sd) (auto simp: random_price_def on_its_side_def)
qed

lemma add_keeps:
  assumes inv: "gen_inv cfg i s" and "draws_ok draw" and "1 \<le> gc_mid_price_ticks cfg" and bound: "i < 2 ^ 64 - 2"
  shows "gen_inv cfg (Suc i) (generate_add draw cfg i s)"
proof -
  obtain sd g1 where sd: "random_side draw (gn_rng s) = (sd, g1)" by (cases "random_side draw (gn_rng s)")
  obtain price g2 where price: "random_price draw cfg sd g1 = (price, g2)" by (cases "random_price draw cfg sd g1")
  obtain n g3 where n: "draw g2 1 250 = (n, g3)" by (cases "draw g2 1 250")
  let ?a = "\<lparr>ao_order_id = gn_next_order_id s, ao_symbol_id = symbol_for_index cfg i, ao_side = sd,
      ao_price_ticks = price, ao_quantity = n\<rparr>"
  let ?s = "s\<lparr>gn_rng := g3, gn_next_order_id := gn_next_order_id s + 1, gn_active := gn_active s @ [?a],
      gn_events := gn_events s @ [order_event cfg i Ev_Add ?a n 0]\<rparr>"
  have s': "generate_add draw cfg i s = ?s" by (simp add: generate_add_def sd price n Let_def)
  have "is_valid_side sd" using sd by (auto simp: random_side_def split: prod.splits if_splits)
  then have side: "on_its_side (gc_mid_price_ticks cfg) sd price" using random_price_side [OF assms(2) price] assms(3) by simp
  have pos: "0 < n" using draw_range [OF assms(2) n] by simp
  have lim: "unat (gn_next_order_id s) \<le> i + 1" "0 < unat (gn_next_order_id s)" using inv by (simp_all add: gen_inv_def)
  then have up: "unat (gn_next_order_id s + 1) = unat (gn_next_order_id s) + 1"
    using bound by (simp add: unat_word_ariths)
  have nonzero: "gn_next_order_id s \<noteq> 0" using lim(2) by auto
  have new: "gn_next_order_id s \<notin> ao_order_id ` set (gn_active s)"
    using inv by (auto simp: gen_inv_def active_ok_def)
  have "\<forall>a \<in> set (gn_active s @ [?a]). active_ok cfg (gn_next_order_id s + 1) a"
    using inv side pos lim up by (auto simp: gen_inv_def active_ok_def)
  moreover have "accept (gc_mid_price_ticks cfg) (order_event cfg i Ev_Add ?a n 0) (active_map (symbol_for_index cfg i) (gn_active s)) =
      Some (active_map (symbol_for_index cfg i) (gn_active s @ [?a]))"
    using active_map_insert [of ?a "gn_active s" "[]"] new side pos nonzero
    by (auto simp: accept_def order_event_def active_map_absent active_value_def Let_def)
  ultimately show ?thesis
    unfolding s' using inv new lim up active_map_insert [of ?a "gn_active s" "[]"]
    by (intro gen_inv_write [OF inv, of ?a]) (auto simp: gen_inv_def active_value_def active_map_absent)
qed

text \<open>The active order at a position, and the two ways the list changes there.\<close>

lemma active_at:
  assumes "gen_inv cfg i s" and "k < length (gn_active s)"
  obtains xs ys a where "gn_active s = xs @ a # ys" and "gn_active s ! k = a" and "erase_at k (gn_active s) = xs @ ys"
    and "\<And>a'. (gn_active s)[k := a'] = xs @ a' # ys" and "\<And>a'. erase_at k ((gn_active s)[k := a']) = xs @ ys"
    and "ao_order_id a \<notin> ao_order_id ` set (xs @ ys)" and "active_ok cfg (gn_next_order_id s) a"
proof -
  let ?xs = "take k (gn_active s)" and ?ys = "drop (Suc k) (gn_active s)" and ?a = "gn_active s ! k"
  have eq: "gn_active s = ?xs @ ?a # ?ys" using assms(2) by (rule id_take_nth_drop)
  have d: "distinct (map ao_order_id (?xs @ ?a # ?ys))" unfolding eq [symmetric] using assms(1) by (simp add: gen_inv_def)
  show thesis
  proof (rule that [OF eq refl])
    show "erase_at k (gn_active s) = ?xs @ ?ys" by (simp add: erase_at_def)
    show "(gn_active s)[k := a'] = ?xs @ a' # ?ys" for a' using assms(2) by (rule upd_conv_take_nth_drop)
    show "erase_at k ((gn_active s)[k := a']) = ?xs @ ?ys" for a' by (simp add: erase_at_def)
    show "ao_order_id ?a \<notin> ao_order_id ` set (?xs @ ?ys)" using d by auto
    show "active_ok cfg (gn_next_order_id s) ?a" using assms by (simp add: gen_inv_def)
  qed
qed

lemma existing_keeps:
  assumes inv: "gen_inv cfg i s" and act: "gn_active s = xs @ a # ys"
    and events: "gn_events s' = gn_events s @ [order_event cfg i ty b n t]" and ids: "gn_next_order_id s' = gn_next_order_id s"
    and b: "ao_order_id b = ao_order_id a" "ao_symbol_id b = ao_symbol_id a" "ao_side b = ao_side a"
    and active: "gn_active s' = xs @ ys \<and> v = None \<or>
      (\<exists>c. gn_active s' = xs @ c # ys \<and> ao_order_id c = ao_order_id a \<and> ao_symbol_id c = ao_symbol_id a \<and>
         active_ok cfg (gn_next_order_id s) c \<and> v = active_value (ao_symbol_id a) c)"
    and acc: "\<And>A. A (ao_order_id a) = None \<Longrightarrow>
      accept (gc_mid_price_ticks cfg) (order_event cfg i ty b n t) (A(ao_order_id a := active_value (ao_symbol_id a) a)) =
        Some (A(ao_order_id a := v))"
  shows "gen_inv cfg (Suc i) s'"
proof -
  have d: "distinct (map ao_order_id (xs @ a # ys))" using inv act by (simp add: gen_inv_def)
  then have new: "ao_order_id a \<notin> ao_order_id ` set (xs @ ys)" by auto
  have sym: "ao_symbol_id a \<in> range (symbol_for_index cfg)" using inv by (simp add: gen_inv_def act active_ok_def)
  have before: "active_map sy (gn_active s) = (active_map sy (xs @ ys))(ao_order_id a := active_value sy a)" for sy
    unfolding act by (rule active_map_insert [OF new])
  have none: "active_map sy (xs @ ys) (ao_order_id a) = None" for sy by (rule active_map_absent [OF new])
  have after: "active_map sy (gn_active s') = (active_map sy (xs @ ys))(ao_order_id a := (if sy = ao_symbol_id a then v else None))" for sy
    using active
  proof
    assume "gn_active s' = xs @ ys \<and> v = None"
    then show ?thesis using none [of sy] by (auto simp: fun_eq_iff)
  next
    assume "\<exists>c. gn_active s' = xs @ c # ys \<and> ao_order_id c = ao_order_id a \<and> ao_symbol_id c = ao_symbol_id a \<and>
         active_ok cfg (gn_next_order_id s) c \<and> v = active_value (ao_symbol_id a) c"
    then obtain c where c: "gn_active s' = xs @ c # ys" "ao_order_id c = ao_order_id a" "ao_symbol_id c = ao_symbol_id a"
      "v = active_value (ao_symbol_id a) c" by blast
    then show ?thesis using active_map_insert [of c xs ys sy] new by (auto simp: active_value_def)
  qed
  have "distinct (map ao_order_id (gn_active s'))" "\<forall>x \<in> set (gn_active s'). active_ok cfg (gn_next_order_id s') x"
    using active d inv unfolding gen_inv_def act ids by auto
  moreover have "active_map sy (gn_active s') = active_map sy (gn_active s)" if "sy \<noteq> ao_symbol_id b" for sy
    using that b none [of sy] by (simp add: before after active_value_def)
  ultimately show ?thesis
    using inv ids sym b acc [where A = "active_map (ao_symbol_id a) (xs @ ys)", OF none]
    by (intro gen_inv_write [OF inv _ events]) (simp_all add: before after gen_inv_def)
qed

lemma cancel_keeps:
  assumes inv: "gen_inv cfg i s" and k: "k < length (gn_active s)"
  shows "gen_inv cfg (Suc i) (generate_cancel cfg i k s)"
proof -
  obtain xs ys a where a: "gn_active s = xs @ a # ys" "gn_active s ! k = a" "erase_at k (gn_active s) = xs @ ys"
    "active_ok cfg (gn_next_order_id s) a" by (rule active_at [OF inv k]) blast
  show ?thesis
    by (rule existing_keeps [OF inv a(1), where b = a and v = None])
      (use a in \<open>auto simp: generate_cancel_def accept_def order_event_def active_value_def active_ok_def on_its_side_def fun_eq_iff\<close>)
qed

lemma generated_replace_keeps:
  assumes inv: "gen_inv cfg i s" and k: "k < length (gn_active s)" and "draws_ok draw" and "1 \<le> gc_mid_price_ticks cfg"
  shows "gen_inv cfg (Suc i) (generate_replace draw cfg i k s)"
proof -
  obtain xs ys a where a: "gn_active s = xs @ a # ys" "gn_active s ! k = a" "\<And>a'. (gn_active s)[k := a'] = xs @ a' # ys"
    "active_ok cfg (gn_next_order_id s) a" by (rule active_at [OF inv k]) blast
  obtain price g1 where price: "random_price draw cfg (ao_side a) (gn_rng s) = (price, g1)"
    by (cases "random_price draw cfg (ao_side a) (gn_rng s)")
  obtain n g2 where n: "draw g1 1 250 = (n, g2)" by (cases "draw g1 1 250")
  let ?c = "a\<lparr>ao_price_ticks := price, ao_quantity := n\<rparr>"
  have "is_valid_side (ao_side a)" using a(4) by (auto simp: active_ok_def on_its_side_def)
  then have side: "on_its_side (gc_mid_price_ticks cfg) (ao_side a) price" using random_price_side [OF assms(3) price] assms(4) by simp
  have pos: "0 < n" using draw_range [OF assms(3) n] by simp
  show ?thesis
    by (rule existing_keeps [OF inv a(1), where b = ?c and v = "active_value (ao_symbol_id a) ?c"])
      (use a side pos in \<open>auto simp: generate_replace_def price n Let_def accept_def order_event_def active_value_def active_ok_def\<close>)
qed

lemma execute_keeps:
  assumes inv: "gen_inv cfg i s" and k: "k < length (gn_active s)" and "draws_ok draw"
  shows "gen_inv cfg (Suc i) (generate_execute draw cfg i k s)"
proof -
  obtain xs ys a where a: "gn_active s = xs @ a # ys" "gn_active s ! k = a" "\<And>a'. (gn_active s)[k := a'] = xs @ a' # ys"
    "\<And>a'. erase_at k ((gn_active s)[k := a']) = xs @ ys" "active_ok cfg (gn_next_order_id s) a"
    by (rule active_at [OF inv k]) blast
  obtain n g where n: "draw (gn_rng s) 1 (ao_quantity a) = (n, g)" by (cases "draw (gn_rng s) 1 (ao_quantity a)")
  have "1 \<le> ao_quantity a" using a(5) by (simp add: active_ok_def)
  then have pos: "0 < n" "n \<le> ao_quantity a" using draw_range [OF assms(3) n] by simp_all
  let ?c = "a\<lparr>ao_quantity := ao_quantity a - n\<rparr>"
  let ?v = "if n = ao_quantity a then None else active_value (ao_symbol_id a) ?c"
  show ?thesis
    by (rule existing_keeps [OF inv a(1), where b = a and v = ?v])
      (use a pos in \<open>auto simp: generate_execute_def n Let_def accept_def order_event_def active_value_def active_ok_def
        take_quantity_def on_its_side_def fun_eq_iff\<close>)
qed

lemma generated_step_keeps:
  assumes inv: "gen_inv cfg i s" and draws: "draws_ok draw" and "1 \<le> gc_mid_price_ticks cfg" and "i < 2 ^ 64 - 2"
  shows "gen_inv cfg (Suc i) (generate_step draw cfg i s)"
proof -
  have rng: "gen_inv cfg i (s\<lparr>gn_rng := g\<rparr>)" for g using inv by (simp add: gen_inv_def)
  obtain roll g where roll: "draw (gn_rng s) 0 99 = (roll, g)" by (cases "draw (gn_rng s) 0 99")
  show ?thesis
  proof (cases "should_add cfg roll (gn_active s = [])")
    case True
    then show ?thesis using add_keeps [OF rng draws assms(3,4)] by (simp add: generate_step_def roll Let_def)
  next
    case False
    then have ne: "gn_active s \<noteq> []" by (auto simp: should_add_def)
    obtain k g' where k: "draw g 0 (int (length (gn_active s)) - 1) = (k, g')"
      by (cases "draw g 0 (int (length (gn_active s)) - 1)")
    have "0 \<le> int (length (gn_active s)) - 1" using ne by (cases "gn_active s") auto
    then have "nat k < length (gn_active (s\<lparr>gn_rng := g'\<rparr>))" using draw_range [OF draws k] ne by (simp add: nat_less_iff)
    note keeps = cancel_keeps [OF rng this] generated_replace_keeps [OF rng this draws assms(3)] execute_keeps [OF rng this draws]
    then show ?thesis using False by (simp add: generate_step_def roll k Let_def)
  qed
qed

lemma random_stream:
  assumes "draws_ok draw" and "1 \<le> gc_mid_price_ticks cfg" and "n < 2 ^ 64 - 1"
  shows "gen_inv cfg n (fold (generate_step draw cfg) [0..<n]
    \<lparr>gn_rng = g, gn_events = [], gn_active = [], gn_next_order_id = 1, gn_next_trade_id = 1\<rparr>)"
  using assms(3)
proof (induction n)
  case 0
  show ?case by (simp add: gen_inv_def generated_at_def active_map_def fun_eq_iff)
next
  case (Suc n)
  then show ?case using generated_step_keeps [OF _ assms(1,2), of n] by simp
qed

section \<open>Every generated stream replays\<close>

text \<open>The price between the sides is positive, the events can be numbered, and no symbol is the invalid one.\<close>

definition generator_config_ok :: "generator_config \<Rightarrow> bool" where
  "generator_config_ok cfg \<longleftrightarrow> 1 \<le> gc_mid_price_ticks cfg \<and> gc_event_count cfg < 2 ^ 64 - 1 \<and> gc_symbol_id cfg \<noteq> kInvalidSymbolId \<and>
     (gc_mode cfg = Sf_MultiSymbol \<longrightarrow> unat (gc_symbol_id cfg) + gc_symbol_count cfg \<le> 2 ^ 32)"

lemma symbol_valid:
  assumes "generator_config_ok cfg"
  shows "symbol_for_index cfg i \<noteq> kInvalidSymbolId"
proof -
  define k where "k = i mod (if gc_mode cfg = Sf_MultiSymbol then max 1 (gc_symbol_count cfg) else 1)"
  have pos: "0 < unat (gc_symbol_id cfg)" using assms by (simp add: generator_config_ok_def unat_gt_0)
  have "k < (if gc_mode cfg = Sf_MultiSymbol then max 1 (gc_symbol_count cfg) else 1)" unfolding k_def by (rule mod_less_divisor) auto
  moreover have "unat (gc_symbol_id cfg) < 2 ^ 32" using unsigned_less [of "gc_symbol_id cfg"] by simp
  ultimately have "unat (gc_symbol_id cfg) + k < 2 ^ 32" using assms pos by (auto simp: generator_config_ok_def split: if_splits)
  then have "unat (gc_symbol_id cfg + of_nat k) = unat (gc_symbol_id cfg) + k" by (simp add: unat_word_ariths unat_of_nat)
  then show ?thesis using pos by (auto simp: symbol_for_index_def k_def Let_def)
qed

lemma generated_stream:
  assumes draws: "draws_ok draw" and ok: "generator_config_ok cfg" and es: "es = generate_synthetic_events draw seeded cfg"
  shows "length es = gc_event_count cfg" and "generated_at cfg es" and "\<forall>e \<in> set es. ev_symbol_id e \<noteq> kInvalidSymbolId"
    and "gc_mode cfg \<noteq> Sf_MultiSymbol \<Longrightarrow> \<forall>e \<in> set es. ev_symbol_id e = gc_symbol_id cfg"
    and "\<exists>A. accept_all (gc_mid_price_ticks cfg) (filter (\<lambda>e. ev_symbol_id e = sy) es) Map.empty = Some A"
proof -
  have bounds: "1 \<le> gc_mid_price_ticks cfg" "gc_event_count cfg < 2 ^ 64 - 1" "gc_symbol_id cfg \<noteq> kInvalidSymbolId"
    using ok by (simp_all add: generator_config_ok_def)
  have "length es = gc_event_count cfg \<and> generated_at cfg es \<and> (\<forall>e \<in> set es. ev_symbol_id e \<in> range (symbol_for_index cfg)) \<and>
    (\<exists>A. accept_all (gc_mid_price_ticks cfg) (filter (\<lambda>e. ev_symbol_id e = sy) es) Map.empty = Some A)"
  proof (cases "gc_mode cfg = Sf_AdversarialLifecycle")
    case True
    then have s: "generated_at cfg es \<and> length es = gc_event_count cfg \<and> (\<forall>e \<in> set es. ev_symbol_id e = gc_symbol_id cfg) \<and>
        (\<exists>A. accept_all (gc_mid_price_ticks cfg) es Map.empty = Some A)"
      using adversarial_stream [OF bounds(1) True] bounds(2) es by (simp add: generate_synthetic_events_def)
    have "gc_symbol_id cfg = symbol_for_index cfg 0" by (simp add: symbol_for_index_def Let_def)
    then show ?thesis using s by (cases "sy = gc_symbol_id cfg") (auto simp: filter_id_conv filter_empty_conv)
  next
    case False
    then show ?thesis using random_stream [OF draws bounds(1,2), of "seeded (gc_seed cfg)"] es
      by (auto simp: generate_synthetic_events_def gen_inv_def)
  qed
  then show "length es = gc_event_count cfg" "generated_at cfg es" "\<forall>e \<in> set es. ev_symbol_id e \<noteq> kInvalidSymbolId"
    "gc_mode cfg \<noteq> Sf_MultiSymbol \<Longrightarrow> \<forall>e \<in> set es. ev_symbol_id e = gc_symbol_id cfg"
    "\<exists>A. accept_all (gc_mid_price_ticks cfg) (filter (\<lambda>e. ev_symbol_id e = sy) es) Map.empty = Some A"
    using symbol_valid [OF ok] by (auto simp: symbol_for_index_def Let_def)
qed

lemma quiet_replay_complete:
  assumes "rp_diagnostics (snd (replay_events rc es (ob_new sy))) = []"
  shows "rp_sequence_valid (snd (replay_events rc es (ob_new sy)))" and "rp_events_processed (snd (replay_events rc es (ob_new sy))) = length es"
proof -
  obtain b r where r: "replay_events rc es (ob_new sy) = (b, r)" by (cases "replay_events rc es (ob_new sy)")
  obtain st r0 where o: "replay_run rc sy es (ob_new sy, blank_stream, (begin_stream blank_result)\<lparr>rp_event_log_checksum := checksum_events es\<rparr>) (b, st, r0)"
    "ob_inv b" "result_ok r0" "r = finalize_stream rc b r0"
    by (rule replay_events_runs [OF r]) blast
  have "rp_diagnostics (snd (snd (b, st, r0))) = []" using finalize_ok(3) [OF o(2,3)] o(4) assms r by simp
  from replay_run_complete(3) [OF o(1) this] finalize_ok(1,4) [OF o(2,3), of rc] assms r o(4)
  show "rp_sequence_valid (snd (replay_events rc es (ob_new sy)))" "rp_events_processed (snd (replay_events rc es (ob_new sy))) = length es"
    by (simp_all add: result_ok_def begin_stream_def blank_result_def)
qed

lemma generated_symbol_quiet:
  assumes "draws_ok draw" and "generator_config_ok cfg" and "mode_known rc" and "es = generate_synthetic_events draw seeded cfg"
    and "rc_validate_sequence_numbers rc \<longrightarrow> own = es" and "own = filter (\<lambda>e. ev_symbol_id e = sy) es" and "sy \<noteq> kInvalidSymbolId"
  shows "rp_diagnostics (snd (replay_events rc own (ob_new sy))) = []"
proof -
  note g = generated_stream [OF assms(1,2,4)]
  obtain A where "accept_all (gc_mid_price_ticks cfg) own Map.empty = Some A" using g(5) [of sy] assms(6) by blast
  then show ?thesis
    by (rule accepted_stream_replays)
      (use assms(3,5-7) generated_in_order [OF g(2), of rc "\<lambda>e. ev_symbol_id e = sy"] in auto)
qed

lemma drain_loop: "sa_drain_loop a remaining = (remaining @ drop (sa_cursor a) (sa_events a),
    a\<lparr>sa_cursor := max (sa_cursor a) (length (sa_events a))\<rparr>)"
proof (induction a remaining rule: sa_drain_loop.induct)
  case (1 a remaining)
  show ?case
  proof (cases "sa_cursor a \<ge> length (sa_events a)")
    case True
    then show ?thesis by (subst sa_drain_loop.simps) (simp add: sa_next_def max_def)
  next
    case False
    let ?a = "a\<lparr>sa_cursor := sa_cursor a + 1\<rparr>"
    have "sa_next a = (Some (sa_events a ! sa_cursor a), ?a)" using False by (simp add: sa_next_def)
    then have "sa_drain_loop a remaining = sa_drain_loop ?a (remaining @ [sa_events a ! sa_cursor a])"
      and ih: "sa_drain_loop ?a (remaining @ [sa_events a ! sa_cursor a]) = (remaining @ [sa_events a ! sa_cursor a] @
        drop (sa_cursor ?a) (sa_events ?a), ?a\<lparr>sa_cursor := max (sa_cursor ?a) (length (sa_events ?a))\<rparr>)"
      using 1 by (simp_all add: sa_drain_loop.simps [of a])
    then show ?thesis using False by (simp add: Cons_nth_drop_Suc max_def)
  qed
qed

section \<open>Properties\<close>

text \<open>C18: the generator makes exactly the number of events it is asked for, and in every mode, whatever the
  distributions draw within their bounds, the stream replays without an error under every configuration that
  names a validation mode: as one stream when it has one symbol, and symbol by symbol in any case. The adapter
  hands out exactly this stream.\<close>

theorem generated_stream_replays:
  assumes "draws_ok draw" and "generator_config_ok cfg"
    and "rc_validation_mode rc = Mode_Full \<or> rc_validation_mode rc = Mode_Light"
  shows "let es = generate_synthetic_events draw seeded cfg; r = snd (replay_events rc es (ob_new (gc_symbol_id cfg))) in
    length es = gc_event_count cfg \<and> fst (sa_drain (sa_new draw seeded cfg)) = es \<and>
    (gc_mode cfg \<noteq> Sf_MultiSymbol \<longrightarrow> rp_sequence_valid r \<and> rp_events_processed r = gc_event_count cfg) \<and>
    list_all sr_sequence_valid
      (as_symbols (replay_shared_by_symbol \<lparr>ac_replay_config = rc, ac_validate_per_symbol_sequences = False\<rparr> es))"
proof -
  let ?es = "generate_synthetic_events draw seeded cfg"
  let ?cfg = "\<lparr>ac_replay_config = rc, ac_validate_per_symbol_sequences = False\<rparr>"
  have mode: "mode_known rc" using assms(3) by (auto simp: mode_known_def)
  note g = generated_stream [OF assms(1,2) refl, where seeded = seeded]
  note quiet = generated_symbol_quiet [OF assms(1,2) _ refl, where seeded = seeded]
  have one: "rp_sequence_valid (snd (replay_events rc ?es (ob_new (gc_symbol_id cfg)))) \<and>
      rp_events_processed (snd (replay_events rc ?es (ob_new (gc_symbol_id cfg)))) = gc_event_count cfg"
    if single: "gc_mode cfg \<noteq> Sf_MultiSymbol"
  proof -
    have "?es = filter (\<lambda>e. ev_symbol_id e = gc_symbol_id cfg) ?es" using g(4) [OF single] by simp
    then have "rp_diagnostics (snd (replay_events rc ?es (ob_new (gc_symbol_id cfg)))) = []"
      by (rule quiet [OF mode impI, rotated]) (use assms(2) in \<open>auto simp: generator_config_ok_def\<close>)
    then show ?thesis using quiet_replay_complete g(1) by simp
  qed
  have "sr_sequence_valid (grouped_summary ?cfg (sy, own))" if m: "(sy, own) \<in> set (group_events ?es)" for sy own
  proof -
    have own: "own = filter (\<lambda>e. ev_symbol_id e = sy) ?es" "own \<noteq> []" using group_events_member [OF m] by blast+
    then have "sy \<noteq> kInvalidSymbolId" using g(3) by (auto simp: filter_empty_conv)
    then have "rp_diagnostics (snd (replay_events (symbol_replay_config ?cfg) own (ob_new sy))) = []"
      by (intro quiet [OF _ _ own(1)]) (use mode in simp_all)
    from quiet_replay_complete(1) [OF this] own(2) show ?thesis by (simp add: grouped_summary_def Let_def case_prod_beta)
  qed
  then have "list_all sr_sequence_valid (as_symbols (replay_by_symbol ?cfg ?es))"
    by (auto simp: replay_by_symbol_def list_all_iff Let_def)
  then show ?thesis
    using one g(1) shared_equals_grouped [of ?cfg ?es] mode by (simp add: Let_def sa_drain_def sa_new_def drain_loop)
qed

text \<open>A source of draws for the witness.\<close>

definition demo_draw :: "int draws" where
  "demo_draw g lo hi = (lo + g mod (hi - lo + 1), g * 5 + 3)"

lemma demo_draws_ok: "draws_ok demo_draw"
proof -
  have "lo \<le> fst (demo_draw g lo hi) \<and> fst (demo_draw g lo hi) \<le> hi" if "lo \<le> hi" for g lo hi
    using that pos_mod_bound [of "hi - lo + 1" g] pos_mod_sign [of "hi - lo + 1" g] by (simp add: demo_draw_def)
  then show ?thesis unfolding draws_ok_def by blast
qed

lemma generated_stream_replays_witness:
  "rp_sequence_valid (snd (replay_events default_config (generate_synthetic_events demo_draw uint default_generator_config) (ob_new 1)))"
proof -
  have ok: "generator_config_ok default_generator_config" by (simp add: generator_config_ok_def default_generator_config_def)
  have fields: "gc_mode default_generator_config \<noteq> Sf_MultiSymbol" "gc_symbol_id default_generator_config = 1"
    "rc_validation_mode default_config = Mode_Full" by (simp_all add: default_generator_config_def default_config_def)
  show ?thesis
    using generated_stream_replays [OF demo_draws_ok ok, of default_config uint] fields by (simp add: Let_def)
qed

end
