(* ===== verification/Model_Metadata.thy ===== *)
theory Model_Metadata
  imports Complex_Main Market_Event
begin

text \<open>
  \<^verbatim>\<open>inference/model_metadata.hpp\<close> and \<^verbatim>\<open>inference/model_metadata.cpp\<close>: the
  reader of a model's description, a flat JSON document, and its validation. A position in the text is the text
  from there on; an exception is its message on the left of a sum. A double is the rational number it stands for;
  to which double \<^verbatim>\<open>std::stod\<close> takes a decimal number, and when it throws because the number is out of
  range, is left to the implementation by the standard and is the parameter \<open>nearest\<close>. A file is its text, or
  nothing when it cannot be opened.
\<close>

section \<open>Data\<close>

definition kSupportedModelArtefactTypes :: "string list" where
  "kSupportedModelArtefactTypes = [''trained_synthetic_smoke'', ''trained_recorded_public_l2'']"

record model_metadata =
  mm_model_name :: string
  mm_model_class :: string
  mm_artefact_type :: string
  mm_input_shape :: "int list"
  mm_output_shape :: "int list"
  mm_feature_count :: u64
  mm_window_length :: u64
  mm_feature_version :: u32
  mm_onnx_sha256 :: string
  mm_source_data_sha256 :: string
  mm_expected_test_input :: "rat list"
  mm_expected_test_output :: "rat list"
  mm_reference_weights :: "rat list"
  mm_reference_bias :: rat
  mm_trained_model :: bool
  mm_deterministic_fixture :: bool

type_synonym 'a read = "string + 'a"

type_synonym rounding = "rat \<Rightarrow> rat option"

definition and_then :: "'a read \<Rightarrow> ('a \<Rightarrow> 'b read) \<Rightarrow> 'b read" where
  "and_then r f = (case r of Inl e \<Rightarrow> Inl e | Inr x \<Rightarrow> f x)"

definition field_error :: "string \<Rightarrow> string \<Rightarrow> 'a read" where
  "field_error what key = Inl (''model metadata field '' @ what @ '': '' @ key)"

section \<open>Scanning\<close>

text \<open>\<^verbatim>\<open>std::isspace\<close> in the default locale.\<close>

definition c_isspace :: "char \<Rightarrow> bool" where
  "c_isspace c \<longleftrightarrow> of_char c = (32 :: nat) \<or> 9 \<le> (of_char c :: nat) \<and> (of_char c :: nat) \<le> 13"

definition skip_whitespace :: "string \<Rightarrow> string" where
  "skip_whitespace text = dropWhile c_isspace text"

text \<open>The text of a string whose opening quote has been read, with what follows its closing quote.\<close>

fun find_string_end :: "string \<Rightarrow> (string \<times> string) read" where
  "find_string_end [] = Inl ''model metadata contains an unterminated string''"
| "find_string_end (c # s) =
     (if c = CHR 0x5C then (case s of
          [] \<Rightarrow> Inl ''model metadata contains an unterminated string''
        | d # t \<Rightarrow> and_then (find_string_end t) (\<lambda>(u, rest). Inr (c # d # u, rest)))
      else if c = CHR 0x22 then Inr ([], s)
      else and_then (find_string_end s) (\<lambda>(u, rest). Inr (c # u, rest)))"

lemma string_end_shorter: "find_string_end s = Inr (u, rest) \<Longrightarrow> length rest < length s"
  by (induction s arbitrary: u rest rule: find_string_end.induct)
    (fastforce simp: and_then_def split: if_splits list.splits sum.splits)+

text \<open>The value of a key, if a string followed by a colon is that key.\<close>

definition value_of_key :: "string \<Rightarrow> string \<Rightarrow> string \<Rightarrow> string option" where
  "value_of_key key found rest =
     (if found = key then (case skip_whitespace rest of
          c # v \<Rightarrow> if c = CHR '':'' then Some (skip_whitespace v) else None
        | [] \<Rightarrow> None)
      else None)"

lemma next_string_shorter:
  assumes "dropWhile (\<lambda>c. c \<noteq> CHR 0x22) body = q # s" and "find_string_end s = Inr (w, r)"
  shows "length r < length body"
proof -
  have "length r < length s" using assms(2) by (rule string_end_shorter)
  moreover have "length (q # s) \<le> length body" using length_dropWhile_le [of "\<lambda>c. c \<noteq> CHR 0x22" body] assms(1) by simp
  ultimately show ?thesis by simp
qed

function find_value_start :: "string \<Rightarrow> string \<Rightarrow> bool \<Rightarrow> string option read" where
  "find_value_start text key required = (case dropWhile (\<lambda>c. c \<noteq> CHR 0x22) text of
       [] \<Rightarrow> if required then Inl (''model metadata missing field: '' @ key) else Inr None
     | q # s \<Rightarrow> (case find_string_end s of
         Inl e \<Rightarrow> Inl e
       | Inr (found, rest) \<Rightarrow> (case value_of_key key found rest of
           Some v \<Rightarrow> Inr (Some v)
         | None \<Rightarrow> find_value_start rest key required)))"
  by pat_completeness auto

termination
  by (relation "measure (\<lambda>(text, key, required). length text)") (use next_string_shorter in auto)

declare find_value_start.simps [simp del]

definition is_value_delimiter :: "char \<Rightarrow> bool" where
  "is_value_delimiter c \<longleftrightarrow> c_isspace c \<or> c = CHR '','' \<or> c = CHR '']'' \<or> c = CHR 0x7D"

section \<open>Strings and truth values\<close>

definition simple_escape :: "char \<Rightarrow> char option" where
  "simple_escape c =
     (if c = CHR 0x22 \<or> c = CHR 0x5C \<or> c = CHR ''/'' then Some c
      else if c = CHR ''b'' then Some CHR 0x08
      else if c = CHR ''f'' then Some CHR 0x0C
      else if c = CHR ''n'' then Some CHR 0x0A
      else if c = CHR ''r'' then Some CHR 0x0D
      else if c = CHR ''t'' then Some CHR 0x09
      else None)"

function string_body :: "string \<Rightarrow> string \<Rightarrow> string \<Rightarrow> string read" where
  "string_body key value [] = field_error ''has an unterminated string'' key"
| "string_body key value (c # s) =
     (if c = CHR 0x22 then Inr value
      else if c \<noteq> CHR 0x5C then string_body key (value @ [c]) s
      else (case s of
          [] \<Rightarrow> field_error ''has an unterminated string'' key
        | d # t \<Rightarrow> (case simple_escape d of
            Some e \<Rightarrow> string_body key (value @ [e]) t
          | None \<Rightarrow> if d = CHR ''u''
              then (if length t < 4 then field_error ''has a truncated unicode escape'' key
                    else string_body key (value @ [c, d] @ take 4 t) (drop 4 t))
              else field_error ''has an invalid string escape'' key)))"
  by pat_completeness auto
termination by (relation "measure (\<lambda>(key, value, s). length s)") auto

declare string_body.simps(2) [simp del]

definition parse_string :: "string \<Rightarrow> string \<Rightarrow> string read" where
  "parse_string position key = (case position of
       c # s \<Rightarrow> if c \<noteq> CHR 0x22 then field_error ''must be a string'' key else string_body key [] s
     | [] \<Rightarrow> field_error ''must be a string'' key)"

definition extract_string :: "string \<Rightarrow> string \<Rightarrow> bool \<Rightarrow> string read" where
  "extract_string text key required = and_then (find_value_start text key required) (\<lambda>position. case position of
       Some p \<Rightarrow> parse_string p key | None \<Rightarrow> Inr [])"

definition starts_word :: "string \<Rightarrow> string \<Rightarrow> bool" where
  "starts_word w position \<longleftrightarrow> take (length w) position = w \<and>
     (length position = length w \<or> is_value_delimiter (position ! length w))"

definition extract_bool :: "string \<Rightarrow> string \<Rightarrow> bool \<Rightarrow> bool read" where
  "extract_bool text key required = and_then (find_value_start text key required) (\<lambda>position. case position of
       None \<Rightarrow> Inr False
     | Some p \<Rightarrow> if starts_word ''true'' p then Inr True
         else if starts_word ''false'' p then Inr False
         else field_error ''must be a bool'' key)"

section \<open>Numbers\<close>

definition scan_whole :: "string \<Rightarrow> string option" where
  "scan_whole position = (case position of
       c # s \<Rightarrow> if c = CHR ''0'' then Some s else if is_digit c then Some (dropWhile is_digit position) else None
     | [] \<Rightarrow> None)"

definition scan_fraction :: "string \<Rightarrow> string option" where
  "scan_fraction position = (case position of
       c # s \<Rightarrow> if c = CHR ''.'' then (let rest = dropWhile is_digit s in if rest = s then None else Some rest) else Some position
     | [] \<Rightarrow> Some position)"

definition skip_sign :: "string \<Rightarrow> string" where
  "skip_sign position = (case position of
       c # s \<Rightarrow> if c = CHR ''+'' \<or> c = CHR ''-'' then s else position
     | [] \<Rightarrow> position)"

definition scan_exponent :: "string \<Rightarrow> string option" where
  "scan_exponent position = (case position of
       c # s \<Rightarrow> if c = CHR ''e'' \<or> c = CHR ''E''
         then (let s = skip_sign s; rest = dropWhile is_digit s in if rest = s then None else Some rest)
         else Some position
     | [] \<Rightarrow> Some position)"

text \<open>
  \<^verbatim>\<open>std::stod\<close> on a text that starts with an optional minus sign and a digit, as every text given to it here does:
  the exact value of the longest decimal number at its start, with what follows, then the double.
\<close>

definition scale10 :: "rat \<Rightarrow> int \<Rightarrow> rat" where
  "scale10 x k = (if 0 \<le> k then x * 10 ^ nat k else x / 10 ^ nat (- k))"

definition decimal_exponent :: "string \<Rightarrow> int \<times> string" where
  "decimal_exponent position = (case scan_exponent position of
       Some rest \<Rightarrow> if rest = position then (0, position)
         else let s = skip_sign (tl position); n = int (digits_value (takeWhile is_digit s))
           in (if hd (tl position) = CHR ''-'' then - n else n, rest)
     | None \<Rightarrow> (0, position))"

definition decimal_value :: "string \<Rightarrow> rat \<times> string" where
  "decimal_value token =
     (let (negative, s) = (case token of c # t \<Rightarrow> if c = CHR ''-'' then (True, t) else (False, token) | [] \<Rightarrow> (False, token));
          whole = takeWhile is_digit s; s = dropWhile is_digit s;
          (fraction, s) = (case s of c # t \<Rightarrow> if c = CHR ''.'' then (takeWhile is_digit t, dropWhile is_digit t) else ([], s)
            | [] \<Rightarrow> ([], s));
          (k, s) = decimal_exponent s;
          x = scale10 (of_nat (digits_value (whole @ fraction))) (k - int (length fraction))
      in (if negative then - x else x, s))"

definition stod :: "rounding \<Rightarrow> string \<Rightarrow> (rat \<times> nat) option" where
  "stod nearest token = (let (x, rest) = decimal_value token in
     map_option (\<lambda>d. (d, length token - length rest)) (nearest x))"

definition parse_number :: "rounding \<Rightarrow> string \<Rightarrow> string \<Rightarrow> (rat \<times> string) read" where
  "parse_number nearest start key =
     (let position = (case start of c # s \<Rightarrow> if c = CHR ''-'' then s else start | [] \<Rightarrow> start)
      in if position = [] then field_error ''has a truncated number'' key
      else case Option.bind (Option.bind (scan_whole position) scan_fraction) scan_exponent of
          None \<Rightarrow> field_error ''has an invalid number'' key
        | Some rest \<Rightarrow> if rest \<noteq> [] \<and> \<not> is_value_delimiter (hd rest) then field_error ''has an invalid number'' key
            else let token = take (length start - length rest) start in
              (case stod nearest token of
                 None \<Rightarrow> field_error ''has an invalid number'' key
               | Some (value, parsed) \<Rightarrow> if parsed \<noteq> length token then field_error ''has an invalid number'' key
                   else Inr (value, rest)))"

definition extract_double :: "rounding \<Rightarrow> string \<Rightarrow> string \<Rightarrow> bool \<Rightarrow> rat read" where
  "extract_double nearest text key required = and_then (find_value_start text key required) (\<lambda>start. case start of
       None \<Rightarrow> Inr 0
     | Some position \<Rightarrow> and_then (parse_number nearest position key) (\<lambda>(value, rest). Inr value))"

definition extract_uint :: "rounding \<Rightarrow> string \<Rightarrow> string \<Rightarrow> bool \<Rightarrow> u64 \<Rightarrow> u64 read" where
  "extract_uint nearest text key required default_value =
     and_then (find_value_start text key required) (\<lambda>start. case start of
       None \<Rightarrow> Inr default_value
     | Some position \<Rightarrow> and_then (parse_number nearest position key) (\<lambda>(value, rest).
         if value < 0 \<or> of_int \<lfloor>value\<rfloor> \<noteq> value \<or> value \<ge> 2 ^ 64
         then field_error ''must be a non-negative integer'' key
         else Inr (of_int \<lfloor>value\<rfloor>)))"

section \<open>Arrays\<close>

lemma scan_shorter:
  "scan_whole s = Some r \<Longrightarrow> length r < length s" "scan_fraction s = Some r \<Longrightarrow> length r \<le> length s"
  "scan_exponent s = Some r \<Longrightarrow> length r \<le> length s"
proof -
  have drop: "length (dropWhile is_digit t) \<le> length t" for t by (rule length_dropWhile_le)
  have sign: "length (skip_sign t) \<le> length t" for t by (simp add: skip_sign_def split: list.splits)
  show "scan_whole s = Some r \<Longrightarrow> length r < length s"
    using drop [of "tl s"] by (auto simp: scan_whole_def split: list.splits if_splits)
  show "scan_fraction s = Some r \<Longrightarrow> length r \<le> length s"
    using drop [of "tl s"] by (auto simp: scan_fraction_def Let_def split: list.splits if_splits)
  show "scan_exponent s = Some r \<Longrightarrow> length r \<le> length s"
    using drop [of "skip_sign (tl s)"] sign [of "tl s"] by (auto simp: scan_exponent_def Let_def split: list.splits if_splits)
qed

lemma number_shorter:
  assumes "parse_number nearest s key = Inr (x, r)"
  shows "length r < length s"
proof -
  define position where "position = (case s of c # t \<Rightarrow> if c = CHR ''-'' then t else s | [] \<Rightarrow> s)"
  have "length position \<le> length s" by (simp add: position_def split: list.splits)
  moreover obtain r1 r2 where "scan_whole position = Some r1" "scan_fraction r1 = Some r2" "scan_exponent r2 = Some r"
    using assms unfolding parse_number_def position_def [symmetric] Let_def
    by (auto simp: field_error_def bind_eq_Some_conv split: if_splits option.splits prod.splits)
  ultimately show ?thesis using scan_shorter by (metis le_less_trans less_le_trans)
qed

function double_array_loop :: "rounding \<Rightarrow> string \<Rightarrow> rat list \<Rightarrow> string \<Rightarrow> rat list read" where
  "double_array_loop nearest key values position =
     (if position = [] then field_error ''has a truncated numeric array'' key
      else (case parse_number nearest position key of
          Inl e \<Rightarrow> Inl e
        | Inr (value, rest) \<Rightarrow>
            let values = values @ [value] in
            (case skip_whitespace rest of
               [] \<Rightarrow> field_error ''has a truncated numeric array'' key
             | c # s \<Rightarrow> if c = CHR '']'' then Inr values
                 else if c \<noteq> CHR '','' then field_error ''has a malformed numeric array'' key
                 else let s = skip_whitespace s in
                   if s = [] \<or> hd s = CHR '']'' then field_error ''has a malformed numeric array'' key
                   else double_array_loop nearest key values s)))"
  by pat_completeness auto

termination
proof (relation "measure (\<lambda>(nearest, key, values, position). length position)")
  fix nearest key vs position x2 x rest v c s s'
  assume "parse_number nearest position key = Inr x2" "(x, rest) = x2" "skip_whitespace rest = c # s" "(s' :: string) = skip_whitespace s"
  then show "((nearest, key, v, s'), (nearest, key, vs, position)) \<in> measure (\<lambda>(nearest, key, values, position). length position)"
    using number_shorter [of nearest position key x rest] length_dropWhile_le [of c_isspace rest] length_dropWhile_le [of c_isspace s]
    by (auto simp: skip_whitespace_def)
qed simp

declare double_array_loop.simps [simp del]

definition extract_double_array :: "rounding \<Rightarrow> string \<Rightarrow> string \<Rightarrow> bool \<Rightarrow> rat list read" where
  "extract_double_array nearest text key required = and_then (find_value_start text key required) (\<lambda>start. case start of
       None \<Rightarrow> Inr []
     | Some position \<Rightarrow>
         if position = [] \<or> hd position \<noteq> CHR ''['' then field_error ''must be a numeric array'' key
         else let position = skip_whitespace (tl position) in
           if position \<noteq> [] \<and> hd position = CHR '']'' then Inr []
           else double_array_loop nearest key [] position)"

fun int_array_loop :: "string \<Rightarrow> int list \<Rightarrow> rat list \<Rightarrow> int list read" where
  "int_array_loop key values [] = Inr values"
| "int_array_loop key values (x # xs) =
     (if of_int \<lfloor>x\<rfloor> \<noteq> x \<or> x < - (2 ^ 63) \<or> x \<ge> 2 ^ 63
      then Inl (''model metadata field must contain integers: '' @ key)
      else int_array_loop key (values @ [\<lfloor>x\<rfloor>]) xs)"

definition extract_int_array :: "rounding \<Rightarrow> string \<Rightarrow> string \<Rightarrow> int list read" where
  "extract_int_array nearest text key = and_then (extract_double_array nearest text key True) (int_array_loop key [])"

section \<open>Loading\<close>

definition read_text :: "string \<Rightarrow> string option \<Rightarrow> string read" where
  "read_text path file = (case file of None \<Rightarrow> Inl (''unable to read model metadata: '' @ path) | Some text \<Rightarrow> Inr text)"

definition load_model_metadata :: "rounding \<Rightarrow> string \<Rightarrow> string option \<Rightarrow> model_metadata read" where
  "load_model_metadata nearest path file =
     and_then (read_text path file) (\<lambda>text.
     and_then (extract_string text ''model_name'' True) (\<lambda>model_name.
     and_then (extract_string text ''model_class'' False) (\<lambda>model_class.
     and_then (extract_string text ''artefact_type'' False) (\<lambda>artefact_type.
     and_then (extract_int_array nearest text ''input_shape'') (\<lambda>input_shape.
     and_then (extract_int_array nearest text ''output_shape'') (\<lambda>output_shape.
     and_then (extract_uint nearest text ''feature_count'' True 0) (\<lambda>feature_count.
     and_then (extract_uint nearest text ''window_length'' False 1) (\<lambda>window_length.
     and_then (extract_uint nearest text ''feature_version'' True 0) (\<lambda>feature_version.
     and_then (extract_string text ''onnx_sha256'' False) (\<lambda>onnx_sha256.
     and_then (extract_string text ''source_data_sha256'' False) (\<lambda>source_data_sha256.
     and_then (extract_double_array nearest text ''expected_test_input'' True) (\<lambda>expected_test_input.
     and_then (extract_double_array nearest text ''expected_test_output'' True) (\<lambda>expected_test_output.
     and_then (extract_double_array nearest text ''reference_weights'' False) (\<lambda>reference_weights.
     and_then (extract_double nearest text ''reference_bias'' False) (\<lambda>reference_bias.
     and_then (extract_bool text ''trained_model'' True) (\<lambda>trained_model.
     and_then (extract_bool text ''deterministic_fixture'' False) (\<lambda>deterministic_fixture.
     Inr \<lparr>mm_model_name = model_name, mm_model_class = model_class, mm_artefact_type = artefact_type,
       mm_input_shape = input_shape, mm_output_shape = output_shape, mm_feature_count = feature_count,
       mm_window_length = window_length, mm_feature_version = ucast feature_version, mm_onnx_sha256 = onnx_sha256,
       mm_source_data_sha256 = source_data_sha256, mm_expected_test_input = expected_test_input,
       mm_expected_test_output = expected_test_output, mm_reference_weights = reference_weights,
       mm_reference_bias = reference_bias, mm_trained_model = trained_model,
       mm_deterministic_fixture = deterministic_fixture\<rparr>)))))))))))))))))"

section \<open>Validation\<close>

fun shape_count_loop :: "u64 \<Rightarrow> int list \<Rightarrow> u64" where
  "shape_count_loop n [] = n"
| "shape_count_loop n (extent # shape) =
     (if extent \<le> 0 then 0
      else let positive_dim = (of_int extent :: u64) in
        if n > - 1 div positive_dim then 0 else shape_count_loop (n * positive_dim) shape)"

definition shape_value_count :: "int list \<Rightarrow> u64" where
  "shape_value_count shape = (if shape = [] then 0 else shape_count_loop 1 shape)"

fun joined_dims :: "int list \<Rightarrow> string" where
  "joined_dims [] = []"
| "joined_dims [extent] = decimal_int extent"
| "joined_dims (extent # shape) = decimal_int extent @ ''x'' @ joined_dims shape"

definition shape_to_string :: "int list \<Rightarrow> string" where
  "shape_to_string shape = (if shape = [] then ''n/a'' else joined_dims shape)"

type_synonym metadata_validation = "bool \<times> string"

definition validate_model_metadata :: "model_metadata \<Rightarrow> metadata_validation" where
  "validate_model_metadata m =
     (let input_values = shape_value_count (mm_input_shape m);
          expected_input_values = mm_feature_count m * mm_window_length m;
          output_values = shape_value_count (mm_output_shape m);
          recorded = (mm_artefact_type m = ''trained_recorded_public_l2'')
      in if mm_model_name m = [] then (False, ''model metadata missing model_name'')
      else if mm_input_shape m = [] then (False, ''model metadata missing input_shape'')
      else if mm_output_shape m = [] then (False, ''model metadata missing output_shape'')
      else if mm_feature_count m = 0 then (False, ''model metadata feature_count must be positive'')
      else if mm_window_length m = 0 then (False, ''model metadata window_length must be positive'')
      else if mm_feature_version m = 0 then (False, ''model metadata feature_version must be positive'')
      else if input_values = 0 then (False, ''unsupported model shape: input_shape '' @
        shape_to_string (mm_input_shape m) @ '' must have only fixed positive dimensions'')
      else if mm_feature_count m > - 1 div mm_window_length m
      then (False, ''model metadata feature_count * window_length overflows'')
      else if input_values \<noteq> expected_input_values then (False, ''unsupported model shape: input_shape '' @
        shape_to_string (mm_input_shape m) @ '' implies '' @ decimal_word input_values @ '' values but feature_count='' @
        decimal_word (mm_feature_count m) @ '' * window_length='' @ decimal_word (mm_window_length m) @ '' = '' @
        decimal_word expected_input_values)
      else if recorded \<and> (length (mm_input_shape m) \<noteq> 3 \<or> mm_input_shape m ! 0 \<noteq> 1 \<or>
        mm_input_shape m ! 1 \<noteq> sint (mm_window_length m) \<or> mm_input_shape m ! 2 \<noteq> sint (mm_feature_count m))
      then (False, ''unsupported recorded-public-L2 input_shape '' @ shape_to_string (mm_input_shape m) @ '' must be 1x'' @
        decimal_word (mm_window_length m) @ ''x'' @ decimal_word (mm_feature_count m))
      else if output_values = 0 then (False, ''unsupported model shape: output_shape '' @
        shape_to_string (mm_output_shape m) @ '' must have only fixed positive dimensions'')
      else if of_nat (length (mm_expected_test_input m)) \<noteq> expected_input_values
      then (False, ''expected_test_input size does not match input_shape value count'')
      else if mm_expected_test_output m = [] then (False, ''expected_test_output must not be empty'')
      else if of_nat (length (mm_expected_test_output m)) \<noteq> output_values
      then (False, ''expected_test_output size does not match output_shape value count'')
      else if recorded \<and> (length (mm_output_shape m) \<noteq> 2 \<or> mm_output_shape m ! 0 \<noteq> 1)
      then (False, ''recorded-public-L2 output_shape must use a fixed batch dimension of 1'')
      else if mm_reference_weights m \<noteq> [] \<and> of_nat (length (mm_reference_weights m)) \<noteq> mm_feature_count m
      then (False, ''reference_weights size does not match feature_count'')
      else if mm_artefact_type m \<noteq> [] \<and> mm_artefact_type m \<notin> set kSupportedModelArtefactTypes
      then (False, ''unsupported artefact_type: '' @ mm_artefact_type m)
      else if mm_artefact_type m \<noteq> [] \<and> \<not> mm_trained_model m \<and>
        (mm_artefact_type m = ''trained_synthetic_smoke'' \<or> mm_artefact_type m = ''trained_recorded_public_l2'')
      then (False, ''artefact_type/trained_model mismatch: trained_model=false but artefact_type='' @ mm_artefact_type m)
      else (True, []))"

definition validate_feature_compatibility :: "model_metadata \<Rightarrow> u64 \<Rightarrow> u32 \<Rightarrow> metadata_validation" where
  "validate_feature_compatibility m feature_count feature_version =
     (if mm_feature_count m \<noteq> feature_count then (False, ''feature count mismatch: Asterion feature_count='' @
        decimal_word feature_count @ '' model feature_count='' @ decimal_word (mm_feature_count m))
      else if mm_feature_version m \<noteq> feature_version then (False, ''feature version mismatch: Asterion feature_version='' @
        decimal_word feature_version @ '' model feature_version='' @ decimal_word (mm_feature_version m))
      else (True, []))"

end
