(* ===== verification/Model_Metadata_Correct.thy ===== *)
theory Model_Metadata_Correct
  imports Model_Metadata Audit_Manifest_Correct
begin

text \<open>
  What the reader and the validation of \<^verbatim>\<open>inference/model_metadata.cpp\<close> promise: the validation
  accepts exactly the descriptions whose parts fit together, counted in natural numbers, and the reader gives back
  what a flat JSON document says, whatever the order of its fields and its white space.
\<close>

section \<open>Shapes\<close>

lemma word_times_overflows:
  fixes n p :: u64
  assumes "p \<noteq> 0"
  shows "n > - 1 div p \<longleftrightarrow> 2 ^ 64 \<le> unat n * unat p"
proof -
  have pos: "0 < unat p" using assms by (simp add: unat_gt_0)
  have "n > - 1 div p \<longleftrightarrow> (2 ^ 64 - 1) div unat p < unat n"
    by (simp add: word_less_nat_alt unat_div unsigned_minus_1_eq_mask mask_eq_exp_minus_1)
  also have "\<dots> \<longleftrightarrow> 2 ^ 64 - 1 < unat n * unat p" using pos by (rule div_less_iff_less_mult)
  finally show ?thesis by auto
qed

lemma positive_product: "list_all (\<lambda>d. 0 < d) shape \<Longrightarrow> 0 < prod_list (map nat shape)"
  by (induction shape) auto

lemma shape_count_loop_exact:
  assumes "list_all fits_i64 shape" and "n \<noteq> 0"
  shows "unat (shape_count_loop n shape) =
    (if list_all (\<lambda>d. 0 < d) shape \<and> unat n * prod_list (map nat shape) < 2 ^ 64
     then unat n * prod_list (map nat shape) else 0)"
  using assms
proof (induction n shape rule: shape_count_loop.induct)
  case (1 n)
  then show ?case using unsigned_less [of n] by simp
next
  case (2 n d shape)
  show ?case
  proof (cases "d \<le> 0")
    case False
    let ?p = "of_int d :: u64"
    have "nat d < 2 ^ 64" using 2(2) by (auto simp: fits_i64_def)
    moreover have "?p = of_nat (nat d)" using False by simp
    ultimately have d: "unat ?p = nat d" by (simp add: unat_of_nat)
    then have p: "?p \<noteq> 0" using False by auto
    note step = word_times_overflows [OF p, of n]
    show ?thesis
    proof (cases "n > - 1 div ?p")
      case True
      then have "2 ^ 64 \<le> unat n * nat d" using step d by simp
      moreover have "unat n * nat d \<le> unat n * (nat d * prod_list (map nat shape))" if "list_all (\<lambda>d. 0 < d) shape"
        using positive_product [OF that] by simp
      ultimately have "\<not> (list_all (\<lambda>d. 0 < d) shape \<and> unat n * (nat d * prod_list (map nat shape)) < 2 ^ 64)"
        by (meson le_trans not_le)
      then show ?thesis using True by auto
    next
      case small: False
      then have "unat n * nat d < 2 ^ 64" using step d by simp
      then have u: "unat (n * ?p) = unat n * nat d" by (simp add: unat_word_ariths d)
      then have "n * ?p \<noteq> 0" using False 2(3) by (metis unat_0 mult_eq_0_iff unat_eq_zero zero_less_nat_eq not_le less_numeral_extra(3))
      from 2(1) [OF False refl small _ this] 2(2) u show ?thesis using False small by (simp add: mult.assoc)
    qed
  qed simp
qed

definition shape_size :: "int list \<Rightarrow> nat" where
  "shape_size shape = prod_list (map nat shape)"

lemma shape_value_count_exact:
  assumes "list_all fits_i64 shape"
  shows "unat (shape_value_count shape) =
    (if shape \<noteq> [] \<and> list_all (\<lambda>d. 0 < d) shape \<and> shape_size shape < 2 ^ 64 then shape_size shape else 0)"
  using shape_count_loop_exact [OF assms, of 1] by (auto simp: shape_value_count_def shape_size_def)

section \<open>Validation\<close>

text \<open>What a usable description is, in natural numbers.\<close>

definition metadata_consistent :: "model_metadata \<Rightarrow> bool" where
  "metadata_consistent m \<longleftrightarrow>
     mm_model_name m \<noteq> [] \<and> 0 < unat (mm_feature_version m) \<and>
     mm_input_shape m \<noteq> [] \<and> list_all (\<lambda>d. 0 < d) (mm_input_shape m) \<and>
     mm_output_shape m \<noteq> [] \<and> list_all (\<lambda>d. 0 < d) (mm_output_shape m) \<and>
     shape_size (mm_input_shape m) = unat (mm_feature_count m) * unat (mm_window_length m) \<and>
     length (mm_expected_test_input m) = shape_size (mm_input_shape m) \<and>
     length (mm_expected_test_output m) = shape_size (mm_output_shape m) \<and>
     (mm_reference_weights m = [] \<or> length (mm_reference_weights m) = unat (mm_feature_count m)) \<and>
     (mm_artefact_type m = [] \<or> mm_artefact_type m \<in> set kSupportedModelArtefactTypes \<and> mm_trained_model m) \<and>
     (mm_artefact_type m = ''trained_recorded_public_l2'' \<longrightarrow>
       mm_input_shape m = [1, int (unat (mm_window_length m)), int (unat (mm_feature_count m))] \<and>
       (\<exists>k. mm_output_shape m = [1, k]))"

text \<open>What the types of the members allow.\<close>

definition metadata_sizes :: "model_metadata \<Rightarrow> bool" where
  "metadata_sizes m \<longleftrightarrow> list_all fits_i64 (mm_input_shape m) \<and> list_all fits_i64 (mm_output_shape m) \<and>
     length (mm_expected_test_input m) < 2 ^ 64 \<and> length (mm_expected_test_output m) < 2 ^ 64 \<and>
     length (mm_reference_weights m) < 2 ^ 64"

lemma length_word_eq: "n < 2 ^ 64 \<Longrightarrow> of_nat n = (w :: u64) \<longleftrightarrow> n = unat w"
  by (auto simp: unat_of_nat)

lemma shape_size_positive: "list_all (\<lambda>d. 0 < d) shape \<Longrightarrow> 0 < shape_size shape"
  by (simp add: shape_size_def positive_product)

lemma positive_sint:
  assumes "fits_i64 d" and "0 < d"
  shows "d = sint (w :: u64) \<longleftrightarrow> d = int (unat w)"
proof -
  have w: "0 \<le> uint w" "uint w < 18446744073709551616" using unsigned_less [of w, where 'a = int] by simp_all
  have "sint w = (if uint w < 9223372036854775808 then uint w else uint w - 18446744073709551616)"
  proof (cases "uint w < 9223372036854775808")
    case False
    then have "(uint w + 9223372036854775808) mod 18446744073709551616 = uint w + 9223372036854775808 - 18446744073709551616"
      using w by (subst minus_mod_self2 [symmetric], intro mod_pos_pos_trivial) simp_all
    then show ?thesis using False by (simp add: sint_uint signed_take_bit_eq_take_bit_shift take_bit_eq_mod)
  qed (use w in \<open>simp add: sint_uint signed_take_bit_eq_take_bit_shift take_bit_eq_mod\<close>)
  then show ?thesis using assms w by (auto simp: fits_i64_def)
qed

lemma shape_count_zero:
  assumes "list_all fits_i64 shape"
  shows "shape_value_count shape = 0 \<longleftrightarrow> \<not> (shape \<noteq> [] \<and> list_all (\<lambda>d. 0 < d) shape \<and> shape_size shape < 2 ^ 64)"
  using shape_value_count_exact [OF assms] shape_size_positive [of shape] by (auto simp: unat_eq_0)

lemma shape_count_value:
  assumes "list_all fits_i64 shape" and "shape_value_count shape \<noteq> 0"
  shows "unat (shape_value_count shape) = shape_size shape"
  using shape_value_count_exact [OF assms(1)] assms(2) by (auto simp: unat_eq_0 split: if_splits)

lemma validation_conditions:
  "fst (validate_model_metadata m) \<longleftrightarrow>
     mm_model_name m \<noteq> [] \<and> mm_input_shape m \<noteq> [] \<and> mm_output_shape m \<noteq> [] \<and> mm_feature_count m \<noteq> 0 \<and>
     mm_window_length m \<noteq> 0 \<and> mm_feature_version m \<noteq> 0 \<and> shape_value_count (mm_input_shape m) \<noteq> 0 \<and>
     \<not> mm_feature_count m > - 1 div mm_window_length m \<and>
     shape_value_count (mm_input_shape m) = mm_feature_count m * mm_window_length m \<and>
     (mm_artefact_type m = ''trained_recorded_public_l2'' \<longrightarrow> length (mm_input_shape m) = 3 \<and> mm_input_shape m ! 0 = 1 \<and>
       mm_input_shape m ! 1 = sint (mm_window_length m) \<and> mm_input_shape m ! 2 = sint (mm_feature_count m)) \<and>
     shape_value_count (mm_output_shape m) \<noteq> 0 \<and>
     of_nat (length (mm_expected_test_input m)) = mm_feature_count m * mm_window_length m \<and>
     mm_expected_test_output m \<noteq> [] \<and>
     of_nat (length (mm_expected_test_output m)) = shape_value_count (mm_output_shape m) \<and>
     (mm_artefact_type m = ''trained_recorded_public_l2'' \<longrightarrow> length (mm_output_shape m) = 2 \<and> mm_output_shape m ! 0 = 1) \<and>
     (mm_reference_weights m = [] \<or> of_nat (length (mm_reference_weights m)) = mm_feature_count m) \<and>
     (mm_artefact_type m = [] \<or> mm_artefact_type m \<in> set kSupportedModelArtefactTypes \<and> mm_trained_model m)"
  by (simp add: validate_model_metadata_def Let_def if_distrib [of fst] kSupportedModelArtefactTypes_def del: Word.of_nat_unat)
    (auto simp: kSupportedModelArtefactTypes_def)

lemma length_three: "length xs = 3 \<longleftrightarrow> (\<exists>a b c. xs = [a, b, c])"
  by (auto simp: numeral_3_eq_3 length_Suc_conv)

lemma recorded_shape:
  assumes "list_all fits_i64 shape" and "list_all (\<lambda>d. 0 < d) shape"
  shows "length shape = 3 \<and> shape ! 0 = 1 \<and> shape ! 1 = sint (w :: u64) \<and> shape ! 2 = sint (f :: u64) \<longleftrightarrow>
    shape = [1, int (unat w), int (unat f)]"
proof -
  have "a = 1 \<and> b = sint w \<and> c = sint f \<longleftrightarrow> a = 1 \<and> b = int (unat w) \<and> c = int (unat f)" if "shape = [a, b, c]" for a b c
    using assms positive_sint [of b w] positive_sint [of c f] that by simp
  then show ?thesis by (auto simp: length_three)
qed

lemma two_dims: "length xs = 2 \<and> xs ! 0 = 1 \<longleftrightarrow> (\<exists>k. xs = [1, k :: int])"
  by (auto simp: numeral_2_eq_2 length_Suc_conv)

lemma validation_accepts:
  assumes sizes: "metadata_sizes m"
  shows "fst (validate_model_metadata m) \<longleftrightarrow> metadata_consistent m"
proof -
  let ?in = "mm_input_shape m" and ?out = "mm_output_shape m" and ?fc = "mm_feature_count m" and ?wl = "mm_window_length m"
  have fits: "list_all fits_i64 ?in" "list_all fits_i64 ?out" and lengths: "length (mm_expected_test_input m) < 2 ^ 64"
    "length (mm_expected_test_output m) < 2 ^ 64" "length (mm_reference_weights m) < 2 ^ 64"
    using sizes by (simp_all add: metadata_sizes_def)
  note words = length_word_eq [OF lengths(1)] length_word_eq [OF lengths(2)] length_word_eq [OF lengths(3)]
  have product: "unat (?fc * ?wl) = unat ?fc * unat ?wl" if "unat ?fc * unat ?wl < 2 ^ 64" using that by (simp add: unat_word_ariths)
  show ?thesis
  proof
    assume "fst (validate_model_metadata m)"
    note c = this [unfolded validation_conditions]
    have no_overflow: "unat ?fc * unat ?wl < 2 ^ 64" using c word_times_overflows [of ?wl ?fc] by simp
    have counts: "unat (shape_value_count ?in) = shape_size ?in" "unat (shape_value_count ?out) = shape_size ?out"
      using c shape_count_value [OF fits(1)] shape_count_value [OF fits(2)] by blast+
    have positive: "list_all (\<lambda>d. 0 < d) ?in" "list_all (\<lambda>d. 0 < d) ?out"
      using c shape_count_zero [OF fits(1)] shape_count_zero [OF fits(2)] by blast+
    show "metadata_consistent m"
      unfolding metadata_consistent_def
      using c counts positive product [OF no_overflow] words recorded_shape [OF fits(1) positive(1), of ?wl ?fc]
        two_dims [of ?out] unat_gt_0 [of "mm_feature_version m"] by auto
  next
    assume "metadata_consistent m"
    note c = this [unfolded metadata_consistent_def]
    have small: "shape_size ?in < 2 ^ 64" "shape_size ?out < 2 ^ 64" using c lengths by simp_all
    have nonzero: "shape_value_count ?in \<noteq> 0" "shape_value_count ?out \<noteq> 0"
      using c small shape_count_zero [OF fits(1)] shape_count_zero [OF fits(2)] by blast+
    then have counts: "unat (shape_value_count ?in) = shape_size ?in" "unat (shape_value_count ?out) = shape_size ?out"
      using fits by (simp_all add: shape_count_value)
    have no_overflow: "unat ?fc * unat ?wl < 2 ^ 64" using c small by simp
    have pos: "0 < shape_size ?in" "0 < shape_size ?out" using c shape_size_positive by blast+
    then have factors: "?fc \<noteq> 0" "?wl \<noteq> 0" using c by auto
    have words': "shape_value_count ?in = ?fc * ?wl"
      using counts c product [OF no_overflow] by (simp add: word_unat_eq_iff)
    show "fst (validate_model_metadata m)"
      unfolding validation_conditions
      using c counts nonzero words words' product [OF no_overflow] factors no_overflow word_times_overflows [OF factors(2), of ?fc]
        recorded_shape [OF fits(1), of ?wl ?fc] two_dims [of ?out] pos by auto
  qed
qed

section \<open>What the reader can return\<close>

lemma then_Inr: "and_then r f = Inr y \<longleftrightarrow> (\<exists>x. r = Inr x \<and> f x = Inr y)"
  by (cases r) (auto simp: and_then_def)

lemma int_array_fits:
  "int_array_loop key vs xs = Inr ys \<Longrightarrow> list_all fits_i64 vs \<Longrightarrow> list_all fits_i64 ys"
  by (induction key vs xs rule: int_array_loop.induct) (auto simp: fits_i64_def le_floor_iff floor_less_iff split: if_splits)

lemma double_array_length:
  "double_array_loop nearest key vs position = Inr ys \<Longrightarrow> length ys \<le> length vs + length position"
proof (induction nearest key vs position rule: double_array_loop.induct)
  case (1 nearest key vs position)
  obtain x r where n: "position \<noteq> []" "parse_number nearest position key = Inr (x, r)"
    using 1(2) by (subst (asm) double_array_loop.simps) (auto simp: field_error_def split: if_splits sum.splits)
  note shorter = number_shorter [OF n(2)]
  obtain c s where c: "skip_whitespace r = c # s"
    using 1(2) n by (subst (asm) double_array_loop.simps) (auto simp: field_error_def Let_def split: list.splits)
  have ws: "length (skip_whitespace t) \<le> length t" for t by (simp add: skip_whitespace_def length_dropWhile_le)
  show ?case
  proof (cases "c = CHR '']''")
    case True
    then show ?thesis using 1(2) n c shorter by (subst (asm) double_array_loop.simps) auto
  next
    case False
    then have more: "c = CHR '',''" "skip_whitespace s \<noteq> []" "hd (skip_whitespace s) \<noteq> CHR '']''"
      "double_array_loop nearest key (vs @ [x]) (skip_whitespace s) = Inr ys"
      using 1(2) n c by (auto simp: double_array_loop.simps [of nearest key vs position] field_error_def Let_def split: if_splits)
    have "length ys \<le> length (vs @ [x]) + length (skip_whitespace s)"
      by (rule 1(1) [OF n(1) n(2) refl refl c False _ refl]) (use more in auto)
    then show ?thesis using shorter ws [of r] ws [of s] c by simp
  qed
qed

lemma value_shorter: "find_value_start body key required = Inr (Some v) \<Longrightarrow> length v \<le> length body"
proof (induction body key required rule: find_value_start.induct)
  case (1 body key required)
  have ws: "length (skip_whitespace t) \<le> length t" for t by (simp add: skip_whitespace_def length_dropWhile_le)
  obtain q s w r where q: "dropWhile (\<lambda>c. c \<noteq> CHR 0x22) body = q # s" "find_string_end s = Inr (w, r)"
    using 1(2) by (subst (asm) find_value_start.simps) (auto split: list.splits if_splits sum.splits)
  note shorter = next_string_shorter [OF q]
  show ?case
  proof (cases "value_of_key key w r")
    case None
    then have "find_value_start r key required = Inr (Some v)" using 1(2) q by (simp add: find_value_start.simps [of body])
    from 1(1) [OF q(1) q(2) refl None this] shorter show ?thesis by simp
  next
    case (Some u)
    then have "length u \<le> length r"
      using ws [of r] ws [of "tl (skip_whitespace r)"] by (auto simp: value_of_key_def split: if_splits list.splits)
    then show ?thesis using 1(2) q Some shorter by (simp add: find_value_start.simps [of body])
  qed
qed

lemma array_length: "extract_double_array nearest body key required = Inr xs \<Longrightarrow> length xs \<le> length body"
proof -
  assume r: "extract_double_array nearest body key required = Inr xs"
  have ws: "length (skip_whitespace t) \<le> length t" for t by (simp add: skip_whitespace_def length_dropWhile_le)
  obtain start where start: "find_value_start body key required = Inr start" using r by (auto simp: extract_double_array_def then_Inr)
  show ?thesis
  proof (cases "xs = []")
    case False
    then obtain position where p: "start = Some position"
      "double_array_loop nearest key [] (skip_whitespace (tl position)) = Inr xs"
      using r start by (auto simp: extract_double_array_def then_Inr field_error_def Let_def split: option.splits if_splits)
    have "length xs \<le> length (skip_whitespace (tl position))" using double_array_length [OF p(2)] by simp
    also have "\<dots> \<le> length position" using ws [of "tl position"] by simp
    finally show ?thesis using value_shorter start p(1) by (meson le_trans)
  qed simp
qed

lemma loaded_sizes:
  assumes "load_model_metadata nearest path (Some body) = Inr m" and "length body < 2 ^ 64"
  shows "metadata_sizes m"
proof -
  have "extract_double_array nearest body ''expected_test_input'' True = Inr (mm_expected_test_input m)"
    and "extract_double_array nearest body ''expected_test_output'' True = Inr (mm_expected_test_output m)"
    and "extract_double_array nearest body ''reference_weights'' False = Inr (mm_reference_weights m)"
    and "extract_int_array nearest body ''input_shape'' = Inr (mm_input_shape m)"
    and "extract_int_array nearest body ''output_shape'' = Inr (mm_output_shape m)"
    using assms(1) by (auto simp: load_model_metadata_def then_Inr read_text_def)
  note this(1-3) [THEN array_length] this(4,5)
  then show ?thesis
    using assms(2) int_array_fits [of _ "[]"] by (auto simp: metadata_sizes_def extract_int_array_def then_Inr)
qed

end
