(* ===== verification/Model_Metadata_Document.thy ===== *)
theory Model_Metadata_Document
  imports Model_Metadata_Correct
begin

text \<open>
  Flat JSON documents, as the standard writes them: objects whose values are numbers, strings, truth values, null and
  arrays of these. A document is its concrete syntax, every token with the white space around it and every character
  of a string plain or in one of its escapes. The reader of \<^verbatim>\<open>inference/model_metadata.cpp\<close> looks a key
  up by scanning for its text; on such documents that is the lookup of the key among the fields.
\<close>

section \<open>Documents\<close>

text \<open>White space, as JSON has it.\<close>

definition json_space :: "string \<Rightarrow> bool" where
  "json_space w \<longleftrightarrow> list_all (\<lambda>c. c \<in> {CHR '' '', CHR 0x09, CHR 0x0A, CHR 0x0D}) w"

text \<open>Numbers: sign, whole part, digits of the fraction, exponent. The exponent has a capital letter or not, a sign
  (\<open>True\<close> is the minus) or none, and its digits.\<close>

datatype json_number = Json_Number bool nat string "(bool \<times> bool option \<times> string) option"

fun number_ok :: "json_number \<Rightarrow> bool" where
  "number_ok (Json_Number negative whole fraction exponent) \<longleftrightarrow> list_all is_digit fraction \<and>
     (case exponent of None \<Rightarrow> True | Some (big, sg, ds) \<Rightarrow> ds \<noteq> [] \<and> list_all is_digit ds)"

fun number_text :: "json_number \<Rightarrow> string" where
  "number_text (Json_Number negative whole fraction exponent) =
     (if negative then ''-'' else []) @ decimal whole @ (if fraction = [] then [] else CHR ''.'' # fraction) @
     (case exponent of None \<Rightarrow> []
      | Some (big, sg, ds) \<Rightarrow> (if big then CHR ''E'' else CHR ''e'') #
          (case sg of None \<Rightarrow> [] | Some negated \<Rightarrow> if negated then ''-'' else ''+'') @ ds)"

definition exponent_value :: "(bool \<times> bool option \<times> string) option \<Rightarrow> int" where
  "exponent_value e = (case e of None \<Rightarrow> 0
     | Some (big, sg, ds) \<Rightarrow> if sg = Some True then - int (digits_value ds) else int (digits_value ds))"

fun number_value :: "json_number \<Rightarrow> rat" where
  "number_value (Json_Number negative whole fraction exponent) =
     (let x = of_nat (whole * 10 ^ length fraction + digits_value fraction) *
        10 powi (exponent_value exponent - int (length fraction))
      in if negative then - x else x)"

text \<open>Strings: each character is written as it is, by a short escape, or by its code.\<close>

datatype short_escape = E_Quote | E_Backslash | E_Slash | E_Backspace | E_Form_Feed | E_Line_Feed | E_Return | E_Tab

fun escape_letter :: "short_escape \<Rightarrow> char" where
  "escape_letter E_Quote = CHR 0x22"
| "escape_letter E_Backslash = CHR 0x5C"
| "escape_letter E_Slash = CHR ''/''"
| "escape_letter E_Backspace = CHR ''b''"
| "escape_letter E_Form_Feed = CHR ''f''"
| "escape_letter E_Line_Feed = CHR ''n''"
| "escape_letter E_Return = CHR ''r''"
| "escape_letter E_Tab = CHR ''t''"

fun escape_meaning :: "short_escape \<Rightarrow> char" where
  "escape_meaning E_Quote = CHR 0x22"
| "escape_meaning E_Backslash = CHR 0x5C"
| "escape_meaning E_Slash = CHR ''/''"
| "escape_meaning E_Backspace = CHR 0x08"
| "escape_meaning E_Form_Feed = CHR 0x0C"
| "escape_meaning E_Line_Feed = CHR 0x0A"
| "escape_meaning E_Return = CHR 0x0D"
| "escape_meaning E_Tab = CHR 0x09"

datatype piece = Plain char | Short short_escape | Code char char char char

definition is_hex_digit :: "char \<Rightarrow> bool" where
  "is_hex_digit c \<longleftrightarrow> c \<in> set ''0123456789abcdefABCDEF''"

fun piece_ok :: "piece \<Rightarrow> bool" where
  "piece_ok (Plain c) \<longleftrightarrow> c \<noteq> CHR 0x22 \<and> c \<noteq> CHR 0x5C"
| "piece_ok (Short e) \<longleftrightarrow> True"
| "piece_ok (Code a b c d) \<longleftrightarrow> is_hex_digit a \<and> is_hex_digit b \<and> is_hex_digit c \<and> is_hex_digit d"

fun piece_text :: "piece \<Rightarrow> string" where
  "piece_text (Plain c) = [c]"
| "piece_text (Short e) = [CHR 0x5C, escape_letter e]"
| "piece_text (Code a b c d) = [CHR 0x5C, CHR ''u'', a, b, c, d]"

text \<open>The character a piece stands for, where that is one byte: characters written by their code are left out.\<close>

fun piece_char :: "piece \<Rightarrow> char option" where
  "piece_char (Plain c) = Some c"
| "piece_char (Short e) = Some (escape_meaning e)"
| "piece_char (Code a b c d) = None"

definition pieces_text :: "piece list \<Rightarrow> string" where
  "pieces_text ps = concat (map piece_text ps)"

text \<open>Values. An array has white space inside it when it is empty, else before and after each element.\<close>

datatype scalar = S_Null | S_Bool bool | S_String "piece list" | S_Number json_number

type_synonym element = "string \<times> scalar \<times> string"

datatype json_value = J_Scalar scalar | J_Array string "element list"

text \<open>A field has white space before its key, before and after the colon, and after its value; a document before its
  brace, inside when it is empty, and at its end.\<close>

record json_field =
  jf_before :: string
  jf_key :: string
  jf_colon :: string
  jf_gap :: string
  jf_value :: json_value
  jf_after :: string

record json_document =
  jd_before :: string
  jd_fields :: "json_field list"
  jd_inside :: string
  jd_after :: string

fun scalar_text :: "scalar \<Rightarrow> string" where
  "scalar_text S_Null = ''null''"
| "scalar_text (S_Bool b) = (if b then ''true'' else ''false'')"
| "scalar_text (S_String ps) = CHR 0x22 # pieces_text ps @ [CHR 0x22]"
| "scalar_text (S_Number n) = number_text n"

fun comma_separated :: "string list \<Rightarrow> string" where
  "comma_separated [] = []"
| "comma_separated [s] = s"
| "comma_separated (s # t # ss) = s @ CHR '','' # comma_separated (t # ss)"

definition element_text :: "element \<Rightarrow> string" where
  "element_text = (\<lambda>(before, x, behind). before @ scalar_text x @ behind)"

fun value_text :: "json_value \<Rightarrow> string" where
  "value_text (J_Scalar x) = scalar_text x"
| "value_text (J_Array w es) = CHR ''['' # (if es = [] then w else comma_separated (map element_text es)) @ '']''"

definition member_text :: "json_field \<Rightarrow> string" where
  "member_text f = jf_before f @ CHR 0x22 # jf_key f @ CHR 0x22 # jf_colon f @ CHR '':'' # jf_gap f @ value_text (jf_value f) @ jf_after f"

definition document_text :: "json_document \<Rightarrow> string" where
  "document_text d = jd_before d @ CHR 0x7B #
     (if jd_fields d = [] then jd_inside d else comma_separated (map member_text (jd_fields d))) @ CHR 0x7D # jd_after d"

text \<open>Well-formed documents; keys are written without escapes.\<close>

fun scalar_ok :: "scalar \<Rightarrow> bool" where
  "scalar_ok (S_Number n) = number_ok n"
| "scalar_ok (S_String ps) = list_all piece_ok ps"
| "scalar_ok _ = True"

definition element_ok :: "element \<Rightarrow> bool" where
  "element_ok = (\<lambda>(before, x, behind). json_space before \<and> scalar_ok x \<and> json_space behind)"

fun value_ok :: "json_value \<Rightarrow> bool" where
  "value_ok (J_Scalar x) \<longleftrightarrow> scalar_ok x"
| "value_ok (J_Array w es) \<longleftrightarrow> json_space w \<and> list_all element_ok es"

definition member_ok :: "json_field \<Rightarrow> bool" where
  "member_ok f \<longleftrightarrow> json_space (jf_before f) \<and> CHR 0x22 \<notin> set (jf_key f) \<and> CHR 0x5C \<notin> set (jf_key f) \<and>
     json_space (jf_colon f) \<and> json_space (jf_gap f) \<and> value_ok (jf_value f) \<and> json_space (jf_after f)"

definition document_ok :: "json_document \<Rightarrow> bool" where
  "document_ok d \<longleftrightarrow> json_space (jd_before d) \<and> list_all member_ok (jd_fields d) \<and> json_space (jd_inside d) \<and> json_space (jd_after d)"

text \<open>The value a document gives a key: that of the first field with the key.\<close>

definition member_value :: "json_document \<Rightarrow> string \<Rightarrow> json_value option" where
  "member_value d = map_of (map (\<lambda>f. (jf_key f, jf_value f)) (jd_fields d))"

section \<open>White space and delimiters\<close>

lemma space_chars: "c \<in> {CHR '' '', CHR 0x09, CHR 0x0A, CHR 0x0D} \<Longrightarrow> c_isspace c \<and> c \<noteq> CHR 0x22"
  by (elim insertE emptyE) (simp_all add: c_isspace_def)

lemma space_skipped: "json_space w \<Longrightarrow> list_all c_isspace w"
  unfolding json_space_def list_all_iff using space_chars by blast

lemma skip_skipped: "list_all c_isspace w \<Longrightarrow> skip_whitespace (w @ s) = skip_whitespace s"
  by (induction w) (simp_all add: skip_whitespace_def)

lemma skip_spaces: "json_space w \<Longrightarrow> skip_whitespace (w @ s) = skip_whitespace s"
  by (intro skip_skipped space_skipped)

lemma skip_none: "\<not> c_isspace c \<Longrightarrow> skip_whitespace (c # s) = c # s"
  by (simp add: skip_whitespace_def)

lemma skip_exact: "json_space w \<Longrightarrow> \<not> c_isspace c \<Longrightarrow> skip_whitespace (w @ c # s) = c # s"
  by (simp add: skip_spaces skip_none)

lemma space_not_quote: "json_space w \<Longrightarrow> CHR 0x22 \<notin> set w"
  unfolding json_space_def list_all_iff using space_chars by blast

lemma no_space [simp]: "json_space []"
  by (simp add: json_space_def)

lemma comma_separated_Cons: "comma_separated (s # ss) = s @ concat (map (\<lambda>t. CHR '','' # t) ss)"
proof (induction ss arbitrary: s)
  case (Cons t ss)
  show ?case using Cons [of t] by simp
qed simp

text \<open>What ends an element or a field, and what may follow a value.\<close>

definition closes :: "string \<Rightarrow> bool" where
  "closes s \<longleftrightarrow> s \<noteq> [] \<and> (hd s = CHR '','' \<or> hd s = CHR '']'' \<or> hd s = CHR 0x7D)"

definition may_follow :: "string \<Rightarrow> bool" where
  "may_follow s \<longleftrightarrow> s \<noteq> [] \<and> is_value_delimiter (hd s) \<and> (case skip_whitespace s of [] \<Rightarrow> True | c # t \<Rightarrow> c \<noteq> CHR '':'')"

lemma follows_close:
  assumes "json_space w" and "closes s"
  shows "may_follow (w @ s)"
proof -
  obtain c t where s: "s = c # t" "c = CHR '','' \<or> c = CHR '']'' \<or> c = CHR 0x7D" using assms(2) by (cases s) (auto simp: closes_def)
  have c: "\<not> c_isspace c" "is_value_delimiter c" "c \<noteq> CHR '':''" using s(2) by (auto simp: c_isspace_def is_value_delimiter_def)
  have "is_value_delimiter (hd (w @ c # t))"
    using space_skipped [OF assms(1)] c by (cases w) (auto simp: is_value_delimiter_def)
  then show ?thesis using c by (simp add: s(1) may_follow_def skip_exact [OF assms(1)])
qed

lemma closes_rest: "closes s \<Longrightarrow> closes (concat (map (\<lambda>t. CHR '','' # f t) xs) @ s)"
  by (cases xs) (simp_all add: closes_def)

lemma delimiter_plain: "is_value_delimiter c \<Longrightarrow> \<not> is_digit c \<and> c \<noteq> CHR ''.'' \<and> c \<noteq> CHR ''e'' \<and> c \<noteq> CHR ''E'' \<and> c \<noteq> CHR ''-''"
  by (auto simp: is_value_delimiter_def c_isspace_def is_digit_def)

section \<open>The scan for a key\<close>

lemma find_plain: "CHR 0x22 \<notin> set p \<Longrightarrow> find_value_start (p @ s) key required = find_value_start s key required"
proof -
  assume "CHR 0x22 \<notin> set p"
  then have "dropWhile (\<lambda>c. c \<noteq> CHR 0x22) (p @ s) = dropWhile (\<lambda>c. c \<noteq> CHR 0x22) s" by (intro dropWhile_append2) metis
  then show ?thesis by (simp add: find_value_start.simps [of "p @ s"] find_value_start.simps [of s])
qed

lemma find_past_string:
  assumes "find_string_end t = Inr (u, r)" and "value_of_key key u r = None"
  shows "find_value_start (CHR 0x22 # t) key required = find_value_start r key required"
  using assms by (simp add: find_value_start.simps [of "CHR 0x22 # t"])

lemma hex_digit_plain: "is_hex_digit c \<Longrightarrow> c \<noteq> CHR 0x22 \<and> c \<noteq> CHR 0x5C"
  by (auto simp: is_hex_digit_def)

lemma string_end_pieces: "list_all piece_ok ps \<Longrightarrow> find_string_end (pieces_text ps @ CHR 0x22 # r) = Inr (pieces_text ps, r)"
proof (induction ps)
  case (Cons p ps)
  then have rest: "find_string_end (pieces_text ps @ CHR 0x22 # r) = Inr (pieces_text ps, r)" by simp
  have split: "pieces_text (p # ps) = piece_text p @ pieces_text ps" by (simp add: pieces_text_def)
  show ?case unfolding split using Cons.prems rest hex_digit_plain by (cases p) (auto simp: and_then_def)
qed (simp add: pieces_text_def)

lemma string_end_key: "CHR 0x22 \<notin> set k \<Longrightarrow> CHR 0x5C \<notin> set k \<Longrightarrow> find_string_end (k @ CHR 0x22 # r) = Inr (k, r)"
  by (induction k) (auto simp: and_then_def)

lemma follows_no_value: "may_follow r \<Longrightarrow> value_of_key key u r = None"
  by (auto simp: may_follow_def value_of_key_def split: list.splits)

lemma digits_not_quote: "list_all is_digit ds \<Longrightarrow> CHR 0x22 \<notin> set ds"
  by (auto simp: list_all_iff is_digit_def)

lemma number_not_quote: "number_ok n \<Longrightarrow> CHR 0x22 \<notin> set (number_text n)"
  using digits_not_quote decimal_digits by (cases n) (auto split: option.splits if_splits)

lemma find_past_scalar:
  assumes "scalar_ok x" and "may_follow r"
  shows "find_value_start (scalar_text x @ r) key required = find_value_start r key required"
proof (cases x)
  case (S_String ps)
  then show ?thesis
    using find_past_string [OF string_end_pieces follows_no_value [OF assms(2)]] assms(1) by simp
next
  case (S_Number n)
  then show ?thesis using find_plain [OF number_not_quote] assms(1) by simp
qed (use find_plain [of "''null''"] find_plain [of "''true''"] find_plain [of "''false''"] in simp_all)

lemma find_past_element:
  assumes "element_ok e" and "closes r"
  shows "find_value_start (element_text e @ r) key required = find_value_start r key required"
proof -
  obtain v x w where e: "e = (v, x, w)" by (cases e)
  then have ok: "json_space v" "scalar_ok x" "json_space w" using assms(1) by (simp_all add: element_ok_def)
  show ?thesis
    using find_plain [OF space_not_quote [OF ok(1)]] find_plain [OF space_not_quote [OF ok(3)]]
      find_past_scalar [OF ok(2) follows_close [OF ok(3) assms(2)]] by (simp add: e element_text_def)
qed

lemma find_past_elements:
  assumes "list_all element_ok es" and "closes r"
  shows "find_value_start (concat (map (\<lambda>e. CHR '','' # element_text e) es) @ r) key required = find_value_start r key required"
  using assms(1)
proof (induction es)
  case (Cons e es)
  let ?rest = "concat (map (\<lambda>e. CHR '','' # element_text e) es) @ r"
  have "find_value_start (element_text e @ ?rest) key required = find_value_start ?rest key required"
    by (rule find_past_element [OF _ closes_rest [OF assms(2)]]) (use Cons.prems in simp)
  then show ?case using Cons find_plain [of "'',''"] by simp
qed simp

lemma array_text:
  "value_text (J_Array w (e # es)) @ r = CHR ''['' # element_text e @ concat (map (\<lambda>e. CHR '','' # element_text e) es) @ CHR '']'' # r"
  by (simp add: comma_separated_Cons o_def)

lemma find_past_value:
  assumes "value_ok v" and "may_follow r"
  shows "find_value_start (value_text v @ r) key required = find_value_start r key required"
proof (cases v)
  case (J_Scalar x)
  then show ?thesis using assms find_past_scalar by simp
next
  case (J_Array w es)
  have close: "closes (CHR '']'' # r)" by (simp add: closes_def)
  have bracket: "find_value_start (CHR '']'' # r) key required = find_value_start r key required" using find_plain [of "'']''"] by simp
  show ?thesis
  proof (cases es)
    case Nil
    have "CHR 0x22 \<notin> set (CHR ''['' # w)" using assms(1) J_Array space_not_quote by auto
    from find_plain [OF this] Nil J_Array bracket show ?thesis by simp
  next
    case (Cons e es')
    let ?rest = "concat (map (\<lambda>e. CHR '','' # element_text e) es') @ CHR '']'' # r"
    have ok: "element_ok e" "list_all element_ok es'" using assms(1) J_Array Cons by simp_all
    have "find_value_start (value_text v @ r) key required = find_value_start (element_text e @ ?rest) key required"
      unfolding J_Array Cons array_text using find_plain [of "''[''"] by simp
    also have "\<dots> = find_value_start ?rest key required" by (rule find_past_element [OF ok(1) closes_rest [OF close]])
    finally show ?thesis using find_past_elements [OF ok(2) close] bracket by simp
  qed
qed

lemma number_head:
  obtains c t where "number_text n = c # t" and "is_digit c \<or> c = CHR ''-''"
proof (cases n)
  case (Json_Number negative whole fraction exponent)
  obtain c t where "decimal whole = c # t" "is_digit c" using decimal_digits [of whole] by (cases "decimal whole") auto
  then show thesis using that Json_Number by (cases negative) auto
qed

lemma number_head_plain: "is_digit c \<or> c = CHR ''-'' \<Longrightarrow> \<not> c_isspace c \<and> c \<noteq> CHR '']''"
  by (auto simp: is_digit_def c_isspace_def)

lemma scalar_starts: "skip_whitespace (scalar_text x @ s) = scalar_text x @ s"
proof (cases x)
  case (S_Number n)
  obtain c t where "number_text n = c # t" "is_digit c \<or> c = CHR ''-''" by (rule number_head)
  then show ?thesis using number_head_plain [of c] by (simp add: S_Number skip_none del: number_text.simps)
qed (auto simp: skip_none c_isspace_def)

lemma value_starts: "skip_whitespace (value_text v @ r) = value_text v @ r"
  by (cases v) (simp_all add: scalar_starts skip_none c_isspace_def)

lemma find_member:
  assumes "member_ok f" and "closes r"
  shows "find_value_start (member_text f @ r) key required =
    (if jf_key f = key then Inr (Some (value_text (jf_value f) @ jf_after f @ r)) else find_value_start r key required)"
proof -
  note ok = assms(1) [unfolded member_ok_def]
  let ?v = "jf_colon f @ CHR '':'' # jf_gap f @ value_text (jf_value f) @ jf_after f @ r"
  have spaces: "json_space (jf_before f)" "json_space (jf_colon f)" "json_space (jf_gap f)" "json_space (jf_after f)" using ok by simp_all
  note plain = spaces [THEN space_not_quote]
  have "find_value_start (member_text f @ r) key required = find_value_start (CHR 0x22 # jf_key f @ CHR 0x22 # ?v) key required"
    using find_plain [OF plain(1)] by (simp add: member_text_def)
  moreover have "find_string_end (jf_key f @ CHR 0x22 # ?v) = Inr (jf_key f, ?v)" by (rule string_end_key) (use ok in simp_all)
  moreover have "value_of_key key (jf_key f) ?v = (if jf_key f = key then Some (value_text (jf_value f) @ jf_after f @ r) else None)"
    by (simp add: value_of_key_def skip_exact [OF spaces(2)] c_isspace_def skip_spaces [OF spaces(3)] value_starts)
  moreover have "find_value_start ?v key required = find_value_start r key required"
    using find_plain [OF plain(2)] find_plain [of "'':''"] find_plain [OF plain(3)] find_plain [OF plain(4)]
      find_past_value [OF _ follows_close [OF spaces(4) assms(2)], of "jf_value f"] ok by simp
  ultimately show ?thesis by (simp add: find_value_start.simps [of "CHR 0x22 # _"])
qed

text \<open>The scan is the lookup of the key.\<close>

definition found :: "string \<Rightarrow> bool \<Rightarrow> json_value option \<Rightarrow> string option read \<Rightarrow> bool" where
  "found key required v result \<longleftrightarrow> (case v of
       None \<Rightarrow> result = (if required then Inl (''model metadata missing field: '' @ key) else Inr None)
     | Some x \<Rightarrow> \<exists>r. may_follow r \<and> result = Inr (Some (value_text x @ r)))"

lemma find_in_fields:
  assumes "list_all member_ok fs" and "json_space w"
  shows "found key required (map_of (map (\<lambda>f. (jf_key f, jf_value f)) fs) key)
    (find_value_start (concat (map (\<lambda>f. CHR '','' # member_text f) fs) @ CHR 0x7D # w) key required)"
  using assms(1)
proof (induction fs)
  case Nil
  have "CHR 0x22 \<notin> set (CHR 0x7D # w)" using space_not_quote [OF assms(2)] by simp
  then show ?case using find_plain [of "CHR 0x7D # w" "[]"] by (simp add: found_def find_value_start.simps [of "[]"])
next
  case (Cons f fs)
  let ?rest = "concat (map (\<lambda>f. CHR '','' # member_text f) fs) @ CHR 0x7D # w"
  have close: "closes ?rest" by (rule closes_rest) (simp add: closes_def)
  have f: "member_ok f" "json_space (jf_after f)" using Cons.prems by (simp_all add: member_ok_def)
  have step: "find_value_start (concat (map (\<lambda>f. CHR '','' # member_text f) (f # fs)) @ CHR 0x7D # w) key required = (if jf_key f = key
      then Inr (Some (value_text (jf_value f) @ jf_after f @ ?rest)) else find_value_start ?rest key required)"
    using find_plain [of "'',''"] find_member [OF f(1) close] by simp
  show ?case
  proof (cases "jf_key f = key")
    case True
    then show ?thesis unfolding step using follows_close [OF f(2) close] by (auto simp: found_def)
  next
    case False
    then show ?thesis unfolding step using Cons by simp
  qed
qed

lemma find_in_document:
  assumes "document_ok d"
  shows "found key required (member_value d key) (find_value_start (document_text d) key required)"
proof -
  have ok: "list_all member_ok (jd_fields d)" "json_space (jd_after d)" and plain: "CHR 0x22 \<notin> set (jd_before d @ [CHR 0x7B])"
    "CHR 0x22 \<notin> set (jd_before d @ CHR 0x7B # jd_inside d)"
    using assms space_not_quote by (auto simp: document_ok_def)
  have "find_value_start (document_text d) key required =
      find_value_start (concat (map (\<lambda>f. CHR '','' # member_text f) (jd_fields d)) @ CHR 0x7D # jd_after d) key required"
    using find_plain [OF plain(1)] find_plain [OF plain(2)] find_plain [of "'',''"]
    by (cases "jd_fields d") (simp_all add: document_text_def comma_separated_Cons o_def)
  then show ?thesis using find_in_fields [OF ok] by (simp add: member_value_def)
qed

section \<open>Strings and truth values\<close>

lemma short_escapes: "simple_escape (escape_letter e) = Some (escape_meaning e)"
  by (cases e) (simp_all add: simple_escape_def)

lemma string_body_pieces:
  "list_all piece_ok ps \<Longrightarrow> map piece_char ps = map Some s \<Longrightarrow> string_body key acc (pieces_text ps @ CHR 0x22 # r) = Inr (acc @ s)"
proof (induction ps arbitrary: s acc)
  case Nil
  then show ?case by (simp add: pieces_text_def string_body.simps(2))
next
  case (Cons p ps)
  obtain c s' where s: "s = c # s'" "piece_char p = Some c" "map piece_char ps = map Some s'" using Cons.prems(2) by (cases s) auto
  have rest: "string_body key (acc @ [c]) (pieces_text ps @ CHR 0x22 # r) = Inr (acc @ s)"
    using Cons.IH [OF _ s(3), of "acc @ [c]"] Cons.prems(1) s(1) by simp
  have split: "pieces_text (p # ps) = piece_text p @ pieces_text ps" by (simp add: pieces_text_def)
  show ?case unfolding split
  proof (cases p)
    case (Plain d)
    then have "d = c" "d \<noteq> CHR 0x22" "d \<noteq> CHR 0x5C" using s(2) Cons.prems(1) by simp_all
    then show "string_body key acc ((piece_text p @ pieces_text ps) @ CHR 0x22 # r) = Inr (acc @ s)"
      using rest Plain by (simp add: string_body.simps(2) [of key acc c])
  next
    case (Short e)
    then show "string_body key acc ((piece_text p @ pieces_text ps) @ CHR 0x22 # r) = Inr (acc @ s)"
      using rest s(2) by (simp add: string_body.simps(2) [of key acc "CHR 0x5C"] short_escapes)
  qed (use s(2) in simp)
qed

lemma parse_string_text:
  "list_all piece_ok ps \<Longrightarrow> map piece_char ps = map Some s \<Longrightarrow> parse_string (scalar_text (S_String ps) @ r) key = Inr s"
  using string_body_pieces [of ps s key "[]" r] by (simp add: parse_string_def)

lemma starts_bool:
  "may_follow r \<Longrightarrow> starts_word ''true'' (scalar_text (S_Bool b) @ r) = b"
  "may_follow r \<Longrightarrow> starts_word ''false'' (scalar_text (S_Bool b) @ r) = (\<not> b)"
  by (cases r; auto simp: starts_word_def may_follow_def)+

section \<open>Numbers\<close>

lemma span_digits:
  assumes "list_all is_digit ds" and "s = [] \<or> \<not> is_digit (hd s)"
  shows "takeWhile is_digit (ds @ s) = ds" and "dropWhile is_digit (ds @ s) = s"
proof -
  have "\<And>x. x \<in> set ds \<Longrightarrow> is_digit x" using assms(1) by (simp add: list_all_iff)
  moreover have "takeWhile is_digit s = []" "dropWhile is_digit s = s" using assms(2) by (cases s; simp)+
  ultimately show "takeWhile is_digit (ds @ s) = ds" "dropWhile is_digit (ds @ s) = s"
    by (simp_all add: takeWhile_append2 dropWhile_append2)
qed

lemma digits_value_append: "digits_value (a @ b) = digits_value a * 10 ^ length b + digits_value b"
proof (induction b rule: rev_induct)
  case (snoc c b)
  have "digits_value (a @ b @ [c]) = digits_value (a @ b) * 10 + (of_char c - 48)"
    using digits_value_snoc [of "a @ b"] by simp
  then show ?case using snoc by (simp add: digits_value_snoc algebra_simps)
qed (simp add: digits_value_def)

lemma decimal_zero: "decimal n = CHR ''0'' # ds \<Longrightarrow> n = 0 \<and> ds = []"
proof (induction n arbitrary: ds rule: decimal.induct)
  case (1 n)
  show ?case
  proof (cases "n < 10")
    case True
    then have "digit_char n = CHR ''0''" "ds = []" using 1(2) by (simp_all add: decimal.simps [of n])
    moreover from this(1) have "of_char (digit_char n) = (of_char CHR ''0'' :: nat)" by simp
    ultimately show ?thesis using of_char_digit [OF True] by simp
  next
    case False
    obtain c t where d: "decimal (n div 10) = c # t" using decimal_digits [of "n div 10"] by (cases "decimal (n div 10)") auto
    then have "decimal (n div 10) = CHR ''0'' # t" using 1(2) False by (simp add: decimal.simps [of n])
    with 1(1) [OF False] False show ?thesis by fastforce
  qed
qed

text \<open>The text after the sign: whole part, fraction, exponent.\<close>

definition fraction_text :: "string \<Rightarrow> string" where
  "fraction_text fraction = (if fraction = [] then [] else CHR ''.'' # fraction)"

definition exponent_text :: "(bool \<times> bool option \<times> string) option \<Rightarrow> string" where
  "exponent_text e = (case e of None \<Rightarrow> []
     | Some (big, sg, ds) \<Rightarrow> (if big then CHR ''E'' else CHR ''e'') #
         (case sg of None \<Rightarrow> [] | Some negated \<Rightarrow> if negated then ''-'' else ''+'') @ ds)"

definition exponent_ok :: "(bool \<times> bool option \<times> string) option \<Rightarrow> bool" where
  "exponent_ok e \<longleftrightarrow> (case e of None \<Rightarrow> True | Some (big, sg, ds) \<Rightarrow> ds \<noteq> [] \<and> list_all is_digit ds)"

definition number_ends :: "string \<Rightarrow> bool" where
  "number_ends r \<longleftrightarrow> (case r of [] \<Rightarrow> True | c # t \<Rightarrow> is_value_delimiter c)"

lemma ends_plain: "number_ends r \<Longrightarrow> r = [] \<or> \<not> is_digit (hd r) \<and> hd r \<noteq> CHR ''.'' \<and> hd r \<noteq> CHR ''e'' \<and> hd r \<noteq> CHR ''E''"
  using delimiter_plain by (auto simp: number_ends_def split: list.splits)

lemma exponent_start: "number_ends r \<Longrightarrow> exponent_text e @ r = [] \<or> \<not> is_digit (hd (exponent_text e @ r)) \<and> hd (exponent_text e @ r) \<noteq> CHR ''.''"
  using ends_plain [of r] by (cases e) (auto simp: exponent_text_def is_digit_def split: if_splits)

lemma scale10_power: "scale10 x k = x * 10 powi k"
  unfolding scale10_def power_int_def by (simp only: power_inverse divide_inverse split: if_split) blast

lemma skip_exponent_sign:
  assumes "ds \<noteq> []" and "list_all is_digit ds"
  shows "skip_sign ((case sg of None \<Rightarrow> [] | Some negated \<Rightarrow> if negated then ''-'' else ''+'') @ ds @ r) = ds @ r"
proof (cases sg)
  case None
  obtain c t where "ds = c # t" "is_digit c" using assms by (cases ds) auto
  then show ?thesis using None by (auto simp: skip_sign_def is_digit_def)
qed (simp add: skip_sign_def)

lemma scan_exponent_text:
  assumes "exponent_ok e" and "number_ends r"
  shows "scan_exponent (exponent_text e @ r) = Some r" and "decimal_exponent (exponent_text e @ r) = (exponent_value e, r)"
proof -
  have r: "r = [] \<or> \<not> is_digit (hd r)" using ends_plain [OF assms(2)] by blast
  have both: "scan_exponent (exponent_text e @ r) = Some r \<and> decimal_exponent (exponent_text e @ r) = (exponent_value e, r)"
  proof (cases e)
    case None
    then have "scan_exponent r = Some r" using ends_plain [OF assms(2)] by (cases r) (auto simp: scan_exponent_def)
    then show ?thesis using None by (simp add: exponent_text_def exponent_value_def decimal_exponent_def)
  next
    case (Some p)
    obtain big sg ds where e: "e = Some (big, sg, ds)" using Some by (cases p) simp
    then have ds: "ds \<noteq> []" "list_all is_digit ds" using assms(1) by (simp_all add: exponent_ok_def)
    note span = span_digits [OF ds(2) r] and sign = skip_exponent_sign [OF ds, of sg r]
    let ?s = "(case sg of None \<Rightarrow> [] | Some negated \<Rightarrow> if negated then ''-'' else ''+'') @ ds @ r"
    define letter where "letter = (if big then CHR ''E'' else CHR ''e'')"
    have written: "exponent_text e @ r = letter # ?s" "letter = CHR ''e'' \<or> letter = CHR ''E''" using e by (simp_all add: exponent_text_def letter_def)
    have "r \<noteq> ds @ r" using ds(1) by simp
    then have scan: "scan_exponent (letter # ?s) = Some r"
      using written(2) by (simp only: scan_exponent_def list.case Let_def sign span if_True simp_thms) simp
    have "length r < length (letter # ?s)" by simp
    then have "r \<noteq> letter # ?s" by (metis less_irrefl)
    moreover obtain c t where c: "ds = c # t" "is_digit c" using ds by (cases ds) auto
    then have "hd ?s = CHR ''-'' \<longleftrightarrow> sg = Some True" by (auto simp: is_digit_def split: option.splits)
    ultimately have "decimal_exponent (letter # ?s) = (exponent_value e, r)"
      unfolding decimal_exponent_def scan option.case list.sel sign Let_def span by (simp add: e exponent_value_def)
    then show ?thesis unfolding written(1) using scan by blast
  qed
  then show "scan_exponent (exponent_text e @ r) = Some r" "decimal_exponent (exponent_text e @ r) = (exponent_value e, r)" by blast+
qed

lemma scan_fraction_text:
  assumes "list_all is_digit fraction" and "s = [] \<or> \<not> is_digit (hd s) \<and> hd s \<noteq> CHR ''.''"
  shows "scan_fraction (fraction_text fraction @ s) = Some s"
proof (cases "fraction = []")
  case True
  then show ?thesis using assms(2) by (cases s) (auto simp: fraction_text_def scan_fraction_def)
next
  case False
  have "dropWhile is_digit (fraction @ s) = s" by (rule span_digits) (use assms in auto)
  moreover have "s \<noteq> fraction @ s" using False by simp
  ultimately show ?thesis using False by (simp add: fraction_text_def scan_fraction_def)
qed

lemma fraction_start: "s = [] \<or> \<not> is_digit (hd s) \<Longrightarrow> fraction_text fraction @ s = [] \<or> \<not> is_digit (hd (fraction_text fraction @ s))"
  by (auto simp: fraction_text_def is_digit_def)

lemma scan_whole_text:
  assumes "s = [] \<or> \<not> is_digit (hd s)"
  shows "scan_whole (decimal n @ s) = Some s"
proof -
  have ds: "list_all is_digit (decimal n)" using decimal_digits by blast
  obtain c t where d: "decimal n = c # t" using decimal_digits [of n] by (cases "decimal n") auto
  show ?thesis
  proof (cases "c = CHR ''0''")
    case True
    then show ?thesis using decimal_zero [of n t] d by (simp add: scan_whole_def)
  next
    case False
    then show ?thesis using span_digits(2) [OF ds assms] ds d by (simp add: scan_whole_def)
  qed
qed

lemma number_text_parts:
  "number_text (Json_Number negative whole fraction e) =
     (if negative then ''-'' else []) @ decimal whole @ fraction_text fraction @ exponent_text e"
  by (simp add: fraction_text_def exponent_text_def)

lemma unsigned_text:
  fixes whole fraction e r
  defines "body \<equiv> decimal whole @ fraction_text fraction @ exponent_text e @ r"
  shows "body \<noteq> []" and "(case body of c # t \<Rightarrow> if c = CHR ''-'' then A t else B c t | [] \<Rightarrow> C) = B (hd body) (tl body)"
proof -
  obtain c t where "decimal whole = c # t" "is_digit c" using decimal_digits [of whole] by (cases "decimal whole") auto
  then show "body \<noteq> []" "(case body of c # t \<Rightarrow> if c = CHR ''-'' then A t else B c t | [] \<Rightarrow> C) = B (hd body) (tl body)"
    using digit_not_minus by (auto simp: body_def)
qed

lemma decimal_value_text:
  assumes "number_ok n"
  shows "decimal_value (number_text n) = (number_value n, [])"
proof -
  obtain negative whole fraction e where n: "n = Json_Number negative whole fraction e" by (cases n)
  have ok: "list_all is_digit fraction" "exponent_ok e" using assms n by (simp_all add: exponent_ok_def)
  let ?x = "exponent_text e" and ?b = "decimal whole @ fraction_text fraction @ exponent_text e"
  have ends: "number_ends []" by (simp add: number_ends_def)
  note x = exponent_start [OF ends, of e, simplified]
  note exponent = scan_exponent_text(2) [OF ok(2) ends, simplified]
  have "?x = [] \<or> \<not> is_digit (hd ?x)" using x by blast
  note digits = span_digits [OF conjunct1 [OF decimal_digits] fraction_start [OF this], of whole fraction]
  have frac: "(case fraction_text fraction @ ?x of c # t \<Rightarrow> if c = CHR ''.'' then (takeWhile is_digit t, dropWhile is_digit t)
      else ([], fraction_text fraction @ ?x) | [] \<Rightarrow> ([], fraction_text fraction @ ?x)) = (fraction, ?x)"
  proof (cases "fraction = []")
    case True
    then show ?thesis using x by (cases ?x) (auto simp: fraction_text_def)
  next
    case False
    then show ?thesis using span_digits [OF ok(1), of ?x] x by (auto simp: fraction_text_def)
  qed
  have token: "(case number_text n of c # t \<Rightarrow> if c = CHR ''-'' then (True, t) else (False, number_text n) | [] \<Rightarrow> (False, number_text n))
      = (negative, ?b)"
  proof (cases negative)
    case False
    then have plain: "number_text n = ?b" using n number_text_parts by simp
    show ?thesis unfolding plain using False unsigned_text(2) [where whole = whole and fraction = fraction and e = e and r = "[]" and A = "\<lambda>t. (True, t)"
      and B = "\<lambda>c t. (False, ?b)" and C = "(False, ?b)"] by simp
  qed (simp add: n number_text_parts del: number_text.simps)
  have sum: "digits_value (decimal whole @ fraction) = whole * 10 ^ length fraction + digits_value fraction"
    by (simp add: digits_value_append digits_value_decimal)
  show ?thesis
    unfolding decimal_value_def token Let_def prod.case digits frac exponent sum scale10_power by (simp add: n Let_def)
qed

lemma parse_number_text:
  assumes "number_ok n" and "nearest (number_value n) = Some x" and "number_ends r"
  shows "parse_number nearest (number_text n @ r) key = Inr (x, r)"
proof -
  obtain negative whole fraction e where n: "n = Json_Number negative whole fraction e" by (cases n)
  have ok: "list_all is_digit fraction" "exponent_ok e" using assms n by (simp_all add: exponent_ok_def)
  let ?b = "decimal whole @ fraction_text fraction @ exponent_text e @ r"
  have start: "(case number_text n @ r of c # s \<Rightarrow> if c = CHR ''-'' then s else number_text n @ r | [] \<Rightarrow> number_text n @ r) = ?b"
  proof (cases negative)
    case False
    then have plain: "number_text n @ r = ?b" using n number_text_parts by simp
    show ?thesis unfolding plain using unsigned_text(2) [where whole = whole and fraction = fraction and e = e and r = r and A = "\<lambda>t. t"
      and B = "\<lambda>c t. ?b" and C = ?b] by simp
  qed (simp add: n number_text_parts del: number_text.simps)
  have x: "exponent_text e @ r = [] \<or> \<not> is_digit (hd (exponent_text e @ r)) \<and> hd (exponent_text e @ r) \<noteq> CHR ''.''"
    by (rule exponent_start [OF assms(3)])
  then have "exponent_text e @ r = [] \<or> \<not> is_digit (hd (exponent_text e @ r))" by blast
  note whole = scan_whole_text [OF fraction_start [OF this]]
  have scan: "Option.bind (Option.bind (scan_whole ?b) scan_fraction) scan_exponent = Some r"
    using whole scan_fraction_text [OF ok(1) x] scan_exponent_text(1) [OF ok(2) assms(3)] by simp
  have ends: "\<not> (r \<noteq> [] \<and> \<not> is_value_delimiter (hd r))" using assms(3) by (auto simp: number_ends_def split: list.splits)
  have stod: "stod nearest (number_text n) = Some (x, length (number_text n))"
    using decimal_value_text [OF assms(1)] assms(2) by (simp add: stod_def)
  have token: "take (length (number_text n @ r) - length r) (number_text n @ r) = number_text n" by simp
  have "?b \<noteq> []" by (rule unsigned_text(1))
  then show ?thesis
    unfolding parse_number_def by (simp only: start Let_def scan token stod option.case prod.case ends if_False simp_thms)
qed

lemma follows_ends: "may_follow r \<Longrightarrow> number_ends r"
  by (cases r) (simp_all add: may_follow_def number_ends_def)

section \<open>Arrays of numbers\<close>

text \<open>The elements of an array are numbers that the rounding takes to given doubles.\<close>

definition numbers_read :: "rounding \<Rightarrow> element list \<Rightarrow> rat list \<Rightarrow> bool" where
  "numbers_read nearest es xs \<longleftrightarrow> list_all2 (\<lambda>e x. element_ok e \<and>
     (\<exists>n. fst (snd e) = S_Number n \<and> nearest (number_value n) = Some x)) es xs"

lemma number_starts: "number_text n @ s \<noteq> []" "hd (number_text n @ s) \<noteq> CHR '']''"
proof -
  obtain c t where "number_text n = c # t" "is_digit c \<or> c = CHR ''-''" by (rule number_head)
  then show "number_text n @ s \<noteq> []" "hd (number_text n @ s) \<noteq> CHR '']''"
    using number_head_plain [of c] by (simp_all del: number_text.simps)
qed

lemma read_element:
  assumes "numbers_read nearest (e # es) (x # xs)" and "closes r"
  obtains n w where "skip_whitespace (element_text e @ r) = number_text n @ w @ r" and "json_space w"
    and "parse_number nearest (number_text n @ w @ r) key = Inr (x, w @ r)" and "numbers_read nearest es xs"
proof -
  obtain v w n where e: "e = (v, S_Number n, w)" "json_space v" "json_space w" "number_ok n" "nearest (number_value n) = Some x"
    using assms(1) by (cases e) (auto simp: numbers_read_def element_ok_def)
  have "skip_whitespace (element_text e @ r) = number_text n @ w @ r"
    using scalar_starts [of "S_Number n" "w @ r"] by (simp add: e(1) element_text_def skip_spaces [OF e(2)] del: number_text.simps)
  moreover have "parse_number nearest (number_text n @ w @ r) key = Inr (x, w @ r)"
    by (rule parse_number_text, rule e(4), rule e(5), rule follows_ends [OF follows_close [OF e(3) assms(2)]])
  moreover have "numbers_read nearest es xs" using assms(1) by (simp add: numbers_read_def)
  ultimately show thesis using that e(3) by blast
qed

lemma array_loop_text:
  "numbers_read nearest (e # es) (x # xs) \<Longrightarrow>
     double_array_loop nearest key acc (skip_whitespace (element_text e @
       concat (map (\<lambda>e. CHR '','' # element_text e) es) @ CHR '']'' # r)) = Inr (acc @ x # xs)"
proof (induction es arbitrary: e x xs acc)
  case Nil
  have close: "closes (CHR '']'' # r)" by (simp add: closes_def)
  obtain n w where n: "skip_whitespace (element_text e @ CHR '']'' # r) = number_text n @ w @ CHR '']'' # r" "json_space w"
    "parse_number nearest (number_text n @ w @ CHR '']'' # r) key = Inr (x, w @ CHR '']'' # r)" "numbers_read nearest [] xs"
    by (rule read_element [OF Nil close])
  have skip: "skip_whitespace (w @ CHR '']'' # r) = CHR '']'' # r" by (rule skip_exact [OF n(2)]) (simp add: c_isspace_def)
  have "xs = []" using n(4) by (simp add: numbers_read_def)
  then show ?case
    by (subst double_array_loop.simps)
      (simp only: list.map concat.simps append_Nil n(1) n(3) skip number_starts(1) if_False sum.case prod.case Let_def list.case if_True refl)
next
  case (Cons e' es)
  let ?rest = "concat (map (\<lambda>e. CHR '','' # element_text e) es) @ CHR '']'' # r"
  let ?more = "CHR '','' # element_text e' @ ?rest"
  have close: "closes ?more" "closes ?rest" by (simp add: closes_def) (rule closes_rest, simp add: closes_def)
  obtain n w where n: "skip_whitespace (element_text e @ ?more) = number_text n @ w @ ?more" "json_space w"
    "parse_number nearest (number_text n @ w @ ?more) key = Inr (x, w @ ?more)" "numbers_read nearest (e' # es) xs"
    by (rule read_element [OF Cons.prems close(1)])
  obtain x' xs' where xs: "xs = x' # xs'" using n(4) by (auto simp: numbers_read_def list_all2_Cons1)
  obtain n' w' where n': "skip_whitespace (element_text e' @ ?rest) = number_text n' @ w' @ ?rest"
    by (rule read_element [OF n(4) [unfolded xs] close(2)])
  have skip: "skip_whitespace (w @ ?more) = ?more" by (rule skip_exact [OF n(2)]) (simp add: c_isspace_def)
  have inner: "\<not> (skip_whitespace (element_text e' @ ?rest) = [] \<or> hd (skip_whitespace (element_text e' @ ?rest)) = CHR '']'')"
    unfolding n' using number_starts [of n' "w' @ ?rest"] by blast
  have comma: "CHR '','' \<noteq> CHR '']''" by simp
  have "double_array_loop nearest key acc (number_text n @ w @ ?more) =
      double_array_loop nearest key (acc @ [x]) (skip_whitespace (element_text e' @ ?rest))"
    by (subst double_array_loop.simps)
      (simp only: number_starts(1) n(3) skip inner comma if_False if_True sum.case prod.case Let_def list.case simp_thms)
  moreover have "element_text e @ concat (map (\<lambda>e. CHR '','' # element_text e) (e' # es)) @ CHR '']'' # r = element_text e @ ?more" by simp
  ultimately show ?case using Cons.IH [OF n(4) [unfolded xs], of "acc @ [x]"] n(1) xs by simp
qed

section \<open>What a document says\<close>

definition reads_string :: "string \<Rightarrow> json_value \<Rightarrow> bool" where
  "reads_string s v \<longleftrightarrow> (\<exists>ps. v = J_Scalar (S_String ps) \<and> map piece_char ps = map Some s)"

definition reads_bool :: "bool \<Rightarrow> json_value \<Rightarrow> bool" where
  "reads_bool b v \<longleftrightarrow> v = J_Scalar (S_Bool b)"

definition reads_number :: "rounding \<Rightarrow> rat \<Rightarrow> json_value \<Rightarrow> bool" where
  "reads_number nearest x v \<longleftrightarrow> (\<exists>n. v = J_Scalar (S_Number n) \<and> nearest (number_value n) = Some x)"

definition reads_numbers :: "rounding \<Rightarrow> rat list \<Rightarrow> json_value \<Rightarrow> bool" where
  "reads_numbers nearest xs v \<longleftrightarrow> (\<exists>w es. v = J_Array w es \<and>
     list_all2 (\<lambda>(before, e, behind) x. \<exists>n. e = S_Number n \<and> nearest (number_value n) = Some x) es xs)"

text \<open>The field \<open>key\<close> holds \<open>x\<close>, or is left out, optional, and \<open>x\<close> is its default.\<close>

definition says :: "json_document \<Rightarrow> string \<Rightarrow> bool \<Rightarrow> 'a \<Rightarrow> ('a \<Rightarrow> json_value \<Rightarrow> bool) \<Rightarrow> 'a \<Rightarrow> bool" where
  "says doc key required d R x \<longleftrightarrow> (case member_value doc key of None \<Rightarrow> \<not> required \<and> x = d | Some v \<Rightarrow> R x v)"

definition metadata_describes :: "rounding \<Rightarrow> json_document \<Rightarrow> model_metadata \<Rightarrow> bool" where
  "metadata_describes nearest doc m \<longleftrightarrow>
     says doc ''model_name'' True [] reads_string (mm_model_name m) \<and>
     says doc ''model_class'' False [] reads_string (mm_model_class m) \<and>
     says doc ''artefact_type'' False [] reads_string (mm_artefact_type m) \<and>
     says doc ''input_shape'' True [] (\<lambda>ds. reads_numbers nearest (map of_int ds)) (mm_input_shape m) \<and>
     says doc ''output_shape'' True [] (\<lambda>ds. reads_numbers nearest (map of_int ds)) (mm_output_shape m) \<and>
     says doc ''feature_count'' True 0 (\<lambda>w. reads_number nearest (of_int (uint w))) (mm_feature_count m) \<and>
     says doc ''window_length'' False 1 (\<lambda>w. reads_number nearest (of_int (uint w))) (mm_window_length m) \<and>
     says doc ''feature_version'' True 0 (\<lambda>w. reads_number nearest (of_int (uint w))) (mm_feature_version m) \<and>
     says doc ''onnx_sha256'' False [] reads_string (mm_onnx_sha256 m) \<and>
     says doc ''source_data_sha256'' False [] reads_string (mm_source_data_sha256 m) \<and>
     says doc ''expected_test_input'' True [] (reads_numbers nearest) (mm_expected_test_input m) \<and>
     says doc ''expected_test_output'' True [] (reads_numbers nearest) (mm_expected_test_output m) \<and>
     says doc ''reference_weights'' False [] (reads_numbers nearest) (mm_reference_weights m) \<and>
     says doc ''reference_bias'' False 0 (reads_number nearest) (mm_reference_bias m) \<and>
     says doc ''trained_model'' True False reads_bool (mm_trained_model m) \<and>
     says doc ''deterministic_fixture'' False False reads_bool (mm_deterministic_fixture m) \<and>
     list_all fits_i64 (mm_input_shape m) \<and> list_all fits_i64 (mm_output_shape m)"

lemma member_value_ok: "document_ok doc \<Longrightarrow> member_value doc key = Some v \<Longrightarrow> value_ok v"
  by (auto simp: document_ok_def member_value_def list_all_iff member_ok_def dest!: map_of_SomeD)

lemma says_cases [consumes 2, case_names present absent]:
  assumes "document_ok doc" and "says doc key required d R x"
  obtains (present) v r where "find_value_start (document_text doc) key required = Inr (Some (value_text v @ r))"
      and "R x v" and "value_ok v" and "may_follow r"
    | (absent) "find_value_start (document_text doc) key required = Inr None" and "x = d" and "\<not> required"
  using find_in_document [OF assms(1), of key required] assms member_value_ok
  by (cases "member_value doc key") (auto simp: found_def says_def)

lemma read_string:
  assumes "document_ok doc" and "says doc key required [] reads_string s"
  shows "extract_string (document_text doc) key required = Inr s"
  using assms by (cases rule: says_cases)
    (auto simp: extract_string_def and_then_def reads_string_def parse_string_text simp del: scalar_text.simps)

lemma read_bool:
  assumes "document_ok doc" and "says doc key required False reads_bool b"
  shows "extract_bool (document_text doc) key required = Inr b"
  using assms by (cases rule: says_cases)
    (simp_all add: extract_bool_def and_then_def reads_bool_def starts_bool del: scalar_text.simps)

lemma read_number:
  assumes "reads_number nearest x v" and "value_ok v" and "may_follow r"
  shows "parse_number nearest (value_text v @ r) key = Inr (x, r)"
  using assms parse_number_text follows_ends by (auto simp: reads_number_def simp del: number_text.simps)

lemma read_double:
  assumes "document_ok doc" and "says doc key required 0 (reads_number nearest) x"
  shows "extract_double nearest (document_text doc) key required = Inr x"
  using assms by (cases rule: says_cases) (simp_all add: extract_double_def and_then_def read_number)

lemma whole_uint: "of_int \<lfloor>of_int k :: rat\<rfloor> = (of_int k :: rat)"
  by simp

lemma read_uint:
  assumes "document_ok doc"
    and "says doc key required d (\<lambda>w. reads_number nearest (of_int (uint (w :: 'a::len word)))) w"
    and "LENGTH('a) \<le> 64" and "\<not> required \<longrightarrow> d' = ucast d"
  shows "extract_uint nearest (document_text doc) key required d' = Inr (ucast w)"
using assms(1,2)
proof (cases rule: says_cases)
  case (present v r)
  define k where "k = uint w"
  have "k < 2 ^ LENGTH('a)" using unsigned_less [of w, where 'a = int] by (simp add: k_def)
  also have "(2 :: int) ^ LENGTH('a) \<le> 2 ^ 64" using assms(3) by (intro power_increasing) auto
  finally have "(of_int k :: rat) < of_int (2 ^ 64)" by (simp only: of_int_less_iff)
  then have k: "\<not> 2 ^ 64 \<le> (of_int k :: rat)" "\<not> (of_int k :: rat) < 0" by (simp_all add: k_def del: of_int_uint)
  have parsed: "parse_number nearest (value_text v @ r) key = Inr (of_int k, r)"
    unfolding k_def by (rule read_number) (use present in auto)
  have "(of_int k :: u64) = ucast w" by (simp add: k_def)
  then show ?thesis using present(1) parsed k by (simp add: extract_uint_def and_then_def)
next
  case absent
  then show ?thesis using assms(4) by (simp add: extract_uint_def and_then_def)
qed

lemma numbers_read_iff:
  "list_all element_ok es \<Longrightarrow> list_all2 (\<lambda>(before, e, behind) x. \<exists>n. e = S_Number n \<and> nearest (number_value n) = Some x) es xs \<Longrightarrow>
     numbers_read nearest es xs"
  unfolding numbers_read_def list_all2_conv_all_nth list_all_length by (auto simp: split_beta)

lemma read_array:
  assumes "document_ok doc" and "says doc key required [] (reads_numbers nearest) xs"
  shows "extract_double_array nearest (document_text doc) key required = Inr xs"
using assms
proof (cases rule: says_cases)
  case (present v r)
  obtain w es where v: "v = J_Array w es" "json_space w" "numbers_read nearest es xs"
    using present(2,3) numbers_read_iff by (auto simp: reads_numbers_def)
  show ?thesis
  proof (cases es)
    case Nil
    have "skip_whitespace (w @ CHR '']'' # r) = CHR '']'' # r" by (rule skip_exact [OF v(2)]) (simp add: c_isspace_def)
    then show ?thesis using present(1) v Nil by (simp add: extract_double_array_def and_then_def numbers_read_def)
  next
    case (Cons e es')
    obtain x xs' where xs: "xs = x # xs'" using v(3) Cons by (auto simp: numbers_read_def list_all2_Cons1)
    let ?s = "element_text e @ concat (map (\<lambda>e. CHR '','' # element_text e) es') @ CHR '']'' # r"
    have read: "numbers_read nearest (e # es') (x # xs')" using v(3) Cons xs by simp
    obtain n t where "skip_whitespace ?s = number_text n @ t"
      by (rule read_element [OF read closes_rest]) (auto simp: closes_def)
    then have inner: "\<not> (skip_whitespace ?s \<noteq> [] \<and> hd (skip_whitespace ?s) = CHR '']'')" using number_starts(2) by metis
    have "find_value_start (document_text doc) key required = Inr (Some (CHR ''['' # ?s))"
      using present(1) unfolding v(1) Cons array_text by simp
    then show ?thesis
      using array_loop_text [OF read, of key "[]" r] inner xs
      by (simp only: extract_double_array_def and_then_def sum.case option.case list.sel Let_def) simp
  qed
qed (simp add: extract_double_array_def and_then_def)

lemma int_loop: "list_all fits_i64 ds \<Longrightarrow> int_array_loop key acc (map of_int ds) = Inr (acc @ ds)"
proof (induction ds arbitrary: acc)
  case (Cons d ds)
  then have "- (2 ^ 63) \<le> d" "d < 2 ^ 63" by (simp_all add: fits_i64_def)
  then have "(of_int (- (2 ^ 63)) :: rat) \<le> of_int d" "(of_int d :: rat) < of_int (2 ^ 63)" by (simp_all only: of_int_le_iff of_int_less_iff)
  then show ?case using Cons by simp
qed simp

lemma read_ints:
  assumes "document_ok doc" and "says doc key True [] (\<lambda>ds. reads_numbers nearest (map of_int ds)) ds" and "list_all fits_i64 ds"
  shows "extract_int_array nearest (document_text doc) key = Inr ds"
proof -
  have "says doc key True [] (reads_numbers nearest) (map of_int ds)"
    using assms(2) by (simp add: says_def split: option.splits)
  from read_array [OF assms(1) this] int_loop [OF assms(3), of key "[]"] show ?thesis
    by (simp add: extract_int_array_def and_then_def)
qed

lemma document_loads:
  assumes ok: "document_ok doc" and m: "metadata_describes nearest doc m"
  shows "load_model_metadata nearest path (Some (document_text doc)) = Inr m"
proof -
  note s = read_string [OF ok] and b = read_bool [OF ok] and n = read_uint [OF ok]
    and a = read_array [OF ok] and i = read_ints [OF ok] and d = read_double [OF ok]
  note m = m [unfolded metadata_describes_def]
  have "extract_string (document_text doc) ''model_name'' True = Inr (mm_model_name m)"
    "extract_string (document_text doc) ''model_class'' False = Inr (mm_model_class m)"
    "extract_string (document_text doc) ''artefact_type'' False = Inr (mm_artefact_type m)"
    "extract_string (document_text doc) ''onnx_sha256'' False = Inr (mm_onnx_sha256 m)"
    "extract_string (document_text doc) ''source_data_sha256'' False = Inr (mm_source_data_sha256 m)"
    "extract_bool (document_text doc) ''trained_model'' True = Inr (mm_trained_model m)"
    "extract_bool (document_text doc) ''deterministic_fixture'' False = Inr (mm_deterministic_fixture m)"
    using m by (intro s b; blast)+
  moreover have "extract_int_array nearest (document_text doc) ''input_shape'' = Inr (mm_input_shape m)"
    "extract_int_array nearest (document_text doc) ''output_shape'' = Inr (mm_output_shape m)"
    "extract_double_array nearest (document_text doc) ''expected_test_input'' True = Inr (mm_expected_test_input m)"
    "extract_double_array nearest (document_text doc) ''expected_test_output'' True = Inr (mm_expected_test_output m)"
    "extract_double_array nearest (document_text doc) ''reference_weights'' False = Inr (mm_reference_weights m)"
    "extract_double nearest (document_text doc) ''reference_bias'' False = Inr (mm_reference_bias m)"
    using m by (intro i a d; blast)+
  moreover have "extract_uint nearest (document_text doc) ''feature_count'' True 0 = Inr (mm_feature_count m)"
    using n [of "''feature_count''" True 0 nearest "mm_feature_count m" 0] m by simp
  moreover have "extract_uint nearest (document_text doc) ''window_length'' False 1 = Inr (mm_window_length m)"
    using n [of "''window_length''" False 1 nearest "mm_window_length m" 1] m by simp
  moreover have "extract_uint nearest (document_text doc) ''feature_version'' True 0 = Inr (ucast (mm_feature_version m))"
    using n [of "''feature_version''" True 0 nearest "mm_feature_version m" 0] m by simp
  moreover have "ucast (ucast (mm_feature_version m) :: u64) = mm_feature_version m"
    by (rule bit_word_eqI) (simp add: bit_simps)
  ultimately show ?thesis by (simp add: load_model_metadata_def and_then_def read_text_def)
qed

text \<open>A description of the fixture model, with all kinds of white space, escapes and number forms, and an exact
  rounding for the witnesses.\<close>

definition demo_member :: "string \<Rightarrow> json_value \<Rightarrow> json_field" where
  "demo_member k v = \<lparr>jf_before = [CHR 0x0A, CHR '' '', CHR '' ''], jf_key = k, jf_colon = [], jf_gap = '' '', jf_value = v, jf_after = []\<rparr>"

definition demo_number :: "nat \<Rightarrow> string \<Rightarrow> scalar" where
  "demo_number whole fraction = S_Number (Json_Number False whole fraction None)"

definition demo_document :: json_document where
  "demo_document = \<lparr>jd_before = [CHR 0x0D, CHR 0x0A], jd_fields =
    [demo_member ''deterministic_fixture'' (J_Scalar (S_Bool True)),
     (demo_member ''expected_test_input'' (J_Array [] [([], demo_number 2 ''0'', '' ''), ([CHR 0x09], demo_number 0 ''5'', [])]))\<lparr>jf_colon := [CHR 0x09]\<rparr>,
     demo_member ''expected_test_output'' (J_Array [] [([], S_Number (Json_Number True 25 [] (Some (True, Some True, ''2''))), [])]),
     (demo_member ''feature_count'' (J_Scalar (demo_number 2 [])))\<lparr>jf_after := '' ''\<rparr>,
     demo_member ''feature_order'' (J_Array [] [([], S_String (map Plain ''spread_ticks''), []), ([], S_String (map Plain ''model_name''), [])]),
     demo_member ''feature_version'' (J_Scalar (demo_number 1 [])),
     demo_member ''input_shape'' (J_Array [] [([], demo_number 1 [], []), ('' '', S_Number (Json_Number False 0 ''2'' (Some (False, None, ''1''))), [])]),
     demo_member ''model_name'' (J_Scalar (S_String [Plain CHR ''a'', Short E_Slash, Plain CHR ''b'', Short E_Quote])),
     demo_member ''note'' (J_Scalar (S_String [Code CHR ''0'' CHR ''0'' CHR ''e'' CHR ''9''])),
     demo_member ''output_shape'' (J_Array [] [([], demo_number 1 [], []), ([], demo_number 1 [], [])]),
     demo_member ''reference_weights'' (J_Array '' '' []),
     demo_member ''trained_model'' (J_Scalar (S_Bool False))], jd_inside = [], jd_after = [CHR 0x0A]\<rparr>"

definition demo_metadata :: model_metadata where
  "demo_metadata = \<lparr>mm_model_name = [CHR ''a'', CHR ''/'', CHR ''b'', CHR 0x22], mm_model_class = [], mm_artefact_type = [], mm_input_shape = [1, 2],
     mm_output_shape = [1, 1], mm_feature_count = 2, mm_window_length = 1, mm_feature_version = 1, mm_onnx_sha256 = [],
     mm_source_data_sha256 = [], mm_expected_test_input = [2, 1 / 2], mm_expected_test_output = [- 1 / 4],
     mm_reference_weights = [], mm_reference_bias = 0, mm_trained_model = False, mm_deterministic_fixture = True\<rparr>"

lemma demo_document_ok: "document_ok demo_document"
  by (simp add: document_ok_def demo_document_def demo_member_def member_ok_def demo_number_def element_ok_def json_space_def is_digit_def
      is_hex_digit_def)

lemma demo_describes: "metadata_describes Some demo_document demo_metadata"
proof -
  have numbers: "reads_numbers Some [] (J_Array w [])"
    "reads_numbers Some (x # xs) (J_Array w ((a, S_Number n, b) # es)) \<longleftrightarrow> number_value n = x \<and> reads_numbers Some xs (J_Array w es)" for w x xs a n b es
    by (auto simp: reads_numbers_def)
  have chars: "reads_string t (J_Scalar (S_String ps)) \<longleftrightarrow> map piece_char ps = map Some t" for t ps
    by (simp add: reads_string_def)
  show ?thesis
    by (simp add: metadata_describes_def demo_document_def demo_member_def demo_metadata_def says_def member_value_def chars reads_bool_def numbers demo_number_def
      reads_number_def digits_value_def exponent_value_def fits_i64_def power_int_def power2_eq_square)
qed

section \<open>Properties\<close>

text \<open>C37: reading a flat JSON document gives back what it says, whatever the order of its fields, the white space around
  each token, the form of its numbers, the fields it has beside those read, and the short escapes in its strings; of
  several fields with one key the first counts, and fields left out have their defaults. The values are numbers,
  strings, truth values, null and arrays of these, keys are written without escapes, and the strings that are read have no
  character written by its code, which the reader would keep as it is written.\<close>

theorem metadata_document_loads:
  assumes "document_ok doc" and "metadata_describes nearest doc m"
  shows "load_model_metadata nearest path (Some (document_text doc)) = Inr m"
  using assms by (rule document_loads)

lemma metadata_document_loads_witness:
  "load_model_metadata Some ''fixture.json'' (Some (document_text demo_document)) = Inr demo_metadata"
  by (rule metadata_document_loads [OF demo_document_ok demo_describes])

text \<open>C36: of the descriptions read from a file, the validation accepts exactly those whose parts fit together in natural
  numbers: positive dimensions, the product of the input shape equal to the features of all timesteps, test vectors
  and weights of the right lengths, a known artefact type that is declared trained, and for recorded data a shape of one batch,
  the window and the features. No product that wraps around passes, and a rejection always has a message.\<close>

theorem loaded_metadata_accepted_iff_consistent:
  assumes "load_model_metadata nearest path (Some body) = Inr m" and "length body < 2 ^ 64"
  shows "fst (validate_model_metadata m) = metadata_consistent m \<and>
    (snd (validate_model_metadata m) = [] \<longleftrightarrow> metadata_consistent m)"
proof -
  have "snd (validate_model_metadata m) = [] \<longleftrightarrow> fst (validate_model_metadata m)"
    by (simp add: validate_model_metadata_def Let_def)
  then show ?thesis using validation_accepts [OF loaded_sizes [OF assms]] by simp
qed

lemma loaded_metadata_accepted_iff_consistent_witness:
  "validate_model_metadata demo_metadata = (True, [])"
proof -
  have "length (document_text demo_document) < 2 ^ 64"
    by (simp add: demo_document_def demo_member_def document_text_def member_text_def element_text_def pieces_text_def demo_number_def decimal.simps)
  then have "fst (validate_model_metadata demo_metadata) = metadata_consistent demo_metadata \<and>
      (snd (validate_model_metadata demo_metadata) = [] \<longleftrightarrow> metadata_consistent demo_metadata)"
    by (rule loaded_metadata_accepted_iff_consistent [OF document_loads [OF demo_document_ok demo_describes]])
  moreover have "metadata_consistent demo_metadata" by (simp add: metadata_consistent_def demo_metadata_def shape_size_def)
  ultimately show ?thesis by (simp add: prod_eq_iff)
qed

end
