(* ===== verification/Inference.thy ===== *)
theory Inference
  imports Order_Book Market_Event
begin

text \<open>
  \<^verbatim>\<open>inference/\<close> without the reader of model descriptions and the ONNX runtime: the features of a book, the
  linear model, the choice of the backend, the policy on late and slow signals, and the gate that disables a model. Doubles
  are a type with the arithmetic the code uses, in the order the code uses it; whether the ONNX runtime is compiled in and
  what it loads from a path, and the time a score takes, are parameters.
\<close>

section \<open>Features\<close>

definition kL2FeatureVersion :: u32 where
  "kL2FeatureVersion = 1"

definition kL2FeatureCount :: nat where
  "kL2FeatureCount = 4"

definition kL2FeatureNames :: "string list" where
  "kL2FeatureNames = [''spread_ticks'', ''mid_price_ticks'', ''top_level_imbalance'', ''top_level_quantity'']"

datatype feature_extraction_status = Fx_Ok | Fx_InsufficientCapacity

fun fx_to_string :: "feature_extraction_status \<Rightarrow> string" where
  "fx_to_string Fx_Ok = ''ok''"
| "fx_to_string Fx_InsufficientCapacity = ''insufficient_capacity''"

record 'd feature_buffer =
  fb_values :: "'d list"
  fb_size :: nat

record 'd feature_vector =
  fv_version :: u32
  fv_names :: "string list"
  fv_values :: "'d list"

text \<open>The conversion of an integer to a double is the parameter \<open>to_d\<close>.\<close>

definition store_features :: "'d list \<Rightarrow> 'd feature_buffer \<Rightarrow> 'd feature_buffer" where
  "store_features xs out = out\<lparr>fb_values := (fb_values out)[0 := xs ! 0, 1 := xs ! 1, 2 := xs ! 2, 3 := xs ! 3],
     fb_size := kL2FeatureCount\<rparr>"

definition extract_into ::
  "(int \<Rightarrow> 'd::{minus,inverse,zero,numeral}) \<Rightarrow> l2_view \<Rightarrow> 'd feature_buffer \<Rightarrow> feature_extraction_status \<times> 'd feature_buffer" where
  "extract_into to_d view out =
     (if length (fb_values out) < kL2FeatureCount then (Fx_InsufficientCapacity, out\<lparr>fb_size := 0\<rparr>)
      else if l2_bids view = [] \<or> l2_asks view = [] then (Fx_Ok, store_features [0, 0, 0, 0] out)
      else let bid = to_d (l2_price_ticks (hd (l2_bids view))); ask = to_d (l2_price_ticks (hd (l2_asks view)));
               bid_qty = to_d (l2_quantity (hd (l2_bids view))); ask_qty = to_d (l2_quantity (hd (l2_asks view)));
               top_level_quantity = bid_qty + ask_qty;
               spread_ticks = ask - bid;
               mid_price_ticks = (ask + bid) / 2;
               top_level_imbalance = (if top_level_quantity = 0 then 0 else (bid_qty - ask_qty) / top_level_quantity)
           in (Fx_Ok, store_features [spread_ticks, mid_price_ticks, top_level_imbalance, top_level_quantity] out))"

definition fx_extract :: "(int \<Rightarrow> 'd::{minus,inverse,zero,numeral}) \<Rightarrow> l2_view \<Rightarrow> 'd list" where
  "fx_extract to_d view =
     (let (status, buffer) = extract_into to_d view \<lparr>fb_values = replicate kL2FeatureCount 0, fb_size = 0\<rparr>
      in if status = Fx_Ok then take (fb_size buffer) (fb_values buffer) else [])"

definition fx_extract_versioned :: "(int \<Rightarrow> 'd::{minus,inverse,zero,numeral}) \<Rightarrow> l2_view \<Rightarrow> 'd feature_vector" where
  "fx_extract_versioned to_d view =
     \<lparr>fv_version = kL2FeatureVersion, fv_names = kL2FeatureNames, fv_values = fx_extract to_d view\<rparr>"

definition fx_extract_from_book ::
  "(int \<Rightarrow> 'd::{minus,inverse,zero,numeral}) \<Rightarrow> order_book \<Rightarrow> nat \<Rightarrow> 'd list" where
  "fx_extract_from_book to_d book depth = fx_extract to_d (ob_l2_view depth book)"

definition fx_extract_versioned_from_book ::
  "(int \<Rightarrow> 'd::{minus,inverse,zero,numeral}) \<Rightarrow> order_book \<Rightarrow> nat \<Rightarrow> 'd feature_vector" where
  "fx_extract_versioned_from_book to_d book depth = fx_extract_versioned to_d (ob_l2_view depth book)"

section \<open>Models and backends\<close>

text \<open>A model: its four names and its score; the ONNX model throws on a wrong number of features, with its message here.\<close>

record 'd model =
  md_backend_name :: string
  md_model_name :: string
  md_input_shape :: string
  md_output_shape :: string
  md_score :: "'d list \<Rightarrow> string + 'd"

definition linear_score :: "'d::{plus,times} list \<Rightarrow> 'd \<Rightarrow> 'd list \<Rightarrow> 'd" where
  "linear_score weights bias features = foldl (\<lambda>output (w, x). output + w * x) bias (zip weights features)"

definition linear_model :: "'d::{plus,times} list \<Rightarrow> 'd \<Rightarrow> 'd model" where
  "linear_model weights bias = \<lparr>md_backend_name = ''linear'', md_model_name = ''linear_model'',
     md_input_shape = ''1x'' @ decimal (length weights), md_output_shape = ''1x1'',
     md_score = (\<lambda>features. Inr (linear_score weights bias features))\<rparr>"

datatype inference_backend = Ib_Linear | Ib_Onnx

fun ib_to_string :: "inference_backend \<Rightarrow> string" where
  "ib_to_string Ib_Linear = ''linear''"
| "ib_to_string Ib_Onnx = ''onnx''"

record 'd backend_config =
  bc_requested :: inference_backend
  bc_model_path :: string
  bc_model_name :: string
  bc_input_shape :: string
  bc_output_shape :: string
  bc_model_feature_count :: u64
  bc_model_feature_version :: u32
  bc_linear_weights :: "'d list"
  bc_linear_bias :: 'd

record 'd backend_selection =
  sl_model :: "'d model"
  sl_requested :: inference_backend
  sl_active :: inference_backend
  sl_fell_back :: bool
  sl_detail :: string

definition feature_contract_error :: "'d backend_config \<Rightarrow> string" where
  "feature_contract_error config =
     (if bc_model_feature_count config > 0 \<and> bc_model_feature_count config \<noteq> of_nat kL2FeatureCount
      then ''feature count mismatch: Asterion feature_count='' @ decimal kL2FeatureCount @ '' model feature_count='' @
        decimal_word (bc_model_feature_count config)
      else if bc_model_feature_version config > 0 \<and> bc_model_feature_version config \<noteq> kL2FeatureVersion
      then ''feature version mismatch: Asterion feature_version='' @ decimal_word kL2FeatureVersion @
        '' model feature_version='' @ decimal_word (bc_model_feature_version config)
      else [])"

text \<open>
  \<open>onnx\<close> is \<open>None\<close> when the runtime is not compiled in; otherwise it gives, for a path, the model or the error of loading it.
\<close>

definition make_inference_backend ::
  "(string \<Rightarrow> string + 'd model) option \<Rightarrow> 'd::{plus,times} backend_config \<Rightarrow> 'd backend_selection" where
  "make_inference_backend onnx config =
     (let fallback = (\<lambda>detail. \<lparr>sl_model = linear_model (bc_linear_weights config) (bc_linear_bias config),
            sl_requested = bc_requested config, sl_active = Ib_Linear, sl_fell_back = True, sl_detail = detail\<rparr>);
          error = feature_contract_error config
      in if bc_requested config = Ib_Onnx
         then if error \<noteq> [] then fallback (error @ ''; using deterministic LinearModel fallback'')
           else (case onnx of
               Some load \<Rightarrow> (case load (bc_model_path config) of
                   Inr m \<Rightarrow> \<lparr>sl_model = m, sl_requested = bc_requested config, sl_active = Ib_Onnx, sl_fell_back = False,
                     sl_detail = ''onnx runtime backend active''\<rparr>
                 | Inl load_error \<Rightarrow> fallback (''onnx runtime present but model load failed: '' @ load_error @
                     ''; using deterministic LinearModel fallback''))
             | None \<Rightarrow> fallback (''onnx runtime not compiled in (configure with -DASTERION_USE_ONNXRUNTIME '' @
                 ''and install ONNX Runtime); using deterministic LinearModel fallback''))
         else \<lparr>sl_model = linear_model (bc_linear_weights config) (bc_linear_bias config), sl_requested = bc_requested config,
           sl_active = Ib_Linear, sl_fell_back = False, sl_detail = ''linear backend active''\<rparr>)"

section \<open>Policy\<close>

datatype inference_decision = Id_Accept | Id_Timeout | Id_LateSignal | Id_TimeoutAndLateSignal

fun id_to_string :: "inference_decision \<Rightarrow> string" where
  "id_to_string Id_Accept = ''accept''"
| "id_to_string Id_Timeout = ''timeout''"
| "id_to_string Id_LateSignal = ''late_signal''"
| "id_to_string Id_TimeoutAndLateSignal = ''timeout_and_late_signal''"

record inference_policy =
  ip_timeout_ns :: u64
  ip_max_signal_age_ns :: u64
  ip_drop_timed_out :: bool
  ip_drop_late_signals :: bool
  ip_max_consecutive_late_signals :: u32
  ip_disable_on_repeated_late_signals :: bool

definition default_policy :: inference_policy where
  "default_policy = \<lparr>ip_timeout_ns = 0, ip_max_signal_age_ns = 0, ip_drop_timed_out = True, ip_drop_late_signals = True,
     ip_max_consecutive_late_signals = 0, ip_disable_on_repeated_late_signals = False\<rparr>"

record policy_result =
  pr_timed_out :: bool
  pr_late_signal :: bool
  pr_accepted :: bool
  pr_decision :: inference_decision
  pr_model_disabled :: bool

definition evaluate_inference_policy ::
  "inference_policy \<Rightarrow> u64 \<Rightarrow> timestamp_ns \<Rightarrow> timestamp_ns \<Rightarrow> policy_result" where
  "evaluate_inference_policy policy observed_latency_ns signal_timestamp_ns now_timestamp_ns =
     (let timed_out = (ip_timeout_ns policy > 0 \<and> observed_latency_ns > ip_timeout_ns policy);
          late_signal = (if ip_max_signal_age_ns policy > 0 \<and> signal_timestamp_ns > 0 \<and> now_timestamp_ns \<ge> signal_timestamp_ns
            then let age_ns = (of_int (now_timestamp_ns - signal_timestamp_ns) :: u64) in age_ns > ip_max_signal_age_ns policy
            else False);
          accepted = (\<not> (timed_out \<and> ip_drop_timed_out policy) \<and> \<not> (late_signal \<and> ip_drop_late_signals policy));
          decision = (if timed_out \<and> late_signal then Id_TimeoutAndLateSignal
            else if timed_out then Id_Timeout
            else if late_signal then Id_LateSignal else Id_Accept)
      in \<lparr>pr_timed_out = timed_out, pr_late_signal = late_signal, pr_accepted = accepted, pr_decision = decision,
          pr_model_disabled = False\<rparr>)"

record 'd inference_result =
  ir_score :: 'd
  ir_inference_latency_ns :: u64
  ir_timed_out :: bool
  ir_late_signal :: bool
  ir_accepted :: bool
  ir_decision :: inference_decision
  ir_backend :: string
  ir_model_name :: string
  ir_input_shape :: string
  ir_output_shape :: string
  ir_model_disabled :: bool

text \<open>\<open>elapsed\<close> is what the clock shows between the two readings.\<close>

definition measure_inference ::
  "int \<Rightarrow> 'd model \<Rightarrow> 'd list \<Rightarrow> inference_policy \<Rightarrow> timestamp_ns \<Rightarrow> timestamp_ns \<Rightarrow> string + 'd inference_result" where
  "measure_inference elapsed m features policy signal_timestamp_ns now_timestamp_ns = (case md_score m features of
       Inl e \<Rightarrow> Inl e
     | Inr score \<Rightarrow>
         let latency_ns = (if elapsed > 0 then of_int elapsed else 0);
             r = evaluate_inference_policy policy latency_ns signal_timestamp_ns now_timestamp_ns
         in Inr \<lparr>ir_score = score, ir_inference_latency_ns = latency_ns, ir_timed_out = pr_timed_out r,
              ir_late_signal = pr_late_signal r, ir_accepted = pr_accepted r, ir_decision = pr_decision r,
              ir_backend = md_backend_name m, ir_model_name = md_model_name m, ir_input_shape = md_input_shape m,
              ir_output_shape = md_output_shape m, ir_model_disabled = False\<rparr>)"

record 'd inference_engine =
  ie_model :: "'d model"
  ie_policy :: inference_policy

definition engine_score ::
  "int \<Rightarrow> 'd inference_engine \<Rightarrow> 'd list \<Rightarrow> timestamp_ns \<Rightarrow> timestamp_ns \<Rightarrow> string + 'd inference_result" where
  "engine_score elapsed engine features signal_timestamp_ns now_timestamp_ns =
     measure_inference elapsed (ie_model engine) features (ie_policy engine) signal_timestamp_ns now_timestamp_ns"

section \<open>The gate\<close>

record policy_gate =
  gt_policy :: inference_policy
  gt_consecutive_late_signals :: u32
  gt_disabled :: bool

definition gate_new :: "inference_policy \<Rightarrow> policy_gate" where
  "gate_new policy = \<lparr>gt_policy = policy, gt_consecutive_late_signals = 0, gt_disabled = False\<rparr>"

definition gate_observe :: "u64 \<Rightarrow> timestamp_ns \<Rightarrow> timestamp_ns \<Rightarrow> policy_gate \<Rightarrow> policy_result \<times> policy_gate" where
  "gate_observe observed_latency_ns signal_timestamp_ns now_timestamp_ns g =
     (let result = evaluate_inference_policy (gt_policy g) observed_latency_ns signal_timestamp_ns now_timestamp_ns;
          g = (if pr_late_signal result
               then if gt_consecutive_late_signals g < - 1
                 then g\<lparr>gt_consecutive_late_signals := gt_consecutive_late_signals g + 1\<rparr> else g
               else g\<lparr>gt_consecutive_late_signals := 0\<rparr>);
          g = (if ip_disable_on_repeated_late_signals (gt_policy g) \<and> ip_max_consecutive_late_signals (gt_policy g) > 0 \<and>
                 gt_consecutive_late_signals g \<ge> ip_max_consecutive_late_signals (gt_policy g)
               then g\<lparr>gt_disabled := True\<rparr> else g);
          result = (if gt_disabled g then result\<lparr>pr_model_disabled := True, pr_accepted := False\<rparr> else result)
      in (result, g))"

definition gate_reset :: "policy_gate \<Rightarrow> policy_gate" where
  "gate_reset g = g\<lparr>gt_consecutive_late_signals := 0, gt_disabled := False\<rparr>"

end
