(* ===== verification/Inference_Correct.thy ===== *)
theory Inference_Correct
  imports Complex_Main Inference
begin

text \<open>
  The gate of \<^verbatim>\<open>inference/inference.cpp\<close> against the history of its observations, the range of the
  features, and what the choice of a backend always delivers.
\<close>

section \<open>Runs at the end of a history\<close>

definition trailing :: "bool list \<Rightarrow> nat" where
  "trailing h = length (takeWhile (\<lambda>b. b) (rev h))"

lemma trailing_simps [simp]: "trailing [] = 0" "trailing (h @ [b]) = (if b then Suc (trailing h) else 0)"
  by (simp_all add: trailing_def)

lemma trailing_iff: "n \<le> trailing h \<longleftrightarrow> (\<exists>xs. h = xs @ replicate n True)"
proof (induction h arbitrary: n rule: rev_induct)
  case (snoc b h)
  show ?case
  proof (cases n)
    case (Suc m)
    have "h @ [b] = xs @ replicate (Suc m) True \<longleftrightarrow> b \<and> h = xs @ replicate m True" for xs
    proof -
      have "xs @ replicate (Suc m) True = (xs @ replicate m True) @ [True]" by (simp add: replicate_append_same)
      then show ?thesis by (metis append1_eq_conv)
    qed
    then show ?thesis using Suc snoc [of m] by auto
  qed simp
qed simp

definition has_run :: "nat \<Rightarrow> bool list \<Rightarrow> bool" where
  "has_run n h \<longleftrightarrow> (\<exists>xs ys. h = xs @ replicate n True @ ys)"

lemma has_run_snoc: "has_run n (h @ [b]) \<longleftrightarrow> has_run n h \<or> n \<le> trailing (h @ [b])"
proof
  assume "has_run n (h @ [b])"
  then obtain xs ys where s: "h @ [b] = xs @ replicate n True @ ys" by (auto simp: has_run_def)
  show "has_run n h \<or> n \<le> trailing (h @ [b])"
  proof (cases ys rule: rev_cases)
    case Nil
    then show ?thesis unfolding trailing_iff using s by auto
  next
    case (snoc zs c)
    then have "h = xs @ replicate n True @ zs" using s by (simp flip: append_assoc)
    then show ?thesis by (auto simp: has_run_def)
  qed
next
  assume "has_run n h \<or> n \<le> trailing (h @ [b])"
  then show "has_run n (h @ [b])" unfolding trailing_iff has_run_def by (metis append.assoc append_Nil2)
qed

section \<open>The gate\<close>

datatype gate_op = Gate_Observe u64 timestamp_ns timestamp_ns | Gate_Reset

fun policy_gate_step :: "gate_op \<Rightarrow> policy_gate \<Rightarrow> policy_gate" where
  "policy_gate_step (Gate_Observe l s n) g = snd (gate_observe l s n g)"
| "policy_gate_step Gate_Reset g = gate_reset g"

text \<open>Which observations since the last reset were late.\<close>

fun late_history :: "inference_policy \<Rightarrow> bool list \<Rightarrow> gate_op list \<Rightarrow> bool list" where
  "late_history policy h [] = h"
| "late_history policy h (Gate_Reset # ops) = late_history policy [] ops"
| "late_history policy h (Gate_Observe l s n # ops) =
     late_history policy (h @ [pr_late_signal (evaluate_inference_policy policy l s n)]) ops"

definition gate_matches :: "inference_policy \<Rightarrow> bool list \<Rightarrow> policy_gate \<Rightarrow> bool" where
  "gate_matches policy h g \<longleftrightarrow> gt_policy g = policy \<and>
     unat (gt_consecutive_late_signals g) = min (2 ^ 32 - 1) (trailing h) \<and>
     (gt_disabled g \<longleftrightarrow> ip_disable_on_repeated_late_signals policy \<and> 0 < ip_max_consecutive_late_signals policy \<and>
       has_run (unat (ip_max_consecutive_late_signals policy)) h)"

lemma gate_matches_new: "gate_matches policy [] (gate_new policy)"
  by (auto simp: gate_matches_def gate_new_def has_run_def unat_gt_0)

lemma gate_matches_reset: "gate_matches policy h g \<Longrightarrow> gate_matches policy [] (gate_reset g)"
  by (auto simp: gate_matches_def gate_reset_def has_run_def unat_gt_0)

definition next_count :: "bool \<Rightarrow> u32 \<Rightarrow> u32" where
  "next_count late c = (if late then if c < - 1 then c + 1 else c else 0)"

lemma next_count_exact:
  assumes "unat c = min (2 ^ 32 - 1) (trailing h)"
  shows "unat (next_count late c) = min (2 ^ 32 - 1) (trailing (h @ [late]))"
proof -
  have top: "c < - 1 \<longleftrightarrow> unat c < 2 ^ 32 - 1" by (simp add: word_less_nat_alt unsigned_minus_1_eq_mask mask_eq_exp_minus_1)
  have "unat (c + 1) = unat c + 1" if "unat c < 2 ^ 32 - 1" using that by (simp add: unat_word_ariths)
  then show ?thesis using assms top by (auto simp: next_count_def)
qed

lemma observe_fields:
  "gt_policy (snd (gate_observe l s n g)) = gt_policy g"
  "gt_consecutive_late_signals (snd (gate_observe l s n g)) =
     next_count (pr_late_signal (evaluate_inference_policy (gt_policy g) l s n)) (gt_consecutive_late_signals g)"
  "gt_disabled (snd (gate_observe l s n g)) \<longleftrightarrow> gt_disabled g \<or> ip_disable_on_repeated_late_signals (gt_policy g) \<and>
     0 < ip_max_consecutive_late_signals (gt_policy g) \<and>
     gt_consecutive_late_signals (snd (gate_observe l s n g)) \<ge> ip_max_consecutive_late_signals (gt_policy g)"
  by (auto simp: gate_observe_def next_count_def Let_def)

lemma gate_matches_observe:
  assumes "gate_matches policy h g"
  shows "gate_matches policy (h @ [pr_late_signal (evaluate_inference_policy policy l s n)]) (snd (gate_observe l s n g))"
proof -
  let ?b = "pr_late_signal (evaluate_inference_policy policy l s n)" and ?g = "snd (gate_observe l s n g)"
  note m = assms [unfolded gate_matches_def]
  have policy: "gt_policy g = policy" using m by blast
  have c: "unat (gt_consecutive_late_signals ?g) = min (2 ^ 32 - 1) (trailing (h @ [?b]))"
    using observe_fields(2) [of l s n g] next_count_exact m policy by simp
  have "unat (ip_max_consecutive_late_signals policy) \<le> 2 ^ 32 - 1"
    using unsigned_less [of "ip_max_consecutive_late_signals policy", where 'a = nat] by simp
  then have "ip_max_consecutive_late_signals policy \<le> gt_consecutive_late_signals ?g \<longleftrightarrow>
      unat (ip_max_consecutive_late_signals policy) \<le> trailing (h @ [?b])"
    using c by (simp add: word_le_nat_alt)
  then show ?thesis
    using m policy c observe_fields(1,3) [of l s n g] has_run_snoc [of _ h ?b] by (auto simp: gate_matches_def)
qed

lemma gate_run_matches: "gate_matches policy h g \<Longrightarrow> gate_matches policy (late_history policy h ops) (fold policy_gate_step ops g)"
  by (induction policy h ops arbitrary: g rule: late_history.induct)
    (simp_all add: gate_matches_reset gate_matches_observe)

text \<open>C38: after any run of observations and resets the gate is disabled exactly if its policy asks for it and the history since
  the last reset has somewhere as many late signals in a row as the policy allows; the counter is the length of the run at
  the end, saturated; and an observation is accepted exactly if the stateless policy accepts it and the gate is not
  disabled after it.\<close>

theorem gate_disabled_exactly_after_late_run:
  "let g = fold policy_gate_step ops (gate_new policy); h = late_history policy [] ops;
       (r, g') = gate_observe l s n g in
     (gt_disabled g \<longleftrightarrow> ip_disable_on_repeated_late_signals policy \<and> 0 < ip_max_consecutive_late_signals policy \<and>
       (\<exists>xs ys. h = xs @ replicate (unat (ip_max_consecutive_late_signals policy)) True @ ys)) \<and>
     unat (gt_consecutive_late_signals g) = min (2 ^ 32 - 1) (length (takeWhile (\<lambda>b. b) (rev h))) \<and>
     pr_model_disabled r = gt_disabled g' \<and>
     pr_accepted r = (pr_accepted (evaluate_inference_policy policy l s n) \<and> \<not> gt_disabled g')"
proof -
  let ?g = "fold policy_gate_step ops (gate_new policy)"
  have m: "gate_matches policy (late_history policy [] ops) ?g" by (rule gate_run_matches [OF gate_matches_new])
  then have p: "gt_policy ?g = policy" by (simp add: gate_matches_def)
  have "pr_model_disabled (fst (gate_observe l s n ?g)) = gt_disabled (snd (gate_observe l s n ?g))"
    "pr_accepted (fst (gate_observe l s n ?g)) = (pr_accepted (evaluate_inference_policy policy l s n) \<and>
      \<not> gt_disabled (snd (gate_observe l s n ?g)))"
    unfolding gate_observe_def p Let_def by (simp_all add: evaluate_inference_policy_def Let_def)
  then show ?thesis using m by (simp add: gate_matches_def has_run_def trailing_def case_prod_beta Let_def)
qed

section \<open>Features\<close>

text \<open>In exact arithmetic, on a view whose best prices do not cross: the spread is positive, the middle price lies
  between the best prices, and the imbalance between minus one and one.\<close>

lemma features_in_range:
  assumes "l2_bids v = b # bs" and "l2_asks v = a # as" and "l2_price_ticks b < l2_price_ticks a"
    and "0 < l2_quantity b" and "0 < l2_quantity a"
  shows "\<exists>spread mid imbalance total. fx_extract (rat_of_int) v = [spread, mid, imbalance, total] \<and>
    0 < spread \<and> rat_of_int (l2_price_ticks b) < mid \<and> mid < rat_of_int (l2_price_ticks a) \<and>
    - 1 < imbalance \<and> imbalance < 1 \<and> 0 < total"
proof -
  define p q x y where pq: "p = rat_of_int (l2_price_ticks b)" "q = rat_of_int (l2_price_ticks a)"
    "x = rat_of_int (l2_quantity b)" "y = rat_of_int (l2_quantity a)"
  have pos: "p < q" "0 < x" "0 < y" using assms(3-5) by (simp_all add: pq)
  have "fx_extract rat_of_int v = [q - p, (q + p) / 2, (x - y) / (x + y), x + y]"
    using assms(1,2) pos
    by (simp add: fx_extract_def extract_into_def store_features_def kL2FeatureCount_def Let_def eval_nat_numeral pq [symmetric])
  moreover have "0 < q - p" "p < (q + p) / 2" "(q + p) / 2 < q" "- 1 < (x - y) / (x + y)" "(x - y) / (x + y) < 1" "0 < x + y"
    using pos by (simp_all add: field_simps)
  ultimately show ?thesis unfolding pq [symmetric] by blast
qed

section \<open>Backends\<close>

text \<open>A request for the ONNX backend ends with the loaded model or with the linear model of the configuration, marked as a fallback
  with a reason; a contract that does not match never reaches the loader.\<close>

lemma backend_selection_cases:
  fixes config :: "'d::{plus,times} backend_config" and onnx
  defines "sel \<equiv> make_inference_backend onnx config"
  shows "sl_active sel = Ib_Onnx \<and> \<not> sl_fell_back sel \<and> bc_requested config = Ib_Onnx \<and> feature_contract_error config = [] \<and>
      (\<exists>load. onnx = Some load \<and> load (bc_model_path config) = Inr (sl_model sel))
    \<or> sl_active sel = Ib_Linear \<and> sl_model sel = linear_model (bc_linear_weights config) (bc_linear_bias config) \<and>
      (sl_fell_back sel \<longleftrightarrow> bc_requested config = Ib_Onnx) \<and> sl_detail sel \<noteq> []"
  by (auto simp: sel_def make_inference_backend_def Let_def inference_backend.exhaust split: option.splits sum.splits)

end
