(* ===== verification/Latency_Budget.thy ===== *)
theory Latency_Budget
  imports Checksum Risk_Audit
begin

text \<open>
  \<^verbatim>\<open>telemetry/\<close>: the accountant of latency budgets with its JSON report, the histogram, and the
  registry of counters. Durations are handed in as 64-bit words. The product of a quantile and a count, which the histogram
  takes in floating point, is a parameter.
\<close>

section \<open>Stages and budgets\<close>

datatype latency_stage = St_Replay | St_BookUpdate | St_Matching | St_Risk | St_Strategy | St_Inference | St_Total

definition kStageCount :: nat where
  "kStageCount = 7"

definition kStageOrder :: "latency_stage list" where
  "kStageOrder = [St_Replay, St_BookUpdate, St_Matching, St_Risk, St_Strategy, St_Inference, St_Total]"

fun stage_wire :: "latency_stage \<Rightarrow> u8" where
  "stage_wire St_Replay = 1"
| "stage_wire St_BookUpdate = 2"
| "stage_wire St_Matching = 3"
| "stage_wire St_Risk = 4"
| "stage_wire St_Strategy = 5"
| "stage_wire St_Inference = 6"
| "stage_wire St_Total = 7"

definition utilization_ppm :: "u64 \<Rightarrow> u64 \<Rightarrow> u64" where
  "utilization_ppm observed_ns budget_ns = (if budget_ns = 0 then 0 else (observed_ns * 1000000) div budget_ns)"

definition budget_json_escape :: "string \<Rightarrow> string" where
  "budget_json_escape s = concat (map (\<lambda>c.
     if c = CHR 0x5C then [CHR 0x5C, CHR 0x5C]
     else if c = CHR 0x22 then [CHR 0x5C, CHR 0x22]
     else if c = CHR 0x0A then [CHR 0x5C, CHR ''n'']
     else if c = CHR 0x0D then [CHR 0x5C, CHR ''r'']
     else if c = CHR 0x09 then [CHR 0x5C, CHR ''t'']
     else [c]) s)"

fun stage_to_string :: "latency_stage \<Rightarrow> string" where
  "stage_to_string St_Replay = ''replay''"
| "stage_to_string St_BookUpdate = ''book_update''"
| "stage_to_string St_Matching = ''matching''"
| "stage_to_string St_Risk = ''risk''"
| "stage_to_string St_Strategy = ''strategy''"
| "stage_to_string St_Inference = ''inference''"
| "stage_to_string St_Total = ''total''"

definition parse_latency_stage :: "string \<Rightarrow> latency_stage option" where
  "parse_latency_stage s =
     (if s = ''replay'' then Some St_Replay
      else if s = ''book_update'' then Some St_BookUpdate
      else if s = ''matching'' then Some St_Matching
      else if s = ''risk'' then Some St_Risk
      else if s = ''strategy'' then Some St_Strategy
      else if s = ''inference'' then Some St_Inference
      else if s = ''total'' then Some St_Total
      else None)"

record budget_config =
  bg_replay_ns :: u64
  bg_book_update_ns :: u64
  bg_matching_ns :: u64
  bg_risk_ns :: u64
  bg_strategy_ns :: u64
  bg_inference_ns :: u64
  bg_total_ns :: u64

definition default_budget_config :: budget_config where
  "default_budget_config = \<lparr>bg_replay_ns = 0, bg_book_update_ns = 0, bg_matching_ns = 0, bg_risk_ns = 0,
     bg_strategy_ns = 0, bg_inference_ns = 0, bg_total_ns = 0\<rparr>"

fun budget_for :: "latency_stage \<Rightarrow> budget_config \<Rightarrow> u64" where
  "budget_for St_Replay c = bg_replay_ns c"
| "budget_for St_BookUpdate c = bg_book_update_ns c"
| "budget_for St_Matching c = bg_matching_ns c"
| "budget_for St_Risk c = bg_risk_ns c"
| "budget_for St_Strategy c = bg_strategy_ns c"
| "budget_for St_Inference c = bg_inference_ns c"
| "budget_for St_Total c = bg_total_ns c"

fun set_budget :: "latency_stage \<Rightarrow> u64 \<Rightarrow> budget_config \<Rightarrow> budget_config" where
  "set_budget St_Replay budget_ns c = c\<lparr>bg_replay_ns := budget_ns\<rparr>"
| "set_budget St_BookUpdate budget_ns c = c\<lparr>bg_book_update_ns := budget_ns\<rparr>"
| "set_budget St_Matching budget_ns c = c\<lparr>bg_matching_ns := budget_ns\<rparr>"
| "set_budget St_Risk budget_ns c = c\<lparr>bg_risk_ns := budget_ns\<rparr>"
| "set_budget St_Strategy budget_ns c = c\<lparr>bg_strategy_ns := budget_ns\<rparr>"
| "set_budget St_Inference budget_ns c = c\<lparr>bg_inference_ns := budget_ns\<rparr>"
| "set_budget St_Total budget_ns c = c\<lparr>bg_total_ns := budget_ns\<rparr>"

section \<open>The accountant\<close>

record stage_state =
  ss_sample_count :: nat
  ss_worst_observed_ns :: u64
  ss_total_observed_ns :: u64

definition blank_stage :: stage_state where
  "blank_stage = \<lparr>ss_sample_count = 0, ss_worst_observed_ns = 0, ss_total_observed_ns = 0\<rparr>"

record stage_report =
  sb_stage :: latency_stage
  sb_has_budget :: bool
  sb_budget_ns :: u64
  sb_sample_count :: nat
  sb_worst_observed_ns :: u64
  sb_total_observed_ns :: u64
  sb_exceeded :: bool
  sb_worst_utilization_ppm :: u64

record accountant =
  lb_config :: budget_config
  lb_states :: "stage_state list"

definition lb_new :: "budget_config \<Rightarrow> accountant" where
  "lb_new config = \<lparr>lb_config = config, lb_states = replicate kStageCount blank_stage\<rparr>"

definition index_of :: "latency_stage \<Rightarrow> nat" where
  "index_of stage = unat (stage_wire stage) - 1"

definition stage_at :: "nat \<Rightarrow> latency_stage" where
  "stage_at index = kStageOrder ! index"

definition lb_record :: "latency_stage \<Rightarrow> u64 \<Rightarrow> accountant \<Rightarrow> accountant" where
  "lb_record stage duration_ns a =
     (let state = lb_states a ! index_of stage;
          state = state\<lparr>ss_sample_count := ss_sample_count state + 1\<rparr>;
          state = state\<lparr>ss_total_observed_ns := ss_total_observed_ns state + duration_ns\<rparr>;
          state = (if duration_ns > ss_worst_observed_ns state then state\<lparr>ss_worst_observed_ns := duration_ns\<rparr> else state)
      in a\<lparr>lb_states := (lb_states a)[index_of stage := state]\<rparr>)"

definition lb_reset :: "accountant \<Rightarrow> accountant" where
  "lb_reset a = a\<lparr>lb_states := replicate kStageCount blank_stage\<rparr>"

definition report_for :: "latency_stage \<Rightarrow> accountant \<Rightarrow> stage_report" where
  "report_for stage a =
     (let state = lb_states a ! index_of stage; budget_ns = budget_for stage (lb_config a)
      in \<lparr>sb_stage = stage, sb_has_budget = budget_ns > 0, sb_budget_ns = budget_ns,
          sb_sample_count = ss_sample_count state, sb_worst_observed_ns = ss_worst_observed_ns state,
          sb_total_observed_ns = ss_total_observed_ns state,
          sb_exceeded = (budget_ns > 0 \<and> ss_sample_count state > 0 \<and> ss_worst_observed_ns state > budget_ns),
          sb_worst_utilization_ppm = utilization_ppm (ss_worst_observed_ns state) budget_ns\<rparr>)"

definition lb_reports :: "accountant \<Rightarrow> stage_report list" where
  "lb_reports a = map (\<lambda>i. report_for (stage_at i) a) [0..<kStageCount]"

definition exceeded_count :: "accountant \<Rightarrow> nat" where
  "exceeded_count a = fold (\<lambda>i k. if sb_exceeded (report_for (stage_at i) a) then k + 1 else k) [0..<kStageCount] 0"

definition exceeded_stages :: "accountant \<Rightarrow> latency_stage list" where
  "exceeded_stages a = fold (\<lambda>i result. let stage = stage_at i in
     if sb_exceeded (report_for stage a) then result @ [stage] else result) [0..<kStageCount] []"

definition offender_step :: "accountant \<Rightarrow> nat \<Rightarrow> latency_stage option \<times> u64 \<Rightarrow> latency_stage option \<times> u64" where
  "offender_step a i = (\<lambda>(worst, worst_ppm).
     let stage = stage_at i; report = report_for stage a in
     if \<not> sb_has_budget report \<or> sb_sample_count report = 0 then (worst, worst_ppm)
     else if worst = None \<or> sb_worst_utilization_ppm report > worst_ppm
     then (Some stage, sb_worst_utilization_ppm report) else (worst, worst_ppm))"

definition worst_offender :: "accountant \<Rightarrow> latency_stage option" where
  "worst_offender a = fst (fold (offender_step a) [0..<kStageCount] (None, 0))"

definition config_checksum :: "accountant \<Rightarrow> u64" where
  "config_checksum a = fold (\<lambda>i seed. let stage = stage_at i in
     checksum_append_u64 (checksum_append_u8 seed (stage_wire stage)) (budget_for stage (lb_config a))) [0..<kStageCount] kFnvOffsetBasis"

text \<open>The report as JSON; \<open>nl\<close> is a line break and \<open>json_member\<close> a key with its value.\<close>

definition nl :: string where
  "nl = [CHR 0x0A]"

definition json_member :: "string \<Rightarrow> string \<Rightarrow> string \<Rightarrow> string" where
  "json_member indent k v = indent @ [CHR 0x22] @ k @ [CHR 0x22] @ '': '' @ v"

definition quoted_text :: "string \<Rightarrow> string" where
  "quoted_text s = [CHR 0x22] @ s @ [CHR 0x22]"

definition stage_json :: "bool \<Rightarrow> stage_report \<Rightarrow> string" where
  "stage_json is_last r = ''    '' @ [CHR 0x7B] @ nl @
     json_member ''      '' ''stage'' (quoted_text (budget_json_escape (stage_to_string (sb_stage r)))) @ '','' @ nl @
     json_member ''      '' ''has_budget'' (bool_text (sb_has_budget r)) @ '','' @ nl @
     json_member ''      '' ''budget_ns'' (decimal_word (sb_budget_ns r)) @ '','' @ nl @
     json_member ''      '' ''sample_count'' (decimal (sb_sample_count r)) @ '','' @ nl @
     json_member ''      '' ''worst_observed_ns'' (decimal_word (sb_worst_observed_ns r)) @ '','' @ nl @
     json_member ''      '' ''total_observed_ns'' (decimal_word (sb_total_observed_ns r)) @ '','' @ nl @
     json_member ''      '' ''worst_utilization_ppm'' (decimal_word (sb_worst_utilization_ppm r)) @ '','' @ nl @
     json_member ''      '' ''exceeded'' (bool_text (sb_exceeded r)) @ nl @
     ''    '' @ [CHR 0x7D] @ (if is_last then nl else '','' @ nl)"

definition latency_budget_json :: "accountant \<Rightarrow> string" where
  "latency_budget_json a = (let reports = lb_reports a in
     [CHR 0x7B] @ nl @
     json_member ''  '' ''schema_version'' ''1'' @ '','' @ nl @
     json_member ''  '' ''note'' (quoted_text (''Observed latencies are machine-dependent; budgets are '' @
       ''configurable and default to unset.'')) @ '','' @ nl @
     json_member ''  '' ''config_checksum'' (decimal_word (config_checksum a)) @ '','' @ nl @
     json_member ''  '' ''stages'' ''['' @ nl @
     concat (map (\<lambda>i. stage_json (i + 1 = length reports) (reports ! i)) [0..<length reports]) @
     ''  ]'' @ '','' @ nl @
     json_member ''  '' ''exceeded_count'' (decimal (exceeded_count a)) @ '','' @ nl @
     json_member ''  '' ''worst_offender'' (case worst_offender a of
         Some stage \<Rightarrow> quoted_text (budget_json_escape (stage_to_string stage))
       | None \<Rightarrow> ''null'') @ nl @
     [CHR 0x7D] @ nl)"

section \<open>Histogram\<close>

record latency_summary =
  ls_count :: nat
  ls_min_ns :: u64
  ls_max_ns :: u64
  ls_p50_ns :: u64
  ls_p90_ns :: u64
  ls_p99_ns :: u64
  ls_p999_ns :: u64

record histogram =
  hg_samples :: "u64 list"

definition hg_record :: "u64 \<Rightarrow> histogram \<Rightarrow> histogram" where
  "hg_record duration_ns h = h\<lparr>hg_samples := hg_samples h @ [duration_ns]\<rparr>"

definition hg_clear :: "histogram \<Rightarrow> histogram" where
  "hg_clear h = h\<lparr>hg_samples := []\<rparr>"

text \<open>\<open>rank q n\<close> is the ceiling of the double product of the quantile, in thousandths, and the number of samples.\<close>

definition percentile :: "(nat \<Rightarrow> nat \<Rightarrow> int) \<Rightarrow> u64 list \<Rightarrow> nat \<Rightarrow> u64" where
  "percentile rank s q =
     (let r = rank q (length s); index = nat (if r \<le> 1 then 0 else r - 1)
      in s ! min index (length s - 1))"

definition hg_summary :: "(nat \<Rightarrow> nat \<Rightarrow> int) \<Rightarrow> histogram \<Rightarrow> latency_summary" where
  "hg_summary rank h =
     (if hg_samples h = [] then \<lparr>ls_count = 0, ls_min_ns = 0, ls_max_ns = 0, ls_p50_ns = 0, ls_p90_ns = 0, ls_p99_ns = 0, ls_p999_ns = 0\<rparr>
      else let s = sort (hg_samples h) in
        \<lparr>ls_count = length (hg_samples h), ls_min_ns = hd s, ls_max_ns = last s,
          ls_p50_ns = percentile rank s 500, ls_p90_ns = percentile rank s 900,
          ls_p99_ns = percentile rank s 990, ls_p999_ns = percentile rank s 999\<rparr>)"

section \<open>Counters\<close>

type_synonym metrics = "(string \<times> int) list"

definition metrics_value :: "string \<Rightarrow> metrics \<Rightarrow> int" where
  "metrics_value name m = (case map_of m name of None \<Rightarrow> 0 | Some v \<Rightarrow> v)"

definition metrics_increment :: "string \<Rightarrow> int \<Rightarrow> metrics \<Rightarrow> metrics" where
  "metrics_increment name delta m = AList.update name (metrics_value name m + delta) m"

end
