(* ===== verification/Latency_Budget_Correct.thy ===== *)
theory Latency_Budget_Correct
  imports Latency_Budget
begin

text \<open>
  The accountant of \<^verbatim>\<open>telemetry/latency_budget.cpp\<close> against the durations handed to it since the last
  reset: which stages it reports as exceeded, and that its worst offender has the highest utilisation.
\<close>

section \<open>Stages\<close>

lemma stage_indices [simp]: "index_of stage < kStageCount" "stage_at (index_of stage) = stage"
  by (cases stage; simp add: index_of_def stage_at_def kStageCount_def kStageOrder_def)+

lemma index_of_eq [simp]: "index_of s = index_of t \<longleftrightarrow> s = t"
  using stage_indices(2) by metis

lemma index_stage: "i < kStageCount \<Longrightarrow> index_of (stage_at i) = i"
proof -
  assume "i < kStageCount"
  then have "i \<in> {0, 1, 2, 3, 4, 5, 6}" by (auto simp: kStageCount_def)
  then show ?thesis by (auto simp: index_of_def stage_at_def kStageOrder_def)
qed

lemma stage_order: "map stage_at [0..<kStageCount] = kStageOrder"
  by (simp add: stage_at_def kStageCount_def kStageOrder_def upt_rec)

lemma all_stages: "(\<forall>i < kStageCount. P (stage_at i)) \<longleftrightarrow> (\<forall>st. P st)"
  using stage_indices by metis

section \<open>What has been recorded\<close>

datatype budget_op = Lo_Record latency_stage u64 | Lo_Reset

fun budget_step :: "budget_op \<Rightarrow> accountant \<Rightarrow> accountant" where
  "budget_step (Lo_Record st d) a = lb_record st d a"
| "budget_step Lo_Reset a = lb_reset a"

fun budget_history :: "(latency_stage \<times> u64) list \<Rightarrow> budget_op list \<Rightarrow> (latency_stage \<times> u64) list" where
  "budget_history h [] = h"
| "budget_history h (Lo_Record st d # ops) = budget_history (h @ [(st, d)]) ops"
| "budget_history h (Lo_Reset # ops) = budget_history [] ops"

definition samples :: "latency_stage \<Rightarrow> (latency_stage \<times> u64) list \<Rightarrow> u64 list" where
  "samples st h = map snd (filter (\<lambda>e. fst e = st) h)"

definition worst_of :: "u64 list \<Rightarrow> u64" where
  "worst_of ds = Max (insert 0 (set ds))"

lemma samples_simps [simp]: "samples st [] = []" "samples st (h @ [(t, d)]) = (if t = st then samples st h @ [d] else samples st h)"
  by (simp_all add: samples_def)

lemma worst_of_simps [simp]: "worst_of [] = 0" "worst_of (ds @ [d]) = max d (worst_of ds)"
proof -
  have "insert 0 (set (ds @ [d])) = insert d (insert 0 (set ds))" by auto
  then show "worst_of (ds @ [d]) = max d (worst_of ds)" unfolding worst_of_def by (simp add: Max.insert)
qed (simp add: worst_of_def)

lemma worst_of_less: "b < worst_of ds \<longleftrightarrow> (\<exists>d \<in> set ds. b < d)"
  by (auto simp: worst_of_def Max_gr_iff)

definition lb_matches :: "budget_config \<Rightarrow> (latency_stage \<times> u64) list \<Rightarrow> accountant \<Rightarrow> bool" where
  "lb_matches c h a \<longleftrightarrow> lb_config a = c \<and> length (lb_states a) = kStageCount \<and>
     (\<forall>st. lb_states a ! index_of st = \<lparr>ss_sample_count = length (samples st h), ss_worst_observed_ns = worst_of (samples st h),
       ss_total_observed_ns = sum_list (samples st h)\<rparr>)"

lemma lb_matches_new: "lb_matches c [] (lb_new c)"
  by (simp add: lb_matches_def lb_new_def blank_stage_def)

lemma lb_matches_reset: "lb_matches c h a \<Longrightarrow> lb_matches c [] (lb_reset a)"
  by (simp add: lb_matches_def lb_reset_def blank_stage_def)

lemma lb_matches_record: "lb_matches c h a \<Longrightarrow> lb_matches c (h @ [(st, d)]) (lb_record st d a)"
  by (auto simp: lb_matches_def lb_record_def Let_def nth_list_update max_def not_less)

lemma budget_run_matches: "lb_matches c h a \<Longrightarrow> lb_matches c (budget_history h ops) (fold budget_step ops a)"
  by (induction h ops arbitrary: a rule: budget_history.induct) (simp_all add: lb_matches_record lb_matches_reset)

lemma report_of_match:
  assumes "lb_matches c h a"
  shows "sb_has_budget (report_for st a) \<longleftrightarrow> 0 < budget_for st c"
    and "sb_sample_count (report_for st a) = length (samples st h)"
    and "sb_exceeded (report_for st a) \<longleftrightarrow> 0 < budget_for st c \<and> (\<exists>d \<in> set (samples st h). budget_for st c < d)"
    and "sb_worst_utilization_ppm (report_for st a) = utilization_ppm (worst_of (samples st h)) (budget_for st c)"
  using assms by (auto simp: report_for_def lb_matches_def Let_def worst_of_less)

section \<open>The stages reported\<close>

lemma fold_collect: "fold (\<lambda>i result. if P (f i) then result @ [f i] else result) is acc = acc @ filter P (map f is)"
  by (induction "is" arbitrary: acc) simp_all

lemma exceeded_stages_filter: "exceeded_stages a = filter (\<lambda>st. sb_exceeded (report_for st a)) kStageOrder"
  using fold_collect [of "\<lambda>st. sb_exceeded (report_for st a)" stage_at "[0..<kStageCount]" "[]"]
  by (simp add: exceeded_stages_def Let_def stage_order)

lemma fold_count: "fold (\<lambda>i k. if P (f i) then k + 1 else k) is n = n + length (filter P (map f is))"
  by (induction "is" arbitrary: n) simp_all

lemma exceeded_count_length: "exceeded_count a = length (exceeded_stages a)"
  using fold_count [of "\<lambda>st. sb_exceeded (report_for st a)" stage_at "[0..<kStageCount]" 0]
  by (simp add: exceeded_count_def exceeded_stages_filter stage_order)

definition counted :: "accountant \<Rightarrow> latency_stage \<Rightarrow> bool" where
  "counted a st \<longleftrightarrow> sb_has_budget (report_for st a) \<and> 0 < sb_sample_count (report_for st a)"

text \<open>The candidate after the first \<open>n\<close> stages: the first of those with the highest utilisation.\<close>

definition leads :: "accountant \<Rightarrow> nat \<Rightarrow> latency_stage option \<times> u64 \<Rightarrow> bool" where
  "leads a n = (\<lambda>(worst, ppm). case worst of
       None \<Rightarrow> \<forall>i < n. \<not> counted a (stage_at i)
     | Some w \<Rightarrow> counted a w \<and> index_of w < n \<and> ppm = sb_worst_utilization_ppm (report_for w a) \<and>
         (\<forall>i < n. counted a (stage_at i) \<longrightarrow> sb_worst_utilization_ppm (report_for (stage_at i) a) \<le> ppm \<and>
           (i < index_of w \<longrightarrow> sb_worst_utilization_ppm (report_for (stage_at i) a) < ppm)))"

lemma leads_step:
  assumes "leads a n p" and "n < kStageCount"
  shows "leads a (Suc n) (offender_step a n p)"
proof -
  obtain worst ppm where p: "p = (worst, ppm)" by (cases p)
  have skip: "\<not> counted a (stage_at n) \<longleftrightarrow> \<not> sb_has_budget (report_for (stage_at n) a) \<or> sb_sample_count (report_for (stage_at n) a) = 0"
    by (auto simp: counted_def)
  show ?thesis
  proof (cases worst)
    case None
    then show ?thesis
      using assms(1) skip index_stage [OF assms(2)] unfolding p
      by (auto simp: leads_def offender_step_def Let_def less_Suc_eq)
  next
    case (Some w)
    then show ?thesis
      using assms(1) skip index_stage [OF assms(2)] unfolding p
      by (auto simp: leads_def offender_step_def Let_def less_Suc_eq not_less intro: order.trans order.strict_trans1)
  qed
qed

lemma leads_fold: "n \<le> kStageCount \<Longrightarrow> leads a n (fold (offender_step a) [0..<n] (None, 0))"
  by (induction n) (simp_all add: leads_step, simp add: leads_def)

lemma worst_offender_leads:
  "case worst_offender a of
     None \<Rightarrow> \<forall>st. \<not> counted a st
   | Some w \<Rightarrow> counted a w \<and> (\<forall>st. counted a st \<longrightarrow>
       sb_worst_utilization_ppm (report_for st a) \<le> sb_worst_utilization_ppm (report_for w a) \<and>
       (index_of st < index_of w \<longrightarrow> sb_worst_utilization_ppm (report_for st a) < sb_worst_utilization_ppm (report_for w a)))"
proof -
  obtain worst ppm where f: "fold (offender_step a) [0..<kStageCount] (None, 0) = (worst, ppm)" by (meson surj_pair)
  then have "leads a kStageCount (worst, ppm)" using leads_fold [of kStageCount a] by simp
  then have l: "case worst of None \<Rightarrow> \<forall>st. \<not> counted a st
     | Some w \<Rightarrow> counted a w \<and> ppm = sb_worst_utilization_ppm (report_for w a) \<and> (\<forall>st. counted a st \<longrightarrow>
         sb_worst_utilization_ppm (report_for st a) \<le> ppm \<and> (index_of st < index_of w \<longrightarrow> sb_worst_utilization_ppm (report_for st a) < ppm))"
    unfolding leads_def by (auto split: option.splits) (metis stage_indices)+
  then show ?thesis using f by (auto simp: worst_offender_def split: option.splits)
qed

section \<open>Utilisation\<close>

lemma utilization_exact:
  "0 < b \<Longrightarrow> unat x * 1000000 < 2 ^ 64 \<Longrightarrow> unat (utilization_ppm x b) = unat x * 1000000 div unat b"
  by (auto simp: utilization_ppm_def unat_div unat_word_ariths)

text \<open>Beyond the bound the product wraps: a duration of 2^58 ns against a budget of 1 ns counts as no utilisation at all.\<close>

lemma utilization_wraps: "utilization_ppm (2 ^ 58) 1 = 0"
  by (simp add: utilization_ppm_def)

lemma worst_of_bound: "\<forall>d \<in> set ds. unat d * 1000000 < 2 ^ 64 \<Longrightarrow> unat (worst_of ds) * 1000000 < 2 ^ 64"
proof -
  assume b: "\<forall>d \<in> set ds. unat d * 1000000 < 2 ^ 64"
  have "worst_of ds \<in> insert 0 (set ds)" unfolding worst_of_def by (rule Max_in) auto
  then show ?thesis using b by auto
qed

text \<open>After any run of records and resets, the stages reported as exceeded are, in stage order, those with a budget that
  some duration since the last reset is above, and their count is right; the worst offender is the first of the budgeted
  stages with samples whose worst utilisation is highest, and there is one if there is such a stage. Utilisation is the exact
  quotient of natural numbers, for durations whose product with a million fits into 64 bits, that is of up to five hours.\<close>

theorem budget_report_faithful:
  assumes "\<forall>(st, d) \<in> set (budget_history [] ops). unat d * 1000000 < 2 ^ 64"
  shows "let a = fold budget_step ops (lb_new c); h = budget_history [] ops;
      live = (\<lambda>st. 0 < budget_for st c \<and> samples st h \<noteq> []);
      utilisation = (\<lambda>st. unat (worst_of (samples st h)) * 1000000 div unat (budget_for st c)) in
    exceeded_stages a = filter (\<lambda>st. 0 < budget_for st c \<and> (\<exists>d \<in> set (samples st h). budget_for st c < d)) kStageOrder \<and>
    exceeded_count a = length (exceeded_stages a) \<and>
    (case worst_offender a of None \<Rightarrow> \<forall>st. \<not> live st
     | Some w \<Rightarrow> live w \<and> (\<forall>st. live st \<longrightarrow> utilisation st \<le> utilisation w \<and>
         (index_of st < index_of w \<longrightarrow> utilisation st < utilisation w)))"
proof -
  let ?a = "fold budget_step ops (lb_new c)" and ?h = "budget_history [] ops"
  have m: "lb_matches c ?h ?a" by (rule budget_run_matches [OF lb_matches_new])
  note reports = report_of_match [OF m]
  have live: "counted ?a st \<longleftrightarrow> 0 < budget_for st c \<and> samples st ?h \<noteq> []" for st by (simp add: counted_def reports)
  have bound: "\<forall>d \<in> set (samples st ?h). unat d * 1000000 < 2 ^ 64" for st using assms by (auto simp: samples_def)
  have exact: "unat (sb_worst_utilization_ppm (report_for st ?a)) = unat (worst_of (samples st ?h)) * 1000000 div unat (budget_for st c)"
    if "0 < budget_for st c" for st unfolding reports(4) by (rule utilization_exact [OF that worst_of_bound [OF bound]])
  show ?thesis
    using worst_offender_leads [of ?a]
    by (simp add: Let_def exceeded_count_length exceeded_stages_filter reports(3) live word_le_nat_alt word_less_nat_alt exact [unfolded word_less_nat_alt unsigned_0]
      cong: conj_cong split: option.splits)
qed

lemma budget_report_faithful_witness:
  "worst_offender (fold budget_step [Lo_Record St_Risk 30, Lo_Record St_Matching 50, Lo_Record St_Risk 90]
     (lb_new (default_budget_config\<lparr>bg_matching_ns := 100, bg_risk_ns := 60\<rparr>))) = Some St_Risk"
proof -
  let ?c = "default_budget_config\<lparr>bg_matching_ns := 100, bg_risk_ns := 60\<rparr>"
  let ?ops = "[Lo_Record St_Risk 30, Lo_Record St_Matching 50, Lo_Record St_Risk 90]"
  have none: "budget_for st ?c = 0" if "st \<noteq> St_Matching" "st \<noteq> St_Risk" for st
    using that by (cases st) (simp_all add: default_budget_config_def)
  have "\<forall>(st, d) \<in> set (budget_history [] ?ops). unat d * 1000000 < 2 ^ 64" by simp
  note f = budget_report_faithful [OF this, of ?c, unfolded Let_def]
  show ?thesis
  proof (cases "worst_offender (fold budget_step ?ops (lb_new ?c))")
    case None
    then show ?thesis using f [THEN conjunct2, THEN conjunct2] by (auto simp: samples_def dest: spec [of _ St_Risk])
  next
    case (Some w)
    then show ?thesis
      using f [THEN conjunct2, THEN conjunct2] none [of w]
      by (cases w) (auto simp: samples_def worst_of_def default_budget_config_def dest!: spec [of _ St_Risk])
  qed
qed

end
