(* ===== verification/Strategies.thy ===== *)
theory Strategies
  imports Order_Book Execution_Report
begin

text \<open>
  \<^verbatim>\<open>strategy/\<close>: the decisions of the market maker and of the imbalance strategy on a view of the book. Doubles
  are a type with the arithmetic and the order the code uses; the conversion of an integer is the parameter \<open>to_d\<close>.
\<close>

record strategy_decision =
  sd_side :: side
  sd_order_type :: order_type
  sd_price_ticks :: price_ticks
  sd_quantity :: quantity

definition blank_decision :: strategy_decision where
  "blank_decision = \<lparr>sd_side = NoSide, sd_order_type = Ot_Limit, sd_price_ticks = 0, sd_quantity = 0\<rparr>"

text \<open>The array of two decisions and how many of them are used.\<close>

record decision_batch =
  db_decisions :: "strategy_decision list"
  db_size :: nat

definition blank_batch :: decision_batch where
  "blank_batch = \<lparr>db_decisions = [blank_decision, blank_decision], db_size = 0\<rparr>"

definition db_push_back :: "strategy_decision \<Rightarrow> decision_batch \<Rightarrow> decision_batch" where
  "db_push_back d b = (if db_size b < length (db_decisions b)
     then b\<lparr>db_decisions := (db_decisions b)[db_size b := d], db_size := db_size b + 1\<rparr> else b)"

definition db_elements :: "decision_batch \<Rightarrow> strategy_decision list" where
  "db_elements b = take (db_size b) (db_decisions b)"

section \<open>Market maker\<close>

definition market_maker_decide :: "quantity \<Rightarrow> l2_view \<Rightarrow> strategy_decision list" where
  "market_maker_decide quote_quantity view =
     (if l2_bids view = [] \<or> l2_asks view = [] \<or> quote_quantity \<le> 0 then []
      else let best_bid = l2_price_ticks (hd (l2_bids view)); best_ask = l2_price_ticks (hd (l2_asks view)) in
        if best_ask \<le> best_bid + 1 then []
        else [\<lparr>sd_side = Buy, sd_order_type = Ot_Limit, sd_price_ticks = best_bid + 1, sd_quantity = quote_quantity\<rparr>,
              \<lparr>sd_side = Sell, sd_order_type = Ot_Limit, sd_price_ticks = best_ask - 1, sd_quantity = quote_quantity\<rparr>])"

section \<open>Imbalance\<close>

record 'd imbalance_strategy =
  im_threshold :: 'd
  im_order_quantity :: quantity

definition imbalance_decide_fixed ::
  "(int \<Rightarrow> 'd::{plus,minus,inverse,zero,one,ord}) \<Rightarrow> 'd imbalance_strategy \<Rightarrow> l2_view \<Rightarrow> decision_batch" where
  "imbalance_decide_fixed to_d s view =
     (let output = blank_batch in
      if l2_bids view = [] \<or> l2_asks view = [] \<or> im_order_quantity s \<le> 0 then output
      else let bid_quantity = to_d (l2_quantity (hd (l2_bids view)));
               ask_quantity = to_d (l2_quantity (hd (l2_asks view)));
               total = bid_quantity + ask_quantity in
        if total \<le> 0 then output
        else let bid_imbalance = bid_quantity / total in
          if bid_imbalance \<ge> im_threshold s
          then db_push_back \<lparr>sd_side = Buy, sd_order_type = Ot_Limit,
            sd_price_ticks = l2_price_ticks (hd (l2_bids view)), sd_quantity = im_order_quantity s\<rparr> output
          else if 1 - bid_imbalance \<ge> im_threshold s
          then db_push_back \<lparr>sd_side = Sell, sd_order_type = Ot_Limit,
            sd_price_ticks = l2_price_ticks (hd (l2_asks view)), sd_quantity = im_order_quantity s\<rparr> output
          else output)"

definition imbalance_decide ::
  "(int \<Rightarrow> 'd::{plus,minus,inverse,zero,one,ord}) \<Rightarrow> 'd imbalance_strategy \<Rightarrow> l2_view \<Rightarrow> strategy_decision list" where
  "imbalance_decide to_d s view = db_elements (imbalance_decide_fixed to_d s view)"

end
