(* ===== verification/Strategies_Correct.thy ===== *)
theory Strategies_Correct
  imports Strategies Matching_Properties
begin

text \<open>
  The strategies on the views of the engine's own book: their orders never take liquidity when they arrive
  there before anything else changes.
\<close>

section \<open>The best prices in a view\<close>

lemma fill_side_extends: "\<exists>ys. fill_side depth acc ls = acc @ ys"
proof (induction depth acc ls rule: fill_side.induct)
  case (2 depth acc p lv ls)
  then show ?case by (cases "length acc \<ge> depth") force+
qed simp

lemma view_front:
  assumes "0 < depth"
  shows "fill_side depth [] ((p, lv) # ls) \<noteq> []" and "l2_price_ticks (hd (fill_side depth [] ((p, lv) # ls))) = p"
  using fill_side_extends [of depth "[\<lparr>l2_price_ticks = p, l2_quantity = pl_total_quantity lv\<rparr>]" ls] assms by auto

lemma view_bid:
  "l2_bids (ob_l2_view depth b) \<noteq> [] \<Longrightarrow> ob_best_bid b = Some (l2_price_ticks (hd (l2_bids (ob_l2_view depth b))))"
  using view_front [of depth] by (cases "ob_bids b") (auto simp: ob_l2_view_def ob_best_bid_def split: if_splits)

lemma view_ask:
  "l2_asks (ob_l2_view depth b) \<noteq> [] \<Longrightarrow> ob_best_ask b = Some (l2_price_ticks (hd (l2_asks (ob_l2_view depth b))))"
  using view_front [of depth] by (cases "ob_asks b") (auto simp: ob_l2_view_def ob_best_ask_def split: if_splits)

section \<open>Orders that do not cross\<close>

text \<open>A limit order strictly on its own side of the best opposite price.\<close>

definition passive_decision :: "strategy_decision \<Rightarrow> order_book \<Rightarrow> bool" where
  "passive_decision d b \<longleftrightarrow> sd_order_type d = Ot_Limit \<and> 0 < sd_price_ticks d \<and> 0 < sd_quantity d \<and>
     (sd_side d = Buy \<and> (\<exists>p. ob_best_ask b = Some p \<and> sd_price_ticks d < p) \<or>
      sd_side d = Sell \<and> (\<exists>p. ob_best_bid b = Some p \<and> p < sd_price_ticks d))"

lemma market_maker_passive:
  assumes "me_inv e" and "d \<in> set (market_maker_decide q (ob_l2_view depth (me_book e)))"
  shows "passive_decision d (me_book e) \<and> sd_quantity d = q"
proof -
  let ?v = "ob_l2_view depth (me_book e)"
  have sides: "l2_bids ?v \<noteq> []" "l2_asks ?v \<noteq> []" "0 < q" using assms(2) by (auto simp: market_maker_decide_def split: if_splits)
  note best = view_bid [OF sides(1)] view_ask [OF sides(2)]
  show ?thesis using best_prices_apart [OF assms(1) best] best assms(2) sides
    by (auto simp: market_maker_decide_def passive_decision_def Let_def split: if_splits)
qed

lemma imbalance_cases:
  assumes "d \<in> set (imbalance_decide to_d s v)"
  shows "l2_bids v \<noteq> []" and "l2_asks v \<noteq> []" and "0 < im_order_quantity s"
    and "d = \<lparr>sd_side = Buy, sd_order_type = Ot_Limit, sd_price_ticks = l2_price_ticks (hd (l2_bids v)), sd_quantity = im_order_quantity s\<rparr> \<or>
      d = \<lparr>sd_side = Sell, sd_order_type = Ot_Limit, sd_price_ticks = l2_price_ticks (hd (l2_asks v)), sd_quantity = im_order_quantity s\<rparr>"
  using assms
  by (auto simp: imbalance_decide_def imbalance_decide_fixed_def blank_batch_def db_elements_def db_push_back_def Let_def split: if_splits)

lemma imbalance_passive:
  assumes "me_inv e" and "d \<in> set (imbalance_decide to_d s (ob_l2_view depth (me_book e)))"
  shows "passive_decision d (me_book e) \<and> sd_quantity d = im_order_quantity s"
proof -
  note cases = imbalance_cases [OF assms(2)]
  note best = view_bid [OF cases(1)] view_ask [OF cases(2)]
  show ?thesis using best_prices_apart [OF assms(1) best] best cases(3,4) by (auto simp: passive_decision_def)
qed

lemma passive_not_crosses:
  assumes "passive_decision d (me_book e)"
  shows "\<not> crosses (sd_side d) (sd_order_type d) (sd_price_ticks d) e" and "is_valid_side (sd_side d)"
  using assms by (auto simp: passive_decision_def crosses_def)

lemma no_own_match:
  assumes "me_inv e" and "is_valid_side sd" and "\<not> crosses sd ot limit e"
  shows "\<not> would_self_trade sd ot limit cl excluded e"
proof
  assume "would_self_trade sd ot limit cl excluded e"
  then obtain i st where st: "(i, st) \<in> set (me_states e)" "os_side st = opposite sd" "ob_find_order i (me_book e) \<noteq> None"
    "ot = Ot_Market \<or> sd = Buy \<and> limit \<ge> os_limit_price_ticks st \<or> sd = Sell \<and> limit \<le> os_limit_price_ticks st"
    by (auto simp: would_self_trade_def list_ex_iff split: if_splits)
  have ok: "engine_ok e" using assms(1) by (simp add: me_inv_def)
  have b: "ladder_ok (me_ladder e)" "ob_inv (me_book e)" using engine_okD(1) [OF ok] by (simp_all add: ob_inv_def)
  obtain x where x: "ld_find i (me_ladder e) = Some x" using st(3) ob_find_refines [OF b(2)] by auto
  then have mem: "x \<in> set (me_orders e)" "o_order_id x = i" using ld_find_Some [OF b(1)] by blast+
  obtain st' where "map_of (me_states e) i = Some st'" "state_matches st' x" using engine_okD(7) [OF ok mem(1)] mem(2) by blast
  moreover from this(1) have "st' = st" using st(1) engine_okD(5) [OF ok] by simp
  ultimately have m: "o_side x = opposite sd" "executable sd ot limit (o_price_ticks x)"
    using st(2,4) by (auto simp: state_matches_def executable_def)
  then show False using not_crosses [OF b(2) assms(2,3) mem(1)] by blast
qed

text \<open>What a request for a decision looks like: its fields, a fresh client order id, good till cancelled.\<close>

definition requests_decision :: "new_order_request \<Rightarrow> strategy_decision \<Rightarrow> matching_engine \<Rightarrow> bool" where
  "requests_decision r d e \<longleftrightarrow> nr_symbol_id r = me_symbol_id e \<and> nr_side r = sd_side d \<and> nr_order_type r = sd_order_type d \<and>
     nr_price_ticks r = sd_price_ticks d \<and> nr_quantity r = sd_quantity d \<and> nr_time_in_force r = Tif_Gtc \<and>
     nr_client_order_id r \<noteq> kInvalidClientOrderId \<and> nr_client_order_id r \<notin> set (me_seen_client_order_ids e)"

lemma passive_rests:
  assumes "me_inv e" and "passive_decision d (me_book e)" and "requests_decision r d e" and "me_next_exchange_order_id e + 1 \<noteq> 0"
  shows "(\<exists>x \<in> set (me_orders (snd (me_submit_order r e))). o_order_id x = me_next_exchange_order_id e \<and> o_side x = sd_side d \<and>
      o_price_ticks x = sd_price_ticks d \<and> o_quantity x = sd_quantity d) \<and>
    filled_in (\<lambda>rep. True) (fst (me_submit_order r e)) = 0"
proof -
  note cross = passive_not_crosses [OF assms(2)]
  have passes: "submit_passes r e"
    using assms(2,3) cross no_own_match [OF assms(1) cross(2,1)]
    by (auto simp: submit_passes_def requests_decision_def passive_decision_def)
  have "ob_inv (me_book e)" using assms(1) engine_okD(1) by (simp add: me_inv_def)
  from available_none [OF this cross(2,1)]
  have none: "available (nr_side r) (nr_order_type r) (nr_price_ticks r) (me_orders e) = 0"
    using assms(3) by (simp add: requests_decision_def)
  have split: "filled_in (\<lambda>rep. True) rs = filled_in P rs + filled_in (\<lambda>rep. \<not> P rep) rs" for rs P
    by (induction rs) (simp_all add: filled_in_def)
  show ?thesis
    using submit_reports(1-3) [OF assms(1) passes assms(4)] none assms(2,3)
      split [of "fst (me_submit_order r e)" "\<lambda>rep. er_exchange_order_id rep = me_next_exchange_order_id e"]
    by (simp add: requests_decision_def passive_decision_def)
qed

section \<open>Properties\<close>

text \<open>C39: every order the market maker or the imbalance strategy decides on from a view of the engine's own book is
  accepted when it is sent with a fresh client order id, trades nothing, and rests with its whole quantity at the
  price decided; the two quotes of the market maker lie strictly inside the spread.\<close>

theorem strategy_orders_rest:
  assumes "me_inv e" and "me_next_exchange_order_id e + 1 \<noteq> 0"
    and "d \<in> set (market_maker_decide q v) \<or> d \<in> set (imbalance_decide to_d s v)" and "v = ob_l2_view depth (me_book e)"
    and "requests_decision r d e"
  shows "let (reports, e') = me_submit_order r e in
    filled_in (\<lambda>rep. True) reports = 0 \<and>
    (\<exists>x \<in> set (me_orders e'). o_order_id x = me_next_exchange_order_id e \<and> o_side x = sd_side d \<and>
      o_price_ticks x = sd_price_ticks d \<and> o_quantity x = sd_quantity d) \<and>
    (d \<in> set (market_maker_decide q v) \<longrightarrow> sd_quantity d = q \<and> (\<exists>bid ask. ob_best_bid (me_book e) = Some bid \<and>
      ob_best_ask (me_book e) = Some ask \<and> bid < sd_price_ticks d \<and> sd_price_ticks d < ask))"
proof -
  have rests: "passive_decision d (me_book e)"
    using market_maker_passive [OF assms(1)] imbalance_passive [OF assms(1)] assms(3,4) by blast
  have inside: "sd_quantity d = q \<and> (\<exists>bid ask. ob_best_bid (me_book e) = Some bid \<and> ob_best_ask (me_book e) = Some ask \<and>
      bid < sd_price_ticks d \<and> sd_price_ticks d < ask)" if "d \<in> set (market_maker_decide q v)"
    using that view_bid [of depth "me_book e"] view_ask [of depth "me_book e"] assms(4)
    by (auto simp: market_maker_decide_def Let_def split: if_splits)
  show ?thesis
    using passive_rests [OF assms(1) rests assms(5,2)] inside by (auto simp: case_prod_beta Let_def)
qed

text \<open>With a spread of two ticks both quotes of the market maker are at the same price: the second one sent crosses the
  first, which has become the best price by then.\<close>

lemma narrow_quotes_meet:
  assumes "l2_bids v = b # bs" and "l2_asks v = a # as" and "l2_price_ticks a = l2_price_ticks b + 2" and "0 < q"
  shows "map sd_price_ticks (market_maker_decide q v) = [l2_price_ticks b + 1, l2_price_ticks b + 1]"
  using assms by (simp add: market_maker_decide_def Let_def)

text \<open>An engine with a buy order at 100 and a sell order at 105 for the witness.\<close>

definition quoted_engine :: matching_engine where
  "quoted_engine = snd (me_submit_order (demo_order 2 Sell 105 4 Tif_Gtc)
     (snd (me_submit_order (demo_order 1 Buy 100 5 Tif_Gtc) (me_new 1))))"

lemma strategy_orders_rest_witness:
  "filled_in (\<lambda>rep. True) (fst (me_submit_order (demo_order 3 Buy 101 10 Tif_Gtc) quoted_engine)) = 0"
proof -
  let ?d = "\<lparr>sd_side = Buy, sd_order_type = Ot_Limit, sd_price_ticks = 101, sd_quantity = 10\<rparr>"
  have first: "me_inv (snd (me_submit_order (demo_order 1 Buy 100 5 Tif_Gtc) (me_new 1)))"
    using submit_handled [OF me_inv_new [of 1]] by (simp add: handled_def me_new_def)
  have "me_next_exchange_order_id (snd (me_submit_order (demo_order 1 Buy 100 5 Tif_Gtc) (me_new 1))) + 1 \<noteq> 0" by code_simp
  then have inv: "me_inv quoted_engine" using submit_handled [OF first] by (simp add: handled_def quoted_engine_def)
  have nxt: "me_next_exchange_order_id quoted_engine + 1 \<noteq> 0" by code_simp
  have d: "?d \<in> set (market_maker_decide 10 (ob_l2_view 1 (me_book quoted_engine)))" by code_simp
  have "requests_decision (demo_order 3 Buy 101 10 Tif_Gtc) ?d quoted_engine" by code_simp
  from strategy_orders_rest [OF inv nxt disjI1 [OF d] refl this] show ?thesis by (simp add: case_prod_beta Let_def)
qed

end
