(* ===== verification/Fuzz_Targets.thy ===== *)
theory Fuzz_Targets
  imports Matching_Engine Replay Audit_Manifest
begin

text \<open>
  The five fuzz targets under \<^verbatim>\<open>src/cpp/fuzz\<close> and the helpers of \<^verbatim>\<open>fuzz_support.hpp\<close>. A target turns
  bytes into requests, events or text, runs a component and aborts when an expectation does not hold: it is a
  function to \<open>int option\<close>, where \<open>None\<close> is the call of \<^verbatim>\<open>std::abort\<close>. The temporary file is the environment's:
  \<open>temp\<close> is its path, or \<open>None\<close> when it cannot be written; what is written is what is read back.
\<close>

section \<open>Support\<close>

definition kMaxParserInputSize :: nat where
  "kMaxParserInputSize = 64 * 1024"

definition kMaxTextLines :: nat where
  "kMaxTextLines = 512"

definition kMaxTextLineSize :: nat where
  "kMaxTextLineSize = 4096"

definition kMaxGeneratedEvents :: nat where
  "kMaxGeneratedEvents = 128"

definition kMaxMatchingInputSize :: nat where
  "kMaxMatchingInputSize = 4096"

definition kMaxMatchingOperations :: nat where
  "kMaxMatchingOperations = 128"

text \<open>\<^verbatim>\<open>require\<close>: what follows runs when the condition holds.\<close>

definition fuzz_require :: "bool \<Rightarrow> 'a option \<Rightarrow> 'a option" where
  "fuzz_require c k = (if c then k else None)"

fun bounded_lines :: "nat \<Rightarrow> nat \<Rightarrow> u8 list \<Rightarrow> bool" where
  "bounded_lines line_count line_size [] = True"
| "bounded_lines line_count line_size (b # bs) =
     (let (line_count, line_size) = (if b = 10 then (line_count + 1, 0) else (line_count, line_size + 1))
      in if line_count > kMaxTextLines \<or> line_size > kMaxTextLineSize then False
         else bounded_lines line_count line_size bs)"

definition bounded_text :: "u8 list \<Rightarrow> bool" where
  "bounded_text input = (if length input > kMaxParserInputSize then False else bounded_lines 1 0 input)"

definition require_same_parse_result ::
  "event_log_read_result \<Rightarrow> event_log_read_result \<Rightarrow> 'a option \<Rightarrow> 'a option" where
  "require_same_parse_result first second k =
     fuzz_require (lr_detected_format first = lr_detected_format second)
     (fuzz_require (lr_error first = lr_error second)
     (fuzz_require (lr_event_checksum first = lr_event_checksum second)
     (fuzz_require (length (lr_events first) = length (lr_events second))
     (fuzz_require (checksum_events (lr_events first) = checksum_events (lr_events second)) k))))"

text \<open>\<^verbatim>\<open>ByteReader\<close>: the input read round and round; an empty one yields zeros.\<close>

record byte_reader =
  br_bytes :: "u8 list"
  br_position :: nat

definition br_new :: "u8 list \<Rightarrow> byte_reader" where
  "br_new bytes = \<lparr>br_bytes = bytes, br_position = 0\<rparr>"

definition br_next :: "byte_reader \<Rightarrow> u8 \<times> byte_reader" where
  "br_next rd =
     (if br_bytes rd = [] then (0, rd)
      else (br_bytes rd ! (br_position rd mod length (br_bytes rd)), rd\<lparr>br_position := br_position rd + 1\<rparr>))"

definition side_from_byte :: "u8 \<Rightarrow> side" where
  "side_from_byte b = (if unat b mod 3 = 0 then Buy else if unat b mod 3 = 1 then Sell else NoSide)"

text \<open>The number of operations or events an input of a given size is turned into.\<close>

definition operation_count :: "nat \<Rightarrow> u8 list \<Rightarrow> nat" where
  "operation_count bound input = min bound (max 1 (length input div 8))"

definition require_book_ok :: "order_book \<Rightarrow> 'a option \<Rightarrow> 'a option" where
  "require_book_ok b k =
     fuzz_require (bir_ok (ob_check_invariants b))
     (fuzz_require (case (ob_best_bid b, ob_best_ask b) of (Some bid, Some ask) \<Rightarrow> bid < ask | _ \<Rightarrow> True) k)"

section \<open>Event logs\<close>

definition csv_event_log_target :: "string option \<Rightarrow> u8 list \<Rightarrow> int option" where
  "csv_event_log_target temp input =
     (if \<not> bounded_text input then Some 0 else
      case temp of None \<Rightarrow> Some 0 | Some path \<Rightarrow>
        let first = read_event_log path (Some input) Fmt_Csv; second = read_event_log path (Some input) Fmt_Csv in
        require_same_parse_result first second
        (fuzz_require (length (lr_events first) \<le> kMaxTextLines)
        (if lr_error first = []
         then fuzz_require (lr_event_checksum first = checksum_events (lr_events first)) (Some 0) else Some 0)))"

definition binary_event_log_target :: "string option \<Rightarrow> u8 list \<Rightarrow> int option" where
  "binary_event_log_target temp input =
     (if length input > kMaxParserInputSize then Some 0 else
      case temp of None \<Rightarrow> Some 0 | Some path \<Rightarrow>
        let first = read_event_log path (Some input) Fmt_Binary; second = read_event_log path (Some input) Fmt_Binary in
        require_same_parse_result first second
        (fuzz_require (length (lr_events first) \<le> kMaxParserInputSize div unat kBinaryEventRecordSize + 1)
        (if lr_error first = []
         then fuzz_require (lr_event_checksum first = checksum_events (lr_events first)) (Some 0) else Some 0)))"

section \<open>Audit manifests\<close>

text \<open>The error string a caller passes is empty unless the parse fails.\<close>

definition parse_error :: "string + 'a \<Rightarrow> string" where
  "parse_error r = (case r of Inl err \<Rightarrow> err | Inr _ \<Rightarrow> [])"

definition audit_manifest_target :: "u8 list \<Rightarrow> int option" where
  "audit_manifest_target input =
     (if \<not> bounded_text input then Some 0 else
      let text = bytes_text input; first = parse_audit_manifest text; second = parse_audit_manifest text in
      fuzz_require (isl first = isl second)
      (fuzz_require (parse_error first = parse_error second)
      (case first of Inl _ \<Rightarrow> Some 0 | Inr m \<Rightarrow>
        let serialized = serialize_audit_manifest m; round_trip = parse_audit_manifest serialized in
        case round_trip of Inl _ \<Rightarrow> None | Inr m' \<Rightarrow>
          fuzz_require (parse_error round_trip = [])
          (fuzz_require (serialize_audit_manifest m' = serialized)
          (fuzz_require (canonical_audit_manifest_payload m' = canonical_audit_manifest_payload m) (Some 0))))))"

section \<open>Replay\<close>

definition event_type_from_byte :: "u8 \<Rightarrow> market_event_type" where
  "event_type_from_byte b =
     (let k = unat b mod 7 in
      if k = 0 then Ev_Add else if k = 1 then Ev_Cancel else if k = 2 then Ev_Replace else if k = 3 then Ev_Execute
      else if k = 4 then Ev_Trade else if k = 5 then Ev_Snapshot else Ev_Heartbeat)"

text \<open>One turn of the loop of \<^verbatim>\<open>map_events\<close>, with the running timestamp and sequence number.\<close>

definition mapped_event ::
  "nat \<Rightarrow> timestamp_ns \<times> sequence_number \<times> byte_reader \<Rightarrow> market_data_event \<times> timestamp_ns \<times> sequence_number \<times> byte_reader" where
  "mapped_event index = (\<lambda>(timestamp, sequence, rd).
     let (ty, rd) = br_next rd; (sd, rd) = br_next rd; (price, rd) = br_next rd; (quantity, rd) = br_next rd;
         (order, rd) = br_next rd; (symbol, rd) = br_next rd; (sequence_delta, rd) = br_next rd;
         (timestamp_delta, rd) = br_next rd;
         sequence = sequence + of_nat (unat sequence_delta mod 4);
         timestamp = timestamp + (int (unat timestamp_delta mod 9) - 3)
     in (\<lparr>ev_timestamp_ns = timestamp, ev_sequence_number = sequence, ev_symbol_id = of_nat (unat symbol mod 3),
          ev_event_type = event_type_from_byte ty, ev_side = side_from_byte sd,
          ev_price_ticks = int (unat price mod 21) - 5, ev_quantity = int (unat quantity mod 21) - 5,
          ev_order_id = of_nat (unat order mod 24), ev_trade_id = of_nat (index + 1), ev_flags = ucast (ty AND 3)\<rparr>,
         timestamp, sequence, rd))"

fun map_events_loop :: "nat \<Rightarrow> nat \<Rightarrow> timestamp_ns \<times> sequence_number \<times> byte_reader \<Rightarrow> market_data_event list" where
  "map_events_loop 0 index s = []"
| "map_events_loop (Suc n) index s = (let (e, s) = mapped_event index s in e # map_events_loop n (index + 1) s)"

definition map_events :: "u8 list \<Rightarrow> market_data_event list" where
  "map_events input =
     (if input = [] then [] else map_events_loop (operation_count kMaxGeneratedEvents input) 0 (1, 1, br_new input))"

definition same_replay_result :: "replay_result \<Rightarrow> replay_result \<Rightarrow> bool" where
  "same_replay_result first second \<longleftrightarrow>
     rp_events_processed first = rp_events_processed second \<and> rp_sequence_valid first = rp_sequence_valid second \<and>
     rp_event_log_checksum first = rp_event_log_checksum second \<and>
     rp_final_book_checksum first = rp_final_book_checksum second \<and>
     rp_execution_report_checksum first = rp_execution_report_checksum second \<and>
     rp_diagnostics_checksum first = rp_diagnostics_checksum second \<and>
     rp_diagnostic_error_count first = rp_diagnostic_error_count second \<and>
     rp_diagnostic_warning_count first = rp_diagnostic_warning_count second \<and>
     rp_error first = rp_error second \<and> map rd_reason (rp_diagnostics first) = map rd_reason (rp_diagnostics second)"

text \<open>The events of a run: the log the input is, if it is one, else what its bytes are mapped to.\<close>

definition replay_input :: "string option \<Rightarrow> u8 list \<Rightarrow> market_data_event list" where
  "replay_input temp input =
     (let events = (case temp of None \<Rightarrow> [] | Some path \<Rightarrow>
            let parsed = read_event_log path (Some input) Fmt_Auto
            in if lr_error parsed = [] then take kMaxGeneratedEvents (lr_events parsed) else [])
      in if events = [] then map_events input else events)"

definition replay_engine_target :: "string option \<Rightarrow> u8 list \<Rightarrow> int option" where
  "replay_engine_target temp input =
     (if length input > kMaxParserInputSize then Some 0 else
      let events = replay_input temp input;
          (first_book, first) = replay_events default_config events (ob_new 1);
          (second_book, second) = replay_events default_config events (ob_new 1)
      in fuzz_require (same_replay_result first second)
         (fuzz_require (rp_events_processed first \<le> length events)
         (fuzz_require (rp_diagnostic_error_count first + rp_diagnostic_warning_count first \<le> length (rp_diagnostics first))
         (require_book_ok first_book (require_book_ok second_book (Some 0))))))"

section \<open>Matching\<close>

record run_result =
  rr_book_checksum :: u64
  rr_reports_checksum :: u64

definition quantity_from_byte :: "u8 \<Rightarrow> quantity" where
  "quantity_from_byte b =
     (if unat b mod 17 = 0 then 0 else if unat b mod 19 = 0 then - int (unat b mod 5 + 1)
      else int (unat b mod 20 + 1))"

definition price_from_byte :: "u8 \<Rightarrow> price_ticks" where
  "price_from_byte b = (if unat b mod 23 = 0 then 0 else 996 + int (unat b mod 9))"

text \<open>
  The walk of \<^verbatim>\<open>require_reports_ok\<close> over the reports: the owner table, which learns the orders
  accepted, and the trades met so far.
\<close>

type_synonym owner_table = "(order_id \<times> client_id) list"

fun scan_reports ::
  "client_id \<Rightarrow> execution_report list \<Rightarrow> owner_table \<times> execution_report list \<Rightarrow> (owner_table \<times> execution_report list) option" where
  "scan_reports incoming_owner [] s = Some s"
| "scan_reports incoming_owner (r # rs) (owners, trades) =
     fuzz_require (er_filled_quantity r \<ge> 0)
     (fuzz_require (er_remaining_quantity r \<ge> 0)
     (fuzz_require (er_last_fill_quantity r \<ge> 0)
     (fuzz_require (er_last_fill_price_ticks r \<ge> 0)
     (fuzz_require (er_average_price_ticks r \<ge> 0)
     (fuzz_require (er_resting_price_ticks r \<ge> 0)
     (let owners = (if er_exec_type r = Et_New \<and> er_exchange_order_id r \<noteq> kInvalidOrderId
            then emplace (er_exchange_order_id r) incoming_owner owners else owners)
      in if er_exec_type r = Et_Trade
         then fuzz_require (er_last_fill_quantity r > 0) (fuzz_require (er_last_fill_price_ticks r > 0)
           (scan_reports incoming_owner rs (owners, trades @ [r])))
         else scan_reports incoming_owner rs (owners, trades)))))))"

text \<open>The walk over the trades, two at a time: the resting order's report, then the incoming one's.\<close>

fun require_trade_pairs :: "owner_table \<Rightarrow> execution_report list \<Rightarrow> 'a option \<Rightarrow> 'a option" where
  "require_trade_pairs owners (resting # incoming # trades) k =
     fuzz_require (er_last_fill_quantity resting = er_last_fill_quantity incoming)
     (fuzz_require (er_last_fill_price_ticks resting = er_last_fill_price_ticks incoming)
     (case map_of owners (er_exchange_order_id resting) of None \<Rightarrow> None | Some resting_owner \<Rightarrow>
      case map_of owners (er_exchange_order_id incoming) of None \<Rightarrow> None | Some incoming_owner \<Rightarrow>
        fuzz_require (resting_owner = 0 \<or> incoming_owner = 0 \<or> resting_owner \<noteq> incoming_owner)
        (require_trade_pairs owners trades k)))"
| "require_trade_pairs owners _ k = k"

definition require_reports_ok :: "execution_report list \<Rightarrow> owner_table \<Rightarrow> client_id \<Rightarrow> owner_table option" where
  "require_reports_ok reports owners incoming_owner =
     (case scan_reports incoming_owner reports (owners, []) of None \<Rightarrow> None | Some (owners, trades) \<Rightarrow>
        fuzz_require (length trades mod 2 = 0) (require_trade_pairs owners trades (Some owners)))"

text \<open>The new order of an operation; the letters are the commands \<^verbatim>\<open>M\<close>, \<^verbatim>\<open>I\<close>, \<^verbatim>\<open>F\<close> and \<^verbatim>\<open>P\<close>.\<close>

definition fuzz_new_order ::
  "u8 \<Rightarrow> u8 \<Rightarrow> u8 \<Rightarrow> u8 \<Rightarrow> u8 \<Rightarrow> client_order_id \<Rightarrow> client_id \<Rightarrow> timestamp_ns \<Rightarrow> new_order_request" where
  "fuzz_new_order command side_byte price_byte quantity_byte policy_byte cid owner ts =
     (let r = \<lparr>nr_client_order_id = cid, nr_symbol_id = (if unat policy_byte mod 17 = 0 then 2 else 1),
            nr_side = side_from_byte side_byte, nr_order_type = Ot_Limit, nr_price_ticks = price_from_byte price_byte,
            nr_quantity = quantity_from_byte quantity_byte, nr_timestamp_ns = ts, nr_client_id = owner,
            nr_time_in_force = Tif_Gtc, nr_post_only = False\<rparr>;
          r = (if command = 77 \<or> unat command mod 7 = 0 then r\<lparr>nr_order_type := Ot_Market, nr_price_ticks := 0\<rparr> else r);
          r = (if command = 73 \<or> unat policy_byte mod 7 = 1 then r\<lparr>nr_time_in_force := Tif_Ioc\<rparr>
               else if command = 70 \<or> unat policy_byte mod 7 = 2 then r\<lparr>nr_time_in_force := Tif_Fok\<rparr> else r)
      in if command = 80 \<or> unat policy_byte mod 11 = 3 then r\<lparr>nr_post_only := True\<rparr> else r)"

text \<open>
  The eight bytes of an operation as a request, with the owner its reports are checked for; the
  letters are \<^verbatim>\<open>C\<close> and \<^verbatim>\<open>R\<close>.
\<close>

definition matching_operation :: "nat \<Rightarrow> byte_reader \<Rightarrow> (me_request \<times> client_id) \<times> byte_reader" where
  "matching_operation index rd =
     (let (command, rd) = br_next rd; (side_byte, rd) = br_next rd; (price_byte, rd) = br_next rd;
          (quantity_byte, rd) = br_next rd; (client_order_byte, rd) = br_next rd;
          (exchange_order_byte, rd) = br_next rd; (owner_byte, rd) = br_next rd; (policy_byte, rd) = br_next rd;
          timestamp = int index + 1; cid = of_nat (unat client_order_byte mod 64);
          eid = of_nat (unat exchange_order_byte mod 64 + 1); owner = of_nat (unat owner_byte mod 5);
          is_cancel = (command = 67 \<or> unat command mod 11 = 0);
          is_replace = (command = 82 \<or> unat command mod 13 = 0)
      in (if is_cancel
          then (Me_Cancel \<lparr>cr_client_order_id = cid, cr_exchange_order_id = eid, cr_timestamp_ns = timestamp\<rparr>, 0)
          else if is_replace
          then (Me_Replace \<lparr>rr_client_order_id = cid, rr_exchange_order_id = eid,
                  rr_new_price_ticks = price_from_byte price_byte, rr_new_quantity = quantity_from_byte quantity_byte,
                  rr_timestamp_ns = timestamp\<rparr>, 0)
          else (Me_Submit (fuzz_new_order command side_byte price_byte quantity_byte policy_byte cid owner timestamp), owner),
          rd))"

fun run_operations :: "nat \<Rightarrow> nat \<Rightarrow> byte_reader \<Rightarrow> matching_engine \<Rightarrow> owner_table \<Rightarrow> matching_engine option" where
  "run_operations 0 index rd e owners = Some e"
| "run_operations (Suc n) index rd e owners =
     (let ((q, owner), rd) = matching_operation index rd; (reports, e) = me_step q e in
      case require_reports_ok reports owners owner of None \<Rightarrow> None
      | Some owners \<Rightarrow> require_book_ok (me_book e) (run_operations n (index + 1) rd e owners))"

definition run_requests :: "u8 list \<Rightarrow> run_result option" where
  "run_requests input =
     (case run_operations (operation_count kMaxMatchingOperations input) 0 (br_new input) (me_new 1) [] of None \<Rightarrow> None
      | Some e \<Rightarrow> Some \<lparr>rr_book_checksum = ob_checksum (me_book e), rr_reports_checksum = me_reports_checksum e\<rparr>)"

definition matching_requests_target :: "u8 list \<Rightarrow> int option" where
  "matching_requests_target input =
     (if length input = 0 \<or> length input > kMaxMatchingInputSize then Some 0 else
      case run_requests input of None \<Rightarrow> None | Some first \<Rightarrow>
      case run_requests input of None \<Rightarrow> None | Some second \<Rightarrow>
        fuzz_require (rr_book_checksum first = rr_book_checksum second)
        (fuzz_require (rr_reports_checksum first = rr_reports_checksum second) (Some 0)))"

end
