(* ===== verification/Fuzz_Targets_Correct.thy ===== *)
theory Fuzz_Targets_Correct
  imports Fuzz_Targets Event_Log_Correct Audit_Manifest_Correct Replay_Correct
begin

text \<open>
  What the expectations of the fuzz targets for event logs, audit manifests and replay amount to: the
  first three hold on every input, and those on replay hold exactly when the replayed book ends uncrossed,
  which a stream the replay rejects need not do.
\<close>

lemma fuzz_require_True [simp]: "fuzz_require True k = k"
  by (simp add: fuzz_require_def)

lemma fuzz_require_False [simp]: "fuzz_require False k = None"
  by (simp add: fuzz_require_def)

lemma same_parse_result [simp]: "require_same_parse_result r r k = k"
  by (simp add: require_same_parse_result_def)

section \<open>How many events a log can hold\<close>

lemma text_lines_length: "length (text_lines s) \<le> length (filter (\<lambda>c. c = CHR 0x0A) s) + 1"
proof (induction s)
  case (Cons c s)
  then show ?case by (cases "text_lines s") auto
qed simp

lemma bounded_newlines:
  "line_count \<le> kMaxTextLines \<Longrightarrow> bounded_lines line_count line_size bs \<Longrightarrow>
   line_count + length (filter (\<lambda>b. b = 10) bs) \<le> kMaxTextLines"
  by (induction line_count line_size bs rule: bounded_lines.induct) (auto simp: Let_def split: if_splits)

lemma newline_byte: "(char_of (unat b) = CHR 0x0A) = (b = (10 :: u8))"
proof -
  have b: "unat b < 256" using unsigned_less [of b] by simp
  have "(char_of (unat b) = CHR 0x0A) = (take_bit 8 (unat b) = (10 :: nat))" by (simp add: char_of_eq_iff)
  also have "\<dots> = (unat b = unat (10 :: u8))" using b by (simp add: take_bit_nat_eq_self)
  finally show ?thesis by (simp only: word_unat_eq_iff)
qed

lemma bounded_text_lines:
  assumes "bounded_text input"
  shows "length (text_lines (bytes_text input)) \<le> kMaxTextLines"
proof -
  have "filter (\<lambda>c. c = CHR 0x0A) (bytes_text input) = bytes_text (filter (\<lambda>b. b = 10) input)"
    by (simp add: bytes_text_def filter_map o_def newline_byte)
  then have "length (text_lines (bytes_text input)) \<le> length (filter (\<lambda>b. b = 10) input) + 1"
    using text_lines_length [of "bytes_text input"] by (simp add: bytes_text_def)
  moreover have "1 + length (filter (\<lambda>b. b = 10) input) \<le> kMaxTextLines"
    using assms by (intro bounded_newlines) (auto simp: bounded_text_def kMaxTextLines_def split: if_splits)
  ultimately show ?thesis by simp
qed

lemma read_csv_lines_length: "length (lr_events (read_csv_lines n ls r)) \<le> length (lr_events r) + length ls"
proof (induction ls arbitrary: n r)
  case (Cons line rest)
  show ?case
    using Cons.IH [of "n + 1" r] Cons.IH [of "n + 1" "r\<lparr>lr_event_checksum := c, lr_events := lr_events r @ [e]\<rparr>" for c e]
    by (auto simp: Let_def read_failed_def read_started_def split: prod.splits sum.splits)
qed simp

lemma read_records_length: "length (lr_events (read_records n input r)) \<le> length (lr_events r) + length input div 58"
proof (induction n input r rule: read_records.induct)
  case (1 n input r)
  show ?case
  proof (cases "length (take 58 input) = 58")
    case False
    then show ?thesis by (subst read_records.simps) (auto simp: Let_def read_failed_def read_started_def)
  next
    case True
    then have full: "58 \<le> length input" "take 58 input \<noteq> []" by (auto simp: min_def split: if_splits)
    show ?thesis
    proof (cases "decode_record (take 58 input) n")
      case (Inl err)
      then show ?thesis using True full
        by (subst read_records.simps) (simp add: Let_def read_failed_def read_started_def)
    next
      case (Inr e)
      have "length input div 58 = Suc ((length input - 58) div 58)" using full(1) by (simp add: le_div_geq)
      then show ?thesis using True full 1 [OF refl full(2) _ Inr] Inr by (subst read_records.simps) (simp add: Let_def)
    qed
  qed
qed

lemma read_binary_length:
  assumes "length input \<le> kMaxParserInputSize"
  shows "length (lr_events (read_binary_event_log path (Some input))) \<le> kMaxParserInputSize div unat kBinaryEventRecordSize + 1"
proof -
  have rec: "unat kBinaryEventRecordSize = 58" by (simp add: kBinaryEventRecordSize_def)
  have "length (lr_events (read_records 0 (drop 16 input) (read_started Fmt_Binary))) \<le> kMaxParserInputSize div 58"
    using read_records_length [of 0 "drop 16 input" "read_started Fmt_Binary"] assms
      div_le_mono [of "length input - 16" kMaxParserInputSize 58]
    by (simp add: read_started_def)
  then show ?thesis unfolding rec read_binary_event_log_def option.case Let_def
    by (simp add: read_failed_def read_started_def del: read_records.simps)
qed

section \<open>The parser targets\<close>

text \<open>The targets that only parse return on every input, wherever the temporary file is.\<close>

theorem parser_targets_return:
  "csv_event_log_target temp input = Some 0 \<and> binary_event_log_target temp input = Some 0 \<and>
   audit_manifest_target input = Some 0"
proof (intro conjI)
  have sum: "lr_event_checksum r = checksum_events (lr_events r)" if "r = read_event_log path (Some input) fmt" for r path fmt
    using read_event_log_consistent [of path input fmt] that by (simp add: read_consistent_def)
  show "csv_event_log_target temp input = Some 0"
  proof (cases "bounded_text input \<and> temp \<noteq> None")
    case True
    then obtain path where temp: "temp = Some path" by auto
    have "length (lr_events (read_event_log path (Some input) Fmt_Csv)) \<le> kMaxTextLines"
      using read_csv_lines_length [of 0 "text_lines (bytes_text input)" "read_started Fmt_Csv"] bounded_text_lines [of input] True
      by (simp add: read_event_log_def read_csv_event_log_def read_started_def)
    then show ?thesis using sum [OF refl, of path Fmt_Csv] by (simp add: csv_event_log_target_def temp Let_def)
  qed (auto simp: csv_event_log_target_def)
  show "binary_event_log_target temp input = Some 0"
  proof (cases "length input \<le> kMaxParserInputSize \<and> temp \<noteq> None")
    case True
    then obtain path where temp: "temp = Some path" by auto
    have "length (lr_events (read_event_log path (Some input) Fmt_Binary)) \<le> kMaxParserInputSize div unat kBinaryEventRecordSize + 1"
      using read_binary_length [of input path] True by (simp add: read_event_log_def)
    then show ?thesis using sum [OF refl, of path Fmt_Binary] by (simp add: binary_event_log_target_def temp Let_def)
  qed (auto simp: binary_event_log_target_def)
  show "audit_manifest_target input = Some 0"
    by (auto simp: audit_manifest_target_def Let_def manifest_round_trip parse_error_def split: sum.splits)
qed

section \<open>The replay target\<close>

lemma fail_with_processed [simp]: "rp_events_processed (fail_with r i e s) = rp_events_processed r"
  by (simp add: fail_with_def add_diagnostic_def Let_def)

lemma validate_after_processed:
  "rp_events_processed (snd (validate_book_after_apply cfg b e i r)) = rp_events_processed r"
  by (auto simp: validate_book_after_apply_def validate_full_book_def validate_top_of_book_def Let_def split: option.splits)

lemma apply_event_processed: "rp_events_processed (snd (snd (apply_event cfg e i (b, r)))) = rp_events_processed r"
proof -
  obtain v b1 r1 where s: "apply_switch e b r = (v, b1, r1)" by (cases "apply_switch e b r") auto
  have "rp_events_processed r1 = rp_events_processed r" using apply_switch_book [of e b r] s by auto
  then show ?thesis using validate_after_processed [of cfg b1 e i r1]
    by (auto simp: apply_event_def s split: option.splits prod.splits)
qed

lemma step_processed: "rp_events_processed (snd (snd (snd (replay_step cfg e (b, st, r))))) \<le> Suc (rp_events_processed r)"
  using apply_event_processed [of cfg e "ss_event_index st" b r]
  by (auto simp: replay_step_def halt_stream_def validate_event_before_apply_def add_diagnostic_def Let_def
      split: prod.splits option.splits)

lemma loop_processed:
  "rp_events_processed (snd (snd (replay_loop cfg es s))) \<le> rp_events_processed (snd (snd s)) + length es"
proof (induction es arbitrary: s)
  case (Cons e es)
  obtain b st r where s: "s = (b, st, r)" by (cases s) auto
  show ?case using step_processed [of cfg e b st r] Cons.IH [of "snd (replay_step cfg e s)"] by (auto simp: s Let_def split: prod.splits)
qed simp

definition top_apart :: "order_book \<Rightarrow> bool" where
  "top_apart b \<longleftrightarrow> (case (ob_best_bid b, ob_best_ask b) of (Some bid, Some ask) \<Rightarrow> bid < ask | _ \<Rightarrow> True)"

lemma require_book_clean: "ob_inv b \<Longrightarrow> require_book_ok b k = fuzz_require (top_apart b) k"
  by (simp add: require_book_ok_def top_apart_def ob_check_clean)

lemma replay_expectations:
  assumes "replay_events cfg es (ob_new sy) = (b, r)"
  shows "rp_events_processed r \<le> length es"
    and "rp_diagnostic_error_count r + rp_diagnostic_warning_count r \<le> length (rp_diagnostics r)" and "ob_inv b"
proof -
  obtain st r0 where o: "ob_inv b" "result_ok r0" "r = finalize_stream cfg b r0"
    by (rule replay_events_runs [OF assms]) blast
  note f = finalize_ok [OF o(1,2), of cfg, folded o(3)]
  show "ob_inv b" by (rule o(1))
  show "rp_diagnostic_error_count r + rp_diagnostic_warning_count r \<le> length (rp_diagnostics r)"
    using f(1) by (simp add: result_ok_def)
  obtain b1 st1 r1 where l: "replay_loop cfg es (ob_new sy, blank_stream, (begin_stream blank_result)\<lparr>rp_event_log_checksum := checksum_events es\<rparr>) = (b1, st1, r1)"
    by (metis prod_cases3)
  then have "b = b1" "r = finalize_stream cfg b r1" using assms by (auto simp: replay_events_def Let_def)
  moreover have "rp_events_processed r1 \<le> length es"
    using loop_processed [of cfg es "(ob_new sy, blank_stream, (begin_stream blank_result)\<lparr>rp_event_log_checksum := checksum_events es\<rparr>)"] l
    by (simp add: begin_stream_def blank_result_def)
  ultimately show "rp_events_processed r \<le> length es"
    by (auto simp: finalize_stream_def validate_full_book_def validate_top_of_book_def Let_def split: prod.splits option.splits if_splits)
qed

text \<open>The replay target aborts exactly on the inputs whose replay ends with a crossed book.\<close>

theorem replay_target_outcome:
  "replay_engine_target temp input =
     (if length input > kMaxParserInputSize \<or>
         top_apart (fst (replay_events default_config (replay_input temp input) (ob_new 1)))
      then Some 0 else None)"
proof -
  obtain b r where r: "replay_events default_config (replay_input temp input) (ob_new 1) = (b, r)"
    by (cases "replay_events default_config (replay_input temp input) (ob_new 1)")
  note e = replay_expectations [OF r]
  show ?thesis using e(1,2) by (simp add: replay_engine_target_def Let_def r require_book_clean [OF e(3)] same_replay_result_def)
qed

text \<open>
  Such inputs exist: a bid at 10 and an ask at 5. The replay rejects the second event, after applying it, and
  the target then finds the book crossed.
\<close>

definition crossing_input :: "u8 list" where
  "crossing_input = [0, 0, 15, 10, 1, 1, 0, 3, 0, 1, 10, 10, 2, 1, 1, 3]"

text \<open>As a log it is not a binary one, and its first line is no event.\<close>

lemma crossing_line: "\<exists>rest. text_lines (bytes_text crossing_input) = [CHR 0x00, CHR 0x00, CHR 0x0F] # rest"
proof -
  have "hd (text_lines (bytes_text crossing_input)) = [CHR 0x00, CHR 0x00, CHR 0x0F]"
    "text_lines (bytes_text crossing_input) \<noteq> []"
    by code_simp+
  then show ?thesis by (metis list.collapse)
qed

lemma crossing_line_kept: "is_ignored_csv_line [CHR 0x00, CHR 0x00, CHR 0x0F] = (False, [])"
proof -
  let ?l = "[CHR 0x00, CHR 0x00, CHR 0x0F]"
  have trim: "trim_copy ?l = ?l" by code_simp
  have "\<forall>p \<in> set csv_columns. \<not> set p \<subseteq> set ?l" by (simp add: csv_columns_def)
  then have "filter (contains_text ?l) csv_columns = []" using contains_text_chars by (simp only: filter_empty_conv) blast
  then show ?thesis by (simp add: is_ignored_csv_line_def trim looks_like_csv_header_def kMarketDataCsvHeader_def)
qed

lemma crossing_mapped: "replay_input temp crossing_input = map_events crossing_input"
proof (cases temp)
  case (Some path)
  have "length (split_csv [CHR 0x00, CHR 0x00, CHR 0x0F]) \<noteq> 10" by code_simp
  then have parse: "\<exists>err. parse_market_data_event_csv [CHR 0x00, CHR 0x00, CHR 0x0F] = Inl err"
    by (simp add: parse_market_data_event_csv_def)
  have "bytes_text (take (length kBinaryEventLogMagic) crossing_input) \<noteq> kBinaryEventLogMagic" by code_simp
  then have "read_event_log path (Some crossing_input) Fmt_Auto = read_csv_event_log path (Some crossing_input)"
    by (simp add: read_event_log_def detect_event_log_format_def)
  moreover have "lr_events (read_csv_event_log path (Some crossing_input)) = []"
    using crossing_line parse
    by (auto simp: read_csv_event_log_def crossing_line_kept Let_def read_failed_def read_started_def)
  ultimately show ?thesis by (simp add: replay_input_def Some Let_def)
qed (simp add: replay_input_def)

theorem replay_target_aborts: "replay_engine_target temp crossing_input = None"
proof -
  have "\<not> length crossing_input > kMaxParserInputSize" by code_simp
  moreover have "\<not> top_apart (fst (replay_events default_config (map_events crossing_input) (ob_new 1)))" by code_simp
  ultimately show ?thesis unfolding replay_target_outcome crossing_mapped by simp
qed

end
