(* ===== verification/Fuzz_Matching_Correct.thy ===== *)
theory Fuzz_Matching_Correct
  imports Fuzz_Targets_Correct Matching_Properties
begin

text \<open>
  The fuzz target for matching requests never aborts: whatever the bytes, the reports of every operation have
  the amounts it expects, trades come in pairs that agree, no client that identifies itself trades with
  itself, and the book passes its check and stays uncrossed.
\<close>

section \<open>Amounts in reports\<close>

definition state_sane :: "order_state \<Rightarrow> bool" where
  "state_sane st \<longleftrightarrow> 0 \<le> os_filled_quantity st \<and> 0 \<le> os_filled_notional_ticks st \<and>
     (os_order_type st = Ot_Limit \<longrightarrow> 0 < os_limit_price_ticks st)"

definition report_sane :: "execution_report \<Rightarrow> bool" where
  "report_sane r \<longleftrightarrow> 0 \<le> er_filled_quantity r \<and> 0 \<le> er_remaining_quantity r \<and> 0 \<le> er_last_fill_quantity r \<and>
     0 \<le> er_last_fill_price_ticks r \<and> 0 \<le> er_average_price_ticks r \<and> 0 \<le> er_resting_price_ticks r \<and>
     (er_exec_type r = Et_Trade \<longrightarrow> 0 < er_last_fill_quantity r \<and> 0 < er_last_fill_price_ticks r)"

definition is_trade :: "execution_report \<Rightarrow> bool" where
  "is_trade r \<longleftrightarrow> er_exec_type r = Et_Trade"

lemma make_report_sane:
  assumes "state_sane st" and "0 \<le> q" and "0 \<le> p" and "et = Et_Trade \<Longrightarrow> 0 < q \<and> 0 < p"
  shows "report_sane (make_report st et q p ts rr)"
proof -
  have "0 \<le> average_price_ticks st"
    using assms(1) by (auto simp: average_price_ticks_def state_sane_def c_quotient_nonneg pos_imp_zdiv_nonneg_iff)
  then show ?thesis using assms
    by (auto simp: report_sane_def make_report_def Let_def state_sane_def remaining_quantity_def)
qed

lemma make_reject_sane [simp]: "report_sane (make_reject cid sy sd ts reason)"
  by (simp add: report_sane_def make_reject_def)

lemma apply_fill_sane: "state_sane st \<Longrightarrow> 0 < q \<Longrightarrow> 0 < p \<Longrightarrow> state_sane (apply_fill q p st)"
  by (simp add: state_sane_def apply_fill_def Let_def)

lemma set_status_sane [simp]: "state_sane (set_status s st) = state_sane st"
  by (simp add: state_sane_def set_status_def)

text \<open>Scanning such reports succeeds: it learns the accepted orders and collects the trades.\<close>

definition learn_owner :: "client_id \<Rightarrow> owner_table \<Rightarrow> execution_report \<Rightarrow> owner_table" where
  "learn_owner owner owners r =
     (if er_exec_type r = Et_New \<and> er_exchange_order_id r \<noteq> kInvalidOrderId
      then emplace (er_exchange_order_id r) owner owners else owners)"

lemma scan_sane:
  "list_all report_sane rs \<Longrightarrow> scan_reports owner rs (owners, trades) =
     Some (foldl (learn_owner owner) owners rs, trades @ filter is_trade rs)"
proof (induction rs arbitrary: owners trades)
  case (Cons r rs)
  then have "report_sane r" by simp
  then show ?case using Cons by (simp add: report_sane_def learn_owner_def is_trade_def Let_def)
qed simp

lemma learn_none: "list_all (\<lambda>r. er_exec_type r \<noteq> Et_New) rs \<Longrightarrow> foldl (learn_owner owner) owners rs = owners"
  by (induction rs) (simp_all add: learn_owner_def)

section \<open>Owners\<close>

text \<open>The owner table agrees with the clients the engine keeps, and the amounts the engine keeps are sane.\<close>

definition owners_track :: "owner_table \<Rightarrow> matching_engine \<Rightarrow> bool" where
  "owners_track owners e \<longleftrightarrow> (\<forall>i. map_of owners i = map_option os_client_id (map_of (me_states e) i)) \<and>
     (\<forall>i st. map_of (me_states e) i = Some st \<longrightarrow> state_sane st)"

lemma owners_trackD:
  assumes "owners_track owners e" and "map_of (me_states e) i = Some st"
  shows "map_of owners i = Some (os_client_id st)" and "state_sane st"
  using assms by (auto simp: owners_track_def)

lemma track_cong: "me_states e' = me_states e \<Longrightarrow> owners_track owners e' = owners_track owners e"
  by (simp add: owners_track_def)

lemma track_modify:
  assumes "owners_track owners e"
    and "\<And>st. map_of (me_states e) i = Some st \<Longrightarrow> os_client_id (f st) = os_client_id st \<and> state_sane (f st)"
  shows "owners_track owners (modify_state i f e)"
proof -
  have "map_of owners j = map_option os_client_id (map_of (me_states (modify_state i f e)) j)" for j
    using assms unfolding owners_track_def by (cases "map_of (me_states e) j") (auto simp: map_of_modify_state)
  moreover have "state_sane st" if "map_of (me_states (modify_state i f e)) j = Some st" for j st
    using assms that unfolding owners_track_def by (auto simp: map_of_modify_state split: if_splits)
  ultimately show ?thesis by (simp add: owners_track_def)
qed

lemma track_status: "owners_track owners e \<Longrightarrow> owners_track owners (modify_state i (set_status s) e)"
  using owners_trackD(2) [of owners e i] by (intro track_modify) (auto simp: set_status_def state_sane_def)

lemma track_rest:
  assumes "rest_limit_order st q ts e = (ok, e')"
  shows "owners_track owners e' = owners_track owners e"
  using assms by (auto simp: rest_limit_order_def Let_def intro!: track_cong split: prod.splits)

text \<open>No order an incoming one may trade with belongs to the same client.\<close>

definition no_own :: "order_id \<Rightarrow> matching_engine \<Rightarrow> bool" where
  "no_own i e \<longleftrightarrow> (let inc = state_at i e in os_client_id inc = 0 \<or>
     (\<forall>x \<in> set (me_orders e). o_side x = opposite (os_side inc) \<longrightarrow>
        executable (os_side inc) (os_order_type inc) (os_limit_price_ticks inc) (o_price_ticks x) \<longrightarrow>
        os_client_id (state_at (o_order_id x) e) \<noteq> os_client_id inc))"

section \<open>The matching loop\<close>

text \<open>What the pair check looks for, without what follows it.\<close>

definition trades_paired :: "owner_table \<Rightarrow> execution_report list \<Rightarrow> bool" where
  "trades_paired owners ts \<longleftrightarrow> even (length ts) \<and> (\<forall>k :: owner_table option. require_trade_pairs owners ts k = k)"

lemma trades_paired_Nil [simp]: "trades_paired owners []"
  by (simp add: trades_paired_def)

lemma trades_paired_fill:
  assumes "map_of owners (os_exchange_order_id rst) = Some a" and "map_of owners (os_exchange_order_id inc) = Some b"
    and "a = 0 \<or> b = 0 \<or> a \<noteq> b" and "trades_paired owners ts"
  shows "trades_paired owners (fill_reports rst inc n p t @ ts)"
  using assms by (auto simp: trades_paired_def fill_reports_def)

lemma after_fill_lookup:
  assumes "o_order_id x \<noteq> i"
  shows "map_of (me_states (after_fill i x n ts e)) j =
    (if j = i \<or> j = o_order_id x then map_option (apply_fill n (o_price_ticks x)) (map_of (me_states e) j)
     else map_of (me_states e) j)"
  using assms by (simp add: after_fill_def Let_def map_of_modify_state)

lemma after_fill_client:
  assumes "o_order_id x \<noteq> i"
  shows "map_option os_client_id (map_of (me_states (after_fill i x n ts e)) j) = map_option os_client_id (map_of (me_states e) j)"
  unfolding after_fill_lookup [OF assms] by (simp add: option.map_comp o_def)

lemma track_after_fill:
  assumes "owners_track owners e" and "o_order_id x \<noteq> i" and "0 < n" and "0 < o_price_ticks x"
  shows "owners_track owners (after_fill i x n ts e)"
  using assms apply_fill_sane [OF _ assms(3,4)] unfolding owners_track_def after_fill_client [OF assms(2)]
  by (auto simp: after_fill_lookup [OF assms(2)] split: if_splits)

lemma after_fill_same_client:
  assumes "o_order_id x \<noteq> i"
  shows "os_client_id (state_at j (after_fill i x n ts e)) = os_client_id (state_at j e)"
  by (cases "map_of (me_states e) j") (simp_all add: state_at_def after_fill_lookup [OF assms])

lemma no_own_after_fill:
  assumes inv: "match_inv i remaining e" and x: "x \<in> set (me_orders e)" and n: "0 < n" "n \<le> o_quantity x" and free: "no_own i e"
  shows "no_own i (after_fill i x n ts e)"
proof -
  let ?e = "after_fill i x n ts e"
  have xi: "o_order_id x \<noteq> i" by (rule match_invD(3) [OF inv x])
  have book: "me_book ?e = snd (ob_reduce_order (o_order_id x) n (me_book e))" by (simp add: after_fill_def Let_def)
  have old: "\<exists>z \<in> set (me_orders e). o_order_id z = o_order_id y \<and> o_side z = o_side y \<and> o_price_ticks z = o_price_ticks y"
    if "y \<in> set (me_orders ?e)" for y
    using reduce_order_members [OF match_invD(2) [OF inv] x n, of y] that x unfolding book by auto
  show ?thesis using free old unfolding no_own_def Let_def after_fill_same_client [OF xi] after_fill_state [OF inv xi] apply_fill_fields
    by metis
qed

lemma match_trades:
  assumes "match_inv i remaining e" and "owners_track owners e" and "no_own i e"
  shows "\<exists>remaining' new e'. (\<forall>reports. match_against_book i remaining ts (reports, e) = (remaining', (reports @ new, e'))) \<and>
    match_inv i remaining' e' \<and> owners_track owners e' \<and> list_all report_sane new \<and> list_all is_trade new \<and>
    trades_paired owners new"
proof -
  let ?P = "\<lambda>(remaining :: int) e remaining' new e'. owners_track owners e \<longrightarrow> no_own i e \<longrightarrow>
    match_inv i remaining' e' \<and> owners_track owners e' \<and> list_all report_sane new \<and> list_all is_trade new \<and>
    trades_paired owners new"
  have "\<exists>remaining' new e'. (\<forall>reports. match_against_book i remaining ts (reports, e) = (remaining', (reports @ new, e'))) \<and>
    ?P remaining e remaining' new e'"
  proof (rule match_induct [OF assms(1), where P = ?P])
    fix remaining e
    assume "match_inv i remaining e"
    then show "?P remaining e remaining [] e" by simp
  next
    fix remaining e x n reports remaining' e'
    assume inv: "match_inv i remaining e" and x: "x \<in> set (me_orders e)"
      and side: "o_side x = opposite (os_side (state_at i e))"
      and ex: "executable (os_side (state_at i e)) (os_order_type (state_at i e)) (os_limit_price_ticks (state_at i e)) (o_price_ticks x)"
      and n: "n = min remaining (o_quantity x)" "0 < n" and rest: "?P (remaining - n) (after_fill i x n ts e) remaining' reports e'"
    let ?rst = "state_at (o_order_id x) e" and ?inc = "state_at i e"
    let ?f = "fill_reports ?rst ?inc n (o_price_ticks x) ts"
    note ok = match_invD(1) [OF inv]
    have xi: "o_order_id x \<noteq> i" by (rule match_invD(3) [OF inv x])
    have price: "0 < o_price_ticks x"
      using ladder_order_side [of "me_ladder e" x] x match_invD(2) [OF inv] by (simp add: ob_inv_def is_valid_resting_order_def)
    obtain inc where inc: "map_of (me_states e) i = Some inc" using match_invD(4) [OF inv] by blast
    obtain rst where rst: "map_of (me_states e) (o_order_id x) = Some rst" using engine_okD(7) [OF ok x] by blast
    have ids: "os_exchange_order_id inc = i" "os_exchange_order_id rst = o_order_id x"
      using engine_okD(6) [OF ok inc] engine_okD(6) [OF ok rst] by (simp_all add: state_ok_def)
    have at: "?inc = inc" "?rst = rst" using inc rst by (simp_all add: state_at_def)
    show "?P remaining e remaining' (?f @ reports) e'"
    proof (intro impI)
      assume track: "owners_track owners e" and free: "no_own i e"
      note o = owners_trackD [OF track]
      have "list_all report_sane ?f"
        using apply_fill_sane [OF o(2) [OF inc] n(2) price] apply_fill_sane [OF o(2) [OF rst] n(2) price] n(2) price at
        by (auto simp: fill_reports_def intro!: make_report_sane)
      moreover have "list_all is_trade ?f" by (simp add: fill_reports_def is_trade_def)
      moreover have "os_client_id rst = 0 \<or> os_client_id inc = 0 \<or> os_client_id rst \<noteq> os_client_id inc"
        using free x side ex at unfolding no_own_def Let_def by metis
      moreover have "owners_track owners (after_fill i x n ts e)" by (rule track_after_fill [OF track xi n(2) price])
      moreover have "no_own i (after_fill i x n ts e)" using no_own_after_fill [OF inv x n(2) _ free] n(1) by simp
      ultimately show "match_inv i remaining' e' \<and> owners_track owners e' \<and> list_all report_sane (?f @ reports) \<and>
          list_all is_trade (?f @ reports) \<and> trades_paired owners (?f @ reports)"
        using rest trades_paired_fill [of owners rst "os_client_id rst" inc "os_client_id inc" reports n "o_price_ticks x" ts]
          o(1) [OF inc] o(1) [OF rst] ids at by simp
    qed
  qed
  then show ?thesis using assms(2,3) by blast
qed

section \<open>Handlers\<close>

text \<open>What the target expects of an answer, as facts about the reports and the table after them.\<close>

definition answered :: "client_id \<Rightarrow> owner_table \<Rightarrow> me_result \<Rightarrow> bool" where
  "answered owner owners res \<longleftrightarrow>
     (let owners' = foldl (learn_owner owner) owners (fst res)
      in list_all report_sane (fst res) \<and> owners_track owners' (snd res) \<and> trades_paired owners' (filter is_trade (fst res)))"

lemma answered_accepted:
  assumes "answered owner owners res"
  shows "require_reports_ok (fst res) owners owner = Some (foldl (learn_owner owner) owners (fst res))"
  using assms by (simp add: answered_def Let_def require_reports_ok_def scan_sane trades_paired_def even_iff_mod_2_eq_zero)

lemma answeredI:
  assumes "report_sane rep" and "\<not> is_trade rep" and "learn_owner owner owners rep = owners'"
    and "list_all report_sane new" and "list_all is_trade new" and "trades_paired owners' new"
    and "list_all report_sane tail" and "list_all (\<lambda>r. er_exec_type r = Et_Canceled) tail" and "owners_track owners' e'"
  shows "answered owner owners (rep # new @ tail, e')"
proof -
  have "list_all (\<lambda>r. er_exec_type r \<noteq> Et_New) (new @ tail)" using assms(5,8) by (auto simp: list_all_iff is_trade_def)
  then have "foldl (learn_owner owner) owners' (new @ tail) = owners'" by (rule learn_none)
  moreover have "filter is_trade new = new" "filter is_trade tail = []"
    using assms(5,8) by (auto simp: list_all_iff is_trade_def filter_id_conv filter_empty_conv)
  ultimately show ?thesis using assms by (simp add: answered_def)
qed

lemma answered_reject:
  assumes "owners_track owners e" and "me_states e' = me_states e"
  shows "answered owner owners (me_reject cid sy sd ts reason e')"
proof -
  let ?rep = "make_reject cid sy sd ts reason"
  have "owners_track owners (e'\<lparr>me_reports_checksum := c\<rparr>)" for c using track_cong [of "e'\<lparr>me_reports_checksum := c\<rparr>" e owners] assms by simp
  then show ?thesis
    using answeredI [of ?rep owner owners owners "[]" "[]"]
    by (simp add: me_reject_def record_report_def learn_owner_def is_trade_def make_reject_def report_sane_def)
qed

text \<open>An answer without an internal error did not come from that branch.\<close>

lemma not_internal: "\<not> handled e (reject_internal i ts res)"
  by (cases res) (simp add: handled_def reject_internal_def record_report_def Let_def)

lemma state_at_sane:
  assumes "owners_track owners e" and "map_of (me_states e) i \<noteq> None"
  shows "state_sane (state_at i e)"
  using assms owners_trackD(2) by (auto simp: state_at_def)

lemma settle_tail:
  assumes "match_inv i remaining e" and "owners_track owners e"
  shows "report_sane (make_report (state_at i (modify_state i (set_status s) e)) Et_Canceled 0 0 ts rr)"
    and "owners_track owners ((modify_state i (set_status s) e)\<lparr>me_reports_checksum := c\<rparr>)"
proof -
  have "map_of (me_states e) i \<noteq> None" using match_invD(4) [OF assms(1)] by auto
  then have "state_sane (state_at i (modify_state i (set_status s) e))"
    using state_at_sane [OF track_status [OF assms(2)]] by (simp add: map_of_modify_state)
  then show "report_sane (make_report (state_at i (modify_state i (set_status s) e)) Et_Canceled 0 0 ts rr)"
    by (intro make_report_sane) simp_all
  show "owners_track owners ((modify_state i (set_status s) e)\<lparr>me_reports_checksum := c\<rparr>)"
    using track_status [OF assms(2)] track_cong [of "(modify_state i (set_status s) e)\<lparr>me_reports_checksum := c\<rparr>"] by simp
qed

text \<open>A submission that passes its checks: the new order enters the table, then the loop runs.\<close>

lemma admitted_start:
  assumes inv: "me_inv e" and pass: "submit_passes r e" and nxt: "me_next_exchange_order_id e + 1 \<noteq> 0"
    and track: "owners_track owners e"
  defines "i \<equiv> me_next_exchange_order_id e" and "e1 \<equiv> snd (reserve_client_order_id (nr_client_order_id r) e)"
  shows "owners_track (emplace i (nr_client_id r) owners) ((admitted r e1)\<lparr>me_reports_checksum := c\<rparr>)"
    and "no_own i ((admitted r e1)\<lparr>me_reports_checksum := c\<rparr>)"
proof -
  let ?e = "(admitted r e1)\<lparr>me_reports_checksum := c\<rparr>"
  have ok: "engine_ok e" using inv by (simp add: me_inv_def)
  have none: "map_of (me_states e) i = None" using engine_fresh(1) [OF ok] by (simp add: i_def)
  have states: "map_of (me_states ?e) j = (if j = i then Some (initial_state r i) else map_of (me_states e) j)" for j
    using none by (simp add: admitted_def Let_def emplace_def e1_def i_def update_conv')
  have book: "me_book ?e = me_book e" by (simp add: admitted_def Let_def e1_def)
  have "map_of owners i = None" using none track by (simp add: owners_track_def)
  then have "map_of (emplace i (nr_client_id r) owners) j = (if j = i then Some (nr_client_id r) else map_of owners j)" for j
    by (simp add: emplace_def update_conv')
  moreover have "state_sane (initial_state r i)" using pass by (auto simp: state_sane_def submit_passes_def initial_state_def)
  ultimately show "owners_track (emplace i (nr_client_id r) owners) ?e"
    using track unfolding owners_track_def states by (auto simp: initial_state_def)
  have at: "state_at i ?e = initial_state r i" "j \<noteq> i \<Longrightarrow> state_at j ?e = state_at j e" for j
    by (simp_all only: state_at_def states if_True if_False option.sel refl)
  have "os_client_id (state_at (o_order_id x) e) \<noteq> nr_client_id r"
    if x: "x \<in> set (me_orders e)" "o_side x = opposite (nr_side r)"
      "executable (nr_side r) (nr_order_type r) (nr_price_ticks r) (o_price_ticks x)" and cl: "nr_client_id r \<noteq> 0" for x
  proof (cases "nr_post_only r")
    case True
    then show ?thesis using not_crosses [of e "nr_side r" "nr_order_type r" "nr_price_ticks r" x] x pass engine_okD(1) [OF ok]
      by (auto simp: submit_passes_def)
  next
    case False
    then show ?thesis using self_trade_free [OF inv _ _ x _ cl, of kInvalidOrderId] engine_order_id [OF ok x(1)] pass
      by (auto simp: submit_passes_def)
  qed
  moreover have "o_order_id x \<noteq> i" if "x \<in> set (me_orders e)" for x using engine_fresh(2) [OF ok that] by (simp add: i_def)
  ultimately show "no_own i ?e"
    unfolding no_own_def Let_def book at(1) initial_fields
    by (auto simp: initial_state_def at(2) [unfolded checksum_irrelevant])
qed

lemma submit_answered:
  assumes inv: "me_inv e" and nxt: "me_next_exchange_order_id e + 1 \<noteq> 0" and track: "owners_track owners e"
  shows "answered (nr_client_id r) owners (me_submit_order r e)"
proof (cases "submit_passes r e")
  case False
  then obtain reason e' where
    "me_submit_order r e = me_reject (nr_client_order_id r) (nr_symbol_id r) (nr_side r) (nr_timestamp_ns r) reason e'"
    "e' = e \<or> e' = snd (reserve_client_order_id (nr_client_order_id r) e)"
    by (rule submit_rejected)
  then show ?thesis using answered_reject [OF track, of e'] by auto
next
  case pass: True
  define i where "i = me_next_exchange_order_id e"
  define e1 where "e1 = snd (reserve_client_order_id (nr_client_order_id r) e)"
  define rep where "rep = make_report (initial_state r i) Et_New 0 0 (nr_timestamp_ns r) Rr_None"
  define e0 where "e0 = (admitted r e1)\<lparr>me_reports_checksum := append_to_checksum (me_reports_checksum e1) rep\<rparr>"
  let ?owners = "emplace i (nr_client_id r) owners" and ?ts = "nr_timestamp_ns r"
  have inv1: "me_inv e1" and ok1: "engine_ok e1" using reserve_inv [OF inv] by (simp_all add: e1_def me_inv_def)
  have acc: "acceptable r e1" using passing_acceptable [OF inv pass nxt] by (simp add: e1_def)
  have i: "i = me_next_exchange_order_id e1" by (simp add: i_def e1_def)
  have inv0: "match_inv i (nr_quantity r) e0" using admitted_ok(1) [OF ok1 acc i] by (simp add: e0_def)
  note start = admitted_start [OF inv pass nxt track, folded i_def e1_def, of "append_to_checksum (me_reports_checksum e1) rep", folded e0_def]
  obtain remaining new e5 where run: "match_against_book i (nr_quantity r) ?ts ([rep], e0) = (remaining, ([rep] @ new, e5))"
    and inv5: "match_inv i remaining e5" and track5: "owners_track ?owners e5"
    and new: "list_all report_sane new" "list_all is_trade new" "trades_paired ?owners new"
    using match_trades [OF inv0 start, of ?ts] by blast
  have sub: "me_submit_order r e = accept_order r e1" using submit_passing [OF pass] by (simp add: e1_def)
  note shape = accept_shape [OF ok1 acc i rep_def e0_def run, folded sub]
  have hd: "handled e (me_submit_order r e)" by (rule submit_handled [OF inv nxt])
  have "map_of (me_states e0) i \<noteq> None" using match_invD(4) [OF inv0] by auto
  moreover have "state_at i e0 = initial_state r i" using admitted_ok(2) [OF ok1 acc i] by (simp add: e0_def)
  ultimately have "state_sane (initial_state r i)" using state_at_sane [OF start(1)] by metis
  then have sane: "report_sane rep" unfolding rep_def by (intro make_report_sane) simp_all
  have "i \<noteq> kInvalidOrderId" using engine_okD(4) [of e] inv by (simp add: i_def me_inv_def)
  then have learn: "learn_owner (nr_client_id r) owners rep = ?owners" "\<not> is_trade rep"
    by (simp_all add: learn_owner_def is_trade_def rep_def)
  note answer = answeredI [OF sane learn(2,1) new]
  show ?thesis
  proof (cases "remaining > 0 \<and> nr_order_type r = Ot_Limit \<and> nr_time_in_force r = Tif_Gtc")
    case True
    define e6 where "e6 = (if os_filled_quantity (state_at i e5) > 0 then modify_state i (set_status Os_PartiallyFilled) e5 else e5)"
    obtain ok e7 where rest: "rest_limit_order (state_at i e6) remaining ?ts e6 = (ok, e7)"
      by (cases "rest_limit_order (state_at i e6) remaining ?ts e6")
    have res: "me_submit_order r e = (if ok then (rep # new, e7) else reject_internal i ?ts (rep # new, e7))"
      using shape True by (simp add: Let_def e6_def [symmetric] rest)
    then have "ok" using hd not_internal by (cases ok) auto
    moreover have "owners_track ?owners e7"
      using track_rest [OF rest] track_status [OF track5] track5 by (simp add: e6_def)
    ultimately show ?thesis using res answer [of "[]" e7] by simp
  next
    case rest: False
    note tail = settle_tail [OF inv5 track5]
    show ?thesis
    proof (cases "remaining > 0")
      case True
      then have "me_submit_order r e = (rep # new @ [make_report (state_at i (modify_state i (set_status Os_Canceled) e5)) Et_Canceled 0 0 ?ts Rr_None],
          (modify_state i (set_status Os_Canceled) e5)\<lparr>me_reports_checksum := append_to_checksum (me_reports_checksum e5)
            (make_report (state_at i (modify_state i (set_status Os_Canceled) e5)) Et_Canceled 0 0 ?ts Rr_None)\<rparr>)"
        unfolding shape if_not_P [OF rest] by (simp add: record_report_def Let_def)
      then show ?thesis using tail by (simp add: answer)
    next
      case False
      then have "me_submit_order r e = (rep # new, e5)" unfolding shape if_not_P [OF rest] by simp
      then show ?thesis using answer [of "[]" e5] track5 by simp
    qed
  qed
qed

lemma four_ways:
  "z = (if c1 then a1 else if c2 then a2 else if c3 then a3 else a4) \<Longrightarrow> z = a1 \<or> z = a2 \<or> z = a3 \<or> z = a4 \<and> \<not> c2"
  by simp

lemma cancel_answered:
  assumes inv: "me_inv e" and track: "owners_track owners e"
  shows "answered owner owners (me_cancel_order r e)"
proof -
  let ?p = "reserve_client_order_id (cr_client_order_id r) e" and ?i = "cr_exchange_order_id r" and ?ts = "cr_timestamp_ns r"
  obtain f e1 where p: "?p = (f, e1)" by (cases ?p)
  have same: "me_states e1 = me_states e" using reserve_fields(2) [of "cr_client_order_id r" e] p by simp
  obtain ok b where c: "ob_cancel_order ?i (me_book e1) = (ok, b)" by (cases "ob_cancel_order ?i (me_book e1)")
  let ?e3 = "modify_state ?i (set_status Os_Canceled) (e1\<lparr>me_book := b\<rparr>)"
  let ?rep = "make_report (state_at ?i ?e3) Et_Canceled 0 0 ?ts Rr_None"
  let ?reject = "\<lambda>reason. me_reject (cr_client_order_id r) (me_symbol_id e) NoSide ?ts reason e1"
  let ?unknown = "map_of (me_states e1) ?i = None \<or> ob_find_order ?i (me_book e1) = None"
  have shape: "me_cancel_order r e = (if \<not> f then ?reject Rr_DuplicateClientOrderId else if ?unknown then ?reject Rr_UnknownOrder
      else if \<not> ok then reject_internal ?i ?ts ([], e1\<lparr>me_book := b\<rparr>) else record_report ?rep ([], ?e3))"
    unfolding me_cancel_order_def Let_def p c prod.case by (rule refl)
  consider (reject) "\<exists>reason. me_cancel_order r e = ?reject reason"
    | (internal) "me_cancel_order r e = reject_internal ?i ?ts ([], e1\<lparr>me_book := b\<rparr>)"
    | (cancel) "me_cancel_order r e = record_report ?rep ([], ?e3)" "map_of (me_states e1) ?i \<noteq> None"
    using four_ways [OF shape] by metis
  then show ?thesis
  proof cases
    case reject
    then show ?thesis using answered_reject [OF track same] by auto
  next
    case internal
    then show ?thesis using cancel_handled [OF inv, of r] not_internal by metis
  next
    case cancel
    have track3: "owners_track owners ?e3"
      using track_status track_cong [of "e1\<lparr>me_book := b\<rparr>" e owners] same track by simp
    have "state_sane (state_at ?i ?e3)" using cancel(2) by (intro state_at_sane [OF track3]) (simp add: map_of_modify_state)
    then have "report_sane ?rep" by (intro make_report_sane) simp_all
    moreover have "owners_track owners (?e3\<lparr>me_reports_checksum := c\<rparr>)" for c
      using track_cong [of "?e3\<lparr>me_reports_checksum := c\<rparr>" ?e3 owners] track3 by simp
    ultimately show ?thesis
      using answeredI [of ?rep owner owners owners "[]" "[]"] cancel(1) by (simp add: record_report_def is_trade_def learn_owner_def)
  qed
qed

lemma replace_answered:
  assumes inv: "me_inv e" and track: "owners_track owners e"
  shows "answered owner owners (me_replace_order r e)"
proof (cases "replace_passes r e")
  case False
  then obtain sd reason e' where
    "me_replace_order r e = me_reject (rr_client_order_id r) (me_symbol_id e) sd (rr_timestamp_ns r) reason e'"
    "e' = e \<or> e' = snd (reserve_client_order_id (rr_client_order_id r) e)"
    by (rule replace_rejects)
  then show ?thesis using answered_reject [OF track, of e'] by auto
next
  case pass: True
  define i where "i = rr_exchange_order_id r"
  define st where "st = state_at (rr_exchange_order_id r) e"
  define rep where "rep = make_report (replaced_state r st) Et_Replaced 0 0 (rr_timestamp_ns r) Rr_None"
  let ?ts = "rr_timestamp_ns r"
  obtain e4 where inv4: "match_inv i (rr_new_quantity r) e4" and me4: "me_inv e4" and st4: "state_at i e4 = replaced_state r st"
    and stored: "map_of (me_states e) i = Some st"
    and states: "map_of (me_states e4) = (map_of (me_states e))(i \<mapsto> replaced_state r st)"
    and kind: "os_order_type st = Ot_Limit" "is_valid_side (os_side st)" "os_exchange_order_id st = i"
    and ords: "me_orders e4 = filter (\<lambda>x. o_order_id x \<noteq> i) (me_orders e)"
    and shape: "\<forall>remaining new e5. match_against_book i (rr_new_quantity r) ?ts ([rep], e4) = (remaining, ([rep] @ new, e5)) \<longrightarrow>
      me_replace_order r e = (if remaining > 0
        then (let e = (if os_filled_quantity (state_at i e5) > 0 \<and> os_status (state_at i e5) \<noteq> Os_Replaced
                       then modify_state i (set_status Os_PartiallyFilled) e5 else e5);
                  (ok, e) = rest_limit_order (state_at i e) remaining ?ts e
              in if ok then (rep # new, e) else reject_internal i ?ts (rep # new, e))
        else (rep # new, e5))"
    by (rule replace_entry [OF inv pass, folded i_def st_def, folded rep_def], rule that, assumption+)
  have price: "0 < rr_new_price_ticks r" using pass by (simp add: replace_passes_def)
  have client: "os_client_id (replaced_state r st) = os_client_id st" by (simp add: replaced_state_def)
  have sane: "state_sane (replaced_state r st)"
    using owners_trackD(2) [OF track stored] price by (simp add: state_sane_def replaced_state_def)
  have track4: "owners_track owners e4"
    using track stored sane client unfolding owners_track_def states by auto
  have free4: "no_own i e4"
  proof -
    have "os_client_id (state_at (o_order_id x) e4) \<noteq> os_client_id st"
      if x: "x \<in> set (me_orders e4)" "o_side x = opposite (os_side st)"
        "executable (os_side st) Ot_Limit (rr_new_price_ticks r) (o_price_ticks x)" and cl: "os_client_id st \<noteq> 0" for x
    proof -
      have old: "x \<in> set (me_orders e)" "o_order_id x \<noteq> i" using x(1) ords by auto
      have "\<not> would_self_trade (os_side st) Ot_Limit (rr_new_price_ticks r) (os_client_id st) i e"
        using pass kind by (simp add: replace_passes_def Let_def st_def)
      then have "os_client_id (state_at (o_order_id x) e) \<noteq> os_client_id st"
        using self_trade_free [OF inv _ kind(2) old(1) x(2,3) old(2) cl] by blast
      then show ?thesis using old(2) by (simp add: state_at_def states)
    qed
    then show ?thesis unfolding no_own_def Let_def st4 using kind(1) client by auto
  qed
  obtain remaining new e5 where run: "match_against_book i (rr_new_quantity r) ?ts ([rep], e4) = (remaining, ([rep] @ new, e5))"
    and track5: "owners_track owners e5" and new: "list_all report_sane new" "list_all is_trade new" "trades_paired owners new"
    using match_trades [OF inv4 track4 free4, of ?ts] by blast
  note shape = shape [rule_format, OF run]
  have "report_sane rep" unfolding rep_def by (intro make_report_sane sane) simp_all
  moreover have "\<not> is_trade rep" "learn_owner owner owners rep = owners" by (simp_all add: rep_def is_trade_def learn_owner_def)
  ultimately have answer: "owners_track owners e' \<Longrightarrow> answered owner owners (rep # new, e')" for e'
    using answeredI [of rep owner owners owners new "[]" e'] new by simp
  show ?thesis
  proof (cases "remaining > 0")
    case True
    define e6 where "e6 = (if os_filled_quantity (state_at i e5) > 0 \<and> os_status (state_at i e5) \<noteq> Os_Replaced
      then modify_state i (set_status Os_PartiallyFilled) e5 else e5)"
    obtain ok e7 where rest: "rest_limit_order (state_at i e6) remaining ?ts e6 = (ok, e7)"
      by (cases "rest_limit_order (state_at i e6) remaining ?ts e6")
    have res: "me_replace_order r e = (if ok then (rep # new, e7) else reject_internal i ?ts (rep # new, e7))"
      using shape True by (simp add: Let_def e6_def [symmetric] rest)
    then have "ok" using replace_handled [OF inv, of r] not_internal by (cases ok) auto
    moreover have "owners_track owners e7" using track_rest [OF rest] track_status [OF track5] track5 by (simp add: e6_def)
    ultimately show ?thesis using res answer by simp
  next
    case False
    then show ?thesis using shape answer [OF track5] by simp
  qed
qed

section \<open>The target\<close>

text \<open>The owner an operation's reports are checked for is the client of the request, where there is one.\<close>

lemma step_answered:
  assumes "me_inv e" and "me_next_exchange_order_id e + 1 \<noteq> 0" and "owners_track owners e"
    and "matching_operation index rd = ((q, owner), rd')"
  shows "answered owner owners (me_step q e)"
proof (cases q)
  case (Me_Submit r)
  then have "nr_client_id r = owner"
    using assms(4) by (auto simp: matching_operation_def fuzz_new_order_def Let_def split: prod.splits if_splits)
  then show ?thesis using submit_answered [OF assms(1-3), of r] Me_Submit by simp
next
  case (Me_Cancel r)
  then show ?thesis using cancel_answered [OF assms(1,3)] by simp
next
  case (Me_Replace r)
  then show ?thesis using replace_answered [OF assms(1,3)] by simp
qed

lemma engine_top_apart:
  assumes "me_inv e"
  shows "require_book_ok (me_book e) k = k"
proof -
  have "ob_inv (me_book e)" using assms engine_okD(1) by (simp add: me_inv_def)
  moreover have "top_apart (me_book e)"
    using best_prices_apart(2) [OF assms] by (auto simp: top_apart_def split: option.splits)
  ultimately show ?thesis by (simp add: require_book_clean)
qed

lemma run_operations_return:
  assumes "me_inv e" and "unat (me_next_exchange_order_id e) + n < 2 ^ 64" and "owners_track owners e"
  shows "\<exists>e'. run_operations n index rd e owners = Some e'"
  using assms
proof (induction n arbitrary: index rd e owners)
  case (Suc n)
  obtain q owner rd' where op: "matching_operation index rd = ((q, owner), rd')" by (metis prod.collapse)
  obtain reports e' where s: "me_step q e = (reports, e')" by (cases "me_step q e")
  have nxt: "me_next_exchange_order_id e + 1 \<noteq> 0" using Suc.prems(2) by (intro word_succ_nonzero) simp
  let ?owners = "foldl (learn_owner owner) owners reports"
  have h: "me_inv e'" "unat (me_next_exchange_order_id e') \<le> unat (me_next_exchange_order_id e) + 1"
    using step_handled [OF Suc.prems(1) nxt, of q] by (simp_all add: handled_def s)
  have ans: "answered owner owners (reports, e')" using step_answered [OF Suc.prems(1) nxt Suc.prems(3) op] s by simp
  then have ok: "require_reports_ok reports owners owner = Some ?owners" "owners_track ?owners e'"
    using answered_accepted [OF ans] by (simp_all add: answered_def Let_def)
  have "unat (me_next_exchange_order_id e') + n < 2 ^ 64" using h(2) Suc.prems(2) by simp
  from Suc.IH [OF h(1) this ok(2)] show ?case by (simp add: op s ok(1) engine_top_apart [OF h(1)])
qed simp

text \<open>C40: whatever the bytes, the fuzz target for matching requests returns: none of its expectations on the reports, the
  owners of the two sides of each trade, the book's self-check, the distance of its best prices and the reproducibility of
  the run is ever violated.\<close>

theorem matching_target_returns: "matching_requests_target input = Some 0"
proof -
  have "owners_track [] (me_new 1)" by (simp add: owners_track_def me_new_def)
  moreover have "unat (me_next_exchange_order_id (me_new 1)) + operation_count kMaxMatchingOperations input < 2 ^ 64"
    by (simp add: new_next operation_count_def kMaxMatchingOperations_def)
  ultimately obtain e where "run_operations (operation_count kMaxMatchingOperations input) 0 (br_new input) (me_new 1) [] = Some e"
    using run_operations_return [OF me_inv_new [of 1]] by fastforce
  then show ?thesis by (simp add: matching_requests_target_def run_requests_def)
qed

end
