(* ===== verification/Spec2Isabelle.thy ===== *)
theory Spec2Isabelle
  imports Book_Properties Matching_Properties Event_Log_Correct Replay_Correct Risk_Audit_Log Risk_Rate Spsc_Properties Portfolio_Risk_Correct Broker_Session_Correct Audit_Manifest_Correct
    Synthetic_Correct Model_Metadata_Document Inference_Correct Latency_Budget_Correct Strategies_Correct Fuzz_Matching_Correct
begin

text \<open>
  A verification development for Asterion, a market simulator in C++ (\<^verbatim>\<open>src/cpp\<close>): an order book in
  two implementations, a matching engine on top of it, a replay engine that rebuilds books from recorded market
  data, on one thread or through a bounded queue between two, a pre-trade risk gateway with an audit log, a
  portfolio monitor, a broker session, and a signed manifest over audit log files.

  \<^bold>\<open>Theories and the code they model.\<close> Paths are below \<^verbatim>\<open>include/asterion\<close> and
  \<^verbatim>\<open>src\<close> of \<^verbatim>\<open>src/cpp\<close>.

  \<^item> \<open>Prelude\<close>: type synonyms for \<^verbatim>\<open>core/types.hpp\<close> (ids are words of their width, prices,
    quantities and times integers), ordered maps as association lists, runs of operations, arithmetic on masks.
  \<^item> \<open>Core_Types\<close>, \<open>Checksum\<close>: sides, orders, aggregated views; the FNV-1a checksums of
    \<^verbatim>\<open>core/checksum\<close> on 64-bit words.
  \<^item> \<open>Ladder\<close>: the abstract book, a list of orders per side and price, with its operations; the locale the
    two books implement.
  \<^item> \<open>Order_Book\<close>, \<open>Order_Book_Correct\<close>, \<open>Book_Invariants\<close>: \<^verbatim>\<open>book/order_book\<close>, its
    refinement of the ladder and its own consistency check.
  \<^item> \<open>Flat_Order_Index\<close>, \<open>Pooled_Order_Book\<close>, \<open>Pooled_Shape\<close>, \<open>Pooled_Links\<close>, \<open>Pooled_Invariants\<close> and the two
    \<open>_Correct\<close> theories: \<^verbatim>\<open>book/pooled_order_book\<close>, the open-addressing index and the
    doubly linked queues in a node pool, their refinement of the same ladder, and the check of the links.
  \<^item> \<open>Execution_Report\<close>, \<open>Matching_Engine\<close>, \<open>Matching_Engine_Correct\<close>,
    \<open>Matching_Handlers_Correct\<close>: \<^verbatim>\<open>matching/\<close>, the requests, the matching loop, the reports.
  \<^item> \<open>Market_Event\<close>, \<open>Event_Log\<close>, \<open>Event_Log_Correct\<close>: \<^verbatim>\<open>market_data/event\<close> and
    \<^verbatim>\<open>market_data/event_log\<close>, the CSV and the binary form of recorded events.
  \<^item> \<open>Replay\<close>, \<open>Replay_Correct\<close>: \<^verbatim>\<open>market_data/replay\<close> and
    \<^verbatim>\<open>market_data/multi_symbol_book.hpp\<close>.
  \<^item> \<open>Replay_Aggregate\<close>, \<open>Replay_Parity\<close>, \<open>Replay_Aggregate_Correct\<close>:
    \<^verbatim>\<open>market_data/replay_aggregate\<close>, a stream of several symbols replayed by grouping and in a single
    pass, and the parity report; that the two agree.
  \<^item> \<open>Synthetic_Generator\<close>, \<open>Synthetic_Correct\<close>: \<^verbatim>\<open>market_data/synthetic_generator\<close>,
    with the draws of the random engine as a parameter; that every generated stream replays without an error.
  \<^item> \<open>Risk_Audit\<close>, \<open>Risk_Audit_Correct\<close>: \<^verbatim>\<open>risk/risk_audit\<close>, the trail, the log lines and
    their verification.
  \<^item> \<open>Client_Order_Id_Set\<close>, \<open>Risk_Gateway\<close>, \<open>Risk_Checks\<close>: \<^verbatim>\<open>risk/risk_gateway\<close> with
    \<^verbatim>\<open>risk/limits.hpp\<close> and \<^verbatim>\<open>risk/kill_switch.hpp\<close>; \<open>Risk_Exposure\<close>,
    \<open>Risk_Gateway_Correct\<close>: that the exposure it keeps is exact; \<open>Risk_Audit_Log\<close>: that the log it
    writes verifies; \<open>Risk_Rate\<close>: the sliding message window.
  \<^item> \<open>Spsc_Ring_Buffer\<close>: \<^verbatim>\<open>concurrency/spsc_ring_buffer.hpp\<close>, with the locale of a bounded queue;
    \<open>Spsc_Replay\<close>, \<open>Spsc_Replay_Correct\<close>, \<open>Spsc_Properties\<close>: \<^verbatim>\<open>market_data/spsc_replay\<close>,
    the two threads and the start gate as step functions, the invariant of their shared state, the properties.
  \<^item> \<open>Portfolio_Risk\<close>, \<open>Portfolio_Risk_Correct\<close>: \<^verbatim>\<open>risk/portfolio_risk\<close>, positions and
    profit against the cash of the fills, and the check of an order against the state after it.
  \<^item> \<open>Broker_Session\<close>, \<open>Broker_Session_Correct\<close>: \<^verbatim>\<open>session/broker_session\<close> and the abstract
    lifecycle that its event log follows.
  \<^item> \<open>Hmac_Sha256\<close>, \<open>Hmac_Sha256_Correct\<close>: \<^verbatim>\<open>core/hmac_sha256\<close> against the standards, stated
    on whole messages.
  \<^item> \<open>Audit_Manifest\<close>, \<open>Audit_Manifest_Correct\<close>: \<^verbatim>\<open>risk/audit_manifest\<close>, generation, its
    text form, verification.
  \<^item> \<open>Model_Metadata\<close>, \<open>Model_Metadata_Correct\<close>, \<open>Model_Metadata_Document\<close>:
    \<^verbatim>\<open>inference/model_metadata\<close>, the reader of model descriptions and their validation; flat JSON
    documents and that the reader gives back what they say.
  \<^item> \<open>Inference\<close>, \<open>Inference_Correct\<close>: the rest of \<^verbatim>\<open>inference/\<close> but the ONNX
    adapter: features, linear model, choice of the backend, policy and the gate, against the history of its signals.
  \<^item> \<open>Strategies\<close>, \<open>Strategies_Correct\<close>: \<^verbatim>\<open>strategy/\<close>, the decisions on a view of the
    book, and what becomes of them in the matching engine.
  \<^item> \<open>Latency_Budget\<close>, \<open>Latency_Budget_Correct\<close>: \<^verbatim>\<open>telemetry/\<close>, budgets and their
    report, histogram, counters; what the report says of the durations recorded.
  \<^item> \<open>Fuzz_Targets\<close>, \<open>Fuzz_Targets_Correct\<close>, \<open>Fuzz_Matching_Correct\<close>: the fuzz targets of
    \<^verbatim>\<open>src/cpp/fuzz\<close>, which turn bytes into work for the components and abort on a violated expectation; that
    none of the targets for logs, manifests and matching requests aborts on any input, and on which inputs the one
    for replay does.
  \<^item> \<open>Book_Properties\<close>, \<open>Matching_Properties\<close>, \<open>Risk_Properties\<close> and the \<open>_Correct\<close>
    theories named in the manifest hold the properties.

  \<^bold>\<open>State and effects.\<close> A class is a record of its members; an operation takes the record and returns
  its result with the new record; an early return is a branch. \<^verbatim>\<open>std::map\<close> is a sorted association
  list, \<^verbatim>\<open>std::unordered_map\<close> an association list with distinct keys, pointers into node pools are
  indices, iterators into \<^verbatim>\<open>std::list\<close> are node identities. Files are their contents, with \<open>None\<close>
  for a file that cannot be opened; which paths the audit log can open is a parameter.

  \<^bold>\<open>Threads.\<close> A thread of the concurrent replay is a program counter and a function that makes one
  access to shared memory; a schedule is the list of the threads that step, and the properties hold for every
  schedule. A store is seen by the next step of the other thread: the acquire and release pairs on the two indices of
  the ring order the slot accesses, and every other shared variable has one writer and is only counted. That a
  run ends is shown as: from every reachable state some schedule joins both threads, since no schedule can be forced.

  \<^bold>\<open>Bounds and fuel.\<close> The probe loops of the two hash tables have no bound in the code; they get as many
  steps as the table has slots, \<open>None\<close> is a loop that does not end, and \<open>flat_index_is_a_map\<close> and
  \<open>client_order_id_set_is_a_set\<close> show that it does not occur. Doubling a capacity stops at the first power of
  two above the target; sizes beyond what a vector can hold are excluded by hypothesis. Signed 64-bit arithmetic
  is exact here; where a signed overflow would be undefined in the code, theorems about values that are
  written or parsed ask that they fit. The two loops of the SHA-256 context whose end depends on the buffer are
  partial functions, and \<open>hmac_is_standard\<close> shows that they return.

  \<^bold>\<open>Not modelled.\<close> The Python bindings and the command line tools; allocation counting, clocks and
  latency measurements; the adapter of the ONNX runtime. Floating point is not modelled as such: where the code
  computes with doubles, the definitions hold for any type with the operations used, rounding is a parameter, and
  properties in exact arithmetic say so.
\<close>

end
